(* ===== verification/Prelude.thy ===== *)
theory Prelude
  imports Main "HOL-Library.Word" "HOL-Library.Sublist"
begin

text \<open>
  Shared vocabulary of the development: machine integers, the outcome of a C
  function that may fault, bounds-checked access to byte buffers, byte order,
  the bits of a byte string, and the decimal conversions of the C library
  that the sources use (\<^verbatim>\<open>atoi\<close>, \<^verbatim>\<open>%u\<close>).

  The modelled host is little endian (the \<^verbatim>\<open>IM_LITTLE_ENDIAN\<close> build), IPv6
  support is compiled in (the default of \<^verbatim>\<open>configure.ac\<close>) and \<^verbatim>\<open>malloc\<close>
  succeeds; where the code itself reacts to a failed allocation that reaction
  is an explicit branch of the model.
\<close>

unbundle bit_operations_syntax

named_theorems res_simps \<open>evaluation of computations that may fault\<close>
named_theorems buf_simps \<open>bounds-checked buffer access\<close>
named_theorems byte_order \<open>byte order conversions\<close>

type_synonym byte = "8 word"
type_synonym u16 = "16 word"
type_synonym u32 = "32 word"
type_synonym u64 = "64 word"

section \<open>Outcomes of C functions\<close>

text \<open>
  A computation yields a value (\<^term>\<open>Inr\<close>) or the fault that stops it: an
  access outside a buffer, a null or dangling pointer, a division by zero, a failed \<^verbatim>\<open>assert\<close>, a
  call of \<^verbatim>\<open>exit_all\<close>, or a loop bound of the model that was too small.
\<close>

datatype fault =
    Null_Deref | Out_Of_Bounds | Use_After_Free | Div_By_Zero | Assert_Failed | Exit_All | No_Fuel

type_synonym 'a res = "fault + 'a"

text \<open>Addresses of heap objects.\<close>

type_synonym addr = nat

definition rbind :: "'a res \<Rightarrow> ('a \<Rightarrow> 'b res) \<Rightarrow> 'b res" where
  "rbind m f = (case m of Inl e \<Rightarrow> Inl e | Inr x \<Rightarrow> f x)"

definition rassert :: "bool \<Rightarrow> fault \<Rightarrow> unit res" where
  "rassert b e = (if b then Inr () else Inl e)"

lemma rbind_simps [simp, res_simps]:
  "rbind (Inl e) f = Inl e"
  "rbind (Inr x) f = f x"
  by (simp_all add: rbind_def)

lemma rbind_eq_Inr [simp]: "rbind m f = Inr y \<longleftrightarrow> (\<exists>x. m = Inr x \<and> f x = Inr y)"
  by (cases m) simp_all

lemma rbind_totalI: "\<exists>x. m = Inr x \<Longrightarrow> (\<And>x. m = Inr x \<Longrightarrow> \<exists>y. f x = Inr y) \<Longrightarrow> \<exists>y. rbind m f = Inr y"
  by auto

lemma rbind_assoc: "rbind (rbind m f) g = rbind m (\<lambda>x. rbind (f x) g)"
  by (cases m) simp_all

lemma rbind_cong [fundef_cong]:
  "m = m' \<Longrightarrow> (\<And>x. m' = Inr x \<Longrightarrow> f x = f' x) \<Longrightarrow> rbind m f = rbind m' f'"
  by (cases m') simp_all

lemma rassert_simps [simp, res_simps]:
  "rassert True e = Inr ()"
  "rassert False e = Inl e"
  by (simp_all add: rassert_def)

lemma rassert_eq_Inr [simp]: "rassert b e = Inr u \<longleftrightarrow> b"
  by (cases b) simp_all

section \<open>Byte buffers\<close>

definition rd8 :: "byte list \<Rightarrow> nat \<Rightarrow> byte res" where
  "rd8 xs i = (if i < length xs then Inr (xs ! i) else Inl Out_Of_Bounds)"

definition wr8 :: "byte list \<Rightarrow> nat \<Rightarrow> byte \<Rightarrow> byte list res" where
  "wr8 xs i b = (if i < length xs then Inr (xs[i := b]) else Inl Out_Of_Bounds)"

lemma rd8_in [simp, buf_simps]: "i < length xs \<Longrightarrow> rd8 xs i = Inr (xs ! i)"
  by (simp add: rd8_def)

lemma rd8_out [simp]: "length xs \<le> i \<Longrightarrow> rd8 xs i = Inl Out_Of_Bounds"
  by (simp add: rd8_def)

lemma rd8_eq_Inr: "rd8 xs i = Inr b \<longleftrightarrow> i < length xs \<and> b = xs ! i"
  by (auto simp: rd8_def)

lemma wr8_in [simp, buf_simps]: "i < length xs \<Longrightarrow> wr8 xs i b = Inr (xs[i := b])"
  by (simp add: wr8_def)

lemma wr8_out [simp]: "length xs \<le> i \<Longrightarrow> wr8 xs i b = Inl Out_Of_Bounds"
  by (simp add: wr8_def)

text \<open>Block copies out of and into a buffer, and \<^verbatim>\<open>realloc\<close>; fresh bytes are shown as 0.\<close>

definition rd_mem :: "byte list \<Rightarrow> nat \<Rightarrow> nat \<Rightarrow> byte list res" where
  "rd_mem xs i n = (if i + n \<le> length xs then Inr (take n (drop i xs)) else Inl Out_Of_Bounds)"

definition wr_mem :: "byte list \<Rightarrow> nat \<Rightarrow> byte list \<Rightarrow> byte list res" where
  "wr_mem xs i ys =
     (if i + length ys \<le> length xs then Inr (take i xs @ ys @ drop (i + length ys) xs) else Inl Out_Of_Bounds)"

definition realloc :: "byte list \<Rightarrow> nat \<Rightarrow> byte list" where
  "realloc xs n = take n xs @ replicate (n - length xs) 0"

lemma rd_mem_in [simp, buf_simps]: "i + n \<le> length xs \<Longrightarrow> rd_mem xs i n = Inr (take n (drop i xs))"
  by (simp add: rd_mem_def)

lemma wr_mem_in [simp, buf_simps]:
  "i + length ys \<le> length xs \<Longrightarrow> wr_mem xs i ys = Inr (take i xs @ ys @ drop (i + length ys) xs)"
  by (simp add: wr_mem_def)

lemma rd_mem_out: "length xs < i + n \<Longrightarrow> rd_mem xs i n = Inl Out_Of_Bounds"
  by (simp add: rd_mem_def)

section \<open>Byte order\<close>

definition be16 :: "byte \<Rightarrow> byte \<Rightarrow> u16" where
  "be16 a b = word_of_nat (unat a * 256 + unat b)"

definition be32 :: "byte \<Rightarrow> byte \<Rightarrow> byte \<Rightarrow> byte \<Rightarrow> u32" where
  "be32 a b c d =
     word_of_nat (((unat a * 256 + unat b) * 256 + unat c) * 256 + unat d)"

definition put_be16 :: "u16 \<Rightarrow> byte list" where
  "put_be16 w = [word_of_nat (unat w div 256), word_of_nat (unat w)]"

definition put_be32 :: "u32 \<Rightarrow> byte list" where
  "put_be32 w = [word_of_nat (unat w div 256 ^ 3), word_of_nat (unat w div 256 ^ 2),
                 word_of_nat (unat w div 256), word_of_nat (unat w)]"

text \<open>\<^verbatim>\<open>memcpy\<close> of two or four bytes followed by \<^verbatim>\<open>ntohs\<close>/\<^verbatim>\<open>ntohl\<close>.\<close>

definition rd_be16 :: "byte list \<Rightarrow> nat \<Rightarrow> u16 res" where
  "rd_be16 xs i = rbind (rd8 xs i) (\<lambda>a. rbind (rd8 xs (i + 1)) (\<lambda>b. Inr (be16 a b)))"

definition rd_be32 :: "byte list \<Rightarrow> nat \<Rightarrow> u32 res" where
  "rd_be32 xs i =
     rbind (rd8 xs i) (\<lambda>a. rbind (rd8 xs (i + 1)) (\<lambda>b.
     rbind (rd8 xs (i + 2)) (\<lambda>c. rbind (rd8 xs (i + 3)) (\<lambda>d. Inr (be32 a b c d)))))"

text \<open>\<^verbatim>\<open>htonl\<close> and \<^verbatim>\<open>ntohl\<close> on the little-endian host: the four bytes are reversed.\<close>

definition bswap32 :: "u32 \<Rightarrow> u32" where
  "bswap32 w = (let b = put_be32 w in be32 (b ! 3) (b ! 2) (b ! 1) (b ! 0))"

definition bswap16 :: "u16 \<Rightarrow> u16" where
  "bswap16 w = (let b = put_be16 w in be16 (b ! 1) (b ! 0))"

lemma unat_byte_less: "unat (b :: byte) < 256"
  using unsigned_less [of b, where ?'a = nat] by simp

lemma unat_u16_less: "unat (w :: u16) < 65536"
  using unsigned_less [of w, where ?'a = nat] by simp

lemma unat_u32_less: "unat (w :: u32) < 256 ^ 4"
  using unsigned_less [of w, where ?'a = nat] by simp

lemma byte_of_nat_eq: "word_of_nat n = (b :: byte) \<longleftrightarrow> n mod 256 = unat b"
proof -
  have "unat (word_of_nat n :: byte) = n mod 256"
    by (simp only: unat_of_nat) simp
  then show ?thesis by (simp only: word_unat_eq_iff)
qed

lemma unat_byte_of_nat: "unat (word_of_nat n :: byte) = n mod 256"
  by (simp only: unat_of_nat) simp

lemma unat_be16 [byte_order]: "unat (be16 a b) = unat a * 256 + unat b"
proof -
  have "unat a < 256" "unat b < 256"
    by (rule unat_byte_less)+
  then have "unat a * 256 + unat b < 65536" by simp
  then show ?thesis by (simp only: be16_def unat_of_nat) simp
qed

lemma unat_be32 [byte_order]:
  "unat (be32 a b c d) = ((unat a * 256 + unat b) * 256 + unat c) * 256 + unat d"
proof -
  have "unat a < 256" "unat b < 256" "unat c < 256" "unat d < 256"
    by (rule unat_byte_less)+
  then have "((unat a * 256 + unat b) * 256 + unat c) * 256 + unat d < 2 ^ 32" by simp
  then show ?thesis by (simp only: be32_def unat_of_nat) simp
qed

lemma put_be16_be16 [byte_order]: "put_be16 (be16 a b) = [a, b]"
proof -
  have "unat a < 256" "unat b < 256"
    by (rule unat_byte_less)+
  then show ?thesis
    by (simp add: put_be16_def unat_be16 byte_of_nat_eq del: of_nat_add of_nat_mult)
qed

lemma be16_put [byte_order]:
  "be16 (word_of_nat (unat w div 256)) (word_of_nat (unat w)) = w"
proof -
  have "unat w < 65536" by (rule unat_u16_less)
  then have "unat (be16 (word_of_nat (unat w div 256)) (word_of_nat (unat w))) = unat w"
    by (simp add: unat_be16 unat_byte_of_nat del: of_nat_unat)
  then show ?thesis by (simp only: word_unat_eq_iff)
qed

lemma digits256:
  fixes n :: nat
  assumes "n < 256 ^ 4"
  shows "((n div 256 ^ 3 mod 256 * 256 + n div 256 ^ 2 mod 256) * 256 + n div 256 mod 256) * 256
          + n mod 256 = n"
proof -
  have 2: "n div 256 ^ 2 = n div 256 div 256" by (simp add: div_mult2_eq [symmetric])
  have 3: "n div 256 ^ 3 = n div 256 div 256 div 256" by (simp add: div_mult2_eq [symmetric])
  have 4: "n div 256 div 256 div 256 < 256" using assms by (simp add: div_mult2_eq [symmetric])
  show ?thesis unfolding 2 3 using 4 by simp
qed

lemma be32_put [byte_order]:
  "be32 (word_of_nat (unat w div 256 ^ 3)) (word_of_nat (unat w div 256 ^ 2))
        (word_of_nat (unat w div 256)) (word_of_nat (unat w)) = w"
  by (simp only: word_unat_eq_iff unat_be32 unat_byte_of_nat digits256 unat_u32_less)

lemma put_be32_be32 [byte_order]: "put_be32 (be32 a b c d) = [a, b, c, d]"
proof -
  have lt: "unat a < 256" "unat b < 256" "unat c < 256" "unat d < 256"
    by (rule unat_byte_less)+
  let ?n = "((unat a * 256 + unat b) * 256 + unat c) * 256 + unat d"
  have "?n div 256 ^ 3 = unat a" "?n div 256 ^ 2 = unat a * 256 + unat b"
    "?n div 256 = (unat a * 256 + unat b) * 256 + unat c"
    using lt by simp_all
  then show ?thesis
    using lt by (simp only: put_be32_def unat_be32 byte_of_nat_eq list.inject mod_mult_self3 mod_less)
qed

lemma bswap32_put: "put_be32 (bswap32 w) = rev (put_be32 w)"
  by (simp only: bswap32_def Let_def put_be32_be32) (simp add: put_be32_def)

lemma be32_nth_put: "be32 (put_be32 w ! 0) (put_be32 w ! 1) (put_be32 w ! 2) (put_be32 w ! 3) = w"
  by (simp only: put_be32_def nth_Cons_0 nth_Cons_numeral One_nat_def nth_Cons_Suc
      numeral_2_eq_2 numeral_3_eq_3)
     (simp only: be32_put [unfolded numeral_2_eq_2 numeral_3_eq_3])

lemma bswap32_bswap32 [simp, byte_order]: "bswap32 (bswap32 w) = w"
proof -
  have "length (put_be32 w) = 4" by (simp add: put_be32_def)
  then have "bswap32 (bswap32 w) =
      be32 (put_be32 w ! 0) (put_be32 w ! 1) (put_be32 w ! 2) (put_be32 w ! 3)"
    by (simp add: bswap32_def [of "bswap32 w"] Let_def bswap32_put rev_nth)
  then show ?thesis by (simp only: be32_nth_put)
qed

text \<open>Arrays of 32-bit values in network byte order.\<close>

definition be_words :: "u32 list \<Rightarrow> byte list" where
  "be_words vs = concat (map put_be32 vs)"

lemma length_put_be32 [simp]: "length (put_be32 w) = 4"
  by (simp add: put_be32_def)

lemma be_words_simps [simp]:
  "be_words [] = []" "be_words (v # vs) = put_be32 v @ be_words vs" "be_words (vs @ ws) = be_words vs @ be_words ws"
  "length (be_words vs) = 4 * length vs"
  by (simp_all add: be_words_def) (induction vs; simp)

lemma be_words_Nil [simp]: "be_words vs = [] \<longleftrightarrow> vs = []" "[] = be_words vs \<longleftrightarrow> vs = []"
  by (metis be_words_simps(1,4) length_0_conv mult_is_0 zero_neq_numeral)+

lemma drop_be_words: "drop (4 * n) (be_words vs) = be_words (drop n vs)"
proof (induction n arbitrary: vs)
  case (Suc n)
  then show ?case by (cases vs) simp_all
qed simp

lemma take_be_words: "take (4 * n) (be_words vs) = be_words (take n vs)"
proof (induction n arbitrary: vs)
  case (Suc n)
  then show ?case by (cases vs) simp_all
qed simp

lemma put_be32_inject [simp]: "put_be32 v = put_be32 w \<longleftrightarrow> v = w"
  by (metis be32_nth_put)

lemma be_words_inject [simp]: "be_words vs = be_words ws \<longleftrightarrow> vs = ws"
proof (induction vs arbitrary: ws)
  case Nil
  have "be_words ws \<noteq> []" if "ws \<noteq> []"
    using that by (metis be_words_simps(4) length_0_conv mult_is_0 zero_neq_numeral)
  then show ?case by (cases ws) force+
next
  case (Cons v vs)
  show ?case
  proof (cases ws)
    case Nil
    then show ?thesis by (metis be_words_simps(1,4) length_0_conv list.distinct(1) mult_is_0 zero_neq_numeral)
  next
    case (Cons w ws')
    then show ?thesis using Cons.IH [of ws'] by simp
  qed
qed

lemma rd_be32_eq: "i + 4 \<le> length xs \<Longrightarrow> take 4 (drop i xs) = put_be32 w \<Longrightarrow> rd_be32 xs i = Inr w"
proof -
  assume i: "i + 4 \<le> length xs" and t: "take 4 (drop i xs) = put_be32 w"
  have "xs ! (i + j) = put_be32 w ! j" if "j < 4" for j
    using arg_cong [OF t, of "\<lambda>ys. ys ! j"] that i by simp
  from this [of 0] this [of 1] this [of 2] this [of 3] i show ?thesis
    using be32_nth_put [of w] by (simp add: rd_be32_def)
qed

lemma length_put_be16 [simp]: "length (put_be16 w) = 2"
  by (simp add: put_be16_def)

lemma rd_be16_eq: "i + 2 \<le> length xs \<Longrightarrow> take 2 (drop i xs) = put_be16 w \<Longrightarrow> rd_be16 xs i = Inr w"
proof -
  assume i: "i + 2 \<le> length xs" and t: "take 2 (drop i xs) = put_be16 w"
  have "xs ! (i + j) = put_be16 w ! j" if "j < 2" for j
    using arg_cong [OF t, of "\<lambda>ys. ys ! j"] that i by simp
  from this [of 0] this [of 1] i show ?thesis
    using be16_put [of w] by (simp add: rd_be16_def put_be16_def)
qed

lemma take_drop_be_words:
  assumes "take (4 * length vs) b = be_words vs" "i < length vs"
  shows "take 4 (drop (4 * i) b) = put_be32 (vs ! i)" "4 * i + 4 \<le> length b"
proof -
  have l: "4 * length vs \<le> length b" using arg_cong [OF assms(1), of length] by simp
  then show "4 * i + 4 \<le> length b" using assms(2) by simp
  have "take 4 (drop (4 * i) b) = take 4 (drop (4 * i) (take (4 * length vs) b))"
    using assms(2) by (simp add: take_drop min_def)
  then show "take 4 (drop (4 * i) b) = put_be32 (vs ! i)"
    using assms by (simp add: drop_be_words Cons_nth_drop_Suc [symmetric])
qed

lemma rd_be32_words:
  assumes "take (4 * length vs) b = be_words vs" "i < length vs"
  shows "rd_be32 b (4 * i) = Inr (vs ! i)"
  using take_drop_be_words [OF assms] by (intro rd_be32_eq)

section \<open>The bits of a byte string\<close>

text \<open>Most significant bit first, the order in which prefixes are read.\<close>

definition byte_bits :: "byte \<Rightarrow> bool list" where
  "byte_bits b = map (\<lambda>i. bit b (7 - i)) [0..<8]"

definition bits_of :: "byte list \<Rightarrow> bool list" where
  "bits_of xs = concat (map byte_bits xs)"

lemma length_byte_bits [simp]: "length (byte_bits b) = 8"
  by (simp add: byte_bits_def)

lemma nth_byte_bits [simp]: "i < 8 \<Longrightarrow> byte_bits b ! i = bit b (7 - i)"
  by (simp add: byte_bits_def)

lemma byte_bits_inject [simp]: "byte_bits a = byte_bits b \<longleftrightarrow> a = b"
proof
  assume eq: "byte_bits a = byte_bits b"
  show "a = b"
  proof (rule bit_word_eqI)
    fix n assume "n < LENGTH(8)"
    then have "7 - n < 8" "7 - (7 - n) = n" by simp_all
    then show "bit a n = bit b n" using eq nth_byte_bits [of "7 - n"] by metis
  qed
qed simp

lemma bits_of_simps [simp]:
  "bits_of [] = []"
  "bits_of (x # xs) = byte_bits x @ bits_of xs"
  by (simp_all add: bits_of_def)

lemma bits_of_append [simp]: "bits_of (xs @ ys) = bits_of xs @ bits_of ys"
  by (simp add: bits_of_def)

lemma length_bits_of [simp]: "length (bits_of xs) = 8 * length xs"
  by (induction xs) simp_all

lemma take_bits_of: "take (8 * n) (bits_of xs) = bits_of (take n xs)"
proof (induction xs arbitrary: n)
  case (Cons x xs)
  then show ?case by (cases n) simp_all
qed simp

lemma bits_of_inject: "length xs = length ys \<Longrightarrow> bits_of xs = bits_of ys \<longleftrightarrow> xs = ys"
  by (induction rule: list_induct2) simp_all

lemma drop_bits_of: "drop (8 * n) (bits_of xs) = bits_of (drop n xs)"
proof (induction xs arbitrary: n)
  case (Cons x xs)
  then show ?case by (cases n) simp_all
qed simp

lemma nth_bits_of:
  assumes "i < 8 * length xs"
  shows "bits_of xs ! i = bit (xs ! (i div 8)) (7 - i mod 8)"
proof -
  let ?q = "i div 8" and ?r = "i mod 8"
  have q: "?q < length xs" using assms by (simp add: less_mult_imp_div_less mult.commute)
  have "bits_of xs ! i = drop (8 * ?q) (bits_of xs) ! ?r"
    using assms by (subst nth_drop) simp_all
  also have "\<dots> = bits_of (drop ?q xs) ! ?r" by (simp only: drop_bits_of)
  also have "drop ?q xs = xs ! ?q # drop (Suc ?q) xs" using q by (simp add: Cons_nth_drop_Suc)
  finally show ?thesis by (simp add: nth_append)
qed

lemma take_bits_of_split:
  assumes "k div 8 < length xs"
  shows "take k (bits_of xs) = bits_of (take (k div 8) xs) @ take (k mod 8) (byte_bits (xs ! (k div 8)))"
proof -
  have "take k (bits_of xs) = take (8 * (k div 8) + k mod 8) (bits_of xs)" by simp
  also have "\<dots> = bits_of (take (k div 8) xs) @ take (k mod 8) (bits_of (drop (k div 8) xs))"
    by (simp only: take_add take_bits_of drop_bits_of)
  also have "drop (k div 8) xs = xs ! (k div 8) # drop (Suc (k div 8)) xs"
    using assms by (simp add: Cons_nth_drop_Suc)
  finally show ?thesis by simp
qed

section \<open>Decimal text\<close>

definition c_isdigit :: "char \<Rightarrow> bool" where
  "c_isdigit c \<longleftrightarrow> 48 \<le> (of_char c :: nat) \<and> (of_char c :: nat) \<le> 57"

definition c_isspace :: "char \<Rightarrow> bool" where
  "c_isspace c \<longleftrightarrow> (of_char c :: nat) = 32 \<or> 9 \<le> (of_char c :: nat) \<and> (of_char c :: nat) \<le> 13"

definition digit_char :: "nat \<Rightarrow> char" where
  "digit_char d = char_of (48 + d)"

fun dec_str :: "nat \<Rightarrow> string" where
  "dec_str n = (if n < 10 then [digit_char n] else dec_str (n div 10) @ [digit_char (n mod 10)])"

fun digits_val :: "nat \<Rightarrow> string \<Rightarrow> nat" where
  "digits_val acc [] = acc"
| "digits_val acc (c # cs) =
     (if c_isdigit c then digits_val (acc * 10 + (of_char c - 48)) cs else acc)"

definition atoi :: "string \<Rightarrow> int" where
  "atoi s = (case dropWhile c_isspace s of
       [] \<Rightarrow> 0
     | c # cs \<Rightarrow> if c = CHR ''-'' then - int (digits_val 0 cs)
                else if c = CHR ''+'' then int (digits_val 0 cs)
                else int (digits_val 0 (c # cs)))"

declare dec_str.simps [simp del]

text \<open>Evaluation on numerals.\<close>

lemma digit_char_eval:
  "digit_char 0 = CHR ''0''" "digit_char 1 = CHR ''1''" "digit_char (Suc 0) = CHR ''1''"
  "digit_char 2 = CHR ''2''" "digit_char 3 = CHR ''3''" "digit_char 4 = CHR ''4''" "digit_char 5 = CHR ''5''"
  "digit_char 6 = CHR ''6''" "digit_char 7 = CHR ''7''" "digit_char 8 = CHR ''8''" "digit_char 9 = CHR ''9''"
  by code_simp+

lemmas dec_str_eval = digit_char_eval dec_str.simps [of "numeral k" for k] dec_str.simps [of 0] dec_str.simps [of 1]

lemma of_char_digit: "d < 10 \<Longrightarrow> (of_char (digit_char d) :: nat) = 48 + d"
  by (simp add: digit_char_def)

lemma digit_char_class:
  assumes "d < 10"
  shows "c_isdigit (digit_char d)" "\<not> c_isspace (digit_char d)"
    "digit_char d \<noteq> CHR ''-''" "digit_char d \<noteq> CHR ''+''"
proof -
  show "c_isdigit (digit_char d)" "\<not> c_isspace (digit_char d)"
    using assms by (simp_all add: c_isdigit_def c_isspace_def of_char_digit)
  have "(of_char (digit_char d) :: nat) \<noteq> of_char (CHR ''-'')"
    "(of_char (digit_char d) :: nat) \<noteq> of_char (CHR ''+'')"
    using assms by (simp_all add: of_char_digit)
  then show "digit_char d \<noteq> CHR ''-''" "digit_char d \<noteq> CHR ''+''" by auto
qed

lemma digits_val_append:
  "list_all c_isdigit xs \<Longrightarrow> digits_val acc (xs @ ys) = digits_val (digits_val acc xs) ys"
  by (induction xs arbitrary: acc) simp_all

lemma dec_str_digits: "list_all c_isdigit (dec_str n)"
proof (induction n rule: dec_str.induct)
  case (1 n)
  then show ?case
    by (cases "n < 10") (simp_all add: dec_str.simps [of n] digit_char_class)
qed

lemma digits_val_dec_str: "digits_val 0 (dec_str n) = n"
proof (induction n rule: dec_str.induct)
  case (1 n)
  then show ?case
    by (cases "n < 10")
       (simp_all add: dec_str.simps [of n] digits_val_append dec_str_digits digit_char_class
         of_char_digit)
qed

lemma dec_str_Cons: "\<exists>d cs. d < 10 \<and> dec_str n = digit_char d # cs"
proof (induction n rule: dec_str.induct)
  case (1 n)
  show ?case
  proof (cases "n < 10")
    case True
    then show ?thesis by (subst dec_str.simps) auto
  next
    case False
    with 1 obtain d cs where "d < 10" "dec_str (n div 10) = digit_char d # cs" by blast
    with False show ?thesis by (subst dec_str.simps) auto
  qed
qed

lemma atoi_dec_str: "atoi (dec_str n) = int n"
proof -
  obtain d cs where d: "d < 10" "dec_str n = digit_char d # cs" using dec_str_Cons by blast
  then have "atoi (dec_str n) = int (digits_val 0 (dec_str n))"
    by (simp add: atoi_def digit_char_class)
  then show ?thesis by (simp add: digits_val_dec_str)
qed

lemma length_dec_str_bound: "n < 10 ^ Suc k \<Longrightarrow> length (dec_str n) \<le> Suc k"
proof (induction k arbitrary: n)
  case 0
  then show ?case by (subst dec_str.simps) simp
next
  case (Suc k)
  show ?case
  proof (cases "n < 10")
    case True
    then show ?thesis by (subst dec_str.simps) simp
  next
    case False
    have "n div 10 < 10 ^ Suc k" using Suc.prems by (simp add: less_mult_imp_div_less mult.commute)
    then have "length (dec_str (n div 10)) \<le> Suc k" by (rule Suc.IH)
    with False show ?thesis by (subst dec_str.simps) simp
  qed
qed

end
