(* ===== verification/Bgp_Prefix.thy ===== *)
theory Bgp_Prefix
  imports Prelude
begin

text \<open>
  Model of \<^verbatim>\<open>src/src/bgp/bgp_prefix.c\<close>: address prefixes of the BGP daemon.
  A prefix carries its address as the bytes of the union \<^verbatim>\<open>u\<close>; every access to
  them is bounds checked. The lemmas relate the byte-wise routines to the bit
  string \<open>pfx_bits\<close> a prefix denotes.
\<close>

section \<open>Data\<close>

definition AF_UNSPEC :: byte where "AF_UNSPEC = 0"
definition AF_INET :: byte where "AF_INET = 2"
definition AF_INET6 :: byte where "AF_INET6 = 10"

lemmas af_defs = AF_UNSPEC_def AF_INET_def AF_INET6_def

definition AFI_IP :: "'a :: numeral" where "AFI_IP = 1"
definition AFI_IP6 :: "'a :: numeral" where "AFI_IP6 = 2"

text \<open>
  \<^verbatim>\<open>struct prefix\<close>: \<open>pfx_u\<close> holds the bytes of the union, sixteen for a full
  \<^verbatim>\<open>struct prefix\<close>, eight (address and padding) for a \<^verbatim>\<open>struct prefix_ipv4\<close> seen
  through a cast. \<open>pfx_len\<close> is the \<^verbatim>\<open>u_char\<close> \<^verbatim>\<open>prefixlen\<close>, at most 255.
\<close>

record prefix_t =
  pfx_family :: byte
  pfx_len :: nat
  pfx_u :: "byte list"

definition maskbit :: "byte list" where
  "maskbit = [0x00, 0x80, 0xc0, 0xe0, 0xf0, 0xf8, 0xfc, 0xfe, 0xff]"

definition IPV4_MAX_PREFIXLEN :: nat where "IPV4_MAX_PREFIXLEN = 32"
definition IPV6_MAX_PREFIXLEN :: nat where "IPV6_MAX_PREFIXLEN = 128"

section \<open>Operations\<close>

definition afi2family :: "int \<Rightarrow> byte" where
  "afi2family afi = (if afi = AFI_IP then AF_INET else if afi = AFI_IP6 then AF_INET6 else 0)"

definition family2afi :: "byte \<Rightarrow> int" where
  "family2afi family =
     (if family = AF_INET then AFI_IP else if family = AF_INET6 then AFI_IP6 else 0)"

text \<open>The loop \<^verbatim>\<open>while (offset--) if (np[offset] != pp[offset]) return 0;\<close>.\<close>

fun bytes_agree :: "byte list \<Rightarrow> byte list \<Rightarrow> nat \<Rightarrow> bool res" where
  "bytes_agree np pp 0 = Inr True"
| "bytes_agree np pp (Suc offset) =
     rbind (rd8 np offset) (\<lambda>a. rbind (rd8 pp offset) (\<lambda>b.
       if a \<noteq> b then Inr False else bytes_agree np pp offset))"

text \<open>The two comparisons \<open>prefix_match\<close> and \<open>prefix_cmp\<close> share: whether the first
  \<open>len\<close> bits of the two byte strings agree.\<close>

definition bits_agree :: "nat \<Rightarrow> byte list \<Rightarrow> byte list \<Rightarrow> bool res" where
  "bits_agree len np pp =
     (let offset = len div 8; shift = len mod 8 in
      if shift \<noteq> 0 then
        rbind (rd8 np offset) (\<lambda>a. rbind (rd8 pp offset) (\<lambda>b.
          if maskbit ! shift AND (a XOR b) \<noteq> 0 then Inr False
          else bytes_agree np pp offset))
      else bytes_agree np pp offset)"

definition prefix_match :: "prefix_t \<Rightarrow> prefix_t \<Rightarrow> bool res" where
  "prefix_match n p =
     (if pfx_len n > pfx_len p then Inr False
      else bits_agree (pfx_len n) (pfx_u n) (pfx_u p))"

text \<open>\<^verbatim>\<open>prefix_copy\<close> copies the family, the length and the family's address
  bytes into the destination; an unknown family is an assertion failure.\<close>

definition prefix_copy :: "prefix_t \<Rightarrow> prefix_t \<Rightarrow> prefix_t res" where
  "prefix_copy dest src =
     (let n = (if pfx_family src = AF_INET then Some 4
               else if pfx_family src = AF_INET6 then Some 16
               else if pfx_family src = AF_UNSPEC then Some 8 else None)
      in case n of None \<Rightarrow> Inl Assert_Failed
         | Some k \<Rightarrow>
             if k \<le> length (pfx_u src) \<and> k \<le> length (pfx_u dest)
             then Inr (dest\<lparr>pfx_family := pfx_family src, pfx_len := pfx_len src,
                            pfx_u := take k (pfx_u src) @ drop k (pfx_u dest)\<rparr>)
             else Inl Out_Of_Bounds)"

definition prefix_same :: "prefix_t \<Rightarrow> prefix_t \<Rightarrow> bool" where
  "prefix_same p1 p2 =
     (pfx_family p1 = pfx_family p2 \<and> pfx_len p1 = pfx_len p2 \<and>
      (pfx_family p1 = AF_INET \<and> take 4 (pfx_u p1) = take 4 (pfx_u p2) \<or>
       pfx_family p1 = AF_INET6 \<and> take 16 (pfx_u p1) = take 16 (pfx_u p2)))"

text \<open>Result as in the source: 0 for equal prefixes, 1 otherwise.\<close>

definition prefix_cmp :: "prefix_t \<Rightarrow> prefix_t \<Rightarrow> int res" where
  "prefix_cmp p1 p2 =
     (if pfx_family p1 \<noteq> pfx_family p2 \<or> pfx_len p1 \<noteq> pfx_len p2 then Inr 1
      else rbind (bits_agree (pfx_len p1) (pfx_u p1) (pfx_u p2))
             (\<lambda>eq. Inr (if eq then 0 else 1)))"

definition prefix_family_str :: "prefix_t \<Rightarrow> string" where
  "prefix_family_str p =
     (if pfx_family p = AF_INET then ''inet''
      else if pfx_family p = AF_INET6 then ''inet6'' else ''unspec'')"

definition prefix_new :: prefix_t where
  "prefix_new = \<lparr>pfx_family = 0, pfx_len = 0, pfx_u = replicate 16 0\<rparr>"

definition prefix_ipv4_new :: prefix_t where
  "prefix_ipv4_new = prefix_new\<lparr>pfx_family := AF_INET\<rparr>"

definition prefix_ipv6_new :: prefix_t where
  "prefix_ipv6_new = prefix_new\<lparr>pfx_family := AF_INET6\<rparr>"

text \<open>Store \<open>bs\<close> at the start of the union.\<close>

definition set_addr :: "byte list \<Rightarrow> prefix_t \<Rightarrow> prefix_t" where
  "set_addr bs p = p\<lparr>pfx_u := bs @ drop (length bs) (pfx_u p)\<rparr>"

text \<open>
  \<^verbatim>\<open>str2prefix_ipv4\<close>. The library call \<^verbatim>\<open>inet_aton\<close> is the parameter \<open>aton\<close>: the
  four address bytes, or \<^term>\<open>None\<close> where it returns 0. The result is the value
  returned and the prefix as left behind; after a slash the prefix length is
  read (\<^verbatim>\<open>(u_char) atoi\<close>) even if the address did not parse.
\<close>

definition str2prefix_ipv4 ::
    "(string \<Rightarrow> byte list option) \<Rightarrow> string \<Rightarrow> prefix_t \<Rightarrow> bool \<times> prefix_t" where
  "str2prefix_ipv4 aton str p =
     (if CHR ''/'' \<notin> set str then
        (case aton str of
           None \<Rightarrow> (False, p)
         | Some a \<Rightarrow> (True, (set_addr a p)\<lparr>pfx_family := AF_INET, pfx_len := 32\<rparr>))
      else
        let cp = takeWhile (\<lambda>c. c \<noteq> CHR ''/'') str;
            pnt = tl (dropWhile (\<lambda>c. c \<noteq> CHR ''/'') str);
            ret = aton cp;
            p1 = (case ret of None \<Rightarrow> p | Some a \<Rightarrow> set_addr a p);
            plen = nat (atoi pnt mod 256)
        in if plen > IPV4_MAX_PREFIXLEN then (False, p1)
           else (ret \<noteq> None, p1\<lparr>pfx_family := AF_INET, pfx_len := plen\<rparr>))"

text \<open>\<^verbatim>\<open>str2prefix_ipv6\<close>, with \<^verbatim>\<open>inet_pton(AF_INET6, ...)\<close> as the parameter \<open>pton\<close>.\<close>

definition str2prefix_ipv6 ::
    "(string \<Rightarrow> byte list option) \<Rightarrow> string \<Rightarrow> prefix_t \<Rightarrow> bool \<times> prefix_t" where
  "str2prefix_ipv6 pton str p =
     (if CHR ''/'' \<notin> set str then
        (case pton str of
           None \<Rightarrow> (False, p)
         | Some a \<Rightarrow> (True, (set_addr a p)\<lparr>pfx_len := 128, pfx_family := AF_INET6\<rparr>))
      else
        let cp = takeWhile (\<lambda>c. c \<noteq> CHR ''/'') str;
            pnt = tl (dropWhile (\<lambda>c. c \<noteq> CHR ''/'') str)
        in case pton cp of
             None \<Rightarrow> (False, p)
           | Some a \<Rightarrow>
               let plen = nat (atoi pnt mod 256) in
               if plen > 128 then (False, set_addr a p)
               else (True, (set_addr a p)\<lparr>pfx_len := plen, pfx_family := AF_INET6\<rparr>))"

definition str2prefix ::
    "(string \<Rightarrow> byte list option) \<Rightarrow> (string \<Rightarrow> byte list option) \<Rightarrow> string \<Rightarrow> prefix_t
     \<Rightarrow> bool \<times> prefix_t" where
  "str2prefix aton pton str p =
     (let (ret, p1) = str2prefix_ipv4 aton str p in
      if ret then (True, p1)
      else let (ret6, p2) = str2prefix_ipv6 pton str p1 in (ret6, p2))"

text \<open>\<^verbatim>\<open>masklen2ip\<close> and \<^verbatim>\<open>masklen2ip6\<close>: \<open>n\<close> is the size of the address. The loop
  writes \<^verbatim>\<open>0xff\<close> from index \<open>i\<close> on, \<open>offset\<close> times.\<close>

fun fill_ff :: "byte list \<Rightarrow> nat \<Rightarrow> nat \<Rightarrow> byte list res" where
  "fill_ff xs i 0 = Inr xs"
| "fill_ff xs i (Suc offset) = rbind (wr8 xs i 0xff) (\<lambda>ys. fill_ff ys (Suc i) offset)"

definition masklen2bytes :: "nat \<Rightarrow> nat \<Rightarrow> byte list res" where
  "masklen2bytes n masklen =
     (let offset = masklen div 8; b = masklen mod 8 in
      rbind (fill_ff (replicate n 0) 0 offset) (\<lambda>xs.
        if b \<noteq> 0 then wr8 xs offset (maskbit ! b) else Inr xs))"

definition masklen2ip :: "nat \<Rightarrow> byte list res" where
  "masklen2ip masklen = masklen2bytes 4 masklen"

definition masklen2ip6 :: "nat \<Rightarrow> byte list res" where
  "masklen2ip6 masklen = masklen2bytes 16 masklen"

text \<open>\<^verbatim>\<open>while (val) { len++; val <<= 1; }\<close> on an \<^verbatim>\<open>u_char\<close>: the shift drops the top bit,
  so the loop ends when the lowest set bit has left the byte.\<close>

function shl_count :: "byte \<Rightarrow> nat \<Rightarrow> nat" where
  "shl_count val len = (if val = 0 then len else shl_count (push_bit 1 val) (Suc len))"
  by pat_completeness auto
termination
proof (relation "measure (\<lambda>(v, _). LEAST n. push_bit n v = 0)", simp)
  fix val :: byte and len :: nat
  assume nz: "val \<noteq> 0"
  have "push_bit 8 val = 0" by (rule bit_word_eqI) (simp add: bit_push_bit_iff)
  then have "(LEAST n. push_bit n val = 0) = Suc (LEAST n. push_bit (Suc n) val = 0)"
    using nz by (intro Least_Suc [where n = 8]) simp_all
  then show "((push_bit 1 val, Suc len), (val, len)) \<in> measure (\<lambda>(v, _). LEAST n. push_bit n v = 0)"
    by simp
qed

declare shl_count.simps [simp del]

text \<open>The leading \<^verbatim>\<open>0xff\<close> bytes, then the set bits of the next byte; the loop of
  \<^verbatim>\<open>ip_masklen\<close> tests \<^verbatim>\<open>pnt < end\<close> before it reads.\<close>

fun masklen_bytes :: "byte list \<Rightarrow> nat \<Rightarrow> nat" where
  "masklen_bytes [] len = len"
| "masklen_bytes (b # bs) len =
     (if b = 0xff then masklen_bytes bs (len + 8) else shl_count b len)"

definition ip_masklen :: "byte list \<Rightarrow> nat" where
  "ip_masklen netmask = masklen_bytes (take 4 netmask) 0"

text \<open>\<^verbatim>\<open>ip6_masklen\<close> reads \<^verbatim>\<open>*pnt\<close> before it tests \<^verbatim>\<open>len < 128\<close>.\<close>

function ip6_masklen_from :: "byte list \<Rightarrow> nat \<Rightarrow> nat \<Rightarrow> nat res" where
  "ip6_masklen_from xs i len =
     rbind (rd8 xs i) (\<lambda>b.
       if b = 0xff \<and> len < 128 then ip6_masklen_from xs (Suc i) (len + 8)
       else if len < 128 then Inr (shl_count b len)
       else Inr len)"
  by pat_completeness auto
termination
  by (relation "measure (\<lambda>(xs, i, _). length xs - i)") (auto simp: rd8_eq_Inr)

declare ip6_masklen_from.simps [simp del]

definition ip6_masklen :: "byte list \<Rightarrow> nat res" where
  "ip6_masklen netmask = ip6_masklen_from netmask 0 0"

text \<open>\<^verbatim>\<open>apply_mask_ipv4\<close> and \<^verbatim>\<open>apply_mask_ipv6\<close> differ in the address size \<open>n\<close>.\<close>

fun zero_from :: "byte list \<Rightarrow> nat \<Rightarrow> nat \<Rightarrow> byte list res" where
  "zero_from xs i 0 = Inr xs"
| "zero_from xs i (Suc k) = rbind (wr8 xs i 0) (\<lambda>ys. zero_from ys (Suc i) k)"

definition apply_mask_bytes :: "nat \<Rightarrow> prefix_t \<Rightarrow> prefix_t res" where
  "apply_mask_bytes n p =
     (let index = pfx_len p div 8; offset = pfx_len p mod 8 in
      if index < n then
        rbind (rd8 (pfx_u p) index) (\<lambda>b.
        rbind (wr8 (pfx_u p) index (b AND maskbit ! offset)) (\<lambda>xs.
        rbind (zero_from xs (Suc index) (n - Suc index)) (\<lambda>ys. Inr (p\<lparr>pfx_u := ys\<rparr>))))
      else Inr p)"

definition apply_mask_ipv4 :: "prefix_t \<Rightarrow> prefix_t res" where
  "apply_mask_ipv4 p = apply_mask_bytes 4 p"

definition apply_mask_ipv6 :: "prefix_t \<Rightarrow> prefix_t res" where
  "apply_mask_ipv6 p = apply_mask_bytes 16 p"

definition apply_mask :: "prefix_t \<Rightarrow> prefix_t res" where
  "apply_mask p =
     (if pfx_family p = AF_INET then apply_mask_ipv4 p
      else if pfx_family p = AF_INET6 then apply_mask_ipv6 p
      else Inr p)"

definition prefix_ipv4_any :: "prefix_t \<Rightarrow> bool" where
  "prefix_ipv4_any p = (take 4 (pfx_u p) = replicate 4 0 \<and> pfx_len p = 0)"

definition prefix_blen :: "prefix_t \<Rightarrow> nat" where
  "prefix_blen p = (if pfx_family p = AF_INET then 4 else if pfx_family p = AF_INET6 then 16 else 0)"

text \<open>\<^verbatim>\<open>prefix2str\<close>, with \<^verbatim>\<open>inet_ntop\<close> as the parameter \<open>ntop\<close> and the truncation of
  \<^verbatim>\<open>snprintf\<close> to \<^verbatim>\<open>size\<close> bytes, terminator included.\<close>

definition prefix2str :: "(byte \<Rightarrow> byte list \<Rightarrow> string) \<Rightarrow> prefix_t \<Rightarrow> nat \<Rightarrow> string" where
  "prefix2str ntop p sz =
     take (sz - 1) (ntop (pfx_family p) (take (prefix_blen p) (pfx_u p)) @ ''/'' @ dec_str (pfx_len p))"

definition all_digit :: "string \<Rightarrow> bool" where
  "all_digit str = list_all c_isdigit str"

text \<open>The class tests of \<^verbatim>\<open><netinet/in.h>\<close> on a host-order address.\<close>

definition IN_CLASSA :: "u32 \<Rightarrow> bool" where "IN_CLASSA a \<longleftrightarrow> a AND 0x80000000 = 0"
definition IN_CLASSB :: "u32 \<Rightarrow> bool" where "IN_CLASSB a \<longleftrightarrow> a AND 0xc0000000 = 0x80000000"
definition IN_CLASSC :: "u32 \<Rightarrow> bool" where "IN_CLASSC a \<longleftrightarrow> a AND 0xe0000000 = 0xc0000000"

definition apply_classful_mask_ipv4 :: "prefix_t \<Rightarrow> prefix_t res" where
  "apply_classful_mask_ipv4 p =
     rbind (rd_be32 (pfx_u p) 0) (\<lambda>destination.
       if pfx_len p = IPV4_MAX_PREFIXLEN then Inr p
       else if IN_CLASSC destination then apply_mask_ipv4 (p\<lparr>pfx_len := 24\<rparr>)
       else if IN_CLASSB destination then apply_mask_ipv4 (p\<lparr>pfx_len := 16\<rparr>)
       else apply_mask_ipv4 (p\<lparr>pfx_len := 8\<rparr>))"

definition ipv4_network_addr :: "byte list \<Rightarrow> nat \<Rightarrow> byte list res" where
  "ipv4_network_addr hostaddr masklen =
     rbind (masklen2ip masklen) (\<lambda>mask. Inr (map2 (AND) hostaddr mask))"

definition ipv4_broadcast_addr :: "byte list \<Rightarrow> nat \<Rightarrow> byte list res" where
  "ipv4_broadcast_addr hostaddr masklen =
     rbind (masklen2ip masklen) (\<lambda>mask.
       Inr (if masklen \<noteq> IPV4_MAX_PREFIXLEN - 1
            then map2 (\<lambda>h m. h OR NOT m) hostaddr mask
            else map2 (\<lambda>h m. h XOR NOT m) hostaddr mask))"

text \<open>\<^verbatim>\<open>netmask_str2prefix_str\<close>: \<^term>\<open>None\<close> where the source returns 0, else the text
  written to \<^verbatim>\<open>prefix_str\<close>.\<close>

definition netmask_str2prefix_str ::
    "(string \<Rightarrow> byte list option) \<Rightarrow> string \<Rightarrow> string option \<Rightarrow> string option" where
  "netmask_str2prefix_str aton net_str mask_str =
     (case aton net_str of
        None \<Rightarrow> None
      | Some network \<Rightarrow>
          let plen =
            (case mask_str of
               Some m \<Rightarrow> (case aton m of None \<Rightarrow> None | Some m4 \<Rightarrow> Some (ip_masklen m4))
             | None \<Rightarrow>
                 let destination = be32 (network ! 0) (network ! 1) (network ! 2) (network ! 3) in
                 if destination = 0 then Some 0
                 else if IN_CLASSC destination then Some 24
                 else if IN_CLASSB destination then Some 16
                 else if IN_CLASSA destination then Some 8
                 else None)
          in map_option (\<lambda>l. net_str @ ''/'' @ dec_str l) plen)"

section \<open>Bit-level meaning\<close>

definition pfx_ok :: "prefix_t \<Rightarrow> bool" where
  "pfx_ok p \<longleftrightarrow> pfx_len p \<le> 8 * length (pfx_u p)"

definition pfx_bits :: "prefix_t \<Rightarrow> bool list" where
  "pfx_bits p = take (pfx_len p) (bits_of (pfx_u p))"

lemma length_pfx_bits [simp]: "pfx_ok p \<Longrightarrow> length (pfx_bits p) = pfx_len p"
  by (simp add: pfx_ok_def pfx_bits_def)

lemma bit_maskbit:
  assumes "s \<le> 8"
  shows "bit (maskbit ! s) i \<longleftrightarrow> 8 - s \<le> i \<and> i < 8"
proof -
  have s: "s \<in> {0,1,2,3,4,5,6,7,8}" using assms by auto
  show ?thesis
  proof (cases "i < 8")
    case True
    then have "i \<in> {0,1,2,3,4,5,6,7}" by auto
    with s show ?thesis by (auto simp: maskbit_def)
  next
    case False
    then show ?thesis by (auto dest: bit_imp_le_length)
  qed
qed

lemma take_byte_bits_eq:
  assumes "s \<le> 8"
  shows "take s (byte_bits a) = take s (byte_bits b) \<longleftrightarrow> (\<forall>i. 8 - s \<le> i \<and> i < 8 \<longrightarrow> bit a i = bit b i)"
proof -
  have "take s (byte_bits a) = take s (byte_bits b) \<longleftrightarrow> (\<forall>j < s. bit a (7 - j) = bit b (7 - j))"
    using assms by (simp add: list_eq_iff_nth_eq min_def)
  also have "\<dots> \<longleftrightarrow> (\<forall>i. 8 - s \<le> i \<and> i < 8 \<longrightarrow> bit a i = bit b i)"
  proof (rule iffI; intro allI impI)
    fix i assume h: "\<forall>j < s. bit a (7 - j) = bit b (7 - j)" and i: "8 - s \<le> i \<and> i < 8"
    from i assms have "7 - i < s" by arith
    moreover from i have "7 - (7 - i) = i" by arith
    ultimately show "bit a i = bit b i" using h by metis
  next
    fix j assume h: "\<forall>i. 8 - s \<le> i \<and> i < 8 \<longrightarrow> bit a i = bit b i" and j: "j < s"
    from j assms have "8 - s \<le> 7 - j \<and> 7 - j < 8" by arith
    with h show "bit a (7 - j) = bit b (7 - j)" by blast
  qed
  finally show ?thesis .
qed

lemma mask_agree:
  assumes "s \<le> 8"
  shows "maskbit ! s AND (a XOR b) = 0 \<longleftrightarrow> take s (byte_bits a) = take s (byte_bits b)"
  using assms
  by (auto simp: take_byte_bits_eq bit_eq_iff bit_and_iff bit_xor_iff bit_maskbit)

lemma bytes_agree_eq:
  "k \<le> length np \<Longrightarrow> k \<le> length pp \<Longrightarrow> bytes_agree np pp k = Inr (take k np = take k pp)"
  by (induction k) (auto simp: take_Suc_conv_app_nth)

lemma bits_agree_eq:
  assumes "len \<le> 8 * length np" "len \<le> 8 * length pp"
  shows "bits_agree len np pp = Inr (take len (bits_of np) = take len (bits_of pp))"
proof (cases "len mod 8 = 0")
  case True
  let ?k = "len div 8"
  have len: "len = 8 * ?k" using True by auto
  have k: "?k \<le> length np" "?k \<le> length pp" using assms by simp_all
  have "take len (bits_of np) = take len (bits_of pp) \<longleftrightarrow> take ?k np = take ?k pp"
    using k by (subst (1 2) len) (simp add: take_bits_of bits_of_inject)
  then show ?thesis using True k by (simp add: bits_agree_def bytes_agree_eq)
next
  case False
  let ?k = "len div 8" and ?s = "len mod 8"
  have k: "?k < length np" "?k < length pp" using assms False by presburger+
  have s: "?s \<le> 8" by (simp add: less_imp_le)
  have "take len (bits_of np) = take len (bits_of pp) \<longleftrightarrow>
      take ?k np = take ?k pp \<and> take ?s (byte_bits (np ! ?k)) = take ?s (byte_bits (pp ! ?k))"
    using k by (simp add: take_bits_of_split bits_of_inject)
  then show ?thesis
    using False k mask_agree [OF s, of "np ! ?k" "pp ! ?k"]
    by (simp add: bits_agree_def Let_def bytes_agree_eq)
qed

lemma prefix_iff_take: "prefix xs ys \<longleftrightarrow> take (length xs) ys = xs"
  by (metis append_eq_conv_conj append_take_drop_id prefix_def)

lemma prefix_take_iff:
  assumes "m \<le> n" "m \<le> length xs"
  shows "prefix (take m xs) (take n ys) \<longleftrightarrow> take m xs = take m ys"
  using assms by (auto simp: prefix_iff_take min_def)

lemma prefix_match_eq:
  assumes "pfx_ok n" "pfx_ok p"
  shows "prefix_match n p = Inr (prefix (pfx_bits n) (pfx_bits p))"
proof (cases "pfx_len n \<le> pfx_len p")
  case True
  then show ?thesis
    using assms
    by (simp add: prefix_match_def bits_agree_eq pfx_ok_def pfx_bits_def prefix_take_iff)
next
  case False
  then have "\<not> prefix (pfx_bits n) (pfx_bits p)"
    using assms prefix_length_le [of "pfx_bits n" "pfx_bits p"] by auto
  with False show ?thesis by (simp add: prefix_match_def)
qed

text \<open>The byte-wise \<^verbatim>\<open>prefix_match\<close> reads inside both prefixes and decides whether
  the bit string of \<open>n\<close> is a prefix of the bit string of \<open>p\<close>.\<close>

theorem prefix_match_iff:
  assumes "pfx_ok n" "pfx_ok p"
  shows "prefix_match n p = Inr (prefix (pfx_bits n) (pfx_bits p))"
  using assms by (rule prefix_match_eq)

section \<open>Masks\<close>

lemma byte_bits_0: "byte_bits 0 = replicate 8 False"
  by (rule nth_equalityI) simp_all

lemma ff_minus_1: "(0xff :: byte) = - 1"
  by simp

lemma byte_bits_ff: "byte_bits 0xff = replicate 8 True"
  unfolding ff_minus_1 by (rule nth_equalityI) simp_all

lemma bits_of_replicate:
  "bits_of (replicate k 0) = replicate (8 * k) False"
  "bits_of (replicate k 0xff) = replicate (8 * k) True"
  by (induction k) (simp_all add: byte_bits_0 byte_bits_ff flip: replicate_add)

lemma byte_bits_mask:
  assumes "s \<le> 8"
  shows "byte_bits (b AND maskbit ! s) = take s (byte_bits b) @ replicate (8 - s) False"
proof (rule nth_equalityI)
  show "length (byte_bits (b AND maskbit ! s)) = length (take s (byte_bits b) @ replicate (8 - s) False)"
    using assms by simp
  fix i assume "i < length (byte_bits (b AND maskbit ! s))"
  then have i: "i < 8" by simp
  have "bit (maskbit ! s) (7 - i) \<longleftrightarrow> i < s"
    using assms i by (subst bit_maskbit) auto
  with i assms show "byte_bits (b AND maskbit ! s) ! i
      = (take s (byte_bits b) @ replicate (8 - s) False) ! i"
    by (auto simp: bit_and_iff nth_append)
qed

lemma byte_bits_maskbit:
  assumes "s \<le> 8"
  shows "byte_bits (maskbit ! s) = replicate s True @ replicate (8 - s) False"
proof -
  have "byte_bits (0xff AND maskbit ! s) = replicate s True @ replicate (8 - s) False"
    using assms by (simp add: byte_bits_mask byte_bits_ff)
  moreover have "0xff AND maskbit ! s = maskbit ! s"
    unfolding ff_minus_1 by simp
  ultimately show ?thesis by simp
qed

lemma zero_from_eq:
  "i + k \<le> length xs \<Longrightarrow> zero_from xs i k = Inr (take i xs @ replicate k 0 @ drop (i + k) xs)"
proof (induction k arbitrary: xs i)
  case (Suc k)
  then show ?case
    by (simp add: take_Suc_conv_app_nth drop_update_cancel replicate_append_same)
qed simp

lemma apply_mask_bytes_eq:
  assumes "n \<le> length (pfx_u p)" "pfx_len p \<le> 8 * n"
  shows "\<exists>ys. apply_mask_bytes n p = Inr (p\<lparr>pfx_u := ys\<rparr>) \<and> length ys = length (pfx_u p) \<and>
           bits_of ys = pfx_bits p @ replicate (8 * n - pfx_len p) False @ bits_of (drop n (pfx_u p))"
proof (cases "pfx_len p div 8 < n")
  case True
  let ?k = "pfx_len p div 8" and ?s = "pfx_len p mod 8" and ?u = "pfx_u p"
  let ?ys = "take ?k ?u @ [?u ! ?k AND maskbit ! ?s] @ replicate (n - Suc ?k) 0 @ drop n ?u"
  have k: "?k < length ?u" and s: "?s \<le> 8" using True assms by (simp_all add: less_imp_le)
  have "apply_mask_bytes n p = Inr (p\<lparr>pfx_u := ?ys\<rparr>)"
    using True assms k
    by (simp add: apply_mask_bytes_def Let_def zero_from_eq take_Suc_conv_app_nth)
  moreover have "bits_of ?ys = pfx_bits p @ (replicate (8 - ?s) False @ replicate (8 * (n - Suc ?k)) False)
      @ bits_of (drop n ?u)"
    using k s by (simp add: byte_bits_mask bits_of_replicate pfx_bits_def take_bits_of_split)
  moreover have "replicate (8 - ?s) False @ replicate (8 * (n - Suc ?k)) False
      = replicate (8 * n - pfx_len p) False"
  proof -
    have "8 - s' + 8 * (n - Suc k') = 8 * n - (8 * k' + s')" if "s' < 8" "k' < n" for s' k' :: nat
      using that by arith
    from this [of ?s ?k] have "8 - ?s + 8 * (n - Suc ?k) = 8 * n - pfx_len p" using True by simp
    then show ?thesis by (metis replicate_add)
  qed
  moreover have "length ?ys = length ?u" using True assms k by simp
  ultimately show ?thesis by auto
next
  case False
  then have "pfx_len p = 8 * n" using assms(2) by linarith
  then have "bits_of (pfx_u p) = pfx_bits p @ bits_of (drop n (pfx_u p))"
    using take_bits_of [of n "pfx_u p"] drop_bits_of [of n "pfx_u p"]
    by (simp add: pfx_bits_def) (metis append_take_drop_id)
  with False \<open>pfx_len p = 8 * n\<close> show ?thesis
    by (intro exI [of _ "pfx_u p"]) (simp add: apply_mask_bytes_def)
qed

lemma fill_ff_eq:
  "i + k \<le> length xs \<Longrightarrow> fill_ff xs i k = Inr (take i xs @ replicate k 0xff @ drop (i + k) xs)"
proof (induction k arbitrary: xs i)
  case (Suc k)
  then show ?case
    by (simp add: take_Suc_conv_app_nth drop_update_cancel replicate_append_same)
qed simp

lemma fill_ff_fault: "i \<le> length xs \<Longrightarrow> length xs < i + k \<Longrightarrow> fill_ff xs i k = Inl Out_Of_Bounds"
proof (induction k arbitrary: xs i)
  case (Suc k)
  then show ?case by (cases "i < length xs") simp_all
qed simp

lemma masklen2bytes_eq:
  assumes "m \<le> 8 * n"
  shows "masklen2bytes n m = Inr (replicate (m div 8) 0xff @
           (if m mod 8 \<noteq> 0 then maskbit ! (m mod 8) # replicate (n - Suc (m div 8)) 0
            else replicate (n - m div 8) 0))"
proof -
  have le: "m div 8 \<le> n" using assms by simp
  have lt: "m div 8 < n" if "m mod 8 \<noteq> 0" using assms that by presburger
  show ?thesis
    using le lt
    by (auto simp: masklen2bytes_def Let_def fill_ff_eq list_update_append Cons_replicate_eq
        intro!: nth_equalityI simp: nth_list_update nth_append nth_Cons')
qed

lemma masklen2bytes_fault:
  assumes "8 * n < m"
  shows "masklen2bytes n m = Inl Out_Of_Bounds"
proof (cases "n < m div 8")
  case True
  then show ?thesis by (simp add: masklen2bytes_def Let_def fill_ff_fault)
next
  case False
  with assms have "m div 8 = n" "m mod 8 \<noteq> 0" by presburger+
  then show ?thesis by (simp add: masklen2bytes_def Let_def fill_ff_eq)
qed

lemma masklen2bytes_bits:
  assumes "m \<le> 8 * n"
  shows "\<exists>xs. masklen2bytes n m = Inr xs \<and> length xs = n \<and>
           bits_of xs = replicate m True @ replicate (8 * n - m) False"
proof -
  have a: "m div 8 \<le> n" using assms by simp
  have s: "m mod 8 \<le> 8" by (simp add: less_imp_le)
  show ?thesis
  proof (cases "m mod 8 = 0")
    case True
    then have "8 * (m div 8) = m" by presburger
    moreover have "8 * (n - m div 8) = 8 * n - m" using True by presburger
    ultimately show ?thesis using True a assms
      by (simp add: masklen2bytes_eq bits_of_replicate)
  next
    case False
    have "m = 8 * (m div 8) + m mod 8" by simp
    then have r: "replicate m True = replicate (8 * (m div 8)) True @ replicate (m mod 8) True"
      by (metis replicate_add)
    have "8 * n - m = 8 - m mod 8 + 8 * (n - Suc (m div 8))" using False assms by presburger
    then have r2: "replicate (8 * n - m) False
        = replicate (8 - m mod 8) False @ replicate (8 * (n - Suc (m div 8))) False"
      by (metis replicate_add)
    have "m div 8 < n" using assms False by presburger
    then show ?thesis using False assms s unfolding r r2
      by (simp add: masklen2bytes_eq bits_of_replicate byte_bits_maskbit)
  qed
qed

section \<open>Properties of the prefix routines\<close>

text \<open>A prefix held in a full \<^verbatim>\<open>struct prefix\<close>: sixteen address bytes and a length that
  fits the family.\<close>

definition wf_prefix :: "prefix_t \<Rightarrow> bool" where
  "wf_prefix p \<longleftrightarrow> length (pfx_u p) = 16 \<and>
     (pfx_family p = AF_INET \<and> pfx_len p \<le> 32 \<or> pfx_family p = AF_INET6 \<and> pfx_len p \<le> 128)"

lemma wf_prefix_ok [simp]: "wf_prefix p \<Longrightarrow> pfx_ok p"
  by (auto simp: wf_prefix_def pfx_ok_def)

lemma prefix_blen_bound: "wf_prefix p \<Longrightarrow> prefix_blen p \<le> 16 \<and> pfx_len p \<le> 8 * prefix_blen p"
  by (auto simp: wf_prefix_def prefix_blen_def af_defs)

lemma apply_mask_wf:
  assumes "wf_prefix p"
  shows "apply_mask p = apply_mask_bytes (prefix_blen p) p"
  using assms
  by (auto simp: wf_prefix_def apply_mask_def apply_mask_ipv4_def apply_mask_ipv6_def
      prefix_blen_def af_defs)

lemma prefix_cmp_iff:
  assumes "pfx_ok p" "pfx_ok q"
  shows "prefix_cmp p q = Inr (if pfx_family p = pfx_family q \<and> pfx_bits p = pfx_bits q then 0 else 1)"
proof (cases "pfx_len p = pfx_len q")
  case True
  then show ?thesis
    using assms by (simp add: prefix_cmp_def bits_agree_eq pfx_ok_def pfx_bits_def)
next
  case False
  then have "pfx_bits p \<noteq> pfx_bits q" using assms length_pfx_bits by metis
  with False show ?thesis by (simp add: prefix_cmp_def)
qed

text \<open>On a well-formed prefix \<^verbatim>\<open>apply_mask\<close> stays inside the address, keeps the family,
  the length and the network bits, clears every host bit of the family's address, and
  \<^verbatim>\<open>prefix_cmp\<close> calls the masked prefix the same network.\<close>

theorem apply_mask_network:
  assumes "wf_prefix p"
  shows "\<exists>q. apply_mask p = Inr q \<and> pfx_family q = pfx_family p \<and> pfx_len q = pfx_len p \<and>
           pfx_bits q = pfx_bits p \<and>
           bits_of (take (prefix_blen p) (pfx_u q)) =
             pfx_bits p @ replicate (8 * prefix_blen p - pfx_len p) False \<and>
           prefix_cmp p q = Inr 0"
proof -
  let ?n = "prefix_blen p"
  have n: "?n \<le> length (pfx_u p)" "pfx_len p \<le> 8 * ?n"
    using assms prefix_blen_bound [OF assms] by (simp_all add: wf_prefix_def)
  obtain ys where ys: "apply_mask_bytes ?n p = Inr (p\<lparr>pfx_u := ys\<rparr>)" "length ys = length (pfx_u p)"
      "bits_of ys = pfx_bits p @ replicate (8 * ?n - pfx_len p) False @ bits_of (drop ?n (pfx_u p))"
    using apply_mask_bytes_eq [OF n] by blast
  let ?q = "p\<lparr>pfx_u := ys\<rparr>"
  have lp: "length (pfx_bits p) = pfx_len p" using assms by simp
  then have bits: "pfx_bits ?q = pfx_bits p" by (simp add: pfx_bits_def [of ?q] ys(3))
  have "bits_of (take ?n ys) = pfx_bits p @ replicate (8 * ?n - pfx_len p) False"
    using n lp by (simp add: take_bits_of [symmetric] ys(3))
  moreover have "prefix_cmp p ?q = Inr 0"
    using assms ys(2) bits by (subst prefix_cmp_iff) (simp_all add: pfx_ok_def wf_prefix_def split: if_splits, auto)
  ultimately show ?thesis
    using ys(1) bits by (intro exI [of _ ?q]) (simp add: apply_mask_wf [OF assms])
qed

theorem apply_mask_network_witness:
  "\<exists>q. apply_mask \<lparr>pfx_family = AF_INET, pfx_len = 12, pfx_u = [10, 31, 2, 3] @ replicate 12 0\<rparr> = Inr q
     \<and> take 4 (pfx_u q) = [10, 16, 0, 0]"
proof -
  let ?p = "\<lparr>pfx_family = AF_INET, pfx_len = 12, pfx_u = [10, 31, 2, 3] @ replicate 12 0\<rparr>"
  have wf: "wf_prefix ?p" by (simp add: wf_prefix_def)
  have bl: "prefix_blen ?p = 4" by (simp add: prefix_blen_def)
  obtain q where q: "apply_mask ?p = Inr q"
      "bits_of (take 4 (pfx_u q)) = pfx_bits ?p @ replicate (8 * 4 - 12) False"
    using apply_mask_network [OF wf] bl by auto
  have "pfx_bits ?p @ replicate (8 * 4 - 12) False = bits_of [10, 16, 0, 0]"
    by code_simp
  then have "bits_of (take 4 (pfx_u q)) = bits_of [10, 16, 0, 0]" using q(2) by simp
  moreover have "length (take 4 (pfx_u q)) = 4"
    using arg_cong [OF calculation, of length] by simp
  ultimately have "take 4 (pfx_u q) = [10, 16, 0, 0]" by (subst (asm) bits_of_inject) simp_all
  with q(1) show ?thesis by blast
qed

theorem prefix_match_iff_witness:
  "prefix_match \<lparr>pfx_family = AF_INET, pfx_len = 8, pfx_u = [10, 0, 0, 0] @ replicate 12 0\<rparr>
     \<lparr>pfx_family = AF_INET, pfx_len = 24, pfx_u = [10, 1, 2, 0] @ replicate 12 0\<rparr> = Inr True"
proof -
  let ?n = "\<lparr>pfx_family = AF_INET, pfx_len = 8, pfx_u = [10, 0, 0, 0] @ replicate 12 0\<rparr>"
  let ?p = "\<lparr>pfx_family = AF_INET, pfx_len = 24, pfx_u = [10, 1, 2, 0] @ replicate 12 0\<rparr>"
  have "pfx_ok ?n" "pfx_ok ?p" by (simp_all add: pfx_ok_def)
  moreover have "prefix (pfx_bits ?n) (pfx_bits ?p)" by code_simp
  ultimately show ?thesis using prefix_match_iff [of ?n ?p] by simp
qed

section \<open>Mask lengths\<close>

lemma masklen_bytes_ff:
  "masklen_bytes (replicate k 0xff @ bs) len = masklen_bytes bs (len + 8 * k)"
  by (induction k arbitrary: len) (simp_all add: add.assoc)

lemma push_bit_maskbit:
  assumes "s < 8"
  shows "push_bit 1 (maskbit ! Suc s) = maskbit ! s \<and> maskbit ! Suc s \<noteq> 0"
proof -
  have "s \<in> {0,1,2,3,4,5,6,7}" using assms by auto
  then show ?thesis by (auto simp: maskbit_def push_bit_eq_mult)
qed

lemma shl_count_maskbit: "s \<le> 8 \<Longrightarrow> shl_count (maskbit ! s) len = len + s"
proof (induction s arbitrary: len)
  case 0
  then show ?case by (simp add: shl_count.simps maskbit_def)
next
  case (Suc s)
  then show ?case
    using push_bit_maskbit [of s] by (subst shl_count.simps) simp
qed

lemma shl_count_0: "shl_count 0 len = len"
  by (simp add: shl_count.simps)

lemma maskbit_not_ff: "s < 8 \<Longrightarrow> maskbit ! s \<noteq> 0xff"
proof -
  assume "s < 8"
  then have "s \<in> {0,1,2,3,4,5,6,7}" by auto
  then show ?thesis by (auto simp: maskbit_def)
qed

lemma masklen_bytes_zeros: "masklen_bytes (replicate k 0) len = len"
  by (cases k) (simp_all add: shl_count_0)

lemma masklen_bytes_masklen2bytes:
  assumes "m \<le> 8 * n" "masklen2bytes n m = Inr xs"
  shows "masklen_bytes xs 0 = m"
proof (cases "m mod 8 = 0")
  case True
  then show ?thesis
    using assms by (auto simp: masklen2bytes_eq masklen_bytes_ff masklen_bytes_zeros)
next
  case False
  have "maskbit ! (m mod 8) \<noteq> 255" by (rule maskbit_not_ff) simp
  with False show ?thesis
    using assms by (auto simp: masklen2bytes_eq masklen_bytes_ff shl_count_maskbit)
qed

text \<open>\<^verbatim>\<open>masklen2ip\<close> and \<^verbatim>\<open>ip_masklen\<close> are inverse on every IPv4 mask length, and a
  length beyond 32 makes \<^verbatim>\<open>masklen2ip\<close> write past the address.\<close>

theorem masklen_roundtrip:
  "if n \<le> 32
   then \<exists>m. masklen2ip n = Inr m \<and> bits_of m = replicate n True @ replicate (32 - n) False \<and>
            ip_masklen m = n
   else masklen2ip n = Inl Out_Of_Bounds"
proof (cases "n \<le> 32")
  case True
  then obtain xs where xs: "masklen2bytes 4 n = Inr xs" "length xs = 4"
      "bits_of xs = replicate n True @ replicate (32 - n) False"
    using masklen2bytes_bits [of n 4] by auto
  then have "masklen_bytes xs 0 = n" using True by (intro masklen_bytes_masklen2bytes [of n 4]) simp_all
  with True xs show ?thesis by (simp add: masklen2ip_def ip_masklen_def)
next
  case False
  then show ?thesis by (simp add: masklen2ip_def masklen2bytes_fault)
qed

lemma ip6_masklen_from_bytes:
  assumes "len + 8 * (length xs - i) = 128" "i \<le> length xs"
  shows "ip6_masklen_from xs i len =
           (if drop i xs = replicate (length xs - i) 0xff then Inl Out_Of_Bounds
            else Inr (masklen_bytes (drop i xs) len))"
  using assms
proof (induction xs i len rule: ip6_masklen_from.induct)
  case (1 xs i len)
  show ?case
  proof (cases "i < length xs")
    case True
    then have d: "drop i xs = xs ! i # drop (Suc i) xs" by (simp add: Cons_nth_drop_Suc)
    have r: "length xs - i = Suc (length xs - Suc i)" using True by simp
    have "len < 128" using 1(2) True by linarith
    have "len + 8 + 8 * (length xs - Suc i) = 128" using 1(2) True by linarith
    with 1 True d r \<open>len < 128\<close> show ?thesis
      by (subst ip6_masklen_from.simps) simp
  next
    case False
    with 1 show ?thesis by (subst ip6_masklen_from.simps) simp
  qed
qed

text \<open>\<^verbatim>\<open>ip6_masklen\<close> inverts \<^verbatim>\<open>masklen2ip6\<close> for every length up to 127; on the mask of
  a host route, all sixteen bytes \<^verbatim>\<open>0xff\<close>, it reads the byte behind the address because
  the loop dereferences \<^verbatim>\<open>pnt\<close> before it tests \<^verbatim>\<open>len < 128\<close>.\<close>

theorem ip6_masklen_roundtrip:
  "(n < 128 \<longrightarrow> rbind (masklen2ip6 n) ip6_masklen = Inr n) \<and>
   rbind (masklen2ip6 128) ip6_masklen = Inl Out_Of_Bounds"
proof (intro conjI impI)
  assume n: "n < 128"
  then obtain xs where xs: "masklen2bytes 16 n = Inr xs" "length xs = 16"
      "bits_of xs = replicate n True @ replicate (128 - n) False"
    using masklen2bytes_bits [of n 16] by auto
  have "xs \<noteq> replicate 16 0xff"
  proof
    assume "xs = replicate 16 0xff"
    then have "replicate 128 True = replicate n True @ replicate (128 - n) False"
      using xs(3) bits_of_replicate(2) [of 16] by simp
    then have "(replicate n True @ replicate (128 - n) False) ! n = replicate 128 True ! n" by simp
    with n show False by (simp add: nth_append)
  qed
  moreover have "masklen_bytes xs 0 = n"
    using n xs(1) by (intro masklen_bytes_masklen2bytes [of n 16]) simp_all
  ultimately show "rbind (masklen2ip6 n) ip6_masklen = Inr n"
    using xs by (simp add: masklen2ip6_def ip6_masklen_def ip6_masklen_from_bytes)
next
  have "masklen2bytes 16 128 = Inr (replicate 16 0xff)"
    by (simp add: masklen2bytes_eq)
  then show "rbind (masklen2ip6 128) ip6_masklen = Inl Out_Of_Bounds"
    by (simp add: masklen2ip6_def ip6_masklen_def ip6_masklen_from_bytes)
qed

theorem ip6_masklen_roundtrip_witness:
  "rbind (masklen2ip6 64) ip6_masklen = Inr 64"
  using ip6_masklen_roundtrip [of 64] by simp

section \<open>Network and broadcast addresses\<close>

lemma bits_of_map2:
  assumes "\<And>a b i. i < 8 \<Longrightarrow> bit (f a b) i = g (bit a i) (bit b i)" "length xs = length ys"
  shows "bits_of (map2 f xs ys) = map2 g (bits_of xs) (bits_of ys)"
  using assms(2)
proof (induction rule: list_induct2)
  case (Cons x xs y ys)
  have "byte_bits (f x y) = map2 g (byte_bits x) (byte_bits y)"
    by (rule nth_equalityI) (simp_all add: assms(1))
  with Cons show ?case by (simp add: zip_append)
qed simp

lemma map2_replicate:
  "length xs = n \<Longrightarrow> map2 f xs (replicate n c) = map (\<lambda>x. f x c) xs"
  by (induction xs arbitrary: n) auto

lemma map2_mask:
  assumes "length bs = N" "n \<le> N"
  shows "map2 f bs (replicate n True @ replicate (N - n) False)
         = map (\<lambda>x. f x True) (take n bs) @ map (\<lambda>x. f x False) (drop n bs)"
proof -
  have "map2 f bs (replicate n True @ replicate (N - n) False)
      = map2 f (take n bs @ drop n bs) (replicate n True @ replicate (N - n) False)" by simp
  also have "\<dots> = map2 f (take n bs) (replicate n True) @ map2 f (drop n bs) (replicate (N - n) False)"
    using assms by (subst zip_append) simp_all
  finally show ?thesis using assms by (simp add: map2_replicate)
qed

text \<open>For every prefix length up to 32 the network address keeps the first \<open>n\<close> bits of
  the host and clears the rest; the broadcast address keeps them and sets the rest, except
  for a /31, where it is the other host of the link (the last bit flipped).\<close>

theorem ipv4_network_broadcast:
  assumes "length h = 4" "n \<le> 32"
  shows "\<exists>net bc. ipv4_network_addr h n = Inr net \<and> ipv4_broadcast_addr h n = Inr bc \<and>
    bits_of net = take n (bits_of h) @ replicate (32 - n) False \<and>
    bits_of bc = take n (bits_of h) @
      (if n = 31 then map Not (drop n (bits_of h)) else replicate (32 - n) True)"
proof -
  obtain m where m: "masklen2ip n = Inr m" "length m = 4"
      "bits_of m = replicate n True @ replicate (32 - n) False"
    using masklen2bytes_bits [of n 4] assms(2) by (auto simp: masklen2ip_def)
  have lh: "length (bits_of h) = 32" using assms(1) by simp
  have rest: "map (\<lambda>_. c) (drop n (bits_of h)) = replicate (32 - n) c" for c :: bool
    using lh by (simp add: map_replicate_const)
  have "bits_of (map2 (AND) h m) = map2 (\<and>) (bits_of h) (bits_of m)"
    using assms m(2) by (intro bits_of_map2) (simp_all add: bit_and_iff)
  then have 1: "bits_of (map2 (AND) h m) = take n (bits_of h) @ replicate (32 - n) False"
    using m(3) map2_mask [OF lh assms(2), of "(\<and>)"] rest by simp
  have "bits_of (map2 (\<lambda>h m. h OR NOT m) h m) = map2 (\<lambda>a b. a \<or> \<not> b) (bits_of h) (bits_of m)"
    using assms m(2) by (intro bits_of_map2) (simp_all add: bit_or_iff bit_not_iff)
  then have 2: "bits_of (map2 (\<lambda>h m. h OR NOT m) h m) = take n (bits_of h) @ replicate (32 - n) True"
    using m(3) map2_mask [OF lh assms(2), of "\<lambda>a b. a \<or> \<not> b"] rest by simp
  have "bits_of (map2 (\<lambda>h m. h XOR NOT m) h m) = map2 (\<lambda>a b. a \<noteq> (\<not> b)) (bits_of h) (bits_of m)"
    using assms m(2) by (intro bits_of_map2) (simp_all add: bit_xor_iff bit_not_iff)
  then have 3: "bits_of (map2 (\<lambda>h m. h XOR NOT m) h m) = take n (bits_of h) @ map Not (drop n (bits_of h))"
    using m(3) map2_mask [OF lh assms(2), of "\<lambda>a b. a \<noteq> (\<not> b)"] by simp
  show ?thesis
    using m(1) 1 2 3
    by (simp add: ipv4_network_addr_def ipv4_broadcast_addr_def IPV4_MAX_PREFIXLEN_def)
qed

theorem ipv4_network_broadcast_witness:
  "\<exists>net bc. ipv4_network_addr [192, 0, 2, 77] 26 = Inr net \<and>
     ipv4_broadcast_addr [192, 0, 2, 77] 26 = Inr bc \<and>
     bits_of net = bits_of [192, 0, 2, 64] \<and> bits_of bc = bits_of [192, 0, 2, 127]"
proof -
  have "take 26 (bits_of [192, 0, 2, 77]) @ replicate 6 False = bits_of [192, 0, 2, 64]"
    "take 26 (bits_of [192, 0, 2, 77]) @ replicate 6 True = bits_of [192, 0, 2, 127]"
    by code_simp+
  then show ?thesis using ipv4_network_broadcast [of "[192, 0, 2, 77]" 26] by simp
qed

section \<open>Text form\<close>

lemma slash_split:
  assumes "CHR ''/'' \<notin> set a"
  shows "takeWhile (\<lambda>c. c \<noteq> CHR ''/'') (a @ CHR ''/'' # b) = a"
    "dropWhile (\<lambda>c. c \<noteq> CHR ''/'') (a @ CHR ''/'' # b) = CHR ''/'' # b"
  using assms by (induction a) auto

text \<open>Parsing the text that \<^verbatim>\<open>prefix2str\<close> prints for a well-formed IPv4 prefix gives the
  prefix back, provided the buffer holds the whole text and the library conversions of the
  address are inverse and print no slash.\<close>

theorem str2prefix_prefix2str:
  assumes wf: "wf_prefix p" "pfx_family p = AF_INET"
    and aton: "aton (ntop AF_INET (take 4 (pfx_u p))) = Some (take 4 (pfx_u p))"
    and noslash: "CHR ''/'' \<notin> set (ntop AF_INET (take 4 (pfx_u p)))"
    and size: "length (ntop AF_INET (take 4 (pfx_u p))) + 3 < sz"
    and p0: "length (pfx_u p0) = 16"
  shows "\<exists>q. str2prefix aton pton (prefix2str ntop p sz) p0 = (True, q) \<and>
           pfx_family q = AF_INET \<and> pfx_len q = pfx_len p \<and>
           take 4 (pfx_u q) = take 4 (pfx_u p) \<and> prefix_same p q"
proof -
  let ?a = "take 4 (pfx_u p)" and ?t = "ntop AF_INET (take 4 (pfx_u p))"
  have len: "pfx_len p \<le> 32" and u: "length (pfx_u p) = 16" and bl: "prefix_blen p = 4"
    using wf by (auto simp: wf_prefix_def prefix_blen_def af_defs)
  have "length (dec_str (pfx_len p)) \<le> Suc 1" by (rule length_dec_str_bound) (use len in simp)
  then have str: "prefix2str ntop p sz = ?t @ CHR ''/'' # dec_str (pfx_len p)"
    using size wf(2) bl by (simp add: prefix2str_def)
  have "str2prefix_ipv4 aton (prefix2str ntop p sz) p0
      = (True, (set_addr ?a p0)\<lparr>pfx_family := AF_INET, pfx_len := pfx_len p\<rparr>)"
    using aton len slash_split [OF noslash, of "dec_str (pfx_len p)"]
    by (simp add: str str2prefix_ipv4_def atoi_dec_str IPV4_MAX_PREFIXLEN_def Let_def
        flip: of_nat_mod)
  then show ?thesis
    using u p0 wf(2) by (simp add: str2prefix_def set_addr_def prefix_same_def)
qed

theorem str2prefix_prefix2str_witness:
  "let aton = (\<lambda>s. if s = ''10.1.0.0'' then Some [10, 1, 0, 0] else None);
       ntop = (\<lambda>_ _. ''10.1.0.0'');
       p = \<lparr>pfx_family = AF_INET, pfx_len = 16, pfx_u = [10, 1, 0, 0] @ replicate 12 0\<rparr>
   in \<exists>q. str2prefix aton (\<lambda>_. None) (prefix2str ntop p 32) prefix_new = (True, q) \<and>
        pfx_len q = 16 \<and> prefix_same p q"
proof -
  let ?p = "\<lparr>pfx_family = AF_INET, pfx_len = 16, pfx_u = [10, 1, 0, 0] @ replicate 12 0\<rparr>"
  let ?aton = "\<lambda>s. if s = ''10.1.0.0'' then Some [10, 1, 0, 0] else None"
  have "wf_prefix ?p" by (simp add: wf_prefix_def)
  then show ?thesis
    using str2prefix_prefix2str [of ?p ?aton "\<lambda>_ _. ''10.1.0.0''" 32 prefix_new "\<lambda>_. None"]
    by (auto simp: prefix_new_def Let_def)
qed

end
