(* ===== verification/Bgp_Table.thy ===== *)
theory Bgp_Table
  imports Bgp_Prefix
begin

text \<open>
  Model of \<^verbatim>\<open>src/src/bgp/bgp_table.c\<close>: the routing table of the BGP daemon, a radix
  trie of heap nodes with parent pointers and reference counts. The heap is an explicit
  store from addresses to nodes; a pointer to a node that is not allocated is a
  \<^const>\<open>Use_After_Free\<close>. The loops over pointers carry a fuel argument, one more than the
  number of addresses ever allocated.
\<close>

section \<open>Data\<close>

text \<open>\<^verbatim>\<open>struct bgp_node\<close>; \<open>n_info\<close> is the array of buckets, each the list of the
  \<^verbatim>\<open>struct bgp_info\<close> chained in it. The back pointer \<^verbatim>\<open>table\<close> is the table the store
  belongs to.\<close>

record 'i bgp_node =
  n_p :: prefix_t
  n_parent :: "addr option"
  n_left :: "addr option"
  n_right :: "addr option"
  n_info :: "'i list list"
  n_lock :: u32

text \<open>\<^verbatim>\<open>struct bgp_table\<close> together with the store of its nodes and the next unused address.\<close>

record 'i bgp_table =
  t_afi :: u16
  t_safi :: byte
  t_top :: "addr option"
  t_count :: u64
  t_nodes :: "addr \<Rightarrow> 'i bgp_node option"
  t_next :: addr

text \<open>The fields of \<^verbatim>\<open>struct bgp_misc_structs\<close> that the table uses; \<open>hash_pathid\<close> stands for
  \<^verbatim>\<open>table_per_peer_hash == BGP_ASPATH_HASH_PATHID\<close>.\<close>

record bgp_misc =
  table_peer_buckets :: nat
  table_per_peer_buckets :: nat
  hash_pathid :: bool

section \<open>Operations\<close>

definition bgp_table_init :: "u16 \<Rightarrow> byte \<Rightarrow> 'i bgp_table" where
  "bgp_table_init afi safi =
     \<lparr>t_afi = afi, t_safi = safi, t_top = None, t_count = 0, t_nodes = (\<lambda>_. None), t_next = 0\<rparr>"

definition get_node :: "'i bgp_table \<Rightarrow> addr \<Rightarrow> 'i bgp_node res" where
  "get_node t a = (case t_nodes t a of None \<Rightarrow> Inl Use_After_Free | Some nd \<Rightarrow> Inr nd)"

definition put_node :: "'i bgp_table \<Rightarrow> addr \<Rightarrow> 'i bgp_node \<Rightarrow> 'i bgp_table" where
  "put_node t a nd = t\<lparr>t_nodes := (t_nodes t)(a := Some nd)\<rparr>"

text \<open>\<^verbatim>\<open>malloc\<close> of a node initialised to \<open>nd\<close>.\<close>

definition alloc :: "'i bgp_table \<Rightarrow> 'i bgp_node \<Rightarrow> addr \<times> 'i bgp_table" where
  "alloc t nd = (t_next t, (put_node t (t_next t) nd)\<lparr>t_next := Suc (t_next t)\<rparr>)"

text \<open>\<^verbatim>\<open>bgp_node_create\<close>: NULL (a \<^const>\<open>Null_Deref\<close> in every caller) when the peer type has
  no settings, else a zeroed node with its empty buckets.\<close>

definition bgp_node_create :: "bgp_misc option \<Rightarrow> 'i bgp_node res" where
  "bgp_node_create bms = (case bms of
       None \<Rightarrow> Inl Null_Deref
     | Some b \<Rightarrow> Inr \<lparr>n_p = prefix_new, n_parent = None, n_left = None, n_right = None,
         n_info = replicate (table_peer_buckets b * table_per_peer_buckets b) [], n_lock = 0\<rparr>)"

definition bgp_node_set :: "bgp_misc option \<Rightarrow> prefix_t \<Rightarrow> 'i bgp_node res" where
  "bgp_node_set bms p =
     rbind (bgp_node_create bms) (\<lambda>nd.
     rbind (prefix_copy (n_p nd) p) (\<lambda>np. Inr (nd\<lparr>n_p := np\<rparr>)))"

text \<open>\<^verbatim>\<open>route_common\<close>: the whole bytes on which \<open>np\<close> and \<open>pp\<close> agree are copied, then the
  length grows bit by bit up to the first difference.\<close>

fun common_bytes :: "byte list \<Rightarrow> byte list \<Rightarrow> nat \<Rightarrow> nat \<Rightarrow> byte list \<Rightarrow> (nat \<times> byte list) res" where
  "common_bytes np pp i 0 newp = Inr (i, newp)"
| "common_bytes np pp i (Suc k) newp =
     rbind (rd8 np i) (\<lambda>a. rbind (rd8 pp i) (\<lambda>b.
       if a = b then rbind (wr8 newp i a) (\<lambda>newp'. common_bytes np pp (Suc i) k newp')
       else Inr (i, newp)))"

function common_bits :: "byte \<Rightarrow> byte \<Rightarrow> nat \<Rightarrow> nat \<Rightarrow> nat" where
  "common_bits m diff newlen plen =
     (if newlen < plen \<and> m AND diff = 0 then common_bits (drop_bit 1 m) diff (Suc newlen) plen
      else newlen)"
  by pat_completeness auto
termination
  by (relation "measure (\<lambda>(_, _, newlen, plen). plen - newlen)") auto

declare common_bits.simps [simp del]

definition route_common :: "prefix_t \<Rightarrow> prefix_t \<Rightarrow> prefix_t \<Rightarrow> prefix_t res" where
  "route_common n p new =
     rbind (common_bytes (pfx_u n) (pfx_u p) 0 (pfx_len p div 8) (pfx_u new)) (\<lambda>(i, newp).
       if i * 8 \<noteq> pfx_len p then
         rbind (rd8 (pfx_u n) i) (\<lambda>a. rbind (rd8 (pfx_u p) i) (\<lambda>b.
           let newlen = common_bits 0x80 (a XOR b) (i * 8) (pfx_len p) in
           rbind (wr8 newp i (a AND maskbit ! (newlen mod 8))) (\<lambda>newp'.
             Inr (new\<lparr>pfx_len := newlen, pfx_u := newp'\<rparr>))))
       else Inr (new\<lparr>pfx_len := i * 8, pfx_u := newp\<rparr>))"

definition check_bit :: "byte list \<Rightarrow> nat \<Rightarrow> bool res" where
  "check_bit p prefixlen =
     rbind (rassert (prefixlen \<le> 128) Assert_Failed) (\<lambda>_.
     rbind (rd8 p (prefixlen div 8)) (\<lambda>b. Inr (bit b (7 - prefixlen mod 8))))"

definition node_link :: "'i bgp_node \<Rightarrow> bool \<Rightarrow> addr option" where
  "node_link nd b = (if b then n_right nd else n_left nd)"

definition link_node :: "'i bgp_node \<Rightarrow> bool \<Rightarrow> addr option \<Rightarrow> 'i bgp_node" where
  "link_node nd b r = (if b then nd\<lparr>n_right := r\<rparr> else nd\<lparr>n_left := r\<rparr>)"

definition set_link :: "'i bgp_table \<Rightarrow> addr \<Rightarrow> addr \<Rightarrow> 'i bgp_table res" where
  "set_link t node new =
     rbind (get_node t node) (\<lambda>nd. rbind (get_node t new) (\<lambda>nw.
     rbind (check_bit (pfx_u (n_p nw)) (pfx_len (n_p nd))) (\<lambda>b.
       let t1 = put_node t node (link_node nd b (Some new)) in
       rbind (get_node t1 new) (\<lambda>nw1. Inr (put_node t1 new (nw1\<lparr>n_parent := Some node\<rparr>))))))"

definition bgp_lock_node :: "'i bgp_table \<Rightarrow> addr \<Rightarrow> 'i bgp_table res" where
  "bgp_lock_node t a = rbind (get_node t a) (\<lambda>nd. Inr (put_node t a (nd\<lparr>n_lock := n_lock nd + 1\<rparr>)))"

text \<open>The descent of \<^verbatim>\<open>bgp_node_get\<close>: \<open>match\<close>, \<open>node\<close> and whether a node of exactly this
  prefix was reached.\<close>

fun get_walk :: "nat \<Rightarrow> 'i bgp_table \<Rightarrow> prefix_t \<Rightarrow> addr option \<Rightarrow> addr option
    \<Rightarrow> (addr option \<times> addr option \<times> bool) res" where
  "get_walk 0 t p m r = Inl No_Fuel"
| "get_walk (Suc k) t p m None = Inr (m, None, False)"
| "get_walk (Suc k) t p m (Some a) =
     rbind (get_node t a) (\<lambda>nd.
       if pfx_len (n_p nd) > pfx_len p then Inr (m, Some a, False)
       else rbind (prefix_match (n_p nd) p) (\<lambda>ok.
         if \<not> ok then Inr (m, Some a, False)
         else if pfx_len (n_p nd) = pfx_len p then Inr (m, Some a, True)
         else rbind (check_bit (pfx_u p) (pfx_len (n_p nd))) (\<lambda>b.
           get_walk k t p (Some a) (node_link nd b))))"

text \<open>\<^verbatim>\<open>if (match) set_link(match, new); else table->top = new;\<close>\<close>

definition attach :: "'i bgp_table \<Rightarrow> addr option \<Rightarrow> addr \<Rightarrow> 'i bgp_table res" where
  "attach t m new = (case m of None \<Rightarrow> Inr (t\<lparr>t_top := Some new\<rparr>) | Some a \<Rightarrow> set_link t a new)"

definition bgp_node_get :: "bgp_misc option \<Rightarrow> 'i bgp_table \<Rightarrow> prefix_t \<Rightarrow> (addr \<times> 'i bgp_table) res" where
  "bgp_node_get bms t p =
     rbind (get_walk (Suc (t_next t)) t p None (t_top t)) (\<lambda>(m, r, found).
       case r of
         None \<Rightarrow>
           rbind (bgp_node_set bms p) (\<lambda>nd.
             let (new, t1) = alloc t nd in
             rbind (attach t1 m new) (\<lambda>t2.
             rbind (bgp_lock_node (t2\<lparr>t_count := t_count t2 + 1\<rparr>) new) (\<lambda>t3. Inr (new, t3))))
       | Some node \<Rightarrow>
           if found then rbind (bgp_lock_node t node) (\<lambda>t1. Inr (node, t1))
           else
             rbind (bgp_node_create bms) (\<lambda>cr.
             rbind (get_node t node) (\<lambda>nd.
             rbind (route_common (n_p nd) p (n_p cr)) (\<lambda>np.
               let (new, t1) = alloc t (cr\<lparr>n_p := np\<lparr>pfx_family := pfx_family p\<rparr>\<rparr>) in
               rbind (set_link t1 new node) (\<lambda>t2.
               rbind (attach t2 m new) (\<lambda>t3.
                 if pfx_len np \<noteq> pfx_len p then
                   rbind (bgp_node_set bms p) (\<lambda>nd2.
                     let (new2, t4) = alloc t3 nd2 in
                     rbind (set_link t4 new new2) (\<lambda>t5.
                     rbind (bgp_lock_node (t5\<lparr>t_count := t_count t5 + 1 + 1\<rparr>) new2)
                       (\<lambda>t6. Inr (new2, t6))))
                 else
                   rbind (bgp_lock_node (t3\<lparr>t_count := t_count t3 + 1\<rparr>) new)
                     (\<lambda>t6. Inr (new, t6))))))))"

text \<open>\<^verbatim>\<open>bgp_node_match\<close>. In one node the buckets \<^verbatim>\<open>modulo\<close>, \<^verbatim>\<open>modulo + 1\<close>, ... are scanned in turn;
  the \<^verbatim>\<open>break\<close> leaves the chain of the bucket but not the loop over the buckets. \<open>cmp\<close> tells
  whether \<^verbatim>\<open>cmp_func\<close> returns 0; \<open>prev\<close> is what the result variables hold before the call,
  left as it is when the peer type has no settings.\<close>

fun scan_buckets :: "('i \<Rightarrow> bool) \<Rightarrow> 'i list list \<Rightarrow> nat \<Rightarrow> nat \<Rightarrow> 'i option \<Rightarrow> 'i option res" where
  "scan_buckets cmp info lm 0 acc = Inr acc"
| "scan_buckets cmp info lm (Suc k) acc =
     (if lm < length info then
        scan_buckets cmp info (Suc lm) k
          (case find cmp (info ! lm) of None \<Rightarrow> acc | Some i \<Rightarrow> Some i)
      else Inl Out_Of_Bounds)"

fun match_walk :: "nat \<Rightarrow> ('i \<Rightarrow> bool) \<Rightarrow> 'i bgp_table \<Rightarrow> prefix_t \<Rightarrow> nat \<Rightarrow> nat \<Rightarrow> addr option
    \<Rightarrow> (addr \<times> 'i) option \<Rightarrow> (addr \<times> 'i) option res" where
  "match_walk 0 cmp t p md mx r acc = Inl No_Fuel"
| "match_walk (Suc k) cmp t p md mx None acc = Inr acc"
| "match_walk (Suc k) cmp t p md mx (Some a) acc =
     rbind (get_node t a) (\<lambda>nd.
       if pfx_len (n_p nd) > pfx_len p then Inr acc
       else rbind (prefix_match (n_p nd) p) (\<lambda>ok.
         if \<not> ok then Inr acc
         else rbind (scan_buckets cmp (n_info nd) md mx None) (\<lambda>hit.
           rbind (check_bit (pfx_u p) (pfx_len (n_p nd))) (\<lambda>b.
             match_walk k cmp t p md mx (node_link nd b)
               (case hit of None \<Rightarrow> acc | Some i \<Rightarrow> Some (a, i))))))"

definition bgp_node_match :: "bgp_misc option \<Rightarrow> ('i \<Rightarrow> bool) \<Rightarrow> (nat \<Rightarrow> nat) \<Rightarrow> 'i bgp_table \<Rightarrow> prefix_t
    \<Rightarrow> (addr \<times> 'i) option \<Rightarrow> ((addr \<times> 'i) option \<times> 'i bgp_table) res" where
  "bgp_node_match bms cmp modulo_func t p prev = (case bms of
       None \<Rightarrow> Inr (prev, t)
     | Some b \<Rightarrow>
         let modulo_max = (if hash_pathid b then table_per_peer_buckets b else 1);
             modulo = modulo_func modulo_max
         in rbind (match_walk (Suc (t_next t)) cmp t p modulo modulo_max (t_top t) None) (\<lambda>result.
              case result of
                None \<Rightarrow> Inr (None, t)
              | Some (a, i) \<Rightarrow> rbind (bgp_lock_node t a) (\<lambda>t1. Inr (Some (a, i), t1))))"

text \<open>The two wrappers build a host prefix: a \<^verbatim>\<open>struct prefix_ipv4\<close> has eight bytes from the
  address on (four of them padding, cleared), a \<^verbatim>\<open>struct prefix_ipv6\<close> sixteen.\<close>

definition bgp_node_match_ipv4 :: "bgp_misc option \<Rightarrow> ('i \<Rightarrow> bool) \<Rightarrow> (nat \<Rightarrow> nat) \<Rightarrow> 'i bgp_table \<Rightarrow> byte list
    \<Rightarrow> (addr \<times> 'i) option \<Rightarrow> ((addr \<times> 'i) option \<times> 'i bgp_table) res" where
  "bgp_node_match_ipv4 bms cmp modulo_func t ad prev =
     bgp_node_match bms cmp modulo_func t
       \<lparr>pfx_family = AF_INET, pfx_len = IPV4_MAX_PREFIXLEN, pfx_u = ad @ replicate 4 0\<rparr> prev"

definition bgp_node_match_ipv6 :: "bgp_misc option \<Rightarrow> ('i \<Rightarrow> bool) \<Rightarrow> (nat \<Rightarrow> nat) \<Rightarrow> 'i bgp_table \<Rightarrow> byte list
    \<Rightarrow> (addr \<times> 'i) option \<Rightarrow> ((addr \<times> 'i) option \<times> 'i bgp_table) res" where
  "bgp_node_match_ipv6 bms cmp modulo_func t ad prev =
     bgp_node_match bms cmp modulo_func t
       \<lparr>pfx_family = AF_INET6, pfx_len = IPV6_MAX_PREFIXLEN, pfx_u = ad\<rparr> prev"

text \<open>\<^verbatim>\<open>bgp_node_delete\<close>: a node with at most one child is unlinked and freed, then its parent
  if nothing holds it.\<close>

definition unlink_node :: "'i bgp_table \<Rightarrow> addr \<Rightarrow> 'i bgp_node \<Rightarrow> 'i bgp_table res" where
  "unlink_node t a nd =
     (let child = (if n_left nd \<noteq> None then n_left nd else n_right nd) in
      rbind (case child of
               None \<Rightarrow> Inr t
             | Some c \<Rightarrow> rbind (get_node t c) (\<lambda>cn. Inr (put_node t c (cn\<lparr>n_parent := n_parent nd\<rparr>)))) (\<lambda>t1.
      rbind (case n_parent nd of
               None \<Rightarrow> Inr (t1\<lparr>t_top := child\<rparr>)
             | Some pa \<Rightarrow> rbind (get_node t1 pa) (\<lambda>pn.
                 Inr (put_node t1 pa
                   (if n_left pn = Some a then pn\<lparr>n_left := child\<rparr> else pn\<lparr>n_right := child\<rparr>)))) (\<lambda>t2.
      Inr (t2\<lparr>t_count := t_count t2 - 1, t_nodes := (t_nodes t2)(a := None)\<rparr>))))"

fun bgp_node_delete :: "nat \<Rightarrow> 'i bgp_table \<Rightarrow> addr \<Rightarrow> 'i bgp_table res" where
  "bgp_node_delete 0 t a = Inl No_Fuel"
| "bgp_node_delete (Suc k) t a =
     rbind (get_node t a) (\<lambda>nd.
     rbind (rassert (n_lock nd = 0) Assert_Failed) (\<lambda>_.
     rbind (rassert (list_all (\<lambda>b. b = []) (n_info nd)) Assert_Failed) (\<lambda>_.
       if n_left nd \<noteq> None \<and> n_right nd \<noteq> None then Inr t
       else rbind (unlink_node t a nd) (\<lambda>t1.
         case n_parent nd of
           None \<Rightarrow> Inr t1
         | Some pa \<Rightarrow> rbind (get_node t1 pa) (\<lambda>pn.
             if n_lock pn = 0 then bgp_node_delete k t1 pa else Inr t1)))))"

definition bgp_unlock_node :: "'i bgp_table \<Rightarrow> addr \<Rightarrow> 'i bgp_table res" where
  "bgp_unlock_node t a =
     rbind (get_node t a) (\<lambda>nd.
       let t1 = put_node t a (nd\<lparr>n_lock := n_lock nd - 1\<rparr>) in
       if n_lock nd - 1 = 0 then bgp_node_delete (Suc (t_next t)) t1 a else Inr t1)"

definition bgp_table_top :: "'i bgp_table \<Rightarrow> (addr option \<times> 'i bgp_table) res" where
  "bgp_table_top t = (case t_top t of
       None \<Rightarrow> Inr (None, t)
     | Some a \<Rightarrow> rbind (bgp_lock_node t a) (\<lambda>t1. Inr (Some a, t1)))"

text \<open>The climb of \<^verbatim>\<open>bgp_route_next\<close> (\<open>limit = None\<close>) and \<^verbatim>\<open>bgp_route_next_until\<close>: the right
  sibling of the first ancestor that is a left child with one.\<close>

fun climb :: "nat \<Rightarrow> 'i bgp_table \<Rightarrow> addr option \<Rightarrow> addr \<Rightarrow> addr option res" where
  "climb 0 t limit a = Inl No_Fuel"
| "climb (Suc k) t limit a =
     rbind (get_node t a) (\<lambda>nd. case n_parent nd of
         None \<Rightarrow> Inr None
       | Some pa \<Rightarrow>
           if limit = Some a then Inr None
           else rbind (get_node t pa) (\<lambda>pn.
             if n_left pn = Some a \<and> n_right pn \<noteq> None then Inr (n_right pn)
             else climb k t limit pa))"

definition next_of :: "'i bgp_table \<Rightarrow> addr option \<Rightarrow> addr \<Rightarrow> addr option res" where
  "next_of t limit a =
     rbind (get_node t a) (\<lambda>nd.
       if n_left nd \<noteq> None then Inr (n_left nd)
       else if n_right nd \<noteq> None then Inr (n_right nd)
       else climb (Suc (t_next t)) t limit a)"

definition bgp_route_next_until ::
    "'i bgp_table \<Rightarrow> addr \<Rightarrow> addr option \<Rightarrow> (addr option \<times> 'i bgp_table) res" where
  "bgp_route_next_until t a limit =
     rbind (next_of t limit a) (\<lambda>nx.
       case nx of
         None \<Rightarrow> rbind (bgp_unlock_node t a) (\<lambda>t1. Inr (None, t1))
       | Some b \<Rightarrow> rbind (bgp_lock_node t b) (\<lambda>t1. rbind (bgp_unlock_node t1 a) (\<lambda>t2. Inr (Some b, t2))))"

definition bgp_route_next :: "'i bgp_table \<Rightarrow> addr \<Rightarrow> (addr option \<times> 'i bgp_table) res" where
  "bgp_route_next t a = bgp_route_next_until t a None"

section \<open>Common prefixes\<close>

lemma common_bytes_eq:
  assumes "i + k \<le> length np" "i + k \<le> length pp" "i + k \<le> length newp"
  shows "\<exists>j newp'. common_bytes np pp i k newp = Inr (j, newp') \<and> i \<le> j \<and> j \<le> i + k \<and>
      length newp' = length newp \<and> take i newp' = take i newp \<and> drop j newp' = drop j newp \<and>
      (\<forall>x. i \<le> x \<and> x < j \<longrightarrow> newp' ! x = np ! x \<and> np ! x = pp ! x) \<and>
      (j = i + k \<or> np ! j \<noteq> pp ! j)"
  using assms
proof (induction k arbitrary: i newp)
  case 0
  then show ?case by auto
next
  case (Suc k)
  show ?case
  proof (cases "np ! i = pp ! i")
    case True
    have "Suc i + k \<le> length np" "Suc i + k \<le> length pp" "Suc i + k \<le> length (newp[i := np ! i])"
      using Suc.prems by simp_all
    from Suc.IH [OF this] obtain j newp' where
      j: "common_bytes np pp (Suc i) k (newp[i := np ! i]) = Inr (j, newp')" "Suc i \<le> j" "j \<le> Suc i + k"
        "length newp' = length newp" "take (Suc i) newp' = take (Suc i) (newp[i := np ! i])"
        "drop j newp' = drop j (newp[i := np ! i])"
        "\<forall>x. Suc i \<le> x \<and> x < j \<longrightarrow> newp' ! x = np ! x \<and> np ! x = pp ! x"
        "j = Suc i + k \<or> np ! j \<noteq> pp ! j"
      by auto
    have len: "i < length newp" "i < length newp'" using Suc.prems j(4) by simp_all
    have "newp' ! i = np ! i" "take i newp' = take i newp"
      using j(5) len by (simp_all add: take_Suc_conv_app_nth)
    moreover have "drop j newp' = drop j newp" using j(2,6) by simp
    moreover have "newp' ! x = np ! x \<and> np ! x = pp ! x" if "i \<le> x" "x < j" for x
      using that True \<open>newp' ! i = np ! i\<close> j(7) by (cases "x = i") simp_all
    moreover have "common_bytes np pp i (Suc k) newp = Inr (j, newp')"
      using True Suc.prems j(1) by simp
    ultimately show ?thesis
      using j(2,3,4,8) by (intro exI [of _ j] exI [of _ newp']) simp
  next
    case False
    then show ?thesis using Suc.prems by (intro exI [of _ i] exI [of _ newp]) auto
  qed
qed

lemma shifted_mask_and:
  assumes "s < 8"
  shows "drop_bit s 0x80 AND d = 0 \<longleftrightarrow> \<not> bit (d :: byte) (7 - s)"
proof -
  have "s \<in> {0,1,2,3,4,5,6,7}" using assms by auto
  then have m: "drop_bit s (0x80 :: byte) = push_bit (7 - s) 1"
    by (auto simp: drop_bit_eq_div push_bit_eq_mult)
  have "push_bit (7 - s) 1 AND d = 0 \<longleftrightarrow> (\<forall>n < 8. \<not> bit (push_bit (7 - s) 1 AND d) n)"
    using bit_eq_iff [of "push_bit (7 - s) 1 AND d" 0] by simp
  then show ?thesis unfolding m using assms by (auto simp: bit_and_iff bit_exp_iff)
qed

lemma common_bits_eq:
  assumes "s < 8" "base + s \<le> plen" "plen < base + 8 \<or> (\<exists>x. s \<le> x \<and> x < 8 \<and> bit d (7 - x))"
  shows "\<exists>r. common_bits (drop_bit s 0x80) d (base + s) plen = base + r \<and> s \<le> r \<and> r < 8 \<and>
      base + r \<le> plen \<and> (\<forall>x. s \<le> x \<and> x < r \<longrightarrow> \<not> bit d (7 - x)) \<and>
      (base + r = plen \<or> bit d (7 - r))"
  using assms
proof (induction "8 - s" arbitrary: s)
  case 0
  then show ?case by simp
next
  case (Suc n)
  show ?case
  proof (cases "base + s < plen \<and> \<not> bit d (7 - s)")
    case False
    then show ?thesis
      using Suc.prems by (subst common_bits.simps)
        (intro exI [of _ s], auto simp: shifted_mask_and)
  next
    case True
    then have step: "common_bits (drop_bit s 0x80) d (base + s) plen
        = common_bits (drop_bit (Suc s) 0x80) d (base + Suc s) plen"
      using Suc.prems by (subst common_bits.simps) (simp add: shifted_mask_and)
    have pre: "plen < base + 8 \<or> (\<exists>x. Suc s \<le> x \<and> x < 8 \<and> bit d (7 - x))"
    proof (cases "plen < base + 8")
      case False
      with Suc.prems(3) obtain x where "s \<le> x" "x < 8" "bit d (7 - x)" by blast
      moreover from this True have "x \<noteq> s" by auto
      ultimately show ?thesis by (metis Suc_leI le_neq_implies_less)
    qed simp
    have "Suc s < 8"
    proof (rule ccontr)
      assume "\<not> Suc s < 8"
      with Suc.prems(1) have "s = 7" by simp
      with pre True show False by auto
    qed
    moreover have "base + Suc s \<le> plen" "n = 8 - Suc s" using True Suc.hyps(2) by simp_all
    ultimately obtain r where
      r: "common_bits (drop_bit (Suc s) 0x80) d (base + Suc s) plen = base + r" "Suc s \<le> r" "r < 8"
        "base + r \<le> plen" "\<forall>x. Suc s \<le> x \<and> x < r \<longrightarrow> \<not> bit d (7 - x)"
        "base + r = plen \<or> bit d (7 - r)"
      using Suc.hyps(1) [of "Suc s"] pre by blast
    have "\<not> bit d (7 - x)" if "s \<le> x" "x < r" for x
      using that True r(5) by (cases "x = s") auto
    with r(1-4,6) step show ?thesis by (intro exI [of _ r]) simp
  qed
qed

text \<open>\<open>route_common\<close> into a fresh node: the result denotes the longest common prefix of
  the two bit strings, and past it the strings differ or \<open>p\<close> is exhausted.\<close>

lemma route_common_eq:
  assumes "length (pfx_u n) = 16" "length (pfx_u p) = 16" "pfx_len p \<le> 128"
  shows "\<exists>new'. route_common n p prefix_new = Inr new' \<and> length (pfx_u new') = 16 \<and>
      pfx_family new' = 0 \<and> pfx_len new' \<le> pfx_len p \<and>
      pfx_bits new' = take (pfx_len new') (bits_of (pfx_u p)) \<and>
      pfx_bits new' = take (pfx_len new') (bits_of (pfx_u n)) \<and>
      (pfx_len new' = pfx_len p \<or> bits_of (pfx_u n) ! pfx_len new' \<noteq> bits_of (pfx_u p) ! pfx_len new')"
proof -
  let ?k = "pfx_len p div 8" and ?nu = "pfx_u n" and ?pu = "pfx_u p" and ?z = "replicate 16 0 :: byte list"
  have k: "0 + ?k \<le> 16" using assms(3) by simp
  obtain j u where
    cb: "common_bytes ?nu ?pu 0 ?k ?z = Inr (j, u)" and j: "j \<le> ?k" and lu: "length u = 16"
      and dr: "drop j u = drop j ?z"
      and eq: "\<forall>x < j. u ! x = ?nu ! x \<and> ?nu ! x = ?pu ! x"
      and stop: "j = ?k \<or> ?nu ! j \<noteq> ?pu ! j"
    using common_bytes_eq [of 0 ?k ?nu ?pu ?z] k assms by auto
  have tk: "take j u = take j ?nu" "take j ?nu = take j ?pu"
    using eq lu assms j k by (simp_all add: list_eq_iff_nth_eq)
  show ?thesis
  proof (cases "j * 8 = pfx_len p")
    case True
    let ?new = "prefix_new\<lparr>pfx_len := j * 8, pfx_u := u\<rparr>"
    have "pfx_bits ?new = bits_of (take j u)"
      using take_bits_of [of j u] by (simp add: pfx_bits_def mult.commute)
    moreover have "take (j * 8) (bits_of ?pu) = bits_of (take j ?pu)" "take (j * 8) (bits_of ?nu) = bits_of (take j ?nu)"
      using take_bits_of [of j ?pu] take_bits_of [of j ?nu] by (simp_all add: mult.commute)
    moreover have "route_common n p prefix_new = Inr ?new"
      using True cb by (simp add: route_common_def prefix_new_def)
    ultimately show ?thesis
      using True tk lu by (intro exI [of _ ?new]) (simp add: prefix_new_def)
  next
    case False
    have j8: "j * 8 < pfx_len p" using False j by linarith
    then have j16: "j < 16" using assms(3) by linarith
    let ?d = "?nu ! j XOR ?pu ! j"
    have "pfx_len p < j * 8 + 8 \<or> (\<exists>x. 0 \<le> x \<and> x < 8 \<and> bit ?d (7 - x))"
    proof (cases "j = ?k")
      case True
      have "pfx_len p < ?k * 8 + 8" by linarith
      with True show ?thesis by simp
    next
      case False
      with stop have "?nu ! j \<noteq> ?pu ! j" by simp
      then have "byte_bits (?nu ! j) \<noteq> byte_bits (?pu ! j)" by simp
      then obtain x where "x < 8" "bit (?nu ! j) (7 - x) \<noteq> bit (?pu ! j) (7 - x)"
        by (auto simp: list_eq_iff_nth_eq)
      then show ?thesis by (auto simp: bit_xor_iff)
    qed
    from common_bits_eq [of 0 "j * 8" "pfx_len p" ?d, OF _ _ this] j8 obtain r where
      r: "common_bits 0x80 ?d (j * 8) (pfx_len p) = j * 8 + r" "r < 8" "j * 8 + r \<le> pfx_len p"
        "\<forall>x < r. \<not> bit ?d (7 - x)" "j * 8 + r = pfx_len p \<or> bit ?d (7 - r)"
      by auto
    let ?b = "?nu ! j AND maskbit ! r"
    let ?new = "prefix_new\<lparr>pfx_len := j * 8 + r, pfx_u := u[j := ?b]\<rparr>"
    have rc: "route_common n p prefix_new = Inr ?new"
      using False cb assms(1,2) j16 lu r(1,2)
      by (simp add: route_common_def prefix_new_def Let_def mod_add_eq [symmetric])
    have dm: "(j * 8 + r) div 8 = j" "(j * 8 + r) mod 8 = r" using r(2) by simp_all
    have "pfx_bits ?new = bits_of (take j u) @ take r (byte_bits ?b)"
      using j16 lu dm by (simp add: pfx_bits_def take_bits_of_split)
    then have nb: "pfx_bits ?new = bits_of (take j u) @ take r (byte_bits (?nu ! j))"
      using r(2) by (simp add: byte_bits_mask)
    have same: "take r (byte_bits (?nu ! j)) = take r (byte_bits (?pu ! j))"
      using r(2,4) by (simp add: list_eq_iff_nth_eq bit_xor_iff)
    have tb: "take (j * 8 + r) (bits_of ?nu) = bits_of (take j ?nu) @ take r (byte_bits (?nu ! j))"
      "take (j * 8 + r) (bits_of ?pu) = bits_of (take j ?pu) @ take r (byte_bits (?pu ! j))"
      using j16 assms(1,2) dm by (simp_all add: take_bits_of_split)
    have "j * 8 + r = pfx_len p \<or> bits_of ?nu ! (j * 8 + r) \<noteq> bits_of ?pu ! (j * 8 + r)"
      using r(5) j16 assms(1,2) dm r(2) by (auto simp: nth_bits_of bit_xor_iff)
    then show ?thesis
      using rc nb tb same tk r(3) lu by (intro exI [of _ ?new]) (simp add: prefix_new_def)
  qed
qed

end
