(* ===== verification/Bgp_Trie.thy ===== *)
theory Bgp_Trie
  imports Bgp_Table
begin

text \<open>
  The abstract specification of the routing table: binary tries of prefixes, the
  representation relation between a trie and the heap of \<open>Bgp_Table\<close>, and the
  refinement of the heap operations. A position in a trie is a context (a list of frames,
  innermost first) and the subtrie in focus.
\<close>

section \<open>Tries, contexts, representation\<close>

datatype 'i trie = Lf | Nd addr prefix_t "'i list list" u32 "'i trie" "'i trie"

datatype 'i frame = Fr addr prefix_t "'i list list" u32 bool "'i trie"

definition mk_node :: "prefix_t \<Rightarrow> addr option \<Rightarrow> addr option \<Rightarrow> addr option \<Rightarrow> 'i list list \<Rightarrow> u32 \<Rightarrow> 'i bgp_node" where
  "mk_node p par l r i lk =
     \<lparr>n_p = p, n_parent = par, n_left = l, n_right = r, n_info = i, n_lock = lk\<rparr>"

lemma mk_node_sel [simp]:
  "n_p (mk_node p par l r i lk) = p" "n_parent (mk_node p par l r i lk) = par"
  "n_left (mk_node p par l r i lk) = l" "n_right (mk_node p par l r i lk) = r"
  "n_info (mk_node p par l r i lk) = i" "n_lock (mk_node p par l r i lk) = lk"
  "node_link (mk_node p par l r i lk) b = (if b then r else l)"
  by (simp_all add: mk_node_def node_link_def)

lemma mk_node_upd [simp]:
  "(mk_node p par l r i lk)\<lparr>n_parent := par'\<rparr> = mk_node p par' l r i lk"
  "(mk_node p par l r i lk)\<lparr>n_left := l'\<rparr> = mk_node p par l' r i lk"
  "(mk_node p par l r i lk)\<lparr>n_right := r'\<rparr> = mk_node p par l r' i lk"
  "(mk_node p par l r i lk)\<lparr>n_lock := lk'\<rparr> = mk_node p par l r i lk'"
  "(mk_node p par l r i lk)\<lparr>n_p := p'\<rparr> = mk_node p' par l r i lk"
  by (simp_all add: mk_node_def)

fun root :: "'i trie \<Rightarrow> addr option" where
  "root Lf = None"
| "root (Nd a p i lk l r) = Some a"

fun rep :: "(addr \<Rightarrow> 'i bgp_node option) \<Rightarrow> addr option \<Rightarrow> 'i trie \<Rightarrow> bool" where
  "rep h par Lf = True"
| "rep h par (Nd a p i lk l r) =
     (h a = Some (mk_node p par (root l) (root r) i lk) \<and> rep h (Some a) l \<and> rep h (Some a) r)"

fun addrs :: "'i trie \<Rightarrow> addr list" where
  "addrs Lf = []"
| "addrs (Nd a p i lk l r) = a # addrs l @ addrs r"

fun plug1 :: "'i frame \<Rightarrow> 'i trie \<Rightarrow> 'i trie" where
  "plug1 (Fr a p i lk d sib) t = (if d then Nd a p i lk sib t else Nd a p i lk t sib)"

fun plug :: "'i frame list \<Rightarrow> 'i trie \<Rightarrow> 'i trie" where
  "plug [] t = t"
| "plug (f # c) t = plug c (plug1 f t)"

fun ctx_top :: "'i frame list \<Rightarrow> addr option" where
  "ctx_top [] = None"
| "ctx_top (Fr a p i lk d sib # c) = Some a"

fun ctx_addrs :: "'i frame list \<Rightarrow> addr list" where
  "ctx_addrs [] = []"
| "ctx_addrs (Fr a p i lk d sib # c) = a # addrs sib @ ctx_addrs c"

fun rep_ctx :: "(addr \<Rightarrow> 'i bgp_node option) \<Rightarrow> 'i frame list \<Rightarrow> addr option \<Rightarrow> bool" where
  "rep_ctx h [] x = True"
| "rep_ctx h (Fr a p i lk d sib # c) x =
     (h a = Some (mk_node p (ctx_top c) (if d then root sib else x) (if d then x else root sib) i lk) \<and>
      rep h (Some a) sib \<and> rep_ctx h c (Some a))"

lemma root_plug1 [simp]: "root (plug1 (Fr a p i lk d sib) t) = Some a"
  by simp

lemma rep_plug: "rep h None (plug c t) \<longleftrightarrow> rep_ctx h c (root t) \<and> rep h (ctx_top c) t"
proof (induction c arbitrary: t)
  case (Cons f c)
  then show ?case by (cases f) auto
qed simp

lemma set_addrs_plug: "set (addrs (plug c t)) = set (addrs t) \<union> set (ctx_addrs c)"
proof (induction c arbitrary: t)
  case (Cons f c)
  then show ?case by (cases f) auto
qed simp

lemma distinct_addrs_plug:
  "distinct (addrs (plug c t)) \<longleftrightarrow>
     distinct (addrs t) \<and> distinct (ctx_addrs c) \<and> set (addrs t) \<inter> set (ctx_addrs c) = {}"
proof (induction c arbitrary: t)
  case (Cons f c)
  then show ?case by (cases f) (auto simp: Int_Un_distrib Int_Un_distrib2)
qed simp

lemma length_addrs_plug: "length (addrs (plug c t)) = length (addrs t) + length (ctx_addrs c)"
proof (induction c arbitrary: t)
  case (Cons f c)
  then show ?case by (cases f) auto
qed simp

lemma rep_cong: "(\<And>a. a \<in> set (addrs t) \<Longrightarrow> h' a = h a) \<Longrightarrow> rep h' par t = rep h par t"
  by (induction t arbitrary: par) auto

lemma rep_ctx_cong: "(\<And>a. a \<in> set (ctx_addrs c) \<Longrightarrow> h' a = h a) \<Longrightarrow> rep_ctx h' c x = rep_ctx h c x"
proof (induction c arbitrary: x)
  case (Cons f c)
  obtain a p i lk d sib where f: "f = Fr a p i lk d sib" by (cases f)
  have "rep h' (Some a) sib = rep h (Some a) sib"
    using Cons.prems by (intro rep_cong) (simp add: f)
  moreover have "rep_ctx h' c (Some a) = rep_ctx h c (Some a)"
    using Cons.prems by (intro Cons.IH) (simp add: f)
  ultimately show ?case using Cons.prems by (simp add: f)
qed simp

text \<open>Moving the focus to another subtrie: only the link of the innermost frame changes.\<close>

fun relink :: "'i frame list \<Rightarrow> addr option \<Rightarrow> (addr \<Rightarrow> 'i bgp_node option) \<Rightarrow> (addr \<Rightarrow> 'i bgp_node option)" where
  "relink [] x h = h"
| "relink (Fr a p i lk d sib # c) x h =
     h(a := Some (mk_node p (ctx_top c) (if d then root sib else x) (if d then x else root sib) i lk))"

lemma rep_ctx_relink:
  assumes "rep_ctx h c x" "distinct (ctx_addrs c)"
  shows "rep_ctx (relink c y h) c y"
proof (cases c)
  case (Cons f c')
  obtain a p i lk d sib where f: "f = Fr a p i lk d sib" by (cases f)
  let ?h = "relink c y h"
  have "rep ?h (Some a) sib = rep h (Some a) sib"
    using assms(2) by (intro rep_cong) (auto simp: Cons f)
  moreover have "rep_ctx ?h c' (Some a) = rep_ctx h c' (Some a)"
    using assms(2) by (intro rep_ctx_cong) (auto simp: Cons f)
  ultimately show ?thesis using assms(1) by (simp add: Cons f)
qed simp

section \<open>Well-formed tries\<close>

fun bits_ok :: "byte \<Rightarrow> bool list \<Rightarrow> 'i trie \<Rightarrow> bool" where
  "bits_ok f pre Lf = True"
| "bits_ok f pre (Nd a p i lk l r) =
     (wf_prefix p \<and> pfx_family p = f \<and> prefix pre (pfx_bits p) \<and>
      bits_ok f (pfx_bits p @ [False]) l \<and> bits_ok f (pfx_bits p @ [True]) r)"

fun ctx_bits :: "'i frame list \<Rightarrow> bool list" where
  "ctx_bits [] = []"
| "ctx_bits (Fr a p i lk d sib # c) = pfx_bits p @ [d]"

fun ctx_ok :: "byte \<Rightarrow> 'i frame list \<Rightarrow> bool" where
  "ctx_ok f [] = True"
| "ctx_ok f (Fr a p i lk d sib # c) =
     (wf_prefix p \<and> pfx_family p = f \<and> prefix (ctx_bits c) (pfx_bits p) \<and>
      bits_ok f (pfx_bits p @ [\<not> d]) sib \<and> ctx_ok f c)"

lemma bits_ok_plug: "bits_ok f [] (plug c t) \<longleftrightarrow> ctx_ok f c \<and> bits_ok f (ctx_bits c) t"
proof (induction c arbitrary: t)
  case (Cons fr c)
  then show ?case by (cases fr) auto
qed simp

text \<open>The nodes of a trie with their data, in preorder.\<close>

fun tnodes :: "'i trie \<Rightarrow> (addr \<times> prefix_t \<times> 'i list list) list" where
  "tnodes Lf = []"
| "tnodes (Nd a p i lk l r) = (a, p, i) # tnodes l @ tnodes r"

fun ctx_nodes :: "'i frame list \<Rightarrow> (addr \<times> prefix_t \<times> 'i list list) list" where
  "ctx_nodes [] = []"
| "ctx_nodes (Fr a p i lk d sib # c) = (a, p, i) # tnodes sib @ ctx_nodes c"

lemma set_tnodes_plug: "set (tnodes (plug c t)) = set (tnodes t) \<union> set (ctx_nodes c)"
proof (induction c arbitrary: t)
  case (Cons f c)
  then show ?case by (cases f) auto
qed simp

lemma bits_ok_prefix: "bits_ok f pre t \<Longrightarrow> (a, p, i) \<in> set (tnodes t) \<Longrightarrow> prefix pre (pfx_bits p)"
proof (induction t arbitrary: pre)
  case (Nd a' p' i' lk l r)
  have pre: "prefix pre (pfx_bits p')" using Nd.prems(1) by simp
  show ?case
  proof (cases "(a, p, i) = (a', p', i')")
    case False
    then have "(a, p, i) \<in> set (tnodes l) \<or> (a, p, i) \<in> set (tnodes r)" using Nd.prems(2) by auto
    then have "prefix (pfx_bits p' @ [False]) (pfx_bits p) \<or> prefix (pfx_bits p' @ [True]) (pfx_bits p)"
      using Nd.IH Nd.prems(1) by auto
    then show ?thesis using pre by (meson append_prefixD prefix_order.trans)
  qed (use pre in simp)
qed simp

lemma tnodes_rep: "rep h par t \<Longrightarrow> (a, p, i) \<in> set (tnodes t) \<Longrightarrow>
    \<exists>nd. h a = Some nd \<and> n_p nd = p \<and> n_info nd = i"
  by (induction t arbitrary: par) auto

lemma addrs_tnodes: "addrs t = map fst (tnodes t)"
  by (induction t) auto

text \<open>What makes a table state well formed for address family \<open>f\<close>: its heap is exactly one
  well-formed trie, and \<^verbatim>\<open>count\<close> the number of its nodes.\<close>

definition table_rep :: "'i bgp_table \<Rightarrow> 'i trie \<Rightarrow> bool" where
  "table_rep T t \<longleftrightarrow> t_top T = root t \<and> rep (t_nodes T) None t \<and> distinct (addrs t) \<and>
     dom (t_nodes T) = set (addrs t) \<and> (\<forall>a \<in> set (addrs t). a < t_next T) \<and>
     t_count T = word_of_nat (length (addrs t))"

definition table_inv :: "byte \<Rightarrow> 'i bgp_table \<Rightarrow> bool" where
  "table_inv f T \<longleftrightarrow> (\<exists>t. table_rep T t \<and> bits_ok f [] t)"

lemma table_inv_init: "table_inv f (bgp_table_init afi safi)"
  unfolding table_inv_def table_rep_def
  by (intro exI [of _ Lf]) (simp add: bgp_table_init_def)

lemma fuel_bound:
  assumes "table_rep T t"
  shows "length (addrs t) \<le> t_next T"
proof -
  have "set (addrs t) \<subseteq> {..<t_next T}" using assms by (auto simp: table_rep_def)
  then have "card (set (addrs t)) \<le> t_next T" using card_mono [of "{..<t_next T}"] by fastforce
  then show ?thesis using assms by (simp add: table_rep_def distinct_card)
qed

text \<open>The discipline of the reference counts: a node that nothing holds is a branching point
  without routes.\<close>

definition no_routes :: "'i list list \<Rightarrow> bool" where
  "no_routes i \<longleftrightarrow> list_all (\<lambda>b. b = []) i"

fun lock_ok :: "'i trie \<Rightarrow> bool" where
  "lock_ok Lf = True"
| "lock_ok (Nd a p i lk l r) = ((lk = 0 \<longrightarrow> l \<noteq> Lf \<and> r \<noteq> Lf \<and> no_routes i) \<and> lock_ok l \<and> lock_ok r)"

fun lock_ctx :: "'i frame list \<Rightarrow> bool" where
  "lock_ctx [] = True"
| "lock_ctx (Fr a p i lk d sib # c) = ((lk = 0 \<longrightarrow> sib \<noteq> Lf \<and> no_routes i) \<and> lock_ok sib \<and> lock_ctx c)"

lemma lock_ok_plug: "t \<noteq> Lf \<Longrightarrow> lock_ok (plug c t) \<longleftrightarrow> lock_ctx c \<and> lock_ok t"
proof (induction c arbitrary: t)
  case (Cons fr c)
  then show ?case by (cases fr) auto
qed simp

lemma lock_ctx_plug: "lock_ok (plug c t) \<Longrightarrow> lock_ctx c"
proof (cases c)
  case (Cons fr c')
  assume "lock_ok (plug c t)"
  then have "lock_ok (plug c' (plug1 fr t))" by (simp add: Cons)
  moreover have "plug1 fr t \<noteq> Lf" by (cases fr) simp
  ultimately show ?thesis by (cases fr) (auto simp: Cons lock_ok_plug split: if_splits)
qed simp

definition lock_inv :: "'i bgp_table \<Rightarrow> bool" where
  "lock_inv T \<longleftrightarrow> (\<forall>a nd. t_nodes T a = Some nd \<longrightarrow> n_lock nd = 0 \<longrightarrow>
     n_left nd \<noteq> None \<and> n_right nd \<noteq> None \<and> no_routes (n_info nd))"

lemma root_eq_None [simp]: "root t = None \<longleftrightarrow> t = Lf"
  by (cases t) auto

lemma rep_lock_ok:
  "rep h par t \<Longrightarrow> lock_ok t \<longleftrightarrow> (\<forall>a \<in> set (addrs t). \<forall>nd. h a = Some nd \<longrightarrow> n_lock nd = 0 \<longrightarrow>
     n_left nd \<noteq> None \<and> n_right nd \<noteq> None \<and> no_routes (n_info nd))"
proof (induction t arbitrary: par)
  case (Nd a p i lk l r)
  then show ?case using Nd.IH(1) [of "Some a"] Nd.IH(2) [of "Some a"] by (simp add: ball_Un del: not_None_eq)
qed simp

lemma lock_inv_iff: "table_rep T t \<Longrightarrow> lock_inv T \<longleftrightarrow> lock_ok t"
  unfolding lock_inv_def table_rep_def using rep_lock_ok [of "t_nodes T" None t] by (metis domI)

section \<open>The descent\<close>

fun zwalk :: "bool list \<Rightarrow> 'i frame list \<Rightarrow> 'i trie \<Rightarrow> 'i frame list \<times> 'i trie" where
  "zwalk q c Lf = (c, Lf)"
| "zwalk q c (Nd a p i lk l r) =
     (if prefix (pfx_bits p) q \<and> pfx_bits p \<noteq> q then
        if q ! length (pfx_bits p) then zwalk q (Fr a p i lk True l # c) r
        else zwalk q (Fr a p i lk False r # c) l
      else (c, Nd a p i lk l r))"

lemma plug_zwalk: "zwalk q c t = (c', t') \<Longrightarrow> plug c' t' = plug c t"
  by (induction q c t rule: zwalk.induct) (auto split: if_splits)

lemma prefix_snoc_nth:
  assumes "prefix b q" "b \<noteq> q"
  shows "prefix (b @ [q ! length b]) q"
proof -
  obtain zs where q: "q = b @ zs" using assms(1) by (auto simp: prefix_def)
  with assms(2) obtain z zs' where "zs = z # zs'" by (cases zs) auto
  with q show ?thesis by simp
qed

lemma ctx_bits_zwalk: "zwalk q c t = (c', t') \<Longrightarrow> prefix (ctx_bits c) q \<Longrightarrow> prefix (ctx_bits c') q"
proof (induction q c t rule: zwalk.induct)
  case (2 q c a p i lk l r)
  show ?case
  proof (cases "prefix (pfx_bits p) q \<and> pfx_bits p \<noteq> q")
    case True
    then have "prefix (pfx_bits p @ [q ! length (pfx_bits p)]) q" by (simp add: prefix_snoc_nth)
    with 2 True show ?thesis by (cases "q ! length (pfx_bits p)") auto
  next
    case False
    with 2 show ?thesis by auto
  qed
qed simp

lemma zwalk_focus:
  "zwalk q c t = (c', Nd a p i lk l r) \<Longrightarrow> \<not> prefix (pfx_bits p) q \<or> pfx_bits p = q"
  by (induction q c t rule: zwalk.induct) (auto split: if_splits)

lemma check_bit_eq:
  assumes "pfx_ok p" "pfx_len p \<le> 129" "n < pfx_len p"
  shows "check_bit (pfx_u p) n = Inr (pfx_bits p ! n)"
proof -
  have "n < 8 * length (pfx_u p)" using assms by (simp add: pfx_ok_def)
  moreover from this have "n div 8 < length (pfx_u p)" by (simp add: less_mult_imp_div_less mult.commute)
  ultimately show ?thesis using assms by (simp add: check_bit_def pfx_bits_def nth_bits_of)
qed

lemma get_walk_eq:
  assumes "rep (t_nodes T) (ctx_top c) t" "bits_ok f pre t" "pfx_ok p" "pfx_len p \<le> 128"
    "length (addrs t) < k" "zwalk (pfx_bits p) c t = (c', t')"
  shows "get_walk k T p (ctx_top c) (root t) =
     Inr (ctx_top c', root t', (case t' of Lf \<Rightarrow> False | Nd a q i lk l r \<Rightarrow> pfx_bits q = pfx_bits p))"
  using assms
proof (induction t arbitrary: c pre k)
  case Lf
  then obtain k' where "k = Suc k'" by (cases k) auto
  with Lf show ?case by auto
next
  case (Nd a q i lk l r)
  obtain k' where k: "k = Suc k'" using Nd.prems(5) by (cases k) auto
  have nd: "get_node T a = Inr (mk_node q (ctx_top c) (root l) (root r) i lk)"
    using Nd.prems(1) by (simp add: get_node_def)
  have okq: "pfx_ok q" using Nd.prems(2) by simp
  have lens: "length (pfx_bits q) = pfx_len q" "length (pfx_bits p) = pfx_len p"
    using okq Nd.prems(3) by simp_all
  have pm: "prefix_match q p = Inr (prefix (pfx_bits q) (pfx_bits p))"
    using okq Nd.prems(3) by (rule prefix_match_eq)
  have le: "prefix (pfx_bits q) (pfx_bits p) \<Longrightarrow> pfx_len q \<le> pfx_len p"
    using lens prefix_length_le by metis
  have eq: "prefix (pfx_bits q) (pfx_bits p) \<Longrightarrow> pfx_len q = pfx_len p \<longleftrightarrow> pfx_bits q = pfx_bits p"
    using lens by (metis order_refl prefix_iff_take take_all)
  show ?case
  proof (cases "prefix (pfx_bits q) (pfx_bits p) \<and> pfx_bits q \<noteq> pfx_bits p")
    case False
    then have z: "c' = c" "t' = Nd a q i lk l r" using Nd.prems(6) by auto
    show ?thesis using False le eq by (auto simp: k nd pm z)
  next
    case True
    then have lt: "pfx_len q < pfx_len p" using le eq by (simp add: le_less)
    then have cb: "check_bit (pfx_u p) (pfx_len q) = Inr (pfx_bits p ! pfx_len q)"
      using Nd.prems(3,4) by (intro check_bit_eq) simp_all
    have step: "get_walk k T p (ctx_top c) (root (Nd a q i lk l r)) =
        get_walk k' T p (Some a) (if pfx_bits p ! pfx_len q then root r else root l)"
      using True lt by (simp add: k nd pm cb)
    have child: "get_walk k' T p (ctx_top (Fr a q i lk b s # c)) (root t) =
      Inr (ctx_top c', root t', (case t' of Lf \<Rightarrow> False | Nd a q i lk l r \<Rightarrow> pfx_bits q = pfx_bits p))"
      if "t = r \<and> b \<or> t = l \<and> \<not> b" "zwalk (pfx_bits p) (Fr a q i lk b s # c) t = (c', t')" for t b s
      using that Nd.prems(1-5) k
        Nd.IH(1) [of "Fr a q i lk b s # c" "pfx_bits q @ [False]" k']
        Nd.IH(2) [of "Fr a q i lk b s # c" "pfx_bits q @ [True]" k'] by auto
    show ?thesis
      using step True Nd.prems(6) child [of r True l] child [of l False r] lens(1)
      by (cases "pfx_bits p ! pfx_len q") simp_all
  qed
qed

section \<open>Insertion\<close>

definition empty_info :: "bgp_misc \<Rightarrow> 'i list list" where
  "empty_info b = replicate (table_peer_buckets b * table_per_peer_buckets b) []"

lemma no_routes_empty: "no_routes (empty_info b)"
  by (simp add: no_routes_def empty_info_def list_all_iff)

lemma bgp_node_create_eq: "bgp_node_create (Some b) = Inr (mk_node prefix_new None None None (empty_info b) 0)"
  by (simp add: bgp_node_create_def mk_node_def empty_info_def)

lemma take_bits_of_prefix:
  "n \<le> 8 * k \<Longrightarrow> k \<le> length xs \<Longrightarrow> take n (bits_of (take k xs @ ys)) = take n (bits_of xs)"
  by (simp add: take_bits_of [symmetric] min_def)

lemma prefix_copy_eq:
  assumes "wf_prefix p"
  shows "\<exists>p'. prefix_copy prefix_new p = Inr p' \<and> wf_prefix p' \<and> pfx_family p' = pfx_family p \<and>
           pfx_bits p' = pfx_bits p"
proof -
  have l: "pfx_len p \<le> 8 * prefix_blen p" "prefix_blen p \<le> 16" "length (pfx_u p) = 16"
    using assms prefix_blen_bound [OF assms] by (simp_all add: wf_prefix_def)
  let ?p' = "prefix_new\<lparr>pfx_family := pfx_family p, pfx_len := pfx_len p,
      pfx_u := take (prefix_blen p) (pfx_u p) @ drop (prefix_blen p) (replicate 16 0)\<rparr>"
  have "prefix_copy prefix_new p = Inr ?p'"
    using assms by (auto simp: prefix_copy_def wf_prefix_def prefix_new_def prefix_blen_def af_defs)
  moreover have "pfx_bits ?p' = take (pfx_len p)
      (bits_of (take (prefix_blen p) (pfx_u p) @ drop (prefix_blen p) (replicate 16 0)))"
    by (simp add: pfx_bits_def)
  then have "pfx_bits ?p' = pfx_bits p"
    unfolding pfx_bits_def [of p] using l by (simp only: take_bits_of_prefix)
  moreover have "wf_prefix ?p'" using assms l by (auto simp: wf_prefix_def)
  ultimately show ?thesis by auto
qed

lemma bgp_node_set_eq:
  assumes "wf_prefix p"
  shows "\<exists>p'. bgp_node_set (Some b) p = Inr (mk_node p' None None None (empty_info b) 0) \<and>
           wf_prefix p' \<and> pfx_family p' = pfx_family p \<and> pfx_bits p' = pfx_bits p"
  using prefix_copy_eq [OF assms] by (auto simp: bgp_node_set_def bgp_node_create_eq)

lemma root_plug: "c \<noteq> [] \<Longrightarrow> root (plug c t) = root (plug c t')"
proof (induction c arbitrary: t t')
  case (Cons f c)
  show ?case
  proof (cases "c = []")
    case True
    then show ?thesis by (cases f) simp
  next
    case False
    then show ?thesis by (simp add: Cons.IH [of "plug1 f t" "plug1 f t'"])
  qed
qed simp

lemma wf_prefix_len: "wf_prefix p \<Longrightarrow> pfx_len p \<le> 128"
  by (auto simp: wf_prefix_def)

lemma set_link_eq:
  assumes "t_nodes T a = Some nd" "t_nodes T new = Some nw" "a \<noteq> new" "wf_prefix (n_p nw)"
    "pfx_ok (n_p nd)" "prefix (pfx_bits (n_p nd) @ [d]) (pfx_bits (n_p nw))"
  shows "set_link T a new = Inr (T\<lparr>t_nodes := (t_nodes T)
           (a := Some (link_node nd d (Some new)), new := Some (nw\<lparr>n_parent := Some a\<rparr>))\<rparr>)"
proof -
  have l: "length (pfx_bits (n_p nd)) = pfx_len (n_p nd)" "length (pfx_bits (n_p nw)) = pfx_len (n_p nw)"
    using assms(4,5) by simp_all
  have lt: "pfx_len (n_p nd) < pfx_len (n_p nw)"
    using prefix_length_le [OF assms(6)] l by simp
  have "pfx_bits (n_p nw) ! pfx_len (n_p nd) = d"
    using assms(6) l(1) by (auto simp: prefix_def nth_append)
  then have "check_bit (pfx_u (n_p nw)) (pfx_len (n_p nd)) = Inr d"
    using lt assms(4) wf_prefix_len [OF assms(4)] by (subst check_bit_eq) simp_all
  then show ?thesis
    using assms(1-3) by (simp add: set_link_def get_node_def put_node_def Let_def)
qed

lemma attach_eq:
  assumes "rep_ctx (t_nodes T) c x" "ctx_ok f c" "t_nodes T new = Some nw" "new \<notin> set (ctx_addrs c)"
    "wf_prefix (n_p nw)" "prefix (ctx_bits c) (pfx_bits (n_p nw))" "n_parent nw = None"
  shows "attach T (ctx_top c) new = Inr (T\<lparr>t_top := (if c = [] then Some new else t_top T),
     t_nodes := (relink c (Some new) (t_nodes T))(new := Some (nw\<lparr>n_parent := ctx_top c\<rparr>))\<rparr>)"
proof (cases c)
  case Nil
  have "nw\<lparr>n_parent := None\<rparr> = nw" using assms(7) by simp
  with Nil assms(3) show ?thesis by (simp add: attach_def fun_upd_idem)
next
  case (Cons fr c')
  obtain a p i lk d sib where fr: "fr = Fr a p i lk d sib" by (cases fr)
  let ?nd = "mk_node p (ctx_top c') (if d then root sib else x) (if d then x else root sib) i lk"
  have "set_link T a new = Inr (T\<lparr>t_nodes := (t_nodes T)
           (a := Some (link_node ?nd d (Some new)), new := Some (nw\<lparr>n_parent := Some a\<rparr>))\<rparr>)"
    using assms by (intro set_link_eq) (auto simp: Cons fr)
  then show ?thesis by (simp add: attach_def Cons fr link_node_def)
qed

text \<open>Replacing the subtrie in focus by \<open>s\<close>.\<close>

lemma table_rep_replace:
  assumes old: "table_rep T (plug c t)"
    and top: "t_top T' = (if c = [] then root s else t_top T)"
    and ctx: "\<And>a. a \<in> set (ctx_addrs c) \<Longrightarrow> t_nodes T' a = relink c (root s) (t_nodes T) a"
    and s: "rep (t_nodes T') (ctx_top c) s" "distinct (addrs s)" "set (addrs s) \<inter> set (ctx_addrs c) = {}"
    and dom: "dom (t_nodes T') = set (addrs s) \<union> set (ctx_addrs c)"
    and nxt: "\<forall>a \<in> set (addrs s). a < t_next T'" "t_next T \<le> t_next T'"
    and cnt: "t_count T' + word_of_nat (length (addrs t)) = t_count T + word_of_nat (length (addrs s))"
  shows "table_rep T' (plug c s)"
proof -
  have o: "rep_ctx (t_nodes T) c (root t)" "distinct (ctx_addrs c)" "t_top T = root (plug c t)"
    "\<forall>a \<in> set (ctx_addrs c). a < t_next T" "t_count T = word_of_nat (length (addrs t) + length (ctx_addrs c))"
    using old by (auto simp: table_rep_def rep_plug distinct_addrs_plug set_addrs_plug length_addrs_plug)
  have "rep_ctx (t_nodes T') c (root s) = rep_ctx (relink c (root s) (t_nodes T)) c (root s)"
    using ctx by (rule rep_ctx_cong)
  then have "rep_ctx (t_nodes T') c (root s)" using rep_ctx_relink [OF o(1,2)] by simp
  moreover have "t_top T' = root (plug c s)"
    using top o(3) root_plug [of c s t] by (cases "c = []") auto
  moreover have "t_count T' = word_of_nat (length (addrs (plug c s)))"
    using cnt o(5) by (simp add: length_addrs_plug algebra_simps)
  ultimately show ?thesis
    using s dom nxt o(2,4)
    by (fastforce simp: table_rep_def rep_plug distinct_addrs_plug set_addrs_plug)
qed

lemma bgp_lock_node_eq:
  "t_nodes T a = Some nd \<Longrightarrow>
   bgp_lock_node T a = Inr (T\<lparr>t_nodes := (t_nodes T)(a := Some (nd\<lparr>n_lock := n_lock nd + 1\<rparr>))\<rparr>)"
  by (simp add: bgp_lock_node_def get_node_def put_node_def)

lemma relink_other [simp]: "a \<notin> set (ctx_addrs c) \<Longrightarrow> relink c x h a = h a"
proof (cases c)
  case (Cons f c')
  then show "a \<notin> set (ctx_addrs c) \<Longrightarrow> ?thesis" by (cases f) auto
qed simp

lemma relink_upd_other:
  assumes "a \<notin> set (ctx_addrs c)"
  shows "relink c x (h(a := v)) = (relink c x h)(a := v)"
proof (cases c)
  case (Cons f c')
  with assms show ?thesis by (cases f) (auto simp: fun_upd_twist)
qed simp

lemma dom_relink: "rep_ctx h c y \<Longrightarrow> dom (relink c x h) = dom h"
proof (cases c)
  case (Cons f c')
  then show "rep_ctx h c y \<Longrightarrow> ?thesis" by (cases f) auto
qed simp

text \<open>What insertion at a focus relies on and what it delivers.\<close>

definition insert_pre :: "byte \<Rightarrow> 'i bgp_table \<Rightarrow> 'i frame list \<Rightarrow> 'i trie \<Rightarrow> prefix_t \<Rightarrow> bool" where
  "insert_pre f T c t p \<longleftrightarrow> table_rep T (plug c t) \<and> bits_ok f [] (plug c t) \<and>
     wf_prefix p \<and> pfx_family p = f \<and> prefix (ctx_bits c) (pfx_bits p)"

lemma insert_preD:
  assumes "insert_pre f T c t p"
  shows "rep_ctx (t_nodes T) c (root t)" "rep (t_nodes T) (ctx_top c) t" "ctx_ok f c"
    "bits_ok f (ctx_bits c) t" "distinct (addrs t)" "distinct (ctx_addrs c)"
    "set (addrs t) \<inter> set (ctx_addrs c) = {}" "dom (t_nodes T) = set (addrs t) \<union> set (ctx_addrs c)"
    "\<And>a. a \<in> set (addrs t) \<Longrightarrow> a < t_next T" "t_next T \<notin> set (ctx_addrs c)" "t_next T \<notin> set (addrs t)"
    "Suc (t_next T) \<notin> set (ctx_addrs c)" "Suc (t_next T) \<notin> set (addrs t)"
    "t_nodes T (t_next T) = None" "t_nodes T (Suc (t_next T)) = None"
proof -
  have D: "table_rep T (plug c t)" "bits_ok f [] (plug c t)"
    using assms by (simp_all add: insert_pre_def)
  then show "rep_ctx (t_nodes T) c (root t)" "rep (t_nodes T) (ctx_top c) t" "ctx_ok f c"
    "bits_ok f (ctx_bits c) t" "distinct (addrs t)" "distinct (ctx_addrs c)"
    "set (addrs t) \<inter> set (ctx_addrs c) = {}" "dom (t_nodes T) = set (addrs t) \<union> set (ctx_addrs c)"
    by (simp_all add: table_rep_def rep_plug bits_ok_plug distinct_addrs_plug set_addrs_plug)
  have lt: "\<forall>a \<in> set (addrs t) \<union> set (ctx_addrs c). a < t_next T"
    using D(1) by (simp add: table_rep_def set_addrs_plug)
  then show "\<And>a. a \<in> set (addrs t) \<Longrightarrow> a < t_next T" by simp
  show nin: "t_next T \<notin> set (ctx_addrs c)" "t_next T \<notin> set (addrs t)"
    "Suc (t_next T) \<notin> set (ctx_addrs c)" "Suc (t_next T) \<notin> set (addrs t)"
    using lt by (auto dest: bspec)
  have "dom (t_nodes T) = set (addrs t) \<union> set (ctx_addrs c)"
    using D(1) by (simp add: table_rep_def set_addrs_plug)
  then show "t_nodes T (t_next T) = None" "t_nodes T (Suc (t_next T)) = None"
    using nin by (auto simp: domIff)
qed

lemma insert_leaf:
  assumes "insert_pre f T c Lf p" "bgp_node_set (Some b) p = Inr (mk_node p' None None None (empty_info b) 0)"
    "wf_prefix p'" "pfx_family p' = pfx_family p" "pfx_bits p' = pfx_bits p"
  shows "\<exists>T'. (let (new, t1) = alloc T (mk_node p' None None None (empty_info b) 0) in
             rbind (attach t1 (ctx_top c) new) (\<lambda>t2.
             rbind (bgp_lock_node (t2\<lparr>t_count := t_count t2 + 1\<rparr>) new) (\<lambda>t3. Inr (new, t3))))
           = Inr (t_next T, T') \<and>
           table_rep T' (plug c (Nd (t_next T) p' (empty_info b) 1 Lf Lf)) \<and>
           bits_ok f [] (plug c (Nd (t_next T) p' (empty_info b) 1 Lf Lf))"
proof -
  note pre = insert_preD [OF assms(1)]
  let ?a = "t_next T" and ?nd = "mk_node p' None None None (empty_info b) 0"
  let ?s = "Nd ?a p' (empty_info b) 1 Lf Lf"
  let ?T1 = "(put_node T ?a ?nd)\<lparr>t_next := Suc ?a\<rparr>"
  have rc: "rep_ctx (t_nodes ?T1) c None"
    using pre(1,10) rep_ctx_cong [of c "t_nodes ?T1" "t_nodes T"] by (force simp: put_node_def)
  have pf: "prefix (ctx_bits c) (pfx_bits p')" using assms(1,5) by (simp add: insert_pre_def)
  have at: "attach ?T1 (ctx_top c) ?a = Inr (?T1\<lparr>t_top := (if c = [] then Some ?a else t_top ?T1),
     t_nodes := (relink c (Some ?a) (t_nodes ?T1))(?a := Some (mk_node p' (ctx_top c) None None (empty_info b) 0))\<rparr>)"
    using attach_eq [OF rc pre(3), of ?a ?nd] pre(10) assms(3) pf by (simp add: put_node_def)
  define T' where "T' = T\<lparr>t_top := (if c = [] then Some ?a else t_top T), t_count := t_count T + 1,
      t_next := Suc ?a, t_nodes := (relink c (Some ?a) (t_nodes T))
        (?a := Some (mk_node p' (ctx_top c) None None (empty_info b) 1))\<rparr>"
  have run: "(let (new, t1) = alloc T ?nd in
             rbind (attach t1 (ctx_top c) new) (\<lambda>t2.
             rbind (bgp_lock_node (t2\<lparr>t_count := t_count t2 + 1\<rparr>) new) (\<lambda>t3. Inr (new, t3))))
           = Inr (?a, T')"
    using pre(10)
    by (simp only: alloc_def Let_def prod.case at rbind_simps)
       (simp add: bgp_lock_node_eq T'_def relink_upd_other put_node_def)
  have dm: "dom (t_nodes T') = {?a} \<union> set (ctx_addrs c)"
    using pre(8) dom_relink [OF pre(1)] by (auto simp: T'_def)
  have "table_rep T' (plug c ?s)"
  proof (rule table_rep_replace [of T c Lf])
    show "table_rep T (plug c Lf)" using assms(1) by (simp add: insert_pre_def)
    show "dom (t_nodes T') = set (addrs ?s) \<union> set (ctx_addrs c)" using dm by simp
    fix x assume "x \<in> set (ctx_addrs c)"
    then have "x \<noteq> ?a" using pre(10) by auto
    then show "t_nodes T' x = relink c (root ?s) (t_nodes T) x" by (simp add: T'_def)
  qed (use pre(10) in \<open>simp_all add: T'_def\<close>)
  moreover have "bits_ok f [] (plug c ?s)"
    using assms(1,3,4) pf pre(3) by (simp add: bits_ok_plug insert_pre_def)
  ultimately show ?thesis using run by blast
qed

text \<open>The node made by \<open>route_common\<close> sits between the context and both prefixes.\<close>

lemma split_prefix:
  assumes "wf_prefix q" "wf_prefix p" "\<not> prefix (pfx_bits q) (pfx_bits p)"
    "prefix cb (pfx_bits p)" "prefix cb (pfx_bits q)"
  shows "\<exists>np d. route_common q p prefix_new = Inr np \<and> wf_prefix (np\<lparr>pfx_family := pfx_family p\<rparr>) \<and>
      prefix cb (pfx_bits np) \<and> prefix (pfx_bits np @ [d]) (pfx_bits q) \<and>
      (if pfx_len np = pfx_len p then pfx_bits np = pfx_bits p
       else prefix (pfx_bits np @ [\<not> d]) (pfx_bits p))"
proof -
  have lens: "length (pfx_u q) = 16" "length (pfx_u p) = 16" "pfx_len p \<le> 128"
    using assms(1,2) wf_prefix_len by (auto simp: wf_prefix_def)
  obtain np where np: "route_common q p prefix_new = Inr np" "length (pfx_u np) = 16"
      "pfx_len np \<le> pfx_len p" "pfx_bits np = take (pfx_len np) (bits_of (pfx_u p))"
      "pfx_bits np = take (pfx_len np) (bits_of (pfx_u q))"
      "pfx_len np = pfx_len p \<or> bits_of (pfx_u q) ! pfx_len np \<noteq> bits_of (pfx_u p) ! pfx_len np"
    using route_common_eq [OF lens] by blast
  let ?L = "pfx_len np"
  have lp: "length (pfx_bits p) = pfx_len p" "length (pfx_bits q) = pfx_len q"
    using assms(1,2) by simp_all
  have np_p: "pfx_bits np = take ?L (pfx_bits p)"
    using np(3,4) by (simp add: pfx_bits_def [of p] min_def)
  have Lq: "?L < pfx_len q"
  proof (rule ccontr)
    assume "\<not> ?L < pfx_len q"
    then have "pfx_bits q = take (pfx_len q) (pfx_bits np)"
      using np(5) by (simp add: pfx_bits_def [of q] min_def)
    also have "\<dots> = take (pfx_len q) (pfx_bits p)"
      using np_p \<open>\<not> ?L < pfx_len q\<close> by (simp add: min_def)
    finally show False using assms(3) lp(2) by (simp add: prefix_iff_take)
  qed
  have np_q: "pfx_bits np = take ?L (pfx_bits q)"
    using np(5) Lq by (simp add: pfx_bits_def [of q] min_def)
  have nthq: "pfx_bits q ! ?L = bits_of (pfx_u q) ! ?L" using Lq by (simp add: pfx_bits_def)
  have lL: "length (pfx_bits np) = ?L" using np_p np(3) lp(1) by simp
  have "prefix (pfx_bits np @ [pfx_bits q ! ?L]) (pfx_bits q)"
    using Lq lp(2) np_q by (simp add: prefix_iff_take lL take_Suc_conv_app_nth)
  moreover have "if ?L = pfx_len p then pfx_bits np = pfx_bits p
      else prefix (pfx_bits np @ [\<not> pfx_bits q ! ?L]) (pfx_bits p)"
  proof (cases "?L = pfx_len p")
    case True
    then show ?thesis using np_p lp(1) by simp
  next
    case False
    then have "?L < pfx_len p" using np(3) by simp
    moreover from this have "pfx_bits p ! ?L = (\<not> pfx_bits q ! ?L)"
      using np(6) False nthq by (simp add: pfx_bits_def [of p])
    ultimately show ?thesis
      using False lp(1) np_p by (simp add: prefix_iff_take lL take_Suc_conv_app_nth)
  qed
  moreover have "prefix cb (pfx_bits np)"
  proof -
    have le: "length cb \<le> ?L"
    proof (rule ccontr)
      assume "\<not> length cb \<le> ?L"
      then have n: "pfx_bits p ! ?L = cb ! ?L" "pfx_bits q ! ?L = cb ! ?L" and "?L < pfx_len p"
        using assms(4,5) lp by (auto simp: prefix_def nth_append)
      then show False using np(6) nthq by (simp add: pfx_bits_def [of p])
    qed
    then show ?thesis
      using assms(4) np_p by (simp add: prefix_iff_take min_def)
  qed
  moreover have "wf_prefix (np\<lparr>pfx_family := pfx_family p\<rparr>)"
    using assms(2) np(2,3) by (auto simp: wf_prefix_def)
  ultimately show ?thesis using np(1) by blast
qed

definition split_trie :: "addr \<Rightarrow> prefix_t \<Rightarrow> 'i list list \<Rightarrow> u32 \<Rightarrow> bool \<Rightarrow> 'i trie \<Rightarrow> 'i trie \<Rightarrow> 'i trie" where
  "split_trie new np i lk d s other = (if d then Nd new np i lk other s else Nd new np i lk s other)"

lemma insert_split_link:
  fixes c :: "'i frame list" and a q i lk l r
  defines "s \<equiv> Nd a q i lk l r"
  assumes pre: "insert_pre f T c s p" and np: "wf_prefix np" "prefix (ctx_bits c) (pfx_bits np)"
      "prefix (pfx_bits np @ [d]) (pfx_bits q)"
  shows "(let (new, t1) = alloc T (mk_node np None None None ei 0) in
           rbind (set_link t1 new a) (\<lambda>t2. attach t2 (ctx_top c) new)) =
     Inr (T\<lparr>t_top := (if c = [] then Some (t_next T) else t_top T), t_next := Suc (t_next T),
        t_nodes := (relink c (Some (t_next T)) (t_nodes T))
          (a := Some (mk_node q (Some (t_next T)) (root l) (root r) i lk),
           t_next T := Some (mk_node np (ctx_top c) (if d then None else Some a) (if d then Some a else None) ei 0))\<rparr>)"
proof -
  note D = insert_preD [OF pre]
  let ?new = "t_next T" and ?nd = "mk_node np None None None ei 0"
  let ?aq = "mk_node q (ctx_top c) (root l) (root r) i lk"
  let ?T1 = "(put_node T ?new ?nd)\<lparr>t_next := Suc ?new\<rparr>"
  have a: "t_nodes T a = Some ?aq" "a \<noteq> ?new" "a \<notin> set (ctx_addrs c)"
    using D(2,7,11) by (auto simp: s_def)
  have wq: "wf_prefix q" using D(4) by (simp add: s_def)
  have sl: "set_link ?T1 ?new a = Inr (?T1\<lparr>t_nodes := (t_nodes ?T1)
      (?new := Some (link_node ?nd d (Some a)), a := Some (?aq\<lparr>n_parent := Some ?new\<rparr>))\<rparr>)"
    using a wq np by (intro set_link_eq) (simp_all add: put_node_def)
  let ?T2 = "?T1\<lparr>t_nodes := (t_nodes ?T1)
      (?new := Some (link_node ?nd d (Some a)), a := Some (?aq\<lparr>n_parent := Some ?new\<rparr>))\<rparr>"
  have rc: "rep_ctx (t_nodes ?T2) c (root s) = rep_ctx (t_nodes T) c (root s)"
    using a(3) D(10) by (intro rep_ctx_cong) (auto simp: put_node_def)
  have nw: "link_node ?nd d (Some a) =
      mk_node np None (if d then None else Some a) (if d then Some a else None) ei 0"
    by (simp add: link_node_def)
  have at: "attach ?T2 (ctx_top c) ?new = Inr (?T2\<lparr>t_top := (if c = [] then Some ?new else t_top ?T2),
     t_nodes := (relink c (Some ?new) (t_nodes ?T2))
       (?new := Some ((link_node ?nd d (Some a))\<lparr>n_parent := ctx_top c\<rparr>))\<rparr>)"
    using rc D(1,3,10) a(2) np by (intro attach_eq [of _ _ "root s" f]) (simp_all add: nw)
  show ?thesis
    using a D(10)
    by (simp only: alloc_def Let_def prod.case sl rbind_simps at)
       (simp add: put_node_def relink_upd_other nw fun_upd_twist)
qed

lemma rep_reparent:
  assumes "rep h par (Nd a q i lk l r)" "distinct (addrs (Nd a q i lk l r))"
    "h' a = Some (mk_node q par' (root l) (root r) i lk)"
    "\<And>x. x \<in> set (addrs l) \<union> set (addrs r) \<Longrightarrow> h' x = h x"
  shows "rep h' par' (Nd a q i lk l r)"
proof -
  have "rep h' (Some a) l = rep h (Some a) l" "rep h' (Some a) r = rep h (Some a) r"
    using assms(4) by (auto intro!: rep_cong)
  with assms show ?thesis by simp
qed

lemma insert_split_rep:
  fixes c :: "'i frame list" and a q i lk l r
  defines "s \<equiv> Nd a q i lk l r"
  assumes pre: "insert_pre f T c s p" and np: "wf_prefix np" "pfx_family np = f"
      "prefix (ctx_bits c) (pfx_bits np)" "prefix (pfx_bits np @ [d]) (pfx_bits q)"
    and ob: "other = Lf \<or> (\<exists>p' i' lk'. other = Nd (Suc (t_next T)) p' i' lk' Lf Lf)"
    and oo: "bits_ok f (pfx_bits np @ [\<not> d]) other"
    and T': "t_top T' = (if c = [] then Some (t_next T) else t_top T)"
      "t_nodes T' = (\<lambda>x. case other of
           Lf \<Rightarrow> H x
         | Nd b p' i' lk' l' r' \<Rightarrow> if x = b then Some (mk_node p' (Some (t_next T)) None None i' lk') else H x)"
      "t_next T' = Suc (t_next T) + length (addrs other)"
      "t_count T' = t_count T + 1 + word_of_nat (length (addrs other))"
    and H: "H = (relink c (Some (t_next T)) (t_nodes T))
          (a := Some (mk_node q (Some (t_next T)) (root l) (root r) i lk),
           t_next T := Some (mk_node np (ctx_top c) (if d then root other else Some a)
             (if d then Some a else root other) ei nl))"
  shows "table_rep T' (plug c (split_trie (t_next T) np ei nl d s other)) \<and>
         bits_ok f [] (plug c (split_trie (t_next T) np ei nl d s other))"
proof
  note D = insert_preD [OF pre]
  let ?new = "t_next T" and ?S = "split_trie (t_next T) np ei nl d s other"
  have a: "a \<noteq> ?new" "a \<notin> set (ctx_addrs c)" "a \<noteq> Suc ?new"
    using D(7,11,13) by (auto simp: s_def)
  have sa: "set (addrs ?S) = insert ?new (set (addrs s) \<union> set (addrs other))" and rS: "root ?S = Some ?new"
    by (auto simp: split_trie_def)
  have oa: "set (addrs other) \<subseteq> {Suc ?new}" using ob by auto
  have nodes: "t_nodes T' x = H x" if "x \<noteq> Suc ?new" for x
    using that ob T'(2) by auto
  have "rep (t_nodes T') (Some ?new) s"
    unfolding s_def
  proof (rule rep_reparent)
    show "rep (t_nodes T) (ctx_top c) (Nd a q i lk l r)" "distinct (addrs (Nd a q i lk l r))"
      using D(2,5) by (simp_all add: s_def)
    show "t_nodes T' a = Some (mk_node q (Some ?new) (root l) (root r) i lk)"
      using a by (simp add: nodes H)
    fix x assume x: "x \<in> set (addrs l) \<union> set (addrs r)"
    then have "x \<in> set (addrs s)" "x \<noteq> a" using D(5) by (auto simp: s_def)
    moreover from this have "x \<noteq> ?new" "x \<noteq> Suc ?new" "x \<notin> set (ctx_addrs c)"
      using D(7,11,13) by auto
    ultimately show "t_nodes T' x = t_nodes T x" by (simp add: nodes H)
  qed
  moreover have "rep (t_nodes T') (Some ?new) other"
    using ob T'(2) by auto
  moreover have "t_nodes T' ?new = Some (mk_node np (ctx_top c) (if d then root other else Some a)
      (if d then Some a else root other) ei nl)"
    by (simp add: nodes H)
  ultimately have repS: "rep (t_nodes T') (ctx_top c) ?S"
    by (auto simp: split_trie_def s_def)
  have dS: "distinct (addrs ?S)"
    using D(5,11,13) ob by (auto simp: split_trie_def)
  show "table_rep T' (plug c ?S)"
  proof (rule table_rep_replace [of T c s])
    show "table_rep T (plug c s)" using pre by (simp add: insert_pre_def)
    show "t_top T' = (if c = [] then root ?S else t_top T)" using T'(1) rS by simp
    show "rep (t_nodes T') (ctx_top c) ?S" "distinct (addrs ?S)" by (fact repS dS)+
    show "set (addrs ?S) \<inter> set (ctx_addrs c) = {}" using D(7,10,12) sa oa by auto
    show "\<forall>x \<in> set (addrs ?S). x < t_next T'"
      using D(9) sa ob T'(3) by (auto simp: less_Suc_eq)
    show "t_next T \<le> t_next T'" using T'(3) by simp
    have "length (addrs ?S) = Suc (length (addrs s) + length (addrs other))"
      by (simp add: split_trie_def)
    then show "t_count T' + word_of_nat (length (addrs s)) = t_count T + word_of_nat (length (addrs ?S))"
      using T'(4) by (simp add: algebra_simps)
    have "dom H = insert ?new (insert a (dom (t_nodes T)))"
      using dom_relink [OF D(1), of "Some ?new"] H by auto
    moreover have "dom (t_nodes T') = dom H \<union> set (addrs other)"
      using ob T'(2) by (auto simp: dom_def)
    ultimately show "dom (t_nodes T') = set (addrs ?S) \<union> set (ctx_addrs c)"
      using D(8) sa by (auto simp: s_def)
    fix x assume "x \<in> set (ctx_addrs c)"
    then have "x \<noteq> ?new" "x \<noteq> Suc ?new" "x \<noteq> a" using D(10,12) a by auto
    then show "t_nodes T' x = relink c (root ?S) (t_nodes T) x" by (simp add: nodes H rS)
  qed
  have "bits_ok f (pfx_bits np @ [d]) s" using D(4) np(4) by (simp add: s_def)
  then show "bits_ok f [] (plug c ?S)"
    using D(3) np oo by (cases d) (simp_all add: bits_ok_plug split_trie_def)
qed

lemma insert_found:
  assumes "insert_pre f T c (Nd a q i lk l r) p"
  shows "\<exists>T'. bgp_lock_node T a = Inr T' \<and> table_rep T' (plug c (Nd a q i (lk + 1) l r)) \<and>
           bits_ok f [] (plug c (Nd a q i (lk + 1) l r))"
proof -
  note D = insert_preD [OF assms]
  let ?s = "Nd a q i lk l r" and ?s' = "Nd a q i (lk + 1) l r"
  define T' where "T' = T\<lparr>t_nodes := (t_nodes T)(a := Some (mk_node q (ctx_top c) (root l) (root r) i (lk + 1)))\<rparr>"
  have run: "bgp_lock_node T a = Inr T'" using D(2) by (simp add: bgp_lock_node_eq T'_def)
  have "rep (t_nodes T') (Some a) l = rep (t_nodes T) (Some a) l"
    "rep (t_nodes T') (Some a) r = rep (t_nodes T) (Some a) r"
    using D(5) by (auto intro!: rep_cong simp: T'_def)
  then have rs: "rep (t_nodes T') (ctx_top c) ?s'" using D(2) by (simp add: T'_def)
  have rl: "relink c (Some a) (t_nodes T) = t_nodes T"
    using D(1) by (cases c rule: ctx_top.cases) (auto simp: fun_upd_idem)
  have "table_rep T' (plug c ?s')"
  proof (rule table_rep_replace [of T c ?s])
    show "table_rep T (plug c ?s)" using assms by (simp add: insert_pre_def)
    show "dom (t_nodes T') = set (addrs ?s') \<union> set (ctx_addrs c)" using D(8) by (auto simp: T'_def)
    show "t_top T' = (if c = [] then root ?s' else t_top T)"
      using assms by (auto simp: T'_def insert_pre_def table_rep_def)
    fix x assume "x \<in> set (ctx_addrs c)"
    then have "x \<noteq> a" using D(7) by auto
    then show "t_nodes T' x = relink c (root ?s') (t_nodes T) x" by (simp add: T'_def rl)
  qed (use D(5,7,9) rs in \<open>simp_all add: T'_def\<close>)
  moreover have "bits_ok f [] (plug c ?s')" using D(3,4) by (simp add: bits_ok_plug)
  ultimately show ?thesis using run by blast
qed

lemma insert_split:
  fixes c :: "'i frame list" and a q i lk l r
  defines "s \<equiv> Nd a q i lk l r"
  assumes pre: "insert_pre f T c s p" and np: "\<not> prefix (pfx_bits q) (pfx_bits p)"
  shows "\<exists>x T' S. rbind (bgp_node_create (Some b)) (\<lambda>cr.
             rbind (get_node T a) (\<lambda>nd.
             rbind (route_common (n_p nd) p (n_p cr)) (\<lambda>np.
               let (new, t1) = alloc T (cr\<lparr>n_p := np\<lparr>pfx_family := pfx_family p\<rparr>\<rparr>) in
               rbind (set_link t1 new a) (\<lambda>t2.
               rbind (attach t2 (ctx_top c) new) (\<lambda>t3.
                 if pfx_len np \<noteq> pfx_len p then
                   rbind (bgp_node_set (Some b) p) (\<lambda>nd2.
                     let (new2, t4) = alloc t3 nd2 in
                     rbind (set_link t4 new new2) (\<lambda>t5.
                     rbind (bgp_lock_node (t5\<lparr>t_count := t_count t5 + 1 + 1\<rparr>) new2)
                       (\<lambda>t6. Inr (new2, t6))))
                 else
                   rbind (bgp_lock_node (t3\<lparr>t_count := t_count t3 + 1\<rparr>) new)
                     (\<lambda>t6. Inr (new, t6))))))) = Inr (x, T') \<and>
      table_rep T' (plug c S) \<and> bits_ok f [] (plug c S) \<and>
      set (tnodes s) \<subseteq> set (tnodes S) \<and> (\<exists>p'. (x, p', empty_info b) \<in> set (tnodes S) \<and> pfx_bits p' = pfx_bits p) \<and>
      (\<forall>y p' i'. (y, p', i') \<in> set (tnodes S) \<longrightarrow> (y, p', i') \<notin> set (tnodes s) \<longrightarrow>
         i' = empty_info b \<and> t_next T \<le> y) \<and> S \<noteq> Lf \<and> (lock_ok s \<longrightarrow> lock_ok S)"
proof -
  note D = insert_preD [OF pre]
  have wq: "wf_prefix q" "prefix (ctx_bits c) (pfx_bits q)" using D(4) by (simp_all add: s_def)
  have wp: "wf_prefix p" "pfx_family p = f" "prefix (ctx_bits c) (pfx_bits p)"
    using pre by (simp_all add: insert_pre_def)
  obtain np d where np: "route_common q p prefix_new = Inr np" "wf_prefix (np\<lparr>pfx_family := pfx_family p\<rparr>)"
      "prefix (ctx_bits c) (pfx_bits np)" "prefix (pfx_bits np @ [d]) (pfx_bits q)"
      "if pfx_len np = pfx_len p then pfx_bits np = pfx_bits p
       else prefix (pfx_bits np @ [\<not> d]) (pfx_bits p)"
    using split_prefix [OF wq(1) wp(1) assms(3) wp(3) wq(2)] by blast
  define np' where "np' = np\<lparr>pfx_family := pfx_family p\<rparr>"
  have np': "wf_prefix np'" "pfx_bits np' = pfx_bits np" "pfx_family np' = f"
    using np(2) wp(2) by (simp_all add: np'_def pfx_bits_def)
  let ?new = "t_next T" and ?ei = "empty_info b :: 'i list list"
  define T3 where "T3 = T\<lparr>t_top := (if c = [] then Some ?new else t_top T), t_next := Suc ?new,
        t_nodes := (relink c (Some ?new) (t_nodes T))
          (a := Some (mk_node q (Some ?new) (root l) (root r) i lk),
           ?new := Some (mk_node np' (ctx_top c) (if d then None else Some a) (if d then Some a else None) ?ei 0))\<rparr>"
  have link: "(let (new, t1) = alloc T (mk_node np' None None None ?ei 0) in
           rbind (set_link t1 new a) (\<lambda>t2. rbind (attach t2 (ctx_top c) new) (\<lambda>t3. G new t3))) = G ?new T3" for G
  proof -
    have "(let (new, t1) = alloc T (mk_node np' None None None ?ei 0) in
           rbind (set_link t1 new a) (\<lambda>t2. attach t2 (ctx_top c) new)) = Inr T3"
      unfolding T3_def using pre np np'
      by (intro insert_split_link [of f T c a q i lk l r p np' d ?ei]) (simp_all add: s_def)
    then show ?thesis
      by (simp only: alloc_def Let_def prod.case rbind_assoc [symmetric] rbind_simps)
  qed
  have ga: "get_node T a = Inr (mk_node q (ctx_top c) (root l) (root r) i lk)"
    using D(2) by (simp add: s_def get_node_def)
  have an: "a \<noteq> ?new" "a \<noteq> Suc ?new" using D(11,13) by (auto simp: s_def)
  show ?thesis
  proof (cases "pfx_len np = pfx_len p")
    case True
    define T' where "T' = T3\<lparr>t_count := t_count T + 1, t_nodes := (t_nodes T3)
      (?new := Some (mk_node np' (ctx_top c) (if d then None else Some a) (if d then Some a else None) ?ei 1))\<rparr>"
    have "bgp_lock_node (T3\<lparr>t_count := t_count T3 + 1\<rparr>) ?new = Inr T'"
      by (simp add: bgp_lock_node_eq T3_def T'_def)
    moreover have "table_rep T' (plug c (split_trie ?new np' ?ei 1 d s Lf)) \<and>
        bits_ok f [] (plug c (split_trie ?new np' ?ei 1 d s Lf))"
      unfolding s_def using pre np np' an
      by (intro insert_split_rep [where p = p and H = "t_nodes T'" and T = T])
         (simp_all add: s_def T'_def T3_def fun_eq_iff)
    moreover have "pfx_bits np' = pfx_bits p" using np(5) True np'(2) by simp
    ultimately show ?thesis
      using True np(1) ga link [of "\<lambda>new t3. rbind (bgp_lock_node (t3\<lparr>t_count := t_count t3 + 1\<rparr>) new)
          (\<lambda>t6. Inr (new, t6))"]
      by (intro exI [of _ ?new] exI [of _ T'] exI [of _ "split_trie ?new np' ?ei 1 d s Lf"])
         (auto simp: bgp_node_create_eq np'_def [symmetric] split_trie_def s_def)
  next
    case False
    obtain p' where p': "bgp_node_set (Some b) p = Inr (mk_node p' None None None ?ei 0)"
        "wf_prefix p'" "pfx_family p' = pfx_family p" "pfx_bits p' = pfx_bits p"
      using bgp_node_set_eq [OF wp(1), where 'a = 'i] by blast
    let ?leaf = "Nd (Suc ?new) p' ?ei 1 Lf Lf" and ?nd2 = "mk_node p' None None None ?ei 0"
    define T4 where "T4 = (put_node T3 (Suc ?new) ?nd2)\<lparr>t_next := Suc (Suc ?new)\<rparr>"
    let ?nn = "mk_node np' (ctx_top c) (if d then None else Some a) (if d then Some a else None) ?ei 0"
    have al: "alloc T3 ?nd2 = (Suc ?new, T4)" by (simp add: alloc_def T4_def T3_def)
    have pf2: "prefix (pfx_bits np' @ [\<not> d]) (pfx_bits p')" using np(5) False np'(2) p'(4) by simp
    have sl: "set_link T4 ?new (Suc ?new) = Inr (T4\<lparr>t_nodes := (t_nodes T4)
        (?new := Some (link_node ?nn (\<not> d) (Some (Suc ?new))), Suc ?new := Some (?nd2\<lparr>n_parent := Some ?new\<rparr>))\<rparr>)"
      using np' p'(2) pf2 by (intro set_link_eq) (simp_all add: T4_def T3_def put_node_def)
    define H where "H = (relink c (Some ?new) (t_nodes T))
          (a := Some (mk_node q (Some ?new) (root l) (root r) i lk),
           ?new := Some (mk_node np' (ctx_top c) (if d then Some (Suc ?new) else Some a)
             (if d then Some a else Some (Suc ?new)) ?ei 0))"
    define T' where "T' = T3\<lparr>t_count := t_count T + 1 + 1, t_next := Suc (Suc ?new),
        t_nodes := H(Suc ?new := Some (mk_node p' (Some ?new) None None ?ei 1))\<rparr>"
    have lk: "rbind (set_link T4 ?new (Suc ?new)) (\<lambda>t5.
        bgp_lock_node (t5\<lparr>t_count := t_count t5 + 1 + 1\<rparr>) (Suc ?new)) = Inr T'"
      using an unfolding sl
      by (cases d) (simp_all add: bgp_lock_node_eq T'_def T4_def T3_def H_def put_node_def link_node_def fun_upd_twist)
    have "table_rep T' (plug c (split_trie ?new np' ?ei 0 d s ?leaf)) \<and>
        bits_ok f [] (plug c (split_trie ?new np' ?ei 0 d s ?leaf))"
      unfolding s_def using pre np np' p' pf2 wp(2)
      by (intro insert_split_rep [where p = p and H = H and T = T])
         (auto simp: s_def T'_def T3_def H_def)
    moreover have "rbind (set_link T4 ?new (Suc ?new)) (\<lambda>t5.
        rbind (bgp_lock_node (t5\<lparr>t_count := t_count t5 + 1 + 1\<rparr>) (Suc ?new)) (\<lambda>t6. Inr (Suc ?new, t6)))
        = Inr (Suc ?new, T')"
      using arg_cong [OF lk, of "\<lambda>m. rbind m (\<lambda>t6. Inr (Suc ?new, t6))"] by (simp only: rbind_assoc rbind_simps)
    ultimately show ?thesis
      using False np(1) ga p'(1,4) al link [of "\<lambda>new t3. rbind (bgp_node_set (Some b) p) (\<lambda>nd2.
          let (new2, t4) = alloc t3 nd2 in rbind (set_link t4 new new2) (\<lambda>t5.
            rbind (bgp_lock_node (t5\<lparr>t_count := t_count t5 + 1 + 1\<rparr>) new2) (\<lambda>t6. Inr (new2, t6))))"]
      by (intro exI [of _ "Suc ?new"] exI [of _ T'] exI [of _ "split_trie ?new np' ?ei 0 d s ?leaf"])
         (auto simp: bgp_node_create_eq np'_def [symmetric] split_trie_def s_def no_routes_empty)
  qed
qed

text \<open>The refinement of \<^verbatim>\<open>bgp_node_get\<close>: it returns, and the new heap is a well-formed trie that
  keeps every old node with its data, holds a node for \<open>p\<close>, and adds only empty nodes.\<close>

lemma bgp_node_get_refines:
  fixes T :: "'i bgp_table"
  assumes t: "table_rep T t" "bits_ok f [] t" and p: "wf_prefix p" "pfx_family p = f"
  shows "\<exists>a T' t'. bgp_node_get (Some b) T p = Inr (a, T') \<and> table_rep T' t' \<and> bits_ok f [] t' \<and>
      set (tnodes t) \<subseteq> set (tnodes t') \<and>
      (\<exists>p' i. (a, p', i) \<in> set (tnodes t') \<and> pfx_bits p' = pfx_bits p) \<and>
      (\<forall>y p' i. (y, p', i) \<in> set (tnodes t') \<longrightarrow> (y, p', i) \<notin> set (tnodes t) \<longrightarrow>
         i = empty_info b \<and> t_next T \<le> y) \<and>
      (lock_ok t \<longrightarrow> (\<forall>x nd. t_nodes T x = Some nd \<longrightarrow> n_lock nd \<noteq> - 1) \<longrightarrow> lock_ok t')"
proof -
  obtain c s where z: "zwalk (pfx_bits p) [] t = (c, s)" by fastforce
  have ts: "plug c s = t" using plug_zwalk [OF z] by simp
  have cb: "prefix (ctx_bits c) (pfx_bits p)" using ctx_bits_zwalk [OF z] by simp
  have pre: "insert_pre f T c s p" using t p ts cb by (simp add: insert_pre_def)
  have walk: "get_walk (Suc (t_next T)) T p None (t_top T) =
      Inr (ctx_top c, root s, (case s of Lf \<Rightarrow> False | Nd a q i lk l r \<Rightarrow> pfx_bits q = pfx_bits p))"
    using get_walk_eq [of T "[]" t f "[]" p "Suc (t_next T)" c s] t p z fuel_bound [OF t(1)] wf_prefix_len
    by (simp add: table_rep_def)
  show ?thesis
  proof (cases s)
    case Lf
    obtain p' where p': "bgp_node_set (Some b) p = Inr (mk_node p' None None None (empty_info b :: 'i list list) 0)"
        "wf_prefix p'" "pfx_family p' = pfx_family p" "pfx_bits p' = pfx_bits p"
      using bgp_node_set_eq [OF p(1), where 'a = 'i] by blast
    obtain T' where T': "(let (new, t1) = alloc T (mk_node p' None None None (empty_info b) 0) in
             rbind (attach t1 (ctx_top c) new) (\<lambda>t2.
             rbind (bgp_lock_node (t2\<lparr>t_count := t_count t2 + 1\<rparr>) new) (\<lambda>t3. Inr (new, t3))))
           = Inr (t_next T, T')"
        "table_rep T' (plug c (Nd (t_next T) p' (empty_info b) 1 Lf Lf))"
        "bits_ok f [] (plug c (Nd (t_next T) p' (empty_info b) 1 Lf Lf))"
      using insert_leaf [OF pre [unfolded Lf] p'] by blast
    have "bgp_node_get (Some b) T p = Inr (t_next T, T')"
      using T'(1) by (simp only: bgp_node_get_def walk Lf root.simps rbind_simps prod.case option.case p'(1))
    with T'(2,3) p'(4) show ?thesis
      by (intro exI [of _ "t_next T"] exI [of _ T'] exI [of _ "plug c (Nd (t_next T) p' (empty_info b) 1 Lf Lf)"])
         (auto simp: ts [symmetric] Lf set_tnodes_plug lock_ok_plug dest: lock_ctx_plug)
  next
    case (Nd a q i lk l r)
    show ?thesis
    proof (cases "pfx_bits q = pfx_bits p")
      case True
      obtain T' where T': "bgp_lock_node T a = Inr T'" "table_rep T' (plug c (Nd a q i (lk + 1) l r))"
          "bits_ok f [] (plug c (Nd a q i (lk + 1) l r))"
        using insert_found [OF pre [unfolded Nd]] by blast
      have "bgp_node_get (Some b) T p = Inr (a, T')"
        using True T'(1) by (simp add: bgp_node_get_def walk Nd)
      moreover have "t_nodes T a = Some (mk_node q (ctx_top c) (root l) (root r) i lk)"
        using insert_preD(2) [OF pre] by (simp add: Nd)
      then have "\<forall>x nd. t_nodes T x = Some nd \<longrightarrow> n_lock nd \<noteq> - 1 \<Longrightarrow> lk + 1 \<noteq> 0"
        by (metis eq_neg_iff_add_eq_0 mk_node_sel(6))
      ultimately show ?thesis
        using T'(2,3) True
        by (intro exI [of _ a] exI [of _ T'] exI [of _ "plug c (Nd a q i (lk + 1) l r)"])
           (auto simp: ts [symmetric] Nd set_tnodes_plug lock_ok_plug)
    next
      case False
      then have np: "\<not> prefix (pfx_bits q) (pfx_bits p)" using zwalk_focus z Nd by blast
      from insert_split [OF pre [unfolded Nd] np, of b] obtain x T' S where
        run: "bgp_node_get (Some b) T p = Inr (x, T')" and S: "table_rep T' (plug c S)" "bits_ok f [] (plug c S)"
          "set (tnodes s) \<subseteq> set (tnodes S)" "\<exists>p'. (x, p', empty_info b) \<in> set (tnodes S) \<and> pfx_bits p' = pfx_bits p"
          "\<forall>y p' i'. (y, p', i') \<in> set (tnodes S) \<longrightarrow> (y, p', i') \<notin> set (tnodes s) \<longrightarrow>
             i' = empty_info b \<and> t_next T \<le> y" "S \<noteq> Lf" "lock_ok s \<longrightarrow> lock_ok S"
        using False by (simp only: bgp_node_get_def walk Nd root.simps rbind_simps prod.case option.case
            trie.case if_False) blast
      then show ?thesis
        by (intro exI [of _ x] exI [of _ T'] exI [of _ "plug c S"])
           (auto simp: ts [symmetric] set_tnodes_plug lock_ok_plug Nd)
    qed
  qed
qed

end
