(* ===== verification/Bgp_Lookup.thy ===== *)
theory Bgp_Lookup
  imports Bgp_Trie
begin

text \<open>
  Correctness of the operations of \<^verbatim>\<open>src/src/bgp/bgp_table.c\<close> on well-formed tables:
  insertion (\<^verbatim>\<open>bgp_node_get\<close>), longest-prefix match (\<^verbatim>\<open>bgp_node_match\<close>), release with
  pruning (\<^verbatim>\<open>bgp_unlock_node\<close>, \<^verbatim>\<open>bgp_node_delete\<close>) and the traversal
  (\<^verbatim>\<open>bgp_table_top\<close>, \<^verbatim>\<open>bgp_route_next\<close>).
\<close>

section \<open>Nodes of a table\<close>

lemma table_rep_nodes:
  assumes "table_rep T t"
  shows "t_nodes T a = Some nd \<Longrightarrow> (a, n_p nd, n_info nd) \<in> set (tnodes t)"
    and "(a, p, i) \<in> set (tnodes t) \<Longrightarrow> \<exists>nd. t_nodes T a = Some nd \<and> n_p nd = p \<and> n_info nd = i"
proof -
  show r: "\<exists>nd. t_nodes T a = Some nd \<and> n_p nd = p \<and> n_info nd = i" if "(a, p, i) \<in> set (tnodes t)" for a p i
    using assms that tnodes_rep by (auto simp: table_rep_def)
  assume nd: "t_nodes T a = Some nd"
  then have "a \<in> set (addrs t)" using assms by (auto simp: table_rep_def)
  then obtain p i where "(a, p, i) \<in> set (tnodes t)" by (auto simp: addrs_tnodes)
  with r nd show "(a, n_p nd, n_info nd) \<in> set (tnodes t)" by fastforce
qed

lemma tnodes_wf: "bits_ok f pre t \<Longrightarrow> (a, p, i) \<in> set (tnodes t) \<Longrightarrow> wf_prefix p \<and> pfx_family p = f"
  by (induction t arbitrary: pre) auto

text \<open>No two nodes of a well-formed trie carry the same prefix.\<close>

lemma tnodes_unique:
  assumes "bits_ok f pre t" "(a, p, i) \<in> set (tnodes t)" "(b, q, j) \<in> set (tnodes t)" "pfx_bits p = pfx_bits q"
    "distinct (addrs t)"
  shows "a = b"
  using assms
proof (induction t arbitrary: pre)
  case (Nd c r k lk l u)
  have ext: "prefix (pfx_bits r @ [False]) (pfx_bits x)" if "(y, x, z) \<in> set (tnodes l)" for x y z
    using that Nd.prems(1) bits_ok_prefix by auto
  have ext': "prefix (pfx_bits r @ [True]) (pfx_bits x)" if "(y, x, z) \<in> set (tnodes u)" for x y z
    using that Nd.prems(1) bits_ok_prefix by auto
  have ne: "\<not> prefix (pfx_bits r @ [d]) (pfx_bits r)" for d
    using prefix_length_le by fastforce
  have lr: "\<not> (prefix (pfx_bits r @ [False]) x \<and> prefix (pfx_bits r @ [True]) x)" for x
    by (auto simp: prefix_def)
  have IH: "(a, p, i) \<in> set (tnodes l) \<Longrightarrow> (b, q, j) \<in> set (tnodes l) \<Longrightarrow> a = b"
     "(a, p, i) \<in> set (tnodes u) \<Longrightarrow> (b, q, j) \<in> set (tnodes u) \<Longrightarrow> a = b"
    using Nd.IH Nd.prems(1,4,5) by auto
  have top: "p' = r \<Longrightarrow> pfx_bits p' = pfx_bits q' \<Longrightarrow> (y, q', z) \<notin> set (tnodes l) \<and> (y, q', z) \<notin> set (tnodes u)"
    for p' q' y z using ext ext' ne by metis
  have side: "pfx_bits p' = pfx_bits q' \<Longrightarrow> (x, p', w) \<in> set (tnodes l) \<Longrightarrow> (y, q', z) \<notin> set (tnodes u)"
    for p' q' w x y z using ext ext' lr by metis
  show ?case
    using Nd.prems(2,3) top [of p q b j] top [of q p a i] side [of p q a i b j] side [of q p b j a i] IH
      Nd.prems(4) by auto
qed simp

section \<open>Insertion\<close>

lemma bgp_node_get_all:
  assumes "table_inv f T" "wf_prefix p" "pfx_family p = f"
  shows "\<exists>a T'. bgp_node_get (Some b) T p = Inr (a, T') \<and> table_inv f T' \<and>
      (\<exists>nd. t_nodes T' a = Some nd \<and> pfx_bits (n_p nd) = pfx_bits p) \<and>
      (\<forall>y nd. t_nodes T y = Some nd \<longrightarrow>
         (\<exists>nd'. t_nodes T' y = Some nd' \<and> n_p nd' = n_p nd \<and> n_info nd' = n_info nd)) \<and>
      (\<forall>y nd. t_nodes T' y = Some nd \<longrightarrow> t_nodes T y = None \<longrightarrow> n_info nd = empty_info b) \<and>
      (lock_inv T \<longrightarrow> (\<forall>y nd. t_nodes T y = Some nd \<longrightarrow> n_lock nd \<noteq> - 1) \<longrightarrow> lock_inv T')"
proof -
  obtain t where t: "table_rep T t" "bits_ok f [] t" using assms(1) by (auto simp: table_inv_def)
  obtain a T' t' where run: "bgp_node_get (Some b) T p = Inr (a, T')" "table_rep T' t'" "bits_ok f [] t'"
      and keep: "set (tnodes t) \<subseteq> set (tnodes t')"
      and node: "\<exists>p' i. (a, p', i) \<in> set (tnodes t') \<and> pfx_bits p' = pfx_bits p"
      and new: "\<forall>y p' i. (y, p', i) \<in> set (tnodes t') \<longrightarrow> (y, p', i) \<notin> set (tnodes t) \<longrightarrow>
         i = empty_info b \<and> t_next T \<le> y"
      and lk: "lock_ok t \<longrightarrow> (\<forall>x nd. t_nodes T x = Some nd \<longrightarrow> n_lock nd \<noteq> - 1) \<longrightarrow> lock_ok t'"
    using bgp_node_get_refines [OF t assms(2,3), of b] by blast
  have "\<exists>nd'. t_nodes T' y = Some nd' \<and> n_p nd' = n_p nd \<and> n_info nd' = n_info nd"
    if "t_nodes T y = Some nd" for y nd
    using table_rep_nodes [OF t(1)] table_rep_nodes [OF run(2)] that keep by blast
  moreover have "n_info nd = empty_info b" if "t_nodes T' y = Some nd" "t_nodes T y = None" for y nd
    using table_rep_nodes(2) [OF t(1)] table_rep_nodes(1) [OF run(2) that(1)] that(2) new by fastforce
  moreover have "\<exists>nd. t_nodes T' a = Some nd \<and> pfx_bits (n_p nd) = pfx_bits p"
    using node table_rep_nodes(2) [OF run(2)] by blast
  ultimately show ?thesis
    using run lk lock_inv_iff [OF t(1)] lock_inv_iff [OF run(2)]
    by (intro exI [of _ a] exI [of _ T']) (auto simp: table_inv_def)
qed

text \<open>C5: on a well-formed table \<^verbatim>\<open>bgp_node_get\<close> always returns a node for the prefix it is
  asked for; the table stays well formed (one radix trie, with parent pointers, counter and
  branching bits in order), every node that was there keeps its prefix and its routes, and
  a node that was not there carries no route. Unless a counter overflows, nodes with a
  reference count of 0 remain branching points.\<close>

theorem bgp_node_get_correct:
  assumes "table_inv f T" "wf_prefix p" "pfx_family p = f"
  shows "\<exists>a T'. bgp_node_get (Some b) T p = Inr (a, T') \<and> table_inv f T' \<and>
      (\<exists>nd. t_nodes T' a = Some nd \<and> pfx_bits (n_p nd) = pfx_bits p) \<and>
      (\<forall>y nd. t_nodes T y = Some nd \<longrightarrow>
         (\<exists>nd'. t_nodes T' y = Some nd' \<and> n_p nd' = n_p nd \<and> n_info nd' = n_info nd)) \<and>
      (\<forall>y nd. t_nodes T' y = Some nd \<longrightarrow> t_nodes T y = None \<longrightarrow> n_info nd = empty_info b) \<and>
      (lock_inv T \<longrightarrow> (\<forall>y nd. t_nodes T y = Some nd \<longrightarrow> n_lock nd \<noteq> - 1) \<longrightarrow> lock_inv T')"
  using bgp_node_get_all [OF assms] .

section \<open>Longest-prefix match\<close>

text \<open>What one node answers: the first entry accepted by \<open>cmp\<close> in the last bucket of the
  range that has one.\<close>

definition bucket_hit :: "('i \<Rightarrow> bool) \<Rightarrow> nat \<Rightarrow> nat \<Rightarrow> 'i list list \<Rightarrow> 'i option" where
  "bucket_hit cmp md mx info =
     fold (\<lambda>k acc. case find cmp (info ! k) of None \<Rightarrow> acc | Some i \<Rightarrow> Some i) [md..<md + mx] None"

lemma scan_buckets_eq:
  "md + mx \<le> length info \<Longrightarrow> scan_buckets cmp info md mx acc =
     Inr (fold (\<lambda>k acc. case find cmp (info ! k) of None \<Rightarrow> acc | Some i \<Rightarrow> Some i) [md..<md + mx] acc)"
proof (induction mx arbitrary: md acc)
  case (Suc mx)
  have "[md..<md + Suc mx] = md # [Suc md..<Suc md + mx]" by (simp add: upt_conv_Cons del: upt_Suc)
  with Suc show ?case by (simp del: upt_Suc)
qed simp

abbreviation on_path :: "bool list \<Rightarrow> addr \<times> prefix_t \<times> 'i list list \<Rightarrow> bool" where
  "on_path q \<equiv> \<lambda>(a, p, i). prefix (pfx_bits p) q"

lemma off_path: "bits_ok f pre t \<Longrightarrow> \<not> prefix pre q \<Longrightarrow> filter (on_path q) (tnodes t) = []"
  using bits_ok_prefix [of f pre t] by (fastforce simp: filter_empty_conv dest: prefix_order.trans)

lemma path_sorted:
  "bits_ok f pre t \<Longrightarrow> sorted_wrt (\<lambda>(a, p, i) (b, q, j). length (pfx_bits p) < length (pfx_bits q))
     (filter (on_path q) (tnodes t))"
proof (induction t arbitrary: pre)
  case (Nd a p i lk l r)
  have "filter (on_path q) (tnodes l) = [] \<or> filter (on_path q) (tnodes r) = []"
  proof (cases "prefix (pfx_bits p @ [False]) q")
    case True
    then have "\<not> prefix (pfx_bits p @ [True]) q" by (auto simp: prefix_def)
    then show ?thesis using off_path Nd.prems by auto
  next
    case False
    then show ?thesis using off_path Nd.prems by auto
  qed
  moreover have "length (pfx_bits p) < length (pfx_bits p')"
    if "(b, p', j) \<in> set (tnodes l) \<union> set (tnodes r)" for b p' j
  proof -
    have "prefix (pfx_bits p @ [False]) (pfx_bits p') \<or> prefix (pfx_bits p @ [True]) (pfx_bits p')"
      using that Nd.prems bits_ok_prefix [of f "pfx_bits p @ [False]" l b p' j]
        bits_ok_prefix [of f "pfx_bits p @ [True]" r b p' j] by auto
    then show ?thesis using prefix_length_le by fastforce
  qed
  ultimately show ?case using Nd by (fastforce simp: sorted_wrt_append)
qed simp


text \<open>The walk of \<^verbatim>\<open>bgp_node_match\<close> folds over the nodes on the path of \<open>p\<close>, topmost first.\<close>

definition path_hit :: "('i \<Rightarrow> bool) \<Rightarrow> nat \<Rightarrow> nat \<Rightarrow> addr \<times> prefix_t \<times> 'i list list \<Rightarrow> (addr \<times> 'i) option" where
  "path_hit cmp md mx = (\<lambda>(a, q, i). map_option (Pair a) (bucket_hit cmp md mx i))"

definition keep_hit :: "('x \<Rightarrow> 'y option) \<Rightarrow> 'x \<Rightarrow> 'y option \<Rightarrow> 'y option" where
  "keep_hit h x acc = (case h x of None \<Rightarrow> acc | Some y \<Rightarrow> Some y)"

lemma keep_hit_simps [simp]:
  "h x = None \<Longrightarrow> keep_hit h x acc = acc"
  "h x = Some y \<Longrightarrow> keep_hit h x acc = Some y"
  by (simp_all add: keep_hit_def)

lemma match_walk_eq:
  assumes "rep (t_nodes T) par t" "bits_ok f pre t" "pfx_ok p"
    "\<forall>(a, q, i) \<in> set (tnodes t). prefix (pfx_bits q) (pfx_bits p) \<longrightarrow> pfx_len q < 8 * length (pfx_u p)"
    "pfx_len p \<le> 128" "\<forall>(a, q, i) \<in> set (tnodes t). md + mx \<le> length i" "length (addrs t) < k"
  shows "match_walk k cmp T p md mx (root t) acc =
     Inr (fold (keep_hit (path_hit cmp md mx)) (filter (on_path (pfx_bits p)) (tnodes t)) acc)"
  using assms
proof (induction t arbitrary: par pre k acc)
  case Lf
  then obtain k' where "k = Suc k'" by (cases k) auto
  then show ?case by simp
next
  case (Nd a q i lk l r)
  obtain k' where k: "k = Suc k'" using Nd.prems(7) by (cases k) auto
  have nd: "get_node T a = Inr (mk_node q par (root l) (root r) i lk)"
    using Nd.prems(1) by (simp add: get_node_def)
  have okq: "pfx_ok q" using Nd.prems(2) by simp
  have pm: "prefix_match q p = Inr (prefix (pfx_bits q) (pfx_bits p))"
    using okq Nd.prems(3) by (rule prefix_match_eq)
  show ?case
  proof (cases "prefix (pfx_bits q) (pfx_bits p)")
    case False
    then have "filter (on_path (pfx_bits p)) (tnodes (Nd a q i lk l r)) = []"
      using Nd.prems(2) by (intro off_path [of f "pfx_bits q"]) simp_all
    with False show ?thesis by (simp add: k nd pm)
  next
    case True
    have le: "pfx_len q \<le> pfx_len p"
      using prefix_length_le [OF True] okq Nd.prems(3) by simp
    define d where "d = bits_of (pfx_u p) ! pfx_len q"
    have cb: "check_bit (pfx_u p) (pfx_len q) = Inr d"
    proof -
      have "pfx_len q < 8 * length (pfx_u p)" using Nd.prems(4) True by simp
      then have "pfx_len q div 8 < length (pfx_u p)" by (simp add: less_mult_imp_div_less mult.commute)
      then show ?thesis using le Nd.prems(5) by (simp add: check_bit_def d_def nth_bits_of)
    qed
    have off: "filter (on_path (pfx_bits p)) (tnodes (if d then l else r)) = []"
    proof (rule off_path)
      show "bits_ok f (pfx_bits q @ [\<not> d]) (if d then l else r)" using Nd.prems(2) by simp
      show "\<not> prefix (pfx_bits q @ [\<not> d]) (pfx_bits p)"
      proof
        assume pre: "prefix (pfx_bits q @ [\<not> d]) (pfx_bits p)"
        then have lt: "pfx_len q < pfx_len p" using prefix_length_le [OF pre] okq Nd.prems(3) by simp
        have "pfx_bits p ! pfx_len q = (\<not> d)" using pre okq by (auto simp: prefix_def nth_append)
        moreover have "pfx_bits p ! pfx_len q = d" using lt by (simp add: pfx_bits_def d_def)
        ultimately show False by simp
      qed
    qed
    have len: "md + mx \<le> length i" using Nd.prems(6) by simp
    let ?acc = "case bucket_hit cmp md mx i of None \<Rightarrow> acc | Some y \<Rightarrow> Some (a, y)"
    have step: "match_walk k cmp T p md mx (root (Nd a q i lk l r)) acc =
        match_walk k' cmp T p md mx (root (if d then r else l)) ?acc"
      using True le by (simp add: k nd pm cb scan_buckets_eq [OF len] bucket_hit_def)
    have child: "match_walk k' cmp T p md mx (root (if d then r else l)) ?acc =
        Inr (fold (keep_hit (path_hit cmp md mx)) (filter (on_path (pfx_bits p)) (tnodes (if d then r else l))) ?acc)"
      using Nd.prems k Nd.IH(1) [of "Some a" "pfx_bits q @ [False]" k' ?acc]
        Nd.IH(2) [of "Some a" "pfx_bits q @ [True]" k' ?acc] by (cases d) auto
    have "filter (on_path (pfx_bits p)) (tnodes (Nd a q i lk l r)) =
        (a, q, i) # filter (on_path (pfx_bits p)) (tnodes (if d then r else l))"
      using True off by (cases d) auto
    moreover have "?acc = keep_hit (path_hit cmp md mx) (a, q, i) acc"
      by (simp add: keep_hit_def path_hit_def split: option.splits)
    ultimately show ?thesis using step child by simp
  qed
qed


lemma last_hit_longest:
  assumes "sorted_wrt (\<lambda>x y. m x < (m y :: nat)) xs" "fold (keep_hit h) xs None = r"
  shows "case r of None \<Rightarrow> (\<forall>x \<in> set xs. h x = None)
         | Some y \<Rightarrow> (\<exists>x \<in> set xs. h x = Some y \<and> (\<forall>z \<in> set xs. h z \<noteq> None \<longrightarrow> m z \<le> m x))"
  using assms
proof (induction xs arbitrary: r rule: rev_induct)
  case (snoc x xs)
  have IH: "case fold (keep_hit h) xs None of None \<Rightarrow> (\<forall>x \<in> set xs. h x = None)
         | Some y \<Rightarrow> (\<exists>x \<in> set xs. h x = Some y \<and> (\<forall>z \<in> set xs. h z \<noteq> None \<longrightarrow> m z \<le> m x))"
    using snoc.IH snoc.prems(1) by (auto simp: sorted_wrt_append)
  show ?case
  proof (cases "h x")
    case None
    then have "r = fold (keep_hit h) xs None" using snoc.prems(2) by simp
    with IH None show ?thesis by (auto split: option.splits)
  next
    case (Some y)
    then have "r = Some y" using snoc.prems(2) by simp
    with Some snoc.prems(1) show ?thesis by (auto simp: sorted_wrt_append intro!: less_imp_le)
  qed
qed simp

lemma match_walk_host_fault:
  assumes "rep (t_nodes T) par t" "bits_ok f pre t" "pfx_len p = 8 * length (pfx_u p)" "pfx_len p \<le> 128"
    "\<forall>(a, q, i) \<in> set (tnodes t). md + mx \<le> length i" "length (addrs t) < k"
    "(x, y, z) \<in> set (tnodes t)" "pfx_bits y = pfx_bits p"
  shows "match_walk k cmp T p md mx (root t) acc = Inl Out_Of_Bounds"
  using assms
proof (induction t arbitrary: par pre k acc)
  case (Nd a q i lk l r)
  obtain k' where k: "k = Suc k'" using Nd.prems(6) by (cases k) auto
  have okp: "pfx_ok p" using Nd.prems(3) by (simp add: pfx_ok_def)
  have okq: "pfx_ok q" using Nd.prems(2) by simp
  have nd: "get_node T a = Inr (mk_node q par (root l) (root r) i lk)"
    using Nd.prems(1) by (simp add: get_node_def)
  have bl: "bits_ok f (pfx_bits q @ [False]) l" and br: "bits_ok f (pfx_bits q @ [True]) r"
    using Nd.prems(2) by simp_all
  have len: "md + mx \<le> length i" using Nd.prems(5) by simp
  have pre: "prefix (pfx_bits q) (pfx_bits p)"
    using bits_ok_prefix [of f "pfx_bits q" "Nd a q i lk l r" x y z] Nd.prems(2,7,8) by simp
  have pm: "prefix_match q p = Inr True" using prefix_match_eq [OF okq okp] pre by simp
  have le: "pfx_len q \<le> pfx_len p" using prefix_length_le [OF pre] okp okq by simp
  let ?acc = "case bucket_hit cmp md mx i of None \<Rightarrow> acc | Some e \<Rightarrow> Some (a, e)"
  have step: "match_walk k cmp T p md mx (root (Nd a q i lk l r)) acc =
      rbind (check_bit (pfx_u p) (pfx_len q)) (\<lambda>d. match_walk k' cmp T p md mx (root (if d then r else l)) ?acc)"
    using le Nd.prems(4) by (simp add: k nd pm scan_buckets_eq [OF len] bucket_hit_def if_distrib [of root])
  show ?case
  proof (cases "pfx_len q = pfx_len p")
    case True
    then show ?thesis unfolding step using Nd.prems(3,4) by (simp add: check_bit_def rd8_def)
  next
    case False
    with le have lt: "pfx_len q < pfx_len p" by simp
    have cb: "check_bit (pfx_u p) (pfx_len q) = Inr (pfx_bits p ! pfx_len q)"
      using lt okp Nd.prems(4) by (intro check_bit_eq) simp_all
    have ne: "(x, y, z) \<noteq> (a, q, i)" using lt Nd.prems(8) okp okq by (metis length_pfx_bits less_irrefl prod.inject)
    have bit: "pfx_bits p ! pfx_len q = d" if "prefix (pfx_bits q @ [d]) (pfx_bits y)" for d
      using that okq Nd.prems(8) by (auto simp: prefix_def nth_append)
    have "(x, y, z) \<in> set (tnodes (if pfx_bits p ! pfx_len q then r else l))"
      using ne Nd.prems(7) bit bits_ok_prefix [OF bl, of x y z] bits_ok_prefix [OF br, of x y z] by auto
    then show ?thesis
      unfolding step cb using Nd.prems k Nd.IH(1) [of "Some a" "pfx_bits q @ [False]" k' ?acc]
        Nd.IH(2) [of "Some a" "pfx_bits q @ [True]" k' ?acc]
      by (cases "pfx_bits p ! pfx_len q") auto
  qed
qed simp

lemma node_match_host_fault:
  fixes T :: "'i bgp_table"
  defines "mx \<equiv> \<lambda>b. if hash_pathid b then table_per_peer_buckets b else 1"
  assumes inv: "table_inv f T" and buckets: "\<And>a nd. t_nodes T a = Some nd \<Longrightarrow> mf (mx b) + mx b \<le> length (n_info nd)"
    and p: "pfx_len p = 8 * length (pfx_u p)" "pfx_len p \<le> 128" and host: "t_nodes T a = Some nd" "pfx_bits (n_p nd) = pfx_bits p"
  shows "bgp_node_match (Some b) cmp mf T p prev = Inl Out_Of_Bounds"
proof -
  obtain t where t: "table_rep T t" "bits_ok f [] t" using inv by (auto simp: table_inv_def)
  have "(a, n_p nd, n_info nd) \<in> set (tnodes t)" using table_rep_nodes(1) [OF t(1) host(1)] .
  moreover have "\<forall>(a, q, i) \<in> set (tnodes t). mf (mx b) + mx b \<le> length i"
    using buckets table_rep_nodes(2) [OF t(1)] by fastforce
  ultimately have "match_walk (Suc (t_next T)) cmp T p (mf (mx b)) (mx b) (root t) None = Inl Out_Of_Bounds"
    using t p host(2) fuel_bound [OF t(1)]
    by (intro match_walk_host_fault [of _ None _ f "[]" _ _ _ _ a "n_p nd" "n_info nd"]) (auto simp: table_rep_def)
  then show ?thesis using t(1) by (simp add: bgp_node_match_def Let_def mx_def table_rep_def)
qed

lemma host_or_shorter:
  assumes "table_rep T t" "bits_ok f [] t" "pfx_ok p" "(a, q, i) \<in> set (tnodes t)" "prefix (pfx_bits q) (pfx_bits p)"
  shows "pfx_len q < 8 * length (pfx_u p) \<or> pfx_len p = 8 * length (pfx_u p) \<and> pfx_bits q = pfx_bits p"
proof -
  have okq: "pfx_ok q" using tnodes_wf [OF assms(2,4)] by simp
  have "pfx_len q \<le> pfx_len p" using prefix_length_le [OF assms(5)] okq assms(3) by simp
  moreover have "pfx_len p \<le> 8 * length (pfx_u p)" using assms(3) by (simp add: pfx_ok_def)
  moreover have "pfx_bits q = pfx_bits p" if "pfx_len q = pfx_len p"
  proof -
    obtain zs where zs: "pfx_bits p = pfx_bits q @ zs" using assms(5) by (auto simp: prefix_def)
    then have "length (pfx_bits p) = length (pfx_bits q) + length zs" by simp
    then have "length zs = 0" using okq assms(3) that by simp
    then show ?thesis using zs by simp
  qed
  ultimately show ?thesis by linarith
qed

lemma node_match_longest:
  fixes T :: "'i bgp_table"
  defines "mx \<equiv> \<lambda>b. if hash_pathid b then table_per_peer_buckets b else 1"
  assumes inv: "table_inv f T" and p: "pfx_ok p" "pfx_len p \<le> 128"
    and buckets: "\<And>a nd. t_nodes T a = Some nd \<Longrightarrow> mf (mx b) + mx b \<le> length (n_info nd)"
    and nohost: "\<not> (pfx_len p = 8 * length (pfx_u p) \<and> (\<exists>a nd. t_nodes T a = Some nd \<and> pfx_bits (n_p nd) = pfx_bits p))"
  shows "\<exists>res T'. bgp_node_match (Some b) cmp mf T p prev = Inr (res, T') \<and>
     (case res of
        None \<Rightarrow> T' = T \<and> (\<forall>a nd. t_nodes T a = Some nd \<longrightarrow> prefix (pfx_bits (n_p nd)) (pfx_bits p) \<longrightarrow>
                  bucket_hit cmp (mf (mx b)) (mx b) (n_info nd) = None)
      | Some (a, i) \<Rightarrow> \<exists>nd. t_nodes T a = Some nd \<and> T' = put_node T a (nd\<lparr>n_lock := n_lock nd + 1\<rparr>) \<and>
          prefix (pfx_bits (n_p nd)) (pfx_bits p) \<and>
          bucket_hit cmp (mf (mx b)) (mx b) (n_info nd) = Some i \<and>
          (\<forall>a' nd'. t_nodes T a' = Some nd' \<longrightarrow> prefix (pfx_bits (n_p nd')) (pfx_bits p) \<longrightarrow>
             bucket_hit cmp (mf (mx b)) (mx b) (n_info nd') \<noteq> None \<longrightarrow>
             length (pfx_bits (n_p nd')) \<le> length (pfx_bits (n_p nd))))"
proof -
  obtain t where t: "table_rep T t" "bits_ok f [] t" using inv by (auto simp: table_inv_def)
  let ?md = "mf (mx b)" and ?mx = "mx b"
  let ?xs = "filter (on_path (pfx_bits p)) (tnodes t)" and ?h = "path_hit cmp (mf (mx b)) (mx b)"
  let ?r = "fold (keep_hit ?h) ?xs None"
  have *: "\<forall>(a, q, i) \<in> set (tnodes t). ?md + ?mx \<le> length i"
    using buckets table_rep_nodes(2) [OF t(1)] by fastforce
  have short: "pfx_len q < 8 * length (pfx_u p)" if "(a, q, i) \<in> set (tnodes t)" "prefix (pfx_bits q) (pfx_bits p)" for a q i
    using host_or_shorter [OF t p(1) that] table_rep_nodes(2) [OF t(1) that(1)] nohost by auto
  then have walk: "match_walk (Suc (t_next T)) cmp T p ?md ?mx (t_top T) None = Inr ?r"
    using match_walk_eq [of T None t f "[]" p ?md ?mx "Suc (t_next T)" cmp None] t p * fuel_bound [OF t(1)]
    by (auto simp: table_rep_def)
  have path: "(a, n_p nd, n_info nd) \<in> set ?xs" if "t_nodes T a = Some nd" "prefix (pfx_bits (n_p nd)) (pfx_bits p)" for a nd
    using table_rep_nodes(1) [OF t(1)] that by simp
  have "sorted_wrt (\<lambda>x y. length (pfx_bits (fst (snd x))) < length (pfx_bits (fst (snd y)))) ?xs"
    using path_sorted [OF t(2), of "pfx_bits p"] by (simp add: case_prod_beta')
  note last = last_hit_longest [OF this, of ?h, OF refl]
  show ?thesis
  proof (cases ?r)
    case None
    then have "bucket_hit cmp ?md ?mx (n_info nd) = None"
      if "t_nodes T a = Some nd" "prefix (pfx_bits (n_p nd)) (pfx_bits p)" for a nd
      using last path [OF that] by (fastforce simp: path_hit_def)
    moreover have "bgp_node_match (Some b) cmp mf T p prev = Inr (None, T)"
      using walk None by (simp add: bgp_node_match_def Let_def mx_def)
    ultimately show ?thesis by (intro exI [of _ None] exI [of _ T]) simp
  next
    case (Some y)
    then obtain a q i where x: "(a, q, i) \<in> set ?xs" "?h (a, q, i) = Some y"
        and max: "\<forall>z \<in> set ?xs. ?h z \<noteq> None \<longrightarrow> length (pfx_bits (fst (snd z))) \<le> length (pfx_bits q)"
      using last by fastforce
    obtain nd where nd: "t_nodes T a = Some nd" "n_p nd = q" "n_info nd = i"
      using x(1) table_rep_nodes(2) [OF t(1), of a q i] by auto
    obtain e where e: "y = (a, e)" "bucket_hit cmp ?md ?mx i = Some e"
      using x(2) by (auto simp: path_hit_def)
    have "bgp_node_match (Some b) cmp mf T p prev = Inr (Some y, put_node T a (nd\<lparr>n_lock := n_lock nd + 1\<rparr>))"
      using walk Some e(1) nd(1) by (simp add: bgp_node_match_def Let_def mx_def bgp_lock_node_def get_node_def)
    moreover have "length (pfx_bits (n_p nd')) \<le> length (pfx_bits q)"
      if "t_nodes T a' = Some nd'" "prefix (pfx_bits (n_p nd')) (pfx_bits p)"
        "bucket_hit cmp ?md ?mx (n_info nd') \<noteq> None" for a' nd'
      using max path [OF that(1,2)] that(3) by (fastforce simp: path_hit_def)
    ultimately show ?thesis
      using e nd x(1) by (intro exI [of _ "Some y"] exI) auto
  qed
qed

text \<open>C4: longest-prefix match, for every address. On a well-formed table whose nodes have the buckets
  the lookup asks for, the outcome of \<^verbatim>\<open>bgp_node_match\<close> is fixed. When the table has a node for the very
  address and the prefix fills its array to the last bit, which an IPv6 host route does, the lookup reads
  behind the address. Otherwise it returns: no node exactly when no node whose prefix contains the
  address has an accepted entry, and else, locked once more, the node of greatest prefix length among
  those that have one, with its entry.\<close>

theorem bgp_node_match_longest:
  fixes T :: "'i bgp_table"
  defines "mx \<equiv> \<lambda>b. if hash_pathid b then table_per_peer_buckets b else 1"
  assumes inv: "table_inv f T" and p: "pfx_ok p" "pfx_len p \<le> 128"
    and buckets: "\<And>a nd. t_nodes T a = Some nd \<Longrightarrow> mf (mx b) + mx b \<le> length (n_info nd)"
  shows "if pfx_len p = 8 * length (pfx_u p) \<and> (\<exists>a nd. t_nodes T a = Some nd \<and> pfx_bits (n_p nd) = pfx_bits p)
     then bgp_node_match (Some b) cmp mf T p prev = Inl Out_Of_Bounds
     else \<exists>res T'. bgp_node_match (Some b) cmp mf T p prev = Inr (res, T') \<and>
     (case res of
        None \<Rightarrow> T' = T \<and> (\<forall>a nd. t_nodes T a = Some nd \<longrightarrow> prefix (pfx_bits (n_p nd)) (pfx_bits p) \<longrightarrow>
                  bucket_hit cmp (mf (mx b)) (mx b) (n_info nd) = None)
      | Some (a, i) \<Rightarrow> \<exists>nd. t_nodes T a = Some nd \<and> T' = put_node T a (nd\<lparr>n_lock := n_lock nd + 1\<rparr>) \<and>
          prefix (pfx_bits (n_p nd)) (pfx_bits p) \<and>
          bucket_hit cmp (mf (mx b)) (mx b) (n_info nd) = Some i \<and>
          (\<forall>a' nd'. t_nodes T a' = Some nd' \<longrightarrow> prefix (pfx_bits (n_p nd')) (pfx_bits p) \<longrightarrow>
             bucket_hit cmp (mf (mx b)) (mx b) (n_info nd') \<noteq> None \<longrightarrow>
             length (pfx_bits (n_p nd')) \<le> length (pfx_bits (n_p nd))))"
proof (cases "pfx_len p = 8 * length (pfx_u p) \<and> (\<exists>a nd. t_nodes T a = Some nd \<and> pfx_bits (n_p nd) = pfx_bits p)")
  case True
  then obtain a nd where h: "pfx_len p = 8 * length (pfx_u p)" "t_nodes T a = Some nd" "pfx_bits (n_p nd) = pfx_bits p" by blast
  have "bgp_node_match (Some b) cmp mf T p prev = Inl Out_Of_Bounds"
    by (rule node_match_host_fault [OF inv _ h(1) p(2) h(2,3)]) (use buckets in \<open>simp add: mx_def\<close>)
  then show ?thesis using True by simp
next
  case False
  show ?thesis
    unfolding if_not_P [OF False] mx_def
    by (rule node_match_longest [OF inv p _ False]) (use buckets in \<open>simp add: mx_def\<close>)
qed


text \<open>A table with one node, for the witnesses.\<close>

definition single_table :: "prefix_t \<Rightarrow> 'i list list \<Rightarrow> 'i bgp_table" where
  "single_table q info = \<lparr>t_afi = 1, t_safi = 1, t_top = Some 0, t_count = 1,
     t_nodes = [0 \<mapsto> mk_node q None None None info 1], t_next = 1\<rparr>"

lemma single_table_inv:
  "wf_prefix q \<Longrightarrow> table_inv (pfx_family q) (single_table q info)"
  unfolding table_inv_def table_rep_def
  by (intro exI [of _ "Nd 0 q info 1 Lf Lf"]) (simp add: single_table_def)

theorem bgp_node_get_correct_witness:
  "\<exists>a T'. bgp_node_get (Some \<lparr>table_peer_buckets = 1, table_per_peer_buckets = 1, hash_pathid = False\<rparr>)
       (single_table \<lparr>pfx_family = AF_INET, pfx_len = 8, pfx_u = [10] @ replicate 15 0\<rparr> [[7 :: nat]])
       \<lparr>pfx_family = AF_INET, pfx_len = 8, pfx_u = [11] @ replicate 15 0\<rparr> = Inr (a, T') \<and> table_inv AF_INET T'"
proof -
  let ?q = "\<lparr>pfx_family = AF_INET, pfx_len = 8, pfx_u = [10] @ replicate 15 (0 :: byte)\<rparr>"
  let ?p = "\<lparr>pfx_family = AF_INET, pfx_len = 8, pfx_u = [11] @ replicate 15 (0 :: byte)\<rparr>"
  have "table_inv AF_INET (single_table ?q [[7 :: nat]])"
    using single_table_inv [of ?q "[[7 :: nat]]"] by (simp add: wf_prefix_def)
  then show ?thesis
    using bgp_node_get_correct [of AF_INET "single_table ?q [[7 :: nat]]" ?p
        "\<lparr>table_peer_buckets = 1, table_per_peer_buckets = 1, hash_pathid = False\<rparr>"]
    by (auto simp: wf_prefix_def)
qed

theorem bgp_node_match_longest_witness:
  "\<exists>T'. bgp_node_match (Some \<lparr>table_peer_buckets = 1, table_per_peer_buckets = 1, hash_pathid = False\<rparr>)
       (\<lambda>i. i = 7) (\<lambda>_. 0)
       (single_table \<lparr>pfx_family = AF_INET, pfx_len = 8, pfx_u = [10] @ replicate 15 0\<rparr> [[7 :: nat]])
       \<lparr>pfx_family = AF_INET, pfx_len = 32, pfx_u = [10, 1, 2, 3] @ replicate 4 0\<rparr> None = Inr (Some (0, 7), T')"
proof -
  let ?q = "\<lparr>pfx_family = AF_INET, pfx_len = 8, pfx_u = [10] @ replicate 15 (0 :: byte)\<rparr>"
  let ?p = "\<lparr>pfx_family = AF_INET, pfx_len = 32, pfx_u = [10, 1, 2, 3] @ replicate 4 (0 :: byte)\<rparr>"
  let ?T = "single_table ?q [[7 :: nat]]"
  have inv: "table_inv AF_INET ?T"
    using single_table_inv [of ?q "[[7 :: nat]]"] by (simp add: wf_prefix_def)
  have nodes: "t_nodes ?T a = Some nd \<longleftrightarrow> a = 0 \<and> nd = mk_node ?q None None None [[7]] 1" for a nd
    by (auto simp: single_table_def)
  have pre: "prefix (pfx_bits ?q) (pfx_bits ?p)" by code_simp
  have hit: "bucket_hit (\<lambda>i. i = 7) 0 1 [[7 :: nat]] = Some 7" by (simp add: bucket_hit_def)
  show ?thesis
    using bgp_node_match_longest [OF inv, of ?p "\<lambda>_. 0"
        "\<lparr>table_peer_buckets = 1, table_per_peer_buckets = 1, hash_pathid = False\<rparr>" "\<lambda>i. i = 7" None]
    by (elim meta_impE exE conjE)
       (use pre hit in \<open>auto simp: nodes pfx_ok_def simp del: append_Cons split: option.splits\<close>)
qed

text \<open>Looking up an IPv6 address that the table holds as a host route reads one byte past the
  address: after the match on all 128 bits \<^verbatim>\<open>bgp_node_match\<close> still asks \<^verbatim>\<open>check_bit\<close> for
  bit 128 to choose a child.\<close>

theorem bgp_node_match_ipv6_host_route:
  fixes T :: "'i bgp_table"
  defines "mx \<equiv> \<lambda>b. if hash_pathid b then table_per_peer_buckets b else 1"
  assumes inv: "table_inv AF_INET6 T" and ad: "length ad = 16"
    and buckets: "\<And>a nd. t_nodes T a = Some nd \<Longrightarrow> mf (mx b) + mx b \<le> length (n_info nd)"
    and host: "t_nodes T a = Some nd" "pfx_bits (n_p nd) = bits_of ad"
  shows "bgp_node_match_ipv6 (Some b) cmp mf T ad prev = Inl Out_Of_Bounds"
proof -
  let ?p = "\<lparr>pfx_family = AF_INET6, pfx_len = IPV6_MAX_PREFIXLEN, pfx_u = ad\<rparr>"
  have "pfx_bits (n_p nd) = pfx_bits ?p"
    using ad host(2) by (simp add: pfx_bits_def IPV6_MAX_PREFIXLEN_def)
  then show ?thesis
    using node_match_host_fault [where p = ?p and mf = mf, OF inv buckets [unfolded mx_def] _ _ host(1)] ad
    by (simp add: bgp_node_match_ipv6_def IPV6_MAX_PREFIXLEN_def)
qed

theorem bgp_node_match_ipv6_host_route_witness:
  "bgp_node_match_ipv6 (Some \<lparr>table_peer_buckets = 1, table_per_peer_buckets = 1, hash_pathid = False\<rparr>)
     (\<lambda>i. i = 7) (\<lambda>_. 0)
     (single_table \<lparr>pfx_family = AF_INET6, pfx_len = 128, pfx_u = replicate 16 1\<rparr> [[7 :: nat]])
     (replicate 16 1) None = Inl Out_Of_Bounds"
proof -
  let ?q = "\<lparr>pfx_family = AF_INET6, pfx_len = 128, pfx_u = replicate 16 (1 :: byte)\<rparr>"
  have "table_inv AF_INET6 (single_table ?q [[7 :: nat]])"
    using single_table_inv [of ?q "[[7 :: nat]]"] by (simp add: wf_prefix_def)
  then show ?thesis
    by (rule bgp_node_match_ipv6_host_route [where a = 0])
       (auto simp: single_table_def pfx_bits_def split: if_splits)
qed

end
