(* ===== verification/Bgp_Walk.thy ===== *)
theory Bgp_Walk
  imports Bgp_Lookup
begin

text \<open>
  Release and traversal of the routing table: \<^verbatim>\<open>bgp_unlock_node\<close> with the pruning of
  \<^verbatim>\<open>bgp_node_delete\<close>, and the loop \<^verbatim>\<open>for (node = bgp_table_top(t); node; node =
  bgp_route_next(peer, node))\<close> of \<^verbatim>\<open>bgp_util.c\<close> and \<^verbatim>\<open>bgp_logdump.c\<close>.
\<close>

section \<open>Focusing on a node\<close>

lemma focus_plug:
  "a \<in> set (addrs t) \<Longrightarrow> \<exists>c p i lk l r. plug c0 t = plug c (Nd a p i lk l r)"
proof (induction t arbitrary: c0)
  case (Nd b p i lk l r)
  consider "a = b" | "a \<in> set (addrs l)" | "a \<in> set (addrs r)" using Nd.prems by auto
  then show ?case
  proof cases
    case 1
    then show ?thesis by blast
  next
    case 2
    show ?thesis using Nd.IH(1) [OF 2, of "Fr b p i lk False r # c0"] by simp
  next
    case 3
    show ?thesis using Nd.IH(2) [OF 3, of "Fr b p i lk True l # c0"] by simp
  qed
qed simp

lemma table_focus:
  assumes "table_rep T t" "t_nodes T a = Some nd"
  obtains c p i lk l r where "t = plug c (Nd a p i lk l r)" "nd = mk_node p (ctx_top c) (root l) (root r) i lk"
proof -
  have "a \<in> set (addrs t)" using assms by (auto simp: table_rep_def)
  from focus_plug [OF this, of "[]"] obtain c p i lk l r where t: "t = plug c (Nd a p i lk l r)" by auto
  moreover from this have "rep (t_nodes T) (ctx_top c) (Nd a p i lk l r)"
    using assms(1) by (simp add: table_rep_def rep_plug)
  ultimately show ?thesis using assms(2) that by simp
qed

lemma focus_pre:
  assumes "table_rep T (plug c (Nd a p i lk l r))" "bits_ok f [] (plug c (Nd a p i lk l r))"
  shows "insert_pre f T c (Nd a p i lk l r) p"
  using assms by (simp add: insert_pre_def bits_ok_plug)

section \<open>Preorder\<close>

fun before :: "'i frame list \<Rightarrow> addr list" where
  "before [] = []"
| "before (Fr a p i lk d sib # c) = before c @ a # (if d then addrs sib else [])"

fun after :: "'i frame list \<Rightarrow> addr list" where
  "after [] = []"
| "after (Fr a p i lk d sib # c) = (if d then [] else addrs sib) @ after c"

definition hd_opt :: "'a list \<Rightarrow> 'a option" where
  "hd_opt xs = (case xs of [] \<Rightarrow> None | x # _ \<Rightarrow> Some x)"

lemma hd_opt_simps [simp]: "hd_opt [] = None" "hd_opt (x # xs) = Some x"
  "hd_opt (addrs t @ xs) = (if t = Lf then hd_opt xs else root t)"
  by (simp_all add: hd_opt_def) (cases t; simp)

lemma addrs_plug: "addrs (plug c s) = before c @ addrs s @ after c"
proof (induction c arbitrary: s)
  case (Cons fr c)
  then show ?case by (cases fr) simp
qed simp

lemma length_ctx: "length c \<le> length (ctx_addrs c)"
proof (induction c)
  case (Cons fr c)
  then show ?case by (cases fr) simp
qed simp

lemma climb_eq:
  assumes "rep (t_nodes T) None (plug c s)" "root s = Some a" "distinct (addrs (plug c s))" "length c < k"
  shows "climb k T None a = Inr (hd_opt (after c))"
  using assms
proof (induction c arbitrary: s a k)
  case Nil
  then obtain p i lk l r k' where "s = Nd a p i lk l r" "k = Suc k'" by (cases s; cases k) auto
  with Nil show ?case by (simp add: get_node_def)
next
  case (Cons fr c)
  obtain pa p i lk d sib where fr: "fr = Fr pa p i lk d sib" by (cases fr)
  obtain q j lk' l r k' where s: "s = Nd a q j lk' l r" and k: "k = Suc k'"
    using Cons.prems(2,4) by (cases s; cases k) auto
  have rep: "rep_ctx (t_nodes T) (fr # c) (Some a)" "rep (t_nodes T) (Some pa) s"
    using Cons.prems(1) rep_plug [of "t_nodes T" "fr # c" s] by (simp_all add: fr s)
  have a: "get_node T a = Inr (mk_node q (Some pa) (root l) (root r) j lk')"
    using rep(2) by (simp add: get_node_def s)
  have pa: "get_node T pa = Inr (mk_node p (ctx_top c) (if d then root sib else Some a) (if d then Some a else root sib) i lk)"
    using rep(1) by (simp add: get_node_def fr)
  have "a \<notin> set (addrs sib)"
    using Cons.prems(3) distinct_addrs_plug [of "fr # c" s] by (auto simp: fr s)
  then have ne: "root sib \<noteq> Some a" by (cases sib) auto
  have up: "climb k' T None pa = Inr (hd_opt (after c))"
    using Cons.prems(1,3,4) by (intro Cons.IH [of "plug1 fr s"]) (simp_all add: fr k)
  show ?case using up ne by (cases d; cases "sib = Lf") (simp_all add: k a pa fr)
qed

lemma next_of_eq:
  assumes "table_rep T (plug c (Nd a p i lk l r))"
  shows "next_of T None a = Inr (hd_opt (addrs l @ addrs r @ after c))"
proof -
  let ?s = "Nd a p i lk l r"
  have rep: "rep (t_nodes T) None (plug c ?s)" "distinct (addrs (plug c ?s))"
    using assms by (simp_all add: table_rep_def)
  have nd: "get_node T a = Inr (mk_node p (ctx_top c) (root l) (root r) i lk)"
    using rep(1) by (simp add: rep_plug get_node_def)
  have "length c < Suc (t_next T)"
    using fuel_bound [OF assms] length_ctx [of c] by (simp add: length_addrs_plug)
  then have "climb (Suc (t_next T)) T None a = Inr (hd_opt (after c))"
    by (intro climb_eq [OF rep(1) _ rep(2)]) simp_all
  then show ?thesis by (cases "l = Lf"; cases "r = Lf") (simp_all add: next_of_def nd)
qed

section \<open>The traversal\<close>

text \<open>The loop over a table, collecting the nodes it visits.\<close>

fun visit :: "nat \<Rightarrow> 'i bgp_table \<Rightarrow> addr option \<Rightarrow> (addr list \<times> 'i bgp_table) res" where
  "visit 0 T r = Inl No_Fuel"
| "visit (Suc k) T None = Inr ([], T)"
| "visit (Suc k) T (Some a) =
     rbind (bgp_route_next T a) (\<lambda>(nx, T1). rbind (visit k T1 nx) (\<lambda>(xs, T2). Inr (a # xs, T2)))"

definition visit_all :: "'i bgp_table \<Rightarrow> (addr list \<times> 'i bgp_table) res" where
  "visit_all T = rbind (bgp_table_top T) (\<lambda>(r, T1). visit (Suc (Suc (t_next T))) T1 r)"

abbreviation locked :: "'i bgp_table \<Rightarrow> addr \<Rightarrow> 'i bgp_node \<Rightarrow> 'i bgp_table" where
  "locked T a nd \<equiv> put_node T a (nd\<lparr>n_lock := n_lock nd + 1\<rparr>)"

lemma put_node_self: "t_nodes T a = Some nd \<Longrightarrow> put_node T a nd = T"
  by (simp add: put_node_def fun_upd_idem)

lemma lock_locked: "t_nodes T a = Some nd \<Longrightarrow> bgp_lock_node T a = Inr (locked T a nd)"
  by (simp add: bgp_lock_node_def get_node_def)

text \<open>Dropping the lock just taken: nothing is freed, as an unlocked node branches.\<close>

lemma unlock_locked:
  assumes "t_nodes T a = Some nd"
    "n_lock nd = 0 \<longrightarrow> n_left nd \<noteq> None \<and> n_right nd \<noteq> None \<and> no_routes (n_info nd)"
  shows "bgp_unlock_node (locked T a nd) a = Inr T"
proof -
  have same: "put_node (locked T a nd) a nd = T"
    using put_node_self [OF assms(1)] by (simp add: put_node_def)
  have "bgp_node_delete (Suc k) T a = Inr T" if "n_lock nd = 0" for k
    using assms that by (auto simp: no_routes_def get_node_def rassert_def)
  moreover have "get_node (locked T a nd) a = Inr (nd\<lparr>n_lock := n_lock nd + 1\<rparr>)" "t_next (locked T a nd) = t_next T"
    by (simp_all add: get_node_def put_node_def)
  then have "bgp_unlock_node (locked T a nd) a = (if n_lock nd = 0 then bgp_node_delete (Suc (t_next T)) T a else Inr T)"
  proof -
    define nd' where "nd' = nd\<lparr>n_lock := n_lock nd + 1\<rparr>"
    have "n_lock nd' - 1 = n_lock nd" "nd'\<lparr>n_lock := n_lock nd\<rparr> = nd" by (simp_all add: nd'_def)
    then show ?thesis
      using \<open>get_node _ a = _\<close> \<open>t_next _ = _\<close> same unfolding nd'_def [symmetric]
      by (simp only: bgp_unlock_node_def Let_def rbind_simps)
  qed
  ultimately show ?thesis by (simp del: bgp_node_delete.simps)
qed

lemma locked_twist: "a \<noteq> b \<Longrightarrow> put_node (put_node T a x) b y = put_node (put_node T b y) a x"
  by (simp add: put_node_def fun_upd_twist)

lemma distinct_split_unique:
  "distinct (xs @ a # ys) \<Longrightarrow> xs @ a # ys = xs' @ a # ys' \<Longrightarrow> ys = ys'"
proof (induction xs arbitrary: xs')
  case Nil
  then show ?case by (cases xs') auto
next
  case (Cons x xs)
  then obtain zs where "xs' = x # zs" "xs @ a # ys = zs @ a # ys'" by (cases xs') auto
  with Cons.IH [of zs] Cons.prems(1) show ?case by simp
qed

lemma next_of_locked:
  assumes t: "table_rep T t" "bits_ok f [] t" and a: "addrs t = xs @ a # ys" "t_nodes T a = Some nd"
  shows "next_of (locked T a nd) None a = Inr (hd_opt ys)"
proof -
  obtain c p i lk l r where c: "t = plug c (Nd a p i lk l r)" "nd = mk_node p (ctx_top c) (root l) (root r) i lk"
    using table_focus [OF t(1) a(2)] .
  have pre: "insert_pre f T c (Nd a p i lk l r) p" using t c by (intro focus_pre) simp_all
  from insert_found [OF pre] have rep: "table_rep (locked T a nd) (plug c (Nd a p i (lk + 1) l r))"
    using lock_locked [OF a(2)] by auto
  have d: "distinct (addrs t)" using t(1) by (simp add: table_rep_def)
  have "before c @ a # (addrs l @ addrs r @ after c) = xs @ a # ys"
    using a(1) c(1) by (simp add: addrs_plug)
  then have "addrs l @ addrs r @ after c = ys"
    using d a(1) distinct_split_unique [of "before c" a] by simp
  then show ?thesis using next_of_eq [OF rep] by simp
qed

lemma visit_eq:
  assumes t: "table_rep T t" "bits_ok f [] t" and l: "lock_inv T"
    and a: "addrs t = xs @ a # ys" "t_nodes T a = Some nd" and k: "length ys + 1 < k"
  shows "visit k (locked T a nd) (Some a) = Inr (a # ys, T)"
  using a k
proof (induction ys arbitrary: xs a nd k)
  case Nil
  then obtain k' where "k = Suc (Suc k')" by (cases k; cases "k - 1") auto
  then show ?case
    using next_of_locked [OF t Nil.prems(1,2)] unlock_locked [OF Nil.prems(2)] l [unfolded lock_inv_def] Nil.prems(2)
    by (simp add: bgp_route_next_def bgp_route_next_until_def)
next
  case (Cons b ys)
  obtain k' where k: "k = Suc k'" using Cons.prems(3) by (cases k) auto
  have "b \<in> set (addrs t)" "a \<noteq> b" using Cons.prems(1) t(1) by (auto simp: table_rep_def)
  then obtain nb where b: "t_nodes T b = Some nb" "t_nodes (locked T a nd) b = Some nb"
    using t(1) by (fastforce simp: table_rep_def put_node_def)
  let ?T1 = "locked (locked T a nd) b nb"
  have lb: "bgp_lock_node (locked T a nd) b = Inr ?T1" using lock_locked [OF b(2)] .
  have "?T1 = locked (locked T b nb) a nd" using \<open>a \<noteq> b\<close> by (rule locked_twist)
  moreover have "t_nodes (locked T b nb) a = Some nd" using \<open>a \<noteq> b\<close> Cons.prems(2) by (simp add: put_node_def)
  ultimately have "bgp_unlock_node ?T1 a = Inr (locked T b nb)"
    using unlock_locked [of "locked T b nb" a nd] l [unfolded lock_inv_def] Cons.prems(2) by simp
  then have "bgp_route_next (locked T a nd) a = Inr (Some b, locked T b nb)"
    using next_of_locked [OF t Cons.prems(1,2)] lb by (simp add: bgp_route_next_def bgp_route_next_until_def)
  then show ?case
    using Cons.IH [of "xs @ [a]" b nb k'] Cons.prems b(1) k by simp
qed

text \<open>C7: the loop \<^verbatim>\<open>bgp_table_top\<close> / \<^verbatim>\<open>bgp_route_next\<close> over a well-formed table ends, visits
  every node of the table exactly once and leaves the table, reference counts included, as
  it was.\<close>

theorem visit_all_nodes:
  assumes "table_inv f T" "lock_inv T"
  shows "\<exists>xs. visit_all T = Inr (xs, T) \<and> distinct xs \<and> set xs = dom (t_nodes T)"
proof -
  obtain t where t: "table_rep T t" "bits_ok f [] t" using assms(1) by (auto simp: table_inv_def)
  have d: "distinct (addrs t)" "set (addrs t) = dom (t_nodes T)" "t_top T = root t"
    using t(1) by (simp_all add: table_rep_def)
  have "visit_all T = Inr (addrs t, T)"
  proof (cases t)
    case Lf
    then show ?thesis using d(3) by (simp add: visit_all_def bgp_table_top_def)
  next
    case (Nd a p i lk l r)
    then obtain nd where nd: "t_nodes T a = Some nd" using d(2) by fastforce
    have "length (addrs l @ addrs r) + 1 < Suc (Suc (t_next T))"
      using fuel_bound [OF t(1)] by (simp add: Nd)
    then have "visit (Suc (Suc (t_next T))) (locked T a nd) (Some a) = Inr (a # addrs l @ addrs r, T)"
      using nd by (intro visit_eq [OF t assms(2), of "[]"]) (simp_all add: Nd)
    then show ?thesis using d(3) lock_locked [OF nd] by (simp add: visit_all_def bgp_table_top_def Nd)
  qed
  with d show ?thesis by blast
qed

lemma single_lock_inv: "lock_inv (single_table q info)"
  by (simp add: lock_inv_def single_table_def)

theorem visit_all_nodes_witness:
  "visit_all (single_table \<lparr>pfx_family = AF_INET, pfx_len = 8, pfx_u = [10] @ replicate 15 0\<rparr> [[7 :: nat]])
     = Inr ([0], single_table \<lparr>pfx_family = AF_INET, pfx_len = 8, pfx_u = [10] @ replicate 15 0\<rparr> [[7]])"
proof -
  let ?q = "\<lparr>pfx_family = AF_INET, pfx_len = 8, pfx_u = [10] @ replicate 15 (0 :: byte)\<rparr>"
  have "table_inv AF_INET (single_table ?q [[7 :: nat]])"
    using single_table_inv [of ?q "[[7 :: nat]]"] by (simp add: wf_prefix_def)
  from visit_all_nodes [OF this single_lock_inv] obtain xs where
    xs: "visit_all (single_table ?q [[7 :: nat]]) = Inr (xs, single_table ?q [[7]])" "distinct xs" "set xs = {0}"
    by (auto simp: single_table_def)
  then have "xs = [0]" by (cases xs; cases "tl xs") auto
  with xs(1) show ?thesis by simp
qed

section \<open>Release\<close>

abbreviation only_child :: "'i trie \<Rightarrow> 'i trie \<Rightarrow> 'i trie" where
  "only_child l r \<equiv> if l \<noteq> Lf then l else r"

fun prune :: "'i frame list \<Rightarrow> 'i trie \<Rightarrow> 'i trie" where
  "prune c Lf = plug c Lf"
| "prune [] (Nd a p i lk l r) = (if l \<noteq> Lf \<and> r \<noteq> Lf then Nd a p i lk l r else only_child l r)"
| "prune (Fr b q j lk' d sib # c) (Nd a p i lk l r) =
     (if l \<noteq> Lf \<and> r \<noteq> Lf then plug (Fr b q j lk' d sib # c) (Nd a p i lk l r)
      else if lk' = 0 then prune c (plug1 (Fr b q j lk' d sib) (only_child l r))
      else plug (Fr b q j lk' d sib # c) (only_child l r))"

lemma bits_ok_mono: "bits_ok f pre t \<Longrightarrow> prefix pre' pre \<Longrightarrow> bits_ok f pre' t"
  by (cases t) (auto intro: prefix_order.trans)

lemma only_child_bits:
  assumes "bits_ok f [] (plug c (Nd a p i lk l r))"
  shows "bits_ok f [] (plug c (only_child l r))"
proof -
  have "bits_ok f (pfx_bits p @ [False]) l" "bits_ok f (pfx_bits p @ [True]) r" "ctx_ok f c" "prefix (ctx_bits c) (pfx_bits p)"
    using assms by (simp_all add: bits_ok_plug)
  moreover from this have "prefix (ctx_bits c) (pfx_bits p @ [d])" for d by (simp add: prefix_order.trans)
  ultimately show ?thesis by (auto simp: bits_ok_plug intro: bits_ok_mono)
qed

lemma prune_lock_ok:
  "lock_ctx c \<Longrightarrow> no_routes i \<Longrightarrow> lock_ok l \<Longrightarrow> lock_ok r \<Longrightarrow> lock_ok (prune c (Nd a p i 0 l r))"
proof (induction c arbitrary: a p i l r)
  case (Cons fr c)
  obtain b q j lk' d sib where fr: "fr = Fr b q j lk' d sib" by (cases fr)
  show ?case
  proof (cases "l \<noteq> Lf \<and> r \<noteq> Lf")
    case True
    then show ?thesis using Cons.prems by (auto simp: fr lock_ok_plug)
  next
    case False
    then show ?thesis
      using Cons.prems Cons.IH [of j sib "only_child l r" b q] Cons.IH [of j "only_child l r" sib b q]
      by (auto simp: fr lock_ok_plug)
  qed
qed auto

lemma prune_keeps_routes:
  "lock_ctx c \<Longrightarrow> no_routes i \<Longrightarrow> (x, y, z) \<in> set (tnodes (plug c (Nd a p i 0 l r))) \<Longrightarrow>
     (x, y, z) \<in> set (tnodes (prune c (Nd a p i 0 l r))) \<or> no_routes z"
proof (induction c arbitrary: a p i l r)
  case (Cons fr c)
  obtain b q j lk' d sib where fr: "fr = Fr b q j lk' d sib" by (cases fr)
  show ?case
  proof (cases "l \<noteq> Lf \<and> r \<noteq> Lf \<or> lk' \<noteq> 0")
    case True
    then show ?thesis using Cons.prems by (auto simp: fr set_tnodes_plug)
  next
    case False
    then have "(x, y, z) \<in> set (tnodes (plug c (plug1 fr (only_child l r)))) \<or> no_routes z"
      using Cons.prems by (auto simp: fr set_tnodes_plug)
    moreover have "prune (fr # c) (Nd a p i 0 l r) = prune c (plug1 fr (only_child l r))"
      using False by (auto simp: fr)
    ultimately show ?thesis
      using False Cons.prems(1) Cons.IH [of j b q sib "only_child l r"] Cons.IH [of j b q "only_child l r" sib]
      by (cases d) (auto simp: fr)
  qed
qed auto

lemma prune_subset: "set (tnodes (prune c t)) \<subseteq> set (tnodes (plug c t))"
proof (induction c t rule: prune.induct)
  case (3 b q j lk' d sib c a p i lk l r)
  then show ?case by (auto simp: set_tnodes_plug split: if_splits)
qed auto

text \<open>Unlinking a node with at most one child.\<close>

definition reparent :: "'i trie \<Rightarrow> addr option \<Rightarrow> (addr \<Rightarrow> 'i bgp_node option) \<Rightarrow> (addr \<Rightarrow> 'i bgp_node option)" where
  "reparent s par h = (case s of Lf \<Rightarrow> h | Nd b q j lk l r \<Rightarrow> h(b := Some (mk_node q par (root l) (root r) j lk)))"

lemma unlink_node_eq:
  assumes pre: "insert_pre f T c (Nd a p i lk l r) q" and one: "l = Lf \<or> r = Lf"
  shows "unlink_node T a (mk_node p (ctx_top c) (root l) (root r) i lk) =
    Inr (T\<lparr>t_top := (if c = [] then root (only_child l r) else t_top T), t_count := t_count T - 1,
           t_nodes := (relink c (root (only_child l r)) (reparent (only_child l r) (ctx_top c) (t_nodes T)))(a := None)\<rparr>)"
proof -
  note D = insert_preD [OF pre]
  define s where "s = only_child l r"
  define h where "h = reparent s (ctx_top c) (t_nodes T)"
  have ch: "(if root l \<noteq> None then root l else root r) = root s" by (auto simp: s_def)
  have ss: "set (addrs s) \<subseteq> set (addrs (Nd a p i lk l r))" by (auto simp: s_def)
  have t1: "(case root s of None \<Rightarrow> Inr T
      | Some c' \<Rightarrow> rbind (get_node T c') (\<lambda>cn. Inr (put_node T c' (cn\<lparr>n_parent := ctx_top c\<rparr>)))) = Inr (T\<lparr>t_nodes := h\<rparr>)"
    using D(2) by (cases s) (auto simp: h_def reparent_def get_node_def put_node_def s_def split: if_splits)
  have h: "h x = t_nodes T x" if "x \<in> set (ctx_addrs c)" for x
    using that ss D(7) by (cases s) (auto simp: h_def reparent_def)
  have t2: "(case ctx_top c of None \<Rightarrow> Inr (T\<lparr>t_nodes := h, t_top := root s\<rparr>)
      | Some pa \<Rightarrow> rbind (get_node (T\<lparr>t_nodes := h\<rparr>) pa) (\<lambda>pn. Inr (put_node (T\<lparr>t_nodes := h\<rparr>) pa
          (if n_left pn = Some a then pn\<lparr>n_left := root s\<rparr> else pn\<lparr>n_right := root s\<rparr>)))) =
      Inr (T\<lparr>t_top := (if c = [] then root s else t_top T), t_nodes := relink c (root s) h\<rparr>)"
  proof (cases c)
    case (Cons fr c')
    obtain pa pq pi plk d sib where fr: "fr = Fr pa pq pi plk d sib" by (cases fr)
    have "root sib \<noteq> Some a" using D(7) by (cases sib) (auto simp: Cons fr)
    then show ?thesis
      using D(1) h [of pa] by (auto simp: Cons fr get_node_def put_node_def)
  qed simp
  show ?thesis
    unfolding unlink_node_def Let_def mk_node_sel ch t1 rbind_simps
    using t2 by (simp add: s_def h_def)
qed

lemma unlink_rep:
  assumes pre: "insert_pre f T c (Nd a p i lk l r) q" and one: "l = Lf \<or> r = Lf"
  shows "\<exists>T'. unlink_node T a (mk_node p (ctx_top c) (root l) (root r) i lk) = Inr T' \<and>
    table_rep T' (plug c (only_child l r)) \<and> t_next T' = t_next T"
proof -
  note D = insert_preD [OF pre]
  define s where "s = only_child l r"
  define h where "h = reparent s (ctx_top c) (t_nodes T)"
  define T' where "T' = T\<lparr>t_top := (if c = [] then root s else t_top T), t_count := t_count T - 1,
      t_nodes := (relink c (root s) h)(a := None)\<rparr>"
  have as: "set (addrs (Nd a p i lk l r)) = insert a (set (addrs s))" "a \<notin> set (addrs s)"
      "length (addrs (Nd a p i lk l r)) = Suc (length (addrs s))" "distinct (addrs s)"
    using one D(5) by (auto simp: s_def)
  have hx: "h x = t_nodes T x" if "x \<notin> set (addrs s)" for x
    using that by (cases s) (auto simp: h_def reparent_def)
  have rs: "rep h (ctx_top c) s"
  proof (cases s)
    case (Nd b q' j lk' l' r')
    have "rep (t_nodes T) (Some a) s" using D(2) one by (auto simp: s_def)
    moreover have "h = (t_nodes T)(b := Some (mk_node q' (ctx_top c) (root l') (root r') j lk'))"
      unfolding h_def reparent_def Nd by simp
    ultimately show ?thesis
      using as(4) unfolding Nd by (elim rep_reparent) auto
  qed simp
  have run: "unlink_node T a (mk_node p (ctx_top c) (root l) (root r) i lk) = Inr T'"
    using unlink_node_eq [OF pre one] by (simp add: T'_def h_def s_def)
  have disj: "set (addrs s) \<inter> set (ctx_addrs c) = {}" "a \<notin> set (ctx_addrs c)" using D(7) as(1) by auto
  have cx: "relink c y h x = relink c y (t_nodes T) x" if "x \<in> set (ctx_addrs c)" for x y
    using that hx [of x] disj(1) by (cases c rule: ctx_top.cases) auto
  have dh: "dom h = dom (t_nodes T)"
    using D(2,8) one by (cases s) (auto simp: h_def reparent_def s_def split: if_splits)
  have "rep_ctx h c (Some a)"
    using D(1) hx disj by (subst rep_ctx_cong [of c h "t_nodes T"]) auto
  then have dr: "dom (relink c (root s) h) = dom (t_nodes T)" using dh by (simp add: dom_relink)
  have "table_rep T' (plug c s)"
  proof (rule table_rep_replace [of T c "Nd a p i lk l r"])
    show "table_rep T (plug c (Nd a p i lk l r))" using pre by (simp add: insert_pre_def)
    show "rep (t_nodes T') (ctx_top c) s"
      using rs as(2) disj(1) by (subst rep_cong [of s _ h]) (auto simp: T'_def intro!: relink_other)
    show "dom (t_nodes T') = set (addrs s) \<union> set (ctx_addrs c)"
      using dr D(8) as(1,2) disj(2) by (auto simp: T'_def)
    show "t_count T' + word_of_nat (length (addrs (Nd a p i lk l r))) = t_count T + word_of_nat (length (addrs s))"
      unfolding as(3) by (simp add: T'_def)
    fix x assume "x \<in> set (ctx_addrs c)"
    then show "t_nodes T' x = relink c (root s) (t_nodes T) x" using cx disj(2) by (auto simp: T'_def)
  qed (use as(1,4) disj(1) D(9) in \<open>auto simp: T'_def\<close>)
  with run show ?thesis by (auto simp: s_def [symmetric] T'_def)
qed

lemma delete_refines:
  assumes "table_rep T (plug c (Nd a p i 0 l r))" "bits_ok f [] (plug c (Nd a p i 0 l r))"
    "lock_ctx c" "no_routes i" "length c < k"
  shows "\<exists>T'. bgp_node_delete k T a = Inr T' \<and> table_rep T' (prune c (Nd a p i 0 l r)) \<and>
     bits_ok f [] (prune c (Nd a p i 0 l r))"
  using assms
proof (induction c arbitrary: T a p i l r k)
  case Nil
  have pre: "insert_pre f T [] (Nd a p i 0 l r) p" using Nil.prems by (intro focus_pre) simp_all
  have nd: "get_node T a = Inr (mk_node p None (root l) (root r) i 0)"
    using insert_preD(2) [OF pre] by (simp add: get_node_def)
  obtain k' where k: "k = Suc k'" using Nil.prems(5) by (cases k) auto
  show ?case
  proof (cases "l \<noteq> Lf \<and> r \<noteq> Lf")
    case False
    then obtain T' where "unlink_node T a (mk_node p None (root l) (root r) i 0) = Inr T'" "table_rep T' (only_child l r)"
      using unlink_rep [OF pre] by auto
    then show ?thesis
      using False Nil.prems(4) only_child_bits [OF Nil.prems(2)] nd
      by (auto simp: k rassert_def no_routes_def)
  qed (use Nil.prems nd in \<open>auto simp: k rassert_def no_routes_def\<close>)
next
  case (Cons fr c)
  obtain b q j lk' d sib where fr: "fr = Fr b q j lk' d sib" by (cases fr)
  have pre: "insert_pre f T (fr # c) (Nd a p i 0 l r) p" using Cons.prems by (intro focus_pre) simp_all
  have nd: "get_node T a = Inr (mk_node p (Some b) (root l) (root r) i 0)"
    using insert_preD(2) [OF pre] by (simp add: get_node_def fr)
  obtain k' where k: "k = Suc k'" using Cons.prems(5) by (cases k) auto
  show ?case
  proof (cases "l \<noteq> Lf \<and> r \<noteq> Lf")
    case True
    then show ?thesis
      using Cons.prems(1,2,4) nd by (auto simp: k rassert_def no_routes_def fr)
  next
    case False
    let ?s = "only_child l r"
    obtain T1 where run: "unlink_node T a (mk_node p (Some b) (root l) (root r) i 0) = Inr T1"
        and rep: "table_rep T1 (plug (fr # c) ?s)"
      using unlink_rep [OF pre] False by (auto simp: fr)
    have bits: "bits_ok f [] (plug (fr # c) ?s)" using only_child_bits [OF Cons.prems(2)] .
    let ?n = "plug1 fr ?s"
    have rp: "table_rep T1 (plug c ?n)" "bits_ok f [] (plug c ?n)" using rep bits by simp_all
    have gb: "get_node T1 b = Inr (mk_node q (ctx_top c) (if d then root sib else root ?s) (if d then root ?s else root sib) j lk')"
      using rp(1) by (cases d) (auto simp: table_rep_def rep_plug get_node_def fr)
    have step: "bgp_node_delete k T a = (if lk' = 0 then bgp_node_delete k' T1 b else Inr T1)"
      using False Cons.prems(4) nd run gb by (auto simp: k rassert_def no_routes_def)
    show ?thesis
    proof (cases "lk' = 0")
      case True
      have "\<exists>T'. bgp_node_delete k' T1 b = Inr T' \<and> table_rep T' (prune c ?n) \<and> bits_ok f [] (prune c ?n)"
        using Cons.IH [of T1 b q j sib ?s k'] Cons.IH [of T1 b q j ?s sib k'] rp Cons.prems(3,5) True k
        by (cases d) (auto simp: fr)
      then show ?thesis using True False step by (auto simp: fr)
    next
      case nz: False
      then show ?thesis using False step rep bits by (auto simp: fr)
    qed
  qed
qed

lemma change_node_rep:
  assumes "table_rep T (plug c (Nd a p i lk l r))" "bits_ok f [] (plug c (Nd a p i lk l r))"
  shows "table_rep (put_node T a (mk_node p (ctx_top c) (root l) (root r) i' lk')) (plug c (Nd a p i' lk' l r))"
proof -
  note D = insert_preD [OF focus_pre [OF assms]]
  let ?T' = "put_node T a (mk_node p (ctx_top c) (root l) (root r) i' lk')"
  have nodes: "t_nodes ?T' x = (if x = a then Some (mk_node p (ctx_top c) (root l) (root r) i' lk') else t_nodes T x)" for x
    by (simp add: put_node_def)
  have "rep (t_nodes ?T') (Some a) l = rep (t_nodes T) (Some a) l" "rep (t_nodes ?T') (Some a) r = rep (t_nodes T) (Some a) r"
    using D(5) by (auto intro!: rep_cong simp: nodes)
  then have rs: "rep (t_nodes ?T') (ctx_top c) (Nd a p i' lk' l r)" using D(2) by (simp add: nodes)
  have rl: "relink c (Some a) (t_nodes T) = t_nodes T"
    using D(1) by (cases c rule: ctx_top.cases) (auto simp: fun_upd_idem)
  have same: "t_top ?T' = t_top T" "t_count ?T' = t_count T" "t_next ?T' = t_next T"
    by (simp_all add: put_node_def)
  show ?thesis
  proof (rule table_rep_replace [of T c "Nd a p i lk l r"])
    show "dom (t_nodes ?T') = set (addrs (Nd a p i' lk' l r)) \<union> set (ctx_addrs c)"
      using D(8) by (auto simp: put_node_def)
    show "t_top ?T' = (if c = [] then root (Nd a p i' lk' l r) else t_top T)"
      using assms(1) by (auto simp: same table_rep_def)
    fix x assume "x \<in> set (ctx_addrs c)"
    then have "x \<noteq> a" using D(7) by auto
    then show "t_nodes ?T' x = relink c (root (Nd a p i' lk' l r)) (t_nodes T) x" by (simp add: nodes rl)
  qed (use assms(1) D(5,7,9) rs same in \<open>simp_all\<close>)
qed

lemma bgp_unlock_node_all:
  assumes inv: "table_inv f T" "lock_inv T"
    and a: "t_nodes T a = Some nd" "n_lock nd \<noteq> 0" "n_lock nd = 1 \<longrightarrow> no_routes (n_info nd)"
  shows "\<exists>T'. bgp_unlock_node T a = Inr T' \<and> table_inv f T' \<and> lock_inv T' \<and>
     (\<forall>x nd'. t_nodes T' x = Some nd' \<longrightarrow>
        (\<exists>nd0. t_nodes T x = Some nd0 \<and> n_p nd' = n_p nd0 \<and> n_info nd' = n_info nd0)) \<and>
     (\<forall>x nd0. t_nodes T x = Some nd0 \<longrightarrow> t_nodes T' x = None \<longrightarrow> no_routes (n_info nd0))"
proof -
  obtain t where t: "table_rep T t" "bits_ok f [] t" using inv(1) by (auto simp: table_inv_def)
  obtain c p i lk l r where c: "t = plug c (Nd a p i lk l r)" "nd = mk_node p (ctx_top c) (root l) (root r) i lk"
    using table_focus [OF t(1) a(1)] .
  have lo: "lock_ctx c" "lock_ok l" "lock_ok r"
    using inv(2) lock_inv_iff [OF t(1)] by (simp_all add: c(1) lock_ok_plug)
  let ?s = "Nd a p i (lk - 1) l r"
  define T1 where "T1 = put_node T a (mk_node p (ctx_top c) (root l) (root r) i (lk - 1))"
  have rep1: "table_rep T1 (plug c ?s)"
    using change_node_rep [OF t [unfolded c(1)], of i "lk - 1"] by (simp add: T1_def)
  have bits1: "bits_ok f [] (plug c ?s)" using t(2) by (simp add: c(1) bits_ok_plug)
  have nodes1: "set (tnodes (plug c ?s)) = set (tnodes t)" by (simp add: c(1) set_tnodes_plug)
  have un: "bgp_unlock_node T a = (if lk - 1 = 0 then bgp_node_delete (Suc (t_next T)) T1 a else Inr T1)"
    using a(1) by (simp only: bgp_unlock_node_def get_node_def option.case rbind_simps Let_def c(2) mk_node_sel mk_node_upd T1_def)
  obtain T' t' where T': "bgp_unlock_node T a = Inr T'" "table_rep T' t'" "bits_ok f [] t'" "lock_ok t'"
      and sub: "set (tnodes t') \<subseteq> set (tnodes t)"
      and keep: "\<And>x y z. (x, y, z) \<in> set (tnodes t) \<Longrightarrow> (x, y, z) \<in> set (tnodes t') \<or> no_routes z"
  proof (cases "lk = 1")
    case True
    then have nr: "no_routes i" using a(3) c(2) by simp
    have "length c < Suc (t_next T)"
      using fuel_bound [OF t(1)] length_ctx [of c] by (simp add: c(1) length_addrs_plug)
    then obtain T' where "bgp_node_delete (Suc (t_next T)) T1 a = Inr T'"
        "table_rep T' (prune c ?s)" "bits_ok f [] (prune c ?s)"
      using delete_refines [of T1 c a p i l r f "Suc (t_next T)"] rep1 bits1 lo(1) nr True by auto
    moreover have "lock_ok (prune c ?s)" using prune_lock_ok lo nr True by simp
    ultimately show ?thesis
      using that [of T' "prune c ?s"] un True prune_subset [of c ?s] nodes1 nr
        prune_keeps_routes [OF lo(1) nr, of _ _ _ a p l r] by simp
  next
    case False
    then have "lock_ok (plug c ?s)" using lo by (simp add: lock_ok_plug)
    with False show ?thesis using that [of T1 "plug c ?s"] un rep1 bits1 nodes1 by simp
  qed
  have "\<exists>nd0. t_nodes T x = Some nd0 \<and> n_p nd' = n_p nd0 \<and> n_info nd' = n_info nd0" if "t_nodes T' x = Some nd'" for x nd'
    using table_rep_nodes(1) [OF T'(2) that] table_rep_nodes(2) [OF t(1), of x "n_p nd'" "n_info nd'"] sub by force
  moreover have "no_routes (n_info nd0)" if "t_nodes T x = Some nd0" "t_nodes T' x = None" for x nd0
    using keep [OF table_rep_nodes(1) [OF t(1) that(1)]] table_rep_nodes(2) [OF T'(2)] that(2) by fastforce
  ultimately show ?thesis
    using T' lock_inv_iff [OF T'(2)] by (intro exI [of _ T']) (auto simp: table_inv_def)
qed

text \<open>C6: releasing a held node of a well-formed table. The unlock succeeds, with no assertion
  failure and no access to freed memory; the table stays well formed and its unlocked nodes
  stay branching points; no node changes its prefix or its routes, and only nodes without
  routes are freed.\<close>

theorem bgp_unlock_node_correct:
  assumes inv: "table_inv f T" "lock_inv T"
    and a: "t_nodes T a = Some nd" "n_lock nd \<noteq> 0" "n_lock nd = 1 \<longrightarrow> no_routes (n_info nd)"
  shows "\<exists>T'. bgp_unlock_node T a = Inr T' \<and> table_inv f T' \<and> lock_inv T' \<and>
     (\<forall>x nd'. t_nodes T' x = Some nd' \<longrightarrow>
        (\<exists>nd0. t_nodes T x = Some nd0 \<and> n_p nd' = n_p nd0 \<and> n_info nd' = n_info nd0)) \<and>
     (\<forall>x nd0. t_nodes T x = Some nd0 \<longrightarrow> t_nodes T' x = None \<longrightarrow> no_routes (n_info nd0))"
  using bgp_unlock_node_all [OF assms] .

theorem bgp_unlock_node_correct_witness:
  "\<exists>T'. bgp_unlock_node (single_table \<lparr>pfx_family = AF_INET, pfx_len = 8, pfx_u = [10] @ replicate 15 0\<rparr>
       [[], [] :: nat list]) 0 = Inr T' \<and> table_inv AF_INET T'"
proof -
  let ?q = "\<lparr>pfx_family = AF_INET, pfx_len = 8, pfx_u = [10] @ replicate 15 (0 :: byte)\<rparr>"
  have "table_inv AF_INET (single_table ?q [[], [] :: nat list])"
    using single_table_inv [of ?q "[[], [] :: nat list]"] by (simp add: wf_prefix_def)
  from bgp_unlock_node_correct [OF this single_lock_inv, of 0 "mk_node ?q None None None [[], []] 1"]
  show ?thesis by (auto simp: single_table_def no_routes_def)
qed

end
