(* ===== verification/Jhash.thy ===== *)
theory Jhash
  imports Prelude
begin

text \<open>
  Model of \<^verbatim>\<open>src/src/jhash.h\<close>, the hash function of the AS path, the fragment and the
  flow tables. A key is a list of bytes or of words; reading past its end is an
  \<^const>\<open>Out_Of_Bounds\<close>. The fall-through switches on the rest of the key are conditionals on
  its length.
\<close>

section \<open>Model\<close>

definition JHASH_GOLDEN_RATIO :: u32 where "JHASH_GOLDEN_RATIO = 0x9e3779b9"

definition jhash_mix :: "u32 \<Rightarrow> u32 \<Rightarrow> u32 \<Rightarrow> u32 \<times> u32 \<times> u32" where
  "jhash_mix a b c =
     (let a = (a - b - c) XOR drop_bit 13 c;
          b = (b - c - a) XOR push_bit 8 a;
          c = (c - a - b) XOR drop_bit 13 b;
          a = (a - b - c) XOR drop_bit 12 c;
          b = (b - c - a) XOR push_bit 16 a;
          c = (c - a - b) XOR drop_bit 5 b;
          a = (a - b - c) XOR drop_bit 3 c;
          b = (b - c - a) XOR push_bit 10 a;
          c = (c - a - b) XOR drop_bit 15 b
      in (a, b, c))"

definition rd_shl :: "byte list \<Rightarrow> nat \<Rightarrow> nat \<Rightarrow> u32 res" where
  "rd_shl k i s = rbind (rd8 k i) (\<lambda>x. Inr (push_bit s (ucast x)))"

text \<open>\<^verbatim>\<open>k[i] + (k[i+1]<<8) + (k[i+2]<<16) + (k[i+3]<<24)\<close>\<close>

definition rd_le32 :: "byte list \<Rightarrow> nat \<Rightarrow> u32 res" where
  "rd_le32 k i =
     rbind (rd_shl k i 0) (\<lambda>x0. rbind (rd_shl k (i + 1) 8) (\<lambda>x1.
     rbind (rd_shl k (i + 2) 16) (\<lambda>x2. rbind (rd_shl k (i + 3) 24) (\<lambda>x3. Inr (x0 + x1 + x2 + x3)))))"

text \<open>A case of the switch: when at least \<open>n\<close> bytes are left, byte \<open>n - 1\<close> is added in.\<close>

definition tail_byte :: "byte list \<Rightarrow> nat \<Rightarrow> nat \<Rightarrow> nat \<Rightarrow> u32 \<Rightarrow> u32 res" where
  "tail_byte k len n s x = (if len \<ge> n then rbind (rd_shl k (n - 1) s) (\<lambda>y. Inr (x + y)) else Inr x)"

function jhash_loop :: "byte list \<Rightarrow> nat \<Rightarrow> u32 \<Rightarrow> u32 \<Rightarrow> u32 \<Rightarrow> (byte list \<times> nat \<times> u32 \<times> u32 \<times> u32) res" where
  "jhash_loop k len a b c =
     (if len \<ge> 12 then
        rbind (rd_le32 k 0) (\<lambda>x. rbind (rd_le32 k 4) (\<lambda>y. rbind (rd_le32 k 8) (\<lambda>z.
          case jhash_mix (a + x) (b + y) (c + z) of (a, b, c) \<Rightarrow> jhash_loop (drop 12 k) (len - 12) a b c)))
      else Inr (k, len, a, b, c))"
  by pat_completeness auto
termination
  by (relation "measure (\<lambda>(k, len, a, b, c). len)") auto

declare jhash_loop.simps [simp del]

definition jhash :: "byte list \<Rightarrow> u32 \<Rightarrow> u32 \<Rightarrow> u32 res" where
  "jhash key len initval =
     rbind (jhash_loop key (unat len) JHASH_GOLDEN_RATIO JHASH_GOLDEN_RATIO initval) (\<lambda>(k, l, a, b, c).
     rbind (tail_byte k l 11 24 (c + len)) (\<lambda>c. rbind (tail_byte k l 10 16 c) (\<lambda>c. rbind (tail_byte k l 9 8 c) (\<lambda>c.
     rbind (tail_byte k l 8 24 b) (\<lambda>b. rbind (tail_byte k l 7 16 b) (\<lambda>b. rbind (tail_byte k l 6 8 b) (\<lambda>b.
     rbind (tail_byte k l 5 0 b) (\<lambda>b. rbind (tail_byte k l 4 24 a) (\<lambda>a. rbind (tail_byte k l 3 16 a) (\<lambda>a.
     rbind (tail_byte k l 2 8 a) (\<lambda>a. rbind (tail_byte k l 1 0 a) (\<lambda>a.
       case jhash_mix a b c of (a, b, c) \<Rightarrow> Inr c))))))))))))"

definition rd32 :: "u32 list \<Rightarrow> nat \<Rightarrow> u32 res" where
  "rd32 k i = (if i < length k then Inr (k ! i) else Inl Out_Of_Bounds)"

function jhash2_loop :: "u32 list \<Rightarrow> nat \<Rightarrow> u32 \<Rightarrow> u32 \<Rightarrow> u32 \<Rightarrow> (u32 list \<times> nat \<times> u32 \<times> u32 \<times> u32) res" where
  "jhash2_loop k len a b c =
     (if len \<ge> 3 then
        rbind (rd32 k 0) (\<lambda>x. rbind (rd32 k 1) (\<lambda>y. rbind (rd32 k 2) (\<lambda>z.
          case jhash_mix (a + x) (b + y) (c + z) of (a, b, c) \<Rightarrow> jhash2_loop (drop 3 k) (len - 3) a b c)))
      else Inr (k, len, a, b, c))"
  by pat_completeness auto
termination
  by (relation "measure (\<lambda>(k, len, a, b, c). len)") auto

declare jhash2_loop.simps [simp del]

definition jhash2 :: "u32 list \<Rightarrow> u32 \<Rightarrow> u32 \<Rightarrow> u32 res" where
  "jhash2 key len initval =
     rbind (jhash2_loop key (unat len) JHASH_GOLDEN_RATIO JHASH_GOLDEN_RATIO initval) (\<lambda>(k, l, a, b, c).
     rbind (if l \<ge> 2 then rbind (rd32 k 1) (\<lambda>y. Inr (b + y)) else Inr b) (\<lambda>b.
     rbind (if l \<ge> 1 then rbind (rd32 k 0) (\<lambda>x. Inr (a + x)) else Inr a) (\<lambda>a.
       case jhash_mix a b (c + len * 4) of (a, b, c) \<Rightarrow> Inr c)))"

definition jhash_3words :: "u32 \<Rightarrow> u32 \<Rightarrow> u32 \<Rightarrow> u32 \<Rightarrow> u32" where
  "jhash_3words a b c initval =
     (case jhash_mix (a + JHASH_GOLDEN_RATIO) (b + JHASH_GOLDEN_RATIO) (c + initval) of (a, b, c) \<Rightarrow> c)"

definition jhash_2words :: "u32 \<Rightarrow> u32 \<Rightarrow> u32 \<Rightarrow> u32" where
  "jhash_2words a b initval = jhash_3words a b 0 initval"

definition jhash_1word :: "u32 \<Rightarrow> u32 \<Rightarrow> u32" where
  "jhash_1word a initval = jhash_3words a 0 0 initval"

section \<open>Hashing stays inside the key\<close>

lemma tail_byte_total: "l \<le> length k \<Longrightarrow> n \<noteq> 0 \<Longrightarrow> \<exists>y. tail_byte k l n s x = Inr y"
  by (auto simp: tail_byte_def rd_shl_def)

lemma jhash_loop_total:
  "len \<le> length k \<Longrightarrow> \<exists>k' l a' b' c'. jhash_loop k len a b c = Inr (k', l, a', b', c') \<and> l \<le> length k'"
proof (induction k len a b c rule: jhash_loop.induct)
  case (1 k len a b c)
  show ?case
  proof (cases "12 \<le> len")
    case True
    then have rd: "rd_le32 k 0 \<in> range Inr" "rd_le32 k 4 \<in> range Inr" "rd_le32 k 8 \<in> range Inr"
      using "1.prems" by (auto simp: rd_le32_def rd_shl_def rd8_def)
    then obtain x y z where xyz: "rd_le32 k 0 = Inr x" "rd_le32 k 4 = Inr y" "rd_le32 k 8 = Inr z" by blast
    obtain a' b' c' where m: "jhash_mix (a + x) (b + y) (c + z) = (a', b', c')" by (metis prod_cases3)
    have "jhash_loop k len a b c = jhash_loop (drop 12 k) (len - 12) a' b' c'"
      using True xyz m by (subst jhash_loop.simps) simp
    then show ?thesis using "1.IH" [OF True xyz m [symmetric] refl] "1.prems" True by simp
  next
    case False
    then show ?thesis using "1.prems" by (subst jhash_loop.simps) simp
  qed
qed

lemma jhash_total:
  assumes "unat len \<le> length key"
  shows "\<exists>h. jhash key len initval = Inr h"
proof -
  obtain k l a b c where loop: "jhash_loop key (unat len) JHASH_GOLDEN_RATIO JHASH_GOLDEN_RATIO initval = Inr (k, l, a, b, c)"
      and l: "l \<le> length k"
    using jhash_loop_total [OF assms] by blast
  show ?thesis
    unfolding jhash_def loop rbind_simps prod.case
    by (intro rbind_totalI tail_byte_total [OF l]) (simp_all add: case_prod_beta)
qed

section \<open>The word version hashes the same bytes\<close>

definition le_bytes :: "u32 \<Rightarrow> byte list" where
  "le_bytes w = [ucast w, ucast (drop_bit 8 w), ucast (drop_bit 16 w), ucast (drop_bit 24 w)]"

lemma length_le_bytes [simp]: "length (le_bytes w) = 4"
  by (simp add: le_bytes_def)

lemma le_bytes_sum:
  "push_bit 0 (ucast (ucast w :: byte)) + push_bit 8 (ucast (ucast (drop_bit 8 w) :: byte)) +
   push_bit 16 (ucast (ucast (drop_bit 16 w) :: byte)) + push_bit 24 (ucast (ucast (drop_bit 24 w) :: byte)) = (w :: u32)"
proof -
  let ?b = "\<lambda>n. push_bit n (ucast (ucast (drop_bit n w) :: byte)) :: u32"
  have b: "bit (?b n) i \<longleftrightarrow> n \<le> i \<and> i < n + 8 \<and> i < 32 \<and> bit w i" for n i
    by (auto simp: bit_push_bit_iff bit_ucast_iff bit_drop_bit_eq)
  have d1: "?b 0 + ?b 8 = ?b 0 OR ?b 8"
    by (rule disjunctive_add) (simp only: b, auto)
  have d2: "(?b 0 OR ?b 8) + ?b 16 = ?b 0 OR ?b 8 OR ?b 16"
    by (subst disjunctive_add) (simp_all only: b bit_or_iff, auto simp: or.assoc)
  have d3: "(?b 0 OR ?b 8 OR ?b 16) + ?b 24 = ?b 0 OR ?b 8 OR ?b 16 OR ?b 24"
    by (subst disjunctive_add) (simp_all only: b bit_or_iff, auto simp: or.assoc)
  have "?b 0 OR ?b 8 OR ?b 16 OR ?b 24 = w"
    by (rule bit_word_eqI) (simp only: bit_or_iff b, auto)
  then show ?thesis using d1 d2 d3 by simp
qed

definition words_bytes :: "u32 list \<Rightarrow> byte list" where
  "words_bytes ks = concat (map le_bytes ks)"

lemma words_bytes_simps [simp]:
  "words_bytes [] = []" "words_bytes (w # ks) = le_bytes w @ words_bytes ks" "length (words_bytes ks) = 4 * length ks"
  by (simp_all add: words_bytes_def) (induction ks; simp)

lemma drop_words_bytes: "drop (4 * n) (words_bytes ks) = words_bytes (drop n ks)"
proof (induction n arbitrary: ks)
  case (Suc n)
  then show ?case by (cases ks) simp_all
qed simp

lemma rd_le32_words:
  assumes "i < length ks"
  shows "rd_le32 (words_bytes ks) (4 * i) = Inr (ks ! i)"
proof -
  have d: "drop (4 * i) (words_bytes ks) = le_bytes (ks ! i) @ words_bytes (drop (Suc i) ks)"
    using assms by (simp add: drop_words_bytes Cons_nth_drop_Suc [symmetric])
  have n: "words_bytes ks ! (4 * i + j) = le_bytes (ks ! i) ! j" if "j < 4" for j
    using arg_cong [OF d, of "\<lambda>xs. xs ! j"] that assms by (simp add: nth_append)
  have "rd8 (words_bytes ks) (4 * i + j) = Inr (le_bytes (ks ! i) ! j)" if "j < 4" for j
    using assms that n by (simp add: rd8_def)
  from this [of 0] this [of 1] this [of 2] this [of 3] show ?thesis
    using le_bytes_sum [of "ks ! i"] by (simp add: rd_le32_def rd_shl_def le_bytes_def)
qed

lemma jhash_loop_words:
  "n \<le> length ks \<Longrightarrow> \<exists>ks' n' a' b' c'. jhash2_loop ks n a b c = Inr (ks', n', a', b', c') \<and>
     n' < 3 \<and> n' \<le> length ks' \<and> jhash_loop (words_bytes ks) (4 * n) a b c = Inr (words_bytes ks', 4 * n', a', b', c')"
proof (induction ks n a b c rule: jhash2_loop.induct)
  case (1 ks n a b c)
  show ?case
  proof (cases "n \<ge> 3")
    case False
    then show ?thesis
      using 1 by (subst jhash2_loop.simps, subst jhash_loop.simps) auto
  next
    case True
    then have len: "3 \<le> length ks" using 1 by simp
    obtain a' b' c' where m: "jhash_mix (a + ks ! 0) (b + ks ! 1) (c + ks ! 2) = (a', b', c')"
      by (metis prod_cases3)
    have rd: "rd32 ks 0 = Inr (ks ! 0)" "rd32 ks 1 = Inr (ks ! 1)" "rd32 ks 2 = Inr (ks ! 2)"
      using len by (auto simp: rd32_def)
    have le: "rd_le32 (words_bytes ks) 0 = Inr (ks ! 0)" "rd_le32 (words_bytes ks) 4 = Inr (ks ! 1)"
        "rd_le32 (words_bytes ks) 8 = Inr (ks ! 2)"
      using rd_le32_words [of 0 ks] rd_le32_words [of 1 ks] rd_le32_words [of 2 ks] len
      by (simp_all flip: length_greater_0_conv)
    have s2: "jhash2_loop ks n a b c = jhash2_loop (drop 3 ks) (n - 3) a' b' c'"
      using True m by (subst jhash2_loop.simps) (simp add: rd [simplified])
    have s1: "jhash_loop (words_bytes ks) (4 * n) a b c = jhash_loop (words_bytes (drop 3 ks)) (4 * (n - 3)) a' b' c'"
      using True m drop_words_bytes [of 3 ks] by (subst jhash_loop.simps) (simp add: le algebra_simps)
    show ?thesis
      using "1.IH" [OF True rd m [symmetric] refl] "1.prems" len unfolding s1 s2 by auto
  qed
qed

lemma tail_word:
  assumes "i < length ks" "i < n"
  shows "rbind (tail_byte (words_bytes ks) (4 * n) (4 * i + 4) 24 x) (\<lambda>x.
    rbind (tail_byte (words_bytes ks) (4 * n) (4 * i + 3) 16 x) (\<lambda>x.
    rbind (tail_byte (words_bytes ks) (4 * n) (4 * i + 2) 8 x) (\<lambda>x.
    tail_byte (words_bytes ks) (4 * n) (4 * i + 1) 0 x))) = Inr (x + ks ! i)"
  using rd_le32_words [OF assms(1)] assms(2) by (auto simp: tail_byte_def rd_le32_def algebra_simps)

lemma tail_byte_none: "len < n \<Longrightarrow> tail_byte k len n s x = Inr x"
  by (simp add: tail_byte_def)

text \<open>On a little-endian machine \<^verbatim>\<open>jhash2\<close> over \<open>n\<close> words and \<^verbatim>\<open>jhash\<close> over the same memory
  as \<open>4 * n\<close> bytes return the same value, and neither reads past the key.\<close>

theorem jhash2_eq_jhash:
  assumes "unat n \<le> length ks" "4 * unat n < 2 ^ 32"
  shows "\<exists>h. jhash2 ks n initval = Inr h \<and> jhash (words_bytes ks) (n * 4) initval = Inr h"
proof -
  have n4: "unat (n * 4) = 4 * unat n"
    using assms(2) by (simp add: unat_mult_lem [THEN iffD1] mult.commute)
  obtain k l a b c where l: "jhash2_loop ks (unat n) JHASH_GOLDEN_RATIO JHASH_GOLDEN_RATIO initval = Inr (k, l, a, b, c)"
      "l < 3" "l \<le> length k"
      "jhash_loop (words_bytes ks) (4 * unat n) JHASH_GOLDEN_RATIO JHASH_GOLDEN_RATIO initval = Inr (words_bytes k, 4 * l, a, b, c)"
    using jhash_loop_words [OF assms(1)] by blast
  let ?b = "if l \<ge> 2 then b + k ! 1 else b" and ?a = "if l \<ge> 1 then a + k ! 0 else a"
  obtain x y h where m: "jhash_mix ?a ?b (c + n * 4) = (x, y, h)" by (metis prod_cases3)
  have "jhash2 ks n initval = Inr h"
    using l(1,3) m by (auto simp: jhash2_def rd32_def split: if_splits)
  moreover have tb: "rbind (tail_byte (words_bytes k) (4 * l) 8 24 b) (\<lambda>x. rbind (tail_byte (words_bytes k) (4 * l) 7 16 x) (\<lambda>x.
      rbind (tail_byte (words_bytes k) (4 * l) 6 8 x) (\<lambda>x. tail_byte (words_bytes k) (4 * l) 5 0 x))) = Inr ?b"
    using tail_word [of 1 k l b] l(3) by (cases "l \<ge> 2") (simp_all add: tail_byte_none)
  moreover have ta: "rbind (tail_byte (words_bytes k) (4 * l) 4 24 a) (\<lambda>x. rbind (tail_byte (words_bytes k) (4 * l) 3 16 x) (\<lambda>x.
      rbind (tail_byte (words_bytes k) (4 * l) 2 8 x) (\<lambda>x. tail_byte (words_bytes k) (4 * l) 1 0 x))) = Inr ?a"
    using tail_word [of 0 k l a] l(3)
    by (cases "l \<ge> 1"; cases k) (auto simp: tail_byte_none numeral_2_eq_2 simp del: rbind_eq_Inr)
  have "jhash (words_bytes ks) (n * 4) initval = Inr h"
  proof -
    have "jhash (words_bytes ks) (n * 4) initval =
        rbind (rbind (tail_byte (words_bytes k) (4 * l) 8 24 b) (\<lambda>x. rbind (tail_byte (words_bytes k) (4 * l) 7 16 x) (\<lambda>x.
          rbind (tail_byte (words_bytes k) (4 * l) 6 8 x) (\<lambda>x. tail_byte (words_bytes k) (4 * l) 5 0 x)))) (\<lambda>b.
        rbind (rbind (tail_byte (words_bytes k) (4 * l) 4 24 a) (\<lambda>x. rbind (tail_byte (words_bytes k) (4 * l) 3 16 x) (\<lambda>x.
          rbind (tail_byte (words_bytes k) (4 * l) 2 8 x) (\<lambda>x. tail_byte (words_bytes k) (4 * l) 1 0 x)))) (\<lambda>a.
          case jhash_mix a b (c + n * 4) of (a, b, c) \<Rightarrow> Inr c))"
      using l(2) by (simp add: jhash_def n4 l(4) tail_byte_none rbind_assoc)
    then show ?thesis by (simp only: tb ta rbind_simps m prod.case)
  qed
  ultimately show ?thesis by blast
qed

theorem jhash2_eq_jhash_witness:
  "\<exists>h. jhash2 [1, 2, 3, 0xdeadbeef] 4 7 = Inr h \<and> jhash (words_bytes [1, 2, 3, 0xdeadbeef]) (4 * 4) 7 = Inr h"
  by (rule jhash2_eq_jhash) simp_all

end
