(* ===== verification/Bgp_Hash.thy ===== *)
theory Bgp_Hash
  imports Prelude
begin

text \<open>
  Model of \<^verbatim>\<open>src/src/bgp/bgp_hash.c\<close>: the chained hash table that interns the attributes
  of the BGP daemon. The key and comparison functions of a table are arguments of its
  operations, as they read the objects the table points to. The interface between the
  table and its clients is the locale \<open>hash_keys\<close>; the attribute modules interpret it.
\<close>

section \<open>Model\<close>

text \<open>\<^verbatim>\<open>struct hash\<close>: each chain is the list of its \<^verbatim>\<open>struct hash_backet\<close>, key and data.\<close>

record 'd hash =
  h_index :: "(u32 \<times> 'd) list list"
  h_size :: u32
  h_count :: u64

text \<open>What the operations read of a peer: whether \<^verbatim>\<open>bgp_select_misc_db\<close> and
  \<^verbatim>\<open>bgp_select_routing_db\<close> know its type. A peer argument is \<open>None\<close> for NULL.\<close>

record bgp_peer_type =
  has_misc_db :: bool
  has_routing_db :: bool

definition misc_db :: "bgp_peer_type option \<Rightarrow> bool" where
  "misc_db peer = (case peer of None \<Rightarrow> False | Some p \<Rightarrow> has_misc_db p)"

definition routing_db :: "bgp_peer_type option \<Rightarrow> bool" where
  "routing_db peer = (case peer of None \<Rightarrow> False | Some p \<Rightarrow> has_routing_db p)"

definition hash_create_size :: "u32 \<Rightarrow> 'd hash" where
  "hash_create_size n = \<lparr>h_index = replicate (unat n) [], h_size = n, h_count = 0\<rparr>"

definition hash_create :: "u32 \<Rightarrow> 'd hash" where
  "hash_create buckets = hash_create_size buckets"

definition hash_alloc_intern :: "'d \<Rightarrow> 'd option" where
  "hash_alloc_intern arg = Some arg"

text \<open>\<^verbatim>\<open>index = key % hash->size\<close>\<close>

definition hash_slot :: "'d hash \<Rightarrow> u32 \<Rightarrow> nat res" where
  "hash_slot h key =
     (if h_size h = 0 then Inl Div_By_Zero
      else let i = unat (key mod h_size h) in if i < length (h_index h) then Inr i else Inl Out_Of_Bounds)"

fun bucket_find :: "('d \<Rightarrow> 'd \<Rightarrow> bool) \<Rightarrow> u32 \<Rightarrow> 'd \<Rightarrow> (u32 \<times> 'd) list \<Rightarrow> 'd option" where
  "bucket_find cmp key data [] = None"
| "bucket_find cmp key data ((k, d) # bs) =
     (if k = key \<and> cmp d data then Some d else bucket_find cmp key data bs)"

definition hash_get :: "bgp_peer_type option \<Rightarrow> ('d \<Rightarrow> u32) \<Rightarrow> ('d \<Rightarrow> 'd \<Rightarrow> bool) \<Rightarrow> 'd hash \<Rightarrow> 'd
    \<Rightarrow> ('d \<Rightarrow> 'd option) option \<Rightarrow> ('d option \<times> 'd hash) res" where
  "hash_get peer hash_key hash_cmp h data alloc_func =
     (if \<not> misc_db peer then Inr (None, h)
      else let key = hash_key data in
        rbind (hash_slot h key) (\<lambda>index.
          case bucket_find hash_cmp key data (h_index h ! index) of
            Some d \<Rightarrow> Inr (Some d, h)
          | None \<Rightarrow> (case alloc_func of
                None \<Rightarrow> Inr (None, h)
              | Some alloc \<Rightarrow> (case alloc data of
                  None \<Rightarrow> Inl Exit_All
                | Some newdata \<Rightarrow>
                    Inr (Some newdata, h\<lparr>h_index := (h_index h)[index := (key, newdata) # h_index h ! index],
                                         h_count := h_count h + 1\<rparr>)))))"

text \<open>The chain without its first matching backet, and the data of that backet.\<close>

fun bucket_remove :: "('d \<Rightarrow> 'd \<Rightarrow> bool) \<Rightarrow> u32 \<Rightarrow> 'd \<Rightarrow> (u32 \<times> 'd) list \<Rightarrow> ('d \<times> (u32 \<times> 'd) list) option" where
  "bucket_remove cmp key data [] = None"
| "bucket_remove cmp key data ((k, d) # bs) =
     (if k = key \<and> cmp d data then Some (d, bs)
      else map_option (\<lambda>(r, bs'). (r, (k, d) # bs')) (bucket_remove cmp key data bs))"

definition hash_release :: "('d \<Rightarrow> u32) \<Rightarrow> ('d \<Rightarrow> 'd \<Rightarrow> bool) \<Rightarrow> 'd hash \<Rightarrow> 'd \<Rightarrow> ('d option \<times> 'd hash) res" where
  "hash_release hash_key hash_cmp h data =
     (let key = hash_key data in
      rbind (hash_slot h key) (\<lambda>index.
        case bucket_remove hash_cmp key data (h_index h ! index) of
          None \<Rightarrow> Inr (None, h)
        | Some (ret, bs) \<Rightarrow>
            Inr (Some ret, h\<lparr>h_index := (h_index h)[index := bs], h_count := h_count h - 1\<rparr>)))"

text \<open>\<^verbatim>\<open>hash_iterate\<close> with a \<open>func\<close> that leaves the table alone, threading its state.\<close>

definition hash_iterate :: "'d hash \<Rightarrow> (u32 \<times> 'd \<Rightarrow> 's \<Rightarrow> 's) \<Rightarrow> 's \<Rightarrow> 's" where
  "hash_iterate h func s = fold (\<lambda>i s. fold func (h_index h ! i) s) [0..<unat (h_size h)] s"

definition hash_clean :: "'d hash \<Rightarrow> ('d \<Rightarrow> 's \<Rightarrow> 's) option \<Rightarrow> 's \<Rightarrow> 'd hash \<times> 's" where
  "hash_clean h free_func s =
     (h\<lparr>h_index := map (\<lambda>_. []) (h_index h), h_count := h_count h - word_of_nat (length (concat (h_index h)))\<rparr>,
      case free_func of None \<Rightarrow> s | Some f \<Rightarrow> hash_iterate h (\<lambda>(k, d). f d) s)"

section \<open>Well-formed tables\<close>

definition hash_data :: "'d hash \<Rightarrow> 'd set" where
  "hash_data h = snd ` set (concat (h_index h))"

definition hash_wf :: "('d \<Rightarrow> u32) \<Rightarrow> ('d \<Rightarrow> 'd \<Rightarrow> bool) \<Rightarrow> 'd hash \<Rightarrow> bool" where
  "hash_wf key cmp h \<longleftrightarrow> h_size h \<noteq> 0 \<and> length (h_index h) = unat (h_size h) \<and>
     h_count h = word_of_nat (length (concat (h_index h))) \<and>
     (\<forall>i < length (h_index h). (\<forall>(k, d) \<in> set (h_index h ! i). k = key d \<and> unat (k mod h_size h) = i) \<and>
        sorted_wrt (\<lambda>x y. \<not> cmp (snd x) (snd y)) (h_index h ! i))"

lemma hash_wf_create: "n \<noteq> 0 \<Longrightarrow> hash_wf key cmp (hash_create n)"
  by (simp add: hash_wf_def hash_create_def hash_create_size_def)

lemma hash_data_create [simp]: "hash_data (hash_create n) = {}"
  by (auto simp: hash_data_def hash_create_def hash_create_size_def)

lemma bucket_data: "i < length (h_index h) \<Longrightarrow> (k, d) \<in> set (h_index h ! i) \<Longrightarrow> d \<in> hash_data h"
  by (force simp: hash_data_def)

lemma data_bucket: "d \<in> hash_data h \<Longrightarrow> \<exists>i k. i < length (h_index h) \<and> (k, d) \<in> set (h_index h ! i)"
  by (auto simp: hash_data_def in_set_conv_nth [of _ "h_index h"]) blast

lemma sorted_wrt_agree:
  "(\<And>x y. x \<in> set xs \<Longrightarrow> y \<in> set xs \<Longrightarrow> P x y = Q x y) \<Longrightarrow> sorted_wrt P xs = sorted_wrt Q xs"
  by (induction xs) auto

text \<open>A table reads its functions only at its own data.\<close>

lemma hash_wf_cong:
  assumes "\<And>d. d \<in> hash_data h \<Longrightarrow> key' d = key d"
    "\<And>d e. d \<in> hash_data h \<Longrightarrow> e \<in> hash_data h \<Longrightarrow> cmp' d e = cmp d e"
  shows "hash_wf key' cmp' h = hash_wf key cmp h"
proof -
  have d: "d \<in> hash_data h" if "i < length (h_index h)" "(k, d) \<in> set (h_index h ! i)" for i k d
    using that by (rule bucket_data)
  have "sorted_wrt (\<lambda>x y. \<not> cmp' (snd x) (snd y)) (h_index h ! i) =
      sorted_wrt (\<lambda>x y. \<not> cmp (snd x) (snd y)) (h_index h ! i)" if "i < length (h_index h)" for i
    using assms(2) d [OF that] by (intro sorted_wrt_agree) auto
  moreover have "(\<forall>(k, d) \<in> set (h_index h ! i). k = key' d \<and> unat (k mod h_size h) = i) \<longleftrightarrow>
      (\<forall>(k, d) \<in> set (h_index h ! i). k = key d \<and> unat (k mod h_size h) = i)" if "i < length (h_index h)" for i
    using assms(1) d [OF that] by (intro ball_cong) auto
  ultimately show ?thesis by (simp add: hash_wf_def)
qed

lemma hash_slot_wf: "hash_wf key cmp h \<Longrightarrow> hash_slot h k = Inr (unat (k mod h_size h)) \<and> unat (k mod h_size h) < length (h_index h)"
  by (simp add: hash_slot_def hash_wf_def Let_def unat_mod unat_gt_0)

lemma concat_split:
  assumes "i < length xs"
  shows "concat (xs[i := ys]) = concat (take i xs) @ ys @ concat (drop (Suc i) xs)"
    "concat xs = concat (take i xs) @ xs ! i @ concat (drop (Suc i) xs)"
  using assms by (simp_all add: upd_conv_take_nth_drop) (metis concat.simps(2) concat_append id_take_nth_drop)

lemma length_concat_update:
  "i < length xs \<Longrightarrow> length (concat (xs[i := ys])) + length (xs ! i) = length (concat xs) + length ys"
  using concat_split [of i xs] by simp

lemma sorted_wrt_pair: "sorted_wrt P xs \<Longrightarrow> x \<in> set xs \<Longrightarrow> y \<in> set xs \<Longrightarrow> x \<noteq> y \<Longrightarrow> P x y \<or> P y x"
  by (induction xs) auto

text \<open>A lookup reads its functions only at the datum asked for and the data of the table.\<close>

lemma hash_get_cong:
  assumes "hash_wf key cmp h" "key' x = key x" "\<And>d. d \<in> hash_data h \<Longrightarrow> cmp' d x = cmp d x"
  shows "hash_get peer key' cmp' h x al = hash_get peer key cmp h x al"
proof -
  let ?i = "unat (key x mod h_size h)"
  have i: "?i < length (h_index h)" "hash_slot h (key x) = Inr ?i" using hash_slot_wf [OF assms(1)] by auto
  have "bucket_find cmp' k x b = bucket_find cmp k x b" if "snd ` set b \<subseteq> hash_data h" for k b
    using that assms(3) by (induction b) auto
  moreover have "snd ` set (h_index h ! ?i) \<subseteq> hash_data h" using bucket_data [OF i(1)] by auto
  ultimately show ?thesis using i(2) assms(2) by (simp add: hash_get_def Let_def)
qed

lemma hash_get_data:
  assumes "hash_wf key cmp h" "hash_get peer key cmp h x al = Inr (Some f, h')"
  shows "hash_data h' \<subseteq> insert f (hash_data h)"
proof -
  have slot: "unat (key x mod h_size h) < length (h_index h)"
      "hash_slot h (key x) = Inr (unat (key x mod h_size h))" using hash_slot_wf [OF assms(1)] by auto
  then have "set ((h_index h)[unat (key x mod h_size h) := (k, y) # h_index h ! unat (key x mod h_size h)])
      \<subseteq> insert ((k, y) # h_index h ! unat (key x mod h_size h)) (set (h_index h))" for k y
    by (intro set_update_subset_insert)
  moreover have "h_index h ! unat (key x mod h_size h) \<in> set (h_index h)" using slot by simp
  ultimately show ?thesis
    using assms(2) slot(2)
    by (fastforce simp: hash_get_def Let_def hash_data_def split: if_splits option.splits)
qed

lemma hash_release_key: "key' x = key x \<Longrightarrow> hash_release key' cmp h x = hash_release key cmp h x"
  by (simp add: hash_release_def)

section \<open>The interface between a table and its clients\<close>

text \<open>What a client owes the table: its comparison is an equivalence, and equal data have the
  same key.\<close>

locale hash_keys =
  fixes key :: "'d \<Rightarrow> u32" and cmp :: "'d \<Rightarrow> 'd \<Rightarrow> bool"
  assumes cmp_refl: "cmp d d"
    and cmp_sym: "cmp d e \<Longrightarrow> cmp e d"
    and cmp_trans: "cmp d e \<Longrightarrow> cmp e f \<Longrightarrow> cmp d f"
    and cmp_key: "cmp d e \<Longrightarrow> key d = key e"
begin

lemma data_slot:
  assumes "hash_wf key cmp h" "d \<in> hash_data h"
  shows "(key d, d) \<in> set (h_index h ! unat (key d mod h_size h))"
proof -
  obtain i k where i: "i < length (h_index h)" "(k, d) \<in> set (h_index h ! i)"
    using data_bucket [OF assms(2)] by blast
  then have "k = key d" "unat (k mod h_size h) = i" using assms(1) by (auto simp: hash_wf_def)
  with i show ?thesis by simp
qed

text \<open>Equal data in the table are the same datum.\<close>

lemma data_unique:
  assumes wf: "hash_wf key cmp h" and d: "d \<in> hash_data h" "e \<in> hash_data h" "cmp d e"
  shows "d = e"
proof -
  have k: "key e = key d" using cmp_key [OF d(3)] by simp
  let ?b = "h_index h ! unat (key d mod h_size h)"
  have "(key d, d) \<in> set ?b" "(key d, e) \<in> set ?b" using data_slot [OF wf] d(1,2) k by metis+
  moreover have "sorted_wrt (\<lambda>x y. \<not> cmp (snd x) (snd y)) ?b"
    using wf hash_slot_wf [OF wf, of "key d"] by (simp add: hash_wf_def)
  ultimately show ?thesis
    using d(3) cmp_sym sorted_wrt_pair [of _ ?b "(key d, d)" "(key d, e)"] by fastforce
qed

lemma bucket_find_eq:
  assumes wf: "hash_wf key cmp h" and k: "k = key x"
  shows "case bucket_find cmp k x (h_index h ! unat (k mod h_size h)) of
      Some d \<Rightarrow> d \<in> hash_data h \<and> cmp d x | None \<Rightarrow> \<forall>d \<in> hash_data h. \<not> cmp d x"
proof -
  let ?b = "h_index h ! unat (k mod h_size h)"
  have some: "bucket_find cmp k x b = Some d \<Longrightarrow> cmp d x \<and> (k, d) \<in> set b" for d and b :: "(u32 \<times> 'd) list"
    by (induction b) (auto split: if_splits)
  have none: "bucket_find cmp k x b = None \<Longrightarrow> (k, d) \<in> set b \<Longrightarrow> \<not> cmp d x" for d and b :: "(u32 \<times> 'd) list"
    by (induction b) (auto split: if_splits)
  show ?thesis
  proof (cases "bucket_find cmp k x ?b")
    case None
    have "\<not> cmp d x" if "d \<in> hash_data h" for d
      using data_slot [OF wf that] none [OF None, of d] cmp_key [of d x] k by auto
    then show ?thesis by (simp add: None)
  next
    case (Some d)
    then show ?thesis using some [OF Some] bucket_data hash_slot_wf [OF wf, of k] by auto
  qed
qed

text \<open>Lookup with insertion: the datum found is equal to the one asked for; if there was none
  the new one is added and nothing else changes.\<close>

lemma hash_get_alloc:
  assumes wf: "hash_wf key cmp h" and m: "misc_db peer" and y: "alloc x = Some y" "cmp y x"
  shows "\<exists>d h'. hash_get peer key cmp h x (Some alloc) = Inr (Some d, h') \<and> hash_wf key cmp h' \<and>
     cmp d x \<and> hash_data h' = insert d (hash_data h) \<and>
     (if \<exists>e \<in> hash_data h. cmp e x then d \<in> hash_data h \<and> h' = h else d = y)"
proof -
  let ?k = "key x" and ?i = "unat (key x mod h_size h)"
  have i: "hash_slot h ?k = Inr ?i" "?i < length (h_index h)" using hash_slot_wf [OF wf] by auto
  have ky: "key y = ?k" using cmp_key [OF y(2)] .
  note f = bucket_find_eq [OF wf refl, of x]
  show ?thesis
  proof (cases "bucket_find cmp ?k x (h_index h ! ?i)")
    case (Some d)
    then show ?thesis using f wf m i(1) by (auto simp: hash_get_def)
  next
    case None
    let ?b = "(?k, y) # h_index h ! ?i"
    let ?h = "h\<lparr>h_index := (h_index h)[?i := ?b], h_count := h_count h + 1\<rparr>"
    have no: "\<forall>d \<in> hash_data h. \<not> cmp d x" using f None by simp
    then have noy: "\<forall>d \<in> hash_data h. \<not> cmp y d" using y(2) cmp_sym cmp_trans by blast
    have run: "hash_get peer key cmp h x (Some alloc) = Inr (Some y, ?h)"
      using None m i(1) y(1) by (simp add: hash_get_def Let_def)
    have "set (concat (h_index ?h)) = insert (?k, y) (set (concat (h_index h)))"
      using concat_split(1) [OF i(2), of ?b] concat_split(2) [OF i(2)] by simp
    then have data: "hash_data ?h = insert y (hash_data h)" by (simp add: hash_data_def)
    have "length (concat (h_index ?h)) = Suc (length (concat (h_index h)))"
      using length_concat_update [OF i(2), of ?b] by simp
    moreover have "sorted_wrt (\<lambda>x y. \<not> cmp (snd x) (snd y)) ?b"
      using wf i(2) noy bucket_data [OF i(2)] by (fastforce simp: hash_wf_def)
    ultimately have "hash_wf key cmp ?h"
      using wf i(2) ky by (auto simp: hash_wf_def nth_list_update)
    with run data no y(2) show ?thesis by auto
  qed
qed

lemma bucket_remove_eq:
  "sorted_wrt (\<lambda>x y. \<not> cmp (snd x) (snd y)) b \<Longrightarrow> (k, d) \<in> set b \<Longrightarrow>
     \<exists>us vs. b = us @ (k, d) # vs \<and> bucket_remove cmp k d b = Some (d, us @ vs)"
proof (induction b)
  case (Cons x b)
  obtain k' d' where x: "x = (k', d')" by (cases x)
  show ?case
  proof (cases "x = (k, d)")
    case True
    then show ?thesis using cmp_refl by (intro exI [of _ "[]"] exI [of _ b]) (simp add: x)
  next
    case False
    then have in_b: "(k, d) \<in> set b" using Cons.prems by auto
    then have "\<not> cmp d' d" using Cons.prems(1) by (force simp: x)
    moreover obtain us vs where "b = us @ (k, d) # vs" "bucket_remove cmp k d b = Some (d, us @ vs)"
      using Cons.IH in_b Cons.prems(1) by auto
    ultimately show ?thesis by (intro exI [of _ "x # us"] exI [of _ vs]) (simp add: x)
  qed
qed simp

text \<open>Releasing a datum of the table takes it out and nothing else.\<close>

lemma hash_release_data:
  assumes wf: "hash_wf key cmp h" and d: "d \<in> hash_data h"
  shows "\<exists>h'. hash_release key cmp h d = Inr (Some d, h') \<and> hash_wf key cmp h' \<and> hash_data h' = hash_data h - {d}"
proof -
  let ?k = "key d" and ?i = "unat (key d mod h_size h)"
  have i: "hash_slot h ?k = Inr ?i" "?i < length (h_index h)" using hash_slot_wf [OF wf] by auto
  have srt: "sorted_wrt (\<lambda>x y. \<not> cmp (snd x) (snd y)) (h_index h ! ?i)" using wf i(2) by (simp add: hash_wf_def)
  obtain us vs where b: "h_index h ! ?i = us @ (?k, d) # vs"
      "bucket_remove cmp ?k d (h_index h ! ?i) = Some (d, us @ vs)"
    using bucket_remove_eq [OF srt data_slot [OF wf d]] by blast
  let ?h = "h\<lparr>h_index := (h_index h)[?i := us @ vs], h_count := h_count h - 1\<rparr>"
  have run: "hash_release key cmp h d = Inr (Some d, ?h)"
    using i(1) b(2) by (simp add: hash_release_def Let_def)
  have len: "Suc (length (concat (h_index ?h))) = length (concat (h_index h))"
    using length_concat_update [OF i(2), of "us @ vs"] b(1) by simp
  have wf': "hash_wf key cmp ?h"
    using wf i(2) b(1) srt len [symmetric]
    by (auto simp: hash_wf_def nth_list_update sorted_wrt_append)
  have sub: "hash_data ?h \<subseteq> hash_data h" "hash_data h \<subseteq> insert d (hash_data ?h)"
    using concat_split(1) [OF i(2), of "us @ vs"] concat_split(2) [OF i(2)] b(1) by (auto simp: hash_data_def)
  have "d \<notin> hash_data ?h"
  proof
    assume "d \<in> hash_data ?h"
    from data_slot [OF wf' this] have "(?k, d) \<in> set (us @ vs)" using i(2) by simp
    then show False using srt b(1) cmp_refl [of d] by (force simp: sorted_wrt_append)
  qed
  with sub run wf' show ?thesis by blast
qed

end

section \<open>Pools of interned attributes\<close>

text \<open>The fields that \<^verbatim>\<open>struct community\<close>, \<^verbatim>\<open>struct ecommunity\<close>, \<^verbatim>\<open>struct lcommunity\<close> and
  \<^verbatim>\<open>struct aspath\<close> share, and a store of such objects with the table that interns them.\<close>

record pooled =
  refcnt :: u64
  str :: "string option"

record 'o pool =
  p_objs :: "addr \<Rightarrow> 'o option"
  p_hash :: "addr hash"

definition pool_key :: "('o \<Rightarrow> u32) \<Rightarrow> (addr \<Rightarrow> 'o option) \<Rightarrow> addr \<Rightarrow> u32" where
  "pool_key hk objs a = (case objs a of None \<Rightarrow> 0 | Some ob \<Rightarrow> hk ob)"

definition pool_cmp :: "('o option \<Rightarrow> 'o option \<Rightarrow> bool) \<Rightarrow> (addr \<Rightarrow> 'o option) \<Rightarrow> addr \<Rightarrow> addr \<Rightarrow> bool" where
  "pool_cmp hc objs a b = hc (objs a) (objs b)"

definition deref :: "(addr \<Rightarrow> 'o option) \<Rightarrow> addr \<Rightarrow> 'o res" where
  "deref objs a = (case objs a of None \<Rightarrow> Inl Use_After_Free | Some ob \<Rightarrow> Inr ob)"

text \<open>The common shape of \<^verbatim>\<open>community_intern\<close>, \<^verbatim>\<open>ecommunity_intern\<close> and \<^verbatim>\<open>lcommunity_intern\<close>.\<close>

definition pool_intern :: "bgp_peer_type option \<Rightarrow> ('a pooled_scheme \<Rightarrow> u32) \<Rightarrow>
    ('a pooled_scheme option \<Rightarrow> 'a pooled_scheme option \<Rightarrow> bool) \<Rightarrow> ('a pooled_scheme \<Rightarrow> string option res) \<Rightarrow>
    'a pooled_scheme pool \<Rightarrow> addr \<Rightarrow> (addr option \<times> 'a pooled_scheme pool) res" where
  "pool_intern peer hk hc mkstr P com =
     (if \<not> routing_db peer then Inr (None, P)
      else rbind (deref (p_objs P) com) (\<lambda>c. rbind (rassert (refcnt c = 0) Assert_Failed) (\<lambda>_.
        rbind (hash_get peer (pool_key hk (p_objs P)) (pool_cmp hc (p_objs P)) (p_hash P) com (Some hash_alloc_intern))
          (\<lambda>(find, h).
            let objs = (if find \<noteq> Some com then (p_objs P)(com := None) else p_objs P) in
            case find of
              None \<Rightarrow> Inl Null_Deref
            | Some f \<Rightarrow>
                rbind (deref objs f) (\<lambda>ob. let ob1 = ob\<lparr>refcnt := refcnt ob + 1\<rparr> in
                rbind (if str ob1 = None then rbind (mkstr ob1) (\<lambda>s. Inr (ob1\<lparr>str := s\<rparr>)) else Inr ob1) (\<lambda>ob2.
                  Inr (Some f, \<lparr>p_objs = objs(f := Some ob2), p_hash = h\<rparr>)))))))"

definition pool_unintern :: "bgp_peer_type option \<Rightarrow> ('a pooled_scheme \<Rightarrow> u32) \<Rightarrow>
    ('a pooled_scheme option \<Rightarrow> 'a pooled_scheme option \<Rightarrow> bool) \<Rightarrow>
    'a pooled_scheme pool \<Rightarrow> addr \<Rightarrow> 'a pooled_scheme pool res" where
  "pool_unintern peer hk hc P com =
     (if \<not> routing_db peer then Inr P
      else rbind (deref (p_objs P) com) (\<lambda>c.
        let c1 = (if refcnt c \<noteq> 0 then c\<lparr>refcnt := refcnt c - 1\<rparr> else c);
            objs = (p_objs P)(com := Some c1)
        in if refcnt c1 = 0 then
             rbind (hash_release (pool_key hk objs) (pool_cmp hc objs) (p_hash P) com) (\<lambda>(ret, h).
             rbind (rassert (ret \<noteq> None) Assert_Failed) (\<lambda>_.
               Inr \<lparr>p_objs = objs(com := None), p_hash = h\<rparr>))
           else Inr (P\<lparr>p_objs := objs\<rparr>)))"

lemma find_SomeD: "List.find P xs = Some x \<Longrightarrow> P x \<and> x \<in> set xs"
  by (induction xs) (auto split: if_splits)

text \<open>A well-formed pool: every interned object is alive and referenced. Its abstraction is the
  number of references to each value.\<close>

definition pool_inv :: "('a pooled_scheme \<Rightarrow> u32) \<Rightarrow> ('a pooled_scheme option \<Rightarrow> 'a pooled_scheme option \<Rightarrow> bool) \<Rightarrow>
    'a pooled_scheme pool \<Rightarrow> bool" where
  "pool_inv hk hc P \<longleftrightarrow> hash_wf (pool_key hk (p_objs P)) (pool_cmp hc (p_objs P)) (p_hash P) \<and>
     (\<forall>d \<in> hash_data (p_hash P). \<exists>ob. p_objs P d = Some ob \<and> refcnt ob \<noteq> 0)"

definition pool_abs :: "('a pooled_scheme \<Rightarrow> 'v) \<Rightarrow> 'a pooled_scheme pool \<Rightarrow> 'v \<Rightarrow> u64" where
  "pool_abs val P v =
     (case List.find (\<lambda>(k, d). map_option val (p_objs P d) = Some v) (concat (h_index (p_hash P))) of
        None \<Rightarrow> 0
      | Some (k, d) \<Rightarrow> (case p_objs P d of None \<Rightarrow> 0 | Some ob \<Rightarrow> refcnt ob))"

text \<open>The contract of an attribute module: it compares and hashes the value of an object,
  which the reference count and the cached string are not part of.\<close>

locale attr_pool =
  fixes hk :: "'a pooled_scheme \<Rightarrow> u32"
    and hc :: "'a pooled_scheme option \<Rightarrow> 'a pooled_scheme option \<Rightarrow> bool"
    and val :: "'a pooled_scheme \<Rightarrow> 'v"
  assumes hc_Some: "hc (Some x) (Some y) \<longleftrightarrow> val x = val y"
    and hc_None: "hc None None" "\<not> hc None (Some x)" "\<not> hc (Some x) None"
    and hk_val: "val x = val y \<Longrightarrow> hk x = hk y"
    and val_upd: "val (x\<lparr>refcnt := r\<rparr>) = val x" "val (x\<lparr>str := s\<rparr>) = val x"
begin

lemma hc_iff: "hc x y \<longleftrightarrow> map_option val x = map_option val y"
  by (cases x; cases y) (simp_all add: hc_Some hc_None)

end

sublocale attr_pool \<subseteq> keys: hash_keys "pool_key hk objs" "pool_cmp hc objs" for objs
proof
  fix d e
  assume "pool_cmp hc objs d e"
  then show "pool_key hk objs d = pool_key hk objs e"
    by (auto simp: pool_cmp_def pool_key_def hc_iff intro: hk_val split: option.splits)
qed (simp_all add: pool_cmp_def hc_iff)

context attr_pool
begin

lemma pool_inv_cong:
  assumes "\<And>d. d \<in> hash_data h \<Longrightarrow> map_option val (objs' d) = map_option val (objs d)"
  shows "hash_wf (pool_key hk objs') (pool_cmp hc objs') h = hash_wf (pool_key hk objs) (pool_cmp hc objs) h"
proof (rule hash_wf_cong)
  fix d assume d: "d \<in> hash_data h"
  then show "pool_key hk objs' d = pool_key hk objs d"
    using assms [OF d] by (cases "objs d"; cases "objs' d") (auto simp: pool_key_def intro: hk_val)
  fix e assume "e \<in> hash_data h"
  then show "pool_cmp hc objs' d e = pool_cmp hc objs d e"
    using assms d by (simp add: pool_cmp_def hc_iff)
qed

lemma interned_unique:
  assumes "pool_inv hk hc P" "d \<in> hash_data (p_hash P)" "e \<in> hash_data (p_hash P)"
    "p_objs P d = Some x" "p_objs P e = Some y" "val x = val y"
  shows "d = e"
  using assms keys.data_unique [of "p_objs P" "p_hash P" d e] by (simp add: pool_inv_def pool_cmp_def hc_iff)

lemma pool_abs_interned:
  assumes "pool_inv hk hc P" "d \<in> hash_data (p_hash P)" "p_objs P d = Some x"
  shows "pool_abs val P (val x) = refcnt x"
proof -
  let ?Q = "\<lambda>(k, d). map_option val (p_objs P d) = Some (val x)"
  let ?xs = "concat (h_index (p_hash P))"
  obtain k where "(k, d) \<in> set ?xs" using assms(2) unfolding hash_data_def by force
  then have "List.find ?Q ?xs \<noteq> None" unfolding find_None_iff using assms(3) by force
  then obtain k' e where f: "List.find ?Q ?xs = Some (k', e)" by auto
  then have e: "?Q (k', e)" "(k', e) \<in> set ?xs" using find_SomeD by fast+
  then obtain y where y: "p_objs P e = Some y" "val y = val x" by auto
  moreover have "e \<in> hash_data (p_hash P)" using e(2) by (force simp: hash_data_def)
  ultimately have "e = d" using interned_unique [OF assms(1)] assms(2,3) by metis
  with f y assms(3) show ?thesis by (simp add: pool_abs_def)
qed

lemma pool_abs_none:
  assumes "\<And>d x. d \<in> hash_data (p_hash P) \<Longrightarrow> p_objs P d = Some x \<Longrightarrow> val x \<noteq> v"
  shows "pool_abs val P v = 0"
proof -
  have "List.find (\<lambda>(k, d). map_option val (p_objs P d) = Some v) (concat (h_index (p_hash P))) = None"
    using assms by (force simp: find_None_iff hash_data_def)
  then show ?thesis by (simp add: pool_abs_def)
qed

lemma pool_abs_same:
  assumes "p_hash P' = p_hash P" "\<And>d. d \<in> hash_data (p_hash P) \<Longrightarrow> p_objs P' d = p_objs P d"
  shows "pool_abs val P' v = pool_abs val P v"
proof -
  define xs where "xs = concat (h_index (p_hash P))"
  have same: "p_objs P' d = p_objs P d" if "(k, d) \<in> set xs" for k d
    using assms(2) that by (force simp: hash_data_def xs_def)
  then have f: "List.find (\<lambda>(k, d). map_option val (p_objs P' d) = Some v) xs =
      List.find (\<lambda>(k, d). map_option val (p_objs P d) = Some v) xs"
    by (intro find_cong) auto
  show ?thesis
  proof (cases "List.find (\<lambda>(k, d). map_option val (p_objs P d) = Some v) xs")
    case None
    then show ?thesis using f by (simp add: pool_abs_def assms(1) xs_def)
  next
    case (Some kd)
    moreover have "p_objs P' (snd kd) = p_objs P (snd kd)"
      using same [of "fst kd" "snd kd"] find_SomeD [OF Some] by simp
    ultimately show ?thesis using f by (simp add: pool_abs_def assms(1) xs_def case_prod_beta)
  qed
qed

text \<open>A change at one object does not touch the references to other values.\<close>

lemma pool_abs_other:
  assumes inv: "pool_inv hk hc P" "pool_inv hk hc P'"
    and same: "\<And>d. d \<noteq> f \<Longrightarrow> d \<in> hash_data (p_hash P') \<longleftrightarrow> d \<in> hash_data (p_hash P)"
      "\<And>d. d \<noteq> f \<Longrightarrow> d \<in> hash_data (p_hash P) \<Longrightarrow> p_objs P' d = p_objs P d"
    and f: "\<And>x. f \<in> hash_data (p_hash P) \<Longrightarrow> p_objs P f = Some x \<Longrightarrow> val x = v"
      "\<And>x. f \<in> hash_data (p_hash P') \<Longrightarrow> p_objs P' f = Some x \<Longrightarrow> val x = v"
    and u: "u \<noteq> v"
  shows "pool_abs val P' u = pool_abs val P u"
proof (cases "\<exists>d \<in> hash_data (p_hash P). \<exists>x. p_objs P d = Some x \<and> val x = u")
  case True
  then obtain d x where d: "d \<in> hash_data (p_hash P)" "p_objs P d = Some x" "val x = u" by blast
  then have "d \<noteq> f" using f(1) u by auto
  then have "p_objs P' d = Some x" "d \<in> hash_data (p_hash P')" using same d by auto
  then show ?thesis
    using pool_abs_interned [OF inv(1) d(1,2)] pool_abs_interned [OF inv(2), of d x] d(3) by simp
next
  case False
  have "val x \<noteq> u" if "d \<in> hash_data (p_hash P')" "p_objs P' d = Some x" for d x
    using that False same f(2) u by (cases "d = f") auto
  then show ?thesis using False pool_abs_none [of P' u] pool_abs_none [of P u] by auto
qed

text \<open>A lookup that adds the object \<open>y\<close> when there is none, in a store \<open>S\<close> that agrees with the
  pool on the interned objects, followed by taking a reference to what was found: the pool
  gains one reference to the value of \<open>x\<close>, and all holders of that value share one pointer.\<close>

lemma pool_share:
  assumes inv: "pool_inv hk hc P" and peer: "misc_db peer"
    and agree: "\<And>d. d \<in> hash_data (p_hash P) \<Longrightarrow> S d = p_objs P d"
    and x: "S x = Some c" and y: "alloc x = Some y" "S y = Some c'" "val c' = val c" "refcnt c' = 0" "y \<notin> hash_data (p_hash P)"
    and big: "\<forall>a ob. p_objs P a = Some ob \<longrightarrow> refcnt ob \<noteq> - 1"
  obtains f h' ob where
    "hash_get peer (pool_key hk S) (pool_cmp hc S) (p_hash P) x (Some alloc) = Inr (Some f, h')"
    "S f = Some ob" "val ob = val c" "f = y \<or> f \<in> hash_data (p_hash P)"
    "\<And>P' ob2. p_hash P' = h' \<Longrightarrow> p_objs P' f = Some ob2 \<Longrightarrow> val ob2 = val c \<Longrightarrow> refcnt ob2 = refcnt ob + 1 \<Longrightarrow>
       \<forall>d \<in> hash_data (p_hash P). d \<noteq> f \<longrightarrow> p_objs P' d = p_objs P d \<Longrightarrow>
       pool_inv hk hc P' \<and> f \<in> hash_data (p_hash P') \<and>
       (\<forall>d x. d \<in> hash_data (p_hash P) \<longrightarrow> p_objs P d = Some x \<longrightarrow> val x = val c \<longrightarrow> d = f) \<and>
       (\<forall>v. pool_abs val P' v = pool_abs val P v + (if v = val c then 1 else 0))"
proof -
  let ?h = "p_hash P"
  have wf: "hash_wf (pool_key hk S) (pool_cmp hc S) ?h"
      and alive: "\<And>d. d \<in> hash_data ?h \<Longrightarrow> \<exists>ob. p_objs P d = Some ob \<and> refcnt ob \<noteq> 0"
    using inv agree pool_inv_cong [of ?h S "p_objs P"] by (auto simp: pool_inv_def)
  have "pool_cmp hc S y x" using x y(2,3) by (simp add: pool_cmp_def hc_iff)
  from keys.hash_get_alloc [where alloc = alloc and x = x and y = y, OF wf peer y(1) this] obtain f h' where
      get: "hash_get peer (pool_key hk S) (pool_cmp hc S) ?h x (Some alloc) = Inr (Some f, h')"
      and wf': "hash_wf (pool_key hk S) (pool_cmp hc S) h'" and eq: "pool_cmp hc S f x"
      and data: "hash_data h' = insert f (hash_data ?h)"
      and new: "if \<exists>e \<in> hash_data ?h. pool_cmp hc S e x then f \<in> hash_data ?h \<and> h' = ?h else f = y"
    by blast
  obtain ob where ob: "S f = Some ob" "val ob = val c" using eq x by (auto simp: pool_cmp_def hc_iff)
  have uniq: "d = f" if "d \<in> hash_data ?h" "p_objs P d = Some z" "val z = val c" for d z
  proof -
    have "pool_cmp hc S d x" using that agree x by (simp add: pool_cmp_def hc_iff)
    then have "f \<in> hash_data ?h" using new that(1) by (auto split: if_splits)
    then show ?thesis using interned_unique [OF inv that(1) _ that(2)] agree ob that(3) by simp
  qed
  have fresh: "pool_abs val P (val c) = refcnt ob"
  proof (cases "f \<in> hash_data ?h")
    case True
    then show ?thesis using pool_abs_interned [OF inv True] agree ob by simp
  next
    case False
    then have "f = y" using new by (auto split: if_splits)
    then have "refcnt ob = 0" using y(2,4) ob(1) by simp
    moreover have "pool_abs val P (val c) = 0" using uniq False by (intro pool_abs_none) blast
    ultimately show ?thesis by simp
  qed
  have fin: "pool_inv hk hc P' \<and> f \<in> hash_data (p_hash P') \<and>
       (\<forall>d x. d \<in> hash_data (p_hash P) \<longrightarrow> p_objs P d = Some x \<longrightarrow> val x = val c \<longrightarrow> d = f) \<and>
       (\<forall>v. pool_abs val P' v = pool_abs val P v + (if v = val c then 1 else 0))"
    if P': "p_hash P' = h'" "p_objs P' f = Some ob2" "val ob2 = val c" "refcnt ob2 = refcnt ob + 1"
      "\<forall>d \<in> hash_data (p_hash P). d \<noteq> f \<longrightarrow> p_objs P' d = p_objs P d" for P' ob2
  proof -
    have "refcnt ob \<noteq> - 1"
      using big new ob(1) agree y(2,4) by (cases "f \<in> hash_data ?h") (auto split: if_splits)
    then have nz: "refcnt ob2 \<noteq> 0" using P'(4) by (metis eq_neg_iff_add_eq_0)
    have "map_option val (p_objs P' d) = map_option val (S d)" if "d \<in> hash_data h'" for d
      using that data P' ob agree by (cases "d = f") auto
    then have inv': "pool_inv hk hc P'"
      using wf' pool_inv_cong [of h' "p_objs P'" S] P' data alive nz by (auto simp: pool_inv_def)
    have "pool_abs val P' v = pool_abs val P v" if "v \<noteq> val c" for v
      using that P' data agree ob by (intro pool_abs_other [OF inv inv', of f "val c"]) auto
    moreover have "pool_abs val P' (val c) = pool_abs val P (val c) + 1"
      using pool_abs_interned [OF inv', of f ob2] P' data fresh by simp
    ultimately show ?thesis using inv' uniq data P'(1) by auto
  qed
  have "f = y \<or> f \<in> hash_data ?h" using new by (auto split: if_splits)
  with get ob fin show ?thesis by (intro that)
qed

lemma intern_refines:
  assumes inv: "pool_inv hk hc P" and peer: "misc_db peer" "routing_db peer"
    and com: "p_objs P com = Some c" "refcnt c = 0"
    and big: "\<forall>a ob. p_objs P a = Some ob \<longrightarrow> refcnt ob \<noteq> - 1"
    and mk: "\<forall>ob. val ob = val c \<longrightarrow> (\<exists>s. mkstr ob = Inr s)"
  shows "\<exists>f P' ob. pool_intern peer hk hc mkstr P com = Inr (Some f, P') \<and> pool_inv hk hc P' \<and>
     f \<in> hash_data (p_hash P') \<and> p_objs P' f = Some ob \<and> val ob = val c \<and>
     (f \<noteq> com \<longrightarrow> p_objs P' com = None \<and> f \<in> hash_data (p_hash P)) \<and>
     (\<forall>d x. d \<in> hash_data (p_hash P) \<longrightarrow> p_objs P d = Some x \<longrightarrow> val x = val c \<longrightarrow> d = f) \<and>
     (\<forall>v. pool_abs val P' v = pool_abs val P v + (if v = val c then 1 else 0))"
proof -
  let ?h = "p_hash P" and ?o = "p_objs P"
  have com_new: "com \<notin> hash_data ?h" using inv com by (force simp: pool_inv_def)
  have al: "hash_alloc_intern com = Some com" by (simp add: hash_alloc_intern_def)
  obtain f h' ob where get: "hash_get peer (pool_key hk ?o) (pool_cmp hc ?o) ?h com (Some hash_alloc_intern) = Inr (Some f, h')"
      and ob: "?o f = Some ob" "val ob = val c" "f = com \<or> f \<in> hash_data ?h"
      and sh: "\<And>P' ob2. p_hash P' = h' \<Longrightarrow> p_objs P' f = Some ob2 \<Longrightarrow> val ob2 = val c \<Longrightarrow> refcnt ob2 = refcnt ob + 1 \<Longrightarrow>
       \<forall>d \<in> hash_data (p_hash P). d \<noteq> f \<longrightarrow> p_objs P' d = p_objs P d \<Longrightarrow>
       pool_inv hk hc P' \<and> f \<in> hash_data (p_hash P') \<and>
       (\<forall>d x. d \<in> hash_data (p_hash P) \<longrightarrow> p_objs P d = Some x \<longrightarrow> val x = val c \<longrightarrow> d = f) \<and>
       (\<forall>v. pool_abs val P' v = pool_abs val P v + (if v = val c then 1 else 0))"
    using pool_share [where S = ?o and alloc = hash_alloc_intern and x = com and y = com, OF inv peer(1) refl com(1) al com(1) refl com(2) com_new big]
    by blast
  define objs where "objs = (if f \<noteq> com then ?o(com := None) else ?o)"
  obtain s where s: "mkstr (ob\<lparr>refcnt := refcnt ob + 1\<rparr>) = Inr s" using mk ob(2) val_upd by metis
  define ob2 where "ob2 = (if str ob = None then ob\<lparr>refcnt := refcnt ob + 1, str := s\<rparr> else ob\<lparr>refcnt := refcnt ob + 1\<rparr>)"
  define P' where "P' = \<lparr>p_objs = objs(f := Some ob2), p_hash = h'\<rparr>"
  have of: "objs f = Some ob" using ob(1) by (auto simp: objs_def)
  have run: "pool_intern peer hk hc mkstr P com = Inr (Some f, P')"
    using peer(2) com get s of
    by (auto simp: pool_intern_def deref_def P'_def ob2_def objs_def [symmetric] Let_def simp del: fun_upd_apply)
  have ob2: "val ob2 = val c" "refcnt ob2 = refcnt ob + 1" using ob(2) val_upd by (simp_all add: ob2_def)
  have "f \<noteq> com \<longrightarrow> p_objs P' com = None \<and> f \<in> hash_data ?h" using ob(3) by (auto simp: P'_def objs_def)
  moreover have "\<forall>d \<in> hash_data ?h. d \<noteq> f \<longrightarrow> p_objs P' d = ?o d" using com_new by (auto simp: P'_def objs_def)
  ultimately show ?thesis
    using run ob2(1) sh [of P' ob2] ob2 by (intro exI [of _ f] exI [of _ P'] exI [of _ ob2]) (simp add: P'_def)
qed

text \<open>Releasing a reference; the last one frees the object.\<close>

lemma unintern_run:
  assumes inv: "pool_inv hk hc P" and peer: "routing_db peer"
    and com: "com \<in> hash_data (p_hash P)" "p_objs P com = Some c"
  defines "objs \<equiv> (p_objs P)(com := Some (c\<lparr>refcnt := refcnt c - 1\<rparr>))"
  obtains P' where "pool_unintern peer hk hc P com = Inr P'" "pool_inv hk hc P'"
    "if refcnt c = 1 then p_objs P' = objs(com := None) \<and> hash_data (p_hash P') = hash_data (p_hash P) - {com}
     else p_objs P' = objs \<and> p_hash P' = p_hash P"
proof -
  let ?h = "p_hash P" and ?o = "p_objs P"
  have wf: "hash_wf (pool_key hk ?o) (pool_cmp hc ?o) ?h"
      and alive: "\<And>d. d \<in> hash_data ?h \<Longrightarrow> \<exists>ob. ?o d = Some ob \<and> refcnt ob \<noteq> 0"
    using inv by (auto simp: pool_inv_def)
  have nz: "refcnt c \<noteq> 0" using alive [OF com(1)] com(2) by simp
  define c1 where "c1 = c\<lparr>refcnt := refcnt c - 1\<rparr>"
  have objs: "objs = ?o(com := Some c1)" by (simp add: objs_def c1_def)
  have val1: "map_option val (objs d) = map_option val (?o d)" for d
    using com(2) val_upd by (simp add: objs c1_def)
  then have wf1: "hash_wf (pool_key hk objs) (pool_cmp hc objs) ?h" using wf pool_inv_cong [of ?h objs ?o] by simp
  show ?thesis
  proof (cases "refcnt c = 1")
    case True
    obtain h' where rel: "hash_release (pool_key hk objs) (pool_cmp hc objs) ?h com = Inr (Some com, h')"
        "hash_wf (pool_key hk objs) (pool_cmp hc objs) h'" "hash_data h' = hash_data ?h - {com}"
      using keys.hash_release_data [OF wf1 com(1)] by blast
    let ?P = "\<lparr>p_objs = objs(com := None), p_hash = h'\<rparr>"
    have "hash_wf (pool_key hk (objs(com := None))) (pool_cmp hc (objs(com := None))) h'"
      using rel(2,3) pool_inv_cong [of h' "objs(com := None)" objs] by auto
    then have "pool_inv hk hc ?P" using rel(3) alive by (auto simp: pool_inv_def objs)
    moreover have "pool_unintern peer hk hc P com = Inr ?P"
      using peer com(2) rel(1) True by (simp add: pool_unintern_def deref_def Let_def c1_def objs)
    ultimately show ?thesis using that [of ?P] True rel(3) by simp
  next
    case False
    then have "refcnt c1 \<noteq> 0" by (simp add: c1_def)
    moreover from this have "pool_inv hk hc (P\<lparr>p_objs := objs\<rparr>)"
      using wf1 alive by (auto simp: pool_inv_def objs)
    moreover have "pool_unintern peer hk hc P com = Inr (P\<lparr>p_objs := objs\<rparr>)"
      using peer com(2) nz \<open>refcnt c1 \<noteq> 0\<close>
      by (simp add: pool_unintern_def deref_def Let_def c1_def [symmetric] objs [symmetric] del: fun_upd_apply)
    ultimately show ?thesis using that [of "P\<lparr>p_objs := objs\<rparr>"] False by simp
  qed
qed

lemma unintern_refines:
  assumes inv: "pool_inv hk hc P" and peer: "routing_db peer"
    and com: "com \<in> hash_data (p_hash P)" "p_objs P com = Some c"
  shows "\<exists>P'. pool_unintern peer hk hc P com = Inr P' \<and> pool_inv hk hc P' \<and>
     (refcnt c = 1 \<longrightarrow> p_objs P' com = None \<and> com \<notin> hash_data (p_hash P')) \<and>
     (\<forall>v. pool_abs val P' v = pool_abs val P v - (if v = val c then 1 else 0))"
proof -
  define objs where "objs = (p_objs P)(com := Some (c\<lparr>refcnt := refcnt c - 1\<rparr>))"
  obtain P' where run: "pool_unintern peer hk hc P com = Inr P'" and inv': "pool_inv hk hc P'"
      and P': "if refcnt c = 1 then p_objs P' = objs(com := None) \<and> hash_data (p_hash P') = hash_data (p_hash P) - {com}
        else p_objs P' = objs \<and> p_hash P' = p_hash P"
    using unintern_run [OF inv peer com] unfolding objs_def by metis
  have abs: "pool_abs val P' v = pool_abs val P v - (if v = val c then 1 else 0)" for v
  proof (cases "v = val c")
    case v: True
    have "pool_abs val P (val c) = refcnt c" using pool_abs_interned [OF inv com] .
    moreover have "pool_abs val P' (val c) = refcnt c - 1"
    proof (cases "refcnt c = 1")
      case True
      have "val x \<noteq> val c" if "d \<in> hash_data (p_hash P')" "p_objs P' d = Some x" for d x
        using that P' True interned_unique [OF inv _ com(1) _ com(2), of d x] by (auto simp: objs_def)
      then show ?thesis using pool_abs_none [of P' "val c"] True by simp
    next
      case False
      then show ?thesis
        using pool_abs_interned [OF inv', of com "c\<lparr>refcnt := refcnt c - 1\<rparr>"] P' com(1) val_upd by (simp add: objs_def)
    qed
    ultimately show ?thesis using v by simp
  next
    case False
    have "pool_abs val P' v = pool_abs val P v"
      using P' com(2) False val_upd
      by (intro pool_abs_other [OF inv inv', of com "val c"]) (auto simp: objs_def split: if_splits)
    with False show ?thesis by simp
  qed
  have "refcnt c = 1 \<longrightarrow> p_objs P' com = None \<and> com \<notin> hash_data (p_hash P')" using P' by simp
  with run inv' abs show ?thesis by blast
qed

end

end
