(* ===== verification/Bgp_Aspath.thy ===== *)
theory Bgp_Aspath
  imports Bgp_Hash Jhash
begin

text \<open>
  Model of \<^verbatim>\<open>src/src/bgp/bgp_aspath.c\<close>: AS paths, their parsing from the wire, normal form,
  printed form, interning and the reconciliation of AS_PATH with AS4_PATH. A chain of
  segments is owned by one path and modelled as a list; the length of a segment is the length
  of its array. Allocation is taken to succeed.
\<close>

section \<open>Data\<close>

definition AS_SET :: byte where "AS_SET = 1"
definition AS_SEQUENCE :: byte where "AS_SEQUENCE = 2"
definition AS_CONFED_SEQUENCE :: byte where "AS_CONFED_SEQUENCE = 3"
definition AS_CONFED_SET :: byte where "AS_CONFED_SET = 4"

lemmas as_types = AS_SET_def AS_SEQUENCE_def AS_CONFED_SEQUENCE_def AS_CONFED_SET_def

definition AS_SEGMENT_MAX :: nat where "AS_SEGMENT_MAX = 255"
definition BGP_PRIVATE_AS_MIN :: u32 where "BGP_PRIVATE_AS_MIN = 64512"
definition BGP_PRIVATE_AS_MAX :: u32 where "BGP_PRIVATE_AS_MAX = 65535"
definition BGP_AS_MAX :: u32 where "BGP_AS_MAX = 65535"

record assegment =
  seg_type :: byte
  seg_as :: "u32 list"

abbreviation seg_length :: "assegment \<Rightarrow> nat" where
  "seg_length seg \<equiv> length (seg_as seg)"

record aspath = pooled +
  segments :: "assegment list"
  last_as :: u32

definition ASSEGMENT_DATA_SIZE :: "nat \<Rightarrow> bool \<Rightarrow> nat" where
  "ASSEGMENT_DATA_SIZE n use32bit = n * (if use32bit then 4 else 2)"

definition ASSEGMENT_SIZE :: "nat \<Rightarrow> bool \<Rightarrow> nat" where
  "ASSEGMENT_SIZE n use32bit = 2 + ASSEGMENT_DATA_SIZE n use32bit"

definition ASSEGMENT_TYPES_PACKABLE :: "assegment \<Rightarrow> assegment \<Rightarrow> bool" where
  "ASSEGMENT_TYPES_PACKABLE x y \<longleftrightarrow> seg_type x = seg_type y \<and> seg_type x = AS_SEQUENCE"

section \<open>Segments\<close>

definition assegment_new :: "byte \<Rightarrow> nat \<Rightarrow> assegment" where
  "assegment_new ty len = \<lparr>seg_type = ty, seg_as = replicate len 0\<rparr>"

definition assegment_dup :: "assegment \<Rightarrow> assegment" where
  "assegment_dup seg = (assegment_new (seg_type seg) (seg_length seg))\<lparr>seg_as := seg_as seg\<rparr>"

definition assegment_dup_all :: "assegment list \<Rightarrow> assegment list" where
  "assegment_dup_all segs = map assegment_dup segs"

definition assegment_prepend_asns :: "assegment \<Rightarrow> u32 \<Rightarrow> nat \<Rightarrow> assegment" where
  "assegment_prepend_asns seg asnum num =
     (if num = 0 then seg
      else if num \<ge> AS_SEGMENT_MAX then seg
      else seg\<lparr>seg_as := replicate num asnum @ seg_as seg\<rparr>)"

definition assegment_append_asns :: "assegment \<Rightarrow> u32 list \<Rightarrow> nat \<Rightarrow> assegment res" where
  "assegment_append_asns seg asnos num =
     (if num \<le> length asnos then Inr (seg\<lparr>seg_as := seg_as seg @ take num asnos\<rparr>) else Inl Out_Of_Bounds)"

definition int_cmp :: "u32 \<Rightarrow> u32 \<Rightarrow> int" where
  "int_cmp as1 as2 = (if as1 = as2 then 0 else if as1 > as2 then 1 else - 1)"

text \<open>The loop that weeds out the duplicates of a sorted array: \<open>i\<close> runs over it, the last of
  the \<open>k\<close> positions left; \<open>tail\<close> is the last position kept.\<close>

fun weed :: "u32 list \<Rightarrow> nat \<Rightarrow> nat \<Rightarrow> nat \<Rightarrow> u32 list \<times> nat" where
  "weed xs tail i 0 = (xs, tail)"
| "weed xs tail i (Suc k) =
     (if xs ! tail = xs ! i then weed xs tail (i + 1) k
      else weed (if tail + 1 < i then xs[tail + 1 := xs ! i] else xs) (tail + 1) (i + 1) k)"

text \<open>\<^verbatim>\<open>qsort\<close> with \<^verbatim>\<open>int_cmp\<close>, then the weeding.\<close>

definition normalise_set :: "assegment \<Rightarrow> assegment" where
  "normalise_set seg =
     (if seg_type seg = AS_SET \<or> seg_type seg = AS_CONFED_SET then
        let xs = sort (seg_as seg); (ys, tail) = weed xs 0 1 (length xs - 1)
        in seg\<lparr>seg_as := (if seg_length seg \<noteq> 0 then take (tail + 1) ys else ys)\<rparr>
      else seg)"

text \<open>Appending the following packable segments to the pinned one.\<close>

fun pack :: "assegment \<Rightarrow> assegment list \<Rightarrow> assegment \<times> assegment list" where
  "pack pin [] = (pin, [])"
| "pack pin (seg # rest) =
     (if ASSEGMENT_TYPES_PACKABLE pin seg then pack (pin\<lparr>seg_as := seg_as pin @ seg_as seg\<rparr>) rest
      else (pin, seg # rest))"

lemma length_pack: "length (snd (pack pin segs)) \<le> length segs"
  by (induction pin segs rule: pack.induct) auto

function assegment_normalise :: "assegment list \<Rightarrow> assegment list" where
  "assegment_normalise [] = []"
| "assegment_normalise (seg # rest) =
     (let p = pack (normalise_set seg) rest in fst p # assegment_normalise (snd p))"
  by pat_completeness auto
termination
  by (relation "measure length") (simp_all add: length_pack le_imp_less_Suc)

section \<open>Paths\<close>

definition aspath_new :: "bgp_peer_type option \<Rightarrow> aspath option" where
  "aspath_new peer =
     (if misc_db peer then Some \<lparr>refcnt = 0, str = None, segments = [], last_as = 0\<rparr> else None)"

definition aspath_delimiter_char :: "byte \<Rightarrow> bool \<Rightarrow> char" where
  "aspath_delimiter_char ty end =
     (if ty = AS_SET then (if end then CHR ''}'' else CHR ''{'')
      else if ty = AS_CONFED_SET then (if end then CHR '']'' else CHR ''['')
      else if ty = AS_CONFED_SEQUENCE then (if end then CHR '')'' else CHR ''('')
      else CHR '' '')"

fun assegment_count_asns :: "assegment list \<Rightarrow> int \<Rightarrow> int" where
  "assegment_count_asns [] from = 0"
| "assegment_count_asns (seg # rest) from =
     (if from = 0 then int (seg_length seg) + assegment_count_asns rest 0
      else (int (seg_length seg) - from) + assegment_count_asns rest 0)"

fun aspath_count_confeds :: "assegment list \<Rightarrow> nat" where
  "aspath_count_confeds [] = 0"
| "aspath_count_confeds (seg # rest) =
     (if seg_type seg = AS_CONFED_SEQUENCE then seg_length seg
      else if seg_type seg = AS_CONFED_SET then 1 else 0) + aspath_count_confeds rest"

fun aspath_count_hops :: "assegment list \<Rightarrow> nat" where
  "aspath_count_hops [] = 0"
| "aspath_count_hops (seg # rest) =
     (if seg_type seg = AS_SEQUENCE then seg_length seg
      else if seg_type seg = AS_SET then 1 else 0) + aspath_count_hops rest"

fun aspath_size :: "assegment list \<Rightarrow> nat" where
  "aspath_size [] = 0"
| "aspath_size (seg # rest) = ASSEGMENT_SIZE (seg_length seg) True + aspath_size rest"

definition public_as :: "u32 \<Rightarrow> bool" where
  "public_as a \<longleftrightarrow> a < BGP_PRIVATE_AS_MIN \<or> a > BGP_PRIVATE_AS_MAX"

definition aspath_highest :: "aspath \<Rightarrow> u32" where
  "aspath_highest p =
     fold (\<lambda>seg highest. fold (\<lambda>a h. if a > h \<and> public_as a then a else h) (seg_as seg) highest) (segments p) 0"

definition aspath_has_as4 :: "aspath \<Rightarrow> bool" where
  "aspath_has_as4 p \<longleftrightarrow> list_ex (\<lambda>seg. list_ex (\<lambda>a. a > BGP_AS_MAX) (seg_as seg)) (segments p)"

definition aspath_count_numas :: "aspath \<Rightarrow> nat" where
  "aspath_count_numas p = sum_list (map (\<lambda>seg. seg_length seg) (segments p))"

section \<open>Printing\<close>

text \<open>\<^verbatim>\<open>snprintf\<close> at the end of the text so far, in a buffer of \<open>size\<close> characters. A result that
  does not fit leaves \<^verbatim>\<open>len\<close> past the buffer, which the final assertion rejects.\<close>

definition snprint :: "nat \<Rightarrow> string \<Rightarrow> string \<Rightarrow> string res" where
  "snprint n t s = (if length t + length s < n then Inr (t @ s) else Inl Assert_Failed)"

definition ASN_STR_LEN :: nat where "ASN_STR_LEN = 11"
definition ASPATH_STR_DEFAULT_LEN :: nat where "ASPATH_STR_DEFAULT_LEN = 32"

definition SEGMENT_STR_LEN :: "assegment \<Rightarrow> nat" where
  "SEGMENT_STR_LEN seg = seg_length seg * ASN_STR_LEN + 2 + 1 + 1"

definition seg_seperator :: "byte \<Rightarrow> char option" where
  "seg_seperator ty =
     (if ty = AS_SET \<or> ty = AS_CONFED_SET then Some (CHR '','')
      else if ty = AS_SEQUENCE \<or> ty = AS_CONFED_SEQUENCE then Some (CHR '' '')
      else None)"

fun put_asns :: "nat \<Rightarrow> char \<Rightarrow> string \<Rightarrow> u32 list \<Rightarrow> string res" where
  "put_asns n sep t [] = Inr t"
| "put_asns n sep t (a # rest) =
     rbind (snprint n t (dec_str (unat a))) (\<lambda>t1.
     rbind (if rest \<noteq> [] then snprint n t1 [sep] else Inr t1) (\<lambda>t2. put_asns n sep t2 rest))"

definition put_segment :: "nat \<Rightarrow> char \<Rightarrow> string \<Rightarrow> assegment \<Rightarrow> bool \<Rightarrow> string res" where
  "put_segment n sep t seg cont =
     rbind (if seg_type seg \<noteq> AS_SEQUENCE then snprint n t [aspath_delimiter_char (seg_type seg) False] else Inr t) (\<lambda>t1.
     rbind (put_asns n sep t1 (seg_as seg)) (\<lambda>t2.
     rbind (if seg_type seg \<noteq> AS_SEQUENCE then snprint n t2 [aspath_delimiter_char (seg_type seg) True] else Inr t2) (\<lambda>t3.
       if cont then snprint n t3 '' '' else Inr t3)))"

fun put_segments :: "nat \<Rightarrow> string \<Rightarrow> u32 \<Rightarrow> assegment list \<Rightarrow> (string option \<times> u32) res" where
  "put_segments n t la [] = (if length t < n then Inr (Some t, la) else Inl Assert_Failed)"
| "put_segments n t la (seg # rest) = (case seg_seperator (seg_type seg) of
       None \<Rightarrow> Inr (None, la)
     | Some sep \<Rightarrow>
         let n' = (if length t + SEGMENT_STR_LEN seg > n then length t + SEGMENT_STR_LEN seg else n) in
         rbind (put_segment n' sep t seg (rest \<noteq> [])) (\<lambda>t'.
           put_segments n' t' (if seg_as seg = [] then la else last (seg_as seg)) rest))"

text \<open>The string (NULL for a path with an unknown segment type) and the new \<^verbatim>\<open>last_as\<close>.\<close>

definition aspath_make_str_count :: "aspath \<Rightarrow> (string option \<times> u32) res" where
  "aspath_make_str_count p =
     (if segments p = [] then Inr (Some [], last_as p)
      else put_segments (max (nat (assegment_count_asns (segments p) 0) * ASN_STR_LEN + 2 + 1) ASPATH_STR_DEFAULT_LEN)
             [] (last_as p) (segments p))"

definition aspath_str_update :: "aspath \<Rightarrow> aspath res" where
  "aspath_str_update p = rbind (aspath_make_str_count p) (\<lambda>(s, la). Inr (p\<lparr>str := s, last_as := la\<rparr>))"

definition aspath_print :: "aspath option \<Rightarrow> string option" where
  "aspath_print p = (case p of None \<Rightarrow> None | Some a \<Rightarrow> str a)"

definition aspath_dup :: "aspath \<Rightarrow> aspath res" where
  "aspath_dup p =
     rbind (aspath_make_str_count p) (\<lambda>(s, la).
       Inr \<lparr>refcnt = 0, str = s, segments = assegment_dup_all (segments p), last_as = la\<rparr>)"

section \<open>Parsing\<close>

text \<open>The numbers of one segment, \<open>n\<close> of them from offset \<open>i\<close> on.\<close>

fun rd_asns :: "byte list \<Rightarrow> nat \<Rightarrow> bool \<Rightarrow> nat \<Rightarrow> u32 list res" where
  "rd_asns s i use32bit 0 = Inr []"
| "rd_asns s i use32bit (Suc n) =
     (if use32bit then rbind (rd_be32 s i) (\<lambda>a. rbind (rd_asns s (i + 4) use32bit n) (\<lambda>xs. Inr (a # xs)))
      else rbind (rd_be16 s i) (\<lambda>a. rbind (rd_asns s (i + 2) use32bit n) (\<lambda>xs. Inr (ucast a # xs))))"

text \<open>The loop of \<^verbatim>\<open>assegments_parse\<close>: \<open>i\<close> is \<^verbatim>\<open>bytes\<close>, and \<^verbatim>\<open>aspathlen\<close> what is left of \<open>len\<close>;
  the result is \<open>None\<close> for NULL.\<close>

function segs_loop :: "byte list \<Rightarrow> nat \<Rightarrow> bool \<Rightarrow> nat \<Rightarrow> assegment list \<Rightarrow> assegment list option res" where
  "segs_loop s len use32bit i head =
     (if i = len then Inr (Some (rev head))
      else rbind (rd8 s i) (\<lambda>ty. rbind (rd8 s (i + 1)) (\<lambda>n.
        let seg_size = ASSEGMENT_SIZE (unat n) use32bit in
        if i + seg_size > len \<or> n = 0 then Inr None
        else rbind (rd_asns s (i + 2) use32bit (unat n)) (\<lambda>xs.
          segs_loop s len use32bit (i + seg_size) (\<lparr>seg_type = ty, seg_as = xs\<rparr> # head)))))"
  by pat_completeness auto
termination
  by (relation "measure (\<lambda>(s, len, u, i, head). len - i)") (auto simp: ASSEGMENT_SIZE_def)

declare segs_loop.simps [simp del]

definition assegments_parse :: "byte list \<Rightarrow> nat \<Rightarrow> bool \<Rightarrow> assegment list res" where
  "assegments_parse s len use32bit =
     (if len = 0 then Inr []
      else if len mod 2 \<noteq> 0 then Inr []
      else rbind (segs_loop s len use32bit 0 []) (\<lambda>r.
        case r of None \<Rightarrow> Inr [] | Some segs \<Rightarrow> Inr (assegment_normalise segs)))"

section \<open>Interning\<close>

definition str_bytes :: "string \<Rightarrow> byte list" where
  "str_bytes s = map (\<lambda>c. word_of_nat (of_char c)) s"

text \<open>\<^verbatim>\<open>aspath_key_make\<close> caches the string in the path; \<^verbatim>\<open>strlen\<close> of a NULL string is a fault.\<close>

definition aspath_key_make :: "aspath \<Rightarrow> (u32 \<times> aspath) res" where
  "aspath_key_make p =
     rbind (if str p = None then aspath_str_update p else Inr p) (\<lambda>p1. case str p1 of
         None \<Rightarrow> Inl Null_Deref
       | Some s \<Rightarrow> rbind (jhash (str_bytes s) (word_of_nat (length s)) 2334325) (\<lambda>key. Inr (key, p1)))"

definition aspath_key :: "aspath \<Rightarrow> u32" where
  "aspath_key p = (case aspath_key_make p of Inl _ \<Rightarrow> 0 | Inr (k, _) \<Rightarrow> k)"

fun segs_cmp :: "assegment list \<Rightarrow> assegment list \<Rightarrow> bool" where
  "segs_cmp [] [] = True"
| "segs_cmp (x # xs) (y # ys) =
     (seg_type x = seg_type y \<and> seg_length x = seg_length y \<and>
      list_all2 (=) (seg_as x) (seg_as y) \<and> segs_cmp xs ys)"
| "segs_cmp _ _ = False"

definition aspath_cmp :: "aspath option \<Rightarrow> aspath option \<Rightarrow> bool" where
  "aspath_cmp p q = (case (p, q) of
       (Some a, Some b) \<Rightarrow> segs_cmp (segments a) (segments b)
     | (None, None) \<Rightarrow> True
     | _ \<Rightarrow> False)"

definition aspath_init :: "u32 \<Rightarrow> aspath pool" where
  "aspath_init buckets = \<lparr>p_objs = (\<lambda>_. None), p_hash = hash_create_size 32767\<rparr>"

definition aspath_free :: "(addr \<Rightarrow> aspath option) \<Rightarrow> addr \<Rightarrow> (addr \<Rightarrow> aspath option)" where
  "aspath_free objs a = objs(a := None)"

text \<open>\<^verbatim>\<open>aspath_hash_alloc\<close>: the duplicate, or NULL when it has no string.\<close>

definition aspath_hash_alloc :: "aspath \<Rightarrow> aspath option res" where
  "aspath_hash_alloc p = rbind (aspath_dup p) (\<lambda>d. Inr (if str d = None then None else Some d))"

definition aspath_intern :: "bgp_peer_type option \<Rightarrow> aspath pool \<Rightarrow> addr \<Rightarrow> (addr option \<times> aspath pool) res" where
  "aspath_intern peer P a =
     (if \<not> routing_db peer then Inr (None, P)
      else rbind (deref (p_objs P) a) (\<lambda>c. rbind (rassert (refcnt c = 0) Assert_Failed) (\<lambda>_.
        rbind (aspath_key_make c) (\<lambda>(key, c1).
        let objs1 = (p_objs P)(a := Some c1) in
        rbind (hash_get peer (pool_key aspath_key objs1) (pool_cmp aspath_cmp objs1)
                 (p_hash P) a (Some hash_alloc_intern)) (\<lambda>(find, h).
          let objs = (if find \<noteq> Some a then aspath_free objs1 a else objs1) in
          case find of
            None \<Rightarrow> Inl Null_Deref
          | Some f \<Rightarrow>
              rbind (deref objs f) (\<lambda>ob. let ob1 = ob\<lparr>refcnt := refcnt ob + 1\<rparr> in
              rbind (if str ob1 = None then aspath_str_update ob1 else Inr ob1) (\<lambda>ob2.
                Inr (Some f, \<lparr>p_objs = objs(f := Some ob2), p_hash = h\<rparr>))))))))"

definition aspath_unintern :: "bgp_peer_type option \<Rightarrow> aspath pool \<Rightarrow> addr \<Rightarrow> aspath pool res" where
  "aspath_unintern peer P a =
     (if \<not> routing_db peer then Inr P
      else rbind (deref (p_objs P) a) (\<lambda>c.
        let c1 = (if refcnt c \<noteq> 0 then c\<lparr>refcnt := refcnt c - 1\<rparr> else c);
            objs = (p_objs P)(a := Some c1)
        in if refcnt c1 = 0 then
             rbind (aspath_key_make c1) (\<lambda>_.
             rbind (hash_release (pool_key aspath_key objs) (pool_cmp aspath_cmp objs) (p_hash P) a)
               (\<lambda>(ret, h). rbind (rassert (ret \<noteq> None) Assert_Failed) (\<lambda>_.
                 Inr \<lparr>p_objs = aspath_free objs a, p_hash = h\<rparr>)))
           else Inr (P\<lparr>p_objs := objs\<rparr>)))"

text \<open>\<^verbatim>\<open>aspath_parse\<close>: \<open>tmp\<close> is the address of the local path \<^verbatim>\<open>as\<close>, \<open>fresh\<close> the address a
  duplicate of it is allocated at.\<close>

definition aspath_parse :: "bgp_peer_type option \<Rightarrow> aspath pool \<Rightarrow> addr \<Rightarrow> addr \<Rightarrow> byte list \<Rightarrow> nat \<Rightarrow> bool
    \<Rightarrow> (addr option \<times> aspath pool) res" where
  "aspath_parse peer P tmp fresh s len use32bit =
     (if \<not> routing_db peer then Inr (None, P)
      else if len mod 2 \<noteq> 0 then Inr (None, P)
      else rbind (assegments_parse s len use32bit) (\<lambda>segs.
        if \<not> misc_db peer then Inr (None, P)
        else rbind (aspath_key_make \<lparr>refcnt = 0, str = None, segments = segs, last_as = 0\<rparr>) (\<lambda>(key, as1).
        rbind (aspath_hash_alloc as1) (\<lambda>dup.
        let objs1 = (p_objs P)(tmp := Some as1) in
        rbind (hash_get peer (pool_key aspath_key objs1) (pool_cmp aspath_cmp objs1) (p_hash P) tmp
                 (Some (\<lambda>_. if dup = None then None else Some fresh))) (\<lambda>(find, h).
          case find of
            None \<Rightarrow> Inr (None, P\<lparr>p_hash := h\<rparr>)
          | Some f \<Rightarrow>
              let objs = (if f = fresh \<and> f \<notin> hash_data (p_hash P) then (p_objs P)(fresh := dup) else p_objs P) in
              rbind (deref objs f) (\<lambda>ob.
                Inr (Some f, \<lparr>p_objs = objs(f := Some (ob\<lparr>refcnt := refcnt ob + 1\<rparr>)), p_hash = h\<rparr>)))))))"

section \<open>Checks\<close>

definition aspath_firstas_check :: "aspath option \<Rightarrow> u32 \<Rightarrow> bool res" where
  "aspath_firstas_check p asno = (case p of
       None \<Rightarrow> Inr False
     | Some a \<Rightarrow> (case segments a of
         [] \<Rightarrow> Inr False
       | seg # _ \<Rightarrow>
           if seg_type seg = AS_SEQUENCE then rbind (rd32 (seg_as seg) 0) (\<lambda>x. Inr (x = asno)) else Inr False))"

definition aspath_loop_check :: "aspath option \<Rightarrow> u32 \<Rightarrow> nat" where
  "aspath_loop_check p asno = (case p of
       None \<Rightarrow> 0
     | Some a \<Rightarrow> sum_list (map (\<lambda>seg. length (filter (\<lambda>x. x = asno) (seg_as seg))) (segments a)))"

definition aspath_private_as_check :: "aspath option \<Rightarrow> bool" where
  "aspath_private_as_check p = (case p of
       None \<Rightarrow> False
     | Some a \<Rightarrow> segments a \<noteq> [] \<and>
         list_all (\<lambda>seg. list_all (\<lambda>x. \<not> (x < BGP_PRIVATE_AS_MIN \<or> x > BGP_PRIVATE_AS_MAX)) (seg_as seg)) (segments a))"

definition skip_confeds :: "assegment list \<Rightarrow> assegment list" where
  "skip_confeds segs = dropWhile (\<lambda>seg. seg_type seg = AS_CONFED_SEQUENCE \<or> seg_type seg = AS_CONFED_SET) segs"

definition aspath_cmp_left :: "aspath option \<Rightarrow> aspath option \<Rightarrow> bool res" where
  "aspath_cmp_left p q = (case (p, q) of
       (Some a, Some b) \<Rightarrow> (case (skip_confeds (segments a), skip_confeds (segments b)) of
           (x # _, y # _) \<Rightarrow>
             if seg_type x = AS_SEQUENCE \<and> seg_type y = AS_SEQUENCE then
               rbind (rd32 (seg_as x) 0) (\<lambda>v. rbind (rd32 (seg_as y) 0) (\<lambda>w. Inr (v = w)))
             else Inr False
         | _ \<Rightarrow> Inr False)
     | _ \<Rightarrow> Inr False)"

definition aspath_cmp_left_confed :: "aspath option \<Rightarrow> aspath option \<Rightarrow> bool res" where
  "aspath_cmp_left_confed p q = (case (p, q) of
       (Some a, Some b) \<Rightarrow> (case (segments a, segments b) of
           (x # _, y # _) \<Rightarrow>
             if seg_type x \<noteq> AS_CONFED_SEQUENCE \<or> seg_type y \<noteq> AS_CONFED_SEQUENCE then Inr False
             else rbind (rd32 (seg_as x) 0) (\<lambda>v. rbind (rd32 (seg_as y) 0) (\<lambda>w. Inr (v = w)))
         | _ \<Rightarrow> Inr False)
     | _ \<Rightarrow> Inr False)"

section \<open>Reconciliation of AS_PATH and AS4_PATH\<close>

definition aspath_merge :: "aspath option \<Rightarrow> aspath option \<Rightarrow> aspath option res" where
  "aspath_merge as1 as2 = (case (as1, as2) of
       (Some a, Some b) \<Rightarrow>
         let new = assegment_dup_all (segments a) in
         if new = [] then Inl Null_Deref
         else rbind (aspath_str_update (b\<lparr>segments := new @ segments b\<rparr>)) (\<lambda>b'. Inr (Some b'))
     | _ \<Rightarrow> Inr None)"

text \<open>The switch on the segment type: the new \<^verbatim>\<open>hops\<close> and \<^verbatim>\<open>cpasns\<close>. An unknown type leaves both
  as they are.\<close>

definition reconcile_counts :: "assegment \<Rightarrow> int \<Rightarrow> nat \<Rightarrow> int \<times> nat" where
  "reconcile_counts seg hops cpasns =
     (let n = seg_length seg in
      if seg_type seg = AS_SET \<or> seg_type seg = AS_CONFED_SET then (hops - 1, n)
      else if seg_type seg = AS_CONFED_SEQUENCE then
        let h = (if hops < int n then int n else hops) in (h - int n, min n (nat h))
      else if seg_type seg = AS_SEQUENCE then (hops - int n, min n (nat hops))
      else (hops, cpasns))"

text \<open>The loop that copies the leading hops; the copied segments in order.\<close>

fun reconcile_loop :: "assegment list \<Rightarrow> int \<Rightarrow> nat \<Rightarrow> assegment list res" where
  "reconcile_loop [] hops cpasns = Inr []"
| "reconcile_loop (seg # rest) hops cpasns =
     (if hops > 0 then
        let (hops', cp) = reconcile_counts seg hops cpasns in
        rbind (rassert (cp \<le> seg_length seg) Assert_Failed) (\<lambda>_.
        rbind (assegment_append_asns (assegment_new (seg_type seg) 0) (seg_as seg) cp) (\<lambda>newseg.
        rbind (reconcile_loop rest hops' cp) (\<lambda>segs. Inr (newseg # segs))))
      else Inr [])"

definition aspath_reconcile_as4 :: "bgp_peer_type option \<Rightarrow> aspath option \<Rightarrow> aspath \<Rightarrow> aspath option res" where
  "aspath_reconcile_as4 peer p as4path = (case p of
       None \<Rightarrow> Inr None
     | Some a \<Rightarrow>
         if peer = None then Inr None
         else let hops0 = int (aspath_count_hops (segments a)) + int (aspath_count_confeds (segments a))
                          - int (aspath_count_hops (segments as4path));
                  hops = (if hops0 < 0 then int (aspath_count_hops (segments a)) else hops0)
              in if hops = 0 then rbind (aspath_dup as4path) (\<lambda>d. Inr (Some d))
                 else rbind (reconcile_loop (segments a) hops 0) (\<lambda>segs.
                   rbind (if segs = [] then Inr None
                          else case aspath_new peer of
                                 None \<Rightarrow> Inl Null_Deref
                               | Some new \<Rightarrow> Inr (Some (new\<lparr>segments := segs\<rparr>))) (\<lambda>newpath.
                   rbind (aspath_dup as4path) (\<lambda>d.
                   rbind (aspath_merge newpath (Some d)) (\<lambda>merged. case merged of
                       None \<Rightarrow> Inl Null_Deref
                     | Some m \<Rightarrow>
                         rbind (aspath_str_update (m\<lparr>segments := assegment_normalise (segments m)\<rparr>)) (\<lambda>m'. Inr (Some m')))))))"

end
