(* ===== verification/Bgp_Aspath_Props.thy ===== *)
theory Bgp_Aspath_Props
  imports Bgp_Aspath
begin

text \<open>
  Correctness of \<^verbatim>\<open>src/src/bgp/bgp_aspath.c\<close>: the normal form of paths, parsing of the wire
  format, the bounds of the printed form, interning, and reconciliation with AS4_PATH.
\<close>

section \<open>Normal form\<close>

lemma weed_eq:
  assumes "i + k = length xs" "tail < i" "length ys = length xs" "drop i ys = drop i xs"
    "take (tail + 1) ys = remdups_adj (take i xs)"
  shows "\<exists>zs t. weed ys tail i k = (zs, t) \<and> t < length xs \<and> length zs = length xs \<and>
     take (t + 1) zs = remdups_adj xs"
  using assms
proof (induction k arbitrary: i tail ys)
  case 0
  then show ?case by simp
next
  case (Suc k)
  have i: "i < length xs" "i \<noteq> 0" using Suc.prems(1,2) by simp_all
  have yi: "ys ! i = xs ! i" using arg_cong [OF Suc.prems(4), of hd] i Suc.prems(3) by (simp add: hd_drop_conv_nth)
  have ne: "take i xs \<noteq> []" using i by auto
  have tl: "ys ! tail = xs ! (i - 1)"
  proof -
    have "ys ! tail = last (take (tail + 1) ys)"
      using Suc.prems(2,3) i by (simp add: take_Suc_conv_app_nth)
    also have "\<dots> = last (take i xs)" using Suc.prems(5) last_remdups_adj ne by metis
    also have "\<dots> = xs ! (i - 1)" using i ne by (simp add: last_conv_nth)
    finally show ?thesis .
  qed
  have "take (Suc i) xs = take (i - 1) xs @ [xs ! (i - 1), xs ! i]"
    using i by (cases i) (simp_all add: take_Suc_conv_app_nth)
  moreover have "take i xs = take (i - 1) xs @ [xs ! (i - 1)]"
    using i by (cases i) (simp_all add: take_Suc_conv_app_nth)
  ultimately have step: "remdups_adj (take (Suc i) xs) =
      remdups_adj (take i xs) @ (if xs ! (i - 1) = xs ! i then [] else [xs ! i])"
    by (simp add: remdups_adj_append_two)
  have dr: "drop (Suc i) zs = drop (Suc i) xs" if "drop i zs = drop i xs" for zs
    using arg_cong [OF that, of "drop 1"] by simp
  show ?case
  proof (cases "ys ! tail = ys ! i")
    case True
    have "take (tail + 1) ys = remdups_adj (take (i + 1) xs)"
      using Suc.prems(5) step tl yi True by simp
    then have "\<exists>zs t. weed ys tail (i + 1) k = (zs, t) \<and> t < length xs \<and> length zs = length xs \<and>
        take (t + 1) zs = remdups_adj xs"
      using Suc.prems(1,2,3) dr [OF Suc.prems(4)] by (intro Suc.IH) simp_all
    then show ?thesis using True by simp
  next
    case False
    define zs where "zs = (if tail + 1 < i then ys[tail + 1 := ys ! i] else ys)"
    have lt: "tail + 1 < length ys" using Suc.prems(2,3) i by simp
    have z1: "zs ! (tail + 1) = xs ! i"
    proof (cases "tail + 1 < i")
      case False
      then have "tail + 1 = i" using Suc.prems(2) by simp
      then show ?thesis using yi by (simp add: zs_def)
    qed (use lt yi in \<open>simp add: zs_def\<close>)
    have z2: "length zs = length xs" using Suc.prems(3) by (simp add: zs_def)
    have z3: "drop (i + 1) zs = drop (i + 1) xs" using dr [OF Suc.prems(4)] by (simp add: zs_def)
    have z4: "take (tail + 1) zs = take (tail + 1) ys" by (simp add: zs_def)
    have "take (tail + 1 + 1) zs = remdups_adj (take (i + 1) xs)"
      using z1 z2 z4 lt Suc.prems(3,5) step tl yi False by (simp add: take_Suc_conv_app_nth)
    then have "\<exists>us t. weed zs (tail + 1) (i + 1) k = (us, t) \<and> t < length xs \<and> length us = length xs \<and>
        take (t + 1) us = remdups_adj xs"
      using Suc.prems(1,2) z2 z3 by (intro Suc.IH) simp_all
    then show ?thesis using False by (simp add: zs_def)
  qed
qed

lemma sorted_remdups_adj_distinct: "sorted xs \<Longrightarrow> distinct (remdups_adj xs)"
  by (induction xs rule: remdups_adj.induct) (auto simp: order.antisym)

lemma remdups_adj_sort: "remdups_adj (sort xs) = sorted_list_of_set (set xs)"
proof (rule sorted_distinct_set_unique)
  show "distinct (remdups_adj (sort xs))" by (rule sorted_remdups_adj_distinct) simp
qed (simp_all add: sorted_remdups_adj)

lemma normalise_set_eq:
  "normalise_set seg = (if seg_type seg = AS_SET \<or> seg_type seg = AS_CONFED_SET
     then seg\<lparr>seg_as := sorted_list_of_set (set (seg_as seg))\<rparr> else seg)"
proof (cases "seg_as seg = []")
  case True
  then show ?thesis by (simp add: normalise_set_def Let_def)
next
  case False
  let ?xs = "sort (seg_as seg)"
  have len: "length ?xs \<noteq> 0" using False by simp
  have "take 1 ?xs = remdups_adj (take 1 ?xs)" using len by (cases ?xs) simp_all
  then obtain zs t where "weed ?xs 0 1 (length ?xs - 1) = (zs, t)" "take (t + 1) zs = remdups_adj ?xs"
    using weed_eq [of 1 "length ?xs - 1" ?xs 0 ?xs] len by auto
  then show ?thesis using False by (simp add: normalise_set_def Let_def remdups_adj_sort)
qed

text \<open>The normal form, as a predicate: sets are sorted without repetition, and no two sequences
  stand next to each other.\<close>

definition seg_normal :: "assegment \<Rightarrow> bool" where
  "seg_normal seg \<longleftrightarrow> (seg_type seg = AS_SET \<or> seg_type seg = AS_CONFED_SET \<longrightarrow>
     sorted (seg_as seg) \<and> distinct (seg_as seg))"

fun path_normal :: "assegment list \<Rightarrow> bool" where
  "path_normal [] = True"
| "path_normal [seg] = seg_normal seg"
| "path_normal (seg # seg' # rest) =
     (seg_normal seg \<and> \<not> ASSEGMENT_TYPES_PACKABLE seg seg' \<and> path_normal (seg' # rest))"

lemma normalise_set_normal: "seg_normal (normalise_set seg)" "seg_type (normalise_set seg) = seg_type seg"
  by (simp_all add: normalise_set_eq seg_normal_def)

lemma normalise_set_id: "seg_normal seg \<Longrightarrow> normalise_set seg = seg"
  by (auto simp: normalise_set_eq seg_normal_def sorted_distinct_set_unique [symmetric]
      intro!: assegment.equality sorted_distinct_set_unique)

lemma pack_normal:
  assumes "seg_normal pin" "pack pin segs = (p, rest)"
  shows "seg_normal p \<and> seg_type p = seg_type pin \<and> (\<forall>s r. rest = s # r \<longrightarrow> \<not> ASSEGMENT_TYPES_PACKABLE p s)"
  using assms
proof (induction pin segs rule: pack.induct)
  case (2 pin seg rest')
  show ?case
  proof (cases "ASSEGMENT_TYPES_PACKABLE pin seg")
    case True
    then have "seg_normal (pin\<lparr>seg_as := seg_as pin @ seg_as seg\<rparr>)"
      by (auto simp: seg_normal_def ASSEGMENT_TYPES_PACKABLE_def as_types)
    then show ?thesis using 2 True by simp
  next
    case False
    then show ?thesis using 2 by auto
  qed
qed auto

lemma hd_normalise: "segs = s # r \<Longrightarrow> \<exists>s' r'. assegment_normalise segs = s' # r' \<and> seg_type s' = seg_type s"
  using pack_normal [OF normalise_set_normal(1)] normalise_set_normal(2)
  by (simp add: Let_def) (metis prod.collapse)

lemma path_normal_normalise: "path_normal (assegment_normalise segs)"
proof (induction segs rule: assegment_normalise.induct)
  case (2 seg rest)
  obtain p r where p: "pack (normalise_set seg) rest = (p, r)" by fastforce
  note pn = pack_normal [OF normalise_set_normal(1) p]
  show ?case
  proof (cases r)
    case Nil
    then show ?thesis using p pn by simp
  next
    case (Cons s r')
    then obtain s' r'' where n: "assegment_normalise r = s' # r''" "seg_type s' = seg_type s"
      using hd_normalise by blast
    then show ?thesis
      using 2 p pn Cons by (auto simp: ASSEGMENT_TYPES_PACKABLE_def)
  qed
qed simp

lemma normalise_id: "path_normal segs \<Longrightarrow> assegment_normalise segs = segs"
proof (induction segs rule: path_normal.induct)
  case (3 seg seg' rest)
  then show ?case by (simp add: normalise_set_id)
qed (simp_all add: normalise_set_id)

text \<open>What a path says, apart from how it is cut into segments: the ASNs of its sequences one by one,
  and each set as the set of its members. A segment of another type, a sequence of a confederation
  too, stands for itself.\<close>

datatype path_item = Hop u32 | Members byte "u32 set" | Whole byte "u32 list"

definition seg_items :: "assegment \<Rightarrow> path_item list" where
  "seg_items seg =
     (if seg_type seg = AS_SEQUENCE then map Hop (seg_as seg)
      else if seg_type seg = AS_SET \<or> seg_type seg = AS_CONFED_SET then [Members (seg_type seg) (set (seg_as seg))]
      else [Whole (seg_type seg) (seg_as seg)])"

definition path_items :: "assegment list \<Rightarrow> path_item list" where
  "path_items segs = concat (map seg_items segs)"

definition no_empty :: "assegment list \<Rightarrow> bool" where
  "no_empty segs \<longleftrightarrow> list_all (\<lambda>seg. seg_type seg = AS_SEQUENCE \<longrightarrow> seg_as seg \<noteq> []) segs"

lemma path_items_simps [simp]:
  "path_items [] = []" "path_items (seg # segs) = seg_items seg @ path_items segs"
  by (simp_all add: path_items_def)

lemma no_empty_simps [simp]:
  "no_empty []" "no_empty (seg # segs) \<longleftrightarrow> (seg_type seg = AS_SEQUENCE \<longrightarrow> seg_as seg \<noteq> []) \<and> no_empty segs"
  by (simp_all add: no_empty_def)

lemma packable_sequence: "ASSEGMENT_TYPES_PACKABLE a b \<longleftrightarrow> seg_type a = seg_type b \<and> seg_type a = AS_SEQUENCE"
  by (auto simp: ASSEGMENT_TYPES_PACKABLE_def)

lemma seg_items_set: "seg_items (normalise_set seg) = seg_items seg"
  by (simp add: normalise_set_eq seg_items_def as_types)

lemma pack_items:
  "pack pin segs = (p, r) \<Longrightarrow> path_items (p # r) = path_items (pin # segs) \<and> (no_empty (pin # segs) \<longrightarrow> no_empty (p # r))"
proof (induction pin segs rule: pack.induct)
  case (2 pin seg rest)
  show ?case
  proof (cases "ASSEGMENT_TYPES_PACKABLE pin seg")
    case True
    then have ty: "seg_type pin = AS_SEQUENCE" "seg_type seg = AS_SEQUENCE" unfolding packable_sequence by metis+
    have "pack (pin\<lparr>seg_as := seg_as pin @ seg_as seg\<rparr>) rest = (p, r)" using "2.prems" True by simp
    note IH = "2.IH" [OF True this]
    show ?thesis using IH ty by (simp add: seg_items_def)
  next
    case False
    then show ?thesis using "2.prems" by auto
  qed
qed simp

lemma normalise_items:
  "path_items (assegment_normalise segs) = path_items segs \<and> (no_empty segs \<longrightarrow> no_empty (assegment_normalise segs))"
proof (induction segs rule: assegment_normalise.induct)
  case (2 seg rest)
  obtain p r where p: "pack (normalise_set seg) rest = (p, r)" by fastforce
  have "seg_type seg = AS_SEQUENCE \<Longrightarrow> normalise_set seg = seg"
    by (auto simp: normalise_set_eq as_types)
  then show ?case using 2 p pack_items [OF p] by (auto simp: seg_items_set normalise_set_normal(2))
qed simp

text \<open>A sequence of a normal path ends where its hops do.\<close>

lemma hops_end:
  assumes "path_normal (seg # segs)" "no_empty segs" "seg_type seg = AS_SEQUENCE"
  shows "takeWhile (\<lambda>i. \<exists>a. i = Hop a) (seg_items seg @ path_items segs) = seg_items seg"
proof -
  have "takeWhile (\<lambda>i. \<exists>a. i = Hop a) (path_items segs) = []"
  proof (cases segs)
    case (Cons s r)
    then show ?thesis using assms by (cases "seg_as s") (auto simp: seg_items_def packable_sequence)
  qed simp
  then show ?thesis using assms(3) by (subst takeWhile_append2) (auto simp: seg_items_def)
qed

lemma first_type:
  assumes "no_empty (s # p)" "seg_items s @ X = seg_items t @ Y" "no_empty (t # q)"
  shows "seg_type s = seg_type t"
  using assms by (cases "seg_as s"; cases "seg_as t") (auto simp: seg_items_def as_types split: if_splits)

lemma items_normal_unique:
  "path_normal p \<Longrightarrow> no_empty p \<Longrightarrow> path_normal q \<Longrightarrow> no_empty q \<Longrightarrow> path_items p = path_items q \<Longrightarrow> p = q"
proof (induction p arbitrary: q)
  case Nil
  then show ?case by (cases q) (auto simp: seg_items_def split: if_splits)
next
  case (Cons s p)
  obtain t q' where q: "q = t # q'" using Cons.prems(2,5) by (cases q) (auto simp: seg_items_def split: if_split_asm)
  have eq: "seg_items s @ path_items p = seg_items t @ path_items q'" using Cons.prems(5) by (simp add: q)
  have ty: "seg_type s = seg_type t" by (rule first_type [OF Cons.prems(2) eq Cons.prems(4) [unfolded q]])
  have items: "seg_items s = seg_items t"
  proof (cases "seg_type s = AS_SEQUENCE")
    case True
    have "no_empty p" "no_empty q'" using Cons.prems(2,4) by (simp_all add: q)
    then show ?thesis
      using hops_end [OF Cons.prems(1) _ True] hops_end [OF Cons.prems(3) [unfolded q]] True ty by (metis eq)
  next
    case False
    then show ?thesis using eq ty by (auto simp: seg_items_def)
  qed
  have n: "seg_normal s" "seg_normal t" "path_normal p" "path_normal q'"
    using Cons.prems(1,3) by (cases p; cases q'; simp add: q)+
  have "seg_as s = seg_as t"
  proof (cases "seg_type s = AS_SET \<or> seg_type s = AS_CONFED_SET")
    case True
    then show ?thesis using items ty n(1,2) by (auto simp: seg_items_def seg_normal_def as_types intro: sorted_distinct_set_unique)
  next
    case False
    then show ?thesis using items ty by (auto simp: seg_items_def inj_map_eq_map inj_def split: if_split_asm)
  qed
  then have "s = t" using ty by simp
  moreover have "p = q'" using Cons.IH [OF n(3) _ n(4)] Cons.prems(2,4) eq items by (simp add: q)
  ultimately show ?case by (simp add: q)
qed

text \<open>C34: \<^verbatim>\<open>assegment_normalise\<close> yields the normal form of a path. The result is normal: its sets are
  sorted without repetition, and adjacent sequences are merged. It says what the path said, every ASN of
  a sequence in its place and every set with its members. A path that is normal is left as it is, and
  where no sequence is empty, the result is the only normal path that says the same.\<close>

theorem assegment_normalise_canonical:
  "path_normal (assegment_normalise segs) \<and> path_items (assegment_normalise segs) = path_items segs \<and>
   (path_normal segs \<longrightarrow> assegment_normalise segs = segs) \<and>
   (\<forall>q. no_empty segs \<and> path_normal q \<and> no_empty q \<and> path_items q = path_items segs \<longrightarrow> q = assegment_normalise segs)"
  using path_normal_normalise [of segs] normalise_items [of segs] normalise_id [of segs]
    items_normal_unique [OF path_normal_normalise [of segs]] by metis

theorem assegment_normalise_canonical_witness:
  "assegment_normalise [\<lparr>seg_type = AS_SET, seg_as = [3, 1, 3]\<rparr>, \<lparr>seg_type = AS_SEQUENCE, seg_as = [5]\<rparr>, \<lparr>seg_type = AS_SEQUENCE, seg_as = [7, 6]\<rparr>] =
     [\<lparr>seg_type = AS_SET, seg_as = [1, 3]\<rparr>, \<lparr>seg_type = AS_SEQUENCE, seg_as = [5, 7, 6]\<rparr>]"
proof -
  let ?p = "[\<lparr>seg_type = AS_SET, seg_as = [3, 1, 3]\<rparr>, \<lparr>seg_type = AS_SEQUENCE, seg_as = [5]\<rparr>, \<lparr>seg_type = AS_SEQUENCE, seg_as = [7, 6]\<rparr>] :: assegment list"
  let ?q = "[\<lparr>seg_type = AS_SET, seg_as = [1, 3]\<rparr>, \<lparr>seg_type = AS_SEQUENCE, seg_as = [5, 7, 6]\<rparr>] :: assegment list"
  have "no_empty ?p" "path_normal ?q" "no_empty ?q" "path_items ?q = path_items ?p"
    by (auto simp: seg_normal_def packable_sequence seg_items_def as_types)
  then show ?thesis using assegment_normalise_canonical [of ?p] by metis
qed

section \<open>Parsing\<close>

text \<open>The wire format: a byte for the type, one for the number of ASNs, and the ASNs in two or
  four bytes each.\<close>

definition enc_asn :: "bool \<Rightarrow> u32 \<Rightarrow> byte list" where
  "enc_asn use32bit a = (if use32bit then put_be32 a else put_be16 (ucast a))"

definition enc_seg :: "bool \<Rightarrow> assegment \<Rightarrow> byte list" where
  "enc_seg use32bit seg =
     seg_type seg # word_of_nat (seg_length seg) # concat (map (enc_asn use32bit) (seg_as seg))"

definition wire_seg :: "bool \<Rightarrow> assegment \<Rightarrow> bool" where
  "wire_seg use32bit seg \<longleftrightarrow> seg_as seg \<noteq> [] \<and> seg_length seg \<le> AS_SEGMENT_MAX \<and>
     (use32bit \<or> list_all (\<lambda>a. a \<le> BGP_AS_MAX) (seg_as seg))"

lemma length_enc_asn [simp]: "length (enc_asn u a) = (if u then 4 else 2)"
  by (simp add: enc_asn_def)

lemma length_enc_asns: "length (concat (map (enc_asn u) xs)) = ASSEGMENT_DATA_SIZE (length xs) u"
  by (induction xs) (simp_all add: ASSEGMENT_DATA_SIZE_def)

lemma length_enc_seg: "length (enc_seg u seg) = ASSEGMENT_SIZE (seg_length seg) u"
  by (simp add: enc_seg_def length_enc_asns ASSEGMENT_SIZE_def)

lemma ucast_u16_u32: "a \<le> BGP_AS_MAX \<Longrightarrow> ucast (ucast a :: u16) = a"
proof -
  assume "a \<le> BGP_AS_MAX"
  then have "unat a \<le> 65535" by (simp add: BGP_AS_MAX_def word_le_nat_alt)
  then show ?thesis by (simp add: word_unat_eq_iff unsigned_ucast_eq unsigned_take_bit_eq take_bit_nat_eq_self)
qed

lemma drop_prefix:
  assumes "drop i s = xs @ t" "xs \<noteq> []"
  shows "i + length xs \<le> length s" "take (length xs) (drop i s) = xs" "drop (i + length xs) s = t"
proof -
  have "length s - i = length xs + length t" using arg_cong [OF assms(1), of length] by simp
  then show "i + length xs \<le> length s" using assms(2) by (cases xs) simp_all
  show "take (length xs) (drop i s) = xs" using assms(1) by simp
  have "drop (i + length xs) s = drop (length xs) (drop i s)" by (simp add: add.commute)
  then show "drop (i + length xs) s = t" using assms(1) by simp
qed

lemma rd_asns_enc:
  assumes "drop i s = concat (map (enc_asn u) xs) @ t" "u \<or> list_all (\<lambda>a. a \<le> BGP_AS_MAX) xs"
  shows "rd_asns s i u (length xs) = Inr xs"
  using assms
proof (induction xs arbitrary: i)
  case (Cons a xs)
  have "enc_asn u a \<noteq> []" by (metis length_enc_asn length_0_conv numeral_neq_zero)
  then have d: "i + length (enc_asn u a) \<le> length s" "take (length (enc_asn u a)) (drop i s) = enc_asn u a"
      "drop (i + length (enc_asn u a)) s = concat (map (enc_asn u) xs) @ t"
    using drop_prefix [of i s "enc_asn u a" "concat (map (enc_asn u) xs) @ t"] Cons.prems(1) by simp_all
  then have r: "rd_asns s (i + length (enc_asn u a)) u (length xs) = Inr xs" using Cons by (cases u) simp_all
  show ?case
  proof (cases u)
    case True
    then have "rd_be32 s i = Inr a" using d(1,2) by (intro rd_be32_eq) (simp_all add: enc_asn_def)
    then show ?thesis using True r by simp
  next
    case False
    then have "rd_be16 s i = Inr (ucast a)" using d(1,2) by (intro rd_be16_eq) (simp_all add: enc_asn_def)
    then show ?thesis using False r Cons.prems(2) by (simp add: ucast_u16_u32)
  qed
qed simp

lemma segs_loop_enc:
  assumes "drop i s = concat (map (enc_seg u) segs) @ t" "len = i + length (concat (map (enc_seg u) segs))"
    "list_all (wire_seg u) segs"
  shows "segs_loop s len u i head = Inr (Some (rev head @ segs))"
  using assms
proof (induction segs arbitrary: i head)
  case Nil
  then show ?case by (simp add: segs_loop.simps)
next
  case (Cons seg segs)
  let ?n = "word_of_nat (seg_length seg) :: byte"
  have n: "unat ?n = seg_length seg" "?n \<noteq> 0"
    using Cons.prems(3) by (simp_all add: wire_seg_def AS_SEGMENT_MAX_def unat_of_nat word_unat_eq_iff)
  have "drop i s = enc_seg u seg @ (concat (map (enc_seg u) segs) @ t)" using Cons.prems(1) by simp
  from drop_prefix [OF this]
  have d: "i + ASSEGMENT_SIZE (seg_length seg) u \<le> length s"
      "drop (i + ASSEGMENT_SIZE (seg_length seg) u) s = concat (map (enc_seg u) segs) @ t"
    unfolding length_enc_seg by (simp_all add: enc_seg_def)
  have d0: "drop i s = seg_type seg # ?n # (concat (map (enc_asn u) (seg_as seg)) @ (concat (map (enc_seg u) segs) @ t))"
    using Cons.prems(1) by (simp add: enc_seg_def [of u seg])
  have b: "rd8 s i = Inr (seg_type seg)" "rd8 s (i + 1) = Inr ?n"
    using arg_cong [OF d0, of hd] arg_cong [OF d0, of "\<lambda>xs. xs ! 1"] d(1)
    by (simp_all add: ASSEGMENT_SIZE_def hd_drop_conv_nth)
  have "drop (i + 2) s = concat (map (enc_asn u) (seg_as seg)) @ (concat (map (enc_seg u) segs) @ t)"
    using arg_cong [OF d0, of "drop 2"] by (simp add: add.commute)
  then have a: "rd_asns s (i + 2) u (seg_length seg) = Inr (seg_as seg)"
    using Cons.prems(3) by (intro rd_asns_enc) (simp_all add: wire_seg_def)
  have seg: "\<lparr>seg_type = seg_type seg, seg_as = seg_as seg\<rparr> = seg" by simp
  have "segs_loop s len u i head =
      segs_loop s len u (i + ASSEGMENT_SIZE (seg_length seg) u)
        (\<lparr>seg_type = seg_type seg, seg_as = seg_as seg\<rparr> # head)"
    using b n a Cons.prems(2) by (subst segs_loop.simps) (simp add: length_enc_seg ASSEGMENT_SIZE_def)
  also have "\<dots> = Inr (Some (rev (seg # head) @ segs))"
    unfolding seg using d(2) Cons.prems by (intro Cons.IH) (simp_all add: length_enc_seg)
  finally show ?case by simp
qed

lemma even_enc_segs: "even (length (concat (map (enc_seg u) segs)))"
  by (induction segs) (simp_all add: length_enc_seg ASSEGMENT_SIZE_def ASSEGMENT_DATA_SIZE_def)

text \<open>C30: \<^verbatim>\<open>assegments_parse\<close> reads back every path that is encoded in the wire format, with two- or
  four-byte ASNs, as its normal form, whatever follows it in the message.\<close>

theorem assegments_parse_encoded:
  assumes "list_all (wire_seg use32bit) segs"
  shows "assegments_parse (concat (map (enc_seg use32bit) segs) @ rest)
           (length (concat (map (enc_seg use32bit) segs))) use32bit = Inr (assegment_normalise segs)"
proof (cases "segs = []")
  case False
  define b where "b = concat (map (enc_seg use32bit) segs)"
  have "b \<noteq> []" using False by (cases segs) (simp_all add: b_def enc_seg_def)
  moreover have "segs_loop (b @ rest) (length b) use32bit 0 [] = Inr (Some segs)"
    using segs_loop_enc [of 0 "b @ rest" use32bit segs rest "length b" "[]"] assms by (simp add: b_def)
  ultimately show ?thesis
    using even_enc_segs [of use32bit segs]
    by (simp add: assegments_parse_def b_def [symmetric] even_iff_mod_2_eq_zero)
qed (simp add: assegments_parse_def)

text \<open>On any bytes: the loop stays inside the attribute, and what it accepts is bounded by its
  length.\<close>

definition total_asns :: "assegment list \<Rightarrow> nat" where
  "total_asns segs = sum_list (map (\<lambda>seg. seg_length seg) segs)"

lemma total_asns_simps [simp]:
  "total_asns [] = 0"
  "total_asns (seg # segs) = seg_length seg + total_asns segs"
  "total_asns (xs @ ys) = total_asns xs + total_asns ys"
  "total_asns (rev xs) = total_asns xs"
  by (simp_all add: total_asns_def flip: rev_map)

lemma rd_asns_safe:
  "i + ASSEGMENT_DATA_SIZE n u \<le> length s \<Longrightarrow> \<exists>xs. rd_asns s i u n = Inr xs \<and> length xs = n"
proof (induction n arbitrary: i)
  case (Suc n)
  have "i + (if u then 4 else 2) + ASSEGMENT_DATA_SIZE n u \<le> length s"
    using Suc.prems by (simp add: ASSEGMENT_DATA_SIZE_def)
  then obtain xs where "rd_asns s (i + (if u then 4 else 2)) u n = Inr xs" "length xs = n"
    using Suc.IH by blast
  then show ?case
    using Suc.prems by (auto simp: ASSEGMENT_DATA_SIZE_def rd_be32_def rd_be16_def split: if_splits)
qed simp

lemma segs_loop_safe:
  assumes "len \<le> length s" "i \<le> len" "even i" "even len" "list_all (\<lambda>seg. seg_as seg \<noteq> []) head"
    "2 * total_asns head \<le> i"
  shows "\<exists>r. segs_loop s len u i head = Inr r \<and>
     (\<forall>segs. r = Some segs \<longrightarrow> 2 * total_asns segs \<le> len \<and> list_all (\<lambda>seg. seg_as seg \<noteq> []) segs)"
  using assms
proof (induction s len u i head rule: segs_loop.induct)
  case (1 s len u i head)
  show ?case
  proof (cases "i = len")
    case True
    then show ?thesis using 1 by (simp add: segs_loop.simps list_all_iff)
  next
    case False
    have i: "i + 1 < len" using False "1.prems"(2,3,4) by (metis add.commute even_plus_one_iff le_neq_implies_less less_antisym plus_1_eq_Suc not_less_eq Suc_lessI)
    let ?n = "s ! (i + 1)"
    let ?sz = "ASSEGMENT_SIZE (unat ?n) u"
    have rd: "rd8 s i = Inr (s ! i)" "rd8 s (i + 1) = Inr ?n" using i "1.prems"(1) by simp_all
    show ?thesis
    proof (cases "i + ?sz > len \<or> ?n = 0")
      case True
      then have "segs_loop s len u i head = Inr None" using False rd by (subst segs_loop.simps) (simp add: Let_def)
      then show ?thesis by simp
    next
      case ok: False
      then obtain xs where xs: "rd_asns s (i + 2) u (unat ?n) = Inr xs" "length xs = unat ?n"
        using rd_asns_safe [of "i + 2" "unat ?n" u s] "1.prems"(1) by (auto simp: ASSEGMENT_SIZE_def)
      let ?seg = "\<lparr>seg_type = s ! i, seg_as = xs\<rparr>"
      have step: "segs_loop s len u i head = segs_loop s len u (i + ?sz) (?seg # head)"
        using False rd ok xs by (subst segs_loop.simps) (simp add: Let_def)
      have "even (i + ?sz)" "2 * length xs \<le> ?sz" "xs \<noteq> []"
        using xs "1.prems"(3) ok by (auto simp: ASSEGMENT_SIZE_def ASSEGMENT_DATA_SIZE_def unat_eq_0)
      then show ?thesis
        unfolding step using False rd ok xs "1.prems" by (intro "1.IH" [of "s ! i" ?n ?sz xs]) auto
    qed
  qed
qed

lemma pack_total: "pack pin segs = (p, r) \<Longrightarrow> total_asns (p # r) = total_asns (pin # segs)"
  by (induction pin segs rule: pack.induct) (auto split: if_splits)

lemma normalise_set_length: "seg_length (normalise_set seg) \<le> seg_length seg"
  by (simp add: normalise_set_eq length_sorted_list_of_set card_length)

lemma total_normalise: "total_asns (assegment_normalise segs) \<le> total_asns segs"
proof (induction segs rule: assegment_normalise.induct)
  case (2 seg rest)
  obtain p r where p: "pack (normalise_set seg) rest = (p, r)" by fastforce
  show ?case using 2 p pack_total [OF p] normalise_set_length [of seg] by simp
qed simp

lemma assegments_parse_bound:
  assumes "len \<le> length s"
  shows "\<exists>segs. assegments_parse s len u = Inr segs \<and> path_normal segs \<and> 2 * total_asns segs \<le> len"
proof (cases "len = 0 \<or> odd len")
  case True
  then show ?thesis by (auto simp: assegments_parse_def even_iff_mod_2_eq_zero)
next
  case False
  then obtain r where "segs_loop s len u 0 [] = Inr r"
      "\<forall>segs. r = Some segs \<longrightarrow> 2 * total_asns segs \<le> len"
    using segs_loop_safe [of len s 0 "[]" u] assms by auto
  then show ?thesis
    using False path_normal_normalise total_normalise
    by (cases r) (auto simp: assegments_parse_def even_iff_mod_2_eq_zero intro: order.trans [OF mult_le_mono2])
qed

text \<open>C31: On arbitrary bytes \<^verbatim>\<open>assegments_parse\<close> never reads outside the attribute, yields a path in
  normal form, and that path has at most one ASN per two bytes: no 16-bit segment length can
  wrap around.\<close>

theorem assegments_parse_safe:
  assumes "len \<le> length s" "len < 65536"
  shows "\<exists>segs. assegments_parse s len use32bit = Inr segs \<and> path_normal segs \<and>
     (\<forall>seg \<in> set segs. seg_length seg < 65536)"
proof -
  obtain segs where "assegments_parse s len use32bit = Inr segs" "path_normal segs" "2 * total_asns segs \<le> len"
    using assegments_parse_bound [OF assms(1)] by blast
  moreover have "seg_length seg \<le> total_asns segs" if "seg \<in> set segs" for seg
    using that by (induction segs) auto
  ultimately show ?thesis using assms(2) by fastforce
qed

text \<open>A concrete attribute: an AS_SEQUENCE and an AS_SET with a repetition.\<close>

definition path_ex :: "assegment list" where
  "path_ex = [\<lparr>seg_type = AS_SEQUENCE, seg_as = [64500, 3]\<rparr>, \<lparr>seg_type = AS_SET, seg_as = [9, 7, 9]\<rparr>]"

lemma sort_979: "sort [9, 7, 9 :: u32] = [7, 9, 9]"
  by (simp add: sort_key_def)

lemma normalise_path_ex:
  "assegment_normalise path_ex = [\<lparr>seg_type = AS_SEQUENCE, seg_as = [64500, 3]\<rparr>, \<lparr>seg_type = AS_SET, seg_as = [7, 9]\<rparr>]"
  by (simp add: path_ex_def normalise_set_eq ASSEGMENT_TYPES_PACKABLE_def as_types sort_979
      del: set_simps sorted_list_of_set_insert flip: remdups_adj_sort)

theorem assegments_parse_encoded_witness:
  "list_all (wire_seg False) path_ex \<and>
   assegments_parse (concat (map (enc_seg False) path_ex)) (length (concat (map (enc_seg False) path_ex))) False
     = Inr [\<lparr>seg_type = AS_SEQUENCE, seg_as = [64500, 3]\<rparr>, \<lparr>seg_type = AS_SET, seg_as = [7, 9]\<rparr>]"
proof -
  have "list_all (wire_seg False) path_ex"
    by (simp add: path_ex_def wire_seg_def AS_SEGMENT_MAX_def BGP_AS_MAX_def)
  with assegments_parse_encoded [of False path_ex "[]"] show ?thesis by (simp add: normalise_path_ex)
qed

theorem assegments_parse_safe_witness:
  "\<exists>segs. assegments_parse [2, 9, 0, 1] 4 False = Inr segs \<and> path_normal segs \<and>
     (\<forall>seg \<in> set segs. seg_length seg < 65536)"
  by (rule assegments_parse_safe) simp_all

section \<open>Printed form\<close>

fun asns_text :: "char \<Rightarrow> u32 list \<Rightarrow> string" where
  "asns_text sep [] = []"
| "asns_text sep [a] = dec_str (unat a)"
| "asns_text sep (a # b # rest) = dec_str (unat a) @ sep # asns_text sep (b # rest)"

definition seg_text :: "assegment \<Rightarrow> string" where
  "seg_text seg =
     (let body = asns_text (the (seg_seperator (seg_type seg))) (seg_as seg)
      in if seg_type seg = AS_SEQUENCE then body
         else aspath_delimiter_char (seg_type seg) False # body @ [aspath_delimiter_char (seg_type seg) True])"

fun path_text :: "assegment list \<Rightarrow> string" where
  "path_text [] = []"
| "path_text [seg] = seg_text seg"
| "path_text (seg # seg' # rest) = seg_text seg @ CHR '' '' # path_text (seg' # rest)"

definition known_types :: "assegment list \<Rightarrow> bool" where
  "known_types segs \<longleftrightarrow> list_all (\<lambda>seg. seg_seperator (seg_type seg) \<noteq> None) segs"

lemma length_asn: "length (dec_str (unat (a :: u32))) \<le> 10"
  using length_dec_str_bound [of "unat a" 9] unat_u32_less [of a] by simp

lemma put_asns_eq:
  "length t + 11 * length xs < n \<Longrightarrow> put_asns n sep t xs = Inr (t @ asns_text sep xs)"
proof (induction sep xs arbitrary: t rule: asns_text.induct)
  case (2 sep a)
  then show ?case using length_asn [of a] by (simp add: snprint_def)
next
  case (3 sep a b rest)
  have "put_asns n sep (t @ dec_str (unat a) @ [sep]) (b # rest) =
      Inr ((t @ dec_str (unat a) @ [sep]) @ asns_text sep (b # rest))"
    using "3.prems" length_asn [of a] by (intro "3.IH") simp
  then show ?case
    using "3.prems" length_asn [of a] put_asns.simps(2) [of n sep t a "b # rest"] by (simp add: snprint_def)
qed simp

lemma length_asns_text: "length (asns_text sep xs) \<le> 11 * length xs"
proof (induction sep xs rule: asns_text.induct)
  case (2 sep a)
  then show ?case using length_asn [of a] by simp
next
  case (3 sep a b rest)
  then show ?case using length_asn [of a] by simp
qed simp

lemma put_segment_eq:
  assumes "length t + SEGMENT_STR_LEN seg \<le> n" "seg_seperator (seg_type seg) = Some sep"
  shows "put_segment n sep t seg cont = Inr (t @ seg_text seg @ (if cont then '' '' else []))"
  using assms length_asns_text [of sep "seg_as seg"]
  by (simp add: put_segment_def snprint_def put_asns_eq seg_text_def SEGMENT_STR_LEN_def ASN_STR_LEN_def Let_def)

lemma length_seg_text: "length (seg_text seg) + 2 \<le> SEGMENT_STR_LEN seg"
  using length_asns_text [of "the (seg_seperator (seg_type seg))" "seg_as seg"]
  by (cases "seg_type seg = AS_SEQUENCE") (simp_all add: seg_text_def SEGMENT_STR_LEN_def ASN_STR_LEN_def Let_def)

definition last_asn :: "u32 \<Rightarrow> assegment list \<Rightarrow> u32" where
  "last_asn la segs = last (la # concat (map seg_as segs))"

lemma last_asn_Cons:
  "last_asn la (seg # segs) = last_asn (if seg_as seg = [] then la else last (seg_as seg)) segs"
  by (simp add: last_asn_def)

lemma put_segments_eq:
  assumes "length t < n" "known_types segs"
  shows "put_segments n t la segs = Inr (Some (t @ path_text segs), last_asn la segs)"
  using assms
proof (induction segs arbitrary: n t la)
  case (Cons seg rest)
  then obtain sep where sep: "seg_seperator (seg_type seg) = Some sep" by (auto simp: known_types_def)
  define n' where "n' = (if length t + SEGMENT_STR_LEN seg > n then length t + SEGMENT_STR_LEN seg else n)"
  define t' where "t' = t @ seg_text seg @ (if rest \<noteq> [] then '' '' else [])"
  have n': "length t + SEGMENT_STR_LEN seg \<le> n'" by (simp add: n'_def)
  have put: "put_segment n' sep t seg (rest \<noteq> []) = Inr t'" using put_segment_eq [OF n' sep] by (simp add: t'_def)
  have "length t' < n'" using n' length_seg_text [of seg] by (simp add: t'_def)
  then have "put_segments n' t' la' rest = Inr (Some (t' @ path_text rest), last_asn la' rest)" for la'
    using Cons.prems(2) by (intro Cons.IH) (simp_all add: known_types_def)
  then have "put_segments n t la (seg # rest) = Inr (Some (t' @ path_text rest), last_asn la (seg # rest))"
    using sep put by (simp add: n'_def [symmetric] Let_def last_asn_Cons)
  then show ?case by (cases rest) (simp_all add: t'_def)
qed (simp add: last_asn_def)

lemma make_str_eq:
  "known_types (segments p) \<Longrightarrow>
   aspath_make_str_count p = Inr (Some (path_text (segments p)), last_asn (last_as p) (segments p))"
  using put_segments_eq by (simp add: aspath_make_str_count_def last_asn_def ASPATH_STR_DEFAULT_LEN_def)

lemma put_segments_unknown:
  "length t < n \<Longrightarrow> \<not> known_types segs \<Longrightarrow> \<exists>la'. put_segments n t la segs = Inr (None, la')"
proof (induction segs arbitrary: n t la)
  case (Cons seg rest)
  show ?case
  proof (cases "seg_seperator (seg_type seg)")
    case (Some sep)
    define n' where "n' = (if length t + SEGMENT_STR_LEN seg > n then length t + SEGMENT_STR_LEN seg else n)"
    define t' where "t' = t @ seg_text seg @ (if rest \<noteq> [] then '' '' else [])"
    have n': "length t + SEGMENT_STR_LEN seg \<le> n'" by (simp add: n'_def)
    have put: "put_segment n' sep t seg (rest \<noteq> []) = Inr t'" using put_segment_eq [OF n' Some] by (simp add: t'_def)
    have "length t' < n'" using n' length_seg_text [of seg] by (simp add: t'_def)
    moreover have "\<not> known_types rest" using Cons.prems(2) Some by (simp add: known_types_def)
    ultimately obtain la' where
        "put_segments n' t' (if seg_as seg = [] then la else last (seg_as seg)) rest = Inr (None, la')"
      using Cons.IH by blast
    then show ?thesis using Some put by (simp add: n'_def [symmetric] Let_def)
  qed simp
qed (simp add: known_types_def)

lemma make_str_unknown:
  "\<not> known_types (segments p) \<Longrightarrow> \<exists>la. aspath_make_str_count p = Inr (None, la)"
  using put_segments_unknown by (auto simp: aspath_make_str_count_def ASPATH_STR_DEFAULT_LEN_def known_types_def)

text \<open>C35: \<^verbatim>\<open>aspath_make_str_count\<close> never writes past its buffer, however the buffer has to grow: a path
  with known segment types is printed as the canonical text of its segments and the last ASN is
  recorded; any other path has no string.\<close>

theorem aspath_make_str_count_text:
  "\<exists>la. aspath_make_str_count p =
     Inr (if known_types (segments p) then Some (path_text (segments p)) else None, la)"
  using make_str_eq make_str_unknown by simp

end
