(* ===== verification/Bgp_Community.thy ===== *)
theory Bgp_Community
  imports Bgp_Hash
begin

text \<open>
  Model of \<^verbatim>\<open>src/src/bgp/bgp_community.c\<close>: the standard communities attribute, its canonical
  form, its printed form and its interning. The values of an attribute are an array in
  network byte order. Allocation is taken to succeed.
\<close>

section \<open>Data\<close>

text \<open>\<^verbatim>\<open>struct community\<close>; the array is \<open>None\<close> for NULL.\<close>

record community = pooled +
  com_size :: nat
  com_val :: "byte list option"

definition COMMUNITY_INTERNET :: u32 where "COMMUNITY_INTERNET = 0"
definition COMMUNITY_NO_EXPORT :: u32 where "COMMUNITY_NO_EXPORT = 0xFFFFFF01"
definition COMMUNITY_NO_ADVERTISE :: u32 where "COMMUNITY_NO_ADVERTISE = 0xFFFFFF02"
definition COMMUNITY_LOCAL_AS :: u32 where "COMMUNITY_LOCAL_AS = 0xFFFFFF03"

lemmas community_consts = COMMUNITY_INTERNET_def COMMUNITY_NO_EXPORT_def
  COMMUNITY_NO_ADVERTISE_def COMMUNITY_LOCAL_AS_def

definition com_length :: "community \<Rightarrow> nat" where
  "com_length com = com_size com * 4"

text \<open>Dereferencing \<^verbatim>\<open>com->val\<close>.\<close>

definition com_buf :: "community \<Rightarrow> byte list res" where
  "com_buf com = (case com_val com of None \<Rightarrow> Inl Null_Deref | Some b \<Rightarrow> Inr b)"

section \<open>Operations\<close>

definition community_new :: "bgp_peer_type option \<Rightarrow> community option" where
  "community_new peer =
     (if misc_db peer then Some \<lparr>refcnt = 0, str = None, com_size = 0, com_val = None\<rparr> else None)"

definition community_add_val :: "bgp_peer_type option \<Rightarrow> community \<Rightarrow> u32 \<Rightarrow> community res" where
  "community_add_val peer com val =
     (if \<not> misc_db peer then Inr com
      else let com1 = com\<lparr>com_size := com_size com + 1\<rparr>;
               b = (case com_val com1 of Some b \<Rightarrow> realloc b (com_length com1)
                                       | None \<Rightarrow> realloc [] (com_length com1))
           in rbind (wr_mem b (4 * (com_size com1 - 1)) (put_be32 val)) (\<lambda>b'. Inr (com1\<lparr>com_val := Some b'\<rparr>)))"

text \<open>\<^verbatim>\<open>community_del_val\<close>. The copy that closes the gap moves \<^verbatim>\<open>c * sizeof (val)\<close> bytes, where
  \<^verbatim>\<open>val\<close> is a pointer of 8 bytes.\<close>

definition sizeof_ptr :: nat where "sizeof_ptr = 8"

function community_del_from :: "community \<Rightarrow> byte list \<Rightarrow> byte list \<Rightarrow> nat \<Rightarrow> community res" where
  "community_del_from com b val i =
     (if i < com_size com then
        rbind (rd_mem b (4 * i) 4) (\<lambda>x. rbind (rd_mem val 0 4) (\<lambda>v.
          if x = v then
            let c = com_size com - i - 1 in
            rbind (if c > 0 then
                     rbind (rd_mem b (4 * (i + 1)) (c * sizeof_ptr)) (\<lambda>ys. wr_mem b (4 * i) ys)
                   else Inr b) (\<lambda>b1.
              let com1 = com\<lparr>com_size := com_size com - 1\<rparr> in
              if com_size com1 > 0 then Inr (com1\<lparr>com_val := Some (realloc b1 (com_length com1))\<rparr>)
              else Inr (com1\<lparr>com_val := None\<rparr>))
          else community_del_from com b val (i + 1)))
      else Inr com)"
  by pat_completeness auto
termination
  by (relation "measure (\<lambda>(com, b, val, i). com_size com - i)") auto

declare community_del_from.simps [simp del]

definition community_del_val :: "community \<Rightarrow> byte list \<Rightarrow> community res" where
  "community_del_val com val = (case com_val com of None \<Rightarrow> Inr com | Some b \<Rightarrow> community_del_from com b val 0)"

fun community_delete_loop :: "community \<Rightarrow> community \<Rightarrow> nat \<Rightarrow> nat \<Rightarrow> community res" where
  "community_delete_loop com1 com2 i 0 = Inr com1"
| "community_delete_loop com1 com2 i (Suc k) =
     rbind (com_buf com2) (\<lambda>b2. rbind (community_del_val com1 (drop (4 * i) b2)) (\<lambda>com1'.
       community_delete_loop com1' com2 (i + 1) k))"

definition community_delete :: "community \<Rightarrow> community \<Rightarrow> community res" where
  "community_delete com1 com2 = community_delete_loop com1 com2 0 (com_size com2)"

definition community_compare :: "byte list \<Rightarrow> byte list \<Rightarrow> int res" where
  "community_compare a1 a2 =
     rbind (rd_be32 a1 0) (\<lambda>v1. rbind (rd_be32 a2 0) (\<lambda>v2.
       Inr (if v1 < v2 then - 1 else if v1 > v2 then 1 else 0)))"

fun community_include_from :: "byte list \<Rightarrow> u32 \<Rightarrow> nat \<Rightarrow> nat \<Rightarrow> bool res" where
  "community_include_from b val i 0 = Inr False"
| "community_include_from b val i (Suc k) =
     rbind (rd_mem b (4 * i) 4) (\<lambda>x. if put_be32 val = x then Inr True else community_include_from b val (i + 1) k)"

definition community_include :: "community \<Rightarrow> u32 \<Rightarrow> bool res" where
  "community_include com val =
     (if com_size com = 0 then Inr False
      else rbind (com_buf com) (\<lambda>b. community_include_from b val 0 (com_size com)))"

definition community_val_get :: "community \<Rightarrow> nat \<Rightarrow> u32 res" where
  "community_val_get com i = rbind (com_buf com) (\<lambda>b. rd_be32 b (i * 4))"

text \<open>\<^verbatim>\<open>qsort\<close> of \<open>n\<close> groups of four bytes with \<^verbatim>\<open>community_compare\<close>: the groups in the order
  of their values.\<close>

fun be_groups :: "byte list \<Rightarrow> nat \<Rightarrow> nat \<Rightarrow> u32 list res" where
  "be_groups b i 0 = Inr []"
| "be_groups b i (Suc k) = rbind (rd_be32 b (4 * i)) (\<lambda>v. rbind (be_groups b (i + 1) k) (\<lambda>vs. Inr (v # vs)))"

definition qsort_vals :: "byte list \<Rightarrow> nat \<Rightarrow> byte list res" where
  "qsort_vals b n = rbind (be_groups b 0 n) (\<lambda>vs. Inr (be_words (sort vs) @ drop (4 * n) b))"

fun uniq_loop :: "bgp_peer_type option \<Rightarrow> community \<Rightarrow> community \<Rightarrow> nat \<Rightarrow> nat \<Rightarrow> community res" where
  "uniq_loop peer com new i 0 = Inr new"
| "uniq_loop peer com new i (Suc k) =
     rbind (community_val_get com i) (\<lambda>val. rbind (community_include new val) (\<lambda>inc.
     rbind (if \<not> inc then community_add_val peer new val else Inr new) (\<lambda>new'.
       uniq_loop peer com new' (i + 1) k)))"

definition community_uniq_sort :: "bgp_peer_type option \<Rightarrow> community option \<Rightarrow> community option res" where
  "community_uniq_sort peer com = (case com of
       None \<Rightarrow> Inr None
     | Some c \<Rightarrow> (case community_new peer of
         None \<Rightarrow> Inl Null_Deref
       | Some n0 \<Rightarrow>
           rbind (uniq_loop peer c n0 0 (com_size c)) (\<lambda>new.
           case com_val new of
             None \<Rightarrow> if com_size new = 0 then Inr (Some new) else Inl Null_Deref
           | Some b \<Rightarrow> rbind (qsort_vals b (com_size new)) (\<lambda>b'. Inr (Some (new\<lparr>com_val := Some b'\<rparr>))))))"

section \<open>Printing\<close>

definition community_word :: "u32 \<Rightarrow> string option" where
  "community_word comval =
     (if comval = COMMUNITY_INTERNET then Some ''internet''
      else if comval = COMMUNITY_NO_EXPORT then Some ''no-export''
      else if comval = COMMUNITY_NO_ADVERTISE then Some ''no-advertise''
      else if comval = COMMUNITY_LOCAL_AS then Some ''local-AS''
      else None)"

text \<open>The room reserved for one value, its leading space included.\<close>

definition com_room :: "u32 \<Rightarrow> nat" where
  "com_room comval = (case community_word comval of
       Some w \<Rightarrow> 1 + length w | None \<Rightarrow> length '' 65536:65535'')"

definition com_text :: "u32 \<Rightarrow> string" where
  "com_text comval = (case community_word comval of
       Some w \<Rightarrow> w
     | None \<Rightarrow> dec_str (unat (drop_bit 16 comval AND 0xFFFF)) @ '':'' @ dec_str (unat (comval AND 0xFFFF)))"

fun com_len :: "byte list \<Rightarrow> nat \<Rightarrow> nat \<Rightarrow> nat \<Rightarrow> nat res" where
  "com_len b i 0 len = Inr len"
| "com_len b i (Suc k) len = rbind (rd_be32 b (4 * i)) (\<lambda>v. com_len b (i + 1) k (len + com_room v))"

text \<open>Writing at \<^verbatim>\<open>pnt\<close>, the end of the text so far, in an allocation of \<open>cap\<close> characters.\<close>

definition put_char :: "nat \<Rightarrow> string \<Rightarrow> char \<Rightarrow> string res" where
  "put_char cap t c = (if length t < cap then Inr (t @ [c]) else Inl Out_Of_Bounds)"

definition put_str :: "nat \<Rightarrow> string \<Rightarrow> string \<Rightarrow> string res" where
  "put_str cap t s = (if length t + length s + 1 \<le> cap then Inr (t @ s) else Inl Out_Of_Bounds)"

fun com_fill :: "byte list \<Rightarrow> nat \<Rightarrow> nat \<Rightarrow> nat \<Rightarrow> bool \<Rightarrow> string \<Rightarrow> string res" where
  "com_fill b cap i 0 first t = Inr t"
| "com_fill b cap i (Suc k) first t =
     rbind (rd_be32 b (4 * i)) (\<lambda>v.
     rbind (if first then Inr t else put_char cap t (CHR '' '')) (\<lambda>t1.
     rbind (put_str cap t1 (com_text v)) (\<lambda>t2. com_fill b cap (i + 1) k False t2)))"

definition community_com2str :: "bgp_peer_type option \<Rightarrow> community \<Rightarrow> string option res" where
  "community_com2str peer com =
     (if \<not> misc_db peer then Inr None
      else if com_size com = 0 then Inr (Some [])
      else rbind (com_buf com) (\<lambda>b. rbind (com_len b 0 (com_size com) 0) (\<lambda>len.
        rbind (com_fill b len 0 (com_size com) True []) (\<lambda>t.
          if length t < len then Inr (Some t) else Inl Out_Of_Bounds))))"

section \<open>Interning\<close>

definition community_hash_make :: "community \<Rightarrow> u32" where
  "community_hash_make com =
     (case com_val com of None \<Rightarrow> 0 | Some b \<Rightarrow> sum_list (map ucast (take (com_size com * 4) b)))"

definition community_cmp :: "community option \<Rightarrow> community option \<Rightarrow> bool" where
  "community_cmp com1 com2 = (case (com1, com2) of
       (None, None) \<Rightarrow> True
     | (Some c1, Some c2) \<Rightarrow>
         com_size c1 = com_size c2 \<and>
         take (com_size c1 * 4) (case com_val c1 of None \<Rightarrow> [] | Some b \<Rightarrow> b) =
         take (com_size c1 * 4) (case com_val c2 of None \<Rightarrow> [] | Some b \<Rightarrow> b)
     | _ \<Rightarrow> False)"

definition community_init :: "u32 \<Rightarrow> community pool" where
  "community_init buckets = \<lparr>p_objs = (\<lambda>_. None), p_hash = hash_create buckets\<rparr>"

definition community_free :: "(addr \<Rightarrow> community option) \<Rightarrow> addr \<Rightarrow> (addr \<Rightarrow> community option)" where
  "community_free objs com = objs(com := None)"

definition community_intern :: "bgp_peer_type option \<Rightarrow> community pool \<Rightarrow> addr \<Rightarrow> (addr option \<times> community pool) res" where
  "community_intern peer P com =
     (if \<not> routing_db peer then Inr (None, P)
      else rbind (deref (p_objs P) com) (\<lambda>c. rbind (rassert (refcnt c = 0) Assert_Failed) (\<lambda>_.
        rbind (hash_get peer (pool_key community_hash_make (p_objs P)) (pool_cmp community_cmp (p_objs P))
                 (p_hash P) com (Some hash_alloc_intern)) (\<lambda>(find, h).
          let objs = (if find \<noteq> Some com then community_free (p_objs P) com else p_objs P) in
          case find of
            None \<Rightarrow> Inl Null_Deref
          | Some f \<Rightarrow>
              rbind (deref objs f) (\<lambda>ob. let ob1 = ob\<lparr>refcnt := refcnt ob + 1\<rparr> in
              rbind (if str ob1 = None then rbind (community_com2str peer ob1) (\<lambda>s. Inr (ob1\<lparr>str := s\<rparr>))
                     else Inr ob1) (\<lambda>ob2.
                Inr (Some f, \<lparr>p_objs = objs(f := Some ob2), p_hash = h\<rparr>)))))))"

definition community_unintern :: "bgp_peer_type option \<Rightarrow> community pool \<Rightarrow> addr \<Rightarrow> community pool res" where
  "community_unintern peer P com =
     (if \<not> routing_db peer then Inr P
      else rbind (deref (p_objs P) com) (\<lambda>c.
        let c1 = (if refcnt c \<noteq> 0 then c\<lparr>refcnt := refcnt c - 1\<rparr> else c);
            objs = (p_objs P)(com := Some c1)
        in if refcnt c1 = 0 then
             rbind (hash_release (pool_key community_hash_make objs) (pool_cmp community_cmp objs) (p_hash P) com)
               (\<lambda>(ret, h). rbind (rassert (ret \<noteq> None) Assert_Failed) (\<lambda>_.
                 Inr \<lparr>p_objs = community_free objs com, p_hash = h\<rparr>))
           else Inr (P\<lparr>p_objs := objs\<rparr>)))"

text \<open>\<^verbatim>\<open>community_parse\<close>: \<open>pnt\<close> is the message from the attribute on, \<open>fresh\<close> the address
  \<^verbatim>\<open>community_new\<close> obtains.\<close>

definition community_parse :: "bgp_peer_type option \<Rightarrow> community pool \<Rightarrow> addr \<Rightarrow> byte list \<Rightarrow> nat
    \<Rightarrow> (addr option \<times> community pool) res" where
  "community_parse peer P fresh pnt len =
     (if len mod 4 \<noteq> 0 then Inr (None, P)
      else rbind (community_uniq_sort peer (Some \<lparr>refcnt = 0, str = None, com_size = len div 4, com_val = Some pnt\<rparr>))
        (\<lambda>new. case new of
             None \<Rightarrow> Inl Null_Deref
           | Some c \<Rightarrow> community_intern peer (P\<lparr>p_objs := (p_objs P)(fresh := Some c)\<rparr>) fresh))"

section \<open>Canonical form\<close>

text \<open>An attribute holds the values \<open>vs\<close>: in the first bytes of its array, or as exactly its
  array for an attribute that owns it.\<close>

definition com_rep :: "community \<Rightarrow> u32 list \<Rightarrow> bool" where
  "com_rep c vs \<longleftrightarrow> com_size c = length vs \<and>
     (case com_val c of None \<Rightarrow> vs = [] | Some b \<Rightarrow> take (4 * length vs) b = be_words vs)"

definition com_owns :: "community \<Rightarrow> u32 list \<Rightarrow> bool" where
  "com_owns c vs \<longleftrightarrow> com_size c = length vs \<and>
     (case com_val c of None \<Rightarrow> vs = [] | Some b \<Rightarrow> b = be_words vs)"

lemma com_owns_rep: "com_owns c vs \<Longrightarrow> com_rep c vs"
  by (auto simp: com_owns_def com_rep_def split: option.splits)

lemma com_rep_buf:
  "com_rep c vs \<Longrightarrow> vs \<noteq> [] \<Longrightarrow> \<exists>b. com_buf c = Inr b \<and> take (4 * length vs) b = be_words vs"
  by (auto simp: com_rep_def com_buf_def split: option.splits)

lemma community_val_get_eq:
  assumes "com_rep c vs" "i < length vs"
  shows "community_val_get c i = Inr (vs ! i)"
proof -
  obtain b where "com_buf c = Inr b" "take (4 * length vs) b = be_words vs"
    using com_rep_buf [OF assms(1)] assms(2) by force
  then show ?thesis using rd_be32_words assms(2) by (simp add: community_val_get_def mult.commute)
qed

lemma community_include_from_eq:
  "take (4 * length vs) b = be_words vs \<Longrightarrow> i + k = length vs \<Longrightarrow>
     community_include_from b v i k = Inr (v \<in> set (drop i vs))"
proof (induction k arbitrary: i)
  case (Suc k)
  then have i: "i < length vs" by simp
  have "rd_mem b (4 * i) 4 = Inr (put_be32 (vs ! i))"
    using take_drop_be_words [OF Suc.prems(1) i] by (simp add: rd_mem_def)
  then show ?case
    using Suc.IH [of "i + 1"] Suc.prems i by (auto simp: Cons_nth_drop_Suc [symmetric])
qed simp

lemma community_include_eq:
  assumes "com_rep c vs"
  shows "community_include c v = Inr (v \<in> set vs)"
proof (cases "vs = []")
  case True
  then show ?thesis using assms by (simp add: community_include_def com_rep_def)
next
  case False
  then obtain b where "com_buf c = Inr b" "take (4 * length vs) b = be_words vs"
    using com_rep_buf [OF assms] by blast
  then show ?thesis
    using community_include_from_eq [of vs b 0 "length vs"] assms False
    by (simp add: community_include_def com_rep_def)
qed

lemma community_add_val_eq:
  assumes "com_owns c vs" "misc_db peer"
  shows "\<exists>c'. community_add_val peer c v = Inr c' \<and> com_owns c' (vs @ [v]) \<and> refcnt c' = refcnt c \<and> str c' = str c"
proof -
  define b where "b = (case com_val c of None \<Rightarrow> [] | Some b \<Rightarrow> b)"
  have b: "b = be_words vs" "com_size c = length vs"
    using assms(1) by (auto simp: com_owns_def b_def split: option.splits)
  have al: "(case com_val c of Some b \<Rightarrow> realloc b (4 * Suc (length vs)) | None \<Rightarrow> realloc [] (4 * Suc (length vs))) =
      be_words vs @ replicate 4 0"
    using b by (auto simp: b_def realloc_def split: option.splits)
  have "community_add_val peer c v = rbind (wr_mem (be_words vs @ replicate 4 0) (4 * length vs) (put_be32 v))
      (\<lambda>b'. Inr (c\<lparr>com_size := Suc (length vs), com_val := Some b'\<rparr>))"
    using assms(2) b(2) al
    by (cases "com_val c") (simp_all add: community_add_val_def com_length_def Let_def mult.commute)
  then show ?thesis by (simp add: com_owns_def)
qed

lemma uniq_loop_eq:
  assumes "com_rep c vs" "misc_db peer" "com_owns new ws" "distinct ws" "i + k = length vs"
  shows "\<exists>new' ws'. uniq_loop peer c new i k = Inr new' \<and> com_owns new' ws' \<and> distinct ws' \<and>
     set ws' = set ws \<union> set (drop i vs) \<and> refcnt new' = refcnt new \<and> str new' = str new"
  using assms(3-)
proof (induction k arbitrary: i new ws)
  case (Suc k)
  then have i: "i < length vs" by simp
  have d: "set (drop i vs) = insert (vs ! i) (set (drop (i + 1) vs))"
    using i by (simp add: Cons_nth_drop_Suc [symmetric])
  have get: "community_val_get c i = Inr (vs ! i)" "community_include new (vs ! i) = Inr (vs ! i \<in> set ws)"
    using community_val_get_eq [OF assms(1) i] community_include_eq com_owns_rep Suc.prems(1) by blast+
  show ?case
  proof (cases "vs ! i \<in> set ws")
    case True
    then show ?thesis using Suc.IH [of new ws "i + 1"] Suc.prems get d by (simp add: insert_absorb)
  next
    case False
    obtain n1 where n1: "community_add_val peer new (vs ! i) = Inr n1" "com_owns n1 (ws @ [vs ! i])"
        "refcnt n1 = refcnt new" "str n1 = str new"
      using community_add_val_eq [OF Suc.prems(1) assms(2)] by blast
    then show ?thesis using Suc.IH [of n1 "ws @ [vs ! i]" "i + 1"] Suc.prems False get d by simp
  qed
qed auto

lemma be_groups_eq:
  "i + k = length vs \<Longrightarrow> be_groups (be_words vs) i k = Inr (drop i vs)"
proof (induction k arbitrary: i)
  case (Suc k)
  then have "i < length vs" by simp
  then show ?case
    using Suc rd_be32_words [of vs "be_words vs" i] by (simp add: Cons_nth_drop_Suc)
qed simp

lemma sort_distinct_list: "distinct ws \<Longrightarrow> sort ws = sorted_list_of_set (set ws)"
  by (simp add: sorted_list_of_set_sort_remdups distinct_remdups_id)

lemma community_uniq_sort_eq:
  assumes "com_rep c vs" "misc_db peer"
  shows "\<exists>new. community_uniq_sort peer (Some c) = Inr (Some new) \<and>
     com_owns new (sorted_list_of_set (set vs)) \<and> refcnt new = 0 \<and> str new = None"
proof -
  define n0 :: community where "n0 = \<lparr>refcnt = 0, str = None, com_size = 0, com_val = None\<rparr>"
  obtain n ws where n: "uniq_loop peer c n0 0 (com_size c) = Inr n" "com_owns n ws" "distinct ws" "set ws = set vs"
      "refcnt n = 0" "str n = None"
    using uniq_loop_eq [OF assms, of n0 "[]" 0 "length vs"] assms(1)
    by (auto simp: n0_def com_owns_def com_rep_def)
  have s: "sort ws = sorted_list_of_set (set vs)" using sort_distinct_list [OF n(3)] n(4) by simp
  have new: "community_new peer = Some n0" using assms(2) by (simp add: community_new_def n0_def)
  show ?thesis
  proof (cases "com_val n")
    case None
    then have "ws = []" "com_size n = 0" using n(2) by (auto simp: com_owns_def)
    then show ?thesis using n s new None by (auto simp: community_uniq_sort_def com_owns_def)
  next
    case (Some b)
    then have b: "b = be_words ws" "com_size n = length ws" using n(2) by (auto simp: com_owns_def)
    have "qsort_vals b (com_size n) = Inr (be_words (sort ws))"
      using be_groups_eq [of 0 "length ws" ws] b by (simp add: qsort_vals_def)
    moreover have "length (sorted_list_of_set (set vs)) = length ws" using arg_cong [OF s, of length] by simp
    ultimately show ?thesis
      using n(1,5,6) new Some b(2) by (simp add: community_uniq_sort_def com_owns_def s)
  qed
qed

text \<open>C33: \<^verbatim>\<open>community_uniq_sort\<close> of an attribute with the values \<open>vs\<close> reads and writes within its
  arrays and yields a new attribute that holds the set of these values, each once and in
  increasing order.\<close>

theorem community_uniq_sort_canonical:
  assumes "com_rep c vs" "misc_db peer"
  shows "\<exists>new. community_uniq_sort peer (Some c) = Inr (Some new) \<and>
     com_owns new (sorted_list_of_set (set vs)) \<and> refcnt new = 0 \<and> str new = None"
  using assms by (rule community_uniq_sort_eq)

definition peer_ok :: "bgp_peer_type option" where
  "peer_ok = Some \<lparr>has_misc_db = True, has_routing_db = True\<rparr>"

lemma peer_ok_db [simp]: "misc_db peer_ok" "routing_db peer_ok"
  by (simp_all add: peer_ok_def misc_db_def routing_db_def)

theorem community_uniq_sort_canonical_witness:
  "\<exists>new. community_uniq_sort peer_ok (Some \<lparr>refcnt = 0, str = None, com_size = 3,
       com_val = Some (be_words [0x10002, 0x10001, 0x10002])\<rparr>) = Inr (Some new) \<and> com_owns new [0x10001, 0x10002]"
proof -
  let ?c = "\<lparr>refcnt = 0, str = None, com_size = 3, com_val = Some (be_words [0x10002, 0x10001, 0x10002])\<rparr> :: community"
  have "com_rep ?c [0x10002, 0x10001, 0x10002]" by (simp add: com_rep_def)
  moreover have "sorted_list_of_set (set [0x10002, 0x10001, 0x10002 :: u32]) = [0x10001, 0x10002]" by code_simp
  ultimately show ?thesis
    using community_uniq_sort_canonical [of ?c "[0x10002, 0x10001, 0x10002]" peer_ok] by auto
qed

section \<open>The printed form fits\<close>

definition com_line :: "u32 list \<Rightarrow> string" where
  "com_line vs = (case vs of [] \<Rightarrow> [] | v # ws \<Rightarrow> com_text v @ concat (map (\<lambda>w. CHR '' '' # com_text w) ws))"

lemma com_text_fits: "length (com_text v) + 1 \<le> com_room v"
proof (cases "community_word v")
  case None
  have "unat (drop_bit 16 v AND 0xFFFF) < 10 ^ Suc 4" "unat (v AND 0xFFFF) < 10 ^ Suc 4"
  proof -
    have m: "unat (w AND 0xFFFF) \<le> 65535" for w :: u32
      using word_and_le1 [of w "0xFFFF"] by (simp add: word_le_nat_alt)
    show "unat (drop_bit 16 v AND 0xFFFF) < 10 ^ Suc 4" "unat (v AND 0xFFFF) < 10 ^ Suc 4"
      using m [of "drop_bit 16 v"] m [of v] by simp_all
  qed
  then show ?thesis
    using length_dec_str_bound [of "unat (drop_bit 16 v AND 0xFFFF)" 4] length_dec_str_bound [of "unat (v AND 0xFFFF)" 4]
    by (simp add: com_text_def com_room_def None)
qed (simp add: com_text_def com_room_def)

lemma com_len_eq:
  "take (4 * length vs) b = be_words vs \<Longrightarrow> i + k = length vs \<Longrightarrow>
     com_len b i k len = Inr (len + sum_list (map com_room (drop i vs)))"
proof (induction k arbitrary: i len)
  case (Suc k)
  then have "i < length vs" by simp
  then show ?case
    using Suc.IH [of "i + 1"] Suc.prems rd_be32_words [OF Suc.prems(1)] by (simp add: Cons_nth_drop_Suc [symmetric])
qed simp

lemma com_fill_eq:
  assumes "take (4 * length vs) b = be_words vs" "i + k = length vs"
    "(if first then 0 else 1) + length t + sum_list (map com_room (drop i vs)) \<le> cap"
  shows "com_fill b cap i k first t = Inr (t @ (if first then com_line (drop i vs)
       else concat (map (\<lambda>w. CHR '' '' # com_text w) (drop i vs))))"
  using assms(2,3)
proof (induction k arbitrary: i first t)
  case 0
  then show ?case by (simp add: com_line_def)
next
  case (Suc k)
  then have i: "i < length vs" by simp
  have d: "drop i vs = vs ! i # drop (i + 1) vs" using i by (simp add: Cons_nth_drop_Suc)
  have rd: "rd_be32 b (4 * i) = Inr (vs ! i)" using rd_be32_words [OF assms(1) i] .
  let ?t = "(if first then t else t @ '' '') @ com_text (vs ! i)"
  have "1 + length ?t + sum_list (map com_room (drop (i + 1) vs)) \<le> cap"
    using Suc.prems(2) com_text_fits [of "vs ! i"] unfolding d by (auto split: if_splits)
  then have "com_fill b cap (i + 1) k False ?t = Inr (?t @ concat (map (\<lambda>w. CHR '' '' # com_text w) (drop (i + 1) vs)))"
    using Suc.IH [of "i + 1" False ?t] Suc.prems(1) by simp
  moreover have "put_str cap (if first then t else t @ '' '') (com_text (vs ! i)) = Inr ?t"
      "first \<or> length t < cap"
    using Suc.prems(2) com_text_fits [of "vs ! i"] unfolding d by (auto simp: put_str_def split: if_splits)
  ultimately show ?case unfolding d using rd by (cases first) (auto simp: put_char_def com_line_def)
qed

lemma community_com2str_eq:
  assumes "com_rep c vs" "misc_db peer"
  shows "community_com2str peer c = Inr (Some (com_line vs))"
proof (cases "vs = []")
  case True
  then show ?thesis using assms by (simp add: community_com2str_def com_rep_def com_line_def)
next
  case False
  obtain b where b: "com_buf c = Inr b" "take (4 * length vs) b = be_words vs"
    using com_rep_buf [OF assms(1) False] by blast
  let ?len = "sum_list (map com_room vs)"
  have len: "com_len b 0 (length vs) 0 = Inr ?len" using com_len_eq [OF b(2), of 0 "length vs" 0] by simp
  have fill: "com_fill b ?len 0 (length vs) True [] = Inr (com_line vs)"
    using com_fill_eq [OF b(2), of 0 "length vs" True "[]" ?len] by simp
  have "length (concat (map (\<lambda>w. CHR '' '' # com_text w) ws)) \<le> sum_list (map com_room ws)" for ws
  proof (induction ws)
    case (Cons a ws)
    then show ?case using com_text_fits [of a] by simp
  qed simp
  then have "length (com_line vs) < ?len"
    using False com_text_fits [of "hd vs"] by (cases vs) (auto simp: com_line_def Suc_le_eq intro!: add_less_le_mono)
  with b(1) len fill assms False show ?thesis by (simp add: community_com2str_def com_rep_def)
qed

text \<open>\<^verbatim>\<open>community_com2str\<close> never writes past the memory it computed for the string, and the
  string is the values, symbolic or as \<^verbatim>\<open>AS:VAL\<close>, separated by single spaces.\<close>

theorem community_com2str_fits:
  assumes "com_rep c vs" "misc_db peer"
  shows "community_com2str peer c = Inr (Some (com_line vs))"
  using assms by (rule community_com2str_eq)

theorem community_com2str_fits_witness:
  "community_com2str peer_ok \<lparr>refcnt = 0, str = None, com_size = 2,
     com_val = Some (be_words [0xFFFFFF01, 0xFFFEFFFE])\<rparr> = Inr (Some ''no-export 65534:65534'')"
proof -
  let ?c = "\<lparr>refcnt = 0, str = None, com_size = 2, com_val = Some (be_words [0xFFFFFF01, 0xFFFEFFFE])\<rparr> :: community"
  have "com_rep ?c [0xFFFFFF01, 0xFFFEFFFE]" by (simp add: com_rep_def)
  moreover have "com_line [0xFFFFFF01, 0xFFFEFFFE] = ''no-export 65534:65534''"
    by (simp add: com_line_def com_text_def community_word_def community_consts dec_str_eval)
  ultimately show ?thesis using community_com2str_fits [of ?c "[0xFFFFFF01, 0xFFFEFFFE]" peer_ok] by simp
qed

section \<open>The pool of communities\<close>

text \<open>What the pool compares: the number of values and their bytes.\<close>

definition community_value :: "community \<Rightarrow> nat \<times> byte list" where
  "community_value c = (com_size c, take (com_size c * 4) (case com_val c of None \<Rightarrow> [] | Some b \<Rightarrow> b))"

lemma community_hash_make_value:
  "community_hash_make c = sum_list (map ucast (snd (community_value c)))"
  by (simp add: community_hash_make_def community_value_def split: option.split)

interpretation communities: attr_pool community_hash_make community_cmp community_value
  by unfold_locales
     (auto simp: community_cmp_def community_value_def community_hash_make_value)

lemma community_intern_pool:
  "community_intern peer P com =
     pool_intern peer community_hash_make community_cmp (community_com2str peer) P com"
  unfolding community_intern_def pool_intern_def community_free_def ..

lemma community_unintern_pool:
  "community_unintern peer P com = pool_unintern peer community_hash_make community_cmp P com"
  unfolding community_unintern_def pool_unintern_def community_free_def ..

lemma community_init_inv:
  "buckets \<noteq> 0 \<Longrightarrow> pool_inv community_hash_make community_cmp (community_init buckets)"
  by (simp add: pool_inv_def community_init_def hash_wf_create)

definition com_canonical :: "u32 list \<Rightarrow> nat \<times> byte list" where
  "com_canonical vs = (let ws = sorted_list_of_set (set vs) in (length ws, be_words ws))"

lemma com_owns_value: "com_owns c ws \<Longrightarrow> community_value c = (length ws, be_words ws)"
  by (auto simp: com_owns_def community_value_def split: option.splits)

lemma com_value_rep: "community_value c = (length ws, be_words ws) \<Longrightarrow> com_rep c ws"
  by (auto simp: com_rep_def community_value_def mult.commute split: option.splits)

text \<open>C32: parsing a well-formed communities attribute into a well-formed pool returns the
  address of an object that holds the set of its values; the pool counts one more reference
  to that set and the references to all others are unchanged. An object that already held the
  same set, in whatever order and with whatever repetitions it was announced, is the one
  returned.\<close>

theorem community_parse_interns:
  assumes inv: "pool_inv community_hash_make community_cmp P" and peer: "misc_db peer" "routing_db peer"
    and fresh: "p_objs P fresh = None" and big: "\<forall>a ob. p_objs P a = Some ob \<longrightarrow> refcnt ob \<noteq> - 1"
    and pnt: "take len pnt = be_words vs" "len = 4 * length vs"
  shows "\<exists>f P' c. community_parse peer P fresh pnt len = Inr (Some f, P') \<and>
     pool_inv community_hash_make community_cmp P' \<and>
     f \<in> hash_data (p_hash P') \<and> p_objs P' f = Some c \<and> com_rep c (sorted_list_of_set (set vs)) \<and>
     (\<forall>d x. d \<in> hash_data (p_hash P) \<longrightarrow> p_objs P d = Some x \<longrightarrow> community_value x = com_canonical vs \<longrightarrow> d = f) \<and>
     (\<forall>v. pool_abs community_value P' v = pool_abs community_value P v + (if v = com_canonical vs then 1 else 0))"
proof -
  let ?ws = "sorted_list_of_set (set vs)"
  let ?tmp = "\<lparr>refcnt = 0, str = None, com_size = len div 4, com_val = Some pnt\<rparr> :: community"
  have "com_rep ?tmp vs" using pnt by (simp add: com_rep_def)
  then obtain c where c: "community_uniq_sort peer (Some ?tmp) = Inr (Some c)" "com_owns c ?ws" "refcnt c = 0"
    using community_uniq_sort_eq [OF _ peer(1)] by blast
  have val: "community_value c = com_canonical vs"
    using com_owns_value [OF c(2)] by (simp add: com_canonical_def Let_def)
  define P1 where "P1 = P\<lparr>p_objs := (p_objs P)(fresh := Some c)\<rparr>"
  have nf: "fresh \<notin> hash_data (p_hash P)" using inv fresh by (force simp: pool_inv_def)
  have same: "p_objs P1 d = p_objs P d" if "d \<in> hash_data (p_hash P)" for d using that nf by (auto simp: P1_def)
  have inv1: "pool_inv community_hash_make community_cmp P1"
    using inv same communities.pool_inv_cong [of "p_hash P" "p_objs P1" "p_objs P"]
    by (auto simp: pool_inv_def P1_def)
  have abs1: "pool_abs community_value P1 v = pool_abs community_value P v" for v
    using same by (intro communities.pool_abs_same) (simp_all add: P1_def)
  have mk: "\<forall>ob. community_value ob = community_value c \<longrightarrow> (\<exists>s. community_com2str peer ob = Inr s)"
    using community_com2str_eq [OF com_value_rep peer(1)] com_owns_value [OF c(2)] by metis
  have big1: "\<forall>a ob. p_objs P1 a = Some ob \<longrightarrow> refcnt ob \<noteq> - 1"
    using big c(3) by (auto simp: P1_def)
  have P1_fresh: "p_objs P1 fresh = Some c" by (simp add: P1_def)
  obtain f P' ob where run: "pool_intern peer community_hash_make community_cmp (community_com2str peer) P1 fresh = Inr (Some f, P')"
      and r: "pool_inv community_hash_make community_cmp P'" "f \<in> hash_data (p_hash P')" "p_objs P' f = Some ob"
        "community_value ob = community_value c"
        "\<forall>d x. d \<in> hash_data (p_hash P1) \<longrightarrow> p_objs P1 d = Some x \<longrightarrow> community_value x = community_value c \<longrightarrow> d = f"
        "\<forall>v. pool_abs community_value P' v = pool_abs community_value P1 v + (if v = community_value c then 1 else 0)"
    using communities.intern_refines [OF inv1 peer P1_fresh c(3) big1 mk] by blast
  have "community_parse peer P fresh pnt len = Inr (Some f, P')"
    using pnt(2) c(1) run by (simp add: community_parse_def community_intern_pool P1_def)
  moreover have "com_rep ob ?ws" using com_value_rep r(4) com_owns_value [OF c(2)] by metis
  moreover have "\<forall>d x. d \<in> hash_data (p_hash P) \<longrightarrow> p_objs P d = Some x \<longrightarrow> community_value x = com_canonical vs \<longrightarrow> d = f"
    using r(5) same val by (auto simp: P1_def)
  ultimately show ?thesis using r val abs1 by metis
qed

theorem community_parse_interns_witness:
  "\<exists>f P'. community_parse peer_ok (community_init 16) 0 (be_words [5, 3, 5]) 12 = Inr (Some f, P') \<and>
     pool_abs community_value P' (2, be_words [3, 5]) = 1"
proof -
  have c: "com_canonical [5, 3, 5] = (2, be_words [3, 5])"
  proof -
    have "sorted_list_of_set (set [5, 3, 5 :: u32]) = [3, 5]" by code_simp
    then show ?thesis by (simp only: com_canonical_def Let_def) simp
  qed
  have z: "pool_abs community_value (community_init 16) v = 0" for v
    by (simp add: pool_abs_def community_init_def hash_create_def hash_create_size_def)
  have none: "p_objs (community_init 16) 0 = None" "\<forall>a ob. p_objs (community_init 16) a = Some ob \<longrightarrow> refcnt ob \<noteq> - 1"
    by (simp_all add: community_init_def)
  have inv: "pool_inv community_hash_make community_cmp (community_init 16)" by (rule community_init_inv) simp
  have msg: "take 12 (be_words [5, 3, 5]) = be_words [5, 3, 5]" "12 = 4 * length [5, 3, 5 :: u32]" by simp_all
  obtain f P' where "community_parse peer_ok (community_init 16) 0 (be_words [5, 3, 5]) 12 = Inr (Some f, P')"
      "\<forall>v. pool_abs community_value P' v =
         pool_abs community_value (community_init 16) v + (if v = com_canonical [5, 3, 5] then 1 else 0)"
    using community_parse_interns [OF inv peer_ok_db none msg] by blast
  then show ?thesis unfolding c z by (intro exI [of _ f] exI [of _ P']) simp
qed

text \<open>Releasing a reference to an interned object never fails; it takes one reference off
  the pool's count of that value, and the last one frees the object.\<close>

theorem community_unintern_releases:
  assumes "pool_inv community_hash_make community_cmp P" "routing_db peer"
    "com \<in> hash_data (p_hash P)" "p_objs P com = Some c"
  shows "\<exists>P'. community_unintern peer P com = Inr P' \<and> pool_inv community_hash_make community_cmp P' \<and>
     (refcnt c = 1 \<longrightarrow> p_objs P' com = None \<and> com \<notin> hash_data (p_hash P')) \<and>
     (\<forall>v. pool_abs community_value P' v = pool_abs community_value P v - (if v = community_value c then 1 else 0))"
  unfolding community_unintern_pool using assms by (rule communities.unintern_refines)

text \<open>A pool with one object that is referenced once.\<close>

definition com_single :: "community pool" where
  "com_single =
     \<lparr>p_objs = [7 \<mapsto> \<lparr>refcnt = 1, str = Some [], com_size = 0, com_val = None\<rparr>],
      p_hash = \<lparr>h_index = [[(0, 7)]], h_size = 1, h_count = 1\<rparr>\<rparr>"

lemma com_single_inv: "pool_inv community_hash_make community_cmp com_single" "7 \<in> hash_data (p_hash com_single)"
  by (simp_all add: pool_inv_def hash_wf_def hash_data_def com_single_def pool_key_def community_hash_make_def)

theorem community_unintern_releases_witness:
  "\<exists>P'. community_unintern peer_ok com_single 7 = Inr P' \<and> p_objs P' 7 = None"
proof -
  let ?c = "\<lparr>refcnt = 1, str = Some [], com_size = 0, com_val = None\<rparr> :: community"
  have "p_objs com_single 7 = Some ?c" by (simp add: com_single_def)
  then show ?thesis
    using community_unintern_releases [OF com_single_inv(1) peer_ok_db(2) com_single_inv(2), of ?c] by auto
qed

section \<open>Deleting a value\<close>

lemma community_del_from_found:
  assumes "take (4 * length vs) b = be_words vs" "length b = 4 * length vs" "com_size com = length vs"
    "j < length vs" "i \<le> j" "\<And>k. i \<le> k \<Longrightarrow> k < j \<Longrightarrow> vs ! k \<noteq> vs ! j" "val = put_be32 (vs ! j) @ rest"
    "j + 1 < length vs"
  shows "community_del_from com b val i = Inl Out_Of_Bounds"
  using assms(5,6)
proof (induction "j - i" arbitrary: i)
  case 0
  then have "i = j" by simp
  moreover have "rd_mem b (4 * j) 4 = Inr (put_be32 (vs ! j))" "rd_mem val 0 4 = Inr (put_be32 (vs ! j))"
    using take_drop_be_words [OF assms(1,4)] assms(7) by (simp_all add: rd_mem_def)
  moreover have "rd_mem b (4 * (j + 1)) ((length vs - j - 1) * sizeof_ptr) = Inl Out_Of_Bounds"
    using assms(2,8) by (intro rd_mem_out) (simp add: sizeof_ptr_def)
  ultimately show ?case
    using assms(3,4,8) by (subst community_del_from.simps) (simp add: Let_def)
next
  case (Suc n)
  then have i: "i < j" "i < length vs" using assms(4) by simp_all
  have "rd_mem b (4 * i) 4 = Inr (put_be32 (vs ! i))" "rd_mem val 0 4 = Inr (put_be32 (vs ! j))"
    using take_drop_be_words [OF assms(1) i(2)] assms(7) by (simp_all add: rd_mem_def)
  moreover have "vs ! i \<noteq> vs ! j" using Suc.prems(2) i(1) by simp
  moreover have "community_del_from com b val (i + 1) = Inl Out_Of_Bounds"
    using Suc.hyps Suc.prems(2) i(1) by simp
  ultimately show ?case using i assms(3) by (subst community_del_from.simps) simp
qed

text \<open>\<^verbatim>\<open>community_del_val\<close> of a value that is not the last one of the attribute reads past the
  end of the array: the copy that closes the gap counts 8 bytes, the size of the pointer
  \<^verbatim>\<open>val\<close>, for every value to be moved.\<close>

theorem community_del_val_overread:
  assumes "com_owns com vs" "j + 1 < length vs" "\<And>k. k < j \<Longrightarrow> vs ! k \<noteq> vs ! j"
  shows "community_del_val com (put_be32 (vs ! j)) = Inl Out_Of_Bounds"
proof -
  obtain b where b: "com_val com = Some b" "b = be_words vs" "com_size com = length vs"
    using assms(1,2) by (auto simp: com_owns_def split: option.splits)
  then have "community_del_from com b (put_be32 (vs ! j)) 0 = Inl Out_Of_Bounds"
    using assms(2,3) by (intro community_del_from_found [of vs b com j 0 _ "[]"]) simp_all
  with b(1) show ?thesis by (simp add: community_del_val_def)
qed

theorem community_del_val_overread_witness:
  "community_del_val \<lparr>refcnt = 0, str = None, com_size = 2, com_val = Some (be_words [1, 2])\<rparr> (put_be32 1)
     = Inl Out_Of_Bounds"
  using community_del_val_overread [of "\<lparr>refcnt = 0, str = None, com_size = 2, com_val = Some (be_words [1, 2])\<rparr>"
      "[1, 2]" 0] by (simp add: com_owns_def)

end
