(* ===== verification/Bgp_Aspath_Pool.thy ===== *)
theory Bgp_Aspath_Pool
  imports Bgp_Aspath_Props Bgp_Community
begin

text \<open>
  Interning of AS paths (\<^verbatim>\<open>aspath_parse\<close> and \<^verbatim>\<open>aspath_unintern\<close> of
  \<^verbatim>\<open>src/src/bgp/bgp_aspath.c\<close>) as a client of the attribute pool of \<^theory_text>\<open>Bgp_Hash\<close>, and the
  reconciliation of AS_PATH with AS4_PATH.
\<close>

section \<open>Keys\<close>

text \<open>The key of a path is the hash of its cached text. The pool is specified over the key that
  the text of the segments has; the two agree on a path whose cache is empty or right.\<close>

definition aspath_segs_key :: "aspath \<Rightarrow> u32" where
  "aspath_segs_key p = aspath_key (p\<lparr>str := None\<rparr>)"

definition str_ok :: "aspath \<Rightarrow> bool" where
  "str_ok p \<longleftrightarrow> known_types (segments p) \<and> (str p = None \<or> str p = Some (path_text (segments p)))"

definition text_hash :: "string \<Rightarrow> u32" where
  "text_hash s = (case jhash (str_bytes s) (word_of_nat (length s)) 2334325 of Inl _ \<Rightarrow> 0 | Inr k \<Rightarrow> k)"

lemma jhash_text: "jhash (str_bytes s) (word_of_nat (length s)) 2334325 = Inr (text_hash s)"
proof -
  have "unat (word_of_nat (length s) :: u32) \<le> length (str_bytes s)"
    by (simp add: str_bytes_def unat_of_nat)
  then obtain k where "jhash (str_bytes s) (word_of_nat (length s)) 2334325 = Inr k"
    using jhash_total by blast
  then show ?thesis by (simp add: text_hash_def)
qed

lemma str_update_eq:
  "known_types (segments p) \<Longrightarrow> aspath_str_update p =
     Inr (p\<lparr>str := Some (path_text (segments p)), last_as := last_asn (last_as p) (segments p)\<rparr>)"
  by (simp add: aspath_str_update_def make_str_eq)

definition cache_text :: "aspath \<Rightarrow> aspath" where
  "cache_text p = (if str p = None
     then p\<lparr>str := Some (path_text (segments p)), last_as := last_asn (last_as p) (segments p)\<rparr> else p)"

lemma key_make_eq: "str_ok p \<Longrightarrow> aspath_key_make p = Inr (text_hash (path_text (segments p)), cache_text p)"
  by (auto simp: aspath_key_make_def str_ok_def str_update_eq jhash_text cache_text_def)

lemma cache_text_simps [simp]:
  "str_ok p \<Longrightarrow> str (cache_text p) = Some (path_text (segments p))"
  "segments (cache_text p) = segments p" "refcnt (cache_text p) = refcnt p"
  "str_ok (cache_text p) \<longleftrightarrow> str_ok p"
  by (auto simp: cache_text_def str_ok_def)

lemma key_eq: "str_ok p \<Longrightarrow> aspath_key p = text_hash (path_text (segments p))"
  by (simp add: aspath_key_def key_make_eq)

lemma segs_key_eq: "str_ok p \<Longrightarrow> aspath_segs_key p = aspath_key p"
  using key_eq [of "p\<lparr>str := None\<rparr>"] by (simp add: aspath_segs_key_def key_eq str_ok_def)

lemma segs_cmp_eq: "segs_cmp xs ys \<longleftrightarrow> xs = ys"
  by (induction xs ys rule: segs_cmp.induct) (auto simp: list.rel_eq)

lemma segs_key_cong: "segments p = segments q \<Longrightarrow> aspath_segs_key p = aspath_segs_key q"
proof -
  assume eq: "segments p = segments q"
  show ?thesis
  proof (cases "known_types (segments p)")
    case True
    then show ?thesis
      using eq key_eq [of "p\<lparr>str := None\<rparr>"] key_eq [of "q\<lparr>str := None\<rparr>"] by (simp add: aspath_segs_key_def str_ok_def)
  next
    case False
    have "aspath_key_make (x\<lparr>str := None\<rparr>) = Inl Null_Deref" if "\<not> known_types (segments x)" for x
    proof -
      obtain la where "aspath_make_str_count (x\<lparr>str := None\<rparr>) = Inr (None, la)"
        using make_str_unknown [of "x\<lparr>str := None\<rparr>"] \<open>\<not> known_types (segments x)\<close> by auto
      then show ?thesis by (simp add: aspath_key_make_def aspath_str_update_def)
    qed
    then show ?thesis using False eq by (simp add: aspath_segs_key_def aspath_key_def)
  qed
qed

interpretation aspaths: attr_pool aspath_segs_key aspath_cmp segments
  by unfold_locales (auto simp: aspath_cmp_def segs_cmp_eq intro: segs_key_cong)

text \<open>A well-formed pool of paths: moreover every interned path has its text.\<close>

definition aspath_pool_inv :: "aspath pool \<Rightarrow> bool" where
  "aspath_pool_inv P \<longleftrightarrow> pool_inv aspath_segs_key aspath_cmp P \<and>
     (\<forall>d \<in> hash_data (p_hash P). \<forall>p. p_objs P d = Some p \<longrightarrow> str_ok p \<and> str p \<noteq> None)"

lemma aspath_init_inv: "aspath_pool_inv (aspath_init n)"
  using hash_wf_create [of 32767 "pool_key aspath_segs_key (\<lambda>_. None)" "pool_cmp aspath_cmp (\<lambda>_. None)"]
    hash_data_create [of 32767]
  by (simp add: aspath_pool_inv_def pool_inv_def aspath_init_def hash_create_def)

section \<open>Interning\<close>

lemma dup_all_id: "assegment_dup_all segs = segs"
  by (simp add: assegment_dup_all_def assegment_dup_def assegment_new_def map_idI)

lemma aspath_parse_run:
  assumes peer: "misc_db peer" "routing_db peer" and even: "len mod 2 = 0"
    and segs: "assegments_parse s len u = Inr segs" "known_types segs"
  defines "as1 \<equiv> \<lparr>refcnt = 0, str = Some (path_text segs), segments = segs, last_as = last_asn 0 segs\<rparr>"
  shows "aspath_parse peer P tmp fresh s len u =
    rbind (hash_get peer (pool_key aspath_key ((p_objs P)(tmp := Some as1))) (pool_cmp aspath_cmp ((p_objs P)(tmp := Some as1)))
             (p_hash P) tmp (Some (\<lambda>_. Some fresh))) (\<lambda>(find, h). case find of
          None \<Rightarrow> Inr (None, P\<lparr>p_hash := h\<rparr>)
        | Some f \<Rightarrow>
            let objs = (if f = fresh \<and> f \<notin> hash_data (p_hash P)
                        then (p_objs P)(fresh := Some (as1\<lparr>last_as := last_asn (last_as as1) segs\<rparr>)) else p_objs P) in
            rbind (deref objs f) (\<lambda>ob.
              Inr (Some f, \<lparr>p_objs = objs(f := Some (ob\<lparr>refcnt := refcnt ob + 1\<rparr>)), p_hash = h\<rparr>)))"
proof -
  have "aspath_key_make \<lparr>refcnt = 0, str = None, segments = segs, last_as = 0\<rparr> = Inr (text_hash (path_text segs), as1)"
    using key_make_eq [of "\<lparr>refcnt = 0, str = None, segments = segs, last_as = 0\<rparr>"] segs(2)
    by (simp add: str_ok_def cache_text_def as1_def)
  moreover have "aspath_hash_alloc as1 = Inr (Some (as1\<lparr>last_as := last_asn (last_as as1) segs\<rparr>))"
    using segs(2) by (simp add: aspath_hash_alloc_def aspath_dup_def make_str_eq as1_def dup_all_id)
  ultimately show ?thesis using peer even segs(1) by (simp add: aspath_parse_def Let_def)
qed

text \<open>A path of known segment types is shared.\<close>

lemma aspath_parse_shares:
  assumes inv: "aspath_pool_inv P" and peer: "misc_db peer" "routing_db peer" and even: "len mod 2 = 0"
    and segs: "assegments_parse s len use32bit = Inr segs" "known_types segs"
    and addrs: "tmp \<notin> hash_data (p_hash P)" "fresh \<notin> hash_data (p_hash P)" "tmp \<noteq> fresh"
    and big: "\<forall>a ob. p_objs P a = Some ob \<longrightarrow> refcnt ob \<noteq> - 1"
  shows "\<exists>f P' p. aspath_parse peer P tmp fresh s len use32bit = Inr (Some f, P') \<and> aspath_pool_inv P' \<and>
     f \<in> hash_data (p_hash P') \<and> p_objs P' f = Some p \<and> segments p = segs \<and>
     (\<forall>d x. d \<in> hash_data (p_hash P) \<longrightarrow> p_objs P d = Some x \<longrightarrow> segments x = segs \<longrightarrow> d = f) \<and>
     (\<forall>v. pool_abs segments P' v = pool_abs segments P v + (if v = segs then 1 else 0))"
proof -
  let ?h = "p_hash P"
  define as1 where "as1 = \<lparr>refcnt = 0, str = Some (path_text segs), segments = segs, last_as = last_asn 0 segs\<rparr>"
  define dup where "dup = as1\<lparr>last_as := last_asn (last_as as1) segs\<rparr>"
  define S1 where "S1 = (p_objs P)(tmp := Some as1)"
  define S where "S = S1(fresh := Some dup)"
  have as1: "str_ok as1" "segments as1 = segs" "refcnt as1 = 0" using segs(2) by (simp_all add: as1_def str_ok_def)
  have dup: "str_ok dup" "segments dup = segs" "refcnt dup = 0" "str dup \<noteq> None"
    using segs(2) by (simp_all add: dup_def as1_def str_ok_def)
  have pinv: "pool_inv aspath_segs_key aspath_cmp P" using inv by (simp add: aspath_pool_inv_def)
  have agree: "S d = p_objs P d" if "d \<in> hash_data ?h" for d using that addrs by (auto simp: S_def S1_def)
  have Sx: "S tmp = Some as1" "S fresh = Some dup" using addrs(3) by (simp_all add: S_def S1_def)
  have sd: "segments dup = segments as1" using dup(2) as1(2) by simp
  obtain f h' ob where get: "hash_get peer (pool_key aspath_segs_key S) (pool_cmp aspath_cmp S) ?h tmp (Some (\<lambda>_. Some fresh)) = Inr (Some f, h')"
      and ob: "S f = Some ob" "segments ob = segments as1" "f = fresh \<or> f \<in> hash_data ?h"
      and sh: "\<And>P' ob2. p_hash P' = h' \<Longrightarrow> p_objs P' f = Some ob2 \<Longrightarrow> segments ob2 = segments as1 \<Longrightarrow>
       refcnt ob2 = refcnt ob + 1 \<Longrightarrow> \<forall>d \<in> hash_data (p_hash P). d \<noteq> f \<longrightarrow> p_objs P' d = p_objs P d \<Longrightarrow>
       pool_inv aspath_segs_key aspath_cmp P' \<and> f \<in> hash_data (p_hash P') \<and>
       (\<forall>d x. d \<in> hash_data (p_hash P) \<longrightarrow> p_objs P d = Some x \<longrightarrow> segments x = segments as1 \<longrightarrow> d = f) \<and>
       (\<forall>v. pool_abs segments P' v = pool_abs segments P v + (if v = segments as1 then 1 else 0))"
    using aspaths.pool_share [where S = S and alloc = "\<lambda>_. Some fresh" and x = tmp and y = fresh and c = as1 and c' = dup,
        OF pinv peer(1) agree Sx(1) refl Sx(2) sd dup(3) addrs(2) big] by blast
  have wfS: "hash_wf (pool_key aspath_segs_key S) (pool_cmp aspath_cmp S) ?h"
    using pinv agree aspaths.pool_inv_cong [of ?h S "p_objs P"] by (simp add: pool_inv_def)
  have get1: "hash_get peer (pool_key aspath_key S1) (pool_cmp aspath_cmp S1) ?h tmp (Some (\<lambda>_. Some fresh)) = Inr (Some f, h')"
    unfolding get [symmetric]
  proof (rule hash_get_cong [OF wfS])
    show "pool_key aspath_key S1 tmp = pool_key aspath_segs_key S tmp"
      using as1(1) addrs(3) by (simp add: pool_key_def S_def S1_def segs_key_eq)
    show "pool_cmp aspath_cmp S1 d tmp = pool_cmp aspath_cmp S d tmp" if "d \<in> hash_data ?h" for d
      using that addrs by (auto simp: pool_cmp_def S_def)
  qed
  define objs where "objs = (if f = fresh \<and> f \<notin> hash_data ?h then (p_objs P)(fresh := Some dup) else p_objs P)"
  have of: "objs f = Some ob" using ob(1,3) agree addrs(2) Sx(2) by (auto simp: objs_def)
  define ob2 where "ob2 = ob\<lparr>refcnt := refcnt ob + 1\<rparr>"
  define P' where "P' = \<lparr>p_objs = objs(f := Some ob2), p_hash = h'\<rparr>"
  have run: "aspath_parse peer P tmp fresh s len use32bit = Inr (Some f, P')"
    unfolding aspath_parse_run [OF peer even segs] as1_def [symmetric] dup_def [symmetric] S1_def [symmetric] get1
    using of by (simp add: Let_def objs_def [symmetric] deref_def P'_def ob2_def del: fun_upd_apply)
  have other: "\<forall>d \<in> hash_data ?h. d \<noteq> f \<longrightarrow> p_objs P' d = p_objs P d"
    using addrs(2) by (auto simp: P'_def objs_def)
  note fin = sh [of P' ob2, unfolded as1(2)]
  have P'f: "p_hash P' = h'" "p_objs P' f = Some ob2" "segments ob2 = segs" "refcnt ob2 = refcnt ob + 1"
    using ob(2) as1(2) by (simp_all add: P'_def ob2_def)
  have "str_ok ob \<and> str ob \<noteq> None"
    using ob(1,3) Sx(2) dup(1,4) agree inv by (auto simp: aspath_pool_inv_def)
  then have ok2: "str_ok ob2 \<and> str ob2 \<noteq> None" by (simp add: ob2_def str_ok_def)
  have hd: "hash_data h' \<subseteq> insert f (hash_data ?h)"
    using hash_get_data [OF wfS get] by blast
  have "aspath_pool_inv P'"
    using fin [OF P'f other] ok2 P'f(1,2) hd other inv unfolding aspath_pool_inv_def by (metis insertE option.inject subsetD)
  then show ?thesis using run fin [OF P'f other] P'f(2,3) by blast
qed

lemma aspath_unintern_pool:
  assumes "aspath_pool_inv P" "a \<in> hash_data (p_hash P)"
  shows "aspath_unintern peer P a = pool_unintern peer aspath_segs_key aspath_cmp P a"
proof -
  obtain c where c: "p_objs P a = Some c" "str_ok c"
    using assms unfolding aspath_pool_inv_def pool_inv_def by blast
  define c1 where "c1 = (if refcnt c \<noteq> 0 then c\<lparr>refcnt := refcnt c - 1\<rparr> else c)"
  have c1: "str_ok c1" using c(2) by (simp add: c1_def str_ok_def)
  have "hash_release (pool_key aspath_key ((p_objs P)(a := Some c1))) cmp h a =
      hash_release (pool_key aspath_segs_key ((p_objs P)(a := Some c1))) cmp h a" for cmp h
    using c1 by (intro hash_release_key) (simp add: pool_key_def segs_key_eq)
  then show ?thesis
    using c(1) key_make_eq [OF c1]
    unfolding aspath_unintern_def pool_unintern_def deref_def aspath_free_def
    by (simp add: c1_def [symmetric] Let_def del: fun_upd_apply)
qed

text \<open>Releasing a reference to an interned path never fails; it takes one reference off the
  pool's count of that path, and the last one frees the object.\<close>

theorem aspath_unintern_releases:
  assumes "aspath_pool_inv P" "routing_db peer" "a \<in> hash_data (p_hash P)" "p_objs P a = Some p"
  shows "\<exists>P'. aspath_unintern peer P a = Inr P' \<and> pool_inv aspath_segs_key aspath_cmp P' \<and>
     (refcnt p = 1 \<longrightarrow> p_objs P' a = None \<and> a \<notin> hash_data (p_hash P')) \<and>
     (\<forall>v. pool_abs segments P' v = pool_abs segments P v - (if v = segments p then 1 else 0))"
  using assms aspaths.unintern_refines [of P peer a p]
  by (simp add: aspath_unintern_pool aspath_pool_inv_def)

text \<open>A pool with the empty path, referenced once.\<close>

definition path_single :: "aspath pool" where
  "path_single =
     \<lparr>p_objs = [7 \<mapsto> \<lparr>refcnt = 1, str = Some [], segments = [], last_as = 0\<rparr>],
      p_hash = \<lparr>h_index = [[(text_hash [], 7)]], h_size = 1, h_count = 1\<rparr>\<rparr>"

lemma path_single_inv: "aspath_pool_inv path_single" "7 \<in> hash_data (p_hash path_single)"
proof -
  have "aspath_segs_key \<lparr>refcnt = 1, str = Some [], segments = [], last_as = 0\<rparr> = text_hash []"
    using key_eq [of "\<lparr>refcnt = 1, str = None, segments = [], last_as = 0\<rparr>"]
    by (simp add: aspath_segs_key_def str_ok_def known_types_def)
  then show "aspath_pool_inv path_single" "7 \<in> hash_data (p_hash path_single)"
    by (simp_all add: aspath_pool_inv_def pool_inv_def hash_wf_def hash_data_def path_single_def pool_key_def
        str_ok_def known_types_def)
qed

theorem aspath_unintern_releases_witness:
  "\<exists>P'. aspath_unintern peer_ok path_single 7 = Inr P' \<and> p_objs P' 7 = None"
  using aspath_unintern_releases [OF path_single_inv(1) peer_ok_db(2) path_single_inv(2)]
  by (auto simp: path_single_def)

section \<open>Unknown segment types\<close>

text \<open>An AS_PATH attribute that has a segment of an unknown type makes \<^verbatim>\<open>aspath_parse\<close> take the
  length of a NULL string: the path has no text, and \<^verbatim>\<open>aspath_key_make\<close> does not check for it.\<close>

theorem aspath_parse_unknown_type:
  assumes "misc_db peer" "routing_db peer" "len mod 2 = 0"
    "assegments_parse s len use32bit = Inr segs" "\<not> known_types segs"
  shows "aspath_parse peer P tmp fresh s len use32bit = Inl Null_Deref"
proof -
  obtain la where "aspath_make_str_count \<lparr>refcnt = 0, str = None, segments = segs, last_as = 0\<rparr> = Inr (None, la)"
    using make_str_unknown [of "\<lparr>refcnt = 0, str = None, segments = segs, last_as = 0\<rparr>"] assms(5) by auto
  then show ?thesis
    using assms by (simp add: aspath_parse_def aspath_key_make_def aspath_str_update_def)
qed

theorem aspath_parse_unknown_type_witness:
  "aspath_parse peer_ok (aspath_init 0) 0 1 [5, 1, 0, 1] 4 False = Inl Null_Deref"
proof -
  have "segs_loop [5, 1, 0, 1] 4 False 0 [] = Inr (Some [\<lparr>seg_type = 5, seg_as = [1]\<rparr>])"
    using segs_loop_enc [of 0 "[5, 1, 0, 1]" False "[\<lparr>seg_type = 5, seg_as = [1]\<rparr>]" "[]" 4 "[]"]
    by (simp add: enc_seg_def enc_asn_def put_be16_def wire_seg_def AS_SEGMENT_MAX_def BGP_AS_MAX_def)
  then have "assegments_parse [5, 1, 0, 1] 4 False = Inr [\<lparr>seg_type = 5, seg_as = [1]\<rparr>]"
    by (simp add: assegments_parse_def normalise_set_def as_types)
  moreover have "\<not> known_types [\<lparr>seg_type = 5, seg_as = [1]\<rparr>]"
    by (simp add: known_types_def seg_seperator_def as_types)
  ultimately show ?thesis using aspath_parse_unknown_type [OF peer_ok_db] by simp
qed

section \<open>Parsing into the pool\<close>

text \<open>C29: What \<^verbatim>\<open>aspath_parse\<close> makes of arbitrary bytes, for a peer with a routing database and a
  well-formed pool none of whose counters is at its maximum, with memory to be had for the new object. An
  attribute of odd length is refused and the pool stays as it is. Otherwise the bytes are a path; if it has a
  segment of an unknown type, a NULL string is read. If not, the result is the address of the one
  object that holds the normal form of the path; the pool counts one more reference to that path and the
  references to all others are unchanged.\<close>

theorem aspath_parse_interns:
  assumes inv: "aspath_pool_inv P" and peer: "misc_db peer" "routing_db peer" and long: "len \<le> length s"
    and addrs: "tmp \<notin> hash_data (p_hash P)" "fresh \<notin> hash_data (p_hash P)" "tmp \<noteq> fresh"
    and big: "\<forall>a ob. p_objs P a = Some ob \<longrightarrow> refcnt ob \<noteq> - 1"
  shows "if len mod 2 \<noteq> 0 then aspath_parse peer P tmp fresh s len use32bit = Inr (None, P)
    else \<exists>segs. assegments_parse s len use32bit = Inr segs \<and> path_normal segs \<and>
      (if \<not> known_types segs then aspath_parse peer P tmp fresh s len use32bit = Inl Null_Deref
       else \<exists>f P' p. aspath_parse peer P tmp fresh s len use32bit = Inr (Some f, P') \<and> aspath_pool_inv P' \<and>
         f \<in> hash_data (p_hash P') \<and> p_objs P' f = Some p \<and> segments p = segs \<and>
         (\<forall>d x. d \<in> hash_data (p_hash P) \<longrightarrow> p_objs P d = Some x \<longrightarrow> segments x = segs \<longrightarrow> d = f) \<and>
         (\<forall>v. pool_abs segments P' v = pool_abs segments P v + (if v = segs then 1 else 0)))"
proof (cases "len mod 2 = 0")
  case True
  obtain segs where segs: "assegments_parse s len use32bit = Inr segs" "path_normal segs"
    using assegments_parse_bound [OF long] by blast
  show ?thesis
  proof (cases "known_types segs")
    case k: True
    then show ?thesis using aspath_parse_shares [OF inv peer True segs(1) k addrs big] segs True by simp
  next
    case False
    then show ?thesis using aspath_parse_unknown_type [OF peer True segs(1)] segs True by simp
  qed
qed (simp add: aspath_parse_def peer(2))

theorem aspath_parse_interns_witness:
  "\<exists>f P'. aspath_parse peer_ok (aspath_init 0) 0 1 (concat (map (enc_seg True) path_ex)) 24 True = Inr (Some f, P') \<and>
     pool_abs segments P' (assegment_normalise path_ex) = 1"
proof -
  let ?s = "concat (map (enc_seg True) path_ex)"
  have len: "length ?s = 24"
    by (simp add: path_ex_def length_enc_seg ASSEGMENT_SIZE_def ASSEGMENT_DATA_SIZE_def)
  have w: "list_all (wire_seg True) path_ex" by (simp add: path_ex_def wire_seg_def AS_SEGMENT_MAX_def)
  have "segs_loop ?s 24 True 0 [] = Inr (Some path_ex)"
    using segs_loop_enc [of 0 ?s True path_ex "[]" 24 "[]"] w len by simp
  then have p: "assegments_parse ?s 24 True = Inr (assegment_normalise path_ex)" by (simp add: assegments_parse_def)
  have k: "known_types (assegment_normalise path_ex)"
    unfolding normalise_path_ex by (simp add: known_types_def seg_seperator_def)
  have none: "hash_data (p_hash (aspath_init 0)) = {}" "p_objs (aspath_init 0) a = None" for a
    using hash_data_create [of 32767] by (simp_all add: aspath_init_def hash_create_def)
  have z: "pool_abs segments (aspath_init 0) v = 0" for v
    using none(1) by (intro aspaths.pool_abs_none) simp
  obtain f P' where "aspath_parse peer_ok (aspath_init 0) 0 1 ?s 24 True = Inr (Some f, P')"
      "\<forall>v. pool_abs segments P' v = pool_abs segments (aspath_init 0) v + (if v = assegment_normalise path_ex then 1 else 0)"
    using aspath_parse_interns [where P = "aspath_init 0" and s = ?s and len = 24 and tmp = 0 and fresh = 1 and use32bit = True, OF aspath_init_inv peer_ok_db] none len p k by auto
  then show ?thesis using z by auto
qed

section \<open>Reconciliation with AS4_PATH\<close>




lemma count_hops_append [simp]: "aspath_count_hops (xs @ ys) = aspath_count_hops xs + aspath_count_hops ys"
  by (induction xs) auto




lemma known_types_append [simp]: "known_types (xs @ ys) \<longleftrightarrow> known_types xs \<and> known_types ys"
  by (simp add: known_types_def)




end
