(* ===== verification/Bgp_Values.thy ===== *)
theory Bgp_Values
  imports Bgp_Community "HOL-Library.List_Lexorder"
begin

text \<open>
  What \<^verbatim>\<open>src/src/bgp/bgp_ecommunity.c\<close> and \<^verbatim>\<open>src/src/bgp/bgp_lcommunity.c\<close> share: a sorted array of
  values of \<open>n\<close> bytes each (\<open>n\<close> is \<^verbatim>\<open>ECOMMUNITY_SIZE\<close> or \<^verbatim>\<open>LCOMMUNITY_SIZE\<close>). The two modules have the
  same text up to that size and their printing function; their operations are instances of
  the ones here, and the locale \<open>value_attr\<close> is what they owe this theory.
\<close>

section \<open>Model\<close>

record attr_vals = pooled +
  v_size :: nat
  v_val :: "byte list option"

text \<open>\<^verbatim>\<open>memcmp\<close> on two blocks of the same length.\<close>

fun memcmp :: "byte list \<Rightarrow> byte list \<Rightarrow> int" where
  "memcmp (x # xs) (y # ys) = (if x = y then memcmp xs ys else if x < y then - 1 else 1)"
| "memcmp _ _ = 0"

definition vals_new :: "bgp_peer_type option \<Rightarrow> attr_vals option" where
  "vals_new peer = (if misc_db peer then Some \<lparr>refcnt = 0, str = None, v_size = 0, v_val = None\<rparr> else None)"

text \<open>The scan for a value: \<open>c\<close> runs over the \<open>k\<close> positions left. The result is \<open>None\<close> when the value
  is there, otherwise the position it belongs to.\<close>

fun vals_scan :: "nat \<Rightarrow> byte list \<Rightarrow> byte list \<Rightarrow> nat \<Rightarrow> nat \<Rightarrow> nat option res" where
  "vals_scan n b v c 0 = Inr (Some c)"
| "vals_scan n b v c (Suc k) =
     rbind (rd_mem b (c * n) n) (\<lambda>x.
       let ret = memcmp x v in
       if ret = 0 then Inr None else if ret > 0 then Inr (Some c) else vals_scan n b v (c + 1) k)"

text \<open>The value added is the \<open>n\<close> bytes at \<open>v\<close>; the result has the returned number.\<close>

definition vals_add_val :: "nat \<Rightarrow> bgp_peer_type option \<Rightarrow> attr_vals \<Rightarrow> byte list \<Rightarrow> (int \<times> attr_vals) res" where
  "vals_add_val n peer com v =
     (if \<not> misc_db peer then Inr (- 1, com)
      else rbind (rd_mem v 0 n) (\<lambda>x. case v_val com of
        None \<Rightarrow>
          rbind (wr_mem (replicate ((v_size com + 1) * n) 0) 0 x) (\<lambda>b.
            Inr (1, com\<lparr>v_size := v_size com + 1, v_val := Some b\<rparr>))
      | Some b0 \<Rightarrow>
          rbind (vals_scan n b0 x 0 (v_size com)) (\<lambda>r. case r of
            None \<Rightarrow> Inr (0, com)
          | Some c \<Rightarrow>
              let b1 = realloc b0 ((v_size com + 1) * n) in
              rbind (rd_mem b1 (c * n) ((v_size com - c) * n)) (\<lambda>moved.
              rbind (wr_mem b1 ((c + 1) * n) moved) (\<lambda>b2.
              rbind (wr_mem b2 (c * n) x) (\<lambda>b3.
                Inr (1, com\<lparr>v_size := v_size com + 1, v_val := Some b3\<rparr>)))))))"

text \<open>The loop of \<^verbatim>\<open>ecommunity_uniq_sort\<close>, from value \<open>i\<close> on, \<open>k\<close> values left in the array \<open>b\<close>.\<close>

fun vals_loop :: "nat \<Rightarrow> bgp_peer_type option \<Rightarrow> byte list \<Rightarrow> attr_vals \<Rightarrow> nat \<Rightarrow> nat \<Rightarrow> attr_vals res" where
  "vals_loop n peer b new i 0 = Inr new"
| "vals_loop n peer b new i (Suc k) =
     rbind (vals_add_val n peer new (drop (i * n) b)) (\<lambda>(_, new'). vals_loop n peer b new' (i + 1) k)"

definition vals_uniq_sort :: "nat \<Rightarrow> bgp_peer_type option \<Rightarrow> attr_vals option \<Rightarrow> attr_vals option res" where
  "vals_uniq_sort n peer com = (case com of
       None \<Rightarrow> Inr None
     | Some c \<Rightarrow> (case vals_new peer of
         None \<Rightarrow> Inr None
       | Some new \<Rightarrow> (case v_val c of
           None \<Rightarrow> (if v_size c = 0 then Inr (Some new) else Inl Null_Deref)
         | Some b \<Rightarrow> rbind (vals_loop n peer b new 0 (v_size c)) (\<lambda>new'. Inr (Some new')))))"

definition vals_hash_make :: "nat \<Rightarrow> attr_vals \<Rightarrow> u32" where
  "vals_hash_make n com =
     (case v_val com of None \<Rightarrow> 0 | Some b \<Rightarrow> sum_list (map ucast (take (v_size com * n) b)))"

definition vals_cmp :: "nat \<Rightarrow> attr_vals option \<Rightarrow> attr_vals option \<Rightarrow> bool" where
  "vals_cmp n com1 com2 = (case (com1, com2) of
       (Some c1, Some c2) \<Rightarrow>
         v_size c1 = v_size c2 \<and>
         take (v_size c1 * n) (case v_val c1 of None \<Rightarrow> [] | Some b \<Rightarrow> b) =
         take (v_size c1 * n) (case v_val c2 of None \<Rightarrow> [] | Some b \<Rightarrow> b)
     | (None, None) \<Rightarrow> True
     | _ \<Rightarrow> False)"

text \<open>\<^verbatim>\<open>ecommunity_parse\<close>: \<open>pnt\<close> is the message from the attribute on, \<open>fresh\<close> the address
  \<^verbatim>\<open>ecommunity_new\<close> obtains.\<close>

definition vals_parse :: "nat \<Rightarrow> (bgp_peer_type option \<Rightarrow> attr_vals pool \<Rightarrow> addr \<Rightarrow> (addr option \<times> attr_vals pool) res) \<Rightarrow>
    bgp_peer_type option \<Rightarrow> attr_vals pool \<Rightarrow> addr \<Rightarrow> byte list \<Rightarrow> nat \<Rightarrow> (addr option \<times> attr_vals pool) res" where
  "vals_parse n intern peer P fresh pnt len =
     (if len mod n \<noteq> 0 then Inr (None, P)
      else rbind (vals_uniq_sort n peer (Some \<lparr>refcnt = 0, str = None, v_size = len div n, v_val = Some pnt\<rparr>))
        (\<lambda>new. case new of
             None \<Rightarrow> (if routing_db peer then Inl Null_Deref else Inr (None, P))
           | Some c \<Rightarrow> intern peer (P\<lparr>p_objs := (p_objs P)(fresh := Some c)\<rparr>) fresh))"

section \<open>Canonical form\<close>

definition vals_rep :: "nat \<Rightarrow> attr_vals \<Rightarrow> byte list list \<Rightarrow> bool" where
  "vals_rep n c vs \<longleftrightarrow> v_size c = length vs \<and> (\<forall>v \<in> set vs. length v = n) \<and>
     (case v_val c of None \<Rightarrow> vs = [] | Some b \<Rightarrow> take (n * length vs) b = concat vs)"

definition vals_own :: "nat \<Rightarrow> attr_vals \<Rightarrow> byte list list \<Rightarrow> bool" where
  "vals_own n c vs \<longleftrightarrow> v_size c = length vs \<and> (\<forall>v \<in> set vs. length v = n) \<and>
     (case v_val c of None \<Rightarrow> vs = [] | Some b \<Rightarrow> b = concat vs)"

lemma length_concat_vals: "\<forall>v \<in> set vs. length v = n \<Longrightarrow> length (concat vs) = n * length vs"
  by (induction vs) simp_all

lemma drop_concat_vals: "\<forall>v \<in> set vs. length v = n \<Longrightarrow> drop (c * n) (concat vs) = concat (drop c vs)"
proof (induction c arbitrary: vs)
  case (Suc c)
  then show ?case by (cases vs) simp_all
qed simp

lemma take_concat_vals: "\<forall>v \<in> set vs. length v = n \<Longrightarrow> take (c * n) (concat vs) = concat (take c vs)"
proof (induction c arbitrary: vs)
  case (Suc c)
  then show ?case by (cases vs) simp_all
qed simp

lemma rd_mem_vals:
  assumes "\<forall>v \<in> set vs. length v = n" "take (n * length vs) b = concat vs" "i < length vs"
  shows "rd_mem b (i * n) n = Inr (vs ! i)" "rd_mem (drop (i * n) b) 0 n = Inr (vs ! i)"
proof -
  have len: "n * length vs \<le> length b"
    using arg_cong [OF assms(2), of length] length_concat_vals [OF assms(1)] by simp
  have "(i + 1) * n \<le> length vs * n" using assms(3) by (intro mult_le_mono1) simp
  then have l: "i * n + n \<le> length b" "i * n + n \<le> n * length vs" using len by (simp_all add: mult.commute)
  have "take n (drop (i * n) b) = take n (drop (i * n) (take (n * length vs) b))"
    using l(2) by (simp add: take_drop min_def add.commute)
  also have "\<dots> = take n (concat (drop i vs))" unfolding assms(2) using drop_concat_vals [OF assms(1)] by simp
  also have "\<dots> = vs ! i" using assms(1,3) by (simp add: Cons_nth_drop_Suc [symmetric])
  finally have "take n (drop (i * n) b) = vs ! i" .
  then show "rd_mem b (i * n) n = Inr (vs ! i)" "rd_mem (drop (i * n) b) 0 n = Inr (vs ! i)"
    using l(1) by simp_all
qed

lemma rd_mem_parts:
  assumes "rd_mem b i n = Inr x" "length x = n"
  shows "j < n \<Longrightarrow> rd8 b (i + j) = Inr (x ! j)"
    and "j + 2 \<le> n \<Longrightarrow> rd_be16 b (i + j) = rd_be16 x j"
    and "j + 4 \<le> n \<Longrightarrow> rd_be32 b (i + j) = rd_be32 x j"
proof -
  have x: "i + n \<le> length b" "x = take n (drop i b)" using assms by (auto simp: rd_mem_def split: if_splits)
  have rd: "rd8 b (i + j) = rd8 x j" if "j < n" for j using that x by (simp add: rd8_def)
  show "j < n \<Longrightarrow> rd8 b (i + j) = Inr (x ! j)" using rd assms(2) by simp
  show "j + 2 \<le> n \<Longrightarrow> rd_be16 b (i + j) = rd_be16 x j"
    using rd [of j] rd [of "j + 1"] by (simp add: rd_be16_def add.assoc)
  show "j + 4 \<le> n \<Longrightarrow> rd_be32 b (i + j) = rd_be32 x j"
    using rd [of j] rd [of "j + 1"] rd [of "j + 2"] rd [of "j + 3"] by (simp add: rd_be32_def add.assoc)
qed

fun spaced :: "string list \<Rightarrow> string" where
  "spaced [] = []"
| "spaced [s] = s"
| "spaced (s # s' # ss) = s @ CHR '' '' # spaced (s' # ss)"

lemma spaced_snoc: "ss \<noteq> [] \<Longrightarrow> spaced (ss @ [s]) = spaced ss @ CHR '' '' # s"
  by (induction ss rule: spaced.induct) simp_all

lemma memcmp_less:
  "length x = length y \<Longrightarrow> memcmp x y = (if x = y then 0 else if x < y then - 1 else 1)"
  by (induction x y rule: memcmp.induct) (auto simp: less_list_code)

lemma vals_scan_eq:
  assumes "\<forall>v \<in> set vs. length v = n" "b = concat vs" "length x = n" "sorted vs" "distinct vs"
    "c + k = length vs" "\<forall>v \<in> set (take c vs). v < x"
  shows "vals_scan n b x c k = Inr (if x \<in> set vs then None else Some (length (takeWhile (\<lambda>v. v < x) vs)))"
  using assms(6,7)
proof (induction k arbitrary: c)
  case 0
  then have all: "\<forall>v \<in> set vs. v < x" by simp
  then have "x \<notin> set vs" by blast
  moreover have "length (takeWhile (\<lambda>v. v < x) vs) = length vs"
    using takeWhile_eq_all_conv [THEN iffD2, OF all] by (rule arg_cong)
  ultimately show ?case using 0 by simp
next
  case (Suc k)
  have c: "c < length vs" using Suc.prems(1) by simp
  have rd: "rd_mem b (c * n) n = Inr (vs ! c)"
    using rd_mem_vals [OF assms(1) _ c, of b] length_concat_vals [OF assms(1)] assms(2) by simp
  have "length (vs ! c) = n" using assms(1) c by simp
  then have cmp: "memcmp (vs ! c) x = (if vs ! c = x then 0 else if vs ! c < x then - 1 else 1)"
    using assms(3) by (intro memcmp_less) simp
  consider "vs ! c = x" | "vs ! c < x" | "x < vs ! c" by (rule linorder_cases)
  then show ?case
  proof cases
    case 1
    then have "x \<in> set vs" using c nth_mem by blast
    then show ?thesis using rd cmp 1 by simp
  next
    case 2
    then have "\<forall>v \<in> set (take (c + 1) vs). v < x"
      using Suc.prems(2) c by (simp add: take_Suc_conv_app_nth)
    moreover have "vs ! c \<noteq> x" using 2 by blast
    ultimately show ?thesis using Suc.IH [of "c + 1"] Suc.prems(1) rd cmp 2 by (simp add: Let_def)
  next
    case 3
    have vs: "vs = take c vs @ vs ! c # drop (Suc c) vs" by (rule id_take_nth_drop [OF c])
    have "\<forall>v \<in> set (drop (Suc c) vs). vs ! c \<le> v" using assms(4) vs by (metis sorted_append sorted_simps(2))
    then have "x \<notin> set vs" using Suc.prems(2) 3 by (subst vs) auto
    moreover have "takeWhile (\<lambda>v. v < x) vs = take c vs"
      using Suc.prems(2) 3 by (subst vs) (simp add: takeWhile_append)
    moreover have "vs ! c \<noteq> x" "\<not> vs ! c < x" using 3 by auto
    ultimately show ?thesis using rd cmp c by (simp add: Let_def)
  qed
qed

lemma insort_takeWhile:
  fixes x :: "'a :: linorder"
  assumes "x \<notin> set vs"
  shows "take (length (takeWhile (\<lambda>v. v < x) vs)) vs @ x # drop (length (takeWhile (\<lambda>v. v < x) vs)) vs = insort x vs"
  using assms
proof (induction vs)
  case (Cons v vs)
  show ?case
  proof (cases "v < x")
    case True
    then have "\<not> x \<le> v" by simp
    then show ?thesis using Cons True by simp
  next
    case False
    then have "x \<le> v" by simp
    then show ?thesis using False by simp
  qed
qed simp

lemma vals_add_val_eq:
  assumes own: "vals_own n com (sorted_list_of_set A)" "finite A" and peer: "misc_db peer"
    and v: "rd_mem v 0 n = Inr x" "length x = n"
  shows "\<exists>r com'. vals_add_val n peer com v = Inr (r, com') \<and> vals_own n com' (sorted_list_of_set (insert x A)) \<and>
     refcnt com' = refcnt com \<and> str com' = str com"
proof -
  let ?vs = "sorted_list_of_set A"
  have lens: "\<forall>v \<in> set ?vs. length v = n" and size: "v_size com = length ?vs" using own(1) by (simp_all add: vals_own_def)
  show ?thesis
  proof (cases "v_val com")
    case None
    then have "?vs = []" using own(1) by (simp add: vals_own_def)
    then have "A = {}" using own(2) by (simp add: sorted_list_of_set_eq_Nil_iff)
    then show ?thesis
      using None peer v size by (auto simp: vals_add_val_def wr_mem_def vals_own_def)
  next
    case (Some b0)
    have b0: "b0 = concat ?vs" using own(1) Some by (simp add: vals_own_def)
    have scan: "vals_scan n b0 x 0 (v_size com) =
        Inr (if x \<in> set ?vs then None else Some (length (takeWhile (\<lambda>v. v < x) ?vs)))"
      using size v(2) lens b0 by (intro vals_scan_eq) simp_all
    show ?thesis
    proof (cases "x \<in> A")
      case True
      then show ?thesis using Some own peer v(1) scan by (simp add: vals_add_val_def insert_absorb)
    next
      case False
      define c where "c = length (takeWhile (\<lambda>v. v < x) ?vs)"
      define b1 where "b1 = realloc b0 ((length ?vs + 1) * n)"
      have b1r: "realloc b0 (n + card A * n) = b1" by (simp add: b1_def)
      have c: "c \<le> length ?vs" unfolding c_def by (rule length_takeWhile_le)
      have lb0: "length b0 = length ?vs * n" using length_concat_vals [OF lens] b0 by (simp add: mult.commute)
      then have b1: "length b1 = length ?vs * n + n" "take (length ?vs * n) b1 = b0"
        by (simp_all add: b1_def realloc_def)
      have cn: "c * n \<le> length ?vs * n" using c by (rule mult_le_mono1)
      have cm: "c * n + (length ?vs - c) * n = length ?vs * n" using c by (simp add: add_mult_distrib [symmetric])
      have tk: "take (c * n) b1 = concat (take c ?vs)"
        using take_concat_vals [OF lens, of c] b0 b1(2) cn by (metis min.absorb1 take_take)
      have "take ((length ?vs - c) * n) (drop (c * n) b1) = drop (c * n) (take (length ?vs * n) b1)"
        unfolding cm [symmetric] by (simp add: drop_take)
      then have mv: "rd_mem b1 (c * n) ((length ?vs - c) * n) = Inr (concat (drop c ?vs))"
        using cm b1 b0 drop_concat_vals [OF lens, of c] by simp
      define moved where "moved = concat (drop c ?vs)"
      have lm: "length moved = (length ?vs - c) * n"
        using lens length_concat_vals [of "drop c ?vs" n] by (simp add: moved_def in_set_dropD mult.commute)
      define b2 where "b2 = take ((c + 1) * n) b1 @ moved"
      have w2: "wr_mem b1 ((c + 1) * n) moved = Inr b2"
        using lm cm b1(1) by (simp add: wr_mem_def b2_def)
      have b3: "wr_mem b2 (c * n) x = Inr (concat (take c ?vs) @ x @ moved)"
      proof -
        have "c * n + n \<le> length b1" unfolding b1(1) using cn by (rule add_right_mono)
        then have l2: "take (c * n) b2 = concat (take c ?vs)" "drop (c * n + n) b2 = moved" "c * n + n \<le> length b2"
          using tk by (simp_all add: b2_def min_def add.commute)
        then show ?thesis using v(2) by (simp add: wr_mem_def)
      qed
      have "concat (take c ?vs) @ x @ moved = concat (take c ?vs @ x # drop c ?vs)" by (simp add: moved_def)
      also have "\<dots> = concat (sorted_list_of_set (insert x A))"
        using insort_takeWhile [of x ?vs] own(2) False by (simp add: c_def)
      finally have cat: "concat (take c ?vs) @ x @ moved = concat (sorted_list_of_set (insert x A))" .
      have len': "length (sorted_list_of_set (insert x A)) = length ?vs + 1"
        using own(2) False by simp
      have "vals_add_val n peer com v = Inr (1, com\<lparr>v_size := v_size com + 1, v_val := Some (concat (sorted_list_of_set (insert x A)))\<rparr>)"
        using peer v(1) Some scan False own(2) mv w2 b3 cat size b1r
        by (simp add: vals_add_val_def Let_def c_def [symmetric] moved_def [symmetric])
      moreover have "\<forall>v \<in> set (sorted_list_of_set (insert x A)). length v = n"
        using lens own(2) v(2) by (simp del: sorted_list_of_set_insert_remove)
      ultimately show ?thesis using len' size by (simp add: vals_own_def del: sorted_list_of_set_insert_remove)
    qed
  qed
qed

lemma vals_loop_eq:
  assumes vs: "\<forall>v \<in> set vs. length v = n" "take (n * length vs) b = concat vs" and peer: "misc_db peer"
  shows "i + k = length vs \<Longrightarrow> vals_own n new (sorted_list_of_set (set (take i vs))) \<Longrightarrow>
    \<exists>new'. vals_loop n peer b new i k = Inr new' \<and> vals_own n new' (sorted_list_of_set (set vs)) \<and>
      refcnt new' = refcnt new \<and> str new' = str new"
proof (induction k arbitrary: i new)
  case (Suc k)
  have i: "i < length vs" using Suc.prems(1) by simp
  have rd: "rd_mem (drop (i * n) b) 0 n = Inr (vs ! i)" "length (vs ! i) = n"
    using rd_mem_vals(2) [OF vs i] vs(1) i by simp_all
  obtain r c where c: "vals_add_val n peer new (drop (i * n) b) = Inr (r, c)"
      "vals_own n c (sorted_list_of_set (insert (vs ! i) (set (take i vs))))" "refcnt c = refcnt new" "str c = str new"
    using vals_add_val_eq [OF Suc.prems(2) _ peer rd] by auto
  have "insert (vs ! i) (set (take i vs)) = set (take (i + 1) vs)" using i by (simp add: take_Suc_conv_app_nth)
  then show ?case using Suc.IH [of "i + 1" c] Suc.prems(1) c by simp
qed simp

lemma vals_uniq_sort_eq:
  assumes "vals_rep n com vs" "misc_db peer"
  shows "\<exists>c. vals_uniq_sort n peer (Some com) = Inr (Some c) \<and> vals_own n c (sorted_list_of_set (set vs)) \<and>
     refcnt c = 0 \<and> str c = None"
proof -
  let ?new = "\<lparr>refcnt = 0, str = None, v_size = 0, v_val = None\<rparr> :: attr_vals"
  have new: "vals_new peer = Some ?new" using assms(2) by (simp add: vals_new_def)
  have own0: "vals_own n ?new (sorted_list_of_set (set (take 0 vs)))" by (simp add: vals_own_def)
  show ?thesis
  proof (cases "v_val com")
    case None
    then have "vs = []" "v_size com = 0" using assms(1) by (simp_all add: vals_rep_def)
    then show ?thesis using None new own0 by (simp add: vals_uniq_sort_def)
  next
    case (Some b)
    then have "\<forall>v \<in> set vs. length v = n" "take (n * length vs) b = concat vs" "v_size com = length vs"
      using assms(1) by (simp_all add: vals_rep_def)
    then show ?thesis
      using vals_loop_eq [of vs n b peer 0 "length vs" ?new] own0 assms(2) Some new
      by (auto simp: vals_uniq_sort_def)
  qed
qed

section \<open>The pool\<close>

definition vals_value :: "nat \<Rightarrow> attr_vals \<Rightarrow> nat \<times> byte list" where
  "vals_value n c = (v_size c, take (v_size c * n) (case v_val c of None \<Rightarrow> [] | Some b \<Rightarrow> b))"

lemma vals_hash_make_value: "vals_hash_make n c = sum_list (map ucast (snd (vals_value n c)))"
  by (simp add: vals_hash_make_def vals_value_def split: option.split)

definition vals_canonical :: "byte list list \<Rightarrow> nat \<times> byte list" where
  "vals_canonical vs = (let ws = sorted_list_of_set (set vs) in (length ws, concat ws))"

lemma vals_own_value: "vals_own n c ws \<Longrightarrow> vals_value n c = (length ws, concat ws)"
  using length_concat_vals [of ws n] by (auto simp: vals_own_def vals_value_def mult.commute split: option.splits)

lemma vals_value_rep:
  assumes "vals_value n c = (length ws, concat ws)" "\<forall>w \<in> set ws. length w = n" "0 < n"
  shows "vals_rep n c ws"
proof (cases "v_val c")
  case None
  then have "length (concat ws) = 0" using assms(1) by (simp add: vals_value_def)
  then have "n * length ws = 0" by (simp only: length_concat_vals [OF assms(2)])
  then show ?thesis using assms(1,3) None by (simp add: vals_rep_def vals_value_def)
next
  case (Some b)
  then show ?thesis using assms(1,2) by (auto simp: vals_rep_def vals_value_def mult.commute)
qed

text \<open>A module of such attributes: the size of its values, the function that prints them, and
  the values that function can print.\<close>

locale value_attr =
  fixes n :: nat
    and mkstr :: "bgp_peer_type option \<Rightarrow> attr_vals \<Rightarrow> string option res"
    and printable :: "byte list \<Rightarrow> bool"
  assumes n_pos: "0 < n"
    and mkstr_total: "misc_db peer \<Longrightarrow> vals_rep n c ws \<Longrightarrow> \<forall>w \<in> set ws. printable w \<Longrightarrow> \<exists>s. mkstr peer c = Inr s"

sublocale value_attr \<subseteq> attr_pool "vals_hash_make n" "vals_cmp n" "vals_value n"
  by unfold_locales (auto simp: vals_cmp_def vals_value_def vals_hash_make_value)

context value_attr
begin

lemma parse_interns:
  assumes inv: "pool_inv (vals_hash_make n) (vals_cmp n) P" and peer: "misc_db peer" "routing_db peer"
    and fresh: "p_objs P fresh = None" and big: "\<forall>a ob. p_objs P a = Some ob \<longrightarrow> refcnt ob \<noteq> - 1"
    and pnt: "take len pnt = concat vs" "len = n * length vs" "\<forall>v \<in> set vs. length v = n \<and> printable v"
  shows "\<exists>f P' c. vals_parse n (\<lambda>peer. pool_intern peer (vals_hash_make n) (vals_cmp n) (mkstr peer)) peer P fresh pnt len
       = Inr (Some f, P') \<and>
     pool_inv (vals_hash_make n) (vals_cmp n) P' \<and>
     f \<in> hash_data (p_hash P') \<and> p_objs P' f = Some c \<and> vals_rep n c (sorted_list_of_set (set vs)) \<and>
     (\<forall>d x. d \<in> hash_data (p_hash P) \<longrightarrow> p_objs P d = Some x \<longrightarrow> vals_value n x = vals_canonical vs \<longrightarrow> d = f) \<and>
     (\<forall>v. pool_abs (vals_value n) P' v = pool_abs (vals_value n) P v + (if v = vals_canonical vs then 1 else 0))"
proof -
  let ?ws = "sorted_list_of_set (set vs)"
  let ?tmp = "\<lparr>refcnt = 0, str = None, v_size = len div n, v_val = Some pnt\<rparr> :: attr_vals"
  have "vals_rep n ?tmp vs" using pnt n_pos by (simp add: vals_rep_def)
  then obtain c where c: "vals_uniq_sort n peer (Some ?tmp) = Inr (Some c)" "vals_own n c ?ws" "refcnt c = 0"
    using vals_uniq_sort_eq [OF _ peer(1)] by blast
  have val: "vals_value n c = vals_canonical vs"
    using vals_own_value [OF c(2)] by (simp add: vals_canonical_def Let_def)
  define P1 where "P1 = P\<lparr>p_objs := (p_objs P)(fresh := Some c)\<rparr>"
  have nf: "fresh \<notin> hash_data (p_hash P)" using inv fresh by (force simp: pool_inv_def)
  have same: "p_objs P1 d = p_objs P d" if "d \<in> hash_data (p_hash P)" for d using that nf by (auto simp: P1_def)
  have inv1: "pool_inv (vals_hash_make n) (vals_cmp n) P1"
    using inv same pool_inv_cong [of "p_hash P" "p_objs P1" "p_objs P"] by (auto simp: pool_inv_def P1_def)
  have abs1: "pool_abs (vals_value n) P1 v = pool_abs (vals_value n) P v" for v
    using same by (intro pool_abs_same) (simp_all add: P1_def)
  have rep: "vals_rep n ob ?ws" if "vals_value n ob = vals_value n c" for ob
    using that vals_own_value [OF c(2)] pnt(3) n_pos by (intro vals_value_rep) simp_all
  have mk: "\<forall>ob. vals_value n ob = vals_value n c \<longrightarrow> (\<exists>s. mkstr peer ob = Inr s)"
    using rep mkstr_total [OF peer(1)] pnt(3) by (metis List.finite_set set_sorted_list_of_set)
  have big1: "\<forall>a ob. p_objs P1 a = Some ob \<longrightarrow> refcnt ob \<noteq> - 1"
    using big c(3) by (auto simp: P1_def)
  have P1_fresh: "p_objs P1 fresh = Some c" by (simp add: P1_def)
  obtain f P' ob where run: "pool_intern peer (vals_hash_make n) (vals_cmp n) (mkstr peer) P1 fresh = Inr (Some f, P')"
      and r: "pool_inv (vals_hash_make n) (vals_cmp n) P'" "f \<in> hash_data (p_hash P')" "p_objs P' f = Some ob"
        "vals_value n ob = vals_value n c"
        "\<forall>d x. d \<in> hash_data (p_hash P1) \<longrightarrow> p_objs P1 d = Some x \<longrightarrow> vals_value n x = vals_value n c \<longrightarrow> d = f"
        "\<forall>v. pool_abs (vals_value n) P' v = pool_abs (vals_value n) P1 v + (if v = vals_value n c then 1 else 0)"
    using intern_refines [OF inv1 peer P1_fresh c(3) big1 mk] by blast
  have "vals_parse n (\<lambda>peer. pool_intern peer (vals_hash_make n) (vals_cmp n) (mkstr peer)) peer P fresh pnt len = Inr (Some f, P')"
    using pnt(2) c(1) run n_pos by (simp add: vals_parse_def P1_def)
  moreover have "\<forall>d x. d \<in> hash_data (p_hash P) \<longrightarrow> p_objs P d = Some x \<longrightarrow> vals_value n x = vals_canonical vs \<longrightarrow> d = f"
    using r(5) same val by (auto simp: P1_def)
  ultimately show ?thesis using r rep [OF r(4)] val abs1 by metis
qed

end

end
