(* ===== verification/Bgp_Ecommunity.thy ===== *)
theory Bgp_Ecommunity
  imports Bgp_Values
begin

text \<open>
  Model of \<^verbatim>\<open>src/src/bgp/bgp_ecommunity.c\<close>: extended communities, arrays of 8-byte values. The array
  operations are those of \<^theory_text>\<open>Bgp_Values\<close> at \<^verbatim>\<open>ECOMMUNITY_SIZE\<close>; the printed form, whose buffer
  grows only before a value of a known type, is modelled here.
\<close>

section \<open>Model\<close>

definition ECOMMUNITY_SIZE :: nat where "ECOMMUNITY_SIZE = 8"
definition ECOMMUNITY_ENCODE_AS :: byte where "ECOMMUNITY_ENCODE_AS = 0"
definition ECOMMUNITY_ENCODE_IP :: byte where "ECOMMUNITY_ENCODE_IP = 1"
definition ECOMMUNITY_ENCODE_AS4 :: byte where "ECOMMUNITY_ENCODE_AS4 = 2"
definition ECOMMUNITY_ROUTE_TARGET :: byte where "ECOMMUNITY_ROUTE_TARGET = 2"
definition ECOMMUNITY_SITE_ORIGIN :: byte where "ECOMMUNITY_SITE_ORIGIN = 3"
definition ECOMMUNITY_FORMAT_ROUTE_MAP :: int where "ECOMMUNITY_FORMAT_ROUTE_MAP = 0"
definition ECOMMUNITY_FORMAT_COMMUNITY_LIST :: int where "ECOMMUNITY_FORMAT_COMMUNITY_LIST = 1"
definition ECOMMUNITY_FORMAT_DISPLAY :: int where "ECOMMUNITY_FORMAT_DISPLAY = 2"
definition ECOMMUNITY_STR_DEFAULT_LEN :: nat where "ECOMMUNITY_STR_DEFAULT_LEN = 27"

lemmas ecom_types = ECOMMUNITY_ENCODE_AS_def ECOMMUNITY_ENCODE_IP_def ECOMMUNITY_ENCODE_AS4_def
  ECOMMUNITY_ROUTE_TARGET_def ECOMMUNITY_SITE_ORIGIN_def

type_synonym ecommunity = attr_vals

definition ecommunity_new :: "bgp_peer_type option \<Rightarrow> ecommunity option" where
  "ecommunity_new peer = vals_new peer"

definition ecommunity_free :: "(addr \<Rightarrow> ecommunity option) \<Rightarrow> addr \<Rightarrow> (addr \<Rightarrow> ecommunity option)" where
  "ecommunity_free objs ecom = objs(ecom := None)"

definition ecommunity_add_val :: "bgp_peer_type option \<Rightarrow> ecommunity \<Rightarrow> byte list \<Rightarrow> (int \<times> ecommunity) res" where
  "ecommunity_add_val peer ecom eval = vals_add_val ECOMMUNITY_SIZE peer ecom eval"

definition ecommunity_uniq_sort :: "bgp_peer_type option \<Rightarrow> ecommunity option \<Rightarrow> ecommunity option res" where
  "ecommunity_uniq_sort peer ecom = vals_uniq_sort ECOMMUNITY_SIZE peer ecom"

definition ecommunity_hash_make :: "ecommunity \<Rightarrow> u32" where
  "ecommunity_hash_make ecom = vals_hash_make ECOMMUNITY_SIZE ecom"

definition ecommunity_cmp :: "ecommunity option \<Rightarrow> ecommunity option \<Rightarrow> bool" where
  "ecommunity_cmp ecom1 ecom2 = vals_cmp ECOMMUNITY_SIZE ecom1 ecom2"

definition ecommunity_init :: "u32 \<Rightarrow> ecommunity pool" where
  "ecommunity_init buckets = \<lparr>p_objs = (\<lambda>_. None), p_hash = hash_create buckets\<rparr>"

text \<open>The switch on the format.\<close>

definition ecom_prefix :: "int \<Rightarrow> byte \<Rightarrow> string" where
  "ecom_prefix format ty =
     (if format = ECOMMUNITY_FORMAT_COMMUNITY_LIST then (if ty = ECOMMUNITY_ROUTE_TARGET then ''rt '' else ''soo '')
      else if format = ECOMMUNITY_FORMAT_DISPLAY then (if ty = ECOMMUNITY_ROUTE_TARGET then ''RT:'' else ''SoO:'')
      else [])"

text \<open>The loop that doubles the buffer; its size is at least 28 and the test makes the recursion
  well-founded.\<close>

function ecom_grow :: "nat \<Rightarrow> nat \<Rightarrow> nat" where
  "ecom_grow str_size str_pnt =
     (if str_size \<noteq> 0 \<and> str_pnt + ECOMMUNITY_STR_DEFAULT_LEN \<ge> str_size then ecom_grow (str_size * 2) str_pnt
      else str_size)"
  by pat_completeness auto
termination
  by (relation "measure (\<lambda>(sz, p). p + ECOMMUNITY_STR_DEFAULT_LEN + 1 - sz)") (auto simp: ECOMMUNITY_STR_DEFAULT_LEN_def)

declare ecom_grow.simps [simp del]

definition inet_ntoa :: "byte list \<Rightarrow> string" where
  "inet_ntoa a = dec_str (unat (a ! 0)) @ ''.'' @ dec_str (unat (a ! 1)) @ ''.'' @
     dec_str (unat (a ! 2)) @ ''.'' @ dec_str (unat (a ! 3))"

text \<open>The text of a value of a known type; \<open>i\<close> is the offset after its two type bytes.\<close>

definition ecom_entry :: "byte list \<Rightarrow> nat \<Rightarrow> byte \<Rightarrow> string \<Rightarrow> string res" where
  "ecom_entry b i encode pfx =
     (if encode = ECOMMUNITY_ENCODE_AS4 then
        rbind (rd_be32 b i) (\<lambda>as. rbind (rd_be16 b (i + 4)) (\<lambda>val.
          Inr (pfx @ dec_str (unat as) @ '':'' @ dec_str (unat val))))
      else if encode = ECOMMUNITY_ENCODE_AS then
        rbind (rd_be16 b i) (\<lambda>as. rbind (rd_be32 b (i + 2)) (\<lambda>val.
          Inr (pfx @ dec_str (unat as) @ '':'' @ dec_str (unat val))))
      else
        rbind (rd_mem b i 4) (\<lambda>ip. rbind (rd_be16 b (i + 4)) (\<lambda>val.
          Inr (pfx @ inet_ntoa ip @ '':'' @ dec_str (unat val)))))"

text \<open>The loop of \<^verbatim>\<open>ecommunity_ecom2str\<close>: value \<open>i\<close> with \<open>k\<close> values left, the allocation \<open>sz\<close> and the
  text so far.\<close>

fun ecom_fill :: "byte list \<Rightarrow> int \<Rightarrow> nat \<Rightarrow> nat \<Rightarrow> nat \<Rightarrow> bool \<Rightarrow> string \<Rightarrow> string res" where
  "ecom_fill b format i 0 sz first t = Inr t"
| "ecom_fill b format i (Suc k) sz first t =
     rbind (if first then Inr t else put_char sz t (CHR '' '')) (\<lambda>t1.
     rbind (rd8 b (i * 8)) (\<lambda>encode.
       if encode \<noteq> ECOMMUNITY_ENCODE_AS \<and> encode \<noteq> ECOMMUNITY_ENCODE_IP \<and> encode \<noteq> ECOMMUNITY_ENCODE_AS4 then
         rbind (put_str sz t1 ''?'') (\<lambda>t2. ecom_fill b format (i + 1) k sz False t2)
       else rbind (rd8 b (i * 8 + 1)) (\<lambda>ty.
         if ty \<noteq> ECOMMUNITY_ROUTE_TARGET \<and> ty \<noteq> ECOMMUNITY_SITE_ORIGIN then
           rbind (put_str sz t1 ''?'') (\<lambda>t2. ecom_fill b format (i + 1) k sz False t2)
         else
           let sz' = ecom_grow sz (length t1) in
           rbind (ecom_entry b (i * 8 + 2) encode (ecom_prefix format ty)) (\<lambda>s.
           rbind (put_str sz' t1 s) (\<lambda>t2. ecom_fill b format (i + 1) k sz' False t2)))))"

definition ecommunity_ecom2str :: "bgp_peer_type option \<Rightarrow> ecommunity \<Rightarrow> int \<Rightarrow> string option res" where
  "ecommunity_ecom2str peer ecom format =
     (if \<not> misc_db peer then Inr None
      else if v_size ecom = 0 then Inr (Some [])
      else case v_val ecom of
          None \<Rightarrow> Inl Null_Deref
        | Some b \<Rightarrow>
            rbind (ecom_fill b format 0 (v_size ecom) (ECOMMUNITY_STR_DEFAULT_LEN + 1) True []) (\<lambda>t. Inr (Some t)))"

definition ecommunity_intern :: "bgp_peer_type option \<Rightarrow> ecommunity pool \<Rightarrow> addr \<Rightarrow> (addr option \<times> ecommunity pool) res" where
  "ecommunity_intern peer P ecom =
     pool_intern peer ecommunity_hash_make ecommunity_cmp
       (\<lambda>ob. ecommunity_ecom2str peer ob ECOMMUNITY_FORMAT_DISPLAY) P ecom"

definition ecommunity_unintern :: "bgp_peer_type option \<Rightarrow> ecommunity pool \<Rightarrow> addr \<Rightarrow> ecommunity pool res" where
  "ecommunity_unintern peer P ecom = pool_unintern peer ecommunity_hash_make ecommunity_cmp P ecom"

definition ecommunity_parse :: "bgp_peer_type option \<Rightarrow> ecommunity pool \<Rightarrow> addr \<Rightarrow> byte list \<Rightarrow> nat
    \<Rightarrow> (addr option \<times> ecommunity pool) res" where
  "ecommunity_parse peer P fresh pnt len = vals_parse ECOMMUNITY_SIZE ecommunity_intern peer P fresh pnt len"

section \<open>Printed form\<close>

definition ecom_known :: "byte list \<Rightarrow> bool" where
  "ecom_known w \<longleftrightarrow>
     (w ! 0 = ECOMMUNITY_ENCODE_AS \<or> w ! 0 = ECOMMUNITY_ENCODE_IP \<or> w ! 0 = ECOMMUNITY_ENCODE_AS4) \<and>
     (w ! 1 = ECOMMUNITY_ROUTE_TARGET \<or> w ! 1 = ECOMMUNITY_SITE_ORIGIN)"

definition ecom_text :: "int \<Rightarrow> byte list \<Rightarrow> string" where
  "ecom_text format w = ecom_prefix format (w ! 1) @
     (if w ! 0 = ECOMMUNITY_ENCODE_AS4 then
        dec_str (unat (be32 (w ! 2) (w ! 3) (w ! 4) (w ! 5))) @ '':'' @ dec_str (unat (be16 (w ! 6) (w ! 7)))
      else if w ! 0 = ECOMMUNITY_ENCODE_AS then
        dec_str (unat (be16 (w ! 2) (w ! 3))) @ '':'' @ dec_str (unat (be32 (w ! 4) (w ! 5) (w ! 6) (w ! 7)))
      else inet_ntoa [w ! 2, w ! 3, w ! 4, w ! 5] @ '':'' @ dec_str (unat (be16 (w ! 6) (w ! 7))))"

lemma ecom_grow_ge: "sz \<noteq> 0 \<Longrightarrow> str_pnt + 27 < ecom_grow sz str_pnt"
proof (induction sz str_pnt rule: ecom_grow.induct)
  case (1 sz p)
  then show ?case
    by (subst ecom_grow.simps) (simp add: ECOMMUNITY_STR_DEFAULT_LEN_def not_le)
qed

lemma length_num_text:
  "length (dec_str (unat (a :: u32))) \<le> 10" "length (dec_str (unat (b :: u16))) \<le> 5" "length (dec_str (unat (c :: byte))) \<le> 3"
  using length_dec_str_bound [of "unat a" 9] unat_u32_less [of a] length_dec_str_bound [of "unat b" 4] unat_u16_less [of b]
    length_dec_str_bound [of "unat c" 2] unat_byte_less [of c] by simp_all

lemma length_ecom_text: "length (ecom_text format w) \<le> 25"
proof -
  have p: "length (ecom_prefix format ty) \<le> 4" for ty by (simp add: ecom_prefix_def)
  note n = length_num_text
  have "length (inet_ntoa [w ! 2, w ! 3, w ! 4, w ! 5]) \<le> 15"
    using n(3) [of "w ! 2"] n(3) [of "w ! 3"] n(3) [of "w ! 4"] n(3) [of "w ! 5"] by (simp add: inet_ntoa_def)
  then show ?thesis
    using p [of "w ! 1"] n(1) [of "be32 (w ! 2) (w ! 3) (w ! 4) (w ! 5)"] n(2) [of "be16 (w ! 6) (w ! 7)"]
      n(2) [of "be16 (w ! 2) (w ! 3)"] n(1) [of "be32 (w ! 4) (w ! 5) (w ! 6) (w ! 7)"]
    by (simp add: ecom_text_def)
qed

lemma ecom_entry_eq:
  assumes rd: "rd_mem b o' 8 = Inr w" "length w = 8" and k: "ecom_known w"
  shows "ecom_entry b (o' + 2) (w ! 0) (ecom_prefix format (w ! 1)) = Inr (ecom_text format w)"
proof -
  have b: "o' + 8 \<le> length b" "w = take 8 (drop o' b)" using rd by (auto simp: rd_mem_def split: if_splits)
  have nth: "b ! (o' + j) = w ! j" if "j < 8" for j using that b by simp
  have be16: "rd_be16 b (o' + j) = Inr (be16 (w ! j) (w ! (j + 1)))" if "j + 2 \<le> 8" for j
    using rd_mem_parts(2) [OF rd that] that rd(2) by (simp add: rd_be16_def)
  have be32: "rd_be32 b (o' + j) = Inr (be32 (w ! j) (w ! (j + 1)) (w ! (j + 2)) (w ! (j + 3)))" if "j + 4 \<le> 8" for j
    using rd_mem_parts(3) [OF rd that] that rd(2) by (simp add: rd_be32_def)
  have ip: "rd_mem b (o' + 2) 4 = Inr [w ! 2, w ! 3, w ! 4, w ! 5]"
  proof -
    have "take 4 (drop (o' + 2) b) = [b ! (o' + 2), b ! (o' + 3), b ! (o' + 4), b ! (o' + 5)]"
      using b(1) by (intro nth_equalityI) (auto simp: less_Suc_eq numeral_eq_Suc)
    then show ?thesis using b(1) nth [of 2] nth [of 3] nth [of 4] nth [of 5] by simp
  qed
  have o4: "Suc (Suc (Suc (Suc o'))) = o' + 4" by simp
  show ?thesis
    using k be16 [of 2] be16 [of 6] be32 [of 2] be32 [of 4, folded o4] ip
    by (auto simp: ecom_entry_def ecom_text_def ecom_known_def ecom_types add.commute [of o'])
qed

lemma ecom_fill_known:
  assumes vs: "\<forall>v \<in> set vs. length v = 8" "take (8 * length vs) b = concat vs" and k: "\<forall>v \<in> set vs. ecom_known v"
  shows "i + k = length vs \<Longrightarrow> t = spaced (map (ecom_text format) (take i vs)) \<Longrightarrow> length t < sz \<Longrightarrow>
    ecom_fill b format i k sz (i = 0) t = Inr (spaced (map (ecom_text format) vs))"
proof (induction k arbitrary: i t sz)
  case 0
  then show ?case by simp
next
  case (Suc k)
  have i: "i < length vs" using Suc.prems(1) by simp
  let ?w = "vs ! i"
  have w: "length ?w = 8" "ecom_known ?w" "rd_mem b (i * 8) 8 = Inr ?w" using vs(1) assms(3) i rd_mem_vals(1) [OF vs i] by simp_all
  have ty: "rd8 b (i * 8) = Inr (?w ! 0)" "rd8 b (i * 8 + 1) = Inr (?w ! 1)"
    using rd_mem_parts(1) [OF w(3,1), of 0] rd_mem_parts(1) [OF w(3,1), of 1] by simp_all
  define t1 where "t1 = (if i = 0 then t else t @ '' '')"
  define t2 where "t2 = t1 @ ecom_text format ?w"
  define sz' where "sz' = ecom_grow sz (length t1)"
  have g: "length t1 + 27 < sz'" using ecom_grow_ge [of sz "length t1"] Suc.prems(3) by (simp add: sz'_def)
  then have put: "put_str sz' t1 (ecom_text format ?w) = Inr t2" "length t2 < sz'"
    using length_ecom_text [of format ?w] by (simp_all add: put_str_def t2_def)
  have sp: "(if i = 0 then Inr t else put_char sz t (CHR '' '')) = Inr t1"
    using Suc.prems(3) by (simp add: t1_def put_char_def)
  have t2: "t2 = spaced (map (ecom_text format) (take (i + 1) vs))"
  proof (cases "i = 0")
    case True
    then show ?thesis using Suc.prems(2) i by (simp add: t2_def t1_def take_Suc_conv_app_nth)
  next
    case False
    then have "map (ecom_text format) (take i vs) \<noteq> []" using i by auto
    then show ?thesis
      using False Suc.prems(2) i spaced_snoc [of "map (ecom_text format) (take i vs)" "ecom_text format ?w"]
      by (simp add: t2_def t1_def take_Suc_conv_app_nth)
  qed
  have "ecom_fill b format i (Suc k) sz (i = 0) t = ecom_fill b format (i + 1) k sz' False t2"
    unfolding ecom_fill.simps sp rbind_simps ty
    using w(2) put(1) ecom_entry_eq [OF w(3,1,2), of format]
    by (auto simp: ecom_known_def sz'_def [symmetric] Let_def)
  then show ?case using Suc.IH [OF _ t2 put(2)] Suc.prems(1) by simp
qed

lemma ecom2str_eq:
  assumes "vals_rep ECOMMUNITY_SIZE c vs" "misc_db peer" "\<forall>v \<in> set vs. ecom_known v"
  shows "ecommunity_ecom2str peer c format = Inr (Some (spaced (map (ecom_text format) vs)))"
proof (cases "v_val c")
  case None
  then show ?thesis using assms by (simp add: vals_rep_def ecommunity_ecom2str_def)
next
  case (Some b)
  then show ?thesis
    using assms ecom_fill_known [of vs b 0 "length vs" "[]" format 28]
    by (auto simp: vals_rep_def ecommunity_ecom2str_def ECOMMUNITY_SIZE_def ECOMMUNITY_STR_DEFAULT_LEN_def)
qed

text \<open>On values of known types \<^verbatim>\<open>ecommunity_ecom2str\<close> never writes past its buffer, in any of the
  three formats, and prints the values separated by spaces.\<close>

theorem ecommunity_ecom2str_fits:
  assumes "vals_rep ECOMMUNITY_SIZE ecom vs" "misc_db peer" "\<forall>v \<in> set vs. ecom_known v"
  shows "ecommunity_ecom2str peer ecom format = Inr (Some (spaced (map (ecom_text format) vs)))"
  using assms by (rule ecom2str_eq)

theorem ecommunity_ecom2str_fits_witness:
  "ecommunity_ecom2str peer_ok \<lparr>refcnt = 0, str = None, v_size = 1, v_val = Some [0, 2, 0, 5, 0, 0, 0, 7]\<rparr>
     ECOMMUNITY_FORMAT_DISPLAY = Inr (Some ''RT:5:7'')"
proof -
  let ?c = "\<lparr>refcnt = 0, str = None, v_size = 1, v_val = Some [0, 2, 0, 5, 0, 0, 0, 7]\<rparr> :: ecommunity"
  have "ecom_text ECOMMUNITY_FORMAT_DISPLAY [0, 2, 0, 5, 0, 0, 0, 7] = ''RT:5:7''"
    by (simp add: ecom_text_def ecom_prefix_def ecom_types ECOMMUNITY_FORMAT_DISPLAY_def ECOMMUNITY_FORMAT_COMMUNITY_LIST_def
        unat_be32 unat_be16 dec_str_eval)
  moreover have "vals_rep ECOMMUNITY_SIZE ?c [[0, 2, 0, 5, 0, 0, 0, 7]]" "ecom_known [0, 2, 0, 5, 0, 0, 0, 7]"
    by (simp_all add: vals_rep_def ECOMMUNITY_SIZE_def ecom_known_def ecom_types)
  ultimately show ?thesis using ecommunity_ecom2str_fits [OF _ peer_ok_db(1), of ?c] by fastforce
qed

text \<open>A value of an unknown type is printed as a question mark, and the buffer does not grow for it.\<close>

lemma ecom_fill_unknown:
  assumes vs: "\<forall>v \<in> set vs. length v = 8" "take (8 * length vs) b = concat vs" and u: "\<forall>v \<in> set vs. \<not> ecom_known v"
  shows "i + k = length vs \<Longrightarrow> 15 \<le> length vs \<Longrightarrow> i < 15 \<Longrightarrow> length t = 2 * i - 1 \<Longrightarrow>
    ecom_fill b format i k 28 (i = 0) t = Inl Out_Of_Bounds"
proof (induction k arbitrary: i t)
  case 0
  then show ?case by simp
next
  case (Suc k)
  have i: "i < length vs" using Suc.prems(1) by simp
  let ?w = "vs ! i"
  have w: "length ?w = 8" "\<not> ecom_known ?w" "rd_mem b (i * 8) 8 = Inr ?w" using vs(1) u i rd_mem_vals(1) [OF vs i] by simp_all
  have ty: "rd8 b (i * 8) = Inr (?w ! 0)" "rd8 b (i * 8 + 1) = Inr (?w ! 1)"
    using rd_mem_parts(1) [OF w(3,1), of 0] rd_mem_parts(1) [OF w(3,1), of 1] by simp_all
  define t1 where "t1 = (if i = 0 then t else t @ '' '')"
  have l1: "length t1 = 2 * i" using Suc.prems(4) by (auto simp: t1_def)
  have sp: "(if i = 0 then Inr t else put_char 28 t (CHR '' '')) = Inr t1"
    using Suc.prems(3,4) by (auto simp: t1_def put_char_def)
  have step: "ecom_fill b format i (Suc k) 28 (i = 0) t =
      rbind (put_str 28 t1 ''?'') (\<lambda>t2. ecom_fill b format (i + 1) k 28 False t2)"
    unfolding ecom_fill.simps sp rbind_simps ty using w(2) by (auto simp: ecom_known_def)
  show ?case
  proof (cases "i = 14")
    case True
    then show ?thesis unfolding step using l1 by (simp add: put_str_def)
  next
    case False
    then have "put_str 28 t1 ''?'' = Inr (t1 @ ''?'')" "i + 1 < 15" using l1 Suc.prems(3) by (simp_all add: put_str_def)
    then show ?thesis unfolding step using Suc.IH [of "i + 1" "t1 @ ''?''"] Suc.prems(1,2) l1 by simp
  qed
qed

text \<open>C39: fifteen or more values of unknown types overflow the buffer of \<^verbatim>\<open>ecommunity_ecom2str\<close>: it is
  allocated for 28 characters and enlarged only for values of known types.\<close>

theorem ecommunity_ecom2str_overflow:
  assumes "vals_rep ECOMMUNITY_SIZE ecom vs" "misc_db peer" "\<forall>v \<in> set vs. \<not> ecom_known v" "15 \<le> length vs"
  shows "ecommunity_ecom2str peer ecom format = Inl Out_Of_Bounds"
proof -
  obtain b where "v_val ecom = Some b" "\<forall>v \<in> set vs. length v = 8" "take (8 * length vs) b = concat vs" "v_size ecom = length vs"
    using assms(1,4) by (auto simp: vals_rep_def ECOMMUNITY_SIZE_def split: option.splits)
  then show ?thesis
    using ecom_fill_unknown [of vs b 0 "length vs" "[]" format] assms(2,3,4)
    by (simp add: ecommunity_ecom2str_def ECOMMUNITY_STR_DEFAULT_LEN_def) (metis list.size(3) not_numeral_le_zero rbind_simps(1))
qed

theorem ecommunity_ecom2str_overflow_witness:
  "ecommunity_ecom2str peer_ok
     \<lparr>refcnt = 0, str = None, v_size = 15, v_val = Some (concat (replicate 15 [3, 0, 0, 0, 0, 0, 0, 0]))\<rparr>
     ECOMMUNITY_FORMAT_DISPLAY = Inl Out_Of_Bounds"
  by (rule ecommunity_ecom2str_overflow [where vs = "replicate 15 [3, 0, 0, 0, 0, 0, 0, 0]"])
    (auto simp: vals_rep_def ECOMMUNITY_SIZE_def ecom_known_def ecom_types peer_ok_db length_concat sum_list_replicate)

section \<open>Interning\<close>

interpretation ecommunities: value_attr ECOMMUNITY_SIZE
  "\<lambda>peer ob. ecommunity_ecom2str peer ob ECOMMUNITY_FORMAT_DISPLAY" ecom_known
  by unfold_locales (auto simp: ECOMMUNITY_SIZE_def ecom2str_eq [unfolded ECOMMUNITY_SIZE_def])

lemma ecommunity_ops:
  "ecommunity_hash_make = vals_hash_make ECOMMUNITY_SIZE" "ecommunity_cmp = vals_cmp ECOMMUNITY_SIZE"
  by (simp_all add: fun_eq_iff ecommunity_hash_make_def ecommunity_cmp_def)

lemma ecommunity_intern_pool:
  "ecommunity_intern =
     (\<lambda>peer. pool_intern peer (vals_hash_make ECOMMUNITY_SIZE) (vals_cmp ECOMMUNITY_SIZE)
        (\<lambda>ob. ecommunity_ecom2str peer ob ECOMMUNITY_FORMAT_DISPLAY))"
  by (simp add: fun_eq_iff ecommunity_intern_def ecommunity_ops)

text \<open>C40: parsing a well-formed extended communities attribute of known types into a well-formed
  pool returns the address of the one object that holds the set of its values in increasing
  order, and adds one reference to that set and to no other.\<close>

theorem ecommunity_parse_interns:
  assumes "pool_inv ecommunity_hash_make ecommunity_cmp P" "misc_db peer" "routing_db peer"
    "p_objs P fresh = None" "\<forall>a ob. p_objs P a = Some ob \<longrightarrow> refcnt ob \<noteq> - 1"
    "take len pnt = concat vs" "len = ECOMMUNITY_SIZE * length vs"
    "\<forall>v \<in> set vs. length v = ECOMMUNITY_SIZE \<and> ecom_known v"
  shows "\<exists>f P' c. ecommunity_parse peer P fresh pnt len = Inr (Some f, P') \<and>
     pool_inv ecommunity_hash_make ecommunity_cmp P' \<and>
     f \<in> hash_data (p_hash P') \<and> p_objs P' f = Some c \<and> vals_rep ECOMMUNITY_SIZE c (sorted_list_of_set (set vs)) \<and>
     (\<forall>d x. d \<in> hash_data (p_hash P) \<longrightarrow> p_objs P d = Some x \<longrightarrow>
        vals_value ECOMMUNITY_SIZE x = vals_canonical vs \<longrightarrow> d = f) \<and>
     (\<forall>v. pool_abs (vals_value ECOMMUNITY_SIZE) P' v =
        pool_abs (vals_value ECOMMUNITY_SIZE) P v + (if v = vals_canonical vs then 1 else 0))"
  using ecommunities.parse_interns [of P peer fresh len pnt vs] assms
  unfolding ecommunity_parse_def ecommunity_ops ecommunity_intern_pool by simp

theorem ecommunity_parse_interns_witness:
  "\<exists>f P'. ecommunity_parse peer_ok (ecommunity_init 16) 0 ([0, 2] @ replicate 6 1) 8 = Inr (Some f, P') \<and>
     pool_abs (vals_value ECOMMUNITY_SIZE) P' (1, [0, 2] @ replicate 6 1) = 1"
proof -
  let ?vs = "[[0, 2] @ replicate 6 1] :: byte list list"
  have c: "vals_canonical ?vs = (1, [0, 2] @ replicate 6 1)" by (simp add: vals_canonical_def)
  have none: "p_objs (ecommunity_init 16) 0 = None" "\<forall>a ob. p_objs (ecommunity_init 16) a = Some ob \<longrightarrow> refcnt ob \<noteq> - 1"
    by (simp_all add: ecommunity_init_def)
  have z: "pool_abs (vals_value ECOMMUNITY_SIZE) (ecommunity_init 16) v = 0" for v
    by (intro ecommunities.pool_abs_none) (simp add: ecommunity_init_def)
  have inv: "pool_inv ecommunity_hash_make ecommunity_cmp (ecommunity_init 16)"
    by (simp add: pool_inv_def ecommunity_init_def hash_wf_create)
  have msg: "take 8 ([0, 2] @ replicate 6 1) = concat ?vs" "8 = ECOMMUNITY_SIZE * length ?vs"
      "\<forall>v \<in> set ?vs. length v = ECOMMUNITY_SIZE \<and> ecom_known v"
    by (simp_all add: ECOMMUNITY_SIZE_def ecom_known_def ecom_types)
  obtain f P' where "ecommunity_parse peer_ok (ecommunity_init 16) 0 ([0, 2] @ replicate 6 1) 8 = Inr (Some f, P')"
      "\<forall>v. pool_abs (vals_value ECOMMUNITY_SIZE) P' v =
         pool_abs (vals_value ECOMMUNITY_SIZE) (ecommunity_init 16) v + (if v = vals_canonical ?vs then 1 else 0)"
    using ecommunity_parse_interns [OF inv peer_ok_db none msg] by blast
  then show ?thesis unfolding c z by (intro exI [of _ f] exI [of _ P']) simp
qed

end
