(* ===== verification/Bgp_Lcommunity.thy ===== *)
theory Bgp_Lcommunity
  imports Bgp_Values
begin

text \<open>
  Model of \<^verbatim>\<open>src/src/bgp/bgp_lcommunity.c\<close>: large communities, arrays of 12-byte values. The array
  operations are those of \<^theory_text>\<open>Bgp_Values\<close> at \<^verbatim>\<open>LCOMMUNITY_SIZE\<close>; the printed form is modelled here.
\<close>

section \<open>Model\<close>

definition LCOMMUNITY_SIZE :: nat where "LCOMMUNITY_SIZE = 12"
definition LCOMMUNITY_PART_SIZE :: nat where "LCOMMUNITY_PART_SIZE = 4"
definition LCOMMUNITY_STR_DEFAULT_LEN :: nat where "LCOMMUNITY_STR_DEFAULT_LEN = 32"

type_synonym lcommunity = attr_vals

definition lcommunity_new :: "bgp_peer_type option \<Rightarrow> lcommunity option" where
  "lcommunity_new peer = vals_new peer"

definition lcommunity_free :: "(addr \<Rightarrow> lcommunity option) \<Rightarrow> addr \<Rightarrow> (addr \<Rightarrow> lcommunity option)" where
  "lcommunity_free objs lcom = objs(lcom := None)"

definition lcommunity_add_val :: "bgp_peer_type option \<Rightarrow> lcommunity \<Rightarrow> byte list \<Rightarrow> (int \<times> lcommunity) res" where
  "lcommunity_add_val peer lcom lval = vals_add_val LCOMMUNITY_SIZE peer lcom lval"

definition lcommunity_uniq_sort :: "bgp_peer_type option \<Rightarrow> lcommunity option \<Rightarrow> lcommunity option res" where
  "lcommunity_uniq_sort peer lcom = vals_uniq_sort LCOMMUNITY_SIZE peer lcom"

definition lcommunity_hash_make :: "lcommunity \<Rightarrow> u32" where
  "lcommunity_hash_make lcom = vals_hash_make LCOMMUNITY_SIZE lcom"

definition lcommunity_cmp :: "lcommunity option \<Rightarrow> lcommunity option \<Rightarrow> bool" where
  "lcommunity_cmp lcom1 lcom2 = vals_cmp LCOMMUNITY_SIZE lcom1 lcom2"

definition lcommunity_init :: "u32 \<Rightarrow> lcommunity pool" where
  "lcommunity_init buckets = \<lparr>p_objs = (\<lambda>_. None), p_hash = hash_create buckets\<rparr>"

text \<open>The loop of \<^verbatim>\<open>lcommunity_lcom2str\<close>: \<open>idx\<close> with \<open>k\<close> values left, the allocation \<open>size\<close> and the
  text so far.\<close>

fun lcom_fill :: "byte list \<Rightarrow> nat \<Rightarrow> nat \<Rightarrow> nat \<Rightarrow> bool \<Rightarrow> string \<Rightarrow> string res" where
  "lcom_fill b idx 0 sz first t = Inr t"
| "lcom_fill b idx (Suc k) sz first t =
     (let sz' = sz + LCOMMUNITY_STR_DEFAULT_LEN + 1 in
      rbind (if first then Inr t else put_char sz' t (CHR '' '')) (\<lambda>t1.
      rbind (rd_be32 b (idx * LCOMMUNITY_SIZE)) (\<lambda>hpart1.
      rbind (rd_be32 b (idx * LCOMMUNITY_SIZE + LCOMMUNITY_PART_SIZE)) (\<lambda>hpart2.
      rbind (rd_be32 b (idx * LCOMMUNITY_SIZE + (LCOMMUNITY_PART_SIZE + LCOMMUNITY_PART_SIZE))) (\<lambda>hpart3.
      rbind (put_str sz' t1 (dec_str (unat hpart1) @ '':'' @ dec_str (unat hpart2) @ '':'' @ dec_str (unat hpart3))) (\<lambda>t2.
        lcom_fill b (idx + 1) k sz' False t2))))))"

definition lcommunity_lcom2str :: "bgp_peer_type option \<Rightarrow> lcommunity \<Rightarrow> string option res" where
  "lcommunity_lcom2str peer lcom =
     (if \<not> misc_db peer then Inr None
      else if v_size lcom = 0 then Inr (Some [])
      else case v_val lcom of
          None \<Rightarrow> Inl Null_Deref
        | Some b \<Rightarrow> rbind (lcom_fill b 0 (v_size lcom) 0 True []) (\<lambda>t. Inr (Some t)))"

definition lcommunity_intern :: "bgp_peer_type option \<Rightarrow> lcommunity pool \<Rightarrow> addr \<Rightarrow> (addr option \<times> lcommunity pool) res" where
  "lcommunity_intern peer P lcom =
     pool_intern peer lcommunity_hash_make lcommunity_cmp (lcommunity_lcom2str peer) P lcom"

definition lcommunity_unintern :: "bgp_peer_type option \<Rightarrow> lcommunity pool \<Rightarrow> addr \<Rightarrow> lcommunity pool res" where
  "lcommunity_unintern peer P lcom = pool_unintern peer lcommunity_hash_make lcommunity_cmp P lcom"

definition lcommunity_parse :: "bgp_peer_type option \<Rightarrow> lcommunity pool \<Rightarrow> addr \<Rightarrow> byte list \<Rightarrow> nat
    \<Rightarrow> (addr option \<times> lcommunity pool) res" where
  "lcommunity_parse peer P fresh pnt len = vals_parse LCOMMUNITY_SIZE lcommunity_intern peer P fresh pnt len"

section \<open>Printed form\<close>

definition lcom_text :: "byte list \<Rightarrow> string" where
  "lcom_text w =
     dec_str (unat (be32 (w ! 0) (w ! 1) (w ! 2) (w ! 3))) @ '':'' @
     dec_str (unat (be32 (w ! 4) (w ! 5) (w ! 6) (w ! 7))) @ '':'' @
     dec_str (unat (be32 (w ! 8) (w ! 9) (w ! 10) (w ! 11)))"

lemma length_u32_text: "length (dec_str (unat (a :: u32))) \<le> 10"
  using length_dec_str_bound [of "unat a" 9] unat_u32_less [of a] by simp

lemma length_lcom_text: "length (lcom_text w) \<le> 32"
  using length_u32_text [of "be32 (w ! 0) (w ! 1) (w ! 2) (w ! 3)"] length_u32_text [of "be32 (w ! 4) (w ! 5) (w ! 6) (w ! 7)"]
    length_u32_text [of "be32 (w ! 8) (w ! 9) (w ! 10) (w ! 11)"] by (simp add: lcom_text_def)

lemma lcom_parts:
  assumes "\<forall>v \<in> set vs. length v = 12" "take (12 * length vs) b = concat vs" "i < length vs"
  shows "rd_be32 b (i * 12) = Inr (be32 (vs ! i ! 0) (vs ! i ! 1) (vs ! i ! 2) (vs ! i ! 3))"
    "rd_be32 b (i * 12 + 4) = Inr (be32 (vs ! i ! 4) (vs ! i ! 5) (vs ! i ! 6) (vs ! i ! 7))"
    "rd_be32 b (i * 12 + 8) = Inr (be32 (vs ! i ! 8) (vs ! i ! 9) (vs ! i ! 10) (vs ! i ! 11))"
proof -
  have l: "length (vs ! i) = 12" using assms(1,3) by simp
  have p: "rd_be32 b (i * 12 + j) = Inr (be32 (vs ! i ! j) (vs ! i ! (j + 1)) (vs ! i ! (j + 2)) (vs ! i ! (j + 3)))"
    if "j + 4 \<le> 12" for j
    using rd_mem_parts(3) [OF rd_mem_vals(1) [OF assms] l that] l that by (simp add: rd_be32_def)
  show "rd_be32 b (i * 12) = Inr (be32 (vs ! i ! 0) (vs ! i ! 1) (vs ! i ! 2) (vs ! i ! 3))"
    using p [of 0] by (simp add: numeral_2_eq_2)
  show "rd_be32 b (i * 12 + 4) = Inr (be32 (vs ! i ! 4) (vs ! i ! 5) (vs ! i ! 6) (vs ! i ! 7))"
    using p [of 4] by simp
  show "rd_be32 b (i * 12 + 8) = Inr (be32 (vs ! i ! 8) (vs ! i ! 9) (vs ! i ! 10) (vs ! i ! 11))"
    using p [of 8] by simp
qed

lemma lcom_fill_step:
  assumes "(if first then Inr t else put_char (sz + 33) t (CHR '' '')) = Inr t1"
    "rd_be32 b (i * 12) = Inr p" "rd_be32 b (i * 12 + 4) = Inr q" "rd_be32 b (i * 12 + 8) = Inr r"
    "put_str (sz + 33) t1 (dec_str (unat p) @ '':'' @ dec_str (unat q) @ '':'' @ dec_str (unat r)) = Inr t2"
  shows "lcom_fill b i (Suc k) sz first t = lcom_fill b (i + 1) k (sz + 33) False t2"
  using assms
  by (cases first) (simp_all add: LCOMMUNITY_SIZE_def LCOMMUNITY_PART_SIZE_def LCOMMUNITY_STR_DEFAULT_LEN_def Let_def add.commute [of 33])

lemma lcom_fill_eq:
  assumes vs: "\<forall>v \<in> set vs. length v = 12" "take (12 * length vs) b = concat vs"
  shows "i + k = length vs \<Longrightarrow> t = spaced (map lcom_text (take i vs)) \<Longrightarrow> length t \<le> 33 * i - 1 \<Longrightarrow>
    lcom_fill b i k (33 * i) (i = 0) t = Inr (spaced (map lcom_text vs))"
proof (induction k arbitrary: i t)
  case 0
  then show ?case by simp
next
  case (Suc k)
  have i: "i < length vs" using Suc.prems(1) by simp
  define t1 where "t1 = (if i = 0 then t else t @ '' '')"
  define t2 where "t2 = t1 @ lcom_text (vs ! i)"
  have l1: "length t1 \<le> 33 * i" using Suc.prems(3) by (cases i) (simp_all add: t1_def)
  have l2: "length t2 \<le> 33 * (i + 1) - 1" using l1 length_lcom_text [of "vs ! i"] by (simp add: t2_def)
  have t2: "t2 = spaced (map lcom_text (take (i + 1) vs))"
  proof (cases "i = 0")
    case True
    then show ?thesis using Suc.prems(2) i by (simp add: t2_def t1_def take_Suc_conv_app_nth)
  next
    case False
    then have "map lcom_text (take i vs) \<noteq> []" using i by auto
    then show ?thesis
      using False Suc.prems(2) i spaced_snoc [of "map lcom_text (take i vs)" "lcom_text (vs ! i)"]
      by (simp add: t2_def t1_def take_Suc_conv_app_nth)
  qed
  have sp: "(if i = 0 then Inr t else put_char (33 * i + 33) t (CHR '' '')) = Inr t1"
    using Suc.prems(3) by (cases i) (simp_all add: t1_def put_char_def)
  have bnd: "length t1 + length (lcom_text (vs ! i)) + 1 \<le> 33 * i + 33"
    using l1 length_lcom_text [of "vs ! i"] by simp
  then have put: "put_str (33 * i + 33) t1 (lcom_text (vs ! i)) = Inr t2" by (simp add: put_str_def t2_def)
  have "lcom_fill b i (Suc k) (33 * i) (i = 0) t = lcom_fill b (i + 1) k (33 * (i + 1)) False t2"
    using lcom_fill_step [OF sp lcom_parts [OF vs i] put [unfolded lcom_text_def]] by (simp add: add.commute)
  then show ?case using Suc.IH [OF _ t2 l2] Suc.prems(1) by simp
qed

lemma lcom2str_eq:
  assumes "vals_rep LCOMMUNITY_SIZE c vs" "misc_db peer"
  shows "lcommunity_lcom2str peer c = Inr (Some (spaced (map lcom_text vs)))"
proof (cases "v_val c")
  case None
  then show ?thesis using assms by (simp add: vals_rep_def lcommunity_lcom2str_def)
next
  case (Some b)
  then show ?thesis
    using assms lcom_fill_eq [of vs b 0 "length vs" "[]"]
    by (auto simp: vals_rep_def lcommunity_lcom2str_def LCOMMUNITY_SIZE_def)
qed

text \<open>\<^verbatim>\<open>lcommunity_lcom2str\<close> never writes past its buffer, and prints the values of the attribute, each
  as its three parts, separated by spaces.\<close>

theorem lcommunity_lcom2str_fits:
  assumes "vals_rep LCOMMUNITY_SIZE lcom vs" "misc_db peer"
  shows "lcommunity_lcom2str peer lcom = Inr (Some (spaced (map lcom_text vs)))"
  using assms by (rule lcom2str_eq)

theorem lcommunity_lcom2str_fits_witness:
  "lcommunity_lcom2str peer_ok \<lparr>refcnt = 0, str = None, v_size = 1, v_val = Some [0, 0, 0, 1, 0, 0, 0, 2, 0, 0, 0, 3]\<rparr>
     = Inr (Some ''1:2:3'')"
proof -
  let ?c = "\<lparr>refcnt = 0, str = None, v_size = 1, v_val = Some [0, 0, 0, 1, 0, 0, 0, 2, 0, 0, 0, 3]\<rparr> :: lcommunity"
  have "lcom_text [0, 0, 0, 1, 0, 0, 0, 2, 0, 0, 0, 3] = ''1:2:3''"
    using dec_str_eval by (simp add: lcom_text_def unat_be32 flip: One_nat_def numeral_2_eq_2)
  moreover have "vals_rep LCOMMUNITY_SIZE ?c [[0, 0, 0, 1, 0, 0, 0, 2, 0, 0, 0, 3]]"
    by (simp add: vals_rep_def LCOMMUNITY_SIZE_def)
  ultimately show ?thesis using lcommunity_lcom2str_fits [OF _ peer_ok_db(1), of ?c] by fastforce
qed

section \<open>Interning\<close>

interpretation lcommunities: value_attr LCOMMUNITY_SIZE lcommunity_lcom2str "\<lambda>_. True"
  by unfold_locales (auto simp: LCOMMUNITY_SIZE_def lcom2str_eq [unfolded LCOMMUNITY_SIZE_def])

lemma lcommunity_ops:
  "lcommunity_hash_make = vals_hash_make LCOMMUNITY_SIZE" "lcommunity_cmp = vals_cmp LCOMMUNITY_SIZE"
  by (simp_all add: fun_eq_iff lcommunity_hash_make_def lcommunity_cmp_def)

lemma lcommunity_intern_pool:
  "lcommunity_intern =
     (\<lambda>peer. pool_intern peer (vals_hash_make LCOMMUNITY_SIZE) (vals_cmp LCOMMUNITY_SIZE) (lcommunity_lcom2str peer))"
  by (simp add: fun_eq_iff lcommunity_intern_def lcommunity_ops)

text \<open>Parsing a well-formed large communities attribute into a well-formed pool returns the
  address of the one object that holds the set of its values in increasing order, and adds one
  reference to that set and to no other.\<close>

theorem lcommunity_parse_interns:
  assumes "pool_inv lcommunity_hash_make lcommunity_cmp P" "misc_db peer" "routing_db peer"
    "p_objs P fresh = None" "\<forall>a ob. p_objs P a = Some ob \<longrightarrow> refcnt ob \<noteq> - 1"
    "take len pnt = concat vs" "len = LCOMMUNITY_SIZE * length vs" "\<forall>v \<in> set vs. length v = LCOMMUNITY_SIZE"
  shows "\<exists>f P' c. lcommunity_parse peer P fresh pnt len = Inr (Some f, P') \<and>
     pool_inv lcommunity_hash_make lcommunity_cmp P' \<and>
     f \<in> hash_data (p_hash P') \<and> p_objs P' f = Some c \<and> vals_rep LCOMMUNITY_SIZE c (sorted_list_of_set (set vs)) \<and>
     (\<forall>d x. d \<in> hash_data (p_hash P) \<longrightarrow> p_objs P d = Some x \<longrightarrow>
        vals_value LCOMMUNITY_SIZE x = vals_canonical vs \<longrightarrow> d = f) \<and>
     (\<forall>v. pool_abs (vals_value LCOMMUNITY_SIZE) P' v =
        pool_abs (vals_value LCOMMUNITY_SIZE) P v + (if v = vals_canonical vs then 1 else 0))"
  using lcommunities.parse_interns [of P peer fresh len pnt vs] assms
  unfolding lcommunity_parse_def lcommunity_ops lcommunity_intern_pool by simp

theorem lcommunity_parse_interns_witness:
  "\<exists>f P'. lcommunity_parse peer_ok (lcommunity_init 16) 0 (replicate 24 1) 24 = Inr (Some f, P') \<and>
     pool_abs (vals_value LCOMMUNITY_SIZE) P' (1, replicate 12 1) = 1"
proof -
  let ?vs = "[replicate 12 1, replicate 12 1] :: byte list list"
  have c: "vals_canonical ?vs = (1, replicate 12 1)" by (simp add: vals_canonical_def)
  have none: "p_objs (lcommunity_init 16) 0 = None" "\<forall>a ob. p_objs (lcommunity_init 16) a = Some ob \<longrightarrow> refcnt ob \<noteq> - 1"
    by (simp_all add: lcommunity_init_def)
  have z: "pool_abs (vals_value LCOMMUNITY_SIZE) (lcommunity_init 16) v = 0" for v
    by (intro lcommunities.pool_abs_none) (simp add: lcommunity_init_def)
  have inv: "pool_inv lcommunity_hash_make lcommunity_cmp (lcommunity_init 16)"
    by (simp add: pool_inv_def lcommunity_init_def hash_wf_create)
  have msg: "take 24 (replicate 24 1) = concat ?vs" "24 = LCOMMUNITY_SIZE * length ?vs"
      "\<forall>v \<in> set ?vs. length v = LCOMMUNITY_SIZE"
    by (simp_all add: LCOMMUNITY_SIZE_def flip: replicate_add)
  obtain f P' where "lcommunity_parse peer_ok (lcommunity_init 16) 0 (replicate 24 1) 24 = Inr (Some f, P')"
      "\<forall>v. pool_abs (vals_value LCOMMUNITY_SIZE) P' v =
         pool_abs (vals_value LCOMMUNITY_SIZE) (lcommunity_init 16) v + (if v = vals_canonical ?vs then 1 else 0)"
    using lcommunity_parse_interns [OF inv peer_ok_db none msg] by blast
  then show ?thesis unfolding c z by (intro exI [of _ f] exI [of _ P']) simp
qed

end
