(* ===== verification/Net_Aggr.thy ===== *)
theory Net_Aggr
  imports Prelude "HOL-Library.Product_Lexorder" "HOL-Library.Multiset"
begin

text \<open>
  Model of the IPv4 networks table of \<^verbatim>\<open>src/src/net_aggr.c\<close>: the sort of the loaded networks, the
  construction of the hierarchical table, the binary search in it and the lookup cache. A
  \<^verbatim>\<open>struct networks_table\<close> of a level of the hierarchy is a range of the one array that holds all
  entries, and a pointer to an entry is its index in that array.
\<close>

section \<open>Data\<close>

record networks_table_entry =
  nt_net :: u32
  nt_mask :: u32
  nt_masknum :: byte
  nt_peer_as :: u32
  nt_as :: u32
  nt_nh :: "byte list"
  nt_childs_table :: "nat option"
  nt_childs_num :: nat

type_synonym nets = "networks_table_entry list"

text \<open>A cached result: NULL, the dummy entry, or an entry of the table.\<close>

datatype cached = C_NULL | C_Dummy | C_Entry nat

record networks_cache =
  nc_cache :: "(u32 \<times> cached) list"
  nc_num :: u32

definition NETWORKS_CACHE_ENTRIES :: nat where "NETWORKS_CACHE_ENTRIES = 99991"

definition rd_ent :: "nets \<Rightarrow> nat \<Rightarrow> networks_table_entry res" where
  "rd_ent T i = (if i < length T then Inr (T ! i) else Inl Out_Of_Bounds)"

definition wr_ent :: "nets \<Rightarrow> nat \<Rightarrow> networks_table_entry \<Rightarrow> nets res" where
  "wr_ent T i e = (if i < length T then Inr (T[i := e]) else Inl Out_Of_Bounds)"

lemma rd_ent_in [simp]: "i < length T \<Longrightarrow> rd_ent T i = Inr (T ! i)"
  by (simp add: rd_ent_def)

section \<open>Sorting\<close>

text \<open>The three loops that merge the copies \<^verbatim>\<open>v1\<close> and \<^verbatim>\<open>v2\<close> back, on what is left of them.\<close>

fun merge_lists :: "nets \<Rightarrow> nets \<Rightarrow> nets" where
  "merge_lists (x # xs) (y # ys) =
     (if nt_net x < nt_net y then x # merge_lists xs (y # ys)
      else if nt_net x = nt_net y then
        (if nt_mask x \<le> nt_mask y then x # merge_lists xs (y # ys) else y # merge_lists (x # xs) ys)
      else y # merge_lists (x # xs) ys)"
| "merge_lists xs [] = xs"
| "merge_lists [] ys = ys"

definition merge :: "nets \<Rightarrow> nat \<Rightarrow> nat \<Rightarrow> nat \<Rightarrow> nets res" where
  "merge T start middle end =
     (if start \<le> middle \<and> middle \<le> end \<and> end \<le> length T then
        Inr (take start T @ merge_lists (take (middle - start) (drop start T)) (take (end - middle) (drop middle T)) @ drop end T)
      else Inl Out_Of_Bounds)"

function merge_sort :: "nets \<Rightarrow> nat \<Rightarrow> nat \<Rightarrow> nets res" where
  "merge_sort T start end =
     (if end \<le> start + 1 then Inr T
      else let middle = (start + end) div 2 in
        rbind (merge_sort T start middle) (\<lambda>T1. rbind (merge_sort T1 middle end) (\<lambda>T2. merge T2 start middle end)))"
  by pat_completeness auto
termination
  by (relation "measure (\<lambda>(T, start, end). end - start)") auto

declare merge_sort.simps [simp del]

section \<open>Lookup\<close>

definition cache_slot :: "networks_cache \<Rightarrow> u32 \<Rightarrow> nat res" where
  "cache_slot nc key =
     (if nc_num nc = 0 then Inl Div_By_Zero
      else let i = unat (key mod nc_num nc) in if i < length (nc_cache nc) then Inr i else Inl Out_Of_Bounds)"

definition networks_cache_insert :: "networks_cache \<Rightarrow> u32 \<Rightarrow> cached \<Rightarrow> networks_cache res" where
  "networks_cache_insert nc key result =
     rbind (cache_slot nc key) (\<lambda>i. Inr (nc\<lparr>nc_cache := (nc_cache nc)[i := (key, result)]\<rparr>))"

definition networks_cache_search :: "networks_cache \<Rightarrow> u32 \<Rightarrow> cached res" where
  "networks_cache_search nc key =
     rbind (cache_slot nc key) (\<lambda>i. Inr (if fst (nc_cache nc ! i) = key then snd (nc_cache nc ! i) else C_NULL))"

text \<open>The loop of \<^verbatim>\<open>binsearch\<close> over the \<open>num\<close> entries from \<open>base\<close> on; \<open>addrh\<close> is the address in host
  order.\<close>

function bin_loop :: "nets \<Rightarrow> nat \<Rightarrow> u32 \<Rightarrow> int \<Rightarrow> int \<Rightarrow> nat option res" where
  "bin_loop T base addrh low high =
     (if low \<le> high then
        let mid = (low + high) div 2 in
        rbind (rd_ent T (base + nat mid)) (\<lambda>e.
          let net = addrh AND nt_mask e in
          if net < nt_net e then bin_loop T base addrh low (mid - 1)
          else if net > nt_net e then bin_loop T base addrh (mid + 1) high
          else Inr (Some (base + nat mid)))
      else Inr None)"
  by pat_completeness auto
termination
  by (relation "measure (\<lambda>(T, base, addrh, low, high). nat (high - low + 1))") auto

declare bin_loop.simps [simp del]

text \<open>\<^verbatim>\<open>binsearch\<close> on the level that starts at \<open>base\<close> and has \<open>num\<close> entries; the first argument bounds
  the depth of the recursion. \<open>addr\<close> is the address in network order.\<close>

fun binsearch :: "nat \<Rightarrow> nets \<Rightarrow> nat \<Rightarrow> nat \<Rightarrow> networks_cache \<Rightarrow> u32 \<Rightarrow> (nat option \<times> networks_cache) res" where
  "binsearch 0 T base num nc addr = Inl No_Fuel"
| "binsearch (Suc k) T base num nc addr =
     rbind (networks_cache_search nc addr) (\<lambda>ret. case ret of
         C_Dummy \<Rightarrow> Inr (None, nc)
       | C_Entry r \<Rightarrow> rbind (rd_ent T r) (\<lambda>e. Inr (if nt_masknum e = 255 then None else Some r, nc))
       | C_NULL \<Rightarrow>
           rbind (bin_loop T base (bswap32 addr) 0 (int num - 1)) (\<lambda>m. case m of
             None \<Rightarrow> rbind (networks_cache_insert nc addr C_Dummy) (\<lambda>nc1. Inr (None, nc1))
           | Some mid \<Rightarrow> rbind (rd_ent T mid) (\<lambda>e. case nt_childs_table e of
               Some childs \<Rightarrow>
                 rbind (binsearch k T childs (nt_childs_num e) nc addr) (\<lambda>(r, nc1). case r of
                   None \<Rightarrow> rbind (networks_cache_insert nc1 addr (C_Entry mid)) (\<lambda>nc2. Inr (Some mid, nc2))
                 | Some r \<Rightarrow> Inr (Some r, nc1))
             | None \<Rightarrow> rbind (networks_cache_insert nc addr (C_Entry mid)) (\<lambda>nc1. Inr (Some mid, nc1)))))"

section \<open>Construction of the hierarchy\<close>

text \<open>The metadata: level and number of children of every entry. Step 4a, the inner loop for the
  entry \<open>index\<close>, from \<open>x\<close> on: the levels of the entries within it go up by one.\<close>

fun levels_inner :: "nets \<Rightarrow> networks_table_entry \<Rightarrow> nat \<Rightarrow> nat \<Rightarrow> nat list \<Rightarrow> nat list" where
  "levels_inner T e x 0 lev = lev"
| "levels_inner T e x (Suc k) lev =
     (if nt_net (T ! x) AND nt_mask e = nt_net e then levels_inner T e (x + 1) k (lev[x := lev ! x + 1]) else lev)"

fun levels_outer :: "nets \<Rightarrow> nat \<Rightarrow> nat \<Rightarrow> nat list \<Rightarrow> nat list" where
  "levels_outer T index 0 lev = lev"
| "levels_outer T index (Suc k) lev =
     levels_outer T (index + 1) k (levels_inner T (T ! index) (index + 1) (length T - (index + 1)) lev)"

definition nets_levels :: "nets \<Rightarrow> nat list" where
  "nets_levels T = levels_outer T 0 (length T - 1) (replicate (length T) 0)"

text \<open>Step 4c: the directly attached children of the entry \<open>index\<close>.\<close>

fun count_childs :: "nat list \<Rightarrow> nat \<Rightarrow> nat" where
  "count_childs [] l = 0"
| "count_childs (x # xs) l = (if x = l then 0 else if l + 1 = x then count_childs xs l + 1 else count_childs xs l)"

definition nets_childs :: "nat list \<Rightarrow> nat list" where
  "nets_childs lev = map (\<lambda>i. count_childs (drop (i + 1) lev) (lev ! i)) [0..<length lev]"

text \<open>Step 5a: the entries in the order of the sorted table are placed at \<^verbatim>\<open>current\<close>; a first child
  opens the table of its parent at \<^verbatim>\<open>next\<close>. \<open>prev\<close> is the array of 128 positions.\<close>

record build_state =
  b_table :: nets
  b_current :: nat
  b_next :: nat
  b_prev :: "nat list"

definition build_step :: "nets \<Rightarrow> nat list \<Rightarrow> nat list \<Rightarrow> nat \<Rightarrow> build_state \<Rightarrow> build_state res" where
  "build_step T lev ch index st =
     (if lev ! index = lev ! (index - 1) then
        rbind (wr_ent (b_table st) (b_current st + 1) (T ! index)) (\<lambda>tb.
          Inr (st\<lparr>b_table := tb, b_current := b_current st + 1\<rparr>))
      else if lev ! index > lev ! (index - 1) then
        rbind (rd_ent (b_table st) (b_current st)) (\<lambda>par.
        rbind (wr_ent (b_table st) (b_current st)
                 (par\<lparr>nt_childs_table := Some (b_next st), nt_childs_num := ch ! (index - 1)\<rparr>)) (\<lambda>tb1.
        rbind (rassert (lev ! (index - 1) < length (b_prev st)) Out_Of_Bounds) (\<lambda>_.
        rbind (wr_ent tb1 (b_next st) (T ! index)) (\<lambda>tb2.
          Inr \<lparr>b_table = tb2, b_current = b_next st, b_next = b_next st + ch ! (index - 1),
               b_prev = (b_prev st)[lev ! (index - 1) := b_current st]\<rparr>))))
      else
        rbind (rassert (lev ! index < length (b_prev st)) Out_Of_Bounds) (\<lambda>_.
        rbind (wr_ent (b_table st) (b_prev st ! (lev ! index) + 1) (T ! index)) (\<lambda>tb.
          Inr (st\<lparr>b_table := tb, b_current := b_prev st ! (lev ! index) + 1\<rparr>))))"

fun build_loop :: "nets \<Rightarrow> nat list \<Rightarrow> nat list \<Rightarrow> nat \<Rightarrow> nat \<Rightarrow> build_state \<Rightarrow> build_state res" where
  "build_loop T lev ch index 0 st = Inr st"
| "build_loop T lev ch index (Suc k) st =
     rbind (build_step T lev ch index st) (\<lambda>st'. build_loop T lev ch (index + 1) k st')"

definition nt_zero :: networks_table_entry where
  "nt_zero = \<lparr>nt_net = 0, nt_mask = 0, nt_masknum = 0, nt_peer_as = 0, nt_as = 0, nt_nh = [],
     nt_childs_table = None, nt_childs_num = 0\<rparr>"

text \<open>Steps 4 and 5 on the sorted table: the array and the number of root entries.\<close>

definition build_nets :: "nets \<Rightarrow> (nets \<times> nat) res" where
  "build_nets T =
     (let lev = nets_levels T; ch = nets_childs lev; eff_rows = length (filter (\<lambda>l. l = 0) lev) in
      case T of
        [] \<Rightarrow> Inr ([], 0)
      | e # _ \<Rightarrow>
          rbind (wr_ent (replicate (length T) nt_zero) 0 e) (\<lambda>tb.
          rbind (build_loop T lev ch 1 (length T - 1)
                   \<lparr>b_table = tb, b_current = 0, b_next = eff_rows, b_prev = replicate 128 0\<rparr>) (\<lambda>st.
            Inr (b_table st, eff_rows))))"

text \<open>The mask of a prefix length, as the loader computes it.\<close>

definition nt_mask_of :: "nat \<Rightarrow> u32" where
  "nt_mask_of index = (if index = 32 then 0xffffffff else NOT (drop_bit index 0xffffffff))"

text \<open>Steps 3 to 5 of \<^verbatim>\<open>load_networks4\<close> on the temporary table.\<close>

definition load_nets :: "nets \<Rightarrow> (nets \<times> nat) res" where
  "load_nets T = rbind (merge_sort T 0 (length T)) build_nets"

text \<open>A row of the file that is not a comment: its AS fields and next hop (\<open>None\<close>: the text is not an
  address, and the field stays as it is), and what the last field is: refused by \<^verbatim>\<open>sanitize_buf_net\<close>,
  not an address or not a number behind the slash, or a network in network order and its mask length.\<close>

datatype row_net = Net_Refused | Net_Invalid | Net_Valid u32 nat

record net_row =
  row_nh :: "byte list option"
  row_peer_as :: u32
  row_as :: u32
  row_net :: row_net

text \<open>Step 2: the entries stored so far, and the entry at \<^verbatim>\<open>eff_rows\<close> that the next row is written to.\<close>

fun load_rows :: "net_row list \<Rightarrow> nets \<Rightarrow> networks_table_entry \<Rightarrow> nets \<times> networks_table_entry" where
  "load_rows [] T cur = (T, cur)"
| "load_rows (r # rs) T cur =
     (let cur1 = cur\<lparr>nt_nh := (case row_nh r of Some nh \<Rightarrow> nh | None \<Rightarrow> nt_nh cur),
          nt_peer_as := row_peer_as r, nt_as := row_as r\<rparr> in
      case row_net r of
        Net_Refused \<Rightarrow> load_rows rs T cur1
      | Net_Invalid \<Rightarrow> load_rows rs T nt_zero
      | Net_Valid net index \<Rightarrow>
          (if index > 32 then load_rows rs T nt_zero
           else load_rows rs (T @ [cur1\<lparr>nt_net := bswap32 net AND nt_mask_of index, nt_mask := nt_mask_of index,
                  nt_masknum := of_nat index\<rparr>]) nt_zero))"

text \<open>The loader: the table, the number of its root entries and whether it has a default route. With
  no stored row the entry at position 0 is the table; the flag is computed from the finished table
  unless the file had no rows at all.\<close>

definition load_networks4 :: "net_row list \<Rightarrow> (nets \<times> nat \<times> bool) res" where
  "load_networks4 rows =
     (case load_rows rows [] nt_zero of (T, cur) \<Rightarrow>
        rbind (load_nets (if T = [] then [cur] else T)) (\<lambda>(T', num).
          Inr (T', num, rows \<noteq> [] \<and> (\<exists>e \<in> set T'. nt_mask e = 0))))"

end
