(* ===== verification/Net_Sort.thy ===== *)
theory Net_Sort
  imports Net_Aggr
begin

text \<open>
  Correctness of the merge sort of \<^verbatim>\<open>src/src/net_aggr.c\<close>: it is the stable sort by network and mask.
\<close>

definition nkey :: "networks_table_entry \<Rightarrow> u32 \<times> u32" where
  "nkey e = (nt_net e, nt_mask e)"

lemma nkey_le: "nkey x \<le> nkey y \<longleftrightarrow> nt_net x < nt_net y \<or> nt_net x = nt_net y \<and> nt_mask x \<le> nt_mask y"
  by (auto simp: nkey_def less_eq_prod_def)

lemma merge_lists_Nil [simp]: "merge_lists [] ys = ys"
  by (cases ys) simp_all

lemma merge_lists_Cons:
  "merge_lists (x # xs) (y # ys) =
     (if nkey x \<le> nkey y then x # merge_lists xs (y # ys) else y # merge_lists (x # xs) ys)"
  by (auto simp: nkey_le)

lemma merge_lists_induct [case_names Cons Left Right]:
  assumes "\<And>x xs y ys. (nkey x \<le> nkey y \<Longrightarrow> P xs (y # ys)) \<Longrightarrow> (\<not> nkey x \<le> nkey y \<Longrightarrow> P (x # xs) ys) \<Longrightarrow>
      P (x # xs) (y # ys)"
    "\<And>xs. P xs []" "\<And>ys. P [] ys"
  shows "P xs ys"
proof (induction xs ys rule: merge_lists.induct)
  case (1 x xs y ys)
  then show ?case by (intro assms(1)) (auto simp: nkey_le)
qed (use assms in auto)

lemma merge_lists_mset: "mset (merge_lists xs ys) = mset xs + mset ys"
  by (induction xs ys rule: merge_lists.induct) auto

lemma merge_lists_sorted:
  "sorted (map nkey xs) \<Longrightarrow> sorted (map nkey ys) \<Longrightarrow> sorted (map nkey (merge_lists xs ys))"
proof (induction xs ys rule: merge_lists_induct)
  case (Cons x xs y ys)
  have s: "set (merge_lists us vs) = set us \<union> set vs" for us vs
    using arg_cong [OF merge_lists_mset [of us vs], of set_mset] by simp
  show ?case
  proof (cases "nkey x \<le> nkey y")
    case True
    then have "sorted (map nkey (merge_lists xs (y # ys)))"
      using Cons.IH(1) Cons.prems by simp
    then show ?thesis
      unfolding merge_lists_Cons using True Cons.prems s [of xs "y # ys"] by (auto intro: order.trans)
  next
    case False
    then have "sorted (map nkey (merge_lists (x # xs) ys))"
      using Cons.IH(2) Cons.prems by simp
    then show ?thesis
      unfolding merge_lists_Cons using False Cons.prems s [of "x # xs" ys] by (auto intro: order.trans simp: not_le)
  qed
qed simp_all

lemma merge_lists_stable:
  "sorted (map nkey xs) \<Longrightarrow> sorted (map nkey ys) \<Longrightarrow>
   filter (\<lambda>x. k = nkey x) (merge_lists xs ys) = filter (\<lambda>x. k = nkey x) xs @ filter (\<lambda>x. k = nkey x) ys"
proof (induction xs ys rule: merge_lists_induct)
  case (Cons x xs y ys)
  show ?case
  proof (cases "nkey x \<le> nkey y")
    case True
    then have "filter (\<lambda>x. k = nkey x) (merge_lists xs (y # ys)) =
        filter (\<lambda>x. k = nkey x) xs @ filter (\<lambda>x. k = nkey x) (y # ys)"
      using Cons.IH(1) Cons.prems by simp
    then show ?thesis unfolding merge_lists_Cons using True by (auto simp del: filter.simps simp: filter.simps(2) [of _ x])
  next
    case False
    then have ih: "filter (\<lambda>x. k = nkey x) (merge_lists (x # xs) ys) =
        filter (\<lambda>x. k = nkey x) (x # xs) @ filter (\<lambda>x. k = nkey x) ys"
      using Cons.IH(2) Cons.prems by simp
    have "filter (\<lambda>x. k = nkey x) (x # xs) = []" if "k = nkey y"
      unfolding filter_empty_conv using False Cons.prems(1) that by fastforce
    then show ?thesis
      unfolding merge_lists_Cons using False ih by (auto simp del: filter.simps simp: filter.simps(2) [of _ y])
  qed
qed simp_all

lemma merge_lists_sort:
  "sorted (map nkey xs) \<Longrightarrow> sorted (map nkey ys) \<Longrightarrow> merge_lists xs ys = sort_key nkey (xs @ ys)"
  using merge_lists_sorted merge_lists_mset merge_lists_stable
  by (intro properties_for_sort_key [symmetric]) (auto simp: merge_lists_stable)

lemma filter_sort_key: "filter (\<lambda>x. k = f x) (sort_key f xs) = filter (\<lambda>x. k = f x) xs"
  using sort_key_stable [of f k xs] by (simp add: eq_commute [of k])

lemma sort_key_sort_append: "sort_key f (sort_key f xs @ sort_key f ys) = sort_key f (xs @ ys)"
  by (rule properties_for_sort_key) (simp_all add: filter_sort_key)

lemma merge_sort_range:
  "start \<le> end \<Longrightarrow> end \<le> length T \<Longrightarrow>
   merge_sort T start end = Inr (take start T @ sort_key nkey (take (end - start) (drop start T)) @ drop end T)"
proof (induction T start "end" rule: merge_sort.induct)
  case (1 T start e)
  show ?case
  proof (cases "e \<le> start + 1")
    case True
    then have "sort_key nkey (take (e - start) (drop start T)) = take (e - start) (drop start T)"
      using "1.prems" by (intro sort_key_id_if_sorted) (auto simp: le_Suc_eq take_Suc_conv_app_nth sorted_iff_nth_mono)
    moreover have "T = take start T @ take (e - start) (drop start T) @ drop e T"
      using "1.prems" append_take_drop_id [of "e - start" "drop start T"] by simp
    ultimately show ?thesis using True by (subst merge_sort.simps) simp
  next
    case False
    define m where "m = (start + e) div 2"
    have m: "start \<le> m" "m \<le> e" using False by (simp_all add: m_def)
    define A where "A = take (m - start) (drop start T)"
    define B where "B = take (e - m) (drop m T)"
    define T1 where "T1 = take start T @ sort_key nkey A @ drop m T"
    define T2 where "T2 = take start T @ sort_key nkey A @ sort_key nkey B @ drop e T"
    have lens: "length A = m - start" "length B = e - m" using m "1.prems" by (simp_all add: A_def B_def)
    have r1: "merge_sort T start m = Inr T1"
      using "1.IH"(1) [OF False m_def m(1)] m "1.prems" by (simp add: T1_def A_def)
    have l1: "length T1 = length T" using lens m "1.prems" by (simp add: T1_def)
    have d1: "drop m T1 = drop m T" "take m T1 = take start T @ sort_key nkey A" "drop e T1 = drop e T"
      using lens m "1.prems" by (simp_all add: T1_def)
    have "merge_sort T1 m e = Inr (take m T1 @ sort_key nkey (take (e - m) (drop m T1)) @ drop e T1)"
      using "1.IH"(2) [OF False m_def r1 m(2)] l1 "1.prems" by simp
    then have r2: "merge_sort T1 m e = Inr T2" by (simp add: d1 T2_def B_def)
    have mg: "merge T2 start m e = Inr (take start T @ merge_lists (sort_key nkey A) (sort_key nkey B) @ drop e T)"
      using lens m "1.prems" by (simp add: merge_def T2_def)
    have "merge_lists (sort_key nkey A) (sort_key nkey B) = sort_key nkey (A @ B)"
      by (simp add: merge_lists_sort sort_key_sort_append)
    moreover have "A @ B = take (e - start) (drop start T)"
      using m take_add [of "m - start" "e - m" "drop start T"] by (simp add: A_def B_def)
    ultimately show ?thesis
      using False r1 r2 mg by (subst merge_sort.simps) (simp add: m_def [symmetric] Let_def)
  qed
qed

text \<open>C37: \<^verbatim>\<open>merge_sort\<close> terminates without leaving the table and is the stable sort of the networks by
  address and then by mask.\<close>

theorem merge_sort_stable: "merge_sort T 0 (length T) = Inr (sort_key nkey T)"
  using merge_sort_range [of 0 "length T" T] by simp

end
