(* ===== verification/Net_Lookup.thy ===== *)
theory Net_Lookup
  imports Net_Aggr
begin

text \<open>
  Correctness of the lookup of \<^verbatim>\<open>src/src/net_aggr.c\<close>: on a well-formed hierarchy \<^verbatim>\<open>binsearch\<close> returns the most
  specific network that contains the address, whatever the state of the cache.
\<close>

section \<open>Networks as intervals of addresses\<close>

definition contains :: "networks_table_entry \<Rightarrow> u32 \<Rightarrow> bool" where
  "contains e a \<longleftrightarrow> a AND nt_mask e = nt_net e"

definition network :: "networks_table_entry \<Rightarrow> bool" where
  "network e \<longleftrightarrow> (\<exists>n \<le> 32. nt_mask e = nt_mask_of n) \<and> nt_net e AND nt_mask e = nt_net e \<and> nt_masknum e \<noteq> 255"

lemma nt_mask_of_eq: "n \<le> 32 \<Longrightarrow> nt_mask_of n = NOT (mask (32 - n))"
proof (cases "n = 32")
  case False
  have ff: "(0xffffffff :: u32) = mask 32" by (simp add: mask_eq_exp_minus_1)
  have "drop_bit n (mask 32 :: u32) = mask (32 - n)"
    by (rule bit_word_eqI) (auto simp: bit_drop_bit_eq bit_mask_iff)
  then show ?thesis using False by (simp add: nt_mask_of_def ff)
qed (simp add: nt_mask_of_def)

lemma unat_and_not_mask: "unat (a AND NOT (mask k) :: u32) = unat a div 2 ^ k * 2 ^ k"
proof -
  have eq: "a AND NOT (mask k) = push_bit k (drop_bit k a)"
    by (rule bit_word_eqI) (auto simp: bit_and_iff bit_not_iff bit_mask_iff bit_push_bit_iff bit_drop_bit_eq)
  have "unat (push_bit k (drop_bit k a)) = take_bit 32 (push_bit k (drop_bit k (unat a)))"
    using unat_u32_less [of a]
    by (simp only: unsigned_push_bit_eq unsigned_drop_bit_eq) (simp add: take_bit_nat_eq_self)
  then have "unat (a AND NOT (mask k)) = take_bit 32 (unat a div 2 ^ k * 2 ^ k)"
    unfolding eq by (simp only: push_bit_eq_mult drop_bit_eq_div)
  moreover have "unat a div 2 ^ k * 2 ^ k < 2 ^ 32"
    using le_less_trans [OF div_times_less_eq_dividend [of "unat a" "2 ^ k"] unat_u32_less [of a]] by simp
  ultimately show ?thesis by (simp add: take_bit_nat_eq_self)
qed

text \<open>The number of addresses of a network; it is the interval of that many addresses from its address
  on.\<close>

definition nsize :: "networks_table_entry \<Rightarrow> nat" where
  "nsize e = unat (NOT (nt_mask e)) + 1"

lemma unat_not: "unat (NOT (a :: u32)) = 4294967295 - unat a"
proof -
  have "NOT a = - 1 - a" by (simp add: not_eq_complement)
  moreover have "unat (- 1 - a) = unat (- 1 :: u32) - unat a" by (rule unat_sub) simp
  moreover have "unat (- 1 :: u32) = 4294967295" by (simp add: unsigned_minus_1_eq_mask mask_eq_exp_minus_1)
  ultimately show ?thesis by simp
qed

lemma unat_mask32:
  assumes "k \<le> 32"
  shows "unat (mask k :: u32) = 2 ^ k - 1"
proof -
  have "uint (mask k :: u32) = mask k" using assms by (simp add: uint_mask_eq min_absorb2)
  then have "unat (mask k :: u32) = nat (mask k)" by (simp only: unat_eq_nat_uint)
  also have "\<dots> = mask k" by (rule nat_mask_eq)
  finally show ?thesis by (simp only: mask_nat_def)
qed

lemma network_nsize:
  assumes "network e"
  obtains k where "k \<le> 32" "nsize e = 2 ^ k" "nt_mask e = NOT (mask k)"
proof -
  obtain n where n: "n \<le> 32" "nt_mask e = nt_mask_of n" using assms by (auto simp: network_def)
  then have m: "nt_mask e = NOT (mask (32 - n))" by (simp add: nt_mask_of_eq)
  have "nsize e = 2 ^ (32 - n)" using m unat_mask32 [of "32 - n"] by (simp add: nsize_def)
  then show ?thesis using that [of "32 - n"] m by simp
qed

lemma nsize_mask: "nt_mask d \<le> nt_mask e \<longleftrightarrow> nsize e \<le> nsize d"
  using unat_u32_less [of "nt_mask d"] unat_u32_less [of "nt_mask e"]
  by (auto simp: nsize_def word_le_nat_alt unat_not)

lemma network_interval:
  assumes "network e"
  shows "0 < nsize e" "nsize e dvd unat (nt_net e)" "unat (a AND nt_mask e) = unat a div nsize e * nsize e"
    "contains e a \<longleftrightarrow> unat (nt_net e) \<le> unat a \<and> unat a < unat (nt_net e) + nsize e"
proof -
  obtain k where k: "nsize e = 2 ^ k" "nt_mask e = NOT (mask k)" using network_nsize [OF assms] by blast
  have msk: "unat (a AND nt_mask e) = unat a div nsize e * nsize e" for a
    using unat_and_not_mask [of a k] k by simp
  then show "unat (a AND nt_mask e) = unat a div nsize e * nsize e" .
  show s0: "0 < nsize e" by (simp add: nsize_def)
  have "unat (nt_net e) = unat (nt_net e) div nsize e * nsize e" using msk [of "nt_net e"] assms by (simp add: network_def)
  then show dvd: "nsize e dvd unat (nt_net e)" by (metis dvd_triv_right)
  then obtain q where q: "unat (nt_net e) = q * nsize e" by (metis dvdE mult.commute)
  have "contains e a \<longleftrightarrow> unat a div nsize e * nsize e = q * nsize e"
    by (simp add: contains_def word_unat_eq_iff msk q del: mult_cancel2)
  also have "\<dots> \<longleftrightarrow> q * nsize e \<le> unat a \<and> unat a < q * nsize e + nsize e"
  proof
    assume "unat a div nsize e * nsize e = q * nsize e"
    then show "q * nsize e \<le> unat a \<and> unat a < q * nsize e + nsize e"
      using div_mult_mod_eq [of "unat a" "nsize e"] mod_less_divisor [OF s0, of "unat a"] by simp
  next
    assume "q * nsize e \<le> unat a \<and> unat a < q * nsize e + nsize e"
    then have "unat a div nsize e = q" by (intro div_nat_eqI) (simp_all add: mult.commute)
    then show "unat a div nsize e * nsize e = q * nsize e" by simp
  qed
  finally show "contains e a \<longleftrightarrow> unat (nt_net e) \<le> unat a \<and> unat a < unat (nt_net e) + nsize e" using q by simp
qed

lemma contains_net: "network e \<Longrightarrow> contains e (nt_net e)"
  by (simp add: contains_def network_def)

section \<open>Binary search in one level\<close>

definition siblings :: "networks_table_entry list \<Rightarrow> bool" where
  "siblings es \<longleftrightarrow> (\<forall>e \<in> set es. network e) \<and>
     (\<forall>i < length es. \<forall>j < i. nt_net (es ! j) < nt_net (es ! i) \<and> \<not> contains (es ! j) (nt_net (es ! i)))"

text \<open>Seen from an entry before or after the one that contains the address, the address is above or
  below.\<close>

lemma before_below:
  assumes "network d" "network e" "nt_net d < nt_net e" "\<not> contains d (nt_net e)" "contains e a"
  shows "nt_net d < a AND nt_mask d"
proof -
  let ?s = "nsize d"
  note d = network_interval [OF assms(1)] and e = network_interval [OF assms(2)]
  have "unat (nt_net d) + ?s \<le> unat (nt_net e)" using d(4) [of "nt_net e"] assms(3,4) by (simp add: word_less_nat_alt)
  also have "\<dots> \<le> unat a" using e(4) assms(5) by simp
  finally have "unat (nt_net d) + ?s \<le> unat a" .
  then have "(unat (nt_net d) + ?s) div ?s * ?s \<le> unat a div ?s * ?s" by (intro mult_le_mono1 div_le_mono)
  then show ?thesis using d(1,2,3) by (simp add: word_less_nat_alt div_add_self2 algebra_simps)
qed

lemma after_above:
  assumes "network e" "network d" "nt_net e < nt_net d" "\<not> contains e (nt_net d)" "contains e a"
  shows "a AND nt_mask d < nt_net d"
proof -
  note e = network_interval(4) [OF assms(1)]
  have "unat (nt_net e) + nsize e \<le> unat (nt_net d)" using e [of "nt_net d"] assms(3,4) by (simp add: word_less_nat_alt)
  then have "unat a < unat (nt_net d)" using e assms(5) by simp
  with div_times_less_eq_dividend [of "unat a" "nsize d"] have "unat (a AND nt_mask d) < unat (nt_net d)"
    unfolding network_interval(3) [OF assms(2)] by (rule le_less_trans)
  then show ?thesis by (simp add: word_less_nat_alt)
qed

lemma siblings_sides:
  assumes "siblings es" "j < length es" "contains (es ! j) a"
  shows "i < j \<Longrightarrow> nt_net (es ! i) < a AND nt_mask (es ! i)"
    and "j < i \<Longrightarrow> i < length es \<Longrightarrow> a AND nt_mask (es ! i) < nt_net (es ! i)"
  using assms unfolding siblings_def
  by (meson before_below less_trans nth_mem, meson after_above nth_mem)

lemma bin_loop_found:
  assumes "siblings es" "base + length es \<le> length T" "\<And>i. i < length es \<Longrightarrow> T ! (base + i) = es ! i"
    "j < length es" "contains (es ! j) a"
  shows "0 \<le> low \<Longrightarrow> high < int (length es) \<Longrightarrow> low \<le> int j \<Longrightarrow> int j \<le> high \<Longrightarrow>
    bin_loop T base a low high = Inr (Some (base + j))"
proof (induction "nat (high - low)" arbitrary: low high rule: less_induct)
  case less
  define mid where "mid = (low + high) div 2"
  have mid: "low \<le> mid" "mid \<le> high" using less.prems by (simp_all add: mid_def)
  define i where "i = nat mid"
  have i: "i < length es" "int i = mid" using mid less.prems by (simp_all add: i_def)
  have rd: "rd_ent T (base + nat mid) = Inr (es ! i)" using assms(2,3) i(1) by (simp add: i_def rd_ent_def)
  note sides = siblings_sides [OF assms(1,4,5), of i]
  have step: "bin_loop T base a low high =
      (if a AND nt_mask (es ! i) < nt_net (es ! i) then bin_loop T base a low (mid - 1)
       else if nt_net (es ! i) < a AND nt_mask (es ! i) then bin_loop T base a (mid + 1) high
       else Inr (Some (base + i)))"
    using less.prems rd by (subst bin_loop.simps) (simp add: mid_def [symmetric] Let_def i_def)
  consider "i < j" | "i = j" | "j < i" by linarith
  then show ?case
  proof cases
    case 1
    then have "bin_loop T base a (mid + 1) high = Inr (Some (base + j))"
      using less.prems i mid by (intro less.hyps) auto
    then show ?thesis using step sides(1) [OF 1] by auto
  next
    case 2
    then show ?thesis using step assms(5) by (simp add: contains_def)
  next
    case 3
    then have "bin_loop T base a low (mid - 1) = Inr (Some (base + j))"
      using less.prems i mid by (intro less.hyps) auto
    then show ?thesis using step sides(2) [OF 3 i(1)] by simp
  qed
qed

lemma bin_loop_sound:
  assumes "base + n \<le> length T"
  shows "0 \<le> low \<Longrightarrow> high < int n \<Longrightarrow>
    \<exists>r. bin_loop T base a low high = Inr r \<and> (\<forall>x. r = Some x \<longrightarrow> base \<le> x \<and> x < base + n \<and> contains (T ! x) a)"
proof (induction "nat (high - low + 1)" arbitrary: low high rule: less_induct)
  case less
  show ?case
  proof (cases "low \<le> high")
    case True
    define mid where "mid = (low + high) div 2"
    have mid: "low \<le> mid" "mid \<le> high" using True by (simp_all add: mid_def)
    define e where "e = T ! (base + nat mid)"
    have nm: "nat mid < n" using mid less.prems by simp
    then have rd: "rd_ent T (base + nat mid) = Inr e" using assms by (simp add: e_def rd_ent_def)
    have step: "bin_loop T base a low high =
        (if a AND nt_mask e < nt_net e then bin_loop T base a low (mid - 1)
         else if nt_net e < a AND nt_mask e then bin_loop T base a (mid + 1) high
         else Inr (Some (base + nat mid)))"
      using True rd by (subst bin_loop.simps) (simp add: mid_def [symmetric] Let_def)
    show ?thesis
      using less.hyps [of "mid - 1" low] less.hyps [of high "mid + 1"] less.prems mid nm
      by (auto simp: step e_def contains_def)
  qed (simp add: bin_loop.simps)
qed

section \<open>The hierarchy\<close>

definition level_entries :: "nets \<Rightarrow> nat \<Rightarrow> nat \<Rightarrow> networks_table_entry list" where
  "level_entries T base num = take num (drop base T)"

definition within :: "networks_table_entry \<Rightarrow> networks_table_entry \<Rightarrow> bool" where
  "within x e \<longleftrightarrow> nt_mask e \<le> nt_mask x \<and> contains e (nt_net x)"

text \<open>A well-formed hierarchy of at most \<open>d\<close> levels: each level is a sequence of disjoint networks in
  increasing order, and the networks of a child table lie within their parent.\<close>

fun hierarchy :: "nat \<Rightarrow> nets \<Rightarrow> nat \<Rightarrow> nat \<Rightarrow> bool" where
  "hierarchy 0 T base num = False"
| "hierarchy (Suc d) T base num \<longleftrightarrow>
     base + num \<le> length T \<and> siblings (level_entries T base num) \<and>
     (\<forall>i < num. case nt_childs_table (T ! (base + i)) of
        None \<Rightarrow> True
      | Some c \<Rightarrow> hierarchy d T c (nt_childs_num (T ! (base + i))) \<and>
          (\<forall>x \<in> set (level_entries T c (nt_childs_num (T ! (base + i)))). within x (T ! (base + i))))"

text \<open>The entries of the hierarchy.\<close>

fun members :: "nat \<Rightarrow> nets \<Rightarrow> nat \<Rightarrow> nat \<Rightarrow> nat set" where
  "members 0 T base num = {}"
| "members (Suc d) T base num =
     (\<Union>i < num. insert (base + i) (case nt_childs_table (T ! (base + i)) of
        None \<Rightarrow> {} | Some c \<Rightarrow> members d T c (nt_childs_num (T ! (base + i)))))"

text \<open>The most specific entry that contains an address.\<close>

definition best_match :: "nets \<Rightarrow> nat set \<Rightarrow> u32 \<Rightarrow> nat option \<Rightarrow> bool" where
  "best_match T M a r = (case r of
       None \<Rightarrow> \<forall>i \<in> M. \<not> contains (T ! i) a
     | Some x \<Rightarrow> x \<in> M \<and> contains (T ! x) a \<and>
         (\<forall>i \<in> M. contains (T ! i) a \<longrightarrow> nt_mask (T ! i) \<le> nt_mask (T ! x)))"

lemma within_contains:
  assumes "network x" "network e" "within x e" "contains x a"
  shows "contains e a"
proof -
  obtain k where k: "nsize x = 2 ^ k" "nt_mask x = NOT (mask k)" using network_nsize [OF assms(1)] by blast
  obtain l where l: "nsize e = 2 ^ l" "nt_mask e = NOT (mask l)" using network_nsize [OF assms(2)] by blast
  have "nsize x \<le> nsize e" using assms(3) by (simp add: within_def nsize_mask)
  then have "k \<le> l" unfolding k l by simp
  then have "nt_mask x AND nt_mask e = nt_mask e"
    unfolding k l by (intro bit_word_eqI) (auto simp: bit_and_iff bit_not_iff bit_mask_iff)
  then have "a AND nt_mask e = (a AND nt_mask x) AND nt_mask e" by (simp add: and.assoc)
  then show ?thesis using assms(3,4) by (simp add: contains_def within_def)
qed

lemma level_nth: "base + num \<le> length T \<Longrightarrow> i < num \<Longrightarrow> level_entries T base num ! i = T ! (base + i)"
  by (simp add: level_entries_def)

lemma length_level: "base + num \<le> length T \<Longrightarrow> length (level_entries T base num) = num"
  by (simp add: level_entries_def)

lemma hierarchy_networks:
  "hierarchy (Suc d) T base num \<Longrightarrow> i < num \<Longrightarrow> network (T ! (base + i))"
  by (metis hierarchy.simps(2) length_level level_nth nth_mem siblings_def)

text \<open>What contains an address below an entry is contained in that entry, with a longer mask.\<close>

lemma members_within:
  assumes "hierarchy d T base num" "network e" "\<forall>x \<in> set (level_entries T base num). within x e" "i \<in> members d T base num"
  shows "network (T ! i) \<and> nt_mask e \<le> nt_mask (T ! i) \<and> (contains (T ! i) a \<longrightarrow> contains e a)"
  using assms
proof (induction d arbitrary: base num e)
  case (Suc d)
  then obtain j where j: "j < num" "i = base + j \<or> (\<exists>c. nt_childs_table (T ! (base + j)) = Some c \<and>
      i \<in> members d T c (nt_childs_num (T ! (base + j))))"
    by (auto split: option.splits)
  let ?x = "T ! (base + j)"
  have b: "base + num \<le> length T" using Suc.prems(1) by simp
  have x: "network ?x" using hierarchy_networks [OF Suc.prems(1) j(1)] .
  have "?x \<in> set (level_entries T base num)" using level_nth [OF b j(1)] length_level [OF b] j(1) nth_mem by metis
  then have w: "within ?x e" using Suc.prems(3) by blast
  show ?case
  proof (cases "i = base + j")
    case True
    then show ?thesis using w x within_contains [OF x Suc.prems(2) w] by (simp add: within_def)
  next
    case False
    then obtain c where c: "nt_childs_table ?x = Some c" "i \<in> members d T c (nt_childs_num ?x)" using j(2) by blast
    then have h: "hierarchy d T c (nt_childs_num ?x)" "\<forall>y \<in> set (level_entries T c (nt_childs_num ?x)). within y ?x"
      using Suc.prems(1) j(1) by (auto dest!: spec [of _ j])
    show ?thesis
      using Suc.IH [OF h(1) x h(2) c(2)] w within_contains [OF x Suc.prems(2) w] by (auto simp: within_def)
  qed
qed simp

section \<open>The search without its cache\<close>

fun find_net :: "nat \<Rightarrow> nets \<Rightarrow> nat \<Rightarrow> nat \<Rightarrow> u32 \<Rightarrow> nat option res" where
  "find_net 0 T base num a = Inl No_Fuel"
| "find_net (Suc k) T base num a =
     rbind (bin_loop T base a 0 (int num - 1)) (\<lambda>m. case m of
         None \<Rightarrow> Inr None
       | Some mid \<Rightarrow> (case nt_childs_table (T ! mid) of
           None \<Rightarrow> Inr (Some mid)
         | Some c \<Rightarrow> rbind (find_net k T c (nt_childs_num (T ! mid)) a) (\<lambda>r. Inr (if r = None then Some mid else r))))"

lemma level_search:
  assumes "base + num \<le> length T" "siblings (level_entries T base num)"
  obtains "bin_loop T base a 0 (int num - 1) = Inr None" "\<forall>i < num. \<not> contains (T ! (base + i)) a"
  | j where "bin_loop T base a 0 (int num - 1) = Inr (Some (base + j))" "j < num" "contains (T ! (base + j)) a"
      "\<forall>i < num. contains (T ! (base + i)) a \<longrightarrow> i = j"
proof (cases "\<exists>j < num. contains (T ! (base + j)) a")
  case True
  let ?es = "level_entries T base num"
  obtain j where j: "j < num" "contains (T ! (base + j)) a" using True by blast
  have found: "bin_loop T base a 0 (int num - 1) = Inr (Some (base + i))" if "i < num" "contains (T ! (base + i)) a" for i
    using that assms length_level [OF assms(1)] level_nth [OF assms(1)]
    by (intro bin_loop_found [of ?es]) auto
  then have "\<forall>i < num. contains (T ! (base + i)) a \<longrightarrow> i = j" using found [OF j] by fastforce
  then show ?thesis using that(2) found [OF j] j by blast
next
  case False
  obtain r where r: "bin_loop T base a 0 (int num - 1) = Inr r"
      "\<forall>x. r = Some x \<longrightarrow> base \<le> x \<and> x < base + num \<and> contains (T ! x) a"
    using bin_loop_sound [OF assms(1), of 0 "int num - 1" a] by auto
  have "r = None"
  proof (rule ccontr)
    assume "r \<noteq> None"
    then obtain x where "r = Some x" by blast
    then show False using r(2) False by (metis add_diff_inverse_nat less_diff_conv2 not_less add.commute)
  qed
  then show ?thesis using that(1) r(1) False by blast
qed

lemma find_net_best:
  "hierarchy d T base num \<Longrightarrow> \<exists>r. find_net d T base num a = Inr r \<and> best_match T (members d T base num) a r"
proof (induction d arbitrary: base num)
  case (Suc d)
  have b: "base + num \<le> length T" "siblings (level_entries T base num)" using Suc.prems by simp_all
  from level_search [OF b, of a] show ?case
  proof cases
    case 1
    have "\<not> contains (T ! i) a" if m: "i \<in> members (Suc d) T base num" for i
    proof -
      obtain j where j: "j < num" "i = base + j \<or> (\<exists>c. nt_childs_table (T ! (base + j)) = Some c \<and>
          i \<in> members d T c (nt_childs_num (T ! (base + j))))"
        using m by (auto split: option.splits)
      show ?thesis
      proof (cases "i = base + j")
        case False
        then obtain c where c: "nt_childs_table (T ! (base + j)) = Some c"
            "i \<in> members d T c (nt_childs_num (T ! (base + j)))" using j(2) by blast
        then show ?thesis
          using members_within [OF _ hierarchy_networks [OF Suc.prems j(1)] _ c(2), of a] Suc.prems j(1) 1(2)
          by (auto dest!: spec [of _ j])
      qed (use 1(2) j(1) in simp)
    qed
    then show ?thesis using 1(1) by (simp add: best_match_def)
  next
    case (2 j)
    let ?x = "T ! (base + j)"
    have nx: "network ?x" using hierarchy_networks [OF Suc.prems 2(2)] .
    have only: "i = base + j \<or> (\<exists>c. nt_childs_table ?x = Some c \<and> i \<in> members d T c (nt_childs_num ?x))"
      if m: "i \<in> members (Suc d) T base num" "contains (T ! i) a" for i
    proof -
      obtain l where l: "l < num" "i = base + l \<or> (\<exists>c. nt_childs_table (T ! (base + l)) = Some c \<and>
          i \<in> members d T c (nt_childs_num (T ! (base + l))))"
        using m(1) by (auto split: option.splits)
      have "contains (T ! (base + l)) a"
      proof (cases "i = base + l")
        case False
        then obtain c where c: "nt_childs_table (T ! (base + l)) = Some c"
            "i \<in> members d T c (nt_childs_num (T ! (base + l)))" using l(2) by blast
        then show ?thesis
          using members_within [OF _ hierarchy_networks [OF Suc.prems l(1)] _ c(2), of a] Suc.prems l(1) m(2)
          by (auto dest!: spec [of _ l])
      qed (use m(2) in simp)
      then have "l = j" using 2(4) l(1) by blast
      then show ?thesis using l(2) by blast
    qed
    have mem: "base + j \<in> members (Suc d) T base num" using 2(2) by auto
    show ?thesis
    proof (cases "nt_childs_table ?x")
      case None
      then have "i = base + j" if "i \<in> members (Suc d) T base num" "contains (T ! i) a" for i
        using only [OF that] by simp
      then have "best_match T (members (Suc d) T base num) a (Some (base + j))"
        unfolding best_match_def option.case using mem 2(3) by (metis order_refl)
      then show ?thesis using 2(1) None by (simp del: members.simps)
    next
      case (Some c)
      have h: "hierarchy d T c (nt_childs_num ?x)" "\<forall>y \<in> set (level_entries T c (nt_childs_num ?x)). within y ?x"
        using Suc.prems 2(2) Some by (auto dest!: spec [of _ j])
      have sub: "members d T c (nt_childs_num ?x) \<subseteq> members (Suc d) T base num" using Some 2(2) by force
      obtain r where r: "find_net d T c (nt_childs_num ?x) a = Inr r" "best_match T (members d T c (nt_childs_num ?x)) a r"
        using Suc.IH [OF h(1)] by blast
      have "best_match T (members (Suc d) T base num) a (if r = None then Some (base + j) else r)"
      proof (cases r)
        case None
        have "i = base + j" if "i \<in> members (Suc d) T base num" "contains (T ! i) a" for i
          using only [OF that] that(2) r(2) None Some by (auto simp: best_match_def)
        then have "best_match T (members (Suc d) T base num) a (Some (base + j))"
          unfolding best_match_def option.case using mem 2(3) by (metis order_refl)
        then show ?thesis using None by (simp del: members.simps)
      next
        case (Some y)
        then have y: "y \<in> members d T c (nt_childs_num ?x)" "contains (T ! y) a"
            "\<forall>i \<in> members d T c (nt_childs_num ?x). contains (T ! i) a \<longrightarrow> nt_mask (T ! i) \<le> nt_mask (T ! y)"
          using r(2) by (simp_all add: best_match_def)
        have "nt_mask ?x \<le> nt_mask (T ! y)" using members_within [OF h(1) nx h(2) y(1)] by blast
        then have "nt_mask (T ! i) \<le> nt_mask (T ! y)" if "i \<in> members (Suc d) T base num" "contains (T ! i) a" for i
          using only [OF that] that(2) y(3) \<open>nt_childs_table ?x = Some c\<close> by auto
        then have "best_match T (members (Suc d) T base num) a (Some y)"
          unfolding best_match_def option.case using y(1,2) sub by blast
        then show ?thesis using Some by (simp del: members.simps)
      qed
      then show ?thesis using 2(1) Some r(1) by (simp del: members.simps)
    qed
  qed
qed simp

section \<open>The cache\<close>

definition cache_sized :: "networks_cache \<Rightarrow> bool" where
  "cache_sized nc \<longleftrightarrow> nc_num nc \<noteq> 0 \<and> length (nc_cache nc) = unat (nc_num nc)"

definition to_cached :: "nat option \<Rightarrow> cached" where
  "to_cached r = (case r of None \<Rightarrow> C_Dummy | Some x \<Rightarrow> C_Entry x)"

text \<open>Every cached result is the result of the search.\<close>

definition cache_right :: "nat \<Rightarrow> nets \<Rightarrow> nat \<Rightarrow> nat \<Rightarrow> networks_cache \<Rightarrow> bool" where
  "cache_right d T base num nc \<longleftrightarrow> cache_sized nc \<and>
     (\<forall>(key, res) \<in> set (nc_cache nc). res \<noteq> C_NULL \<longrightarrow>
        (\<exists>r. find_net d T base num (bswap32 key) = Inr r \<and> res = to_cached r))"

definition nc_zero :: "nat \<Rightarrow> networks_cache" where
  "nc_zero n = \<lparr>nc_cache = replicate n (0, C_NULL), nc_num = of_nat n\<rparr>"

lemma nc_zero_right: "0 < n \<Longrightarrow> n < 2 ^ 32 \<Longrightarrow> cache_right d T base num (nc_zero n)"
  by (simp add: cache_right_def cache_sized_def nc_zero_def word_unat_eq_iff unsigned_of_nat take_bit_nat_eq_self)

definition cache_put :: "networks_cache \<Rightarrow> u32 \<Rightarrow> cached \<Rightarrow> networks_cache" where
  "cache_put nc key res = nc\<lparr>nc_cache := (nc_cache nc)[unat (key mod nc_num nc) := (key, res)]\<rparr>"

lemma cache_slot_eq:
  assumes "cache_sized nc"
  shows "cache_slot nc key = Inr (unat (key mod nc_num nc))" "unat (key mod nc_num nc) < length (nc_cache nc)"
proof -
  have "unat (key mod nc_num nc) < unat (nc_num nc)"
    using assms by (simp add: unat_mod cache_sized_def unat_gt_0)
  then show "cache_slot nc key = Inr (unat (key mod nc_num nc))" "unat (key mod nc_num nc) < length (nc_cache nc)"
    using assms by (simp_all add: cache_slot_def cache_sized_def)
qed

lemma cache_ops:
  assumes "cache_sized nc"
  shows "networks_cache_insert nc key res = Inr (cache_put nc key res)"
    "networks_cache_insert (cache_put nc key res') key res = Inr (cache_put nc key res)"
    "cache_sized (cache_put nc key res)"
proof -
  have s: "cache_sized (cache_put nc key r)" for r using assms by (simp add: cache_sized_def cache_put_def)
  then show "cache_sized (cache_put nc key res)" .
  have ins: "networks_cache_insert c key r = Inr (cache_put c key r)" if "cache_sized c" for c r
    using cache_slot_eq(1) [OF that] by (simp add: networks_cache_insert_def cache_put_def)
  then show "networks_cache_insert nc key res = Inr (cache_put nc key res)" using assms by blast
  show "networks_cache_insert (cache_put nc key res') key res = Inr (cache_put nc key res)"
    using ins [OF s] by (simp add: cache_put_def)
qed

text \<open>A search that misses the cache leaves its result there, whatever a level below put in first.\<close>

lemma binsearch_miss:
  assumes "cache_sized nc" "networks_cache_search nc addr = Inr C_NULL"
  shows "hierarchy k T base num \<Longrightarrow> find_net k T base num (bswap32 addr) = Inr r \<Longrightarrow>
    binsearch k T base num nc addr = Inr (r, cache_put nc addr (to_cached r))"
proof (induction k arbitrary: base num r)
  case (Suc k)
  have b: "base + num \<le> length T" "siblings (level_entries T base num)" using Suc.prems(1) by simp_all
  from level_search [OF b, of "bswap32 addr"] show ?case
  proof cases
    case 1
    then show ?thesis
      using Suc.prems(2) assms cache_ops(1) [OF assms(1)] by (simp add: to_cached_def)
  next
    case (2 j)
    let ?x = "T ! (base + j)"
    have rd: "rd_ent T (base + j) = Inr ?x" using 2(2) b(1) by (simp add: rd_ent_def)
    show ?thesis
    proof (cases "nt_childs_table ?x")
      case None
      then have "r = Some (base + j)" using Suc.prems(2) 2(1) by simp
      then show ?thesis using 2(1) None rd assms cache_ops(1) [OF assms(1)] by (simp add: to_cached_def)
    next
      case (Some c)
      have h: "hierarchy k T c (nt_childs_num ?x)" using Suc.prems(1) 2(2) Some by (auto dest!: spec [of _ j])
      obtain r' where r': "find_net k T c (nt_childs_num ?x) (bswap32 addr) = Inr r'" "r = (if r' = None then Some (base + j) else r')"
        using Suc.prems(2) 2(1) Some by auto
      have "binsearch k T c (nt_childs_num ?x) nc addr = Inr (r', cache_put nc addr (to_cached r'))"
        using Suc.IH [OF h r'(1)] .
      then show ?thesis
        using r'(2) 2(1) rd Some assms(2) cache_ops(2) [OF assms(1)]
        by (cases r') (simp_all add: to_cached_def)
    qed
  qed
qed simp

lemma find_net_entry:
  assumes "hierarchy d T base num" "find_net d T base num a = Inr (Some x)"
  shows "network (T ! x) \<and> x < length T"
proof -
  have mem: "x \<in> members d T base num"
    using find_net_best [OF assms(1), of a] assms(2) by (auto simp: best_match_def)
  have "network (T ! x) \<and> x < length T" if "hierarchy d T base num" "x \<in> members d T base num" for d base num
    using that
  proof (induction d arbitrary: base num)
    case (Suc d)
    then obtain j where j: "j < num" "x = base + j \<or> (\<exists>c. nt_childs_table (T ! (base + j)) = Some c \<and>
        x \<in> members d T c (nt_childs_num (T ! (base + j))))"
      by (auto split: option.splits)
    then show ?case
      using Suc.IH Suc.prems(1) hierarchy_networks [OF Suc.prems(1) j(1)] by (auto dest!: spec [of _ j])
  qed simp
  then show ?thesis using assms(1) mem by blast
qed

lemma binsearch_best:
  assumes "hierarchy d T 0 num" "cache_right d T 0 num nc"
  shows "\<exists>r nc'. binsearch d T 0 num nc addr = Inr (r, nc') \<and>
     best_match T (members d T 0 num) (bswap32 addr) r \<and> cache_right d T 0 num nc'"
proof -
  let ?a = "bswap32 addr" and ?i = "unat (addr mod nc_num nc)"
  obtain r where r: "find_net d T 0 num ?a = Inr r" "best_match T (members d T 0 num) ?a r"
    using find_net_best [OF assms(1)] by blast
  have sz: "cache_sized nc" using assms(2) by (simp add: cache_right_def)
  have slot: "?i < length (nc_cache nc)" "cache_slot nc addr = Inr ?i" using cache_slot_eq [OF sz] by simp_all
  obtain d' where d: "d = Suc d'" using assms(1) by (cases d) simp_all
  obtain ret where ret: "networks_cache_search nc addr = Inr ret" using slot by (simp add: networks_cache_search_def)
  show ?thesis
  proof (cases "ret = C_NULL")
    case True
    have "cache_right d T 0 num (cache_put nc addr (to_cached r))"
      using assms(2) sz r(1) cache_ops(3) [OF sz] set_update_subset_insert [of "nc_cache nc" ?i "(addr, to_cached r)"]
      by (fastforce simp: cache_right_def cache_put_def)
    then show ?thesis using binsearch_miss [OF sz _ assms(1) r(1)] ret True r(2) by blast
  next
    case False
    then have hit: "nc_cache nc ! ?i = (addr, ret)"
      using ret slot by (auto simp: networks_cache_search_def split: if_splits intro!: prod_eqI)
    then have "(addr, ret) \<in> set (nc_cache nc)" using slot(1) nth_mem by metis
    then have res: "ret = to_cached r" using assms(2) False r(1) by (auto simp: cache_right_def)
    have "binsearch d T 0 num nc addr = Inr (r, nc)"
    proof (cases r)
      case None
      then show ?thesis using ret res d by (simp add: to_cached_def)
    next
      case (Some x)
      then have "network (T ! x)" "x < length T" using find_net_entry [OF assms(1)] r(1) by simp_all
      then show ?thesis using ret res d Some by (simp add: to_cached_def network_def)
    qed
    then show ?thesis using r(2) assms(2) by blast
  qed
qed

text \<open>\<^verbatim>\<open>binsearch\<close> on a well-formed networks table and a cache of earlier results returns, without a
  fault, the most specific network that contains the address, or NULL exactly when there is none,
  and the cache then again holds only results of the search.\<close>

theorem binsearch_most_specific:
  assumes "hierarchy d T 0 num" "cache_right d T 0 num nc"
  shows "\<exists>r nc'. binsearch d T 0 num nc addr = Inr (r, nc') \<and>
     best_match T (members d T 0 num) (bswap32 addr) r \<and> cache_right d T 0 num nc'"
  by (rule binsearch_best [OF assms])

theorem binsearch_most_specific_witness:
  "\<exists>r nc'. binsearch 2 [nt_zero\<lparr>nt_net := 0x0a000000, nt_mask := 0xff000000, nt_childs_table := Some 1, nt_childs_num := 1\<rparr>,
      nt_zero\<lparr>nt_net := 0x0a010000, nt_mask := 0xffff0000\<rparr>] 0 1 (nc_zero 3) 0x0100010a = Inr (r, nc') \<and>
    best_match [nt_zero\<lparr>nt_net := 0x0a000000, nt_mask := 0xff000000, nt_childs_table := Some 1, nt_childs_num := 1\<rparr>,
      nt_zero\<lparr>nt_net := 0x0a010000, nt_mask := 0xffff0000\<rparr>] {0, 1} 0x0a010001 r"
proof -
  let ?T = "[nt_zero\<lparr>nt_net := 0x0a000000, nt_mask := 0xff000000, nt_childs_table := Some 1, nt_childs_num := 1\<rparr>,
      nt_zero\<lparr>nt_net := 0x0a010000, nt_mask := 0xffff0000\<rparr>]"
  have m: "nt_mask_of 16 = 0xffff0000" "nt_mask_of 8 = 0xff000000" by code_simp+
  have "network (?T ! 0)" "network (?T ! 1)"
    unfolding network_def using m by (auto simp: nt_zero_def intro: exI [of _ 16] exI [of _ 8])
  then have "hierarchy (Suc (Suc 0)) ?T 0 1"
    by (simp add: level_entries_def siblings_def within_def contains_def nt_zero_def)
  then have "hierarchy 2 ?T 0 1" by (simp only: numeral_2_eq_2)
  moreover have "members (Suc (Suc 0)) ?T 0 1 = {0, 1}" by (simp add: nt_zero_def lessThan_Suc insert_commute)
  then have "members 2 ?T 0 1 = {0, 1}" by (simp only: numeral_2_eq_2)
  moreover have "bswap32 0x0100010a = 0x0a010001" by (simp add: bswap32_def put_be32_def be32_def)
  moreover have "cache_right 2 ?T 0 1 (nc_zero 3)" by (rule nc_zero_right) simp_all
  ultimately show ?thesis using binsearch_most_specific [of 2 ?T 1 "nc_zero 3" "0x0100010a"] by metis
qed

end
