(* ===== verification/Net_Build.thy ===== *)
theory Net_Build
  imports Net_Sort Net_Lookup
begin

text \<open>
  Correctness of the construction of the networks table in \<^verbatim>\<open>src/src/net_aggr.c\<close> (steps 4 and 5 of
  \<^verbatim>\<open>load_networks4\<close>): the sorted networks are the preorder of the forest of their containment, the
  computed levels and numbers of children are those of that forest, and the array it is laid
  out in is a well-formed hierarchy.
\<close>

section \<open>Forests\<close>

text \<open>A forest by first child and next sibling.\<close>

datatype forest = FNil | FCons networks_table_entry forest forest

fun fsize :: "forest \<Rightarrow> nat" where
  "fsize FNil = 0"
| "fsize (FCons e cs ss) = 1 + fsize cs + fsize ss"

fun width :: "forest \<Rightarrow> nat" where
  "width FNil = 0"
| "width (FCons e cs ss) = 1 + width ss"

text \<open>The number of nodes that are not roots.\<close>

fun fdesc :: "forest \<Rightarrow> nat" where
  "fdesc FNil = 0"
| "fdesc (FCons e cs ss) = width cs + fdesc cs + fdesc ss"

fun pre :: "forest \<Rightarrow> nets" where
  "pre FNil = []"
| "pre (FCons e cs ss) = e # pre cs @ pre ss"

fun plev :: "nat \<Rightarrow> forest \<Rightarrow> nat list" where
  "plev l FNil = []"
| "plev l (FCons e cs ss) = l # plev (l + 1) cs @ plev l ss"

fun pch :: "forest \<Rightarrow> nat list" where
  "pch FNil = []"
| "pch (FCons e cs ss) = width cs # pch cs @ pch ss"

fun roots :: "forest \<Rightarrow> nets" where
  "roots FNil = []"
| "roots (FCons e cs ss) = e # roots ss"

lemma forest_lengths [simp]:
  "length (pre f) = fsize f" "length (plev l f) = fsize f" "length (pch f) = fsize f" "length (roots f) = width f"
  by (induction f arbitrary: l) simp_all

lemma fsize_split: "fsize f = width f + fdesc f"
  by (induction f) simp_all

lemma roots_pre: "set (roots f) \<subseteq> set (pre f)"
  by (induction f) auto

section \<open>Numbers of children\<close>

lemma count_childs_below: "l \<le> j \<Longrightarrow> count_childs R j = 0 \<Longrightarrow> count_childs (plev l f @ R) j = 0"
  by (induction f arbitrary: l R) auto

lemma count_childs_skip: "l + 2 \<le> m \<Longrightarrow> count_childs (plev m f @ R) l = count_childs R l"
  by (induction f arbitrary: m R) auto

lemma count_childs_width: "count_childs R l = 0 \<Longrightarrow> count_childs (plev (l + 1) cs @ R) l = width cs"
  by (induction cs arbitrary: R) (auto simp: count_childs_skip)

fun suffix_childs :: "nat list \<Rightarrow> nat list" where
  "suffix_childs [] = []"
| "suffix_childs (x # xs) = count_childs xs x # suffix_childs xs"

lemma nets_childs_suffix: "nets_childs lev = suffix_childs lev"
proof -
  have "length (suffix_childs lev) = length lev" by (induction lev) simp_all
  moreover have "suffix_childs lev ! i = count_childs (drop (i + 1) lev) (lev ! i)" if "i < length lev" for i
    using that
  proof (induction lev arbitrary: i)
    case (Cons x xs)
    then show ?case by (cases i) simp_all
  qed simp
  ultimately show ?thesis by (intro nth_equalityI) (simp_all add: nets_childs_def)
qed

lemma suffix_childs_plev:
  "\<forall>j \<ge> l. count_childs R j = 0 \<Longrightarrow> suffix_childs (plev l f @ R) = pch f @ suffix_childs R"
proof (induction f arbitrary: l R)
  case (FCons e cs ss)
  have ss: "\<forall>j \<ge> l. count_childs (plev l ss @ R) j = 0" using FCons.prems count_childs_below by blast
  then have "suffix_childs (plev (l + 1) cs @ (plev l ss @ R)) = pch cs @ suffix_childs (plev l ss @ R)"
    by (intro FCons.IH(1)) simp
  then show ?case using FCons.IH(2) [OF FCons.prems] count_childs_width [of "plev l ss @ R" l cs] ss by simp
qed simp

lemma nets_childs_plev: "nets_childs (plev l f) = pch f"
  using suffix_childs_plev [of l "[]" f] by (simp add: nets_childs_suffix)

lemma filter_plev: "filter (\<lambda>x. x = l) (plev l f) = replicate (width f) l"
proof -
  have none: "filter (\<lambda>x. x = l) (plev m f) = []" if "l < m" for m f
    using that by (induction f arbitrary: m) auto
  show ?thesis by (induction f) (simp_all add: none)
qed

section \<open>Layout\<close>

text \<open>The forest \<open>f\<close> lies in the array from \<open>p\<close> on, the child tables of its nodes between \<open>lo\<close> and \<open>hi\<close>.\<close>

fun laid :: "nets \<Rightarrow> nat \<Rightarrow> nat \<Rightarrow> nat \<Rightarrow> forest \<Rightarrow> bool" where
  "laid T lo hi p FNil = True"
| "laid T lo hi p (FCons e cs ss) \<longleftrightarrow> p < length T \<and>
     (if cs = FNil then T ! p = e
      else let b = the (nt_childs_table (T ! p)) in
        lo \<le> b \<and> b + width cs \<le> hi \<and> b + width cs \<le> length T \<and>
        T ! p = e\<lparr>nt_childs_table := Some b, nt_childs_num := width cs\<rparr> \<and> laid T lo hi b cs) \<and>
     laid T lo hi (p + 1) ss"

lemma laid_frame:
  assumes "laid T lo hi p f" "length T' = length T"
    "\<And>q. p \<le> q \<Longrightarrow> q < p + width f \<Longrightarrow> T' ! q = T ! q" "\<And>q. lo \<le> q \<Longrightarrow> q < hi \<Longrightarrow> T' ! q = T ! q"
  shows "laid T' lo hi p f"
  using assms(1,3)
proof (induction f arbitrary: p)
  case (FCons e cs ss)
  have "laid T' lo hi (p + 1) ss" using FCons.prems by (intro FCons.IH(2)) simp_all
  moreover have "laid T' lo hi b cs" if "laid T lo hi b cs" "lo \<le> b" "b + width cs \<le> hi" for b
    using that assms(4) by (intro FCons.IH(1)) simp_all
  moreover have "T' ! p = T ! p" using FCons.prems(2) by simp
  ultimately show ?case using FCons.prems(1) assms(2) by (auto simp: Let_def)
qed simp

lemma laid_mono: "laid T lo hi p f \<Longrightarrow> lo' \<le> lo \<Longrightarrow> hi \<le> hi' \<Longrightarrow> laid T lo' hi' p f"
proof (induction f arbitrary: p)
  case (FCons e cs ss)
  then show ?case by (auto simp: Let_def split: if_splits)
qed simp

section \<open>The loop that builds the table\<close>

text \<open>The forest \<open>f\<close>, with its roots at level \<open>l\<close>, is what the sorted table and its metadata hold from
  index \<open>i\<close> on.\<close>

fun stored :: "nets \<Rightarrow> nat list \<Rightarrow> nat list \<Rightarrow> nat \<Rightarrow> nat \<Rightarrow> forest \<Rightarrow> bool" where
  "stored T lev ch i l FNil = True"
| "stored T lev ch i l (FCons e cs ss) \<longleftrightarrow> T ! i = e \<and> lev ! i = l \<and> ch ! i = width cs \<and>
     stored T lev ch (i + 1) (l + 1) cs \<and> stored T lev ch (i + 1 + fsize cs) l ss"

lemma stored_append:
  "length xs = i \<Longrightarrow> length xl = i \<Longrightarrow> length xc = i \<Longrightarrow>
   stored (xs @ pre f @ ys) (xl @ plev l f @ yl) (xc @ pch f @ yc) i l f"
proof (induction f arbitrary: i l xs xl xc ys yl yc)
  case (FCons e cs ss)
  have "stored ((xs @ [e]) @ pre cs @ (pre ss @ ys)) ((xl @ [l]) @ plev (l + 1) cs @ (plev l ss @ yl))
      ((xc @ [width cs]) @ pch cs @ (pch ss @ yc)) (i + 1) (l + 1) cs"
    using FCons.prems by (intro FCons.IH(1)) simp_all
  moreover have "stored ((xs @ e # pre cs) @ pre ss @ ys) ((xl @ l # plev (l + 1) cs) @ plev l ss @ yl)
      ((xc @ width cs # pch cs) @ pch ss @ yc) (i + 1 + fsize cs) l ss"
    using FCons.prems by (intro FCons.IH(2)) simp_all
  ultimately show ?case using FCons.prems by (simp add: nth_append)
qed simp

lemma build_loop_add:
  "build_loop T lev ch i (a + b) st = rbind (build_loop T lev ch i a st) (\<lambda>st'. build_loop T lev ch (i + a) b st')"
proof (induction a arbitrary: i st)
  case (Suc a)
  show ?case by (cases "build_step T lev ch i st") (simp_all add: Suc)
qed simp

text \<open>The state after the forest \<open>f\<close> has been placed from \<open>p\<close> on, with its child tables from \<open>nx\<close> on, when the
  last entry had level \<open>l'\<close>.\<close>

definition placed :: "build_state \<Rightarrow> build_state \<Rightarrow> nat \<Rightarrow> nat \<Rightarrow> nat \<Rightarrow> nat \<Rightarrow> forest \<Rightarrow> bool" where
  "placed st st' p nx l l' f \<longleftrightarrow>
     length (b_table st') = length (b_table st) \<and> length (b_prev st') = 128 \<and>
     laid (b_table st') nx (nx + fdesc f) p f \<and> b_next st' = nx + fdesc f \<and>
     (\<forall>q. (q < p \<or> p + width f \<le> q) \<and> (q < nx \<or> nx + fdesc f \<le> q) \<longrightarrow> b_table st' ! q = b_table st ! q) \<and>
     (\<forall>j < l. b_prev st' ! j = b_prev st ! j) \<and>
     (l' = l \<and> b_current st' = p + width f - 1 \<or> l < l' \<and> b_prev st' ! l = p + width f - 1)"

lemma placedI:
  assumes "length (b_table st') = length (b_table st)" "length (b_prev st') = 128"
    "laid (b_table st') nx (nx + fdesc f) p f" "b_next st' = nx + fdesc f"
    "\<And>q. q < p \<or> p + width f \<le> q \<Longrightarrow> q < nx \<or> nx + fdesc f \<le> q \<Longrightarrow> b_table st' ! q = b_table st ! q"
    "\<And>j. j < l \<Longrightarrow> b_prev st' ! j = b_prev st ! j"
    "l' = l \<and> b_current st' = p + width f - 1 \<or> l < l' \<and> b_prev st' ! l = p + width f - 1"
  shows "placed st st' p nx l l' f"
  using assms unfolding placed_def by blast

lemma placedD:
  assumes "placed st st' p nx l l' f"
  shows "length (b_table st') = length (b_table st)" "length (b_prev st') = 128"
    "laid (b_table st') nx (nx + fdesc f) p f" "b_next st' = nx + fdesc f"
    "q < p \<or> p + width f \<le> q \<Longrightarrow> q < nx \<or> nx + fdesc f \<le> q \<Longrightarrow> b_table st' ! q = b_table st ! q"
    "j < l \<Longrightarrow> b_prev st' ! j = b_prev st ! j"
    "l' = l \<and> b_current st' = p + width f - 1 \<or> l < l' \<and> b_prev st' ! l = p + width f - 1"
  using assms unfolding placed_def by blast+

lemma build_childs:
  assumes IH: "cs \<noteq> FNil \<Longrightarrow> \<exists>st'. build_loop T lev ch (i + 2) (fsize cs - 1)
        \<lparr>b_table = (b_table st)[p := e\<lparr>nt_childs_table := Some nx, nt_childs_num := width cs\<rparr>, nx := hd (pre cs)],
         b_current = nx, b_next = nx + width cs, b_prev = (b_prev st)[l := p]\<rparr> = Inr st' \<and>
      placed \<lparr>b_table = (b_table st)[p := e\<lparr>nt_childs_table := Some nx, nt_childs_num := width cs\<rparr>, nx := hd (pre cs)],
         b_current = nx, b_next = nx + width cs, b_prev = (b_prev st)[l := p]\<rparr> st' nx (nx + width cs) (l + 1)
        (lev ! (i + fsize cs)) cs"
    and at: "stored T lev ch i l (FCons e cs FNil)"
    and st: "b_current st = p" "b_next st = nx" "b_table st ! p = e" "p < nx" "nx + width cs + fdesc cs \<le> length (b_table st)"
      "length (b_prev st) = 128" "l < 128" "p < length (b_table st)"
  shows "\<exists>st'. build_loop T lev ch (i + 1) (fsize cs) st = Inr st' \<and>
     placed st st' p nx l (lev ! (i + fsize cs)) (FCons e cs FNil)"
proof (cases cs)
  case FNil
  then show ?thesis using at st by (simp add: placed_def)
next
  case (FCons e1 c1 s1)
  let ?e = "e\<lparr>nt_childs_table := Some nx, nt_childs_num := width cs\<rparr>"
  let ?st0 = "\<lparr>b_table = (b_table st)[p := ?e, nx := hd (pre cs)],
         b_current = nx, b_next = nx + width cs, b_prev = (b_prev st)[l := p]\<rparr>"
  have ne: "cs \<noteq> FNil" using FCons by simp
  obtain st' where run: "build_loop T lev ch (i + 2) (fsize cs - 1) ?st0 = Inr st'"
      and pl: "placed ?st0 st' nx (nx + width cs) (l + 1) (lev ! (i + fsize cs)) cs"
    using IH FCons by auto
  have nxl: "nx < length (b_table st)" using st(5) FCons by simp
  have lv: "lev ! i = l" "lev ! (i + 1) = l + 1" "ch ! i = width cs" "T ! (i + 1) = hd (pre cs)"
    using at FCons by simp_all
  have "build_step T lev ch (i + 1) st = Inr ?st0"
    using lv st nxl by (simp add: build_step_def rd_ent_def wr_ent_def)
  then have loop: "build_loop T lev ch (i + 1) (fsize cs) st = Inr st'"
    using run FCons by simp
  have len: "length (b_table st') = length (b_table st)" using pl by (simp add: placed_def)
  have Tp: "b_table st' ! p = ?e" using pl st(4,8) by (simp add: placed_def)
  have "laid (b_table st') (nx + width cs) (nx + width cs + fdesc cs) nx cs" using pl by (simp add: placed_def)
  then have laid: "laid (b_table st') nx (nx + (width cs + fdesc cs)) nx cs" by (rule laid_mono) simp_all
  have "laid (b_table st') nx (nx + fdesc (FCons e cs FNil)) p (FCons e cs FNil)"
    using laid Tp st(5,8) len ne by (simp add: Let_def)
  moreover have "b_table st' ! q = b_table st ! q"
    if "q < p \<or> p + width (FCons e cs FNil) \<le> q" "q < nx \<or> nx + fdesc (FCons e cs FNil) \<le> q" for q
    using placedD(5) [OF pl, of q] that FCons by auto
  moreover have "l < lev ! (i + fsize cs)" using placedD(7) [OF pl] by auto
  moreover have "b_prev st' ! l = p" using placedD(6) [OF pl, of l] st(6,7) by simp
  moreover have "b_prev st' ! j = b_prev st ! j" if "j < l" for j using placedD(6) [OF pl, of j] that by simp
  moreover have "b_next st' = nx + fdesc (FCons e cs FNil)" using placedD(4) [OF pl] by simp
  ultimately have "placed st st' p nx l (lev ! (i + fsize cs)) (FCons e cs FNil)"
    using placedD(2) [OF pl] len by (intro placedI) (simp_all del: laid.simps)
  then show ?thesis using loop by blast
qed

lemma build_forest:
  assumes "stored T lev ch i l f" "f \<noteq> FNil" "b_current st = p" "b_next st = nx" "b_table st ! p = hd (pre f)"
    "p + width f \<le> nx" "nx + fdesc f \<le> length (b_table st)" "length (b_prev st) = 128" "\<forall>x \<in> set (plev l f). x < 128"
  shows "\<exists>st'. build_loop T lev ch (i + 1) (fsize f - 1) st = Inr st' \<and> placed st st' p nx l (lev ! (i + fsize f - 1)) f"
  using assms
proof (induction f arbitrary: i l st p nx)
  case (FCons e cs ss)
  have at: "stored T lev ch i l (FCons e cs FNil)" "stored T lev ch (i + 1 + fsize cs) l ss" using FCons.prems(1) by simp_all
  have p: "p < nx" "p < length (b_table st)" using FCons.prems(6,7) by simp_all
  have l: "l < 128" using FCons.prems(9) by simp
  obtain st1 where run1: "build_loop T lev ch (i + 1) (fsize cs) st = Inr st1"
      and pl1: "placed st st1 p nx l (lev ! (i + fsize cs)) (FCons e cs FNil)"
  proof -
    have "\<exists>st'. build_loop T lev ch (i + 1) (fsize cs) st = Inr st' \<and>
        placed st st' p nx l (lev ! (i + fsize cs)) (FCons e cs FNil)"
    proof (rule build_childs [OF _ at(1)])
      assume ne: "cs \<noteq> FNil"
      let ?st0 = "\<lparr>b_table = (b_table st)[p := e\<lparr>nt_childs_table := Some nx, nt_childs_num := width cs\<rparr>, nx := hd (pre cs)],
         b_current = nx, b_next = nx + width cs, b_prev = (b_prev st)[l := p]\<rparr>"
      have nx: "nx < length (b_table st)" using FCons.prems(7) ne by (cases cs) simp_all
      have "\<exists>st'. build_loop T lev ch (i + 1 + 1) (fsize cs - 1) ?st0 = Inr st' \<and>
          placed ?st0 st' nx (nx + width cs) (l + 1) (lev ! (i + 1 + fsize cs - 1)) cs"
        using FCons.prems ne nx by (intro FCons.IH(1)) simp_all
      then show "\<exists>st'. build_loop T lev ch (i + 2) (fsize cs - 1) ?st0 = Inr st' \<and>
          placed ?st0 st' nx (nx + width cs) (l + 1) (lev ! (i + fsize cs)) cs"
        by (simp add: numeral_2_eq_2)
    qed (use FCons.prems p l in simp_all)
    then show ?thesis using that by blast
  qed
  show ?case
  proof (cases ss)
    case FNil
    then show ?thesis using run1 pl1 by auto
  next
    case (FCons e2 c2 s2)
    let ?j = "i + 1 + fsize cs"
    let ?nx1 = "nx + width cs + fdesc cs"
    have st1: "length (b_table st1) = length (b_table st)" "length (b_prev st1) = 128" "b_next st1 = ?nx1"
      using pl1 by (simp_all add: placed_def)
    have lv: "lev ! ?j = l" "T ! ?j = e2" "?j - 1 = i + fsize cs" using at(2) FCons by simp_all
    define st2 where "st2 = st1\<lparr>b_table := (b_table st1)[p + 1 := e2], b_current := p + 1\<rparr>"
    have p1: "p + 1 < length (b_table st)" using FCons.prems(6,7) FCons by simp
    have step: "build_step T lev ch ?j st1 = Inr st2"
      using pl1 lv p1 st1 l by (auto simp: placed_def build_step_def wr_ent_def st2_def)
    have "\<exists>st'. build_loop T lev ch (?j + 1) (fsize ss - 1) st2 = Inr st' \<and>
        placed st2 st' (p + 1) ?nx1 l (lev ! (?j + fsize ss - 1)) ss"
      using FCons.prems at(2) FCons st1 p1 by (intro FCons.IH(2)) (simp_all add: st2_def)
    then obtain st3 where run3: "build_loop T lev ch (?j + 1) (fsize ss - 1) st2 = Inr st3"
        and pl3: "placed st2 st3 (p + 1) ?nx1 l (lev ! (?j + fsize ss - 1)) ss" by blast
    have "build_loop T lev ch ?j (fsize ss) st1 = Inr st3" using step run3 FCons by simp
    then have "build_loop T lev ch (i + 1) (fsize cs + fsize ss) st = Inr st3"
      using run1 by (simp add: build_loop_add)
    moreover have "placed st st3 p nx l (lev ! (i + fsize (FCons e cs ss) - 1)) (FCons e cs ss)"
    proof -
      have same: "b_table st3 ! q = b_table st1 ! q" if "q \<le> p \<or> p + 1 + width ss \<le> q" "q < ?nx1" for q
        using pl3 that FCons by (auto simp: placed_def st2_def)
      have len3: "length (b_table st3) = length (b_table st)" using pl3 st1 by (simp add: placed_def st2_def)
      have eq: "nx + fdesc (FCons e cs FNil) = ?nx1" by simp
      have "laid (b_table st1) nx ?nx1 p (FCons e cs FNil)" using pl1 unfolding placed_def eq by blast
      then have "laid (b_table st3) nx ?nx1 p (FCons e cs FNil)"
        using len3 st1 same FCons.prems(6) by (elim laid_frame) auto
      then have lay1: "laid (b_table st3) nx (?nx1 + fdesc ss) p (FCons e cs FNil)" by (rule laid_mono) simp_all
      have "laid (b_table st3) ?nx1 (?nx1 + fdesc ss) (p + 1) ss" using pl3 by (simp add: placed_def)
      then have lay2: "laid (b_table st3) nx (?nx1 + fdesc ss) (p + 1) ss" by (rule laid_mono) simp_all
      have "laid (b_table st3) nx (nx + fdesc (FCons e cs ss)) p (FCons e cs ss)"
        using lay1 lay2 by (auto simp: Let_def add.assoc)
      moreover have "b_table st3 ! q = b_table st ! q"
        if "q < p \<or> p + width (FCons e cs ss) \<le> q" "q < nx \<or> nx + fdesc (FCons e cs ss) \<le> q" for q
        using placedD(5) [OF pl1, of q] placedD(5) [OF pl3, of q] that FCons by (auto simp: st2_def)
      moreover have "b_prev st3 ! j = b_prev st ! j" if "j < l" for j
        using placedD(6) [OF pl1 that] placedD(6) [OF pl3 that] by (simp add: st2_def)
      ultimately show ?thesis
        using len3 placedD(2,4,7) [OF pl3] by (intro placedI) (simp_all add: add.assoc del: laid.simps)
    qed
    ultimately show ?thesis by auto
  qed
qed simp

end
