(* ===== verification/Net_Load.thy ===== *)
theory Net_Load
  imports Net_Build
begin

text \<open>
  The networks table of \<^verbatim>\<open>src/src/net_aggr.c\<close> from the rows of the file to the lookup: loading rows builds a
  table in which every lookup returns the most specific row that contains the address.
\<close>

section \<open>Sorted networks\<close>

definition sorted_nets :: "nets \<Rightarrow> bool" where
  "sorted_nets T \<longleftrightarrow> (\<forall>e \<in> set T. network e) \<and> sorted (map nkey T)"

lemma sorted_nets_Nil: "sorted_nets []"
  by (simp add: sorted_nets_def)

lemma sorted_nets_Cons:
  "sorted_nets (e # T) \<longleftrightarrow> network e \<and> (\<forall>x \<in> set T. nkey e \<le> nkey x) \<and> sorted_nets T"
  by (auto simp: sorted_nets_def)

lemma sorted_nets_append:
  "sorted_nets (xs @ ys) \<longleftrightarrow> sorted_nets xs \<and> sorted_nets ys \<and> (\<forall>x \<in> set xs. \<forall>y \<in> set ys. nkey x \<le> nkey y)"
  by (auto simp: sorted_nets_def sorted_append)

lemma nkey_net: "nkey x \<le> nkey y \<Longrightarrow> unat (nt_net x) \<le> unat (nt_net y)"
  by (auto simp: nkey_le word_less_nat_alt)

text \<open>A later network that starts in an earlier one lies within it.\<close>

lemma later_within:
  assumes "network e" "network x" "nkey e \<le> nkey x" "contains e (nt_net x)"
  shows "within x e"
proof (rule ccontr)
  assume "\<not> within x e"
  then have lt: "nsize e < nsize x" using assms(4) by (simp add: within_def nsize_mask)
  obtain k where k: "nsize x = 2 ^ k" using network_nsize [OF assms(2)] by blast
  obtain l where l: "nsize e = 2 ^ l" using network_nsize [OF assms(1)] by blast
  have "nsize e dvd nsize x" using lt unfolding k l by (simp add: le_imp_power_dvd)
  then have dx: "nsize e dvd unat (nt_net x)" using network_interval(2) [OF assms(2)] by (rule dvd_trans)
  have iv: "unat (nt_net e) \<le> unat (nt_net x)" "unat (nt_net x) < unat (nt_net e) + nsize e"
    using assms(4) network_interval(4) [OF assms(1)] by simp_all
  have "nsize e dvd unat (nt_net x) - unat (nt_net e)"
    using dx network_interval(2) [OF assms(1)] by (rule dvd_diff_nat)
  then have "unat (nt_net x) - unat (nt_net e) = 0" using iv by (metis dvd_imp_le less_diff_conv2 not_less add.commute neq0_conv)
  then have "nt_net x = nt_net e" using iv(1) by (simp add: word_unat_eq_iff)
  then have "nt_mask e \<le> nt_mask x" using assms(3) by (simp add: nkey_le)
  then show False using lt by (simp add: nsize_mask)
qed

lemma contains_convex:
  assumes "network e" "nkey e \<le> nkey y" "nkey y \<le> nkey z" "contains e (nt_net z)"
  shows "contains e (nt_net y)"
  using assms nkey_net [OF assms(2)] nkey_net [OF assms(3)] by (simp add: network_interval(4))

section \<open>The forest of containment\<close>

function mkf :: "nets \<Rightarrow> forest" where
  "mkf [] = FNil"
| "mkf (e # xs) = FCons e (mkf (takeWhile (\<lambda>x. contains e (nt_net x)) xs)) (mkf (dropWhile (\<lambda>x. contains e (nt_net x)) xs))"
  by pat_completeness auto
termination
  by (relation "measure length") (simp_all add: length_takeWhile_le length_dropWhile_le less_Suc_eq_le)

lemma pre_mkf [simp]: "pre (mkf xs) = xs"
  by (induction xs rule: mkf.induct) simp_all

lemma dropWhile_outside:
  assumes "sorted_nets (e # xs)" "z \<in> set (dropWhile (\<lambda>x. contains e (nt_net x)) xs)"
  shows "\<not> contains e (nt_net z)"
proof -
  define zs where "zs = dropWhile (\<lambda>x. contains e (nt_net x)) xs"
  have z: "z \<in> set zs" using assms(2) by (simp add: zs_def)
  then have "zs \<noteq> []" by auto
  then obtain h t where h: "zs = h # t" by (cases zs) simp_all
  have "\<not> contains e (nt_net h)" using h hd_dropWhile [of "\<lambda>x. contains e (nt_net x)" xs] by (simp add: zs_def)
  moreover have "sorted_nets zs"
    using assms(1) sorted_nets_append [of "takeWhile (\<lambda>x. contains e (nt_net x)) xs" zs]
    by (simp add: sorted_nets_Cons zs_def)
  moreover have "h \<in> set xs" using set_dropWhileD [of h "\<lambda>x. contains e (nt_net x)" xs] h by (simp add: zs_def)
  ultimately show ?thesis
    using assms(1) z h contains_convex [of e h z] by (auto simp: sorted_nets_Cons)
qed

fun wf_forest :: "forest \<Rightarrow> bool" where
  "wf_forest FNil = True"
| "wf_forest (FCons e cs ss) \<longleftrightarrow> network e \<and> wf_forest cs \<and> wf_forest ss \<and> (\<forall>x \<in> set (roots cs). within x e) \<and>
     (\<forall>y \<in> set (roots ss). nt_net e < nt_net y \<and> \<not> contains e (nt_net y))"

lemma sorted_nets_split:
  assumes "sorted_nets (e # xs)"
  shows "sorted_nets (takeWhile P xs)" "sorted_nets (dropWhile P xs)"
  using assms sorted_nets_append [of "takeWhile P xs" "dropWhile P xs"] by (simp_all add: sorted_nets_Cons)

lemma wf_mkf: "sorted_nets xs \<Longrightarrow> wf_forest (mkf xs)"
proof (induction xs rule: mkf.induct)
  case (2 e xs)
  let ?P = "\<lambda>x. contains e (nt_net x)"
  have e: "network e" "\<And>x. x \<in> set xs \<Longrightarrow> nkey e \<le> nkey x \<and> network x"
    using "2.prems" by (auto simp: sorted_nets_Cons sorted_nets_def)
  have "within x e" if "x \<in> set (roots (mkf (takeWhile ?P xs)))" for x
  proof -
    have "x \<in> set (takeWhile ?P xs)" using that roots_pre [of "mkf (takeWhile ?P xs)"] by auto
    then have "x \<in> set xs" "contains e (nt_net x)" using set_takeWhileD by fastforce+
    then show ?thesis using later_within e by blast
  qed
  moreover have "nt_net e < nt_net y \<and> \<not> contains e (nt_net y)" if "y \<in> set (roots (mkf (dropWhile ?P xs)))" for y
  proof -
    have y: "y \<in> set (dropWhile ?P xs)" using that roots_pre [of "mkf (dropWhile ?P xs)"] by auto
    have out: "\<not> contains e (nt_net y)" by (rule dropWhile_outside [OF "2.prems" y])
    have ne: "nt_net e \<noteq> nt_net y" using out contains_net [OF e(1)] by metis
    have "nkey e \<le> nkey y" using e(2) [OF set_dropWhileD [OF y]] by simp
    then have "nt_net e \<le> nt_net y" using nkey_net by (simp add: word_le_nat_alt)
    then show ?thesis using ne out by simp
  qed
  moreover have "wf_forest (mkf (takeWhile ?P xs))" "wf_forest (mkf (dropWhile ?P xs))"
    using "2.IH" sorted_nets_split [OF "2.prems"] by blast+
  ultimately show ?case using e(1) unfolding mkf.simps wf_forest.simps by blast
qed simp

section \<open>Levels\<close>

text \<open>The number of earlier networks that contain a network.\<close>

fun lv :: "nets \<Rightarrow> nets \<Rightarrow> nat list" where
  "lv seen [] = []"
| "lv seen (x # xs) = length (filter (\<lambda>s. contains s (nt_net x)) seen) # lv (seen @ [x]) xs"

lemma length_lv [simp]: "length (lv seen xs) = length xs"
  by (induction xs arbitrary: seen) simp_all

lemma lv_append: "lv seen (xs @ ys) = lv seen xs @ lv (seen @ xs) ys"
  by (induction xs arbitrary: seen) simp_all

lemma lv_nth: "k < length xs \<Longrightarrow> lv seen xs ! k = length (filter (\<lambda>s. contains s (nt_net (xs ! k))) (seen @ take k xs))"
proof (induction xs arbitrary: seen k)
  case (Cons x xs)
  then show ?case by (cases k) simp_all
qed simp

lemma lv_mkf:
  "sorted_nets xs \<Longrightarrow> \<forall>x \<in> set xs. length (filter (\<lambda>s. contains s (nt_net x)) seen) = l \<Longrightarrow> lv seen xs = plev l (mkf xs)"
proof (induction xs arbitrary: seen l rule: mkf.induct)
  case (2 e xs)
  let ?P = "\<lambda>x. contains e (nt_net x)"
  let ?ys = "takeWhile ?P xs" and ?zs = "dropWhile ?P xs"
  have e: "network e" "\<And>x. x \<in> set xs \<Longrightarrow> nkey e \<le> nkey x \<and> network x"
    using "2.prems" by (auto simp: sorted_nets_Cons sorted_nets_def)
  have ys: "lv (seen @ [e]) ?ys = plev (l + 1) (mkf ?ys)"
    using "2.prems" sorted_nets_split [OF "2.prems"(1)] by (intro "2.IH"(1)) (auto dest: set_takeWhileD)
  have none: "filter (\<lambda>s. contains s (nt_net z)) (e # ?ys) = []" if z: "z \<in> set ?zs" for z
  proof -
    have out: "\<not> contains e (nt_net z)" using dropWhile_outside [OF "2.prems"(1) z] .
    moreover have "\<not> contains y (nt_net z)" if y: "y \<in> set ?ys" for y
    proof
      assume yz: "contains y (nt_net z)"
      have y': "y \<in> set xs" "contains e (nt_net y)" using y set_takeWhileD by fastforce+
      then have "within y e" using e by (intro later_within) auto
      then have "contains e (nt_net z)" using within_contains [of y e "nt_net z"] e y' yz by blast
      then show False using out by blast
    qed
    ultimately show ?thesis by simp
  qed
  have zs: "lv (seen @ e # ?ys) ?zs = plev l (mkf ?zs)"
    using "2.prems" sorted_nets_split [OF "2.prems"(1)] none by (intro "2.IH"(2)) (auto dest: set_dropWhileD)
  have "lv (seen @ [e]) xs = lv (seen @ [e]) ?ys @ lv (seen @ e # ?ys) ?zs"
    using lv_append [of "seen @ [e]" ?ys ?zs] by simp
  then show ?case using "2.prems"(2) ys zs by simp
qed simp

lemma levels_inner_nth:
  assumes "x + k = length T" "length lev = length T"
    "\<forall>i j. x \<le> i \<longrightarrow> i \<le> j \<longrightarrow> j < length T \<longrightarrow> contains e (nt_net (T ! j)) \<longrightarrow> contains e (nt_net (T ! i))"
  shows "length (levels_inner T e x k lev) = length T \<and>
    (\<forall>i < length T. levels_inner T e x k lev ! i = lev ! i + of_bool (x \<le> i \<and> contains e (nt_net (T ! i))))"
  using assms
proof (induction k arbitrary: x lev)
  case (Suc k)
  show ?case
  proof (cases "contains e (nt_net (T ! x))")
    case True
    let ?lev = "lev[x := lev ! x + 1]"
    have "length (levels_inner T e (x + 1) k ?lev) = length T \<and>
        (\<forall>i < length T. levels_inner T e (x + 1) k ?lev ! i = ?lev ! i + of_bool (x + 1 \<le> i \<and> contains e (nt_net (T ! i))))"
      using Suc.prems by (intro Suc.IH) simp_all
    then show ?thesis using True Suc.prems(1,2) by (auto simp: contains_def nth_list_update)
  next
    case False
    then have "\<not> contains e (nt_net (T ! i))" if "x \<le> i" "i < length T" for i
      using Suc.prems(3) that by blast
    then show ?thesis using False Suc.prems(2) by (auto simp: contains_def)
  qed
qed auto

lemma sorted_nets_nth:
  assumes "sorted_nets T" "i \<le> j" "j < length T"
  shows "nkey (T ! i) \<le> nkey (T ! j)" "network (T ! i)" "network (T ! j)"
  using assms sorted_nth_mono [of "map nkey T" i j] by (auto simp: sorted_nets_def)

lemma levels_outer_nth:
  assumes "sorted_nets T" "index + k < length T" "length lev = length T"
  shows "length (levels_outer T index k lev) = length T \<and>
    (\<forall>i < length T. levels_outer T index k lev ! i =
       lev ! i + length (filter (\<lambda>j. j < i \<and> contains (T ! j) (nt_net (T ! i))) [index..<index + k]))"
  using assms(2,3)
proof (induction k arbitrary: index lev)
  case (Suc k)
  let ?e = "T ! index"
  let ?lev = "levels_inner T ?e (index + 1) (length T - (index + 1)) lev"
  have conv: "\<forall>i j. index + 1 \<le> i \<longrightarrow> i \<le> j \<longrightarrow> j < length T \<longrightarrow> contains ?e (nt_net (T ! j)) \<longrightarrow> contains ?e (nt_net (T ! i))"
  proof (intro allI impI)
    fix i j assume "index + 1 \<le> i" "i \<le> j" "j < length T" "contains ?e (nt_net (T ! j))"
    then show "contains ?e (nt_net (T ! i))"
      using sorted_nets_nth [OF assms(1), of index i] sorted_nets_nth(1) [OF assms(1), of i j]
      by (intro contains_convex [of ?e "T ! i" "T ! j"]) auto
  qed
  have inner: "length ?lev = length T \<and>
      (\<forall>i < length T. ?lev ! i = lev ! i + of_bool (index + 1 \<le> i \<and> contains ?e (nt_net (T ! i))))"
    using Suc.prems by (intro levels_inner_nth conv) simp_all
  have outer: "length (levels_outer T (index + 1) k ?lev) = length T \<and>
     (\<forall>i < length T. levels_outer T (index + 1) k ?lev ! i =
       ?lev ! i + length (filter (\<lambda>j. j < i \<and> contains (T ! j) (nt_net (T ! i))) [index + 1..<index + 1 + k]))"
    using Suc.prems inner by (intro Suc.IH) simp_all
  show ?case using inner outer by (auto simp: upt_conv_Cons simp del: upt_Suc)
qed simp

lemma nets_levels_lv:
  assumes "sorted_nets T" "T \<noteq> []"
  shows "nets_levels T = lv [] T"
proof (rule nth_equalityI)
  have *: "length (nets_levels T) = length T \<and>
    (\<forall>i < length T. nets_levels T ! i = replicate (length T) 0 ! i +
       length (filter (\<lambda>j. j < i \<and> contains (T ! j) (nt_net (T ! i))) [0..<0 + (length T - 1)]))"
    unfolding nets_levels_def using assms by (intro levels_outer_nth) simp_all
  then show "length (nets_levels T) = length (lv [] T)" by simp
  fix i assume "i < length (nets_levels T)"
  then have i: "i < length T" using * by simp
  have "filter (\<lambda>j. j < i \<and> contains (T ! j) (nt_net (T ! i))) [0..<length T - 1] =
      filter (\<lambda>j. contains (T ! j) (nt_net (T ! i))) (filter (\<lambda>j. j < i) [0..<length T - 1])"
    by (simp add: conj_commute)
  also have "filter (\<lambda>j. j < i) [0..<length T - 1] = [0..<i]"
    using i upt_add_eq_append [of 0 i "length T - 1 - i"] by simp
  finally have "length (filter (\<lambda>j. j < i \<and> contains (T ! j) (nt_net (T ! i))) [0..<length T - 1]) =
      length (filter (\<lambda>s. contains s (nt_net (T ! i))) (map ((!) T) [0..<i]))"
    by (simp add: filter_map comp_def)
  also have "map ((!) T) [0..<i] = take i T" using i by (intro nth_equalityI) simp_all
  finally show "nets_levels T ! i = lv [] T ! i" using * i by (simp add: lv_nth)
qed

section \<open>The number of levels\<close>

lemma chain_short:
  assumes "\<forall>e \<in> set xs. network e \<and> contains e a" "distinct (map nkey xs)"
  shows "length xs \<le> 33"
proof -
  have "inj_on nsize (set xs)"
  proof (rule inj_onI)
    fix d e assume de: "d \<in> set xs" "e \<in> set xs" "nsize d = nsize e"
    then have "nt_mask d = nt_mask e" using nsize_mask [of d e] nsize_mask [of e d] by simp
    then have "nkey d = nkey e" using assms(1) de by (simp add: nkey_def contains_def) metis
    then show "d = e" using assms(2) de by (simp add: distinct_map inj_on_def)
  qed
  moreover have "distinct xs" using assms(2) by (simp add: distinct_map)
  ultimately have "length xs = card (nsize ` set xs)" by (simp add: card_image distinct_card)
  also have "\<dots> \<le> card ((\<lambda>k. 2 ^ k :: nat) ` {..32})"
  proof (rule card_mono)
    show "nsize ` set xs \<subseteq> (\<lambda>k. 2 ^ k) ` {..32}" using assms(1) by (auto elim!: network_nsize)
  qed simp
  also have "\<dots> \<le> 33" using card_image_le [of "{..32 :: nat}" "\<lambda>k. 2 ^ k :: nat"] by simp
  finally show ?thesis .
qed

lemma levels_short:
  assumes "sorted_nets T" "distinct (map nkey T)" "x \<in> set (lv [] T)"
  shows "x < 33"
proof -
  obtain i where i: "i < length T" "x = lv [] T ! i" using assms(3) by (auto simp: in_set_conv_nth)
  let ?P = "\<lambda>s. contains s (nt_net (T ! i))"
  have pre: "take (Suc i) T = take i T @ [T ! i]" using i by (simp add: take_Suc_conv_app_nth)
  have net: "\<forall>e \<in> set T. network e" using assms(1) by (simp add: sorted_nets_def)
  have "distinct (map nkey (filter ?P (take (Suc i) T)))"
    using assms(2) by (simp add: distinct_map_filter take_map [symmetric] distinct_take)
  then have "length (filter ?P (take (Suc i) T)) \<le> 33"
    using net by (intro chain_short [of _ "nt_net (T ! i)"]) (auto dest: in_set_takeD)
  moreover have "?P (T ! i)" using contains_net net i(1) by simp
  ultimately show ?thesis using i by (simp add: pre lv_nth)
qed

section \<open>The table as a hierarchy\<close>

text \<open>An entry without its child table; the entries read from the file have none.\<close>

definition strip :: "networks_table_entry \<Rightarrow> networks_table_entry" where
  "strip e = e\<lparr>nt_childs_table := None, nt_childs_num := 0\<rparr>"

lemma strip_simps [simp]:
  "nt_net (strip e) = nt_net e" "nt_mask (strip e) = nt_mask e" "contains (strip e) a = contains e a"
  "network (strip e) = network e" "within (strip x) e = within x e" "within x (strip e) = within x e"
  "strip (e\<lparr>nt_childs_table := c, nt_childs_num := n\<rparr>) = strip e" "strip (strip e) = strip e"
  by (simp_all add: strip_def contains_def network_def within_def)

lemma siblings_strip: "siblings (map strip es) = siblings es"
  by (auto simp: siblings_def)

lemma siblings_Cons:
  "siblings (e # es) \<longleftrightarrow> network e \<and> siblings es \<and> (\<forall>y \<in> set es. nt_net e < nt_net y \<and> \<not> contains e (nt_net y))"
  (is "?L \<longleftrightarrow> ?R")
proof
  assume L: ?L
  have "nt_net e < nt_net y \<and> \<not> contains e (nt_net y)" if y: "y \<in> set es" for y
  proof -
    obtain i where "i < length es" "es ! i = y" using y by (auto simp: in_set_conv_nth)
    then have "nt_net ((e # es) ! 0) < nt_net ((e # es) ! Suc i) \<and> \<not> contains ((e # es) ! 0) (nt_net ((e # es) ! Suc i))"
      using L unfolding siblings_def by (metis length_Cons Suc_less_eq zero_less_Suc)
    then show ?thesis using \<open>es ! i = y\<close> by simp
  qed
  moreover have "siblings es"
    unfolding siblings_def
  proof (intro conjI allI impI)
    show "\<forall>x \<in> set es. network x" using L by (simp add: siblings_def)
    fix i j assume "i < length es" "j < i"
    then have "nt_net ((e # es) ! Suc j) < nt_net ((e # es) ! Suc i) \<and> \<not> contains ((e # es) ! Suc j) (nt_net ((e # es) ! Suc i))"
      using L unfolding siblings_def by (metis length_Cons Suc_less_eq)
    then show "nt_net (es ! j) < nt_net (es ! i)" "\<not> contains (es ! j) (nt_net (es ! i))" by simp_all
  qed
  ultimately show ?R using L by (simp add: siblings_def)
next
  assume R: ?R
  have "nt_net ((e # es) ! j) < nt_net ((e # es) ! i) \<and> \<not> contains ((e # es) ! j) (nt_net ((e # es) ! i))"
    if "i < length (e # es)" "j < i" for i j
    using that R by (cases i; cases j) (auto simp: siblings_def)
  then show ?L using R by (simp add: siblings_def)
qed

lemma wf_siblings: "wf_forest f \<Longrightarrow> siblings (roots f)"
  by (induction f) (simp_all add: siblings_Cons siblings_def [of "[]"])

fun kids :: "forest \<Rightarrow> forest list" where
  "kids FNil = []"
| "kids (FCons e cs ss) = cs # kids ss"

fun fheight :: "forest \<Rightarrow> nat" where
  "fheight FNil = 0"
| "fheight (FCons e cs ss) = max (Suc (fheight cs)) (fheight ss)"

lemma length_kids [simp]: "length (kids f) = width f"
  by (induction f) simp_all

lemma fheight_plev: "\<forall>x \<in> set (plev l f). x < n \<Longrightarrow> fheight f \<le> n - l"
proof (induction f arbitrary: l)
  case (FCons e cs ss)
  have "l < n" "fheight cs \<le> n - (l + 1)" "fheight ss \<le> n - l" using FCons by simp_all
  then show ?case by simp
qed simp

lemma forest_nth:
  assumes "i < width f"
  shows "wf_forest f \<Longrightarrow> wf_forest (kids f ! i) \<and> (\<forall>x \<in> set (roots (kids f ! i)). within x (roots f ! i))"
    and "fheight (kids f ! i) < fheight f"
    and "laid T lo hi p f \<Longrightarrow> p + i < length T \<and> (if kids f ! i = FNil then T ! (p + i) = roots f ! i
      else \<exists>b. b + width (kids f ! i) \<le> length T \<and> laid T lo hi b (kids f ! i) \<and>
        T ! (p + i) = (roots f ! i)\<lparr>nt_childs_table := Some b, nt_childs_num := width (kids f ! i)\<rparr>)"
  using assms
proof (induction f arbitrary: i p)
  case (FCons e cs ss)
  {
    case 1
    then show ?case using FCons.IH(4) [of "i - 1"] by (cases i) simp_all
  next
    case 2
    then show ?case using FCons.IH(5) [of "i - 1"] by (cases i) (auto simp: less_max_iff_disj)
  next
    case 3
    show ?case
    proof (cases i)
      case 0
      then show ?thesis using 3 by (auto simp: Let_def)
    next
      case (Suc j)
      then show ?thesis using 3 FCons.IH(6) [of "p + 1" j] by (cases "kids ss ! j = FNil") simp_all
    qed
  }
qed simp_all

lemma pre_nth: "set (pre f) = (\<Union>i < width f. insert (roots f ! i) (set (pre (kids f ! i))))"
proof (induction f)
  case (FCons e cs ss)
  have "(\<Union>i < Suc n. g i) = g 0 \<union> (\<Union>i < n. g (Suc i))" for n and g :: "nat \<Rightarrow> networks_table_entry set"
    by (auto simp: less_Suc_eq_0_disj)
  then show ?case by (simp add: FCons.IH(2))
qed simp

lemma laid_level:
  assumes "laid T lo hi p f" "p + width f \<le> length T" "\<forall>e \<in> set (pre f). strip e = e"
  shows "map strip (level_entries T p (width f)) = roots f"
proof (rule nth_equalityI)
  fix i assume "i < length (map strip (level_entries T p (width f)))"
  then have i: "i < width f" using assms(2) by (simp add: length_level)
  have "roots f ! i \<in> set (roots f)" using i by simp
  then have "strip (roots f ! i) = roots f ! i" using assms(3) roots_pre by blast
  moreover have "strip (T ! (p + i)) = strip (roots f ! i)"
    using forest_nth(3) [OF i assms(1)] by (auto split: if_splits)
  ultimately show "map strip (level_entries T p (width f)) ! i = roots f ! i"
    using i assms(2) by (simp add: length_level level_nth)
qed (use assms(2) in \<open>simp add: length_level\<close>)

lemma laid_hierarchy:
  assumes "laid T lo hi p f" "p + width f \<le> length T" "\<forall>e \<in> set (pre f). strip e = e" "wf_forest f" "fheight f \<le> d" "0 < d"
  shows "hierarchy d T p (width f) \<and> (\<lambda>i. strip (T ! i)) ` members d T p (width f) = set (pre f)"
  using assms
proof (induction d arbitrary: f p)
  case (Suc d)
  have lev: "map strip (level_entries T p (width f)) = roots f" using laid_level Suc.prems(1-3) .
  have sib: "siblings (level_entries T p (width f))" using wf_siblings [OF Suc.prems(4)] lev siblings_strip by metis
  have child: "case nt_childs_table (T ! (p + i)) of
        None \<Rightarrow> kids f ! i = FNil
      | Some c \<Rightarrow> hierarchy d T c (nt_childs_num (T ! (p + i))) \<and>
          (\<forall>x \<in> set (level_entries T c (nt_childs_num (T ! (p + i)))). within x (T ! (p + i))) \<and>
          (\<lambda>i. strip (T ! i)) ` members d T c (nt_childs_num (T ! (p + i))) = set (pre (kids f ! i))"
    and here: "strip (T ! (p + i)) = roots f ! i" if i: "i < width f" for i
  proof -
    have raw: "strip (roots f ! i) = roots f ! i" "\<forall>e \<in> set (pre (kids f ! i)). strip e = e"
      using Suc.prems(3) i pre_nth [of f] by auto
    show st: "strip (T ! (p + i)) = roots f ! i" using raw(1) forest_nth(3) [OF i Suc.prems(1)] by (auto split: if_splits)
    show "case nt_childs_table (T ! (p + i)) of
        None \<Rightarrow> kids f ! i = FNil
      | Some c \<Rightarrow> hierarchy d T c (nt_childs_num (T ! (p + i))) \<and>
          (\<forall>x \<in> set (level_entries T c (nt_childs_num (T ! (p + i)))). within x (T ! (p + i))) \<and>
          (\<lambda>i. strip (T ! i)) ` members d T c (nt_childs_num (T ! (p + i))) = set (pre (kids f ! i))"
    proof (cases "kids f ! i = FNil")
      case True
      then have "T ! (p + i) = strip (roots f ! i)" using forest_nth(3) [OF i Suc.prems(1)] raw(1) by simp
      then show ?thesis using True by (simp add: strip_def)
    next
      case False
      then obtain b where b: "b + width (kids f ! i) \<le> length T" "laid T lo hi b (kids f ! i)"
          "T ! (p + i) = (roots f ! i)\<lparr>nt_childs_table := Some b, nt_childs_num := width (kids f ! i)\<rparr>"
        using forest_nth(3) [OF i Suc.prems(1)] by auto
      have d: "fheight (kids f ! i) \<le> d" using forest_nth(2) [OF i] Suc.prems(5) by simp
      moreover have "0 < fheight (kids f ! i)" using False by (cases "kids f ! i") auto
      ultimately have rec: "hierarchy d T b (width (kids f ! i)) \<and>
          (\<lambda>i. strip (T ! i)) ` members d T b (width (kids f ! i)) = set (pre (kids f ! i))"
        using b(1,2) raw(2) forest_nth(1) [OF i Suc.prems(4)] by (intro Suc.IH) simp_all
      have "within x (T ! (p + i))" if "x \<in> set (level_entries T b (width (kids f ! i)))" for x
      proof -
        have "strip x \<in> set (roots (kids f ! i))"
          using laid_level [OF b(2,1) raw(2)] that by (metis imageI list.set_map)
        then have "within (strip x) (roots f ! i)" using forest_nth(1) [OF i Suc.prems(4)] by blast
        then have "within (strip x) (strip (T ! (p + i)))" using st by simp
        then show ?thesis by simp
      qed
      then show ?thesis using rec b(3) by simp
    qed
  qed
  have "hierarchy (Suc d) T p (width f)"
    unfolding hierarchy.simps using sib Suc.prems(2) child by (fastforce split: option.splits)
  moreover have "(\<lambda>i. strip (T ! i)) ` members (Suc d) T p (width f) =
      (\<Union>i < width f. insert (roots f ! i) (set (pre (kids f ! i))))"
  proof -
    have "(\<lambda>i. strip (T ! i)) ` insert (p + i) (case nt_childs_table (T ! (p + i)) of
        None \<Rightarrow> {} | Some c \<Rightarrow> members d T c (nt_childs_num (T ! (p + i)))) =
        insert (roots f ! i) (set (pre (kids f ! i)))" if "i < width f" for i
      using child [OF that] here [OF that] by (simp split: option.splits)
    then show ?thesis unfolding members.simps image_UN by simp
  qed
  ultimately show ?case by (simp only: pre_nth [of f])
qed simp

section \<open>Loading\<close>

lemma build_nets_hierarchy:
  assumes "sorted_nets T" "distinct (map nkey T)" "T \<noteq> []" "\<forall>e \<in> set T. strip e = e"
  shows "\<exists>T' num. build_nets T = Inr (T', num) \<and> length T' = length T \<and> hierarchy 33 T' 0 num \<and>
    (\<lambda>i. strip (T' ! i)) ` members 33 T' 0 num = set T"
proof -
  define f where "f = mkf T"
  have lev: "nets_levels T = plev 0 f"
    using nets_levels_lv [OF assms(1,3)] lv_mkf [OF assms(1), of "[]" 0] by (simp add: f_def)
  have short: "\<forall>x \<in> set (plev 0 f). x < 33"
    using levels_short [OF assms(1,2)] nets_levels_lv [OF assms(1,3)] lev by simp
  have T: "T = pre f" by (simp add: f_def)
  obtain e cs ss where f: "f = FCons e cs ss" using assms(3) T by (cases f) simp_all
  obtain T0 where T0: "T = e # T0" using T f by simp
  let ?tb = "(replicate (length T) nt_zero)[0 := e]"
  let ?st = "\<lparr>b_table = ?tb, b_current = 0, b_next = width f, b_prev = replicate 128 0\<rparr>"
  have at: "stored T (nets_levels T) (nets_childs (nets_levels T)) 0 0 f"
    using stored_append [of "[]" 0 "[]" "[]" f "[]" 0 "[]" "[]"] T lev by (simp add: nets_childs_plev)
  have len: "length T = width f + fdesc f" using T fsize_split [of f] by simp
  have "\<exists>st'. build_loop T (nets_levels T) (nets_childs (nets_levels T)) (0 + 1) (fsize f - 1) ?st = Inr st' \<and>
      placed ?st st' 0 (width f) 0 (nets_levels T ! (0 + fsize f - 1)) f"
    using at f len short by (intro build_forest) (auto intro: less_trans)
  then obtain st' where run: "build_loop T (nets_levels T) (nets_childs (nets_levels T)) 1 (fsize f - 1) ?st = Inr st'"
      and pl: "placed ?st st' 0 (width f) 0 (nets_levels T ! (0 + fsize f - 1)) f" by auto
  have "fsize f = length T" using T by simp
  then have "build_nets T = Inr (b_table st', width f)"
    using run T0 lev filter_plev [of 0 f] by (simp add: build_nets_def wr_ent_def Let_def)
  moreover have len': "length (b_table st') = length T" using placedD(1) [OF pl] by simp
  moreover have "hierarchy 33 (b_table st') 0 (width f) \<and>
      (\<lambda>i. strip (b_table st' ! i)) ` members 33 (b_table st') 0 (width f) = set (pre f)"
  proof (rule laid_hierarchy [OF placedD(3) [OF pl]])
    show "0 + width f \<le> length (b_table st')" using len len' by simp
    show "\<forall>e \<in> set (pre f). strip e = e" using assms(4) T by simp
    show "wf_forest f" using wf_mkf [OF assms(1)] by (simp add: f_def)
    show "fheight f \<le> 33" using fheight_plev [OF short] by simp
  qed simp
  ultimately show ?thesis using T by blast
qed

lemma load_nets_hierarchy:
  assumes "rows \<noteq> []" "\<forall>e \<in> set rows. network e \<and> nt_childs_table e = None \<and> nt_childs_num e = 0" "distinct (map nkey rows)"
  shows "\<exists>T num. load_nets rows = Inr (T, num) \<and> length T = length rows \<and> hierarchy 33 T 0 num \<and>
    (\<lambda>i. strip (T ! i)) ` members 33 T 0 num = set rows"
proof -
  let ?S = "sort_key nkey rows"
  have ms: "mset ?S = mset rows" by simp
  have "distinct (map nkey ?S)" using assms(3) by (metis distinct_map mset_eq_imp_distinct_iff set_sort mset_sort)
  moreover have "?S \<noteq> []" using assms(1) length_sort [of nkey rows] by (metis length_0_conv)
  ultimately have "\<exists>T' num. build_nets ?S = Inr (T', num) \<and> length T' = length ?S \<and> hierarchy 33 T' 0 num \<and>
      (\<lambda>i. strip (T' ! i)) ` members 33 T' 0 num = set ?S"
    using assms(1,2) by (intro build_nets_hierarchy) (auto simp: sorted_nets_def strip_def)
  then show ?thesis using assms(1) merge_sort_range [of 0 "length rows" rows] by (simp add: load_nets_def)
qed

text \<open>The most specific of the rows that contain an address.\<close>

definition best_row :: "nets \<Rightarrow> u32 \<Rightarrow> networks_table_entry option \<Rightarrow> bool" where
  "best_row rows a r = (case r of
       None \<Rightarrow> \<forall>e \<in> set rows. \<not> contains e a
     | Some x \<Rightarrow> x \<in> set rows \<and> contains x a \<and> (\<forall>e \<in> set rows. contains e a \<longrightarrow> nt_mask e \<le> nt_mask x))"

lemma best_row_match:
  assumes "(\<lambda>i. strip (T ! i)) ` M = set rows" "best_match T M a r"
  shows "best_row rows a (map_option (\<lambda>i. strip (T ! i)) r)"
  unfolding best_row_def assms(1) [symmetric] using assms(2) by (cases r) (auto simp: best_match_def)

text \<open>The networks the rows of the file name.\<close>

definition row_key :: "net_row \<Rightarrow> (u32 \<times> nat) option" where
  "row_key r = (case row_net r of Net_Valid net index \<Rightarrow>
     (if index \<le> 32 then Some (bswap32 net AND nt_mask_of index, index) else None) | _ \<Rightarrow> None)"

fun row_keys :: "net_row list \<Rightarrow> (u32 \<times> nat) list" where
  "row_keys [] = []"
| "row_keys (r # rs) = (case row_key r of None \<Rightarrow> row_keys rs | Some k \<Rightarrow> k # row_keys rs)"

definition row_entry :: "networks_table_entry \<Rightarrow> u32 \<times> nat \<Rightarrow> bool" where
  "row_entry e k \<longleftrightarrow> snd k \<le> 32 \<and> fst k AND nt_mask_of (snd k) = fst k \<and> nt_net e = fst k \<and> nt_mask e = nt_mask_of (snd k) \<and>
     nt_masknum e = of_nat (snd k) \<and> nt_childs_table e = None \<and> nt_childs_num e = 0"

lemma load_rows_keys:
  "nt_childs_table cur = None \<Longrightarrow> nt_childs_num cur = 0 \<Longrightarrow>
   \<exists>es cur'. load_rows rows T cur = (T @ es, cur') \<and> list_all2 row_entry es (row_keys rows)"
proof (induction rows arbitrary: T cur)
  case (Cons r rs)
  let ?cur = "cur\<lparr>nt_nh := (case row_nh r of Some nh \<Rightarrow> nh | None \<Rightarrow> nt_nh cur), nt_peer_as := row_peer_as r, nt_as := row_as r\<rparr>"
  have zero: "nt_childs_table nt_zero = None" "nt_childs_num nt_zero = 0" by (simp_all add: nt_zero_def)
  show ?case
  proof (cases "row_key r")
    case None
    then have "load_rows (r # rs) T cur = load_rows rs T ?cur \<or> load_rows (r # rs) T cur = load_rows rs T nt_zero"
      by (cases "row_net r") (auto simp: row_key_def Let_def split: if_splits)
    then show ?thesis using Cons.IH [of ?cur T] Cons.IH [OF zero, of T] Cons.prems None by auto
  next
    case (Some k)
    then obtain net index where n: "row_net r = Net_Valid net index" "index \<le> 32" "k = (bswap32 net AND nt_mask_of index, index)"
      by (cases "row_net r") (auto simp: row_key_def split: if_splits)
    let ?e = "?cur\<lparr>nt_net := bswap32 net AND nt_mask_of index, nt_mask := nt_mask_of index, nt_masknum := of_nat index\<rparr>"
    have "load_rows (r # rs) T cur = load_rows rs (T @ [?e]) nt_zero" using n(1,2) by (simp add: Let_def)
    moreover have "row_entry ?e k" using Cons.prems n by (simp add: row_entry_def and.assoc)
    ultimately show ?thesis using Cons.IH [OF zero, of "T @ [?e]"] Some by auto
  qed
qed simp

lemma row_entry_network: "row_entry e k \<Longrightarrow> network e \<and> nt_childs_table e = None \<and> nt_childs_num e = 0"
proof -
  assume k: "row_entry e k"
  then have "unat (of_nat (snd k) :: byte) = snd k" by (simp add: row_entry_def unsigned_of_nat take_bit_nat_eq_self)
  then have "nt_masknum e \<noteq> 255" using k by (auto simp: row_entry_def)
  then show ?thesis using k by (auto simp: row_entry_def network_def)
qed

lemma nt_mask_of_inj:
  assumes "m \<le> 32" "n \<le> 32" "nt_mask_of m = nt_mask_of n"
  shows "m = n"
proof -
  have "mask (32 - m) = (mask (32 - n) :: u32)" using assms by (simp add: nt_mask_of_eq)
  then have "(2 :: nat) ^ (32 - m) - 1 = 2 ^ (32 - n) - 1" using unat_mask32 [of "32 - m"] unat_mask32 [of "32 - n"] by simp
  then have "(2 :: nat) ^ (32 - m) = 2 ^ (32 - n)" using eq_diff_iff [of 1 "2 ^ (32 - m)" "2 ^ (32 - n) :: nat"] by simp
  then show "m = n" using assms(1,2) by simp
qed

lemma row_entries_key:
  assumes "list_all2 row_entry es ks" "e \<in> set es"
  obtains k where "k \<in> set ks" "row_entry e k"
  using assms unfolding list_all2_conv_all_nth by (metis in_set_conv_nth)

lemma row_entries_distinct:
  "list_all2 row_entry es ks \<Longrightarrow> distinct ks \<Longrightarrow> distinct (map nkey es)"
proof (induction es ks rule: list_all2_induct)
  case (Cons e es k ks)
  have "nkey e \<noteq> nkey e'" if e': "e' \<in> set es" for e'
  proof -
    obtain k' where k': "k' \<in> set ks" "row_entry e' k'"
      using row_entries_key [OF Cons.hyps(2) e'] by blast
    then have "k \<noteq> k'" using Cons.prems by auto
    then show ?thesis
      using Cons.hyps(1) k'(2) nt_mask_of_inj [of "snd k" "snd k'"] by (auto simp: row_entry_def nkey_def prod_eq_iff)
  qed
  then show ?case using Cons.IH Cons.prems by auto
qed simp

text \<open>C26: the networks table loaded from a file with at least one valid row, no two of them for the same
  network, serves every sequence of lookups: loading does not fault and stores the networks of the valid
  rows, and from the zeroed cache on, in every cache that lookups leave, the lookup of an address returns
  the most specific of them that contains the address, or NULL when none does. Rows repeated for one network
  would count as nested, and 128 of them overflow the stack of enclosing networks.\<close>

theorem load_networks4_most_specific:
  assumes "row_keys rows \<noteq> []" "distinct (row_keys rows)"
  shows "\<exists>es T num dflt. load_networks4 rows = Inr (T, num, dflt) \<and> list_all2 row_entry es (row_keys rows) \<and>
    cache_right 33 T 0 num (nc_zero NETWORKS_CACHE_ENTRIES) \<and>
    (\<forall>nc addr. cache_right 33 T 0 num nc \<longrightarrow> (\<exists>r nc'. binsearch 33 T 0 num nc addr = Inr (r, nc') \<and>
       cache_right 33 T 0 num nc' \<and> best_row es (bswap32 addr) (map_option (\<lambda>i. strip (T ! i)) r)))"
proof -
  obtain es cur where es: "load_rows rows [] nt_zero = (es, cur)" "list_all2 row_entry es (row_keys rows)"
    using load_rows_keys [of nt_zero rows "[]"] by (auto simp: nt_zero_def)
  have ne: "es \<noteq> []" using es(2) assms(1) by auto
  have net: "\<forall>e \<in> set es. network e \<and> nt_childs_table e = None \<and> nt_childs_num e = 0"
    using row_entries_key [OF es(2)] row_entry_network by metis
  obtain T num where T: "load_nets es = Inr (T, num)" "hierarchy 33 T 0 num" "(\<lambda>i. strip (T ! i)) ` members 33 T 0 num = set es"
    using load_nets_hierarchy [OF ne net row_entries_distinct [OF es(2) assms(2)]] by blast
  have "\<exists>r nc'. binsearch 33 T 0 num nc addr = Inr (r, nc') \<and> cache_right 33 T 0 num nc' \<and>
      best_row es (bswap32 addr) (map_option (\<lambda>i. strip (T ! i)) r)" if "cache_right 33 T 0 num nc" for nc addr
    using binsearch_best [OF T(2) that] best_row_match [OF T(3)] by metis
  moreover have "cache_right 33 T 0 num (nc_zero NETWORKS_CACHE_ENTRIES)"
    by (rule nc_zero_right) (simp_all add: NETWORKS_CACHE_ENTRIES_def)
  ultimately show ?thesis using es T(1) ne by (auto simp: load_networks4_def)
qed

theorem load_networks4_most_specific_witness:
  "\<exists>T num dflt. load_networks4 [\<lparr>row_nh = None, row_peer_as = 0, row_as = 65001, row_net = Net_Valid 0x00000010 12\<rparr>,
      \<lparr>row_nh = None, row_peer_as = 0, row_as = 65002, row_net = Net_Valid 0x00001010 20\<rparr>] = Inr (T, num, dflt) \<and>
    cache_right 33 T 0 num (nc_zero NETWORKS_CACHE_ENTRIES)"
proof -
  let ?rows = "[\<lparr>row_nh = None, row_peer_as = 0, row_as = 65001, row_net = Net_Valid 0x00000010 12\<rparr>,
      \<lparr>row_nh = None, row_peer_as = 0, row_as = 65002, row_net = Net_Valid 0x00001010 20\<rparr>]"
  have "row_keys ?rows \<noteq> []" "distinct (row_keys ?rows)" by (simp_all add: row_key_def)
  then show ?thesis using load_networks4_most_specific [of ?rows] by blast
qed

text \<open>A file whose only row has no mask is not an empty table: the entry keeps the AS of the refused row
  and, with network and mask zero, contains every address.\<close>

lemma load_networks4_stale_row:
  "load_networks4 [\<lparr>row_nh = None, row_peer_as = 0, row_as = as, row_net = Net_Refused\<rparr>] =
     Inr ([nt_zero\<lparr>nt_as := as\<rparr>], 1, True) \<and> contains (nt_zero\<lparr>nt_as := as\<rparr>) a"
  by (simp add: load_networks4_def load_nets_def merge_sort.simps build_nets_def nets_levels_def nets_childs_def
      wr_ent_def Let_def contains_def nt_zero_def)

end
