(* ===== verification/Imt_Acct.thy ===== *)
theory Imt_Acct
  imports Prelude
begin

text \<open>
  Model of the in-memory accounting table: the memory pools of \<^verbatim>\<open>src/src/memory.c\<close>, the table of
  \<^verbatim>\<open>src/src/acct.c\<close> and the operations of \<^verbatim>\<open>src/src/imt_plugin.c\<close> that set it up, erase it and insert
  into it.

  A structure that is hashed and compared as a whole (\<^verbatim>\<open>struct pkt_primitives\<close> and the optional
  ones) is the list of its bytes. A mapped memory segment is the list of the \<^verbatim>\<open>struct acc\<close> it has
  room for, and a pointer to an element is the number of its segment and its index there. The
  counters are the 64-bit ones of the default build.
\<close>

section \<open>Data\<close>

record timeval =
  tv_sec :: int
  tv_usec :: int

definition timeval_zero :: timeval where "timeval_zero = \<lparr>tv_sec = 0, tv_usec = 0\<rparr>"

definition timeval_cmp :: "timeval \<Rightarrow> timeval \<Rightarrow> int" where
  "timeval_cmp a b =
     (if tv_sec a > tv_sec b then 1 else if tv_sec a < tv_sec b then -1
      else if tv_usec a > tv_usec b then 1 else if tv_usec a < tv_usec b then -1 else 0)"

record class_st =
  cst_tentatives :: byte
  cst_stamp :: timeval
  cst_ba :: u32
  cst_pa :: u16
  cst_fa :: byte

definition class_st_zero :: class_st where
  "class_st_zero = \<lparr>cst_tentatives = 0, cst_stamp = timeval_zero, cst_ba = 0, cst_pa = 0, cst_fa = 0\<rparr>"

record pkt_data =
  pd_primitives :: "byte list"
  pd_pkt_len :: u64
  pd_pkt_num :: u64
  pd_flo_num :: u64
  pd_flow_type :: byte
  pd_tcp_flags :: u32
  pd_cst :: class_st

text \<open>The BGP strings of a packet, and the same with pointers in place of strings.\<close>

record pkt_legacy_bgp_primitives =
  lb_std_comms :: "byte list"
  lb_ext_comms :: "byte list"
  lb_lrg_comms :: "byte list"
  lb_as_path :: "byte list"
  lb_src_std_comms :: "byte list"
  lb_src_ext_comms :: "byte list"
  lb_src_lrg_comms :: "byte list"
  lb_src_as_path :: "byte list"

record cache_legacy_bgp_primitives =
  cb_std_comms :: "byte list option"
  cb_ext_comms :: "byte list option"
  cb_lrg_comms :: "byte list option"
  cb_as_path :: "byte list option"
  cb_src_std_comms :: "byte list option"
  cb_src_ext_comms :: "byte list option"
  cb_src_lrg_comms :: "byte list option"
  cb_src_as_path :: "byte list option"

record primitives_ptrs =
  pp_data :: pkt_data
  pp_pbgp :: "byte list option"
  pp_plbgp :: "pkt_legacy_bgp_primitives option"
  pp_pnat :: "byte list option"
  pp_pmpls :: "byte list option"
  pp_ptun :: "byte list option"
  pp_pcust :: "byte list option"
  pp_pvlen :: "byte list option"

type_synonym eptr = "nat \<times> nat"

record acc =
  acc_primitives :: "byte list"
  bytes_counter :: u64
  packet_counter :: u64
  flow_counter :: u64
  acc_flow_type :: byte
  acc_tcp_flags :: u32
  signature :: u32
  reset_flag :: bool
  rstamp :: timeval
  acc_pbgp :: "byte list option"
  acc_clbgp :: "cache_legacy_bgp_primitives option"
  acc_pnat :: "byte list option"
  acc_pmpls :: "byte list option"
  acc_ptun :: "byte list option"
  acc_pcust :: "byte list option"
  acc_pvlen :: "byte list option"
  acc_next :: "eptr option"

record memory_pool_desc =
  mp_id :: nat
  mp_base_ptr :: "nat option"
  mp_ptr :: nat
  mp_space_left :: nat
  mp_len :: nat
  mp_next :: "nat option"

text \<open>The settings the table depends on, the size of \<^verbatim>\<open>struct acc\<close> and the offsets in
  \<^verbatim>\<open>struct pkt_primitives\<close>, which depend on the build.\<close>

record imt_cfg =
  cfg_buckets :: nat
  cfg_what_to_count :: u64
  cfg_what_to_count_2 :: u64
  cfg_num_memory_pools :: nat
  cfg_memory_pool_size :: nat
  cfg_cpptrs_len :: nat
  sz_acc :: nat
  sz_primitives :: nat
  off_class :: nat
  off_src_ip :: nat
  off_dst_ip :: nat
  sz_host_addr :: nat
  off_src_port :: nat
  off_dst_port :: nat
  off_src_as :: nat
  off_dst_as :: nat
  off_eth_shost :: nat
  off_eth_dhost :: nat

text \<open>The globals of the plugin, the mapped segments, and how many more mappings the system grants.\<close>

record imt =
  i_mem :: "acc list list"
  i_mpd :: "memory_pool_desc list"
  i_current_pool :: "nat option"
  i_a :: nat
  i_lru :: "eptr option list"
  i_no_more_space :: bool
  i_cycle_stamp :: timeval
  i_table_reset_stamp :: timeval
  i_maps_left :: nat

definition COUNT_CLASS :: u64 where "COUNT_CLASS = 0x400000"
definition COUNT_STD_COMM :: u64 where "COUNT_STD_COMM = 0x4000000"
definition COUNT_EXT_COMM :: u64 where "COUNT_EXT_COMM = 0x8000000"
definition COUNT_AS_PATH :: u64 where "COUNT_AS_PATH = 0x10000000"
definition COUNT_SRC_AS_PATH :: u64 where "COUNT_SRC_AS_PATH = 0x1000000000"
definition COUNT_SRC_STD_COMM :: u64 where "COUNT_SRC_STD_COMM = 0x2000000000"
definition COUNT_SRC_EXT_COMM :: u64 where "COUNT_SRC_EXT_COMM = 0x4000000000"
definition COUNT_LRG_COMM :: u64 where "COUNT_LRG_COMM = 0x40000"
definition COUNT_SRC_LRG_COMM :: u64 where "COUNT_SRC_LRG_COMM = 0x80000"

definition MAX_BGP_COMMS :: nat where "MAX_BGP_COMMS = 96"
definition MAX_BGP_ASPATH :: nat where "MAX_BGP_ASPATH = 128"

section \<open>BGP strings\<close>

definition pkt_to_cache_legacy_bgp_primitives ::
  "pkt_legacy_bgp_primitives \<Rightarrow> u64 \<Rightarrow> u64 \<Rightarrow> cache_legacy_bgp_primitives" where
  "pkt_to_cache_legacy_bgp_primitives p wtc wtc2 =
     \<lparr>cb_std_comms = (if wtc AND COUNT_STD_COMM \<noteq> 0 then Some (lb_std_comms p) else None),
      cb_ext_comms = (if wtc AND COUNT_EXT_COMM \<noteq> 0 then Some (lb_ext_comms p) else None),
      cb_lrg_comms = (if wtc2 AND COUNT_LRG_COMM \<noteq> 0 then Some (lb_lrg_comms p) else None),
      cb_as_path = (if wtc AND COUNT_AS_PATH \<noteq> 0 then Some (lb_as_path p) else None),
      cb_src_std_comms = (if wtc AND COUNT_SRC_STD_COMM \<noteq> 0 then Some (lb_src_std_comms p) else None),
      cb_src_ext_comms = (if wtc AND COUNT_SRC_EXT_COMM \<noteq> 0 then Some (lb_src_ext_comms p) else None),
      cb_src_lrg_comms = (if wtc2 AND COUNT_SRC_LRG_COMM \<noteq> 0 then Some (lb_src_lrg_comms p) else None),
      cb_src_as_path = (if wtc AND COUNT_SRC_AS_PATH \<noteq> 0 then Some (lb_src_as_path p) else None)\<rparr>"

definition cstr_or_zero :: "nat \<Rightarrow> byte list option \<Rightarrow> byte list" where
  "cstr_or_zero n s = (case s of Some x \<Rightarrow> x | None \<Rightarrow> replicate n 0)"

definition cache_to_pkt_legacy_bgp_primitives :: "cache_legacy_bgp_primitives \<Rightarrow> pkt_legacy_bgp_primitives" where
  "cache_to_pkt_legacy_bgp_primitives c =
     \<lparr>lb_std_comms = cstr_or_zero MAX_BGP_COMMS (cb_std_comms c),
      lb_ext_comms = cstr_or_zero MAX_BGP_COMMS (cb_ext_comms c),
      lb_lrg_comms = cstr_or_zero MAX_BGP_COMMS (cb_lrg_comms c),
      lb_as_path = cstr_or_zero MAX_BGP_ASPATH (cb_as_path c),
      lb_src_std_comms = cstr_or_zero MAX_BGP_COMMS (cb_src_std_comms c),
      lb_src_ext_comms = cstr_or_zero MAX_BGP_COMMS (cb_src_ext_comms c),
      lb_src_lrg_comms = cstr_or_zero MAX_BGP_COMMS (cb_src_lrg_comms c),
      lb_src_as_path = cstr_or_zero MAX_BGP_ASPATH (cb_src_as_path c)\<rparr>"

definition lbgp_bytes :: "pkt_legacy_bgp_primitives \<Rightarrow> byte list" where
  "lbgp_bytes p = lb_std_comms p @ lb_ext_comms p @ lb_lrg_comms p @ lb_as_path p @
     lb_src_std_comms p @ lb_src_ext_comms p @ lb_src_lrg_comms p @ lb_src_as_path p"

section \<open>Memory\<close>

definition rd_acc :: "acc list list \<Rightarrow> eptr \<Rightarrow> acc res" where
  "rd_acc m p = (if fst p < length m \<and> snd p < length (m ! fst p) then Inr (m ! fst p ! snd p) else Inl Out_Of_Bounds)"

definition wr_acc :: "acc list list \<Rightarrow> eptr \<Rightarrow> acc \<Rightarrow> acc list list res" where
  "wr_acc m p e =
     (if fst p < length m \<and> snd p < length (m ! fst p) then Inr (m[fst p := (m ! fst p)[snd p := e]]) else Inl Out_Of_Bounds)"

definition acc_zero :: acc where
  "acc_zero = \<lparr>acc_primitives = [], bytes_counter = 0, packet_counter = 0, flow_counter = 0, acc_flow_type = 0,
     acc_tcp_flags = 0, signature = 0, reset_flag = False, rstamp = timeval_zero, acc_pbgp = None, acc_clbgp = None,
     acc_pnat = None, acc_pmpls = None, acc_ptun = None, acc_pcust = None, acc_pvlen = None, acc_next = None\<rparr>"

definition mp_zero :: memory_pool_desc where
  "mp_zero = \<lparr>mp_id = 0, mp_base_ptr = None, mp_ptr = 0, mp_space_left = 0, mp_len = 0, mp_next = None\<rparr>"

definition rd_mp :: "imt \<Rightarrow> nat \<Rightarrow> memory_pool_desc res" where
  "rd_mp st i = (if i < length (i_mpd st) then Inr (i_mpd st ! i) else Inl Out_Of_Bounds)"

definition wr_mp :: "imt \<Rightarrow> nat \<Rightarrow> memory_pool_desc \<Rightarrow> imt res" where
  "wr_mp st i d = (if i < length (i_mpd st) then Inr (st\<lparr>i_mpd := (i_mpd st)[i := d]\<rparr>) else Inl Out_Of_Bounds)"

text \<open>\<^verbatim>\<open>memset\<close> of the first \<open>sz\<close> bytes of a segment.\<close>

definition zero_seg :: "imt_cfg \<Rightarrow> imt \<Rightarrow> nat option \<Rightarrow> nat \<Rightarrow> imt res" where
  "zero_seg cfg st base sz = (case base of
       None \<Rightarrow> if sz = 0 then Inr st else Inl Null_Deref
     | Some s \<Rightarrow>
         if s < length (i_mem st) \<and> sz div sz_acc cfg \<le> length (i_mem st ! s) then
           Inr (st\<lparr>i_mem := (i_mem st)[s := replicate (sz div sz_acc cfg) acc_zero @ drop (sz div sz_acc cfg) (i_mem st ! s)]\<rparr>)
         else Inl Out_Of_Bounds)"

definition NUM_MEMORY_POOLS :: nat where "NUM_MEMORY_POOLS = 16"

definition init_memory_pool_table :: "imt_cfg \<Rightarrow> imt \<Rightarrow> imt" where
  "init_memory_pool_table cfg st =
     (let n = (if cfg_num_memory_pools cfg \<noteq> 0 then cfg_num_memory_pools cfg else NUM_MEMORY_POOLS) in
      st\<lparr>i_mpd := replicate (n + 1) mp_zero, i_current_pool := Some 0\<rparr>)"

text \<open>The walk of \<^verbatim>\<open>clear_memory_pool_table\<close> from the descriptor \<open>p\<close> on; the first argument bounds it.\<close>

fun clear_pools :: "nat \<Rightarrow> imt_cfg \<Rightarrow> nat \<Rightarrow> imt \<Rightarrow> imt res" where
  "clear_pools 0 cfg p st = Inl No_Fuel"
| "clear_pools (Suc k) cfg p st =
     rbind (rd_mp st p) (\<lambda>d.
     rbind (zero_seg cfg st (mp_base_ptr d) (mp_len d)) (\<lambda>st1. case mp_next d of
         None \<Rightarrow> Inr st1
       | Some q \<Rightarrow> rbind (wr_mp st1 p (d\<lparr>mp_id := 0\<rparr>)) (\<lambda>st2. clear_pools k cfg q st2)))"

definition clear_memory_pool_table :: "imt_cfg \<Rightarrow> imt \<Rightarrow> imt res" where
  "clear_memory_pool_table cfg st =
     rbind (clear_pools (length (i_mpd st)) cfg 0 st) (\<lambda>st1. Inr (st1\<lparr>i_current_pool := Some 0\<rparr>))"

text \<open>The part of \<^verbatim>\<open>request_memory_pool\<close> that maps a new segment for the pool after \<open>c\<close>.\<close>

definition new_memory_pool :: "imt_cfg \<Rightarrow> nat \<Rightarrow> nat \<Rightarrow> imt \<Rightarrow> (nat option \<times> imt) res" where
  "new_memory_pool cfg sz c st =
     rbind (rd_mp st c) (\<lambda>d.
     let new_id = mp_id d + 1;
         room = (if cfg_num_memory_pools cfg \<noteq> 0 then
                   (if new_id > cfg_num_memory_pools cfg then None else Some (new_id - 1, st))
                 else if new_id > NUM_MEMORY_POOLS then
                   (if i_maps_left st = 0 then None
                    else Some (length (i_mpd st), st\<lparr>i_mpd := i_mpd st @ [mp_zero], i_maps_left := i_maps_left st - 1\<rparr>))
                 else Some (new_id - 1, st)) in
     case room of
       None \<Rightarrow> Inr (None, st)
     | Some (new, st1) \<Rightarrow>
         rbind (if mp_id d \<noteq> 0 then wr_mp st1 c (d\<lparr>mp_next := Some new\<rparr>) else Inr st1) (\<lambda>st2.
         if i_maps_left st2 = 0 then Inr (None, st2)
         else
           rbind (rd_mp st2 new) (\<lambda>nd.
           rbind (wr_mp (st2\<lparr>i_mem := i_mem st2 @ [replicate (sz div sz_acc cfg) acc_zero], i_maps_left := i_maps_left st2 - 1\<rparr>)
                    new (nd\<lparr>mp_id := new_id, mp_base_ptr := Some (length (i_mem st2)), mp_ptr := 0, mp_space_left := sz, mp_len := sz\<rparr>)) (\<lambda>st3.
             Inr (Some new, st3)))))"

definition request_memory_pool :: "imt_cfg \<Rightarrow> nat \<Rightarrow> imt \<Rightarrow> (nat option \<times> imt) res" where
  "request_memory_pool cfg sz st = (case i_current_pool st of
       None \<Rightarrow> Inl Null_Deref
     | Some c \<Rightarrow> rbind (rd_mp st c) (\<lambda>d. case mp_next d of
           None \<Rightarrow> new_memory_pool cfg sz c st
         | Some nx \<Rightarrow>
             let new = (if mp_id d = 0 then c else nx) in
             rbind (rd_mp st new) (\<lambda>nd.
             let nd1 = nd\<lparr>mp_id := mp_id d + 1\<rparr> in
             rbind (wr_mp st new nd1) (\<lambda>st1.
             if sz \<le> mp_len nd1 then
               rbind (zero_seg cfg st1 (mp_base_ptr nd1) sz) (\<lambda>st2.
               rbind (wr_mp st2 new (nd1\<lparr>mp_ptr := 0, mp_space_left := sz\<rparr>)) (\<lambda>st3. Inr (Some new, st3)))
             else new_memory_pool cfg sz c st1))))"

section \<open>The table\<close>

definition cache_crc32 :: "byte list \<Rightarrow> u32" where
  "cache_crc32 buf = foldl (\<lambda>hash b. (push_bit 5 hash + hash) + ucast b) 5381 buf"

definition opt_hash :: "byte list option \<Rightarrow> u32" where
  "opt_hash x = (case x of Some bs \<Rightarrow> cache_crc32 bs | None \<Rightarrow> 0)"

definition prim_hash :: "imt_cfg \<Rightarrow> primitives_ptrs \<Rightarrow> u32" where
  "prim_hash cfg k =
     cache_crc32 (pd_primitives (pp_data k)) XOR opt_hash (pp_pbgp k) XOR opt_hash (map_option lbgp_bytes (pp_plbgp k)) XOR
     opt_hash (pp_pnat k) XOR opt_hash (pp_pmpls k) XOR opt_hash (pp_ptun k) XOR
     (if cfg_cpptrs_len cfg \<noteq> 0 then opt_hash (pp_pcust k) else 0)"

definition bucket_of :: "imt_cfg \<Rightarrow> u32 \<Rightarrow> nat res" where
  "bucket_of cfg hash = (if cfg_buckets cfg = 0 then Inl Div_By_Zero else Inr (unat hash mod cfg_buckets cfg))"

definition opt_differ :: "byte list option \<Rightarrow> byte list option \<Rightarrow> bool" where
  "opt_differ x y = (case (x, y) of (Some a, Some b) \<Rightarrow> a \<noteq> b | _ \<Rightarrow> False)"

definition vlen_prims_cmp :: "byte list option \<Rightarrow> byte list option \<Rightarrow> bool" where
  "vlen_prims_cmp src dst = (case (src, dst) of
       (Some a, Some b) \<Rightarrow> if length a \<noteq> length b then True else a \<noteq> b | _ \<Rightarrow> True)"

text \<open>Whether the result of \<^verbatim>\<open>compare_accounting_structure\<close> is not zero. The result of the comparison of
  the tunnel primitives is not part of it.\<close>

definition compare_accounting_structure :: "acc \<Rightarrow> primitives_ptrs \<Rightarrow> bool" where
  "compare_accounting_structure elem k =
     (let res_data = acc_primitives elem \<noteq> pd_primitives (pp_data k);
          res_bgp = opt_differ (acc_pbgp elem) (pp_pbgp k);
          res_lbgp = (case pp_plbgp k of
              Some plbgp \<Rightarrow> (case acc_clbgp elem of
                  Some clbgp \<Rightarrow> lbgp_bytes (cache_to_pkt_legacy_bgp_primitives clbgp) \<noteq> lbgp_bytes plbgp
                | None \<Rightarrow> True)
            | None \<Rightarrow> False);
          res_nat = opt_differ (acc_pnat elem) (pp_pnat k);
          res_mpls = opt_differ (acc_pmpls elem) (pp_pmpls k);
          res_cust = opt_differ (acc_pcust elem) (pp_pcust k);
          res_vlen = (if acc_pvlen elem \<noteq> None \<and> pp_pvlen k \<noteq> None then vlen_prims_cmp (acc_pvlen elem) (pp_pvlen k) else False) in
      res_data \<or> res_bgp \<or> res_lbgp \<or> res_nat \<or> res_mpls \<or> res_cust \<or> res_vlen)"

fun search_walk :: "nat \<Rightarrow> primitives_ptrs \<Rightarrow> u32 \<Rightarrow> eptr option \<Rightarrow> imt \<Rightarrow> eptr option res" where
  "search_walk 0 k hash p st = Inl No_Fuel"
| "search_walk (Suc n) k hash p st = (case p of
       None \<Rightarrow> Inr None
     | Some q \<Rightarrow> rbind (rd_acc (i_mem st) q) (\<lambda>e.
         if signature e = hash \<and> \<not> compare_accounting_structure e k then Inr (Some q)
         else search_walk n k hash (acc_next e) st))"

text \<open>One more than the number of elements that fit the mapped memory: a bound for the walks along the
  chains.\<close>

definition chain_fuel :: "imt \<Rightarrow> nat" where
  "chain_fuel st = Suc (Suc (length (concat (i_mem st))))"

definition search_accounting_structure :: "imt_cfg \<Rightarrow> primitives_ptrs \<Rightarrow> imt \<Rightarrow> eptr option res" where
  "search_accounting_structure cfg k st =
     (let hash = prim_hash cfg k in
      rbind (bucket_of cfg hash) (\<lambda>pos. search_walk (chain_fuel st) k hash (Some (i_a st, pos)) st))"

definition set_reset_flag :: "acc \<Rightarrow> acc" where
  "set_reset_flag elem = elem\<lparr>reset_flag := True\<rparr>"

definition reset_counters :: "timeval \<Rightarrow> acc \<Rightarrow> acc" where
  "reset_counters cycle_stamp elem =
     elem\<lparr>reset_flag := False, packet_counter := 0, bytes_counter := 0, acc_tcp_flags := 0, acc_flow_type := 0, rstamp := cycle_stamp\<rparr>"

definition count_class :: "imt_cfg \<Rightarrow> bool" where
  "count_class cfg \<longleftrightarrow> cfg_what_to_count cfg AND COUNT_CLASS \<noteq> 0"

definition acc_add :: "imt_cfg \<Rightarrow> pkt_data \<Rightarrow> acc \<Rightarrow> acc" where
  "acc_add cfg d e =
     (let e1 = e\<lparr>packet_counter := packet_counter e + pd_pkt_num d, flow_counter := flow_counter e + pd_flo_num d,
                 bytes_counter := bytes_counter e + pd_pkt_len d, acc_flow_type := pd_flow_type d\<rparr> in
      if count_class cfg then
        e1\<lparr>packet_counter := packet_counter e1 + ucast (cst_pa (pd_cst d)),
           bytes_counter := bytes_counter e1 + ucast (cst_ba (pd_cst d)),
           flow_counter := flow_counter e1 + ucast (cst_fa (pd_cst d))\<rparr>
      else e1)"

text \<open>The element is that of the packet; the element is unused and takes the packet; a new element
  takes it.\<close>

definition acc_hit :: "imt_cfg \<Rightarrow> timeval \<Rightarrow> pkt_data \<Rightarrow> acc \<Rightarrow> acc" where
  "acc_hit cfg stamp d e =
     (let e1 = (if reset_flag e then reset_counters stamp e else e) in
      (acc_add cfg d e1)\<lparr>acc_tcp_flags := acc_tcp_flags e1 OR pd_tcp_flags d\<rparr>)"

definition acc_take :: "imt_cfg \<Rightarrow> primitives_ptrs \<Rightarrow> acc \<Rightarrow> acc" where
  "acc_take cfg k e = e\<lparr>acc_primitives := pd_primitives (pp_data k), acc_pbgp := pp_pbgp k,
     acc_clbgp := map_option (\<lambda>p. pkt_to_cache_legacy_bgp_primitives p (cfg_what_to_count cfg) (cfg_what_to_count_2 cfg)) (pp_plbgp k),
     acc_pnat := pp_pnat k, acc_pmpls := pp_pmpls k, acc_ptun := pp_ptun k, acc_pcust := pp_pcust k, acc_pvlen := pp_pvlen k\<rparr>"

definition acc_reuse :: "imt_cfg \<Rightarrow> primitives_ptrs \<Rightarrow> u32 \<Rightarrow> acc \<Rightarrow> acc" where
  "acc_reuse cfg k hash e =
     (acc_add cfg (pp_data k) (acc_take cfg k e))\<lparr>reset_flag := False,
        acc_tcp_flags := acc_tcp_flags e OR pd_tcp_flags (pp_data k), signature := hash\<rparr>"

definition acc_new :: "imt_cfg \<Rightarrow> primitives_ptrs \<Rightarrow> u32 \<Rightarrow> acc \<Rightarrow> acc" where
  "acc_new cfg k hash e =
     (acc_add cfg (pp_data k) (acc_take cfg k e))\<lparr>
        acc_tcp_flags := pd_tcp_flags (pp_data k), signature := hash, acc_next := None\<rparr>"

text \<open>Room for a new element in the current pool or in a new one.\<close>

definition alloc_elem :: "imt_cfg \<Rightarrow> imt \<Rightarrow> (eptr option \<times> imt) res" where
  "alloc_elem cfg st =
     (let take_slot = (\<lambda>c st. rbind (rd_mp st c) (\<lambda>d. case mp_base_ptr d of
            None \<Rightarrow> Inl Null_Deref
          | Some s \<Rightarrow> rbind (wr_mp st c (d\<lparr>mp_space_left := mp_space_left d - sz_acc cfg, mp_ptr := mp_ptr d + sz_acc cfg\<rparr>)) (\<lambda>st1.
              Inr (Some (s, mp_ptr d div sz_acc cfg), st1)))) in
      case i_current_pool st of
        None \<Rightarrow> Inl Null_Deref
      | Some c \<Rightarrow> rbind (rd_mp st c) (\<lambda>d.
          if mp_space_left d \<ge> sz_acc cfg then take_slot c st
          else rbind (request_memory_pool cfg (cfg_memory_pool_size cfg) st) (\<lambda>(r, st1). case r of
              None \<Rightarrow> Inr (None, st1\<lparr>i_current_pool := None\<rparr>)
            | Some n \<Rightarrow> take_slot n (st1\<lparr>i_current_pool := Some n\<rparr>))))"

definition wr_lru :: "imt \<Rightarrow> nat \<Rightarrow> eptr \<Rightarrow> imt res" where
  "wr_lru st pos p = (if pos < length (i_lru st) then Inr (st\<lparr>i_lru := (i_lru st)[pos := Some p]\<rparr>) else Inl Out_Of_Bounds)"

definition put_acc :: "imt \<Rightarrow> eptr \<Rightarrow> acc \<Rightarrow> imt res" where
  "put_acc st p e = rbind (wr_acc (i_mem st) p e) (\<lambda>m. Inr (st\<lparr>i_mem := m\<rparr>))"

fun insert_walk :: "nat \<Rightarrow> imt_cfg \<Rightarrow> primitives_ptrs \<Rightarrow> u32 \<Rightarrow> nat \<Rightarrow> eptr \<Rightarrow> imt \<Rightarrow> imt res" where
  "insert_walk 0 cfg k hash pos p st = Inl No_Fuel"
| "insert_walk (Suc n) cfg k hash pos p st =
     rbind (rd_acc (i_mem st) p) (\<lambda>e.
     if signature e = hash \<and> \<not> compare_accounting_structure e k then
       rbind (put_acc st p (acc_hit cfg (i_cycle_stamp st) (pp_data k) e)) (\<lambda>st1. wr_lru st1 pos p)
     else if bytes_counter e = 0 \<and> packet_counter e = 0 then
       rbind (put_acc st p (acc_reuse cfg k hash e)) (\<lambda>st1. wr_lru st1 pos p)
     else case acc_next e of
       Some q \<Rightarrow> insert_walk n cfg k hash pos q st
     | None \<Rightarrow>
         if i_no_more_space st then Inr st
         else rbind (alloc_elem cfg st) (\<lambda>(r, st1). case r of
             None \<Rightarrow> Inr (st1\<lparr>i_no_more_space := True\<rparr>)
           | Some q \<Rightarrow>
               rbind (put_acc st1 p (e\<lparr>acc_next := Some q\<rparr>)) (\<lambda>st2.
               rbind (rd_acc (i_mem st2) q) (\<lambda>ne.
               rbind (put_acc st2 q (acc_new cfg k hash ne)) (\<lambda>st3. wr_lru st3 pos q)))))"

text \<open>The bytes of the class in the primitives.\<close>

definition class_bytes :: "imt_cfg \<Rightarrow> byte list \<Rightarrow> byte list" where
  "class_bytes cfg p = take 4 (drop (off_class cfg) p)"

definition put_field :: "nat \<Rightarrow> byte list \<Rightarrow> byte list \<Rightarrow> byte list" where
  "put_field off v p = take off p @ v @ drop (off + length v) p"

text \<open>The accumulators of a flow that gets its class are taken off the zero class; the result is the
  packet with the accumulators that are left.\<close>

definition move_class :: "imt_cfg \<Rightarrow> primitives_ptrs \<Rightarrow> imt \<Rightarrow> (primitives_ptrs \<times> imt) res" where
  "move_class cfg k st =
     (let d = pp_data k in
      if count_class cfg \<and> cst_ba (pd_cst d) \<noteq> 0 \<and> (\<exists>b \<in> set (class_bytes cfg (pd_primitives d)). b \<noteq> 0) then
        let k0 = k\<lparr>pp_data := d\<lparr>pd_primitives := put_field (off_class cfg) [0, 0, 0, 0] (pd_primitives d)\<rparr>\<rparr>;
            none = k\<lparr>pp_data := d\<lparr>pd_cst := class_st_zero\<rparr>\<rparr> in
        rbind (search_accounting_structure cfg k0 st) (\<lambda>r. case r of
            None \<Rightarrow> Inr (none, st)
          | Some p \<Rightarrow> rbind (rd_acc (i_mem st) p) (\<lambda>e.
              if timeval_cmp (cst_stamp (pd_cst d)) (rstamp e) \<ge> 0 \<and> timeval_cmp (cst_stamp (pd_cst d)) (i_table_reset_stamp st) \<ge> 0 then
                rbind (put_acc st p (e\<lparr>
                    bytes_counter := bytes_counter e - min (bytes_counter e) (ucast (cst_ba (pd_cst d))),
                    packet_counter := packet_counter e - min (packet_counter e) (ucast (cst_pa (pd_cst d))),
                    flow_counter := flow_counter e - min (flow_counter e) (ucast (cst_fa (pd_cst d)))\<rparr>)) (\<lambda>st1. Inr (k, st1))
              else Inr (none, st)))
      else Inr (k, st))"

text \<open>The rest of \<^verbatim>\<open>insert_accounting_structure\<close>: the element used last, then the chain of the bucket.\<close>

definition insert_moved :: "imt_cfg \<Rightarrow> primitives_ptrs \<Rightarrow> imt \<Rightarrow> imt res" where
  "insert_moved cfg k st =
     (let hash = prim_hash cfg k in
      rbind (bucket_of cfg hash) (\<lambda>pos.
      rbind (if pos < length (i_lru st) then Inr (i_lru st ! pos) else Inl Out_Of_Bounds) (\<lambda>lru.
      let walk = insert_walk (chain_fuel st) cfg k hash pos (i_a st, pos) st in
      case lru of
        None \<Rightarrow> walk
      | Some p \<Rightarrow> rbind (rd_acc (i_mem st) p) (\<lambda>e.
          if signature e = hash \<and> \<not> compare_accounting_structure e k then
            put_acc st p (acc_hit cfg (i_cycle_stamp st) (pp_data k) e)
          else walk))))"

definition insert_accounting_structure :: "imt_cfg \<Rightarrow> primitives_ptrs \<Rightarrow> imt \<Rightarrow> imt res" where
  "insert_accounting_structure cfg k st = rbind (move_class cfg k st) (\<lambda>(k1, st1). insert_moved cfg k1 st1)"

section \<open>The plugin\<close>

text \<open>The insert functions that account a packet once to each of its ends: the destination field is
  cleared, then the source field takes its value; the accumulators the first call has left are
  those of the second.\<close>

definition sum_insert :: "nat \<Rightarrow> nat \<Rightarrow> nat \<Rightarrow> imt_cfg \<Rightarrow> primitives_ptrs \<Rightarrow> imt \<Rightarrow> imt res" where
  "sum_insert src dst len cfg k st =
     (let p = pd_primitives (pp_data k); tmp = take len (drop dst p); p1 = put_field dst (replicate len 0) p in
      rbind (move_class cfg (k\<lparr>pp_data := (pp_data k)\<lparr>pd_primitives := p1\<rparr>\<rparr>) st) (\<lambda>(k1, st1).
      rbind (insert_moved cfg k1 st1) (\<lambda>st2.
      insert_accounting_structure cfg (k1\<lparr>pp_data := (pp_data k1)\<lparr>pd_primitives := put_field src tmp p1\<rparr>\<rparr>) st2)))"

definition sum_host_insert :: "imt_cfg \<Rightarrow> primitives_ptrs \<Rightarrow> imt \<Rightarrow> imt res" where
  "sum_host_insert cfg = sum_insert (off_src_ip cfg) (off_dst_ip cfg) (sz_host_addr cfg) cfg"

definition sum_port_insert :: "imt_cfg \<Rightarrow> primitives_ptrs \<Rightarrow> imt \<Rightarrow> imt res" where
  "sum_port_insert cfg = sum_insert (off_src_port cfg) (off_dst_port cfg) 2 cfg"

definition sum_as_insert :: "imt_cfg \<Rightarrow> primitives_ptrs \<Rightarrow> imt \<Rightarrow> imt res" where
  "sum_as_insert cfg = sum_insert (off_src_as cfg) (off_dst_as cfg) 4 cfg"

definition sum_mac_insert :: "imt_cfg \<Rightarrow> primitives_ptrs \<Rightarrow> imt \<Rightarrow> imt res" where
  "sum_mac_insert cfg = sum_insert (off_eth_shost cfg) (off_eth_dhost cfg) 6 cfg"

text \<open>The two pools of a start or an erasure: the table and the first pool of chained elements.\<close>

definition two_pools :: "imt_cfg \<Rightarrow> imt \<Rightarrow> imt res" where
  "two_pools cfg st =
     rbind (request_memory_pool cfg (cfg_buckets cfg * sz_acc cfg) st) (\<lambda>(r, st1). case r of
       None \<Rightarrow> Inl Exit_All
     | Some c \<Rightarrow> rbind (rd_mp st1 c) (\<lambda>d. case mp_base_ptr d of
         None \<Rightarrow> Inl Null_Deref
       | Some s \<Rightarrow>
           rbind (request_memory_pool cfg (cfg_memory_pool_size cfg) (st1\<lparr>i_current_pool := Some c, i_a := s\<rparr>)) (\<lambda>(r2, st2). case r2 of
             None \<Rightarrow> Inl Exit_All
           | Some c2 \<Rightarrow> Inr (st2\<lparr>i_current_pool := Some c2\<rparr>))))"

definition imt_start :: "imt_cfg \<Rightarrow> nat \<Rightarrow> imt res" where
  "imt_start cfg maps =
     two_pools cfg (init_memory_pool_table cfg
       \<lparr>i_mem = [], i_mpd = [], i_current_pool = None, i_a = 0, i_lru = replicate (cfg_buckets cfg) None,
        i_no_more_space = False, i_cycle_stamp = timeval_zero, i_table_reset_stamp = timeval_zero, i_maps_left = maps\<rparr>)"

definition imt_erase :: "imt_cfg \<Rightarrow> imt \<Rightarrow> imt res" where
  "imt_erase cfg st =
     rbind (clear_memory_pool_table cfg st) (\<lambda>st1.
     rbind (two_pools cfg st1) (\<lambda>st2.
       Inr (st2\<lparr>i_no_more_space := False, i_table_reset_stamp := i_cycle_stamp st2\<rparr>)))"

end
