(* ===== verification/Imt_Table.thy ===== *)
theory Imt_Table
  imports Imt_Acct
begin

text \<open>
  The shape of the in-memory table of \<^verbatim>\<open>src/src/acct.c\<close>: keys of packets and elements, chains of elements,
  and the totals the table holds for a key.
\<close>

section \<open>Keys\<close>

text \<open>A packet as the plugin hands it over: no structure is missing, and the BGP strings that are not
  accounted are zero.\<close>

definition key_ok :: "imt_cfg \<Rightarrow> primitives_ptrs \<Rightarrow> bool" where
  "key_ok cfg k \<longleftrightarrow> pp_pbgp k \<noteq> None \<and> pp_pnat k \<noteq> None \<and> pp_pmpls k \<noteq> None \<and> pp_pcust k \<noteq> None \<and> pp_pvlen k \<noteq> None \<and>
     (case pp_plbgp k of None \<Rightarrow> False | Some l \<Rightarrow>
        cache_to_pkt_legacy_bgp_primitives
          (pkt_to_cache_legacy_bgp_primitives l (cfg_what_to_count cfg) (cfg_what_to_count_2 cfg)) = l)"

datatype akey = AKey u32 "byte list" "byte list option" "byte list option" "byte list option" "byte list option"
  "byte list option" "byte list option"

definition akey :: "imt_cfg \<Rightarrow> primitives_ptrs \<Rightarrow> akey" where
  "akey cfg k = AKey (prim_hash cfg k) (pd_primitives (pp_data k)) (pp_pbgp k) (map_option lbgp_bytes (pp_plbgp k))
     (pp_pnat k) (pp_pmpls k) (pp_pcust k) (pp_pvlen k)"

definition ekey :: "acc \<Rightarrow> akey" where
  "ekey e = AKey (signature e) (acc_primitives e) (acc_pbgp e)
     (map_option (\<lambda>c. lbgp_bytes (cache_to_pkt_legacy_bgp_primitives c)) (acc_clbgp e))
     (acc_pnat e) (acc_pmpls e) (acc_pcust e) (acc_pvlen e)"

definition elem_ok :: "acc \<Rightarrow> bool" where
  "elem_ok e \<longleftrightarrow> acc_clbgp e = None \<or>
     acc_pbgp e \<noteq> None \<and> acc_pnat e \<noteq> None \<and> acc_pmpls e \<noteq> None \<and> acc_pcust e \<noteq> None \<and> acc_pvlen e \<noteq> None"

text \<open>The test of the walks decides whether the element has the key of the packet.\<close>

lemma compare_key:
  assumes "key_ok cfg k" "elem_ok e"
  shows "signature e = prim_hash cfg k \<and> \<not> compare_accounting_structure e k \<longleftrightarrow> ekey e = akey cfg k"
proof -
  obtain b l n m c v where k: "pp_pbgp k = Some b" "pp_plbgp k = Some l" "pp_pnat k = Some n" "pp_pmpls k = Some m"
      "pp_pcust k = Some c" "pp_pvlen k = Some v"
    using assms(1) by (auto simp: key_ok_def split: option.splits)
  show ?thesis
  proof (cases "acc_clbgp e")
    case None
    then show ?thesis using k by (simp add: compare_accounting_structure_def ekey_def akey_def)
  next
    case (Some cl)
    then obtain b' n' m' c' v' where e: "acc_pbgp e = Some b'" "acc_pnat e = Some n'" "acc_pmpls e = Some m'"
        "acc_pcust e = Some c'" "acc_pvlen e = Some v'"
      using assms(2) by (auto simp: elem_ok_def)
    show ?thesis
      using k e Some
      by (auto simp: compare_accounting_structure_def opt_differ_def vlen_prims_cmp_def ekey_def akey_def)
  qed
qed

lemma akey_same_hash: "akey cfg k = akey cfg k' \<Longrightarrow> prim_hash cfg k = prim_hash cfg k'"
  by (simp add: akey_def)

section \<open>Effects on one element\<close>

text \<open>The counters of an element that a query has asked to reset count as zero.\<close>

definition eff_bytes :: "acc \<Rightarrow> u64" where
  "eff_bytes e = (if reset_flag e then 0 else bytes_counter e)"

definition eff_packets :: "acc \<Rightarrow> u64" where
  "eff_packets e = (if reset_flag e then 0 else packet_counter e)"

lemmas acc_steps = acc_hit_def acc_reuse_def acc_new_def acc_add_def acc_take_def reset_counters_def Let_def

lemma acc_hit_simps:
  assumes "\<not> count_class cfg"
  shows "ekey (acc_hit cfg s d e) = ekey e" "elem_ok (acc_hit cfg s d e) = elem_ok e"
    "acc_clbgp (acc_hit cfg s d e) = acc_clbgp e" "signature (acc_hit cfg s d e) = signature e"
    "acc_next (acc_hit cfg s d e) = acc_next e"
    "eff_bytes (acc_hit cfg s d e) = eff_bytes e + pd_pkt_len d"
    "eff_packets (acc_hit cfg s d e) = eff_packets e + pd_pkt_num d"
  using assms by (simp_all add: acc_steps ekey_def elem_ok_def eff_bytes_def eff_packets_def)

lemma acc_reuse_simps:
  assumes "\<not> count_class cfg" "key_ok cfg k" "bytes_counter e = 0" "packet_counter e = 0"
  shows "ekey (acc_reuse cfg k (prim_hash cfg k) e) = akey cfg k" "elem_ok (acc_reuse cfg k h e)"
    "signature (acc_reuse cfg k h e) = h" "acc_next (acc_reuse cfg k h e) = acc_next e"
    "eff_bytes (acc_reuse cfg k h e) = pd_pkt_len (pp_data k)" "eff_packets (acc_reuse cfg k h e) = pd_pkt_num (pp_data k)"
  using assms
  by (auto simp: acc_steps ekey_def akey_def elem_ok_def eff_bytes_def eff_packets_def key_ok_def split: option.splits)

lemma acc_new_simps:
  assumes "\<not> count_class cfg" "key_ok cfg k"
  shows "ekey (acc_new cfg k (prim_hash cfg k) acc_zero) = akey cfg k" "elem_ok (acc_new cfg k h acc_zero)"
    "signature (acc_new cfg k h acc_zero) = h" "acc_next (acc_new cfg k h acc_zero) = None"
    "eff_bytes (acc_new cfg k h acc_zero) = pd_pkt_len (pp_data k)"
    "eff_packets (acc_new cfg k h acc_zero) = pd_pkt_num (pp_data k)"
  using assms
  by (auto simp: acc_steps ekey_def akey_def elem_ok_def eff_bytes_def eff_packets_def key_ok_def acc_zero_def split: option.splits)

section \<open>Memory and totals\<close>

definition inb :: "acc list list \<Rightarrow> eptr \<Rightarrow> bool" where
  "inb m p \<longleftrightarrow> fst p < length m \<and> snd p < length (m ! fst p)"

definition elem_at :: "acc list list \<Rightarrow> eptr \<Rightarrow> acc" where
  "elem_at m p = m ! fst p ! snd p"

definition upd :: "acc list list \<Rightarrow> eptr \<Rightarrow> acc \<Rightarrow> acc list list" where
  "upd m p e = m[fst p := (m ! fst p)[snd p := e]]"

lemma rd_acc_eq [simp]: "inb m p \<Longrightarrow> rd_acc m p = Inr (elem_at m p)"
  by (simp add: rd_acc_def inb_def elem_at_def)

lemma put_acc_eq [simp]: "inb (i_mem st) p \<Longrightarrow> put_acc st p e = Inr (st\<lparr>i_mem := upd (i_mem st) p e\<rparr>)"
  by (simp add: put_acc_def wr_acc_def inb_def upd_def)

lemma inb_upd [simp]: "inb (upd m p e) q = inb m q"
  by (cases "fst p < length m") (auto simp: inb_def upd_def nth_list_update)

lemma elem_at_upd: "inb m p \<Longrightarrow> inb m q \<Longrightarrow> elem_at (upd m p e) q = (if q = p then e else elem_at m q)"
  by (auto simp: inb_def upd_def elem_at_def nth_list_update prod_eq_iff)

lemma length_upd [simp]: "length (upd m p e) = length m" "length (upd m p e ! j) = length (m ! j)"
proof -
  show "length (upd m p e) = length m" by (simp add: upd_def)
  show "length (upd m p e ! j) = length (m ! j)"
    by (cases "fst p < length m"; cases "j = fst p") (simp_all add: upd_def list_update_beyond)
qed

definition total :: "(acc \<Rightarrow> u64) \<Rightarrow> akey \<Rightarrow> acc list list \<Rightarrow> u64" where
  "total f K m = (\<Sum>e \<leftarrow> concat m. if ekey e = K then f e else 0)"

lemma sum_list_upd:
  fixes g :: "acc \<Rightarrow> u64"
  assumes "inb m p"
  shows "(\<Sum>e \<leftarrow> concat (upd m p e'). g e) = (\<Sum>e \<leftarrow> concat m. g e) + (g e' - g (elem_at m p))"
proof -
  have one: "(\<Sum>e \<leftarrow> xs[i := e']. g e) = (\<Sum>e \<leftarrow> xs. g e) + (g e' - g (xs ! i))" if "i < length xs" for xs i
    using that by (induction xs arbitrary: i) (auto simp: nth_Cons split: nat.splits)
  have two: "(\<Sum>e \<leftarrow> concat (m[s := ys]). g e) = (\<Sum>e \<leftarrow> concat m. g e) + ((\<Sum>e \<leftarrow> ys. g e) - (\<Sum>e \<leftarrow> m ! s. g e))"
    if "s < length m" for m s and ys
    using that by (induction m arbitrary: s) (auto simp: nth_Cons split: nat.splits)
  show ?thesis using assms by (simp add: upd_def two one inb_def elem_at_def)
qed

lemma total_upd:
  assumes "inb m p"
  shows "total f K (upd m p e') =
    total f K m + ((if ekey e' = K then f e' else 0) - (if ekey (elem_at m p) = K then f (elem_at m p) else 0))"
  unfolding total_def by (rule sum_list_upd [OF assms])

lemma total_append_zero: "f acc_zero = 0 \<Longrightarrow> total f K (m @ [replicate n acc_zero]) = total f K m"
  by (simp add: total_def sum_list_replicate)

lemma eff_zero [simp]: "eff_bytes acc_zero = 0" "eff_packets acc_zero = 0" "elem_ok acc_zero" "acc_clbgp acc_zero = None"
  by (simp_all add: eff_bytes_def eff_packets_def acc_zero_def elem_ok_def)

text \<open>What inserting the packet does to the totals of a key.\<close>

definition counted :: "imt_cfg \<Rightarrow> primitives_ptrs \<Rightarrow> acc list list \<Rightarrow> acc list list \<Rightarrow> bool" where
  "counted cfg k m m' \<longleftrightarrow> (\<forall>K.
     total eff_bytes K m' = total eff_bytes K m + (if K = akey cfg k then pd_pkt_len (pp_data k) else 0) \<and>
     total eff_packets K m' = total eff_packets K m + (if K = akey cfg k then pd_pkt_num (pp_data k) else 0))"

lemma counted_hit:
  assumes "inb m p" "\<not> count_class cfg" "ekey (elem_at m p) = akey cfg k"
  shows "counted cfg k m (upd m p (acc_hit cfg s (pp_data k) (elem_at m p)))"
  using assms by (simp add: counted_def total_upd acc_hit_simps)

lemma counted_reuse:
  assumes "inb m p" "\<not> count_class cfg" "key_ok cfg k" "bytes_counter (elem_at m p) = 0" "packet_counter (elem_at m p) = 0"
  shows "counted cfg k m (upd m p (acc_reuse cfg k (prim_hash cfg k) (elem_at m p)))"
proof -
  have "eff_bytes (elem_at m p) = 0" "eff_packets (elem_at m p) = 0" using assms(4,5) by (simp_all add: eff_bytes_def eff_packets_def)
  then show ?thesis using assms by (simp add: counted_def total_upd acc_reuse_simps)
qed

lemma ekey_next [simp]: "ekey (e\<lparr>acc_next := q\<rparr>) = ekey e" "eff_bytes (e\<lparr>acc_next := q\<rparr>) = eff_bytes e"
  "eff_packets (e\<lparr>acc_next := q\<rparr>) = eff_packets e" "elem_ok (e\<lparr>acc_next := q\<rparr>) = elem_ok e"
  by (simp_all add: ekey_def eff_bytes_def eff_packets_def elem_ok_def)

lemma counted_new:
  assumes "inb m p" "inb m q" "p \<noteq> q" "\<not> count_class cfg" "key_ok cfg k" "elem_at m q = acc_zero"
  shows "counted cfg k m
    (upd (upd m p ((elem_at m p)\<lparr>acc_next := Some q\<rparr>)) q (acc_new cfg k (prim_hash cfg k) acc_zero))"
  using assms by (simp add: counted_def total_upd elem_at_upd acc_new_simps)

section \<open>Chains\<close>

fun linked :: "acc list list \<Rightarrow> eptr list \<Rightarrow> bool" where
  "linked m [] = False"
| "linked m [p] \<longleftrightarrow> inb m p \<and> acc_next (elem_at m p) = None"
| "linked m (p # q # ps) \<longleftrightarrow> inb m p \<and> acc_next (elem_at m p) = Some q \<and> linked m (q # ps)"

lemma linked_inb: "linked m ps \<Longrightarrow> p \<in> set ps \<Longrightarrow> inb m p"
  by (induction m ps rule: linked.induct) auto

lemma linked_upd:
  assumes "inb m p" "acc_next e = acc_next (elem_at m p)"
  shows "linked m ps \<Longrightarrow> linked (upd m p e) ps"
  using assms by (induction m ps rule: linked.induct) (auto simp: elem_at_upd)

lemma linked_upd_other: "inb m p \<Longrightarrow> p \<notin> set ps \<Longrightarrow> linked m ps \<Longrightarrow> linked (upd m p e) ps"
  by (induction m ps rule: linked.induct) (auto simp: elem_at_upd)

lemma linked_snoc:
  assumes "inb m p" "inb m q" "acc_next e = Some q" "acc_next e' = None"
  shows "linked m ps \<Longrightarrow> distinct ps \<Longrightarrow> last ps = p \<Longrightarrow> q \<notin> set ps \<Longrightarrow> linked (upd (upd m p e) q e') (ps @ [q])"
  using assms
proof (induction m ps rule: linked.induct)
  case (3 m x y ps)
  have "p \<in> set (y # ps)" using "3.prems"(3) by auto
  then have "x \<noteq> p" using "3.prems"(2) by auto
  then show ?case using 3 by (auto simp: elem_at_upd)
qed (auto simp: elem_at_upd)

lemma linked_append_seg: "linked m ps \<Longrightarrow> linked (m @ [ys]) ps"
  by (induction m ps rule: linked.induct) (auto simp: inb_def elem_at_def nth_append)

text \<open>The table: the chains of the buckets share no element, every element outside them is zero, and an
  element in use is in the chain of its signature.\<close>

definition table_ok :: "imt_cfg \<Rightarrow> acc list list \<Rightarrow> eptr list list \<Rightarrow> bool" where
  "table_ok cfg m cs \<longleftrightarrow> length cs = cfg_buckets cfg \<and> distinct (concat cs) \<and>
     (\<forall>pos < cfg_buckets cfg. linked m (cs ! pos) \<and> hd (cs ! pos) = (0, pos)) \<and>
     (\<forall>p. inb m p \<longrightarrow> p \<notin> set (concat cs) \<longrightarrow> elem_at m p = acc_zero) \<and>
     (\<forall>pos < cfg_buckets cfg. \<forall>p \<in> set (cs ! pos). elem_ok (elem_at m p) \<and>
        (acc_clbgp (elem_at m p) \<noteq> None \<longrightarrow> unat (signature (elem_at m p)) mod cfg_buckets cfg = pos))"

lemma table_okD:
  assumes "table_ok cfg m cs" "pos < cfg_buckets cfg"
  shows "linked m (cs ! pos)" "hd (cs ! pos) = (0, pos)" "p \<in> set (cs ! pos) \<Longrightarrow> elem_ok (elem_at m p)"
    "p \<in> set (cs ! pos) \<Longrightarrow> p \<in> set (concat cs)"
    "p \<in> set (cs ! pos) \<Longrightarrow> acc_clbgp (elem_at m p) \<noteq> None \<Longrightarrow> unat (signature (elem_at m p)) mod cfg_buckets cfg = pos"
  using assms by (auto simp: table_ok_def)

lemma table_ok_zero: "table_ok cfg m cs \<Longrightarrow> inb m p \<Longrightarrow> p \<notin> set (concat cs) \<Longrightarrow> elem_at m p = acc_zero"
  unfolding table_ok_def by blast

lemma table_ok_elem: "table_ok cfg m cs \<Longrightarrow> inb m p \<Longrightarrow> elem_ok (elem_at m p)"
proof -
  assume t: "table_ok cfg m cs" and p: "inb m p"
  show ?thesis
  proof (cases "p \<in> set (concat cs)")
    case True
    then obtain pos where "pos < length cs" "p \<in> set (cs ! pos)" by (auto simp: in_set_conv_nth [of _ cs])
    then show ?thesis using t table_okD(3) by (simp add: table_ok_def)
  next
    case False
    then show ?thesis using table_ok_zero [OF t p] by simp
  qed
qed

lemma concat_nth_disjoint:
  assumes "distinct (concat cs)" "i < length cs" "j < length cs" "i \<noteq> j" "p \<in> set (cs ! i)"
  shows "p \<notin> set (cs ! j)"
proof -
  have disj: "set (cs ! i) \<inter> set (cs ! j) = {}" if "i < j" "j < length cs" "distinct (concat cs)" for i j and cs :: "'a list list"
  proof -
    have "cs = take j cs @ cs ! j # drop (Suc j) cs" using that(2) by (simp add: id_take_nth_drop)
    then have "distinct (concat (take j cs) @ cs ! j)"
      using that(3) by (metis concat.simps(2) concat_append distinct_append append_assoc)
    moreover have "cs ! i \<in> set (take j cs)" using that(1,2) by (auto simp: in_set_conv_nth)
    ultimately show ?thesis by auto
  qed
  show ?thesis using disj [of i j cs] disj [of j i cs] assms by (cases "i < j") auto
qed

lemma table_ok_upd:
  assumes t: "table_ok cfg m cs" and p: "inb m p" "acc_next e = acc_next (elem_at m p)" "elem_ok e" "acc_clbgp e \<noteq> None"
    and pos: "pos < cfg_buckets cfg" "p \<in> set (cs ! pos)" "unat (signature e) mod cfg_buckets cfg = pos"
  shows "table_ok cfg (upd m p e) cs"
proof -
  have len: "length cs = cfg_buckets cfg" "distinct (concat cs)" using t by (simp_all add: table_ok_def)
  have "elem_at (upd m p e) q = acc_zero" if "inb m q" "q \<notin> set (concat cs)" for q
  proof -
    have "q \<noteq> p" using that(2) table_okD(4) [OF t pos(1,2)] by blast
    then show ?thesis using table_ok_zero [OF t that] that(1) p(1) by (simp add: elem_at_upd)
  qed
  moreover have "elem_ok (elem_at (upd m p e) q) \<and>
      (acc_clbgp (elem_at (upd m p e) q) \<noteq> None \<longrightarrow> unat (signature (elem_at (upd m p e) q)) mod cfg_buckets cfg = i)"
    if q: "i < cfg_buckets cfg" "q \<in> set (cs ! i)" for i q
  proof (cases "q = p")
    case True
    then have "i = pos" using concat_nth_disjoint [OF len(2), of i pos] len(1) q pos(1,2) by metis
    then show ?thesis using True p pos(3) by (simp add: elem_at_upd)
  next
    case False
    have "inb m q" using linked_inb [OF table_okD(1) [OF t q(1)] q(2)] .
    then show ?thesis using False p(1) table_okD(3,5) [OF t q(1,2)] by (simp add: elem_at_upd)
  qed
  ultimately show ?thesis
    using len t linked_upd [OF p(1,2)] unfolding table_ok_def inb_upd by blast
qed

lemma table_ok_snoc:
  assumes t: "table_ok cfg m cs" and pos: "pos < cfg_buckets cfg" "last (cs ! pos) = p"
    and q: "inb m q" "q \<notin> set (concat cs)" "elem_ok e'" "acc_next e' = None" "unat (signature e') mod cfg_buckets cfg = pos"
  shows "table_ok cfg (upd (upd m p ((elem_at m p)\<lparr>acc_next := Some q\<rparr>)) q e') (cs[pos := cs ! pos @ [q]])"
    (is "table_ok cfg ?m ?cs")
proof -
  have len: "length cs = cfg_buckets cfg" "distinct (concat cs)" using t by (simp_all add: table_ok_def)
  have ne: "cs ! pos \<noteq> []" using table_okD(1) [OF t pos(1)] by auto
  then have ps: "p \<in> set (cs ! pos)" using pos(2) by (metis last_in_set)
  have p: "inb m p" "p \<in> set (concat cs)" using linked_inb [OF table_okD(1) [OF t pos(1)] ps] table_okD(4) [OF t pos(1) ps] by simp_all
  have at: "elem_at ?m x = (if x = q then e' else if x = p then (elem_at m p)\<lparr>acc_next := Some q\<rparr> else elem_at m x)"
    if "inb m x" for x using that p q(1) by (simp add: elem_at_upd)
  have split: "cs = take pos cs @ cs ! pos # drop (Suc pos) cs" using pos(1) len(1) by (simp add: id_take_nth_drop)
  have cc: "concat ?cs = concat (take pos cs) @ (cs ! pos @ [q]) @ concat (drop (Suc pos) cs)"
    using pos(1) len(1) by (simp add: upd_conv_take_nth_drop)
  have cc0: "concat cs = concat (take pos cs) @ cs ! pos @ concat (drop (Suc pos) cs)" using split by (metis concat.simps(2) concat_append)
  have set: "set (concat ?cs) = insert q (set (concat cs))" unfolding cc cc0 by auto
  have "distinct (concat ?cs)" using len(2) q(2) unfolding cc cc0 by auto
  moreover have "linked ?m (?cs ! i) \<and> hd (?cs ! i) = (0, i)" if i: "i < cfg_buckets cfg" for i
  proof (cases "i = pos")
    case True
    have "distinct (cs ! pos)" using len pos(1) by (simp add: distinct_concat_iff)
    moreover have "q \<notin> set (cs ! pos)" using q(2) table_okD(4) [OF t pos(1)] by blast
    ultimately have "linked ?m (cs ! pos @ [q])"
      using table_okD(1) [OF t pos(1)] pos(2) p(1) q(1,4) by (intro linked_snoc) simp_all
    then show ?thesis using True table_okD(2) [OF t pos(1)] ne len(1) pos(1) by simp
  next
    case False
    have "p \<notin> set (cs ! i)" using concat_nth_disjoint [OF len(2), of pos i] False i pos(1) len(1) ps by metis
    moreover have "q \<notin> set (cs ! i)" using q(2) table_okD(4) [OF t i] by blast
    ultimately have "linked ?m (cs ! i)"
      using table_okD(1) [OF t i] p(1) q(1) by (intro linked_upd_other) simp_all
    then show ?thesis using False table_okD(2) [OF t i] by simp
  qed
  moreover have "elem_at ?m x = acc_zero" if "inb m x" "x \<notin> set (concat ?cs)" for x
    using that(2) p(2) table_ok_zero [OF t that(1)] unfolding set at [OF that(1)] by auto
  moreover have "elem_ok (elem_at ?m x) \<and> (acc_clbgp (elem_at ?m x) \<noteq> None \<longrightarrow> unat (signature (elem_at ?m x)) mod cfg_buckets cfg = i)"
    if i: "i < cfg_buckets cfg" and x: "x \<in> set (?cs ! i)" for i x
  proof (cases "x = q")
    case True
    have "i = pos"
    proof (rule ccontr)
      assume "i \<noteq> pos"
      then have "q \<in> set (cs ! i)" using x True by simp
      then show False using q(2) table_okD(4) [OF t i] by blast
    qed
    then show ?thesis using True q by (simp add: at)
  next
    case False
    then have x': "x \<in> set (cs ! i)" using x len(1) i by (cases "i = pos") auto
    then have "inb m x" using linked_inb [OF table_okD(1) [OF t i]] by blast
    then show ?thesis using False table_okD(3,5) [OF t i x'] by (cases "x = p") (simp_all add: at)
  qed
  ultimately show ?thesis using len(1) unfolding table_ok_def inb_upd length_list_update by blast
qed

lemma table_ok_append_seg: "table_ok cfg m cs \<Longrightarrow> table_ok cfg (m @ [replicate n acc_zero]) cs"
proof -
  assume t: "table_ok cfg m cs"
  have old: "elem_at (m @ [replicate n acc_zero]) p = elem_at m p" if "inb m p" for p
    using that by (simp add: inb_def elem_at_def nth_append)
  have new: "elem_at (m @ [replicate n acc_zero]) p = acc_zero" if "inb (m @ [replicate n acc_zero]) p" "\<not> inb m p" for p
    using that by (auto simp: inb_def elem_at_def nth_append split: if_splits)
  show ?thesis
    unfolding table_ok_def
  proof (intro conjI allI impI ballI)
    fix p assume "inb (m @ [replicate n acc_zero]) p" "p \<notin> set (concat cs)"
    then show "elem_at (m @ [replicate n acc_zero]) p = acc_zero"
      using table_ok_zero [OF t] old new by (cases "inb m p") simp_all
  next
    fix pos p assume pos: "pos < cfg_buckets cfg" "p \<in> set (cs ! pos)"
    note o = old [OF linked_inb [OF table_okD(1) [OF t pos(1)] pos(2)]]
    show "elem_ok (elem_at (m @ [replicate n acc_zero]) p)" using o table_okD(3) [OF t pos] by simp
    assume "acc_clbgp (elem_at (m @ [replicate n acc_zero]) p) \<noteq> None"
    then show "unat (signature (elem_at (m @ [replicate n acc_zero]) p)) mod cfg_buckets cfg = pos"
      using o table_okD(5) [OF t pos] by simp
  qed (use t linked_append_seg in \<open>auto simp: table_ok_def\<close>)
qed

end
