(* ===== verification/Imt_Refine.thy ===== *)
theory Imt_Refine
  imports Imt_Table
begin

text \<open>
  Correctness of the in-memory table of \<^verbatim>\<open>src/src/acct.c\<close> and \<^verbatim>\<open>src/src/memory.c\<close>: the memory pools hand out zeroed
  elements that are not in use, every insertion adds the packet to the totals of its key and to
  no other, and an erasure starts over.
\<close>

section \<open>Memory pools\<close>

definition cfg_ok :: "imt_cfg \<Rightarrow> bool" where
  "cfg_ok cfg \<longleftrightarrow> 0 < cfg_buckets cfg \<and> 0 < sz_acc cfg \<and> sz_acc cfg \<le> cfg_memory_pool_size cfg \<and> 0 < cfg_num_memory_pools cfg"

definition seg_size :: "imt_cfg \<Rightarrow> nat \<Rightarrow> nat" where
  "seg_size cfg j = (if j = 0 then cfg_buckets cfg * sz_acc cfg else cfg_memory_pool_size cfg)"

text \<open>The descriptor \<open>j\<close> describes the segment \<open>j\<close>; the descriptors of mapped segments are linked in
  order, and the last one may point to the next descriptor when a mapping failed.\<close>

definition desc_ok :: "imt_cfg \<Rightarrow> nat \<Rightarrow> nat \<Rightarrow> memory_pool_desc \<Rightarrow> bool" where
  "desc_ok cfg n j d \<longleftrightarrow>
     (if j < n then mp_base_ptr d = Some j \<and> mp_len d = seg_size cfg j \<and>
        (mp_next d = Some (j + 1) \<or> j + 1 = n \<and> mp_next d = None)
      else mp_base_ptr d = None \<and> mp_len d = 0 \<and> mp_next d = None)"

lemma desc_ok_update [simp]:
  "desc_ok cfg n j (d\<lparr>mp_id := x\<rparr>) = desc_ok cfg n j d" "desc_ok cfg n j (d\<lparr>mp_ptr := x\<rparr>) = desc_ok cfg n j d"
  "desc_ok cfg n j (d\<lparr>mp_space_left := x\<rparr>) = desc_ok cfg n j d"
  by (simp_all add: desc_ok_def)

definition pools_ok :: "imt_cfg \<Rightarrow> imt \<Rightarrow> bool" where
  "pools_ok cfg st \<longleftrightarrow> length (i_mpd st) = cfg_num_memory_pools cfg + 1 \<and>
     2 \<le> length (i_mem st) \<and> length (i_mem st) \<le> cfg_num_memory_pools cfg \<and>
     (\<forall>j < length (i_mpd st). desc_ok cfg (length (i_mem st)) j (i_mpd st ! j)) \<and>
     (\<forall>j < length (i_mem st). length (i_mem st ! j) = seg_size cfg j div sz_acc cfg)"

text \<open>The current pool is \<open>c\<close>, with \<open>u\<close> elements in use.\<close>

definition current_ok :: "imt_cfg \<Rightarrow> imt \<Rightarrow> nat \<Rightarrow> nat \<Rightarrow> bool" where
  "current_ok cfg st c u \<longleftrightarrow> i_current_pool st = Some c \<and> 0 < c \<and> c < length (i_mem st) \<and>
     mp_id (i_mpd st ! c) = c + 1 \<and> mp_ptr (i_mpd st ! c) = u * sz_acc cfg \<and> u * sz_acc cfg \<le> cfg_memory_pool_size cfg \<and>
     mp_space_left (i_mpd st ! c) = cfg_memory_pool_size cfg - u * sz_acc cfg"

text \<open>What the pool operations leave alone.\<close>

definition same_rest :: "imt \<Rightarrow> imt \<Rightarrow> bool" where
  "same_rest st st' \<longleftrightarrow> i_a st' = i_a st \<and> i_lru st' = i_lru st \<and> i_no_more_space st' = i_no_more_space st \<and>
     i_cycle_stamp st' = i_cycle_stamp st \<and> i_table_reset_stamp st' = i_table_reset_stamp st"

lemma rd_mp_eq [simp]: "i < length (i_mpd st) \<Longrightarrow> rd_mp st i = Inr (i_mpd st ! i)"
  by (simp add: rd_mp_def)

lemma wr_mp_eq [simp]: "i < length (i_mpd st) \<Longrightarrow> wr_mp st i d = Inr (st\<lparr>i_mpd := (i_mpd st)[i := d]\<rparr>)"
  by (simp add: wr_mp_def)

lemma pools_okD:
  assumes "pools_ok cfg st"
  shows "length (i_mpd st) = cfg_num_memory_pools cfg + 1" "0 < length (i_mem st)" "1 < length (i_mem st)"
    "length (i_mem st) \<le> cfg_num_memory_pools cfg"
    "j \<le> length (i_mem st) \<Longrightarrow> desc_ok cfg (length (i_mem st)) j (i_mpd st ! j)"
    "j < length (i_mem st) \<Longrightarrow> length (i_mem st ! j) = seg_size cfg j div sz_acc cfg"
proof -
  note ok = assms [unfolded pools_ok_def]
  show "length (i_mpd st) = cfg_num_memory_pools cfg + 1" using ok by simp
  show "0 < length (i_mem st)" "1 < length (i_mem st)" using ok by linarith+
  show "length (i_mem st) \<le> cfg_num_memory_pools cfg" using ok by simp
  show "j \<le> length (i_mem st) \<Longrightarrow> desc_ok cfg (length (i_mem st)) j (i_mpd st ! j)" using ok by auto
  show "j < length (i_mem st) \<Longrightarrow> length (i_mem st ! j) = seg_size cfg j div sz_acc cfg" using ok by simp
qed

lemma pools_ok_mpd:
  assumes "pools_ok cfg st" "desc_ok cfg (length (i_mem st)) c d"
  shows "pools_ok cfg (st\<lparr>i_mpd := (i_mpd st)[c := d]\<rparr>)"
proof -
  have "desc_ok cfg (length (i_mem st)) j ((i_mpd st)[c := d] ! j)" if "j < length (i_mpd st)" for j
    using assms that by (cases "j = c") (simp_all add: pools_ok_def)
  then show ?thesis using assms(1) by (simp add: pools_ok_def)
qed

lemma new_memory_pool_spec:
  assumes "cfg_ok cfg" "pools_ok cfg st" "c + 1 = length (i_mem st)" "mp_id (i_mpd st ! c) = c + 1" "0 < c"
  shows "\<exists>r st'. new_memory_pool cfg (cfg_memory_pool_size cfg) c st = Inr (r, st') \<and> pools_ok cfg st' \<and> same_rest st st' \<and>
     (r = None \<and> i_mem st' = i_mem st \<or>
      r = Some (c + 1) \<and> i_mem st' = i_mem st @ [replicate (cfg_memory_pool_size cfg div sz_acc cfg) acc_zero] \<and>
      mp_id (i_mpd st' ! (c + 1)) = c + 2 \<and> mp_ptr (i_mpd st' ! (c + 1)) = 0 \<and>
      mp_space_left (i_mpd st' ! (c + 1)) = cfg_memory_pool_size cfg)"
proof -
  let ?n = "cfg_num_memory_pools cfg" and ?m = "length (i_mem st)"
  have st: "length (i_mpd st) = ?n + 1" "?m \<le> ?n"
      "\<And>j. j < ?n + 1 \<Longrightarrow> desc_ok cfg ?m j (i_mpd st ! j)" "\<And>j. j < ?m \<Longrightarrow> length (i_mem st ! j) = seg_size cfg j div sz_acc cfg"
    using assms(2) by (simp_all add: pools_ok_def)
  have n: "?n \<noteq> 0" using assms(1) by (simp add: cfg_ok_def)
  have c: "c < length (i_mpd st)" using st(1,2) assms(3) by simp
  show ?thesis
  proof (cases "c + 2 > ?n")
    case True
    then have "new_memory_pool cfg (cfg_memory_pool_size cfg) c st = Inr (None, st)"
      using c n assms(4) by (simp add: new_memory_pool_def)
    then show ?thesis using assms(2) by (simp add: same_rest_def)
  next
    case False
    define d where "d = (i_mpd st ! c)\<lparr>mp_next := Some (c + 1)\<rparr>"
    define st2 where "st2 = st\<lparr>i_mpd := (i_mpd st)[c := d]\<rparr>"
    have c1: "c + 1 < length (i_mpd st)" using False st(1) by simp
    have dok: "desc_ok cfg ?m c d" "desc_ok cfg (?m + 1) c d" using st(3) [of c] st(1) c assms(3) by (simp_all add: desc_ok_def d_def)
    have p2: "pools_ok cfg st2" using pools_ok_mpd [OF assms(2) dok(1)] by (simp add: st2_def)
    show ?thesis
    proof (cases "i_maps_left st = 0")
      case True
      then have "new_memory_pool cfg (cfg_memory_pool_size cfg) c st = Inr (None, st2)"
        using False c n assms(4) by (simp add: new_memory_pool_def st2_def d_def)
      then show ?thesis using p2 by (simp add: same_rest_def st2_def)
    next
      case maps: False
      define nd where "nd = (i_mpd st ! (c + 1))\<lparr>mp_id := c + 2, mp_base_ptr := Some ?m, mp_ptr := 0,
          mp_space_left := cfg_memory_pool_size cfg, mp_len := cfg_memory_pool_size cfg\<rparr>"
      define st3 where "st3 = st\<lparr>i_mem := i_mem st @ [replicate (cfg_memory_pool_size cfg div sz_acc cfg) acc_zero],
          i_maps_left := i_maps_left st - 1, i_mpd := (i_mpd st)[c := d, c + 1 := nd]\<rparr>"
      have run: "new_memory_pool cfg (cfg_memory_pool_size cfg) c st = Inr (Some (c + 1), st3)"
        using False maps c c1 n assms(4) by (simp add: new_memory_pool_def st3_def d_def nd_def)
      have "desc_ok cfg (?m + 1) j ((i_mpd st)[c := d, c + 1 := nd] ! j)" if j: "j < ?n + 1" for j
        using st(3) [OF j] st(3) [of "c + 1"] j c1 st(1) dok(2) assms(3,5)
        by (auto simp: nth_list_update nd_def desc_ok_def seg_size_def)
      then have "pools_ok cfg st3"
        using st assms(2,3) False by (auto simp: pools_ok_def st3_def nth_append seg_size_def)
      then show ?thesis using run c1 by (auto simp: same_rest_def st3_def nd_def)
    qed
  qed
qed

lemma request_memory_pool_spec:
  assumes "cfg_ok cfg" "pools_ok cfg st" "current_ok cfg st c u"
    "c + 1 < length (i_mem st) \<Longrightarrow> i_mem st ! (c + 1) = replicate (cfg_memory_pool_size cfg div sz_acc cfg) acc_zero"
  shows "\<exists>r st'. request_memory_pool cfg (cfg_memory_pool_size cfg) st = Inr (r, st') \<and> pools_ok cfg st' \<and> same_rest st st' \<and>
     (r = None \<and> i_mem st' = i_mem st \<or>
      r = Some (c + 1) \<and> (c + 1 < length (i_mem st) \<and> i_mem st' = i_mem st \<or>
        c + 1 = length (i_mem st) \<and> i_mem st' = i_mem st @ [replicate (cfg_memory_pool_size cfg div sz_acc cfg) acc_zero]) \<and>
      mp_id (i_mpd st' ! (c + 1)) = c + 2 \<and> mp_ptr (i_mpd st' ! (c + 1)) = 0 \<and>
      mp_space_left (i_mpd st' ! (c + 1)) = cfg_memory_pool_size cfg)"
proof -
  let ?n = "cfg_num_memory_pools cfg" and ?m = "length (i_mem st)" and ?sz = "cfg_memory_pool_size cfg"
  have st: "length (i_mpd st) = ?n + 1" "?m \<le> ?n"
      "\<And>j. j < ?n + 1 \<Longrightarrow> desc_ok cfg ?m j (i_mpd st ! j)"
    using assms(2) by (simp_all add: pools_ok_def)
  have c: "i_current_pool st = Some c" "c < ?m" "0 < c" "mp_id (i_mpd st ! c) = c + 1" using assms(3) by (simp_all add: current_ok_def)
  have cl: "c < length (i_mpd st)" using c(2) st(1,2) by simp
  have dc: "desc_ok cfg ?m c (i_mpd st ! c)" using st(1,3) cl by simp
  show ?thesis
  proof (cases "mp_next (i_mpd st ! c)")
    case None
    then have "c + 1 = ?m" using dc c(2) by (simp add: desc_ok_def)
    then show ?thesis
      using new_memory_pool_spec [OF assms(1,2) _ c(4) c(3)] None c(1) cl by (fastforce simp: request_memory_pool_def)
  next
    case (Some nx)
    then have nx: "nx = c + 1" using dc c(2) by (simp add: desc_ok_def)
    have c1: "c + 1 < length (i_mpd st)" using c(2) st(1,2) by simp
    define nd where "nd = (i_mpd st ! (c + 1))\<lparr>mp_id := c + 2\<rparr>"
    define st1 where "st1 = st\<lparr>i_mpd := (i_mpd st)[c + 1 := nd]\<rparr>"
    have dn: "desc_ok cfg ?m (c + 1) nd" using st(1) st(3) [of "c + 1"] c1 by (simp add: nd_def)
    have p1: "pools_ok cfg st1" using pools_ok_mpd [OF assms(2) dn] by (simp add: st1_def)
    show ?thesis
    proof (cases "c + 1 < ?m")
      case True
      then have d: "mp_len nd = ?sz" "mp_base_ptr nd = Some (c + 1)"
        using st(1) st(3) [of "c + 1"] c1 by (simp_all add: desc_ok_def nd_def seg_size_def)
      define st3 where "st3 = st1\<lparr>i_mpd := (i_mpd st1)[c + 1 := nd\<lparr>mp_ptr := 0, mp_space_left := ?sz\<rparr>]\<rparr>"
      have "(i_mem st)[c + 1 := replicate (?sz div sz_acc cfg) acc_zero] = i_mem st" using assms(4) [OF True] by (metis list_update_id)
      then have z: "zero_seg cfg st1 (mp_base_ptr nd) ?sz = Inr st1"
        using True assms(4) [OF True] by (simp add: zero_seg_def st1_def d)
      have w: "wr_mp st (c + 1) nd = Inr st1" "wr_mp st1 (c + 1) (nd\<lparr>mp_ptr := 0, mp_space_left := ?sz\<rparr>) = Inr st3"
        using c1 by (simp_all add: st1_def st3_def)
      have run: "request_memory_pool cfg ?sz st = Inr (Some (c + 1), st3)"
        unfolding request_memory_pool_def using c(1,4) cl c1 Some nx d z w by (simp add: nd_def Let_def)
      have "desc_ok cfg ?m (c + 1) (nd\<lparr>mp_ptr := 0, mp_space_left := ?sz\<rparr>)"
        using dn by simp
      then have "pools_ok cfg st3" using pools_ok_mpd [OF assms(2)] by (simp add: st3_def st1_def)
      then show ?thesis using run True c1 by (simp add: same_rest_def st3_def st1_def nd_def)
    next
      case False
      then have m: "c + 1 = ?m" using c(2) by simp
      have "mp_len nd = 0" using st(1) st(3) [of "c + 1"] c1 False by (simp add: desc_ok_def nd_def)
      moreover have "0 < ?sz" using assms(1) by (simp add: cfg_ok_def)
      ultimately have "request_memory_pool cfg ?sz st = new_memory_pool cfg ?sz c st1"
        using c(1,4) cl c1 Some nx by (simp add: request_memory_pool_def nd_def st1_def)
      moreover have "c + 1 = length (i_mem st1)" "mp_id (i_mpd st1 ! c) = c + 1" "i_mem st1 = i_mem st" "same_rest st1 = same_rest st"
        using m c(4) by (simp_all add: st1_def same_rest_def fun_eq_iff)
      ultimately show ?thesis using new_memory_pool_spec [OF assms(1) p1 _ _ c(3)] m by fastforce
    qed
  qed
qed

section \<open>New elements\<close>

text \<open>The chains use the pools before \<open>c\<close> and the first \<open>u\<close> elements of the pool \<open>c\<close>.\<close>

definition used_ok :: "eptr list list \<Rightarrow> nat \<Rightarrow> nat \<Rightarrow> bool" where
  "used_ok cs c u \<longleftrightarrow> (\<forall>p \<in> set (concat cs). fst p < c \<or> fst p = c \<and> snd p < u)"

lemma take_slot:
  assumes "cfg_ok cfg" "pools_ok cfg st" "current_ok cfg st c u" "used_ok cs c u" "(u + 1) * sz_acc cfg \<le> cfg_memory_pool_size cfg"
  defines "d \<equiv> i_mpd st ! c"
  defines "st' \<equiv> st\<lparr>i_mpd := (i_mpd st)[c := d\<lparr>mp_space_left := mp_space_left d - sz_acc cfg, mp_ptr := mp_ptr d + sz_acc cfg\<rparr>]\<rparr>"
  shows "c < length (i_mpd st)" "mp_base_ptr d = Some c" "mp_ptr d div sz_acc cfg = u" "pools_ok cfg st'" "same_rest st st'"
    "inb (i_mem st') (c, u)" "(c, u) \<notin> set (concat cs)" "current_ok cfg st' c (u + 1)" "used_ok cs c (u + 1)"
proof -
  have a: "0 < sz_acc cfg" using assms(1) by (simp add: cfg_ok_def)
  have cur: "0 < c" "c < length (i_mem st)" "mp_ptr d = u * sz_acc cfg" "mp_space_left d = cfg_memory_pool_size cfg - u * sz_acc cfg"
      "i_current_pool st = Some c" "mp_id d = c + 1"
    using assms(3) by (simp_all add: current_ok_def d_def)
  show c: "c < length (i_mpd st)" using assms(2) cur(2) by (simp add: pools_ok_def)
  have dok: "desc_ok cfg (length (i_mem st)) c d" using assms(2) c by (simp add: pools_ok_def d_def)
  then show "mp_base_ptr d = Some c" using cur(2) by (simp add: desc_ok_def)
  show "mp_ptr d div sz_acc cfg = u" using a cur(3) by simp
  show "pools_ok cfg st'" unfolding st'_def by (rule pools_ok_mpd [OF assms(2)]) (use dok in simp)
  show "same_rest st st'" by (simp add: same_rest_def st'_def)
  have "(u + 1) * sz_acc cfg div sz_acc cfg \<le> cfg_memory_pool_size cfg div sz_acc cfg" using assms(5) by (rule div_le_mono)
  then have "u < cfg_memory_pool_size cfg div sz_acc cfg" using a by simp
  then show "inb (i_mem st') (c, u)" using assms(2) cur(1,2) by (simp add: inb_def st'_def pools_ok_def seg_size_def)
  show "(c, u) \<notin> set (concat cs)" using assms(4) by (force simp: used_ok_def)
  show "current_ok cfg st' c (u + 1)" using cur c assms(5) by (simp add: current_ok_def st'_def d_def algebra_simps)
  show "used_ok cs c (u + 1)" using assms(4) by (force simp: used_ok_def)
qed

lemma alloc_elem_spec:
  assumes "cfg_ok cfg" "pools_ok cfg st" "current_ok cfg st c u" "used_ok cs c u" "table_ok cfg (i_mem st) cs"
  shows "\<exists>r st'. alloc_elem cfg st = Inr (r, st') \<and> pools_ok cfg st' \<and> same_rest st st' \<and>
     (i_mem st' = i_mem st \<or> (\<exists>n. i_mem st' = i_mem st @ [replicate n acc_zero])) \<and>
     (case r of None \<Rightarrow> i_mem st' = i_mem st \<and> i_current_pool st' = None
      | Some q \<Rightarrow> inb (i_mem st') q \<and> q \<notin> set (concat cs) \<and>
          (\<exists>c' u'. current_ok cfg st' c' u' \<and> used_ok cs c' u' \<and> fst q = c' \<and> snd q < u'))"
proof (cases "sz_acc cfg \<le> mp_space_left (i_mpd st ! c)")
  case True
  then have room: "(u + 1) * sz_acc cfg \<le> cfg_memory_pool_size cfg" using assms(3) by (auto simp: current_ok_def le_diff_conv2)
  note slot = take_slot [OF assms(1-4) room]
  have c: "i_current_pool st = Some c" using assms(3) by (simp add: current_ok_def)
  show ?thesis using True slot c by (fastforce simp: alloc_elem_def)
next
  case False
  have cur: "i_current_pool st = Some c" "0 < c" "c < length (i_mem st)" "c < length (i_mpd st)"
    using assms(2,3) by (simp_all add: current_ok_def pools_ok_def)
  let ?n = "cfg_memory_pool_size cfg div sz_acc cfg"
  have zero: "i_mem st ! (c + 1) = replicate ?n acc_zero" if l: "c + 1 < length (i_mem st)"
  proof (rule nth_equalityI)
    show len: "length (i_mem st ! (c + 1)) = length (replicate ?n acc_zero)" using assms(2) l by (simp add: pools_ok_def seg_size_def)
    fix i assume i: "i < length (i_mem st ! (c + 1))"
    have "(c + 1, i) \<notin> set (concat cs)" using assms(4) by (force simp: used_ok_def)
    then have "elem_at (i_mem st) (c + 1, i) = acc_zero"
      by (intro table_ok_zero [OF assms(5)]) (use l i in \<open>simp_all add: inb_def\<close>)
    then show "i_mem st ! (c + 1) ! i = replicate ?n acc_zero ! i" using i len by (simp add: elem_at_def)
  qed
  obtain r st1 where req: "request_memory_pool cfg (cfg_memory_pool_size cfg) st = Inr (r, st1)" "pools_ok cfg st1" "same_rest st st1"
      "r = None \<and> i_mem st1 = i_mem st \<or>
      r = Some (c + 1) \<and> (c + 1 < length (i_mem st) \<and> i_mem st1 = i_mem st \<or>
        c + 1 = length (i_mem st) \<and> i_mem st1 = i_mem st @ [replicate ?n acc_zero]) \<and>
      mp_id (i_mpd st1 ! (c + 1)) = c + 2 \<and> mp_ptr (i_mpd st1 ! (c + 1)) = 0 \<and>
      mp_space_left (i_mpd st1 ! (c + 1)) = cfg_memory_pool_size cfg"
    using request_memory_pool_spec [OF assms(1-3) zero] by blast
  show ?thesis
  proof (cases r)
    case None
    then have "alloc_elem cfg st = Inr (None, st1\<lparr>i_current_pool := None\<rparr>)" "i_mem st1 = i_mem st"
      using False cur(1,4) req(1,4) by (simp_all add: alloc_elem_def)
    then show ?thesis using req(2,3) by (simp add: pools_ok_def same_rest_def)
  next
    case (Some n)
    define st2 where "st2 = st1\<lparr>i_current_pool := Some (c + 1)\<rparr>"
    have p2: "pools_ok cfg st2" using req(2) by (simp add: pools_ok_def st2_def)
    have cu: "current_ok cfg st2 (c + 1) 0" using req(4) Some by (auto simp: current_ok_def st2_def)
    have us: "used_ok cs (c + 1) 0" using assms(4) by (force simp: used_ok_def)
    have "(0 + 1) * sz_acc cfg \<le> cfg_memory_pool_size cfg" using assms(1) by (simp add: cfg_ok_def)
    note slot = take_slot [OF assms(1) p2 cu us this]
    have mem: "i_mem st2 = i_mem st \<or> (\<exists>n. i_mem st2 = i_mem st @ [replicate n acc_zero])" and n: "n = c + 1"
      using req(4) Some by (auto simp: st2_def)
    have rest: "same_rest st st2" using req(3) by (simp add: same_rest_def st2_def)
    let ?d = "i_mpd st2 ! (c + 1)"
    let ?st3 = "st2\<lparr>i_mpd := (i_mpd st2)[c + 1 := ?d\<lparr>mp_space_left := mp_space_left ?d - sz_acc cfg, mp_ptr := mp_ptr ?d + sz_acc cfg\<rparr>]\<rparr>"
    have run: "alloc_elem cfg st = Inr (Some (c + 1, 0), ?st3)"
      unfolding alloc_elem_def using False cur(1,4) req(1) Some n slot(1-3) by (simp add: st2_def)
    have "same_rest st ?st3" using rest by (simp add: same_rest_def)
    then show ?thesis using run slot(4,6-9) mem by fastforce
  qed
qed

section \<open>Insertion\<close>

definition imt_ok :: "imt_cfg \<Rightarrow> imt \<Rightarrow> bool" where
  "imt_ok cfg st \<longleftrightarrow> pools_ok cfg st \<and> i_a st = 0 \<and> length (i_lru st) = cfg_buckets cfg \<and>
     (\<forall>p. Some p \<in> set (i_lru st) \<longrightarrow> inb (i_mem st) p) \<and>
     (\<exists>cs. table_ok cfg (i_mem st) cs \<and>
        (i_no_more_space st \<or> (\<exists>c u. current_ok cfg st c u \<and> used_ok cs c u)))"

lemma pools_ok_upd: "pools_ok cfg st \<Longrightarrow> pools_ok cfg (st\<lparr>i_mem := upd (i_mem st) p e\<rparr>)"
  by (simp add: pools_ok_def)

lemma current_ok_upd: "current_ok cfg st c u \<Longrightarrow> current_ok cfg (st\<lparr>i_mem := upd (i_mem st) p e\<rparr>) c u"
  by (simp add: current_ok_def)

text \<open>Writing an element of a chain keeps the table.\<close>

lemma imt_ok_upd:
  assumes "imt_ok cfg st" "inb (i_mem st) p" "acc_next e = acc_next (elem_at (i_mem st) p)" "elem_ok e" "acc_clbgp e \<noteq> None"
    "acc_clbgp (elem_at (i_mem st) p) \<noteq> None" "signature e = signature (elem_at (i_mem st) p)"
  shows "imt_ok cfg (st\<lparr>i_mem := upd (i_mem st) p e\<rparr>)"
proof -
  obtain cs where cs: "table_ok cfg (i_mem st) cs" "i_no_more_space st \<or> (\<exists>c u. current_ok cfg st c u \<and> used_ok cs c u)"
    using assms(1) by (auto simp: imt_ok_def)
  have "p \<in> set (concat cs)" using table_ok_zero [OF cs(1) assms(2)] assms(6) by (metis eff_zero(4))
  then obtain pos where pos: "pos < length cs" "p \<in> set (cs ! pos)" by (auto simp: in_set_conv_nth [of _ cs])
  have b: "pos < cfg_buckets cfg" using pos(1) cs(1) by (simp add: table_ok_def)
  have "table_ok cfg (upd (i_mem st) p e) cs"
    using table_ok_upd [OF cs(1) assms(2-5) b pos(2)] table_okD(5) [OF cs(1) b pos(2) assms(6)] assms(7) by simp
  then show ?thesis
    using assms(1) cs(2) pools_ok_upd current_ok_upd unfolding imt_ok_def by (simp; blast)
qed

lemma imt_ok_lru: "imt_ok cfg st \<Longrightarrow> inb (i_mem st) p \<Longrightarrow> imt_ok cfg (st\<lparr>i_lru := (i_lru st)[pos := Some p]\<rparr>)"
  by (auto simp: imt_ok_def pools_ok_def current_ok_def dest: set_update_subset_insert [THEN subsetD])

lemma linked_next: "linked m (pre @ p # q # qs) \<Longrightarrow> acc_next (elem_at m p) = Some q"
  by (induction pre) (auto simp: neq_Nil_conv elim: linked.elims)

lemma linked_last: "linked m (pre @ [p]) \<Longrightarrow> acc_next (elem_at m p) = None"
  by (induction pre) (auto elim: linked.elims)

lemma counted_append_seg:
  "m1 = m \<or> (\<exists>n. m1 = m @ [replicate n acc_zero]) \<Longrightarrow> counted cfg k m1 m2 = counted cfg k m m2"
  by (auto simp: counted_def total_append_zero)

text \<open>A packet at the end of its chain: a new element is linked there, or the table is full.\<close>

lemma insert_new:
  assumes "cfg_ok cfg" "imt_ok cfg st" "key_ok cfg k" "\<not> count_class cfg"
    and cs: "table_ok cfg (i_mem st) cs" and cu: "current_ok cfg st c u" "used_ok cs c u"
    and pos: "pos < cfg_buckets cfg" "unat (prim_hash cfg k) mod cfg_buckets cfg = pos" "last (cs ! pos) = p"
  defines "e \<equiv> elem_at (i_mem st) p" and "h \<equiv> prim_hash cfg k"
  shows "\<exists>st'. rbind (alloc_elem cfg st) (\<lambda>(r, st1). case r of
             None \<Rightarrow> Inr (st1\<lparr>i_no_more_space := True\<rparr>)
           | Some q \<Rightarrow>
               rbind (put_acc st1 p (e\<lparr>acc_next := Some q\<rparr>)) (\<lambda>st2.
               rbind (rd_acc (i_mem st2) q) (\<lambda>ne.
               rbind (put_acc st2 q (acc_new cfg k h ne)) (\<lambda>st3. wr_lru st3 pos q)))) = Inr st' \<and> imt_ok cfg st' \<and>
      (counted cfg k (i_mem st) (i_mem st') \<or> i_no_more_space st' \<and> i_mem st' = i_mem st)"
proof -
  have st: "pools_ok cfg st" "i_a st = 0" "length (i_lru st) = cfg_buckets cfg" "\<And>p. Some p \<in> set (i_lru st) \<Longrightarrow> inb (i_mem st) p"
    using assms(2) by (auto simp: imt_ok_def)
  obtain r st1 where al: "alloc_elem cfg st = Inr (r, st1)" "pools_ok cfg st1" "same_rest st st1"
      "i_mem st1 = i_mem st \<or> (\<exists>n. i_mem st1 = i_mem st @ [replicate n acc_zero])"
      "case r of None \<Rightarrow> i_mem st1 = i_mem st \<and> i_current_pool st1 = None
       | Some q \<Rightarrow> inb (i_mem st1) q \<and> q \<notin> set (concat cs) \<and>
          (\<exists>c' u'. current_ok cfg st1 c' u' \<and> used_ok cs c' u' \<and> fst q = c' \<and> snd q < u')"
    using alloc_elem_spec [OF assms(1) st(1) cu cs] by blast
  have rest: "i_a st1 = 0" "i_lru st1 = i_lru st" using al(3) st(2) by (simp_all add: same_rest_def)
  have mono: "inb (i_mem st) x \<Longrightarrow> inb (i_mem st1) x \<and> elem_at (i_mem st1) x = elem_at (i_mem st) x" for x
    using al(4) by (auto simp: inb_def elem_at_def nth_append)
  have t1: "table_ok cfg (i_mem st1) cs" using al(4) cs table_ok_append_seg by auto
  show ?thesis
  proof (cases r)
    case None
    then have m: "i_mem st1 = i_mem st" using al(5) by simp
    then have "imt_ok cfg (st1\<lparr>i_no_more_space := True\<rparr>)"
      using al(2) rest st(3,4) cs by (auto simp: imt_ok_def pools_ok_def)
    then show ?thesis using al(1) None m by simp
  next
    case (Some q)
    then obtain c' u' where q: "inb (i_mem st1) q" "q \<notin> set (concat cs)" and cu': "current_ok cfg st1 c' u'" "used_ok cs c' u'" "fst q = c'" "snd q < u'"
      using al(5) by auto
    have ne: "cs ! pos \<noteq> []" using table_okD(1) [OF cs pos(1)] by auto
    then have pin: "p \<in> set (cs ! pos)" using pos(3) by (metis last_in_set)
    have ip: "inb (i_mem st) p" using linked_inb [OF table_okD(1) [OF cs pos(1)] pin] .
    have pq: "p \<noteq> q" using q(2) table_okD(4) [OF cs pos(1) pin] by blast
    have zq: "elem_at (i_mem st1) q = acc_zero" using table_ok_zero [OF t1 q] .
    define m2 where "m2 = upd (upd (i_mem st1) p (e\<lparr>acc_next := Some q\<rparr>)) q (acc_new cfg k h acc_zero)"
    define st' where "st' = st1\<lparr>i_mem := m2, i_lru := (i_lru st)[pos := Some q]\<rparr>"
    have e1: "e = elem_at (i_mem st1) p" using mono [OF ip] by (simp add: e_def)
    note n = acc_new_simps [OF assms(4,3)]
    have "table_ok cfg m2 (cs[pos := cs ! pos @ [q]])"
      unfolding m2_def e1 h_def by (rule table_ok_snoc [OF t1 pos(1,3) q]) (use n(2-4) pos(2) in simp_all)
    moreover have "used_ok (cs[pos := cs ! pos @ [q]]) c' u'"
    proof -
      have "set (concat (cs[pos := cs ! pos @ [q]])) \<subseteq> insert q (set (concat cs))"
        using pos(1) cs by (auto simp: table_ok_def dest!: set_update_subset_insert [THEN subsetD])
      then show ?thesis using cu'(2-4) by (auto simp: used_ok_def)
    qed
    moreover have "current_ok cfg st' c' u'" "pools_ok cfg st'"
      using cu'(1) al(2) by (simp_all add: current_ok_def pools_ok_def st'_def m2_def)
    moreover have "inb m2 x" if "Some x \<in> set ((i_lru st)[pos := Some q])" for x
      using set_update_subset_insert [THEN subsetD, OF that] st(4) mono q(1) unfolding m2_def inb_upd by blast
    ultimately have "imt_ok cfg st'"
      using rest st(3) by (auto simp: imt_ok_def st'_def)
    moreover have "counted cfg k (i_mem st) m2"
      using counted_new [OF conjunct1 [OF mono [OF ip]] q(1) pq assms(4,3) zq] counted_append_seg [OF al(4)]
      by (simp add: m2_def e1 h_def)
    moreover have "rbind (put_acc st1 p (e\<lparr>acc_next := Some q\<rparr>)) (\<lambda>st2.
               rbind (rd_acc (i_mem st2) q) (\<lambda>ne.
               rbind (put_acc st2 q (acc_new cfg k h ne)) (\<lambda>st3. wr_lru st3 pos q))) = Inr st'"
      using mono [OF ip] q(1) pq zq pos(1) st(3) rest(2) by (simp add: elem_at_upd wr_lru_def st'_def m2_def)
    ultimately show ?thesis using al(1) Some by (intro exI [of _ st']) (simp add: st'_def del: rbind_eq_Inr)
  qed
qed

text \<open>The walk along the chain of a bucket, from the part \<open>ps\<close> of it on.\<close>

lemma insert_walk_spec:
  assumes "cfg_ok cfg" "imt_ok cfg st" "key_ok cfg k" "\<not> count_class cfg"
    and cs: "table_ok cfg (i_mem st) cs" "i_no_more_space st \<or> (\<exists>c u. current_ok cfg st c u \<and> used_ok cs c u)"
    and pos: "pos < cfg_buckets cfg" "unat (prim_hash cfg k) mod cfg_buckets cfg = pos"
  shows "cs ! pos = pre @ p # ps \<Longrightarrow> length ps < n \<Longrightarrow>
    \<exists>st'. insert_walk n cfg k (prim_hash cfg k) pos p st = Inr st' \<and> imt_ok cfg st' \<and>
      (counted cfg k (i_mem st) (i_mem st') \<or> i_no_more_space st' \<and> i_mem st' = i_mem st)"
proof (induction n arbitrary: pre p ps)
  case (Suc n)
  let ?m = "i_mem st" and ?h = "prim_hash cfg k"
  let ?e = "elem_at ?m p"
  have chain: "linked ?m (cs ! pos)" using table_okD(1) [OF cs(1) pos(1)] .
  have p: "p \<in> set (cs ! pos)" using Suc.prems(1) by simp
  have ib: "inb ?m p" using linked_inb [OF chain p] .
  have eok: "elem_ok ?e" using table_ok_elem [OF cs(1) ib] .
  have lru: "pos < length (i_lru st)" using assms(2) pos(1) by (simp add: imt_ok_def)
  have wl: "wr_lru (st\<lparr>i_mem := m'\<rparr>) pos q = Inr (st\<lparr>i_mem := m', i_lru := (i_lru st)[pos := Some q]\<rparr>)" for m' q
    using lru by (simp add: wr_lru_def)
  show ?case
  proof (cases "ekey ?e = akey cfg k")
    case True
    then have match: "signature ?e = ?h \<and> \<not> compare_accounting_structure ?e k" using compare_key [OF assms(3) eok] by simp
    have used: "acc_clbgp ?e \<noteq> None" using True assms(3) by (auto simp: ekey_def akey_def key_ok_def split: option.splits)
    let ?m' = "upd ?m p (acc_hit cfg (i_cycle_stamp st) (pp_data k) ?e)"
    have "imt_ok cfg (st\<lparr>i_mem := ?m'\<rparr>)"
      using imt_ok_upd [OF assms(2) ib] eok used by (simp add: acc_hit_simps [OF assms(4)])
    then have "imt_ok cfg (st\<lparr>i_mem := ?m', i_lru := (i_lru st)[pos := Some p]\<rparr>)" using imt_ok_lru [of cfg "st\<lparr>i_mem := ?m'\<rparr>" p pos] ib by simp
    then show ?thesis using counted_hit [OF ib assms(4) True] ib match wl by simp
  next
    case False
    then have nomatch: "\<not> (signature ?e = ?h \<and> \<not> compare_accounting_structure ?e k)" using compare_key [OF assms(3) eok] by simp
    show ?thesis
    proof (cases "bytes_counter ?e = 0 \<and> packet_counter ?e = 0")
      case True
      let ?m' = "upd ?m p (acc_reuse cfg k ?h ?e)"
      note r = acc_reuse_simps [OF assms(4,3) conjunct1 [OF True] conjunct2 [OF True]]
      have "acc_clbgp (acc_reuse cfg k ?h ?e) \<noteq> None" using r(1) assms(3) by (auto simp: ekey_def akey_def key_ok_def split: option.splits)
      then have "table_ok cfg ?m' cs" using table_ok_upd [OF cs(1) ib _ _ _ pos(1) p] r(2-4) pos(2) by simp
      then have "imt_ok cfg (st\<lparr>i_mem := ?m'\<rparr>)"
        using assms(2) cs(2) pools_ok_upd current_ok_upd unfolding imt_ok_def by (simp; blast)
      then have "imt_ok cfg (st\<lparr>i_mem := ?m', i_lru := (i_lru st)[pos := Some p]\<rparr>)" using imt_ok_lru [of cfg "st\<lparr>i_mem := ?m'\<rparr>" p pos] ib by simp
      then show ?thesis using counted_reuse [OF ib assms(4,3)] True nomatch ib wl by (simp; blast)
    next
      case full: False
      show ?thesis
      proof (cases ps)
        case (Cons q qs)
        have "acc_next ?e = Some q" using chain Suc.prems(1) Cons linked_next by metis
        moreover have "\<exists>st'. insert_walk n cfg k ?h pos q st = Inr st' \<and> imt_ok cfg st' \<and>
            (counted cfg k (i_mem st) (i_mem st') \<or> i_no_more_space st' \<and> i_mem st' = i_mem st)"
          using Suc.IH [of "pre @ [p]" q qs] Suc.prems Cons by simp
        ultimately show ?thesis using nomatch full ib by auto
      next
        case Nil
        then have nx: "acc_next ?e = None" "last (cs ! pos) = p" using chain Suc.prems(1) linked_last by auto
        show ?thesis
        proof (cases "i_no_more_space st")
          case True
          then show ?thesis using nomatch full ib nx assms(2) by auto
        next
          case False
          then obtain c u where cu: "current_ok cfg st c u" "used_ok cs c u" using cs(2) by blast
          show ?thesis using insert_new [OF assms(1-4) cs(1) cu pos nx(2)] nomatch full ib nx(1) False by auto
        qed
      qed
    qed
  qed
qed simp

lemma chain_fuel_enough:
  assumes "table_ok cfg m cs" "pos < cfg_buckets cfg"
  shows "length (cs ! pos) \<le> length (concat m)"
proof -
  have d: "distinct (cs ! pos)" using assms by (simp add: table_ok_def distinct_concat_iff)
  have "set (cs ! pos) \<subseteq> (SIGMA i : {..<length m}. {..<length (m ! i)})"
    using linked_inb [OF table_okD(1) [OF assms]] by (auto simp: inb_def)
  then have "card (set (cs ! pos)) \<le> card (SIGMA i : {..<length m}. {..<length (m ! i)})" by (intro card_mono) auto
  also have "\<dots> = length (concat m)"
    by (simp add: length_concat sum_list_sum_nth atLeast0LessThan)
  finally show ?thesis using d by (simp add: distinct_card)
qed

lemma insert_moved_counts:
  assumes "cfg_ok cfg" "imt_ok cfg st" "key_ok cfg k" "\<not> count_class cfg"
  shows "\<exists>st'. insert_moved cfg k st = Inr st' \<and> imt_ok cfg st' \<and>
    (counted cfg k (i_mem st) (i_mem st') \<or> i_no_more_space st' \<and> i_mem st' = i_mem st)"
proof -
  let ?h = "prim_hash cfg k"
  define pos where "pos = unat ?h mod cfg_buckets cfg"
  have b: "0 < cfg_buckets cfg" using assms(1) by (simp add: cfg_ok_def)
  then have pos: "pos < cfg_buckets cfg" "bucket_of cfg ?h = Inr pos" by (simp_all add: pos_def bucket_of_def)
  obtain cs where cs: "table_ok cfg (i_mem st) cs" "i_no_more_space st \<or> (\<exists>c u. current_ok cfg st c u \<and> used_ok cs c u)"
    using assms(2) by (auto simp: imt_ok_def)
  have st: "i_a st = 0" "length (i_lru st) = cfg_buckets cfg" "\<And>p. Some p \<in> set (i_lru st) \<Longrightarrow> inb (i_mem st) p"
    using assms(2) by (auto simp: imt_ok_def)
  obtain ps where ps: "cs ! pos = (0, pos) # ps" using table_okD(1,2) [OF cs(1) pos(1)] by (cases "cs ! pos") auto
  have "length ps < chain_fuel st" using chain_fuel_enough [OF cs(1) pos(1)] ps by (simp add: chain_fuel_def)
  then have walk: "\<exists>st'. insert_walk (chain_fuel st) cfg k ?h pos (i_a st, pos) st = Inr st' \<and> imt_ok cfg st' \<and>
      (counted cfg k (i_mem st) (i_mem st') \<or> i_no_more_space st' \<and> i_mem st' = i_mem st)"
    using insert_walk_spec [OF assms cs pos(1) pos_def [symmetric], of "[]" "(0, pos)" ps "chain_fuel st"] ps st(1) by simp
  show ?thesis
  proof (cases "i_lru st ! pos")
    case None
    then show ?thesis using walk pos st(2) by (simp add: insert_moved_def)
  next
    case (Some p)
    then have ib: "inb (i_mem st) p" using st(2,3) pos(1) by (metis nth_mem)
    let ?e = "elem_at (i_mem st) p"
    have eok: "elem_ok ?e" using table_ok_elem [OF cs(1) ib] .
    show ?thesis
    proof (cases "ekey ?e = akey cfg k")
      case True
      then have match: "signature ?e = ?h \<and> \<not> compare_accounting_structure ?e k" using compare_key [OF assms(3) eok] by simp
      have used: "acc_clbgp ?e \<noteq> None" using True assms(3) by (auto simp: ekey_def akey_def key_ok_def split: option.splits)
      have "imt_ok cfg (st\<lparr>i_mem := upd (i_mem st) p (acc_hit cfg (i_cycle_stamp st) (pp_data k) ?e)\<rparr>)"
        using imt_ok_upd [OF assms(2) ib] eok used by (simp add: acc_hit_simps [OF assms(4)])
      then show ?thesis
        using counted_hit [OF ib assms(4) True] match ib Some pos st(2) by (simp add: insert_moved_def)
    next
      case False
      then have "\<not> (signature ?e = ?h \<and> \<not> compare_accounting_structure ?e k)" using compare_key [OF assms(3) eok] by simp
      then show ?thesis using walk ib Some pos st(2) by (auto simp: insert_moved_def Let_def)
    qed
  qed
qed

end
