(* ===== verification/Imt_Run.thy ===== *)
theory Imt_Run
  imports Imt_Refine
begin

text \<open>
  Runs of the memory plugin of \<^verbatim>\<open>src/src/imt_plugin.c\<close>: start, insertions, counter resets by queries and
  erasures in any order, and what the in-memory table holds after them.
\<close>

section \<open>Start and erasure\<close>

definition all_zero :: "acc list list \<Rightarrow> bool" where
  "all_zero m \<longleftrightarrow> (\<forall>s < length m. m ! s = replicate (length (m ! s)) acc_zero)"

definition empty_chains :: "imt_cfg \<Rightarrow> eptr list list" where
  "empty_chains cfg = map (\<lambda>pos. [(0, pos)]) [0..<cfg_buckets cfg]"

lemma all_zero_at: "all_zero m \<Longrightarrow> inb m p \<Longrightarrow> elem_at m p = acc_zero"
  unfolding all_zero_def inb_def elem_at_def by (metis nth_replicate)

lemma table_ok_empty:
  assumes "all_zero m" "0 < length m" "length (m ! 0) = cfg_buckets cfg"
  shows "table_ok cfg m (empty_chains cfg)"
proof -
  have d: "distinct (concat (map (\<lambda>pos. [(0 :: nat, pos)]) [0..<n]))" for n
    by (induction n) auto
  have "inb m (0, pos)" if "pos < cfg_buckets cfg" for pos using that assms by (simp add: inb_def)
  then show ?thesis
    using all_zero_at [OF assms(1)] d by (simp add: table_ok_def empty_chains_def) (simp add: acc_zero_def)
qed

lemma used_ok_empty: "used_ok (empty_chains cfg) (Suc c) u"
  by (auto simp: used_ok_def empty_chains_def)

lemma total_zero: "all_zero m \<Longrightarrow> f acc_zero = 0 \<Longrightarrow> total f K m = 0"
proof -
  assume z: "all_zero m" and f: "f acc_zero = 0"
  have "e = acc_zero" if "e \<in> set (concat m)" for e
    using z that unfolding all_zero_def by (metis (no_types, lifting) UN_E in_set_conv_nth in_set_replicate set_concat)
  then have eq: "map (\<lambda>e. if ekey e = K then f e else 0) (concat m) = map (\<lambda>_. 0) (concat m)" using f by (intro map_cong) auto
  show ?thesis unfolding total_def eq by simp
qed

lemma imt_ok_empty:
  assumes "cfg_ok cfg" "pools_ok cfg st" "all_zero (i_mem st)" "current_ok cfg st 1 0" "i_a st = 0" "length (i_lru st) = cfg_buckets cfg"
    "\<forall>p. Some p \<in> set (i_lru st) \<longrightarrow> inb (i_mem st) p"
  shows "imt_ok cfg st"
proof -
  have a: "0 < sz_acc cfg" using assms(1) by (simp add: cfg_ok_def)
  have l: "0 < length (i_mem st)" using assms(2) by (auto simp: pools_ok_def)
  then have "length (i_mem st ! 0) = seg_size cfg 0 div sz_acc cfg" using assms(2) by (simp add: pools_ok_def)
  then have "length (i_mem st ! 0) = cfg_buckets cfg" using a by (simp add: seg_size_def)
  with l have "table_ok cfg (i_mem st) (empty_chains cfg)" using table_ok_empty assms(3) by blast
  then show ?thesis using assms(2,4-7) used_ok_empty [of cfg 0 0] unfolding imt_ok_def by auto
qed

text \<open>A fresh or an erased table.\<close>

definition imt_fresh :: "imt_cfg \<Rightarrow> imt \<Rightarrow> bool" where
  "imt_fresh cfg st \<longleftrightarrow> imt_ok cfg st \<and> all_zero (i_mem st) \<and> \<not> i_no_more_space st"

lemma imt_start_fresh:
  assumes "cfg_ok cfg" "imt_start cfg maps = Inr st"
  shows "imt_fresh cfg st"
proof -
  have n: "cfg_num_memory_pools cfg \<noteq> 0" "0 < sz_acc cfg" using assms(1) by (simp_all add: cfg_ok_def)
  let ?d0 = "\<lparr>mp_id = 1, mp_base_ptr = Some 0, mp_ptr = 0, mp_space_left = cfg_buckets cfg * sz_acc cfg,
      mp_len = cfg_buckets cfg * sz_acc cfg, mp_next = Some 1\<rparr>"
  let ?d1 = "\<lparr>mp_id = 2, mp_base_ptr = Some 1, mp_ptr = 0, mp_space_left = cfg_memory_pool_size cfg,
      mp_len = cfg_memory_pool_size cfg, mp_next = None\<rparr>"
  have run: "2 \<le> cfg_num_memory_pools cfg \<and>
      i_mem st = [replicate (cfg_buckets cfg) acc_zero, replicate (cfg_memory_pool_size cfg div sz_acc cfg) acc_zero] \<and>
      i_mpd st = (replicate (cfg_num_memory_pools cfg + 1) mp_zero)[0 := ?d0, 1 := ?d1] \<and>
      i_current_pool st = Some 1 \<and> i_a st = 0 \<and> i_lru st = replicate (cfg_buckets cfg) None \<and> \<not> i_no_more_space st"
    using assms(2) n
    by (auto simp: imt_start_def two_pools_def init_memory_pool_table_def request_memory_pool_def new_memory_pool_def
        mp_zero_def Let_def numeral_2_eq_2 split: if_splits option.splits)
  have z: "all_zero (i_mem st)" using run by (simp add: all_zero_def nth_Cons split: nat.splits)
  have len: "length (i_mem st) = 2" "length (i_mpd st) = cfg_num_memory_pools cfg + 1" using run by simp_all
  have "desc_ok cfg 2 j (i_mpd st ! j)" if "j < cfg_num_memory_pools cfg + 1" for j
    using run that n(2) by (auto simp: nth_list_update desc_ok_def seg_size_def mp_zero_def)
  moreover have "length (i_mem st ! j) = seg_size cfg j div sz_acc cfg" if "j < 2" for j
    using run that n(2) by (auto simp: seg_size_def less_2_cases_iff)
  ultimately have "pools_ok cfg st" using run len by (simp only: pools_ok_def) simp
  moreover have "current_ok cfg st 1 0" using run by (simp add: current_ok_def)
  ultimately show ?thesis using imt_ok_empty [OF assms(1) _ z] run z by (auto simp: imt_fresh_def)
qed

lemma zero_seg_spec:
  assumes "pools_ok cfg st" "j < length (i_mem st)"
  shows "zero_seg cfg st (Some j) (seg_size cfg j) =
     Inr (st\<lparr>i_mem := (i_mem st)[j := replicate (seg_size cfg j div sz_acc cfg) acc_zero]\<rparr>)"
  using assms by (simp add: zero_seg_def pools_ok_def)

text \<open>Clearing the pools from \<open>j\<close> on: their memory is zero afterwards, and of the descriptors only the
  numbers change.\<close>

definition cleared :: "imt_cfg \<Rightarrow> nat \<Rightarrow> imt \<Rightarrow> imt \<Rightarrow> bool" where
  "cleared cfg j st st' \<longleftrightarrow> pools_ok cfg st' \<and> same_rest st st' \<and> i_maps_left st' = i_maps_left st \<and>
     length (i_mem st') = length (i_mem st) \<and> i_current_pool st' = i_current_pool st \<and>
     (\<forall>i < length (i_mem st). i_mem st' ! i = (if i < j then i_mem st ! i else replicate (seg_size cfg i div sz_acc cfg) acc_zero)) \<and>
     (\<forall>i < j. i_mpd st' ! i = i_mpd st ! i) \<and>
     (j < length (i_mpd st) \<longrightarrow> mp_next (i_mpd st ! j) \<noteq> None \<longrightarrow> mp_id (i_mpd st' ! j) = 0)"

lemma clear_pools_spec:
  assumes "cfg_ok cfg" "pools_ok cfg st" "j \<le> length (i_mem st)" "length (i_mem st) < j + n"
  shows "\<exists>st'. clear_pools n cfg j st = Inr st' \<and> cleared cfg j st st'"
  using assms(2-)
proof (induction n arbitrary: j st)
  case (Suc n)
  let ?m = "length (i_mem st)"
  have jl: "j < length (i_mpd st)" using Suc.prems(1,2) by (simp add: pools_ok_def)
  let ?d = "i_mpd st ! j"
  have d: "desc_ok cfg ?m j ?d" using Suc.prems(1) jl by (simp add: pools_ok_def)
  show ?case
  proof (cases "j < ?m")
    case False
    then have "mp_base_ptr ?d = None" "mp_len ?d = 0" "mp_next ?d = None" using d by (simp_all add: desc_ok_def)
    then have "clear_pools (Suc n) cfg j st = Inr st" using jl by (simp add: zero_seg_def)
    then show ?thesis using Suc.prems(1,2) False \<open>mp_next ?d = None\<close> by (auto simp: cleared_def same_rest_def)
  next
    case True
    let ?z = "replicate (seg_size cfg j div sz_acc cfg) acc_zero"
    define st1 where "st1 = st\<lparr>i_mem := (i_mem st)[j := ?z]\<rparr>"
    have dd: "mp_base_ptr ?d = Some j" "mp_len ?d = seg_size cfg j" using d True by (simp_all add: desc_ok_def)
    have z: "zero_seg cfg st (mp_base_ptr ?d) (mp_len ?d) = Inr st1" using zero_seg_spec [OF Suc.prems(1) True] by (simp add: dd st1_def)
    have p1: "pools_ok cfg st1" using Suc.prems(1) True by (auto simp: pools_ok_def st1_def nth_list_update)
    show ?thesis
    proof (cases "mp_next ?d")
      case None
      then have "j + 1 = ?m" using d True by (simp add: desc_ok_def)
      then have "i_mem st1 ! i = (if i < j then i_mem st ! i else replicate (seg_size cfg i div sz_acc cfg) acc_zero)" if "i < ?m" for i
        using that by (cases "i = j") (auto simp: st1_def)
      then have "cleared cfg j st st1" using p1 None by (simp add: cleared_def same_rest_def st1_def)
      then show ?thesis using None z jl by simp
    next
      case (Some q)
      then have q: "q = j + 1" using d True by (simp add: desc_ok_def)
      define st2 where "st2 = st1\<lparr>i_mpd := (i_mpd st1)[j := ?d\<lparr>mp_id := 0\<rparr>]\<rparr>"
      have p2: "pools_ok cfg st2" unfolding st2_def by (rule pools_ok_mpd [OF p1]) (use d in \<open>simp add: st1_def\<close>)
      have m2: "length (i_mem st2) = ?m" "i_mem st2 = (i_mem st)[j := ?z]" by (simp_all add: st2_def st1_def)
      obtain st' where st': "clear_pools n cfg (j + 1) st2 = Inr st'" "cleared cfg (j + 1) st2 st'"
        using Suc.IH [of st2 "j + 1"] p2 Suc.prems(3) True m2(1) by auto
      have run: "clear_pools (Suc n) cfg j st = Inr st'" using st'(1) z jl Some q by (simp add: st1_def st2_def)
      have "i_mem st' ! i = (if i < j then i_mem st ! i else replicate (seg_size cfg i div sz_acc cfg) acc_zero)" if "i < ?m" for i
        using st'(2) that by (cases "i = j") (auto simp: cleared_def m2 less_Suc_eq)
      moreover have "i_mpd st' ! i = i_mpd st ! i" if "i < j" for i using st'(2) that by (simp add: cleared_def st2_def st1_def)
      moreover have "mp_id (i_mpd st' ! j) = 0" using st'(2) jl by (simp add: cleared_def st2_def st1_def)
      ultimately have "cleared cfg j st st'" using st'(2) m2(1) by (simp add: cleared_def same_rest_def st2_def st1_def)
      then show ?thesis using run by blast
    qed
  qed
qed simp

lemma two_pools_erased:
  assumes "cfg_ok cfg" "pools_ok cfg st" "all_zero (i_mem st)" "i_current_pool st = Some 0" "mp_id (i_mpd st ! 0) = 0"
  shows "\<exists>st'. two_pools cfg st = Inr st' \<and> pools_ok cfg st' \<and> current_ok cfg st' 1 0 \<and> i_mem st' = i_mem st \<and> i_a st' = 0 \<and>
     i_lru st' = i_lru st \<and> i_cycle_stamp st' = i_cycle_stamp st"
proof -
  note ok = pools_okD [OF assms(2)]
  have l: "0 < length (i_mpd st)" "1 < length (i_mpd st)" "0 < length (i_mem st)" "1 < length (i_mem st)" using ok by auto
  have st: "desc_ok cfg (length (i_mem st)) 0 (i_mpd st ! 0)" "desc_ok cfg (length (i_mem st)) 1 (i_mpd st ! 1)"
      "length (i_mem st ! 0) = seg_size cfg 0 div sz_acc cfg" "length (i_mem st ! 1) = seg_size cfg 1 div sz_acc cfg"
    using l ok(5) [of 0] ok(5) [of 1] ok(6) [of 0] ok(6) [of 1] by simp_all
  have d0: "mp_base_ptr (i_mpd st ! 0) = Some 0" "mp_len (i_mpd st ! 0) = seg_size cfg 0" "mp_next (i_mpd st ! 0) = Some 1"
    using st(1) l by (simp_all add: desc_ok_def)
  have d1: "mp_base_ptr (i_mpd st ! 1) = Some 1" "mp_len (i_mpd st ! 1) = seg_size cfg 1" using st(2) l by (simp_all add: desc_ok_def)
  have sz: "cfg_buckets cfg * sz_acc cfg = seg_size cfg 0" "cfg_memory_pool_size cfg = seg_size cfg 1" by (simp_all add: seg_size_def)
  have z: "(i_mem st)[j := replicate (seg_size cfg j div sz_acc cfg) acc_zero] = i_mem st" if "j = 0 \<or> j = 1" for j
  proof -
    have "replicate (seg_size cfg j div sz_acc cfg) acc_zero = i_mem st ! j"
      using that assms(3) st(3,4) l(3,4) unfolding all_zero_def by metis
    then show ?thesis by simp
  qed
  define D0 where "D0 = (i_mpd st ! 0)\<lparr>mp_id := 1, mp_ptr := 0, mp_space_left := seg_size cfg 0\<rparr>"
  define D1 where "D1 = (i_mpd st ! 1)\<lparr>mp_id := 2, mp_ptr := 0, mp_space_left := seg_size cfg 1\<rparr>"
  define st1 where "st1 = st\<lparr>i_mpd := (i_mpd st)[0 := D0]\<rparr>"
  have z0: "zero_seg cfg (st\<lparr>i_mpd := M\<rparr>) (Some 0) (seg_size cfg 0) = Inr (st\<lparr>i_mpd := M\<rparr>)" for M
    using l(3) st(3) z [of 0] by (simp add: zero_seg_def)
  have r1: "request_memory_pool cfg (seg_size cfg 0) st = Inr (Some 0, st1)"
    using assms(4,5) l d0 z0 by (simp add: request_memory_pool_def Let_def D0_def st1_def)
  define st2 where "st2 = st1\<lparr>i_current_pool := Some 0, i_a := 0\<rparr>"
  define st3 where "st3 = st2\<lparr>i_mpd := (i_mpd st)[0 := D0, 1 := D1]\<rparr>"
  have z1: "zero_seg cfg (st2\<lparr>i_mpd := M\<rparr>) (Some 1) (seg_size cfg 1) = Inr (st2\<lparr>i_mpd := M\<rparr>)" for M
    using l(4) st(4) z [of 1] by (simp add: zero_seg_def st2_def st1_def)
  have D0': "mp_next D0 = Some 1" "mp_id D0 = 1" "mp_base_ptr D0 = Some 0" using d0 by (simp_all add: D0_def)
  have i2: "i_mpd st2 = (i_mpd st)[0 := D0]" "i_current_pool st2 = Some 0" by (simp_all add: st2_def st1_def)
  have r2: "request_memory_pool cfg (seg_size cfg 1) st2 = Inr (Some 1, st3)"
    using l d1 D0' z1 i2 by (simp add: request_memory_pool_def Let_def D1_def st3_def numeral_2_eq_2)
  have run: "two_pools cfg st = Inr (st3\<lparr>i_current_pool := Some 1\<rparr>)"
    unfolding two_pools_def sz using r1 r2 l D0'(3) by (simp add: st1_def st2_def [symmetric])
      (simp add: st2_def st1_def)
  have "pools_ok cfg st1" unfolding st1_def by (rule pools_ok_mpd [OF assms(2)]) (use st(1) in \<open>simp add: D0_def\<close>)
  then have "pools_ok cfg (st1\<lparr>i_mpd := (i_mpd st1)[1 := D1]\<rparr>)" by (rule pools_ok_mpd) (use st(2) in \<open>simp add: D1_def st1_def\<close>)
  then have "pools_ok cfg (st3\<lparr>i_current_pool := Some 1\<rparr>)" by (simp add: pools_ok_def st3_def st2_def st1_def)
  moreover have "current_ok cfg (st3\<lparr>i_current_pool := Some 1\<rparr>) 1 0"
    using l by (simp add: current_ok_def st3_def st2_def st1_def D1_def seg_size_def)
  ultimately show ?thesis using run by (simp add: st3_def st2_def st1_def)
qed

lemma imt_erase_fresh:
  assumes "cfg_ok cfg" "imt_ok cfg st"
  shows "\<exists>st'. imt_erase cfg st = Inr st' \<and> imt_fresh cfg st'"
proof -
  have st: "pools_ok cfg st" "i_a st = 0" "length (i_lru st) = cfg_buckets cfg" "\<And>p. Some p \<in> set (i_lru st) \<Longrightarrow> inb (i_mem st) p"
    using assms(2) by (auto simp: imt_ok_def)
  have l: "length (i_mem st) < 0 + length (i_mpd st)" "0 < length (i_mpd st)" "1 < length (i_mem st)" using pools_okD [OF st(1)] by auto
  obtain st1 where st1: "clear_pools (length (i_mpd st)) cfg 0 st = Inr st1" "cleared cfg 0 st st1"
    using clear_pools_spec [OF assms(1) st(1), of 0 "length (i_mpd st)"] l(1) by auto
  have nx: "mp_next (i_mpd st ! 0) \<noteq> None" using pools_okD(5) [OF st(1), of 0] l(3) by (auto simp: desc_ok_def split: if_splits)
  define st2 where "st2 = st1\<lparr>i_current_pool := Some 0\<rparr>"
  have c: "pools_ok cfg st2" "mp_id (i_mpd st2 ! 0) = 0" "i_lru st2 = i_lru st" "length (i_mem st2) = length (i_mem st)"
      "\<And>i. i < length (i_mem st) \<Longrightarrow> i_mem st2 ! i = replicate (seg_size cfg i div sz_acc cfg) acc_zero"
    using st1(2) nx l(2) by (auto simp: cleared_def st2_def pools_ok_def same_rest_def)
  have z: "all_zero (i_mem st2)" using c(4,5) by (simp add: all_zero_def)
  have same: "length (i_mem st2 ! i) = length (i_mem st ! i)" if "i < length (i_mem st)" for i
    using st(1) c(5) that by (simp add: pools_ok_def)
  obtain st3 where st3: "two_pools cfg st2 = Inr st3" "pools_ok cfg st3" "current_ok cfg st3 1 0" "i_mem st3 = i_mem st2" "i_a st3 = 0" "i_lru st3 = i_lru st2"
    using two_pools_erased [OF assms(1) c(1) z _ c(2)] by (auto simp: st2_def)
  let ?st = "st3\<lparr>i_no_more_space := False, i_table_reset_stamp := i_cycle_stamp st3\<rparr>"
  have inb: "inb (i_mem st2) p" if "Some p \<in> set (i_lru st)" for p
    using st(4) [OF that] c(4) same by (simp add: inb_def)
  have "imt_ok cfg ?st"
    using st3 st(3) c(3) z inb by (intro imt_ok_empty [OF assms(1)]) (auto simp: pools_ok_def current_ok_def)
  moreover have "imt_erase cfg st = Inr ?st" using st1(1) st3(1) by (simp add: imt_erase_def clear_memory_pool_table_def st2_def)
  ultimately show ?thesis using z st3(4) by (simp add: imt_fresh_def)
qed

section \<open>Runs\<close>

text \<open>The states of the plugin and the packets inserted since the last start or erasure; after a reset of
  counters by a query the second component is not tracked any more.\<close>

inductive imt_run :: "imt_cfg \<Rightarrow> imt \<Rightarrow> primitives_ptrs list option \<Rightarrow> bool" for cfg where
  start: "imt_start cfg maps = Inr st \<Longrightarrow> imt_run cfg st (Some [])"
| tick: "imt_run cfg st ks \<Longrightarrow> imt_run cfg (st\<lparr>i_cycle_stamp := t\<rparr>) ks"
| insert: "imt_run cfg st ks \<Longrightarrow> key_ok cfg k \<Longrightarrow> insert_accounting_structure cfg k st = Inr st' \<Longrightarrow>
    imt_run cfg st' (map_option (\<lambda>ks. ks @ [k]) ks)"
| flag: "imt_run cfg st ks \<Longrightarrow> rd_acc (i_mem st) p = Inr e \<Longrightarrow> acc_clbgp e \<noteq> None \<Longrightarrow>
    put_acc st p (set_reset_flag e) = Inr st' \<Longrightarrow> imt_run cfg st' None"
| reset: "imt_run cfg st ks \<Longrightarrow> rd_acc (i_mem st) p = Inr e \<Longrightarrow> acc_clbgp e \<noteq> None \<Longrightarrow>
    put_acc st p (reset_counters (i_cycle_stamp st) e) = Inr st' \<Longrightarrow> imt_run cfg st' None"
| erase: "imt_run cfg st ks \<Longrightarrow> imt_erase cfg st = Inr st' \<Longrightarrow> imt_run cfg st' (Some [])"

text \<open>What the packets \<open>ks\<close> add up to for a key.\<close>

definition sum_of :: "imt_cfg \<Rightarrow> (pkt_data \<Rightarrow> u64) \<Rightarrow> akey \<Rightarrow> primitives_ptrs list \<Rightarrow> u64" where
  "sum_of cfg f K ks = (\<Sum>k \<leftarrow> ks. if akey cfg k = K then f (pp_data k) else 0)"

lemma insert_no_class: "\<not> count_class cfg \<Longrightarrow> insert_accounting_structure cfg k st = insert_moved cfg k st"
  by (simp add: insert_accounting_structure_def move_class_def Let_def)

lemma rd_acc_inb: "rd_acc m p = Inr e \<longleftrightarrow> inb m p \<and> e = elem_at m p"
  by (auto simp: rd_acc_def inb_def elem_at_def split: if_splits)

lemma imt_ok_element:
  assumes "imt_ok cfg st" "rd_acc (i_mem st) p = Inr e" "acc_clbgp e \<noteq> None" "put_acc st p e' = Inr st'"
    "acc_next e' = acc_next e" "elem_ok e' = elem_ok e" "acc_clbgp e' = acc_clbgp e" "signature e' = signature e"
  shows "imt_ok cfg st'"
proof -
  have p: "inb (i_mem st) p" "e = elem_at (i_mem st) p" using assms(2) by (simp_all add: rd_acc_inb)
  obtain cs where "table_ok cfg (i_mem st) cs" using assms(1) by (auto simp: imt_ok_def)
  then have "elem_ok e" using table_ok_elem p by blast
  then show ?thesis using imt_ok_upd [OF assms(1) p(1), of e'] assms p by auto
qed

lemma imt_ok_tick: "imt_ok cfg st \<Longrightarrow> imt_ok cfg (st\<lparr>i_cycle_stamp := t\<rparr>)"
  by (simp add: imt_ok_def pools_ok_def current_ok_def)

lemma imt_run_ok:
  assumes "imt_run cfg st ks" "cfg_ok cfg" "\<not> count_class cfg"
  shows "imt_ok cfg st"
  using assms(1)
proof induction
  case (start maps st)
  then show ?case using imt_start_fresh [OF assms(2)] by (simp add: imt_fresh_def)
next
  case (insert st ks k st')
  then show ?case using insert_moved_counts [OF assms(2) insert.IH insert.hyps(2) assms(3)] by (auto simp: insert_no_class assms(3))
next
  case (flag st ks p e st')
  show ?case using imt_ok_element [OF flag.IH flag.hyps(2-4)] by (simp add: set_reset_flag_def elem_ok_def)
next
  case (reset st ks p e st')
  show ?case using imt_ok_element [OF reset.IH reset.hyps(2-4)] by (simp add: reset_counters_def elem_ok_def)
next
  case (erase st ks st')
  then show ?case using imt_erase_fresh [OF assms(2) erase.IH] by (auto simp: imt_fresh_def)
qed (simp add: imt_ok_tick)

lemma insert_walk_full:
  "insert_walk n cfg k h pos p st = Inr st' \<Longrightarrow> i_no_more_space st \<Longrightarrow> i_no_more_space st'"
  by (induction n arbitrary: p)
    (auto simp: put_acc_def wr_lru_def split: if_splits option.splits)

lemma insert_moved_full: "insert_moved cfg k st = Inr st' \<Longrightarrow> i_no_more_space st \<Longrightarrow> i_no_more_space st'"
  by (auto simp: insert_moved_def Let_def put_acc_def insert_walk_full split: if_splits option.splits)

lemma sum_of_snoc: "sum_of cfg f K (ks @ [k]) = sum_of cfg f K ks + (if K = akey cfg k then f (pp_data k) else 0)"
  by (auto simp: sum_of_def)

lemma imt_run_total:
  assumes "imt_run cfg st log" "cfg_ok cfg" "\<not> count_class cfg"
  shows "log = Some ks \<Longrightarrow> \<not> i_no_more_space st \<Longrightarrow>
    total eff_bytes K (i_mem st) = sum_of cfg pd_pkt_len K ks \<and> total eff_packets K (i_mem st) = sum_of cfg pd_pkt_num K ks"
  using assms(1)
proof (induction arbitrary: ks)
  case (start maps st)
  then show ?case using imt_start_fresh [OF assms(2)] total_zero by (simp add: imt_fresh_def sum_of_def)
next
  case (insert st log k st')
  then obtain ks0 where ks: "log = Some ks0" "ks = ks0 @ [k]" by auto
  have run: "insert_moved cfg k st = Inr st'" using insert.hyps(3) assms(3) by (simp add: insert_no_class)
  then have "\<not> i_no_more_space st" using insert_moved_full insert.prems(2) by blast
  then have IH: "total eff_bytes K (i_mem st) = sum_of cfg pd_pkt_len K ks0 \<and> total eff_packets K (i_mem st) = sum_of cfg pd_pkt_num K ks0"
    using insert.IH ks(1) by blast
  have "counted cfg k (i_mem st) (i_mem st')"
    using insert_moved_counts [OF assms(2) imt_run_ok [OF insert.hyps(1) assms(2,3)] insert.hyps(2) assms(3)] run insert.prems(2) by auto
  then show ?case using IH ks(2) by (simp add: counted_def sum_of_snoc)
next
  case (erase st log st')
  then show ?case
    using imt_erase_fresh [OF assms(2) imt_run_ok [OF erase.hyps(1) assms(2,3)]] total_zero
    by (auto simp: imt_fresh_def sum_of_def)
qed auto

section \<open>Search\<close>

lemma search_walk_spec:
  assumes "table_ok cfg (i_mem st) cs" "key_ok cfg k" "pos < cfg_buckets cfg"
  shows "cs ! pos = pre @ ps \<Longrightarrow> ps \<noteq> [] \<Longrightarrow> length ps < n \<Longrightarrow>
    \<exists>r. search_walk n k (prim_hash cfg k) (Some (hd ps)) st = Inr r \<and>
      (case r of None \<Rightarrow> \<forall>p \<in> set ps. ekey (elem_at (i_mem st) p) \<noteq> akey cfg k
       | Some p \<Rightarrow> p \<in> set ps \<and> ekey (elem_at (i_mem st) p) = akey cfg k)"
proof (induction n arbitrary: pre ps)
  case (Suc n)
  obtain p qs where ps: "ps = p # qs" using Suc.prems(2) by (cases ps) simp_all
  have chain: "linked (i_mem st) (cs ! pos)" using table_okD(1) [OF assms(1,3)] .
  have ib: "inb (i_mem st) p" using linked_inb [OF chain] Suc.prems(1) ps by simp
  note key = compare_key [OF assms(2) table_ok_elem [OF assms(1) ib]]
  show ?case
  proof (cases "ekey (elem_at (i_mem st) p) = akey cfg k")
    case True
    then show ?thesis using key ib ps by simp
  next
    case False
    show ?thesis
    proof (cases qs)
      case Nil
      then have "acc_next (elem_at (i_mem st) p) = None" using chain Suc.prems(1) ps linked_last by metis
      moreover obtain n' where "n = Suc n'" using Suc.prems(3) ps by (cases n) simp_all
      ultimately show ?thesis using False key ib ps Nil by auto
    next
      case (Cons q rs)
      have "acc_next (elem_at (i_mem st) p) = Some q" using chain Suc.prems(1) ps Cons linked_next by metis
      moreover have "\<exists>r. search_walk n k (prim_hash cfg k) (Some (hd qs)) st = Inr r \<and>
        (case r of None \<Rightarrow> \<forall>p \<in> set qs. ekey (elem_at (i_mem st) p) \<noteq> akey cfg k
         | Some p \<Rightarrow> p \<in> set qs \<and> ekey (elem_at (i_mem st) p) = akey cfg k)"
        using Suc.IH [of "pre @ [p]" qs] Suc.prems ps Cons by simp
      ultimately obtain r where r: "search_walk (Suc n) k (prim_hash cfg k) (Some (hd ps)) st = Inr r"
          "case r of None \<Rightarrow> \<forall>p \<in> set qs. ekey (elem_at (i_mem st) p) \<noteq> akey cfg k
           | Some p \<Rightarrow> p \<in> set qs \<and> ekey (elem_at (i_mem st) p) = akey cfg k"
        using False key ib ps Cons by auto
      then show ?thesis using False ps by (intro exI [of _ r]) (cases r; simp del: search_walk.simps)
    qed
  qed
qed simp

lemma search_finds:
  assumes "cfg_ok cfg" "imt_ok cfg st" "key_ok cfg k"
  shows "\<exists>r. search_accounting_structure cfg k st = Inr r \<and>
     (case r of None \<Rightarrow> \<forall>p. inb (i_mem st) p \<longrightarrow> ekey (elem_at (i_mem st) p) \<noteq> akey cfg k
      | Some p \<Rightarrow> inb (i_mem st) p \<and> ekey (elem_at (i_mem st) p) = akey cfg k)"
proof -
  let ?m = "i_mem st"
  define pos where "pos = unat (prim_hash cfg k) mod cfg_buckets cfg"
  have pos: "pos < cfg_buckets cfg" "bucket_of cfg (prim_hash cfg k) = Inr pos" using assms(1) by (simp_all add: pos_def bucket_of_def cfg_ok_def)
  obtain cs where cs: "table_ok cfg ?m cs" using assms(2) by (auto simp: imt_ok_def)
  have a: "i_a st = 0" using assms(2) by (simp add: imt_ok_def)
  note chain = table_okD [OF cs pos(1)]
  have ne: "cs ! pos \<noteq> []" using chain(1) by auto
  have "length (cs ! pos) < chain_fuel st" using chain_fuel_enough [OF cs pos(1)] by (simp add: chain_fuel_def)
  then obtain r where r: "search_accounting_structure cfg k st = Inr r"
      "case r of None \<Rightarrow> \<forall>p \<in> set (cs ! pos). ekey (elem_at ?m p) \<noteq> akey cfg k
       | Some p \<Rightarrow> p \<in> set (cs ! pos) \<and> ekey (elem_at ?m p) = akey cfg k"
    using search_walk_spec [OF cs assms(3) pos(1), of "[]" "cs ! pos" "chain_fuel st"] ne chain(2) pos(2) a
    by (auto simp: search_accounting_structure_def Let_def)
  have here: "p \<in> set (cs ! pos)" if p: "inb ?m p" "ekey (elem_at ?m p) = akey cfg k" for p
  proof -
    have used: "acc_clbgp (elem_at ?m p) \<noteq> None" using p(2) assms(3) by (auto simp: ekey_def akey_def key_ok_def split: option.splits)
    then have "p \<in> set (concat cs)" using table_ok_zero [OF cs p(1)] by (metis eff_zero(4))
    then obtain i where i: "i < length cs" "p \<in> set (cs ! i)" by (auto simp: in_set_conv_nth [of _ cs])
    then have "unat (signature (elem_at ?m p)) mod cfg_buckets cfg = i" using table_okD(5) [OF cs _ i(2) used] cs by (simp add: table_ok_def)
    moreover have "signature (elem_at ?m p) = prim_hash cfg k" using p(2) by (simp add: ekey_def akey_def)
    ultimately show ?thesis using i(2) by (simp add: pos_def)
  qed
  show ?thesis
  proof (cases r)
    case None
    then show ?thesis using r here by (simp; blast)
  next
    case (Some p)
    then show ?thesis using r linked_inb [OF chain(1)] by simp
  qed
qed

section \<open>Hash collisions\<close>

lemma cache_crc32_carry:
  assumes "unat a < 255" "33 \<le> unat b"
  shows "cache_crc32 (xs @ [a + 1, b - 33] @ ys) = cache_crc32 (xs @ [a, b] @ ys)"
proof -
  have u: "(ucast x :: u32) = of_nat (unat x)" for x :: byte by simp
  have "unat (a + 1) = unat a + 1" using assms(1) by (simp add: unat_add_lem [THEN iffD1])
  then have a: "(ucast (a + 1) :: u32) = ucast a + 1" unfolding u by (simp del: of_nat_unat)
  have "(33 :: byte) \<le> b" using assms(2) by (simp add: word_le_nat_alt)
  then have "unat (b - 33) = unat b - 33" by (simp add: unat_sub)
  then have b: "(ucast (b - 33) :: u32) = ucast b - 33" unfolding u using assms(2) by (simp add: of_nat_diff del: of_nat_unat)
  have p: "push_bit 5 h + h = h * 33" for h :: u32 by (simp add: push_bit_eq_mult)
  have "(h * 33 + ucast (a + 1)) * 33 + ucast (b - 33) = (h * 33 + ucast a) * 33 + ucast b" for h :: u32
    unfolding a b by (simp add: algebra_simps)
  then show ?thesis by (simp add: cache_crc32_def p add.assoc)
qed

section \<open>Properties\<close>

text \<open>A small table and a packet.\<close>

definition ex_cfg :: imt_cfg where
  "ex_cfg = \<lparr>cfg_buckets = 1, cfg_what_to_count = 0, cfg_what_to_count_2 = 0, cfg_num_memory_pools = 3,
     cfg_memory_pool_size = 2, cfg_cpptrs_len = 0, sz_acc = 1, sz_primitives = 4, off_class = 0, off_src_ip = 0,
     off_dst_ip = 0, sz_host_addr = 0, off_src_port = 0, off_dst_port = 2, off_src_as = 0, off_dst_as = 0,
     off_eth_shost = 0, off_eth_dhost = 0\<rparr>"

definition ex_pkt :: "byte list \<Rightarrow> byte list \<Rightarrow> primitives_ptrs" where
  "ex_pkt prims tun = \<lparr>pp_data = \<lparr>pd_primitives = prims, pd_pkt_len = 1500, pd_pkt_num = 1, pd_flo_num = 0,
       pd_flow_type = 0, pd_tcp_flags = 0, pd_cst = class_st_zero\<rparr>,
     pp_pbgp = Some [],
     pp_plbgp = Some \<lparr>lb_std_comms = replicate MAX_BGP_COMMS 0, lb_ext_comms = replicate MAX_BGP_COMMS 0, lb_lrg_comms = replicate MAX_BGP_COMMS 0,
       lb_as_path = replicate MAX_BGP_ASPATH 0, lb_src_std_comms = replicate MAX_BGP_COMMS 0, lb_src_ext_comms = replicate MAX_BGP_COMMS 0,
       lb_src_lrg_comms = replicate MAX_BGP_COMMS 0, lb_src_as_path = replicate MAX_BGP_ASPATH 0\<rparr>,
     pp_pnat = Some [], pp_pmpls = Some [], pp_ptun = Some tun, pp_pcust = Some [], pp_pvlen = Some []\<rparr>"

lemma ex_ok: "cfg_ok ex_cfg" "\<not> count_class ex_cfg" "key_ok ex_cfg (ex_pkt prims tun)"
  by (simp_all add: cfg_ok_def count_class_def ex_cfg_def key_ok_def ex_pkt_def cache_to_pkt_legacy_bgp_primitives_def
      pkt_to_cache_legacy_bgp_primitives_def cstr_or_zero_def)

lemma ex_start: "\<exists>st. imt_start ex_cfg 3 = Inr st"
  by (simp add: imt_start_def two_pools_def init_memory_pool_table_def request_memory_pool_def new_memory_pool_def
      mp_zero_def Let_def ex_cfg_def eval_nat_numeral)

text \<open>The first packet takes the head of its bucket, which is empty.\<close>

lemma ex_insert:
  "\<exists>st st'. imt_start ex_cfg 3 = Inr st \<and> insert_accounting_structure ex_cfg (ex_pkt prims tun) st = Inr st' \<and>
     \<not> i_no_more_space st' \<and> inb (i_mem st') (0, 0) \<and> ekey (elem_at (i_mem st') (0, 0)) = akey ex_cfg (ex_pkt prims tun)"
proof -
  let ?k = "ex_pkt prims tun"
  obtain st where st: "imt_start ex_cfg 3 = Inr st" "i_mem st = [[acc_zero], [acc_zero, acc_zero]]" "i_a st = 0" "i_lru st = [None]"
      "\<not> i_no_more_space st"
    by (simp add: imt_start_def two_pools_def init_memory_pool_table_def request_memory_pool_def new_memory_pool_def
        mp_zero_def Let_def ex_cfg_def eval_nat_numeral)
  define e where "e = acc_reuse ex_cfg ?k (prim_hash ex_cfg ?k) acc_zero"
  let ?st = "st\<lparr>i_mem := [[e], [acc_zero, acc_zero]], i_lru := [Some (0, 0)]\<rparr>"
  have "compare_accounting_structure acc_zero ?k" by (simp add: compare_accounting_structure_def acc_zero_def ex_pkt_def)
  moreover obtain n where "chain_fuel st = Suc n" by (simp add: chain_fuel_def)
  moreover have "bucket_of ex_cfg h = Inr 0" for h by (simp add: bucket_of_def ex_cfg_def)
  moreover have "bytes_counter acc_zero = 0" "packet_counter acc_zero = 0" by (simp_all add: acc_zero_def)
  ultimately have "insert_accounting_structure ex_cfg ?k st = Inr ?st"
    using st(2-5) by (simp add: insert_no_class [OF ex_ok(2)] insert_moved_def Let_def rd_acc_def put_acc_def wr_acc_def wr_lru_def e_def)
  moreover have "ekey e = akey ex_cfg ?k" unfolding e_def by (rule acc_reuse_simps(1) [OF ex_ok(2,3)]) (simp_all add: acc_zero_def)
  ultimately show ?thesis using st by (intro exI [of _ st] exI [of _ ?st]) (simp add: inb_def elem_at_def)
qed

text \<open>C27: in every state the plugin reaches, inserting a packet does not fault, and either it adds the bytes and
  the packets of the packet to the totals of its key and to no others, or the table has run out of memory and is
  left as it is. The plugin runs without class accounting, which would also move the counters that a flow
  has in the class zero to its class. The table has buckets and a pool holds an element, and a packet comes with all
  parts of its key, its legacy BGP values being empty where the configuration does not count them.\<close>

theorem insert_accounting_structure_counts:
  assumes "imt_run cfg st log" "cfg_ok cfg" "\<not> count_class cfg" "key_ok cfg k"
  shows "\<exists>st'. insert_accounting_structure cfg k st = Inr st' \<and>
    (counted cfg k (i_mem st) (i_mem st') \<or> i_no_more_space st' \<and> i_mem st' = i_mem st)"
  using insert_moved_counts [OF assms(2) imt_run_ok [OF assms(1-3)] assms(4,3)]
  by (auto simp: insert_no_class [OF assms(3)])

theorem insert_accounting_structure_counts_witness:
  "\<exists>st st'. imt_start ex_cfg 3 = Inr st \<and> insert_accounting_structure ex_cfg (ex_pkt [1, 2, 3, 4] []) st = Inr st' \<and>
    counted ex_cfg (ex_pkt [1, 2, 3, 4] []) (i_mem st) (i_mem st')"
proof -
  obtain st st' where r: "imt_start ex_cfg 3 = Inr st" "insert_accounting_structure ex_cfg (ex_pkt [1, 2, 3, 4] []) st = Inr st'"
      "\<not> i_no_more_space st'" using ex_insert by blast
  then show ?thesis using insert_accounting_structure_counts [OF imt_run.start [OF r(1)] ex_ok, of "[1, 2, 3, 4]" "[]"] by auto
qed

text \<open>C28: as long as the table has not run out of memory and no query has marked or reset a counter, the totals
  of a key are the sums, modulo the width of the counters, over the packets of that key inserted since the
  start or the last erasure, in whatever order packets of other keys came. The plugin runs without class
  accounting; configuration and packets are as in C27.\<close>

theorem imt_totals:
  assumes "imt_run cfg st (Some ks)" "cfg_ok cfg" "\<not> count_class cfg" "\<not> i_no_more_space st"
  shows "total eff_bytes K (i_mem st) = sum_of cfg pd_pkt_len K ks \<and> total eff_packets K (i_mem st) = sum_of cfg pd_pkt_num K ks"
  using imt_run_total [OF assms(1-3) refl assms(4)] .

theorem imt_totals_witness:
  "\<exists>st st'. imt_start ex_cfg 3 = Inr st \<and> insert_accounting_structure ex_cfg (ex_pkt [1, 2, 3, 4] []) st = Inr st' \<and>
     total eff_bytes (akey ex_cfg (ex_pkt [1, 2, 3, 4] [])) (i_mem st') = 1500"
proof -
  let ?k = "ex_pkt [1, 2, 3, 4] []"
  obtain st st' where r: "imt_start ex_cfg 3 = Inr st" "insert_accounting_structure ex_cfg ?k st = Inr st'" "\<not> i_no_more_space st'"
    using ex_insert by blast
  have "imt_run ex_cfg st' (Some [?k])" using imt_run.insert [OF imt_run.start [OF r(1)] ex_ok(3) r(2)] by simp
  from imt_totals [OF this ex_ok(1,2) r(3)] show ?thesis using r by (auto simp: sum_of_def ex_pkt_def)
qed

text \<open>C38: in every state the plugin reaches, a search does not fault and finds an element with the key of the
  packet exactly when the memory of the table holds one. The plugin runs without class accounting;
  configuration and packets are as in C27.\<close>

theorem search_accounting_structure_finds:
  assumes "imt_run cfg st log" "cfg_ok cfg" "\<not> count_class cfg" "key_ok cfg k"
  shows "\<exists>r. search_accounting_structure cfg k st = Inr r \<and>
     (case r of None \<Rightarrow> \<forall>p. inb (i_mem st) p \<longrightarrow> ekey (elem_at (i_mem st) p) \<noteq> akey cfg k
      | Some p \<Rightarrow> inb (i_mem st) p \<and> ekey (elem_at (i_mem st) p) = akey cfg k)"
  using search_finds [OF assms(2) imt_run_ok [OF assms(1-3)] assms(4)] .

theorem search_accounting_structure_finds_witness:
  "\<exists>st st' p. imt_start ex_cfg 3 = Inr st \<and> insert_accounting_structure ex_cfg (ex_pkt [1, 2, 3, 4] []) st = Inr st' \<and>
     search_accounting_structure ex_cfg (ex_pkt [1, 2, 3, 4] []) st' = Inr (Some p)"
proof -
  let ?k = "ex_pkt [1, 2, 3, 4] []"
  obtain st st' where r: "imt_start ex_cfg 3 = Inr st" "insert_accounting_structure ex_cfg ?k st = Inr st'"
      "inb (i_mem st') (0, 0)" "ekey (elem_at (i_mem st') (0, 0)) = akey ex_cfg ?k"
    using ex_insert by blast
  have "imt_run ex_cfg st' (Some [?k])" using imt_run.insert [OF imt_run.start [OF r(1)] ex_ok(3) r(2)] by simp
  from search_accounting_structure_finds [OF this ex_ok(1,2,3), of "[1, 2, 3, 4]" "[]"] obtain x where
    "search_accounting_structure ex_cfg ?k st' = Inr x" "x \<noteq> None" using r(3,4) by (auto split: option.splits)
  then show ?thesis using r(1,2) by blast
qed

text \<open>Packets that differ only in their tunnel addresses can be the same to the table: with two
  neighbouring bytes changed by one and by 33 the hash is the same, and the comparison never looks
  at the tunnel primitives.\<close>

theorem tunnel_endpoints_merged:
  assumes "unat a < 255" "33 \<le> unat b" "pp_ptun k = Some (xs @ [a, b] @ ys)"
  shows "pp_ptun (k\<lparr>pp_ptun := Some (xs @ [a + 1, b - 33] @ ys)\<rparr>) \<noteq> pp_ptun k \<and>
    prim_hash cfg (k\<lparr>pp_ptun := Some (xs @ [a + 1, b - 33] @ ys)\<rparr>) = prim_hash cfg k \<and>
    compare_accounting_structure e (k\<lparr>pp_ptun := Some (xs @ [a + 1, b - 33] @ ys)\<rparr>) = compare_accounting_structure e k"
  using assms(3) cache_crc32_carry [OF assms(1,2), of xs ys]
  by (auto simp: prim_hash_def opt_hash_def compare_accounting_structure_def)

theorem tunnel_endpoints_merged_witness:
  "prim_hash ex_cfg (ex_pkt [] [10, 0, 2, 1]) = prim_hash ex_cfg (ex_pkt [] [10, 0, 1, 34])"
  using tunnel_endpoints_merged [of 1 34 "ex_pkt [] [10, 0, 1, 34]" "[10, 0]" "[]" ex_cfg acc_zero] by (simp add: ex_pkt_def)

text \<open>A reset does not clear the flow counter, and an element that is reused after a reset passes its
  flows on to the key that takes it.\<close>

lemma reset_keeps_flows:
  "\<not> count_class cfg \<Longrightarrow> flow_counter (acc_reuse cfg k h (reset_counters t e)) = flow_counter e + pd_flo_num (pp_data k)"
  by (simp add: acc_steps)

end
