(* ===== verification/Bgp_Attr.thy ===== *)
theory Bgp_Attr
  imports Bgp_Aspath_Pool Bgp_Ecommunity Bgp_Lcommunity
begin

text \<open>
  Path attributes of a BGP route (\<^verbatim>\<open>struct bgp_attr\<close> of \<^verbatim>\<open>src/src/bgp/bgp.h\<close>) and the hash that
  shares them between routes (\<^verbatim>\<open>bgp_attr_intern\<close> and \<^verbatim>\<open>bgp_attr_unintern\<close> of
  \<^verbatim>\<open>src/src/bgp/bgp_util.c\<close>). An attribute points into the four pools of AS paths and
  communities; interning takes a reference to each of them.
\<close>

section \<open>Data\<close>

record host_addr =
  ha_family :: byte
  ha_address :: "byte list"

definition host_addr_zero :: host_addr where
  "host_addr_zero = \<lparr>ha_family = 0, ha_address = replicate 16 0\<rparr>"

text \<open>\<^verbatim>\<open>struct bgp_attr\<close>; \<open>at_nexthop\<close> is \<^verbatim>\<open>nexthop.s_addr\<close> as the host loads it.\<close>

record bgp_attr =
  at_aspath :: "addr option"
  at_community :: "addr option"
  at_ecommunity :: "addr option"
  at_lcommunity :: "addr option"
  at_refcnt :: u64
  at_flag :: u32
  at_nexthop :: u32
  at_mp_nexthop :: host_addr
  at_med :: u32
  at_local_pref :: u32
  at_pathlimit_as :: u32
  at_pathlimit_ttl :: byte
  at_origin :: byte

definition bgp_attr_zero :: bgp_attr where
  "bgp_attr_zero =
     \<lparr>at_aspath = None, at_community = None, at_ecommunity = None, at_lcommunity = None, at_refcnt = 0,
      at_flag = 0, at_nexthop = 0, at_mp_nexthop = host_addr_zero, at_med = 0, at_local_pref = 0,
      at_pathlimit_as = 0, at_pathlimit_ttl = 0, at_origin = 0\<rparr>"

text \<open>The hashes of \<^verbatim>\<open>struct bgp_rt_structs\<close> with the objects they point to, and the next unused
  address of an attribute object.\<close>

record bgp_rt =
  ashash :: "aspath pool"
  comhash :: "community pool"
  ecomhash :: "ecommunity pool"
  lcomhash :: "lcommunity pool"
  attrs :: "addr \<Rightarrow> bgp_attr option"
  attrhash :: "addr hash"
  next_obj :: addr

definition bgp_attr_init :: "u32 \<Rightarrow> bgp_rt" where
  "bgp_attr_init buckets =
     \<lparr>ashash = aspath_init buckets, comhash = community_init buckets, ecomhash = ecommunity_init buckets,
      lcomhash = lcommunity_init buckets, attrs = (\<lambda>_. None), attrhash = hash_create buckets, next_obj = 0\<rparr>"

section \<open>Key and comparison\<close>

definition part_key :: "('o \<Rightarrow> u32) \<Rightarrow> 'o pool \<Rightarrow> addr option \<Rightarrow> u32 res" where
  "part_key hk P c = (case c of None \<Rightarrow> Inr 0 | Some a \<Rightarrow> rbind (deref (p_objs P) a) (\<lambda>ob. Inr (hk ob)))"

text \<open>\<^verbatim>\<open>aspath_key_make\<close> stores the text it hashes in the path, hence the state in the result.\<close>

definition attrhash_key_make :: "bgp_rt \<Rightarrow> bgp_attr \<Rightarrow> (u32 \<times> bgp_rt) res" where
  "attrhash_key_make R at =
     (let key = ucast (at_origin at) + at_nexthop at + at_med at + at_local_pref at;
          key1 = (if at_pathlimit_as at \<noteq> 0 then key + ucast (at_pathlimit_ttl at) + at_pathlimit_as at else key)
      in rbind (case at_aspath at of
             None \<Rightarrow> Inr (key1, R)
           | Some a \<Rightarrow> rbind (deref (p_objs (ashash R)) a) (\<lambda>p. rbind (aspath_key_make p) (\<lambda>(k, p1).
               Inr (key1 + k, R\<lparr>ashash := (ashash R)\<lparr>p_objs := (p_objs (ashash R))(a := Some p1)\<rparr>\<rparr>)))) (\<lambda>(key2, R1).
         rbind (part_key community_hash_make (comhash R1) (at_community at)) (\<lambda>k3.
         rbind (part_key ecommunity_hash_make (ecomhash R1) (at_ecommunity at)) (\<lambda>k4.
         rbind (part_key lcommunity_hash_make (lcomhash R1) (at_lcommunity at)) (\<lambda>k5.
           Inr (key2 + k3 + k4 + k5, R1))))))"

definition attrhash_cmp :: "bgp_attr \<Rightarrow> bgp_attr \<Rightarrow> bool" where
  "attrhash_cmp attr1 attr2 \<longleftrightarrow>
     at_flag attr1 = at_flag attr2 \<and> at_origin attr1 = at_origin attr2 \<and> at_nexthop attr1 = at_nexthop attr2 \<and>
     at_aspath attr1 = at_aspath attr2 \<and> at_community attr1 = at_community attr2 \<and>
     at_ecommunity attr1 = at_ecommunity attr2 \<and> at_lcommunity attr1 = at_lcommunity attr2 \<and>
     at_med attr1 = at_med attr2 \<and> at_local_pref attr1 = at_local_pref attr2 \<and>
     at_pathlimit_ttl attr1 = at_pathlimit_ttl attr2 \<and> at_pathlimit_as attr1 = at_pathlimit_as attr2 \<and>
     at_mp_nexthop attr1 = at_mp_nexthop attr2"

text \<open>The comparison as the hash calls it, on addresses of live objects.\<close>

definition attr_ptr_cmp :: "(addr \<Rightarrow> bgp_attr option) \<Rightarrow> addr \<Rightarrow> addr \<Rightarrow> bool" where
  "attr_ptr_cmp objs a b = rel_option attrhash_cmp (objs a) (objs b)"

section \<open>Interning\<close>

text \<open>\<^verbatim>\<open>if (!x->refcnt) x = intern(x); else x->refcnt++;\<close> for a part \<open>x\<close> of the attribute.\<close>

definition take_ref :: "('a pooled_scheme pool \<Rightarrow> addr \<Rightarrow> (addr option \<times> 'a pooled_scheme pool) res)
    \<Rightarrow> 'a pooled_scheme pool \<Rightarrow> addr option \<Rightarrow> (addr option \<times> 'a pooled_scheme pool) res" where
  "take_ref intern P x = (case x of
       None \<Rightarrow> Inr (None, P)
     | Some a \<Rightarrow> rbind (deref (p_objs P) a) (\<lambda>ob.
         if refcnt ob = 0 then intern P a
         else Inr (Some a, P\<lparr>p_objs := (p_objs P)(a := Some (ob\<lparr>refcnt := refcnt ob + 1\<rparr>))\<rparr>)))"

definition drop_ref :: "('o pool \<Rightarrow> addr \<Rightarrow> 'o pool res) \<Rightarrow> 'o pool \<Rightarrow> addr option \<Rightarrow> 'o pool res" where
  "drop_ref unintern P x = (case x of None \<Rightarrow> Inr P | Some a \<Rightarrow> unintern P a)"

text \<open>\<^verbatim>\<open>bgp_attr_intern\<close> of the attribute \<open>at\<close> on the caller's stack: the shared attribute, and
  \<open>at\<close> with its parts interned. The lookup sees \<open>at\<close> at the address \<open>next_obj\<close>; a copy made by
  \<^verbatim>\<open>bgp_attr_hash_alloc\<close> gets the address after it.\<close>

definition bgp_attr_hash_alloc :: "bgp_attr \<Rightarrow> bgp_attr" where
  "bgp_attr_hash_alloc at = at\<lparr>at_refcnt := 0\<rparr>"

definition attr_share :: "bgp_peer_type option \<Rightarrow> bgp_rt \<Rightarrow> bgp_attr \<Rightarrow> (addr \<times> bgp_rt) res" where
  "attr_share peer R at =
     rbind (attrhash_key_make R at) (\<lambda>(key, R1).
       let tmp = next_obj R1; fresh = Suc tmp; objs = (attrs R1)(tmp := Some at) in
       rbind (hash_get peer (\<lambda>_. key) (attr_ptr_cmp objs) (attrhash R1) tmp (Some (\<lambda>_. Some fresh))) (\<lambda>(find, h).
         case find of
           None \<Rightarrow> Inl Null_Deref
         | Some f \<Rightarrow>
             let objs1 = (if f = fresh then (attrs R1)(fresh := Some (bgp_attr_hash_alloc at)) else attrs R1) in
             rbind (deref objs1 f) (\<lambda>ob.
               Inr (f, R1\<lparr>attrs := objs1(f := Some (ob\<lparr>at_refcnt := at_refcnt ob + 1\<rparr>)),
                          attrhash := h, next_obj := Suc fresh\<rparr>))))"

definition bgp_attr_intern :: "bgp_peer_type option \<Rightarrow> bgp_rt \<Rightarrow> bgp_attr \<Rightarrow> (addr option \<times> bgp_attr \<times> bgp_rt) res" where
  "bgp_attr_intern peer R at =
     (if \<not> routing_db peer then Inr (None, at, R)
      else
        rbind (take_ref (aspath_intern peer) (ashash R) (at_aspath at)) (\<lambda>(pa, A).
        rbind (take_ref (community_intern peer) (comhash R) (at_community at)) (\<lambda>(pc, C).
        rbind (take_ref (ecommunity_intern peer) (ecomhash R) (at_ecommunity at)) (\<lambda>(pe, E).
        rbind (take_ref (lcommunity_intern peer) (lcomhash R) (at_lcommunity at)) (\<lambda>(pl, L).
          let at1 = at\<lparr>at_aspath := pa, at_community := pc, at_ecommunity := pe, at_lcommunity := pl\<rparr> in
          rbind (attr_share peer (R\<lparr>ashash := A, comhash := C, ecomhash := E, lcomhash := L\<rparr>) at1) (\<lambda>(f, R1).
            Inr (Some f, at1, R1)))))))"

definition attr_release :: "bgp_rt \<Rightarrow> addr \<Rightarrow> bgp_rt res" where
  "attr_release R a =
     rbind (deref (attrs R) a) (\<lambda>at. let at1 = at\<lparr>at_refcnt := at_refcnt at - 1\<rparr>;
         R1 = R\<lparr>attrs := (attrs R)(a := Some at1)\<rparr> in
       if at_refcnt at1 = 0 then
         rbind (attrhash_key_make R1 at1) (\<lambda>(key, R2).
         rbind (hash_release (\<lambda>_. key) (attr_ptr_cmp (attrs R2)) (attrhash R2) a) (\<lambda>(ret, h).
           Inr (R2\<lparr>attrs := (attrs R2)(a := None), attrhash := h\<rparr>)))
       else Inr R1)"

definition bgp_attr_unintern :: "bgp_peer_type option \<Rightarrow> bgp_rt \<Rightarrow> addr \<Rightarrow> bgp_rt res" where
  "bgp_attr_unintern peer R a =
     (if \<not> (routing_db peer \<and> misc_db peer) then Inr R
      else rbind (deref (attrs R) a) (\<lambda>at.
        rbind (attr_release R a) (\<lambda>R1.
        rbind (drop_ref (aspath_unintern peer) (ashash R1) (at_aspath at)) (\<lambda>A.
        rbind (drop_ref (community_unintern peer) (comhash R1) (at_community at)) (\<lambda>C.
        rbind (drop_ref (ecommunity_unintern peer) (ecomhash R1) (at_ecommunity at)) (\<lambda>E.
        rbind (drop_ref (lcommunity_unintern peer) (lcomhash R1) (at_lcommunity at)) (\<lambda>L.
          Inr (R1\<lparr>ashash := A, comhash := C, ecomhash := E, lcomhash := L\<rparr>))))))))"

end
