(* ===== verification/Bgp_Rib.thy ===== *)
theory Bgp_Rib
  imports Bgp_Attr Bgp_Walk
begin

text \<open>
  The routing information base of the BGP daemon: the routes (\<^verbatim>\<open>struct bgp_info\<close> of
  \<^verbatim>\<open>src/src/bgp/bgp_table.h\<close>) chained at the nodes of one routing table per address family,
  their installation and withdrawal (\<^verbatim>\<open>bgp_process_update\<close> and \<^verbatim>\<open>bgp_process_withdraw\<close> of
  \<^verbatim>\<open>src/src/bgp/bgp_msg.c\<close>) and the helpers of \<^verbatim>\<open>src/src/bgp/bgp_util.c\<close> they call.
\<close>

section \<open>Data\<close>

definition AFI_MAX :: u16 where "AFI_MAX = 3"
definition SAFI_UNICAST :: byte where "SAFI_UNICAST = 1"
definition SAFI_MPLS_LABEL :: byte where "SAFI_MPLS_LABEL = 4"
definition SAFI_MPLS_VPN :: byte where "SAFI_MPLS_VPN = 128"
definition SAFI_MAX :: byte where "SAFI_MAX = 129"
definition BGP_MSG_EXTRA_DATA_NONE :: byte where "BGP_MSG_EXTRA_DATA_NONE = 0"
definition BGP_MSG_EXTRA_DATA_BMP :: byte where "BGP_MSG_EXTRA_DATA_BMP = 1"

definition SUCCESS :: int where "SUCCESS = 0"
definition ERR :: int where "ERR = - 1"

text \<open>\<^verbatim>\<open>struct bgp_peer\<close>: \<open>pe_self\<close> is the address of the structure, which routes point to;
  \<open>pe_cap_4as\<close> the position \<^verbatim>\<open>cap_4as\<close> points to, \<open>None\<close> for NULL. The lock counter is in
  \<open>bgp_db\<close> below, as routes are counted there.\<close>

record bgp_peer = bgp_peer_type +
  pe_self :: addr
  pe_fd :: u32
  pe_status :: byte
  pe_myas :: u32
  pe_as :: u32
  pe_ht :: u16
  pe_last_keepalive :: int
  pe_id :: host_addr
  pe_cap_mp :: bool
  pe_cap_4as :: "nat option"
  pe_cap_add_paths :: bool
  pe_msglen :: u32
  pe_buf :: "byte list"
  pe_truncated_len :: u32

definition ptype :: "bgp_peer \<Rightarrow> bgp_peer_type option" where
  "ptype peer = Some (bgp_peer_type.truncate peer)"

text \<open>The settings of the daemon the functions below read; \<open>bmp_extras\<close> says whether the three
  \<^verbatim>\<open>bgp_extra_data\<close> callbacks are those of the BMP daemon or NULL.\<close>

record bgp_daemon = bgp_misc +
  skip_rib :: bool
  msglog_backend :: bool
  bmp_extras :: bool

record bgp_msg_extra =
  ed_id :: byte
  ed_data :: "byte list"

record bgp_info_extra =
  ie_rd :: "byte list"
  ie_label :: "byte list"
  ie_path_id :: u32
  ie_bmed :: bgp_msg_extra

record bgp_info =
  i_peer :: addr
  i_attr :: "addr option"
  i_extra :: "bgp_info_extra option"

datatype log_type = Log_Update | Log_Withdraw | Log_Delete

record bgp_log =
  lg_prefix :: prefix_t
  lg_info :: bgp_info
  lg_afi :: u16
  lg_safi :: byte
  lg_type :: log_type

text \<open>\<^verbatim>\<open>struct bgp_rt_structs\<close> with its tables \<^verbatim>\<open>rib[afi][safi]\<close>, the lock counters of the
  peers, and what \<^verbatim>\<open>bgp_peer_log_msg\<close> has written, latest last.\<close>

record bgp_db =
  db_rt :: bgp_rt
  rib :: "u16 \<Rightarrow> byte \<Rightarrow> bgp_info bgp_table"
  peer_locks :: "addr \<Rightarrow> int"
  msg_log :: "bgp_log list"

definition bgp_db_init :: "u32 \<Rightarrow> bgp_db" where
  "bgp_db_init buckets =
     \<lparr>db_rt = bgp_attr_init buckets, rib = bgp_table_init, peer_locks = (\<lambda>_. 0), msg_log = []\<rparr>"

definition rib_at :: "bgp_db \<Rightarrow> u16 \<Rightarrow> byte \<Rightarrow> bgp_info bgp_table res" where
  "rib_at d afi safi = (if afi < AFI_MAX \<and> safi < SAFI_MAX then Inr (rib d afi safi) else Inl Out_Of_Bounds)"

definition put_rib :: "bgp_db \<Rightarrow> u16 \<Rightarrow> byte \<Rightarrow> bgp_info bgp_table \<Rightarrow> bgp_db" where
  "put_rib d afi safi T = d\<lparr>rib := (rib d)(afi := (rib d afi)(safi := T))\<rparr>"

definition bgp_peer_log_msg :: "bgp_db \<Rightarrow> prefix_t \<Rightarrow> bgp_info \<Rightarrow> u16 \<Rightarrow> byte \<Rightarrow> log_type \<Rightarrow> bgp_db" where
  "bgp_peer_log_msg d p ri afi safi ty =
     d\<lparr>msg_log := msg_log d @ [\<lparr>lg_prefix = p, lg_info = ri, lg_afi = afi, lg_safi = safi, lg_type = ty\<rparr>]\<rparr>"

section \<open>Buckets\<close>

text \<open>\<^verbatim>\<open>bgp_route_info_modulo_pathid\<close>; \<open>path_id\<close> is \<open>None\<close> for NULL.\<close>

definition bgp_route_info_modulo_pathid :: "bgp_daemon \<Rightarrow> bgp_peer \<Rightarrow> u32 option \<Rightarrow> u32 res" where
  "bgp_route_info_modulo_pathid bms peer path_id =
     (let local_path_id = (case path_id of Some x \<Rightarrow> if x \<noteq> 0 then x else 1 | None \<Rightarrow> 1);
          per_peer = word_of_nat (table_per_peer_buckets bms);
          all = word_of_nat (table_peer_buckets bms * table_per_peer_buckets bms)
      in if per_peer = 0 \<or> all = 0 then Inl Div_By_Zero
         else Inr ((pe_fd peer * per_peer + (local_path_id - 1) mod per_peer) mod all))"

definition bucket :: "bgp_info bgp_node \<Rightarrow> nat \<Rightarrow> bgp_info list res" where
  "bucket nd m = (if m < length (n_info nd) then Inr (n_info nd ! m) else Inl Out_Of_Bounds)"

definition put_bucket :: "bgp_info bgp_table \<Rightarrow> addr \<Rightarrow> nat \<Rightarrow> bgp_info list \<Rightarrow> bgp_info bgp_table res" where
  "put_bucket T a m bk = rbind (get_node T a) (\<lambda>nd. Inr (put_node T a (nd\<lparr>n_info := (n_info nd)[m := bk]\<rparr>)))"

section \<open>Extra data\<close>

definition bgp_info_extra_zero :: bgp_info_extra where
  "bgp_info_extra_zero =
     \<lparr>ie_rd = replicate 8 0, ie_label = replicate 3 0, ie_path_id = 0, ie_bmed = \<lparr>ed_id = 0, ed_data = []\<rparr>\<rparr>"

text \<open>\<^verbatim>\<open>bgp_info_extra_get\<close> and \<^verbatim>\<open>bgp_info_extra_new\<close>: nothing is added for a peer type without
  settings.\<close>

definition bgp_info_extra_get :: "bgp_peer \<Rightarrow> bgp_info \<Rightarrow> bgp_info" where
  "bgp_info_extra_get peer ri =
     (if i_extra ri = None \<and> misc_db (ptype peer) then ri\<lparr>i_extra := Some bgp_info_extra_zero\<rparr> else ri)"

definition upd_extra :: "(bgp_info_extra \<Rightarrow> bgp_info_extra) \<Rightarrow> bgp_info \<Rightarrow> bgp_info" where
  "upd_extra f ri = ri\<lparr>i_extra := map_option f (i_extra ri)\<rparr>"

definition bgp_info_extra_process :: "bgp_peer \<Rightarrow> bgp_info \<Rightarrow> byte \<Rightarrow> u32 \<Rightarrow> byte list \<Rightarrow> byte list \<Rightarrow> bgp_info" where
  "bgp_info_extra_process peer ri safi path_id rd label =
     (let ri1 = (if safi = SAFI_MPLS_LABEL \<or> safi = SAFI_MPLS_VPN
                 then upd_extra (\<lambda>e. (if safi = SAFI_MPLS_VPN then e\<lparr>ie_rd := rd\<rparr> else e)\<lparr>ie_label := label\<rparr>)
                        (bgp_info_extra_get peer ri)
                 else ri)
      in if pe_cap_add_paths peer \<and> path_id \<noteq> 0
         then upd_extra (\<lambda>e. e\<lparr>ie_path_id := path_id\<rparr>) (bgp_info_extra_get peer ri1) else ri1)"

text \<open>The callbacks of \<^verbatim>\<open>src/src/bmp/bmp_util.c\<close>.\<close>

definition bgp_extra_data_cmp_bmp :: "bgp_msg_extra \<Rightarrow> bgp_msg_extra \<Rightarrow> bool" where
  "bgp_extra_data_cmp_bmp a b \<longleftrightarrow>
     ed_id a = ed_id b \<and> length (ed_data a) = length (ed_data b) \<and> ed_id a = BGP_MSG_EXTRA_DATA_BMP \<and>
     ed_data a = ed_data b"

definition bgp_extra_data_process_bmp :: "bgp_peer \<Rightarrow> bgp_msg_extra \<Rightarrow> bgp_info \<Rightarrow> bgp_info" where
  "bgp_extra_data_process_bmp peer bmed ri =
     (if ed_id bmed = BGP_MSG_EXTRA_DATA_BMP
      then upd_extra (\<lambda>e. e\<lparr>ie_bmed := bmed\<rparr>) (bgp_info_extra_get peer ri) else ri)"

definition extra_data_process :: "bgp_daemon \<Rightarrow> bgp_peer \<Rightarrow> bgp_msg_extra \<Rightarrow> bgp_info \<Rightarrow> bgp_info" where
  "extra_data_process bms peer extra ri = (if bmp_extras bms then bgp_extra_data_process_bmp peer extra ri else ri)"

text \<open>What a route becomes when it is announced: \<^verbatim>\<open>bgp_info_extra_process\<close>, then the callback.\<close>

definition announce :: "bgp_daemon \<Rightarrow> bgp_peer \<Rightarrow> bgp_msg_extra \<Rightarrow> byte \<Rightarrow> u32 \<Rightarrow> byte list \<Rightarrow> byte list \<Rightarrow> bgp_info \<Rightarrow> bgp_info" where
  "announce bms peer extra safi path_id rd label ri =
     extra_data_process bms peer extra (bgp_info_extra_process peer ri safi path_id rd label)"

section \<open>Finding a route\<close>

text \<open>The test of the search loops of \<^verbatim>\<open>bgp_process_update\<close> and \<^verbatim>\<open>bgp_process_withdraw\<close>.\<close>

definition same_route :: "bgp_daemon \<Rightarrow> bgp_peer \<Rightarrow> bgp_msg_extra \<Rightarrow> byte \<Rightarrow> byte list \<Rightarrow> u32 \<Rightarrow> bgp_info \<Rightarrow> bool" where
  "same_route bms peer extra safi rd path_id ri \<longleftrightarrow>
     i_peer ri = pe_self peer \<and>
     (safi = SAFI_MPLS_VPN \<longrightarrow> (case i_extra ri of None \<Rightarrow> False | Some e \<Rightarrow> ie_rd e = rd)) \<and>
     (pe_cap_add_paths peer \<longrightarrow>
        (if path_id \<noteq> 0 then (case i_extra ri of None \<Rightarrow> False | Some e \<Rightarrow> path_id = ie_path_id e)
         else (case i_extra ri of None \<Rightarrow> True | Some e \<Rightarrow> ie_path_id e = 0))) \<and>
     (case i_extra ri of
        None \<Rightarrow> True
      | Some e \<Rightarrow> ed_id (ie_bmed e) \<noteq> 0 \<longrightarrow> bmp_extras bms \<and> bgp_extra_data_cmp_bmp extra (ie_bmed e))"

fun info_find :: "('i \<Rightarrow> bool) \<Rightarrow> 'i list \<Rightarrow> nat option" where
  "info_find P [] = None"
| "info_find P (x # xs) = (if P x then Some 0 else map_option Suc (info_find P xs))"

section \<open>Installing and removing routes\<close>

definition bgp_info_new :: "bgp_peer \<Rightarrow> bgp_info" where
  "bgp_info_new peer = \<lparr>i_peer = 0, i_attr = None, i_extra = None\<rparr>"

text \<open>The parent table of a node is the one at \<open>afi\<close>, \<open>safi\<close>.\<close>

definition bgp_info_add :: "bgp_db \<Rightarrow> u16 \<Rightarrow> byte \<Rightarrow> addr \<Rightarrow> bgp_info \<Rightarrow> nat \<Rightarrow> bgp_db res" where
  "bgp_info_add d afi safi rn ri m =
     rbind (get_node (rib d afi safi) rn) (\<lambda>nd. rbind (bucket nd m) (\<lambda>bk.
     rbind (put_bucket (rib d afi safi) rn m (ri # bk)) (\<lambda>T1.
     rbind (bgp_lock_node T1 rn) (\<lambda>T2.
       Inr ((put_rib d afi safi T2)\<lparr>peer_locks := (peer_locks d)(i_peer ri := peer_locks d (i_peer ri) + 1)\<rparr>)))))"

definition bgp_info_free :: "bgp_peer \<Rightarrow> bgp_db \<Rightarrow> bgp_info \<Rightarrow> bgp_db res" where
  "bgp_info_free peer d ri =
     rbind (case i_attr ri of None \<Rightarrow> Inr (db_rt d) | Some at \<Rightarrow> bgp_attr_unintern (ptype peer) (db_rt d) at) (\<lambda>R.
       Inr (d\<lparr>db_rt := R, peer_locks := (peer_locks d)(i_peer ri := peer_locks d (i_peer ri) - 1)\<rparr>))"

definition remove_nth :: "nat \<Rightarrow> 'i list \<Rightarrow> 'i list" where
  "remove_nth k xs = take k xs @ drop (Suc k) xs"

text \<open>\<^verbatim>\<open>bgp_info_delete\<close> of the \<open>k\<close>-th route of a bucket.\<close>

definition bgp_info_delete :: "bgp_peer \<Rightarrow> bgp_db \<Rightarrow> u16 \<Rightarrow> byte \<Rightarrow> addr \<Rightarrow> nat \<Rightarrow> nat \<Rightarrow> bgp_db res" where
  "bgp_info_delete peer d afi safi rn k m =
     rbind (get_node (rib d afi safi) rn) (\<lambda>nd. rbind (bucket nd m) (\<lambda>bk.
       if k < length bk then
         rbind (put_bucket (rib d afi safi) rn m (remove_nth k bk)) (\<lambda>T1.
         rbind (bgp_info_free peer (put_rib d afi safi T1) (bk ! k)) (\<lambda>d1.
         rbind (bgp_unlock_node (rib d1 afi safi) rn) (\<lambda>T2. Inr (put_rib d1 afi safi T2))))
       else Inl Use_After_Free))"

text \<open>The branch of \<^verbatim>\<open>bgp_process_update\<close> for the node \<open>rn\<close> that \<^verbatim>\<open>bgp_node_get\<close> returned: the
  route found at position \<open>hit\<close> of its bucket \<open>bk\<close> is confirmed or gets the new attribute, or a
  new route is added. The result is the route the log is about and the new state.\<close>

definition update_node :: "bgp_daemon \<Rightarrow> bgp_peer \<Rightarrow> bgp_msg_extra \<Rightarrow> bgp_db \<Rightarrow> u16 \<Rightarrow> byte \<Rightarrow> addr \<Rightarrow> nat \<Rightarrow>
    bgp_info list \<Rightarrow> nat option \<Rightarrow> addr \<Rightarrow> byte list \<Rightarrow> u32 \<Rightarrow> byte list \<Rightarrow> (bgp_info \<times> bgp_db) res" where
  "update_node bms peer extra d afi safi rn m bk hit new rd path_id label =
     (case hit of
        Some k \<Rightarrow>
          (case i_attr (bk ! k) of
             None \<Rightarrow> Inl Null_Deref
           | Some old \<Rightarrow>
               rbind (deref (attrs (db_rt d)) old) (\<lambda>x. rbind (deref (attrs (db_rt d)) new) (\<lambda>y.
                 if attrhash_cmp x y then
                   rbind (bgp_unlock_node (rib d afi safi) rn) (\<lambda>T1.
                   rbind (bgp_attr_unintern (ptype peer) (db_rt d) new) (\<lambda>R1.
                     Inr (bk ! k, put_rib (d\<lparr>db_rt := R1\<rparr>) afi safi T1)))
                 else
                   rbind (bgp_attr_unintern (ptype peer) (db_rt d) old) (\<lambda>R1.
                   let ri = announce bms peer extra safi path_id rd label ((bk ! k)\<lparr>i_attr := Some new\<rparr>) in
                   rbind (put_bucket (rib d afi safi) rn m (bk[k := ri])) (\<lambda>T1.
                   rbind (bgp_unlock_node T1 rn) (\<lambda>T2.
                     Inr (ri, put_rib (d\<lparr>db_rt := R1\<rparr>) afi safi T2)))))))
      | None \<Rightarrow>
          let ri = announce bms peer extra safi path_id rd label
                     ((bgp_info_new peer)\<lparr>i_peer := pe_self peer, i_attr := Some new\<rparr>) in
          rbind (bgp_info_add d afi safi rn ri m) (\<lambda>d1.
          rbind (bgp_unlock_node (rib d1 afi safi) rn) (\<lambda>T1. Inr (ri, put_rib d1 afi safi T1))))"

text \<open>\<^verbatim>\<open>bgp_process_update\<close> returns its code, the caller's attribute and the new state. With
  \<^verbatim>\<open>skip_rib\<close> the route is only logged, out of a local \<^verbatim>\<open>struct bgp_info\<close>.\<close>

definition update_logged :: "bgp_daemon \<Rightarrow> bgp_peer \<Rightarrow> bgp_msg_extra \<Rightarrow> bgp_db \<Rightarrow> prefix_t \<Rightarrow> bgp_attr \<Rightarrow> u16 \<Rightarrow> byte \<Rightarrow>
    byte list \<Rightarrow> u32 \<Rightarrow> byte list \<Rightarrow> (int \<times> bgp_attr \<times> bgp_db) res" where
  "update_logged bms peer extra d p at afi safi rd path_id label =
     rbind (bgp_attr_intern (ptype peer) (db_rt d) at) (\<lambda>(new, at1, R).
       let ri = announce bms peer extra safi path_id rd label \<lparr>i_peer = pe_self peer, i_attr = new, i_extra = None\<rparr>;
           d1 = bgp_peer_log_msg (d\<lparr>db_rt := R\<rparr>) p ri afi safi Log_Update
       in case new of
            None \<Rightarrow> Inl Null_Deref
          | Some f \<Rightarrow> rbind (bgp_attr_unintern (ptype peer) R f) (\<lambda>R1. Inr (SUCCESS, at1, d1\<lparr>db_rt := R1\<rparr>)))"

definition bgp_process_update :: "bgp_daemon \<Rightarrow> bgp_peer \<Rightarrow> bgp_msg_extra \<Rightarrow> bgp_db \<Rightarrow> prefix_t \<Rightarrow> bgp_attr \<Rightarrow> u16 \<Rightarrow> byte \<Rightarrow>
    byte list \<Rightarrow> u32 \<Rightarrow> byte list \<Rightarrow> (int \<times> bgp_attr \<times> bgp_db) res" where
  "bgp_process_update bms peer extra d p at afi safi rd path_id label =
     (if \<not> (routing_db (ptype peer) \<and> misc_db (ptype peer)) then Inr (ERR, at, d)
      else if skip_rib bms then
        if msglog_backend bms then update_logged bms peer extra d p at afi safi rd path_id label
        else Inr (SUCCESS, at, d)
      else
        rbind (bgp_route_info_modulo_pathid bms peer (Some path_id)) (\<lambda>modulo.
        rbind (rib_at d afi safi) (\<lambda>T.
        rbind (bgp_node_get (Some (bgp_misc.truncate bms)) T p) (\<lambda>(rn, T1).
        rbind (get_node T1 rn) (\<lambda>nd.
        rbind (bucket nd (unat modulo)) (\<lambda>bk.
        let hit = info_find (same_route bms peer extra safi rd path_id) bk in
        rbind (bgp_attr_intern (ptype peer) (db_rt d) at) (\<lambda>(new, at1, R).
        case new of
          None \<Rightarrow> Inl Null_Deref
        | Some f \<Rightarrow>
            rbind (update_node bms peer extra (put_rib (d\<lparr>db_rt := R\<rparr>) afi safi T1) afi safi rn (unat modulo)
                     bk hit f rd path_id label) (\<lambda>(ri, d1).
              if msglog_backend bms then
                rbind (get_node (rib d1 afi safi) rn) (\<lambda>nd1.
                  Inr (SUCCESS, at1, bgp_peer_log_msg d1 (n_p nd1) ri afi safi Log_Update))
              else Inr (SUCCESS, at1, d1)))))))))"

definition bgp_process_withdraw :: "bgp_daemon \<Rightarrow> bgp_peer \<Rightarrow> bgp_msg_extra \<Rightarrow> bgp_db \<Rightarrow> prefix_t \<Rightarrow> u16 \<Rightarrow> byte \<Rightarrow>
    byte list \<Rightarrow> u32 \<Rightarrow> byte list \<Rightarrow> (int \<times> bgp_db) res" where
  "bgp_process_withdraw bms peer extra d p afi safi rd path_id label =
     (if \<not> (routing_db (ptype peer) \<and> misc_db (ptype peer)) then Inr (ERR, d)
      else if skip_rib bms then
        if msglog_backend bms then
          Inr (SUCCESS, bgp_peer_log_msg d p
            (announce bms peer extra safi path_id rd label \<lparr>i_peer = pe_self peer, i_attr = None, i_extra = None\<rparr>)
            afi safi Log_Withdraw)
        else Inr (SUCCESS, d)
      else
        rbind (bgp_route_info_modulo_pathid bms peer (Some path_id)) (\<lambda>modulo.
        rbind (rib_at d afi safi) (\<lambda>T.
        rbind (bgp_node_get (Some (bgp_misc.truncate bms)) T p) (\<lambda>(rn, T1).
        rbind (get_node T1 rn) (\<lambda>nd.
        rbind (bucket nd (unat modulo)) (\<lambda>bk.
        let d1 = put_rib d afi safi T1;
            hit = info_find (same_route bms peer extra safi rd path_id) bk in
        rbind (case hit of
                 None \<Rightarrow> Inr d1
               | Some k \<Rightarrow> bgp_info_delete peer
                   (if msglog_backend bms then bgp_peer_log_msg d1 (n_p nd) (bk ! k) afi safi Log_Withdraw else d1)
                   afi safi rn k (unat modulo)) (\<lambda>d2.
        rbind (bgp_unlock_node (rib d2 afi safi) rn) (\<lambda>T2. Inr (SUCCESS, put_rib d2 afi safi T2)))))))))"

section \<open>Closing a session\<close>

text \<open>The inner loop of \<^verbatim>\<open>bgp_peer_info_delete\<close> over one bucket, from its \<open>k\<close>-th route on: the
  routes of the peer are logged and deleted. \<open>n\<close> is the number of routes left to look at.\<close>

fun delete_bucket :: "bgp_daemon \<Rightarrow> bgp_peer \<Rightarrow> nat \<Rightarrow> bgp_db \<Rightarrow> u16 \<Rightarrow> byte \<Rightarrow> addr \<Rightarrow> nat \<Rightarrow> nat \<Rightarrow> bgp_db res" where
  "delete_bucket bms peer 0 d afi safi rn k m = Inr d"
| "delete_bucket bms peer (Suc n) d afi safi rn k m =
     rbind (get_node (rib d afi safi) rn) (\<lambda>nd. rbind (bucket nd m) (\<lambda>bk.
       if \<not> k < length bk then Inr d
       else if i_peer (bk ! k) = pe_self peer then
         rbind (bgp_info_delete peer
           (if msglog_backend bms then bgp_peer_log_msg d (n_p nd) (bk ! k) afi safi Log_Delete else d)
           afi safi rn k m) (\<lambda>d1. delete_bucket bms peer n d1 afi safi rn k m)
       else delete_bucket bms peer n d afi safi rn (Suc k) m))"

fun delete_buckets :: "bgp_daemon \<Rightarrow> bgp_peer \<Rightarrow> nat \<Rightarrow> bgp_db \<Rightarrow> u16 \<Rightarrow> byte \<Rightarrow> addr \<Rightarrow> nat \<Rightarrow> bgp_db res" where
  "delete_buckets bms peer 0 d afi safi rn m = Inr d"
| "delete_buckets bms peer (Suc n) d afi safi rn m =
     rbind (get_node (rib d afi safi) rn) (\<lambda>nd. rbind (bucket nd m) (\<lambda>bk.
     rbind (delete_bucket bms peer (length bk) d afi safi rn 0 m) (\<lambda>d1.
       delete_buckets bms peer n d1 afi safi rn (Suc m))))"

fun delete_nodes :: "bgp_daemon \<Rightarrow> bgp_peer \<Rightarrow> nat \<Rightarrow> bgp_db \<Rightarrow> u16 \<Rightarrow> byte \<Rightarrow> addr option \<Rightarrow> bgp_db res" where
  "delete_nodes bms peer 0 d afi safi node = Inl No_Fuel"
| "delete_nodes bms peer (Suc fuel) d afi safi None = Inr d"
| "delete_nodes bms peer (Suc fuel) d afi safi (Some rn) =
     rbind (bgp_route_info_modulo_pathid bms peer None) (\<lambda>modulo.
     rbind (delete_buckets bms peer (table_per_peer_buckets bms) d afi safi rn (unat modulo)) (\<lambda>d1.
     rbind (bgp_route_next (rib d1 afi safi) rn) (\<lambda>(nx, T1).
       delete_nodes bms peer fuel (put_rib d1 afi safi T1) afi safi nx)))"

definition delete_table :: "bgp_daemon \<Rightarrow> bgp_peer \<Rightarrow> bgp_db \<Rightarrow> u16 \<Rightarrow> byte \<Rightarrow> bgp_db res" where
  "delete_table bms peer d afi safi =
     rbind (bgp_table_top (rib d afi safi)) (\<lambda>(top, T1).
       delete_nodes bms peer (t_next T1 + 2) (put_rib d afi safi T1) afi safi top)"

fun delete_tables :: "bgp_daemon \<Rightarrow> bgp_peer \<Rightarrow> bgp_db \<Rightarrow> (u16 \<times> byte) list \<Rightarrow> bgp_db res" where
  "delete_tables bms peer d [] = Inr d"
| "delete_tables bms peer d ((afi, safi) # rest) =
     rbind (delete_table bms peer d afi safi) (\<lambda>d1. delete_tables bms peer d1 rest)"

definition bgp_peer_info_delete :: "bgp_daemon \<Rightarrow> bgp_peer \<Rightarrow> bgp_db \<Rightarrow> bgp_db res" where
  "bgp_peer_info_delete bms peer d =
     (if \<not> routing_db (ptype peer) then Inr d
      else delete_tables bms peer d
        [(afi, safi). afi \<leftarrow> [AFI_IP, AFI_IP6], safi \<leftarrow> map word_of_nat [1..<129]])"

end
