(* ===== verification/Bgp_Locks.thy ===== *)
theory Bgp_Locks
  imports Bgp_Walk Bgp_Hash
begin

text \<open>
  The routing table seen from its users: what a node holds and how often it is locked, as total
  functions of its address. \<^verbatim>\<open>bgp_node_get\<close> and \<^verbatim>\<open>bgp_unlock_node\<close> change the lock of one node
  and no route; the lock of a node is the number of its routes and of the users that hold it.
\<close>

section \<open>Locks\<close>

definition lock_at :: "'i bgp_table \<Rightarrow> addr \<Rightarrow> u32" where
  "lock_at T x = (case t_nodes T x of None \<Rightarrow> 0 | Some nd \<Rightarrow> n_lock nd)"

text \<open>A table that differs in links, and in nodes with lock 0.\<close>

definition relinked :: "'i bgp_table \<Rightarrow> 'i bgp_table \<Rightarrow> bool" where
  "relinked T T' \<longleftrightarrow> lock_at T' = lock_at T \<and> dom (t_nodes T') = dom (t_nodes T) \<and> t_next T' = t_next T"

lemma relinked_trans: "relinked T T1 \<Longrightarrow> relinked T1 T2 \<Longrightarrow> relinked T T2"
  by (simp add: relinked_def)

lemma put_node_relinked:
  "t_nodes T a = Some nd \<Longrightarrow> n_lock nd' = n_lock nd \<Longrightarrow> relinked T (put_node T a nd')"
  by (auto simp: relinked_def lock_at_def put_node_def fun_eq_iff)

lemma get_node_eq: "get_node T a = Inr nd \<longleftrightarrow> t_nodes T a = Some nd"
  by (auto simp: get_node_def split: option.splits)

lemma set_link_relinked: "set_link T a n = Inr T' \<Longrightarrow> relinked T T'"
proof -
  assume "set_link T a n = Inr T'"
  then obtain nd nw b nw1 where s: "t_nodes T a = Some nd" "t_nodes T n = Some nw"
      "t_nodes (put_node T a (link_node nd b (Some n))) n = Some nw1"
      "T' = put_node (put_node T a (link_node nd b (Some n))) n (nw1\<lparr>n_parent := Some a\<rparr>)"
    by (auto simp: set_link_def Let_def get_node_eq)
  have "relinked T (put_node T a (link_node nd b (Some n)))"
    using s(1) by (rule put_node_relinked) (simp add: link_node_def)
  moreover have "relinked (put_node T a (link_node nd b (Some n))) T'"
    unfolding s(4) using s(3) by (rule put_node_relinked) simp
  ultimately show ?thesis by (rule relinked_trans)
qed

lemma attach_relinked: "attach T m n = Inr T' \<Longrightarrow> relinked T T'"
  using set_link_relinked [of T _ n T'] by (cases m) (auto simp: attach_def relinked_def lock_at_def fun_eq_iff)

lemma alloc_locks:
  assumes "alloc T nd = (new, T')" "n_lock nd = 0" "\<forall>x \<in> dom (t_nodes T). x < t_next T"
  shows "lock_at T' = lock_at T" "\<forall>x \<in> dom (t_nodes T'). x < t_next T'"
proof -
  have "t_nodes T (t_next T) = None" using assms(3) by (metis domIff less_irrefl)
  then show "lock_at T' = lock_at T"
    using assms(1,2) by (auto simp: alloc_def lock_at_def put_node_def fun_eq_iff)
  show "\<forall>x \<in> dom (t_nodes T'). x < t_next T'"
    using assms(1,3) by (auto simp: alloc_def put_node_def less_Suc_eq split: if_splits)
qed

lemma lock_node_locks:
  "bgp_lock_node T a = Inr T' \<Longrightarrow> lock_at T' = (lock_at T)(a := lock_at T a + 1)"
  by (auto simp: bgp_lock_node_def get_node_eq lock_at_def put_node_def fun_eq_iff)

lemma lock_at_count [simp]: "lock_at (T\<lparr>t_count := c\<rparr>) = lock_at T"
  by (simp add: lock_at_def fun_eq_iff)

lemma node_create_lock: "bgp_node_create bms = Inr cr \<Longrightarrow> n_lock cr = 0"
  by (auto simp: bgp_node_create_def split: option.splits)

lemma node_set_lock: "bgp_node_set bms p = Inr nd \<Longrightarrow> n_lock nd = 0"
  using node_create_lock [of bms] by (auto simp: bgp_node_set_def)

lemma bgp_node_get_locks:
  fixes T :: "'i bgp_table"
  assumes run: "bgp_node_get bms T p = Inr (a, T')" and dom: "\<forall>x \<in> dom (t_nodes T). x < t_next T"
  shows "lock_at T' = (lock_at T)(a := lock_at T a + 1)"
proof -
  obtain m r found where walk: "get_walk (Suc (t_next T)) T p None (t_top T) = Inr (m, r, found)"
    using run by (auto simp: bgp_node_get_def)
  show ?thesis
  proof (cases r)
    case None
    then obtain nd :: "'i bgp_node" where nd: "bgp_node_set bms p = Inr nd" using run walk by (auto simp: bgp_node_get_def)
    obtain new t1 where al: "alloc T nd = (new, t1)" by fastforce
    then obtain t2 where s: "bgp_node_set bms p = Inr nd" "alloc T nd = (a, t1)"
        "attach t1 m a = Inr t2" "bgp_lock_node (t2\<lparr>t_count := t_count t2 + 1\<rparr>) a = Inr T'"
      using run walk None nd by (auto simp: bgp_node_get_def)
    then show ?thesis
      using lock_node_locks [OF s(4)] attach_relinked [OF s(3)] alloc_locks(1) [OF s(2) node_set_lock [OF s(1)] dom]
      by (simp add: relinked_def)
  next
    case (Some node)
    show ?thesis
    proof (cases found)
      case True
      then show ?thesis using run walk Some lock_node_locks by (auto simp: bgp_node_get_def)
    next
      case False
      obtain cr :: "'i bgp_node" and nd np where c: "bgp_node_create bms = Inr cr" "get_node T node = Inr nd"
          "route_common (n_p nd) p (n_p cr) = Inr np"
        using run walk Some False by (auto simp: bgp_node_get_def)
      obtain new t1 where al: "alloc T (cr\<lparr>n_p := np\<lparr>pfx_family := pfx_family p\<rparr>\<rparr>) = (new, t1)" by fastforce
      obtain t2 t3 where s: "bgp_node_create bms = Inr cr"
          "alloc T (cr\<lparr>n_p := np\<lparr>pfx_family := pfx_family p\<rparr>\<rparr>) = (new, t1)" "set_link t1 new node = Inr t2"
          "attach t2 m new = Inr t3"
          and fin: "(if pfx_len np \<noteq> pfx_len p then
                   rbind (bgp_node_set bms p) (\<lambda>nd2.
                     let (new2, t4) = alloc t3 nd2 in
                     rbind (set_link t4 new new2) (\<lambda>t5.
                     rbind (bgp_lock_node (t5\<lparr>t_count := t_count t5 + 1 + 1\<rparr>) new2)
                       (\<lambda>t6. Inr (new2, t6))))
                 else
                   rbind (bgp_lock_node (t3\<lparr>t_count := t_count t3 + 1\<rparr>) new)
                     (\<lambda>t6. Inr (new, t6))) = Inr (a, T')"
        using run walk Some False c al by (auto simp: bgp_node_get_def)
      have l1: "lock_at t1 = lock_at T" "\<forall>x \<in> dom (t_nodes t1). x < t_next t1"
        using alloc_locks [OF s(2) _ dom] node_create_lock [OF s(1)] by simp_all
      have r13: "relinked t1 t3" using set_link_relinked [OF s(3)] attach_relinked [OF s(4)] by (rule relinked_trans)
      then have l3: "lock_at t3 = lock_at T" "\<forall>x \<in> dom (t_nodes t3). x < t_next t3"
        using l1 by (simp_all add: relinked_def)
      show ?thesis
      proof (cases "pfx_len np \<noteq> pfx_len p")
        case True
        then obtain nd2 :: "'i bgp_node" where nd2: "bgp_node_set bms p = Inr nd2" using fin by auto
        obtain new2 t4 where al2: "alloc t3 nd2 = (new2, t4)" by fastforce
        then obtain t5 where u: "bgp_node_set bms p = Inr nd2" "alloc t3 nd2 = (a, t4)"
            "set_link t4 new a = Inr t5" "bgp_lock_node (t5\<lparr>t_count := t_count t5 + 1 + 1\<rparr>) a = Inr T'"
          using fin True nd2 by auto
        then show ?thesis
          using lock_node_locks [OF u(4)] set_link_relinked [OF u(3)]
            alloc_locks(1) [OF u(2) node_set_lock [OF u(1)] l3(2)] l3(1) by (simp add: relinked_def)
      next
        case False
        then have "a = new" "bgp_lock_node (t3\<lparr>t_count := t_count t3 + 1\<rparr>) new = Inr T'" using fin by auto
        then show ?thesis using lock_node_locks [of _ new T'] l3(1) by fastforce
      qed
    qed
  qed
qed

lemma unlink_node_locks:
  fixes T :: "'i bgp_table"
  assumes "unlink_node T a nd = Inr T'" "lock_at T a = 0"
  shows "lock_at T' = lock_at T"
proof -
  define child where "child = (if n_left nd \<noteq> None then n_left nd else n_right nd)"
  obtain t1 t2 where s: "(case child of None \<Rightarrow> Inr T
             | Some c \<Rightarrow> rbind (get_node T c) (\<lambda>cn. Inr (put_node T c (cn\<lparr>n_parent := n_parent nd\<rparr>)))) = Inr t1"
      "(case n_parent nd of None \<Rightarrow> Inr (t1\<lparr>t_top := child\<rparr>)
             | Some pa \<Rightarrow> rbind (get_node t1 pa) (\<lambda>pn.
                 Inr (put_node t1 pa (if n_left pn = Some a then pn\<lparr>n_left := child\<rparr> else pn\<lparr>n_right := child\<rparr>)))) = Inr t2"
      "T' = t2\<lparr>t_count := t_count t2 - 1, t_nodes := (t_nodes t2)(a := None)\<rparr>"
    using assms(1) unfolding unlink_node_def child_def [symmetric] Let_def by auto
  have put: "get_node Q x = Inr nx \<Longrightarrow> n_lock nx' = n_lock nx \<Longrightarrow> lock_at (put_node Q x nx') = lock_at Q"
    for Q :: "'i bgp_table" and x nx nx' using put_node_relinked by (auto simp: get_node_eq relinked_def)
  have "lock_at t1 = lock_at T"
  proof (cases child)
    case (Some c)
    then obtain cn where "get_node T c = Inr cn" "t1 = put_node T c (cn\<lparr>n_parent := n_parent nd\<rparr>)" using s(1) by auto
    then show ?thesis using put by simp
  qed (use s(1) in simp)
  moreover have "lock_at t2 = lock_at t1"
  proof (cases "n_parent nd")
    case None
    then show ?thesis using s(2) by (auto simp: lock_at_def fun_eq_iff)
  next
    case (Some pa)
    then obtain pn where "get_node t1 pa = Inr pn"
        "t2 = put_node t1 pa (if n_left pn = Some a then pn\<lparr>n_left := child\<rparr> else pn\<lparr>n_right := child\<rparr>)"
      using s(2) by auto
    then show ?thesis using put by simp
  qed
  ultimately show ?thesis using assms(2) s(3) by (auto simp: lock_at_def fun_eq_iff)
qed

lemma node_delete_locks: "bgp_node_delete k T a = Inr T' \<Longrightarrow> lock_at T' = lock_at T"
proof (induction k arbitrary: T a)
  case (Suc k)
  obtain nd where nd: "t_nodes T a = Some nd" "n_lock nd = 0"
    using Suc.prems by (auto simp: get_node_eq)
  have z: "lock_at T a = 0" using nd by (simp add: lock_at_def)
  show ?case
  proof (cases "n_left nd \<noteq> None \<and> n_right nd \<noteq> None")
    case True
    then show ?thesis using Suc.prems nd by (auto simp: get_node_def)
  next
    case False
    then obtain t1 where t1: "unlink_node T a nd = Inr t1"
        "(case n_parent nd of None \<Rightarrow> Inr t1 | Some pa \<Rightarrow> rbind (get_node t1 pa) (\<lambda>pn.
             if n_lock pn = 0 then bgp_node_delete k t1 pa else Inr t1)) = Inr T'"
      using Suc.prems nd unfolding bgp_node_delete.simps get_node_def [of T] by auto
    then have "T' = t1 \<or> (\<exists>pa. bgp_node_delete k t1 pa = Inr T')"
      by (cases "n_parent nd") (auto split: if_splits)
    then show ?thesis using unlink_node_locks [OF t1(1) z] Suc.IH by metis
  qed
qed simp

lemma bgp_unlock_node_locks:
  assumes "bgp_unlock_node T a = Inr T'"
  shows "lock_at T' = (lock_at T)(a := lock_at T a - 1)"
proof -
  obtain nd where nd: "t_nodes T a = Some nd" using assms by (auto simp: bgp_unlock_node_def get_node_eq)
  define T1 where "T1 = put_node T a (nd\<lparr>n_lock := n_lock nd - 1\<rparr>)"
  have "lock_at T1 = (lock_at T)(a := lock_at T a - 1)"
    using nd by (auto simp: T1_def lock_at_def put_node_def fun_eq_iff)
  moreover have "T' = T1 \<or> bgp_node_delete (Suc (t_next T)) T1 a = Inr T'"
    using assms nd by (auto simp: bgp_unlock_node_def get_node_def T1_def Let_def split: if_splits)
  ultimately show ?thesis using node_delete_locks by metis
qed

section \<open>Routes\<close>

definition info_at :: "'i bgp_table \<Rightarrow> addr \<Rightarrow> 'i list list" where
  "info_at T x = (case t_nodes T x of None \<Rightarrow> [] | Some nd \<Rightarrow> n_info nd)"

definition same_routes :: "'i bgp_table \<Rightarrow> 'i bgp_table \<Rightarrow> bool" where
  "same_routes T T' \<longleftrightarrow>
     (\<forall>x. info_at T' x = info_at T x \<or> no_routes (info_at T x) \<and> no_routes (info_at T' x)) \<and>
     (\<forall>x nd nd'. t_nodes T x = Some nd \<longrightarrow> t_nodes T' x = Some nd' \<longrightarrow> n_p nd' = n_p nd)"

definition tbl_ok :: "byte \<Rightarrow> nat \<Rightarrow> 'i bgp_table \<Rightarrow> bool" where
  "tbl_ok f nb T \<longleftrightarrow> table_inv f T \<and> lock_inv T \<and> (\<forall>x nd. t_nodes T x = Some nd \<longrightarrow> length (n_info nd) = nb)"

text \<open>Every node is locked once for each of its routes and \<open>X\<close> times besides.\<close>

definition locks_ok :: "'i bgp_table \<Rightarrow> (addr \<Rightarrow> nat) \<Rightarrow> bool" where
  "locks_ok T X \<longleftrightarrow> (\<forall>x. unat (lock_at T x) = length (concat (info_at T x)) + X x)"

definition table_count :: "'i bgp_table \<Rightarrow> ('i \<Rightarrow> bool) \<Rightarrow> nat" where
  "table_count T P = (\<Sum>x \<in> dom (t_nodes T). length (filter P (concat (info_at T x))))"

text \<open>The node of a prefix, and the routes in a bucket of it.\<close>

definition find_node :: "'i bgp_table \<Rightarrow> bool list \<Rightarrow> addr option" where
  "find_node T q = List.find (\<lambda>x. case t_nodes T x of None \<Rightarrow> False | Some nd \<Rightarrow> pfx_bits (n_p nd) = q) [0..<t_next T]"

definition nth_bucket :: "'i list list \<Rightarrow> nat \<Rightarrow> 'i list" where
  "nth_bucket i m = (if m < length i then i ! m else [])"

definition table_bucket :: "'i bgp_table \<Rightarrow> bool list \<Rightarrow> nat \<Rightarrow> 'i list" where
  "table_bucket T q m = (case find_node T q of None \<Rightarrow> [] | Some a \<Rightarrow> nth_bucket (info_at T a) m)"

lemma no_routes_concat: "no_routes i \<longleftrightarrow> concat i = []"
  by (induction i) (auto simp: no_routes_def)

lemma no_routes_bucket: "no_routes i \<Longrightarrow> nth_bucket i m = []"
  by (simp add: no_routes_def nth_bucket_def list_all_length)

lemma no_routes_Nil [simp]: "no_routes []"
  by (simp add: no_routes_def)

lemma table_inv_dom:
  assumes "table_inv f T"
  shows "finite (dom (t_nodes T))" "\<forall>x \<in> dom (t_nodes T). x < t_next T"
proof -
  obtain t where "table_rep T t" using assms by (auto simp: table_inv_def)
  then have d: "dom (t_nodes T) = set (addrs t)" "\<forall>x \<in> set (addrs t). x < t_next T" by (auto simp: table_rep_def)
  show "finite (dom (t_nodes T))" unfolding d(1) by simp
  show "\<forall>x \<in> dom (t_nodes T). x < t_next T" unfolding d(1) by (rule d(2))
qed

lemma node_unique:
  assumes "table_inv f T" "t_nodes T a = Some nd" "t_nodes T b = Some nd'" "pfx_bits (n_p nd) = pfx_bits (n_p nd')"
  shows "a = b"
proof -
  obtain t where t: "table_rep T t" "bits_ok f [] t" using assms(1) by (auto simp: table_inv_def)
  have "distinct (addrs t)" using t(1) by (simp add: table_rep_def)
  then show ?thesis
    using tnodes_unique [OF t(2) table_rep_nodes(1) [OF t(1) assms(2)] table_rep_nodes(1) [OF t(1) assms(3)] assms(4)] by simp
qed

lemma find_node_eq:
  assumes "table_inv f T" "t_nodes T a = Some nd"
  shows "find_node T (pfx_bits (n_p nd)) = Some a"
proof -
  let ?P = "\<lambda>x. case t_nodes T x of None \<Rightarrow> False | Some nd' \<Rightarrow> pfx_bits (n_p nd') = pfx_bits (n_p nd)"
  have "a \<in> set [0..<t_next T]" using table_inv_dom(2) [OF assms(1)] assms(2) by auto
  then have "List.find ?P [0..<t_next T] \<noteq> None" unfolding find_None_iff using assms(2) by force
  then obtain b where b: "List.find ?P [0..<t_next T] = Some b" by auto
  then have "?P b" using find_SomeD by fast
  then obtain nd' where "t_nodes T b = Some nd'" "pfx_bits (n_p nd') = pfx_bits (n_p nd)" by (auto split: option.splits)
  then have "a = b" using node_unique [OF assms] by metis
  then show ?thesis using b by (simp add: find_node_def)
qed

lemma find_node_SomeD:
  assumes "find_node T q = Some a"
  obtains nd where "t_nodes T a = Some nd" "pfx_bits (n_p nd) = q"
proof -
  have "case t_nodes T a of None \<Rightarrow> False | Some nd \<Rightarrow> pfx_bits (n_p nd) = q"
    using assms find_SomeD unfolding find_node_def by fast
  then show ?thesis using that by (auto split: option.splits)
qed

lemma table_bucket_node:
  "table_inv f T \<Longrightarrow> t_nodes T a = Some nd \<Longrightarrow> table_bucket T (pfx_bits (n_p nd)) m = nth_bucket (n_info nd) m"
  by (simp add: table_bucket_def find_node_eq info_at_def)

lemma table_bucket_eqI:
  assumes inv: "table_inv f T"
    and some: "\<And>a nd. t_nodes T a = Some nd \<Longrightarrow> pfx_bits (n_p nd) = q \<Longrightarrow> nth_bucket (n_info nd) m = bk"
    and none: "(\<And>a nd. t_nodes T a = Some nd \<Longrightarrow> pfx_bits (n_p nd) \<noteq> q) \<Longrightarrow> bk = []"
  shows "table_bucket T q m = bk"
proof (cases "\<exists>a nd. t_nodes T a = Some nd \<and> pfx_bits (n_p nd) = q")
  case True
  then obtain a nd where a: "t_nodes T a = Some nd" "pfx_bits (n_p nd) = q" by blast
  then show ?thesis using table_bucket_node [OF inv a(1), of m] some [OF a] by simp
next
  case False
  have "find_node T q = None"
  proof (cases "find_node T q")
    case (Some a)
    from find_node_SomeD [OF Some] obtain nd where "t_nodes T a = Some nd" "pfx_bits (n_p nd) = q" .
    then show ?thesis using False by simp
  qed
  moreover have "bk = []" using False by (intro none) blast
  ultimately show ?thesis by (simp add: table_bucket_def)
qed

text \<open>Tables with the same routes have the same buckets and counts.\<close>

lemma same_routes_refl: "same_routes T T"
  by (simp add: same_routes_def)

lemma same_routesD:
  "same_routes T T' \<Longrightarrow> info_at T' x = info_at T x \<or> no_routes (info_at T x) \<and> no_routes (info_at T' x)"
  "same_routes T T' \<Longrightarrow> t_nodes T x = Some nd \<Longrightarrow> t_nodes T' x = Some nd' \<Longrightarrow> n_p nd' = n_p nd"
  unfolding same_routes_def by blast+

lemma same_routes_bucket:
  assumes inv: "table_inv f T" "table_inv f' T'" and same: "same_routes T T'"
  shows "table_bucket T' q m = table_bucket T q m"
proof (rule table_bucket_eqI [OF inv(2)])
  fix a nd' assume nd': "t_nodes T' a = Some nd'" "pfx_bits (n_p nd') = q"
  have i: "n_info nd' = info_at T a \<or> no_routes (info_at T a) \<and> no_routes (n_info nd')"
    using same_routesD(1) [OF same, of a] nd'(1) by (simp add: info_at_def [of T'])
  show "nth_bucket (n_info nd') m = table_bucket T q m"
  proof (cases "t_nodes T a")
    case (Some nd)
    then have "pfx_bits (n_p nd) = q" using same_routesD(2) [OF same Some nd'(1)] nd'(2) by simp
    then have "table_bucket T q m = nth_bucket (info_at T a) m"
      using table_bucket_node [OF inv(1) Some] Some by (simp add: info_at_def)
    then show ?thesis using i no_routes_bucket by metis
  next
    case None
    then have "nth_bucket (n_info nd') m = []" using i no_routes_bucket by (auto simp: info_at_def)
    moreover have "table_bucket T q m = []"
    proof (rule table_bucket_eqI [OF inv(1)])
      fix b nd assume nd: "t_nodes T b = Some nd" "pfx_bits (n_p nd) = q"
      have "b \<noteq> a" using nd(1) None by auto
      have "t_nodes T' b = None"
      proof (cases "t_nodes T' b")
        case (Some nd2)
        then have "n_p nd2 = n_p nd" using same_routesD(2) [OF same nd(1)] by blast
        then show ?thesis using node_unique [OF inv(2) Some nd'(1)] nd(2) nd'(2) \<open>b \<noteq> a\<close> by simp
      qed
      then have "info_at T' b = []" by (simp add: info_at_def)
      then have "no_routes (info_at T b)" using same_routesD(1) [OF same, of b] by auto
      then show "nth_bucket (n_info nd) m = []" using nd(1) no_routes_bucket by (simp add: info_at_def)
    qed simp
    ultimately show ?thesis by simp
  qed
next
  assume gone: "\<And>a nd. t_nodes T' a = Some nd \<Longrightarrow> pfx_bits (n_p nd) \<noteq> q"
  show "table_bucket T q m = []"
  proof (rule table_bucket_eqI [OF inv(1)])
    fix b nd assume nd: "t_nodes T b = Some nd" "pfx_bits (n_p nd) = q"
    have "t_nodes T' b = None"
    proof (cases "t_nodes T' b")
      case (Some nd2)
      then have "n_p nd2 = n_p nd" using same_routesD(2) [OF same nd(1)] by blast
      then show ?thesis using gone [OF Some] nd(2) by simp
    qed
    then have "info_at T' b = []" by (simp add: info_at_def)
    then have "no_routes (info_at T b)" using same_routesD(1) [OF same, of b] by auto
    then show "nth_bucket (n_info nd) m = []" using nd(1) no_routes_bucket by (simp add: info_at_def)
  qed simp
qed

lemma table_count_on:
  assumes "finite S" "dom (t_nodes T) \<subseteq> S"
  shows "table_count T P = (\<Sum>x \<in> S. length (filter P (concat (info_at T x))))"
  unfolding table_count_def using assms
  by (intro sum.mono_neutral_left) (auto simp: info_at_def domIff)

lemma same_routes_concat: "same_routes T T' \<Longrightarrow> concat (info_at T' x) = concat (info_at T x)"
  using same_routesD(1) [of T T' x] by (auto simp: no_routes_concat simp del: concat_eq_Nil_conv)

lemma same_routes_count:
  assumes "table_inv f T" "table_inv f' T'" "same_routes T T'"
  shows "table_count T' P = table_count T P"
proof -
  define S where "S = dom (t_nodes T) \<union> dom (t_nodes T')"
  have "finite S" using table_inv_dom(1) [OF assms(1)] table_inv_dom(1) [OF assms(2)] by (simp add: S_def)
  then show ?thesis
    using table_count_on [of S T P] table_count_on [of S T' P] same_routes_concat [OF assms(3)]
    by (simp add: S_def)
qed

text \<open>A change of the routes of one node.\<close>

lemma table_count_change:
  assumes fin: "finite (dom (t_nodes T))" and dom: "dom (t_nodes T') = dom (t_nodes T)" "a \<in> dom (t_nodes T)"
    and info: "\<And>x. x \<noteq> a \<Longrightarrow> info_at T' x = info_at T x"
  shows "table_count T' P + length (filter P (concat (info_at T a))) =
    table_count T P + length (filter P (concat (info_at T' a)))"
proof -
  have "(\<Sum>x \<in> dom (t_nodes T) - {a}. length (filter P (concat (info_at T' x)))) =
      (\<Sum>x \<in> dom (t_nodes T) - {a}. length (filter P (concat (info_at T x))))"
    using info by (intro sum.cong) auto
  then show ?thesis unfolding table_count_def dom(1) using fin dom(2) by (simp add: sum.remove)
qed

lemma count_at_le: "finite (dom (t_nodes T)) \<Longrightarrow> length (concat (info_at T x)) \<le> table_count T (\<lambda>_. True)"
proof (cases "x \<in> dom (t_nodes T)")
  case True
  assume "finite (dom (t_nodes T))"
  then show ?thesis
    using member_le_sum [of x "dom (t_nodes T)" "\<lambda>x. length (concat (info_at T x))"] True by (simp add: table_count_def)
qed (simp add: info_at_def domIff)

section \<open>Operations\<close>

lemma u32_suc: "Suc (unat (w :: u32)) < 2 ^ 32 \<Longrightarrow> unat (w + 1) = Suc (unat w)"
  by (simp add: unat_word_ariths)

lemma u32_not_max: "Suc (unat (w :: u32)) < 2 ^ 32 \<Longrightarrow> w \<noteq> - 1"
  using u32_suc [of w] by auto

lemma tbl_okD:
  assumes "tbl_ok f nb T"
  shows "table_inv f T" "lock_inv T" "t_nodes T x = Some nd \<Longrightarrow> length (n_info nd) = nb"
  using assms by (auto simp: tbl_ok_def)

lemma node_get_ok:
  assumes ok: "tbl_ok f nb T" "locks_ok T X" and p: "wf_prefix p" "pfx_family p = f"
    and nb: "nb = table_peer_buckets b * table_per_peer_buckets b" and room: "\<And>x. Suc (unat (lock_at T x)) < 2 ^ 32"
  obtains a T' nd where "bgp_node_get (Some b) T p = Inr (a, T')" "tbl_ok f nb T'" "same_routes T T'"
    "locks_ok T' (X(a := Suc (X a)))" "t_nodes T' a = Some nd" "pfx_bits (n_p nd) = pfx_bits p"
proof -
  note inv = tbl_okD [OF ok(1)]
  obtain a T' nd where g: "bgp_node_get (Some b) T p = Inr (a, T')" "table_inv f T'" "t_nodes T' a = Some nd"
      "pfx_bits (n_p nd) = pfx_bits p"
      and keep: "\<forall>y nd. t_nodes T y = Some nd \<longrightarrow> (\<exists>nd'. t_nodes T' y = Some nd' \<and> n_p nd' = n_p nd \<and> n_info nd' = n_info nd)"
      and new: "\<forall>y nd. t_nodes T' y = Some nd \<longrightarrow> t_nodes T y = None \<longrightarrow> n_info nd = empty_info b"
      and lk: "lock_inv T \<longrightarrow> (\<forall>y nd. t_nodes T y = Some nd \<longrightarrow> n_lock nd \<noteq> - 1) \<longrightarrow> lock_inv T'"
    using bgp_node_get_all [OF inv(1) p] by blast
  have "n_lock nd \<noteq> - 1" if "t_nodes T y = Some nd" for y nd
    using u32_not_max [OF room [of y]] that by (simp add: lock_at_def)
  then have li: "lock_inv T'" using lk inv(2) by blast
  have len: "length (n_info nd) = nb" if "t_nodes T' y = Some nd" for y nd
  proof (cases "t_nodes T y")
    case None
    then show ?thesis using new that nb by (simp add: empty_info_def)
  next
    case (Some nd0)
    then have "n_info nd = n_info nd0" using keep that by fastforce
    then show ?thesis using inv(3) [OF Some] by simp
  qed
  have same: "same_routes T T'"
    unfolding same_routes_def
  proof (intro conjI allI impI)
    fix x
    show "info_at T' x = info_at T x \<or> no_routes (info_at T x) \<and> no_routes (info_at T' x)"
    proof (cases "t_nodes T x")
      case None
      then show ?thesis using new no_routes_empty [of b] by (cases "t_nodes T' x") (auto simp: info_at_def)
    next
      case (Some nd0)
      then show ?thesis using keep by (fastforce simp: info_at_def)
    qed
    fix nd nd' assume "t_nodes T x = Some nd" "t_nodes T' x = Some nd'"
    then show "n_p nd' = n_p nd" using keep by fastforce
  qed
  have lock: "lock_at T' = (lock_at T)(a := lock_at T a + 1)"
    using bgp_node_get_locks [OF g(1) table_inv_dom(2) [OF inv(1)]] .
  have "unat (lock_at T a + 1) = Suc (unat (lock_at T a))" using u32_suc [OF room] .
  then have "locks_ok T' (X(a := Suc (X a)))"
    using ok(2) same_routes_concat [OF same] by (simp add: locks_ok_def lock)
  with g(1,3,4) same show ?thesis using g(2) li len by (intro that [of a T' nd]) (auto simp: tbl_ok_def)
qed

lemma unlock_ok:
  assumes ok: "tbl_ok f nb T" "locks_ok T X" and a: "0 < X a"
  obtains T' where "bgp_unlock_node T a = Inr T'" "tbl_ok f nb T'" "same_routes T T'" "locks_ok T' (X(a := X a - 1))"
proof -
  note inv = tbl_okD [OF ok(1)]
  have cnt: "unat (lock_at T a) = length (concat (info_at T a)) + X a" using ok(2) by (simp add: locks_ok_def)
  then have nz: "lock_at T a \<noteq> 0" using a by auto
  then obtain nd where nd: "t_nodes T a = Some nd" by (auto simp: lock_at_def split: option.splits)
  have "no_routes (n_info nd)" if "n_lock nd = 1"
  proof -
    have "1 = length (concat (n_info nd)) + X a" using that nd cnt by (simp add: lock_at_def info_at_def)
    then have "length (concat (n_info nd)) = 0" using a by linarith
    then show ?thesis by (simp only: no_routes_concat length_0_conv)
  qed
  then obtain T' where u: "bgp_unlock_node T a = Inr T'" "table_inv f T'" "lock_inv T'"
      and keep: "\<forall>x nd'. t_nodes T' x = Some nd' \<longrightarrow>
        (\<exists>nd0. t_nodes T x = Some nd0 \<and> n_p nd' = n_p nd0 \<and> n_info nd' = n_info nd0)"
      and gone: "\<forall>x nd0. t_nodes T x = Some nd0 \<longrightarrow> t_nodes T' x = None \<longrightarrow> no_routes (n_info nd0)"
    using bgp_unlock_node_all [OF inv(1,2) nd] nz nd by (auto simp: lock_at_def)
  have same: "same_routes T T'"
    unfolding same_routes_def
  proof (intro conjI allI impI)
    fix x
    show "info_at T' x = info_at T x \<or> no_routes (info_at T x) \<and> no_routes (info_at T' x)"
    proof (cases "t_nodes T' x")
      case None
      then show ?thesis using gone by (cases "t_nodes T x") (auto simp: info_at_def)
    next
      case (Some nd0)
      then show ?thesis using keep by (fastforce simp: info_at_def)
    qed
    fix nd nd' assume "t_nodes T x = Some nd" "t_nodes T' x = Some nd'"
    then show "n_p nd' = n_p nd" using keep by fastforce
  qed
  have len: "length (n_info nd') = nb" if "t_nodes T' x = Some nd'" for x nd'
    using keep that inv(3) by metis
  have lock: "lock_at T' = (lock_at T)(a := lock_at T a - 1)" using bgp_unlock_node_locks [OF u(1)] .
  have "unat (lock_at T a - 1) = unat (lock_at T a) - 1" using nz by (simp add: unat_minus_one)
  then have "locks_ok T' (X(a := X a - 1))"
    using ok(2) same_routes_concat [OF same] a by (simp add: locks_ok_def lock)
  with u(1) same show ?thesis using u(2,3) len by (intro that [of T']) (auto simp: tbl_ok_def)
qed

text \<open>Changing the routes or the lock of a node that stays locked.\<close>

lemma change_node_ok:
  assumes ok: "tbl_ok f nb T" and nd: "t_nodes T a = Some nd" and i: "length i = nb" and lk: "lk \<noteq> 0"
  shows "tbl_ok f nb (put_node T a (nd\<lparr>n_info := i, n_lock := lk\<rparr>))"
proof -
  note inv = tbl_okD [OF ok]
  obtain t where t: "table_rep T t" "bits_ok f [] t" using inv(1) by (auto simp: table_inv_def)
  obtain c p i0 lk0 l r where c: "t = plug c (Nd a p i0 lk0 l r)" "nd = mk_node p (ctx_top c) (root l) (root r) i0 lk0"
    using table_focus [OF t(1) nd] .
  have "nd\<lparr>n_info := i, n_lock := lk\<rparr> = mk_node p (ctx_top c) (root l) (root r) i lk" by (simp add: c(2) mk_node_def)
  then have "table_rep (put_node T a (nd\<lparr>n_info := i, n_lock := lk\<rparr>)) (plug c (Nd a p i lk l r))"
    using change_node_rep [OF t [unfolded c(1)]] by simp
  moreover have "bits_ok f [] (plug c (Nd a p i lk l r))" using t(2) by (simp add: c(1) bits_ok_plug)
  ultimately have "table_inv f (put_node T a (nd\<lparr>n_info := i, n_lock := lk\<rparr>))" by (auto simp: table_inv_def)
  moreover have "lock_inv (put_node T a (nd\<lparr>n_info := i, n_lock := lk\<rparr>))"
    using inv(2) lk by (auto simp: lock_inv_def put_node_def split: if_splits)
  ultimately show ?thesis using inv(3) i by (auto simp: tbl_ok_def put_node_def split: if_splits)
qed

text \<open>A new list of routes in one bucket of a locked node.\<close>

definition set_bucket :: "'i bgp_table \<Rightarrow> addr \<Rightarrow> nat \<Rightarrow> 'i list \<Rightarrow> 'i bgp_table" where
  "set_bucket T a m bk = (case t_nodes T a of None \<Rightarrow> T | Some nd \<Rightarrow> put_node T a (nd\<lparr>n_info := (n_info nd)[m := bk]\<rparr>))"

lemma set_bucket_at [simp]:
  "lock_at (set_bucket T a m bk) = lock_at T" "dom (t_nodes (set_bucket T a m bk)) = dom (t_nodes T)"
  by (auto simp: set_bucket_def lock_at_def put_node_def fun_eq_iff split: option.splits)

lemma set_bucket_info: "info_at (set_bucket T a m bk) = (info_at T)(a := (info_at T a)[m := bk])"
  by (auto simp: set_bucket_def info_at_def put_node_def fun_eq_iff split: option.splits)

lemma set_bucket_ok:
  assumes ok: "tbl_ok f nb T" and lk: "lock_at T a \<noteq> 0"
  shows "tbl_ok f nb (set_bucket T a m bk)"
proof -
  obtain nd where nd: "t_nodes T a = Some nd" using lk by (auto simp: lock_at_def split: option.splits)
  have "nd\<lparr>n_info := (n_info nd)[m := bk]\<rparr> = nd\<lparr>n_info := (n_info nd)[m := bk], n_lock := n_lock nd\<rparr>" by simp
  then show ?thesis
    using change_node_ok [OF ok nd, of "(n_info nd)[m := bk]" "n_lock nd"] tbl_okD(3) [OF ok nd] lk nd
    by (simp add: set_bucket_def lock_at_def)
qed

lemma set_bucket_bucket:
  assumes ok: "tbl_ok f nb T" "tbl_ok f nb (set_bucket T a m bk)" and nd: "t_nodes T a = Some nd" and m: "m < nb"
  shows "table_bucket (set_bucket T a m bk) q m' =
    (if q = pfx_bits (n_p nd) \<and> m' = m then bk else table_bucket T q m')"
proof -
  let ?T = "set_bucket T a m bk"
  note inv = tbl_okD [OF ok(1)] and inv' = tbl_okD [OF ok(2)]
  have nodes: "t_nodes ?T x = (if x = a then Some (nd\<lparr>n_info := (n_info nd)[m := bk]\<rparr>) else t_nodes T x)" for x
    using nd by (simp add: set_bucket_def put_node_def)
  show ?thesis
  proof (cases "q = pfx_bits (n_p nd)")
    case True
    have "table_bucket ?T q m' = nth_bucket ((n_info nd)[m := bk]) m'"
      using table_bucket_node [OF inv'(1), of a "nd\<lparr>n_info := (n_info nd)[m := bk]\<rparr>" m'] True by (simp add: nodes)
    moreover have "table_bucket T q m' = nth_bucket (n_info nd) m'"
      using table_bucket_node [OF inv(1) nd] True by simp
    ultimately show ?thesis using True inv(3) [OF nd] m by (auto simp: nth_bucket_def nth_list_update)
  next
    case False
    have "table_bucket ?T q m' = table_bucket T q m'"
    proof (rule table_bucket_eqI [OF inv'(1)])
      fix b nd' assume b: "t_nodes ?T b = Some nd'" "pfx_bits (n_p nd') = q"
      then have "b \<noteq> a" using False by (auto simp: nodes)
      then show "nth_bucket (n_info nd') m' = table_bucket T q m'"
        using b table_bucket_node [OF inv(1), of b nd' m'] by (simp add: nodes)
    next
      assume none: "\<And>b nd'. t_nodes ?T b = Some nd' \<Longrightarrow> pfx_bits (n_p nd') \<noteq> q"
      show "table_bucket T q m' = []"
      proof (rule table_bucket_eqI [OF inv(1)])
        fix b nd' assume b: "t_nodes T b = Some nd'" "pfx_bits (n_p nd') = q"
        then have "b \<noteq> a" using False nd by auto
        then have "t_nodes ?T b = Some nd'" using b(1) by (simp add: nodes)
        then show "nth_bucket (n_info nd') m' = []" using none b(2) by blast
      qed simp
    qed
    then show ?thesis using False by simp
  qed
qed

lemma lock_node_ok:
  assumes ok: "tbl_ok f nb T" and lk: "lock_at T a \<noteq> 0" "Suc (unat (lock_at T a)) < 2 ^ 32"
  obtains T' where "bgp_lock_node T a = Inr T'" "tbl_ok f nb T'" "same_routes T T'"
    "lock_at T' = (lock_at T)(a := lock_at T a + 1)"
    "\<forall>x. map_option n_p (t_nodes T' x) = map_option n_p (t_nodes T x)"
proof -
  obtain nd where nd: "t_nodes T a = Some nd" using lk(1) by (auto simp: lock_at_def split: option.splits)
  define T' where "T' = put_node T a (nd\<lparr>n_lock := n_lock nd + 1\<rparr>)"
  have run: "bgp_lock_node T a = Inr T'" using nd by (simp add: bgp_lock_node_def get_node_def T'_def)
  have "unat (n_lock nd + 1) = Suc (unat (n_lock nd))" using u32_suc lk(2) nd by (simp add: lock_at_def)
  then have "n_lock nd + 1 \<noteq> 0" by (metis nat.distinct(1) unat_0)
  moreover have "nd\<lparr>n_lock := n_lock nd + 1\<rparr> = nd\<lparr>n_info := n_info nd, n_lock := n_lock nd + 1\<rparr>" by simp
  ultimately have "tbl_ok f nb T'"
    using change_node_ok [OF ok nd tbl_okD(3) [OF ok nd]] unfolding T'_def by metis
  moreover have "same_routes T T'" using nd by (auto simp: T'_def same_routes_def info_at_def put_node_def)
  moreover have "\<forall>x. map_option n_p (t_nodes T' x) = map_option n_p (t_nodes T x)"
    using nd by (simp add: T'_def put_node_def)
  ultimately show ?thesis using run lock_node_locks [OF run] by (intro that)
qed

lemma count_concat_update:
  "i < length xs \<Longrightarrow> length (filter P (concat (xs[i := ys]))) + length (filter P (xs ! i)) =
     length (filter P (concat xs)) + length (filter P ys)"
  using concat_split(1) [of i xs ys] concat_split(2) [of i xs] by simp

lemma set_bucket_count:
  assumes ok: "tbl_ok f nb T" and nd: "t_nodes T a = Some nd" and m: "m < nb"
  shows "table_count (set_bucket T a m bk) P + length (filter P (n_info nd ! m)) = table_count T P + length (filter P bk)"
proof -
  have i: "info_at T a = n_info nd" "m < length (n_info nd)" using nd tbl_okD(3) [OF ok nd] m by (simp_all add: info_at_def)
  have "table_count (set_bucket T a m bk) P + length (filter P (concat (n_info nd))) =
      table_count T P + length (filter P (concat ((n_info nd)[m := bk])))"
    using table_count_change [of T "set_bucket T a m bk" a P] table_inv_dom(1) [OF tbl_okD(1) [OF ok]] nd i(1)
    by (auto simp: set_bucket_info)
  then show ?thesis using count_concat_update [OF i(2), of P bk] by linarith
qed

lemma set_bucket_locks:
  assumes ok: "tbl_ok f nb T" and X: "locks_ok T X" and nd: "t_nodes T a = Some nd" and m: "m < nb"
    and n: "length bk + n = length (n_info nd ! m) + X a"
  shows "locks_ok (set_bucket T a m bk) (X(a := n))"
proof -
  have i: "info_at T a = n_info nd" "m < length (n_info nd)" using nd tbl_okD(3) [OF ok nd] m by (simp_all add: info_at_def)
  have "length (concat ((n_info nd)[m := bk])) + length (n_info nd ! m) = length (concat (n_info nd)) + length bk"
    using length_concat_update [OF i(2)] .
  moreover have "unat (lock_at T a) = length (concat (n_info nd)) + X a" using X i(1) by (simp add: locks_ok_def)
  ultimately have "unat (lock_at T a) = length (concat ((n_info nd)[m := bk])) + n" using n by linarith
  then show ?thesis using X i(1) by (simp add: locks_ok_def set_bucket_info)
qed

lemma lock_node_locks_ok:
  assumes "locks_ok T X" "same_routes T T'" "lock_at T' = (lock_at T)(a := lock_at T a + 1)" "Suc (unat (lock_at T a)) < 2 ^ 32"
  shows "locks_ok T' (X(a := Suc (X a)))"
  using assms(1) same_routes_concat [OF assms(2)] u32_suc [OF assms(4)] by (simp add: locks_ok_def assms(3))

text \<open>A node that holds a route is there, with its prefix.\<close>

lemma routes_node:
  assumes "tbl_ok f nb T'" "same_routes T T'" "t_nodes T a = Some nd" "n_info nd ! m \<noteq> []" "m < length (n_info nd)"
  obtains nd' where "t_nodes T' a = Some nd'" "n_p nd' = n_p nd"
proof -
  have "nth_bucket (n_info nd) m \<noteq> []" using assms(4,5) by (simp add: nth_bucket_def)
  then have "\<not> no_routes (info_at T a)" using assms(3) no_routes_bucket by (auto simp: info_at_def)
  then have "info_at T' a \<noteq> []" using same_routesD(1) [OF assms(2), of a] by auto
  then obtain nd' where "t_nodes T' a = Some nd'" by (auto simp: info_at_def split: option.splits)
  then show ?thesis using that same_routesD(2) [OF assms(2,3)] by blast
qed

end
