(* ===== verification/Bgp_Attr_Refs.thy ===== *)
theory Bgp_Attr_Refs
  imports Bgp_Attr
begin

text \<open>
  Exact reference counts of the attributes and of the objects they point to. The invariant
  \<open>rt_ok R H\<close> says that the count of every pooled object is the number of references that the
  interned attributes and the attributes \<open>H\<close> on the stack hold, so nothing leaks and nothing
  is freed while it is in use. \<^verbatim>\<open>bgp_attr_intern\<close> and \<^verbatim>\<open>bgp_attr_unintern\<close> keep it.
\<close>

section \<open>References in one pool\<close>

definition pool_refs :: "'a pooled_scheme pool \<Rightarrow> addr \<Rightarrow> nat" where
  "pool_refs P d =
     (if d \<in> hash_data (p_hash P) then case p_objs P d of None \<Rightarrow> 0 | Some ob \<Rightarrow> unat (refcnt ob) else 0)"

text \<open>What is referenced in \<open>P'\<close> was there in \<open>P\<close> and differs in its count only.\<close>

definition pool_keeps :: "'a pooled_scheme pool \<Rightarrow> 'a pooled_scheme pool \<Rightarrow> bool" where
  "pool_keeps P P' \<longleftrightarrow> (\<forall>d. 0 < pool_refs P' d \<longrightarrow> 0 < pool_refs P d \<and>
     (\<exists>ob r. p_objs P d = Some ob \<and> p_objs P' d = Some (ob\<lparr>refcnt := r\<rparr>)))"

lemma pool_keeps_refl: "pool_keeps P P"
  unfolding pool_keeps_def
proof (intro allI impI conjI)
  fix d assume "0 < pool_refs P d"
  then show "0 < pool_refs P d" by simp
  with \<open>0 < pool_refs P d\<close> obtain ob where "p_objs P d = Some ob"
    by (auto simp: pool_refs_def split: if_splits option.splits)
  then show "\<exists>ob r. p_objs P d = Some ob \<and> p_objs P d = Some (ob\<lparr>refcnt := r\<rparr>)"
    by (intro exI [of _ ob] exI [of _ "refcnt ob"]) simp
qed

lemma pool_keepsD:
  assumes "pool_keeps P P'" "0 < pool_refs P' d" "p_objs P d = Some ob"
  shows "\<exists>r. p_objs P' d = Some (ob\<lparr>refcnt := r\<rparr>)"
  using assms(1) [unfolded pool_keeps_def, rule_format, OF assms(2)] assms(3) by auto

lemma pool_keeps_live: "pool_keeps P P' \<Longrightarrow> 0 < pool_refs P' d \<Longrightarrow> 0 < pool_refs P d"
  unfolding pool_keeps_def by blast

lemma unat_suc: "Suc (unat (w :: u64)) < 2 ^ 64 \<Longrightarrow> unat (w + 1) = Suc (unat w)"
  by (simp add: unat_word_ariths)

lemma unat_pred: "(w :: u64) \<noteq> 0 \<Longrightarrow> unat (w - 1) = unat w - 1"
  by (simp add: unat_minus_one)

context attr_pool
begin

lemma refs_pos: "pool_inv hk hc P \<Longrightarrow> 0 < pool_refs P d \<longleftrightarrow> d \<in> hash_data (p_hash P)"
  by (force simp: pool_refs_def pool_inv_def unat_gt_0)

lemma refs_obj:
  assumes "0 < pool_refs P d"
  obtains ob where "p_objs P d = Some ob" "pool_refs P d = unat (refcnt ob)" "d \<in> hash_data (p_hash P)"
  using assms that by (auto simp: pool_refs_def split: if_splits option.splits)

lemma take_ref_live:
  assumes inv: "pool_inv hk hc P" and a: "0 < pool_refs P a" "Suc (pool_refs P a) < 2 ^ 64"
  obtains P' where "take_ref intern P (Some a) = Inr (Some a, P')" "pool_inv hk hc P'" "pool_keeps P P'"
    "pool_refs P' = (pool_refs P)(a := Suc (pool_refs P a))"
proof -
  obtain ob where ob: "p_objs P a = Some ob" "pool_refs P a = unat (refcnt ob)" "a \<in> hash_data (p_hash P)"
    using refs_obj [OF a(1)] .
  define ob1 where "ob1 = ob\<lparr>refcnt := refcnt ob + 1\<rparr>"
  define P' where "P' = P\<lparr>p_objs := (p_objs P)(a := Some ob1)\<rparr>"
  have u: "unat (refcnt ob1) = Suc (unat (refcnt ob))" using a(2) ob(2) unat_suc by (simp add: ob1_def)
  have sel: "p_hash P' = p_hash P" "p_objs P' = (p_objs P)(a := Some ob1)" by (simp_all add: P'_def)
  have run: "take_ref intern P (Some a) = Inr (Some a, P')"
    using ob a(1) by (simp add: take_ref_def deref_def P'_def ob1_def unat_gt_0)
  have "map_option val (p_objs P' d) = map_option val (p_objs P d)" for d
    using ob(1) val_upd by (simp add: sel ob1_def)
  then have "hash_wf (pool_key hk (p_objs P')) (pool_cmp hc (p_objs P')) (p_hash P')"
    using inv pool_inv_cong [of "p_hash P" "p_objs P'" "p_objs P"] by (simp add: pool_inv_def sel(1))
  moreover have "\<exists>ob. p_objs P' d = Some ob \<and> refcnt ob \<noteq> 0" if "d \<in> hash_data (p_hash P')" for d
  proof (cases "d = a")
    case True
    have "refcnt ob1 \<noteq> 0" using u by (metis nat.distinct(1) unat_0)
    then show ?thesis by (simp add: sel True)
  next
    case False
    then show ?thesis using inv that by (simp add: sel pool_inv_def)
  qed
  ultimately have inv': "pool_inv hk hc P'" by (simp add: pool_inv_def)
  have refs: "pool_refs P' = (pool_refs P)(a := Suc (pool_refs P a))"
    using ob u by (simp add: fun_eq_iff pool_refs_def sel)
  have "pool_keeps P P'"
    unfolding pool_keeps_def
  proof (intro allI impI)
    fix d assume "0 < pool_refs P' d"
    then have d: "0 < pool_refs P d" using a(1) by (cases "d = a") (simp_all add: refs)
    then obtain x where x: "p_objs P d = Some x" using refs_obj by metis
    have "p_objs P' d = Some (x\<lparr>refcnt := if d = a then refcnt ob + 1 else refcnt x\<rparr>)"
      using x ob(1) by (auto simp: sel ob1_def)
    with d x show "0 < pool_refs P d \<and> (\<exists>ob r. p_objs P d = Some ob \<and> p_objs P' d = Some (ob\<lparr>refcnt := r\<rparr>))" by blast
  qed
  with run inv' refs show ?thesis by (intro that)
qed

lemma unintern_live:
  assumes inv: "pool_inv hk hc P" and peer: "routing_db peer" and a: "0 < pool_refs P a"
  obtains P' where "pool_unintern peer hk hc P a = Inr P'" "pool_inv hk hc P'" "pool_keeps P P'"
    "pool_refs P' = (pool_refs P)(a := pool_refs P a - 1)"
proof -
  obtain c where c: "p_objs P a = Some c" "pool_refs P a = unat (refcnt c)" "a \<in> hash_data (p_hash P)"
    using refs_obj [OF a] .
  define objs where "objs = (p_objs P)(a := Some (c\<lparr>refcnt := refcnt c - 1\<rparr>))"
  obtain P' where run: "pool_unintern peer hk hc P a = Inr P'" and inv': "pool_inv hk hc P'"
      and P': "if refcnt c = 1 then p_objs P' = objs(a := None) \<and> hash_data (p_hash P') = hash_data (p_hash P) - {a}
        else p_objs P' = objs \<and> p_hash P' = p_hash P"
    using unintern_run [OF inv peer c(3,1)] unfolding objs_def by metis
  have nz: "refcnt c \<noteq> 0" using a c(2) by (simp add: unat_gt_0)
  have refs: "pool_refs P' = (pool_refs P)(a := pool_refs P a - 1)"
  proof
    fix d
    show "pool_refs P' d = ((pool_refs P)(a := pool_refs P a - 1)) d"
      using P' c nz unat_pred [OF nz] by (cases "refcnt c = 1") (auto simp: pool_refs_def objs_def)
  qed
  have "pool_keeps P P'"
    unfolding pool_keeps_def
  proof (intro allI impI)
    fix d assume pos: "0 < pool_refs P' d"
    then have d: "0 < pool_refs P d" using a by (cases "d = a") (simp_all add: refs)
    then obtain x where x: "p_objs P d = Some x" using refs_obj by metis
    have "d \<noteq> a \<or> refcnt c \<noteq> 1" using pos c(2) by (auto simp: refs)
    then have "p_objs P' d = Some (x\<lparr>refcnt := if d = a then refcnt c - 1 else refcnt x\<rparr>)"
      using P' x c(1) by (cases "refcnt c = 1") (auto simp: objs_def)
    with d x show "0 < pool_refs P d \<and> (\<exists>ob r. p_objs P d = Some ob \<and> p_objs P' d = Some (ob\<lparr>refcnt := r\<rparr>))" by blast
  qed
  with run inv' refs show ?thesis by (intro that)
qed

text \<open>The same for a part that may be missing.\<close>

lemma take_ref_opt:
  assumes "pool_inv hk hc P" "\<And>a. x = Some a \<Longrightarrow> 0 < pool_refs P a \<and> Suc (pool_refs P a) < 2 ^ 64"
  obtains P' where "take_ref intern P x = Inr (x, P')" "pool_inv hk hc P'" "pool_keeps P P'"
    "pool_refs P' = (\<lambda>d. pool_refs P d + (if x = Some d then 1 else 0))"
proof (cases x)
  case None
  then show ?thesis using that [of P] assms(1) by (simp add: take_ref_def pool_keeps_refl)
next
  case (Some a)
  obtain P' where "take_ref intern P (Some a) = Inr (Some a, P')" "pool_inv hk hc P'" "pool_keeps P P'"
      "pool_refs P' = (pool_refs P)(a := Suc (pool_refs P a))"
    using take_ref_live [OF assms(1), of a] assms(2) [OF Some] by blast
  then show ?thesis using that [of P'] Some by (auto simp: fun_eq_iff)
qed

lemma drop_ref_opt:
  assumes "pool_inv hk hc P" "routing_db peer" "\<And>a. x = Some a \<Longrightarrow> 0 < pool_refs P a"
  obtains P' where "drop_ref (pool_unintern peer hk hc) P x = Inr P'" "pool_inv hk hc P'" "pool_keeps P P'"
    "pool_refs P' = (\<lambda>d. pool_refs P d - (if x = Some d then 1 else 0))"
proof (cases x)
  case None
  then show ?thesis using that [of P] assms(1) by (simp add: drop_ref_def pool_keeps_refl)
next
  case (Some a)
  obtain P' where "pool_unintern peer hk hc P a = Inr P'" "pool_inv hk hc P'" "pool_keeps P P'"
      "pool_refs P' = (pool_refs P)(a := pool_refs P a - 1)"
    using unintern_live [OF assms(1,2), of a] assms(3) [OF Some] by blast
  then show ?thesis using that [of P'] Some by (auto simp: fun_eq_iff drop_ref_def)
qed

end

section \<open>The pool of AS paths\<close>

lemma aspath_inv_pool: "aspath_pool_inv P \<Longrightarrow> pool_inv aspath_segs_key aspath_cmp P"
  by (simp add: aspath_pool_inv_def)

lemma aspath_inv_keeps:
  assumes "aspath_pool_inv P" "pool_inv aspath_segs_key aspath_cmp P'" "pool_keeps P P'"
  shows "aspath_pool_inv P'"
  unfolding aspath_pool_inv_def
proof (intro conjI ballI allI impI)
  fix d p' assume d: "d \<in> hash_data (p_hash P')" "p_objs P' d = Some p'"
  then have pos: "0 < pool_refs P' d" using aspaths.refs_pos [OF assms(2)] by simp
  then obtain p where p: "p_objs P d = Some p" "d \<in> hash_data (p_hash P)"
    using aspaths.refs_obj [OF pool_keeps_live [OF assms(3) pos]] by metis
  then obtain r where "p' = p\<lparr>refcnt := r\<rparr>" using pool_keepsD [OF assms(3) pos p(1)] d(2) by auto
  moreover have "str_ok p \<and> str p \<noteq> None" using assms(1) p by (auto simp: aspath_pool_inv_def)
  ultimately show "str_ok p'" "str p' \<noteq> None" by (simp_all add: str_ok_def)
qed (rule assms(2))

lemma aspath_drop_ref:
  assumes inv: "aspath_pool_inv P" and peer: "routing_db peer" and x: "\<And>a. x = Some a \<Longrightarrow> 0 < pool_refs P a"
  obtains P' where "drop_ref (aspath_unintern peer) P x = Inr P'" "aspath_pool_inv P'" "pool_keeps P P'"
    "pool_refs P' = (\<lambda>d. pool_refs P d - (if x = Some d then 1 else 0))"
proof -
  note pinv = aspath_inv_pool [OF inv]
  have same: "drop_ref (aspath_unintern peer) P x = drop_ref (pool_unintern peer aspath_segs_key aspath_cmp) P x"
    using x aspaths.refs_pos [OF pinv] aspath_unintern_pool [OF inv]
    by (auto simp: drop_ref_def split: option.splits)
  show ?thesis
    using aspaths.drop_ref_opt [OF pinv peer x] that aspath_inv_keeps [OF inv] unfolding same by metis
qed

section \<open>The attribute hash\<close>

definition attr_val :: "bgp_attr \<Rightarrow> bgp_attr" where
  "attr_val t = t\<lparr>at_refcnt := 0\<rparr>"

lemma attrhash_cmp_val: "attrhash_cmp x y \<longleftrightarrow> attr_val x = attr_val y"
  by (cases x; cases y) (auto simp: attrhash_cmp_def attr_val_def)

lemma attr_val_sel [simp]:
  "at_aspath (attr_val t) = at_aspath t" "at_community (attr_val t) = at_community t"
  "at_ecommunity (attr_val t) = at_ecommunity t" "at_lcommunity (attr_val t) = at_lcommunity t"
  "attr_val (t\<lparr>at_refcnt := r\<rparr>) = attr_val t" "attr_val (attr_val t) = attr_val t"
  by (simp_all add: attr_val_def)

lemma attr_val_sels:
  assumes "attr_val x = attr_val y"
  shows "at_aspath x = at_aspath y" "at_community x = at_community y"
    "at_ecommunity x = at_ecommunity y" "at_lcommunity x = at_lcommunity y"
  using assms attr_val_sel by metis+

lemma attr_ptr_cmp_val: "attr_ptr_cmp objs a b \<longleftrightarrow> map_option attr_val (objs a) = map_option attr_val (objs b)"
  by (auto simp: attr_ptr_cmp_def attrhash_cmp_val option.rel_sel)

text \<open>The key of an attribute as a total function, and of an object of the hash.\<close>

definition total_key :: "('o \<Rightarrow> u32) \<Rightarrow> 'o pool \<Rightarrow> addr option \<Rightarrow> u32" where
  "total_key hk P x = (case x of None \<Rightarrow> 0 | Some a \<Rightarrow> pool_key hk (p_objs P) a)"

definition own_key :: "bgp_attr \<Rightarrow> u32" where
  "own_key at = ucast (at_origin at) + at_nexthop at + at_med at + at_local_pref at +
     (if at_pathlimit_as at \<noteq> 0 then ucast (at_pathlimit_ttl at) + at_pathlimit_as at else 0)"

definition attr_key :: "bgp_rt \<Rightarrow> bgp_attr \<Rightarrow> u32" where
  "attr_key R t = own_key t + total_key aspath_segs_key (ashash R) (at_aspath t) +
     total_key community_hash_make (comhash R) (at_community t) +
     total_key ecommunity_hash_make (ecomhash R) (at_ecommunity t) +
     total_key lcommunity_hash_make (lcomhash R) (at_lcommunity t)"

definition attr_ptr_key :: "bgp_rt \<Rightarrow> (addr \<Rightarrow> bgp_attr option) \<Rightarrow> addr \<Rightarrow> u32" where
  "attr_ptr_key R objs a = (case objs a of None \<Rightarrow> 0 | Some t \<Rightarrow> attr_key R t)"

lemma attr_key_val: "attr_key R (attr_val t) = attr_key R t"
  by (simp add: attr_key_def own_key_def attr_val_def)

interpretation attr_hash: hash_keys "attr_ptr_key R objs" "attr_ptr_cmp objs" for R objs
proof
  fix d e assume "attr_ptr_cmp objs d e"
  then show "attr_ptr_key R objs d = attr_ptr_key R objs e"
    using attr_key_val by (auto simp: attr_ptr_cmp_val attr_ptr_key_def split: option.splits) metis
qed (simp_all add: attr_ptr_cmp_val)

context attr_pool
begin

lemma total_key_keeps:
  assumes "pool_keeps P P'" "\<And>a. x = Some a \<Longrightarrow> 0 < pool_refs P' a"
  shows "total_key hk P' x = total_key hk P x"
proof (cases x)
  case (Some a)
  then have pos: "0 < pool_refs P' a" using assms(2) by simp
  obtain ob where ob: "p_objs P a = Some ob" using refs_obj [OF pool_keeps_live [OF assms(1) pos]] by metis
  then obtain r where "p_objs P' a = Some (ob\<lparr>refcnt := r\<rparr>)" using pool_keepsD [OF assms(1) pos] by blast
  moreover have "hk (ob\<lparr>refcnt := r\<rparr>) = hk ob" by (rule hk_val) (rule val_upd)
  ultimately show ?thesis using ob Some by (simp add: total_key_def pool_key_def)
qed (simp add: total_key_def)

lemma part_key_live:
  assumes "\<And>a. x = Some a \<Longrightarrow> 0 < pool_refs P a"
  shows "part_key hk P x = Inr (total_key hk P x)"
proof (cases x)
  case (Some a)
  then obtain ob where "p_objs P a = Some ob" using refs_obj [OF assms] by metis
  with Some show ?thesis by (simp add: part_key_def total_key_def pool_key_def deref_def)
qed (simp add: part_key_def total_key_def)

end

lemmas vals_pools = ecommunity_ops lcommunity_ops

definition attr_refs :: "bgp_rt \<Rightarrow> addr \<Rightarrow> nat" where
  "attr_refs R a =
     (if a \<in> hash_data (attrhash R) then case attrs R a of None \<Rightarrow> 0 | Some t \<Rightarrow> unat (at_refcnt t) else 0)"

section \<open>The invariant\<close>

text \<open>The references that the interned attributes hold to the object \<open>c\<close> of one pool; \<open>sel\<close> picks
  the part of an attribute that lives in that pool.\<close>

definition attr_part :: "(bgp_attr \<Rightarrow> addr option) \<Rightarrow> bgp_rt \<Rightarrow> addr \<Rightarrow> addr option" where
  "attr_part sel R a = (case attrs R a of None \<Rightarrow> None | Some t \<Rightarrow> sel t)"

definition part_refs :: "(bgp_attr \<Rightarrow> addr option) \<Rightarrow> bgp_rt \<Rightarrow> addr \<Rightarrow> nat" where
  "part_refs sel R c =
     (\<Sum>a \<in> hash_data (attrhash R). if attr_part sel R a = Some c then attr_refs R a else 0)"

definition held :: "(bgp_attr \<Rightarrow> addr option) \<Rightarrow> bgp_attr list \<Rightarrow> addr \<Rightarrow> nat" where
  "held sel H c = length (filter (\<lambda>t. sel t = Some c) H)"

definition rt_pools :: "bgp_rt \<Rightarrow> bool" where
  "rt_pools R \<longleftrightarrow> aspath_pool_inv (ashash R) \<and> pool_inv community_hash_make community_cmp (comhash R) \<and>
     pool_inv ecommunity_hash_make ecommunity_cmp (ecomhash R) \<and>
     pool_inv lcommunity_hash_make lcommunity_cmp (lcomhash R)"

definition attrs_ok :: "bgp_rt \<Rightarrow> bool" where
  "attrs_ok R \<longleftrightarrow> hash_wf (attr_ptr_key R (attrs R)) (attr_ptr_cmp (attrs R)) (attrhash R) \<and>
     (\<forall>a \<in> hash_data (attrhash R). a < next_obj R \<and> (\<exists>t. attrs R a = Some t \<and> at_refcnt t \<noteq> 0))"

definition balanced :: "bgp_rt \<Rightarrow> bgp_attr list \<Rightarrow> bool" where
  "balanced R H \<longleftrightarrow> (\<forall>c.
     pool_refs (ashash R) c = part_refs at_aspath R c + held at_aspath H c \<and>
     pool_refs (comhash R) c = part_refs at_community R c + held at_community H c \<and>
     pool_refs (ecomhash R) c = part_refs at_ecommunity R c + held at_ecommunity H c \<and>
     pool_refs (lcomhash R) c = part_refs at_lcommunity R c + held at_lcommunity H c)"

definition rt_ok :: "bgp_rt \<Rightarrow> bgp_attr list \<Rightarrow> bool" where
  "rt_ok R H \<longleftrightarrow> rt_pools R \<and> attrs_ok R \<and> balanced R H"

definition parts_live :: "bgp_rt \<Rightarrow> bgp_attr \<Rightarrow> bool" where
  "parts_live R t \<longleftrightarrow> (\<forall>c. at_aspath t = Some c \<longrightarrow> 0 < pool_refs (ashash R) c) \<and>
     (\<forall>c. at_community t = Some c \<longrightarrow> 0 < pool_refs (comhash R) c) \<and>
     (\<forall>c. at_ecommunity t = Some c \<longrightarrow> 0 < pool_refs (ecomhash R) c) \<and>
     (\<forall>c. at_lcommunity t = Some c \<longrightarrow> 0 < pool_refs (lcomhash R) c)"

definition rt_keeps :: "bgp_rt \<Rightarrow> bgp_rt \<Rightarrow> bool" where
  "rt_keeps R R' \<longleftrightarrow> pool_keeps (ashash R) (ashash R') \<and> pool_keeps (comhash R) (comhash R') \<and>
     pool_keeps (ecomhash R) (ecomhash R') \<and> pool_keeps (lcomhash R) (lcomhash R')"

lemma finite_hash_data [simp]: "finite (hash_data h)"
  by (simp add: hash_data_def)

lemma attrs_okD:
  assumes "attrs_ok R" "a \<in> hash_data (attrhash R)"
  obtains t where "attrs R a = Some t" "at_refcnt t \<noteq> 0" "a < next_obj R"
  using assms by (auto simp: attrs_ok_def)

lemma attr_refs_pos: "attrs_ok R \<Longrightarrow> 0 < attr_refs R a \<longleftrightarrow> a \<in> hash_data (attrhash R)"
  unfolding attrs_ok_def attr_refs_def by (force simp: unat_gt_0 split: option.split)

lemma attr_refs_obj:
  assumes "0 < attr_refs R a"
  obtains t where "attrs R a = Some t" "attr_refs R a = unat (at_refcnt t)" "a \<in> hash_data (attrhash R)"
  using assms that by (auto simp: attr_refs_def split: if_splits option.splits)

lemma part_refs_ge:
  assumes "attrs R a = Some t" "sel t = Some c"
  shows "attr_refs R a \<le> part_refs sel R c"
proof (cases "a \<in> hash_data (attrhash R)")
  case True
  then show ?thesis
    unfolding part_refs_def using assms member_le_sum [of a "hash_data (attrhash R)"
      "\<lambda>a. if attr_part sel R a = Some c then attr_refs R a else 0"] by (simp add: attr_part_def)
qed (simp add: attr_refs_def)

lemma held_pos: "t \<in> set H \<Longrightarrow> sel t = Some c \<Longrightarrow> 0 < held sel H c"
  by (force simp: held_def filter_empty_conv)

lemma part_refs_pos: "attrs R a = Some t \<Longrightarrow> 0 < attr_refs R a \<Longrightarrow> sel t = Some c \<Longrightarrow> 0 < part_refs sel R c"
  using part_refs_ge [of R a t sel c] by simp

lemma live_attr:
  assumes "balanced R H" "attrs R a = Some t" "0 < attr_refs R a"
  shows "parts_live R t"
proof -
  have "sel t = Some c \<Longrightarrow> 0 < part_refs sel R c" for sel c using part_refs_pos assms(2,3) .
  then show ?thesis using assms(1) by (auto simp: parts_live_def balanced_def)
qed

lemma live_held:
  assumes "balanced R H" "t \<in> set H"
  shows "parts_live R t"
proof -
  have "sel t = Some c \<Longrightarrow> 0 < held sel H c" for sel c using held_pos assms(2) .
  then show ?thesis using assms(1) by (auto simp: parts_live_def balanced_def)
qed

text \<open>With live parts the key is the total one, and making it changes nothing.\<close>

lemma key_make_live:
  assumes R: "rt_pools R" and t: "parts_live R t"
  shows "attrhash_key_make R t = Inr (attr_key R t, R)"
proof -
  have asp: "\<exists>p. p_objs (ashash R) a = Some p \<and> aspath_key_make p = Inr (aspath_segs_key p, p)" if "at_aspath t = Some a" for a
  proof -
    have inv: "aspath_pool_inv (ashash R)" and pos: "0 < pool_refs (ashash R) a"
      using R t that by (auto simp: rt_pools_def parts_live_def)
    obtain p where p: "p_objs (ashash R) a = Some p" "a \<in> hash_data (p_hash (ashash R))"
      using aspaths.refs_obj [OF pos] by metis
    then have ok: "str_ok p" "str p \<noteq> None" using inv by (auto simp: aspath_pool_inv_def)
    from ok(2) have "cache_text p = p" unfolding cache_text_def by (rule if_not_P)
    then have "aspath_key_make p = Inr (aspath_segs_key p, p)"
      using key_make_eq [OF ok(1)] segs_key_eq [OF ok(1)] key_eq [OF ok(1)] by simp
    with p show ?thesis by blast
  qed
  have "part_key community_hash_make (comhash R) (at_community t) = Inr (total_key community_hash_make (comhash R) (at_community t))"
    using t by (intro communities.part_key_live) (simp add: parts_live_def)
  moreover have "part_key ecommunity_hash_make (ecomhash R) (at_ecommunity t) = Inr (total_key ecommunity_hash_make (ecomhash R) (at_ecommunity t))"
    using t unfolding vals_pools by (intro ecommunities.part_key_live) (simp add: parts_live_def)
  moreover have "part_key lcommunity_hash_make (lcomhash R) (at_lcommunity t) = Inr (total_key lcommunity_hash_make (lcomhash R) (at_lcommunity t))"
    using t unfolding vals_pools by (intro lcommunities.part_key_live) (simp add: parts_live_def)
  ultimately show ?thesis
    using asp by (cases "at_aspath t")
      (auto simp: attrhash_key_make_def attr_key_def own_key_def total_key_def pool_key_def deref_def Let_def fun_upd_idem)
qed

lemma attr_key_keeps:
  assumes k: "rt_keeps R R'" and l: "parts_live R' t"
  shows "attr_key R' t = attr_key R t"
proof -
  have "total_key aspath_segs_key (ashash R') (at_aspath t) = total_key aspath_segs_key (ashash R) (at_aspath t)"
    using k l by (intro aspaths.total_key_keeps) (simp_all add: rt_keeps_def parts_live_def)
  moreover have "total_key community_hash_make (comhash R') (at_community t) = total_key community_hash_make (comhash R) (at_community t)"
    using k l by (intro communities.total_key_keeps) (simp_all add: rt_keeps_def parts_live_def)
  moreover have "total_key ecommunity_hash_make (ecomhash R') (at_ecommunity t) = total_key ecommunity_hash_make (ecomhash R) (at_ecommunity t)"
    unfolding vals_pools using k l by (intro ecommunities.total_key_keeps) (simp_all add: rt_keeps_def parts_live_def)
  moreover have "total_key lcommunity_hash_make (lcomhash R') (at_lcommunity t) = total_key lcommunity_hash_make (lcomhash R) (at_lcommunity t)"
    unfolding vals_pools using k l by (intro lcommunities.total_key_keeps) (simp_all add: rt_keeps_def parts_live_def)
  ultimately show ?thesis by (simp add: attr_key_def)
qed

section \<open>Sharing and releasing an attribute\<close>

definition attrs_keep :: "bgp_rt \<Rightarrow> bgp_rt \<Rightarrow> bool" where
  "attrs_keep R R' \<longleftrightarrow> (\<forall>a. 0 < attr_refs R a \<longrightarrow> 0 < attr_refs R' a \<longrightarrow>
     map_option attr_val (attrs R' a) = map_option attr_val (attrs R a))"

lemma attrs_keepD: "attrs_keep R R' \<Longrightarrow> 0 < attr_refs R a \<Longrightarrow> 0 < attr_refs R' a \<Longrightarrow>
    map_option attr_val (attrs R' a) = map_option attr_val (attrs R a)"
  unfolding attrs_keep_def by blast

definition same_pools :: "bgp_rt \<Rightarrow> bgp_rt \<Rightarrow> bool" where
  "same_pools R R' \<longleftrightarrow> ashash R' = ashash R \<and> comhash R' = comhash R \<and> ecomhash R' = ecomhash R \<and> lcomhash R' = lcomhash R"

lemma same_poolsD:
  assumes "same_pools R R'"
  shows "attr_key R' = attr_key R" "parts_live R' = parts_live R" "rt_pools R' = rt_pools R"
  using assms by (simp_all add: fun_eq_iff same_pools_def attr_key_def parts_live_def rt_pools_def)

text \<open>The hash is well formed for any store that holds the same values at its addresses.\<close>

lemma attr_wf_cong:
  assumes "\<And>d. d \<in> hash_data h \<Longrightarrow> map_option attr_val (objs' d) = map_option attr_val (objs d)"
    "\<And>d t. d \<in> hash_data h \<Longrightarrow> objs d = Some t \<Longrightarrow> attr_key R' t = attr_key R t"
  shows "hash_wf (attr_ptr_key R' objs') (attr_ptr_cmp objs') h = hash_wf (attr_ptr_key R objs) (attr_ptr_cmp objs) h"
proof (rule hash_wf_cong)
  fix d assume d: "d \<in> hash_data h"
  show "attr_ptr_key R' objs' d = attr_ptr_key R objs d"
  proof (cases "objs d")
    case None
    then show ?thesis using assms(1) [OF d] by (simp add: attr_ptr_key_def)
  next
    case (Some t)
    then obtain t' where t': "objs' d = Some t'" "attr_val t' = attr_val t" using assms(1) [OF d] by auto
    have "attr_key R' t' = attr_key R' (attr_val t)" using attr_key_val [of R' t'] t'(2) by simp
    also have "\<dots> = attr_key R t" using assms(2) [OF d Some] attr_key_val [of R' t] by simp
    finally show ?thesis using Some t'(1) by (simp add: attr_ptr_key_def)
  qed
  fix e assume "e \<in> hash_data h"
  then show "attr_ptr_cmp objs' d e = attr_ptr_cmp objs d e"
    using assms(1) d by (simp add: attr_ptr_cmp_val)
qed

lemma attr_share_ok:
  assumes R: "rt_pools R" "attrs_ok R" and at: "parts_live R at" and peer: "misc_db peer"
    and room: "\<forall>a. Suc (attr_refs R a) < 2 ^ 64"
  obtains f R' t where "attr_share peer R at = Inr (f, R')" "same_pools R R'" "attrs_ok R'"
    "attrs R' f = Some t" "attr_val t = attr_val at" "attrs_keep R R'"
    "attr_refs R' = (attr_refs R)(f := Suc (attr_refs R f))"
proof -
  let ?h = "attrhash R" and ?tmp = "next_obj R" and ?fr = "Suc (next_obj R)"
  define new where "new = bgp_attr_hash_alloc at"
  define S1 where "S1 = (attrs R)(?tmp := Some at)"
  define S where "S = S1(?fr := Some new)"
  have nv: "attr_val new = attr_val at" by (simp add: new_def bgp_attr_hash_alloc_def)
  have old: "d < ?tmp" if "d \<in> hash_data ?h" for d using attrs_okD [OF R(2) that] by blast
  have agree: "S d = attrs R d" "S1 d = attrs R d" if "d \<in> hash_data ?h" for d
    using old [OF that] by (simp_all add: S_def S1_def)
  have wf: "hash_wf (attr_ptr_key R S) (attr_ptr_cmp S) ?h"
    using R(2) agree attr_wf_cong [of ?h S "attrs R" R R] by (simp add: attrs_ok_def)
  have Sx: "S ?tmp = Some at" "S ?fr = Some new" by (simp_all add: S_def S1_def)
  have cmp: "attr_ptr_cmp S ?fr ?tmp" using Sx nv by (simp add: attr_ptr_cmp_val)
  obtain f h' where get: "hash_get peer (attr_ptr_key R S) (attr_ptr_cmp S) ?h ?tmp (Some (\<lambda>_. Some ?fr)) = Inr (Some f, h')"
      and wf': "hash_wf (attr_ptr_key R S) (attr_ptr_cmp S) h'" and eq: "attr_ptr_cmp S f ?tmp"
      and data: "hash_data h' = insert f (hash_data ?h)"
      and new: "if \<exists>e \<in> hash_data ?h. attr_ptr_cmp S e ?tmp then f \<in> hash_data ?h \<and> h' = ?h else f = ?fr"
    using attr_hash.hash_get_alloc [OF wf peer, of "\<lambda>_. Some ?fr" ?tmp ?fr] cmp by blast
  have get1: "hash_get peer (\<lambda>_. attr_key R at) (attr_ptr_cmp S1) ?h ?tmp (Some (\<lambda>_. Some ?fr)) = Inr (Some f, h')"
    unfolding get [symmetric]
  proof (rule hash_get_cong [OF wf])
    show "attr_key R at = attr_ptr_key R S ?tmp" by (simp add: attr_ptr_key_def Sx)
    show "attr_ptr_cmp S1 d ?tmp = attr_ptr_cmp S d ?tmp" if "d \<in> hash_data ?h" for d
      using agree [OF that] by (simp add: attr_ptr_cmp_val S_def)
  qed
  have f: "f = ?fr \<and> f \<notin> hash_data ?h \<or> f \<noteq> ?fr \<and> f \<in> hash_data ?h"
    using new old [of ?fr] by (auto split: if_splits)
  define objs where "objs = (if f = ?fr then (attrs R)(?fr := Some new) else attrs R)"
  have of: "objs f = S f" using f agree(1) Sx(2) by (auto simp: objs_def)
  obtain ob where ob: "S f = Some ob" "attr_val ob = attr_val at" using eq Sx by (auto simp: attr_ptr_cmp_val)
  define ob1 where "ob1 = ob\<lparr>at_refcnt := at_refcnt ob + 1\<rparr>"
  define R' where "R' = R\<lparr>attrs := objs(f := Some ob1), attrhash := h', next_obj := Suc ?fr\<rparr>"
  have run: "attr_share peer R at = Inr (f, R')"
    by (simp only: attr_share_def key_make_live [OF R(1) at] rbind_simps prod.case Let_def S1_def [symmetric]
        get1 option.case new_def [symmetric] objs_def [symmetric] deref_def of ob(1) R'_def ob1_def)
  have R': "attrs R' = objs(f := Some ob1)" "attrhash R' = h'" "next_obj R' = Suc ?fr" "same_pools R R'"
    by (simp_all add: R'_def same_pools_def)
  have cnt: "unat (at_refcnt ob) = attr_refs R f"
    using f ob agree(1) Sx(2) by (auto simp: attr_refs_def new_def bgp_attr_hash_alloc_def)
  then have cnt1: "unat (at_refcnt ob1) = Suc (attr_refs R f)"
    using room unat_suc [of "at_refcnt ob"] by (simp add: ob1_def)
  have v1: "attr_val ob1 = attr_val ob" by (simp add: ob1_def)
  have vals: "map_option attr_val (attrs R' d) = map_option attr_val (S d)" if "d \<in> hash_data h'" for d
    using that data ob agree v1 old by (cases "d = f") (auto simp: R' objs_def)
  have refs: "attr_refs R' = (attr_refs R)(f := Suc (attr_refs R f))"
    using data cnt1 f by (auto simp: fun_eq_iff attr_refs_def R' objs_def)
  have "hash_wf (attr_ptr_key R' (attrs R')) (attr_ptr_cmp (attrs R')) h'"
    using wf' vals attr_wf_cong [of h' "attrs R'" S R' R] same_poolsD(1) [OF R'(4)] by simp
  moreover have "d < next_obj R' \<and> (\<exists>t. attrs R' d = Some t \<and> at_refcnt t \<noteq> 0)" if "d \<in> hash_data h'" for d
  proof (cases "d = f")
    case True
    have "at_refcnt ob1 \<noteq> 0" using cnt1 by (metis nat.distinct(1) unat_0)
    moreover have "f < Suc ?fr" using f old by fastforce
    ultimately show ?thesis by (simp add: R' True)
  next
    case False
    then have "d \<in> hash_data ?h" using that data by simp
    from attrs_okD [OF R(2) this] show ?thesis using False old [OF \<open>d \<in> hash_data ?h\<close>] by (auto simp: R' objs_def)
  qed
  ultimately have ok: "attrs_ok R'" by (simp add: attrs_ok_def R'(2))
  have "map_option attr_val (attrs R' a) = map_option attr_val (attrs R a)" if "0 < attr_refs R a" for a
    using vals [of a] agree(1) [of a] data attr_refs_obj [OF that] by (metis insertCI)
  then have "attrs_keep R R'" by (simp add: attrs_keep_def)
  with run R'(4) ok refs show ?thesis using v1 ob(2) by (intro that [of f R' ob1]) (simp_all add: R'(1))
qed

lemma attr_release_ok:
  assumes R: "rt_pools R" "attrs_ok R" and a: "0 < attr_refs R a" "attrs R a = Some t" "parts_live R t"
  obtains R' where "attr_release R a = Inr R'" "same_pools R R'" "attrs_ok R'" "attrs_keep R R'"
    "attr_refs R' = (attr_refs R)(a := attr_refs R a - 1)"
proof -
  have ad: "a \<in> hash_data (attrhash R)" and cnt: "attr_refs R a = unat (at_refcnt t)"
    using attr_refs_obj [OF a(1)] a(2) by auto
  have nz: "at_refcnt t \<noteq> 0" using a(1) cnt by (simp add: unat_gt_0)
  define t1 where "t1 = t\<lparr>at_refcnt := at_refcnt t - 1\<rparr>"
  define R1 where "R1 = R\<lparr>attrs := (attrs R)(a := Some t1)\<rparr>"
  have R1: "attrs R1 = (attrs R)(a := Some t1)" "attrhash R1 = attrhash R" "next_obj R1 = next_obj R" "same_pools R R1"
    by (simp_all add: R1_def same_pools_def)
  have v1: "attr_val t1 = attr_val t" and cnt1: "unat (at_refcnt t1) = attr_refs R a - 1"
    using unat_pred [OF nz] cnt by (simp_all add: t1_def)
  have live1: "rt_pools R1" "parts_live R1 t1"
    using same_poolsD(2,3) [OF R1(4)] R(1) a(3) attr_val_sels [OF v1] by (simp_all add: parts_live_def)
  have val1: "map_option attr_val (attrs R1 d) = map_option attr_val (attrs R d)" for d
    using a(2) v1 by (simp add: R1)
  have wf1: "hash_wf (attr_ptr_key R1 (attrs R1)) (attr_ptr_cmp (attrs R1)) (attrhash R)"
    using R(2) val1 attr_wf_cong [of "attrhash R" "attrs R1" "attrs R" R1 R] same_poolsD(1) [OF R1(4)] by (simp add: attrs_ok_def)
  have alive: "d < next_obj R \<and> (\<exists>t. attrs R1 d = Some t \<and> at_refcnt t \<noteq> 0)" if "d \<in> hash_data (attrhash R)" "d \<noteq> a" for d
    using R(2) that by (auto simp: attrs_ok_def R1)
  have keep: "attrs_keep R R'" if "\<And>d. d \<noteq> a \<Longrightarrow> attrs R' d = attrs R d" "attrs R' a = Some t1 \<or> attr_refs R' a = 0" for R'
    unfolding attrs_keep_def using that a(2) v1 by (metis less_irrefl option.simps(9))
  have un: "attr_release R a = (if at_refcnt t1 = 0 then
      rbind (attrhash_key_make R1 t1) (\<lambda>(key, R2).
        rbind (hash_release (\<lambda>_. key) (attr_ptr_cmp (attrs R2)) (attrhash R2) a) (\<lambda>(ret, h).
          Inr (R2\<lparr>attrs := (attrs R2)(a := None), attrhash := h\<rparr>))) else Inr R1)"
    by (simp only: attr_release_def deref_def a(2) option.case rbind_simps Let_def t1_def R1_def)
  show ?thesis
  proof (cases "at_refcnt t1 = 0")
    case True
    have "attr_key R1 t1 = attr_ptr_key R1 (attrs R1) a" by (simp add: attr_ptr_key_def R1)
    then have rel_eq: "hash_release (\<lambda>_. attr_key R1 t1) (attr_ptr_cmp (attrs R1)) (attrhash R1) a =
        hash_release (attr_ptr_key R1 (attrs R1)) (attr_ptr_cmp (attrs R1)) (attrhash R) a"
      unfolding R1(2) by (rule hash_release_key)
    obtain h' where rel: "hash_release (attr_ptr_key R1 (attrs R1)) (attr_ptr_cmp (attrs R1)) (attrhash R) a = Inr (Some a, h')"
        "hash_wf (attr_ptr_key R1 (attrs R1)) (attr_ptr_cmp (attrs R1)) h'" "hash_data h' = hash_data (attrhash R) - {a}"
      using attr_hash.hash_release_data [OF wf1 ad] by blast
    define R' where "R' = R1\<lparr>attrs := (attrs R1)(a := None), attrhash := h'\<rparr>"
    have R': "attrs R' = (attrs R)(a := None)" "attrhash R' = h'" "next_obj R' = next_obj R" "same_pools R R'" "same_pools R1 R'"
      using R1(4) by (simp_all add: R'_def R1 same_pools_def)
    have run: "attr_release R a = Inr R'"
      by (simp add: un True key_make_live [OF live1] rel(1) rel_eq R'_def)
    have "hash_wf (attr_ptr_key R' (attrs R')) (attr_ptr_cmp (attrs R')) h'"
      using rel(2,3) attr_wf_cong [of h' "attrs R'" "attrs R1" R' R1] same_poolsD(1) [OF R'(5)] by (auto simp: R' R1)
    moreover have "d < next_obj R' \<and> (\<exists>t. attrs R' d = Some t \<and> at_refcnt t \<noteq> 0)" if "d \<in> hash_data h'" for d
      using that alive [of d] rel(3) by (simp add: R' R1)
    ultimately have ok: "attrs_ok R'" by (simp add: attrs_ok_def R'(2))
    have "attr_refs R' = (attr_refs R)(a := attr_refs R a - 1)"
      using rel(3) cnt1 True by (auto simp: fun_eq_iff attr_refs_def R')
    moreover have "attrs_keep R R'" by (rule keep) (simp_all add: R' attr_refs_def rel(3))
    ultimately show ?thesis using run R'(4) ok by (intro that [of R'])
  next
    case False
    have run: "attr_release R a = Inr R1"
      using False by (simp add: un)
    have "d < next_obj R1 \<and> (\<exists>t. attrs R1 d = Some t \<and> at_refcnt t \<noteq> 0)" if "d \<in> hash_data (attrhash R)" for d
      using that alive [of d] False attrs_okD [OF R(2) ad] by (cases "d = a") (auto simp: R1)
    then have ok: "attrs_ok R1" using wf1 by (simp add: attrs_ok_def R1(2))
    have "attr_refs R1 = (attr_refs R)(a := attr_refs R a - 1)"
      using ad cnt1 by (auto simp: fun_eq_iff attr_refs_def R1)
    moreover have "attrs_keep R R1" by (rule keep) (simp_all add: R1)
    ultimately show ?thesis using run R1(4) ok by (intro that [of R1])
  qed
qed

section \<open>Interning and releasing\<close>

lemma part_refs_on:
  assumes "finite S" "hash_data (attrhash R) \<subseteq> S"
  shows "part_refs sel R c = (\<Sum>a \<in> S. if attr_part sel R a = Some c then attr_refs R a else 0)"
  unfolding part_refs_def using assms by (intro sum.mono_neutral_left) (auto simp: attr_refs_def)

definition of_val :: "(bgp_attr \<Rightarrow> addr option) \<Rightarrow> bool" where
  "of_val sel \<longleftrightarrow> (\<forall>x y. attr_val x = attr_val y \<longrightarrow> sel x = sel y)"

lemma of_vals: "of_val at_aspath" "of_val at_community" "of_val at_ecommunity" "of_val at_lcommunity"
  unfolding of_val_def using attr_val_sels by blast+

lemma of_valD: "of_val sel \<Longrightarrow> attr_val x = attr_val y \<Longrightarrow> sel x = sel y"
  unfolding of_val_def by blast

lemma attr_part_val:
  assumes "of_val sel" "map_option attr_val (attrs R' a) = map_option attr_val (attrs R a)"
  shows "attr_part sel R' a = attr_part sel R a"
proof (cases "attrs R a")
  case None
  then show ?thesis using assms(2) by (simp add: attr_part_def)
next
  case (Some t)
  then have "map_option attr_val (attrs R' a) = Some (attr_val t)" using assms(2) by simp
  then obtain t' where "attrs R' a = Some t'" "attr_val t' = attr_val t" unfolding map_option_eq_Some by blast
  then show ?thesis using Some of_valD [OF assms(1), of t' t] by (simp add: attr_part_def)
qed

text \<open>Changing the count of one attribute moves the references to its parts by the same amount.\<close>

lemma part_refs_change:
  assumes keep: "attrs_keep R R'" and refs: "attr_refs R' = (attr_refs R)(a := n)" and sel: "of_val sel"
    and v: "0 < attr_refs R a \<Longrightarrow> map_option attr_val (attrs R a) = Some (attr_val t)"
      "0 < n \<Longrightarrow> map_option attr_val (attrs R' a) = Some (attr_val t)"
  shows "part_refs sel R' c + (if sel t = Some c then attr_refs R a else 0) =
         part_refs sel R c + (if sel t = Some c then n else 0)"
proof -
  define S where "S = insert a (hash_data (attrhash R) \<union> hash_data (attrhash R'))"
  have S: "finite S" "a \<in> S" "hash_data (attrhash R) \<subseteq> S" "hash_data (attrhash R') \<subseteq> S" by (auto simp: S_def)
  define g where "g = (\<lambda>R d. if attr_part sel R d = Some c then attr_refs R d else 0)"
  have other: "g R' d = g R d" if "d \<noteq> a" for d
  proof (cases "0 < attr_refs R d")
    case True
    moreover from True have "0 < attr_refs R' d" using refs that by simp
    ultimately have "attr_part sel R' d = attr_part sel R d"
      by (intro attr_part_val [OF sel] attrs_keepD [OF keep])
    then show ?thesis using refs that by (simp add: g_def)
  next
    case False
    then show ?thesis using refs that by (simp add: g_def)
  qed
  have at: "m = 0 \<or> attr_part sel Q a = sel t" if "0 < m \<Longrightarrow> map_option attr_val (attrs Q a) = Some (attr_val t)" for m :: nat and Q
  proof (cases "0 < m")
    case True
    then have "map_option attr_val (attrs Q a) = Some (attr_val t)" by (rule that)
    then obtain x where "attrs Q a = Some x" "attr_val x = attr_val t" unfolding map_option_eq_Some by blast
    then show ?thesis using of_valD [OF sel, of x t] by (simp add: attr_part_def)
  qed simp
  have r: "attr_refs R' a = n" using refs by simp
  have "attr_refs R a = 0 \<or> attr_part sel R a = sel t" by (rule at) (rule v(1))
  then have "g R a = (if sel t = Some c then attr_refs R a else 0)" unfolding g_def by (elim disjE) simp_all
  moreover have "n = 0 \<or> attr_part sel R' a = sel t" by (rule at) (rule v(2))
  then have "g R' a = (if sel t = Some c then n else 0)" unfolding g_def r by (elim disjE) simp_all
  moreover have "part_refs sel R c = g R a + (\<Sum>d \<in> S - {a}. g R d)"
    unfolding part_refs_on [OF S(1,3)] g_def using S(1,2) by (simp add: sum.remove)
  moreover have "part_refs sel R' c = g R' a + (\<Sum>d \<in> S - {a}. g R' d)"
    unfolding part_refs_on [OF S(1,4)] g_def using S(1,2) by (simp add: sum.remove)
  moreover have "(\<Sum>d \<in> S - {a}. g R' d) = (\<Sum>d \<in> S - {a}. g R d)" using other by (intro sum.cong) auto
  ultimately show ?thesis by simp
qed

lemma same_attrs_refs:
  assumes "attrs R' = attrs R" "attrhash R' = attrhash R"
  shows "attr_refs R' = attr_refs R" "part_refs sel R' = part_refs sel R"
proof -
  show r: "attr_refs R' = attr_refs R" using assms by (simp add: fun_eq_iff attr_refs_def)
  show "part_refs sel R' = part_refs sel R" using assms r unfolding part_refs_def attr_part_def by presburger
qed

text \<open>The attributes stay well formed when the pools change around them.\<close>

lemma attrs_ok_pools:
  assumes "attrs_ok R" "attrs R' = attrs R" "attrhash R' = attrhash R" "next_obj R' = next_obj R" "rt_keeps R R'"
    and live: "\<And>a t. 0 < attr_refs R a \<Longrightarrow> attrs R a = Some t \<Longrightarrow> parts_live R' t"
  shows "attrs_ok R'"
proof -
  have "hash_wf (attr_ptr_key R' (attrs R)) (attr_ptr_cmp (attrs R)) (attrhash R) =
      hash_wf (attr_ptr_key R (attrs R)) (attr_ptr_cmp (attrs R)) (attrhash R)"
    using live attr_refs_pos [OF assms(1)] by (intro attr_wf_cong attr_key_keeps [OF assms(5)]) simp_all
  then show ?thesis using assms(1-4) by (simp add: attrs_ok_def)
qed

definition refs_room :: "bgp_rt \<Rightarrow> bool" where
  "refs_room R \<longleftrightarrow> (\<forall>c. Suc (pool_refs (ashash R) c) < 2 ^ 64 \<and> Suc (pool_refs (comhash R) c) < 2 ^ 64 \<and>
     Suc (pool_refs (ecomhash R) c) < 2 ^ 64 \<and> Suc (pool_refs (lcomhash R) c) < 2 ^ 64 \<and> Suc (attr_refs R c) < 2 ^ 64)"

lemma bgp_attr_intern_ok:
  assumes ok: "rt_ok R H" and at: "at \<in> set H" and peer: "routing_db peer" "misc_db peer" and room: "refs_room R"
  obtains f R' t where "bgp_attr_intern peer R at = Inr (Some f, at, R')" "rt_ok R' H" "attrs_keep R R'"
    "attrs R' f = Some t" "attr_val t = attr_val at" "attr_refs R' = (attr_refs R)(f := Suc (attr_refs R f))"
proof -
  have pools: "rt_pools R" and aok: "attrs_ok R" and bal: "balanced R H" using ok by (simp_all add: rt_ok_def)
  have live: "parts_live R at" using live_held [OF bal at] .
  obtain A where A: "take_ref (aspath_intern peer) (ashash R) (at_aspath at) = Inr (at_aspath at, A)"
      "pool_inv aspath_segs_key aspath_cmp A" "pool_keeps (ashash R) A"
      "pool_refs A = (\<lambda>d. pool_refs (ashash R) d + (if at_aspath at = Some d then 1 else 0))"
    using aspaths.take_ref_opt [of "ashash R" "at_aspath at" "aspath_intern peer"] pools live room aspath_inv_pool
    by (auto simp: rt_pools_def parts_live_def refs_room_def)
  obtain C where C: "take_ref (community_intern peer) (comhash R) (at_community at) = Inr (at_community at, C)"
      "pool_inv community_hash_make community_cmp C" "pool_keeps (comhash R) C"
      "pool_refs C = (\<lambda>d. pool_refs (comhash R) d + (if at_community at = Some d then 1 else 0))"
    using communities.take_ref_opt [of "comhash R" "at_community at" "community_intern peer"] pools live room
    by (auto simp: rt_pools_def parts_live_def refs_room_def)
  obtain E where E: "take_ref (ecommunity_intern peer) (ecomhash R) (at_ecommunity at) = Inr (at_ecommunity at, E)"
      "pool_inv ecommunity_hash_make ecommunity_cmp E" "pool_keeps (ecomhash R) E"
      "pool_refs E = (\<lambda>d. pool_refs (ecomhash R) d + (if at_ecommunity at = Some d then 1 else 0))"
    using ecommunities.take_ref_opt [of "ecomhash R" "at_ecommunity at" "ecommunity_intern peer"] pools live room
    unfolding vals_pools by (auto simp: rt_pools_def parts_live_def refs_room_def vals_pools)
  obtain L where L: "take_ref (lcommunity_intern peer) (lcomhash R) (at_lcommunity at) = Inr (at_lcommunity at, L)"
      "pool_inv lcommunity_hash_make lcommunity_cmp L" "pool_keeps (lcomhash R) L"
      "pool_refs L = (\<lambda>d. pool_refs (lcomhash R) d + (if at_lcommunity at = Some d then 1 else 0))"
    using lcommunities.take_ref_opt [of "lcomhash R" "at_lcommunity at" "lcommunity_intern peer"] pools live room
    unfolding vals_pools by (auto simp: rt_pools_def parts_live_def refs_room_def vals_pools)
  define R0 where "R0 = R\<lparr>ashash := A, comhash := C, ecomhash := E, lcomhash := L\<rparr>"
  have R0: "ashash R0 = A" "comhash R0 = C" "ecomhash R0 = E" "lcomhash R0 = L" "attrs R0 = attrs R"
      "attrhash R0 = attrhash R" "next_obj R0 = next_obj R" by (simp_all add: R0_def)
  have keeps: "rt_keeps R R0" using A(3) C(3) E(3) L(3) by (simp add: rt_keeps_def R0)
  have pools0: "rt_pools R0"
    using pools A(2,3) C(2) E(2) L(2) aspath_inv_keeps by (auto simp: rt_pools_def R0)
  have mono: "parts_live R0 t" if "parts_live R t" for t
    using that A(4) C(4) E(4) L(4) by (auto simp: parts_live_def R0)
  have aok0: "attrs_ok R0"
    using attrs_ok_pools [OF aok R0(5-7) keeps] live_attr [OF bal] mono by blast
  have refs0: "attr_refs R0 = attr_refs R" "part_refs sel R0 = part_refs sel R" for sel
    using same_attrs_refs [OF R0(5,6)] .
  obtain f R' t where sh: "attr_share peer R0 at = Inr (f, R')" "same_pools R0 R'" "attrs_ok R'" "attrs R' f = Some t"
      "attr_val t = attr_val at" "attrs_keep R0 R'" "attr_refs R' = (attr_refs R0)(f := Suc (attr_refs R0 f))"
    using attr_share_ok [OF pools0 aok0 mono [OF live] peer(2)] room refs0(1) unfolding refs_room_def by metis
  have keep: "attrs_keep R R'" using sh(6) by (simp add: attrs_keep_def refs0 R0)
  have pr: "part_refs sel R' c = part_refs sel R c + (if sel at = Some c then 1 else 0)" if "of_val sel" for sel c
  proof -
    have v: "map_option attr_val (attrs R' f) = Some (attr_val t)" using sh(4) by simp
    moreover have "map_option attr_val (attrs R f) = Some (attr_val t)" if "0 < attr_refs R f"
      using keep that v sh(7) by (simp add: attrs_keep_def refs0)
    ultimately have "part_refs sel R' c + (if sel t = Some c then attr_refs R f else 0) =
        part_refs sel R c + (if sel t = Some c then Suc (attr_refs R f) else 0)"
      using sh(7) refs0(1) by (intro part_refs_change [OF keep _ that]) simp_all
    moreover have "sel t = sel at" using of_valD [OF that sh(5)] .
    ultimately show ?thesis by (simp split: if_splits)
  qed
  have "balanced R' H"
    using bal sh(2) A(4) C(4) E(4) L(4) pr [OF of_vals(1)] pr [OF of_vals(2)] pr [OF of_vals(3)] pr [OF of_vals(4)]
    by (simp add: balanced_def same_pools_def R0)
  then have "rt_ok R' H" using sh(3) pools0 same_poolsD(3) [OF sh(2)] by (simp add: rt_ok_def)
  moreover have "bgp_attr_intern peer R at = Inr (Some f, at, R')"
    using peer A(1) C(1) E(1) L(1) sh(1) by (simp add: bgp_attr_intern_def Let_def R0_def)
  ultimately show ?thesis using sh(4,5,7) keep refs0(1) by (intro that [of f R' t]) simp_all
qed

lemma same_pools_refs:
  assumes "same_pools R R'"
  shows "pool_refs (ashash R') = pool_refs (ashash R)" "pool_refs (comhash R') = pool_refs (comhash R)"
    "pool_refs (ecomhash R') = pool_refs (ecomhash R)" "pool_refs (lcomhash R') = pool_refs (lcomhash R)"
  using assms by (simp_all add: same_pools_def)

lemma unintern_pools:
  "community_unintern peer = pool_unintern peer community_hash_make community_cmp"
  "ecommunity_unintern peer = pool_unintern peer ecommunity_hash_make ecommunity_cmp"
  "lcommunity_unintern peer = pool_unintern peer lcommunity_hash_make lcommunity_cmp"
  by (simp_all add: fun_eq_iff community_unintern_pool ecommunity_unintern_def lcommunity_unintern_def)

lemma bgp_attr_unintern_ok:
  assumes ok: "rt_ok R H" and peer: "routing_db peer" "misc_db peer" and a: "0 < attr_refs R a"
  obtains R' where "bgp_attr_unintern peer R a = Inr R'" "rt_ok R' H" "attrs_keep R R'"
    "attr_refs R' = (attr_refs R)(a := attr_refs R a - 1)"
proof -
  have pools: "rt_pools R" and aok: "attrs_ok R" and bal: "balanced R H" using ok by (simp_all add: rt_ok_def)
  obtain t where t: "attrs R a = Some t" using attr_refs_obj [OF a] by metis
  have live: "parts_live R t" using live_attr [OF bal t a] .
  obtain R1 where rel: "attr_release R a = Inr R1" "same_pools R R1" "attrs_ok R1" "attrs_keep R R1"
      "attr_refs R1 = (attr_refs R)(a := attr_refs R a - 1)"
    using attr_release_ok [OF pools aok a t live] .
  have pools1: "rt_pools R1" and live1: "parts_live R1 t" using pools live same_poolsD [OF rel(2)] by simp_all
  obtain A where A: "drop_ref (aspath_unintern peer) (ashash R1) (at_aspath t) = Inr A" "aspath_pool_inv A"
      "pool_keeps (ashash R1) A" "pool_refs A = (\<lambda>d. pool_refs (ashash R1) d - (if at_aspath t = Some d then 1 else 0))"
    using aspath_drop_ref [of "ashash R1" peer "at_aspath t"] pools1 live1 peer(1)
    by (auto simp: rt_pools_def parts_live_def)
  obtain C where C: "drop_ref (community_unintern peer) (comhash R1) (at_community t) = Inr C"
      "pool_inv community_hash_make community_cmp C" "pool_keeps (comhash R1) C"
      "pool_refs C = (\<lambda>d. pool_refs (comhash R1) d - (if at_community t = Some d then 1 else 0))"
    using communities.drop_ref_opt [of "comhash R1" peer "at_community t"] pools1 live1 peer(1)
    unfolding unintern_pools by (auto simp: rt_pools_def parts_live_def)
  obtain E where E: "drop_ref (ecommunity_unintern peer) (ecomhash R1) (at_ecommunity t) = Inr E"
      "pool_inv ecommunity_hash_make ecommunity_cmp E" "pool_keeps (ecomhash R1) E"
      "pool_refs E = (\<lambda>d. pool_refs (ecomhash R1) d - (if at_ecommunity t = Some d then 1 else 0))"
    using ecommunities.drop_ref_opt [of "ecomhash R1" peer "at_ecommunity t"] pools1 live1 peer(1)
    unfolding unintern_pools vals_pools by (auto simp: rt_pools_def parts_live_def vals_pools)
  obtain L where L: "drop_ref (lcommunity_unintern peer) (lcomhash R1) (at_lcommunity t) = Inr L"
      "pool_inv lcommunity_hash_make lcommunity_cmp L" "pool_keeps (lcomhash R1) L"
      "pool_refs L = (\<lambda>d. pool_refs (lcomhash R1) d - (if at_lcommunity t = Some d then 1 else 0))"
    using lcommunities.drop_ref_opt [of "lcomhash R1" peer "at_lcommunity t"] pools1 live1 peer(1)
    unfolding unintern_pools vals_pools by (auto simp: rt_pools_def parts_live_def vals_pools)
  define R' where "R' = R1\<lparr>ashash := A, comhash := C, ecomhash := E, lcomhash := L\<rparr>"
  have R': "ashash R' = A" "comhash R' = C" "ecomhash R' = E" "lcomhash R' = L" "attrs R' = attrs R1"
      "attrhash R' = attrhash R1" "next_obj R' = next_obj R1" by (simp_all add: R'_def)
  have keeps: "rt_keeps R1 R'" using A(3) C(3) E(3) L(3) by (simp add: rt_keeps_def R')
  have refs': "attr_refs R' = attr_refs R1" "part_refs sel R' = part_refs sel R1" for sel
    using same_attrs_refs [OF R'(5,6)] .
  have pr: "part_refs sel R1 c + (if sel t = Some c then 1 else 0) = part_refs sel R c" if "of_val sel" for sel c
  proof -
    have "map_option attr_val (attrs R1 a) = Some (attr_val t)" if "0 < attr_refs R a - 1"
      using attrs_keepD [OF rel(4) a] that t by (simp add: rel(5))
    then have "part_refs sel R1 c + (if sel t = Some c then attr_refs R a else 0) =
        part_refs sel R c + (if sel t = Some c then attr_refs R a - 1 else 0)"
      using t by (intro part_refs_change [OF rel(4,5) that]) simp_all
    then show ?thesis using a by (simp split: if_splits)
  qed
  have sub: "p - (if sel t = Some c then 1 else 0) = part_refs sel R' c + held sel H c"
    if "of_val sel" "p = part_refs sel R c + held sel H c" for sel c and p :: nat
    using pr [OF that(1), of c] that(2) by (simp add: refs')
  have bal': "balanced R' H"
    using bal sub [OF of_vals(1)] sub [OF of_vals(2)] sub [OF of_vals(3)] sub [OF of_vals(4)]
    by (simp add: balanced_def R' A(4) C(4) E(4) L(4) same_pools_refs [OF rel(2)])
  have "attrs_ok R'"
    using live_attr [OF bal'] R'(5) refs'(1) by (intro attrs_ok_pools [OF rel(3) R'(5-7) keeps]) simp
  moreover have "rt_pools R'" using A(2) C(2) E(2) L(2) by (simp add: rt_pools_def R')
  ultimately have "rt_ok R' H" using bal' by (simp add: rt_ok_def)
  moreover have "bgp_attr_unintern peer R a = Inr R'"
    using peer t rel(1) A(1) C(1) E(1) L(1) by (simp add: bgp_attr_unintern_def deref_def R'_def)
  moreover have "attrs_keep R R'" using rel(4) unfolding attrs_keep_def R'(5) refs' .
  ultimately show ?thesis using rel(5) refs'(1) by (intro that [of R']) simp_all
qed

lemma attr_refs_init [simp]: "attr_refs (bgp_attr_init n) a = 0"
  by (simp add: attr_refs_def bgp_attr_init_def)

lemma rt_ok_init: "n \<noteq> 0 \<Longrightarrow> rt_ok (bgp_attr_init n) []"
proof -
  assume n: "n \<noteq> 0"
  have none: "hash_data (p_hash (aspath_init n)) = {}" using hash_data_create [of 32767]
    by (simp add: aspath_init_def hash_create_def)
  have wf: "hash_wf key cmp (hash_create n)" for key :: "addr \<Rightarrow> u32" and cmp using n by (rule hash_wf_create)
  have "rt_pools (bgp_attr_init n)"
    using aspath_init_inv [of n] wf
    by (simp add: rt_pools_def bgp_attr_init_def pool_inv_def community_init_def ecommunity_init_def lcommunity_init_def)
  moreover have "attrs_ok (bgp_attr_init n)" using wf by (simp add: attrs_ok_def bgp_attr_init_def)
  moreover have "balanced (bgp_attr_init n) []"
    using none by (simp add: balanced_def held_def part_refs_def bgp_attr_init_def pool_refs_def
        community_init_def ecommunity_init_def lcommunity_init_def)
  ultimately show ?thesis by (simp add: rt_ok_def)
qed

end
