(* ===== verification/Bgp_Rib_Props.thy ===== *)
theory Bgp_Rib_Props
  imports Bgp_Rib Bgp_Locks Bgp_Attr_Refs
begin

text \<open>
  The routing information base as a map: for every address family, prefix and bucket a list of
  routes with their attributes by value. \<^verbatim>\<open>bgp_process_update\<close> and \<^verbatim>\<open>bgp_process_withdraw\<close>
  implement the obvious operations on that map, and keep the counts of the pools, of the tables
  and of the peers exact.
\<close>

section \<open>Routes by value\<close>

record rib_route =
  r_peer :: addr
  r_attr :: "bgp_attr option"
  r_extra :: "bgp_info_extra option"

definition route_of :: "bgp_rt \<Rightarrow> bgp_info \<Rightarrow> rib_route" where
  "route_of R i = \<lparr>r_peer = i_peer i,
     r_attr = (case i_attr i of None \<Rightarrow> None | Some a \<Rightarrow> map_option attr_val (attrs R a)), r_extra = i_extra i\<rparr>"

definition info_of :: "rib_route \<Rightarrow> bgp_info" where
  "info_of r = \<lparr>i_peer = r_peer r, i_attr = None, i_extra = r_extra r\<rparr>"

definition db_bucket :: "bgp_db \<Rightarrow> u16 \<Rightarrow> byte \<Rightarrow> bool list \<Rightarrow> nat \<Rightarrow> rib_route list" where
  "db_bucket d afi safi q m = map (route_of (db_rt d)) (table_bucket (rib d afi safi) q m)"

text \<open>What an announcement makes of a route and of a bucket, and a withdrawal of a bucket. A route
  that is announced again with the attributes it has is left as it is, extra data included.\<close>

definition announced :: "bgp_daemon \<Rightarrow> bgp_peer \<Rightarrow> bgp_msg_extra \<Rightarrow> byte \<Rightarrow> u32 \<Rightarrow> byte list \<Rightarrow> byte list \<Rightarrow> rib_route \<Rightarrow> rib_route" where
  "announced bms peer extra safi path_id rd label r =
     r\<lparr>r_extra := i_extra (announce bms peer extra safi path_id rd label (info_of r))\<rparr>"

definition route_hit :: "bgp_daemon \<Rightarrow> bgp_peer \<Rightarrow> bgp_msg_extra \<Rightarrow> byte \<Rightarrow> byte list \<Rightarrow> u32 \<Rightarrow> rib_route list \<Rightarrow> nat option" where
  "route_hit bms peer extra safi rd path_id bk =
     info_find (\<lambda>r. same_route bms peer extra safi rd path_id (info_of r)) bk"

definition install :: "bgp_daemon \<Rightarrow> bgp_peer \<Rightarrow> bgp_msg_extra \<Rightarrow> byte \<Rightarrow> byte list \<Rightarrow> u32 \<Rightarrow> byte list \<Rightarrow> bgp_attr \<Rightarrow>
    rib_route list \<Rightarrow> rib_route list" where
  "install bms peer extra safi rd path_id label v bk =
     (case route_hit bms peer extra safi rd path_id bk of
        Some k \<Rightarrow> if r_attr (bk ! k) = Some v then bk
                  else bk[k := announced bms peer extra safi path_id rd label ((bk ! k)\<lparr>r_attr := Some v\<rparr>)]
      | None \<Rightarrow> announced bms peer extra safi path_id rd label
                  \<lparr>r_peer = pe_self peer, r_attr = Some v, r_extra = None\<rparr> # bk)"

definition uninstall :: "bgp_daemon \<Rightarrow> bgp_peer \<Rightarrow> bgp_msg_extra \<Rightarrow> byte \<Rightarrow> byte list \<Rightarrow> u32 \<Rightarrow> rib_route list \<Rightarrow> rib_route list" where
  "uninstall bms peer extra safi rd path_id bk =
     (case route_hit bms peer extra safi rd path_id bk of Some k \<Rightarrow> remove_nth k bk | None \<Rightarrow> bk)"

lemma info_find_map: "info_find P (map f xs) = info_find (\<lambda>x. P (f x)) xs"
  by (induction xs) simp_all

lemma info_find_SomeD: "info_find P xs = Some k \<Longrightarrow> k < length xs \<and> P (xs ! k)"
  by (induction xs arbitrary: k) (auto split: if_splits)

lemma info_of_route [simp]: "info_of (route_of R i) = i\<lparr>i_attr := None\<rparr>"
  by (simp add: info_of_def route_of_def)

lemma same_route_attr [simp]:
  "same_route bms peer extra safi rd path_id (i\<lparr>i_attr := x\<rparr>) = same_route bms peer extra safi rd path_id i"
  by (simp add: same_route_def)

lemma route_hit_map:
  "route_hit bms peer extra safi rd path_id (map (route_of R) bk) = info_find (same_route bms peer extra safi rd path_id) bk"
  by (simp add: route_hit_def info_find_map)

lemma extra_get_sel:
  "i_peer (bgp_info_extra_get peer i) = i_peer i" "i_attr (bgp_info_extra_get peer i) = i_attr i"
  "bgp_info_extra_get peer (i\<lparr>i_attr := x\<rparr>) = (bgp_info_extra_get peer i)\<lparr>i_attr := x\<rparr>"
  by (simp_all add: bgp_info_extra_get_def)

lemma upd_extra_sel:
  "i_peer (upd_extra f i) = i_peer i" "i_attr (upd_extra f i) = i_attr i"
  "upd_extra f (i\<lparr>i_attr := x\<rparr>) = (upd_extra f i)\<lparr>i_attr := x\<rparr>"
  by (simp_all add: upd_extra_def)

lemma extra_process_sel:
  "i_peer (bgp_info_extra_process peer i safi path_id rd label) = i_peer i"
  "i_attr (bgp_info_extra_process peer i safi path_id rd label) = i_attr i"
  "bgp_info_extra_process peer (i\<lparr>i_attr := x\<rparr>) safi path_id rd label =
     (bgp_info_extra_process peer i safi path_id rd label)\<lparr>i_attr := x\<rparr>"
proof -
  define A where "A \<longleftrightarrow> safi = SAFI_MPLS_LABEL \<or> safi = SAFI_MPLS_VPN"
  define B where "B \<longleftrightarrow> pe_cap_add_paths peer \<and> path_id \<noteq> 0"
  note d = bgp_info_extra_process_def Let_def A_def [symmetric] B_def [symmetric]
  show "i_peer (bgp_info_extra_process peer i safi path_id rd label) = i_peer i"
    "i_attr (bgp_info_extra_process peer i safi path_id rd label) = i_attr i"
    unfolding d by (cases A; cases B; simp add: upd_extra_sel extra_get_sel)+
  show "bgp_info_extra_process peer (i\<lparr>i_attr := x\<rparr>) safi path_id rd label =
     (bgp_info_extra_process peer i safi path_id rd label)\<lparr>i_attr := x\<rparr>"
    unfolding d by (cases A; cases B; simp add: upd_extra_sel extra_get_sel)
qed

lemma announce_attr [simp]:
  "i_peer (announce bms peer extra safi path_id rd label i) = i_peer i"
  "i_attr (announce bms peer extra safi path_id rd label i) = i_attr i"
  "announce bms peer extra safi path_id rd label (i\<lparr>i_attr := x\<rparr>) =
     (announce bms peer extra safi path_id rd label i)\<lparr>i_attr := x\<rparr>"
  by (simp_all add: announce_def extra_data_process_def bgp_extra_data_process_bmp_def extra_process_sel
      upd_extra_sel extra_get_sel)

lemma route_of_announce:
  "route_of R (announce bms peer extra safi path_id rd label i) = announced bms peer extra safi path_id rd label (route_of R i)"
  by (simp add: announced_def) (simp add: route_of_def)

section \<open>Counting routes\<close>

definition rib_count :: "bgp_db \<Rightarrow> (bgp_info \<Rightarrow> bool) \<Rightarrow> nat" where
  "rib_count d P = (\<Sum>k \<in> UNIV. table_count (rib d (fst k) (snd k)) P)"

abbreviation count :: "('i \<Rightarrow> bool) \<Rightarrow> 'i list \<Rightarrow> nat" where
  "count P xs \<equiv> length (filter P xs)"

lemma rib_put [simp]:
  "rib (put_rib d afi safi T) afi' safi' = (if afi' = afi \<and> safi' = safi then T else rib d afi' safi')"
  "db_rt (put_rib d afi safi T) = db_rt d" "peer_locks (put_rib d afi safi T) = peer_locks d"
  "msg_log (put_rib d afi safi T) = msg_log d"
  by (simp_all add: put_rib_def)

lemma rib_count_put:
  "rib_count (put_rib d afi safi T) P + table_count (rib d afi safi) P = rib_count d P + table_count T P"
proof -
  let ?k = "(afi, safi)"
  have f: "finite (UNIV :: (u16 \<times> byte) set)" by simp
  have "(\<Sum>k \<in> UNIV - {?k}. table_count (rib (put_rib d afi safi T) (fst k) (snd k)) P) =
      (\<Sum>k \<in> UNIV - {?k}. table_count (rib d (fst k) (snd k)) P)"
    by (intro sum.cong) (auto simp: prod_eq_iff)
  then show ?thesis
    unfolding rib_count_def using sum.remove [OF f, of ?k] by (simp add: sum.remove [OF f UNIV_I, of _ ?k])
qed

lemma rib_count_rib: "rib d = rib d' \<Longrightarrow> rib_count d P = rib_count d' P"
  by (simp add: rib_count_def)

lemma rib_count_step:
  assumes "table_count T' P + count P olds = table_count (rib d afi safi) P + count P news" "rib d' = rib (put_rib d afi safi T')"
  shows "rib_count d' P + count P olds = rib_count d P + count P news"
  using rib_count_put [of d afi safi T' P] assms(1) rib_count_rib [OF assms(2), of P] by simp

lemma rib_count_le: "table_count (rib d afi safi) P \<le> rib_count d P"
  unfolding rib_count_def
  using member_le_sum [of "(afi, safi)" UNIV "\<lambda>k. table_count (rib d (fst k) (snd k)) P"] by simp

lemma rib_count_True: "rib_count d P \<le> rib_count d (\<lambda>_. True)"
  unfolding rib_count_def table_count_def by (intro sum_mono) (simp add: le_trans [OF length_filter_le])

section \<open>The invariant\<close>

definition afi_family :: "u16 \<Rightarrow> byte" where
  "afi_family afi = (if afi = AFI_IP then AF_INET else AF_INET6)"

definition rib_nb :: "bgp_daemon \<Rightarrow> nat" where
  "rib_nb bms = table_peer_buckets bms * table_per_peer_buckets bms"

definition tables_ok :: "bgp_daemon \<Rightarrow> bgp_db \<Rightarrow> bool" where
  "tables_ok bms d \<longleftrightarrow>
     (\<forall>afi safi. tbl_ok (afi_family afi) (rib_nb bms) (rib d afi safi) \<and> locks_ok (rib d afi safi) (\<lambda>_. 0))"

definition counts_ok :: "bgp_db \<Rightarrow> bool" where
  "counts_ok d \<longleftrightarrow> (\<forall>x. attr_refs (db_rt d) x = rib_count d (\<lambda>i. i_attr i = Some x)) \<and>
     rib_count d (\<lambda>i. i_attr i = None) = 0 \<and> (\<forall>p. peer_locks d p = int (rib_count d (\<lambda>i. i_peer i = p)))"

definition db_ok :: "bgp_daemon \<Rightarrow> bgp_attr list \<Rightarrow> bgp_db \<Rightarrow> bool" where
  "db_ok bms H d \<longleftrightarrow> rt_ok (db_rt d) H \<and> tables_ok bms d \<and> counts_ok d"

text \<open>Room for one more route in counters of 32 bits.\<close>

definition db_room :: "bgp_attr list \<Rightarrow> bgp_db \<Rightarrow> bool" where
  "db_room H d \<longleftrightarrow> rib_count d (\<lambda>_. True) + length H + 2 < 2 ^ 32"

lemma db_okD:
  assumes "db_ok bms H d"
  shows "rt_ok (db_rt d) H" "tbl_ok (afi_family afi) (rib_nb bms) (rib d afi safi)"
    "locks_ok (rib d afi safi) (\<lambda>_. 0)" "attr_refs (db_rt d) x = rib_count d (\<lambda>i. i_attr i = Some x)"
    "rib_count d (\<lambda>i. i_attr i = None) = 0" "peer_locks d p = int (rib_count d (\<lambda>i. i_peer i = p))"
  using assms by (simp_all add: db_ok_def tables_ok_def counts_ok_def)

lemma db_table_inv: "db_ok bms H d \<Longrightarrow> table_inv (afi_family afi) (rib d afi safi)"
  using db_okD(2) tbl_okD(1) by blast

lemma sum_count_le: "finite S \<Longrightarrow> (\<Sum>x \<in> S. count (\<lambda>i. g i = Some x) xs) \<le> length xs"
proof (induction xs)
  case (Cons i xs)
  have "(\<Sum>x \<in> S. count (\<lambda>i. g i = Some x) (i # xs)) =
      (\<Sum>x \<in> S. (if g i = Some x then 1 else 0)) + (\<Sum>x \<in> S. count (\<lambda>i. g i = Some x) xs)"
    by (simp add: sum.distrib [symmetric]) (intro sum.cong, auto)
  moreover have "(\<Sum>x \<in> S. (if g i = Some x then 1 else 0)) \<le> (1 :: nat)"
    using Cons.prems by (cases "g i") (simp_all add: sum.delta)
  ultimately show ?case using Cons by simp
qed simp

lemma sum_refs_le: "finite S \<Longrightarrow> (\<Sum>x \<in> S. rib_count d (\<lambda>i. i_attr i = Some x)) \<le> rib_count d (\<lambda>_. True)"
  unfolding rib_count_def table_count_def
  by (subst sum.swap, rule sum_mono, subst sum.swap, rule sum_mono) (simp add: sum_count_le)

lemma held_le: "held sel H c \<le> length H"
  by (simp add: held_def)

text \<open>All counters are bounded by the number of routes.\<close>

lemma db_room_refs:
  assumes ok: "db_ok bms H d" and room: "db_room H d"
  shows "refs_room (db_rt d)"
proof -
  let ?n = "rib_count d (\<lambda>_. True)"
  have bal: "balanced (db_rt d) H" using db_okD(1) [OF ok] by (simp add: rt_ok_def)
  have "part_refs sel (db_rt d) c \<le> (\<Sum>a \<in> hash_data (attrhash (db_rt d)). attr_refs (db_rt d) a)" for sel c
    unfolding part_refs_def by (intro sum_mono) simp
  then have part: "part_refs sel (db_rt d) c \<le> ?n" for sel c
    using le_trans [OF _ sum_refs_le [of "hash_data (attrhash (db_rt d))" d]] db_okD(4) [OF ok] by simp
  have attr: "attr_refs (db_rt d) a \<le> ?n" for a using db_okD(4) [OF ok] rib_count_True by simp
  have n: "?n + length H + 2 < 2 ^ 32" using room by (simp add: db_room_def)
  have "Suc (part_refs sel (db_rt d) c + held sel H c) < 2 ^ 64" for sel c
    using part [of sel c] held_le [of sel H c] n by simp
  moreover have "Suc (attr_refs (db_rt d) a) < 2 ^ 64" for a using attr [of a] n by simp
  ultimately show ?thesis using bal by (simp add: refs_room_def balanced_def)
qed

lemma db_room_lock:
  assumes ok: "db_ok bms H d" and room: "db_room H d"
  shows "length (concat (info_at (rib d afi safi) x)) + 2 < 2 ^ 32"
proof -
  have "length (concat (info_at (rib d afi safi) x)) \<le> rib_count d (\<lambda>_. True)"
    using count_at_le [OF table_inv_dom(1) [OF db_table_inv [OF ok]]] rib_count_le le_trans by metis
  then show ?thesis using room by (simp add: db_room_def)
qed

text \<open>One table changes by taking out the routes \<open>olds\<close> and putting in \<open>news\<close>.\<close>

lemma db_step:
  assumes ok: "db_ok bms H d" and T': "tbl_ok (afi_family afi) (rib_nb bms) T'" "locks_ok T' (\<lambda>_. 0)"
    and cnt: "\<And>P. table_count T' P + count P olds = table_count (rib d afi safi) P + count P news"
    and R': "rt_ok (db_rt d') H" "\<And>x. attr_refs (db_rt d') x + count (\<lambda>i. i_attr i = Some x) olds =
      attr_refs (db_rt d) x + count (\<lambda>i. i_attr i = Some x) news"
    and pl: "\<And>p. peer_locks d' p + int (count (\<lambda>i. i_peer i = p) olds) = peer_locks d p + int (count (\<lambda>i. i_peer i = p) news)"
    and some: "\<forall>i \<in> set news. i_attr i \<noteq> None" and d': "rib d' = rib (put_rib d afi safi T')"
  shows "db_ok bms H d'"
proof -
  have r: "rib_count d' P + count P olds = rib_count d P + count P news" for P
    using rib_count_step [OF cnt d'] .
  have "count (\<lambda>i. i_attr i = None) news = 0" using some by simp
  then have "rib_count d' (\<lambda>i. i_attr i = None) = 0" using r [of "\<lambda>i. i_attr i = None"] db_okD(5) [OF ok] by simp
  moreover have "attr_refs (db_rt d') x = rib_count d' (\<lambda>i. i_attr i = Some x)" for x
    using r [of "\<lambda>i. i_attr i = Some x"] R'(2) [of x] db_okD(4) [OF ok, of x] by simp
  moreover have "peer_locks d' p = int (rib_count d' (\<lambda>i. i_peer i = p))" for p
    using r [of "\<lambda>i. i_peer i = p"] pl [of p] db_okD(6) [OF ok, of p] by simp
  ultimately have "counts_ok d'" by (simp add: counts_ok_def)
  moreover have "tables_ok bms d'"
    using db_okD(2,3) [OF ok] T' by (simp add: tables_ok_def d')
  ultimately show ?thesis using R'(1) by (simp add: db_ok_def)
qed

lemma bucket_mem_count:
  assumes inv: "table_inv f T" and i: "i \<in> set (table_bucket T q m)" "P i"
  shows "0 < table_count T P"
proof -
  obtain a where a: "find_node T q = Some a" "i \<in> set (nth_bucket (info_at T a) m)"
    using i(1) by (cases "find_node T q") (auto simp: table_bucket_def)
  then have m: "m < length (info_at T a)" "i \<in> set (info_at T a ! m)" by (auto simp: nth_bucket_def split: if_splits)
  then have "i \<in> set (concat (info_at T a))" by auto
  then have pos: "0 < count P (concat (info_at T a))" using i(2) by (force simp: filter_empty_conv)
  have "a \<in> dom (t_nodes T)" using m(1) by (auto simp: info_at_def split: option.splits)
  then have "count P (concat (info_at T a)) \<le> table_count T P"
    unfolding table_count_def using member_le_sum [of a "dom (t_nodes T)" "\<lambda>x. count P (concat (info_at T x))"]
      table_inv_dom(1) [OF inv] by simp
  with pos show ?thesis by linarith
qed

lemma route_ref:
  assumes ok: "db_ok bms H d" and i: "i \<in> set (table_bucket (rib d afi safi) q m)"
  obtains x where "i_attr i = Some x" "0 < attr_refs (db_rt d) x"
proof -
  note pos = bucket_mem_count [OF db_table_inv [OF ok] i]
  have "i_attr i \<noteq> None"
    using pos [of "\<lambda>i. i_attr i = None"] rib_count_le [of d afi safi "\<lambda>i. i_attr i = None"] db_okD(5) [OF ok] by auto
  then obtain x where x: "i_attr i = Some x" by auto
  have "0 < attr_refs (db_rt d) x"
    using pos [of "\<lambda>i. i_attr i = Some x"] rib_count_le [of d afi safi "\<lambda>i. i_attr i = Some x"] x db_okD(4) [OF ok, of x] by simp
  with x show ?thesis by (rule that)
qed

lemma route_of_keep:
  assumes "attrs_keep R R'" "i_attr i = Some x" "0 < attr_refs R x" "0 < attr_refs R' x"
  shows "route_of R' i = route_of R i"
  using attrs_keepD [OF assms(1,3,4)] assms(2) by (simp add: route_of_def)

lemma routes_keep:
  assumes ok: "db_ok bms H d" "db_ok bms H d'" and keep: "attrs_keep (db_rt d) (db_rt d')"
    and i: "i \<in> set (table_bucket (rib d afi safi) q m)" "i \<in> set (table_bucket (rib d' afi' safi') q' m')"
  shows "route_of (db_rt d') i = route_of (db_rt d) i"
  using route_ref [OF ok(1) i(1)] route_ref [OF ok(2) i(2)] route_of_keep [OF keep] by (metis option.inject)

text \<open>Every other bucket is left alone.\<close>

lemma db_bucket_step:
  assumes ok: "db_ok bms H d" "db_ok bms H d'" and keep: "attrs_keep (db_rt d) (db_rt d')"
    and d': "rib d' = rib (put_rib d afi safi T')"
    and T': "\<And>q m'. table_bucket T' q m' = (if q = q0 \<and> m' = m then bk' else table_bucket (rib d afi safi) q m')"
    and bk': "map (route_of (db_rt d')) bk' = new"
  shows "db_bucket d' afi' safi' q m' =
    (if afi' = afi \<and> safi' = safi \<and> q = q0 \<and> m' = m then new else db_bucket d afi' safi' q m')"
proof (cases "afi' = afi \<and> safi' = safi \<and> q = q0 \<and> m' = m")
  case True
  then show ?thesis using T' bk' by (simp add: db_bucket_def d')
next
  case False
  then have same: "table_bucket (rib d' afi' safi') q m' = table_bucket (rib d afi' safi') q m'"
    using T' [of q m'] by (auto simp: d')
  have "map (route_of (db_rt d')) (table_bucket (rib d afi' safi') q m') =
      map (route_of (db_rt d)) (table_bucket (rib d afi' safi') q m')"
    using routes_keep [OF ok keep, of _ afi' safi' q m' afi' safi' q m'] same by (intro map_cong) simp_all
  then show ?thesis using False same by (auto simp: db_bucket_def)
qed

section \<open>Announcing a route\<close>

lemma attrs_keep_trans:
  assumes "attrs_keep R R1" "attrs_keep R1 R2" "\<And>a. 0 < attr_refs R a \<Longrightarrow> 0 < attr_refs R1 a"
  shows "attrs_keep R R2"
  unfolding attrs_keep_def
proof (intro allI impI)
  fix a assume a: "0 < attr_refs R a" "0 < attr_refs R2 a"
  show "map_option attr_val (attrs R2 a) = map_option attr_val (attrs R a)"
    using attrs_keepD [OF assms(1) a(1) assms(3) [OF a(1)]] attrs_keepD [OF assms(2) assms(3) [OF a(1)] a(2)] by simp
qed

text \<open>The state once the node \<open>a\<close> of the prefix is held and, for an announcement, the attribute
  \<open>v\<close> is interned at \<open>f\<close>.\<close>

definition node_held :: "bgp_daemon \<Rightarrow> bgp_attr list \<Rightarrow> bgp_db \<Rightarrow> u16 \<Rightarrow> byte \<Rightarrow> addr \<Rightarrow> bgp_info bgp_node \<Rightarrow> nat \<Rightarrow>
    bgp_info bgp_table \<Rightarrow> bool" where
  "node_held bms H d afi safi a nd m T1 \<longleftrightarrow> db_ok bms H d \<and> db_room H d \<and>
     tbl_ok (afi_family afi) (rib_nb bms) T1 \<and> same_routes (rib d afi safi) T1 \<and> locks_ok T1 ((\<lambda>_. 0)(a := 1)) \<and>
     t_nodes T1 a = Some nd \<and> m < rib_nb bms"

definition attr_held :: "bgp_attr list \<Rightarrow> bgp_db \<Rightarrow> bgp_rt \<Rightarrow> addr \<Rightarrow> bgp_attr \<Rightarrow> bool" where
  "attr_held H d R1 f v \<longleftrightarrow> rt_ok R1 H \<and> attrs_keep (db_rt d) R1 \<and>
     attr_refs R1 = (attr_refs (db_rt d))(f := Suc (attr_refs (db_rt d) f)) \<and> map_option attr_val (attrs R1 f) = Some v"

lemma node_heldD:
  assumes "node_held bms H d afi safi a nd m T1"
  shows "db_ok bms H d" "db_room H d" "tbl_ok (afi_family afi) (rib_nb bms) T1" "same_routes (rib d afi safi) T1"
    "locks_ok T1 ((\<lambda>_. 0)(a := 1))" "t_nodes T1 a = Some nd" "m < rib_nb bms" "m < length (n_info nd)"
    "table_inv (afi_family afi) T1"
    "table_bucket T1 q m' = table_bucket (rib d afi safi) q m'"
    "table_bucket (rib d afi safi) (pfx_bits (n_p nd)) m = n_info nd ! m"
    "table_count T1 P = table_count (rib d afi safi) P"
    "lock_at T1 a \<noteq> 0" "Suc (unat (lock_at T1 a)) < 2 ^ 32"
proof -
  show h: "db_ok bms H d" "db_room H d" "tbl_ok (afi_family afi) (rib_nb bms) T1" "same_routes (rib d afi safi) T1"
    "locks_ok T1 ((\<lambda>_. 0)(a := 1))" "t_nodes T1 a = Some nd" "m < rib_nb bms"
    using assms by (simp_all add: node_held_def)
  show inv: "table_inv (afi_family afi) T1" using tbl_okD(1) [OF h(3)] .
  show len: "m < length (n_info nd)" using tbl_okD(3) [OF h(3,6)] h(7) by simp
  show b: "table_bucket T1 q m' = table_bucket (rib d afi safi) q m'" for q m'
    using same_routes_bucket [OF db_table_inv [OF h(1)] inv h(4)] .
  show "table_bucket (rib d afi safi) (pfx_bits (n_p nd)) m = n_info nd ! m"
    using b table_bucket_node [OF inv h(6), of m] len by (simp add: nth_bucket_def)
  show "table_count T1 P = table_count (rib d afi safi) P"
    using same_routes_count [OF db_table_inv [OF h(1)] inv h(4)] .
  have l: "unat (lock_at T1 a) = length (concat (info_at T1 a)) + 1" using h(5) by (simp add: locks_ok_def)
  then show "lock_at T1 a \<noteq> 0" by auto
  show "Suc (unat (lock_at T1 a)) < 2 ^ 32"
    using l db_room_lock [OF h(1,2), of afi safi a] same_routes_concat [OF h(4), of a] by simp
qed

lemma attr_heldD:
  assumes "attr_held H d R1 f v"
  shows "rt_ok R1 H" "attrs_keep (db_rt d) R1" "attr_refs R1 = (attr_refs (db_rt d))(f := Suc (attr_refs (db_rt d) f))"
    "map_option attr_val (attrs R1 f) = Some v" "0 < attr_refs (db_rt d) x \<Longrightarrow> 0 < attr_refs R1 x"
  using assms by (auto simp: attr_held_def)

text \<open>The route of a bucket of a held node, with its attribute alive.\<close>

lemma held_route:
  assumes n: "node_held bms H d afi safi a nd m T1" and k: "k < length (n_info nd ! m)"
  obtains x where "i_attr (n_info nd ! m ! k) = Some x" "0 < attr_refs (db_rt d) x"
  using route_ref [OF node_heldD(1) [OF n], of "n_info nd ! m ! k" afi safi "pfx_bits (n_p nd)" m] k
  by (simp add: node_heldD(11) [OF n]) metis

text \<open>The same information again.\<close>

lemma update_node_same:
  assumes n: "node_held bms H d afi safi a nd m T1" and f: "attr_held H d R1 f v"
    and peer: "routing_db (ptype peer)" "misc_db (ptype peer)"
    and k: "k < length (n_info nd ! m)" "r_attr (route_of (db_rt d) (n_info nd ! m ! k)) = Some v"
  shows "\<exists>d2. update_node bms peer extra (put_rib (d\<lparr>db_rt := R1\<rparr>) afi safi T1) afi safi a m (n_info nd ! m) (Some k) f rd path_id label
       = Inr (n_info nd ! m ! k, d2) \<and> db_ok bms H d2 \<and> msg_log d2 = msg_log d \<and>
     (\<forall>afi' safi' q m'. db_bucket d2 afi' safi' q m' = db_bucket d afi' safi' q m') \<and>
     same_routes T1 (rib d2 afi safi) \<and> rib_count d2 (\<lambda>_. True) = rib_count d (\<lambda>_. True)"
proof -
  note N = node_heldD [OF n] and F = attr_heldD [OF f]
  obtain x where x: "i_attr (n_info nd ! m ! k) = Some x" "0 < attr_refs (db_rt d) x" using held_route [OF n k(1)] .
  obtain tx where tx: "attrs R1 x = Some tx" using attr_refs_obj [OF F(5) [OF x(2)]] by metis
  obtain ty where ty: "attrs R1 f = Some ty" "attr_val ty = v" using F(4) by auto
  have "map_option attr_val (attrs (db_rt d) x) = Some v"
    using k(2) x(1) by (simp add: route_of_def del: map_option_eq_Some)
  then have "attr_val tx = v" using attrs_keepD [OF F(2) x(2) F(5) [OF x(2)]] tx by (simp del: map_option_eq_Some)
  then have cmp: "attrhash_cmp tx ty" using ty(2) by (simp add: attrhash_cmp_val)
  obtain T2 where T2: "bgp_unlock_node T1 a = Inr T2" "tbl_ok (afi_family afi) (rib_nb bms) T2" "same_routes T1 T2"
      "locks_ok T2 (((\<lambda>_. 0)(a := 1))(a := ((\<lambda>_. 0)(a := 1)) a - 1))"
    using unlock_ok [OF N(3,5), of a] by auto
  have lk: "locks_ok T2 (\<lambda>_. 0)" using T2(4) by (simp add: fun_upd_idem)
  obtain R2 where R2: "bgp_attr_unintern (ptype peer) R1 f = Inr R2" "rt_ok R2 H" "attrs_keep R1 R2"
      "attr_refs R2 = (attr_refs R1)(f := attr_refs R1 f - 1)"
    using bgp_attr_unintern_ok [OF F(1) peer, of f] F(3) by auto
  have refs: "attr_refs R2 = attr_refs (db_rt d)" by (simp add: R2(4) F(3))
  define d2 where "d2 = put_rib ((put_rib (d\<lparr>db_rt := R1\<rparr>) afi safi T1)\<lparr>db_rt := R2\<rparr>) afi safi T2"
  have d2: "rib d2 = rib (put_rib d afi safi T2)" "db_rt d2 = R2" "peer_locks d2 = peer_locks d" "msg_log d2 = msg_log d"
    by (simp_all add: d2_def put_rib_def fun_eq_iff)
  have run: "update_node bms peer extra (put_rib (d\<lparr>db_rt := R1\<rparr>) afi safi T1) afi safi a m (n_info nd ! m) (Some k) f rd path_id label
       = Inr (n_info nd ! m ! k, d2)"
    using x(1) tx ty(1) cmp T2(1) R2(1) by (simp add: update_node_def deref_def d2_def)
  have inv2: "table_inv (afi_family afi) T2" using tbl_okD(1) [OF T2(2)] .
  have cnt: "table_count T2 P = table_count (rib d afi safi) P" for P
    using same_routes_count [OF N(9) inv2 T2(3)] N(12) by simp
  have ok2: "db_ok bms H d2"
    by (rule db_step [where olds = "[]" and news = "[]", OF N(1) T2(2) lk]) (simp_all add: cnt d2 R2(2) refs)
  have keep: "attrs_keep (db_rt d) (db_rt d2)"
    using attrs_keep_trans [OF F(2) R2(3) F(5)] by (simp add: d2(2))
  have "map (route_of (db_rt d2)) (n_info nd ! m) = db_bucket d afi safi (pfx_bits (n_p nd)) m"
  proof -
    have "table_bucket (rib d2 afi safi) (pfx_bits (n_p nd)) m = n_info nd ! m"
      using same_routes_bucket [OF N(9) inv2 T2(3)] N(10,11) by (simp add: d2(1))
    then show ?thesis
      using routes_keep [OF N(1) ok2 keep, of _ afi safi "pfx_bits (n_p nd)" m afi safi "pfx_bits (n_p nd)" m]
      by (simp add: db_bucket_def N(11))
  qed
  then have "db_bucket d2 afi' safi' q m' = db_bucket d afi' safi' q m'" for afi' safi' q m'
    using db_bucket_step [OF N(1) ok2 keep d2(1), of "pfx_bits (n_p nd)" m "n_info nd ! m"]
      same_routes_bucket [OF N(9) inv2 T2(3)] N(10,11) by auto
  moreover have "rib_count d2 (\<lambda>_. True) = rib_count d (\<lambda>_. True)"
    using rib_count_step [of T2 "\<lambda>_. True" "[]" d afi safi "[]" d2] cnt d2(1) by simp
  ultimately show ?thesis using run ok2 d2(4) T2(3) by (auto simp: d2(1))
qed

lemma put_bucket_eq: "t_nodes T a = Some nd \<Longrightarrow> put_bucket T a m bk = Inr (set_bucket T a m bk)"
  by (simp add: put_bucket_def get_node_def set_bucket_def)

lemma set_bucket_nodes:
  "t_nodes T a = Some nd \<Longrightarrow> t_nodes (set_bucket T a m bk) a = Some (nd\<lparr>n_info := (n_info nd)[m := bk]\<rparr>)"
  by (simp add: set_bucket_def put_node_def)

lemma count_update: "k < length xs \<Longrightarrow> count P (xs[k := x]) + count P [xs ! k] = count P xs + count P [x]"
proof (induction xs arbitrary: k)
  case (Cons y ys)
  then show ?case by (cases k) auto
qed simp

text \<open>The held node after its bucket was replaced and the hold released.\<close>

lemma replace_and_release:
  assumes n: "node_held bms H d afi safi a nd m T1" and T2: "tbl_ok (afi_family afi) (rib_nb bms) T2"
    "same_routes (set_bucket T1 a m bk') T2"
  shows "table_bucket T2 q m' = (if q = pfx_bits (n_p nd) \<and> m' = m then bk' else table_bucket (rib d afi safi) q m')"
    "table_count T2 P + count P (n_info nd ! m) = table_count (rib d afi safi) P + count P bk'"
proof -
  note N = node_heldD [OF n]
  have ok: "tbl_ok (afi_family afi) (rib_nb bms) (set_bucket T1 a m bk')" using set_bucket_ok [OF N(3,13)] .
  note inv = tbl_okD(1) [OF ok] tbl_okD(1) [OF T2(1)]
  show "table_bucket T2 q m' = (if q = pfx_bits (n_p nd) \<and> m' = m then bk' else table_bucket (rib d afi safi) q m')"
    using set_bucket_bucket [OF N(3) ok N(6,7), of q m'] same_routes_bucket [OF inv T2(2)] N(10) by simp
  show "table_count T2 P + count P (n_info nd ! m) = table_count (rib d afi safi) P + count P bk'"
    using set_bucket_count [OF N(3,6,7)] same_routes_count [OF inv T2(2)] N(12) by simp
qed

lemma update_node_change:
  fixes extra :: bgp_msg_extra and path_id :: u32 and rd label :: "byte list"
  assumes n: "node_held bms H d afi safi a nd m T1" and f: "attr_held H d R1 f v"
    and peer: "routing_db (ptype peer)" "misc_db (ptype peer)"
    and k: "k < length (n_info nd ! m)" "r_attr (route_of (db_rt d) (n_info nd ! m ! k)) \<noteq> Some v"
  defines "bk \<equiv> n_info nd ! m"
  defines "new \<equiv> announced bms peer extra safi path_id rd label ((route_of (db_rt d) (bk ! k))\<lparr>r_attr := Some v\<rparr>)"
  shows "\<exists>ri d2. update_node bms peer extra (put_rib (d\<lparr>db_rt := R1\<rparr>) afi safi T1) afi safi a m bk (Some k) f rd path_id label
       = Inr (ri, d2) \<and> db_ok bms H d2 \<and> msg_log d2 = msg_log d \<and>
     (\<forall>afi' safi' q m'. db_bucket d2 afi' safi' q m' =
        (if afi' = afi \<and> safi' = safi \<and> q = pfx_bits (n_p nd) \<and> m' = m
         then (db_bucket d afi safi (pfx_bits (n_p nd)) m)[k := new] else db_bucket d afi' safi' q m')) \<and>
     (\<exists>nd'. t_nodes (rib d2 afi safi) a = Some nd' \<and> n_p nd' = n_p nd) \<and>
     rib_count d2 (\<lambda>_. True) = rib_count d (\<lambda>_. True)"
proof -
  note N = node_heldD [OF n] and F = attr_heldD [OF f]
  have kb: "k < length bk" using k(1) by (simp add: bk_def)
  obtain x where x: "i_attr (bk ! k) = Some x" "0 < attr_refs (db_rt d) x" using held_route [OF n k(1)] by (auto simp: bk_def)
  obtain tx where tx: "attrs R1 x = Some tx" using attr_refs_obj [OF F(5) [OF x(2)]] by metis
  obtain ty where ty: "attrs R1 f = Some ty" "attr_val ty = v" using F(4) by auto
  have "map_option attr_val (attrs (db_rt d) x) \<noteq> Some v"
    using k(2) x(1) by (simp add: route_of_def bk_def del: map_option_eq_Some)
  then have "map_option attr_val (attrs R1 x) \<noteq> Some v"
    unfolding attrs_keepD [OF F(2) x(2) F(5) [OF x(2)]] .
  then have "attr_val tx \<noteq> v" by (simp add: tx)
  then have cmp: "\<not> attrhash_cmp tx ty" using ty(2) by (simp add: attrhash_cmp_val)
  obtain R2 where R2: "bgp_attr_unintern (ptype peer) R1 x = Inr R2" "rt_ok R2 H" "attrs_keep R1 R2"
      "attr_refs R2 = (attr_refs R1)(x := attr_refs R1 x - 1)"
    using bgp_attr_unintern_ok [OF F(1) peer F(5) [OF x(2)]] .
  define ri where "ri = announce bms peer extra safi path_id rd label ((bk ! k)\<lparr>i_attr := Some f\<rparr>)"
  define bk' where "bk' = bk[k := ri]"
  define S where "S = set_bucket T1 a m bk'"
  have okS: "tbl_ok (afi_family afi) (rib_nb bms) S" unfolding S_def using set_bucket_ok [OF N(3,13)] .
  have "locks_ok S (((\<lambda>_. 0)(a := 1))(a := 1))"
    unfolding S_def by (rule set_bucket_locks [OF N(3,5,6,7)]) (simp add: bk'_def bk_def)
  then have lkS: "locks_ok S ((\<lambda>_. 0)(a := 1))" by simp
  obtain T2 where T2: "bgp_unlock_node S a = Inr T2" "tbl_ok (afi_family afi) (rib_nb bms) T2" "same_routes S T2"
      "locks_ok T2 (((\<lambda>_. 0)(a := 1))(a := ((\<lambda>_. 0)(a := 1)) a - 1))"
    using unlock_ok [OF okS lkS, of a] by auto
  have lk: "locks_ok T2 (\<lambda>_. 0)" using T2(4) by (simp add: fun_upd_idem)
  note rr = replace_and_release [OF n T2(2) T2(3) [unfolded S_def]]
  define d2 where "d2 = put_rib ((put_rib (d\<lparr>db_rt := R1\<rparr>) afi safi T1)\<lparr>db_rt := R2\<rparr>) afi safi T2"
  have d2: "rib d2 = rib (put_rib d afi safi T2)" "db_rt d2 = R2" "peer_locks d2 = peer_locks d" "msg_log d2 = msg_log d"
    by (simp_all add: d2_def put_rib_def fun_eq_iff)
  have run: "update_node bms peer extra (put_rib (d\<lparr>db_rt := R1\<rparr>) afi safi T1) afi safi a m bk (Some k) f rd path_id label = Inr (ri, d2)"
    using x(1) tx ty(1) cmp R2(1) T2(1) put_bucket_eq [OF N(6)]
    by (simp add: update_node_def deref_def Let_def ri_def [symmetric] bk'_def [symmetric] S_def [symmetric] d2_def
        del: announce_attr)
  have ria: "i_attr ri = Some f" "i_peer ri = i_peer (bk ! k)" by (simp_all add: ri_def)
  have mem: "bk ! k \<in> set (table_bucket (rib d afi safi) (pfx_bits (n_p nd)) m)" using kb N(11) by (simp add: bk_def)
  have cnt: "table_count T2 P + count P [bk ! k] = table_count (rib d afi safi) P + count P [ri]" for P
    using rr(2) [of P] count_update [OF kb, of P ri] by (simp add: bk_def [symmetric] bk'_def)
  have ok2: "db_ok bms H d2"
  proof (rule db_step [where olds = "[bk ! k]" and news = "[ri]", OF N(1) T2(2) lk cnt _ _ _ _ d2(1)])
    show "rt_ok (db_rt d2) H" using R2(2) by (simp add: d2)
    show "attr_refs (db_rt d2) y + count (\<lambda>i. i_attr i = Some y) [bk ! k] =
        attr_refs (db_rt d) y + count (\<lambda>i. i_attr i = Some y) [ri]" for y
      using x ria(1) by (auto simp: d2(2) R2(4) F(3))
    show "peer_locks d2 p + int (count (\<lambda>i. i_peer i = p) [bk ! k]) = peer_locks d p + int (count (\<lambda>i. i_peer i = p) [ri])" for p
      by (simp add: d2(3) ria(2))
  qed (simp add: ria)
  have keep: "attrs_keep (db_rt d) (db_rt d2)" using attrs_keep_trans [OF F(2) R2(3) F(5)] by (simp add: d2(2))
  have "0 < attr_refs R2 f" using x(2) by (auto simp: R2(4) F(3))
  then have fv: "map_option attr_val (attrs R2 f) = Some v"
    using attrs_keepD [OF R2(3), of f] F(3,4) by simp
  have "map (route_of (db_rt d2)) bk' = (map (route_of (db_rt d)) bk)[k := new]"
  proof (rule nth_equalityI)
    fix j assume "j < length (map (route_of (db_rt d2)) bk')"
    then have j: "j < length bk" by (simp add: bk'_def)
    show "map (route_of (db_rt d2)) bk' ! j = (map (route_of (db_rt d)) bk)[k := new] ! j"
    proof (cases "j = k")
      case True
      have "route_of R2 ((bk ! k)\<lparr>i_attr := Some f\<rparr>) = (route_of (db_rt d) (bk ! k))\<lparr>r_attr := Some v\<rparr>"
        using fv by (simp add: route_of_def del: map_option_eq_Some)
      then have "route_of R2 ri = new" unfolding ri_def route_of_announce new_def by simp
      then show ?thesis using True kb by (simp add: bk'_def d2(2))
    next
      case False
      have "bk ! j \<in> set bk'" using j False by (auto simp: bk'_def in_set_conv_nth intro!: exI [of _ j])
      then have "bk ! j \<in> set (table_bucket (rib d2 afi safi) (pfx_bits (n_p nd)) m)" by (simp add: d2(1) rr(1))
      moreover have "bk ! j \<in> set (table_bucket (rib d afi safi) (pfx_bits (n_p nd)) m)" using j N(11) by (simp add: bk_def)
      ultimately have "route_of (db_rt d2) (bk ! j) = route_of (db_rt d) (bk ! j)"
        by (intro routes_keep [OF N(1) ok2 keep])
      then show ?thesis using False j by (simp add: bk'_def)
    qed
  qed (simp add: bk'_def)
  then have "map (route_of (db_rt d2)) bk' = (db_bucket d afi safi (pfx_bits (n_p nd)) m)[k := new]"
    by (simp add: db_bucket_def N(11) bk_def)
  note b = db_bucket_step [OF N(1) ok2 keep d2(1) rr(1) this]
  have ne: "n_info (nd\<lparr>n_info := (n_info nd)[m := bk']\<rparr>) ! m \<noteq> []" "m < length (n_info (nd\<lparr>n_info := (n_info nd)[m := bk']\<rparr>))"
    using N(8) kb by (simp_all add: bk'_def) auto
  obtain nd' where "t_nodes T2 a = Some nd'" "n_p nd' = n_p (nd\<lparr>n_info := (n_info nd)[m := bk']\<rparr>)"
    using routes_node [OF T2(2) T2(3) [unfolded S_def] set_bucket_nodes [OF N(6)] ne] .
  moreover have "rib_count d2 (\<lambda>_. True) = rib_count d (\<lambda>_. True)"
    using rib_count_step [OF cnt d2(1), of "\<lambda>_. True"] by simp
  ultimately show ?thesis using run ok2 d2(4) b by (auto simp: d2(1))
qed

lemma same_routes_lock_trans:
  assumes "same_routes S S2" "same_routes S2 T2" "\<And>x. map_option n_p (t_nodes S2 x) = map_option n_p (t_nodes S x)"
  shows "same_routes S T2"
  unfolding same_routes_def
proof (intro conjI allI impI)
  show "info_at T2 x = info_at S x \<or> no_routes (info_at S x) \<and> no_routes (info_at T2 x)" for x
    using same_routesD(1) [OF assms(1), of x] same_routesD(1) [OF assms(2), of x] by auto
  fix x nd nd' assume a: "t_nodes S x = Some nd" "t_nodes T2 x = Some nd'"
  then obtain nd2 where "t_nodes S2 x = Some nd2" "n_p nd2 = n_p nd"
    using assms(3) [of x] by (cases "t_nodes S2 x") auto
  then show "n_p nd' = n_p nd" using same_routesD(2) [OF assms(2) _ a(2)] by simp
qed

lemma update_node_new:
  fixes peer :: bgp_peer and extra :: bgp_msg_extra and path_id :: u32 and rd label :: "byte list"
  assumes n: "node_held bms H d afi safi a nd m T1" and f: "attr_held H d R1 f v"
  defines "bk \<equiv> n_info nd ! m"
  defines "new \<equiv> announced bms peer extra safi path_id rd label \<lparr>r_peer = pe_self peer, r_attr = Some v, r_extra = None\<rparr>"
  shows "\<exists>ri d2. update_node bms peer extra (put_rib (d\<lparr>db_rt := R1\<rparr>) afi safi T1) afi safi a m bk None f rd path_id label
       = Inr (ri, d2) \<and> db_ok bms H d2 \<and> msg_log d2 = msg_log d \<and>
     (\<forall>afi' safi' q m'. db_bucket d2 afi' safi' q m' =
        (if afi' = afi \<and> safi' = safi \<and> q = pfx_bits (n_p nd) \<and> m' = m
         then new # db_bucket d afi safi (pfx_bits (n_p nd)) m else db_bucket d afi' safi' q m')) \<and>
     (\<exists>nd'. t_nodes (rib d2 afi safi) a = Some nd' \<and> n_p nd' = n_p nd) \<and>
     rib_count d2 (\<lambda>_. True) = Suc (rib_count d (\<lambda>_. True))"
proof -
  note N = node_heldD [OF n] and F = attr_heldD [OF f]
  define base where "base = \<lparr>i_peer = pe_self peer, i_attr = Some f, i_extra = None\<rparr>"
  have base: "(bgp_info_new peer)\<lparr>i_peer := pe_self peer, i_attr := Some f\<rparr> = base" by (simp add: bgp_info_new_def base_def)
  define ri where "ri = announce bms peer extra safi path_id rd label base"
  have ria: "i_attr ri = Some f" "i_peer ri = pe_self peer" by (simp_all add: ri_def base_def)
  define S where "S = set_bucket T1 a m (ri # bk)"
  have okS: "tbl_ok (afi_family afi) (rib_nb bms) S" unfolding S_def using set_bucket_ok [OF N(3,13)] .
  have "locks_ok S (((\<lambda>_. 0)(a := 1))(a := 0))"
    unfolding S_def by (rule set_bucket_locks [OF N(3,5,6,7)]) (simp add: bk_def)
  then have lkS: "locks_ok S (\<lambda>_. 0)" by (simp add: fun_upd_idem)
  have lS: "lock_at S a \<noteq> 0" "Suc (unat (lock_at S a)) < 2 ^ 32" using N(13,14) by (simp_all add: S_def)
  obtain S2 where S2: "bgp_lock_node S a = Inr S2" "tbl_ok (afi_family afi) (rib_nb bms) S2" "same_routes S S2"
      "lock_at S2 = (lock_at S)(a := lock_at S a + 1)" "\<forall>x. map_option n_p (t_nodes S2 x) = map_option n_p (t_nodes S x)"
    using lock_node_ok [OF okS lS] .
  have lkS2: "locks_ok S2 ((\<lambda>_. 0)(a := Suc 0))" using lock_node_locks_ok [OF lkS S2(3,4) lS(2)] .
  obtain T2 where T2: "bgp_unlock_node S2 a = Inr T2" "tbl_ok (afi_family afi) (rib_nb bms) T2" "same_routes S2 T2"
      "locks_ok T2 (((\<lambda>_. 0)(a := Suc 0))(a := ((\<lambda>_. 0)(a := Suc 0)) a - 1))"
    using unlock_ok [OF S2(2) lkS2, of a] by auto
  have lk: "locks_ok T2 (\<lambda>_. 0)" using T2(4) by (simp add: fun_upd_idem)
  have same: "same_routes S T2" using same_routes_lock_trans [OF S2(3) T2(3) S2(5) [rule_format]] .
  note rr = replace_and_release [OF n T2(2) same [unfolded S_def]]
  define pl where "pl = (peer_locks d)(pe_self peer := peer_locks d (pe_self peer) + 1)"
  define d2 where "d2 = put_rib ((put_rib (put_rib (d\<lparr>db_rt := R1\<rparr>) afi safi T1) afi safi S2)\<lparr>peer_locks := pl\<rparr>) afi safi T2"
  have d2: "rib d2 = rib (put_rib d afi safi T2)" "db_rt d2 = R1" "peer_locks d2 = pl" "msg_log d2 = msg_log d"
    by (simp_all add: d2_def put_rib_def fun_eq_iff)
  have run: "update_node bms peer extra (put_rib (d\<lparr>db_rt := R1\<rparr>) afi safi T1) afi safi a m bk None f rd path_id label = Inr (ri, d2)"
    using S2(1) T2(1) put_bucket_eq [OF N(6), of m "ri # bk"] N(6,8)
    by (simp add: update_node_def base ri_def [symmetric] Let_def bgp_info_add_def bucket_def get_node_def bk_def [symmetric]
        S_def [symmetric] d2_def pl_def ria)
  have cnt: "table_count T2 P + count P [] = table_count (rib d afi safi) P + count P [ri]" for P
    using rr(2) [of P] by (cases "P ri") (simp_all add: bk_def)
  have ok2: "db_ok bms H d2"
  proof (rule db_step [where olds = "[]" and news = "[ri]", OF N(1) T2(2) lk cnt _ _ _ _ d2(1)])
    show "rt_ok (db_rt d2) H" using F(1) by (simp add: d2)
    show "attr_refs (db_rt d2) y + count (\<lambda>i. i_attr i = Some y) [] =
        attr_refs (db_rt d) y + count (\<lambda>i. i_attr i = Some y) [ri]" for y
      using ria(1) by (simp add: d2(2) F(3))
    show "peer_locks d2 p + int (count (\<lambda>i. i_peer i = p) []) = peer_locks d p + int (count (\<lambda>i. i_peer i = p) [ri])" for p
      by (simp add: d2(3) ria(2) pl_def)
  qed (simp add: ria)
  have keep: "attrs_keep (db_rt d) (db_rt d2)" using F(2) by (simp add: d2(2))
  have "route_of R1 base = \<lparr>r_peer = pe_self peer, r_attr = Some v, r_extra = None\<rparr>"
    using F(4) by (simp add: route_of_def base_def del: map_option_eq_Some)
  then have "route_of R1 ri = new" unfolding ri_def route_of_announce new_def by simp
  moreover have "map (route_of R1) bk = map (route_of (db_rt d)) bk"
  proof (rule map_cong [OF refl])
    fix i assume "i \<in> set bk"
    moreover have "i \<in> set (table_bucket (rib d2 afi safi) (pfx_bits (n_p nd)) m)" if "i \<in> set bk"
      using that by (simp add: d2(1) rr(1))
    ultimately show "route_of R1 i = route_of (db_rt d) i"
      using routes_keep [OF N(1) ok2 keep, of i afi safi "pfx_bits (n_p nd)" m afi safi "pfx_bits (n_p nd)" m]
      by (simp add: N(11) bk_def d2(2))
  qed
  ultimately have "map (route_of (db_rt d2)) (ri # bk) = new # db_bucket d afi safi (pfx_bits (n_p nd)) m"
    by (simp add: db_bucket_def N(11) bk_def d2(2))
  note b = db_bucket_step [OF N(1) ok2 keep d2(1) rr(1) this]
  have ne: "n_info (nd\<lparr>n_info := (n_info nd)[m := ri # bk]\<rparr>) ! m \<noteq> []" "m < length (n_info (nd\<lparr>n_info := (n_info nd)[m := ri # bk]\<rparr>))"
    using N(8) by simp_all
  obtain nd' where "t_nodes T2 a = Some nd'" "n_p nd' = n_p (nd\<lparr>n_info := (n_info nd)[m := ri # bk]\<rparr>)"
    using routes_node [OF T2(2) same [unfolded S_def] set_bucket_nodes [OF N(6)] ne] .
  moreover have "rib_count d2 (\<lambda>_. True) = Suc (rib_count d (\<lambda>_. True))"
    using rib_count_step [OF cnt d2(1), of "\<lambda>_. True"] by simp
  ultimately show ?thesis using run ok2 d2(4) b by (auto simp: d2(1))
qed

end
