(* ===== verification/Bgp_Rib_Ops.thy ===== *)
theory Bgp_Rib_Ops
  imports Bgp_Rib_Props
begin

text \<open>
  \<^verbatim>\<open>bgp_process_update\<close> and \<^verbatim>\<open>bgp_process_withdraw\<close> of \<^verbatim>\<open>src/src/bgp/bgp_msg.c\<close> as operations on
  the map of routes of \<open>Bgp_Rib_Props\<close>, with the witnesses of their hypotheses on an empty
  routing information base.
\<close>

section \<open>Buckets of a peer\<close>

text \<open>The number of buckets fits the counters of 32 bits the code computes it in.\<close>

definition config_ok :: "bgp_daemon \<Rightarrow> bool" where
  "config_ok bms \<longleftrightarrow> 0 < rib_nb bms \<and> rib_nb bms < 2 ^ 32"

definition route_slot :: "bgp_daemon \<Rightarrow> bgp_peer \<Rightarrow> u32 \<Rightarrow> nat" where
  "route_slot bms peer path_id =
     (let per_peer = word_of_nat (table_per_peer_buckets bms) in
      unat ((pe_fd peer * per_peer + ((if path_id \<noteq> 0 then path_id else 1) - 1) mod per_peer) mod word_of_nat (rib_nb bms)))"

lemma unat_of_nat_small: "n < 2 ^ 32 \<Longrightarrow> unat (word_of_nat n :: u32) = n"
  by (simp add: unat_of_nat take_bit_nat_eq_self)

lemma config_slot:
  assumes "config_ok bms"
  obtains mo where "bgp_route_info_modulo_pathid bms peer (Some path_id) = Inr mo" "unat mo = route_slot bms peer path_id"
    "route_slot bms peer path_id < rib_nb bms"
proof -
  let ?all = "word_of_nat (rib_nb bms) :: u32" and ?per = "word_of_nat (table_per_peer_buckets bms) :: u32"
  have nb: "0 < rib_nb bms" "rib_nb bms < 2 ^ 32" using assms by (simp_all add: config_ok_def)
  have per: "0 < table_per_peer_buckets bms" using nb(1) by (simp add: rib_nb_def)
  have "table_per_peer_buckets bms \<le> rib_nb bms" using nb(1) by (cases "table_peer_buckets bms") (simp_all add: rib_nb_def)
  then have u: "unat ?all = rib_nb bms" "unat ?per = table_per_peer_buckets bms"
    using nb(2) unat_of_nat_small by simp_all
  have nz: "?all \<noteq> 0" "?per \<noteq> 0" using u nb(1) per by (metis unat_0 less_irrefl)+
  have "unat (x mod ?all) < rib_nb bms" for x using u(1) nb(1) by (simp add: unat_mod)
  then have lt: "route_slot bms peer path_id < rib_nb bms" by (simp add: route_slot_def Let_def)
  show ?thesis
    by (rule that [OF _ _ lt]) (use nz in \<open>auto simp: bgp_route_info_modulo_pathid_def rib_nb_def Let_def route_slot_def\<close>)
qed

lemma rib_at_ok: "afi = AFI_IP \<or> afi = AFI_IP6 \<Longrightarrow> safi < SAFI_MAX \<Longrightarrow> rib_at d afi safi = Inr (rib d afi safi)"
  by (auto simp: rib_at_def AFI_IP_def AFI_IP6_def AFI_MAX_def)

text \<open>The node of a prefix is found or made, and held.\<close>

lemma hold_node:
  assumes ok: "db_ok bms H d" "db_room H d" and p: "wf_prefix p" "pfx_family p = afi_family afi" and m: "m < rib_nb bms"
  obtains a T1 nd where "bgp_node_get (Some (bgp_misc.truncate bms)) (rib d afi safi) p = Inr (a, T1)"
    "node_held bms H d afi safi a nd m T1" "pfx_bits (n_p nd) = pfx_bits p"
proof -
  have room: "Suc (unat (lock_at (rib d afi safi) x)) < 2 ^ 32" for x
    using db_room_lock [OF ok, of afi safi x] db_okD(3) [OF ok(1), of afi safi] by (simp add: locks_ok_def)
  have nb: "rib_nb bms = table_peer_buckets (bgp_misc.truncate bms) * table_per_peer_buckets (bgp_misc.truncate bms)"
    by (simp add: rib_nb_def bgp_misc.truncate_def)
  obtain a T1 nd where g: "bgp_node_get (Some (bgp_misc.truncate bms)) (rib d afi safi) p = Inr (a, T1)"
      "tbl_ok (afi_family afi) (rib_nb bms) T1" "same_routes (rib d afi safi) T1" "locks_ok T1 ((\<lambda>_. 0)(a := Suc 0))"
      "t_nodes T1 a = Some nd" "pfx_bits (n_p nd) = pfx_bits p"
    using node_get_ok [OF db_okD(2,3) [OF ok(1)] p nb room] .
  have "node_held bms H d afi safi a nd m T1" using ok g(2-5) m by (simp add: node_held_def)
  from that [OF g(1) this g(6)] show ?thesis .
qed

lemma held_bucket: "node_held bms H d afi safi a nd m T1 \<Longrightarrow> get_node T1 a = Inr nd \<and> bucket nd m = Inr (n_info nd ! m)"
  using node_heldD(6,8) by (fastforce simp: get_node_def bucket_def)

lemma held_db_bucket:
  "node_held bms H d afi safi a nd m T1 \<Longrightarrow>
     map (route_of (db_rt d)) (n_info nd ! m) = db_bucket d afi safi (pfx_bits (n_p nd)) m"
  using node_heldD(11) by (simp add: db_bucket_def)

lemma log_msg_simps [simp]:
  "db_ok bms H (bgp_peer_log_msg d p ri afi safi ty) = db_ok bms H d"
  "db_bucket (bgp_peer_log_msg d p ri afi safi ty) = db_bucket d"
  "rib (bgp_peer_log_msg d p ri afi safi ty) = rib d" "db_rt (bgp_peer_log_msg d p ri afi safi ty) = db_rt d"
  "db_room H (bgp_peer_log_msg d p ri afi safi ty) = db_room H d"
  "length (msg_log (bgp_peer_log_msg d p ri afi safi ty)) = Suc (length (msg_log d))"
  "rib_count (bgp_peer_log_msg d p ri afi safi ty) = rib_count d"
  by (simp_all add: bgp_peer_log_msg_def db_ok_def tables_ok_def counts_ok_def rib_count_def db_bucket_def db_room_def fun_eq_iff)

section \<open>Announcements\<close>

lemma update_node_ok:
  fixes peer :: bgp_peer and extra :: bgp_msg_extra and path_id :: u32 and rd label :: "byte list"
  assumes n: "node_held bms H d afi safi a nd m T1" and f: "attr_held H d R1 f v"
    and peer: "routing_db (ptype peer)" "misc_db (ptype peer)"
  defines "hit \<equiv> info_find (same_route bms peer extra safi rd path_id) (n_info nd ! m)"
  shows "\<exists>ri d2 nd2. update_node bms peer extra (put_rib (d\<lparr>db_rt := R1\<rparr>) afi safi T1) afi safi a m (n_info nd ! m) hit f rd path_id label
       = Inr (ri, d2) \<and> db_ok bms H d2 \<and> msg_log d2 = msg_log d \<and>
     (\<forall>afi' safi' q m'. db_bucket d2 afi' safi' q m' =
        (if afi' = afi \<and> safi' = safi \<and> q = pfx_bits (n_p nd) \<and> m' = m
         then install bms peer extra safi rd path_id label v (db_bucket d afi safi (pfx_bits (n_p nd)) m)
         else db_bucket d afi' safi' q m')) \<and> t_nodes (rib d2 afi safi) a = Some nd2 \<and>
     rib_count d2 (\<lambda>_. True) \<le> Suc (rib_count d (\<lambda>_. True))"
proof -
  have b: "db_bucket d afi safi (pfx_bits (n_p nd)) m = map (route_of (db_rt d)) (n_info nd ! m)"
    using held_db_bucket [OF n] by simp
  have h: "route_hit bms peer extra safi rd path_id (map (route_of (db_rt d)) (n_info nd ! m)) = hit"
    by (simp add: route_hit_map hit_def)
  show ?thesis
  proof (cases hit)
    case None
    then show ?thesis using update_node_new [OF n f, of peer extra rd path_id label] unfolding b install_def h by auto
  next
    case (Some k)
    then have k: "k < length (n_info nd ! m)" using info_find_SomeD unfolding hit_def by blast
    show ?thesis
    proof (cases "r_attr (route_of (db_rt d) (n_info nd ! m ! k)) = Some v")
      case True
      obtain d2 where d2: "update_node bms peer extra (put_rib (d\<lparr>db_rt := R1\<rparr>) afi safi T1) afi safi a m (n_info nd ! m)
          (Some k) f rd path_id label = Inr (n_info nd ! m ! k, d2)" "db_ok bms H d2" "msg_log d2 = msg_log d"
          "\<forall>afi' safi' q m'. db_bucket d2 afi' safi' q m' = db_bucket d afi' safi' q m'" "same_routes T1 (rib d2 afi safi)"
          "rib_count d2 (\<lambda>_. True) = rib_count d (\<lambda>_. True)"
        using update_node_same [OF n f peer k True] by blast
      have ne: "n_info nd ! m \<noteq> []" using k by auto
      obtain nd2 where "t_nodes (rib d2 afi safi) a = Some nd2"
        using routes_node [OF db_okD(2) [OF d2(2)] d2(5) node_heldD(6) [OF n] ne node_heldD(8) [OF n]] .
      then show ?thesis using d2 Some True k unfolding b install_def h by (simp add: b)
    next
      case False
      then show ?thesis
        using update_node_change [OF n f peer k False, of extra rd path_id label] Some k unfolding b install_def h by auto
    qed
  qed
qed

lemma process_update_ok:
  assumes ok: "db_ok bms H d" "db_room H d" and at: "at \<in> set H"
    and cfg: "config_ok bms" "\<not> skip_rib bms" "routing_db (ptype peer)" "misc_db (ptype peer)"
    and tab: "afi = AFI_IP \<or> afi = AFI_IP6" "safi < SAFI_MAX" and p: "wf_prefix p" "pfx_family p = afi_family afi"
  shows "\<exists>d'. bgp_process_update bms peer extra d p at afi safi rd path_id label = Inr (SUCCESS, at, d') \<and> db_ok bms H d' \<and>
     rib_count d' (\<lambda>_. True) \<le> Suc (rib_count d (\<lambda>_. True)) \<and>
     length (msg_log d') = length (msg_log d) + (if msglog_backend bms then 1 else 0) \<and>
     (\<forall>afi' safi' q m. db_bucket d' afi' safi' q m =
        (if afi' = afi \<and> safi' = safi \<and> q = pfx_bits p \<and> m = route_slot bms peer path_id
         then install bms peer extra safi rd path_id label (attr_val at) (db_bucket d afi safi q m)
         else db_bucket d afi' safi' q m))"
proof -
  let ?m = "route_slot bms peer path_id"
  obtain mo where mo: "bgp_route_info_modulo_pathid bms peer (Some path_id) = Inr mo" "unat mo = ?m" "?m < rib_nb bms"
    using config_slot [OF cfg(1)] .
  obtain a T1 nd where n: "bgp_node_get (Some (bgp_misc.truncate bms)) (rib d afi safi) p = Inr (a, T1)"
      "node_held bms H d afi safi a nd ?m T1" "pfx_bits (n_p nd) = pfx_bits p"
    using hold_node [OF ok p mo(3)] .
  obtain f R1 t where f: "bgp_attr_intern (ptype peer) (db_rt d) at = Inr (Some f, at, R1)" "rt_ok R1 H"
      "attrs_keep (db_rt d) R1" "attrs R1 f = Some t" "attr_val t = attr_val at"
      "attr_refs R1 = (attr_refs (db_rt d))(f := Suc (attr_refs (db_rt d) f))"
    using bgp_attr_intern_ok [OF db_okD(1) [OF ok(1)] at cfg(3,4) db_room_refs [OF ok]] .
  have held: "attr_held H d R1 f (attr_val at)" using f by (simp add: attr_held_def)
  obtain ri d2 nd2 where d2: "update_node bms peer extra (put_rib (d\<lparr>db_rt := R1\<rparr>) afi safi T1) afi safi a ?m (n_info nd ! ?m)
        (info_find (same_route bms peer extra safi rd path_id) (n_info nd ! ?m)) f rd path_id label = Inr (ri, d2)"
      "db_ok bms H d2" "msg_log d2 = msg_log d"
      "\<forall>afi' safi' q m'. db_bucket d2 afi' safi' q m' =
        (if afi' = afi \<and> safi' = safi \<and> q = pfx_bits (n_p nd) \<and> m' = ?m
         then install bms peer extra safi rd path_id label (attr_val at) (db_bucket d afi safi (pfx_bits (n_p nd)) ?m)
         else db_bucket d afi' safi' q m')" "t_nodes (rib d2 afi safi) a = Some nd2"
      "rib_count d2 (\<lambda>_. True) \<le> Suc (rib_count d (\<lambda>_. True))"
    using update_node_ok [OF n(2) held cfg(3,4)] by blast
  define d' where "d' = (if msglog_backend bms then bgp_peer_log_msg d2 (n_p nd2) ri afi safi Log_Update else d2)"
  have run: "bgp_process_update bms peer extra d p at afi safi rd path_id label = Inr (SUCCESS, at, d')"
    using held_bucket [OF n(2)] d2(5)
    by (simp add: bgp_process_update_def cfg mo(1,2) rib_at_ok [OF tab] n(1) f(1) d2(1) d'_def get_node_def Let_def)
  have "db_ok bms H d'" "rib_count d' (\<lambda>_. True) \<le> Suc (rib_count d (\<lambda>_. True))"
      "length (msg_log d') = length (msg_log d) + (if msglog_backend bms then 1 else 0)"
    using d2(2,3,6) by (simp_all add: d'_def)
  moreover have "db_bucket d' = db_bucket d2" by (simp add: d'_def)
  ultimately show ?thesis using run d2(4) n(3) by auto
qed

section \<open>Withdrawals\<close>

lemma remove_nth_map: "remove_nth k (map f xs) = map f (remove_nth k xs)"
  by (simp add: remove_nth_def take_map drop_map)

lemma remove_nth_length: "k < length xs \<Longrightarrow> Suc (length (remove_nth k xs)) = length xs"
  by (simp add: remove_nth_def)

lemma remove_nth_count: "k < length xs \<Longrightarrow> count P (remove_nth k xs) + count P [xs ! k] = count P xs"
proof (induction xs arbitrary: k)
  case (Cons y ys)
  then show ?case by (cases k) (auto simp: remove_nth_def)
qed simp

lemma remove_nth_set: "set (remove_nth k xs) \<subseteq> set xs"
  by (auto simp: remove_nth_def dest: in_set_takeD in_set_dropD)

text \<open>The routes of a table that lost some of the routes of one bucket.\<close>

lemma kept_bucket:
  assumes n: "node_held bms H d afi safi a nd m T1" and ok2: "db_ok bms H d2" and keep: "attrs_keep (db_rt d) (db_rt d2)"
    and b: "table_bucket (rib d2 afi safi) (pfx_bits (n_p nd)) m = bk'" "set bk' \<subseteq> set (n_info nd ! m)"
  shows "map (route_of (db_rt d2)) bk' = map (route_of (db_rt d)) bk'"
proof (rule map_cong [OF refl])
  fix i assume i: "i \<in> set bk'"
  show "route_of (db_rt d2) i = route_of (db_rt d) i"
    using routes_keep [OF node_heldD(1) [OF n] ok2 keep, of i afi safi "pfx_bits (n_p nd)" m afi safi "pfx_bits (n_p nd)" m]
      i b node_heldD(11) [OF n] by auto
qed

lemma withdraw_node_hit:
  assumes n: "node_held bms H d afi safi a nd m T1" and peer: "routing_db (ptype peer)" "misc_db (ptype peer)"
    and k: "k < length (n_info nd ! m)" "i_peer (n_info nd ! m ! k) = pe_self peer"
  shows "\<exists>d2 T3. bgp_info_delete peer (put_rib d afi safi T1) afi safi a k m = Inr d2 \<and>
     bgp_unlock_node (rib d2 afi safi) a = Inr T3 \<and> db_ok bms H (put_rib d2 afi safi T3) \<and>
     msg_log (put_rib d2 afi safi T3) = msg_log d \<and>
     rib_count (put_rib d2 afi safi T3) (\<lambda>_. True) \<le> rib_count d (\<lambda>_. True) \<and>
     (\<forall>afi' safi' q m'. db_bucket (put_rib d2 afi safi T3) afi' safi' q m' =
        (if afi' = afi \<and> safi' = safi \<and> q = pfx_bits (n_p nd) \<and> m' = m
         then remove_nth k (db_bucket d afi safi (pfx_bits (n_p nd)) m) else db_bucket d afi' safi' q m'))"
proof -
  note N = node_heldD [OF n]
  define bk where "bk = n_info nd ! m"
  have kb: "k < length bk" using k(1) by (simp add: bk_def)
  obtain x where x: "i_attr (bk ! k) = Some x" "0 < attr_refs (db_rt d) x" using held_route [OF n k(1)] by (auto simp: bk_def)
  obtain R2 where R2: "bgp_attr_unintern (ptype peer) (db_rt d) x = Inr R2" "rt_ok R2 H" "attrs_keep (db_rt d) R2"
      "attr_refs R2 = (attr_refs (db_rt d))(x := attr_refs (db_rt d) x - 1)"
    using bgp_attr_unintern_ok [OF db_okD(1) [OF N(1)] peer x(2)] .
  define bk' where "bk' = remove_nth k bk"
  define S where "S = set_bucket T1 a m bk'"
  have okS: "tbl_ok (afi_family afi) (rib_nb bms) S" unfolding S_def using set_bucket_ok [OF N(3,13)] .
  have "locks_ok S (((\<lambda>_. 0)(a := 1))(a := 2))"
    unfolding S_def by (rule set_bucket_locks [OF N(3,5,6,7)]) (use remove_nth_length [OF kb] in \<open>simp add: bk'_def bk_def\<close>)
  then have lkS: "locks_ok S ((\<lambda>_. 0)(a := 2))" by simp
  obtain T2 where T2: "bgp_unlock_node S a = Inr T2" "tbl_ok (afi_family afi) (rib_nb bms) T2" "same_routes S T2"
      "locks_ok T2 (((\<lambda>_. 0)(a := 2))(a := ((\<lambda>_. 0)(a := 2)) a - 1))"
    using unlock_ok [OF okS lkS, of a] by auto
  have lkT2: "locks_ok T2 ((\<lambda>_. 0)(a := 1))" using T2(4) by simp
  obtain T3 where T3: "bgp_unlock_node T2 a = Inr T3" "tbl_ok (afi_family afi) (rib_nb bms) T3" "same_routes T2 T3"
      "locks_ok T3 (((\<lambda>_. 0)(a := 1))(a := ((\<lambda>_. 0)(a := 1)) a - 1))"
    using unlock_ok [OF T2(2) lkT2, of a] by auto
  have lk: "locks_ok T3 (\<lambda>_. 0)" using T3(4) by (simp add: fun_upd_idem)
  note rr = replace_and_release [OF n T2(2) T2(3) [unfolded S_def]] and inv = tbl_okD(1) [OF T2(2)] tbl_okD(1) [OF T3(2)]
  have b3: "table_bucket T3 q m' = (if q = pfx_bits (n_p nd) \<and> m' = m then bk' else table_bucket (rib d afi safi) q m')" for q m'
    using same_routes_bucket [OF inv T3(3)] rr(1) by simp
  define pl where "pl = (peer_locks d)(i_peer (bk ! k) := peer_locks d (i_peer (bk ! k)) - 1)"
  define d2 where "d2 = put_rib ((put_rib (put_rib d afi safi T1) afi safi S)\<lparr>db_rt := R2, peer_locks := pl\<rparr>) afi safi T2"
  define d3 where "d3 = put_rib d2 afi safi T3"
  have d3: "rib d3 = rib (put_rib d afi safi T3)" "db_rt d3 = R2" "peer_locks d3 = pl" "msg_log d3 = msg_log d"
    by (simp_all add: d3_def d2_def put_rib_def fun_eq_iff)
  have run: "bgp_info_delete peer (put_rib d afi safi T1) afi safi a k m = Inr d2" "bgp_unlock_node (rib d2 afi safi) a = Inr T3"
    using held_bucket [OF n] kb R2(1) T2(1) T3(1) put_bucket_eq [OF N(6), of m bk']
    by (simp_all add: bgp_info_delete_def bk_def [symmetric] bk'_def [symmetric] S_def [symmetric] bgp_info_free_def x d2_def pl_def)
  have cnt: "table_count T3 P + count P [bk ! k] = table_count (rib d afi safi) P + count P []" for P
    using rr(2) [of P] same_routes_count [OF inv T3(3), of P] remove_nth_count [OF kb, of P] by (simp add: bk_def bk'_def)
  have ok3: "db_ok bms H d3"
  proof (rule db_step [where olds = "[bk ! k]" and news = "[]", OF N(1) T3(2) lk cnt _ _ _ _ d3(1)])
    show "rt_ok (db_rt d3) H" using R2(2) by (simp add: d3)
    show "attr_refs (db_rt d3) y + count (\<lambda>i. i_attr i = Some y) [bk ! k] =
        attr_refs (db_rt d) y + count (\<lambda>i. i_attr i = Some y) []" for y
      using x by (auto simp: d3(2) R2(4))
    show "peer_locks d3 p + int (count (\<lambda>i. i_peer i = p) [bk ! k]) = peer_locks d p + int (count (\<lambda>i. i_peer i = p) [])" for p
      by (simp add: d3(3) pl_def)
  qed simp
  have keep: "attrs_keep (db_rt d) (db_rt d3)" using R2(3) by (simp add: d3(2))
  have "map (route_of (db_rt d3)) bk' = map (route_of (db_rt d)) bk'"
    by (rule kept_bucket [OF n ok3 keep]) (simp_all add: d3(1) b3 bk'_def bk_def remove_nth_set)
  then have "map (route_of (db_rt d3)) bk' = remove_nth k (db_bucket d afi safi (pfx_bits (n_p nd)) m)"
    using held_db_bucket [OF n] by (simp add: bk'_def bk_def remove_nth_map [symmetric])
  note b = db_bucket_step [OF N(1) ok3 keep d3(1) b3 this]
  have "rib_count d3 (\<lambda>_. True) \<le> rib_count d (\<lambda>_. True)"
    using rib_count_step [OF cnt d3(1), of "\<lambda>_. True"] by simp
  then show ?thesis using run ok3 d3(4) b by (intro exI [of _ d2] exI [of _ T3]) (simp add: d3_def [symmetric])
qed

lemma withdraw_node_none:
  assumes n: "node_held bms H d afi safi a nd m T1"
  shows "\<exists>T3. bgp_unlock_node T1 a = Inr T3 \<and> db_ok bms H (put_rib (put_rib d afi safi T1) afi safi T3) \<and>
     db_bucket (put_rib (put_rib d afi safi T1) afi safi T3) = db_bucket d \<and>
     rib_count (put_rib (put_rib d afi safi T1) afi safi T3) (\<lambda>_. True) = rib_count d (\<lambda>_. True)"
proof -
  note N = node_heldD [OF n]
  obtain T3 where T3: "bgp_unlock_node T1 a = Inr T3" "tbl_ok (afi_family afi) (rib_nb bms) T3" "same_routes T1 T3"
      "locks_ok T3 (((\<lambda>_. 0)(a := 1))(a := ((\<lambda>_. 0)(a := 1)) a - 1))"
    using unlock_ok [OF N(3,5), of a] by auto
  have lk: "locks_ok T3 (\<lambda>_. 0)" using T3(4) by (simp add: fun_upd_idem)
  note inv = tbl_okD(1) [OF T3(2)]
  define d3 where "d3 = put_rib (put_rib d afi safi T1) afi safi T3"
  have d3: "rib d3 = rib (put_rib d afi safi T3)" "db_rt d3 = db_rt d" "peer_locks d3 = peer_locks d"
    by (simp_all add: d3_def put_rib_def fun_eq_iff)
  have cnt: "table_count T3 P = table_count (rib d afi safi) P" for P
    using same_routes_count [OF N(9) inv T3(3)] N(12) by simp
  have ok3: "db_ok bms H d3"
    by (rule db_step [where olds = "[]" and news = "[]", OF N(1) T3(2) lk]) (simp_all add: cnt d3 db_okD(1) [OF N(1)])
  have "table_bucket (rib d3 afi' safi') q m' = table_bucket (rib d afi' safi') q m'" for afi' safi' q m'
    using same_routes_bucket [OF N(9) inv T3(3)] N(10) by (simp add: d3(1))
  then have "db_bucket d3 = db_bucket d" by (simp add: db_bucket_def d3(2) fun_eq_iff)
  moreover have "rib_count d3 (\<lambda>_. True) = rib_count d (\<lambda>_. True)"
    using rib_count_step [of T3 "\<lambda>_. True" "[]" d afi safi "[]" d3] cnt d3(1) by simp
  ultimately show ?thesis using T3(1) ok3 by (auto simp: d3_def)
qed

lemma process_withdraw_ok:
  assumes ok: "db_ok bms H d" "db_room H d"
    and cfg: "config_ok bms" "\<not> skip_rib bms" "routing_db (ptype peer)" "misc_db (ptype peer)"
    and tab: "afi = AFI_IP \<or> afi = AFI_IP6" "safi < SAFI_MAX" and p: "wf_prefix p" "pfx_family p = afi_family afi"
  shows "\<exists>d'. bgp_process_withdraw bms peer extra d p afi safi rd path_id label = Inr (SUCCESS, d') \<and> db_ok bms H d' \<and>
     rib_count d' (\<lambda>_. True) \<le> rib_count d (\<lambda>_. True) \<and>
     (\<forall>afi' safi' q m. db_bucket d' afi' safi' q m =
        (if afi' = afi \<and> safi' = safi \<and> q = pfx_bits p \<and> m = route_slot bms peer path_id
         then uninstall bms peer extra safi rd path_id (db_bucket d afi safi q m) else db_bucket d afi' safi' q m))"
proof -
  obtain mo where mo: "bgp_route_info_modulo_pathid bms peer (Some path_id) = Inr mo" "unat mo = route_slot bms peer path_id"
      "unat mo < rib_nb bms"
    using config_slot [OF cfg(1)] by metis
  let ?m = "unat mo"
  obtain a T1 nd where n: "bgp_node_get (Some (bgp_misc.truncate bms)) (rib d afi safi) p = Inr (a, T1)"
      "node_held bms H d afi safi a nd ?m T1" "pfx_bits (n_p nd) = pfx_bits p"
    using hold_node [OF ok p mo(3)] .
  define hit where "hit = info_find (same_route bms peer extra safi rd path_id) (n_info nd ! ?m)"
  have b: "db_bucket d afi safi (pfx_bits p) ?m = map (route_of (db_rt d)) (n_info nd ! ?m)"
    using held_db_bucket [OF n(2)] n(3) by simp
  have h: "route_hit bms peer extra safi rd path_id (map (route_of (db_rt d)) (n_info nd ! ?m)) = hit"
    by (simp add: route_hit_map hit_def)
  have run: "bgp_process_withdraw bms peer extra d p afi safi rd path_id label =
      rbind (case hit of
                 None \<Rightarrow> Inr (put_rib d afi safi T1)
               | Some k \<Rightarrow> bgp_info_delete peer
                   (if msglog_backend bms
                    then bgp_peer_log_msg (put_rib d afi safi T1) (n_p nd) (n_info nd ! ?m ! k) afi safi Log_Withdraw
                    else put_rib d afi safi T1)
                   afi safi a k ?m) (\<lambda>d2.
        rbind (bgp_unlock_node (rib d2 afi safi) a) (\<lambda>T2. Inr (SUCCESS, put_rib d2 afi safi T2)))"
    using held_bucket [OF n(2)]
    by (simp add: bgp_process_withdraw_def cfg mo(1) rib_at_ok [OF tab] n(1) Let_def hit_def)
  show ?thesis
  proof (cases hit)
    case None
    obtain T3 where "bgp_unlock_node T1 a = Inr T3" "db_ok bms H (put_rib (put_rib d afi safi T1) afi safi T3)"
        "db_bucket (put_rib (put_rib d afi safi T1) afi safi T3) = db_bucket d"
        "rib_count (put_rib (put_rib d afi safi T1) afi safi T3) (\<lambda>_. True) = rib_count d (\<lambda>_. True)"
      using withdraw_node_none [OF n(2)] by blast
    then show ?thesis using None h by (simp add: run uninstall_def b mo(2) [symmetric])
  next
    case (Some k)
    then have k: "k < length (n_info nd ! ?m)" "same_route bms peer extra safi rd path_id (n_info nd ! ?m ! k)"
      using info_find_SomeD unfolding hit_def by blast+
    define e where "e = (if msglog_backend bms then bgp_peer_log_msg d (n_p nd) (n_info nd ! ?m ! k) afi safi Log_Withdraw else d)"
    have e: "(if msglog_backend bms
                    then bgp_peer_log_msg (put_rib d afi safi T1) (n_p nd) (n_info nd ! ?m ! k) afi safi Log_Withdraw
                    else put_rib d afi safi T1) = put_rib e afi safi T1"
      by (simp add: e_def bgp_peer_log_msg_def put_rib_def)
    have eb: "db_bucket e = db_bucket d" "rib_count e = rib_count d" by (simp_all add: e_def)
    have ne: "node_held bms H e afi safi a nd ?m T1" using n(2) by (simp add: node_held_def e_def)
    have self: "i_peer (n_info nd ! ?m ! k) = pe_self peer" using k(2) by (simp add: same_route_def)
    obtain d2 T3 where "bgp_info_delete peer (put_rib e afi safi T1) afi safi a k ?m = Inr d2"
        "bgp_unlock_node (rib d2 afi safi) a = Inr T3" "db_ok bms H (put_rib d2 afi safi T3)"
        "rib_count (put_rib d2 afi safi T3) (\<lambda>_. True) \<le> rib_count e (\<lambda>_. True)"
        "\<forall>afi' safi' q m'. db_bucket (put_rib d2 afi safi T3) afi' safi' q m' =
        (if afi' = afi \<and> safi' = safi \<and> q = pfx_bits p \<and> m' = ?m
         then remove_nth k (db_bucket e afi safi (pfx_bits p) ?m) else db_bucket e afi' safi' q m')"
      using withdraw_node_hit [OF ne cfg(3,4) k(1) self] n(3) by auto
    then show ?thesis using Some h by (simp add: run e uninstall_def b eb mo(2) [symmetric])
  qed
qed

section \<open>The empty routing information base\<close>

lemma lock_at_init [simp]: "lock_at (bgp_table_init afi safi) x = 0" "info_at (bgp_table_init afi safi) x = []"
  by (simp_all add: lock_at_def info_at_def bgp_table_init_def)

lemma table_count_init [simp]: "table_count (bgp_table_init afi safi) P = 0"
  by (simp add: table_count_def bgp_table_init_def)

lemma tbl_ok_init: "tbl_ok f nb (bgp_table_init afi safi)"
  using table_inv_init [of f afi safi] by (simp add: tbl_ok_def lock_inv_def bgp_table_init_def)

lemma rib_count_init [simp]: "rib_count (bgp_db_init n) P = 0"
  by (simp add: rib_count_def bgp_db_init_def)

lemma db_bucket_init [simp]: "db_bucket (bgp_db_init n) afi safi q m = []"
proof -
  have "table_bucket (bgp_table_init afi safi :: bgp_info bgp_table) q m = []"
    by (rule table_bucket_eqI [OF table_inv_init]) (simp_all add: bgp_table_init_def)
  then show ?thesis by (simp add: db_bucket_def bgp_db_init_def)
qed

text \<open>An attribute without AS path and communities may be held by a caller at any time.\<close>

definition no_parts :: "bgp_attr \<Rightarrow> bool" where
  "no_parts at \<longleftrightarrow> at_aspath at = None \<and> at_community at = None \<and> at_ecommunity at = None \<and> at_lcommunity at = None"

lemma rt_ok_hold: "no_parts at \<Longrightarrow> rt_ok R (at # H) = rt_ok R H"
  by (simp add: rt_ok_def balanced_def held_def no_parts_def)

lemma db_ok_init: "n \<noteq> 0 \<Longrightarrow> db_ok bms [] (bgp_db_init n)"
  using rt_ok_init [of n]
  by (simp add: db_ok_def tables_ok_def counts_ok_def locks_ok_def) (simp add: bgp_db_init_def tbl_ok_init)

lemma db_ok_hold: "no_parts at \<Longrightarrow> db_ok bms (at # H) d = db_ok bms H d"
  by (simp add: db_ok_def rt_ok_hold)

section \<open>A route that comes and goes\<close>

text \<open>An announced route is the one its withdrawal looks for.\<close>

lemma announced_hit:
  assumes "misc_db (ptype peer)"
  shows "same_route bms peer extra safi rd path_id
    (info_of (announced bms peer extra safi path_id rd label \<lparr>r_peer = pe_self peer, r_attr = v, r_extra = None\<rparr>))"
proof -
  define base where "base = info_of \<lparr>r_peer = pe_self peer, r_attr = v, r_extra = None\<rparr>"
  have get: "bgp_info_extra_get peer base = base\<lparr>i_extra := Some bgp_info_extra_zero\<rparr>"
    using assms by (simp add: bgp_info_extra_get_def base_def info_of_def)
  have peer: "i_peer base = pe_self peer" "i_extra base = None" by (simp_all add: base_def info_of_def)
  have some: "i_extra i = Some e \<Longrightarrow> bgp_info_extra_get peer i = i" for i e by (simp add: bgp_info_extra_get_def)
  note d = announce_def extra_data_process_def bgp_extra_data_process_bmp_def bgp_info_extra_process_def Let_def
  have "same_route bms peer extra safi rd path_id (announce bms peer extra safi path_id rd label base)"
    unfolding d using peer get some
    by (auto simp: same_route_def upd_extra_def bgp_info_extra_zero_def bgp_extra_data_cmp_bmp_def BGP_MSG_EXTRA_DATA_BMP_def
        SAFI_MPLS_LABEL_def SAFI_MPLS_VPN_def bgp_info_extra_get_def assms)
  moreover have "info_of (announced bms peer extra safi path_id rd label \<lparr>r_peer = pe_self peer, r_attr = v, r_extra = None\<rparr>) =
      announce bms peer extra safi path_id rd label base"
    by (simp add: announced_def info_of_def base_def)
  ultimately show ?thesis by simp
qed

lemma uninstall_install:
  assumes "misc_db (ptype peer)" "route_hit bms peer extra safi rd path_id bk = None"
  shows "uninstall bms peer extra safi rd path_id (install bms peer extra safi rd path_id label v bk) = bk"
proof -
  define r where "r = announced bms peer extra safi path_id rd label \<lparr>r_peer = pe_self peer, r_attr = Some v, r_extra = None\<rparr>"
  have "route_hit bms peer extra safi rd path_id (r # bk) = Some 0"
    using announced_hit [OF assms(1)] by (simp add: route_hit_def r_def)
  then show ?thesis using assms(2) by (simp add: install_def uninstall_def r_def [symmetric] remove_nth_def)
qed

section \<open>The properties\<close>

text \<open>C8: announcing a route puts it, with the value of its attributes, into the bucket of its
  peer at the node of its prefix, or renews the route that is there, and changes no other bucket
  of any table; locks, reference counts and the counters of the peers stay exact.\<close>

theorem bgp_process_update_installs:
  assumes "db_ok bms H d" "db_room H d" "at \<in> set H" "config_ok bms" "\<not> skip_rib bms"
    "routing_db (ptype peer)" "misc_db (ptype peer)" "afi = AFI_IP \<or> afi = AFI_IP6" "safi < SAFI_MAX"
    "wf_prefix p" "pfx_family p = afi_family afi"
  shows "\<exists>d'. bgp_process_update bms peer extra d p at afi safi rd path_id label = Inr (SUCCESS, at, d') \<and> db_ok bms H d' \<and>
     length (msg_log d') = length (msg_log d) + (if msglog_backend bms then 1 else 0) \<and>
     (\<forall>afi' safi' q m. db_bucket d' afi' safi' q m =
        (if afi' = afi \<and> safi' = safi \<and> q = pfx_bits p \<and> m = route_slot bms peer path_id
         then install bms peer extra safi rd path_id label (attr_val at) (db_bucket d afi safi q m)
         else db_bucket d afi' safi' q m))"
  using process_update_ok [OF assms, of extra rd path_id label] by blast

definition ex_daemon :: bgp_daemon where
  "ex_daemon = \<lparr>table_peer_buckets = 13, table_per_peer_buckets = 2, hash_pathid = False, skip_rib = False,
     msglog_backend = True, bmp_extras = True\<rparr>"

definition ex_peer :: bgp_peer where
  "ex_peer = \<lparr>has_misc_db = True, has_routing_db = True, pe_self = 77, pe_fd = 5, pe_status = 6, pe_myas = 65000, pe_as = 65001,
     pe_ht = 90, pe_last_keepalive = 0, pe_id = host_addr_zero, pe_cap_mp = True, pe_cap_4as = Some 1, pe_cap_add_paths = True,
     pe_msglen = 0, pe_buf = [], pe_truncated_len = 0\<rparr>"

definition ex_route :: prefix_t where
  "ex_route = \<lparr>pfx_family = AF_INET, pfx_len = 24, pfx_u = [192, 0, 2] @ replicate 13 0\<rparr>"

definition ex_attr :: bgp_attr where
  "ex_attr = bgp_attr_zero\<lparr>at_flag := 2, at_nexthop := 0x01020304, at_med := 10\<rparr>"

definition ex_extra :: bgp_msg_extra where
  "ex_extra = \<lparr>ed_id = BGP_MSG_EXTRA_DATA_BMP, ed_data = [1, 0, 0, 0]\<rparr>"

lemma ex_state:
  "db_ok ex_daemon [ex_attr] (bgp_db_init 64)" "db_room [ex_attr] (bgp_db_init 64)" "ex_attr \<in> set [ex_attr]" "config_ok ex_daemon"
  "\<not> skip_rib ex_daemon" "routing_db (ptype ex_peer)" "misc_db (ptype ex_peer)" "AFI_IP = AFI_IP \<or> AFI_IP = AFI_IP6"
  "SAFI_MPLS_VPN < SAFI_MAX" "wf_prefix ex_route" "pfx_family ex_route = afi_family AFI_IP" "attr_val ex_attr = ex_attr"
  "no_parts ex_attr"
proof -
  show parts: "no_parts ex_attr" by (simp add: no_parts_def ex_attr_def bgp_attr_zero_def)
  show "db_ok ex_daemon [ex_attr] (bgp_db_init 64)" by (simp add: db_ok_hold [OF parts] db_ok_init)
qed (simp_all add: db_room_def ex_attr_def bgp_attr_zero_def config_ok_def rib_nb_def ex_daemon_def
      ptype_def ex_peer_def bgp_peer_type.truncate_def routing_db_def misc_db_def SAFI_MPLS_VPN_def SAFI_MAX_def wf_prefix_def
      ex_route_def afi_family_def attr_val_def)

theorem bgp_process_update_installs_witness:
  "\<exists>d'. bgp_process_update ex_daemon ex_peer ex_extra (bgp_db_init 64) ex_route ex_attr AFI_IP SAFI_MPLS_VPN
      [0, 0, 0, 1, 0, 0, 0, 2] 7 [0, 1, 1] = Inr (SUCCESS, ex_attr, d') \<and>
    db_bucket d' AFI_IP SAFI_MPLS_VPN (pfx_bits ex_route) 10 =
      [\<lparr>r_peer = 77, r_attr = Some ex_attr,
        r_extra = Some \<lparr>ie_rd = [0, 0, 0, 1, 0, 0, 0, 2], ie_label = [0, 1, 1], ie_path_id = 7, ie_bmed = ex_extra\<rparr>\<rparr>]"
proof -
  have slot: "route_slot ex_daemon ex_peer 7 = 10" by (simp add: route_slot_def ex_daemon_def ex_peer_def rib_nb_def)
  have new: "announced ex_daemon ex_peer ex_extra SAFI_MPLS_VPN 7 [0, 0, 0, 1, 0, 0, 0, 2] [0, 1, 1]
      \<lparr>r_peer = 77, r_attr = Some ex_attr, r_extra = None\<rparr> = \<lparr>r_peer = 77, r_attr = Some ex_attr,
        r_extra = Some \<lparr>ie_rd = [0, 0, 0, 1, 0, 0, 0, 2], ie_label = [0, 1, 1], ie_path_id = 7, ie_bmed = ex_extra\<rparr>\<rparr>"
    by (simp add: announced_def announce_def extra_data_process_def bgp_extra_data_process_bmp_def bgp_info_extra_process_def
        info_of_def bgp_info_extra_get_def ex_state upd_extra_def bgp_info_extra_zero_def Let_def)
      (simp add: ex_peer_def ex_daemon_def ex_extra_def)
  have peer: "pe_self ex_peer = 77" by (simp add: ex_peer_def)
  obtain d' where "bgp_process_update ex_daemon ex_peer ex_extra (bgp_db_init 64) ex_route ex_attr AFI_IP SAFI_MPLS_VPN
        [0, 0, 0, 1, 0, 0, 0, 2] 7 [0, 1, 1] = Inr (SUCCESS, ex_attr, d')"
      and b: "\<forall>afi' safi' q m. db_bucket d' afi' safi' q m =
        (if afi' = AFI_IP \<and> safi' = SAFI_MPLS_VPN \<and> q = pfx_bits ex_route \<and> m = route_slot ex_daemon ex_peer 7
         then install ex_daemon ex_peer ex_extra SAFI_MPLS_VPN [0, 0, 0, 1, 0, 0, 0, 2] 7 [0, 1, 1] (attr_val ex_attr)
           (db_bucket (bgp_db_init 64) AFI_IP SAFI_MPLS_VPN q m)
         else db_bucket (bgp_db_init 64) afi' safi' q m)"
    using bgp_process_update_installs [OF ex_state(1-11), of ex_extra "[0, 0, 0, 1, 0, 0, 0, 2]" 7 "[0, 1, 1]"] by blast
  moreover have "db_bucket d' AFI_IP SAFI_MPLS_VPN (pfx_bits ex_route) 10 =
      [\<lparr>r_peer = 77, r_attr = Some ex_attr,
        r_extra = Some \<lparr>ie_rd = [0, 0, 0, 1, 0, 0, 0, 2], ie_label = [0, 1, 1], ie_path_id = 7, ie_bmed = ex_extra\<rparr>\<rparr>]"
    using b by (simp add: slot install_def route_hit_def peer new ex_state)
  ultimately show ?thesis by blast
qed

text \<open>C9: withdrawing a route takes it out of the bucket of its peer at the node of its prefix and
  changes no other bucket; locks, reference counts and the counters of the peers stay exact.\<close>

theorem bgp_process_withdraw_uninstalls:
  assumes "db_ok bms H d" "db_room H d" "config_ok bms" "\<not> skip_rib bms"
    "routing_db (ptype peer)" "misc_db (ptype peer)" "afi = AFI_IP \<or> afi = AFI_IP6" "safi < SAFI_MAX"
    "wf_prefix p" "pfx_family p = afi_family afi"
  shows "\<exists>d'. bgp_process_withdraw bms peer extra d p afi safi rd path_id label = Inr (SUCCESS, d') \<and> db_ok bms H d' \<and>
     (\<forall>afi' safi' q m. db_bucket d' afi' safi' q m =
        (if afi' = afi \<and> safi' = safi \<and> q = pfx_bits p \<and> m = route_slot bms peer path_id
         then uninstall bms peer extra safi rd path_id (db_bucket d afi safi q m) else db_bucket d afi' safi' q m))"
  using process_withdraw_ok [OF assms, of extra rd path_id label] by blast

theorem bgp_process_withdraw_uninstalls_witness:
  "\<exists>d'. bgp_process_withdraw ex_daemon ex_peer ex_extra (bgp_db_init 64) ex_route AFI_IP SAFI_MPLS_VPN
      [0, 0, 0, 1, 0, 0, 0, 2] 7 [0, 1, 1] = Inr (SUCCESS, d') \<and> db_ok ex_daemon [ex_attr] d' \<and>
    db_bucket d' AFI_IP SAFI_MPLS_VPN (pfx_bits ex_route) 10 = []"
  using bgp_process_withdraw_uninstalls [OF ex_state(1,2,4-11), of ex_extra "[0, 0, 0, 1, 0, 0, 0, 2]" 7 "[0, 1, 1]"]
  by (auto simp: uninstall_def route_hit_def)

text \<open>C10: a route that is announced for the first time and then withdrawn leaves the map of routes
  as it was, whatever its family, labels, path identifier and extra data.\<close>

theorem announce_withdraw_restores:
  assumes "db_ok bms H d" "rib_count d (\<lambda>_. True) + length H + 3 < 2 ^ 32" "at \<in> set H" "config_ok bms" "\<not> skip_rib bms"
    "routing_db (ptype peer)" "misc_db (ptype peer)" "afi = AFI_IP \<or> afi = AFI_IP6" "safi < SAFI_MAX"
    "wf_prefix p" "pfx_family p = afi_family afi"
    "route_hit bms peer extra safi rd path_id (db_bucket d afi safi (pfx_bits p) (route_slot bms peer path_id)) = None"
  shows "\<exists>d1 d2. bgp_process_update bms peer extra d p at afi safi rd path_id label = Inr (SUCCESS, at, d1) \<and>
     bgp_process_withdraw bms peer extra d1 p afi safi rd path_id label' = Inr (SUCCESS, d2) \<and>
     db_ok bms H d2 \<and> db_bucket d2 = db_bucket d"
proof -
  have room: "db_room H d" using assms(2) by (simp add: db_room_def)
  obtain d1 where d1: "bgp_process_update bms peer extra d p at afi safi rd path_id label = Inr (SUCCESS, at, d1)"
      "db_ok bms H d1" "rib_count d1 (\<lambda>_. True) \<le> Suc (rib_count d (\<lambda>_. True))"
      "\<forall>afi' safi' q m. db_bucket d1 afi' safi' q m =
        (if afi' = afi \<and> safi' = safi \<and> q = pfx_bits p \<and> m = route_slot bms peer path_id
         then install bms peer extra safi rd path_id label (attr_val at) (db_bucket d afi safi q m)
         else db_bucket d afi' safi' q m)"
    using process_update_ok [OF assms(1) room assms(3-11), of extra rd path_id label] by blast
  have room1: "db_room H d1" using assms(2) d1(3) by (simp add: db_room_def)
  obtain d2 where d2: "bgp_process_withdraw bms peer extra d1 p afi safi rd path_id label' = Inr (SUCCESS, d2)"
      "db_ok bms H d2" "\<forall>afi' safi' q m. db_bucket d2 afi' safi' q m =
        (if afi' = afi \<and> safi' = safi \<and> q = pfx_bits p \<and> m = route_slot bms peer path_id
         then uninstall bms peer extra safi rd path_id (db_bucket d1 afi safi q m) else db_bucket d1 afi' safi' q m)"
    using process_withdraw_ok [OF d1(2) room1 assms(4-11), of extra rd path_id label'] by blast
  have "db_bucket d2 = db_bucket d"
    using uninstall_install [OF assms(7,12)] d1(4) d2(3) by (auto simp: fun_eq_iff)
  with d1(1) d2(1,2) show ?thesis by blast
qed

theorem announce_withdraw_restores_witness:
  "\<exists>d1 d2. bgp_process_update ex_daemon ex_peer ex_extra (bgp_db_init 64) ex_route ex_attr AFI_IP SAFI_MPLS_VPN
      [0, 0, 0, 1, 0, 0, 0, 2] 7 [0, 1, 1] = Inr (SUCCESS, ex_attr, d1) \<and>
     bgp_process_withdraw ex_daemon ex_peer ex_extra d1 ex_route AFI_IP SAFI_MPLS_VPN
      [0, 0, 0, 1, 0, 0, 0, 2] 7 [0, 0, 0] = Inr (SUCCESS, d2) \<and> db_bucket d2 = db_bucket (bgp_db_init 64)"
proof -
  have room: "rib_count (bgp_db_init 64) (\<lambda>_. True) + length [ex_attr] + 3 < 2 ^ 32" by simp
  have none: "route_hit ex_daemon ex_peer ex_extra SAFI_MPLS_VPN [0, 0, 0, 1, 0, 0, 0, 2] 7
      (db_bucket (bgp_db_init 64) AFI_IP SAFI_MPLS_VPN (pfx_bits ex_route) (route_slot ex_daemon ex_peer 7)) = None"
    by (simp add: route_hit_def)
  show ?thesis
    using announce_withdraw_restores [OF ex_state(1) room ex_state(3-11) none, of "[0, 1, 1]" "[0, 0, 0]"] by blast
qed

end
