(* ===== verification/Bgp_Nlri.thy ===== *)
theory Bgp_Nlri
  imports Bgp_Rib
begin

text \<open>
  The network layer reachability information of an UPDATE message: \<^verbatim>\<open>bgp_nlri_parse\<close> of
  \<^verbatim>\<open>src/src/bgp/bgp_msg.c\<close> with the route distinguishers of \<^verbatim>\<open>src/src/network.h\<close>. \<open>buf\<close> is the
  memory the message stands in, the receive buffer of the peer; pointers are offsets into it.
\<close>

section \<open>Data\<close>

record bgp_nlri =
  nl_afi :: u16
  nl_safi :: byte
  nl_pos :: nat
  nl_length :: u16

definition bgp_nlri_zero :: bgp_nlri where
  "bgp_nlri_zero = \<lparr>nl_afi = 0, nl_safi = 0, nl_pos = 0, nl_length = 0\<rparr>"

definition RD_TYPE_AS :: u16 where "RD_TYPE_AS = 0"
definition RD_TYPE_IP :: u16 where "RD_TYPE_IP = 1"
definition RD_TYPE_AS4 :: u16 where "RD_TYPE_AS4 = 2"

text \<open>What one turn of the loop reads: the prefix, the path identifier, the distinguisher as its
  eight bytes in memory, the label, and \<^verbatim>\<open>pnt\<close> and \<^verbatim>\<open>end\<close> after it.\<close>

record nlri_item =
  it_p :: prefix_t
  it_path_id :: u32
  it_rd :: "byte list"
  it_label :: "byte list"
  it_pos :: nat
  it_end :: int

section \<open>Reading\<close>

text \<open>\<^verbatim>\<open>memcpy\<close> of \<open>n\<close> bytes to the union of a cleared prefix; a negative size is a huge one.\<close>

definition rd_prefix :: "byte list \<Rightarrow> nat \<Rightarrow> int \<Rightarrow> byte list res" where
  "rd_prefix buf i n =
     (if n < 0 \<or> 16 < n then Inl Out_Of_Bounds
      else rbind (rd_mem buf i (nat n)) (\<lambda>bs. Inr (bs @ replicate (16 - nat n) 0)))"

text \<open>The route distinguisher at \<open>i\<close>, \<open>None\<close> for an unknown type. Its fields are stored in host
  order. \<^verbatim>\<open>struct rd_as4\<close> has ten bytes, two more than the \<^verbatim>\<open>rd_t\<close> it is written to.\<close>

definition rd_distinguisher :: "byte list \<Rightarrow> nat \<Rightarrow> byte list option res" where
  "rd_distinguisher buf i =
     rbind (rd_be16 buf i) (\<lambda>ty.
       if ty = RD_TYPE_AS then
         rbind (rd_be16 buf (i + 2)) (\<lambda>as. rbind (rd_be32 buf (i + 4)) (\<lambda>val.
           Inr (Some (rev (put_be16 ty) @ rev (put_be16 as) @ rev (put_be32 val)))))
       else if ty = RD_TYPE_IP then
         rbind (rd_mem buf (i + 2) 4) (\<lambda>ip. rbind (rd_be16 buf (i + 6)) (\<lambda>val.
           Inr (Some (rev (put_be16 ty) @ ip @ rev (put_be16 val)))))
       else if ty = RD_TYPE_AS4 then Inl Out_Of_Bounds
       else Inr None)"

text \<open>The sizes that the three branches check: the longest prefix of the family, and the bits of
  label and distinguisher before it.\<close>

definition nlri_max :: "u16 \<Rightarrow> nat" where
  "nlri_max afi = (if afi = AFI_IP then 32 else if afi = AFI_IP6 then 128 else 255)"

definition nlri_skip :: "byte \<Rightarrow> nat" where
  "nlri_skip safi = (if safi = SAFI_MPLS_LABEL then 3 else if safi = SAFI_MPLS_VPN then 11 else 0)"

text \<open>One turn of the loop up to the call of the RIB, \<open>None\<close> where the code returns \<^verbatim>\<open>ERR\<close>. The
  callers pass unicast, labelled unicast and VPN families only; \<open>Bgp_Update\<close> has the tests. The
  local variables that survive from turn to turn are those of the item before.\<close>

definition nlri_next :: "bool \<Rightarrow> byte list \<Rightarrow> bgp_nlri \<Rightarrow> nlri_item \<Rightarrow> nlri_item option res" where
  "nlri_next add_paths buf info it =
     rbind (if add_paths then rbind (rd_be32 buf (it_pos it)) (\<lambda>x. Inr (x, it_pos it + 4))
            else Inr (it_path_id it, it_pos it)) (\<lambda>(pid, i).
     rbind (rd8 buf i) (\<lambda>plen.
       let j = i + 1; end1 = it_end it - 1; family = afi2family (uint (nl_afi info));
           skip = nlri_skip (nl_safi info); psize = (unat plen + 7) div 8
       in if nl_afi info \<in> {AFI_IP, AFI_IP6} \<and> nlri_max (nl_afi info) + 8 * skip < unat plen then Inr None
          else if end1 < int psize then Inr None
          else
            rbind (if 0 < skip then rd_mem buf j 3 else Inr (it_label it)) (\<lambda>label.
            rbind (if nl_safi info = SAFI_MPLS_VPN then rd_distinguisher buf (j + 3) else Inr (Some (it_rd it))) (\<lambda>rd.
              case rd of
                None \<Rightarrow> Inr None
              | Some rd1 \<Rightarrow>
                  rbind (rd_prefix buf (j + skip) (int psize - int skip)) (\<lambda>u.
                    Inr (Some \<lparr>it_p = \<lparr>pfx_family = family, pfx_len = unat (plen - word_of_nat (8 * skip)), pfx_u = u\<rparr>,
                               it_path_id = pid, it_rd = rd1, it_label = label, it_pos = j + psize, it_end = end1\<rparr>))))))"

section \<open>The loop\<close>

text \<open>The call of \<^verbatim>\<open>bgp_process_update\<close> or, without attributes, of \<^verbatim>\<open>bgp_process_withdraw\<close>; their
  codes are not looked at.\<close>

definition nlri_process :: "bgp_daemon \<Rightarrow> bgp_peer \<Rightarrow> bgp_msg_extra \<Rightarrow> bgp_db \<Rightarrow> bgp_attr option \<Rightarrow> bgp_nlri \<Rightarrow> nlri_item \<Rightarrow>
    (bgp_attr option \<times> bgp_db) res" where
  "nlri_process bms peer extra d attr info it =
     (case attr of
        Some at \<Rightarrow>
          rbind (bgp_process_update bms peer extra d (it_p it) at (nl_afi info) (nl_safi info) (it_rd it) (it_path_id it) (it_label it))
            (\<lambda>(ret, at1, d1). Inr (Some at1, d1))
      | None \<Rightarrow>
          rbind (bgp_process_withdraw bms peer extra d (it_p it) (nl_afi info) (nl_safi info) (it_rd it) (it_path_id it) (it_label it))
            (\<lambda>(ret, d1). Inr (None, d1)))"

lemma nlri_next_pos: "nlri_next ap buf info it = Inr (Some it') \<Longrightarrow> it_pos it < it_pos it'"
proof -
  assume a: "nlri_next ap buf info it = Inr (Some it')"
  obtain pid i where i: "(if ap then rbind (rd_be32 buf (it_pos it)) (\<lambda>x. Inr (x, it_pos it + 4))
      else Inr (it_path_id it, it_pos it)) = Inr (pid, i)"
    using a unfolding nlri_next_def by (cases ap) auto
  have "it_pos it \<le> i" using i by (cases ap) auto
  moreover have "\<exists>n. it_pos it' = i + 1 + n"
    using a unfolding nlri_next_def i rbind_simps
    by (simp add: Let_def split: if_split_asm option.split_asm) auto
  ultimately show ?thesis by auto
qed

function nlri_loop :: "bgp_daemon \<Rightarrow> bgp_peer \<Rightarrow> bgp_msg_extra \<Rightarrow> byte list \<Rightarrow> bgp_nlri \<Rightarrow> nat \<Rightarrow> bgp_db \<Rightarrow> bgp_attr option \<Rightarrow>
    nlri_item \<Rightarrow> (int \<times> bgp_attr option \<times> bgp_db) res" where
  "nlri_loop bms peer extra buf info lim d attr it =
     (if \<not> it_pos it < lim then Inr (SUCCESS, attr, d)
      else rbind (nlri_next (pe_cap_add_paths peer) buf info it) (\<lambda>r.
        case r of
          None \<Rightarrow> Inr (ERR, attr, d)
        | Some it1 \<Rightarrow> rbind (nlri_process bms peer extra d attr info it1) (\<lambda>(attr1, d1).
            nlri_loop bms peer extra buf info lim d1 attr1 it1)))"
  by (pat_completeness, elim Pair_inject, simp only:)
termination
proof (relation "measure (\<lambda>(_, _, _, _, _, lim, _, _, it). lim - it_pos it)", goal_cases)
  case (2 bms peer extra buf info lim d attr it r it1 x attr1 d1)
  then have "it_pos it < it_pos it1" by (intro nlri_next_pos) simp
  with 2(1) show ?case by simp
qed simp

declare nlri_loop.simps [simp del]

definition nlri_start :: "bgp_nlri \<Rightarrow> nlri_item" where
  "nlri_start info = \<lparr>it_p = \<lparr>pfx_family = 0, pfx_len = 0, pfx_u = replicate 16 0\<rparr>, it_path_id = 0, it_rd = replicate 8 0,
     it_label = replicate 3 0, it_pos = nl_pos info, it_end = int (unat (nl_length info))\<rparr>"

definition bgp_nlri_parse :: "bgp_daemon \<Rightarrow> bgp_peer \<Rightarrow> bgp_msg_extra \<Rightarrow> byte list \<Rightarrow> bgp_db \<Rightarrow> bgp_attr option \<Rightarrow> bgp_nlri \<Rightarrow>
    (int \<times> bgp_attr option \<times> bgp_db) res" where
  "bgp_nlri_parse bms peer extra buf d attr info =
     nlri_loop bms peer extra buf info (nl_pos info + unat (nl_length info)) d attr (nlri_start info)"

end
