(* ===== verification/Wire.thy ===== *)
theory Wire
  imports Prelude
begin

text \<open>
  What stands in a buffer at an offset: the connection between an encoding, a list of bytes built
  with \<open>@\<close>, and the reads at increasing offsets by which the sources decode it.
\<close>

definition buf_at :: "byte list \<Rightarrow> nat \<Rightarrow> byte list \<Rightarrow> bool" where
  "buf_at buf i xs \<longleftrightarrow> i + length xs \<le> length buf \<and> take (length xs) (drop i buf) = xs"

lemma buf_at_append [simp]: "buf_at buf i (xs @ ys) \<longleftrightarrow> buf_at buf i xs \<and> buf_at buf (i + length xs) ys"
  by (auto simp: buf_at_def take_add add.commute append_eq_append_conv)

lemma buf_at_Nil: "buf_at buf i [] \<longleftrightarrow> i \<le> length buf"
  by (simp add: buf_at_def)

lemma buf_at_rd8: "buf_at buf i (x # xs) \<Longrightarrow> rd8 buf i = Inr x"
  by (cases "drop i buf") (auto simp: buf_at_def rd8_def nth_via_drop)

lemma buf_at_Cons: "buf_at buf i (x # xs) \<Longrightarrow> buf_at buf (Suc i) xs"
  using buf_at_append [of buf i "[x]" xs] by simp

lemma buf_at_rd_mem: "buf_at buf i xs \<Longrightarrow> length xs = n \<Longrightarrow> rd_mem buf i n = Inr xs"
  by (auto simp: buf_at_def)

lemma buf_at_rd8s:
  assumes "buf_at buf i [a, b]"
  shows "rd8 buf i = Inr a" "rd8 buf (i + 1) = Inr b"
  using buf_at_rd8 [OF assms] buf_at_rd8 [OF buf_at_Cons [OF assms]] by simp_all

lemma buf_at_rd_be16: "buf_at buf i [a, b] \<Longrightarrow> rd_be16 buf i = Inr (be16 a b)"
  using buf_at_rd8s by (simp add: rd_be16_def)

lemma buf_at_rd_be32: "buf_at buf i [a, b, c, d] \<Longrightarrow> rd_be32 buf i = Inr (be32 a b c d)"
proof -
  assume "buf_at buf i [a, b, c, d]"
  then have "buf_at buf i ([a, b] @ [c, d])" by simp
  then have "buf_at buf i [a, b]" "buf_at buf (i + 2) [c, d]" by (simp_all del: append_Cons)
  then have "rd8 buf i = Inr a" "rd8 buf (i + 1) = Inr b" "rd8 buf (i + 2) = Inr c" "rd8 buf (i + 2 + 1) = Inr d"
    by (auto dest: buf_at_rd8s)
  moreover have "i + 2 + 1 = i + 3" by simp
  ultimately show ?thesis unfolding rd_be32_def by (simp only: rbind_simps)
qed

lemma buf_at_put_be16: "buf_at buf i (put_be16 w) \<Longrightarrow> rd_be16 buf i = Inr w"
  using buf_at_rd_be16 [of buf i] be16_put [of w] by (simp add: put_be16_def)

lemma buf_at_put_be32: "buf_at buf i (put_be32 w) \<Longrightarrow> rd_be32 buf i = Inr w"
  using buf_at_rd_be32 [of buf i] be32_put [of w] by (simp add: put_be32_def)

lemma put_be16_length [simp]: "length (put_be16 w) = 2"
  by (simp add: put_be16_def)

lemma length_two: "length xs = 2 \<Longrightarrow> \<exists>a b. xs = [a, b]"
  by (cases xs; cases "tl xs") auto

lemma length_four: "length xs = 4 \<Longrightarrow> \<exists>a b c d. xs = [a, b, c, d]"
  by (auto simp: length_Suc_conv eval_nat_numeral)

lemma buf_at_be16_list: "buf_at buf i xs \<Longrightarrow> length xs = 2 \<Longrightarrow> \<exists>w. rd_be16 buf i = Inr w \<and> put_be16 w = xs"
  using length_two [of xs] buf_at_rd_be16 put_be16_be16 by metis

lemma buf_at_be32_list: "buf_at buf i xs \<Longrightarrow> length xs = 4 \<Longrightarrow> \<exists>w. rd_be32 buf i = Inr w \<and> put_be32 w = xs"
  using length_four [of xs] buf_at_rd_be32 put_be32_be32 by metis

end
