(* ===== verification/Bgp_Nlri_Props.thy ===== *)
theory Bgp_Nlri_Props
  imports Bgp_Nlri Bgp_Rib_Ops Wire
begin

text \<open>
  The wire format of reachability information and what \<^verbatim>\<open>bgp_nlri_parse\<close> of
  \<^verbatim>\<open>src/src/bgp/bgp_msg.c\<close> makes of it: every encoded route reaches the RIB, in order. The bounds
  of the loop are weaker than they look, and two encodings make it leave its buffers.
\<close>

section \<open>The wire format\<close>

record wire_route =
  wr_path_id :: u32
  wr_label :: "byte list"
  wr_rd :: "byte list"
  wr_p :: prefix_t

definition pfx_bytes :: "prefix_t \<Rightarrow> nat" where
  "pfx_bytes p = (pfx_len p + 7) div 8"

definition enc_route :: "bool \<Rightarrow> byte \<Rightarrow> wire_route \<Rightarrow> byte list" where
  "enc_route ap safi w =
     (if ap then put_be32 (wr_path_id w) else []) @ [word_of_nat (pfx_len (wr_p w) + 8 * nlri_skip safi)] @
     (if safi = SAFI_MPLS_LABEL \<or> safi = SAFI_MPLS_VPN then wr_label w else []) @
     (if safi = SAFI_MPLS_VPN then wr_rd w else []) @ take (pfx_bytes (wr_p w)) (pfx_u (wr_p w))"

text \<open>A route that can be sent for a family: no bytes after the prefix, a label of three bytes and,
  for VPN routes, a distinguisher of type 0 or 1.\<close>

definition wire_route :: "u16 \<Rightarrow> byte \<Rightarrow> wire_route \<Rightarrow> bool" where
  "wire_route afi safi w \<longleftrightarrow> wf_prefix (wr_p w) \<and> pfx_family (wr_p w) = afi_family afi \<and>
     drop (pfx_bytes (wr_p w)) (pfx_u (wr_p w)) = replicate (16 - pfx_bytes (wr_p w)) 0 \<and>
     length (wr_label w) = 3 \<and> length (wr_rd w) = 8 \<and> wr_rd w ! 0 = 0 \<and> wr_rd w ! 1 < 2"

definition host_rd :: "byte list \<Rightarrow> byte list" where
  "host_rd rd = rev (take 2 rd) @
     (if rd ! 1 = 0 then rev (take 2 (drop 2 rd)) @ rev (drop 4 rd) else take 4 (drop 2 rd) @ rev (drop 6 rd))"

text \<open>The route as the RIB gets it.\<close>

definition wire_item :: "bool \<Rightarrow> byte \<Rightarrow> wire_route \<Rightarrow> nat \<Rightarrow> int \<Rightarrow> nlri_item \<Rightarrow> nlri_item" where
  "wire_item ap safi w pnt e it =
     \<lparr>it_p = wr_p w, it_path_id = (if ap then wr_path_id w else it_path_id it),
      it_rd = (if safi = SAFI_MPLS_VPN then host_rd (wr_rd w) else it_rd it),
      it_label = (if safi = SAFI_MPLS_LABEL \<or> safi = SAFI_MPLS_VPN then wr_label w else it_label it), it_pos = pnt, it_end = e\<rparr>"

definition nlri_safi :: "byte \<Rightarrow> bool" where
  "nlri_safi safi \<longleftrightarrow> safi = SAFI_UNICAST \<or> safi = SAFI_MPLS_LABEL \<or> safi = SAFI_MPLS_VPN"

lemmas safi_defs = SAFI_UNICAST_def SAFI_MPLS_LABEL_def SAFI_MPLS_VPN_def

lemma nlri_skip_simps [simp]:
  "nlri_skip SAFI_UNICAST = 0" "nlri_skip SAFI_MPLS_LABEL = 3" "nlri_skip SAFI_MPLS_VPN = 11"
  by (simp_all add: nlri_skip_def safi_defs)

lemma safi_neq [simp]:
  "SAFI_UNICAST \<noteq> SAFI_MPLS_LABEL" "SAFI_UNICAST \<noteq> SAFI_MPLS_VPN" "SAFI_MPLS_LABEL \<noteq> SAFI_MPLS_VPN"
  "SAFI_MPLS_LABEL \<noteq> SAFI_UNICAST" "SAFI_MPLS_VPN \<noteq> SAFI_UNICAST" "SAFI_MPLS_VPN \<noteq> SAFI_MPLS_LABEL"
  by (simp_all add: safi_defs)

lemma safi_less: "nlri_safi safi \<Longrightarrow> safi < SAFI_MAX"
  by (auto simp: nlri_safi_def safi_defs SAFI_MAX_def)

section \<open>Reading an encoded route\<close>

lemma pfx_bytes_bound: "wf_prefix p \<Longrightarrow> pfx_bytes p \<le> 16"
  by (auto simp: wf_prefix_def pfx_bytes_def)

lemma afi_family_eq: "afi = AFI_IP \<or> afi = AFI_IP6 \<Longrightarrow> afi2family (uint afi) = afi_family afi"
  by (auto simp: afi2family_def afi_family_def AFI_IP_def AFI_IP6_def)

lemma length_eight: "length xs = 8 \<Longrightarrow> \<exists>a b c d e f g h. xs = [a, b, c, d, e, f, g, h]"
  by (auto simp: length_Suc_conv eval_nat_numeral)

lemma rd_distinguisher_wire:
  assumes "buf_at buf i rd" "length rd = 8" "rd ! 0 = 0" "rd ! 1 < 2"
  shows "rd_distinguisher buf i = Inr (Some (host_rd rd))"
proof -
  obtain a b c d e f g h where rd: "rd = [a, b, c, d, e, f, g, h]" using length_eight [OF assms(2)] by blast
  have "rd = [a, b] @ [c, d] @ [e, f, g, h]" "rd = [a, b] @ [c, d, e, f] @ [g, h]" by (simp_all add: rd)
  then have at: "buf_at buf i ([a, b] @ [c, d] @ [e, f, g, h])" "buf_at buf i ([a, b] @ [c, d, e, f] @ [g, h])"
    using assms(1) by metis+
  have ty: "rd_be16 buf i = Inr (be16 a b)" using at(1) buf_at_append buf_at_rd_be16 by blast
  have "buf_at buf (i + 2) [c, d]" "buf_at buf (i + 4) [e, f, g, h]"
    using at(1) unfolding buf_at_append by (simp_all add: numeral_eq_Suc)
  then have as: "rd_be16 buf (i + 2) = Inr (be16 c d)" "rd_be32 buf (i + 4) = Inr (be32 e f g h)"
    by (simp_all only: buf_at_rd_be16 buf_at_rd_be32)
  have "buf_at buf (i + 2) [c, d, e, f]" "buf_at buf (i + 6) [g, h]"
    using at(2) unfolding buf_at_append by (simp_all add: numeral_eq_Suc)
  then have ip: "rd_mem buf (i + 2) 4 = Inr [c, d, e, f]" "rd_be16 buf (i + 6) = Inr (be16 g h)"
    by (simp_all only: buf_at_rd_be16) (rule buf_at_rd_mem, simp_all)
  have a: "a = 0" using assms(3) by (simp add: rd)
  have "unat b < 2" using assms(4) by (simp add: rd word_less_nat_alt)
  then have "b = 0 \<or> b = 1" by (auto simp: word_unat_eq_iff)
  then show ?thesis
  proof
    assume b: "b = 0"
    have "be16 a b = RD_TYPE_AS" by (simp add: a b be16_def RD_TYPE_AS_def)
    then show ?thesis
      unfolding rd_distinguisher_def ty rbind_simps as
      by (simp add: put_be16_be16 put_be32_be32 host_rd_def rd b flip: \<open>be16 a b = RD_TYPE_AS\<close>)
  next
    assume b: "b = 1"
    have "be16 a b = RD_TYPE_IP" by (simp add: a b be16_def RD_TYPE_IP_def)
    moreover have "RD_TYPE_IP \<noteq> RD_TYPE_AS" by (simp add: RD_TYPE_IP_def RD_TYPE_AS_def)
    ultimately show ?thesis
      unfolding rd_distinguisher_def ty rbind_simps ip
      by (simp add: put_be16_be16 host_rd_def rd b flip: \<open>be16 a b = RD_TYPE_IP\<close>)
  qed
qed

lemma enc_route_parts:
  assumes "buf_at buf i (enc_route ap safi w)" "wire_route afi safi w" "nlri_safi safi"
  defines "j \<equiv> i + (if ap then 4 else 0)"
  defines "skip \<equiv> nlri_skip safi"
  shows "ap \<Longrightarrow> rd_be32 buf i = Inr (wr_path_id w)" "rd8 buf j = Inr (word_of_nat (pfx_len (wr_p w) + 8 * skip))"
    "0 < skip \<Longrightarrow> rd_mem buf (j + 1) 3 = Inr (wr_label w)" "safi = SAFI_MPLS_VPN \<Longrightarrow> buf_at buf (j + 1 + 3) (wr_rd w)"
    "buf_at buf (j + 1 + skip) (take (pfx_bytes (wr_p w)) (pfx_u (wr_p w)))"
    "length (enc_route ap safi w) = j - i + 1 + skip + pfx_bytes (wr_p w)"
proof -
  define X where "X = (if ap then put_be32 (wr_path_id w) else [])"
  define L where "L = (if safi = SAFI_MPLS_LABEL \<or> safi = SAFI_MPLS_VPN then wr_label w else [])"
  define D where "D = (if safi = SAFI_MPLS_VPN then wr_rd w else [])"
  define U where "U = take (pfx_bytes (wr_p w)) (pfx_u (wr_p w))"
  define pl where "pl = (word_of_nat (pfx_len (wr_p w) + 8 * skip) :: byte)"
  have enc: "enc_route ap safi w = X @ [pl] @ L @ D @ U"
    by (simp add: enc_route_def X_def L_def D_def U_def pl_def skip_def del: of_nat_add of_nat_mult)
  have at: "buf_at buf i X" "buf_at buf (i + length X) [pl]" "buf_at buf (i + length X + length [pl]) L"
      "buf_at buf (i + length X + length [pl] + length L) D"
      "buf_at buf (i + length X + length [pl] + length L + length D) U"
    using assms(1) unfolding enc buf_at_append by blast+
  have len: "length (wr_label w) = 3" "length (wr_rd w) = 8" "length U = pfx_bytes (wr_p w)"
    using assms(2) pfx_bytes_bound by (auto simp: wire_route_def wf_prefix_def U_def)
  have j: "i + length X = j" "length X = j - i" by (simp_all add: X_def j_def)
  have s: "safi = SAFI_UNICAST \<or> safi = SAFI_MPLS_LABEL \<or> safi = SAFI_MPLS_VPN" using assms(3) by (simp add: nlri_safi_def)
  have skip: "length L + length D = skip" using s len by (auto simp: L_def D_def skip_def)
  show "ap \<Longrightarrow> rd_be32 buf i = Inr (wr_path_id w)" using at(1) by (simp add: X_def buf_at_put_be32)
  show "rd8 buf j = Inr (word_of_nat (pfx_len (wr_p w) + 8 * skip))"
    using at(2) unfolding j(1) pl_def by (rule buf_at_rd8)
  show "rd_mem buf (j + 1) 3 = Inr (wr_label w)" if "0 < skip"
  proof -
    have "L = wr_label w" using that s by (auto simp: L_def skip_def)
    then show ?thesis using buf_at_rd_mem [OF at(3), of 3] len(1) by (simp add: j(1))
  qed
  show "buf_at buf (j + 1 + 3) (wr_rd w)" if "safi = SAFI_MPLS_VPN"
    using at(4) that len(1) by (simp add: j(1) D_def L_def add.assoc)
  show "buf_at buf (j + 1 + skip) (take (pfx_bytes (wr_p w)) (pfx_u (wr_p w)))"
    using at(5) unfolding j(1) U_def [symmetric] skip [symmetric] by (simp add: add.assoc)
  show "length (enc_route ap safi w) = j - i + 1 + skip + pfx_bytes (wr_p w)"
    unfolding enc skip [symmetric] using j(2) len(3) by simp
qed

lemma nlri_next_enc:
  assumes at: "buf_at buf (it_pos it) (enc_route ap safi w)" and w: "wire_route afi safi w"
    and info: "nl_afi info = afi" "nl_safi info = safi" and fam: "afi = AFI_IP \<or> afi = AFI_IP6" "nlri_safi safi"
    and e: "int (length (enc_route ap safi w)) \<le> it_end it"
  shows "nlri_next ap buf info it =
    Inr (Some (wire_item ap safi w (it_pos it + length (enc_route ap safi w)) (it_end it - 1) it))"
proof -
  define j where "j = it_pos it + (if ap then 4 else 0)"
  define skip where "skip = nlri_skip safi"
  define n where "n = pfx_bytes (wr_p w)"
  note part = enc_route_parts [OF at w fam(2), folded j_def skip_def n_def]
  have p: "wf_prefix (wr_p w)" "pfx_family (wr_p w) = afi_family afi"
      "drop n (pfx_u (wr_p w)) = replicate (16 - n) 0" using w by (simp_all add: wire_route_def n_def)
  have n16: "n \<le> 16" using pfx_bytes_bound [OF p(1)] by (simp add: n_def)
  have skip: "skip \<le> 11" using fam(2) by (auto simp: skip_def nlri_safi_def)
  have max: "pfx_len (wr_p w) \<le> nlri_max afi" "nlri_max afi \<le> 128"
    using p(1,2) fam(1) by (auto simp: wf_prefix_def nlri_max_def afi_family_def AFI_IP_def AFI_IP6_def af_defs)
  define plen where "plen = (word_of_nat (pfx_len (wr_p w) + 8 * skip) :: byte)"
  have lt: "pfx_len (wr_p w) + 8 * skip < 256" using max skip by simp
  then have plen: "unat plen = pfx_len (wr_p w) + 8 * skip"
    unfolding plen_def unat_byte_of_nat by (rule mod_less)
  have psize: "(unat plen + 7) div 8 = skip + n"
    unfolding plen n_def pfx_bytes_def by simp
  have sub: "unat (plen - word_of_nat (8 * skip)) = pfx_len (wr_p w)"
  proof -
    have "plen - word_of_nat (8 * skip) = word_of_nat (pfx_len (wr_p w))" by (simp add: plen_def)
    then show ?thesis using max unat_byte_of_nat [of "pfx_len (wr_p w)"] by simp
  qed
  have first: "(if ap then rbind (rd_be32 buf (it_pos it)) (\<lambda>x. Inr (x, it_pos it + 4)) else Inr (it_path_id it, it_pos it)) =
      Inr (if ap then wr_path_id w else it_path_id it, j)"
    using part(1) by (simp add: j_def)
  have label: "(if 0 < skip then rd_mem buf (j + 1) 3 else Inr (it_label it)) =
      Inr (if safi = SAFI_MPLS_LABEL \<or> safi = SAFI_MPLS_VPN then wr_label w else it_label it)"
    using part(3) fam(2) by (auto simp: skip_def nlri_safi_def)
  have rd: "(if safi = SAFI_MPLS_VPN then rd_distinguisher buf (j + 1 + 3) else Inr (Some (it_rd it))) =
      Inr (Some (if safi = SAFI_MPLS_VPN then host_rd (wr_rd w) else it_rd it))"
    using rd_distinguisher_wire [OF part(4)] w by (simp add: wire_route_def)
  have u: "rd_prefix buf (j + 1 + skip) (int (skip + n) - int skip) = Inr (pfx_u (wr_p w))"
  proof -
    have "length (take n (pfx_u (wr_p w))) = n" using p(1) n16 by (simp add: wf_prefix_def)
    then have "rd_mem buf (j + 1 + skip) n = Inr (take n (pfx_u (wr_p w)))" using part(5) by (intro buf_at_rd_mem)
    then show ?thesis
      using n16 p(3) by (simp add: rd_prefix_def) (metis append_take_drop_id)
  qed
  have len: "length (enc_route ap safi w) = j - it_pos it + 1 + skip + n" using part(6) .
  have pos: "Suc (j + (skip + n)) = it_pos it + length (enc_route ap safi w)" unfolding len by (simp add: j_def)
  have ok: "\<not> (afi \<in> {AFI_IP, AFI_IP6} \<and> nlri_max afi + 8 * skip < unat plen)" using plen max by simp
  have e1: "\<not> it_end it - 1 < int (skip + n)" using e len by simp
  show ?thesis
    unfolding nlri_next_def first rbind_simps prod.case part(2) plen_def [symmetric] Let_def info psize skip_def [symmetric]
      label rd
    using ok e1 u sub by (simp add: wire_item_def afi_family_eq [OF fam(1)] pos flip: p(2))
qed

section \<open>The loop over encoded routes\<close>

text \<open>The route \<open>w\<close> as it is handed to the RIB, and the loop without the buffer.\<close>

definition sent_item :: "bool \<Rightarrow> byte \<Rightarrow> wire_route \<Rightarrow> nlri_item" where
  "sent_item ap safi w = wire_item ap safi w 0 0 (nlri_start bgp_nlri_zero)"

fun nlri_run :: "bgp_daemon \<Rightarrow> bgp_peer \<Rightarrow> bgp_msg_extra \<Rightarrow> bgp_nlri \<Rightarrow> bgp_db \<Rightarrow> bgp_attr option \<Rightarrow> wire_route list \<Rightarrow>
    (bgp_attr option \<times> bgp_db) res" where
  "nlri_run bms peer extra info d attr [] = Inr (attr, d)"
| "nlri_run bms peer extra info d attr (w # ws) =
     rbind (nlri_process bms peer extra d attr info (sent_item (pe_cap_add_paths peer) (nl_safi info) w))
       (\<lambda>(attr1, d1). nlri_run bms peer extra info d1 attr1 ws)"

text \<open>A local that the family does not use keeps its first value.\<close>

definition unused_zero :: "bool \<Rightarrow> byte \<Rightarrow> nlri_item \<Rightarrow> bool" where
  "unused_zero ap safi it \<longleftrightarrow> (\<not> ap \<longrightarrow> it_path_id it = 0) \<and> (safi \<noteq> SAFI_MPLS_VPN \<longrightarrow> it_rd it = replicate 8 0) \<and>
     (\<not> (safi = SAFI_MPLS_LABEL \<or> safi = SAFI_MPLS_VPN) \<longrightarrow> it_label it = replicate 3 0)"

lemma unused_zero_start: "unused_zero ap safi (nlri_start info)"
  by (simp add: unused_zero_def nlri_start_def)

lemma unused_zero_wire: "unused_zero ap safi it \<Longrightarrow> unused_zero ap safi (wire_item ap safi w pnt e it)"
  by (simp add: unused_zero_def wire_item_def)

lemma process_wire_item:
  assumes "unused_zero ap safi it"
  shows "nlri_process bms peer extra d attr info (wire_item ap safi w pnt e it) =
    nlri_process bms peer extra d attr info (sent_item ap safi w)"
proof -
  have "it_path_id (wire_item ap safi w pnt e it) = it_path_id (sent_item ap safi w)"
    "it_rd (wire_item ap safi w pnt e it) = it_rd (sent_item ap safi w)"
    "it_label (wire_item ap safi w pnt e it) = it_label (sent_item ap safi w)"
    "it_p (wire_item ap safi w pnt e it) = it_p (sent_item ap safi w)"
    using assms by (simp_all add: wire_item_def sent_item_def nlri_start_def unused_zero_def)
  then show ?thesis by (simp only: nlri_process_def)
qed

lemma enc_route_pos: "0 < length (enc_route ap safi w)"
  by (simp add: enc_route_def)

lemma nlri_loop_step:
  assumes "buf_at buf (it_pos it) (enc_route ap safi w)" "wire_route afi safi w"
    and "nl_afi info = afi" "nl_safi info = safi" "afi = AFI_IP \<or> afi = AFI_IP6" "nlri_safi safi"
    and "int (length (enc_route ap safi w)) \<le> it_end it"
    and lt: "it_pos it < lim" and z: "unused_zero ap safi it" and ap: "ap = pe_cap_add_paths peer"
  shows "nlri_loop bms peer extra buf info lim d attr it =
    rbind (nlri_process bms peer extra d attr info (sent_item ap safi w)) (\<lambda>(attr1, d1).
      nlri_loop bms peer extra buf info lim d1 attr1
        (wire_item ap safi w (it_pos it + length (enc_route ap safi w)) (it_end it - 1) it))"
  unfolding nlri_loop.simps [of bms peer extra buf info lim d attr it] ap [symmetric] nlri_next_enc [OF assms(1-7)]
  using lt by (simp add: process_wire_item [OF z])

lemma nlri_loop_enc:
  assumes "buf_at buf (it_pos it) (concat (map (enc_route ap safi) ws))" "list_all (wire_route afi safi) ws"
    and "nl_afi info = afi" "nl_safi info = safi" "afi = AFI_IP \<or> afi = AFI_IP6" "nlri_safi safi"
    and "int (length (concat (map (enc_route ap safi) ws))) \<le> it_end it"
    and "lim = it_pos it + length (concat (map (enc_route ap safi) ws))" "unused_zero ap safi it" "ap = pe_cap_add_paths peer"
  shows "nlri_loop bms peer extra buf info lim d attr it =
    rbind (nlri_run bms peer extra info d attr ws) (\<lambda>r. Inr (SUCCESS, r))"
  using assms(1,2,7-9)
proof (induction ws arbitrary: it d attr)
  case Nil
  then show ?case by (simp add: nlri_loop.simps [of bms peer extra buf info "it_pos it"])
next
  case (Cons w ws)
  let ?n = "length (enc_route ap safi w)"
  have at: "buf_at buf (it_pos it) (enc_route ap safi w)" "buf_at buf (it_pos it + ?n) (concat (map (enc_route ap safi) ws))"
    and w: "wire_route afi safi w" "list_all (wire_route afi safi) ws" using Cons.prems(1,2) by simp_all
  have e: "int ?n \<le> it_end it" "int (length (concat (map (enc_route ap safi) ws))) \<le> it_end it - 1"
    using Cons.prems(3) enc_route_pos [of ap safi w] by (simp, simp del: length_greater_0_conv)
  define it1 where "it1 = wire_item ap safi w (it_pos it + ?n) (it_end it - 1) it"
  have it1: "it_pos it1 = it_pos it + ?n" "it_end it1 = it_end it - 1" by (simp_all add: it1_def wire_item_def)
  have IH: "nlri_loop bms peer extra buf info lim d1 attr1 it1 =
      rbind (nlri_run bms peer extra info d1 attr1 ws) (\<lambda>r. Inr (SUCCESS, r))" for d1 attr1
    using at(2) w(2) e(2) Cons.prems(4) unused_zero_wire [OF Cons.prems(5)]
    by (intro Cons.IH) (simp_all add: it1, simp add: it1_def)
  have lt: "it_pos it < lim" using Cons.prems(4) enc_route_pos [of ap safi w] by simp
  show ?case
    unfolding nlri_loop_step [OF at(1) w(1) assms(3-6) e(1) lt Cons.prems(5) assms(10)] it1_def [symmetric]
    using assms(4,10) by (cases "nlri_process bms peer extra d attr info (sent_item ap safi w)") (auto simp: IH)
qed

section \<open>The table after the message\<close>

text \<open>The map of routes after an announcement or a withdrawal of \<open>w\<close>.\<close>

type_synonym routes = "u16 \<Rightarrow> byte \<Rightarrow> bool list \<Rightarrow> nat \<Rightarrow> rib_route list"

definition route_change :: "bgp_daemon \<Rightarrow> bgp_peer \<Rightarrow> bgp_msg_extra \<Rightarrow> u16 \<Rightarrow> byte \<Rightarrow> bgp_attr option \<Rightarrow> wire_route \<Rightarrow> routes \<Rightarrow> routes" where
  "route_change bms peer extra afi safi attr w M =
     (let it = sent_item (pe_cap_add_paths peer) safi w in
      (\<lambda>afi' safi' q m.
        if afi' = afi \<and> safi' = safi \<and> q = pfx_bits (it_p it) \<and> m = route_slot bms peer (it_path_id it)
        then (case attr of
                Some at \<Rightarrow> install bms peer extra safi (it_rd it) (it_path_id it) (it_label it) (attr_val at) (M afi safi q m)
              | None \<Rightarrow> uninstall bms peer extra safi (it_rd it) (it_path_id it) (M afi safi q m))
        else M afi' safi' q m))"

text \<open>Room for \<open>n\<close> more routes.\<close>

definition db_space :: "bgp_attr list \<Rightarrow> bgp_db \<Rightarrow> nat \<Rightarrow> bool" where
  "db_space H d n \<longleftrightarrow> rib_count d (\<lambda>_. True) + length H + n + 2 < 2 ^ 32"

lemma process_item_ok:
  assumes ok: "db_ok bms H d" "db_space H d (Suc n)" and at: "\<And>at. attr = Some at \<Longrightarrow> at \<in> set H"
    and cfg: "config_ok bms" "\<not> skip_rib bms" "routing_db (ptype peer)" "misc_db (ptype peer)"
    and tab: "nl_afi info = AFI_IP \<or> nl_afi info = AFI_IP6" "nlri_safi (nl_safi info)" and w: "wire_route (nl_afi info) (nl_safi info) w"
  obtains d' where
    "nlri_process bms peer extra d attr info (sent_item (pe_cap_add_paths peer) (nl_safi info) w) = Inr (attr, d')"
    "db_ok bms H d'" "db_space H d' n"
    "db_bucket d' = route_change bms peer extra (nl_afi info) (nl_safi info) attr w (db_bucket d)"
proof -
  define it where "it = sent_item (pe_cap_add_paths peer) (nl_safi info) w"
  have p: "wf_prefix (it_p it)" "pfx_family (it_p it) = afi_family (nl_afi info)"
    using w by (simp_all add: it_def sent_item_def wire_item_def wire_route_def)
  have room: "db_room H d" using ok(2) by (simp add: db_room_def db_space_def)
  show ?thesis
  proof (cases attr)
    case (Some a)
    obtain d' where d': "bgp_process_update bms peer extra d (it_p it) a (nl_afi info) (nl_safi info) (it_rd it) (it_path_id it)
          (it_label it) = Inr (SUCCESS, a, d')" "db_ok bms H d'" "rib_count d' (\<lambda>_. True) \<le> Suc (rib_count d (\<lambda>_. True))"
        "\<forall>afi' safi' q m. db_bucket d' afi' safi' q m =
        (if afi' = nl_afi info \<and> safi' = nl_safi info \<and> q = pfx_bits (it_p it) \<and> m = route_slot bms peer (it_path_id it)
         then install bms peer extra (nl_safi info) (it_rd it) (it_path_id it) (it_label it) (attr_val a) (db_bucket d (nl_afi info) (nl_safi info) q m)
         else db_bucket d afi' safi' q m)"
      using process_update_ok [OF ok(1) room at [OF Some] cfg tab(1) safi_less [OF tab(2)] p, of extra "it_rd it" "it_path_id it" "it_label it"]
      by blast
    show ?thesis
      by (rule that [of d'])
        (use d' ok(2) Some in \<open>simp_all add: nlri_process_def db_space_def route_change_def Let_def fun_eq_iff flip: it_def\<close>)
  next
    case None
    obtain d' where d': "bgp_process_withdraw bms peer extra d (it_p it) (nl_afi info) (nl_safi info) (it_rd it) (it_path_id it)
          (it_label it) = Inr (SUCCESS, d')" "db_ok bms H d'" "rib_count d' (\<lambda>_. True) \<le> rib_count d (\<lambda>_. True)"
        "\<forall>afi' safi' q m. db_bucket d' afi' safi' q m =
        (if afi' = nl_afi info \<and> safi' = nl_safi info \<and> q = pfx_bits (it_p it) \<and> m = route_slot bms peer (it_path_id it)
         then uninstall bms peer extra (nl_safi info) (it_rd it) (it_path_id it) (db_bucket d (nl_afi info) (nl_safi info) q m)
         else db_bucket d afi' safi' q m)"
      using process_withdraw_ok [OF ok(1) room cfg tab(1) safi_less [OF tab(2)] p, of extra "it_rd it" "it_path_id it" "it_label it"]
      by blast
    show ?thesis
      by (rule that [of d'])
        (use d' ok(2) None in \<open>simp_all add: nlri_process_def db_space_def route_change_def Let_def fun_eq_iff flip: it_def\<close>)
  qed
qed

lemma nlri_run_ok:
  assumes "db_ok bms H d" "db_space H d (length ws + k)" "\<And>at. attr = Some at \<Longrightarrow> at \<in> set H"
    and cfg: "config_ok bms" "\<not> skip_rib bms" "routing_db (ptype peer)" "misc_db (ptype peer)"
    and tab: "nl_afi info = AFI_IP \<or> nl_afi info = AFI_IP6" "nlri_safi (nl_safi info)"
    and "list_all (wire_route (nl_afi info) (nl_safi info)) ws"
  shows "\<exists>d'. nlri_run bms peer extra info d attr ws = Inr (attr, d') \<and> db_ok bms H d' \<and> db_space H d' k \<and>
    db_bucket d' = fold (route_change bms peer extra (nl_afi info) (nl_safi info) attr) ws (db_bucket d)"
  using assms(1,2,10)
proof (induction ws arbitrary: d)
  case (Cons w ws)
  then have sp: "db_space H d (Suc (length ws + k))" and w: "wire_route (nl_afi info) (nl_safi info) w" by simp_all
  obtain d1 where d1: "nlri_process bms peer extra d attr info (sent_item (pe_cap_add_paths peer) (nl_safi info) w) = Inr (attr, d1)"
    "db_ok bms H d1" "db_space H d1 (length ws + k)"
    "db_bucket d1 = route_change bms peer extra (nl_afi info) (nl_safi info) attr w (db_bucket d)"
    using process_item_ok [OF Cons.prems(1) sp assms(3) cfg tab w] by blast
  show ?case using Cons.IH [OF d1(2,3)] Cons.prems(3) d1(1) by (simp add: d1(4))
qed simp

lemma nlri_parse_ok:
  assumes "db_ok bms H d" "db_space H d (length ws + k)" "\<And>at. attr = Some at \<Longrightarrow> at \<in> set H"
    and "config_ok bms" "\<not> skip_rib bms" "routing_db (ptype peer)" "misc_db (ptype peer)"
    and "nl_afi info = AFI_IP \<or> nl_afi info = AFI_IP6" "nlri_safi (nl_safi info)"
    and "list_all (wire_route (nl_afi info) (nl_safi info)) ws"
    and "buf_at buf (nl_pos info) (concat (map (enc_route (pe_cap_add_paths peer) (nl_safi info)) ws))"
    and "unat (nl_length info) = length (concat (map (enc_route (pe_cap_add_paths peer) (nl_safi info)) ws))"
  shows "\<exists>d'. bgp_nlri_parse bms peer extra buf d attr info = Inr (SUCCESS, attr, d') \<and> db_ok bms H d' \<and> db_space H d' k \<and>
    db_bucket d' = fold (route_change bms peer extra (nl_afi info) (nl_safi info) attr) ws (db_bucket d)"
proof -
  have "bgp_nlri_parse bms peer extra buf d attr info =
      rbind (nlri_run bms peer extra info d attr ws) (\<lambda>r. Inr (SUCCESS, r))"
    unfolding bgp_nlri_parse_def
    by (rule nlri_loop_enc [where ap = "pe_cap_add_paths peer" and safi = "nl_safi info" and afi = "nl_afi info"])
      (use assms in \<open>simp_all add: nlri_start_def unused_zero_def\<close>)
  then show ?thesis using nlri_run_ok [OF assms(1-10)] by auto
qed

section \<open>The properties\<close>

text \<open>C11: reachability information that encodes a list of routes is read back completely and in order, for
  unicast, labelled and VPN families, with and without path identifiers: the map of routes becomes the one that
  results from announcing (or, without attributes, withdrawing) one route after the other. The
  distinguishers of VPN routes are of type 0 or 1: one of type 2 is written past the end of the local variable
  (\<^verbatim>\<open>struct rd_as4\<close> of \<^verbatim>\<open>src/src/network.h\<close> is too long).\<close>

theorem bgp_nlri_parse_encoded:
  assumes "db_ok bms H d" "db_space H d (length ws)" "\<And>at. attr = Some at \<Longrightarrow> at \<in> set H"
    and "config_ok bms" "\<not> skip_rib bms" "routing_db (ptype peer)" "misc_db (ptype peer)"
    and "nl_afi info = AFI_IP \<or> nl_afi info = AFI_IP6" "nlri_safi (nl_safi info)"
    and "list_all (wire_route (nl_afi info) (nl_safi info)) ws"
    and "buf_at buf (nl_pos info) (concat (map (enc_route (pe_cap_add_paths peer) (nl_safi info)) ws))"
    and "unat (nl_length info) = length (concat (map (enc_route (pe_cap_add_paths peer) (nl_safi info)) ws))"
  shows "\<exists>d'. bgp_nlri_parse bms peer extra buf d attr info = Inr (SUCCESS, attr, d') \<and> db_ok bms H d' \<and>
    db_bucket d' = fold (route_change bms peer extra (nl_afi info) (nl_safi info) attr) ws (db_bucket d)"
proof -
  have "db_space H d (length ws + 0)" using assms(2) by simp
  then show ?thesis using nlri_parse_ok [OF assms(1) _ assms(3-12), of 0] by blast
qed

definition ex_routes :: "wire_route list" where
  "ex_routes =
     [\<lparr>wr_path_id = 7, wr_label = [0, 1, 1], wr_rd = [0, 0, 0xFD, 0xE8, 0, 0, 0, 100], wr_p = ex_route\<rparr>,
      \<lparr>wr_path_id = 8, wr_label = [0, 1, 0x11], wr_rd = [0, 1, 10, 0, 0, 1, 0, 9],
       wr_p = \<lparr>pfx_family = AF_INET, pfx_len = 9, pfx_u = [10, 0x80] @ replicate 14 0\<rparr>\<rparr>]"

theorem bgp_nlri_parse_encoded_witness:
  "\<exists>d'. bgp_nlri_parse ex_daemon ex_peer ex_extra
      ([0, 0, 0, 7, 112, 0, 1, 1, 0, 0, 0xFD, 0xE8, 0, 0, 0, 100, 192, 0, 2,
        0, 0, 0, 8, 97, 0, 1, 0x11, 0, 1, 10, 0, 0, 1, 0, 9, 10, 0x80]) (bgp_db_init 64) (Some ex_attr)
      \<lparr>nl_afi = AFI_IP, nl_safi = SAFI_MPLS_VPN, nl_pos = 0, nl_length = 37\<rparr> = Inr (SUCCESS, Some ex_attr, d') \<and>
    db_bucket d' AFI_IP SAFI_MPLS_VPN (pfx_bits ex_route) 10 =
      [\<lparr>r_peer = 77, r_attr = Some ex_attr,
        r_extra = Some \<lparr>ie_rd = [0, 0, 0xE8, 0xFD, 100, 0, 0, 0], ie_label = [0, 1, 1], ie_path_id = 7, ie_bmed = ex_extra\<rparr>\<rparr>]"
proof -
  define buf :: "byte list" where "buf = [0, 0, 0, 7, 112, 0, 1, 1, 0, 0, 0xFD, 0xE8, 0, 0, 0, 100, 192, 0, 2,
        0, 0, 0, 8, 97, 0, 1, 0x11, 0, 1, 10, 0, 0, 1, 0, 9, 10, 0x80]"
  have add: "pe_cap_add_paths ex_peer" by (simp add: ex_peer_def)
  have enc: "concat (map (enc_route (pe_cap_add_paths ex_peer) SAFI_MPLS_VPN) ex_routes) = buf"
    by (simp add: add ex_routes_def enc_route_def put_be32_def pfx_bytes_def ex_route_def buf_def)
  have wire: "list_all (wire_route AFI_IP SAFI_MPLS_VPN) ex_routes"
    by (simp add: ex_routes_def wire_route_def wf_prefix_def ex_route_def afi_family_def pfx_bytes_def af_defs)
  have slot: "route_slot ex_daemon ex_peer 7 = 10" "route_slot ex_daemon ex_peer 8 = 11"
    by (simp_all add: route_slot_def ex_daemon_def ex_peer_def rib_nb_def)
  have peer: "pe_self ex_peer = 77" by (simp add: ex_peer_def)
  have new: "announced ex_daemon ex_peer ex_extra SAFI_MPLS_VPN 7 [0, 0, 0xE8, 0xFD, 100, 0, 0, 0] [0, 1, 1]
      \<lparr>r_peer = 77, r_attr = Some ex_attr, r_extra = None\<rparr> = \<lparr>r_peer = 77, r_attr = Some ex_attr,
        r_extra = Some \<lparr>ie_rd = [0, 0, 0xE8, 0xFD, 100, 0, 0, 0], ie_label = [0, 1, 1], ie_path_id = 7, ie_bmed = ex_extra\<rparr>\<rparr>"
    by (simp add: announced_def announce_def extra_data_process_def bgp_extra_data_process_bmp_def bgp_info_extra_process_def
        info_of_def bgp_info_extra_get_def ex_state upd_extra_def bgp_info_extra_zero_def Let_def)
      (simp add: ex_peer_def ex_daemon_def ex_extra_def)
  define info where "info = \<lparr>nl_afi = AFI_IP, nl_safi = SAFI_MPLS_VPN, nl_pos = 0, nl_length = 37\<rparr>"
  have space: "db_space [ex_attr] (bgp_db_init 64) (length ex_routes)" by (simp add: db_space_def ex_routes_def)
  have "\<exists>d'. bgp_nlri_parse ex_daemon ex_peer ex_extra buf (bgp_db_init 64) (Some ex_attr) info = Inr (SUCCESS, Some ex_attr, d') \<and>
      db_ok ex_daemon [ex_attr] d' \<and>
      db_bucket d' = fold (route_change ex_daemon ex_peer ex_extra (nl_afi info) (nl_safi info) (Some ex_attr)) ex_routes (db_bucket (bgp_db_init 64))"
  proof (rule bgp_nlri_parse_encoded [OF ex_state(1) space _ ex_state(4-7)])
    show "buf_at buf (nl_pos info) (concat (map (enc_route (pe_cap_add_paths ex_peer) (nl_safi info)) ex_routes))"
      by (simp add: info_def enc buf_at_def)
    show "unat (nl_length info) = length (concat (map (enc_route (pe_cap_add_paths ex_peer) (nl_safi info)) ex_routes))"
      by (simp add: info_def enc) (simp add: buf_def)
  qed (use wire in \<open>simp_all add: info_def nlri_safi_def\<close>)
  then obtain d' where d': "bgp_nlri_parse ex_daemon ex_peer ex_extra buf (bgp_db_init 64) (Some ex_attr) info = Inr (SUCCESS, Some ex_attr, d')"
      "db_bucket d' = fold (route_change ex_daemon ex_peer ex_extra AFI_IP SAFI_MPLS_VPN (Some ex_attr)) ex_routes (db_bucket (bgp_db_init 64))"
    unfolding info_def by auto
  have "db_bucket d' AFI_IP SAFI_MPLS_VPN (pfx_bits ex_route) 10 =
      [\<lparr>r_peer = 77, r_attr = Some ex_attr,
        r_extra = Some \<lparr>ie_rd = [0, 0, 0xE8, 0xFD, 100, 0, 0, 0], ie_label = [0, 1, 1], ie_path_id = 7, ie_bmed = ex_extra\<rparr>\<rparr>]"
    unfolding d'(2) ex_routes_def
    by (simp add: route_change_def sent_item_def wire_item_def add slot host_rd_def install_def route_hit_def peer new ex_state Let_def)
  with d'(1) show ?thesis by (auto simp: buf_def info_def)
qed

text \<open>C12: the check of a prefix against the end of the field subtracts only one byte for each
  prefix before it, not the bytes they take. Reachability information that stops one byte before the end of its
  second route is accepted like the complete one: the missing byte is taken from what follows the field. Each of
  the two routes takes at least two bytes, so neither is a default route without a path identifier, and
  distinguishers are of type 0 or 1.\<close>

theorem bgp_nlri_parse_truncated:
  assumes "nl_afi info = AFI_IP \<or> nl_afi info = AFI_IP6" "nlri_safi (nl_safi info)"
    and "list_all (wire_route (nl_afi info) (nl_safi info)) [w1, w2]" "e1 = enc_route (pe_cap_add_paths peer) (nl_safi info) w1"
    and "e2 = enc_route (pe_cap_add_paths peer) (nl_safi info) w2" "buf_at buf (nl_pos info) (e1 @ e2)"
    and "2 \<le> length e1" "2 \<le> length e2" "unat n = length e1 + length e2"
  shows "bgp_nlri_parse bms peer extra buf d attr (info\<lparr>nl_length := n - 1\<rparr>) =
    bgp_nlri_parse bms peer extra buf d attr (info\<lparr>nl_length := n\<rparr>)"
proof -
  let ?ap = "pe_cap_add_paths peer" and ?s = "nl_safi info"
  have at: "buf_at buf (nl_pos info) (enc_route ?ap ?s w1)" "buf_at buf (nl_pos info + length e1) (enc_route ?ap ?s w2)"
    using assms(4-6) by simp_all
  have w: "wire_route (nl_afi info) ?s w1" "wire_route (nl_afi info) ?s w2" using assms(3) by simp_all
  have run: "bgp_nlri_parse bms peer extra buf d attr (info\<lparr>nl_length := k\<rparr>) =
      rbind (nlri_process bms peer extra d attr info (sent_item ?ap ?s w1)) (\<lambda>(attr1, d1).
      rbind (nlri_process bms peer extra d1 attr1 info (sent_item ?ap ?s w2)) (\<lambda>(attr2, d2). Inr (SUCCESS, attr2, d2)))"
    if k: "length e1 + length e2 - 1 \<le> unat k" "unat k \<le> length e1 + length e2" for k
  proof -
    define i where "i = info\<lparr>nl_length := k\<rparr>"
    have info: "nl_afi i = nl_afi info" "nl_safi i = ?s" by (simp_all add: i_def)
    have proc: "nlri_process bms peer extra e at i = nlri_process bms peer extra e at info" for e at
      by (intro ext) (simp only: nlri_process_def info)
    define K where "K = unat k"
    define lim where "lim = nl_pos info + K"
    define it0 where "it0 = nlri_start i"
    define it1 where "it1 = wire_item ?ap ?s w1 (it_pos it0 + length e1) (it_end it0 - 1) it0"
    define it2 where "it2 = wire_item ?ap ?s w2 (it_pos it1 + length e2) (it_end it1 - 1) it1"
    have z0: "unused_zero ?ap ?s it0" by (simp add: it0_def unused_zero_start)
    have z1: "unused_zero ?ap ?s it1" using unused_zero_wire [OF z0] by (simp add: it1_def)
    have pos: "it_pos it0 = nl_pos info" "it_end it0 = int K" "it_pos it1 = nl_pos info + length e1"
        "it_end it1 = int K - 1" "it_pos it2 = nl_pos info + length e1 + length e2"
      by (simp_all add: it0_def it1_def it2_def nlri_start_def i_def wire_item_def K_def)
    have s1: "nlri_loop bms peer extra buf i lim d attr it0 =
        rbind (nlri_process bms peer extra d attr i (sent_item ?ap ?s w1)) (\<lambda>(attr1, d1). nlri_loop bms peer extra buf i lim d1 attr1 it1)"
      for d attr unfolding it1_def assms(4)
      by (rule nlri_loop_step [OF _ w(1) info assms(1,2) _ _ z0 refl])
        (use at(1) assms(4,7,8) k [folded K_def] pos in \<open>simp_all add: lim_def\<close>)
    have s2: "nlri_loop bms peer extra buf i lim d attr it1 =
        rbind (nlri_process bms peer extra d attr i (sent_item ?ap ?s w2)) (\<lambda>(attr1, d1). nlri_loop bms peer extra buf i lim d1 attr1 it2)"
      for d attr unfolding it2_def assms(5)
      by (rule nlri_loop_step [OF _ w(2) info assms(1,2) _ _ z1 refl])
        (use at(2) assms(5,7,8) k [folded K_def] pos in \<open>simp_all add: lim_def\<close>)
    have s3: "nlri_loop bms peer extra buf i lim d attr it2 = Inr (SUCCESS, attr, d)" for d attr
      unfolding nlri_loop.simps [of bms peer extra buf i lim d attr it2]
      using k(2) [folded K_def] by (simp add: pos lim_def)
    have "bgp_nlri_parse bms peer extra buf d attr i = nlri_loop bms peer extra buf i lim d attr it0"
      by (simp add: bgp_nlri_parse_def lim_def it0_def i_def K_def)
    then show ?thesis unfolding i_def [symmetric] by (simp only: s1 s2 s3 proc)
  qed
  have n: "n \<noteq> 0" using assms(7,9) by auto
  then have "unat (n - 1) = unat n - 1" by (simp add: unat_minus_one)
  then have "length e1 + length e2 - 1 \<le> unat (n - 1)" "unat (n - 1) \<le> length e1 + length e2" using assms(9) by simp_all
  moreover have "length e1 + length e2 - 1 \<le> unat n" "unat n \<le> length e1 + length e2" using assms(9) by simp_all
  ultimately show ?thesis by (simp only: run)
qed

theorem bgp_nlri_parse_truncated_witness:
  "bgp_nlri_parse ex_daemon (ex_peer\<lparr>pe_cap_add_paths := False\<rparr>) ex_extra [8, 10, 24, 192, 0, 2] (bgp_db_init 64) (Some ex_attr)
     \<lparr>nl_afi = AFI_IP, nl_safi = SAFI_UNICAST, nl_pos = 0, nl_length = 5\<rparr> =
   bgp_nlri_parse ex_daemon (ex_peer\<lparr>pe_cap_add_paths := False\<rparr>) ex_extra [8, 10, 24, 192, 0, 2] (bgp_db_init 64) (Some ex_attr)
     \<lparr>nl_afi = AFI_IP, nl_safi = SAFI_UNICAST, nl_pos = 0, nl_length = 6\<rparr>"
proof -
  define info where "info = \<lparr>nl_afi = AFI_IP, nl_safi = SAFI_UNICAST, nl_pos = 0, nl_length = 0\<rparr>"
  define peer where "peer = ex_peer\<lparr>pe_cap_add_paths := False\<rparr>"
  define w1 where "w1 = \<lparr>wr_path_id = 0, wr_label = [0, 0, 0], wr_rd = [0, 0, 0, 0, 0, 0, 0, 0],
    wr_p = \<lparr>pfx_family = AF_INET, pfx_len = 8, pfx_u = [10] @ replicate 15 0\<rparr>\<rparr>"
  define w2 where "w2 = \<lparr>wr_path_id = 0, wr_label = [0, 0, 0], wr_rd = [0, 0, 0, 0, 0, 0, 0, 0], wr_p = ex_route\<rparr>"
  have enc: "enc_route (pe_cap_add_paths peer) (nl_safi info) w1 = [8, 10]"
    "enc_route (pe_cap_add_paths peer) (nl_safi info) w2 = [24, 192, 0, 2]"
    by (simp_all add: peer_def info_def enc_route_def w1_def w2_def pfx_bytes_def ex_route_def)
  have wire: "list_all (wire_route (nl_afi info) (nl_safi info)) [w1, w2]"
    by (simp add: info_def w1_def w2_def wire_route_def wf_prefix_def ex_route_def afi_family_def pfx_bytes_def af_defs)
  have fam: "nl_afi info = AFI_IP \<or> nl_afi info = AFI_IP6" "nlri_safi (nl_safi info)" by (simp_all add: info_def nlri_safi_def)
  have at: "buf_at [8, 10, 24, 192, 0, 2] (nl_pos info) ([8, 10] @ [24, 192, 0, 2])" by (simp add: info_def buf_at_def del: buf_at_append)
  show ?thesis
    using bgp_nlri_parse_truncated [OF fam wire enc(1) [symmetric] enc(2) [symmetric] at, of 6 ex_daemon ex_extra "bgp_db_init 64" "Some ex_attr"]
    by (simp add: info_def peer_def)
qed

end
