(* ===== verification/Bgp_Attr_Parse.thy ===== *)
theory Bgp_Attr_Parse
  imports Bgp_Nlri
begin

text \<open>
  The path attributes of an UPDATE message: \<^verbatim>\<open>bgp_attr_parse\<close> and the parsers of the single
  attributes in \<^verbatim>\<open>src/src/bgp/bgp_msg.c\<close>, with \<^verbatim>\<open>bgp_attr_munge_as4path\<close> of
  \<^verbatim>\<open>src/src/bgp/bgp_util.c\<close>. As in \<open>Bgp_Nlri\<close>, pointers into the message are offsets into \<open>buf\<close>.
\<close>

section \<open>Data\<close>

definition BGP_ATTR_MIN_LEN :: int where "BGP_ATTR_MIN_LEN = 3"
definition BGP_ATTR_FLAG_EXTLEN :: byte where "BGP_ATTR_FLAG_EXTLEN = 0x10"
definition BGP_ATTR_ORIGIN :: byte where "BGP_ATTR_ORIGIN = 1"
definition BGP_ATTR_AS_PATH :: byte where "BGP_ATTR_AS_PATH = 2"
definition BGP_ATTR_NEXT_HOP :: byte where "BGP_ATTR_NEXT_HOP = 3"
definition BGP_ATTR_MULTI_EXIT_DISC :: byte where "BGP_ATTR_MULTI_EXIT_DISC = 4"
definition BGP_ATTR_LOCAL_PREF :: byte where "BGP_ATTR_LOCAL_PREF = 5"
definition BGP_ATTR_COMMUNITIES :: byte where "BGP_ATTR_COMMUNITIES = 8"
definition BGP_ATTR_MP_REACH_NLRI :: byte where "BGP_ATTR_MP_REACH_NLRI = 14"
definition BGP_ATTR_MP_UNREACH_NLRI :: byte where "BGP_ATTR_MP_UNREACH_NLRI = 15"
definition BGP_ATTR_EXT_COMMUNITIES :: byte where "BGP_ATTR_EXT_COMMUNITIES = 16"
definition BGP_ATTR_AS4_PATH :: byte where "BGP_ATTR_AS4_PATH = 17"
definition BGP_ATTR_LARGE_COMMUNITIES :: byte where "BGP_ATTR_LARGE_COMMUNITIES = 32"

text \<open>The locals of the parser: the attribute on the stack of the caller, the routing database, the
  AS4_PATH, and the reachability fields.\<close>

record attr_parse =
  ap_attr :: bgp_attr
  ap_rt :: bgp_rt
  ap_as4 :: "addr option"
  ap_update :: bgp_nlri
  ap_withdraw :: bgp_nlri

text \<open>An address that \<^verbatim>\<open>malloc\<close> may return, as it is not in use: one behind all in the pool.\<close>

definition pool_fresh :: "'o pool \<Rightarrow> addr" where
  "pool_fresh P = Suc (foldr max (map snd (concat (h_index (p_hash P)))) 0)"

definition drop_buf :: "byte list \<Rightarrow> nat \<Rightarrow> byte list" where
  "drop_buf buf i = drop i buf"

section \<open>Single attributes\<close>

definition upd_attr :: "(bgp_attr \<Rightarrow> bgp_attr) \<Rightarrow> attr_parse \<Rightarrow> attr_parse" where
  "upd_attr f st = st\<lparr>ap_attr := f (ap_attr st)\<rparr>"

definition parse_path :: "bgp_peer \<Rightarrow> byte list \<Rightarrow> nat \<Rightarrow> u16 \<Rightarrow> bool \<Rightarrow> bgp_rt \<Rightarrow> (addr option \<times> bgp_rt) res" where
  "parse_path peer buf pnt len use32bit R =
     (let tmp = pool_fresh (ashash R) in
      rbind (aspath_parse (ptype peer) (ashash R) tmp (Suc tmp) (drop_buf buf pnt) (unat len) use32bit) (\<lambda>(p, A).
        Inr (p, R\<lparr>ashash := A\<rparr>)))"

definition bgp_attr_parse_aspath :: "bgp_peer \<Rightarrow> u16 \<Rightarrow> byte list \<Rightarrow> nat \<Rightarrow> attr_parse \<Rightarrow> (int \<times> attr_parse) res" where
  "bgp_attr_parse_aspath peer len buf pnt st =
     rbind (parse_path peer buf pnt len (pe_cap_4as peer \<noteq> None) (ap_rt st)) (\<lambda>(p, R).
       Inr (SUCCESS, (upd_attr (\<lambda>at. at\<lparr>at_aspath := p\<rparr>) st)\<lparr>ap_rt := R\<rparr>))"

definition bgp_attr_parse_as4path :: "bgp_peer \<Rightarrow> u16 \<Rightarrow> byte list \<Rightarrow> nat \<Rightarrow> attr_parse \<Rightarrow> (int \<times> attr_parse) res" where
  "bgp_attr_parse_as4path peer len buf pnt st =
     rbind (parse_path peer buf pnt len True (ap_rt st)) (\<lambda>(p, R). Inr (SUCCESS, st\<lparr>ap_as4 := p, ap_rt := R\<rparr>))"

text \<open>Four bytes loaded by the little-endian host, and the same bytes through \<^verbatim>\<open>ntohl\<close>.\<close>

definition rd_le32 :: "byte list \<Rightarrow> nat \<Rightarrow> u32 res" where
  "rd_le32 buf i = rbind (rd_be32 buf i) (\<lambda>x. Inr (bswap32 x))"

definition bgp_attr_parse_nexthop :: "u16 \<Rightarrow> byte list \<Rightarrow> nat \<Rightarrow> attr_parse \<Rightarrow> (int \<times> attr_parse) res" where
  "bgp_attr_parse_nexthop len buf pnt st =
     (if len \<noteq> 4 then Inr (ERR, st)
      else rbind (rd_le32 buf pnt) (\<lambda>x. Inr (SUCCESS, upd_attr (\<lambda>at. at\<lparr>at_nexthop := x\<rparr>) st)))"

definition bgp_attr_parse_community :: "bgp_peer \<Rightarrow> u16 \<Rightarrow> byte list \<Rightarrow> nat \<Rightarrow> attr_parse \<Rightarrow> (int \<times> attr_parse) res" where
  "bgp_attr_parse_community peer len buf pnt st =
     (if len = 0 then Inr (SUCCESS, upd_attr (\<lambda>at. at\<lparr>at_community := None\<rparr>) st)
      else rbind (community_parse (ptype peer) (comhash (ap_rt st)) (pool_fresh (comhash (ap_rt st))) (drop_buf buf pnt) (unat len))
        (\<lambda>(c, C). Inr (SUCCESS, (upd_attr (\<lambda>at. at\<lparr>at_community := c\<rparr>) st)\<lparr>ap_rt := (ap_rt st)\<lparr>comhash := C\<rparr>\<rparr>)))"

definition bgp_attr_parse_ecommunity :: "bgp_peer \<Rightarrow> u16 \<Rightarrow> byte list \<Rightarrow> nat \<Rightarrow> attr_parse \<Rightarrow> (int \<times> attr_parse) res" where
  "bgp_attr_parse_ecommunity peer len buf pnt st =
     (if len = 0 then Inr (SUCCESS, upd_attr (\<lambda>at. at\<lparr>at_ecommunity := None\<rparr>) st)
      else rbind (ecommunity_parse (ptype peer) (ecomhash (ap_rt st)) (pool_fresh (ecomhash (ap_rt st))) (drop_buf buf pnt) (unat len))
        (\<lambda>(c, C). Inr (SUCCESS, (upd_attr (\<lambda>at. at\<lparr>at_ecommunity := c\<rparr>) st)\<lparr>ap_rt := (ap_rt st)\<lparr>ecomhash := C\<rparr>\<rparr>)))"

definition bgp_attr_parse_lcommunity :: "bgp_peer \<Rightarrow> u16 \<Rightarrow> byte list \<Rightarrow> nat \<Rightarrow> attr_parse \<Rightarrow> (int \<times> attr_parse) res" where
  "bgp_attr_parse_lcommunity peer len buf pnt st =
     (if len = 0 then Inr (SUCCESS, upd_attr (\<lambda>at. at\<lparr>at_lcommunity := None\<rparr>) st)
      else rbind (lcommunity_parse (ptype peer) (lcomhash (ap_rt st)) (pool_fresh (lcomhash (ap_rt st))) (drop_buf buf pnt) (unat len))
        (\<lambda>(c, C). Inr (SUCCESS, (upd_attr (\<lambda>at. at\<lparr>at_lcommunity := c\<rparr>) st)\<lparr>ap_rt := (ap_rt st)\<lparr>lcomhash := C\<rparr>\<rparr>)))"

definition bgp_attr_parse_med :: "u16 \<Rightarrow> byte list \<Rightarrow> nat \<Rightarrow> attr_parse \<Rightarrow> (int \<times> attr_parse) res" where
  "bgp_attr_parse_med len buf pnt st =
     (if len \<noteq> 4 then Inr (ERR, st)
      else rbind (rd_be32 buf pnt) (\<lambda>x. Inr (SUCCESS, upd_attr (\<lambda>at. at\<lparr>at_med := x\<rparr>) st)))"

definition bgp_attr_parse_local_pref :: "u16 \<Rightarrow> byte list \<Rightarrow> nat \<Rightarrow> attr_parse \<Rightarrow> (int \<times> attr_parse) res" where
  "bgp_attr_parse_local_pref len buf pnt st =
     (if len \<noteq> 4 then Inr (ERR, st)
      else rbind (rd_be32 buf pnt) (\<lambda>x. Inr (SUCCESS, upd_attr (\<lambda>at. at\<lparr>at_local_pref := x\<rparr>) st)))"

text \<open>The byte is copied to \<^verbatim>\<open>attr->local_pref\<close>, whose lowest byte it replaces.\<close>

definition bgp_attr_parse_origin :: "u16 \<Rightarrow> byte list \<Rightarrow> nat \<Rightarrow> attr_parse \<Rightarrow> (int \<times> attr_parse) res" where
  "bgp_attr_parse_origin len buf pnt st =
     (if len \<noteq> 1 then Inr (ERR, st)
      else rbind (rd8 buf pnt) (\<lambda>x. Inr (SUCCESS,
        upd_attr (\<lambda>at. at\<lparr>at_local_pref := (at_local_pref at AND 0xFFFFFF00) OR ucast x\<rparr>) st)))"

text \<open>The next hop of MP_REACH_NLRI: of its length, or \<open>None\<close> for a length the code refuses.\<close>

definition mp_nexthop_at :: "byte list \<Rightarrow> nat \<Rightarrow> u16 \<Rightarrow> host_addr option res" where
  "mp_nexthop_at buf pnt n =
     (if n = 4 then rbind (rd_mem buf pnt 4) (\<lambda>b. Inr (Some \<lparr>ha_family = AF_INET, ha_address = b @ replicate 12 0\<rparr>))
      else if n = 12 then rbind (rd_mem buf (pnt + 8) 4) (\<lambda>b. Inr (Some \<lparr>ha_family = AF_INET, ha_address = b @ replicate 12 0\<rparr>))
      else if n = 16 \<or> n = 32 then rbind (rd_mem buf pnt 16) (\<lambda>b. Inr (Some \<lparr>ha_family = AF_INET6, ha_address = b\<rparr>))
      else if n = 24 then rbind (rd_mem buf (pnt + 8) 16) (\<lambda>b. Inr (Some \<lparr>ha_family = AF_INET6, ha_address = b\<rparr>))
      else Inr None)"

text \<open>\<^verbatim>\<open>*ptr\<close> is a signed \<^verbatim>\<open>char\<close>, hence the sign extension of the length.\<close>

definition bgp_attr_parse_mp_reach :: "u16 \<Rightarrow> byte list \<Rightarrow> nat \<Rightarrow> attr_parse \<Rightarrow> (int \<times> attr_parse) res" where
  "bgp_attr_parse_mp_reach len buf pnt st =
     (if len < 5 then Inr (ERR, st)
      else rbind (rd_be16 buf pnt) (\<lambda>afi. rbind (rd8 buf (pnt + 2)) (\<lambda>safi. rbind (rd8 buf (pnt + 3)) (\<lambda>nh.
        let mpnhoplen = scast nh; mpreachlen = len - 4 in
        if mpnhoplen \<in> {4, 12, 16, 24, 32} \<and> mpnhoplen < mpreachlen then
          rbind (mp_nexthop_at buf (pnt + 4) mpnhoplen) (\<lambda>hop.
          let st1 = upd_attr (\<lambda>at. at\<lparr>at_mp_nexthop := (case hop of None \<Rightarrow> host_addr_zero | Some h \<Rightarrow> h)\<rparr>) st;
              nlri_len = mpreachlen - mpnhoplen - 1
          in if nlri_len = 0 \<or> len < nlri_len then Inr (ERR, st1)
             else Inr (SUCCESS, st1\<lparr>ap_update :=
                    \<lparr>nl_afi = afi, nl_safi = safi, nl_pos = pnt + 4 + unat mpnhoplen + 1, nl_length = nlri_len\<rparr>\<rparr>))
        else Inr (ERR, st)))))"

definition bgp_attr_parse_mp_unreach :: "u16 \<Rightarrow> byte list \<Rightarrow> nat \<Rightarrow> attr_parse \<Rightarrow> (int \<times> attr_parse) res" where
  "bgp_attr_parse_mp_unreach len buf pnt st =
     (if len < 3 then Inr (ERR, st)
      else rbind (rd_be16 buf pnt) (\<lambda>afi. rbind (rd8 buf (pnt + 2)) (\<lambda>safi.
        Inr (SUCCESS, st\<lparr>ap_withdraw := \<lparr>nl_afi = afi, nl_safi = safi, nl_pos = pnt + 3, nl_length = len - 3\<rparr>\<rparr>))))"

definition parse_attr :: "bgp_peer \<Rightarrow> byte \<Rightarrow> u16 \<Rightarrow> byte list \<Rightarrow> nat \<Rightarrow> attr_parse \<Rightarrow> (int \<times> attr_parse) res" where
  "parse_attr peer ty len buf pnt st =
     (if ty = BGP_ATTR_AS_PATH then bgp_attr_parse_aspath peer len buf pnt st
      else if ty = BGP_ATTR_AS4_PATH then bgp_attr_parse_as4path peer len buf pnt st
      else if ty = BGP_ATTR_NEXT_HOP then bgp_attr_parse_nexthop len buf pnt st
      else if ty = BGP_ATTR_COMMUNITIES then bgp_attr_parse_community peer len buf pnt st
      else if ty = BGP_ATTR_EXT_COMMUNITIES then bgp_attr_parse_ecommunity peer len buf pnt st
      else if ty = BGP_ATTR_LARGE_COMMUNITIES then bgp_attr_parse_lcommunity peer len buf pnt st
      else if ty = BGP_ATTR_MULTI_EXIT_DISC then bgp_attr_parse_med len buf pnt st
      else if ty = BGP_ATTR_LOCAL_PREF then bgp_attr_parse_local_pref len buf pnt st
      else if ty = BGP_ATTR_ORIGIN then bgp_attr_parse_origin len buf pnt st
      else if ty = BGP_ATTR_MP_REACH_NLRI then bgp_attr_parse_mp_reach len buf pnt st
      else if ty = BGP_ATTR_MP_UNREACH_NLRI then bgp_attr_parse_mp_unreach len buf pnt st
      else Inr (0, st))"

section \<open>The loop\<close>

text \<open>Flag, type and length of the attribute at \<open>pnt\<close> with \<open>left\<close> bytes to the end: type, length,
  and position and bytes left after them.\<close>

definition attr_header :: "byte list \<Rightarrow> nat \<Rightarrow> int \<Rightarrow> (byte \<times> u16 \<times> nat \<times> int) res" where
  "attr_header buf pnt left =
     rbind (rd8 buf pnt) (\<lambda>flag. rbind (rd8 buf (pnt + 1)) (\<lambda>ty.
       if flag AND BGP_ATTR_FLAG_EXTLEN \<noteq> 0 then
         rbind (rd_be16 buf (pnt + 2)) (\<lambda>len. Inr (ty, len, pnt + 4, left - 4))
       else rbind (rd8 buf (pnt + 2)) (\<lambda>len. Inr (ty, ucast len, pnt + 3, left - 3))))"

lemma attr_header_left: "attr_header buf pnt left = Inr (ty, len, i, left') \<Longrightarrow> left' < left"
  by (auto simp: attr_header_def split: if_split_asm)

function attr_loop :: "bgp_peer \<Rightarrow> byte list \<Rightarrow> nat \<Rightarrow> int \<Rightarrow> attr_parse \<Rightarrow> (int \<times> attr_parse) res" where
  "attr_loop peer buf pnt left st =
     (if \<not> 0 < left then Inr (SUCCESS, st)
      else if left < BGP_ATTR_MIN_LEN then Inr (ERR, st)
      else rbind (attr_header buf pnt left) (\<lambda>(ty, len, i, left1).
        if left1 < int (unat len) then Inr (ERR, st)
        else rbind (parse_attr peer ty len buf i st) (\<lambda>(ret, st1).
          if ret < 0 then Inr (ret, st1)
          else attr_loop peer buf (i + unat len) (left1 - int (unat len)) st1)))"
  by (pat_completeness, elim Pair_inject, simp only:)
termination
proof (relation "measure (\<lambda>(_, _, _, left, _). nat left)", goal_cases)
  case (2 peer buf pnt left st h ty r1 len r2 i left1 r ret st1)
  then have "left1 < left" using attr_header_left [of buf pnt left ty len i left1] by simp
  then have "left1 - int (unat len) < left" by linarith
  then show ?case using 2(1) by simp
qed simp

declare attr_loop.simps [simp del]

definition bgp_attr_munge_as4path :: "bgp_peer \<Rightarrow> bgp_rt \<Rightarrow> bgp_attr \<Rightarrow> addr \<Rightarrow> (int \<times> bgp_attr \<times> bgp_rt) res" where
  "bgp_attr_munge_as4path peer R at as4 =
     (if pe_cap_4as peer \<noteq> None then Inr (SUCCESS, at, R)
      else
        rbind (case at_aspath at of
                 None \<Rightarrow> Inr None
               | Some a \<Rightarrow> rbind (deref (p_objs (ashash R)) a) (\<lambda>p. Inr (Some p))) (\<lambda>old.
        rbind (deref (p_objs (ashash R)) as4) (\<lambda>as4path.
        rbind (aspath_reconcile_as4 (ptype peer) old as4path) (\<lambda>newpath.
        rbind (case at_aspath at of
                 None \<Rightarrow> if routing_db (ptype peer) then Inl Null_Deref else Inr (ashash R)
               | Some a \<Rightarrow> aspath_unintern (ptype peer) (ashash R) a) (\<lambda>A.
        rbind (case newpath of
                 None \<Rightarrow> if routing_db (ptype peer) then Inl Null_Deref else Inr (None, A)
               | Some p \<Rightarrow>
                   let new = pool_fresh A in
                   aspath_intern (ptype peer) (A\<lparr>p_objs := (p_objs A)(new := Some p)\<rparr>) new) (\<lambda>(f, A1).
          Inr (SUCCESS, at\<lparr>at_aspath := f\<rparr>, R\<lparr>ashash := A1\<rparr>)))))))"

definition bgp_attr_parse :: "bgp_peer \<Rightarrow> byte list \<Rightarrow> nat \<Rightarrow> int \<Rightarrow> attr_parse \<Rightarrow> (int \<times> attr_parse) res" where
  "bgp_attr_parse peer buf pnt len st =
     rbind (attr_loop peer buf pnt len (st\<lparr>ap_as4 := None\<rparr>)) (\<lambda>(ret, st1).
       if ret < 0 then Inr (ret, st1)
       else case ap_as4 st1 of
              None \<Rightarrow> Inr (SUCCESS, st1)
            | Some a \<Rightarrow>
                rbind (bgp_attr_munge_as4path peer (ap_rt st1) (ap_attr st1) a) (\<lambda>(ret1, at, R).
                rbind (aspath_unintern (ptype peer) (ashash R) a) (\<lambda>A.
                  Inr (if ret1 < 0 then ret1 else SUCCESS, st1\<lparr>ap_attr := at, ap_rt := R\<lparr>ashash := A\<rparr>\<rparr>))))"

end
