(* ===== verification/Bgp_Msg.thy ===== *)
theory Bgp_Msg
  imports Bgp_Attr_Parse
begin

text \<open>
  The messages of a BGP session (\<^verbatim>\<open>src/src/bgp/bgp_msg.c\<close>): \<^verbatim>\<open>bgp_parse_update_msg\<close>, the OPEN
  message and the replies to it, notifications, and the loop of \<^verbatim>\<open>bgp_parse_msg\<close> over the bytes
  that were received. Pointers into the receive buffer \<^verbatim>\<open>peer->buf.base\<close> are offsets into
  \<open>pe_buf\<close>.
\<close>

section \<open>Data\<close>

definition BGP_BUFFER_SIZE :: nat where "BGP_BUFFER_SIZE = 100000"
definition BGP_MARKER_SIZE :: nat where "BGP_MARKER_SIZE = 16"
definition BGP_HEADER_SIZE :: nat where "BGP_HEADER_SIZE = 19"
definition BGP_MIN_OPEN_MSG_SIZE :: nat where "BGP_MIN_OPEN_MSG_SIZE = 29"
definition BGP_MIN_NOTIFICATION_MSG_SIZE :: nat where "BGP_MIN_NOTIFICATION_MSG_SIZE = 21"
definition BGP_MAX_MSGLEN :: nat where "BGP_MAX_MSGLEN = 4096"
definition BGP_VERSION4 :: byte where "BGP_VERSION4 = 4"
definition BGP_AS_TRANS :: u16 where "BGP_AS_TRANS = 23456"
definition BGP_OPEN :: byte where "BGP_OPEN = 1"
definition BGP_UPDATE :: byte where "BGP_UPDATE = 2"
definition BGP_NOTIFICATION :: byte where "BGP_NOTIFICATION = 3"
definition BGP_KEEPALIVE :: byte where "BGP_KEEPALIVE = 4"
definition BGP_NOTIFY_HEADER_ERR :: int where "BGP_NOTIFY_HEADER_ERR = 1"
definition BGP_NOTIFY_OPEN_ERR :: int where "BGP_NOTIFY_OPEN_ERR = 2"
definition BGP_NOTIFY_UPDATE_ERR :: int where "BGP_NOTIFY_UPDATE_ERR = 3"
definition BGP_NOTIFY_FSM_ERR :: int where "BGP_NOTIFY_FSM_ERR = 5"
definition BGP_OPTION_CAPABILITY :: byte where "BGP_OPTION_CAPABILITY = 2"
definition BGP_CAPABILITY_MULTIPROTOCOL :: byte where "BGP_CAPABILITY_MULTIPROTOCOL = 1"
definition BGP_CAPABILITY_4_OCTET_AS_NUMBER :: byte where "BGP_CAPABILITY_4_OCTET_AS_NUMBER = 0x41"
definition BGP_CAPABILITY_ADD_PATHS :: byte where "BGP_CAPABILITY_ADD_PATHS = 0x45"
definition BGP_NOTIFY_CEASE :: byte where "BGP_NOTIFY_CEASE = 6"
definition BGP_NOTIFY_CEASE_ADMIN_SHUTDOWN :: byte where "BGP_NOTIFY_CEASE_ADMIN_SHUTDOWN = 2"
definition BGP_NOTIFY_CEASE_ADMIN_RESET :: byte where "BGP_NOTIFY_CEASE_ADMIN_RESET = 4"
definition BGP_NOTIFY_CEASE_SM_LEN :: nat where "BGP_NOTIFY_CEASE_SM_LEN = 128"

definition Active :: byte where "Active = 3"
definition OpenSent :: byte where "OpenSent = 4"
definition Established :: byte where "Established = 6"

section \<open>UPDATE\<close>

text \<open>A length field with the bytes after it and the bytes that are left, as the code does it twice:
  the field itself is subtracted after the check.\<close>

definition update_section :: "byte list \<Rightarrow> nat \<Rightarrow> u16 \<Rightarrow> (u16 \<times> nat \<times> u16) option res" where
  "update_section buf pkt e =
     rbind (rd_be16 buf pkt) (\<lambda>len. Inr (if e < len then None else Some (len, pkt + 2, e - len - 2)))"

definition nlri_wanted :: "u16 \<Rightarrow> bgp_nlri \<Rightarrow> bool" where
  "nlri_wanted afi info \<longleftrightarrow> nl_length info \<noteq> 0 \<and> nl_afi info = afi \<and>
     (nl_safi info = SAFI_UNICAST \<or> nl_safi info = SAFI_MPLS_LABEL \<or> nl_safi info = SAFI_MPLS_VPN)"

definition nlri_if :: "bool \<Rightarrow> bgp_daemon \<Rightarrow> bgp_peer \<Rightarrow> bgp_msg_extra \<Rightarrow> byte list \<Rightarrow> bool \<Rightarrow> bgp_nlri \<Rightarrow> bgp_attr \<times> bgp_db \<Rightarrow>
    (bgp_attr \<times> bgp_db) res" where
  "nlri_if wanted bms peer extra buf adds info s =
     (if \<not> wanted then Inr s
      else case s of (at, d) \<Rightarrow>
        rbind (bgp_nlri_parse bms peer extra buf d (if adds then Some at else None) info) (\<lambda>(ret, attr, d1).
          Inr (case attr of Some at1 \<Rightarrow> at1 | None \<Rightarrow> at, d1)))"

text \<open>The releases at the end of \<^verbatim>\<open>bgp_parse_update_msg\<close>.\<close>

definition attr_done :: "bgp_peer \<Rightarrow> bgp_attr \<Rightarrow> bgp_rt \<Rightarrow> bgp_rt res" where
  "attr_done peer at R =
     rbind (drop_ref (aspath_unintern (ptype peer)) (ashash R) (at_aspath at)) (\<lambda>A.
     rbind (drop_ref (community_unintern (ptype peer)) (comhash R) (at_community at)) (\<lambda>C.
     rbind (drop_ref (ecommunity_unintern (ptype peer)) (ecomhash R) (at_ecommunity at)) (\<lambda>E.
     rbind (drop_ref (lcommunity_unintern (ptype peer)) (lcomhash R) (at_lcommunity at)) (\<lambda>L.
       Inr (R\<lparr>ashash := A, comhash := C, ecomhash := E, lcomhash := L\<rparr>)))))"

text \<open>The parts of the message handed to the RIB in the order of the code.\<close>

definition update_nlri :: "bgp_daemon \<Rightarrow> bgp_peer \<Rightarrow> bgp_msg_extra \<Rightarrow> byte list \<Rightarrow> bgp_nlri \<Rightarrow> bgp_nlri \<Rightarrow> bgp_nlri \<Rightarrow> bgp_nlri \<Rightarrow>
    bgp_attr \<times> bgp_db \<Rightarrow> (bgp_attr \<times> bgp_db) res" where
  "update_nlri bms peer extra buf update withdraw mp_update mp_withdraw s =
     rbind (nlri_if (nl_length withdraw \<noteq> 0) bms peer extra buf False withdraw s) (\<lambda>s1.
     rbind (nlri_if (nl_length update \<noteq> 0) bms peer extra buf True update s1) (\<lambda>s2.
     rbind (nlri_if (nlri_wanted AFI_IP mp_update) bms peer extra buf True mp_update s2) (\<lambda>s3.
     rbind (nlri_if (nlri_wanted AFI_IP mp_withdraw) bms peer extra buf False mp_withdraw s3) (\<lambda>s4.
     rbind (nlri_if (nlri_wanted AFI_IP6 mp_update) bms peer extra buf True mp_update s4) (\<lambda>s5.
       nlri_if (nlri_wanted AFI_IP6 mp_withdraw) bms peer extra buf False mp_withdraw s5)))))"

definition attr_parse_init :: "bgp_rt \<Rightarrow> attr_parse" where
  "attr_parse_init R = \<lparr>ap_attr = bgp_attr_zero, ap_rt = R, ap_as4 = None, ap_update = bgp_nlri_zero, ap_withdraw = bgp_nlri_zero\<rparr>"

text \<open>\<^verbatim>\<open>memcpy (&bhdr, pkt, sizeof (bhdr))\<close> reads twenty bytes, the padding of the structure included.\<close>

definition bgp_parse_update_msg :: "bgp_daemon \<Rightarrow> bgp_peer \<Rightarrow> bgp_msg_extra \<Rightarrow> byte list \<Rightarrow> nat \<Rightarrow> bgp_db \<Rightarrow> (int \<times> bgp_db) res" where
  "bgp_parse_update_msg bms peer extra buf pkt d =
     rbind (rd_mem buf pkt 20) (\<lambda>_. rbind (rd_be16 buf (pkt + 16)) (\<lambda>bgpo_len.
     rbind (update_section buf (pkt + BGP_HEADER_SIZE) (bgpo_len - 19)) (\<lambda>s1. case s1 of
       None \<Rightarrow> Inr (ERR, d)
     | Some (withdraw_len, p1, e1) \<Rightarrow>
         rbind (update_section buf (p1 + unat withdraw_len) e1) (\<lambda>s2. case s2 of
           None \<Rightarrow> Inr (ERR, d)
         | Some (attribute_len, p2, e2) \<Rightarrow>
             let withdraw = (if withdraw_len \<noteq> 0
                   then \<lparr>nl_afi = AFI_IP, nl_safi = SAFI_UNICAST, nl_pos = p1, nl_length = withdraw_len\<rparr> else bgp_nlri_zero);
                 update = (if e2 \<noteq> 0
                   then \<lparr>nl_afi = AFI_IP, nl_safi = SAFI_UNICAST, nl_pos = p2 + unat attribute_len, nl_length = e2\<rparr> else bgp_nlri_zero)
             in rbind (if attribute_len \<noteq> 0
                       then bgp_attr_parse peer buf p2 (int (unat attribute_len)) (attr_parse_init (db_rt d))
                       else Inr (0, attr_parse_init (db_rt d))) (\<lambda>(ret, st).
                  if ret < 0 then Inr (ret, d\<lparr>db_rt := ap_rt st\<rparr>)
                  else
                    rbind (update_nlri bms peer extra buf update withdraw (ap_update st) (ap_withdraw st)
                             (ap_attr st, d\<lparr>db_rt := ap_rt st\<rparr>)) (\<lambda>(at, d1).
                    rbind (attr_done peer at (db_rt d1)) (\<lambda>R.
                      Inr (int (unat bgpo_len), d1\<lparr>db_rt := R\<rparr>)))))))) "

section \<open>Headers and replies\<close>

definition bgp_max_msglen_check :: "nat \<Rightarrow> int" where
  "bgp_max_msglen_check len = (if len \<le> BGP_MAX_MSGLEN then SUCCESS else ERR)"

fun marker_from :: "byte list \<Rightarrow> nat \<Rightarrow> nat \<Rightarrow> int res" where
  "marker_from buf i 0 = Inr SUCCESS"
| "marker_from buf i (Suc n) = rbind (rd8 buf i) (\<lambda>b. if b \<noteq> 0xFF then Inr ERR else marker_from buf (Suc i) n)"

definition bgp_marker_check :: "byte list \<Rightarrow> nat \<Rightarrow> nat \<Rightarrow> int res" where
  "bgp_marker_check buf bhdr len = marker_from buf bhdr len"

definition bgp_write_keepalive_msg :: "byte list" where
  "bgp_write_keepalive_msg = replicate BGP_MARKER_SIZE 0xFF @ put_be16 (word_of_nat BGP_HEADER_SIZE) @ [BGP_KEEPALIVE]"

text \<open>The configured addresses \<^verbatim>\<open>nfacctd_bgp_ip\<close> and \<^verbatim>\<open>nfacctd_bgp_id\<close> as \<^verbatim>\<open>str_to_addr\<close> leaves them,
  \<open>None\<close> when they are not set, and \<^verbatim>\<open>nfacctd_bgp_as\<close>, 0 when it is not set.\<close>

record bgp_config =
  cfg_bgp_as :: u32
  cfg_bgp_ip :: "host_addr option"
  cfg_bgp_id :: "host_addr option"

definition is_any :: "host_addr \<Rightarrow> bool" where
  "is_any a \<longleftrightarrow> ha_family a = AF_INET \<and> take 4 (ha_address a) = replicate 4 0 \<or>
     ha_family a = AF_INET6 \<and> take 16 (ha_address a) = replicate 16 0"

text \<open>The router ID: the first of \<^verbatim>\<open>nfacctd_bgp_id\<close> and \<^verbatim>\<open>nfacctd_bgp_ip\<close> that is a non-zero IPv4
  address, else 1.2.3.4.\<close>

definition id_trial :: "host_addr option \<Rightarrow> host_addr \<Rightarrow> host_addr" where
  "id_trial a cur = (case a of
       Some h \<Rightarrow> if \<not> is_any h \<and> ha_family cur = 0 then (if ha_family h \<noteq> AF_INET then host_addr_zero else h) else cur
     | None \<Rightarrow> cur)"

definition my_router_id :: "bgp_config \<Rightarrow> byte list" where
  "my_router_id cfg =
     (let a = id_trial (cfg_bgp_ip cfg) (id_trial (cfg_bgp_id cfg) host_addr_zero)
      in if ha_family a = 0 then [1, 2, 3, 4] else take 4 (ha_address a))"

text \<open>\<^verbatim>\<open>bgp_write_open_msg\<close>: \<open>cp\<close> is the reply to the capabilities, into which \<^verbatim>\<open>cap_4as\<close> points;
  the cleared buffer goes on behind it. \<open>None\<close> stands for \<^verbatim>\<open>ERR\<close>.\<close>

definition bgp_write_open_msg :: "bgp_config \<Rightarrow> byte list \<Rightarrow> bgp_peer \<Rightarrow> byte list option res" where
  "bgp_write_open_msg cfg cp peer =
     (let big = 65535 < pe_myas peer in
      if big \<and> pe_cap_4as peer = None then Inr None
      else
        rbind (case pe_cap_4as peer of
                 None \<Rightarrow> Inr cp
               | Some k \<Rightarrow> rbind (wr_mem (cp @ replicate 8 0) k (put_be32 (pe_myas peer))) (\<lambda>x. Inr (take (length cp) x))) (\<lambda>cp1.
        let optlen = (word_of_nat (length cp1) :: byte) in
        Inr (Some (replicate BGP_MARKER_SIZE 0xFF @ put_be16 (word_of_nat (BGP_MIN_OPEN_MSG_SIZE + unat optlen)) @
          [BGP_OPEN, BGP_VERSION4] @ put_be16 (if big then BGP_AS_TRANS else ucast (pe_myas peer)) @
          put_be16 (pe_ht peer) @ my_router_id cfg @ [optlen] @ cp1))))"

text \<open>\<^verbatim>\<open>bgp_parse_notification_msg\<close>: the codes, and the shutdown message where there is one.\<close>

definition bgp_parse_notification_msg :: "bgp_peer \<Rightarrow> byte list \<Rightarrow> nat \<Rightarrow> nat \<Rightarrow> (int \<times> byte \<times> byte \<times> byte list) res" where
  "bgp_parse_notification_msg peer buf pkt shutdown_msglen =
     (if unat (pe_msglen peer) < BGP_MIN_NOTIFICATION_MSG_SIZE then Inr (ERR, 0, 0, [])
      else rbind (rd8 buf (pkt + 19)) (\<lambda>major. rbind (rd8 buf (pkt + 20)) (\<lambda>minor.
        let rem = unat (pe_msglen peer) - BGP_MIN_NOTIFICATION_MSG_SIZE; ret = int BGP_MIN_NOTIFICATION_MSG_SIZE in
        if major = BGP_NOTIFY_CEASE \<and> (minor = BGP_NOTIFY_CEASE_ADMIN_SHUTDOWN \<or> minor = BGP_NOTIFY_CEASE_ADMIN_RESET) \<and> rem \<noteq> 0 then
          rbind (rd8 buf (pkt + 21)) (\<lambda>len.
            if unat len \<le> rem \<and> unat len \<le> BGP_NOTIFY_CEASE_SM_LEN \<and> unat len < shutdown_msglen then
              rbind (rd_mem buf (pkt + 22) (unat len)) (\<lambda>msg. Inr (ret + int (unat len) + 1, major, minor, msg))
            else Inr (ret, major, minor, []))
        else Inr (ret, major, minor, []))))"

section \<open>OPEN\<close>

text \<open>The locals of the option loops: the peer, the reply to the capabilities and the four-byte
  number of the remote AS.\<close>

record open_state =
  os_peer :: bgp_peer
  os_reply :: "byte list"
  os_as4 :: u32

text \<open>\<^verbatim>\<open>memcpy (bgp_open_cap_reply_ptr, bgp_open_cap_ptr, opt_len + 2)\<close>.\<close>

definition reply_copy :: "byte list \<Rightarrow> nat \<Rightarrow> byte \<Rightarrow> byte list \<Rightarrow> byte list res" where
  "reply_copy buf opt opt_len reply =
     rbind (rd_mem buf opt (unat opt_len + 2)) (\<lambda>bs.
       if BGP_BUFFER_SIZE - BGP_MIN_OPEN_MSG_SIZE < length (reply @ bs) then Inl Out_Of_Bounds else Inr (reply @ bs))"

text \<open>One capability at \<open>ptr\<close> of the option at \<open>opt\<close>; \<open>False\<close> where the code returns \<^verbatim>\<open>ERR\<close>.\<close>

definition parse_capability :: "bool \<Rightarrow> byte list \<Rightarrow> nat \<Rightarrow> byte \<Rightarrow> nat \<Rightarrow> byte \<Rightarrow> byte \<Rightarrow> open_state \<Rightarrow> (bool \<times> open_state) res" where
  "parse_capability online buf opt opt_len ptr cap_type cap_len s =
     (if cap_type = BGP_CAPABILITY_MULTIPROTOCOL then
        rbind (rd_mem buf (ptr + 2) 4) (\<lambda>_.
        rbind (if online then reply_copy buf opt opt_len (os_reply s) else Inr (os_reply s)) (\<lambda>r.
          Inr (True, s\<lparr>os_peer := (os_peer s)\<lparr>pe_cap_mp := True\<rparr>, os_reply := r\<rparr>)))
      else if cap_type = BGP_CAPABILITY_4_OCTET_AS_NUMBER then
        if cap_len = 4 then
          rbind (rd_be32 buf (ptr + 2)) (\<lambda>as4.
          if online then
            rbind (reply_copy buf opt opt_len (os_reply s)) (\<lambda>r.
              Inr (True, s\<lparr>os_peer := (os_peer s)\<lparr>pe_cap_4as := Some (length (os_reply s) + 4)\<rparr>, os_reply := r, os_as4 := as4\<rparr>))
          else Inr (True, s\<lparr>os_peer := (os_peer s)\<lparr>pe_cap_4as := Some (opt + 4)\<rparr>, os_as4 := as4\<rparr>))
        else Inr (False, s)
      else if cap_type = BGP_CAPABILITY_ADD_PATHS then
        rbind (rd_mem buf (ptr + 2) 4) (\<lambda>cap.
          if cap ! 3 = 2 then
            rbind (if online then rbind (reply_copy buf opt opt_len (os_reply s)) (\<lambda>r. Inr (r[length r - 1 := 1]))
                   else Inr (os_reply s)) (\<lambda>r.
              Inr (True, s\<lparr>os_peer := (os_peer s)\<lparr>pe_cap_add_paths := True\<rparr>, os_reply := r\<rparr>))
          else Inr (True, s))
      else Inr (True, s))"

text \<open>\<^verbatim>\<open>while (optcap_len > 0)\<close>; \<open>left\<close> is \<^verbatim>\<open>optcap_len\<close>, an \<^verbatim>\<open>int\<close>.\<close>

function cap_loop :: "bool \<Rightarrow> byte list \<Rightarrow> nat \<Rightarrow> byte \<Rightarrow> nat \<Rightarrow> int \<Rightarrow> open_state \<Rightarrow> (bool \<times> open_state) res" where
  "cap_loop online buf opt opt_len ptr left s =
     (if \<not> 0 < left then Inr (True, s)
      else rbind (rd8 buf (ptr + 1)) (\<lambda>cap_len. rbind (rd8 buf ptr) (\<lambda>cap_type.
        if left < int (unat cap_len) then Inr (False, s)
        else rbind (parse_capability online buf opt opt_len ptr cap_type cap_len s) (\<lambda>(ok, s1).
          if \<not> ok then Inr (False, s1)
          else cap_loop online buf opt opt_len (ptr + unat cap_len + 2) (left - (int (unat cap_len) + 2)) s1))))"
  by (pat_completeness, elim Pair_inject, simp only:)
termination
proof (relation "measure (\<lambda>(_, _, _, _, _, left, _). nat left)", goal_cases)
  case (2 online buf opt opt_len ptr left s cap_len cap_type r ok s1)
  then have "0 < left" by simp
  then have "nat (left - (int (unat cap_len) + 2)) < nat left" by linarith
  then show ?case by simp
qed simp

declare cap_loop.simps [simp del]

text \<open>The loop over the options, \<open>len\<close> and \<open>opt_len\<close> being of eight bits. It ends at the latest
  when \<open>ptr\<close> leaves the buffer.\<close>

function opt_loop :: "bool \<Rightarrow> byte list \<Rightarrow> byte \<Rightarrow> nat \<Rightarrow> byte \<Rightarrow> open_state \<Rightarrow> (bool \<times> open_state) res" where
  "opt_loop online buf optlen ptr len s =
     (if len = 0 then Inr (True, s)
      else rbind (rd8 buf ptr) (\<lambda>opt_type. rbind (rd8 buf (ptr + 1)) (\<lambda>opt_len.
        if optlen < opt_len then Inr (False, s)
        else rbind (if opt_type = BGP_OPTION_CAPABILITY
                    then cap_loop online buf ptr opt_len (ptr + 2) (int (unat (len - 2))) s else Inr (True, s)) (\<lambda>(ok, s1).
          if \<not> ok then Inr (False, s1)
          else opt_loop online buf optlen (ptr + 2 + unat opt_len) (len - 2 - opt_len) s1))))"
  by (pat_completeness, elim Pair_inject, simp only:)
termination
proof (relation "measure (\<lambda>(_, buf, _, ptr, _, _). length buf - ptr)", goal_cases)
  case (2 online buf optlen ptr len s opt_type opt_len r ok s1)
  then have "ptr < length buf" by (simp add: rd8_eq_Inr)
  then show ?case by simp
qed simp

declare opt_loop.simps [simp del]

text \<open>The number of the remote AS out of the message and the capability, \<open>None\<close> where they do not
  fit.\<close>

definition remote_as_of :: "u16 \<Rightarrow> u32 \<Rightarrow> u32 option" where
  "remote_as_of remote_as remote_as4 =
     (if remote_as = BGP_AS_TRANS then
        (if remote_as4 \<noteq> 0 \<and> remote_as4 \<noteq> ucast BGP_AS_TRANS then Some remote_as4 else None)
      else if remote_as4 = 0 \<or> remote_as4 = ucast remote_as then Some (ucast remote_as) else None)"

text \<open>The end of \<^verbatim>\<open>bgp_parse_open_msg\<close>, behind the options: its code, the peer, and the packet that
  was sent.\<close>

definition open_finish :: "bgp_config \<Rightarrow> int \<Rightarrow> bool \<Rightarrow> u16 \<Rightarrow> byte \<Rightarrow> open_state \<Rightarrow> (int \<times> bgp_peer \<times> byte list list) res" where
  "open_finish cfg now online remote_as optlen s =
     (case remote_as_of remote_as (os_as4 s) of
        None \<Rightarrow> Inr (ERR, os_peer s, [])
      | Some as \<Rightarrow>
          let p3 = (os_peer s)\<lparr>pe_as := as\<rparr>; ret = int (BGP_MIN_OPEN_MSG_SIZE + unat optlen) in
          if online then
            let p4 = p3\<lparr>pe_myas := (if cfg_bgp_as cfg = 0 then as else cfg_bgp_as cfg)\<rparr> in
            rbind (bgp_write_open_msg cfg (os_reply s) p4) (\<lambda>w. case w of
              None \<Rightarrow> Inr (ERR, p4, [])
            | Some msg \<Rightarrow> Inr (ret, p4\<lparr>pe_last_keepalive := now, pe_status := Established\<rparr>, [msg @ bgp_write_keepalive_msg]))
          else Inr (ret, p3\<lparr>pe_status := Established\<rparr>, []))"

text \<open>The fixed fields of the message, read into the peer; then the options.\<close>

definition open_options :: "bgp_peer \<Rightarrow> byte list \<Rightarrow> nat \<Rightarrow> bool \<Rightarrow> u16 \<Rightarrow> byte list \<Rightarrow> byte \<Rightarrow> (bool \<times> open_state) res" where
  "open_options p1 buf pkt online holdtime ident optlen =
     (let p2 = p1\<lparr>pe_ht := max 5 holdtime, pe_id := \<lparr>ha_family = AF_INET, ha_address = ident @ drop 4 (ha_address (pe_id p1))\<rparr>\<rparr>;
          s0 = \<lparr>os_peer = p2, os_reply = [], os_as4 = 0\<rparr>
      in if 2 \<le> optlen then opt_loop online buf optlen (pkt + BGP_MIN_OPEN_MSG_SIZE) optlen s0 else Inr (True, s0))"

definition bgp_parse_open_msg :: "bgp_config \<Rightarrow> bgp_peer \<Rightarrow> byte list \<Rightarrow> nat \<Rightarrow> int \<Rightarrow> bool \<Rightarrow> (int \<times> bgp_peer \<times> byte list list) res" where
  "bgp_parse_open_msg cfg peer buf pkt now online =
     (if \<not> misc_db (ptype peer) then Inr (ERR, peer, [])
      else if online \<and> \<not> pe_status peer < OpenSent then Inr (ERR, peer, [])
      else
        let p1 = peer\<lparr>pe_status := Active\<rparr> in
        rbind (rd8 buf (pkt + 19)) (\<lambda>version. if version \<noteq> BGP_VERSION4 then Inr (ERR, p1, [])
        else
          rbind (rd_be16 buf (pkt + 20)) (\<lambda>remote_as. rbind (rd_be16 buf (pkt + 22)) (\<lambda>holdtime.
          rbind (rd_mem buf (pkt + 24) 4) (\<lambda>ident. rbind (rd8 buf (pkt + 28)) (\<lambda>optlen.
          rbind (open_options p1 buf pkt online holdtime ident optlen) (\<lambda>(ok, s).
            if \<not> ok then Inr (ERR, os_peer s, []) else open_finish cfg now online remote_as optlen s)))))))"

text \<open>\<^verbatim>\<open>bgp_write_notification_msg\<close> into \<open>msglen\<close> bytes; the first \<^verbatim>\<open>ret\<close> of them.\<close>

definition bgp_write_notification_msg :: "nat \<Rightarrow> byte \<Rightarrow> byte \<Rightarrow> byte list option \<Rightarrow> byte list res" where
  "bgp_write_notification_msg msglen n_major n_minor shutdown_msg =
     (if msglen < BGP_MIN_NOTIFICATION_MSG_SIZE then Inr []
      else
        let major = (if n_major = 0 then BGP_NOTIFY_CEASE else n_major);
            minor = (if n_minor = 0 then BGP_NOTIFY_CEASE_ADMIN_SHUTDOWN else n_minor);
            head = (\<lambda>n. replicate BGP_MARKER_SIZE 0xFF @ put_be16 (word_of_nat n) @ [BGP_NOTIFICATION, major, minor])
        in case shutdown_msg of
             None \<Rightarrow> Inr (head BGP_MIN_NOTIFICATION_MSG_SIZE)
           | Some txt1 \<Rightarrow>
               let n = length txt1 in
               if n \<le> BGP_NOTIFY_CEASE_SM_LEN \<and> BGP_MIN_NOTIFICATION_MSG_SIZE + n \<le> msglen then
                 if msglen < BGP_MIN_NOTIFICATION_MSG_SIZE + 1 + n then Inl Out_Of_Bounds
                 else Inr (head (BGP_MIN_NOTIFICATION_MSG_SIZE + n + 1) @ word_of_nat n # txt1)
               else Inr (head BGP_MIN_NOTIFICATION_MSG_SIZE))"

section \<open>The session\<close>

text \<open>What \<^verbatim>\<open>bgp_parse_msg\<close> changes: the peer, the routing information base and, in \<open>ss_sent\<close>, the
  packets it sends.\<close>

record session =
  ss_peer :: bgp_peer
  ss_db :: bgp_db
  ss_sent :: "byte list list"

datatype msg_outcome = Msg_Return int session | Msg_Next nat session

definition no_extra :: bgp_msg_extra where
  "no_extra = \<lparr>ed_id = 0, ed_data = []\<rparr>"

text \<open>The message of \<open>len\<close> bytes at \<open>ptr\<close>: either the loop goes on behind it, or it returns.\<close>

definition msg_dispatch :: "bgp_config \<Rightarrow> bgp_daemon \<Rightarrow> int \<Rightarrow> bool \<Rightarrow> nat \<Rightarrow> nat \<Rightarrow> session \<Rightarrow> msg_outcome res" where
  "msg_dispatch cfg bms now online ptr len s =
     (let peer = ss_peer s; buf = pe_buf peer;
          continue = (\<lambda>s1. Msg_Next (ptr + len) (s1\<lparr>ss_peer := (ss_peer s1)\<lparr>pe_msglen := pe_msglen (ss_peer s1) - word_of_nat len\<rparr>\<rparr>))
      in rbind (rd8 buf (ptr + 18)) (\<lambda>ty.
        if ty = BGP_OPEN then
          rbind (bgp_parse_open_msg cfg peer buf ptr now online) (\<lambda>(ret, peer1, sent).
            let s1 = s\<lparr>ss_peer := peer1, ss_sent := ss_sent s @ sent\<rparr> in
            Inr (if ret < 0 then Msg_Return BGP_NOTIFY_OPEN_ERR s1 else continue s1))
        else if ty = BGP_NOTIFICATION then
          rbind (bgp_parse_notification_msg peer buf ptr (BGP_NOTIFY_CEASE_SM_LEN + 1)) (\<lambda>_. Inr (Msg_Return ERR s))
        else if ty = BGP_KEEPALIVE then
          Inr (if OpenSent \<le> pe_status peer then
                 let peer1 = peer\<lparr>pe_status := max Established (pe_status peer)\<rparr> in
                 if online then continue (s\<lparr>ss_peer := peer1\<lparr>pe_last_keepalive := now\<rparr>, ss_sent := ss_sent s @ [bgp_write_keepalive_msg]\<rparr>)
                 else continue (s\<lparr>ss_peer := peer1\<rparr>)
               else continue s)
        else if ty = BGP_UPDATE then
          if pe_status peer < Established then Inr (Msg_Return BGP_NOTIFY_FSM_ERR s)
          else rbind (bgp_parse_update_msg bms peer no_extra buf ptr (ss_db s)) (\<lambda>(ret, d).
            let s1 = s\<lparr>ss_db := d\<rparr> in Inr (if ret < 0 then Msg_Return BGP_NOTIFY_UPDATE_ERR s1 else continue s1))
        else Inr (Msg_Return BGP_NOTIFY_HEADER_ERR s)))"

text \<open>One turn of the loop. A message that is not complete is moved to the start of the buffer.\<close>

definition msg_step :: "bgp_config \<Rightarrow> bgp_daemon \<Rightarrow> int \<Rightarrow> bool \<Rightarrow> nat \<Rightarrow> session \<Rightarrow> msg_outcome res" where
  "msg_step cfg bms now online ptr s =
     (let peer = ss_peer s; buf = pe_buf peer; msglen = unat (pe_msglen peer) in
      if msglen < BGP_HEADER_SIZE \<and> ptr = 0 then Inr (Msg_Return BGP_NOTIFY_HEADER_ERR s)
      else rbind (if msglen < BGP_HEADER_SIZE then Inr None
                  else rbind (rd_be16 buf (ptr + 16)) (\<lambda>len. Inr (if msglen < unat len then None else Some (unat len)))) (\<lambda>whole.
        case whole of
          None \<Rightarrow>
            rbind (rd_mem buf ptr msglen) (\<lambda>bs.
              if BGP_BUFFER_SIZE < msglen then Inl Out_Of_Bounds
              else rbind (wr_mem buf 0 bs) (\<lambda>buf1.
                Inr (Msg_Return SUCCESS (s\<lparr>ss_peer := peer\<lparr>pe_buf := buf1, pe_truncated_len := pe_msglen peer\<rparr>\<rparr>))))
        | Some len \<Rightarrow>
            let s1 = s\<lparr>ss_peer := peer\<lparr>pe_truncated_len := 0\<rparr>\<rparr> in
            if bgp_max_msglen_check len = ERR then Inr (Msg_Return BGP_NOTIFY_HEADER_ERR s1)
            else rbind (bgp_marker_check buf ptr BGP_MARKER_SIZE) (\<lambda>m.
              if m = ERR then Inr (Msg_Return BGP_NOTIFY_HEADER_ERR s1)
              else msg_dispatch cfg bms now online ptr len s1)))"

text \<open>The loop; \<open>None\<close> means that it does not end.\<close>

partial_function (option) msg_loop :: "bgp_config \<Rightarrow> bgp_daemon \<Rightarrow> int \<Rightarrow> bool \<Rightarrow> nat \<Rightarrow> session \<Rightarrow> (int \<times> session) res option" where
  [code]: "msg_loop cfg bms now online ptr s =
     (if pe_msglen (ss_peer s) = 0 then Some (Inr (SUCCESS, s))
      else case msg_step cfg bms now online ptr s of
             Inl e \<Rightarrow> Some (Inl e)
           | Inr out \<Rightarrow>
               (case out of
                  Msg_Return ret s1 \<Rightarrow> Some (Inr (ret, s1))
                | Msg_Next ptr1 s1 \<Rightarrow> msg_loop cfg bms now online ptr1 s1))"

definition bgp_parse_msg :: "bgp_config \<Rightarrow> bgp_daemon \<Rightarrow> int \<Rightarrow> bool \<Rightarrow> session \<Rightarrow> (int \<times> session) res option" where
  "bgp_parse_msg cfg bms now online s =
     (if \<not> misc_db (ptype (ss_peer s)) then Some (Inr (ERR, s)) else msg_loop cfg bms now online 0 s)"

end
