(* ===== verification/Bgp_Msg_Props.thy ===== *)
theory Bgp_Msg_Props
  imports Bgp_Msg Bgp_Nlri_Props
begin

text \<open>
  The session loop of \<^verbatim>\<open>bgp_parse_msg\<close> in \<^verbatim>\<open>src/src/bgp/bgp_msg.c\<close>: when it ends, when it does
  not, and which states of a session let a message reach the RIB.
\<close>

section \<open>What the messages leave alone\<close>

definition same_buffer :: "bgp_peer \<Rightarrow> bgp_peer \<Rightarrow> bool" where
  "same_buffer p q \<longleftrightarrow> pe_buf q = pe_buf p \<and> pe_msglen q = pe_msglen p \<and>
     has_misc_db q = has_misc_db p"

lemma same_buffer_refl [simp]: "same_buffer p p"
  by (simp add: same_buffer_def)

lemma same_buffer_trans: "same_buffer p q \<Longrightarrow> same_buffer q r \<Longrightarrow> same_buffer p r"
  by (simp add: same_buffer_def)

lemma same_buffer_upd [simp]:
  "same_buffer p (q\<lparr>pe_status := a\<rparr>) = same_buffer p q" "same_buffer p (q\<lparr>pe_ht := b\<rparr>) = same_buffer p q"
  "same_buffer p (q\<lparr>pe_id := c\<rparr>) = same_buffer p q" "same_buffer p (q\<lparr>pe_as := e\<rparr>) = same_buffer p q"
  "same_buffer p (q\<lparr>pe_myas := f\<rparr>) = same_buffer p q" "same_buffer p (q\<lparr>pe_last_keepalive := g\<rparr>) = same_buffer p q"
  "same_buffer p (q\<lparr>pe_cap_mp := h\<rparr>) = same_buffer p q" "same_buffer p (q\<lparr>pe_cap_4as := i\<rparr>) = same_buffer p q"
  "same_buffer p (q\<lparr>pe_cap_add_paths := j\<rparr>) = same_buffer p q" "same_buffer p (q\<lparr>pe_truncated_len := k\<rparr>) = same_buffer p q"
  by (simp_all add: same_buffer_def)

lemma parse_capability_buffer:
  assumes "parse_capability online buf opt opt_len ptr ct cl s = Inr (ok, s1)"
  shows "same_buffer (os_peer s) (os_peer s1)"
proof -
  consider "ct = BGP_CAPABILITY_MULTIPROTOCOL" | "ct \<noteq> BGP_CAPABILITY_MULTIPROTOCOL" "ct = BGP_CAPABILITY_4_OCTET_AS_NUMBER"
    | "ct \<noteq> BGP_CAPABILITY_MULTIPROTOCOL" "ct \<noteq> BGP_CAPABILITY_4_OCTET_AS_NUMBER" by blast
  then show ?thesis
  proof cases
    case 1
    then have "os_peer s1 = (os_peer s)\<lparr>pe_cap_mp := True\<rparr>"
      using assms unfolding parse_capability_def by (cases online) auto
    then show ?thesis by simp
  next
    case 2
    show ?thesis
    proof (cases "cl = 4")
      case True
      then show ?thesis using assms 2 unfolding parse_capability_def by (cases online) clarsimp+
    next
      case False
      then show ?thesis using assms 2 unfolding parse_capability_def by simp
    qed
  next
    case 3
    show ?thesis
    proof (cases "ct = BGP_CAPABILITY_ADD_PATHS")
      case True
      then obtain cap where cap: "rd_mem buf (ptr + 2) 4 = Inr cap" using assms 3 unfolding parse_capability_def by auto
      then show ?thesis
        using assms 3 True unfolding parse_capability_def by (cases "cap ! 3 = 2"; cases online) clarsimp+
    next
      case False
      then show ?thesis using assms 3 unfolding parse_capability_def by simp
    qed
  qed
qed

lemma cap_loop_buffer:
  "cap_loop online buf opt opt_len ptr left s = Inr (ok, s1) \<Longrightarrow> same_buffer (os_peer s) (os_peer s1)"
proof (induction online buf opt opt_len ptr left s arbitrary: ok s1 rule: cap_loop.induct)
  case (1 online buf opt opt_len ptr left s)
  show ?case
  proof (cases "0 < left")
    case False
    then show ?thesis using "1.prems" by (simp add: cap_loop.simps [of online buf opt opt_len ptr left s])
  next
    case True
    obtain cl ct where c: "rd8 buf (ptr + 1) = Inr cl" "rd8 buf ptr = Inr ct"
      using "1.prems" True by (auto simp: cap_loop.simps [of online buf opt opt_len ptr left s])
    show ?thesis
    proof (cases "left < int (unat cl)")
      case True
      then show ?thesis using "1.prems" c \<open>0 < left\<close> by (simp add: cap_loop.simps [of online buf opt opt_len ptr left s])
    next
      case False
      obtain ok1 s2 where p: "parse_capability online buf opt opt_len ptr ct cl s = Inr (ok1, s2)"
        using "1.prems" c True False by (auto simp: cap_loop.simps [of online buf opt opt_len ptr left s])
      have s2: "same_buffer (os_peer s) (os_peer s2)" using parse_capability_buffer [OF p] .
      show ?thesis
      proof (cases ok1)
        case True
        then have "cap_loop online buf opt opt_len (ptr + unat cl + 2) (left - (int (unat cl) + 2)) s2 = Inr (ok, s1)"
          using "1.prems" c \<open>0 < left\<close> False p by (simp add: cap_loop.simps [of online buf opt opt_len ptr left s])
        then have "same_buffer (os_peer s2) (os_peer s1)"
          using "1.IH" [OF _ c False p refl] True \<open>0 < left\<close> by simp
        then show ?thesis using s2 same_buffer_trans by blast
      next
        case no: False
        then show ?thesis
          using "1.prems" c \<open>0 < left\<close> False p s2 by (simp add: cap_loop.simps [of online buf opt opt_len ptr left s])
      qed
    qed
  qed
qed

lemma opt_loop_buffer:
  "opt_loop online buf optlen ptr len s = Inr (ok, s1) \<Longrightarrow> same_buffer (os_peer s) (os_peer s1)"
proof (induction online buf optlen ptr len s arbitrary: ok s1 rule: opt_loop.induct)
  case (1 online buf optlen ptr len s)
  note run = "1.prems" [unfolded opt_loop.simps [of online buf optlen ptr len s]]
  show ?case
  proof (cases "len = 0")
    case True
    then show ?thesis using run by simp
  next
    case nz: False
    obtain ty ol where c: "rd8 buf ptr = Inr ty" "rd8 buf (ptr + 1) = Inr ol" using run nz by auto
    show ?thesis
    proof (cases "optlen < ol")
      case True
      then show ?thesis using run c nz by simp
    next
      case le: False
      let ?r = "if ty = BGP_OPTION_CAPABILITY then cap_loop online buf ptr ol (ptr + 2) (int (unat (len - 2))) s else Inr (True, s)"
      obtain ok1 s2 where p: "?r = Inr (ok1, s2)" using run c nz le by auto
      have s2: "same_buffer (os_peer s) (os_peer s2)"
        using p cap_loop_buffer by (cases "ty = BGP_OPTION_CAPABILITY") auto
      show ?thesis
      proof (cases ok1)
        case True
        then have "opt_loop online buf optlen (ptr + 2 + unat ol) (len - 2 - ol) s2 = Inr (ok, s1)"
          using run c nz le p by simp
        then have "same_buffer (os_peer s2) (os_peer s1)" using "1.IH" [OF nz c le p refl] True by simp
        then show ?thesis using s2 same_buffer_trans by blast
      next
        case False
        then show ?thesis using run c nz le p s2 by simp
      qed
    qed
  qed
qed

lemma open_options_buffer:
  assumes "open_options p1 buf pkt online ht ident ol = Inr (ok, s)"
  shows "same_buffer p1 (os_peer s)"
proof -
  define p2 where "p2 = p1\<lparr>pe_ht := max 5 ht, pe_id := \<lparr>ha_family = AF_INET, ha_address = ident @ drop 4 (ha_address (pe_id p1))\<rparr>\<rparr>"
  have p2: "same_buffer p1 p2" by (simp add: p2_def)
  have run: "(if 2 \<le> ol then opt_loop online buf ol (pkt + BGP_MIN_OPEN_MSG_SIZE) ol \<lparr>os_peer = p2, os_reply = [], os_as4 = 0\<rparr>
      else Inr (True, \<lparr>os_peer = p2, os_reply = [], os_as4 = 0\<rparr>)) = Inr (ok, s)"
    using assms unfolding open_options_def Let_def p2_def .
  show ?thesis
  proof (cases "2 \<le> ol")
    case True
    then have "same_buffer p2 (os_peer s)" using run opt_loop_buffer by fastforce
    then show ?thesis using p2 same_buffer_trans by blast
  next
    case False
    then show ?thesis using run p2 by auto
  qed
qed

lemma open_finish_buffer:
  assumes "open_finish cfg now online ra ol s = Inr (ret, peer1, sent)"
  shows "same_buffer (os_peer s) peer1"
proof (cases "remote_as_of ra (os_as4 s)")
  case None
  then show ?thesis using assms by (simp add: open_finish_def)
next
  case (Some as)
  show ?thesis
  proof (cases online)
    case False
    then show ?thesis using assms Some by (auto simp: open_finish_def Let_def)
  next
    case True
    define p4 where "p4 = (os_peer s)\<lparr>pe_as := as, pe_myas := (if cfg_bgp_as cfg = 0 then as else cfg_bgp_as cfg)\<rparr>"
    have run: "rbind (bgp_write_open_msg cfg (os_reply s) p4) (\<lambda>w. case w of
              None \<Rightarrow> Inr (ERR, p4, [])
            | Some msg \<Rightarrow> Inr (int (BGP_MIN_OPEN_MSG_SIZE + unat ol), p4\<lparr>pe_last_keepalive := now, pe_status := Established\<rparr>,
                [msg @ bgp_write_keepalive_msg])) = Inr (ret, peer1, sent)"
      using assms Some True unfolding open_finish_def Let_def p4_def by (simp only: option.case if_True)
    have "same_buffer (os_peer s) p4" by (simp add: p4_def)
    moreover have "same_buffer p4 peer1"
    proof (cases "bgp_write_open_msg cfg (os_reply s) p4")
      case (Inr w)
      then show ?thesis using run by (cases w) auto
    qed (use run in simp)
    ultimately show ?thesis using same_buffer_trans by blast
  qed
qed

lemma open_msg_buffer:
  assumes "bgp_parse_open_msg cfg peer buf pkt now online = Inr (ret, peer1, sent)"
  shows "same_buffer peer peer1"
proof (cases "\<not> misc_db (ptype peer) \<or> online \<and> \<not> pe_status peer < OpenSent")
  case True
  then show ?thesis using assms by (auto simp: bgp_parse_open_msg_def split: if_split_asm)
next
  case False
  then have c: "misc_db (ptype peer)" "(online \<and> \<not> pe_status peer < OpenSent) = False" by blast+
  note run = assms [unfolded bgp_parse_open_msg_def Let_def]
  let ?p1 = "peer\<lparr>pe_status := Active\<rparr>"
  obtain v where v: "rd8 buf (pkt + 19) = Inr v" using run c by (cases "rd8 buf (pkt + 19)") auto
  show ?thesis
  proof (cases "v = BGP_VERSION4")
    case no: False
    then have "peer1 = ?p1" using run c v by auto
    then show ?thesis by simp
  next
    case yes: True
    obtain ra where r1: "rd_be16 buf (pkt + 20) = Inr ra" using run c v yes by (cases "rd_be16 buf (pkt + 20)") auto
    obtain ht where r2: "rd_be16 buf (pkt + 22) = Inr ht" using run c v yes r1 by (cases "rd_be16 buf (pkt + 22)") auto
    obtain id where r3: "rd_mem buf (pkt + 24) 4 = Inr id" using run c v yes r1 r2 by (cases "rd_mem buf (pkt + 24) 4") auto
    obtain ol where r4: "rd8 buf (pkt + 28) = Inr ol" using run c v yes r1 r2 r3 by (cases "rd8 buf (pkt + 28)") auto
    have run1: "rbind (open_options ?p1 buf pkt online ht id ol) (\<lambda>(ok, s).
            if \<not> ok then Inr (ERR, os_peer s, []) else open_finish cfg now online ra ol s) = Inr (ret, peer1, sent)"
      using run c v yes r1 r2 r3 r4 by simp
    then obtain ok s where o: "open_options ?p1 buf pkt online ht id ol = Inr (ok, s)"
      by (cases "open_options ?p1 buf pkt online ht id ol") auto
    have sb: "same_buffer peer (os_peer s)"
      using open_options_buffer [OF o] by (simp add: same_buffer_def)
    show ?thesis
    proof (cases ok)
      case True
      then have "same_buffer (os_peer s) peer1" using run1 o open_finish_buffer by simp
      then show ?thesis using sb same_buffer_trans by blast
    next
      case False
      then show ?thesis using run1 o sb by auto
    qed
  qed
qed

section \<open>One message\<close>

text \<open>What every outcome of a message has in common: where the loop goes on, and what became of the
  peer and of the RIB.\<close>

definition advances :: "nat \<Rightarrow> nat \<Rightarrow> session \<Rightarrow> msg_outcome \<Rightarrow> bool" where
  "advances ptr len s out = (\<forall>ptr1 s1. out = Msg_Next ptr1 s1 \<longrightarrow> ptr1 = ptr + len \<and>
     pe_buf (ss_peer s1) = pe_buf (ss_peer s) \<and> has_misc_db (ss_peer s1) = has_misc_db (ss_peer s) \<and>
     pe_msglen (ss_peer s1) = pe_msglen (ss_peer s) - word_of_nat len)"

fun out_session :: "msg_outcome \<Rightarrow> session" where
  "out_session (Msg_Return ret s) = s"
| "out_session (Msg_Next ptr s) = s"

lemma advances_return [simp]: "advances ptr len s (Msg_Return ret s1)"
  by (simp add: advances_def)

lemma advances_next:
  "same_buffer (ss_peer s) (ss_peer s1) \<Longrightarrow>
   advances ptr len s (Msg_Next (ptr + len) (s1\<lparr>ss_peer := (ss_peer s1)\<lparr>pe_msglen := pe_msglen (ss_peer s1) - word_of_nat len\<rparr>\<rparr>))"
  by (simp add: advances_def same_buffer_def)

lemma message_types [simp]:
  "BGP_OPEN \<noteq> BGP_NOTIFICATION" "BGP_OPEN \<noteq> BGP_KEEPALIVE" "BGP_OPEN \<noteq> BGP_UPDATE" "BGP_NOTIFICATION \<noteq> BGP_KEEPALIVE"
  "BGP_NOTIFICATION \<noteq> BGP_UPDATE" "BGP_KEEPALIVE \<noteq> BGP_UPDATE"
  "BGP_NOTIFICATION \<noteq> BGP_OPEN" "BGP_KEEPALIVE \<noteq> BGP_OPEN" "BGP_UPDATE \<noteq> BGP_OPEN" "BGP_KEEPALIVE \<noteq> BGP_NOTIFICATION"
  "BGP_UPDATE \<noteq> BGP_NOTIFICATION" "BGP_UPDATE \<noteq> BGP_KEEPALIVE"
  by (simp_all add: BGP_OPEN_def BGP_NOTIFICATION_def BGP_KEEPALIVE_def BGP_UPDATE_def)

definition continue_with :: "nat \<Rightarrow> nat \<Rightarrow> session \<Rightarrow> msg_outcome" where
  "continue_with ptr len s1 =
     Msg_Next (ptr + len) (s1\<lparr>ss_peer := (ss_peer s1)\<lparr>pe_msglen := pe_msglen (ss_peer s1) - word_of_nat len\<rparr>\<rparr>)"

lemma dispatch_cases:
  assumes "msg_dispatch cfg bms now online ptr len s = Inr out"
  obtains (opn) ret peer1 sent where "bgp_parse_open_msg cfg (ss_peer s) (pe_buf (ss_peer s)) ptr now online = Inr (ret, peer1, sent)"
      "out = (if ret < 0 then Msg_Return BGP_NOTIFY_OPEN_ERR (s\<lparr>ss_peer := peer1, ss_sent := ss_sent s @ sent\<rparr>)
         else continue_with ptr len (s\<lparr>ss_peer := peer1, ss_sent := ss_sent s @ sent\<rparr>))"
  | (stop) ret where "out = Msg_Return ret s"
  | (keep) "out = continue_with ptr len s"
  | (alive) peer1 where "OpenSent \<le> pe_status (ss_peer s)" "peer1 = (ss_peer s)\<lparr>pe_status := max Established (pe_status (ss_peer s))\<rparr>"
      "out = (if online then continue_with ptr len (s\<lparr>ss_peer := peer1\<lparr>pe_last_keepalive := now\<rparr>, ss_sent := ss_sent s @ [bgp_write_keepalive_msg]\<rparr>)
         else continue_with ptr len (s\<lparr>ss_peer := peer1\<rparr>))"
  | (upd) ret d where "Established \<le> pe_status (ss_peer s)" "bgp_parse_update_msg bms (ss_peer s) no_extra (pe_buf (ss_peer s)) ptr (ss_db s) = Inr (ret, d)"
      "out = (if ret < 0 then Msg_Return BGP_NOTIFY_UPDATE_ERR (s\<lparr>ss_db := d\<rparr>) else continue_with ptr len (s\<lparr>ss_db := d\<rparr>))"
proof -
  note run = assms [unfolded msg_dispatch_def Let_def continue_with_def [symmetric]]
  obtain ty where ty: "rd8 (pe_buf (ss_peer s)) (ptr + 18) = Inr ty" using run by (cases "rd8 (pe_buf (ss_peer s)) (ptr + 18)") auto
  note run1 = run [unfolded ty rbind_simps]
  consider "ty = BGP_OPEN" | "ty = BGP_NOTIFICATION" | "ty = BGP_KEEPALIVE" | "ty = BGP_UPDATE"
    | "ty \<notin> {BGP_OPEN, BGP_NOTIFICATION, BGP_KEEPALIVE, BGP_UPDATE}" by blast
  then show thesis
  proof cases
    case 1
    then obtain ret peer1 sent where r: "bgp_parse_open_msg cfg (ss_peer s) (pe_buf (ss_peer s)) ptr now online = Inr (ret, peer1, sent)"
      using run1 by (cases "bgp_parse_open_msg cfg (ss_peer s) (pe_buf (ss_peer s)) ptr now online") auto
    show thesis by (rule opn [OF r]) (use run1 1 r in simp)
  next
    case 2
    then show thesis using run1 stop by auto
  next
    case 3
    then show thesis using run1 alive keep by (cases "OpenSent \<le> pe_status (ss_peer s)") simp_all
  next
    case 4
    show thesis
    proof (cases "pe_status (ss_peer s) < Established")
      case True
      show thesis by (rule stop [of BGP_NOTIFY_FSM_ERR]) (use run1 4 True in simp)
    next
      case False
      then obtain ret d where r: "bgp_parse_update_msg bms (ss_peer s) no_extra (pe_buf (ss_peer s)) ptr (ss_db s) = Inr (ret, d)"
        using run1 4 by (cases "bgp_parse_update_msg bms (ss_peer s) no_extra (pe_buf (ss_peer s)) ptr (ss_db s)") auto
      show thesis by (rule upd [OF _ r]) (use run1 4 r False in simp_all)
    qed
  next
    case 5
    show thesis by (rule stop [of BGP_NOTIFY_HEADER_ERR]) (use run1 5 in simp)
  qed
qed

lemma dispatch_advances:
  assumes "msg_dispatch cfg bms now online ptr len s = Inr out"
  shows "advances ptr len s out"
  using assms
proof (cases rule: dispatch_cases)
  case (opn ret peer1 sent)
  have "same_buffer (ss_peer s) peer1" using open_msg_buffer [OF opn(1)] .
  then show ?thesis using opn(2) by (simp add: continue_with_def advances_def same_buffer_def)
next
  case (upd ret d)
  then show ?thesis by (simp add: continue_with_def advances_def)
qed (simp_all add: continue_with_def advances_def)

lemma statuses [simp]: "Active < OpenSent" "OpenSent < Established" "OpenSent \<le> Established" "ERR < 0" "\<not> Established < Established"
  by (simp_all add: Active_def OpenSent_def Established_def ERR_def)

lemma open_finish_done:
  assumes "open_finish cfg now online ra ol s = Inr (ret, peer1, sent)" "0 \<le> ret"
  shows "pe_status peer1 = Established" and "online \<Longrightarrow> sent \<noteq> []"
proof -
  have neg: "ret \<noteq> ERR" using assms(2) by (auto simp: ERR_def)
  then obtain as where as: "remote_as_of ra (os_as4 s) = Some as"
    using assms(1) by (cases "remote_as_of ra (os_as4 s)") (auto simp: open_finish_def)
  have "pe_status peer1 = Established \<and> (online \<longrightarrow> sent \<noteq> [])"
  proof (cases online)
    case False
    then show ?thesis using assms as by (auto simp: open_finish_def Let_def)
  next
    case True
    let ?p4 = "(os_peer s)\<lparr>pe_as := as, pe_myas := (if cfg_bgp_as cfg = 0 then as else cfg_bgp_as cfg)\<rparr>"
    have run: "rbind (bgp_write_open_msg cfg (os_reply s) ?p4) (\<lambda>w. case w of
              None \<Rightarrow> Inr (ERR, ?p4, [])
            | Some msg \<Rightarrow> Inr (int (BGP_MIN_OPEN_MSG_SIZE + unat ol), ?p4\<lparr>pe_last_keepalive := now, pe_status := Established\<rparr>,
                [msg @ bgp_write_keepalive_msg])) = Inr (ret, peer1, sent)"
      using assms True as unfolding open_finish_def Let_def by (simp only: option.case if_True)
    then obtain w where w: "bgp_write_open_msg cfg (os_reply s) ?p4 = Inr w" by (cases "bgp_write_open_msg cfg (os_reply s) ?p4") simp_all
    note run1 = run [unfolded w rbind_simps]
    then show ?thesis using neg by (cases w) auto
  qed
  then show "pe_status peer1 = Established" and "online \<Longrightarrow> sent \<noteq> []" by simp_all
qed

lemma open_msg_again:
  assumes "bgp_parse_open_msg cfg peer buf pkt now True = Inr (ret, peer1, sent)" "OpenSent \<le> pe_status peer"
  shows "ret = ERR" "peer1 = peer" "sent = []"
  using assms by (auto simp: bgp_parse_open_msg_def not_less split: if_split_asm)

lemma open_msg_done:
  assumes "bgp_parse_open_msg cfg peer buf pkt now online = Inr (ret, peer1, sent)" "0 \<le> ret"
  shows "pe_status peer1 = Established" "online \<Longrightarrow> sent \<noteq> []"
proof -
  have neg: "ret \<noteq> ERR" using assms(2) by (auto simp: ERR_def)
  note run = assms(1) [unfolded bgp_parse_open_msg_def Let_def]
  have c: "misc_db (ptype peer)" using run neg by (cases "misc_db (ptype peer)") auto
  have c2: "(online \<and> \<not> pe_status peer < OpenSent) = False"
    using run neg c by (cases "online \<and> \<not> pe_status peer < OpenSent") auto
  let ?p1 = "peer\<lparr>pe_status := Active\<rparr>"
  obtain v where v: "rd8 buf (pkt + 19) = Inr v" using run c c2 by (cases "rd8 buf (pkt + 19)") auto
  have yes: "v = BGP_VERSION4" using run c c2 v neg by (cases "v = BGP_VERSION4") auto
  obtain ra where r1: "rd_be16 buf (pkt + 20) = Inr ra" using run c c2 v yes by (cases "rd_be16 buf (pkt + 20)") auto
  obtain ht where r2: "rd_be16 buf (pkt + 22) = Inr ht" using run c c2 v yes r1 by (cases "rd_be16 buf (pkt + 22)") auto
  obtain id where r3: "rd_mem buf (pkt + 24) 4 = Inr id" using run c c2 v yes r1 r2 by (cases "rd_mem buf (pkt + 24) 4") auto
  obtain ol where r4: "rd8 buf (pkt + 28) = Inr ol" using run c c2 v yes r1 r2 r3 by (cases "rd8 buf (pkt + 28)") auto
  have run1: "rbind (open_options ?p1 buf pkt online ht id ol) (\<lambda>(ok, s).
          if \<not> ok then Inr (ERR, os_peer s, []) else open_finish cfg now online ra ol s) = Inr (ret, peer1, sent)"
    using run c c2 v yes r1 r2 r3 r4 by simp
  then obtain ok s where o: "open_options ?p1 buf pkt online ht id ol = Inr (ok, s)"
    by (cases "open_options ?p1 buf pkt online ht id ol") auto
  have ok: ok using run1 o neg by (cases ok) auto
  then have fin: "open_finish cfg now online ra ol s = Inr (ret, peer1, sent)" using run1 o by simp
  then show "pe_status peer1 = Established" "online \<Longrightarrow> sent \<noteq> []" using open_finish_done [OF fin assms(2)] by blast+
qed

text \<open>A message that ends in \<open>s1\<close> changed the RIB only on a session that stands, and does not end
  it; it makes the session stand only by a reply to its OPEN.\<close>

definition guarded :: "session \<Rightarrow> session \<Rightarrow> bool" where
  "guarded s s1 \<longleftrightarrow> (ss_db s1 \<noteq> ss_db s \<longrightarrow> Established \<le> pe_status (ss_peer s)) \<and>
     (Established \<le> pe_status (ss_peer s) \<longrightarrow> Established \<le> pe_status (ss_peer s1)) \<and>
     length (ss_sent s) \<le> length (ss_sent s1)"

definition opened :: "session \<Rightarrow> session \<Rightarrow> bool" where
  "opened s s1 \<longleftrightarrow> (pe_status (ss_peer s) < OpenSent \<and> OpenSent \<le> pe_status (ss_peer s1) \<longrightarrow>
     length (ss_sent s) < length (ss_sent s1))"

lemma established_open: "Established \<le> st \<Longrightarrow> OpenSent \<le> st"
  using statuses(3) order_trans by blast

lemma dispatch_guarded:
  assumes run: "msg_dispatch cfg bms now True ptr len s = Inr out"
  shows "guarded s (out_session out)" and "out = Msg_Next ptr1 s1 \<Longrightarrow> opened s s1"
proof -
  have "guarded s (out_session out) \<and> (\<forall>ptr1 s1. out = Msg_Next ptr1 s1 \<longrightarrow> opened s s1)"
    using run
  proof (cases rule: dispatch_cases)
    case (opn ret peer1 sent)
    show ?thesis
    proof (cases "OpenSent \<le> pe_status (ss_peer s)")
      case True
      then show ?thesis using open_msg_again [OF opn(1)] opn(2) by (simp add: guarded_def)
    next
      case no: False
      then have ne: "\<not> Established \<le> pe_status (ss_peer s)" using established_open by blast
      show ?thesis
      proof (cases "ret < 0")
        case True
        then show ?thesis using opn(2) ne by (simp add: guarded_def)
      next
        case False
        then have "pe_status peer1 = Established" "sent \<noteq> []" using open_msg_done [OF opn(1)] by simp_all
        then show ?thesis using opn(2) ne False by (simp add: guarded_def opened_def continue_with_def)
      qed
    qed
  next
    case (stop ret)
    then show ?thesis by (simp add: guarded_def)
  next
    case keep
    then show ?thesis by (auto simp: guarded_def opened_def continue_with_def)
  next
    case (alive peer1)
    then show ?thesis by (auto simp: guarded_def opened_def continue_with_def)
  next
    case (upd ret d)
    then show ?thesis using established_open [OF upd(1)] by (auto simp: guarded_def opened_def continue_with_def)
  qed
  then show "guarded s (out_session out)" and "out = Msg_Next ptr1 s1 \<Longrightarrow> opened s s1" by simp_all
qed

section \<open>One turn of the loop\<close>

abbreviation whole_message :: "session \<Rightarrow> session" where
  "whole_message s \<equiv> s\<lparr>ss_peer := (ss_peer s)\<lparr>pe_truncated_len := 0\<rparr>\<rparr>"

lemma step_cases:
  assumes "msg_step cfg bms now online ptr s = Inr out"
  obtains (stop) ret s1 where "out = Msg_Return ret s1" "ss_db s1 = ss_db s" "ss_sent s1 = ss_sent s"
      "pe_status (ss_peer s1) = pe_status (ss_peer s)"
  | (whole) len where "rd_be16 (pe_buf (ss_peer s)) (ptr + 16) = Inr len" "19 \<le> unat (pe_msglen (ss_peer s))"
      "unat len \<le> unat (pe_msglen (ss_peer s))" "msg_dispatch cfg bms now online ptr (unat len) (whole_message s) = Inr out"
proof -
  let ?buf = "pe_buf (ss_peer s)" and ?n = "unat (pe_msglen (ss_peer s))"
  note run = assms [unfolded msg_step_def Let_def]
  show thesis
  proof (cases "?n < BGP_HEADER_SIZE \<and> ptr = 0")
    case True
    then have "out = Msg_Return BGP_NOTIFY_HEADER_ERR s" using run by simp
    then show thesis by (rule stop) simp_all
  next
    case False
    define w where "w = (if ?n < BGP_HEADER_SIZE then Inr None
                  else rbind (rd_be16 ?buf (ptr + 16)) (\<lambda>len. Inr (if ?n < unat len then None else Some (unat len))))"
    note run1 = run [folded w_def, unfolded if_not_P [OF False]]
    then obtain whole where w1: "w = Inr whole" by (cases w) simp_all
    note run2 = run1 [unfolded w1 rbind_simps]
    show thesis
    proof (cases whole)
      case None
      note run3 = run2 [unfolded None option.case]
      obtain bs where bs: "rd_mem ?buf ptr ?n = Inr bs" using run3 by (cases "rd_mem ?buf ptr ?n") auto
      note run4 = run3 [unfolded bs rbind_simps]
      have room: "\<not> BGP_BUFFER_SIZE < ?n" using run4 by (cases "BGP_BUFFER_SIZE < ?n") simp_all
      note run5 = run4 [unfolded if_not_P [OF room]]
      obtain buf1 where "wr_mem ?buf 0 bs = Inr buf1" using run5 by (cases "wr_mem ?buf 0 bs") simp_all
      then have "out = Msg_Return SUCCESS (s\<lparr>ss_peer := (ss_peer s)\<lparr>pe_buf := buf1, pe_truncated_len := pe_msglen (ss_peer s)\<rparr>\<rparr>)"
        using run5 by simp
      then show thesis by (rule stop) simp_all
    next
      case (Some n)
      have big: "\<not> ?n < BGP_HEADER_SIZE" using w1 Some by (auto simp: w_def)
      obtain len where len: "rd_be16 ?buf (ptr + 16) = Inr len" "unat len \<le> ?n" "n = unat len"
        using w1 Some big by (cases "rd_be16 ?buf (ptr + 16)") (auto simp: w_def split: if_split_asm)
      note run3 = run2 [unfolded Some option.case]
      show thesis
      proof (cases "bgp_max_msglen_check n = ERR")
        case True
        then have "out = Msg_Return BGP_NOTIFY_HEADER_ERR (whole_message s)" using run3 by simp
        then show thesis by (rule stop) simp_all
      next
        case ok: False
        note run4 = run3 [unfolded if_not_P [OF ok]]
        obtain m where m: "bgp_marker_check ?buf ptr BGP_MARKER_SIZE = Inr m"
          using run4 by (cases "bgp_marker_check ?buf ptr BGP_MARKER_SIZE") simp_all
        note run5 = run4 [unfolded m rbind_simps]
        show thesis
        proof (cases "m = ERR")
          case True
          then have "out = Msg_Return BGP_NOTIFY_HEADER_ERR (whole_message s)" using run5 by simp
          then show thesis by (rule stop) simp_all
        next
          case False
          have "19 \<le> ?n" using big by (simp add: BGP_HEADER_SIZE_def)
          moreover have "msg_dispatch cfg bms now online ptr (unat len) (whole_message s) = Inr out"
            using run5 [unfolded if_not_P [OF False]] len(3) by simp
          ultimately show thesis using whole [OF len(1) _ len(2)] by blast
        qed
      qed
    qed
  qed
qed

lemma step_next:
  assumes "msg_step cfg bms now online ptr s = Inr (Msg_Next ptr1 s1)"
  obtains len where "rd_be16 (pe_buf (ss_peer s)) (ptr + 16) = Inr len" "19 \<le> unat (pe_msglen (ss_peer s))"
    "ptr1 = ptr + unat len" "unat (pe_msglen (ss_peer s1)) = unat (pe_msglen (ss_peer s)) - unat len"
    "unat len \<le> unat (pe_msglen (ss_peer s))"
    "pe_buf (ss_peer s1) = pe_buf (ss_peer s)" "has_misc_db (ss_peer s1) = has_misc_db (ss_peer s)"
  using assms
proof (cases rule: step_cases)
  case (whole len)
  have "advances ptr (unat len) (whole_message s) (Msg_Next ptr1 s1)" using dispatch_advances [OF whole(4)] .
  then have a: "ptr1 = ptr + unat len" "pe_buf (ss_peer s1) = pe_buf (ss_peer s)" "has_misc_db (ss_peer s1) = has_misc_db (ss_peer s)"
    "pe_msglen (ss_peer s1) = pe_msglen (ss_peer s) - word_of_nat (unat len)" by (simp_all add: advances_def)
  have "unat len < 2 ^ LENGTH(16)" by (rule unsigned_less)
  then have "unat len < 2 ^ 32" by simp
  then have "unat (word_of_nat (unat len) :: u32) = unat len" by (simp add: unsigned_ucast_eq take_bit_nat_eq_self)
  moreover have "word_of_nat (unat len) \<le> pe_msglen (ss_peer s)" using whole(3) calculation by (simp add: word_le_nat_alt)
  ultimately have "unat (pe_msglen (ss_peer s1)) = unat (pe_msglen (ss_peer s)) - unat len" using a(4) by (simp add: unat_sub)
  then show thesis using that whole(1,2,3) a by blast
qed simp

lemma step_guarded:
  assumes "msg_step cfg bms now True ptr s = Inr out"
  shows "guarded s (out_session out)" and "out = Msg_Next ptr1 s1 \<Longrightarrow> opened s s1"
proof -
  have same: "guarded (whole_message s) = guarded s" "opened (whole_message s) = opened s"
    by (simp_all add: guarded_def opened_def fun_eq_iff)
  have "guarded s (out_session out) \<and> (\<forall>ptr1 s1. out = Msg_Next ptr1 s1 \<longrightarrow> opened s s1)"
    using assms
  proof (cases rule: step_cases)
    case (stop ret s1)
    then show ?thesis by (simp add: guarded_def)
  next
    case (whole len)
    then show ?thesis using dispatch_guarded [OF whole(4)] same by auto
  qed
  then show "guarded s (out_session out)" and "out = Msg_Next ptr1 s1 \<Longrightarrow> opened s s1" by simp_all
qed

section \<open>The loop\<close>

definition protected :: "session \<Rightarrow> session \<Rightarrow> bool" where
  "protected s s1 \<longleftrightarrow> (ss_db s1 \<noteq> ss_db s \<longrightarrow> Established \<le> pe_status (ss_peer s1) \<and>
       (pe_status (ss_peer s) < OpenSent \<longrightarrow> length (ss_sent s) < length (ss_sent s1))) \<and>
     (Established \<le> pe_status (ss_peer s) \<longrightarrow> Established \<le> pe_status (ss_peer s1)) \<and>
     length (ss_sent s) \<le> length (ss_sent s1)"

lemma guarded_protected: "guarded s s1 \<Longrightarrow> protected s s1"
  using established_open [of "pe_status (ss_peer s)"] by (auto simp: guarded_def protected_def)

lemma protected_step:
  assumes "guarded s s1" "opened s s1" "protected s1 s2"
  shows "protected s s2"
proof -
  have g: "ss_db s1 \<noteq> ss_db s \<longrightarrow> Established \<le> pe_status (ss_peer s)" "Established \<le> pe_status (ss_peer s) \<longrightarrow> Established \<le> pe_status (ss_peer s1)"
      "length (ss_sent s) \<le> length (ss_sent s1)" using assms(1) by (simp_all add: guarded_def)
  have p: "ss_db s2 \<noteq> ss_db s1 \<longrightarrow> Established \<le> pe_status (ss_peer s2) \<and>
       (pe_status (ss_peer s1) < OpenSent \<longrightarrow> length (ss_sent s1) < length (ss_sent s2))"
      "Established \<le> pe_status (ss_peer s1) \<longrightarrow> Established \<le> pe_status (ss_peer s2)" "length (ss_sent s1) \<le> length (ss_sent s2)"
    using assms(3) by (simp_all add: protected_def)
  have o: "pe_status (ss_peer s) < OpenSent \<Longrightarrow> \<not> pe_status (ss_peer s1) < OpenSent \<Longrightarrow> length (ss_sent s) < length (ss_sent s1)"
    using assms(2) by (simp add: opened_def not_less)
  have "Established \<le> pe_status (ss_peer s2) \<and> (pe_status (ss_peer s) < OpenSent \<longrightarrow> length (ss_sent s) < length (ss_sent s2))"
    if ne: "ss_db s2 \<noteq> ss_db s"
  proof (cases "ss_db s1 = ss_db s")
    case True
    then have d: "Established \<le> pe_status (ss_peer s2)" "pe_status (ss_peer s1) < OpenSent \<longrightarrow> length (ss_sent s1) < length (ss_sent s2)"
      using ne p(1) by simp_all
    show ?thesis
    proof (cases "pe_status (ss_peer s1) < OpenSent")
      case True
      then show ?thesis using d g(3) by simp
    next
      case False
      then show ?thesis using d o p(3) less_le_trans by blast
    qed
  next
    case False
    then have e: "Established \<le> pe_status (ss_peer s)" using g(1) by blast
    then show ?thesis using g(2) p(2) established_open [OF e] by (simp add: not_less [symmetric])
  qed
  then show ?thesis using g p unfolding protected_def by (meson order_trans)
qed

lemma loop_protected:
  assumes run: "msg_loop cfg bms now True ptr s = Some r"
  shows "\<forall>ret s1. r = Inr (ret, s1) \<longrightarrow> protected s s1"
proof -
  let ?P = "\<lambda>(cfg :: bgp_config) (bms :: bgp_daemon) (now :: int) online (ptr :: nat) s (r :: (int \<times> session) res).
    online \<longrightarrow> (\<forall>ret s1. r = Inr (ret, s1) \<longrightarrow> protected s s1)"
  have "?P cfg bms now True ptr s r"
  proof (rule msg_loop.raw_induct [where P = ?P, OF _ run])
    fix loop :: "bgp_config \<Rightarrow> bgp_daemon \<Rightarrow> int \<Rightarrow> bool \<Rightarrow> nat \<Rightarrow> session \<Rightarrow> (int \<times> session) res option"
      and cfg bms now online ptr s r
    assume IH: "\<And>cfg bms now online ptr s r. loop cfg bms now online ptr s = Some r \<Longrightarrow> ?P cfg bms now online ptr s r"
      and body: "(if pe_msglen (ss_peer s) = 0 then Some (Inr (SUCCESS, s))
        else case msg_step cfg bms now online ptr s of
             Inl e \<Rightarrow> Some (Inl e)
           | Inr out \<Rightarrow>
               (case out of
                  Msg_Return ret s1 \<Rightarrow> Some (Inr (ret, s1))
                | Msg_Next ptr1 s1 \<Rightarrow> loop cfg bms now online ptr1 s1)) = Some r"
    show "?P cfg bms now online ptr s r"
    proof (intro impI allI)
      fix ret s1
      assume on: online and r: "r = Inr (ret, s1)"
      show "protected s s1"
      proof (cases "pe_msglen (ss_peer s) = 0")
        case True
        then have "s1 = s" using body r by simp
        then show ?thesis by (simp add: protected_def)
      next
        case False
        note run = body [unfolded if_not_P [OF False]]
        obtain out where out: "msg_step cfg bms now online ptr s = Inr out"
          using run r by (cases "msg_step cfg bms now online ptr s") simp_all
        have out1: "msg_step cfg bms now True ptr s = Inr out" using out on by simp
        show ?thesis
        proof (cases out)
          case (Msg_Return ret1 s2)
          then have "s2 = s1" using run out r by simp
          then show ?thesis using step_guarded(1) [OF out1] Msg_Return guarded_protected by simp
        next
          case (Msg_Next ptr1 s2)
          then have "loop cfg bms now online ptr1 s2 = Some r" using run out by simp
          then have "protected s2 s1" using IH on r by blast
          moreover have "guarded s s2" "opened s s2" using step_guarded [OF out1] Msg_Next by simp_all
          ultimately show ?thesis using protected_step by blast
        qed
      qed
    qed
  qed
  then show ?thesis by simp
qed

lemma marker_all: "buf_at buf i (replicate n 0xFF) \<Longrightarrow> marker_from buf i n = Inr SUCCESS"
proof (induction n arbitrary: i)
  case (Suc n)
  then have "buf_at buf i (0xFF # replicate n 0xFF)" by simp
  then show ?case using Suc.IH [OF buf_at_Cons] buf_at_rd8 by simp
qed simp

lemma marker_16: "marker_from (replicate 16 0xFF @ xs) 0 16 = Inr SUCCESS"
  by (rule marker_all) (simp add: buf_at_def)

definition ex_config :: bgp_config where
  "ex_config = \<lparr>cfg_bgp_as = 65000, cfg_bgp_ip = None, cfg_bgp_id = None\<rparr>"

definition ex_session :: "byte \<Rightarrow> byte list \<Rightarrow> session" where
  "ex_session st buf = \<lparr>ss_peer = ex_peer\<lparr>pe_status := st, pe_msglen := word_of_nat (length buf), pe_buf := buf\<rparr>,
     ss_db = bgp_db_init 64, ss_sent = []\<rparr>"

lemma ex_session_simps [simp]:
  "ss_db (ex_session st buf) = bgp_db_init 64" "ss_sent (ex_session st buf) = []"
  "pe_status (ss_peer (ex_session st buf)) = st" "pe_buf (ss_peer (ex_session st buf)) = buf"
  "pe_msglen (ss_peer (ex_session st buf)) = word_of_nat (length buf)" "misc_db (ptype (ss_peer (ex_session st buf)))"
  by (simp_all add: ex_session_def ptype_def ex_peer_def misc_db_def bgp_peer_type.truncate_def)

text \<open>C13: On a live session the messages cannot reach the RIB unless the session stands: if it does
  not stand when \<^verbatim>\<open>bgp_parse_msg\<close> returns, or if it was closed before and the daemon sent nothing,
  so no OPEN was answered, the routing information base is what it was, whatever bytes came in.\<close>

theorem bgp_parse_msg_protects_rib:
  assumes run: "bgp_parse_msg cfg bms now True s = Some (Inr (ret, s1))"
    and "pe_status (ss_peer s1) < Established \<or> pe_status (ss_peer s) < OpenSent \<and> ss_sent s1 = ss_sent s"
  shows "ss_db s1 = ss_db s"
proof -
  have "protected s s1"
  proof (cases "misc_db (ptype (ss_peer s))")
    case True
    then show ?thesis using run loop_protected by (fastforce simp: bgp_parse_msg_def)
  next
    case False
    then show ?thesis using run by (simp add: bgp_parse_msg_def protected_def)
  qed
  then show ?thesis using assms(2) by (auto simp: protected_def not_less [symmetric])
qed

theorem bgp_parse_msg_protects_rib_witness:
  "\<exists>s1. bgp_parse_msg ex_config ex_daemon 7 True (ex_session Active (replicate 16 0xFF @ [0, 19, 2])) =
     Some (Inr (BGP_NOTIFY_FSM_ERR, s1)) \<and> ss_db s1 = bgp_db_init 64"
proof -
  let ?buf = "replicate 16 0xFF @ [0, 19, 2] :: byte list" let ?s = "ex_session Active (replicate 16 0xFF @ [0, 19, 2])"
  have "rd_be16 ?buf 16 = Inr 19" "rd8 ?buf 18 = Inr BGP_UPDATE" "bgp_marker_check ?buf 0 BGP_MARKER_SIZE = Inr SUCCESS"
    by (simp_all add: rd_be16_def rd8_def nth_append be16_def BGP_UPDATE_def bgp_marker_check_def BGP_MARKER_SIZE_def marker_16)
  then have "msg_step ex_config ex_daemon 7 True 0 ?s = Inr (Msg_Return BGP_NOTIFY_FSM_ERR (whole_message ?s))"
    by (simp add: msg_step_def Let_def BGP_HEADER_SIZE_def bgp_max_msglen_check_def BGP_MAX_MSGLEN_def SUCCESS_def ERR_def msg_dispatch_def
        Active_def Established_def)
  then have run: "bgp_parse_msg ex_config ex_daemon 7 True ?s = Some (Inr (BGP_NOTIFY_FSM_ERR, whole_message ?s))"
    by (simp add: bgp_parse_msg_def msg_loop.simps [of _ _ _ _ 0])
  have "ss_db (whole_message ?s) = ss_db ?s" by (rule bgp_parse_msg_protects_rib [OF run]) (simp add: Active_def Established_def)
  then show ?thesis using run by auto
qed

text \<open>A KEEPALIVE whose length is 0 at the start of the buffer.\<close>

definition stuck :: "session \<Rightarrow> bool" where
  "stuck s \<longleftrightarrow> 19 \<le> unat (pe_msglen (ss_peer s)) \<and> take 19 (pe_buf (ss_peer s)) = replicate 16 0xFF @ [0, 0, 4]"

lemma stuck_reads:
  assumes "take 19 buf = replicate 16 0xFF @ [0, 0, 4]"
  shows "rd_be16 buf 16 = Inr 0" "rd8 buf 18 = Inr BGP_KEEPALIVE" "bgp_marker_check buf 0 BGP_MARKER_SIZE = Inr SUCCESS"
proof -
  have long: "19 \<le> length buf" using arg_cong [OF assms, of length] by (simp split: if_split_asm)
  have at: "buf_at buf 0 (replicate 16 0xFF @ [0, 0] @ [4])"
    using assms long by (simp add: buf_at_def)
  then show "rd_be16 buf 16 = Inr 0" using buf_at_rd_be16 [of buf 16 0 0] unfolding buf_at_append by (simp add: be16_def)
  show "rd8 buf 18 = Inr BGP_KEEPALIVE" using at buf_at_rd8 [of buf 18 4 "[]"] unfolding buf_at_append by (simp add: BGP_KEEPALIVE_def)
  show "bgp_marker_check buf 0 BGP_MARKER_SIZE = Inr SUCCESS"
    unfolding bgp_marker_check_def BGP_MARKER_SIZE_def using at unfolding buf_at_append by (intro marker_all) simp
qed

lemma stuck_step:
  assumes "stuck s"
  shows "\<exists>s1. msg_step cfg bms now online 0 s = Inr (Msg_Next 0 s1) \<and> stuck s1"
proof -
  have r: "take 19 (pe_buf (ss_peer s)) = replicate 16 0xFF @ [0, 0, 4]" "\<not> unat (pe_msglen (ss_peer s)) < 19"
    using assms by (simp_all add: stuck_def)
  have "msg_step cfg bms now online 0 s = msg_dispatch cfg bms now online 0 0 (whole_message s)"
    using stuck_reads [OF r(1)] r(2)
    by (simp add: msg_step_def Let_def BGP_HEADER_SIZE_def bgp_max_msglen_check_def SUCCESS_def ERR_def)
  moreover have "\<exists>s1. msg_dispatch cfg bms now online 0 0 (whole_message s) = Inr (Msg_Next 0 s1) \<and> stuck s1"
    using stuck_reads(2) [OF r(1)] assms by (auto simp: msg_dispatch_def Let_def stuck_def)
  ultimately show ?thesis by simp
qed

lemma stuck_loop:
  assumes run: "msg_loop cfg bms now online ptr s = Some r"
  shows "\<not> (ptr = 0 \<and> stuck s)"
proof -
  let ?P = "\<lambda>(cfg :: bgp_config) (bms :: bgp_daemon) (now :: int) (online :: bool) (ptr :: nat) s (r :: (int \<times> session) res).
    \<not> (ptr = 0 \<and> stuck s)"
  show ?thesis
  proof (rule msg_loop.raw_induct [where P = ?P, OF _ run], intro notI)
    fix loop :: "bgp_config \<Rightarrow> bgp_daemon \<Rightarrow> int \<Rightarrow> bool \<Rightarrow> nat \<Rightarrow> session \<Rightarrow> (int \<times> session) res option"
      and cfg bms now online ptr s r
    assume IH: "\<And>cfg bms now online ptr s r. loop cfg bms now online ptr s = Some r \<Longrightarrow> ?P cfg bms now online ptr s r"
      and body: "(if pe_msglen (ss_peer s) = 0 then Some (Inr (SUCCESS, s))
        else case msg_step cfg bms now online ptr s of
             Inl e \<Rightarrow> Some (Inl e)
           | Inr out \<Rightarrow>
               (case out of
                  Msg_Return ret s1 \<Rightarrow> Some (Inr (ret, s1))
                | Msg_Next ptr1 s1 \<Rightarrow> loop cfg bms now online ptr1 s1)) = Some r"
      and st: "ptr = 0 \<and> stuck s"
    then obtain s1 where s1: "msg_step cfg bms now online ptr s = Inr (Msg_Next 0 s1)" "stuck s1" using stuck_step by blast
    have "pe_msglen (ss_peer s) \<noteq> 0" using st by (auto simp: stuck_def)
    then have "loop cfg bms now online 0 s1 = Some r" using body s1(1) by simp
    then show False using IH s1(2) by blast
  qed
qed

text \<open>C15: A KEEPALIVE header with length field 0 at the start of the received bytes, which nineteen
  bytes from a peer suffice for, makes the session loop run for ever.\<close>

theorem bgp_parse_msg_hangs:
  assumes "misc_db (ptype (ss_peer s))" "19 \<le> unat (pe_msglen (ss_peer s))"
    "take 19 (pe_buf (ss_peer s)) = replicate 16 0xFF @ [0, 0, 4]"
  shows "bgp_parse_msg cfg bms now online s = None"
  using stuck_loop [of cfg bms now online 0 s] assms
  by (cases "msg_loop cfg bms now online 0 s") (simp_all add: bgp_parse_msg_def stuck_def)

theorem bgp_parse_msg_hangs_witness:
  "bgp_parse_msg ex_config ex_daemon 7 True (ex_session Active (replicate 16 0xFF @ [0, 0, 4])) = None"
  by (rule bgp_parse_msg_hangs) simp_all

section \<open>Keepalives\<close>

lemma keepalive_bytes: "bgp_write_keepalive_msg = replicate 16 0xFF @ [0, 19, 4]"
  by (simp add: bgp_write_keepalive_msg_def BGP_MARKER_SIZE_def put_be16_def BGP_HEADER_SIZE_def BGP_KEEPALIVE_def)

lemma keepalive_length [simp]: "length bgp_write_keepalive_msg = 19"
  by (simp add: keepalive_bytes)

lemma keepalive_reads:
  assumes "buf_at buf i bgp_write_keepalive_msg"
  shows "rd_be16 buf (i + 16) = Inr 19" "rd8 buf (i + 18) = Inr BGP_KEEPALIVE" "bgp_marker_check buf i BGP_MARKER_SIZE = Inr SUCCESS"
proof -
  have "buf_at buf i (replicate 16 0xFF @ [0, 19] @ [4])" using assms by (simp add: keepalive_bytes)
  then have at: "buf_at buf i (replicate 16 0xFF)" "buf_at buf (i + 16) [0, 19]" "buf_at buf (i + 18) [4]"
    unfolding buf_at_append by (simp_all add: add.assoc add.commute)
  show "rd_be16 buf (i + 16) = Inr 19" using buf_at_rd_be16 [OF at(2)] by (simp add: be16_def)
  show "rd8 buf (i + 18) = Inr BGP_KEEPALIVE" using buf_at_rd8 [OF at(3)] by (simp add: BGP_KEEPALIVE_def)
  show "bgp_marker_check buf i BGP_MARKER_SIZE = Inr SUCCESS"
    unfolding bgp_marker_check_def BGP_MARKER_SIZE_def by (rule marker_all [OF at(1)])
qed

lemma keepalive_step:
  assumes "buf_at (pe_buf (ss_peer s)) ptr bgp_write_keepalive_msg" "19 \<le> unat (pe_msglen (ss_peer s))"
    "OpenSent \<le> pe_status (ss_peer s)"
  shows "msg_step cfg bms now True ptr s = Inr (continue_with ptr 19
     (s\<lparr>ss_peer := (ss_peer s)\<lparr>pe_truncated_len := 0, pe_status := max Established (pe_status (ss_peer s)), pe_last_keepalive := now\<rparr>,
        ss_sent := ss_sent s @ [bgp_write_keepalive_msg]\<rparr>))"
proof -
  have "msg_step cfg bms now True ptr s = msg_dispatch cfg bms now True ptr 19 (whole_message s)"
    using keepalive_reads [OF assms(1)] assms(2)
    by (simp add: msg_step_def Let_def BGP_HEADER_SIZE_def bgp_max_msglen_check_def BGP_MAX_MSGLEN_def SUCCESS_def ERR_def not_less [symmetric])
  then show ?thesis using keepalive_reads(2) [OF assms(1)] assms(3) by (simp add: msg_dispatch_def Let_def continue_with_def)
qed

lemma keepalive_loop:
  assumes "buf_at (pe_buf (ss_peer s)) ptr (concat (replicate n bgp_write_keepalive_msg))"
    "unat (pe_msglen (ss_peer s)) = 19 * n" "Established \<le> pe_status (ss_peer s)"
  shows "\<exists>s1. msg_loop cfg bms now True ptr s = Some (Inr (SUCCESS, s1)) \<and> ss_db s1 = ss_db s \<and>
     ss_sent s1 = ss_sent s @ replicate n bgp_write_keepalive_msg \<and> pe_status (ss_peer s1) = pe_status (ss_peer s) \<and>
     (n \<noteq> 0 \<longrightarrow> pe_last_keepalive (ss_peer s1) = now)"
  using assms
proof (induction n arbitrary: ptr s)
  case 0
  then have "pe_msglen (ss_peer s) = 0" by (simp add: unat_eq_zero)
  then show ?case by (simp add: msg_loop.simps [of cfg bms now True ptr s])
next
  case (Suc n)
  let ?p = "(ss_peer s)\<lparr>pe_truncated_len := 0, pe_status := max Established (pe_status (ss_peer s)), pe_last_keepalive := now,
    pe_msglen := pe_msglen (ss_peer s) - 19\<rparr>"
  define s1 where "s1 = s\<lparr>ss_peer := ?p, ss_sent := ss_sent s @ [bgp_write_keepalive_msg]\<rparr>"
  have at: "buf_at (pe_buf (ss_peer s)) ptr bgp_write_keepalive_msg"
    "buf_at (pe_buf (ss_peer s)) (ptr + 19) (concat (replicate n bgp_write_keepalive_msg))" using Suc.prems(1) by simp_all
  have "(19 :: u32) \<le> pe_msglen (ss_peer s)" using Suc.prems(2) by (simp add: word_le_nat_alt)
  then have len: "unat (pe_msglen (ss_peer s) - 19) = 19 * n" using Suc.prems(2) by (simp add: unat_sub)
  have nz: "pe_msglen (ss_peer s) \<noteq> 0" using Suc.prems(2) by (auto simp: unat_eq_zero)
  have st: "max Established (pe_status (ss_peer s)) = pe_status (ss_peer s)" using Suc.prems(3) by simp
  have "msg_step cfg bms now True ptr s = Inr (Msg_Next (ptr + 19) s1)"
    using keepalive_step [OF at(1) _ established_open [OF Suc.prems(3)], of cfg bms now] Suc.prems(2)
    by (simp add: continue_with_def s1_def)
  then have run: "msg_loop cfg bms now True ptr s = msg_loop cfg bms now True (ptr + 19) s1"
    using nz by (simp add: msg_loop.simps [of cfg bms now True ptr s])
  have "\<exists>s2. msg_loop cfg bms now True (ptr + 19) s1 = Some (Inr (SUCCESS, s2)) \<and> ss_db s2 = ss_db s1 \<and>
     ss_sent s2 = ss_sent s1 @ replicate n bgp_write_keepalive_msg \<and> pe_status (ss_peer s2) = pe_status (ss_peer s1) \<and>
     (n \<noteq> 0 \<longrightarrow> pe_last_keepalive (ss_peer s2) = now)"
    by (rule Suc.IH) (use at(2) len Suc.prems(3) st in \<open>simp_all add: s1_def\<close>)
  moreover have "n = 0 \<Longrightarrow> msg_loop cfg bms now True (ptr + 19) s1 = Some (Inr (SUCCESS, s1))"
    using len by (subst msg_loop.simps) (simp add: s1_def unat_eq_zero)
  ultimately show ?case unfolding run by (cases "n = 0") (auto simp: s1_def st)
qed

text \<open>C16: A live session that stands and receives nothing but complete keepalives, as many as the
  buffer holds, answers each of them with one, notes the time, stays up and leaves the RIB alone;
  the loop ends.\<close>

theorem bgp_parse_msg_answers_keepalives:
  assumes "pe_buf (ss_peer s) = concat (replicate n bgp_write_keepalive_msg) @ rest"
    "unat (pe_msglen (ss_peer s)) = 19 * n" "Established \<le> pe_status (ss_peer s)" "misc_db (ptype (ss_peer s))"
  shows "\<exists>s1. bgp_parse_msg cfg bms now True s = Some (Inr (SUCCESS, s1)) \<and> ss_db s1 = ss_db s \<and>
     ss_sent s1 = ss_sent s @ replicate n bgp_write_keepalive_msg \<and> pe_status (ss_peer s1) = pe_status (ss_peer s) \<and>
     (n \<noteq> 0 \<longrightarrow> pe_last_keepalive (ss_peer s1) = now)"
proof -
  have "buf_at (pe_buf (ss_peer s)) 0 (concat (replicate n bgp_write_keepalive_msg))" by (simp add: assms(1) buf_at_def)
  then show ?thesis using keepalive_loop [OF _ assms(2,3)] assms(4) by (simp add: bgp_parse_msg_def)
qed

lemma replicate_2: "replicate 2 x = [x, x]"
  by (simp add: numeral_2_eq_2)

theorem bgp_parse_msg_answers_keepalives_witness:
  "\<exists>s1. bgp_parse_msg ex_config ex_daemon 7 True (ex_session Established (bgp_write_keepalive_msg @ bgp_write_keepalive_msg)) =
     Some (Inr (SUCCESS, s1)) \<and> ss_sent s1 = [bgp_write_keepalive_msg, bgp_write_keepalive_msg]"
proof -
  let ?s = "ex_session Established (bgp_write_keepalive_msg @ bgp_write_keepalive_msg)"
  have "\<exists>s1. bgp_parse_msg ex_config ex_daemon 7 True ?s = Some (Inr (SUCCESS, s1)) \<and> ss_db s1 = ss_db ?s \<and>
     ss_sent s1 = ss_sent ?s @ replicate 2 bgp_write_keepalive_msg \<and> pe_status (ss_peer s1) = pe_status (ss_peer ?s) \<and>
     ((2 :: nat) \<noteq> 0 \<longrightarrow> pe_last_keepalive (ss_peer s1) = 7)"
    by (rule bgp_parse_msg_answers_keepalives [where rest = "[]"]) (simp_all add: replicate_2)
  then show ?thesis by (auto simp: replicate_2)
qed

end
