(* ===== verification/Bgp_Update_Props.thy ===== *)
theory Bgp_Update_Props
  imports Bgp_Msg_Props
begin

text \<open>
  From the bytes of a session to the routing information base: UPDATE messages as they are sent,
  and what \<^verbatim>\<open>bgp_parse_msg\<close> of \<^verbatim>\<open>src/src/bgp/bgp_msg.c\<close> makes of a sequence of them.
\<close>

section \<open>Path attributes on the wire\<close>

text \<open>The attributes with a value of their own, and those the code skips. Values are in network
  order.\<close>

datatype wire_attr =
    W_Origin byte
  | W_Next_Hop u32
  | W_Med u32
  | W_Local_Pref u32
  | W_Unknown byte "byte list"

definition handled_types :: "byte list" where
  "handled_types = [BGP_ATTR_ORIGIN, BGP_ATTR_AS_PATH, BGP_ATTR_NEXT_HOP, BGP_ATTR_MULTI_EXIT_DISC, BGP_ATTR_LOCAL_PREF,
     BGP_ATTR_COMMUNITIES, BGP_ATTR_MP_REACH_NLRI, BGP_ATTR_MP_UNREACH_NLRI, BGP_ATTR_EXT_COMMUNITIES, BGP_ATTR_AS4_PATH,
     BGP_ATTR_LARGE_COMMUNITIES]"

fun enc_attr :: "wire_attr \<Rightarrow> byte list" where
  "enc_attr (W_Origin b) = [0x40, BGP_ATTR_ORIGIN, 1] @ [b]"
| "enc_attr (W_Next_Hop x) = [0x40, BGP_ATTR_NEXT_HOP, 4] @ put_be32 x"
| "enc_attr (W_Med x) = [0x80, BGP_ATTR_MULTI_EXIT_DISC, 4] @ put_be32 x"
| "enc_attr (W_Local_Pref x) = [0x40, BGP_ATTR_LOCAL_PREF, 4] @ put_be32 x"
| "enc_attr (W_Unknown ty bs) = [0xD0, ty] @ put_be16 (word_of_nat (length bs)) @ bs"

fun attr_ok :: "wire_attr \<Rightarrow> bool" where
  "attr_ok (W_Unknown ty bs) \<longleftrightarrow> ty \<notin> set handled_types \<and> length bs < 65536"
| "attr_ok _ \<longleftrightarrow> True"

text \<open>What an attribute does to the attribute of the message; the origin ends in the wrong field.\<close>

fun apply_attr :: "wire_attr \<Rightarrow> bgp_attr \<Rightarrow> bgp_attr" where
  "apply_attr (W_Origin b) at = at\<lparr>at_local_pref := (at_local_pref at AND 0xFFFFFF00) OR ucast b\<rparr>"
| "apply_attr (W_Next_Hop x) at = at\<lparr>at_nexthop := bswap32 x\<rparr>"
| "apply_attr (W_Med x) at = at\<lparr>at_med := x\<rparr>"
| "apply_attr (W_Local_Pref x) at = at\<lparr>at_local_pref := x\<rparr>"
| "apply_attr (W_Unknown ty bs) at = at"

definition sent_attr :: "wire_attr list \<Rightarrow> bgp_attr" where
  "sent_attr ws = fold apply_attr ws bgp_attr_zero"

lemma apply_attr_parts: "no_parts at \<Longrightarrow> no_parts (apply_attr w at)"
  by (cases w) (simp_all add: no_parts_def)

lemma sent_attr_parts: "no_parts (sent_attr ws)"
proof -
  have "no_parts at \<Longrightarrow> no_parts (fold apply_attr ws at)" for at
    by (induction ws arbitrary: at) (simp_all add: apply_attr_parts)
  moreover have "no_parts bgp_attr_zero" by (simp add: no_parts_def bgp_attr_zero_def)
  ultimately show ?thesis by (simp add: sent_attr_def)
qed

lemma put_be32_length [simp]: "length (put_be32 w) = 4"
  by (simp add: put_be32_def)

lemma attr_types [simp]:
  "BGP_ATTR_ORIGIN = 1" "BGP_ATTR_AS_PATH = 2" "BGP_ATTR_NEXT_HOP = 3" "BGP_ATTR_MULTI_EXIT_DISC = 4" "BGP_ATTR_LOCAL_PREF = 5"
  "BGP_ATTR_COMMUNITIES = 8" "BGP_ATTR_MP_REACH_NLRI = 14" "BGP_ATTR_MP_UNREACH_NLRI = 15" "BGP_ATTR_EXT_COMMUNITIES = 16"
  "BGP_ATTR_AS4_PATH = 17" "BGP_ATTR_LARGE_COMMUNITIES = 32"
  by (simp_all add: BGP_ATTR_ORIGIN_def BGP_ATTR_AS_PATH_def BGP_ATTR_NEXT_HOP_def BGP_ATTR_MULTI_EXIT_DISC_def
      BGP_ATTR_LOCAL_PREF_def BGP_ATTR_COMMUNITIES_def BGP_ATTR_MP_REACH_NLRI_def BGP_ATTR_MP_UNREACH_NLRI_def
      BGP_ATTR_EXT_COMMUNITIES_def BGP_ATTR_AS4_PATH_def BGP_ATTR_LARGE_COMMUNITIES_def)

text \<open>A header of three or four bytes in front of the value.\<close>

lemma short_header:
  assumes "buf_at buf pnt ([flag, ty, len] @ bs)" "flag AND BGP_ATTR_FLAG_EXTLEN = 0"
  shows "attr_header buf pnt left = Inr (ty, ucast len, pnt + 3, left - 3)" "buf_at buf (pnt + 3) bs"
proof -
  have at: "buf_at buf pnt ([flag] @ [ty] @ [len] @ bs)" using assms(1) by simp
  then have "rd8 buf pnt = Inr flag" "rd8 buf (pnt + 1) = Inr ty" "rd8 buf (pnt + 2) = Inr len" "buf_at buf (pnt + 3) bs"
    unfolding buf_at_append by (auto dest: buf_at_rd8 simp: numeral_2_eq_2 numeral_3_eq_3)
  then show "attr_header buf pnt left = Inr (ty, ucast len, pnt + 3, left - 3)" "buf_at buf (pnt + 3) bs"
    using assms(2) by (simp_all add: attr_header_def)
qed

lemma long_header:
  assumes "buf_at buf pnt ([flag, ty] @ put_be16 len @ bs)" "flag AND BGP_ATTR_FLAG_EXTLEN \<noteq> 0"
  shows "attr_header buf pnt left = Inr (ty, len, pnt + 4, left - 4)" "buf_at buf (pnt + 4) bs"
proof -
  have at: "buf_at buf pnt ([flag] @ [ty] @ put_be16 len @ bs)" using assms(1) by simp
  then have "rd8 buf pnt = Inr flag" "rd8 buf (pnt + 1) = Inr ty" "rd_be16 buf (pnt + 2) = Inr len" "buf_at buf (pnt + 4) bs"
    unfolding buf_at_append by (auto dest: buf_at_rd8 buf_at_put_be16 simp: numeral_2_eq_2 eval_nat_numeral)
  then show "attr_header buf pnt left = Inr (ty, len, pnt + 4, left - 4)" "buf_at buf (pnt + 4) bs"
    using assms(2) by (simp_all add: attr_header_def)
qed

lemma flags [simp]:
  "(0x40 :: byte) AND BGP_ATTR_FLAG_EXTLEN = 0" "(0x80 :: byte) AND BGP_ATTR_FLAG_EXTLEN = 0" "(0xD0 :: byte) AND BGP_ATTR_FLAG_EXTLEN \<noteq> 0"
  by (simp_all add: BGP_ATTR_FLAG_EXTLEN_def)

text \<open>Header and value of one attribute.\<close>

lemma attr_value:
  assumes "buf_at buf pnt (enc_attr w)" "attr_ok w"
  shows "\<exists>ty len i h. attr_header buf pnt left = Inr (ty, len, i, left - int h) \<and> i = pnt + h \<and> 3 \<le> h \<and>
    h + unat len = length (enc_attr w) \<and> parse_attr peer ty len buf i st = Inr (SUCCESS, upd_attr (apply_attr w) st)"
proof (cases w)
  case (W_Origin b)
  then have at: "buf_at buf pnt ([0x40, 1, 1] @ [b])" using assms(1) by simp
  show ?thesis
    using short_header [OF at] buf_at_rd8 [of buf "pnt + 3" b "[]"]
    by (intro exI [of _ 1] exI [of _ "pnt + 3"] exI [of _ 3])
      (simp add: W_Origin parse_attr_def bgp_attr_parse_origin_def upd_attr_def)
next
  case (W_Next_Hop x)
  then have at: "buf_at buf pnt ([0x40, 3, 4] @ put_be32 x)" using assms(1) by simp
  show ?thesis
    using short_header [OF at] buf_at_put_be32 [of buf "pnt + 3" x]
    by (intro exI [of _ 3] exI [of _ 4] exI [of _ "pnt + 3"] exI [of _ 3])
      (simp add: W_Next_Hop parse_attr_def bgp_attr_parse_nexthop_def rd_le32_def upd_attr_def)
next
  case (W_Med x)
  then have at: "buf_at buf pnt ([0x80, 4, 4] @ put_be32 x)" using assms(1) by simp
  show ?thesis
    using short_header [OF at] buf_at_put_be32 [of buf "pnt + 3" x]
    by (intro exI [of _ 4] exI [of _ 4] exI [of _ "pnt + 3"] exI [of _ 3])
      (simp add: W_Med parse_attr_def bgp_attr_parse_med_def upd_attr_def)
next
  case (W_Local_Pref x)
  then have at: "buf_at buf pnt ([0x40, 5, 4] @ put_be32 x)" using assms(1) by simp
  show ?thesis
    using short_header [OF at] buf_at_put_be32 [of buf "pnt + 3" x]
    by (intro exI [of _ 5] exI [of _ 4] exI [of _ "pnt + 3"] exI [of _ 3])
      (simp add: W_Local_Pref parse_attr_def bgp_attr_parse_local_pref_def upd_attr_def)
next
  case (W_Unknown ty bs)
  then have at: "buf_at buf pnt ([0xD0, ty] @ put_be16 (word_of_nat (length bs)) @ bs)" using assms(1) by simp
  have len: "unat (word_of_nat (length bs) :: u16) = length bs" using assms(2) W_Unknown by (simp add: unat_of_nat)
  show ?thesis
    using long_header [OF at] assms(2) len
    by (intro exI [of _ ty] exI [of _ "word_of_nat (length bs)"] exI [of _ "pnt + 4"] exI [of _ 4])
      (simp add: W_Unknown parse_attr_def upd_attr_def handled_types_def SUCCESS_def)
qed

lemma attr_loop_step:
  assumes "3 \<le> left" "attr_header buf pnt left = Inr (ty, len, i, left1)" "int (unat len) \<le> left1"
    "parse_attr peer ty len buf i st = Inr (SUCCESS, st1)"
  shows "attr_loop peer buf pnt left st = attr_loop peer buf (i + unat len) (left1 - int (unat len)) st1"
  by (subst attr_loop.simps) (use assms in \<open>simp add: SUCCESS_def BGP_ATTR_MIN_LEN_def\<close>)

lemma attr_loop_enc:
  assumes "buf_at buf pnt (concat (map enc_attr ws))" "list_all attr_ok ws"
  shows "attr_loop peer buf pnt (int (length (concat (map enc_attr ws)))) st = Inr (SUCCESS, upd_attr (fold apply_attr ws) st)"
  using assms
proof (induction ws arbitrary: pnt st)
  case Nil
  then show ?case by (simp add: attr_loop.simps [of peer buf pnt 0 st] upd_attr_def)
next
  case (Cons w ws)
  let ?n = "length (enc_attr w)" and ?m = "length (concat (map enc_attr ws))"
  have at: "buf_at buf pnt (enc_attr w)" "buf_at buf (pnt + ?n) (concat (map enc_attr ws))"
    and w: "attr_ok w" "list_all attr_ok ws" using Cons.prems by simp_all
  obtain ty len i h where h: "attr_header buf pnt (int (?n + ?m)) = Inr (ty, len, i, int (?n + ?m) - int h)" "i = pnt + h" "3 \<le> h"
    "h + unat len = ?n" "parse_attr peer ty len buf i st = Inr (SUCCESS, upd_attr (apply_attr w) st)"
    using attr_value [OF at(1) w(1), of "int (?n + ?m)" peer st] by blast
  define K where "K = unat len"
  have n: "?n = h + K" using h(4) by (simp add: K_def)
  have room: "3 \<le> int (?n + ?m)" "int K \<le> int (?n + ?m) - int h" and eq: "i + K = pnt + ?n" "int (?n + ?m) - int h - int K = int ?m"
    using h(2,3) n by linarith+
  have "attr_loop peer buf pnt (int (?n + ?m)) st = attr_loop peer buf (i + K) (int (?n + ?m) - int h - int K) (upd_attr (apply_attr w) st)"
    using attr_loop_step [OF room(1) h(1) _ h(5)] room(2) unfolding K_def by blast
  also have "\<dots> = attr_loop peer buf (pnt + ?n) (int ?m) (upd_attr (apply_attr w) st)" by (simp only: eq)
  also have "\<dots> = Inr (SUCCESS, upd_attr (fold apply_attr ws) (upd_attr (apply_attr w) st))" by (rule Cons.IH [OF at(2) w(2)])
  also have "upd_attr (fold apply_attr ws) (upd_attr (apply_attr w) st) = upd_attr (fold apply_attr (w # ws)) st"
    by (simp add: upd_attr_def comp_def)
  finally show ?case by (simp add: comp_def)
qed


section \<open>The message\<close>

text \<open>An UPDATE: the routes it withdraws, its attributes, and the routes it announces with them.\<close>

record update =
  up_withdrawn :: "wire_route list"
  up_attrs :: "wire_attr list"
  up_routes :: "wire_route list"

abbreviation enc_routes :: "bool \<Rightarrow> wire_route list \<Rightarrow> byte list" where
  "enc_routes ap ws \<equiv> concat (map (enc_route ap SAFI_UNICAST) ws)"

definition body_length :: "bool \<Rightarrow> update \<Rightarrow> nat" where
  "body_length ap u = length (enc_routes ap (up_withdrawn u)) + length (concat (map enc_attr (up_attrs u))) +
     length (enc_routes ap (up_routes u))"

definition enc_update :: "bool \<Rightarrow> update \<Rightarrow> byte list" where
  "enc_update ap u = replicate 16 0xFF @ put_be16 (word_of_nat (23 + body_length ap u)) @ [BGP_UPDATE] @
     put_be16 (word_of_nat (length (enc_routes ap (up_withdrawn u)))) @ enc_routes ap (up_withdrawn u) @
     put_be16 (word_of_nat (length (concat (map enc_attr (up_attrs u))))) @ concat (map enc_attr (up_attrs u)) @
     enc_routes ap (up_routes u)"

definition wire_update :: "bool \<Rightarrow> update \<Rightarrow> bool" where
  "wire_update ap u \<longleftrightarrow> list_all (wire_route AFI_IP SAFI_UNICAST) (up_withdrawn u) \<and> list_all attr_ok (up_attrs u) \<and>
     list_all (wire_route AFI_IP SAFI_UNICAST) (up_routes u) \<and> 23 + body_length ap u \<le> BGP_MAX_MSGLEN"

definition update_routes :: "update \<Rightarrow> nat" where
  "update_routes u = length (up_withdrawn u) + length (up_routes u)"

text \<open>The map of routes after the message.\<close>

definition update_change :: "bgp_daemon \<Rightarrow> bgp_peer \<Rightarrow> bgp_msg_extra \<Rightarrow> update \<Rightarrow> routes \<Rightarrow> routes" where
  "update_change bms peer extra u M =
     fold (route_change bms peer extra AFI_IP SAFI_UNICAST (Some (sent_attr (up_attrs u)))) (up_routes u)
       (fold (route_change bms peer extra AFI_IP SAFI_UNICAST None) (up_withdrawn u) M)"

lemma enc_update_length: "length (enc_update ap u) = 23 + body_length ap u"
  by (simp add: enc_update_def body_length_def)

lemma enc_routes_Nil: "enc_routes ap ws = [] \<Longrightarrow> ws = []"
  by (cases ws) (simp_all add: enc_route_def)

lemma nlri_if_enc:
  assumes db: "db_ok bms [at] d" "db_space [at] d (length ws + k)"
    and cfg: "config_ok bms" "\<not> skip_rib bms" "routing_db (ptype peer)" "misc_db (ptype peer)"
    and ws: "list_all (wire_route AFI_IP SAFI_UNICAST) ws" "buf_at buf pos (enc_routes (pe_cap_add_paths peer) ws)"
    and len: "unat n = length (enc_routes (pe_cap_add_paths peer) ws)"
  defines "info \<equiv> (if n \<noteq> 0 then \<lparr>nl_afi = AFI_IP, nl_safi = SAFI_UNICAST, nl_pos = pos, nl_length = n\<rparr> else bgp_nlri_zero)"
  shows "\<exists>d'. nlri_if (nl_length info \<noteq> 0) bms peer extra buf adds info (at, d) = Inr (at, d') \<and> db_ok bms [at] d' \<and>
    db_space [at] d' k \<and>
    db_bucket d' = fold (route_change bms peer extra AFI_IP SAFI_UNICAST (if adds then Some at else None)) ws (db_bucket d)"
proof (cases "n = 0")
  case True
  then have "ws = []" using len by (intro enc_routes_Nil [of "pe_cap_add_paths peer"]) (simp add: unat_eq_zero)
  then show ?thesis using True db by (simp add: info_def nlri_if_def bgp_nlri_zero_def)
next
  case False
  then have info: "info = \<lparr>nl_afi = AFI_IP, nl_safi = SAFI_UNICAST, nl_pos = pos, nl_length = n\<rparr>" by (simp add: info_def)
  have "\<exists>d'. bgp_nlri_parse bms peer extra buf d (if adds then Some at else None) info =
      Inr (SUCCESS, if adds then Some at else None, d') \<and> db_ok bms [at] d' \<and> db_space [at] d' k \<and>
      db_bucket d' = fold (route_change bms peer extra (nl_afi info) (nl_safi info) (if adds then Some at else None)) ws (db_bucket d)"
    by (rule nlri_parse_ok [OF db _ cfg]) (use ws len in \<open>simp_all add: info nlri_safi_def split: if_split_asm\<close>)
  then show ?thesis using False by (cases adds) (auto simp: nlri_if_def info)
qed

text \<open>The two length fields; \<open>r\<close> is what follows.\<close>

lemma update_section_enc:
  assumes "buf_at buf pkt (put_be16 (word_of_nat n) @ bs)" "n + r + 2 < 65536"
  shows "update_section buf pkt (word_of_nat (n + r + 2)) = Inr (Some (word_of_nat n, pkt + 2, word_of_nat r))"
    "unat (word_of_nat n :: u16) = n" "buf_at buf (pkt + 2) bs"
proof -
  have small: "unat (word_of_nat m :: u16) = m" if "m < 65536" for m
    by (subst unat_of_nat, rule mod_less, use that in simp)
  have n: "unat (word_of_nat n :: u16) = n" by (rule small) (use assms(2) in simp)
  have m: "unat (word_of_nat (n + r + 2) :: u16) = n + r + 2" by (rule small [OF assms(2)])
  have "\<not> (word_of_nat (n + r + 2) :: u16) < word_of_nat n" unfolding word_less_nat_alt n m by simp
  moreover have "(word_of_nat (n + r + 2) :: u16) - word_of_nat n - 2 = word_of_nat r" by simp
  moreover have "rd_be16 buf pkt = Inr (word_of_nat n)" using assms(1) by (simp add: buf_at_put_be16)
  ultimately show "update_section buf pkt (word_of_nat (n + r + 2)) = Inr (Some (word_of_nat n, pkt + 2, word_of_nat r))"
    unfolding update_section_def by (simp only: rbind_simps if_False)
  show "unat (word_of_nat n :: u16) = n" "buf_at buf (pkt + 2) bs" using n assms(1) by simp_all
qed


lemma enc_attrs_Nil: "concat (map enc_attr ws) = [] \<Longrightarrow> ws = []"
proof (cases ws)
  case (Cons w ws')
  then show "concat (map enc_attr ws) = [] \<Longrightarrow> ws = []" by (cases w) simp_all
qed

lemma parse_attrs_enc:
  assumes "buf_at buf p (concat (map enc_attr ws))" "list_all attr_ok ws" "unat al = length (concat (map enc_attr ws))"
  shows "(if al \<noteq> 0 then bgp_attr_parse peer buf p (int (unat al)) (attr_parse_init R) else Inr (0, attr_parse_init R)) =
    Inr (0, (attr_parse_init R)\<lparr>ap_attr := sent_attr ws\<rparr>)"
proof (cases "al = 0")
  case True
  then have "concat (map enc_attr ws) = []" using assms(3) by (metis length_0_conv unat_0)
  then have "ws = []" by (rule enc_attrs_Nil)
  then show ?thesis using True by (simp add: sent_attr_def attr_parse_init_def)
next
  case False
  have "attr_loop peer buf p (int (unat al)) ((attr_parse_init R)\<lparr>ap_as4 := None\<rparr>) =
      Inr (SUCCESS, upd_attr (fold apply_attr ws) ((attr_parse_init R)\<lparr>ap_as4 := None\<rparr>))"
    unfolding assms(3) by (rule attr_loop_enc [OF assms(1,2)])
  then have "bgp_attr_parse peer buf p (int (unat al)) (attr_parse_init R) = Inr (0, (attr_parse_init R)\<lparr>ap_attr := sent_attr ws\<rparr>)"
    unfolding bgp_attr_parse_def by (simp add: upd_attr_def SUCCESS_def attr_parse_init_def sent_attr_def)
  then show ?thesis using False by (simp only: if_True not_False_eq_True)
qed

lemma update_nlri_plain:
  "update_nlri bms peer extra buf update withdraw bgp_nlri_zero bgp_nlri_zero s =
     rbind (nlri_if (nl_length withdraw \<noteq> 0) bms peer extra buf False withdraw s) (\<lambda>s1.
       nlri_if (nl_length update \<noteq> 0) bms peer extra buf True update s1)"
proof -
  have no: "nlri_if (nlri_wanted afi bgp_nlri_zero) bms peer extra buf adds bgp_nlri_zero t = Inr t" for afi adds t
    by (simp add: nlri_if_def nlri_wanted_def bgp_nlri_zero_def)
  have "rbind m Inr = m" for m :: "(bgp_attr \<times> bgp_db) res" by (cases m) simp_all
  then show ?thesis by (simp add: update_nlri_def no)
qed

lemma attr_done_plain: "no_parts at \<Longrightarrow> attr_done peer at R = Inr R"
  by (simp add: attr_done_def no_parts_def drop_ref_def)

lemma parse_update_enc:
  assumes db: "db_ok bms [] d" "db_space [] d (Suc (update_routes u + k))"
    and cfg: "config_ok bms" "\<not> skip_rib bms" "routing_db (ptype peer)" "misc_db (ptype peer)"
    and u: "wire_update (pe_cap_add_paths peer) u" "buf_at buf pkt (enc_update (pe_cap_add_paths peer) u)"
  shows "\<exists>d'. bgp_parse_update_msg bms peer extra buf pkt d = Inr (int (23 + body_length (pe_cap_add_paths peer) u), d') \<and>
    db_ok bms [] d' \<and> db_space [] d' (Suc k) \<and> db_bucket d' = update_change bms peer extra u (db_bucket d)"
proof -
  let ?ap = "pe_cap_add_paths peer" let ?W = "enc_routes ?ap (up_withdrawn u)" and ?A = "concat (map enc_attr (up_attrs u))"
    and ?N = "enc_routes ?ap (up_routes u)"
  define at where "at = sent_attr (up_attrs u)"
  have plain: "no_parts at" unfolding at_def by (rule sent_attr_parts)
  have total: "23 + body_length ?ap u \<le> 4096" and wire: "list_all (wire_route AFI_IP SAFI_UNICAST) (up_withdrawn u)"
      "list_all attr_ok (up_attrs u)" "list_all (wire_route AFI_IP SAFI_UNICAST) (up_routes u)"
    using u(1) by (simp_all add: wire_update_def BGP_MAX_MSGLEN_def)
  have small: "length ?W + (length ?A + length ?N + 2) + 2 < 65536" "length ?A + length ?N + 2 < 65536"
    using total unfolding body_length_def by linarith+
  define tot wl al nl e1 p1 p2 where d: "tot = (word_of_nat (23 + body_length ?ap u) :: u16)" "wl = (word_of_nat (length ?W) :: u16)"
    "al = (word_of_nat (length ?A) :: u16)" "nl = (word_of_nat (length ?N) :: u16)" "e1 = (word_of_nat (length ?A + length ?N + 2) :: u16)"
    "p1 = pkt + 19 + 2" "p2 = p1 + unat wl + 2"
  note u2 = u(2) [unfolded enc_update_def]
  have hd: "rd_mem buf pkt 20 = Inr (take 20 (drop pkt buf))" using u2 by (simp add: rd_mem_def buf_at_def)
  have f1: "rd_be16 buf (pkt + 16) = Inr tot" unfolding d(1) using u2 unfolding buf_at_append by (simp only: length_replicate buf_at_put_be16)
  have at1: "buf_at buf (pkt + 19) (put_be16 (word_of_nat (length ?W)) @ ?W @ put_be16 (word_of_nat (length ?A)) @ ?A @ ?N)"
    using u2 unfolding buf_at_append by (simp add: ac_simps)
  have e0: "tot - 19 = word_of_nat (length ?W + (length ?A + length ?N + 2) + 2)" unfolding d(1) body_length_def by simp
  note s1 = update_section_enc [OF at1 small(1), folded e0 d]
  have at2: "buf_at buf (p1 + unat wl) (put_be16 al @ ?A @ ?N)" and W: "buf_at buf p1 ?W"
    using s1(2,3) unfolding buf_at_append by simp_all
  note s2 = update_section_enc [OF at2 [unfolded d(3)] small(2), folded d]
  have A: "buf_at buf p2 ?A" and N: "buf_at buf (p2 + unat al) ?N" using s2(2,3) unfolding buf_at_append by simp_all
  have nl: "unat nl = length ?N" unfolding d(4) by (subst unat_of_nat, rule mod_less, use small(2) in simp)
  have attrs: "(if al \<noteq> 0 then bgp_attr_parse peer buf p2 (int (unat al)) (attr_parse_init (db_rt d)) else Inr (0, attr_parse_init (db_rt d))) =
      Inr (0, (attr_parse_init (db_rt d))\<lparr>ap_attr := at\<rparr>)"
    unfolding at_def by (rule parse_attrs_enc [OF A wire(2) s2(2)])
  define withdraw where "withdraw = (if wl \<noteq> 0 then \<lparr>nl_afi = AFI_IP, nl_safi = SAFI_UNICAST, nl_pos = p1, nl_length = wl\<rparr> else bgp_nlri_zero)"
  define update where "update = (if nl \<noteq> 0 then \<lparr>nl_afi = AFI_IP, nl_safi = SAFI_UNICAST, nl_pos = p2 + unat al, nl_length = nl\<rparr> else bgp_nlri_zero)"
  have run: "bgp_parse_update_msg bms peer extra buf pkt d =
      rbind (update_nlri bms peer extra buf update withdraw bgp_nlri_zero bgp_nlri_zero (at, d)) (\<lambda>(at, d1).
        rbind (attr_done peer at (db_rt d1)) (\<lambda>R. Inr (int (unat tot), d1\<lparr>db_rt := R\<rparr>)))"
    unfolding bgp_parse_update_msg_def Let_def BGP_HEADER_SIZE_def hd f1 rbind_simps s1(1) option.case prod.case s2(1) attrs
      withdraw_def [symmetric] update_def [symmetric]
    by (simp add: attr_parse_init_def)
  have ok: "db_ok bms [at] d" "db_space [at] d (length (up_withdrawn u) + (length (up_routes u) + k))"
    using db by (simp_all add: db_ok_hold [OF plain] db_space_def update_routes_def add.assoc)
  obtain d1 where d1: "nlri_if (nl_length withdraw \<noteq> 0) bms peer extra buf False withdraw (at, d) = Inr (at, d1)" "db_ok bms [at] d1"
      "db_space [at] d1 (length (up_routes u) + k)"
      "db_bucket d1 = fold (route_change bms peer extra AFI_IP SAFI_UNICAST None) (up_withdrawn u) (db_bucket d)"
    using nlri_if_enc [OF ok cfg wire(1) W s1(2), of extra False, folded withdraw_def] by (simp only: if_False) blast
  obtain d2 where d2: "nlri_if (nl_length update \<noteq> 0) bms peer extra buf True update (at, d1) = Inr (at, d2)" "db_ok bms [at] d2"
      "db_space [at] d2 k"
      "db_bucket d2 = fold (route_change bms peer extra AFI_IP SAFI_UNICAST (Some at)) (up_routes u) (db_bucket d1)"
    using nlri_if_enc [OF d1(2,3) cfg wire(3) N nl, of extra True, folded update_def] by (simp only: if_True) blast
  have tot: "unat tot = 23 + body_length ?ap u" unfolding d(1) by (subst unat_of_nat, rule mod_less, use total in simp)
  have "bgp_parse_update_msg bms peer extra buf pkt d = Inr (int (unat tot), d2)"
    unfolding run update_nlri_plain d1(1) rbind_simps d2(1) prod.case attr_done_plain [OF plain] by simp
  moreover have "db_ok bms [] d2" "db_space [] d2 (Suc k)" using d2(2,3) by (simp_all add: db_ok_hold [OF plain] db_space_def)
  moreover have "db_bucket d2 = update_change bms peer extra u (db_bucket d)"
    unfolding d2(4) d1(4) update_change_def at_def ..
  ultimately show ?thesis unfolding tot by blast
qed

section \<open>The session\<close>

text \<open>What the RIB depends on in a peer.\<close>

definition same_speaker :: "bgp_peer \<Rightarrow> bgp_peer \<Rightarrow> bool" where
  "same_speaker p q \<longleftrightarrow> pe_self q = pe_self p \<and> pe_fd q = pe_fd p \<and> pe_cap_add_paths q = pe_cap_add_paths p \<and> ptype q = ptype p"

lemma speaker_simps:
  assumes "same_speaker p q"
  shows "pe_self q = pe_self p" "pe_fd q = pe_fd p" "pe_cap_add_paths q = pe_cap_add_paths p" "ptype q = ptype p"
  using assms by (simp_all add: same_speaker_def)

lemma same_speaker_upd [simp]: "same_speaker p (p\<lparr>pe_truncated_len := a, pe_msglen := b\<rparr>)"
  by (simp add: same_speaker_def ptype_def bgp_peer_type.truncate_def)

lemma update_change_speaker:
  assumes "same_speaker p q"
  shows "update_change bms q extra = update_change bms p extra"
proof -
  note [simp] = speaker_simps [OF assms]
  have get: "bgp_info_extra_get q = bgp_info_extra_get p" by (simp add: bgp_info_extra_get_def fun_eq_iff)
  have "bgp_info_extra_process q = bgp_info_extra_process p" by (intro ext) (simp add: bgp_info_extra_process_def Let_def get)
  moreover have "bgp_extra_data_process_bmp q = bgp_extra_data_process_bmp p" by (intro ext) (simp add: bgp_extra_data_process_bmp_def get)
  ultimately have "announce bms q = announce bms p" by (intro ext) (simp add: announce_def extra_data_process_def)
  then have an: "announced bms q = announced bms p" by (intro ext) (simp add: announced_def)
  have "same_route bms q = same_route bms p" by (intro ext) (simp add: same_route_def)
  then have hit: "route_hit bms q = route_hit bms p" by (intro ext) (simp add: route_hit_def)
  have "install bms q = install bms p" by (intro ext) (simp add: install_def an hit split: option.split)
  moreover have "uninstall bms q = uninstall bms p" by (intro ext) (simp add: uninstall_def hit split: option.split)
  moreover have "route_slot bms q = route_slot bms p" by (intro ext) (simp add: route_slot_def)
  ultimately have "route_change bms q = route_change bms p" by (intro ext) (simp add: route_change_def Let_def split: option.split)
  then show ?thesis by (intro ext) (simp add: update_change_def)
qed

lemma update_step:
  assumes s: "buf_at (pe_buf (ss_peer s)) ptr (enc_update (pe_cap_add_paths (ss_peer s)) u)"
      "23 + body_length (pe_cap_add_paths (ss_peer s)) u \<le> unat (pe_msglen (ss_peer s))" "Established \<le> pe_status (ss_peer s)"
    and u: "wire_update (pe_cap_add_paths (ss_peer s)) u"
    and db: "db_ok bms [] (ss_db s)" "db_space [] (ss_db s) (Suc (update_routes u + k))"
    and cfg: "config_ok bms" "\<not> skip_rib bms" "routing_db (ptype (ss_peer s))" "misc_db (ptype (ss_peer s))"
  shows "\<exists>d'. msg_step cfg bms now online ptr s = Inr (continue_with ptr (23 + body_length (pe_cap_add_paths (ss_peer s)) u)
      ((whole_message s)\<lparr>ss_db := d'\<rparr>)) \<and> db_ok bms [] d' \<and> db_space [] d' (Suc k) \<and>
    db_bucket d' = update_change bms (ss_peer s) no_extra u (db_bucket (ss_db s))"
proof -
  let ?ap = "pe_cap_add_paths (ss_peer s)" and ?buf = "pe_buf (ss_peer s)"
  define n where "n = 23 + body_length ?ap u"
  have max: "n \<le> 4096" "23 \<le> n" using u by (simp_all add: wire_update_def BGP_MAX_MSGLEN_def n_def)
  have len: "unat (word_of_nat n :: u16) = n" by (subst unat_of_nat, rule mod_less) (use max in simp)
  note at = s(1) [unfolded enc_update_def]
  have r: "rd_be16 ?buf (ptr + 16) = Inr (word_of_nat n)"
    using at unfolding n_def buf_at_append by (simp only: length_replicate buf_at_put_be16)
  have ty: "rd8 ?buf (ptr + 18) = Inr BGP_UPDATE"
    using at buf_at_rd8 [of ?buf "ptr + 18" BGP_UPDATE "[]"] unfolding buf_at_append by (simp add: ac_simps)
  have m: "bgp_marker_check ?buf ptr BGP_MARKER_SIZE = Inr SUCCESS"
    unfolding bgp_marker_check_def BGP_MARKER_SIZE_def using at unfolding buf_at_append by (intro marker_all) simp
  have big: "\<not> unat (pe_msglen (ss_peer s)) < 19" "\<not> unat (pe_msglen (ss_peer s)) < n" "\<not> 4096 < n"
    using s(2) max unfolding n_def [symmetric] by linarith+
  have step: "msg_step cfg bms now online ptr s = msg_dispatch cfg bms now online ptr n (whole_message s)"
    unfolding msg_step_def Let_def BGP_HEADER_SIZE_def r m rbind_simps len
    using big by (simp add: bgp_max_msglen_check_def BGP_MAX_MSGLEN_def SUCCESS_def ERR_def)
  define p where "p = ss_peer (whole_message s)"
  have p: "same_speaker (ss_peer s) p" "pe_buf p = ?buf" "pe_status p = pe_status (ss_peer s)"
    by (simp_all add: p_def same_speaker_def ptype_def bgp_peer_type.truncate_def)
  have eq: "pe_cap_add_paths p = ?ap" "ptype p = ptype (ss_peer s)" using speaker_simps [OF p(1)] by simp_all
  obtain d' where d': "bgp_parse_update_msg bms p no_extra ?buf ptr (ss_db s) = Inr (int n, d')" "db_ok bms [] d'" "db_space [] d' (Suc k)"
      "db_bucket d' = update_change bms p no_extra u (db_bucket (ss_db s))"
    using parse_update_enc [OF db cfg(1,2), of p ?buf ptr no_extra] cfg(3,4) u s(1) unfolding eq n_def by blast
  have "\<not> pe_status (ss_peer s) < Established" using s(3) by simp
  then have "msg_dispatch cfg bms now online ptr n (whole_message s) = Inr (continue_with ptr n ((whole_message s)\<lparr>ss_db := d'\<rparr>))"
    using ty d'(1) by (simp add: msg_dispatch_def Let_def continue_with_def p_def)
  then show ?thesis using d'(2-4) step unfolding n_def [symmetric] update_change_speaker [OF p(1)] by metis
qed


lemma update_loop:
  assumes "buf_at (pe_buf (ss_peer s)) ptr (concat (map (enc_update (pe_cap_add_paths (ss_peer s))) us))"
      "unat (pe_msglen (ss_peer s)) = length (concat (map (enc_update (pe_cap_add_paths (ss_peer s))) us))"
      "Established \<le> pe_status (ss_peer s)" "list_all (wire_update (pe_cap_add_paths (ss_peer s))) us"
      "db_ok bms [] (ss_db s)" "db_space [] (ss_db s) (Suc (sum_list (map update_routes us)))"
      "config_ok bms" "\<not> skip_rib bms" "routing_db (ptype (ss_peer s))" "misc_db (ptype (ss_peer s))"
  shows "\<exists>s1. msg_loop cfg bms now online ptr s = Some (Inr (SUCCESS, s1)) \<and> db_ok bms [] (ss_db s1) \<and>
    db_bucket (ss_db s1) = fold (update_change bms (ss_peer s) no_extra) us (db_bucket (ss_db s)) \<and>
    ss_sent s1 = ss_sent s \<and> pe_status (ss_peer s1) = pe_status (ss_peer s)"
  using assms
proof (induction us arbitrary: ptr s)
  case Nil
  then have "pe_msglen (ss_peer s) = 0" by (simp add: unat_eq_zero)
  then show ?case using Nil by (subst msg_loop.simps) simp
next
  case (Cons u us)
  let ?ap = "pe_cap_add_paths (ss_peer s)"
  define n where "n = 23 + body_length ?ap u"
  define m where "m = length (concat (map (enc_update ?ap) us))"
  have at: "buf_at (pe_buf (ss_peer s)) ptr (enc_update ?ap u)" "buf_at (pe_buf (ss_peer s)) (ptr + n) (concat (map (enc_update ?ap) us))"
    and w: "wire_update ?ap u" "list_all (wire_update ?ap) us" using Cons.prems(1,4) by (simp_all add: enc_update_length n_def)
  have len: "unat (pe_msglen (ss_peer s)) = n + m" using Cons.prems(2) by (simp add: enc_update_length n_def m_def)
  then have fits: "23 + body_length ?ap u \<le> unat (pe_msglen (ss_peer s))" by (simp add: n_def)
  have space: "db_space [] (ss_db s) (Suc (update_routes u + sum_list (map update_routes us)))" using Cons.prems(6) by simp
  obtain d' where d': "msg_step cfg bms now online ptr s = Inr (continue_with ptr n ((whole_message s)\<lparr>ss_db := d'\<rparr>))"
      "db_ok bms [] d'" "db_space [] d' (Suc (sum_list (map update_routes us)))"
      "db_bucket d' = update_change bms (ss_peer s) no_extra u (db_bucket (ss_db s))"
    using update_step [OF at(1) fits Cons.prems(3) w(1) Cons.prems(5) space Cons.prems(7-10)] unfolding n_def by blast
  have small: "n \<le> 4096" using w(1) by (simp add: wire_update_def BGP_MAX_MSGLEN_def n_def)
  have un: "unat (word_of_nat n :: u32) = n" by (subst unat_of_nat, rule mod_less) (use small in simp)
  have "(word_of_nat n :: u32) \<le> pe_msglen (ss_peer s)" unfolding word_le_nat_alt un len by simp
  then have left: "unat (pe_msglen (ss_peer s) - word_of_nat n) = m" unfolding unat_sub [OF \<open>word_of_nat n \<le> _\<close>] un len by simp
  define s1 where "s1 = s\<lparr>ss_peer := (ss_peer s)\<lparr>pe_truncated_len := 0, pe_msglen := pe_msglen (ss_peer s) - word_of_nat n\<rparr>, ss_db := d'\<rparr>"
  have sp: "same_speaker (ss_peer s) (ss_peer s1)" by (simp add: s1_def)
  have eq: "pe_cap_add_paths (ss_peer s1) = ?ap" "ptype (ss_peer s1) = ptype (ss_peer s)" using speaker_simps [OF sp] by simp_all
  have s1: "pe_buf (ss_peer s1) = pe_buf (ss_peer s)" "pe_status (ss_peer s1) = pe_status (ss_peer s)" "ss_db s1 = d'" "ss_sent s1 = ss_sent s"
    "unat (pe_msglen (ss_peer s1)) = m" by (simp_all add: s1_def left)
  have nz: "pe_msglen (ss_peer s) \<noteq> 0" using len by (auto simp: n_def)
  have "msg_step cfg bms now online ptr s = Inr (Msg_Next (ptr + n) s1)" using d'(1) by (simp add: continue_with_def s1_def)
  then have run: "msg_loop cfg bms now online ptr s = msg_loop cfg bms now online (ptr + n) s1"
    using nz by (subst msg_loop.simps) simp
  have "\<exists>s2. msg_loop cfg bms now online (ptr + n) s1 = Some (Inr (SUCCESS, s2)) \<and> db_ok bms [] (ss_db s2) \<and>
    db_bucket (ss_db s2) = fold (update_change bms (ss_peer s1) no_extra) us (db_bucket (ss_db s1)) \<and>
    ss_sent s2 = ss_sent s1 \<and> pe_status (ss_peer s2) = pe_status (ss_peer s1)"
    by (rule Cons.IH) (use at(2) w(2) d'(2,3) Cons.prems(3,7-10) in \<open>simp_all add: s1 eq m_def\<close>)
  then show ?case unfolding run s1 update_change_speaker [OF sp] d'(4) by simp
qed

text \<open>C1: A session that stands and receives UPDATE messages, any number of them, each withdrawing and
  announcing IPv4 routes with plain attributes, takes all bytes, keeps the RIB sound, and leaves
  the map of routes that results from withdrawing and announcing the routes one after the other in
  the order of the messages.\<close>

theorem bgp_parse_msg_applies_updates:
  assumes "pe_buf (ss_peer s) = concat (map (enc_update (pe_cap_add_paths (ss_peer s))) us) @ rest"
      "unat (pe_msglen (ss_peer s)) = length (concat (map (enc_update (pe_cap_add_paths (ss_peer s))) us))"
      "Established \<le> pe_status (ss_peer s)" "list_all (wire_update (pe_cap_add_paths (ss_peer s))) us"
      "db_ok bms [] (ss_db s)" "db_space [] (ss_db s) (Suc (sum_list (map update_routes us)))"
      "config_ok bms" "\<not> skip_rib bms" "routing_db (ptype (ss_peer s))" "misc_db (ptype (ss_peer s))"
  shows "\<exists>s1. bgp_parse_msg cfg bms now online s = Some (Inr (SUCCESS, s1)) \<and> db_ok bms [] (ss_db s1) \<and>
    db_bucket (ss_db s1) = fold (update_change bms (ss_peer s) no_extra) us (db_bucket (ss_db s)) \<and>
    ss_sent s1 = ss_sent s \<and> pe_status (ss_peer s1) = pe_status (ss_peer s)"
proof -
  have "buf_at (pe_buf (ss_peer s)) 0 (concat (map (enc_update (pe_cap_add_paths (ss_peer s))) us))"
    by (simp add: assms(1) buf_at_def)
  then show ?thesis using update_loop [OF _ assms(2-10)] assms(10) by (simp add: bgp_parse_msg_def)
qed

text \<open>An announcement of 192.0.2.0/24 with path identifier 7 and a MED of 10, then a message that
  announces 10.128.0.0/9 without identifier.\<close>

definition ex_updates :: "update list" where
  "ex_updates =
     [\<lparr>up_withdrawn = [], up_attrs = [W_Origin 0, W_Next_Hop 0x04030201, W_Med 10],
       up_routes = [\<lparr>wr_path_id = 7, wr_label = [0, 0, 0], wr_rd = replicate 8 0, wr_p = ex_route\<rparr>]\<rparr>,
      \<lparr>up_withdrawn = [], up_attrs = [W_Unknown 7 [1, 2], W_Local_Pref 100],
       up_routes = [\<lparr>wr_path_id = 0, wr_label = [0, 0, 0], wr_rd = replicate 8 0,
         wr_p = \<lparr>pfx_family = AF_INET, pfx_len = 9, pfx_u = [10, 0x80] @ replicate 14 0\<rparr>\<rparr>]\<rparr>]"

lemma ex_updates_wire: "list_all (wire_update True) ex_updates"
  by (simp add: ex_updates_def wire_update_def wire_route_def wf_prefix_def ex_route_def afi_family_def pfx_bytes_def af_defs
      body_length_def enc_route_def BGP_MAX_MSGLEN_def handled_types_def put_be32_def)

theorem bgp_parse_msg_applies_updates_witness:
  "\<exists>s1. bgp_parse_msg ex_config ex_daemon 7 True (ex_session Established (concat (map (enc_update True) ex_updates))) =
     Some (Inr (SUCCESS, s1)) \<and>
   db_bucket (ss_db s1) AFI_IP SAFI_UNICAST (pfx_bits ex_route) 10 =
     [\<lparr>r_peer = 77, r_attr = Some (bgp_attr_zero\<lparr>at_nexthop := 0x01020304, at_med := 10\<rparr>),
       r_extra = Some (bgp_info_extra_zero\<lparr>ie_path_id := 7\<rparr>)\<rparr>]"
proof -
  let ?buf = "concat (map (enc_update True) ex_updates)" let ?s = "ex_session Established ?buf"
  have sp: "same_speaker ex_peer (ss_peer ?s)"
    by (simp add: ex_session_def same_speaker_def ptype_def bgp_peer_type.truncate_def)
  have add: "pe_cap_add_paths ex_peer" "pe_self ex_peer = 77" by (simp_all add: ex_peer_def)
  have add1: "pe_cap_add_paths (ss_peer ?s)" using speaker_simps(3) [OF sp] add(1) by simp
  have pt: "ptype (ss_peer ?s) = ptype ex_peer" using speaker_simps(4) [OF sp] .
  have len: "length ?buf < 2 ^ 32"
    by (simp add: ex_updates_def enc_update_length body_length_def enc_route_def pfx_bytes_def ex_route_def)
  have "\<exists>s1. bgp_parse_msg ex_config ex_daemon 7 True ?s = Some (Inr (SUCCESS, s1)) \<and> db_ok ex_daemon [] (ss_db s1) \<and>
    db_bucket (ss_db s1) = fold (update_change ex_daemon (ss_peer ?s) no_extra) ex_updates (db_bucket (ss_db ?s)) \<and>
    ss_sent s1 = ss_sent ?s \<and> pe_status (ss_peer s1) = pe_status (ss_peer ?s)"
  proof (rule bgp_parse_msg_applies_updates)
    show "pe_buf (ss_peer ?s) = concat (map (enc_update (pe_cap_add_paths (ss_peer ?s))) ex_updates) @ []" by (simp add: add1)
    show "unat (pe_msglen (ss_peer ?s)) = length (concat (map (enc_update (pe_cap_add_paths (ss_peer ?s))) ex_updates))"
      using len by (simp only: ex_session_simps add1 unat_of_nat_small)
    show "db_ok ex_daemon [] (ss_db ?s)" by (simp add: db_ok_init)
    show "db_space [] (ss_db ?s) (Suc (sum_list (map update_routes ex_updates)))" by (simp add: db_space_def update_routes_def ex_updates_def)
  qed (use ex_updates_wire ex_state pt in \<open>simp_all add: add1\<close>)
  then obtain s1 where s1: "bgp_parse_msg ex_config ex_daemon 7 True ?s = Some (Inr (SUCCESS, s1))"
      "db_bucket (ss_db s1) = fold (update_change ex_daemon ex_peer no_extra) ex_updates (db_bucket (bgp_db_init 64))"
    unfolding update_change_speaker [OF sp] by auto
  define at where "at = bgp_attr_zero\<lparr>at_nexthop := 0x01020304, at_med := 10\<rparr>"
  have at: "sent_attr [W_Origin 0, W_Next_Hop 0x04030201, W_Med 10] = at"
    by (simp add: at_def sent_attr_def bgp_attr_zero_def bswap32_def put_be32_def be32_def Let_def)
  have val: "attr_val at = at" by (simp add: at_def bgp_attr_zero_def attr_val_def)
  have slot: "route_slot ex_daemon ex_peer 7 = 10" by (simp add: route_slot_def ex_daemon_def ex_peer_def rib_nb_def)
  have new: "announced ex_daemon ex_peer no_extra SAFI_UNICAST 7 rd label \<lparr>r_peer = 77, r_attr = Some at, r_extra = None\<rparr> =
      \<lparr>r_peer = 77, r_attr = Some at, r_extra = Some (bgp_info_extra_zero\<lparr>ie_path_id := 7\<rparr>)\<rparr>" for rd label
    by (simp add: announced_def announce_def extra_data_process_def bgp_extra_data_process_bmp_def bgp_info_extra_process_def
        info_of_def bgp_info_extra_get_def ex_state upd_extra_def add no_extra_def BGP_MSG_EXTRA_DATA_BMP_def)
  have "db_bucket (ss_db s1) AFI_IP SAFI_UNICAST (pfx_bits ex_route) 10 =
      [\<lparr>r_peer = 77, r_attr = Some at, r_extra = Some (bgp_info_extra_zero\<lparr>ie_path_id := 7\<rparr>)\<rparr>]"
    unfolding s1(2) ex_updates_def
    by (simp add: update_change_def route_change_def sent_item_def wire_item_def add slot at val install_def route_hit_def new Let_def
        nlri_start_def) (simp add: pfx_bits_def ex_route_def)
  then show ?thesis using s1(1) unfolding at_def by blast
qed

end
