(* ===== verification/Bgp_Ends.thy ===== *)
theory Bgp_Ends
  imports Bgp_Msg_Props
begin

text \<open>
  A session ends its work on arbitrary messages. What may fail to end in the code are the loops over pointers, which in the
  model run out of fuel (\<open>No_Fuel\<close>), and the session loop of \<^verbatim>\<open>bgp_parse_msg\<close> in \<^verbatim>\<open>src/src/bgp/bgp_msg.c\<close>. It is
  shown function by function which calls end whatever they are given, and that the tables of the RIB stay tries, on
  which the others end; then that the session loop does.
\<close>

section \<open>Calls that end\<close>

text \<open>The outcome is a result that satisfies \<open>Q\<close>, or a fault, but not an endless loop.\<close>

definition ends_in :: "('a \<Rightarrow> bool) \<Rightarrow> 'a res \<Rightarrow> bool" where
  "ends_in Q m \<longleftrightarrow> (case m of Inl e \<Rightarrow> e \<noteq> No_Fuel | Inr x \<Rightarrow> Q x)"

abbreviation ends :: "'a res \<Rightarrow> bool" where
  "ends m \<equiv> ends_in (\<lambda>_. True) m"

named_theorems ends_intro

lemma ends_in_simps [simp]: "ends_in Q (Inr x) = Q x" "ends_in Q (Inl e) \<longleftrightarrow> e \<noteq> No_Fuel"
  by (simp_all add: ends_in_def)

lemma ends_bind: "ends m \<Longrightarrow> (\<And>x. ends_in Q (f x)) \<Longrightarrow> ends_in Q (rbind m f)"
  by (cases m) simp_all

lemma ends_bind_eq: "ends m \<Longrightarrow> (\<And>x. m = Inr x \<Longrightarrow> ends_in Q (f x)) \<Longrightarrow> ends_in Q (rbind m f)"
  by (cases m) simp_all

lemma ends_bind_in: "ends_in P m \<Longrightarrow> (\<And>x. P x \<Longrightarrow> ends_in Q (f x)) \<Longrightarrow> ends_in Q (rbind m f)"
  by (cases m) simp_all

lemma ends_in_mono: "ends_in P m \<Longrightarrow> (\<And>x. P x \<Longrightarrow> Q x) \<Longrightarrow> ends_in Q m"
  by (cases m) simp_all

subsection \<open>Reading and writing\<close>

lemma ends_mem [ends_intro]:
  "ends (rd8 b i)" "ends (rd_mem b i n)" "ends (wr_mem b i bs)" "ends (wr8 b i x)" "ends (rd_be16 b i)" "ends (rd_be32 b i)"
  by (auto simp: rd8_def rd_mem_def wr_mem_def wr8_def rd_be16_def rd_be32_def intro!: ends_bind)

lemma ends_rassert [ends_intro]: "e \<noteq> No_Fuel \<Longrightarrow> ends (rassert b e)"
  by (simp add: rassert_def)

lemma ends_jhash_loop [ends_intro]: "ends (jhash_loop k len a b c)"
  by (induction k len a b c rule: jhash_loop.induct)
    (subst jhash_loop.simps, auto simp: Let_def Jhash.rd_le32_def rd_shl_def intro!: ends_bind_eq ends_intro split: prod.split)

lemma ends_jhash [ends_intro]: "ends (jhash k len initval)"
  by (auto simp: jhash_def tail_byte_def rd_shl_def Let_def intro!: ends_bind ends_intro split: prod.split)

lemma ends_hash [ends_intro]:
  "ends (hash_slot h k)" "ends (hash_get peer key cmp h x mk)" "ends (hash_release key cmp h x)" "ends (deref objs a)"
  by (auto simp: hash_slot_def hash_get_def hash_release_def deref_def Let_def intro!: ends_bind split: option.split)

lemma ends_pool [ends_intro]:
  "(\<And>x. ends (pr x)) \<Longrightarrow> ends (pool_intern peer key cmp pr P a)" "ends (pool_unintern peer key cmp P a)"
  by (auto simp: pool_intern_def pool_unintern_def Let_def intro!: ends_bind ends_intro split: option.split prod.split)

subsection \<open>AS paths\<close>

lemma ends_put_asns [ends_intro]: "ends (put_asns n sep t asns)"
  by (induction n sep t asns rule: put_asns.induct) (auto simp: snprint_def Let_def intro!: ends_bind_eq ends_intro)

lemma ends_put_segments [ends_intro]: "ends (put_segments n t la segs)"
  by (induction n t la segs rule: put_segments.induct)
    (auto simp: put_segment_def snprint_def Let_def intro!: ends_bind_eq ends_intro split: option.split)

lemma ends_rd_asns [ends_intro]: "ends (rd_asns s i use32bit n)"
  by (induction s i use32bit n rule: rd_asns.induct) (auto simp: Let_def intro!: ends_bind_eq ends_intro)

lemma ends_segs_loop [ends_intro]: "ends (segs_loop s len use32bit i head)"
  by (induction s len use32bit i head rule: segs_loop.induct)
    (subst segs_loop.simps, auto simp: Let_def intro!: ends_bind_eq ends_intro)

lemma ends_reconcile_loop [ends_intro]: "ends (reconcile_loop segs hops cp)"
  by (induction segs hops cp rule: reconcile_loop.induct)
    (auto simp: assegment_append_asns_def Let_def intro!: ends_bind_eq ends_intro split: prod.split)

lemma ends_str_update [ends_intro]: "ends (aspath_str_update as)" "ends (aspath_dup as)"
  by (auto simp: aspath_str_update_def aspath_dup_def aspath_make_str_count_def Let_def intro!: ends_bind ends_intro split: prod.split)

lemma ends_aspath [ends_intro]:
  "ends (aspath_hash_alloc as)" "ends (aspath_key_make as)" "ends (aspath_merge p q)" "ends (assegments_parse s len use32bit)"
  by (auto simp: aspath_hash_alloc_def aspath_key_make_def aspath_merge_def assegments_parse_def Let_def
      intro!: ends_bind ends_intro split: option.split)

lemma ends_aspath_pool [ends_intro]:
  "ends (aspath_parse peer P tmp fresh s len use32bit)" "ends (aspath_intern peer P a)" "ends (aspath_unintern peer P a)"
  "ends (aspath_reconcile_as4 peer p as4path)"
  by (auto simp: aspath_parse_def aspath_intern_def aspath_unintern_def aspath_reconcile_as4_def Let_def
      intro!: ends_bind ends_intro split: option.split prod.split)

subsection \<open>Communities\<close>

lemma ends_community_include [ends_intro]: "ends (community_include_from b v i n)"
  by (induction b v i n rule: community_include_from.induct) (auto simp: Let_def intro!: ends_bind_eq ends_intro)

lemma ends_community_vals [ends_intro]:
  "ends (com_buf com)" "ends (community_val_get com i)" "ends (community_include com v)" "ends (community_add_val peer com v)"
  by (auto simp: com_buf_def community_val_get_def community_include_def community_add_val_def Let_def
      intro!: ends_bind ends_intro split: option.split)

lemma ends_uniq_loop [ends_intro]: "ends (uniq_loop peer com new i n)"
  by (induction peer com new i n rule: uniq_loop.induct) (auto simp: Let_def intro!: ends_bind_eq ends_intro)

lemma ends_be_groups [ends_intro]: "ends (be_groups b i n)"
  by (induction b i n rule: be_groups.induct) (auto simp: Let_def intro!: ends_bind_eq ends_intro)

lemma ends_com_len [ends_intro]: "ends (com_len b i n len)"
  by (induction b i n len rule: com_len.induct) (auto simp: Let_def intro!: ends_bind_eq ends_intro)

lemma ends_put_char [ends_intro]: "ends (put_char n t c)" "ends (put_str n t x)"
  by (auto simp: put_char_def put_str_def)

lemma ends_com_fill [ends_intro]: "ends (com_fill b i n len first t)"
  by (induction b i n len first t rule: com_fill.induct) (auto simp: Let_def intro!: ends_bind_eq ends_intro)

lemma ends_community [ends_intro]:
  "ends (community_uniq_sort peer com)" "ends (community_com2str peer c)" "ends (community_intern peer P a)"
  "ends (community_unintern peer P a)" "ends (community_parse peer P fresh s len)"
  by (auto simp: community_uniq_sort_def community_com2str_def community_intern_def community_unintern_def community_parse_def
      qsort_vals_def Let_def intro!: ends_bind ends_intro split: option.split prod.split)

lemma ends_vals_scan [ends_intro]: "ends (vals_scan w b v i n)"
  by (induction w b v i n rule: vals_scan.induct) (auto simp: Let_def intro!: ends_bind_eq ends_intro)

lemma ends_vals_add [ends_intro]: "ends (vals_add_val w peer com v)"
  by (auto simp: vals_add_val_def Let_def intro!: ends_bind ends_intro split: option.split)

lemma ends_vals_loop [ends_intro]: "ends (vals_loop w peer b com i n)"
  by (induction w peer b com i n rule: vals_loop.induct) (auto simp: Let_def intro!: ends_bind_eq ends_intro split: prod.split)

lemma ends_vals_parse [ends_intro]: "(\<And>P a. ends (intern peer P a)) \<Longrightarrow> ends (vals_parse w intern peer P fresh s len)"
  by (auto simp: vals_parse_def vals_uniq_sort_def Let_def intro!: ends_bind ends_intro split: option.split prod.split)

lemma ends_ecom_fill [ends_intro]: "ends (ecom_fill b fmt i n len first t)"
  by (induction b fmt i n len first t rule: ecom_fill.induct)
    (auto simp: ecom_entry_def Let_def intro!: ends_bind_eq ends_intro)

lemma ends_lcom_fill [ends_intro]: "ends (lcom_fill b i n len first t)"
  by (induction b i n len first t rule: lcom_fill.induct) (auto simp: Let_def intro!: ends_bind_eq ends_intro)

lemma ends_print [ends_intro]: "ends (ecommunity_ecom2str peer ec fmt)" "ends (lcommunity_lcom2str peer lc)"
  by (auto simp: ecommunity_ecom2str_def lcommunity_lcom2str_def Let_def intro!: ends_bind ends_intro split: option.split)

lemma ends_ext_intern [ends_intro]:
  "ends (ecommunity_intern peer P a)" "ends (lcommunity_intern peer Q a)" "ends (ecommunity_unintern peer P a)"
  "ends (lcommunity_unintern peer Q a)"
  by (auto simp: ecommunity_intern_def lcommunity_intern_def ecommunity_unintern_def lcommunity_unintern_def
      intro!: ends_bind ends_intro)

lemma ends_ext_parse [ends_intro]:
  "ends (ecommunity_parse peer P fresh s len)" "ends (lcommunity_parse peer Q fresh s len)"
  by (auto simp: ecommunity_parse_def lcommunity_parse_def intro!: ends_bind ends_intro)

subsection \<open>Attributes\<close>

lemma ends_refs [ends_intro]:
  "(\<And>P a. ends (f P a)) \<Longrightarrow> ends (drop_ref f P x)" "(\<And>P a. ends (g P a)) \<Longrightarrow> ends (take_ref g P x)"
  by (auto simp: drop_ref_def take_ref_def Let_def intro!: ends_bind ends_intro split: option.split)

lemma ends_attr_key [ends_intro]: "ends (part_key hk P c)" "ends (attrhash_key_make R at)"
  by (auto simp: part_key_def attrhash_key_make_def Let_def intro!: ends_bind ends_intro split: option.split prod.split)

lemma ends_attr [ends_intro]:
  "ends (attr_share peer R at)" "ends (bgp_attr_intern peer R at)" "ends (attr_release R a)" "ends (bgp_attr_unintern peer R a)"
  by (auto simp: attr_share_def bgp_attr_intern_def attr_release_def bgp_attr_unintern_def Let_def
      intro!: ends_bind ends_intro split: option.split prod.split)

lemma ends_info [ends_intro]: "ends (update_logged bms peer extra d p at afi safi rd path_id label)"
  "ends (bgp_route_info_modulo_pathid bms peer pid)" "ends (rib_at d afi safi)" "ends (bucket nd m)"
  by (auto simp: update_logged_def bgp_route_info_modulo_pathid_def rib_at_def bucket_def Let_def
      intro!: ends_bind ends_intro split: option.split prod.split)

section \<open>The routing tables\<close>

lemma change_node_inv:
  assumes "table_inv f T" "t_nodes T a = Some nd"
  shows "table_inv f (put_node T a (nd\<lparr>n_info := i\<rparr>))" "table_inv f (put_node T a (nd\<lparr>n_lock := k\<rparr>))"
proof -
  obtain t where t: "table_rep T t" "bits_ok f [] t" using assms(1) by (auto simp: table_inv_def)
  obtain c p j lk l r where c: "t = plug c (Nd a p j lk l r)" "nd = mk_node p (ctx_top c) (root l) (root r) j lk"
    using table_focus [OF t(1) assms(2)] .
  have "bits_ok f [] (plug c (Nd a p i' lk' l r))" for i' lk' using t(2) by (simp add: c(1) bits_ok_plug)
  then have "table_inv f (put_node T a (mk_node p (ctx_top c) (root l) (root r) i' lk'))" for i' lk'
    using change_node_rep [OF t [unfolded c(1)]] unfolding table_inv_def by blast
  then show "table_inv f (put_node T a (nd\<lparr>n_info := i\<rparr>))" "table_inv f (put_node T a (nd\<lparr>n_lock := k\<rparr>))"
    by (simp_all add: c(2) mk_node_def)
qed

lemma ends_get_node [ends_intro]: "ends (get_node T a)"
  by (simp add: get_node_def split: option.split)

lemma put_bucket_ends:
  "table_inv f T \<Longrightarrow> ends_in (table_inv f) (put_bucket T a m bk)"
  by (auto simp: put_bucket_def get_node_eq intro!: ends_bind_eq ends_intro change_node_inv(1))

lemma lock_node_ends:
  "table_inv f T \<Longrightarrow> ends_in (table_inv f) (bgp_lock_node T a)"
  by (auto simp: bgp_lock_node_def get_node_eq intro!: ends_bind_eq ends_intro change_node_inv(2))

lemma node_get_ends:
  assumes "table_inv f T" "wf_prefix p" "pfx_family p = f"
  shows "ends_in (\<lambda>(a, T'). table_inv f T') (bgp_node_get (Some b) T p)"
  using bgp_node_get_all [OF assms, of b] by auto

text \<open>The loop of \<^verbatim>\<open>bgp_node_delete\<close> climbs: it has as many turns as the node has ancestors.\<close>

lemma delete_ends:
  assumes "table_rep T (plug c (Nd a p i lk l r))" "bits_ok f [] (plug c (Nd a p i lk l r))" "length c < k"
  shows "ends_in (table_inv f) (bgp_node_delete k T a)"
  using assms
proof (induction c arbitrary: T a p i lk l r k)
  case Nil
  have pre: "insert_pre f T [] (Nd a p i lk l r) p" using Nil.prems by (intro focus_pre) simp_all
  have nd: "get_node T a = Inr (mk_node p None (root l) (root r) i lk)"
    using insert_preD(2) [OF pre] by (simp add: get_node_def)
  obtain k' where k: "k = Suc k'" using Nil.prems(3) by (cases k) auto
  show ?case
  proof (cases "l \<noteq> Lf \<and> r \<noteq> Lf")
    case True
    then show ?thesis
      using Nil.prems(1,2) nd by (auto simp: k rassert_def table_inv_def intro!: exI [of _ "Nd a p i lk l r"])
  next
    case False
    then obtain T' where "unlink_node T a (mk_node p None (root l) (root r) i lk) = Inr T'" "table_rep T' (only_child l r)"
      using unlink_rep [OF pre] by auto
    then show ?thesis
      using False only_child_bits [OF Nil.prems(2)] nd by (auto simp: k rassert_def table_inv_def)
  qed
next
  case (Cons fr c)
  obtain b q j lk' d sib where fr: "fr = Fr b q j lk' d sib" by (cases fr)
  have pre: "insert_pre f T (fr # c) (Nd a p i lk l r) p" using Cons.prems by (intro focus_pre) simp_all
  have nd: "get_node T a = Inr (mk_node p (Some b) (root l) (root r) i lk)"
    using insert_preD(2) [OF pre] by (simp add: get_node_def fr)
  obtain k' where k: "k = Suc k'" using Cons.prems(3) by (cases k) auto
  have inv: "table_inv f T" using Cons.prems(1,2) by (auto simp: table_inv_def)
  show ?case
  proof (cases "l \<noteq> Lf \<and> r \<noteq> Lf")
    case True
    then show ?thesis using inv nd by (auto simp: k rassert_def)
  next
    case False
    let ?s = "only_child l r" let ?n = "plug1 fr (only_child l r)"
    obtain T1 where run: "unlink_node T a (mk_node p (Some b) (root l) (root r) i lk) = Inr T1"
        and rep: "table_rep T1 (plug (fr # c) ?s)"
      using unlink_rep [OF pre] False by (auto simp: fr)
    have bits: "bits_ok f [] (plug (fr # c) ?s)" using only_child_bits [OF Cons.prems(2)] .
    have rp: "table_rep T1 (plug c ?n)" "bits_ok f [] (plug c ?n)" "table_inv f T1"
      using rep bits by (auto simp: table_inv_def)
    have gb: "get_node T1 b = Inr (mk_node q (ctx_top c) (if d then root sib else root ?s) (if d then root ?s else root sib) j lk')"
      using rp(1) by (cases d) (auto simp: table_rep_def rep_plug get_node_def fr)
    have up: "ends_in (table_inv f) (bgp_node_delete k' T1 b)"
      using Cons.IH [of T1 b q j lk' sib ?s k'] Cons.IH [of T1 b q j lk' ?s sib k'] rp Cons.prems(3) k
      by (cases d) (auto simp: fr)
    show ?thesis
    proof (cases "lk = 0 \<and> no_routes i")
      case True
      then have "bgp_node_delete k T a = (if lk' = 0 then bgp_node_delete k' T1 b else Inr T1)"
        using False nd run gb by (auto simp: k rassert_def no_routes_def)
      then show ?thesis using up rp(3) by simp
    next
      case no: False
      then have "bgp_node_delete k T a = Inl Assert_Failed" using nd by (auto simp: k rassert_def no_routes_def)
      then show ?thesis by simp
    qed
  qed
qed

lemma unlock_node_ends:
  assumes "table_inv f T"
  shows "ends_in (table_inv f) (bgp_unlock_node T a)"
proof (cases "t_nodes T a")
  case (Some nd)
  obtain t where t: "table_rep T t" "bits_ok f [] t" using assms by (auto simp: table_inv_def)
  obtain c p i lk l r where c: "t = plug c (Nd a p i lk l r)" "nd = mk_node p (ctx_top c) (root l) (root r) i lk"
    using table_focus [OF t(1) Some] .
  let ?T1 = "put_node T a (mk_node p (ctx_top c) (root l) (root r) i (lk - 1))"
  have un: "bgp_unlock_node T a = (if lk - 1 = 0 then bgp_node_delete (Suc (t_next T)) ?T1 a else Inr ?T1)"
    using Some by (simp only: bgp_unlock_node_def get_node_def option.case rbind_simps Let_def c(2) mk_node_sel mk_node_upd)
  have "length c < Suc (t_next T)"
    using fuel_bound [OF t(1)] length_ctx [of c] by (simp add: c(1) length_addrs_plug)
  then have "ends_in (table_inv f) (bgp_node_delete (Suc (t_next T)) ?T1 a)"
    using change_node_rep [OF t [unfolded c(1)], of i "lk - 1"] t(2) by (intro delete_ends) (auto simp: c(1) bits_ok_plug)
  then show ?thesis using change_node_inv(2) [OF assms Some, of "lk - 1"] by (simp only: un ends_in_simps split: if_split) (simp add: c(2))
qed (simp add: bgp_unlock_node_def get_node_def)

section \<open>Routes\<close>

text \<open>Each table of the two families is one trie of its prefixes; nothing is asked of the reference
  counts, of the routes and of the pools.\<close>

definition rib_afi :: "u16 \<Rightarrow> bool" where
  "rib_afi afi \<longleftrightarrow> afi = AFI_IP \<or> afi = AFI_IP6"

definition tries_ok :: "bgp_db \<Rightarrow> bool" where
  "tries_ok d \<longleftrightarrow> (\<forall>afi safi. rib_afi afi \<longrightarrow> table_inv (afi_family afi) (rib d afi safi))"

lemma tries_ok_simps [simp]:
  "tries_ok (d\<lparr>db_rt := R\<rparr>) = tries_ok d" "tries_ok (d\<lparr>peer_locks := k\<rparr>) = tries_ok d"
  "tries_ok (bgp_peer_log_msg d p ri afi safi ty) = tries_ok d"
  by (simp_all add: tries_ok_def bgp_peer_log_msg_def)

lemma tries_ok_put: "tries_ok d \<Longrightarrow> table_inv (afi_family afi) T \<Longrightarrow> tries_ok (put_rib d afi safi T)"
  by (simp add: tries_ok_def put_rib_def)

lemma db_ok_tries: "db_ok bms H d \<Longrightarrow> tries_ok d"
  by (simp add: tries_ok_def db_table_inv)

lemma tries_ok_init: "tries_ok (bgp_db_init n)"
  by (simp add: tries_ok_def bgp_db_init_def table_inv_init)

lemma tries_ok_rib [simp]: "tries_ok d \<Longrightarrow> rib_afi afi \<Longrightarrow> table_inv (afi_family afi) (rib d afi safi)"
  by (simp add: tries_ok_def)

lemmas ends_steps =
  ends_bind [OF ends_get_node] ends_bind [OF ends_info(4)] ends_bind [OF ends_info(2)] ends_bind [OF ends_hash(4)]
  ends_bind [OF ends_attr(2)] ends_bind [OF ends_attr(4)]
  ends_bind_in [OF put_bucket_ends] ends_bind_in [OF lock_node_ends] ends_bind_in [OF unlock_node_ends] tries_ok_put tries_ok_rib

lemma ends_info_add:
  "tries_ok d \<Longrightarrow> rib_afi afi \<Longrightarrow> ends_in tries_ok (bgp_info_add d afi safi rn ri m)"
  unfolding bgp_info_add_def by (intro ends_steps) (simp_all, auto intro: ends_steps)

lemma ends_info_free: "tries_ok d \<Longrightarrow> ends_in tries_ok (bgp_info_free peer d ri)"
  by (auto simp: bgp_info_free_def intro!: ends_bind ends_intro split: option.split)

lemma ends_info_delete:
  "tries_ok d \<Longrightarrow> rib_afi afi \<Longrightarrow> ends_in tries_ok (bgp_info_delete peer d afi safi rn k m)"
  by (auto simp: bgp_info_delete_def intro!: ends_steps ends_bind_in [OF ends_info_free])

lemma ends_update_node:
  "tries_ok d \<Longrightarrow> rib_afi afi \<Longrightarrow>
   ends_in (\<lambda>(ri, d1). tries_ok d1) (update_node bms peer extra d afi safi rn m bk hit new rd path_id label)"
  by (auto simp: update_node_def Let_def intro!: ends_steps ends_bind_in [OF ends_info_add] split: option.split)
    (auto intro: tries_ok_rib)

definition rib_prefix :: "u16 \<Rightarrow> prefix_t \<Rightarrow> bool" where
  "rib_prefix afi p \<longleftrightarrow> rib_afi afi \<and> wf_prefix p \<and> pfx_family p = afi_family afi"

lemma rib_at_ends: "tries_ok d \<Longrightarrow> rib_afi afi \<Longrightarrow> ends_in (table_inv (afi_family afi)) (rib_at d afi safi)"
  by (simp add: rib_at_def)

lemma rib_node_ends:
  "rib_prefix afi p \<Longrightarrow> table_inv (afi_family afi) T \<Longrightarrow>
   ends_in (\<lambda>(a, T'). table_inv (afi_family afi) T') (bgp_node_get (Some b) T p)"
  by (simp add: rib_prefix_def node_get_ends)

lemma ends_update_logged:
  "tries_ok d \<Longrightarrow> ends_in (\<lambda>(ret, at, d). tries_ok d) (update_logged bms peer extra d p at afi safi rd path_id label)"
  by (auto simp: update_logged_def Let_def intro!: ends_bind ends_intro split: prod.split option.split)

lemma ends_process_update:
  assumes "tries_ok d" "rib_prefix afi p"
  shows "ends_in (\<lambda>(ret, at, d). tries_ok d) (bgp_process_update bms peer extra d p at afi safi rd path_id label)"
proof -
  have "rib_afi afi" using assms(2) by (simp add: rib_prefix_def)
  with assms show ?thesis unfolding bgp_process_update_def
    by (auto simp: Let_def ends_update_logged intro!: ends_steps ends_bind_in [OF rib_at_ends]
        ends_bind_in [OF rib_node_ends] ends_bind_in [OF ends_update_node] split: prod.split option.split)
qed

lemma ends_process_withdraw:
  assumes "tries_ok d" "rib_prefix afi p"
  shows "ends_in (\<lambda>(ret, d). tries_ok d) (bgp_process_withdraw bms peer extra d p afi safi rd path_id label)"
proof -
  have afi: "rib_afi afi" using assms(2) by (simp add: rib_prefix_def)
  have del: "ends_in tries_ok (case hit of None \<Rightarrow> Inr d1
      | Some k \<Rightarrow> bgp_info_delete peer (if b then bgp_peer_log_msg d1 q (r k) afi safi ty else d1) afi safi rn k m)"
    if "tries_ok d1" for hit d1 b q r ty rn m
    using that afi by (auto intro!: ends_info_delete split: option.split)
  show ?thesis using assms afi unfolding bgp_process_withdraw_def
    by (auto simp: Let_def intro!: ends_steps ends_bind_in [OF rib_at_ends] ends_bind_in [OF rib_node_ends]
        ends_bind_in [OF del])
qed

section \<open>Messages\<close>

text \<open>A labelled route shorter than its label gets a length above 128; no labelled family of the two
  tables is named in the buffer.\<close>

definition unlabelled :: "byte list \<Rightarrow> bool" where
  "unlabelled buf \<longleftrightarrow> (\<forall>i < length buf. \<forall>afi safi. rd_be16 buf i = Inr afi \<and> rd8 buf (i + 2) = Inr safi \<longrightarrow>
     \<not> (rib_afi afi \<and> (safi = SAFI_MPLS_LABEL \<or> safi = SAFI_MPLS_VPN)))"

definition plain_nlri :: "bgp_nlri \<Rightarrow> bool" where
  "plain_nlri info \<longleftrightarrow> \<not> (rib_afi (nl_afi info) \<and> (nl_safi info = SAFI_MPLS_LABEL \<or> nl_safi info = SAFI_MPLS_VPN))"

lemma ends_rd [ends_intro]: "ends (rd_prefix buf i n)" "ends (rd_distinguisher buf i)"
  by (auto simp: rd_prefix_def rd_distinguisher_def Let_def intro!: ends_bind ends_intro)

lemma rd_prefix_length: "rd_prefix buf i n = Inr u \<Longrightarrow> length u = 16"
  by (auto simp: rd_prefix_def rd_mem_def split: if_split_asm)

lemma nlri_next_ends:
  assumes "plain_nlri info" "rib_afi (nl_afi info)"
  shows "ends_in (\<lambda>r. \<forall>it. r = Some it \<longrightarrow> rib_prefix (nl_afi info) (it_p it)) (nlri_next ap buf info it)"
proof -
  have skip: "nlri_skip (nl_safi info) = 0" using assms by (auto simp: plain_nlri_def nlri_skip_def)
  have afi: "nl_afi info = AFI_IP \<or> nl_afi info = AFI_IP6" using assms(2) by (simp add: rib_afi_def)
  have wf: "rib_prefix (nl_afi info) \<lparr>pfx_family = afi2family (uint (nl_afi info)), pfx_len = unat plen, pfx_u = u\<rparr>"
    if "rd_prefix buf j k = Inr u" "\<not> nlri_max (nl_afi info) < unat plen" for plen :: byte and j k u
    using that(2) rd_prefix_length [OF that(1)] afi afi_family_eq [OF afi]
    by (auto simp: rib_prefix_def assms(2) wf_prefix_def nlri_max_def afi_family_def AFI_IP_def AFI_IP6_def af_defs)
  show ?thesis unfolding nlri_next_def Let_def skip
    using afi wf by (auto intro!: ends_bind_eq ends_intro split: option.split prod.split)
qed

lemma nlri_process_ends:
  "tries_ok d \<Longrightarrow> rib_prefix (nl_afi info) (it_p it) \<Longrightarrow>
   ends_in (\<lambda>(attr, d). tries_ok d) (nlri_process bms peer extra d attr info it)"
  by (auto simp: nlri_process_def intro!: ends_bind_in [OF ends_process_update] ends_bind_in [OF ends_process_withdraw]
      split: option.split prod.split)

lemma nlri_loop_ends:
  "tries_ok d \<Longrightarrow> plain_nlri info \<Longrightarrow> rib_afi (nl_afi info) \<Longrightarrow>
   ends_in (\<lambda>(ret, attr, d). tries_ok d) (nlri_loop bms peer extra buf info lim d attr it)"
proof (induction bms peer extra buf info lim d attr it rule: nlri_loop.induct)
  case (1 bms peer extra buf info lim d attr it)
  show ?case
    unfolding nlri_loop.simps [of bms peer extra buf info lim d attr it]
  proof (clarsimp simp: 1(2), rule ends_bind_eq)
    show "ends (nlri_next (pe_cap_add_paths peer) buf info it)"
      by (rule ends_in_mono [OF nlri_next_ends [OF 1(3,4)]]) simp
    fix r assume lt: "it_pos it < lim" and r: "nlri_next (pe_cap_add_paths peer) buf info it = Inr r"
    have ok: "rib_prefix (nl_afi info) (it_p it1)" if "r = Some it1" for it1
      using nlri_next_ends [OF 1(3,4), of "pe_cap_add_paths peer" buf it] r that by simp
    show "ends_in (\<lambda>(ret, attr, d). tries_ok d) (case r of None \<Rightarrow> Inr (ERR, attr, d)
        | Some it1 \<Rightarrow> rbind (nlri_process bms peer extra d attr info it1) (\<lambda>(attr1, d1).
            nlri_loop bms peer extra buf info lim d1 attr1 it1))"
    proof (cases r)
      case (Some it1)
      have p: "ends_in (\<lambda>(attr, d). tries_ok d) (nlri_process bms peer extra d attr info it1)"
        by (rule nlri_process_ends [OF 1(2) ok [OF Some]])
      show ?thesis unfolding Some option.case
      proof (rule ends_bind_eq)
        fix x assume x: "nlri_process bms peer extra d attr info it1 = Inr x"
        obtain attr1 d1 where [simp]: "x = (attr1, d1)" by (cases x)
        have "tries_ok d1" using p x by simp
        then show "ends_in (\<lambda>(ret, attr, d). tries_ok d) (case x of (attr1, d1) \<Rightarrow> nlri_loop bms peer extra buf info lim d1 attr1 it1)"
          using 1(1) [OF _ r Some x] lt 1(3,4) by simp
      qed (rule ends_in_mono [OF p], simp)
    qed (simp add: 1(2))
  qed
qed

lemma nlri_if_ends:
  assumes "wanted \<longrightarrow> plain_nlri info \<and> rib_afi (nl_afi info)" "tries_ok d"
  shows "ends_in (\<lambda>(at, d). tries_ok d) (nlri_if wanted bms peer extra buf adds info (at, d))"
  using assms by (auto simp: nlri_if_def bgp_nlri_parse_def intro!: ends_bind_in [OF nlri_loop_ends])

lemma wanted_afi: "nlri_wanted afi info \<Longrightarrow> rib_afi afi \<Longrightarrow> rib_afi (nl_afi info)"
  by (simp add: nlri_wanted_def)

lemma update_nlri_ends:
  assumes "tries_ok d" "plain_nlri up" "plain_nlri wd"
    "nl_length update \<noteq> 0 \<longrightarrow> plain_nlri update \<and> rib_afi (nl_afi update)"
    "nl_length withdraw \<noteq> 0 \<longrightarrow> plain_nlri withdraw \<and> rib_afi (nl_afi withdraw)"
  shows "ends_in (\<lambda>(at, d). tries_ok d) (update_nlri bms peer extra buf update withdraw up wd (at, d))"
proof -
  have afi: "rib_afi AFI_IP" "rib_afi AFI_IP6" by (simp_all add: rib_afi_def)
  have step: "ends_in Q (rbind (nlri_if wanted bms peer extra buf adds info s) g)"
    if "wanted \<longrightarrow> plain_nlri info \<and> rib_afi (nl_afi info)" "tries_ok (snd s)" "\<And>s1. tries_ok (snd s1) \<Longrightarrow> ends_in Q (g s1)"
    for wanted adds info s g and Q :: "bgp_attr \<times> bgp_db \<Rightarrow> bool"
    using nlri_if_ends [OF that(1), of "snd s" bms peer extra buf adds "fst s"] that(2,3)
    by (intro ends_bind_in [of "\<lambda>s1. tries_ok (snd s1)"]) (auto simp: case_prod_unfold)
  have last: "ends_in (\<lambda>(at, d). tries_ok d) (nlri_if wanted bms peer extra buf adds info s)"
    if "wanted \<longrightarrow> plain_nlri info \<and> rib_afi (nl_afi info)" "tries_ok (snd s)" for wanted adds info s
    using nlri_if_ends [OF that(1), of "snd s" bms peer extra buf adds "fst s"] that(2) by simp
  show ?thesis unfolding update_nlri_def
    by (intro step last impI conjI) (use assms afi wanted_afi in simp_all)
qed

subsection \<open>Attributes\<close>

lemma ends_parse_path [ends_intro]: "ends (parse_path peer buf pnt len use32bit R)"
  by (auto simp: parse_path_def Let_def intro!: ends_bind ends_intro)

definition plain_parse :: "attr_parse \<Rightarrow> bool" where
  "plain_parse st \<longleftrightarrow> plain_nlri (ap_update st) \<and> plain_nlri (ap_withdraw st)"

lemma plain_parse_upd [simp]:
  "plain_parse (upd_attr f st) = plain_parse st" "plain_parse (st\<lparr>ap_rt := R\<rparr>) = plain_parse st"
  "plain_parse (st\<lparr>ap_as4 := a\<rparr>) = plain_parse st" "plain_parse (st\<lparr>ap_attr := at\<rparr>) = plain_parse st"
  by (simp_all add: plain_parse_def upd_attr_def)

lemma unlabelled_nlri:
  assumes "unlabelled buf" "rd_be16 buf i = Inr afi" "rd8 buf (i + 2) = Inr safi"
  shows "plain_nlri \<lparr>nl_afi = afi, nl_safi = safi, nl_pos = k, nl_length = n\<rparr>"
proof -
  have "i < length buf" using assms(3) by (simp add: rd8_eq_Inr)
  with assms show ?thesis by (auto simp: unlabelled_def plain_nlri_def)
qed

lemma attr_fields_ends:
  assumes "plain_parse st"
  shows "ends_in (\<lambda>(ret, st). plain_parse st) (bgp_attr_parse_aspath peer len buf pnt st)"
    "ends_in (\<lambda>(ret, st). plain_parse st) (bgp_attr_parse_as4path peer len buf pnt st)"
    "ends_in (\<lambda>(ret, st). plain_parse st) (bgp_attr_parse_nexthop len buf pnt st)"
    "ends_in (\<lambda>(ret, st). plain_parse st) (bgp_attr_parse_community peer len buf pnt st)"
    "ends_in (\<lambda>(ret, st). plain_parse st) (bgp_attr_parse_ecommunity peer len buf pnt st)"
    "ends_in (\<lambda>(ret, st). plain_parse st) (bgp_attr_parse_lcommunity peer len buf pnt st)"
    "ends_in (\<lambda>(ret, st). plain_parse st) (bgp_attr_parse_med len buf pnt st)"
    "ends_in (\<lambda>(ret, st). plain_parse st) (bgp_attr_parse_local_pref len buf pnt st)"
    "ends_in (\<lambda>(ret, st). plain_parse st) (bgp_attr_parse_origin len buf pnt st)"
  using assms
  by (auto simp: bgp_attr_parse_aspath_def bgp_attr_parse_as4path_def bgp_attr_parse_nexthop_def bgp_attr_parse_community_def
      bgp_attr_parse_ecommunity_def bgp_attr_parse_lcommunity_def bgp_attr_parse_med_def bgp_attr_parse_local_pref_def
      bgp_attr_parse_origin_def Bgp_Attr_Parse.rd_le32_def Let_def intro!: ends_bind ends_intro)

lemma ends_mp_nexthop [ends_intro]: "ends (mp_nexthop_at buf pnt n)"
  by (auto simp: mp_nexthop_at_def intro!: ends_bind ends_intro)

lemma mp_reach_ends:
  assumes "plain_parse st" "unlabelled buf"
  shows "ends_in (\<lambda>(ret, st). plain_parse st) (bgp_attr_parse_mp_reach len buf pnt st)"
    "ends_in (\<lambda>(ret, st). plain_parse st) (bgp_attr_parse_mp_unreach len buf pnt st)"
proof -
  have up: "plain_parse ((upd_attr f st)\<lparr>ap_update := n\<rparr>)" "plain_parse (st\<lparr>ap_withdraw := n\<rparr>)" if "plain_nlri n" for f n
    using that assms(1) by (simp_all add: plain_parse_def upd_attr_def)
  show "ends_in (\<lambda>(ret, st). plain_parse st) (bgp_attr_parse_mp_reach len buf pnt st)"
    "ends_in (\<lambda>(ret, st). plain_parse st) (bgp_attr_parse_mp_unreach len buf pnt st)"
    using assms(1)
    by (auto simp: bgp_attr_parse_mp_reach_def bgp_attr_parse_mp_unreach_def Let_def
        intro!: ends_bind_eq ends_intro up unlabelled_nlri [OF assms(2)])
qed

lemma parse_attr_ends:
  "plain_parse st \<Longrightarrow> unlabelled buf \<Longrightarrow> ends_in (\<lambda>(ret, st). plain_parse st) (parse_attr peer ty len buf pnt st)"
  unfolding parse_attr_def by (simp add: attr_fields_ends mp_reach_ends)

lemma ends_attr_header [ends_intro]: "ends (attr_header buf pnt left)"
  by (auto simp: attr_header_def intro!: ends_bind ends_intro)

lemma attr_loop_ends:
  "plain_parse st \<Longrightarrow> unlabelled buf \<Longrightarrow> ends_in (\<lambda>(ret, st). plain_parse st) (attr_loop peer buf pnt left st)"
proof (induction peer buf pnt left st rule: attr_loop.induct)
  case (1 peer buf pnt left st)
  have turn: "ends_in (\<lambda>(ret, st). plain_parse st) (rbind (parse_attr peer ty len buf i st) (\<lambda>(ret, st1).
        if ret < 0 then Inr (ret, st1) else attr_loop peer buf (i + unat len) (left1 - int (unat len)) st1))"
    if a: "0 < left" "\<not> left < BGP_ATTR_MIN_LEN" "attr_header buf pnt left = Inr (ty, len, i, left1)" "\<not> left1 < int (unat len)"
    for ty len i left1
  proof (rule ends_bind_eq)
    have p: "ends_in (\<lambda>(ret, st). plain_parse st) (parse_attr peer ty len buf i st)" by (rule parse_attr_ends [OF "1.prems"])
    show "ends (parse_attr peer ty len buf i st)" by (rule ends_in_mono [OF p]) simp
    fix x assume x: "parse_attr peer ty len buf i st = Inr x"
    obtain ret st1 where xe: "x = (ret, st1)" by (cases x)
    have "plain_parse st1" using p x by (simp add: xe)
    then show "ends_in (\<lambda>(ret, st). plain_parse st) (case x of (ret, st1) \<Rightarrow>
        if ret < 0 then Inr (ret, st1) else attr_loop peer buf (i + unat len) (left1 - int (unat len)) st1)"
      using "1.IH" [OF _ a(2,3) refl refl refl a(4) x xe [symmetric] _ _ "1.prems"(2)] a(1) by (simp add: xe)
  qed
  show ?case
    unfolding attr_loop.simps [of peer buf pnt left st]
    using turn "1.prems" by (auto intro!: ends_bind_eq [OF ends_attr_header])
qed

lemma ends_munge [ends_intro]: "ends (bgp_attr_munge_as4path peer R at as4)"
  by (auto simp: bgp_attr_munge_as4path_def Let_def intro!: ends_bind ends_intro split: option.split)

lemma attr_parse_ends:
  "plain_parse st \<Longrightarrow> unlabelled buf \<Longrightarrow> ends_in (\<lambda>(ret, st). plain_parse st) (bgp_attr_parse peer buf pnt len st)"
  unfolding bgp_attr_parse_def
  by (rule ends_bind_in [OF attr_loop_ends]) (auto intro!: ends_bind ends_intro split: option.split)

subsection \<open>UPDATE\<close>

lemma ends_attr_done [ends_intro]: "ends (attr_done peer at R)"
  by (auto simp: attr_done_def intro!: ends_bind ends_intro)

lemma ends_update_section [ends_intro]: "ends (update_section buf pkt e)"
  by (auto simp: update_section_def intro!: ends_bind ends_intro)

lemma plain_zero [simp]: "plain_nlri bgp_nlri_zero" "plain_parse (attr_parse_init R)"
  "plain_nlri \<lparr>nl_afi = AFI_IP, nl_safi = SAFI_UNICAST, nl_pos = k, nl_length = n\<rparr>"
  by (auto simp: plain_nlri_def plain_parse_def attr_parse_init_def bgp_nlri_zero_def rib_afi_def AFI_IP_def AFI_IP6_def)

lemma update_attrs_ends:
  "unlabelled buf \<Longrightarrow> ends_in (\<lambda>(ret, st). plain_parse st)
     (if n \<noteq> 0 then bgp_attr_parse peer buf p (int (unat (n :: u16))) (attr_parse_init R) else Inr (0, attr_parse_init R))"
  by (simp add: attr_parse_ends)

lemma ends_cases:
  "(x = None \<Longrightarrow> ends_in Q a) \<Longrightarrow> (\<And>y. x = Some y \<Longrightarrow> ends_in Q (f y)) \<Longrightarrow> ends_in Q (case x of None \<Rightarrow> a | Some y \<Rightarrow> f y)"
  "(\<And>a b. z = (a, b) \<Longrightarrow> ends_in Q (g a b)) \<Longrightarrow> ends_in Q (case z of (a, b) \<Rightarrow> g a b)"
  by (simp_all split: option.split prod.split)

lemma update_msg_ends:
  assumes "tries_ok d" "unlabelled buf"
  shows "ends_in (\<lambda>(ret, d). tries_ok d) (bgp_parse_update_msg bms peer extra buf pkt d)"
proof -
  have afi: "rib_afi AFI_IP" by (simp add: rib_afi_def)
  have routes: "ends_in (\<lambda>(at, d). tries_ok d)
      (update_nlri bms peer extra buf (if e \<noteq> 0 then \<lparr>nl_afi = AFI_IP, nl_safi = SAFI_UNICAST, nl_pos = p, nl_length = e\<rparr> else bgp_nlri_zero)
        (if n \<noteq> 0 then \<lparr>nl_afi = AFI_IP, nl_safi = SAFI_UNICAST, nl_pos = q, nl_length = n\<rparr> else bgp_nlri_zero)
        (ap_update st) (ap_withdraw st) (at, d\<lparr>db_rt := R\<rparr>))" if "plain_parse st" for p q e n st at R
    using that assms(1) by (intro update_nlri_ends) (simp_all add: plain_parse_def afi bgp_nlri_zero_def)
  have behind: "ends_in (\<lambda>(ret, d). tries_ok d) (if ret < 0 then Inr (ret, d\<lparr>db_rt := ap_rt st\<rparr>)
      else rbind (update_nlri bms peer extra buf
          (if e \<noteq> 0 then \<lparr>nl_afi = AFI_IP, nl_safi = SAFI_UNICAST, nl_pos = p, nl_length = e\<rparr> else bgp_nlri_zero)
          (if n \<noteq> 0 then \<lparr>nl_afi = AFI_IP, nl_safi = SAFI_UNICAST, nl_pos = q, nl_length = n\<rparr> else bgp_nlri_zero)
          (ap_update st) (ap_withdraw st) (ap_attr st, d\<lparr>db_rt := ap_rt st\<rparr>)) (\<lambda>(at, d1).
        rbind (attr_done peer at (db_rt d1)) (\<lambda>R. Inr (k, d1\<lparr>db_rt := R\<rparr>))))"
    if "plain_parse st" for ret k :: int and p q e n st
  proof (cases "ret < 0")
    case False
    have "ends_in (\<lambda>(ret, d). tries_ok d) (case y of (at, d1) \<Rightarrow> rbind (attr_done peer at (db_rt d1)) (\<lambda>R. Inr (k, d1\<lparr>db_rt := R\<rparr>)))"
      if "case y of (at, d1) \<Rightarrow> tries_ok d1" for y
      using that by (auto intro: ends_bind [OF ends_attr_done])
    then show ?thesis using False that by (simp only: if_False) (rule ends_bind_in [OF routes]; auto)
  qed (simp add: assms(1))
  show ?thesis
    unfolding bgp_parse_update_msg_def Let_def
    by (intro ends_bind [OF ends_mem(2)] ends_bind [OF ends_mem(5)] ends_bind [OF ends_update_section] ends_cases
        ends_bind_in [OF update_attrs_ends [OF assms(2)]] behind) (simp_all add: assms(1))
qed

subsection \<open>OPEN\<close>

lemma ends_marker [ends_intro]: "ends (marker_from buf i n)" "ends (bgp_marker_check buf i n)"
proof -
  show m: "ends (marker_from buf i n)" for n
    by (induction buf i n rule: marker_from.induct) (auto intro!: ends_bind_eq ends_intro)
  show "ends (bgp_marker_check buf i n)" by (simp add: bgp_marker_check_def m)
qed

lemma ends_capability [ends_intro]:
  "ends (reply_copy buf opt opt_len reply)" "ends (parse_capability online buf opt opt_len ptr cap_type cap_len s)"
  by (auto simp: reply_copy_def parse_capability_def intro!: ends_bind ends_intro)

lemma ends_cap_loop [ends_intro]: "ends (cap_loop online buf opt opt_len ptr left s)"
  by (induction online buf opt opt_len ptr left s rule: cap_loop.induct)
    (subst cap_loop.simps, auto intro!: ends_bind_eq ends_intro)

lemma ends_opt_loop [ends_intro]: "ends (opt_loop online buf optlen ptr len s)"
  by (induction online buf optlen ptr len s rule: opt_loop.induct)
    (subst opt_loop.simps, auto intro!: ends_bind_eq ends_intro)

lemma ends_open [ends_intro]: "ends (open_options p1 buf pkt online holdtime ident optlen)"
  "ends (bgp_write_open_msg cfg cp peer)" "ends (open_finish cfg now online remote_as optlen s)"
  by (auto simp: open_options_def bgp_write_open_msg_def open_finish_def Let_def intro!: ends_bind ends_intro split: option.split)

lemma ends_open_msg [ends_intro]: "ends (bgp_parse_open_msg cfg peer buf pkt now online)"
  "ends (bgp_parse_notification_msg peer buf pkt shutdown_msglen)"
  by (auto simp: bgp_parse_open_msg_def bgp_parse_notification_msg_def Let_def intro!: ends_bind ends_intro)

section \<open>The session\<close>

fun out_session :: "msg_outcome \<Rightarrow> session" where
  "out_session (Msg_Return ret s) = s"
| "out_session (Msg_Next ptr s) = s"

lemma dispatch_ends:
  assumes "tries_ok (ss_db s)" "unlabelled (pe_buf (ss_peer s))"
  shows "ends_in (\<lambda>out. tries_ok (ss_db (out_session out))) (msg_dispatch cfg bms now online ptr len s)"
  unfolding msg_dispatch_def Let_def
  by (auto simp: assms intro!: ends_bind [OF ends_mem(1)] ends_bind [OF ends_open_msg(1)] ends_bind [OF ends_open_msg(2)]
      ends_bind_in [OF update_msg_ends])

lemma step_ends:
  assumes "tries_ok (ss_db s)" "unlabelled (pe_buf (ss_peer s))"
  shows "ends_in (\<lambda>out. tries_ok (ss_db (out_session out))) (msg_step cfg bms now online ptr s)"
  unfolding msg_step_def Let_def
  by (auto simp: assms intro!: ends_bind ends_intro dispatch_ends split: option.split)

text \<open>The headers the loop meets have lengths above 0: those from \<open>ptr\<close> on, \<open>left\<close> bytes being
  there.\<close>

function positive_frames :: "byte list \<Rightarrow> nat \<Rightarrow> nat \<Rightarrow> bool" where
  "positive_frames buf ptr left =
     (if left < 19 then True
      else case rd_be16 buf (ptr + 16) of
        Inl e \<Rightarrow> True
      | Inr len \<Rightarrow> if left < unat len then True else if len = 0 then False
          else positive_frames buf (ptr + unat len) (left - unat len))"
  by (pat_completeness, elim Pair_inject, simp only:)
termination
  by (relation "measure (\<lambda>(_, _, left). left)") (auto simp: unat_gt_0)

declare positive_frames.simps [simp del]

lemma loop_ends:
  "positive_frames buf ptr left \<Longrightarrow> pe_buf (ss_peer s) = buf \<Longrightarrow> unat (pe_msglen (ss_peer s)) = left \<Longrightarrow>
   unlabelled buf \<Longrightarrow> tries_ok (ss_db s) \<Longrightarrow>
   \<exists>r. msg_loop cfg bms now online ptr s = Some r \<and> ends_in (\<lambda>(ret, s1). tries_ok (ss_db s1)) r"
proof (induction buf ptr left arbitrary: s rule: positive_frames.induct)
  case (1 buf ptr left)
  have step: "ends_in (\<lambda>out. tries_ok (ss_db (out_session out))) (msg_step cfg bms now online ptr s)"
    using step_ends "1.prems" by simp
  note loop = msg_loop.simps [of cfg bms now online ptr s]
  show ?case
  proof (cases "pe_msglen (ss_peer s) = 0 \<or> (\<nexists>ptr1 s1. msg_step cfg bms now online ptr s = Inr (Msg_Next ptr1 s1))")
    case True
    then show ?thesis
      using step "1.prems"(5) unfolding loop
      by (cases "msg_step cfg bms now online ptr s") (auto split: msg_outcome.split)
  next
    case False
    then obtain ptr1 s1 where st: "msg_step cfg bms now online ptr s = Inr (Msg_Next ptr1 s1)" by blast
    from st obtain len where len: "rd_be16 buf (ptr + 16) = Inr len" "\<not> left < 19" "ptr1 = ptr + unat len"
      "unat (pe_msglen (ss_peer s1)) = left - unat len" "\<not> left < unat len" "pe_buf (ss_peer s1) = buf"
      using "1.prems"(2,3) by (elim step_next) (simp add: not_less)
    have "len \<noteq> 0" and pos: "positive_frames buf (ptr + unat len) (left - unat len)"
      using "1.prems"(1) [unfolded positive_frames.simps [of buf ptr left]] len by (simp_all split: if_split_asm)
    moreover have "tries_ok (ss_db s1)" using step st by simp
    ultimately have "\<exists>r. msg_loop cfg bms now online (ptr + unat len) s1 = Some r \<and> ends_in (\<lambda>(ret, s1). tries_ok (ss_db s1)) r"
      using "1.IH" [OF len(2) len(1) len(5) _ pos len(6) len(4) "1.prems"(4)] by blast
    then show ?thesis using st len(3) False unfolding loop by simp
  qed
qed

text \<open>C14: On every buffer in which no header the loop meets has length 0 and nowhere the bytes of AFI 1 or 2
  stand before those of SAFI 4 or 128, so that no labelled or VPN family is named, and on every RIB whose tables
  are tries, the session loop ends, whatever the messages contain: with a return code, the tables being tries
  again, or with a fault, such as an access outside the buffer, but never in an endless walk over the pointers of a
  table.\<close>

theorem bgp_parse_msg_returns:
  assumes "positive_frames (pe_buf (ss_peer s)) 0 (unat (pe_msglen (ss_peer s)))"
    and "unlabelled (pe_buf (ss_peer s))" and "tries_ok (ss_db s)"
  shows "(\<exists>ret s1. bgp_parse_msg cfg bms now online s = Some (Inr (ret, s1)) \<and> tries_ok (ss_db s1)) \<or>
    (\<exists>e. bgp_parse_msg cfg bms now online s = Some (Inl e) \<and> e \<noteq> No_Fuel)"
proof -
  obtain r where r: "msg_loop cfg bms now online 0 s = Some r" "ends_in (\<lambda>(ret, s1). tries_ok (ss_db s1)) r"
    using loop_ends [OF assms(1) refl refl assms(2,3)] by blast
  then show ?thesis using assms(3) by (cases r) (auto simp: bgp_parse_msg_def)
qed

lemma no_label_bytes: "4 \<notin> set buf \<Longrightarrow> 128 \<notin> set buf \<Longrightarrow> unlabelled buf"
  by (auto simp: unlabelled_def SAFI_MPLS_LABEL_def SAFI_MPLS_VPN_def rd8_eq_Inr dest: nth_mem)

text \<open>An UPDATE that withdraws 10.0.0.0/8, with the first half of a header behind it.\<close>

definition ex_withdraw :: "byte list" where
  "ex_withdraw = replicate 16 0xFF @ [0, 25, 2, 0, 2, 8, 10, 0, 0] @ replicate 8 0xFF"

theorem bgp_parse_msg_returns_witness:
  "positive_frames ex_withdraw 0 33 \<and>
   ((\<exists>ret s1. bgp_parse_msg ex_config ex_daemon 7 True (ex_session Established ex_withdraw) = Some (Inr (ret, s1)) \<and> tries_ok (ss_db s1)) \<or>
    (\<exists>e. bgp_parse_msg ex_config ex_daemon 7 True (ex_session Established ex_withdraw) = Some (Inl e) \<and> e \<noteq> No_Fuel))"
proof -
  have len: "rd_be16 ex_withdraw (0 + 16) = Inr 25" by (simp add: ex_withdraw_def rd_be16_def rd8_def nth_append be16_def)
  have "positive_frames ex_withdraw 25 8" by (subst positive_frames.simps) simp
  then have frames: "positive_frames ex_withdraw 0 33" by (subst positive_frames.simps) (simp only: len, simp)
  have "length ex_withdraw = 33" "unlabelled ex_withdraw" by (auto simp: ex_withdraw_def intro: no_label_bytes)
  then show ?thesis
    using frames bgp_parse_msg_returns [of "ex_session Established ex_withdraw" ex_config ex_daemon 7 True] tries_ok_init by simp
qed

end
