(* ===== verification/Bmp_Msg.thy ===== *)
theory Bmp_Msg
  imports Bgp_Msg
begin

text \<open>
  The BGP Monitoring Protocol: \<^verbatim>\<open>bmp_process_packet\<close> and the handlers of \<^verbatim>\<open>src/src/bmp/bmp_msg.c\<close> with
  the helpers of \<^verbatim>\<open>src/src/bmp/bmp_util.c\<close>. A router reports on its BGP peers: their OPEN messages when a
  session comes up, their UPDATE messages as they arrive, statistics, and the end of a session.
  Pointers into the receive buffer are offsets into \<open>buf\<close>; a cursor is such a pointer with the
  number of bytes left, \<^verbatim>\<open>pkt_remaining_len\<close>. Time stamps are left out.
\<close>

section \<open>Data\<close>

definition BMP_V3 :: byte where "BMP_V3 = 3"
definition BMP_MSG_ROUTE_MONITOR :: byte where "BMP_MSG_ROUTE_MONITOR = 0"
definition BMP_MSG_STATS :: byte where "BMP_MSG_STATS = 1"
definition BMP_MSG_PEER_DOWN :: byte where "BMP_MSG_PEER_DOWN = 2"
definition BMP_MSG_PEER_UP :: byte where "BMP_MSG_PEER_UP = 3"
definition BMP_MSG_INIT :: byte where "BMP_MSG_INIT = 4"
definition BMP_MSG_TERM :: byte where "BMP_MSG_TERM = 5"
definition BMP_TERM_INFO_REASON :: u16 where "BMP_TERM_INFO_REASON = 1"
definition BMP_PEER_DOWN_LOC_CODE :: byte where "BMP_PEER_DOWN_LOC_CODE = 2"

text \<open>The sizes of the packed headers.\<close>

definition BMP_COMMON_HDR :: nat where "BMP_COMMON_HDR = 6"
definition BMP_PEER_HDR :: nat where "BMP_PEER_HDR = 42"
definition BMP_TLV_HDR :: nat where "BMP_TLV_HDR = 4"
definition BMP_STATS_HDR :: nat where "BMP_STATS_HDR = 4"
definition BMP_PEER_DOWN_HDR :: nat where "BMP_PEER_DOWN_HDR = 1"
definition BMP_PEER_UP_HDR :: nat where "BMP_PEER_UP_HDR = 20"

type_synonym cursor = "nat \<times> nat"

text \<open>\<^verbatim>\<open>struct host_addr\<close> as its twenty bytes: the family, three bytes of padding, and the union. Peers are
  compared by \<^verbatim>\<open>memcmp\<close> over all of them.\<close>

type_synonym addr_image = "byte list"

record bmp_data =
  bd_family :: byte
  bd_peer_ip :: addr_image
  bd_bgp_id :: "byte list"
  bd_peer_asn :: u32
  bd_peer_type :: byte
  bd_is_post :: byte
  bd_is_2b_asn :: byte

text \<open>The fields of \<^verbatim>\<open>struct bmp_peer_hdr\<close> the code reads, addresses as they stand in the packet.\<close>

record bmp_peer_hdr =
  ph_type :: byte
  ph_flags :: byte
  ph_addr :: "byte list"
  ph_asn :: u32
  ph_bgp_id :: "byte list"

text \<open>What is handed to \<^verbatim>\<open>bmp_log_msg\<close>, one event per call, with a log set up; the local address of
  \<^verbatim>\<open>struct bmp_log_peer_up\<close> is left out. The type fields of information elements are those the host loads
  without \<^verbatim>\<open>ntohs\<close>.\<close>

datatype bmp_event =
    Ev_Init "(u16 \<times> byte list) option"
  | Ev_Term "(u16 \<times> byte list \<times> u16) option"
  | Ev_Peer_Up bmp_data u16 u16
  | Ev_Peer_Down bmp_data byte "u16 option"
  | Ev_Stats bmp_data u16 u64 bool

text \<open>A router: \<open>bm_self\<close> is \<^verbatim>\<open>bmpp->self\<close>, \<open>bm_peers\<close> the search tree \<^verbatim>\<open>bmpp->bgp_peers\<close> by address,
  \<open>bm_next\<close> an address that \<^verbatim>\<open>malloc\<close> has not given out.\<close>

record bmp_state =
  bm_self :: bgp_peer
  bm_peers :: "(addr_image \<times> bgp_peer) list"
  bm_db :: bgp_db
  bm_log :: "bmp_event list"
  bm_next :: addr

definition bmp_log :: "bmp_event \<Rightarrow> bmp_state \<Rightarrow> bmp_state" where
  "bmp_log ev s = s\<lparr>bm_log := bm_log s @ [ev]\<rparr>"

section \<open>Cursors\<close>

definition bmp_get_and_check_length :: "cursor \<Rightarrow> nat \<Rightarrow> nat option \<times> cursor" where
  "bmp_get_and_check_length c len =
     (if len \<le> snd c then (Some (fst c), (fst c + len, snd c - len)) else (None, c))"

definition bmp_jump_offset :: "cursor \<Rightarrow> nat \<Rightarrow> cursor" where
  "bmp_jump_offset c offset = (if offset \<le> snd c then (fst c + offset, snd c - offset) else c)"

text \<open>The length of a BGP message, or \<^verbatim>\<open>ERR\<close>, as the \<^verbatim>\<open>u_int32_t\<close> it is passed as.\<close>

definition skip_bgp :: "cursor \<Rightarrow> int \<Rightarrow> cursor" where
  "skip_bgp c ret = snd (bmp_get_and_check_length c (unat (word_of_int ret :: u32)))"

definition bmp_packet_adj_offset :: "byte list \<Rightarrow> nat \<Rightarrow> nat \<Rightarrow> nat \<Rightarrow> (nat \<times> byte list) res" where
  "bmp_packet_adj_offset packet buf_len recv_len remaining_len =
     (if buf_len < recv_len \<or> buf_len \<le> remaining_len \<or> recv_len < remaining_len then Inr (0, packet)
      else rbind (rd_mem packet (recv_len - remaining_len) remaining_len) (\<lambda>bs.
        if BGP_BUFFER_SIZE < remaining_len then Inl Out_Of_Bounds
        else rbind (wr_mem packet 0 bs) (\<lambda>packet1. Inr (remaining_len, packet1))))"

section \<open>Headers\<close>

definition rd_host16 :: "byte list \<Rightarrow> nat \<Rightarrow> u16 res" where
  "rd_host16 buf i = rbind (rd_be16 buf i) (\<lambda>x. Inr (bswap16 x))"

definition rd_peer_hdr :: "byte list \<Rightarrow> nat \<Rightarrow> bmp_peer_hdr res" where
  "rd_peer_hdr buf i =
     rbind (rd8 buf i) (\<lambda>ty. rbind (rd8 buf (i + 1)) (\<lambda>flags. rbind (rd_mem buf (i + 10) 16) (\<lambda>addr.
     rbind (rd_be32 buf (i + 26)) (\<lambda>asn. rbind (rd_mem buf (i + 30) 4) (\<lambda>bgp_id.
       Inr \<lparr>ph_type = ty, ph_flags = flags, ph_addr = addr, ph_asn = asn, ph_bgp_id = bgp_id\<rparr>)))))"

text \<open>The flag is 0 or 128 and never 1.\<close>

definition bmp_peer_hdr_get_v_flag :: "bmp_peer_hdr \<Rightarrow> byte" where
  "bmp_peer_hdr_get_v_flag h =
     (let version = ph_flags h AND 0x80 in if version = 0 then AF_INET else if version = 1 then AF_INET6 else 0)"

text \<open>Only what the family needs is written; \<open>a\<close> is what the structure held before.\<close>

definition hdr_get_ip :: "byte list \<Rightarrow> addr_image \<Rightarrow> byte \<Rightarrow> addr_image" where
  "hdr_get_ip addr16 a family =
     (let a1 = a[0 := family] in
      if family = AF_INET then take 4 a1 @ drop 12 addr16 @ drop 8 a1
      else if family = AF_INET6 then take 4 a1 @ addr16
      else replicate 20 0)"

definition bmp_peer_hdr_get_peer_ip :: "bmp_peer_hdr \<Rightarrow> addr_image \<Rightarrow> byte \<Rightarrow> addr_image" where
  "bmp_peer_hdr_get_peer_ip h a family = hdr_get_ip (ph_addr h) a family"

definition bmp_peer_hdr_get_l_flag :: "bmp_peer_hdr \<Rightarrow> byte" where
  "bmp_peer_hdr_get_l_flag h = ph_flags h AND 0x40"

definition bmp_peer_hdr_get_a_flag :: "bmp_peer_hdr \<Rightarrow> byte" where
  "bmp_peer_hdr_get_a_flag h = ph_flags h AND 0x20"

text \<open>\<^verbatim>\<open>bdata\<close> after the getters; \<open>junk\<close> is what \<^verbatim>\<open>bdata.peer_ip\<close> held before, zero where the handler
  clears it.\<close>

definition peer_data :: "addr_image \<Rightarrow> bool \<Rightarrow> bmp_peer_hdr \<Rightarrow> bmp_data" where
  "peer_data junk a_flag h =
     (let family = bmp_peer_hdr_get_v_flag h in
      \<lparr>bd_family = family, bd_peer_ip = bmp_peer_hdr_get_peer_ip h junk family, bd_bgp_id = ph_bgp_id h,
       bd_peer_asn = ph_asn h, bd_peer_type = ph_type h, bd_is_post = bmp_peer_hdr_get_l_flag h,
       bd_is_2b_asn = (if a_flag then bmp_peer_hdr_get_a_flag h else 0)\<rparr>)"

definition addr_image_zero :: addr_image where
  "addr_image_zero = replicate 20 0"

text \<open>\<^verbatim>\<open>bgp_msg_data_set_data_bmp\<close> into the extra data of a message.\<close>

definition bgp_msg_data_set_data_bmp :: "bmp_data \<Rightarrow> bgp_msg_extra" where
  "bgp_msg_data_set_data_bmp bd = \<lparr>ed_id = BGP_MSG_EXTRA_DATA_BMP, ed_data = [bd_is_post bd, bd_is_2b_asn bd]\<rparr>"

section \<open>Initiation and termination\<close>

text \<open>\<^verbatim>\<open>while (bmp_hdr_len)\<close>; the length of the message is reduced modulo \<open>2 ^ 32\<close>.\<close>

function init_tlvs :: "byte list \<Rightarrow> u32 \<Rightarrow> cursor \<Rightarrow> bmp_state \<Rightarrow> (cursor \<times> bmp_state) res" where
  "init_tlvs buf hdr_len c s =
     (if hdr_len = 0 then Inr (c, s)
      else case bmp_get_and_check_length c BMP_TLV_HDR of
        (None, c1) \<Rightarrow> Inr (c1, s)
      | (Some i, c1) \<Rightarrow>
          rbind (rd_host16 buf i) (\<lambda>ty. rbind (rd_be16 buf (i + 2)) (\<lambda>len.
          case bmp_get_and_check_length c1 (unat len) of
            (None, c2) \<Rightarrow> Inr (c2, s)
          | (Some j, c2) \<Rightarrow>
              rbind (rd_mem buf j (unat len)) (\<lambda>val.
                init_tlvs buf (hdr_len - (ucast len + 4)) c2 (bmp_log (Ev_Init (Some (ty, val))) s)))))"
  by (pat_completeness, elim Pair_inject, simp only:)
termination
  by (relation "measure (\<lambda>(_, _, c, _). snd c)") (auto simp: bmp_get_and_check_length_def BMP_TLV_HDR_def split: if_split_asm)

declare init_tlvs.simps [simp del]

definition bmp_process_msg_init :: "byte list \<Rightarrow> u32 \<Rightarrow> cursor \<Rightarrow> bmp_state \<Rightarrow> (cursor \<times> bmp_state) res" where
  "bmp_process_msg_init buf hdr_len c s =
     (if \<not> misc_db (ptype (bm_self s)) then Inr (c, s) else init_tlvs buf (hdr_len - 6) c (bmp_log (Ev_Init None) s))"

text \<open>The code of the reason is read behind the information element, into which it belongs, and from
  NULL where nothing is left.\<close>

definition bmp_term_hdr_get_reason_type :: "byte list \<Rightarrow> cursor \<Rightarrow> (u16 \<times> cursor) res" where
  "bmp_term_hdr_get_reason_type buf c =
     (case bmp_get_and_check_length c 2 of
        (None, c1) \<Rightarrow> Inl Null_Deref
      | (Some i, c1) \<Rightarrow> rbind (rd_be16 buf i) (\<lambda>x. Inr (x, c1)))"

lemma reason_left: "bmp_term_hdr_get_reason_type buf c = Inr (x, c1) \<Longrightarrow> snd c1 \<le> snd c"
  by (auto simp: bmp_term_hdr_get_reason_type_def bmp_get_and_check_length_def split: if_split_asm)

function term_tlvs :: "byte list \<Rightarrow> u32 \<Rightarrow> u16 \<Rightarrow> cursor \<Rightarrow> bmp_state \<Rightarrow> (cursor \<times> bmp_state) res" where
  "term_tlvs buf hdr_len reason c s =
     (if hdr_len = 0 then Inr (c, s)
      else case bmp_get_and_check_length c BMP_TLV_HDR of
        (None, c1) \<Rightarrow> Inr (c1, s)
      | (Some i, c1) \<Rightarrow>
          rbind (rd_host16 buf i) (\<lambda>ty. rbind (rd_be16 buf (i + 2)) (\<lambda>len.
          case bmp_get_and_check_length c1 (unat len) of
            (None, c2) \<Rightarrow> Inr (c2, s)
          | (Some j, c2) \<Rightarrow>
              rbind (rd_mem buf j (unat len)) (\<lambda>val.
              rbind (if ty = BMP_TERM_INFO_REASON \<and> len = 2 then bmp_term_hdr_get_reason_type buf c2 else Inr (reason, c2)) (\<lambda>(reason1, c3).
                term_tlvs buf (hdr_len - (ucast len + 4)) reason1 c3 (bmp_log (Ev_Term (Some (ty, val, reason1))) s))))))"
  by (pat_completeness, elim Pair_inject, simp only:)
termination
  by (relation "measure (\<lambda>(_, _, _, c, _). snd c)")
    (auto simp: bmp_get_and_check_length_def BMP_TLV_HDR_def dest!: reason_left split: if_split_asm)

declare term_tlvs.simps [simp del]

definition bmp_process_msg_term :: "byte list \<Rightarrow> u32 \<Rightarrow> cursor \<Rightarrow> bmp_state \<Rightarrow> (cursor \<times> bmp_state) res" where
  "bmp_process_msg_term buf hdr_len c s =
     (if \<not> misc_db (ptype (bm_self s)) then Inr (c, s) else term_tlvs buf (hdr_len - 6) 0 c (bmp_log (Ev_Term None) s))"

section \<open>Peers\<close>

text \<open>\<^verbatim>\<open>pm_tfind\<close>, \<^verbatim>\<open>pm_tsearch\<close> and \<^verbatim>\<open>pm_tdelete\<close> with the comparison of addresses: the tree holds one peer
  per address. A peer that is already there is kept as it is.\<close>

definition pm_tfind :: "addr_image \<Rightarrow> bmp_state \<Rightarrow> bgp_peer option" where
  "pm_tfind a s = map_of (bm_peers s) a"

definition pm_tsearch :: "addr_image \<Rightarrow> bgp_peer \<Rightarrow> bmp_state \<Rightarrow> bmp_state" where
  "pm_tsearch a p s =
     (if pm_tfind a s = None then s\<lparr>bm_peers := (a, p\<lparr>pe_self := bm_next s\<rparr>) # bm_peers s, bm_next := bm_next s + 1\<rparr> else s)"

definition pm_tdelete :: "addr_image \<Rightarrow> bmp_state \<Rightarrow> bmp_state" where
  "pm_tdelete a s = s\<lparr>bm_peers := filter (\<lambda>(b, p). b \<noteq> a) (bm_peers s)\<rparr>"

text \<open>A \<^verbatim>\<open>struct bgp_peer\<close> after \<^verbatim>\<open>memset\<close>; there are settings and tables for its type too.\<close>

definition bgp_peer_zero :: bgp_peer where
  "bgp_peer_zero = \<lparr>has_misc_db = True, has_routing_db = True, pe_self = 0, pe_fd = 0, pe_status = 0, pe_myas = 0, pe_as = 0,
     pe_ht = 0, pe_last_keepalive = 0, pe_id = host_addr_zero, pe_cap_mp = False, pe_cap_4as = None, pe_cap_add_paths = False,
     pe_msglen = 0, pe_buf = [], pe_truncated_len = 0\<rparr>"

definition bmp_sync_loc_rem_peers :: "bgp_peer \<Rightarrow> bgp_peer \<Rightarrow> addr_image \<Rightarrow> bgp_peer" where
  "bmp_sync_loc_rem_peers loc rem rem_addr =
     rem\<lparr>pe_cap_4as := (if pe_cap_4as loc = None \<or> pe_cap_4as rem = None then None else pe_cap_4as rem),
         pe_cap_add_paths := (pe_cap_add_paths loc \<and> pe_cap_add_paths rem),
         pe_id := \<lparr>ha_family = rem_addr ! 0, ha_address = drop 4 rem_addr\<rparr>\<rparr>"

text \<open>The descriptor that \<^verbatim>\<open>bmp_route_info_modulo_pathid\<close> reads for a peer of the router; up to that it is
  \<^verbatim>\<open>bgp_route_info_modulo_pathid\<close>.\<close>

definition bmp_fd_peer :: "bmp_state \<Rightarrow> bgp_peer \<Rightarrow> bgp_peer" where
  "bmp_fd_peer s p = p\<lparr>pe_fd := (if pe_fd p \<noteq> 0 then pe_fd p else pe_fd (bm_self s))\<rparr>"

definition bmp_process_msg_peer_up :: "bgp_config \<Rightarrow> byte list \<Rightarrow> cursor \<Rightarrow> bmp_state \<Rightarrow> (cursor \<times> bmp_state) res" where
  "bmp_process_msg_peer_up cfg buf c s =
     (if \<not> misc_db (ptype (bm_self s)) then Inr (c, s)
      else case bmp_get_and_check_length c BMP_PEER_HDR of
        (None, c1) \<Rightarrow> Inr (c1, s)
      | (Some i, c1) \<Rightarrow>
          (case bmp_get_and_check_length c1 BMP_PEER_UP_HDR of
             (None, c2) \<Rightarrow> Inr (c2, s)
           | (Some j, c2) \<Rightarrow>
               rbind (rd_peer_hdr buf i) (\<lambda>h.
               let bd = peer_data addr_image_zero True h in
               if bd_family bd = 0 then Inr (c2, s)
               else
                 rbind (rd_be16 buf (j + 16)) (\<lambda>loc_port. rbind (rd_be16 buf (j + 18)) (\<lambda>rem_port.
                 rbind (bgp_parse_open_msg cfg bgp_peer_zero buf (fst c2) 0 False) (\<lambda>(ret1, loc, sent1).
                 let c3 = skip_bgp c2 ret1 in
                 rbind (bgp_parse_open_msg cfg bgp_peer_zero buf (fst c3) 0 False) (\<lambda>(ret2, rem, sent2).
                 let c4 = skip_bgp c3 ret2;
                     s1 = pm_tsearch (bd_peer_ip bd) (bmp_sync_loc_rem_peers loc rem (bd_peer_ip bd)) s
                 in Inr (c4, bmp_log (Ev_Peer_Up bd loc_port rem_port) s1))))))))"

definition bmp_peer_down_hdr_get_loc_code :: "byte list \<Rightarrow> cursor \<Rightarrow> (u16 \<times> cursor) res" where
  "bmp_peer_down_hdr_get_loc_code buf c =
     (case bmp_get_and_check_length c 2 of
        (None, c1) \<Rightarrow> Inl Null_Deref
      | (Some i, c1) \<Rightarrow> rbind (rd_be16 buf i) (\<lambda>x. Inr (x, c1)))"

definition bmp_process_msg_peer_down :: "bgp_daemon \<Rightarrow> byte list \<Rightarrow> cursor \<Rightarrow> bmp_state \<Rightarrow> (cursor \<times> bmp_state) res" where
  "bmp_process_msg_peer_down bms buf c s =
     (if \<not> misc_db (ptype (bm_self s)) then Inr (c, s)
      else case bmp_get_and_check_length c BMP_PEER_HDR of
        (None, c1) \<Rightarrow> Inr (c1, s)
      | (Some i, c1) \<Rightarrow>
          (case bmp_get_and_check_length c1 BMP_PEER_DOWN_HDR of
             (None, c2) \<Rightarrow> Inr (c2, s)
           | (Some j, c2) \<Rightarrow>
               rbind (rd_peer_hdr buf i) (\<lambda>h.
               let bd = peer_data addr_image_zero False h in
               if bd_family bd = 0 then Inr (c2, s)
               else
                 rbind (rd8 buf j) (\<lambda>reason.
                 rbind (if reason = BMP_PEER_DOWN_LOC_CODE then rbind (bmp_peer_down_hdr_get_loc_code buf c2) (\<lambda>(x, c3). Inr (Some x, c3))
                        else Inr (None, c2)) (\<lambda>(code, c3).
                 let s1 = bmp_log (Ev_Peer_Down bd reason code) s in
                 case pm_tfind (bd_peer_ip bd) s1 of
                   None \<Rightarrow> Inr (c3, s1)
                 | Some p \<Rightarrow>
                     rbind (bgp_peer_info_delete bms (bmp_fd_peer s1 p) (bm_db s1)) (\<lambda>d.
                       Inr (c3, pm_tdelete (bd_peer_ip bd) (s1\<lparr>bm_db := d\<rparr>))))))))"

section \<open>Routes\<close>

text \<open>\<^verbatim>\<open>bdata\<close> is not cleared here: \<open>junk\<close> is what the stack holds in the place of \<^verbatim>\<open>bdata.peer_ip\<close>.\<close>

definition bmp_process_msg_route_monitor :: "bgp_daemon \<Rightarrow> addr_image \<Rightarrow> byte list \<Rightarrow> cursor \<Rightarrow> bmp_state \<Rightarrow> (cursor \<times> bmp_state) res" where
  "bmp_process_msg_route_monitor bms junk buf c s =
     (if \<not> misc_db (ptype (bm_self s)) then Inr (c, s)
      else case bmp_get_and_check_length c BMP_PEER_HDR of
        (None, c1) \<Rightarrow> Inr (c1, s)
      | (Some i, c1) \<Rightarrow>
          rbind (rd_peer_hdr buf i) (\<lambda>h.
          let bd = peer_data junk True h in
          if bd_family bd = 0 then Inr (c1, s)
          else case pm_tfind (bd_peer_ip bd) s of
            None \<Rightarrow> Inr (c1, s)
          | Some p \<Rightarrow>
              rbind (bgp_parse_update_msg bms (bmp_fd_peer s p) (bgp_msg_data_set_data_bmp bd) buf (fst c1) (bm_db s)) (\<lambda>(ret, d).
                Inr (skip_bgp c1 ret, s\<lparr>bm_db := d\<rparr>))))"

section \<open>Statistics\<close>

definition bmp_stats_cnt_get_data32 :: "byte list \<Rightarrow> cursor \<Rightarrow> (u32 \<times> cursor) res" where
  "bmp_stats_cnt_get_data32 buf c =
     (case bmp_get_and_check_length c 4 of
        (None, c1) \<Rightarrow> Inl Null_Deref
      | (Some i, c1) \<Rightarrow> rbind (rd_be32 buf i) (\<lambda>x. Inr (x, c1)))"

text \<open>With \<^verbatim>\<open>pm_ntohll\<close> of \<^verbatim>\<open>src/src/addr.c\<close>.\<close>

definition bmp_stats_cnt_get_data64 :: "byte list \<Rightarrow> cursor \<Rightarrow> (u64 \<times> cursor) res" where
  "bmp_stats_cnt_get_data64 buf c =
     (case bmp_get_and_check_length c 8 of
        (None, c1) \<Rightarrow> Inl Null_Deref
      | (Some i, c1) \<Rightarrow> rbind (rd_be32 buf i) (\<lambda>hi. rbind (rd_be32 buf (i + 4)) (\<lambda>lo.
          Inr (push_bit 32 (ucast hi) OR ucast lo, c1))))"

text \<open>The switch on the type: the counter, whether it was read, and the cursor.\<close>

definition stats_data :: "byte list \<Rightarrow> u16 \<Rightarrow> u16 \<Rightarrow> cursor \<Rightarrow> (u64 \<times> bool \<times> cursor) res" where
  "stats_data buf ty len c =
     (let get32 = rbind (bmp_stats_cnt_get_data32 buf c) (\<lambda>(x, c1). Inr (ucast x, True, c1));
          get64 = rbind (bmp_stats_cnt_get_data64 buf c) (\<lambda>(x, c1). Inr (x, True, c1))
      in if ty \<le> 6 then (if len = 4 then get32 else Inr (0, True, c))
         else if ty \<le> 8 then (if len = 8 then get64 else Inr (0, True, c))
         else if len = 4 then get32
         else if len = 8 then get64
         else Inr (0, False, snd (bmp_get_and_check_length c (unat len))))"

function stats_loop :: "byte list \<Rightarrow> bmp_data \<Rightarrow> nat \<Rightarrow> cursor \<Rightarrow> bmp_state \<Rightarrow> (cursor \<times> bmp_state) res" where
  "stats_loop buf bd n c s =
     (if n = 0 then Inr (c, s)
      else case bmp_get_and_check_length c BMP_TLV_HDR of
        (None, c1) \<Rightarrow> Inr (c1, s)
      | (Some i, c1) \<Rightarrow>
          rbind (rd_be16 buf i) (\<lambda>ty. rbind (rd_be16 buf (i + 2)) (\<lambda>len.
          rbind (stats_data buf ty len c1) (\<lambda>(x, got, c2).
            stats_loop buf bd (n - 1) c2 (bmp_log (Ev_Stats bd ty x got) s)))))"
  by (pat_completeness, elim Pair_inject, simp only:)
termination
  by (relation "measure (\<lambda>(_, _, n, _, _). n)") simp_all

declare stats_loop.simps [simp del]

definition bmp_process_msg_stats :: "byte list \<Rightarrow> cursor \<Rightarrow> bmp_state \<Rightarrow> (cursor \<times> bmp_state) res" where
  "bmp_process_msg_stats buf c s =
     (if \<not> misc_db (ptype (bm_self s)) then Inr (c, s)
      else case bmp_get_and_check_length c BMP_PEER_HDR of
        (None, c1) \<Rightarrow> Inr (c1, s)
      | (Some i, c1) \<Rightarrow>
          (case bmp_get_and_check_length c1 BMP_STATS_HDR of
             (None, c2) \<Rightarrow> Inr (c2, s)
           | (Some j, c2) \<Rightarrow>
               rbind (rd_peer_hdr buf i) (\<lambda>h. rbind (rd_be32 buf j) (\<lambda>count.
               let bd = peer_data addr_image_zero False h in
               if bd_family bd = 0 then Inr (c2, s) else stats_loop buf bd (unat count) c2 s))))"

section \<open>Packets\<close>

definition bmp_dispatch :: "bgp_config \<Rightarrow> bgp_daemon \<Rightarrow> (nat \<Rightarrow> addr_image) \<Rightarrow> byte list \<Rightarrow> byte \<Rightarrow> u32 \<Rightarrow> cursor \<Rightarrow> bmp_state \<Rightarrow>
    (cursor \<times> bmp_state) res" where
  "bmp_dispatch cfg bms junk buf ty msg_len c s =
     (if ty = BMP_MSG_ROUTE_MONITOR then bmp_process_msg_route_monitor bms (junk (fst c)) buf c s
      else if ty = BMP_MSG_STATS then bmp_process_msg_stats buf c s
      else if ty = BMP_MSG_PEER_DOWN then bmp_process_msg_peer_down bms buf c s
      else if ty = BMP_MSG_PEER_UP then bmp_process_msg_peer_up cfg buf c s
      else if ty = BMP_MSG_INIT then bmp_process_msg_init buf msg_len c s
      else if ty = BMP_MSG_TERM then bmp_process_msg_term buf msg_len c s
      else Inr (c, s))"

subsection \<open>No handler gives bytes back\<close>

lemma get_left: "bmp_get_and_check_length c n = (x, c1) \<Longrightarrow> snd c1 \<le> snd c"
  by (auto simp: bmp_get_and_check_length_def split: if_split_asm)

lemma skip_left [simp]: "snd (skip_bgp c ret) \<le> snd c"
  by (simp add: skip_bgp_def bmp_get_and_check_length_def)

lemma init_tlvs_left: "init_tlvs buf n c s = Inr (c1, s1) \<Longrightarrow> snd c1 \<le> snd c"
proof (induction buf n c s rule: init_tlvs.induct)
  case (1 buf n c s)
  note run = "1.prems" [unfolded init_tlvs.simps [of buf n c s]]
  show ?case
  proof (cases "n = 0")
    case nz: False
    obtain oi ca where g: "bmp_get_and_check_length c BMP_TLV_HDR = (oi, ca)" by (metis surj_pair)
    show ?thesis
    proof (cases oi)
      case None
      then show ?thesis using run g nz get_left [OF g] by simp
    next
      case (Some i)
      obtain ty l where r: "rd_host16 buf i = Inr ty" "rd_be16 buf (i + 2) = Inr l" using run g nz Some by auto
      obtain oj cb where g2: "bmp_get_and_check_length ca (unat l) = (oj, cb)" by (metis surj_pair)
      show ?thesis
      proof (cases oj)
        case None
        then show ?thesis using run g nz Some r g2 get_left [OF g] get_left [OF g2] by simp
      next
        case j: (Some j)
        obtain v where v: "rd_mem buf j (unat l) = Inr v" using run g nz Some r g2 j by auto
        then have "init_tlvs buf (n - (ucast l + 4)) cb (bmp_log (Ev_Init (Some (ty, v))) s) = Inr (c1, s1)"
          using run g nz Some r g2 j by simp
        then have "snd c1 \<le> snd cb"
          using "1.IH" [OF nz g [symmetric] Some r g2 [symmetric] j v] g g2 by blast
        then show ?thesis using get_left [OF g] get_left [OF g2] by linarith
      qed
    qed
  qed (use run in simp)
qed

lemma term_tlvs_left: "term_tlvs buf n re c s = Inr (c1, s1) \<Longrightarrow> snd c1 \<le> snd c"
proof (induction buf n re c s rule: term_tlvs.induct)
  case (1 buf n re c s)
  note run = "1.prems" [unfolded term_tlvs.simps [of buf n re c s]]
  show ?case
  proof (cases "n = 0")
    case nz: False
    obtain oi ca where g: "bmp_get_and_check_length c BMP_TLV_HDR = (oi, ca)" by (metis surj_pair)
    show ?thesis
    proof (cases oi)
      case None
      then show ?thesis using run g nz get_left [OF g] by simp
    next
      case (Some i)
      obtain ty l where r: "rd_host16 buf i = Inr ty" "rd_be16 buf (i + 2) = Inr l" using run g nz Some by auto
      obtain oj cb where g2: "bmp_get_and_check_length ca (unat l) = (oj, cb)" by (metis surj_pair)
      show ?thesis
      proof (cases oj)
        case None
        then show ?thesis using run g nz Some r g2 get_left [OF g] get_left [OF g2] by simp
      next
        case j: (Some j)
        obtain v where v: "rd_mem buf j (unat l) = Inr v" using run g nz Some r g2 j by auto
        let ?r = "if ty = BMP_TERM_INFO_REASON \<and> l = 2 then bmp_term_hdr_get_reason_type buf cb else Inr (re, cb)"
        note run1 = run [unfolded if_not_P [OF nz] g prod.case Some j option.case r rbind_simps g2 v]
        obtain re1 cc where re: "?r = Inr (re1, cc)" using run1 by (cases ?r) (auto simp del: rbind_eq_Inr)
        have cc: "snd cc \<le> snd cb" using re reason_left [of buf cb re1 cc] by (cases "ty = BMP_TERM_INFO_REASON \<and> l = 2") auto
        have "term_tlvs buf (n - (ucast l + 4)) re1 cc (bmp_log (Ev_Term (Some (ty, v, re1))) s) = Inr (c1, s1)"
          using run1 [unfolded re rbind_simps prod.case] .
        then have "snd c1 \<le> snd cc"
          using "1.IH" [OF nz g [symmetric] Some r g2 [symmetric] j v re] by blast
        then show ?thesis using cc get_left [OF g] get_left [OF g2] by linarith
      qed
    qed
  qed (use run in simp)
qed

lemma get_data_left:
  "bmp_stats_cnt_get_data32 buf c = Inr (x, c1) \<Longrightarrow> snd c1 \<le> snd c"
  "bmp_stats_cnt_get_data64 buf c = Inr (y, c1) \<Longrightarrow> snd c1 \<le> snd c"
  "bmp_peer_down_hdr_get_loc_code buf c = Inr (z, c1) \<Longrightarrow> snd c1 \<le> snd c"
  by (auto simp: bmp_stats_cnt_get_data32_def bmp_stats_cnt_get_data64_def bmp_peer_down_hdr_get_loc_code_def
      bmp_get_and_check_length_def split: if_split_asm)

lemma stats_data_left: "stats_data buf ty l c = Inr (x, got, c1) \<Longrightarrow> snd c1 \<le> snd c"
  by (auto simp: stats_data_def Let_def dest: get_data_left split: if_split_asm) (simp_all add: bmp_get_and_check_length_def)

lemma stats_loop_left: "stats_loop buf bd n c s = Inr (c1, s1) \<Longrightarrow> snd c1 \<le> snd c"
proof (induction buf bd n c s rule: stats_loop.induct)
  case (1 buf bd n c s)
  note run = "1.prems" [unfolded stats_loop.simps [of buf bd n c s]]
  show ?case
  proof (cases "n = 0")
    case nz: False
    obtain oi ca where g: "bmp_get_and_check_length c BMP_TLV_HDR = (oi, ca)" by (metis surj_pair)
    show ?thesis
    proof (cases oi)
      case None
      then show ?thesis using run g nz get_left [OF g] by simp
    next
      case (Some i)
      obtain ty l where r: "rd_be16 buf i = Inr ty" "rd_be16 buf (i + 2) = Inr l" using run g nz Some by auto
      obtain x got cb where d: "stats_data buf ty l ca = Inr (x, got, cb)" using run g nz Some r by auto
      then have "stats_loop buf bd (n - 1) cb (bmp_log (Ev_Stats bd ty x got) s) = Inr (c1, s1)" using run g nz Some r by auto
      then have "snd c1 \<le> snd cb" using "1.IH" [OF nz g [symmetric] Some r d refl refl] by blast
      then show ?thesis using get_left [OF g] stats_data_left [OF d] by linarith
    qed
  qed (use run in simp)
qed

lemma handlers_left:
  "bmp_process_msg_init buf n c s = Inr (c1, s1) \<Longrightarrow> snd c1 \<le> snd c"
  "bmp_process_msg_term buf n c s = Inr (c1, s1) \<Longrightarrow> snd c1 \<le> snd c"
  by (auto simp: bmp_process_msg_init_def bmp_process_msg_term_def dest: init_tlvs_left term_tlvs_left split: if_split_asm)

lemma get_cases:
  obtains "n \<le> snd c" "bmp_get_and_check_length c n = (Some (fst c), (fst c + n, snd c - n))"
  | "snd c < n" "bmp_get_and_check_length c n = (None, c)"
  by (cases "n \<le> snd c") (auto simp: bmp_get_and_check_length_def)

lemma stats_left: "bmp_process_msg_stats buf c s = Inr (c1, s1) \<Longrightarrow> snd c1 \<le> snd c"
  by (rule get_cases [of BMP_PEER_HDR c]; rule get_cases [of BMP_STATS_HDR "(fst c + BMP_PEER_HDR, snd c - BMP_PEER_HDR)"])
    (auto simp: bmp_process_msg_stats_def Let_def dest!: stats_loop_left split: if_split_asm)

lemma route_monitor_left: "bmp_process_msg_route_monitor bms junk buf c s = Inr (c1, s1) \<Longrightarrow> snd c1 \<le> snd c"
  by (rule get_cases [of BMP_PEER_HDR c])
    (auto simp: bmp_process_msg_route_monitor_def Let_def intro: order_trans [OF skip_left] split: if_split_asm option.splits)

lemma loc_code_left:
  assumes "(if reason = BMP_PEER_DOWN_LOC_CODE then rbind (bmp_peer_down_hdr_get_loc_code buf c) (\<lambda>(x, c3). Inr (Some x, c3))
    else Inr (None, c)) = Inr (code, c1)"
  shows "snd c1 \<le> snd c"
  using assms get_data_left(3) by (cases "reason = BMP_PEER_DOWN_LOC_CODE") fastforce+

lemma peer_down_left: "bmp_process_msg_peer_down bms buf c s = Inr (c1, s1) \<Longrightarrow> snd c1 \<le> snd c"
proof (rule get_cases [of BMP_PEER_HDR c])
  assume run: "bmp_process_msg_peer_down bms buf c s = Inr (c1, s1)"
    and g: "bmp_get_and_check_length c BMP_PEER_HDR = (Some (fst c), (fst c + BMP_PEER_HDR, snd c - BMP_PEER_HDR))"
  let ?ca = "(fst c + BMP_PEER_HDR, snd c - BMP_PEER_HDR)"
  obtain oj cb where g2: "bmp_get_and_check_length ?ca BMP_PEER_DOWN_HDR = (oj, cb)" by (metis surj_pair)
  have cb: "snd cb \<le> snd c" using get_left [OF g2] by simp
  show ?thesis
  proof (cases "\<not> misc_db (ptype (bm_self s)) \<or> oj = None")
    case True
    then show ?thesis using run g g2 cb by (auto simp: bmp_process_msg_peer_down_def split: if_split_asm)
  next
    case False
    then obtain j where j: "oj = Some j" "misc_db (ptype (bm_self s))" by auto
    note r = run [unfolded bmp_process_msg_peer_down_def g g2 j(1) prod.case option.case Let_def]
    obtain h where h: "rd_peer_hdr buf (fst c) = Inr h" using r j(2) by (cases "rd_peer_hdr buf (fst c)") auto
    define bd where "bd = peer_data addr_image_zero False h"
    show ?thesis
    proof (cases "bd_family bd = 0")
      case True
      then show ?thesis using r j(2) h cb by (simp add: bd_def)
    next
      case fam: False
      obtain reason where re: "rd8 buf j = Inr reason" using r j(2) h fam by (cases "rd8 buf j") (auto simp: bd_def)
      let ?r = "if reason = BMP_PEER_DOWN_LOC_CODE then rbind (bmp_peer_down_hdr_get_loc_code buf cb) (\<lambda>(x, c3). Inr (Some x, c3))
        else Inr (None, cb)"
      have not: "\<not> \<not> misc_db (ptype (bm_self s))" using j(2) by simp
      note r1 = r [unfolded if_not_P [OF not] h rbind_simps, folded bd_def, unfolded if_not_P [OF fam] re rbind_simps]
      obtain code cc where cc: "?r = Inr (code, cc)" using r1 by (cases ?r) (auto simp del: rbind_eq_Inr)
      note r2 = r1 [unfolded cc rbind_simps prod.case]
      have "c1 = cc"
      proof (cases "pm_tfind (bd_peer_ip bd) (bmp_log (Ev_Peer_Down bd reason code) s)")
        case None
        then show ?thesis using r2 by simp
      next
        case (Some p)
        then show ?thesis using r2 by auto
      qed
      then show ?thesis using order_trans [OF loc_code_left [OF cc] cb] by simp
    qed
  qed
next
  assume "bmp_process_msg_peer_down bms buf c s = Inr (c1, s1)" "bmp_get_and_check_length c BMP_PEER_HDR = (None, c)"
  then show "snd c1 \<le> snd c" by (auto simp: bmp_process_msg_peer_down_def split: if_split_asm)
qed

lemma peer_up_left: "bmp_process_msg_peer_up cfg buf c s = Inr (c1, s1) \<Longrightarrow> snd c1 \<le> snd c"
proof (rule get_cases [of BMP_PEER_HDR c])
  assume run: "bmp_process_msg_peer_up cfg buf c s = Inr (c1, s1)"
    and g: "bmp_get_and_check_length c BMP_PEER_HDR = (Some (fst c), (fst c + BMP_PEER_HDR, snd c - BMP_PEER_HDR))"
  let ?ca = "(fst c + BMP_PEER_HDR, snd c - BMP_PEER_HDR)"
  obtain oj cb where g2: "bmp_get_and_check_length ?ca BMP_PEER_UP_HDR = (oj, cb)" by (metis surj_pair)
  have cb: "snd cb \<le> snd c" using get_left [OF g2] by simp
  show ?thesis
  proof (cases "\<not> misc_db (ptype (bm_self s)) \<or> oj = None")
    case True
    then show ?thesis using run g g2 cb by (auto simp: bmp_process_msg_peer_up_def split: if_split_asm)
  next
    case False
    then obtain j where j: "oj = Some j" "misc_db (ptype (bm_self s))" by auto
    note r = run [unfolded bmp_process_msg_peer_up_def g g2 j(1) prod.case option.case Let_def]
    have "c1 = cb \<or> (\<exists>a b. c1 = skip_bgp (skip_bgp cb a) b)" using r j(2) by (auto split: if_split_asm)
    moreover have "snd (skip_bgp (skip_bgp cb a) b) \<le> snd cb" for a b using skip_left order_trans by blast
    ultimately show ?thesis using cb order_trans by blast
  qed
next
  assume "bmp_process_msg_peer_up cfg buf c s = Inr (c1, s1)" "bmp_get_and_check_length c BMP_PEER_HDR = (None, c)"
  then show "snd c1 \<le> snd c" by (auto simp: bmp_process_msg_peer_up_def split: if_split_asm)
qed

lemma dispatch_left:
  assumes "bmp_dispatch cfg bms junk buf ty n c s = Inr (c1, s1)"
  shows "snd c1 \<le> snd c"
  using assms route_monitor_left stats_left peer_down_left peer_up_left handlers_left
  by (auto simp: bmp_dispatch_def split: if_split_asm)

lemma jump_left [simp]: "snd (bmp_jump_offset c n) \<le> snd c"
  by (simp add: bmp_jump_offset_def)

subsection \<open>The loop\<close>

text \<open>The result is 0 or the number of bytes from the first incomplete message on. A message counts as
  complete when as many bytes as its length says stand behind its header.\<close>

function bmp_loop :: "bgp_config \<Rightarrow> bgp_daemon \<Rightarrow> (nat \<Rightarrow> addr_image) \<Rightarrow> byte list \<Rightarrow> cursor \<Rightarrow> bmp_state \<Rightarrow> (nat \<times> bmp_state) res" where
  "bmp_loop cfg bms junk buf c s =
     (if snd c = 0 then Inr (0, s)
      else case bmp_get_and_check_length c BMP_COMMON_HDR of
        (None, c1) \<Rightarrow> Inr (snd c, s)
      | (Some i, c1) \<Rightarrow>
          rbind (rd8 buf i) (\<lambda>version.
          if version \<noteq> BMP_V3 then Inr (0, s)
          else
            rbind (rd_be32 buf (i + 1)) (\<lambda>msg_len.
            if snd c1 < unat msg_len then Inr (snd c, s)
            else
              rbind (rd8 buf (i + 5)) (\<lambda>ty.
              rbind (bmp_dispatch cfg bms junk buf ty msg_len c1 s) (\<lambda>(c2, s2).
                bmp_loop cfg bms junk buf
                  (if snd c - snd c2 < unat msg_len then bmp_jump_offset c2 (unat msg_len - (snd c - snd c2)) else c2) s2)))))"
  by pat_completeness auto
termination
proof (relation "measure (\<lambda>(_, _, _, _, c, _). snd c)", goal_cases)
  case (2 cfg bms junk buf c s x c1 i version msg_len ty r c2 s2)
  have "snd c1 < snd c" using 2(1,2,3) by (auto simp: bmp_get_and_check_length_def BMP_COMMON_HDR_def split: if_split_asm)
  moreover have "snd c2 \<le> snd c1" using 2 dispatch_left by blast
  moreover have "snd (if snd c - snd c2 < unat msg_len then bmp_jump_offset c2 (unat msg_len - (snd c - snd c2)) else c2) \<le> snd c2" by simp
  ultimately show ?case by (simp only: in_measure prod.case)
qed simp

declare bmp_loop.simps [simp del]

definition bmp_process_packet :: "bgp_config \<Rightarrow> bgp_daemon \<Rightarrow> (nat \<Rightarrow> addr_image) \<Rightarrow> byte list \<Rightarrow> nat \<Rightarrow> bmp_state \<Rightarrow> (nat \<times> bmp_state) res" where
  "bmp_process_packet cfg bms junk buf len s =
     (if \<not> misc_db (ptype (bm_self s)) \<or> len < BMP_COMMON_HDR then Inr (0, s) else bmp_loop cfg bms junk buf (0, len) s)"

end
