(* ===== verification/Bmp_Props.thy ===== *)
theory Bmp_Props
  imports Bmp_Msg Bgp_Update_Props
begin

text \<open>
  What \<^verbatim>\<open>bmp_process_packet\<close> of \<^verbatim>\<open>src/src/bmp/bmp_msg.c\<close> makes of a stream of reports: routes reach the RIB
  of their peer, what is left over is kept for the next segment, and the inputs on which it goes
  wrong.
\<close>

section \<open>Cursors\<close>

lemma get_ok: "n \<le> left \<Longrightarrow> bmp_get_and_check_length (p, left) n = (Some p, p + n, left - n)"
  by (simp add: bmp_get_and_check_length_def)

lemma get_short: "left < n \<Longrightarrow> bmp_get_and_check_length (p, left) n = (None, p, left)"
  by (simp add: bmp_get_and_check_length_def)

lemma skip_ok:
  assumes "n \<le> left" "n < 2 ^ 32"
  shows "skip_bgp (p, left) (int n) = (p + n, left - n)"
proof -
  have "unat (word_of_int (int n) :: u32) = n" using assms(2) by (simp add: unat_of_nat_small)
  then show ?thesis using assms(1) by (simp add: skip_bgp_def get_ok)
qed

lemma loop_fetch:
  assumes "6 \<le> left" "rd8 buf p = Inr BMP_V3" "rd_be32 buf (p + 1) = Inr n"
  shows "bmp_loop cfg bms junk buf (p, left) s =
    (if left - 6 < unat n then Inr (left, s)
     else rbind (rd8 buf (p + 5)) (\<lambda>ty. rbind (bmp_dispatch cfg bms junk buf ty n (p + 6, left - 6) s) (\<lambda>(c2, s2).
       bmp_loop cfg bms junk buf
         (if left - snd c2 < unat n then bmp_jump_offset c2 (unat n - (left - snd c2)) else c2) s2)))"
  unfolding bmp_loop.simps [of cfg bms junk buf "(p, left)" s] snd_conv using assms by (simp add: BMP_COMMON_HDR_def get_ok)

section \<open>Reports on the wire\<close>

text \<open>A Route Monitoring message about a peer with an IPv4 address.\<close>

record report =
  rp_type :: byte
  rp_flags :: byte
  rp_rd :: "byte list"
  rp_addr :: "byte list"
  rp_asn :: u32
  rp_id :: "byte list"
  rp_tstamp :: "byte list"
  rp_update :: update

definition enc_peer_hdr :: "report \<Rightarrow> byte list" where
  "enc_peer_hdr r = [rp_type r] @ [rp_flags r] @ rp_rd r @ (replicate 12 0 @ rp_addr r) @ put_be32 (rp_asn r) @ rp_id r @ rp_tstamp r"

definition enc_common :: "nat \<Rightarrow> byte \<Rightarrow> byte list" where
  "enc_common n ty = [BMP_V3] @ put_be32 (word_of_nat n) @ [ty]"

definition enc_report :: "bool \<Rightarrow> report \<Rightarrow> byte list" where
  "enc_report ap r = enc_common (48 + length (enc_update ap (rp_update r))) BMP_MSG_ROUTE_MONITOR @ enc_peer_hdr r @ enc_update ap (rp_update r)"

definition wire_report :: "report \<Rightarrow> bool" where
  "wire_report r \<longleftrightarrow> rp_flags r AND 0x80 = 0 \<and> length (rp_rd r) = 8 \<and> length (rp_addr r) = 4 \<and> length (rp_id r) = 4 \<and>
     length (rp_tstamp r) = 8"

text \<open>The address of the peer as it is stored when the peer comes up.\<close>

definition ipv4_image :: "byte list \<Rightarrow> addr_image" where
  "ipv4_image a = [AF_INET, 0, 0, 0] @ a @ replicate 12 0"

text \<open>Memory in which the bytes that the code does not write are zero.\<close>

definition clean :: "addr_image \<Rightarrow> bool" where
  "clean j \<longleftrightarrow> take 3 (drop 1 j) = [0, 0, 0] \<and> drop 8 j = replicate 12 0"

definition rp_extra :: "report \<Rightarrow> bgp_msg_extra" where
  "rp_extra r = \<lparr>ed_id = BGP_MSG_EXTRA_DATA_BMP, ed_data = [rp_flags r AND 0x40, rp_flags r AND 0x20]\<rparr>"

lemma enc_lengths:
  "length (enc_common n ty) = 6" "wire_report r \<Longrightarrow> length (enc_peer_hdr r) = 42"
  by (simp_all add: enc_common_def enc_peer_hdr_def wire_report_def)

lemma common_reads:
  assumes "buf_at buf p (enc_common n ty)"
  shows "rd8 buf p = Inr BMP_V3" "rd_be32 buf (p + 1) = Inr (word_of_nat n)" "rd8 buf (p + 5) = Inr ty"
proof -
  have "buf_at buf p [BMP_V3]" "buf_at buf (p + 1) (put_be32 (word_of_nat n))" "buf_at buf (p + 5) [ty]"
    using assms unfolding enc_common_def buf_at_append by (simp_all add: ac_simps)
  then show "rd8 buf p = Inr BMP_V3" "rd_be32 buf (p + 1) = Inr (word_of_nat n)" "rd8 buf (p + 5) = Inr ty"
    by (simp_all add: buf_at_rd8 buf_at_put_be32)
qed

lemma peer_hdr_reads:
  assumes "buf_at buf p (enc_peer_hdr r)" "wire_report r"
  shows "rd_peer_hdr buf p = Inr \<lparr>ph_type = rp_type r, ph_flags = rp_flags r, ph_addr = replicate 12 0 @ rp_addr r, ph_asn = rp_asn r, ph_bgp_id = rp_id r\<rparr>"
proof -
  have len: "length (rp_rd r) = 8" "length (rp_addr r) = 4" "length (rp_id r) = 4" using assms(2) by (simp_all add: wire_report_def)
  have "buf_at buf p [rp_type r]" "buf_at buf (p + 1) [rp_flags r]" "buf_at buf (p + 10) (replicate 12 0 @ rp_addr r)"
    "buf_at buf (p + 26) (put_be32 (rp_asn r))" "buf_at buf (p + 30) (rp_id r)"
    using assms(1) len unfolding enc_peer_hdr_def buf_at_append by (simp_all add: ac_simps)
  then show ?thesis
    using len by (simp add: rd_peer_hdr_def buf_at_rd8 buf_at_rd_mem buf_at_put_be32 del: buf_at_append)
qed

lemma report_data:
  assumes "wire_report r" "clean j"
    and "h = \<lparr>ph_type = rp_type r, ph_flags = rp_flags r, ph_addr = replicate 12 0 @ rp_addr r, ph_asn = rp_asn r, ph_bgp_id = rp_id r\<rparr>"
  shows "bd_family (peer_data j True h) = AF_INET" "bd_peer_ip (peer_data j True h) = ipv4_image (rp_addr r)"
    "bgp_msg_data_set_data_bmp (peer_data j True h) = rp_extra r"
proof -
  have fl: "rp_flags r AND 0x80 = 0" "length (rp_addr r) = 4" using assms(1) by (simp_all add: wire_report_def)
  show fam: "bd_family (peer_data j True h) = AF_INET" using fl by (simp add: peer_data_def bmp_peer_hdr_get_v_flag_def assms(3))
  show "bgp_msg_data_set_data_bmp (peer_data j True h) = rp_extra r"
    by (simp add: bgp_msg_data_set_data_bmp_def peer_data_def rp_extra_def bmp_peer_hdr_get_l_flag_def bmp_peer_hdr_get_a_flag_def Let_def assms(3))
  obtain x where j: "j = x # drop 1 j" using assms(2) by (cases j) (auto simp: clean_def)
  have "take 4 (j[0 := AF_INET]) = [AF_INET, 0, 0, 0]"
    using assms(2) by (subst j) (simp add: clean_def numeral_eq_Suc)
  moreover have "drop 8 (j[0 := AF_INET]) = replicate 12 0" using assms(2) by (simp add: clean_def)
  ultimately show "bd_peer_ip (peer_data j True h) = ipv4_image (rp_addr r)"
    using fl by (simp add: peer_data_def bmp_peer_hdr_get_v_flag_def bmp_peer_hdr_get_peer_ip_def hdr_get_ip_def ipv4_image_def Let_def assms(3))
qed

section \<open>One report\<close>

lemma fd_peer_simps [simp]:
  "pe_cap_add_paths (bmp_fd_peer s p) = pe_cap_add_paths p" "ptype (bmp_fd_peer s p) = ptype p"
  by (simp_all add: bmp_fd_peer_def ptype_def bgp_peer_type.truncate_def)

text \<open>The routes after a report, in the RIB of the peer it is about.\<close>

definition report_change :: "bgp_daemon \<Rightarrow> bmp_state \<Rightarrow> report \<Rightarrow> routes \<Rightarrow> routes" where
  "report_change bms s r =
     (case pm_tfind (ipv4_image (rp_addr r)) s of
        None \<Rightarrow> id
      | Some p \<Rightarrow> update_change bms (bmp_fd_peer s p) (rp_extra r) (rp_update r))"

text \<open>The peer of a report is up, and the message is one it can send.\<close>

definition report_ok :: "bmp_state \<Rightarrow> bool \<Rightarrow> report \<Rightarrow> bool" where
  "report_ok s ap r \<longleftrightarrow> wire_report r \<and> wire_update ap (rp_update r) \<and>
     (case pm_tfind (ipv4_image (rp_addr r)) s of
        None \<Rightarrow> False
      | Some p \<Rightarrow> pe_cap_add_paths p = ap \<and> routing_db (ptype p) \<and> misc_db (ptype p))"

lemma report_okD:
  assumes "report_ok s ap r"
  obtains p where "pm_tfind (ipv4_image (rp_addr r)) s = Some p" "pe_cap_add_paths p = ap" "routing_db (ptype p)" "misc_db (ptype p)"
    "wire_report r" "wire_update ap (rp_update r)"
  using assms by (auto simp: report_ok_def split: option.splits)

lemma route_monitor_enc:
  assumes r: "report_ok s ap r" "buf_at buf p (enc_peer_hdr r @ enc_update ap (rp_update r))" "clean j"
    and left: "42 + length (enc_update ap (rp_update r)) \<le> left"
    and db: "db_ok bms [] (bm_db s)" "db_space [] (bm_db s) (Suc (update_routes (rp_update r) + k))"
    and cfg: "config_ok bms" "\<not> skip_rib bms" "misc_db (ptype (bm_self s))"
  shows "\<exists>d'. bmp_process_msg_route_monitor bms j buf (p, left) s =
      Inr ((p + (42 + length (enc_update ap (rp_update r))), left - (42 + length (enc_update ap (rp_update r)))), s\<lparr>bm_db := d'\<rparr>) \<and>
    db_ok bms [] d' \<and> db_space [] d' (Suc k) \<and> db_bucket d' = report_change bms s r (db_bucket (bm_db s))"
proof -
  let ?n = "length (enc_update ap (rp_update r))"
  obtain pr where pr: "pm_tfind (ipv4_image (rp_addr r)) s = Some pr" "pe_cap_add_paths pr = ap" "routing_db (ptype pr)" "misc_db (ptype pr)"
    and w: "wire_report r" "wire_update ap (rp_update r)" using report_okD [OF r(1)] by blast
  have at: "buf_at buf p (enc_peer_hdr r)" "buf_at buf (p + 42) (enc_update ap (rp_update r))"
    using r(2) enc_lengths(2) [OF w(1)] by simp_all
  define h where "h = \<lparr>ph_type = rp_type r, ph_flags = rp_flags r, ph_addr = replicate 12 0 @ rp_addr r, ph_asn = rp_asn r, ph_bgp_id = rp_id r\<rparr>"
  note hd = peer_hdr_reads [OF at(1) w(1), folded h_def] and data = report_data [OF w(1) r(3) h_def]
  let ?q = "bmp_fd_peer s pr"
  obtain d' where d': "bgp_parse_update_msg bms ?q (rp_extra r) buf (p + 42) (bm_db s) = Inr (int ?n, d')" "db_ok bms [] d'"
      "db_space [] d' (Suc k)" "db_bucket d' = update_change bms ?q (rp_extra r) (rp_update r) (db_bucket (bm_db s))"
    using parse_update_enc [OF db cfg(1,2), of ?q buf "p + 42" "rp_extra r"] pr at(2) w(2)
    unfolding enc_update_length fd_peer_simps pr(2) by blast
  have max: "?n < 2 ^ 32" using w(2) by (simp add: wire_update_def enc_update_length BGP_MAX_MSGLEN_def)
  have sk: "skip_bgp (p + 42, left - 42) (int ?n) = (p + (42 + ?n), left - (42 + ?n))"
    using skip_ok [OF _ max, of "left - 42" "p + 42"] left by simp
  have fam: "(AF_INET :: byte) \<noteq> 0" by (simp add: AF_INET_def)
  have "bmp_process_msg_route_monitor bms j buf (p, left) s = Inr ((p + (42 + ?n), left - (42 + ?n)), s\<lparr>bm_db := d'\<rparr>)"
    using cfg(3) left sk d'(1) pr(1) fam
    by (simp add: bmp_process_msg_route_monitor_def BMP_PEER_HDR_def get_ok hd data Let_def del: max_def)
  moreover have "db_bucket d' = report_change bms s r (db_bucket (bm_db s))"
    unfolding d'(4) report_change_def pr(1) by simp
  ultimately show ?thesis using d'(2,3) by blast
qed

lemma report_step:
  assumes r: "report_ok s ap r" "buf_at buf p (enc_report ap r)" "\<forall>q. clean (junk q)"
    and left: "length (enc_report ap r) + 6 \<le> left"
    and db: "db_ok bms [] (bm_db s)" "db_space [] (bm_db s) (Suc (update_routes (rp_update r) + k))"
    and cfg: "config_ok bms" "\<not> skip_rib bms" "misc_db (ptype (bm_self s))"
  shows "\<exists>d'. bmp_loop cfg bms junk buf (p, left) s =
      bmp_loop cfg bms junk buf (p + length (enc_report ap r), left - length (enc_report ap r)) (s\<lparr>bm_db := d'\<rparr>) \<and>
    db_ok bms [] d' \<and> db_space [] d' (Suc k) \<and> db_bucket d' = report_change bms s r (db_bucket (bm_db s))"
proof -
  let ?n = "length (enc_update ap (rp_update r))"
  have w: "wire_report r" "wire_update ap (rp_update r)" using report_okD [OF r(1)] by blast+
  have len: "length (enc_report ap r) = 48 + ?n" by (simp add: enc_report_def enc_lengths w)
  have small: "?n \<le> 4096" using w(2) by (simp add: wire_update_def enc_update_length BGP_MAX_MSGLEN_def)
  have un: "unat (word_of_nat (48 + ?n) :: u32) = 48 + ?n" by (rule unat_of_nat_small) (use small in simp)
  have at: "buf_at buf p (enc_common (48 + ?n) BMP_MSG_ROUTE_MONITOR)" "buf_at buf (p + 6) (enc_peer_hdr r @ enc_update ap (rp_update r))"
    using r(2) unfolding enc_report_def by (simp_all add: enc_lengths)
  note rd = common_reads [OF at(1)]
  define m where "m = (word_of_nat (48 + ?n) :: u32)"
  have um: "unat m = 48 + ?n" unfolding m_def by (rule un)
  have big: "6 \<le> left" "\<not> left - 6 < 48 + ?n" "42 + ?n \<le> left - 6" using left unfolding len by linarith+
  obtain d' where d': "bmp_process_msg_route_monitor bms (junk (p + 6)) buf (p + 6, left - 6) s =
      Inr ((p + 6 + (42 + ?n), left - 6 - (42 + ?n)), s\<lparr>bm_db := d'\<rparr>)" "db_ok bms [] d'" "db_space [] d' (Suc k)"
      "db_bucket d' = report_change bms s r (db_bucket (bm_db s))"
    using route_monitor_enc [OF r(1) at(2) _ big(3) db cfg, of "junk (p + 6)"] r(3) by blast
  have disp: "bmp_dispatch cfg bms junk buf BMP_MSG_ROUTE_MONITOR m (p + 6, left - 6) s = Inr ((p + (48 + ?n), left - (48 + ?n)), s\<lparr>bm_db := d'\<rparr>)"
    using d'(1) by (simp add: bmp_dispatch_def)
  have used: "\<not> left - snd (p + (48 + ?n), left - (48 + ?n)) < 48 + ?n" using big(2) by simp
  have "bmp_loop cfg bms junk buf (p, left) s = bmp_loop cfg bms junk buf (p + (48 + ?n), left - (48 + ?n)) (s\<lparr>bm_db := d'\<rparr>)"
    unfolding loop_fetch [OF big(1) rd(1) rd(2) [folded m_def]] um if_not_P [OF big(2)] rd(3) rbind_simps disp prod.case if_not_P [OF used] ..
  then show ?thesis unfolding len using d'(2-4) by blast
qed

section \<open>A stream of reports\<close>

definition peer_ap :: "bmp_state \<Rightarrow> report \<Rightarrow> bool" where
  "peer_ap s r = (case pm_tfind (ipv4_image (rp_addr r)) s of None \<Rightarrow> False | Some p \<Rightarrow> pe_cap_add_paths p)"

abbreviation enc_reports :: "bmp_state \<Rightarrow> report list \<Rightarrow> byte list" where
  "enc_reports s rs \<equiv> concat (map (\<lambda>r. enc_report (peer_ap s r) r) rs)"

text \<open>The start of a message with fewer bytes behind its header than its length says, a complete one
  included: the header is counted twice.\<close>

definition pending :: "byte list \<Rightarrow> nat \<Rightarrow> nat \<Rightarrow> bool" where
  "pending buf p left \<longleftrightarrow> 6 \<le> left \<and> rd8 buf p = Inr BMP_V3 \<and> (\<exists>n. rd_be32 buf (p + 1) = Inr n \<and> left - 6 < unat n)"

lemma pending_loop: "pending buf p left \<Longrightarrow> bmp_loop cfg bms junk buf (p, left) s = Inr (left, s)"
  unfolding pending_def using loop_fetch by (elim conjE exE) simp

lemma db_upd_simps [simp]:
  "pm_tfind a (s\<lparr>bm_db := d\<rparr>) = pm_tfind a s" "bmp_fd_peer (s\<lparr>bm_db := d\<rparr>) = bmp_fd_peer s"
  "peer_ap (s\<lparr>bm_db := d\<rparr>) = peer_ap s" "report_ok (s\<lparr>bm_db := d\<rparr>) = report_ok s"
  "report_change bms (s\<lparr>bm_db := d\<rparr>) = report_change bms s"
proof -
  show f: "pm_tfind a (s\<lparr>bm_db := d\<rparr>) = pm_tfind a s" for a by (simp add: pm_tfind_def)
  show g: "bmp_fd_peer (s\<lparr>bm_db := d\<rparr>) = bmp_fd_peer s" by (intro ext) (simp add: bmp_fd_peer_def)
  show "peer_ap (s\<lparr>bm_db := d\<rparr>) = peer_ap s" by (intro ext) (simp add: peer_ap_def f)
  show "report_ok (s\<lparr>bm_db := d\<rparr>) = report_ok s" by (intro ext) (simp add: report_ok_def f)
  show "report_change bms (s\<lparr>bm_db := d\<rparr>) = report_change bms s" by (rule ext) (simp add: report_change_def f g split: option.split)
qed

lemma report_loop:
  assumes "buf_at buf p (enc_reports s rs)" "pending buf (p + length (enc_reports s rs)) t" "left = length (enc_reports s rs) + t"
    "list_all (\<lambda>r. report_ok s (peer_ap s r) r) rs" "\<forall>q. clean (junk q)"
    "db_ok bms [] (bm_db s)" "db_space [] (bm_db s) (Suc (sum_list (map (\<lambda>r. update_routes (rp_update r)) rs)))"
    "config_ok bms" "\<not> skip_rib bms" "misc_db (ptype (bm_self s))"
  shows "\<exists>d'. bmp_loop cfg bms junk buf (p, left) s = Inr (t, s\<lparr>bm_db := d'\<rparr>) \<and> db_ok bms [] d' \<and>
    db_bucket d' = fold (report_change bms s) rs (db_bucket (bm_db s))"
  using assms
proof (induction rs arbitrary: p left s)
  case Nil
  then have "bmp_loop cfg bms junk buf (p, left) s = Inr (t, s\<lparr>bm_db := bm_db s\<rparr>)" using pending_loop by simp
  then show ?case using Nil.prems(6) by (intro exI [of _ "bm_db s"]) simp
next
  case (Cons r rs)
  let ?n = "length (enc_report (peer_ap s r) r)" and ?m = "length (enc_reports s rs)"
  have at: "buf_at buf p (enc_report (peer_ap s r) r)" "buf_at buf (p + ?n) (enc_reports s rs)"
    and ok: "report_ok s (peer_ap s r) r" "list_all (\<lambda>r. report_ok s (peer_ap s r) r) rs" using Cons.prems(1,4) by simp_all
  have t: "6 \<le> t" using Cons.prems(2) by (simp add: pending_def)
  have left: "?n + 6 \<le> left" "left - ?n = ?m + t" using Cons.prems(3) t by simp_all
  have space: "db_space [] (bm_db s) (Suc (update_routes (rp_update r) + sum_list (map (\<lambda>r. update_routes (rp_update r)) rs)))"
    using Cons.prems(7) by simp
  obtain d1 where d1: "bmp_loop cfg bms junk buf (p, left) s = bmp_loop cfg bms junk buf (p + ?n, left - ?n) (s\<lparr>bm_db := d1\<rparr>)"
    "db_ok bms [] d1" "db_space [] d1 (Suc (sum_list (map (\<lambda>r. update_routes (rp_update r)) rs)))"
    "db_bucket d1 = report_change bms s r (db_bucket (bm_db s))"
    using report_step [OF ok(1) at(1) Cons.prems(5) left(1) Cons.prems(6) space Cons.prems(8-10)] by blast
  have "\<exists>d'. bmp_loop cfg bms junk buf (p + ?n, left - ?n) (s\<lparr>bm_db := d1\<rparr>) = Inr (t, s\<lparr>bm_db := d1\<rparr>\<lparr>bm_db := d'\<rparr>) \<and> db_ok bms [] d' \<and>
    db_bucket d' = fold (report_change bms (s\<lparr>bm_db := d1\<rparr>)) rs (db_bucket (bm_db (s\<lparr>bm_db := d1\<rparr>)))"
    by (rule Cons.IH)
      (use at(2) ok(2) left(2) d1(2,3) Cons.prems(2,5,8-10) in \<open>simp_all add: add.assoc\<close>)
  then show ?case unfolding d1(1) by (simp add: d1(4))
qed

section \<open>An example\<close>

text \<open>A router, itself connected on descriptor 5, with one peer, and a report about it.\<close>

definition ex_bgp_peer :: bgp_peer where
  "ex_bgp_peer = bgp_peer_zero\<lparr>pe_self := 90, pe_status := Established\<rparr>"

definition ex_router :: bmp_state where
  "ex_router = \<lparr>bm_self = ex_peer, bm_peers = [(ipv4_image [10, 0, 0, 1], ex_bgp_peer)], bm_db = bgp_db_init 64, bm_log = [], bm_next = 91\<rparr>"

definition ex_report :: report where
  "ex_report = \<lparr>rp_type = 0, rp_flags = 0x40, rp_rd = replicate 8 0, rp_addr = [10, 0, 0, 1], rp_asn = 65001, rp_id = [10, 0, 0, 1],
     rp_tstamp = replicate 8 0, rp_update = \<lparr>up_withdrawn = [], up_attrs = [W_Med 10],
       up_routes = [\<lparr>wr_path_id = 0, wr_label = [0, 0, 0], wr_rd = replicate 8 0, wr_p = ex_route\<rparr>]\<rparr>\<rparr>"

lemma ex_peer_db: "misc_db (ptype ex_bgp_peer)" "routing_db (ptype ex_bgp_peer)" "\<not> pe_cap_add_paths ex_bgp_peer"
  by (simp_all add: ex_bgp_peer_def bgp_peer_zero_def ptype_def bgp_peer_type.truncate_def misc_db_def routing_db_def)

lemma ex_report_simps [simp]:
  "pm_tfind (ipv4_image [10, 0, 0, 1]) ex_router = Some ex_bgp_peer" "rp_addr ex_report = [10, 0, 0, 1]" "wire_report ex_report"
  "peer_ap ex_router ex_report = False" "misc_db (ptype (bm_self ex_router))"
proof -
  show f: "pm_tfind (ipv4_image [10, 0, 0, 1]) ex_router = Some ex_bgp_peer" by (simp add: pm_tfind_def ex_router_def)
  show a: "rp_addr ex_report = [10, 0, 0, 1]" by (simp add: ex_report_def)
  show "wire_report ex_report" by (simp add: wire_report_def ex_report_def)
  show "peer_ap ex_router ex_report = False" by (simp add: peer_ap_def a f ex_peer_db)
  show "misc_db (ptype (bm_self ex_router))" using ex_state by (simp add: ex_router_def)
qed

lemma ex_report_ok: "report_ok ex_router False ex_report"
proof -
  have "wire_update False (rp_update ex_report)"
    by (simp add: ex_report_def wire_update_def wire_route_def wf_prefix_def ex_route_def afi_family_def pfx_bytes_def af_defs
        body_length_def enc_route_def BGP_MAX_MSGLEN_def put_be32_def)
  then show ?thesis by (simp add: report_ok_def ex_peer_db)
qed

lemma pending_header: "pending (xs @ enc_common 60 0) (length xs) 6"
proof -
  have "buf_at (xs @ enc_common 60 0) (length xs) (enc_common 60 0)" by (simp add: buf_at_def)
  note rd = common_reads [OF this]
  have "unat (word_of_nat 60 :: u32) = 60" by simp
  then show ?thesis using rd unfolding pending_def by (intro conjI exI [of _ "word_of_nat 60"]) simp_all
qed

text \<open>C3: A packet that holds Route Monitoring messages about peers that are up, any number of them,
  and then the start of a further message: every UPDATE changes the RIB of its peer like one from a BGP session,
  tagged with the flags of the report, in order; the result is the number of bytes of the further message,
  which the caller keeps for the next segment. The stack memory that the handler of Route Monitoring
  messages leaves uninitialised is taken to be clear, as otherwise the routes are dropped (C20), and the further
  message has at least a header, as otherwise the last report waits (C18).\<close>

theorem bmp_process_packet_reports:
  assumes "buf = enc_reports s rs @ tail" "len = length (enc_reports s rs) + t" "pending buf (length (enc_reports s rs)) t"
    "list_all (\<lambda>r. report_ok s (peer_ap s r) r) rs" "\<forall>q. clean (junk q)"
    "db_ok bms [] (bm_db s)" "db_space [] (bm_db s) (Suc (sum_list (map (\<lambda>r. update_routes (rp_update r)) rs)))"
    "config_ok bms" "\<not> skip_rib bms" "misc_db (ptype (bm_self s))"
  shows "\<exists>d'. bmp_process_packet cfg bms junk buf len s = Inr (t, s\<lparr>bm_db := d'\<rparr>) \<and> db_ok bms [] d' \<and>
    db_bucket d' = fold (report_change bms s) rs (db_bucket (bm_db s))"
proof -
  have at: "buf_at buf 0 (enc_reports s rs)" by (simp add: assms(1) buf_at_def)
  have "\<not> len < BMP_COMMON_HDR" using assms(2,3) by (simp add: pending_def BMP_COMMON_HDR_def)
  then show ?thesis using report_loop [OF at _ assms(2) assms(4-10), of cfg] assms(3,10) by (simp add: bmp_process_packet_def)
qed

theorem bmp_process_packet_reports_witness:
  "\<exists>d'. bmp_process_packet ex_config ex_daemon (\<lambda>_. addr_image_zero) (enc_reports ex_router [ex_report] @ enc_common 60 0)
      (length (enc_reports ex_router [ex_report]) + 6) ex_router = Inr (6, ex_router\<lparr>bm_db := d'\<rparr>) \<and>
    db_bucket d' AFI_IP SAFI_UNICAST (pfx_bits ex_route) 10 =
      [\<lparr>r_peer = 90, r_attr = Some (bgp_attr_zero\<lparr>at_med := 10\<rparr>), r_extra = Some (bgp_info_extra_zero\<lparr>ie_bmed := rp_extra ex_report\<rparr>)\<rparr>]"
proof -
  have cl: "clean addr_image_zero" by (simp add: clean_def addr_image_zero_def numeral_eq_Suc)
  have "\<exists>d'. bmp_process_packet ex_config ex_daemon (\<lambda>_. addr_image_zero) (enc_reports ex_router [ex_report] @ enc_common 60 0)
      (length (enc_reports ex_router [ex_report]) + 6) ex_router = Inr (6, ex_router\<lparr>bm_db := d'\<rparr>) \<and> db_ok ex_daemon [] d' \<and>
    db_bucket d' = fold (report_change ex_daemon ex_router) [ex_report] (db_bucket (bm_db ex_router))"
  proof (rule bmp_process_packet_reports [OF refl refl pending_header])
    show "db_ok ex_daemon [] (bm_db ex_router)" by (simp add: ex_router_def db_ok_init)
    show "db_space [] (bm_db ex_router) (Suc (sum_list (map (\<lambda>r. update_routes (rp_update r)) [ex_report])))"
      by (simp add: ex_router_def db_space_def update_routes_def ex_report_def)
  qed (use ex_state ex_report_ok cl in simp_all)
  then obtain d' where d': "bmp_process_packet ex_config ex_daemon (\<lambda>_. addr_image_zero) (enc_reports ex_router [ex_report] @ enc_common 60 0)
      (length (enc_reports ex_router [ex_report]) + 6) ex_router = Inr (6, ex_router\<lparr>bm_db := d'\<rparr>)"
    "db_bucket d' = report_change ex_daemon ex_router ex_report (db_bucket (bgp_db_init 64))" by (auto simp: ex_router_def)
  define p where "p = bmp_fd_peer ex_router ex_bgp_peer"
  have p: "pe_self p = 90" "\<not> pe_cap_add_paths p" "misc_db (ptype p)" "pe_fd p = 5"
    unfolding p_def fd_peer_simps using ex_peer_db by (simp_all add: bmp_fd_peer_def ex_bgp_peer_def bgp_peer_zero_def ex_router_def ex_peer_def)
  define at where "at = bgp_attr_zero\<lparr>at_med := 10\<rparr>"
  have at: "sent_attr [W_Med 10] = at" "attr_val at = at" by (simp_all add: at_def sent_attr_def bgp_attr_zero_def attr_val_def)
  have slot: "route_slot ex_daemon p 0 = 10" by (simp add: route_slot_def ex_daemon_def p rib_nb_def)
  have id: "ed_id (rp_extra ex_report) = BGP_MSG_EXTRA_DATA_BMP" by (simp add: rp_extra_def)
  have bmp: "bmp_extras ex_daemon" by (simp add: ex_daemon_def)
  have new: "announced ex_daemon p (rp_extra ex_report) SAFI_UNICAST 0 rd label \<lparr>r_peer = 90, r_attr = Some at, r_extra = None\<rparr> =
      \<lparr>r_peer = 90, r_attr = Some at, r_extra = Some (bgp_info_extra_zero\<lparr>ie_bmed := rp_extra ex_report\<rparr>)\<rparr>" for rd label
    by (simp add: announced_def announce_def extra_data_process_def bgp_extra_data_process_bmp_def bgp_info_extra_process_def
        info_of_def bgp_info_extra_get_def p upd_extra_def id bmp)
  have "db_bucket d' = update_change ex_daemon p (rp_extra ex_report) (rp_update ex_report) (db_bucket (bgp_db_init 64))"
    unfolding d'(2) report_change_def by (simp add: p_def)
  then have "db_bucket d' AFI_IP SAFI_UNICAST (pfx_bits ex_route) 10 =
      [\<lparr>r_peer = 90, r_attr = Some at, r_extra = Some (bgp_info_extra_zero\<lparr>ie_bmed := rp_extra ex_report\<rparr>)\<rparr>]"
    by (simp add: update_change_def ex_report_def) (simp add: route_change_def sent_item_def wire_item_def p slot at install_def route_hit_def
        nlri_start_def Let_def new [unfolded ex_report_def])
  then show ?thesis using d'(1) unfolding at_def by blast
qed

section \<open>What is left over\<close>

lemma loop_rest: "bmp_loop cfg bms junk buf c s = Inr (t, s1) \<Longrightarrow> t \<le> snd c"
proof (induction cfg bms junk buf c s rule: bmp_loop.induct)
  case (1 cfg bms junk buf c s)
  note run = "1.prems" [unfolded bmp_loop.simps [of cfg bms junk buf c s]]
  show ?case
  proof (cases "snd c = 0")
    case nz: False
    obtain oi ca where g: "bmp_get_and_check_length c BMP_COMMON_HDR = (oi, ca)" by (metis surj_pair)
    show ?thesis
    proof (cases oi)
      case None
      then show ?thesis using run g nz by simp
    next
      case (Some i)
      note run1 = run [unfolded if_not_P [OF nz] g prod.case Some option.case]
      obtain v where v: "rd8 buf i = Inr v" using run1 by (cases "rd8 buf i") simp_all
      show ?thesis
      proof (cases "v \<noteq> BMP_V3")
        case True
        then show ?thesis using run1 v by simp
      next
        case v3: False
        note run2 = run1 [unfolded v rbind_simps if_not_P [OF v3]]
        obtain n where n: "rd_be32 buf (i + 1) = Inr n" using run2 by (cases "rd_be32 buf (i + 1)") simp_all
        show ?thesis
        proof (cases "snd ca < unat n")
          case True
          then show ?thesis using run2 n by simp
        next
          case en: False
          note run3 = run2 [unfolded n rbind_simps if_not_P [OF en]]
          obtain ty where ty: "rd8 buf (i + 5) = Inr ty" using run3 by (cases "rd8 buf (i + 5)") simp_all
          obtain cb sb where d: "bmp_dispatch cfg bms junk buf ty n ca s = Inr (cb, sb)"
            using run3 ty by (cases "bmp_dispatch cfg bms junk buf ty n ca s") auto
          let ?c = "if snd c - snd cb < unat n then bmp_jump_offset cb (unat n - (snd c - snd cb)) else cb"
          have "bmp_loop cfg bms junk buf ?c sb = Inr (t, s1)" using run3 [unfolded ty rbind_simps d prod.case] .
          then have "t \<le> snd ?c" using "1.IH" [OF nz g [symmetric] Some v v3 n en ty d refl] by blast
          moreover have "snd ?c \<le> snd cb" by simp
          ultimately show ?thesis using dispatch_left [OF d] get_left [OF g] by linarith
        qed
      qed
    qed
  qed (use run in simp)
qed

text \<open>C17: What \<^verbatim>\<open>bmp_process_packet\<close> asks to be kept is never more than there was, whatever the packet
  holds. As long as it does not fill the buffer, \<^verbatim>\<open>bmp_packet_adj_offset\<close> moves exactly those last bytes to
  the start of the buffer; a message that fills the whole buffer and is still not complete is discarded,
  the buffer staying as it is.\<close>

theorem bmp_packet_rest:
  assumes run: "bmp_process_packet cfg bms junk buf len s = Inr (t, s1)"
    and "length buf = buf_len" "len \<le> buf_len" "buf_len \<le> BGP_BUFFER_SIZE"
  shows "t \<le> len \<and>
    (if t < buf_len then \<exists>buf1. bmp_packet_adj_offset buf buf_len len t = Inr (t, buf1) \<and>
       take t buf1 = drop (len - t) (take len buf) \<and> length buf1 = buf_len
     else t = buf_len \<and> bmp_packet_adj_offset buf buf_len len t = Inr (0, buf))"
proof -
  have t: "t \<le> len" using run loop_rest [of cfg bms junk buf "(0, len)" s t s1] by (auto simp: bmp_process_packet_def split: if_split_asm)
  show ?thesis
  proof (cases "t < buf_len")
    case True
    let ?bs = "take t (drop (len - t) buf)"
    have len: "length ?bs = t" using t assms(2,3) by simp
    have eq: "?bs = drop (len - t) (take len buf)" using t by (simp add: drop_take)
    have "rd_mem buf (len - t) t = Inr ?bs" using t assms(2,3) by (simp add: rd_mem_def)
    moreover have "wr_mem buf 0 ?bs = Inr (?bs @ drop t buf)" unfolding wr_mem_def len using t assms(2,3) by simp
    moreover have "\<not> (buf_len < len \<or> buf_len \<le> t \<or> len < t)" "\<not> BGP_BUFFER_SIZE < t" using t assms(3,4) True by linarith+
    ultimately have "bmp_packet_adj_offset buf buf_len len t = Inr (t, ?bs @ drop t buf)"
      unfolding bmp_packet_adj_offset_def by (simp only: if_False rbind_simps)
    moreover have "take t (?bs @ drop t buf) = ?bs" using len by simp
    moreover have "length (?bs @ drop t buf) = buf_len" using len assms(2) True by simp
    ultimately have "\<exists>buf1. bmp_packet_adj_offset buf buf_len len t = Inr (t, buf1) \<and>
       take t buf1 = drop (len - t) (take len buf) \<and> length buf1 = buf_len" using eq by metis
    then show ?thesis using t True by simp
  next
    case False
    then show ?thesis using t assms(3) by (simp add: bmp_packet_adj_offset_def)
  qed
qed

theorem bmp_packet_rest_witness:
  "\<exists>buf1. bmp_packet_adj_offset (enc_common 60 0 @ [9]) 7 6 6 = Inr (6, buf1) \<and> take 6 buf1 = enc_common 60 0"
proof -
  have "pending (enc_common 60 0 @ [9]) 0 6"
    using pending_header [of "[]"] common_reads [of "enc_common 60 0 @ [9]" 0 60 0] by (simp add: buf_at_def pending_def)
  then have "bmp_process_packet ex_config ex_daemon (\<lambda>_. addr_image_zero) (enc_common 60 0 @ [9]) 6 ex_router = Inr (6, ex_router)"
    using pending_loop by (simp add: bmp_process_packet_def BMP_COMMON_HDR_def)
  from bmp_packet_rest [OF this, of 7] show ?thesis by (auto simp: BGP_BUFFER_SIZE_def enc_lengths)
qed

section \<open>Inputs on which it goes wrong\<close>

text \<open>C18: The length of a message counts its header, but is compared with the bytes behind the header:
  a packet that is exactly one complete message, of any type, is not processed but kept, until six
  bytes of a next message arrive.\<close>

theorem bmp_last_message_waits:
  assumes "buf_at buf 0 (enc_common n ty)" "6 \<le> n" "n < 2 ^ 32"
  shows "bmp_process_packet cfg bms junk buf n s = Inr (if misc_db (ptype (bm_self s)) then n else 0, s)"
proof -
  have "unat (word_of_nat n :: u32) = n" by (rule unat_of_nat_small [OF assms(3)])
  then have "pending buf 0 n" using common_reads [OF assms(1)] assms(2) unfolding pending_def by (metis add_0 diff_less less_le_trans zero_less_numeral)
  then show ?thesis using pending_loop assms(2) by (simp add: bmp_process_packet_def BMP_COMMON_HDR_def not_less [symmetric])
qed

theorem bmp_last_message_waits_witness:
  "bmp_process_packet ex_config ex_daemon (\<lambda>_. addr_image_zero) (enc_report False ex_report) (length (enc_report False ex_report)) ex_router =
     Inr (length (enc_report False ex_report), ex_router)"
proof -
  let ?u = "enc_update False (rp_update ex_report)"
  have len: "length (enc_report False ex_report) = 48 + length ?u" by (simp add: enc_report_def enc_lengths)
  have at: "buf_at (enc_report False ex_report) 0 (enc_common (48 + length ?u) BMP_MSG_ROUTE_MONITOR)"
    by (simp add: enc_report_def buf_at_def)
  have "length ?u \<le> 4096" using ex_report_ok by (auto simp: enc_update_length BGP_MAX_MSGLEN_def wire_update_def elim: report_okD)
  then show ?thesis using bmp_last_message_waits [OF at] unfolding len by simp
qed

lemma v_flag_set: "(w :: byte) AND 0x80 \<noteq> 1"
proof
  assume "w AND 0x80 = 1"
  then have "(w AND 0x80) AND 1 = 1" by simp
  moreover have "(w AND 0x80) AND 1 = w AND (0x80 AND 1)" by (simp only: and.assoc)
  ultimately show False by simp
qed

lemma v_flag_family: "ph_flags h AND 0x80 \<noteq> 0 \<Longrightarrow> bd_family (peer_data j a h) = 0"
  using v_flag_set [of "ph_flags h"] by (simp add: peer_data_def bmp_peer_hdr_get_v_flag_def Let_def)

text \<open>C19: The flag that marks the address of a peer as an IPv6 address is tested for the value 1, which
  its mask 0x80 never yields: every report about such a peer is dropped. No such peer comes up, none of its
  routes reach the RIB, and its statistics are not logged. At least 66 bytes are left of the packet, so that
  every handler finds its headers.\<close>

theorem bmp_ipv6_peer_ignored:
  assumes "rd_peer_hdr buf p = Inr h" "ph_flags h AND 0x80 \<noteq> 0" "66 \<le> left" "length buf = p + left"
  shows "\<exists>c1 c2 c3 c4. bmp_process_msg_peer_up cfg buf (p, left) s = Inr (c1, s) \<and>
    bmp_process_msg_route_monitor bms junk buf (p, left) s = Inr (c2, s) \<and>
    bmp_process_msg_peer_down bms buf (p, left) s = Inr (c3, s) \<and> bmp_process_msg_stats buf (p, left) s = Inr (c4, s)"
proof -
  have fam: "bd_family (peer_data j a h) = 0" for j a by (rule v_flag_family [OF assms(2)])
  have count: "\<exists>x. rd_be32 buf (p + 42) = Inr x" using assms(3,4) by (simp add: rd_be32_def)
  have "\<exists>c1. bmp_process_msg_peer_up cfg buf (p, left) s = Inr (c1, s)"
    using assms(1,3) fam by (simp add: bmp_process_msg_peer_up_def BMP_PEER_HDR_def BMP_PEER_UP_HDR_def get_ok Let_def)
  moreover have "\<exists>c2. bmp_process_msg_route_monitor bms junk buf (p, left) s = Inr (c2, s)"
    using assms(1,3) fam by (simp add: bmp_process_msg_route_monitor_def BMP_PEER_HDR_def get_ok Let_def)
  moreover have "\<exists>c3. bmp_process_msg_peer_down bms buf (p, left) s = Inr (c3, s)"
    using assms(1,3) fam by (simp add: bmp_process_msg_peer_down_def BMP_PEER_HDR_def BMP_PEER_DOWN_HDR_def get_ok Let_def)
  moreover have "\<exists>c4. bmp_process_msg_stats buf (p, left) s = Inr (c4, s)"
    using assms(1,3) fam count by (auto simp: bmp_process_msg_stats_def BMP_PEER_HDR_def BMP_STATS_HDR_def get_ok Let_def)
  ultimately show ?thesis by blast
qed

theorem bmp_ipv6_peer_ignored_witness:
  "\<exists>c1. bmp_process_msg_peer_up ex_config ([0, 0x80] @ replicate 98 0) (0, 100) ex_router = Inr (c1, ex_router)"
proof -
  let ?buf = "[0, 0x80] @ replicate 98 0 :: byte list"
  let ?h = "\<lparr>ph_type = 0, ph_flags = 0x80, ph_addr = take 16 (drop 10 ?buf), ph_asn = be32 0 0 0 0, ph_bgp_id = take 4 (drop 30 ?buf)\<rparr>"
  have "rd_peer_hdr ?buf 0 = Inr ?h" by (simp add: rd_peer_hdr_def rd_mem_def rd_be32_def rd8_def nth_append nth_Cons)
  from bmp_ipv6_peer_ignored [OF this, where left = 100] show ?thesis by simp
qed

text \<open>C20: The handler of Route Monitoring messages does not clear its data first and writes four of the
  sixteen bytes of an IPv4 address, but peers are found by comparing all bytes. Unless the other bytes
  happen to be zero on the stack, the peer of a report is not found although it is up, and its
  routes are dropped.\<close>

theorem bmp_route_monitor_uninitialised:
  assumes "wire_report r" "buf_at buf p (enc_peer_hdr r)" "42 \<le> left" "length j = 20" "\<not> clean j"
    and peers: "\<forall>(a, q) \<in> set (bm_peers s). \<exists>x. length x = 4 \<and> a = ipv4_image x"
  shows "\<exists>c1. bmp_process_msg_route_monitor bms j buf (p, left) s = Inr (c1, s)"
proof -
  define h where "h = \<lparr>ph_type = rp_type r, ph_flags = rp_flags r, ph_addr = replicate 12 0 @ rp_addr r, ph_asn = rp_asn r, ph_bgp_id = rp_id r\<rparr>"
  note hd = peer_hdr_reads [OF assms(2,1), folded h_def]
  have fl: "rp_flags r AND 0x80 = 0" "length (rp_addr r) = 4" using assms(1) by (simp_all add: wire_report_def)
  have ip: "bd_peer_ip (peer_data j True h) = take 4 (j[0 := AF_INET]) @ rp_addr r @ drop 8 j"
    using fl by (simp add: peer_data_def bmp_peer_hdr_get_v_flag_def bmp_peer_hdr_get_peer_ip_def hdr_get_ip_def Let_def h_def)
  have no: "bd_peer_ip (peer_data j True h) \<noteq> ipv4_image x" if "length x = 4" for x
  proof
    assume "bd_peer_ip (peer_data j True h) = ipv4_image x"
    then have eq: "take 4 (j[0 := AF_INET]) @ rp_addr r @ drop 8 j = [AF_INET, 0, 0, 0] @ x @ replicate 12 0"
      unfolding ip ipv4_image_def .
    have "length (take 4 (j[0 := AF_INET])) = length [AF_INET, 0, 0, 0 :: byte]" using assms(4) by simp
    then have parts: "take 4 (j[0 := AF_INET]) = [AF_INET, 0, 0, 0]" "rp_addr r @ drop 8 j = x @ replicate 12 0"
      using append_eq_append_conv eq by blast+
    then have "drop 8 j = replicate 12 0" using fl(2) that by (simp add: append_eq_append_conv)
    moreover have "take 3 (drop 1 j) = drop 1 (take 4 (j[0 := AF_INET]))" by (simp add: drop_take)
    ultimately show False using assms(5) parts(1) by (simp add: clean_def)
  qed
  have "map_of (bm_peers s) (bd_peer_ip (peer_data j True h)) = None"
  proof (rule ccontr)
    assume "map_of (bm_peers s) (bd_peer_ip (peer_data j True h)) \<noteq> None"
    then obtain q where "(bd_peer_ip (peer_data j True h), q) \<in> set (bm_peers s)" using map_of_SomeD by fastforce
    then show False using peers no by blast
  qed
  then have "pm_tfind (bd_peer_ip (peer_data j True h)) s = None" by (simp add: pm_tfind_def)
  then show ?thesis using assms(3) hd by (auto simp: bmp_process_msg_route_monitor_def BMP_PEER_HDR_def get_ok Let_def)
qed

theorem bmp_route_monitor_uninitialised_witness:
  "\<exists>c1. bmp_process_msg_route_monitor ex_daemon (replicate 20 1) (enc_peer_hdr ex_report) (0, 42) ex_router = Inr (c1, ex_router)"
  by (rule bmp_route_monitor_uninitialised [where r = ex_report])
    (auto simp: buf_at_def clean_def ex_router_def enc_lengths numeral_eq_Suc intro: exI [of _ "[10, 0, 0, 1]"])

text \<open>Counters on the wire: their type and data.\<close>

type_synonym counter = "u16 \<times> byte list"

fun enc_counter :: "counter \<Rightarrow> byte list" where
  "enc_counter (ty, d) = put_be16 ty @ put_be16 (word_of_nat (length d)) @ d"

fun counter_ok :: "counter \<Rightarrow> bool" where
  "counter_ok (ty, d) \<longleftrightarrow> (if ty \<le> 6 then length d = 4 else if ty \<le> 8 then length d = 8 else length d < 65536)"

text \<open>The headers for which data of the length they give is read.\<close>

definition counter_read :: "u16 \<Rightarrow> u16 \<Rightarrow> bool" where
  "counter_read ty len \<longleftrightarrow> (if ty \<le> 6 then len = 4 else if ty \<le> 8 then len = 8 else len = 4 \<or> len = 8)"

lemma counter_data_ok:
  assumes "counter_ok (ty, d)" "buf_at buf p d" "length d \<le> left"
  shows "\<exists>x got. stats_data buf ty (word_of_nat (length d)) (p, left) = Inr (x, got, p + length d, left - length d)"
proof -
  have long: "p + length d \<le> length buf" if "d \<noteq> []" using assms(2) that by (auto simp: buf_at_def)
  have data32: "\<exists>x. bmp_stats_cnt_get_data32 buf (p, left) = Inr (x, p + 4, left - 4)" if "length d = 4"
  proof -
    have "p + 4 \<le> length buf" using that long by fastforce
    then show ?thesis using that assms(3) by (simp add: bmp_stats_cnt_get_data32_def get_ok rd_be32_def rd8_def)
  qed
  have data64: "\<exists>x. bmp_stats_cnt_get_data64 buf (p, left) = Inr (x, p + 8, left - 8)" if "length d = 8"
  proof -
    have "p + 8 \<le> length buf" using that long by fastforce
    then show ?thesis using that assms(3) by (simp add: bmp_stats_cnt_get_data64_def get_ok rd_be32_def rd8_def)
  qed
  have small: "unat (word_of_nat k :: u16) = k" if "k < 65536" for k by (subst unat_of_nat, rule mod_less, use that in simp)
  have w: "(word_of_nat (length d) :: u16) = word_of_nat n \<longleftrightarrow> length d = n" if "length d < 65536" "n < 65536" for n
    using that small by metis
  consider "length d = 4" | "length d = 8" | "length d \<noteq> 4" "length d \<noteq> 8" "8 < ty" "length d < 65536"
    using assms(1) by (auto simp: not_le split: if_split_asm)
  then show ?thesis
  proof cases
    case 1
    then show ?thesis using data32 assms(1) by (auto simp: stats_data_def Let_def split: if_split_asm)
  next
    case 2
    then show ?thesis using data64 assms(1) by (auto simp: stats_data_def Let_def split: if_split_asm)
  next
    case 3
    have "\<not> ty \<le> 6" "\<not> ty \<le> 8" using 3(3) by (simp_all add: word_le_nat_alt word_less_nat_alt)
    moreover have "(word_of_nat (length d) :: u16) \<noteq> 4" "(word_of_nat (length d) :: u16) \<noteq> 8"
      using w [of 4] w [of 8] 3 by simp_all
    ultimately show ?thesis using small [OF 3(4)] assms(3) by (intro exI [of _ 0] exI [of _ False]) (simp add: stats_data_def Let_def get_ok)
  qed
qed

lemma stats_loop_cut:
  assumes "counter_read ty len" "length xs < unat len" "length cs < n" "list_all counter_ok cs"
    "buf_at buf p (concat (map enc_counter cs) @ put_be16 ty @ put_be16 len @ xs)"
  shows "stats_loop buf bd n (p, length (concat (map enc_counter cs)) + (4 + length xs)) s = Inl Null_Deref"
  using assms(3-5)
proof (induction cs arbitrary: n p s)
  case Nil
  then have "rd_be16 buf p = Inr ty" "rd_be16 buf (p + 2) = Inr len" by (simp_all add: buf_at_put_be16)
  moreover have "\<not> ty \<le> 6 \<Longrightarrow> \<not> ty \<le> 8 \<Longrightarrow> len = 4 \<or> len = 8" "ty \<le> 6 \<Longrightarrow> len = 4" "\<not> ty \<le> 6 \<Longrightarrow> ty \<le> 8 \<Longrightarrow> len = 8"
    using assms(1) by (simp_all add: counter_read_def)
  ultimately show ?case
    using Nil.prems(1) assms(2) by (subst stats_loop.simps)
      (auto simp: BMP_TLV_HDR_def get_ok stats_data_def bmp_stats_cnt_get_data32_def bmp_stats_cnt_get_data64_def get_short Let_def)
next
  case (Cons c cs)
  obtain cty d where c: "c = (cty, d)" by (cases c)
  define L where "L = length (concat (map enc_counter cs)) + (4 + length xs)"
  have at: "buf_at buf p (put_be16 cty)" "buf_at buf (p + 2) (put_be16 (word_of_nat (length d)))" "buf_at buf (p + 4) d"
    "buf_at buf (p + 4 + length d) (concat (map enc_counter cs) @ put_be16 ty @ put_be16 len @ xs)"
  proof -
    define R where "R = concat (map enc_counter cs) @ put_be16 ty @ put_be16 len @ xs"
    have "buf_at buf p (put_be16 cty @ put_be16 (word_of_nat (length d)) @ d @ R)" using Cons.prems(3) unfolding R_def c by simp
    then show "buf_at buf p (put_be16 cty)" "buf_at buf (p + 2) (put_be16 (word_of_nat (length d)))" "buf_at buf (p + 4) d"
      "buf_at buf (p + 4 + length d) R" unfolding buf_at_append by (simp_all add: numeral_eq_Suc)
  qed
  obtain x got where d: "stats_data buf cty (word_of_nat (length d)) (p + 4, length d + L) = Inr (x, got, p + 4 + length d, L)"
    using counter_data_ok [OF _ at(3), of cty "length d + L"] Cons.prems(2) by (auto simp: c)
  have rd: "rd_be16 buf p = Inr cty" "rd_be16 buf (p + 2) = Inr (word_of_nat (length d))" using at(1,2) by (simp_all add: buf_at_put_be16)
  have left: "length (concat (map enc_counter (c # cs))) + (4 + length xs) = 4 + (length d + L)" by (simp add: c L_def)
  have n: "n \<noteq> 0" "length cs < n - 1" using Cons.prems(1) by simp_all
  have "stats_loop buf bd n (p, 4 + (length d + L)) s =
      stats_loop buf bd (n - 1) (p + 4 + length d, L) (bmp_log (Ev_Stats bd cty x got) s)"
    by (subst stats_loop.simps) (use n rd d in \<open>simp add: BMP_TLV_HDR_def get_ok\<close>)
  then show ?case unfolding left using Cons.IH [OF n(2) _ at(4)] Cons.prems(2) by (simp add: L_def)
qed

text \<open>C21: The result of the length check for a counter is not tested. A Statistics Report of a peer with an
  IPv4 address that announces more counters than the packet holds makes the daemon read from NULL: behind
  any number of complete counters stands the header of one more, of a type and length that are read, and
  the packet ends within its data. The length of the message does not matter, as the handler goes by the
  end of the packet; it must only be six bytes short of that, for the message to be taken as complete.\<close>

theorem bmp_stats_overrun:
  assumes "buf_at buf 0 (enc_common n BMP_MSG_STATS @ enc_peer_hdr r @ put_be32 cnt @ concat (map enc_counter cs) @
      put_be16 ty @ put_be16 clen @ xs)" "wire_report r" "misc_db (ptype (bm_self s))"
    "list_all counter_ok cs" "length cs < unat cnt" "counter_read ty clen" "length xs < unat clen"
    "len = 52 + length (concat (map enc_counter cs)) + 4 + length xs" "n + 6 \<le> len" "n < 2 ^ 32"
  shows "bmp_process_packet cfg bms junk buf len s = Inl Null_Deref"
proof -
  let ?cs = "concat (map enc_counter cs)"
  define L where "L = length ?cs + (4 + length xs)"
  have at: "buf_at buf 0 (enc_common n BMP_MSG_STATS)" "buf_at buf 6 (enc_peer_hdr r)" "buf_at buf 48 (put_be32 cnt)"
    "buf_at buf 52 (?cs @ put_be16 ty @ put_be16 clen @ xs)"
    using assms(1) unfolding buf_at_append enc_lengths(1) enc_lengths(2) [OF assms(2)] by simp_all
  note rd = common_reads [OF at(1)] and hd = peer_hdr_reads [OF at(2) assms(2)] and counts = buf_at_put_be32 [OF at(3)]
  have fl: "rp_flags r AND 0x80 = 0" using assms(2) by (simp add: wire_report_def)
  have fam: "bd_family (peer_data addr_image_zero False \<lparr>ph_type = rp_type r, ph_flags = rp_flags r, ph_addr = replicate 12 0 @ rp_addr r,
      ph_asn = rp_asn r, ph_bgp_id = rp_id r\<rparr>) \<noteq> 0"
    using fl by (simp add: peer_data_def bmp_peer_hdr_get_v_flag_def AF_INET_def)
  have "stats_loop buf bd (unat cnt) (52, L) s = Inl Null_Deref" for bd
    unfolding L_def by (rule stats_loop_cut [OF assms(6,7,5,4) at(4)])
  then have "bmp_process_msg_stats buf (6, 46 + L) s = Inl Null_Deref"
    using hd counts fam assms(3) by (simp add: bmp_process_msg_stats_def BMP_PEER_HDR_def BMP_STATS_HDR_def get_ok Let_def)
  moreover have "unat (word_of_nat n :: u32) = n" by (rule unat_of_nat_small) (use assms(10) in simp)
  moreover have "len - 6 = 46 + L" "6 \<le> len" using assms(8) by (simp_all add: L_def)
  ultimately have "bmp_loop cfg bms junk buf (0, len) s = Inl Null_Deref"
    using rd(3) assms(9) loop_fetch [OF _ rd(1,2), of len cfg bms junk s]
    by (simp add: bmp_dispatch_def BMP_MSG_STATS_def BMP_MSG_ROUTE_MONITOR_def)
  then show ?thesis using assms(3,8) by (simp add: bmp_process_packet_def BMP_COMMON_HDR_def)
qed

theorem bmp_stats_overrun_witness:
  "bmp_process_packet ex_config ex_daemon (\<lambda>_. addr_image_zero)
     (enc_common 52 BMP_MSG_STATS @ enc_peer_hdr ex_report @ put_be32 2 @ concat (map enc_counter [(0, [0, 0, 0, 9])]) @
        put_be16 7 @ put_be16 8 @ [1, 2]) 66 ex_router = Inl Null_Deref"
proof -
  let ?buf = "enc_common 52 BMP_MSG_STATS @ enc_peer_hdr ex_report @ put_be32 2 @ concat (map enc_counter [(0, [0, 0, 0, 9])]) @
        put_be16 7 @ put_be16 8 @ [1, 2]"
  have at: "buf_at ?buf 0 ?buf" by (simp add: buf_at_def)
  show ?thesis
    by (rule bmp_stats_overrun [OF at]) (simp_all add: counter_read_def)
qed

end
