(* ===== verification/Nf9_Template.thy ===== *)
theory Nf9_Template
  imports Bgp_Attr Bgp_Prefix Wire
begin

text \<open>
  NetFlow v9 and IPFIX templates: \<^verbatim>\<open>src/src/nfv9_template.c\<close> with the structures of \<^verbatim>\<open>src/src/nfacctd.h\<close>.
  A template lists the fields of the data records that follow. It is turned into a table of
  offsets and lengths, kept in a cache by exporter, observation domain and template id, and used
  to read the records. Templates with fields of variable length are resolved once per record.
  Pointers into the packet are offsets into \<open>buf\<close>; a pointer to a cached template is its bucket and its
  position in the chain, from which nothing is ever removed. Template ids are kept as \<^verbatim>\<open>ntohs\<close> gives
  them. Logging and the file of templates are left out.
\<close>

section \<open>Data\<close>

definition NF9_MAX_DEFINED_FIELD :: nat where "NF9_MAX_DEFINED_FIELD = 384"
definition IES_PER_TPL_EXT_DB_ENTRY :: nat where "IES_PER_TPL_EXT_DB_ENTRY = 32"
definition TPL_EXT_DB_ENTRIES :: nat where "TPL_EXT_DB_ENTRIES = 8"
definition TPL_LIST_ENTRIES :: nat where "TPL_LIST_ENTRIES = 256"
definition TPL_TYPE_LEGACY :: byte where "TPL_TYPE_LEGACY = 0"
definition TPL_TYPE_EXT_DB :: byte where "TPL_TYPE_EXT_DB = 1"
definition IPFIX_TPL_EBIT :: u16 where "IPFIX_TPL_EBIT = 0x8000"
definition IPFIX_VARIABLE_LENGTH :: u16 where "IPFIX_VARIABLE_LENGTH = 65535"
definition TEMPLATE_CACHE_ENTRIES :: nat where "TEMPLATE_CACHE_ENTRIES = 255"

text \<open>The sizes \<^verbatim>\<open>NfTplHdrV9Sz\<close>, \<^verbatim>\<open>NfOptTplHdrV9Sz\<close> and \<^verbatim>\<open>NfTplFieldV9Sz\<close>.\<close>

definition NfTplHdrV9Sz :: nat where "NfTplHdrV9Sz = 4"
definition NfOptTplHdrV9Sz :: nat where "NfOptTplHdrV9Sz = 6"
definition NfTplFieldV9Sz :: nat where "NfTplFieldV9Sz = 4"

record otpl_field =
  of_off :: u16
  of_len :: u16
  of_tpl_len :: u16

record utpl_field =
  uf_pen :: u32
  uf_type :: u16
  uf_off :: u16
  uf_len :: u16
  uf_tpl_len :: u16
  uf_repeat_id :: byte

text \<open>A \<^verbatim>\<open>char *\<close> of the ordered list points to \<^verbatim>\<open>tpl[t]\<close> or to \<^verbatim>\<open>ext_db[b].ie[i]\<close> of the same template.\<close>

datatype field_ptr = In_Tpl nat | In_Ext nat nat

record tpl_field_list =
  lf_type :: byte
  lf_ptr :: "field_ptr option"

text \<open>The arrays are functions of the index; accesses beyond their bounds are faults.\<close>

record template_cache_entry =
  te_agent :: host_addr
  te_source_id :: u32
  te_template_id :: u16
  te_template_type :: u16
  te_num :: u16
  te_len :: u16
  te_vlen :: bool
  te_tpl :: "nat \<Rightarrow> otpl_field"
  te_ext_db :: "nat \<Rightarrow> nat \<Rightarrow> utpl_field"
  te_list :: "nat \<Rightarrow> tpl_field_list"

text \<open>What the decoder keeps: the buckets of \<^verbatim>\<open>tpl_cache\<close>, \<^verbatim>\<open>xflow_tot_bad_datagrams\<close>, the records found so
  far and \<^verbatim>\<open>FlowSeqInc\<close>. A record is its place in the packet with the template as it is at that moment,
  the flow type and the direction.\<close>

datatype flow_record =
    Data_Record nat template_cache_entry byte u16
  | Options_Record nat template_cache_entry

record nf_state =
  nf_cache :: "nat \<Rightarrow> template_cache_entry list"
  nf_bad :: u32
  nf_records :: "flow_record list"
  nf_seq_inc :: u16

type_synonym tpl_ptr = "nat \<times> nat"

section \<open>Exporters\<close>

text \<open>The socket address an exporter sends from: four or sixteen bytes.\<close>

record sockaddr =
  so_family :: u16
  so_addr :: "byte list"

definition sa_to_addr :: "sockaddr \<Rightarrow> host_addr \<Rightarrow> host_addr" where
  "sa_to_addr sa a =
     (if so_family sa = ucast AF_INET then a\<lparr>ha_family := AF_INET, ha_address := so_addr sa @ drop 4 (ha_address a)\<rparr>
      else if so_family sa = ucast AF_INET6 then a\<lparr>ha_family := AF_INET6, ha_address := so_addr sa\<rparr>
      else host_addr_zero)"

text \<open>The IPv6 form of an IPv4 address.\<close>

definition mapped6 :: "byte list \<Rightarrow> byte list" where
  "mapped6 a4 = replicate 10 0 @ [0xFF, 0xFF] @ a4"

text \<open>0 when the addresses are the same.\<close>

definition sa_addr_cmp :: "sockaddr \<Rightarrow> host_addr \<Rightarrow> int" where
  "sa_addr_cmp sa a =
     (if ha_family a = AF_INET \<and> so_family sa = ucast AF_INET then
        (if so_addr sa = take 4 (ha_address a) then 0 else 1)
      else if ha_family a = AF_INET6 \<and> so_family sa = ucast AF_INET6 then
        (if so_addr sa = ha_address a then 0 else 1)
      else if ha_family a = AF_INET \<and> so_family sa = ucast AF_INET6 then
        (if so_addr sa = mapped6 (take 4 (ha_address a)) then 0 else 1)
      else if ha_family a = AF_INET6 \<and> so_family sa = ucast AF_INET then
        (if mapped6 (so_addr sa) = ha_address a then 0 else 1)
      else -1)"

section \<open>Fields\<close>

text \<open>\<^verbatim>\<open>ext_db_get_ie\<close> and \<^verbatim>\<open>ext_db_get_next_ie\<close>: the entry of a field, and the first free entry with the
  number of entries of the type before it.\<close>

function get_ie :: "(nat \<Rightarrow> utpl_field) \<Rightarrow> u32 \<Rightarrow> u16 \<Rightarrow> byte \<Rightarrow> nat \<Rightarrow> nat option" where
  "get_ie ies pen ty repeat_id i =
     (if \<not> i < IES_PER_TPL_EXT_DB_ENTRY then None
      else if uf_type (ies i) = ty \<and> uf_pen (ies i) = pen \<and> uf_repeat_id (ies i) = repeat_id then Some i
      else get_ie ies pen ty repeat_id (i + 1))"
  by pat_completeness auto
termination
  by (relation "measure (\<lambda>(_, _, _, _, i). IES_PER_TPL_EXT_DB_ENTRY - i)") auto

declare get_ie.simps [simp del]

definition ext_db_get_ie :: "template_cache_entry \<Rightarrow> u32 \<Rightarrow> u16 \<Rightarrow> byte \<Rightarrow> field_ptr option" where
  "ext_db_get_ie e pen ty repeat_id =
     (let b = unat ty mod TPL_EXT_DB_ENTRIES in map_option (In_Ext b) (get_ie (te_ext_db e b) pen ty repeat_id 0))"

function next_ie :: "(nat \<Rightarrow> utpl_field) \<Rightarrow> u16 \<Rightarrow> nat \<Rightarrow> byte \<Rightarrow> byte \<times> nat option" where
  "next_ie ies ty i repeat_id =
     (if \<not> i < IES_PER_TPL_EXT_DB_ENTRY then (repeat_id, None)
      else
        let repeat_id1 = (if uf_type (ies i) = ty then repeat_id + 1 else repeat_id)
        in if uf_type (ies i) = 0 then (repeat_id1, Some i) else next_ie ies ty (i + 1) repeat_id1)"
  by pat_completeness auto
termination
  by (relation "measure (\<lambda>(_, _, i, _). IES_PER_TPL_EXT_DB_ENTRY - i)") auto

declare next_ie.simps [simp del]

definition ext_db_get_next_ie :: "template_cache_entry \<Rightarrow> u16 \<Rightarrow> byte \<times> nat option" where
  "ext_db_get_next_ie e ty = next_ie (te_ext_db e (unat ty mod TPL_EXT_DB_ENTRIES)) ty 0 0"

definition put_list :: "nat \<Rightarrow> tpl_field_list \<Rightarrow> template_cache_entry \<Rightarrow> template_cache_entry res" where
  "put_list i x e = (if i < TPL_LIST_ENTRIES then Inr (e\<lparr>te_list := (te_list e)(i := x)\<rparr>) else Inl Out_Of_Bounds)"

definition put_ie :: "nat \<Rightarrow> nat \<Rightarrow> utpl_field \<Rightarrow> template_cache_entry \<Rightarrow> template_cache_entry" where
  "put_ie b i x e = e\<lparr>te_ext_db := (te_ext_db e)(b := (te_ext_db e b)(i := x))\<rparr>"

text \<open>The \<open>count\<close>-th field of a data template, of a type in the registry.\<close>

definition legacy_field :: "nat \<Rightarrow> u16 \<Rightarrow> u16 \<Rightarrow> template_cache_entry \<Rightarrow> template_cache_entry res" where
  "legacy_field count ty flen e =
     (let t = unat ty;
          f = (te_tpl e t)\<lparr>of_off := (if te_vlen e then 0 else te_len e), of_tpl_len := flen,
                of_len := (if flen = IPFIX_VARIABLE_LENGTH then 0 else flen)\<rparr>;
          e1 = (if flen = IPFIX_VARIABLE_LENGTH then e\<lparr>te_vlen := True, te_len := 0\<rparr>
                else if te_vlen e then e else e\<lparr>te_len := te_len e + flen\<rparr>)
      in put_list count \<lparr>lf_type = TPL_TYPE_LEGACY, lf_ptr = Some (In_Tpl t)\<rparr> (e1\<lparr>te_tpl := (te_tpl e)(t := f)\<rparr>))"

text \<open>The same for a field with an enterprise number or a type beyond the registry; when its row is
  full the list gets a NULL pointer.\<close>

definition ext_field :: "nat \<Rightarrow> u16 \<Rightarrow> u16 \<Rightarrow> u32 option \<Rightarrow> template_cache_entry \<Rightarrow> template_cache_entry res" where
  "ext_field count ty flen pen e =
     (case ext_db_get_next_ie e ty of
        (repeat_id, None) \<Rightarrow> put_list count \<lparr>lf_type = TPL_TYPE_EXT_DB, lf_ptr = None\<rparr> e
      | (repeat_id, Some i) \<Rightarrow>
          let b = unat ty mod TPL_EXT_DB_ENTRIES;
              f0 = te_ext_db e b i;
              f = f0\<lparr>uf_pen := (case pen of None \<Rightarrow> uf_pen f0 | Some n \<Rightarrow> n), uf_type := ty,
                uf_off := (if te_vlen e then 0 else te_len e), uf_tpl_len := flen, uf_repeat_id := repeat_id,
                uf_len := (if flen = IPFIX_VARIABLE_LENGTH then 0 else flen)\<rparr>;
              e1 = (if flen = IPFIX_VARIABLE_LENGTH then e\<lparr>te_vlen := True, te_len := 0\<rparr>
                    else if te_vlen e then e else e\<lparr>te_len := te_len e + flen\<rparr>)
          in put_list count \<lparr>lf_type = TPL_TYPE_EXT_DB, lf_ptr = Some (In_Ext b i)\<rparr> (put_ie b i f e1))"

definition tpl_field :: "nat \<Rightarrow> u16 \<Rightarrow> u16 \<Rightarrow> u32 option \<Rightarrow> template_cache_entry \<Rightarrow> template_cache_entry res" where
  "tpl_field count ty flen pen e =
     (if unat ty < NF9_MAX_DEFINED_FIELD \<and> pen = None then legacy_field count ty flen e else ext_field count ty flen pen e)"

text \<open>A field as it stands in the packet: type, length and enterprise number.\<close>

definition rd_field :: "byte list \<Rightarrow> byte \<Rightarrow> nat \<Rightarrow> (u16 \<times> u16 \<times> u32 option) res" where
  "rd_field buf version p =
     rbind (rd_be16 buf p) (\<lambda>ty. rbind (rd_be16 buf (p + 2)) (\<lambda>flen.
       if ty AND IPFIX_TPL_EBIT \<noteq> 0 \<and> version = 10 then
         rbind (rd_be32 buf (p + 4)) (\<lambda>pen. Inr (ty XOR IPFIX_TPL_EBIT, flen, Some pen))
       else Inr (ty, flen, None)))"

definition field_size :: "u32 option \<Rightarrow> nat" where
  "field_size pen = (if pen = None then NfTplFieldV9Sz else NfTplFieldV9Sz + 4)"

section \<open>Data templates\<close>

text \<open>The loop over the fields, from \<open>p\<close> on; \<open>None\<close> when the flowset ends before them. \<open>pens\<close> counts the
  enterprise numbers.\<close>

function tpl_fields :: "byte list \<Rightarrow> byte \<Rightarrow> u16 \<Rightarrow> u16 \<Rightarrow> nat \<Rightarrow> u16 \<Rightarrow> u16 \<Rightarrow> u16 \<Rightarrow> template_cache_entry \<Rightarrow>
    (template_cache_entry option \<times> u16) res" where
  "tpl_fields buf version num len p count off pens e =
     (if \<not> count < num then Inr (Some e, pens)
      else if len \<le> off then Inr (None, pens)
      else
        rbind (rd_field buf version p) (\<lambda>(ty, flen, pen).
        rbind (tpl_field (unat count) ty flen pen e) (\<lambda>e1.
          tpl_fields buf version num len (p + field_size pen) (count + 1) (off + word_of_nat (field_size pen))
            (if pen = None then pens else pens + 1) e1)))"
  by pat_completeness auto
termination
proof (relation "measure (\<lambda>(_, _, num, _, _, count, _). unat num - unat count)", goal_cases)
  case (2 buf version num len p count off pens e x y z ty flen pen)
  then have "unat count < unat num" by (simp add: word_less_nat_alt)
  moreover from this have "unat (count + 1) = unat count + 1" using unat_u16_less [of num] by (simp add: unat_word_ariths)
  ultimately show ?case by simp
qed simp

declare tpl_fields.simps [simp del]

definition template_init :: "sockaddr \<Rightarrow> u32 \<Rightarrow> u16 \<Rightarrow> u16 \<Rightarrow> u16 \<Rightarrow> template_cache_entry" where
  "template_init agent sid tid ttype num =
     \<lparr>te_agent = sa_to_addr agent host_addr_zero, te_source_id = sid, te_template_id = tid, te_template_type = ttype,
      te_num = num, te_len = 0, te_vlen = False, te_tpl = (\<lambda>_. \<lparr>of_off = 0, of_len = 0, of_tpl_len = 0\<rparr>),
      te_ext_db = (\<lambda>_ _. \<lparr>uf_pen = 0, uf_type = 0, uf_off = 0, uf_len = 0, uf_tpl_len = 0, uf_repeat_id = 0\<rparr>),
      te_list = (\<lambda>_. \<lparr>lf_type = 0, lf_ptr = None\<rparr>)\<rparr>"

definition data_template :: "byte list \<Rightarrow> nat \<Rightarrow> sockaddr \<Rightarrow> u32 \<Rightarrow> byte \<Rightarrow> u16 \<Rightarrow> (template_cache_entry option \<times> u16) res" where
  "data_template buf hdr agent sid version len =
     rbind (rd_be16 buf hdr) (\<lambda>tid. rbind (rd_be16 buf (hdr + 2)) (\<lambda>num.
       tpl_fields buf version num len (hdr + NfTplHdrV9Sz) 0 (word_of_nat NfTplHdrV9Sz) 0 (template_init agent sid tid 0 num)))"

section \<open>Options templates\<close>

text \<open>The length of a field outside the registry has its bytes swapped once more when it is added up, and
  is taken from NULL when the row of the field is full.\<close>

definition opt_field :: "nat \<Rightarrow> u16 \<Rightarrow> u16 \<Rightarrow> u32 option \<Rightarrow> template_cache_entry \<Rightarrow> template_cache_entry res" where
  "opt_field count ty flen pen e =
     (if unat ty < NF9_MAX_DEFINED_FIELD \<and> pen = None then
        let t = unat ty
        in Inr (e\<lparr>te_tpl := (te_tpl e)(t := (te_tpl e t)\<lparr>of_off := te_len e, of_len := flen\<rparr>), te_len := te_len e + flen\<rparr>)
      else
        case ext_db_get_next_ie e ty of
          (repeat_id, None) \<Rightarrow>
            rbind (put_list count \<lparr>lf_type = TPL_TYPE_EXT_DB, lf_ptr = None\<rparr> e) (\<lambda>e1. Inl Null_Deref)
        | (repeat_id, Some i) \<Rightarrow>
            let b = unat ty mod TPL_EXT_DB_ENTRIES;
                f0 = te_ext_db e b i;
                f = f0\<lparr>uf_pen := (case pen of None \<Rightarrow> uf_pen f0 | Some n \<Rightarrow> n), uf_type := ty, uf_off := te_len e,
                  uf_tpl_len := flen, uf_repeat_id := repeat_id, uf_len := flen\<rparr>
            in rbind (put_list count \<lparr>lf_type = TPL_TYPE_EXT_DB, lf_ptr = Some (In_Ext b i)\<rparr> (put_ie b i f e)) (\<lambda>e1.
                 Inr (e1\<lparr>te_len := te_len e1 + bswap16 flen\<rparr>)))"

text \<open>The loop counts down.\<close>

function opt_fields :: "byte list \<Rightarrow> byte \<Rightarrow> u16 \<Rightarrow> nat \<Rightarrow> u16 \<Rightarrow> u16 \<Rightarrow> u16 \<Rightarrow> template_cache_entry \<Rightarrow>
    (template_cache_entry option \<times> u16) res" where
  "opt_fields buf version len p count off pens e =
     (if count = 0 then Inr (Some e, pens)
      else if len \<le> off then Inr (None, pens)
      else
        rbind (rd_field buf version p) (\<lambda>(ty, flen, pen).
        rbind (opt_field (unat count) ty flen pen e) (\<lambda>e1.
          opt_fields buf version len (p + field_size pen) (count - 1) (off + word_of_nat (field_size pen))
            (if pen = None then pens else pens + 1) e1)))"
  by pat_completeness auto
termination
  by (relation "measure (\<lambda>(_, _, _, _, count, _). unat count)") (auto simp: measure_unat)

declare opt_fields.simps [simp del]

text \<open>Numbers of scope and option fields, for NetFlow v9 (\<open>tpl_type\<close> 1) and IPFIX (3).\<close>

definition opt_counts :: "byte list \<Rightarrow> nat \<Rightarrow> u16 \<Rightarrow> (u16 \<times> u16) res" where
  "opt_counts buf hdr tpl_type =
     rbind (rd_be16 buf (hdr + 2)) (\<lambda>x. rbind (rd_be16 buf (hdr + 4)) (\<lambda>y.
       if tpl_type = 1 then Inr (x div 4, y div 4) else Inr (y, x - y)))"

definition options_template :: "byte list \<Rightarrow> nat \<Rightarrow> sockaddr \<Rightarrow> u16 \<Rightarrow> u32 \<Rightarrow> byte \<Rightarrow> u16 \<Rightarrow> (template_cache_entry option \<times> u16) res" where
  "options_template buf hdr agent tpl_type sid version len =
     rbind (rd_be16 buf hdr) (\<lambda>tid. rbind (opt_counts buf hdr tpl_type) (\<lambda>(slen, olen).
       opt_fields buf version len (hdr + NfOptTplHdrV9Sz) (olen + slen) (word_of_nat NfOptTplHdrV9Sz) 0
         (template_init agent sid tid 1 (olen + slen))))"

section \<open>The cache\<close>

definition tpl_key :: "u16 \<Rightarrow> sockaddr \<Rightarrow> u32 \<Rightarrow> template_cache_entry \<Rightarrow> bool" where
  "tpl_key tid agent sid e \<longleftrightarrow> te_template_id e = tid \<and> sa_addr_cmp agent (te_agent e) = 0 \<and> te_source_id e = sid"

fun find_chain :: "(template_cache_entry \<Rightarrow> bool) \<Rightarrow> template_cache_entry list \<Rightarrow> nat \<Rightarrow> nat option" where
  "find_chain key [] i = None"
| "find_chain key (e # es) i = (if key e then Some i else find_chain key es (i + 1))"

definition find_template :: "u16 \<Rightarrow> sockaddr \<Rightarrow> u32 \<Rightarrow> nf_state \<Rightarrow> tpl_ptr option" where
  "find_template tid agent sid s =
     (let b = unat tid mod TEMPLATE_CACHE_ENTRIES in map_option (Pair b) (find_chain (tpl_key tid agent sid) (nf_cache s b) 0))"

definition get_tpl :: "tpl_ptr \<Rightarrow> nf_state \<Rightarrow> template_cache_entry res" where
  "get_tpl tp s = (if snd tp < length (nf_cache s (fst tp)) then Inr (nf_cache s (fst tp) ! snd tp) else Inl Use_After_Free)"

definition put_tpl :: "tpl_ptr \<Rightarrow> template_cache_entry \<Rightarrow> nf_state \<Rightarrow> nf_state" where
  "put_tpl tp e s = s\<lparr>nf_cache := (nf_cache s)(fst tp := (nf_cache s (fst tp))[snd tp := e])\<rparr>"

definition bad_datagram :: "nf_state \<Rightarrow> nf_state" where
  "bad_datagram s = s\<lparr>nf_bad := nf_bad s + 1\<rparr>"

text \<open>What \<^verbatim>\<open>insert_template\<close> and \<^verbatim>\<open>insert_opt_template\<close> do with the entry they have built, or failed to build: it
  is put at the end of its chain.\<close>

definition insert_entry :: "u16 \<Rightarrow> template_cache_entry option \<Rightarrow> nf_state \<Rightarrow> tpl_ptr option \<times> nf_state" where
  "insert_entry tid oe s =
     (let b = unat tid mod TEMPLATE_CACHE_ENTRIES in
      case oe of
        None \<Rightarrow> (None, bad_datagram s)
      | Some e \<Rightarrow> (Some (b, length (nf_cache s b)), s\<lparr>nf_cache := (nf_cache s)(b := nf_cache s b @ [e])\<rparr>))"

text \<open>And \<^verbatim>\<open>refresh_template\<close> and \<^verbatim>\<open>refresh_opt_template\<close>: the entry is built in place of the old one, which is
  copied back on failure.\<close>

definition refresh_entry :: "tpl_ptr \<Rightarrow> template_cache_entry option \<Rightarrow> nf_state \<Rightarrow> tpl_ptr option \<times> nf_state" where
  "refresh_entry tp oe s = (case oe of None \<Rightarrow> (None, bad_datagram s) | Some e \<Rightarrow> (Some tp, put_tpl tp e s))"

definition insert_template :: "byte list \<Rightarrow> nat \<Rightarrow> sockaddr \<Rightarrow> u32 \<Rightarrow> byte \<Rightarrow> u16 \<Rightarrow> nf_state \<Rightarrow> (tpl_ptr option \<times> u16 \<times> nf_state) res" where
  "insert_template buf hdr agent sid version len s =
     rbind (rd_be16 buf hdr) (\<lambda>tid. rbind (data_template buf hdr agent sid version len) (\<lambda>(oe, pens).
       let (tp, s1) = insert_entry tid oe s in Inr (tp, pens, s1)))"

definition refresh_template :: "byte list \<Rightarrow> nat \<Rightarrow> tpl_ptr \<Rightarrow> sockaddr \<Rightarrow> u32 \<Rightarrow> byte \<Rightarrow> u16 \<Rightarrow> nf_state \<Rightarrow> (tpl_ptr option \<times> u16 \<times> nf_state) res" where
  "refresh_template buf hdr tp agent sid version len s =
     rbind (data_template buf hdr agent sid version len) (\<lambda>(oe, pens).
       let (tp1, s1) = refresh_entry tp oe s in Inr (tp1, pens, s1))"

definition insert_opt_template :: "byte list \<Rightarrow> nat \<Rightarrow> sockaddr \<Rightarrow> u16 \<Rightarrow> u32 \<Rightarrow> byte \<Rightarrow> u16 \<Rightarrow> nf_state \<Rightarrow>
    (tpl_ptr option \<times> u16 \<times> nf_state) res" where
  "insert_opt_template buf hdr agent tpl_type sid version len s =
     rbind (rd_be16 buf hdr) (\<lambda>tid. rbind (options_template buf hdr agent tpl_type sid version len) (\<lambda>(oe, pens).
       let (tp, s1) = insert_entry tid oe s in Inr (tp, pens, s1)))"

definition refresh_opt_template :: "byte list \<Rightarrow> nat \<Rightarrow> tpl_ptr \<Rightarrow> sockaddr \<Rightarrow> u16 \<Rightarrow> u32 \<Rightarrow> byte \<Rightarrow> u16 \<Rightarrow> nf_state \<Rightarrow>
    (tpl_ptr option \<times> u16 \<times> nf_state) res" where
  "refresh_opt_template buf hdr tp agent tpl_type sid version len s =
     rbind (options_template buf hdr agent tpl_type sid version len) (\<lambda>(oe, pens).
       let (tp1, s1) = refresh_entry tp oe s in Inr (tp1, pens, s1))"

definition handle_template :: "byte list \<Rightarrow> nat \<Rightarrow> sockaddr \<Rightarrow> u16 \<Rightarrow> u32 \<Rightarrow> u16 \<Rightarrow> nf_state \<Rightarrow> (tpl_ptr option \<times> u16 \<times> nf_state) res" where
  "handle_template buf hdr agent tpl_type sid len s =
     (let version = (if tpl_type = 0 \<or> tpl_type = 1 then 9 else if tpl_type = 2 \<or> tpl_type = 3 then 10 else 0) in
      if tpl_type = 0 \<or> tpl_type = 2 then
        rbind (rd_be16 buf hdr) (\<lambda>tid. case find_template tid agent sid s of
          Some tp \<Rightarrow> refresh_template buf hdr tp agent sid version len s
        | None \<Rightarrow> insert_template buf hdr agent sid version len s)
      else if tpl_type = 1 \<or> tpl_type = 3 then
        rbind (rd_be16 buf hdr) (\<lambda>tid. case find_template tid agent sid s of
          Some tp \<Rightarrow> refresh_opt_template buf hdr tp agent tpl_type sid version len s
        | None \<Rightarrow> insert_opt_template buf hdr agent tpl_type sid version len s)
      else Inr (None, 0, s))"

section \<open>Fields of variable length\<close>

definition get_ipfix_vlen :: "byte list \<Rightarrow> nat \<Rightarrow> (nat \<times> u16) res" where
  "get_ipfix_vlen buf base =
     rbind (rd8 buf base) (\<lambda>len8. if len8 < 255 then Inr (1, ucast len8)
       else rbind (rd_be16 buf (base + 1)) (\<lambda>len16. Inr (3, len16)))"

fun fld_tpl_len :: "template_cache_entry \<Rightarrow> field_ptr \<Rightarrow> u16" where
  "fld_tpl_len e (In_Tpl t) = of_tpl_len (te_tpl e t)"
| "fld_tpl_len e (In_Ext b i) = uf_tpl_len (te_ext_db e b i)"

fun fld_len :: "template_cache_entry \<Rightarrow> field_ptr \<Rightarrow> u16" where
  "fld_len e (In_Tpl t) = of_len (te_tpl e t)"
| "fld_len e (In_Ext b i) = uf_len (te_ext_db e b i)"

fun fld_off :: "template_cache_entry \<Rightarrow> field_ptr \<Rightarrow> u16" where
  "fld_off e (In_Tpl t) = of_off (te_tpl e t)"
| "fld_off e (In_Ext b i) = uf_off (te_ext_db e b i)"

fun set_off :: "field_ptr \<Rightarrow> u16 \<Rightarrow> template_cache_entry \<Rightarrow> template_cache_entry" where
  "set_off (In_Tpl t) off e = e\<lparr>te_tpl := (te_tpl e)(t := (te_tpl e t)\<lparr>of_off := off\<rparr>)\<rparr>"
| "set_off (In_Ext b i) off e = put_ie b i ((te_ext_db e b i)\<lparr>uf_off := off\<rparr>) e"

fun set_len :: "field_ptr \<Rightarrow> u16 \<Rightarrow> template_cache_entry \<Rightarrow> template_cache_entry" where
  "set_len (In_Tpl t) len e = e\<lparr>te_tpl := (te_tpl e)(t := (te_tpl e t)\<lparr>of_len := len\<rparr>)\<rparr>"
| "set_len (In_Ext b i) len e = put_ie b i ((te_ext_db e b i)\<lparr>uf_len := len\<rparr>) e"

text \<open>One field of the record at \<open>ptr\<close>: \<open>len\<close> bytes of it are behind, and \<open>vlen\<close> says whether a field of variable
  length was among them. The result has the bytes behind after it.\<close>

definition resolve_field :: "byte list \<Rightarrow> nat \<Rightarrow> field_ptr \<Rightarrow> bool \<Rightarrow> u16 \<Rightarrow> template_cache_entry \<Rightarrow> (bool \<times> u16 \<times> template_cache_entry) res" where
  "resolve_field buf ptr f vlen len e =
     (let e1 = (if vlen then set_off f len e else e) in
      if fld_tpl_len e1 f = IPFIX_VARIABLE_LENGTH then
        rbind (get_ipfix_vlen buf (ptr + unat len)) (\<lambda>(add_len, l).
          let e2 = set_off f (len + word_of_nat add_len) (set_len f l e1)
          in Inr (True, len + (l + word_of_nat add_len), e2))
      else Inr (vlen, len + fld_len e1 f, e1))"

function resolve_loop :: "byte list \<Rightarrow> nat \<Rightarrow> u16 \<Rightarrow> u16 \<Rightarrow> u16 \<Rightarrow> bool \<Rightarrow> u16 \<Rightarrow> template_cache_entry \<Rightarrow> (u16 \<times> template_cache_entry) res" where
  "resolve_loop buf ptr flowsetlen num idx vlen len e =
     (if \<not> idx < num then Inr (len, e)
      else if \<not> unat idx < TPL_LIST_ENTRIES then Inl Out_Of_Bounds
      else case lf_ptr (te_list e (unat idx)) of
        None \<Rightarrow> Inl Null_Deref
      | Some f \<Rightarrow>
          rbind (resolve_field buf ptr f vlen len e) (\<lambda>(vlen1, len1, e1).
            if flowsetlen < len1 then Inr (len1, e1)
            else resolve_loop buf ptr flowsetlen num (idx + 1) vlen1 len1 e1))"
  by pat_completeness auto
termination
proof (relation "measure (\<lambda>(_, _, _, num, idx, _). unat num - unat idx)", goal_cases)
  case (2 buf ptr flowsetlen num idx vlen len e f x y z a b)
  then have "unat idx < unat num" by (simp add: word_less_nat_alt)
  moreover from this have "unat (idx + 1) = unat idx + 1" using unat_u16_less [of num] by (simp add: unat_word_ariths)
  ultimately show ?case by simp
qed simp

declare resolve_loop.simps [simp del]

definition resolve_vlen_template :: "byte list \<Rightarrow> nat \<Rightarrow> u16 \<Rightarrow> template_cache_entry \<Rightarrow> template_cache_entry res" where
  "resolve_vlen_template buf ptr flowsetlen e =
     rbind (resolve_loop buf ptr flowsetlen (te_num e) 0 False 0 e) (\<lambda>(len, e1). Inr (e1\<lparr>te_len := len\<rparr>))"

end
