(* ===== verification/Nf9_Packet.thy ===== *)
theory Nf9_Packet
  imports Nf9_Template
begin

text \<open>
  NetFlow v9 and IPFIX packets: \<^verbatim>\<open>process_v9_packet\<close> of \<^verbatim>\<open>src/src/nfacctd.c\<close>. A packet is a header and a
  sequence of flowsets: templates, which go to the cache, and records laid out by a cached template.
  The model has every flowset, every test and the cursor; of a record it has the place, the
  resolved template, the flow type and the direction, as they are when the switch on the flow type
  is reached, and not the copies into the packet structures and the plugins that follow from it. Of
  a record of options it has the place and the template. The packet is a prefix of \<open>buf\<close>, the receive
  buffer; \<open>pkt\<close> is the cursor. The loops may run for ever, which is \<open>None\<close>.
\<close>

definition NF9_IN_BYTES :: nat where "NF9_IN_BYTES = 1"
definition NF9_OUT_BYTES :: nat where "NF9_OUT_BYTES = 23"
definition NF9_FLOW_BYTES :: nat where "NF9_FLOW_BYTES = 85"
definition NF9_IPV4_SRC_ADDR :: nat where "NF9_IPV4_SRC_ADDR = 8"
definition NF9_IPV6_SRC_ADDR :: nat where "NF9_IPV6_SRC_ADDR = 27"
definition NF9_IN_VLAN :: nat where "NF9_IN_VLAN = 58"
definition NF9_OUT_VLAN :: nat where "NF9_OUT_VLAN = 59"
definition NF9_IP_PROTOCOL_VERSION :: nat where "NF9_IP_PROTOCOL_VERSION = 60"
definition NF9_DIRECTION :: nat where "NF9_DIRECTION = 61"
definition NF9_MPLS_LABEL_1 :: nat where "NF9_MPLS_LABEL_1 = 70"
definition NF9_NAT_EVENT :: nat where "NF9_NAT_EVENT = 230"
definition NF9_FTYPE_TRAFFIC :: byte where "NF9_FTYPE_TRAFFIC = 1"
definition NF9_FTYPE_TRAFFIC_IPV6 :: byte where "NF9_FTYPE_TRAFFIC_IPV6 = 1"
definition NF9_FTYPE_VLAN :: byte where "NF9_FTYPE_VLAN = 5"
definition NF9_FTYPE_MPLS :: byte where "NF9_FTYPE_MPLS = 10"
definition NF9_FTYPE_EVENT :: byte where "NF9_FTYPE_EVENT = 100"
definition NF9_FTYPE_NAT_EVENT :: byte where "NF9_FTYPE_NAT_EVENT = 100"
definition NF9_FTYPE_OPTION :: byte where "NF9_FTYPE_OPTION = 200"
definition DIRECTION_IN :: u16 where "DIRECTION_IN = 1"
definition DIRECTION_OUT :: u16 where "DIRECTION_OUT = 2"

text \<open>The sizes of \<^verbatim>\<open>struct struct_header_v9\<close>, \<^verbatim>\<open>struct struct_header_ipfix\<close> and \<^verbatim>\<open>struct data_hdr_v9\<close>.\<close>

definition NfHdrV9Sz :: nat where "NfHdrV9Sz = 20"
definition IpFixHdrSz :: nat where "IpFixHdrSz = 16"
definition NfDataHdrV9Sz :: nat where "NfDataHdrV9Sz = 4"

section \<open>Records\<close>

text \<open>\<^verbatim>\<open>tpl->tpl[t].len && *(f_data + tpl->tpl[t].off)\<close> under the test \<open>P\<close>.\<close>

definition first_byte :: "byte list \<Rightarrow> nat \<Rightarrow> template_cache_entry \<Rightarrow> nat \<Rightarrow> (byte \<Rightarrow> bool) \<Rightarrow> bool res" where
  "first_byte buf f_data e t P =
     (if of_len (te_tpl e t) = 0 then Inr False else rbind (rd8 buf (f_data + unat (of_off (te_tpl e t)))) (\<lambda>b. Inr (P b)))"

definition has_vlan :: "byte list \<Rightarrow> nat \<Rightarrow> template_cache_entry \<Rightarrow> bool res" where
  "has_vlan buf f_data e =
     rbind (first_byte buf f_data e NF9_IN_VLAN (\<lambda>b. 0 < b)) (\<lambda>v.
       if v then Inr True else first_byte buf f_data e NF9_OUT_VLAN (\<lambda>b. 0 < b))"

text \<open>What the version of IP adds to the flow type.\<close>

definition ip_version :: "byte list \<Rightarrow> nat \<Rightarrow> template_cache_entry \<Rightarrow> byte res" where
  "ip_version buf f_data e =
     rbind (first_byte buf f_data e NF9_IP_PROTOCOL_VERSION (\<lambda>b. b = 4)) (\<lambda>v4.
     rbind (first_byte buf f_data e NF9_IP_PROTOCOL_VERSION (\<lambda>b. b = 6)) (\<lambda>v6.
       Inr (if v4 then 0 else if v6 then NF9_FTYPE_TRAFFIC_IPV6
            else if of_len (te_tpl e NF9_IPV4_SRC_ADDR) \<noteq> 0 then 0
            else if of_len (te_tpl e NF9_IPV6_SRC_ADDR) \<noteq> 0 then NF9_FTYPE_TRAFFIC_IPV6
            else 0)))"

definition NF_evaluate_flow_type :: "byte list \<Rightarrow> nat \<Rightarrow> template_cache_entry \<Rightarrow> byte res" where
  "NF_evaluate_flow_type buf f_data e =
     rbind
       (if of_len (te_tpl e NF9_IN_BYTES) = 0 \<and> of_len (te_tpl e NF9_OUT_BYTES) = 0 \<and> of_len (te_tpl e NF9_FLOW_BYTES) = 0
        then Inr NF9_FTYPE_EVENT
        else
          rbind (has_vlan buf f_data e) (\<lambda>vlan. rbind (ip_version buf f_data e) (\<lambda>ip.
            Inr (NF9_FTYPE_TRAFFIC + (if vlan then NF9_FTYPE_VLAN else 0) +
              (if of_len (te_tpl e NF9_MPLS_LABEL_1) \<noteq> 0 then NF9_FTYPE_MPLS else 0) + ip)))) (\<lambda>ret.
     let ret1 = (if of_len (te_tpl e NF9_NAT_EVENT) \<noteq> 0 then NF9_FTYPE_NAT_EVENT else ret)
     in Inr (if te_template_type e = 1 then NF9_FTYPE_OPTION else ret1))"

definition NF_evaluate_direction :: "byte list \<Rightarrow> nat \<Rightarrow> template_cache_entry \<Rightarrow> u16 res" where
  "NF_evaluate_direction buf f_data e =
     rbind (first_byte buf f_data e NF9_DIRECTION (\<lambda>b. b = 1)) (\<lambda>out. Inr (if out then DIRECTION_OUT else DIRECTION_IN))"

definition add_record :: "flow_record \<Rightarrow> nf_state \<Rightarrow> nf_state" where
  "add_record r s = s\<lparr>nf_records := nf_records s @ [r], nf_seq_inc := nf_seq_inc s + 1\<rparr>"

text \<open>One record at \<open>pkt\<close>, where \<open>flowoff\<close> bytes of the flowset are behind: the template is resolved, the record
  handed on and stepped over. The result says whether the loop goes on.\<close>

definition data_record :: "byte list \<Rightarrow> tpl_ptr \<Rightarrow> u16 \<Rightarrow> template_cache_entry \<Rightarrow> nat \<Rightarrow> u16 \<Rightarrow> nf_state \<Rightarrow> (bool \<times> nat \<times> u16 \<times> nf_state) res" where
  "data_record buf tp flowsetlen e pkt flowoff s =
     rbind (if te_vlen e then resolve_vlen_template buf pkt flowsetlen e else Inr e) (\<lambda>e1.
       if te_vlen e \<and> unat flowsetlen < unat flowoff + unat (te_len e1) then Inr (False, pkt, flowoff, put_tpl tp e1 s)
       else
         rbind (NF_evaluate_flow_type buf pkt e1) (\<lambda>flow_type. rbind (NF_evaluate_direction buf pkt e1) (\<lambda>direction.
           let e2 = (if te_vlen e then e1\<lparr>te_len := 1\<rparr> else e1)
           in Inr (True, pkt + unat (te_len e1), flowoff + te_len e1,
                put_tpl tp e2 (add_record (Data_Record pkt e1 flow_type direction) s)))))"

partial_function (option) data_loop :: "byte list \<Rightarrow> tpl_ptr \<Rightarrow> u16 \<Rightarrow> nat \<Rightarrow> u16 \<Rightarrow> nf_state \<Rightarrow> (nat \<times> u16 \<times> nf_state) res option" where
  [code]: "data_loop buf tp flowsetlen pkt flowoff s =
     (case get_tpl tp s of
        Inl f \<Rightarrow> Some (Inl f)
      | Inr e \<Rightarrow>
          if \<not> unat flowoff + unat (te_len e) \<le> unat flowsetlen then Some (Inr (pkt, flowoff, s))
          else case data_record buf tp flowsetlen e pkt flowoff s of
            Inl f \<Rightarrow> Some (Inl f)
          | Inr (go, pkt1, flowoff1, s1) \<Rightarrow>
              if go then data_loop buf tp flowsetlen pkt1 flowoff1 s1 else Some (Inr (pkt1, flowoff1, s1)))"

partial_function (option) options_loop :: "tpl_ptr \<Rightarrow> u16 \<Rightarrow> nat \<Rightarrow> u16 \<Rightarrow> nf_state \<Rightarrow> (nat \<times> u16 \<times> nf_state) res option" where
  [code]: "options_loop tp flowsetlen pkt flowoff s =
     (case get_tpl tp s of
        Inl f \<Rightarrow> Some (Inl f)
      | Inr e \<Rightarrow>
          if \<not> unat flowoff + unat (te_len e) \<le> unat flowsetlen then Some (Inr (pkt, flowoff, s))
          else options_loop tp flowsetlen (pkt + unat (te_len e)) (flowoff + te_len e) (add_record (Options_Record pkt e) s))"

section \<open>Templates\<close>

text \<open>One template of a flowset; \<open>None\<close> when it is refused. The step to the next one is that of the code.\<close>

definition tpl_size :: "byte list \<Rightarrow> nat \<Rightarrow> u16 \<Rightarrow> u16 \<Rightarrow> nat res" where
  "tpl_size buf ptr fid pens =
     (if fid = 0 \<or> fid = 2 then rbind (rd_be16 buf (ptr + 2)) (\<lambda>num. Inr (4 + unat num * 4 + unat pens * 4))
      else rbind (rd_be16 buf (ptr + 2)) (\<lambda>scope_len. rbind (rd_be16 buf (ptr + 4)) (\<lambda>option_len.
        Inr (6 + ((unat scope_len + unat option_len) * 4 + unat pens * 4)))))"

definition tpl_step :: "byte list \<Rightarrow> sockaddr \<Rightarrow> u32 \<Rightarrow> u16 \<Rightarrow> u16 \<Rightarrow> nat \<Rightarrow> u16 \<Rightarrow> nf_state \<Rightarrow> (nat option \<times> nf_state) res" where
  "tpl_step buf agent sid fid flowsetlen ptr flowoff s =
     rbind (handle_template buf ptr agent fid sid (flowsetlen - flowoff) s) (\<lambda>(tp, pens, s1).
       if tp = None then Inr (None, s1) else rbind (tpl_size buf ptr fid pens) (\<lambda>n. Inr (Some n, s1)))"

text \<open>The result says whether the packet is read on.\<close>

partial_function (option) tpl_loop :: "byte list \<Rightarrow> u16 \<Rightarrow> sockaddr \<Rightarrow> u32 \<Rightarrow> u16 \<Rightarrow> u16 \<Rightarrow> u16 \<Rightarrow> nat \<Rightarrow> u16 \<Rightarrow> nf_state \<Rightarrow>
    (bool \<times> nf_state) res option" where
  [code]: "tpl_loop buf len agent sid fid off flowsetlen ptr flowoff s =
     (if \<not> flowoff < flowsetlen then Some (Inr (True, s))
      else if unat len < unat off + unat flowsetlen then Some (Inr (False, bad_datagram s))
      else case tpl_step buf agent sid fid flowsetlen ptr flowoff s of
        Inl f \<Rightarrow> Some (Inl f)
      | Inr (step, s1) \<Rightarrow>
          (case step of
             None \<Rightarrow> Some (Inr (False, s1))
           | Some n \<Rightarrow> tpl_loop buf len agent sid fid off flowsetlen (ptr + n) (flowoff + word_of_nat n) s1))"

section \<open>Flowsets\<close>

datatype flowset_out = Fs_Return nf_state | Fs_Next nat u16 nf_state

definition template_flowset :: "byte list \<Rightarrow> u16 \<Rightarrow> sockaddr \<Rightarrow> u32 \<Rightarrow> u16 \<Rightarrow> u16 \<Rightarrow> nat \<Rightarrow> u16 \<Rightarrow> nf_state \<Rightarrow> flowset_out res option" where
  "template_flowset buf len agent sid fid flowsetlen pkt off s =
     (case tpl_loop buf len agent sid fid off flowsetlen (pkt + NfDataHdrV9Sz) (word_of_nat NfDataHdrV9Sz) s of
        None \<Rightarrow> None
      | Some (Inl f) \<Rightarrow> Some (Inl f)
      | Some (Inr (go, s1)) \<Rightarrow>
          Some (Inr (if go then Fs_Next (pkt + unat flowsetlen) (off + flowsetlen) s1 else Fs_Return s1)))"

definition data_flowset :: "byte list \<Rightarrow> u16 \<Rightarrow> sockaddr \<Rightarrow> u32 \<Rightarrow> u16 \<Rightarrow> u16 \<Rightarrow> nat \<Rightarrow> u16 \<Rightarrow> nf_state \<Rightarrow> flowset_out res option" where
  "data_flowset buf len agent sid fid flowsetlen pkt off s =
     (if unat len < unat off + unat flowsetlen then Some (Inr (Fs_Return (bad_datagram s)))
      else case find_template fid agent sid s of
        None \<Rightarrow> Some (Inr (Fs_Next (pkt + unat flowsetlen) (off + flowsetlen) s))
      | Some tp \<Rightarrow>
          (case get_tpl tp s of
             Inl f \<Rightarrow> Some (Inl f)
           | Inr e \<Rightarrow>
               (case (if te_template_type e = 1
                      then options_loop tp flowsetlen (pkt + NfDataHdrV9Sz) (word_of_nat NfDataHdrV9Sz) s
                      else data_loop buf tp flowsetlen (pkt + NfDataHdrV9Sz) (word_of_nat NfDataHdrV9Sz) s) of
                  None \<Rightarrow> None
                | Some (Inl f) \<Rightarrow> Some (Inl f)
                | Some (Inr (pkt1, flowoff, s1)) \<Rightarrow>
                    if flowsetlen < flowoff then Some (Inr (Fs_Return (bad_datagram s1)))
                    else Some (Inr (Fs_Next (pkt1 + (unat flowsetlen - unat flowoff)) (off + flowsetlen) s1)))))"

definition flowset :: "byte list \<Rightarrow> u16 \<Rightarrow> sockaddr \<Rightarrow> u32 \<Rightarrow> nat \<Rightarrow> u16 \<Rightarrow> nf_state \<Rightarrow> flowset_out res option" where
  "flowset buf len agent sid pkt off s =
     (if unat len \<le> unat off + NfDataHdrV9Sz then Some (Inr (Fs_Return (bad_datagram s)))
      else case rbind (rd_be16 buf pkt) (\<lambda>fid. rbind (rd_be16 buf (pkt + 2)) (\<lambda>flowsetlen. Inr (fid, flowsetlen))) of
        Inl f \<Rightarrow> Some (Inl f)
      | Inr (fid, flowsetlen) \<Rightarrow>
          if unat flowsetlen < NfDataHdrV9Sz then Some (Inr (Fs_Return (bad_datagram s)))
          else if fid \<le> 3 then template_flowset buf len agent sid fid flowsetlen pkt off s
          else if 256 \<le> fid then data_flowset buf len agent sid fid flowsetlen pkt off s
          else if unat len < unat off + unat flowsetlen then Some (Inr (Fs_Return s))
          else Some (Inr (Fs_Next (pkt + unat flowsetlen) (off + flowsetlen) s)))"

text \<open>From the label \<^verbatim>\<open>process_flowset\<close> on. NetFlow v9 counts in its header, IPFIX reads to the end.\<close>

partial_function (option) flowset_loop :: "byte list \<Rightarrow> u16 \<Rightarrow> sockaddr \<Rightarrow> u32 \<Rightarrow> byte \<Rightarrow> u16 \<Rightarrow> nat \<Rightarrow> u16 \<Rightarrow> u16 \<Rightarrow> nf_state \<Rightarrow>
    nf_state res option" where
  [code]: "flowset_loop buf len agent sid version flowsetNo pkt off flowsetCount s =
     (case flowset buf len agent sid pkt off s of
        None \<Rightarrow> None
      | Some r \<Rightarrow>
          (case r of
             Inl f \<Rightarrow> Some (Inl f)
           | Inr out \<Rightarrow>
               (case out of
                  Fs_Return s1 \<Rightarrow> Some (Inr s1)
                | Fs_Next pkt1 off1 s1 \<Rightarrow>
                    if version = 9 \<and> unat flowsetCount + 1 < unat flowsetNo \<and> off1 < len \<or> version = 10 \<and> off1 < len
                    then flowset_loop buf len agent sid version flowsetNo pkt1 off1 (flowsetCount + 1) s1
                    else Some (Inr s1))))"

definition process_v9_packet :: "byte list \<Rightarrow> u16 \<Rightarrow> sockaddr \<Rightarrow> byte \<Rightarrow> nf_state \<Rightarrow> nf_state res option" where
  "process_v9_packet buf len agent version s =
     (let hdrsz = (if version = 9 then NfHdrV9Sz else if version = 10 then IpFixHdrSz else 0);
          s1 = s\<lparr>nf_seq_inc := 0\<rparr>
      in if unat len < hdrsz then Some (Inr (bad_datagram s1))
         else case (if version = 9 then rbind (rd_be32 buf 16) (\<lambda>sid. rbind (rd_be16 buf 2) (\<lambda>n. Inr (sid, n)))
                    else if version = 10 then rbind (rd_be32 buf 12) (\<lambda>sid. Inr (sid, 0))
                    else Inr (0, 0)) of
           Inl f \<Rightarrow> Some (Inl f)
         | Inr (sid, flowsetNo) \<Rightarrow> flowset_loop buf len agent sid version flowsetNo hdrsz (word_of_nat hdrsz) 0 s1)"

end
