(* ===== verification/Nf9_Props.thy ===== *)
theory Nf9_Props
  imports Nf9_Packet Wire
begin

text \<open>
  What \<^verbatim>\<open>src/src/nfv9_template.c\<close> and \<^verbatim>\<open>process_v9_packet\<close> make of templates and records in the wire format:
  the layout computed from a template puts every field where its value stands, for fields of fixed
  and of variable length.
\<close>

section \<open>Templates on the wire\<close>

record tfield =
  tf_pen :: "u32 option"
  tf_type :: u16
  tf_len :: u16

text \<open>Fields the decoder keeps outside its registry, and fields of variable length.\<close>

definition tf_ext :: "tfield \<Rightarrow> bool" where
  "tf_ext f \<longleftrightarrow> \<not> (unat (tf_type f) < NF9_MAX_DEFINED_FIELD \<and> tf_pen f = None)"

definition tf_var :: "tfield \<Rightarrow> bool" where
  "tf_var f \<longleftrightarrow> tf_len f = IPFIX_VARIABLE_LENGTH"

definition enc_field :: "tfield \<Rightarrow> byte list" where
  "enc_field f =
     (case tf_pen f of
        None \<Rightarrow> put_be16 (tf_type f) @ put_be16 (tf_len f)
      | Some n \<Rightarrow> put_be16 (tf_type f OR IPFIX_TPL_EBIT) @ put_be16 (tf_len f) @ put_be32 n)"

definition wire_field :: "byte \<Rightarrow> tfield \<Rightarrow> bool" where
  "wire_field version f \<longleftrightarrow> tf_type f AND IPFIX_TPL_EBIT = 0 \<and> (tf_pen f \<noteq> None \<longrightarrow> version = 10)"

lemma length_enc_field: "length (enc_field f) = field_size (tf_pen f)"
  by (cases "tf_pen f") (simp_all add: enc_field_def field_size_def NfTplFieldV9Sz_def)

lemma ebit:
  fixes w :: u16
  assumes "w AND IPFIX_TPL_EBIT = 0"
  shows "(w OR IPFIX_TPL_EBIT) AND IPFIX_TPL_EBIT \<noteq> 0" "(w OR IPFIX_TPL_EBIT) XOR IPFIX_TPL_EBIT = w"
proof -
  have "(w OR IPFIX_TPL_EBIT) AND IPFIX_TPL_EBIT = IPFIX_TPL_EBIT" by (auto simp: bit_eq_iff bit_simps)
  then show "(w OR IPFIX_TPL_EBIT) AND IPFIX_TPL_EBIT \<noteq> 0" by (simp add: IPFIX_TPL_EBIT_def)
  show "(w OR IPFIX_TPL_EBIT) XOR IPFIX_TPL_EBIT = w"
    using assms by (simp add: bit_eq_iff bit_simps) blast
qed

lemma rd_field_enc:
  assumes "buf_at buf p (enc_field f)" "wire_field version f"
  shows "rd_field buf version p = Inr (tf_type f, tf_len f, tf_pen f)"
proof (cases "tf_pen f")
  case None
  then have "rd_be16 buf p = Inr (tf_type f)" "rd_be16 buf (p + 2) = Inr (tf_len f)"
    using assms(1) by (simp_all add: enc_field_def buf_at_put_be16)
  then show ?thesis using None assms(2) by (simp add: rd_field_def wire_field_def)
next
  case (Some n)
  then have "rd_be16 buf p = Inr (tf_type f OR IPFIX_TPL_EBIT)" "rd_be16 buf (p + 2) = Inr (tf_len f)" "rd_be32 buf (p + 4) = Inr n"
    using assms(1) by (auto simp: enc_field_def numeral_eq_Suc intro: buf_at_put_be16 buf_at_put_be32)
  then show ?thesis using Some assms(2) ebit [of "tf_type f"] by (simp add: rd_field_def wire_field_def)
qed

text \<open>The fields of a template, without the bytes.\<close>

fun add_fields :: "nat \<Rightarrow> tfield list \<Rightarrow> template_cache_entry \<Rightarrow> template_cache_entry res" where
  "add_fields k [] e = Inr e"
| "add_fields k (f # fs) e = rbind (tpl_field k (tf_type f) (tf_len f) (tf_pen f) e) (add_fields (k + 1) fs)"

definition pens_of :: "tfield list \<Rightarrow> nat" where
  "pens_of fs = length (filter (\<lambda>f. tf_pen f \<noteq> None) fs)"

definition enc_fields :: "tfield list \<Rightarrow> byte list" where
  "enc_fields fs = concat (map enc_field fs)"

lemma enc_fields_simps [simp]: "enc_fields [] = []" "enc_fields (f # fs) = enc_field f @ enc_fields fs"
  by (simp_all add: enc_fields_def)

lemma unat_u16_of_nat: "n < 65536 \<Longrightarrow> unat (word_of_nat n :: u16) = n"
  by (simp add: unat_of_nat)

lemma unat_u16_plus: "unat x + unat y < 65536 \<Longrightarrow> unat (x + y :: u16) = unat x + unat y"
  by (simp add: unat_word_ariths)

lemma tpl_fields_enc:
  assumes "buf_at buf p (enc_fields fs)" "list_all (wire_field version) fs" "k + length fs < 65536"
    "unat off + length (enc_fields fs) \<le> unat len"
  shows "tpl_fields buf version (word_of_nat (k + length fs)) len p (word_of_nat k) off pens e =
    rbind (add_fields k fs e) (\<lambda>e1. Inr (Some e1, pens + word_of_nat (pens_of fs)))"
  using assms
proof (induction fs arbitrary: p k off pens e)
  case Nil
  then show ?case unfolding tpl_fields.simps [of buf version _ len p] by (simp add: pens_of_def)
next
  case (Cons f fs)
  let ?n = "word_of_nat (k + length (f # fs)) :: u16"
  let ?sz = "field_size (tf_pen f)"
  have lt: "(word_of_nat k :: u16) < ?n"
    using Cons.prems(3) by (simp only: word_less_nat_alt unat_u16_of_nat) simp
  have sz: "4 \<le> ?sz" "?sz \<le> 8" by (simp_all add: field_size_def NfTplFieldV9Sz_def)
  have "unat off + ?sz + length (enc_fields fs) \<le> unat len" using Cons.prems(4) by (simp add: length_enc_field)
  moreover from this have off: "unat (off + word_of_nat ?sz) = unat off + ?sz"
    using unat_u16_less [of len] by (simp add: unat_u16_plus unat_u16_of_nat)
  ultimately have room: "unat (off + word_of_nat ?sz) + length (enc_fields fs) \<le> unat len" "\<not> len \<le> off"
    using sz by (simp_all add: word_le_nat_alt)
  have at: "buf_at buf (p + ?sz) (enc_fields fs)" "buf_at buf p (enc_field f)"
    using Cons.prems(1) by (simp_all add: length_enc_field)
  note rd = rd_field_enc [OF at(2), of version]
  have IH: "tpl_fields buf version ?n len (p + ?sz) (word_of_nat k + 1) (off + word_of_nat ?sz) pens1 e1 =
      rbind (add_fields (k + 1) fs e1) (\<lambda>e2. Inr (Some e2, pens1 + word_of_nat (pens_of fs)))" for pens1 e1
    using Cons.IH [OF at(1) _ _ room(1), of "k + 1" pens1 e1] Cons.prems(2,3) by (simp add: add.commute)
  have k: "unat (word_of_nat k :: u16) = k" using Cons.prems(3) by (simp add: unat_u16_of_nat)
  have "tpl_fields buf version ?n len p (word_of_nat k) off pens e =
      rbind (tpl_field k (tf_type f) (tf_len f) (tf_pen f) e) (\<lambda>e1.
        tpl_fields buf version ?n len (p + ?sz) (word_of_nat k + 1) (off + word_of_nat ?sz) (if tf_pen f = None then pens else pens + 1) e1)"
    unfolding tpl_fields.simps [of buf version ?n len p] using lt room(2) rd Cons.prems(2) k by simp
  also have "\<dots> = rbind (tpl_field k (tf_type f) (tf_len f) (tf_pen f) e) (\<lambda>e1. rbind (add_fields (k + 1) fs e1) (\<lambda>e2.
      Inr (Some e2, pens + word_of_nat (pens_of (f # fs)))))"
    unfolding IH by (cases "tf_pen f") (simp_all add: pens_of_def add.assoc)
  finally show ?case by (simp add: rbind_assoc)
qed


section \<open>The layout of a template\<close>

definition row :: "tfield \<Rightarrow> nat" where
  "row f = unat (tf_type f) mod TPL_EXT_DB_ENTRIES"

text \<open>How many fields a row of the database holds, and the place of the \<open>k\<close>-th field.\<close>

definition in_row :: "nat \<Rightarrow> tfield list \<Rightarrow> nat" where
  "in_row b fs = length (filter (\<lambda>f. tf_ext f \<and> row f = b) fs)"

definition fref :: "tfield list \<Rightarrow> nat \<Rightarrow> field_ptr" where
  "fref fs k = (let f = fs ! k in if tf_ext f then In_Ext (row f) (in_row (row f) (take k fs)) else In_Tpl (unat (tf_type f)))"

definition fields_len :: "tfield list \<Rightarrow> nat" where
  "fields_len fs = sum_list (map (unat \<circ> tf_len) fs)"

definition has_var :: "tfield list \<Rightarrow> bool" where
  "has_var fs \<longleftrightarrow> (\<exists>f \<in> set fs. tf_var f)"

text \<open>Fields the tables have room for: no type of the registry twice, and no more than 32 in a row.\<close>

definition fields_ok :: "tfield list \<Rightarrow> bool" where
  "fields_ok fs \<longleftrightarrow> length fs \<le> TPL_LIST_ENTRIES \<and> distinct (map tf_type (filter (\<lambda>f. \<not> tf_ext f) fs)) \<and>
     (\<forall>f \<in> set fs. tf_ext f \<longrightarrow> tf_type f \<noteq> 0) \<and> (\<forall>b. in_row b fs \<le> IES_PER_TPL_EXT_DB_ENTRY)"

definition otpl_zero :: otpl_field where
  "otpl_zero = \<lparr>of_off = 0, of_len = 0, of_tpl_len = 0\<rparr>"

definition layout :: "tfield list \<Rightarrow> template_cache_entry \<Rightarrow> bool" where
  "layout fs e \<longleftrightarrow> te_vlen e = has_var fs \<and>
     (\<forall>k < length fs. lf_ptr (te_list e k) = Some (fref fs k) \<and> fld_tpl_len e (fref fs k) = tf_len (fs ! k) \<and>
        (\<not> tf_var (fs ! k) \<longrightarrow> fld_len e (fref fs k) = tf_len (fs ! k)) \<and>
        (\<not> has_var (take (Suc k) fs) \<longrightarrow> fld_off e (fref fs k) = word_of_nat (fields_len (take k fs)))) \<and>
     (\<forall>t. (\<forall>f \<in> set fs. \<not> tf_ext f \<longrightarrow> unat (tf_type f) \<noteq> t) \<longrightarrow> te_tpl e t = otpl_zero)"

text \<open>The same while a template is built, with the free entries of the rows.\<close>

definition built :: "tfield list \<Rightarrow> template_cache_entry \<Rightarrow> bool" where
  "built fs e \<longleftrightarrow> layout fs e \<and> (\<not> has_var fs \<longrightarrow> te_len e = word_of_nat (fields_len fs)) \<and> (has_var fs \<longrightarrow> te_len e = 0) \<and>
     (\<forall>b. \<forall>i < IES_PER_TPL_EXT_DB_ENTRY. uf_type (te_ext_db e b i) = 0 \<longleftrightarrow> in_row b fs \<le> i)"

text \<open>What the fields do not touch.\<close>

definition same_head :: "template_cache_entry \<Rightarrow> template_cache_entry \<Rightarrow> bool" where
  "same_head e e1 \<longleftrightarrow> te_agent e1 = te_agent e \<and> te_source_id e1 = te_source_id e \<and> te_template_id e1 = te_template_id e \<and>
     te_template_type e1 = te_template_type e \<and> te_num e1 = te_num e"

lemma same_head_refl [simp]: "same_head e e"
  by (simp add: same_head_def)

lemma same_head_trans [trans]: "same_head e e1 \<Longrightarrow> same_head e1 e2 \<Longrightarrow> same_head e e2"
  by (simp add: same_head_def)

lemma in_row_append [simp]: "in_row b (fs @ gs) = in_row b fs + in_row b gs"
  by (simp add: in_row_def)

lemma in_row_single: "in_row b [f] = (if tf_ext f \<and> row f = b then 1 else 0)"
  by (simp add: in_row_def)

lemma in_row_Nil [simp]: "in_row b [] = 0"
  by (simp add: in_row_def)

lemma fref_append: "k < length fs \<Longrightarrow> fref (fs @ gs) k = fref fs k"
  by (simp add: fref_def nth_append Let_def)

lemma fref_last: "fref (fs @ [f]) (length fs) = (if tf_ext f then In_Ext (row f) (in_row (row f) fs) else In_Tpl (unat (tf_type f)))"
  by (simp add: fref_def)

lemma fields_len_append [simp]: "fields_len (fs @ gs) = fields_len fs + fields_len gs"
  by (simp add: fields_len_def)

lemma fields_len_simps [simp]: "fields_len [] = 0" "fields_len (f # fs) = unat (tf_len f) + fields_len fs"
  by (simp_all add: fields_len_def)

lemma has_var_append [simp]: "has_var (fs @ gs) \<longleftrightarrow> has_var fs \<or> has_var gs"
  by (auto simp: has_var_def)

lemma has_var_simps [simp]: "\<not> has_var []" "has_var (f # fs) \<longleftrightarrow> tf_var f \<or> has_var fs"
  by (simp_all add: has_var_def)

lemma has_var_take: "has_var (take k fs) \<Longrightarrow> has_var fs"
  by (auto simp: has_var_def dest: in_set_takeD)

lemma in_row_take: "k < length fs \<Longrightarrow> tf_ext (fs ! k) \<Longrightarrow> in_row (row (fs ! k)) (take k fs) < in_row (row (fs ! k)) fs"
  using in_row_append [of "row (fs ! k)" "take k fs @ [fs ! k]" "drop (Suc k) fs"]
  by (simp add: id_take_nth_drop [symmetric] in_row_single)

text \<open>A new field gets a place of its own.\<close>

lemma fref_new:
  assumes "fields_ok (fs @ [f])" "k < length fs"
  shows "fref (fs @ [f]) (length fs) \<noteq> fref fs k"
proof (cases "tf_ext f")
  case True
  then show ?thesis using in_row_take [OF assms(2)] by (auto simp: fref_last fref_def Let_def)
next
  case False
  have "unat (tf_type f) \<noteq> unat (tf_type (fs ! k))" if "\<not> tf_ext (fs ! k)"
    using assms(1) that False nth_mem [OF assms(2)] by (auto simp: fields_ok_def simp flip: word_unat_eq_iff)
  then show ?thesis using False by (auto simp: fref_last fref_def Let_def)
qed

lemma fields_ok_butlast: "fields_ok (fs @ gs) \<Longrightarrow> fields_ok fs"
  by (auto simp: fields_ok_def intro: add_leD1)

lemma fref_inj:
  assumes "fields_ok fs" "j < k" "k < length fs"
  shows "fref fs j \<noteq> fref fs k"
proof -
  have split: "fs = (take k fs @ [fs ! k]) @ drop (Suc k) fs" using assms(3) by (simp add: id_take_nth_drop [symmetric])
  then have "fields_ok (take k fs @ [fs ! k])" using assms(1) fields_ok_butlast by metis
  then have "fref (take k fs @ [fs ! k]) (length (take k fs)) \<noteq> fref (take k fs) j"
    by (rule fref_new) (use assms in simp)
  moreover have "fref (take k fs @ [fs ! k]) (length (take k fs)) = fref fs k"
    using split fref_append [of k "take k fs @ [fs ! k]" "drop (Suc k) fs"] assms(3) by simp
  moreover have "fref (take k fs) j = fref fs j"
    using fref_append [of j "take k fs" "drop k fs"] assms(2,3) by simp
  ultimately show ?thesis by simp
qed

lemma next_ie_free:
  assumes "\<forall>j < IES_PER_TPL_EXT_DB_ENTRY. uf_type (ies j) = 0 \<longleftrightarrow> c \<le> j" "c < IES_PER_TPL_EXT_DB_ENTRY" "i \<le> c"
  shows "\<exists>r. next_ie ies ty i rep = (r, Some c)"
  using assms(3)
proof (induction "c - i" arbitrary: i rep)
  case 0
  then have "i = c" by simp
  then show ?case using assms(1,2) by (simp add: next_ie.simps [of ies ty c])
next
  case (Suc n)
  then have "uf_type (ies i) \<noteq> 0" "i < IES_PER_TPL_EXT_DB_ENTRY" using assms by auto
  then show ?case using Suc.hyps(1) [of "i + 1"] Suc.hyps(2) Suc.prems by (auto simp: next_ie.simps [of ies ty i] Let_def)
qed


lemma has_var_take_Suc: "k < length fs \<Longrightarrow> has_var (take (Suc k) fs) \<longleftrightarrow> has_var (take k fs) \<or> tf_var (fs ! k)"
  by (auto simp: take_Suc_conv_app_nth)

lemma layout_extend:
  assumes lay: "layout fs e" and ok: "fields_ok (fs @ [f])"
    and list: "te_list e1 = (te_list e)(length fs := x)" "lf_ptr x = Some (fref (fs @ [f]) (length fs))"
    and rest: "\<And>g. g \<noteq> fref (fs @ [f]) (length fs) \<Longrightarrow> fld_tpl_len e1 g = fld_tpl_len e g \<and> fld_len e1 g = fld_len e g \<and> fld_off e1 g = fld_off e g"
    and new: "fld_tpl_len e1 (fref (fs @ [f]) (length fs)) = tf_len f"
      "\<not> tf_var f \<Longrightarrow> fld_len e1 (fref (fs @ [f]) (length fs)) = tf_len f"
      "\<not> has_var (fs @ [f]) \<Longrightarrow> fld_off e1 (fref (fs @ [f]) (length fs)) = word_of_nat (fields_len fs)"
    and vlen: "te_vlen e1 = has_var (fs @ [f])"
    and tpl: "\<And>t. te_tpl e1 t \<noteq> te_tpl e t \<Longrightarrow> \<not> tf_ext f \<and> t = unat (tf_type f)"
  shows "layout (fs @ [f]) e1"
proof -
  have fields: "lf_ptr (te_list e1 k) = Some (fref (fs @ [f]) k) \<and> fld_tpl_len e1 (fref (fs @ [f]) k) = tf_len ((fs @ [f]) ! k) \<and>
      (\<not> tf_var ((fs @ [f]) ! k) \<longrightarrow> fld_len e1 (fref (fs @ [f]) k) = tf_len ((fs @ [f]) ! k)) \<and>
      (\<not> has_var (take (Suc k) (fs @ [f])) \<longrightarrow> fld_off e1 (fref (fs @ [f]) k) = word_of_nat (fields_len (take k (fs @ [f]))))"
    if "k < length (fs @ [f])" for k
  proof (cases "k = length fs")
    case True
    then show ?thesis using list new by simp
  next
    case False
    then have k: "k < length fs" using that by simp
    then have "fref fs k \<noteq> fref (fs @ [f]) (length fs)" using fref_new [OF ok k] by metis
    then show ?thesis using rest [of "fref fs k"] lay k list(1) False unfolding layout_def
      by (simp add: fref_append nth_append)
  qed
  have "te_tpl e1 t = otpl_zero" if "\<forall>h \<in> set (fs @ [f]). \<not> tf_ext h \<longrightarrow> unat (tf_type h) \<noteq> t" for t
  proof -
    have "te_tpl e1 t = te_tpl e t" using tpl [of t] that by auto
    then show ?thesis using lay that unfolding layout_def by auto
  qed
  then show ?thesis unfolding layout_def using vlen fields by blast
qed

lemma fld_tpl_upd:
  assumes "te_tpl e1 = (te_tpl e)(t := f)" "te_ext_db e1 = te_ext_db e"
  shows "fld_tpl_len e1 g = (if g = In_Tpl t then of_tpl_len f else fld_tpl_len e g)"
    "fld_len e1 g = (if g = In_Tpl t then of_len f else fld_len e g)"
    "fld_off e1 g = (if g = In_Tpl t then of_off f else fld_off e g)"
  using assms by (cases g; simp)+

lemma fld_ext_upd:
  assumes "te_tpl e1 = te_tpl e" "te_ext_db e1 = (te_ext_db e)(b := (te_ext_db e b)(i := f))"
  shows "fld_tpl_len e1 g = (if g = In_Ext b i then uf_tpl_len f else fld_tpl_len e g)"
    "fld_len e1 g = (if g = In_Ext b i then uf_len f else fld_len e g)"
    "fld_off e1 g = (if g = In_Ext b i then uf_off f else fld_off e g)"
  using assms by (cases g; simp)+

lemma word_fields_len: "word_of_nat (fields_len (fs @ [f])) = (word_of_nat (fields_len fs) :: u16) + tf_len f"
  by simp

lemma legacy_field_built:
  assumes b: "built fs e" and ok: "fields_ok (fs @ [f])" and leg: "\<not> tf_ext f"
  shows "\<exists>e1. legacy_field (length fs) (tf_type f) (tf_len f) e = Inr e1 \<and> built (fs @ [f]) e1 \<and> same_head e e1"
proof -
  have lay: "layout fs e" and len: "\<not> has_var fs \<Longrightarrow> te_len e = word_of_nat (fields_len fs)" "has_var fs \<Longrightarrow> te_len e = 0"
    and rows: "\<forall>b. \<forall>i < IES_PER_TPL_EXT_DB_ENTRY. uf_type (te_ext_db e b i) = 0 \<longleftrightarrow> in_row b fs \<le> i"
    using b by (simp_all add: built_def)
  have room: "length fs < TPL_LIST_ENTRIES" using ok by (simp add: fields_ok_def)
  obtain e1 where run: "legacy_field (length fs) (tf_type f) (tf_len f) e = Inr e1" using room by (simp add: legacy_field_def put_list_def Let_def)
  have vl: "te_vlen e = has_var fs" using lay by (simp add: layout_def)
  note e1 = run [unfolded legacy_field_def put_list_def Let_def if_P [OF room] sum.inject, symmetric]
  have upd: "te_tpl e1 = (te_tpl e)(unat (tf_type f) := (te_tpl e (unat (tf_type f)))\<lparr>of_off := (if te_vlen e then 0 else te_len e), of_tpl_len := tf_len f,
        of_len := (if tf_len f = IPFIX_VARIABLE_LENGTH then 0 else tf_len f)\<rparr>)"
    and ext: "te_ext_db e1 = te_ext_db e"
    and list: "te_list e1 = (te_list e)(length fs := \<lparr>lf_type = TPL_TYPE_LEGACY, lf_ptr = Some (In_Tpl (unat (tf_type f)))\<rparr>)"
    and vlen: "te_vlen e1 = has_var (fs @ [f])"
    and tlen: "te_len e1 = (if has_var (fs @ [f]) then 0 else te_len e + tf_len f)"
    and head: "same_head e e1"
    using vl len by (simp_all add: e1 tf_var_def same_head_def)
  have g: "fref (fs @ [f]) (length fs) = In_Tpl (unat (tf_type f))" using leg by (simp add: fref_last)
  have "layout (fs @ [f]) e1"
  proof (rule layout_extend [OF lay ok list])
    show "te_vlen e1 = has_var (fs @ [f])" by (rule vlen)
    show "\<not> tf_ext f \<and> t = unat (tf_type f)" if "te_tpl e1 t \<noteq> te_tpl e t" for t
      using that leg by (simp add: upd split: if_split_asm)
  qed (use vl len in \<open>simp_all add: g fld_tpl_upd [OF upd ext] upd tf_var_def\<close>)
  moreover have "te_len e1 = word_of_nat (fields_len (fs @ [f]))" if "\<not> has_var (fs @ [f])"
    using that len tlen by simp
  ultimately have "built (fs @ [f]) e1" using rows leg tlen by (simp add: built_def ext in_row_single)
  then show ?thesis using run head by blast
qed

lemma ext_field_built:
  assumes b: "built fs e" and ok: "fields_ok (fs @ [f])" and extf: "tf_ext f"
  shows "\<exists>e1. ext_field (length fs) (tf_type f) (tf_len f) (tf_pen f) e = Inr e1 \<and> built (fs @ [f]) e1 \<and> same_head e e1"
proof -
  have lay: "layout fs e" and len: "\<not> has_var fs \<Longrightarrow> te_len e = word_of_nat (fields_len fs)" "has_var fs \<Longrightarrow> te_len e = 0"
    and rows: "\<forall>b. \<forall>i < IES_PER_TPL_EXT_DB_ENTRY. uf_type (te_ext_db e b i) = 0 \<longleftrightarrow> in_row b fs \<le> i"
    using b by (simp_all add: built_def)
  have room: "length fs < TPL_LIST_ENTRIES" using ok by (simp add: fields_ok_def)
  let ?i = "in_row (row f) fs"
  have "in_row (row f) (fs @ [f]) \<le> IES_PER_TPL_EXT_DB_ENTRY" using ok unfolding fields_ok_def by blast
  then have i: "?i < IES_PER_TPL_EXT_DB_ENTRY" using extf by (simp add: in_row_single)
  obtain r where nxt: "ext_db_get_next_ie e (tf_type f) = (r, Some ?i)"
    using next_ie_free [of "te_ext_db e (row f)" ?i 0 "tf_type f" 0] rows i unfolding ext_db_get_next_ie_def row_def by blast
  define x where "x = (te_ext_db e (row f) ?i)\<lparr>uf_pen := (case tf_pen f of None \<Rightarrow> uf_pen (te_ext_db e (row f) ?i) | Some n \<Rightarrow> n), uf_type := tf_type f,
      uf_off := (if te_vlen e then 0 else te_len e), uf_tpl_len := tf_len f, uf_repeat_id := r,
      uf_len := (if tf_len f = IPFIX_VARIABLE_LENGTH then 0 else tf_len f)\<rparr>"
  obtain e1 where run: "ext_field (length fs) (tf_type f) (tf_len f) (tf_pen f) e = Inr e1"
    using room nxt by (simp add: ext_field_def put_list_def Let_def)
  have vl: "te_vlen e = has_var fs" using lay by (simp add: layout_def)
  note e1 = run [unfolded ext_field_def nxt prod.case option.case put_list_def Let_def if_P [OF room] sum.inject, folded row_def, folded x_def, symmetric]
  have upd: "te_ext_db e1 = (te_ext_db e)(row f := (te_ext_db e (row f))(?i := x))"
    and tp: "te_tpl e1 = te_tpl e"
    and list: "te_list e1 = (te_list e)(length fs := \<lparr>lf_type = TPL_TYPE_EXT_DB, lf_ptr = Some (In_Ext (row f) ?i)\<rparr>)"
    and vlen: "te_vlen e1 = has_var (fs @ [f])"
    and tlen: "te_len e1 = (if has_var (fs @ [f]) then 0 else te_len e + tf_len f)"
    and head: "same_head e e1"
    using vl len by (simp_all add: e1 put_ie_def tf_var_def same_head_def)
  have g: "fref (fs @ [f]) (length fs) = In_Ext (row f) ?i" using extf by (simp add: fref_last)
  have "layout (fs @ [f]) e1"
  proof (rule layout_extend [OF lay ok list])
    show "te_vlen e1 = has_var (fs @ [f])" by (rule vlen)
  qed (use vl len in \<open>simp_all add: g fld_ext_upd [OF tp upd] upd tf_var_def tp x_def\<close>)
  moreover have "te_len e1 = word_of_nat (fields_len (fs @ [f]))" if "\<not> has_var (fs @ [f])"
    using that len tlen by simp
  moreover have "uf_type (te_ext_db e1 b j) = 0 \<longleftrightarrow> in_row b (fs @ [f]) \<le> j" if "j < IES_PER_TPL_EXT_DB_ENTRY" for b j
    using rows that ok extf by (auto simp: upd in_row_single x_def fields_ok_def)
  ultimately have "built (fs @ [f]) e1" using tlen by (simp add: built_def)
  then show ?thesis using run head by blast
qed

lemma add_fields_built:
  assumes "built ds e" "fields_ok (ds @ fs)"
  shows "\<exists>e1. add_fields (length ds) fs e = Inr e1 \<and> built (ds @ fs) e1 \<and> same_head e e1"
  using assms
proof (induction fs arbitrary: ds e)
  case (Cons f fs)
  have ok: "fields_ok (ds @ [f])" using Cons.prems(2) fields_ok_butlast [of "ds @ [f]" fs] by simp
  obtain e1 where e1: "tpl_field (length ds) (tf_type f) (tf_len f) (tf_pen f) e = Inr e1" "built (ds @ [f]) e1" "same_head e e1"
    using legacy_field_built [OF Cons.prems(1) ok] ext_field_built [OF Cons.prems(1) ok] unfolding tpl_field_def tf_ext_def by metis
  then obtain e2 where "add_fields (length (ds @ [f])) fs e1 = Inr e2" "built ((ds @ [f]) @ fs) e2" "same_head e1 e2"
    using Cons.IH [OF e1(2)] Cons.prems(2) by auto
  then show ?case using e1 same_head_trans [OF e1(3)] by auto
qed auto

lemma built_init: "built [] (template_init agent sid tid ttype num)"
  by (simp add: built_def layout_def template_init_def otpl_zero_def)

definition enc_template :: "u16 \<Rightarrow> tfield list \<Rightarrow> byte list" where
  "enc_template tid fs = put_be16 tid @ put_be16 (word_of_nat (length fs)) @ enc_fields fs"

text \<open>A template in the wire format becomes an entry of the cache with its layout.\<close>

lemma data_template_enc:
  assumes at: "buf_at buf hdr (enc_template tid fs)" and ok: "list_all (wire_field version) fs" "fields_ok fs"
    and len: "length (enc_template tid fs) \<le> unat len"
  shows "\<exists>e. data_template buf hdr agent sid version len = Inr (Some e, word_of_nat (pens_of fs)) \<and> built fs e \<and>
    same_head (template_init agent sid tid 0 (word_of_nat (length fs))) e"
proof -
  let ?e0 = "template_init agent sid tid 0 (word_of_nat (length fs))"
  obtain e where e: "add_fields 0 fs ?e0 = Inr e" "built fs e" "same_head ?e0 e"
    using add_fields_built [OF built_init [of agent sid tid 0 "word_of_nat (length fs)"], of fs] ok(2) by auto
  have h: "rd_be16 buf hdr = Inr tid" "rd_be16 buf (hdr + 2) = Inr (word_of_nat (length fs))" and fld: "buf_at buf (hdr + 4) (enc_fields fs)"
    using at by (auto simp: enc_template_def numeral_eq_Suc intro: buf_at_put_be16)
  have "length fs \<le> 256" using ok(2) by (simp add: fields_ok_def TPL_LIST_ENTRIES_def)
  then have "tpl_fields buf version (word_of_nat (length fs)) len (hdr + 4) 0 4 0 ?e0 = Inr (Some e, word_of_nat (pens_of fs))"
    using tpl_fields_enc [OF fld ok(1), of 0 4 len 0 ?e0] len e(1) by (simp add: enc_template_def)
  then show ?thesis using h e(2,3) by (simp add: data_template_def NfTplHdrV9Sz_def)
qed


section \<open>Records on the wire\<close>

text \<open>A value of a record; where its field has variable length, the flag says that the length is
  sent in three bytes, which it must be from 255 on.\<close>

type_synonym fvalue = "bool \<times> byte list"

definition prefix_of :: "tfield \<Rightarrow> fvalue \<Rightarrow> byte list" where
  "prefix_of f v =
     (if \<not> tf_var f then [] else if fst v then 255 # put_be16 (word_of_nat (length (snd v))) else [word_of_nat (length (snd v))])"

definition value_ok :: "tfield \<Rightarrow> fvalue \<Rightarrow> bool" where
  "value_ok f v \<longleftrightarrow>
     (if tf_var f then length (snd v) < (if fst v then 65536 else 255) else length (snd v) = unat (tf_len f))"

definition enc_record :: "tfield list \<Rightarrow> fvalue list \<Rightarrow> byte list" where
  "enc_record fs vs = concat (map2 (\<lambda>f v. prefix_of f v @ snd v) fs vs)"

text \<open>Where the \<open>k\<close>-th value starts.\<close>

definition value_pos :: "tfield list \<Rightarrow> fvalue list \<Rightarrow> nat \<Rightarrow> nat" where
  "value_pos fs vs k = length (enc_record (take k fs) (take k vs)) + length (prefix_of (fs ! k) (vs ! k))"

definition placed :: "tfield list \<Rightarrow> fvalue list \<Rightarrow> template_cache_entry \<Rightarrow> nat \<Rightarrow> bool" where
  "placed fs vs e k \<longleftrightarrow> unat (fld_off e (fref fs k)) = value_pos fs vs k \<and> unat (fld_len e (fref fs k)) = length (snd (vs ! k))"

lemma enc_record_split:
  assumes "k < length fs" "length vs = length fs"
  shows "enc_record fs vs = enc_record (take k fs) (take k vs) @ (prefix_of (fs ! k) (vs ! k) @ snd (vs ! k)) @ enc_record (drop (Suc k) fs) (drop (Suc k) vs)"
proof -
  have "fs = take k fs @ fs ! k # drop (Suc k) fs" "vs = take k vs @ vs ! k # drop (Suc k) vs"
    using assms by (simp_all add: id_take_nth_drop)
  moreover have "length (take k fs) = length (take k vs)" using assms by simp
  ultimately have "enc_record fs vs = enc_record (take k fs @ fs ! k # drop (Suc k) fs) (take k vs @ vs ! k # drop (Suc k) vs)"
    and len: "length (take k fs) = length (take k vs)" by simp_all
  then show ?thesis unfolding enc_record_def by (simp add: zip_append [OF len])
qed

lemma enc_record_take_Suc:
  assumes "k < length fs" "length vs = length fs"
  shows "enc_record (take (Suc k) fs) (take (Suc k) vs) = enc_record (take k fs) (take k vs) @ prefix_of (fs ! k) (vs ! k) @ snd (vs ! k)"
  using enc_record_split [of k "take (Suc k) fs" "take (Suc k) vs"] assms by (simp add: min_def enc_record_def)

lemma enc_record_fixed:
  assumes "list_all2 value_ok fs vs" "\<not> has_var fs"
  shows "length (enc_record fs vs) = fields_len fs"
  using assms by (induction rule: list_all2_induct) (simp_all add: enc_record_def value_ok_def prefix_of_def)

lemma value_ok_take: "list_all2 value_ok fs vs \<Longrightarrow> list_all2 value_ok (take k fs) (take k vs)"
  by (rule list_all2_takeI)

lemma fld_upd [simp]:
  "fld_tpl_len (set_off f x e) g = fld_tpl_len e g"
  "fld_tpl_len (set_len f x e) g = fld_tpl_len e g"
  "fld_off (set_off f x e) g = (if g = f then x else fld_off e g)"
  "fld_off (set_len f x e) g = fld_off e g"
  "fld_len (set_len f x e) g = (if g = f then x else fld_len e g)"
  "fld_len (set_off f x e) g = fld_len e g"
  by (cases f; cases g; simp add: put_ie_def)+

lemma head_upd [simp]:
  "te_list (set_off f x e) = te_list e" "te_list (set_len f x e) = te_list e"
  "te_vlen (set_off f x e) = te_vlen e" "te_vlen (set_len f x e) = te_vlen e"
  "te_num (set_off f x e) = te_num e" "te_num (set_len f x e) = te_num e"
  "same_head e0 (set_off f x e) = same_head e0 e" "same_head e0 (set_len f x e) = same_head e0 e"
  by (cases f; simp add: put_ie_def same_head_def)+

lemma tpl_upd:
  "te_tpl (set_off f x e) t = (if f = In_Tpl t then (te_tpl e t)\<lparr>of_off := x\<rparr> else te_tpl e t)"
  "te_tpl (set_len f x e) t = (if f = In_Tpl t then (te_tpl e t)\<lparr>of_len := x\<rparr> else te_tpl e t)"
  by (cases f; simp add: put_ie_def)+

text \<open>Which changes of offset and length keep a layout.\<close>

lemma fref_not_tpl:
  assumes "k < length fs" "\<forall>f \<in> set fs. \<not> tf_ext f \<longrightarrow> unat (tf_type f) \<noteq> t"
  shows "fref fs k \<noteq> In_Tpl t"
  using assms nth_mem [OF assms(1)] by (auto simp: fref_def Let_def)

lemma layout_set_off:
  assumes "layout fs e" "fields_ok fs" "k < length fs" "has_var (take (Suc k) fs)"
  shows "layout fs (set_off (fref fs k) x e)"
proof -
  have "fld_off (set_off (fref fs k) x e) (fref fs j) = word_of_nat (fields_len (take j fs))"
    if "j < length fs" "\<not> has_var (take (Suc j) fs)" for j
  proof -
    have "j \<noteq> k" using that assms(4) by auto
    then have "fref fs j \<noteq> fref fs k" using fref_inj [OF assms(2)] that(1) assms(3) by (metis nat_neq_iff)
    then show ?thesis using assms(1) that by (simp add: layout_def)
  qed
  then show ?thesis using assms(1) fref_not_tpl [OF assms(3)] unfolding layout_def by (auto simp: tpl_upd)
qed

lemma layout_set_len:
  assumes "layout fs e" "fields_ok fs" "k < length fs" "tf_var (fs ! k)"
  shows "layout fs (set_len (fref fs k) x e)"
proof -
  have "fld_len (set_len (fref fs k) x e) (fref fs j) = tf_len (fs ! j)" if "j < length fs" "\<not> tf_var (fs ! j)" for j
  proof -
    have "j \<noteq> k" using that assms(4) by auto
    then have "fref fs j \<noteq> fref fs k" using fref_inj [OF assms(2)] that(1) assms(3) by (metis nat_neq_iff)
    then show ?thesis using assms(1) that by (simp add: layout_def)
  qed
  then show ?thesis using assms(1) fref_not_tpl [OF assms(3)] unfolding layout_def by (auto simp: tpl_upd)
qed


lemma get_ipfix_vlen_enc:
  assumes "buf_at buf p (prefix_of f v)" "value_ok f v" "tf_var f"
  shows "get_ipfix_vlen buf p = Inr (length (prefix_of f v), word_of_nat (length (snd v)))"
proof (cases "fst v")
  case True
  then have "rd8 buf p = Inr 255" "rd_be16 buf (p + 1) = Inr (word_of_nat (length (snd v)))"
    using assms by (auto simp: prefix_of_def intro: buf_at_rd8 buf_at_put_be16 dest: buf_at_Cons)
  then show ?thesis using True assms(3) by (simp add: get_ipfix_vlen_def prefix_of_def)
next
  case False
  then have n: "length (snd v) < 255" and r: "rd8 buf p = Inr (word_of_nat (length (snd v)))"
    using assms by (auto simp: prefix_of_def value_ok_def intro: buf_at_rd8)
  define b :: byte where "b = word_of_nat (length (snd v))"
  have b: "unat b = length (snd v)" using n by (simp add: b_def unat_of_nat)
  then have "b < 255" using n by (simp add: word_less_nat_alt)
  moreover have "ucast b = (word_of_nat (length (snd v)) :: u16)" unfolding b [symmetric] by simp
  moreover note r [folded b_def]
  ultimately have "get_ipfix_vlen buf p = Inr (1, word_of_nat (length (snd v)))" by (simp add: get_ipfix_vlen_def)
  then show ?thesis using False assms(3) by (simp add: prefix_of_def)
qed

lemma placed_set:
  assumes "fields_ok fs" "k < length fs" "j < k"
  shows "placed fs vs (set_off (fref fs k) x e) j = placed fs vs e j" "placed fs vs (set_len (fref fs k) x e) j = placed fs vs e j"
  using fref_inj [OF assms(1,3,2)] by (simp_all add: placed_def)

definition behind :: "tfield list \<Rightarrow> fvalue list \<Rightarrow> nat \<Rightarrow> nat" where
  "behind fs vs k = length (enc_record (take k fs) (take k vs))"

lemma behind_Suc:
  assumes "k < length fs" "length vs = length fs"
  shows "behind fs vs (Suc k) = behind fs vs k + (length (prefix_of (fs ! k) (vs ! k)) + length (snd (vs ! k)))"
  by (simp add: behind_def enc_record_take_Suc [OF assms])

lemma behind_le: "k \<le> length fs \<Longrightarrow> length vs = length fs \<Longrightarrow> behind fs vs k \<le> length (enc_record fs vs)"
proof (cases "k = length fs")
  case False
  assume "k \<le> length fs" "length vs = length fs"
  then show ?thesis using False enc_record_split [of k fs vs] by (simp add: behind_def)
qed (simp add: behind_def)

lemma resolve_field_enc:
  assumes lay: "layout fs e" and ok: "fields_ok fs" and k: "k < length fs" and vs: "list_all2 value_ok fs vs"
    and at: "buf_at buf ptr (enc_record fs vs)" and len: "length (enc_record fs vs) < 65536"
    and before: "\<forall>j < k. placed fs vs e j"
  shows "\<exists>e1. resolve_field buf ptr (fref fs k) (has_var (take k fs)) (word_of_nat (behind fs vs k)) e =
      Inr (has_var (take (Suc k) fs), word_of_nat (behind fs vs (Suc k)), e1) \<and> layout fs e1 \<and> same_head e e1 \<and>
      (\<forall>j < Suc k. placed fs vs e1 j)"
proof -
  let ?g = "fref fs k" and ?L = "behind fs vs k" and ?f = "fs ! k" and ?v = "vs ! k"
  let ?W = "word_of_nat ?L :: u16"
  have lv: "length vs = length fs" using vs by (simp add: list_all2_lengthD)
  have vok: "value_ok ?f ?v" using list_all2_nthD [OF vs k] .
  have suc: "behind fs vs (Suc k) = ?L + (length (prefix_of ?f ?v) + length (snd ?v))" by (rule behind_Suc [OF k lv])
  have "behind fs vs (Suc k) \<le> length (enc_record fs vs)" using behind_le [OF _ lv, of "Suc k"] k by simp
  then have small: "behind fs vs (Suc k) < 65536" "?L < 65536" "?L + length (prefix_of ?f ?v) < 65536" "length (snd ?v) < 65536"
    using suc len by simp_all
  have pos: "value_pos fs vs k = ?L + length (prefix_of ?f ?v)" by (simp add: value_pos_def behind_def)
  have tl: "fld_tpl_len e ?g = tf_len ?f" using lay k by (simp add: layout_def)
  have hv: "has_var (take (Suc k) fs) = (has_var (take k fs) \<or> tf_var ?f)" by (rule has_var_take_Suc [OF k])
  let ?e1 = "if has_var (take k fs) then set_off ?g ?W e else e"
  have e1: "layout fs ?e1" "same_head e ?e1" "\<forall>j < k. placed fs vs ?e1 j"
    using lay before layout_set_off [OF lay ok k] hv by (simp_all add: placed_set [OF ok k])
  show ?thesis
  proof (cases "tf_var ?f")
    case True
    have "buf_at buf (ptr + ?L) (prefix_of ?f ?v)"
      using at enc_record_split [OF k lv] by (simp add: behind_def)
    note get = get_ipfix_vlen_enc [OF this vok True]
    let ?p = "length (prefix_of ?f ?v)"
    let ?e2 = "set_off ?g (?W + word_of_nat ?p) (set_len ?g (word_of_nat (length (snd ?v))) ?e1)"
    have lay2: "layout fs ?e2"
      using True hv by (intro layout_set_off [OF _ ok k] layout_set_len [OF e1(1) ok k]) simp_all
    have "unat (?W + word_of_nat ?p) = ?L + ?p" using small(3) by (simp only: of_nat_add [symmetric] unat_u16_of_nat)
    then have "placed fs vs ?e2 k" using pos small(4) by (simp add: placed_def unat_u16_of_nat)
    moreover have "placed fs vs ?e2 j" if "j < k" for j using e1(3) that by (simp add: placed_set [OF ok k])
    ultimately have all: "\<forall>j < Suc k. placed fs vs ?e2 j" by (simp only: less_Suc_eq) blast
    have run: "resolve_field buf ptr ?g (has_var (take k fs)) ?W e = Inr (True, word_of_nat (behind fs vs (Suc k)), ?e2)"
    proof -
      have "fld_tpl_len ?e1 ?g = IPFIX_VARIABLE_LENGTH" using True tl by (simp add: tf_var_def)
      moreover have "?W + (word_of_nat (length (snd ?v)) + word_of_nat ?p) = word_of_nat (behind fs vs (Suc k))"
        by (simp only: suc of_nat_add ac_simps)
      ultimately show ?thesis unfolding resolve_field_def Let_def by (simp only: unat_u16_of_nat [OF small(2)] get rbind_simps prod.case if_True refl)
    qed
    have "has_var (take (Suc k) fs)" using hv True by simp
    moreover have "same_head e ?e2" using e1(2) by simp
    ultimately show ?thesis using run lay2 all by (intro exI [of _ ?e2] conjI) simp_all
  next
    case False
    have p0: "prefix_of ?f ?v = []" using False by (simp add: prefix_of_def)
    have n: "length (snd ?v) = unat (tf_len ?f)" using vok False by (simp add: value_ok_def)
    have fl: "fld_len e ?g = tf_len ?f" using lay k False by (simp add: layout_def)
    have "fld_off e ?g = ?W" if "\<not> has_var (take k fs)"
    proof -
      have "fld_off e ?g = word_of_nat (fields_len (take k fs))" using lay k that False hv by (simp add: layout_def)
      moreover have "?L = fields_len (take k fs)"
        using enc_record_fixed [OF value_ok_take [OF vs] that] by (simp add: behind_def)
      ultimately show ?thesis by simp
    qed
    then have "placed fs vs ?e1 k" using pos p0 n fl small(2) by (simp add: placed_def unat_u16_of_nat)
    then have all: "\<forall>j < Suc k. placed fs vs ?e1 j" using e1(3) by (simp only: less_Suc_eq) blast
    have run: "resolve_field buf ptr ?g (has_var (take k fs)) ?W e = Inr (has_var (take k fs), word_of_nat (behind fs vs (Suc k)), ?e1)"
      using False tl fl by (simp add: resolve_field_def Let_def tf_var_def suc p0 n)
    have "has_var (take (Suc k) fs) = has_var (take k fs)" using hv False by simp
    then show ?thesis using run e1(1,2) all by (intro exI [of _ ?e1] conjI) simp_all
  qed
qed

lemma resolve_loop_enc:
  assumes "layout fs e" and ok: "fields_ok fs" and "k \<le> length fs" and vs: "list_all2 value_ok fs vs"
    and at: "buf_at buf ptr (enc_record fs vs)" and len: "length (enc_record fs vs) \<le> unat flowsetlen"
    and "\<forall>j < k. placed fs vs e j"
  shows "\<exists>e1. resolve_loop buf ptr flowsetlen (word_of_nat (length fs)) (word_of_nat k) (has_var (take k fs)) (word_of_nat (behind fs vs k)) e =
      Inr (word_of_nat (length (enc_record fs vs)), e1) \<and> layout fs e1 \<and> same_head e e1 \<and> (\<forall>j < length fs. placed fs vs e1 j)"
  using assms(1,3,7)
proof (induction "length fs - k" arbitrary: k e)
  case 0
  then have "k = length fs" by simp
  moreover have "length vs = length fs" using vs by (simp add: list_all2_lengthD)
  ultimately show ?case using 0 unfolding resolve_loop.simps [of buf ptr flowsetlen _ "word_of_nat k"]
    by (simp add: behind_def)
next
  case (Suc n)
  then have k: "k < length fs" by simp
  have lf: "length fs \<le> 256" using ok by (simp add: fields_ok_def TPL_LIST_ENTRIES_def)
  have lv: "length vs = length fs" using vs by (simp add: list_all2_lengthD)
  have small: "length (enc_record fs vs) < 65536" using len unat_u16_less [of flowsetlen] by simp
  obtain e1 where e1: "resolve_field buf ptr (fref fs k) (has_var (take k fs)) (word_of_nat (behind fs vs k)) e =
      Inr (has_var (take (Suc k) fs), word_of_nat (behind fs vs (Suc k)), e1)" "layout fs e1" "same_head e e1" "\<forall>j < Suc k. placed fs vs e1 j"
    using resolve_field_enc [OF Suc.prems(1) ok k vs at small Suc.prems(3)] by blast
  have "behind fs vs (Suc k) \<le> unat flowsetlen" using behind_le [OF _ lv, of "Suc k"] k len by simp
  then have go: "\<not> flowsetlen < (word_of_nat (behind fs vs (Suc k)) :: u16)"
    using unat_u16_less [of flowsetlen] by (simp add: word_less_nat_alt unat_u16_of_nat)
  have idx: "unat (word_of_nat k :: u16) = k" "(word_of_nat k :: u16) < word_of_nat (length fs)"
    using k lf by (simp_all add: word_less_nat_alt unat_u16_of_nat)
  have "lf_ptr (te_list e k) = Some (fref fs k)" using Suc.prems(1) k by (simp add: layout_def)
  then have step: "resolve_loop buf ptr flowsetlen (word_of_nat (length fs)) (word_of_nat k) (has_var (take k fs)) (word_of_nat (behind fs vs k)) e =
      resolve_loop buf ptr flowsetlen (word_of_nat (length fs)) (word_of_nat (Suc k)) (has_var (take (Suc k) fs))
        (word_of_nat (behind fs vs (Suc k))) e1"
    unfolding resolve_loop.simps [of buf ptr flowsetlen _ "word_of_nat k"] using idx e1(1) go k lf
    by (simp add: TPL_LIST_ENTRIES_def add.commute)
  obtain e2 where "resolve_loop buf ptr flowsetlen (word_of_nat (length fs)) (word_of_nat (Suc k)) (has_var (take (Suc k) fs))
        (word_of_nat (behind fs vs (Suc k))) e1 = Inr (word_of_nat (length (enc_record fs vs)), e2)"
      "layout fs e2" "same_head e1 e2" "\<forall>j < length fs. placed fs vs e2 j"
    using Suc.hyps(1) [OF _ e1(2) _ e1(4)] Suc.hyps(2) k by (metis Suc_leI diff_Suc_Suc Suc_diff_Suc diff_Suc_1)
  then show ?case using step same_head_trans [OF e1(3)] by auto
qed

end
