(* ===== verification/Nf9_Records.thy ===== *)
theory Nf9_Records
  imports Nf9_Props
begin

text \<open>
  From the bytes of a NetFlow v9 or IPFIX packet to its records: \<^verbatim>\<open>process_v9_packet\<close> of
  \<^verbatim>\<open>src/src/nfacctd.c\<close> on packets of well-formed flowsets, and the packets it does not get right.
\<close>

section \<open>Reading a record\<close>

definition field_value :: "byte list \<Rightarrow> nat \<Rightarrow> template_cache_entry \<Rightarrow> field_ptr \<Rightarrow> byte list res" where
  "field_value buf pos e f = rd_mem buf (pos + unat (fld_off e f)) (unat (fld_len e f))"

text \<open>A record that was handed on for the values \<open>vs\<close>: at its place, the fields of the template hold the
  values, one by one.\<close>

definition rec_ok :: "byte list \<Rightarrow> tfield list \<Rightarrow> fvalue list \<Rightarrow> flow_record \<Rightarrow> bool" where
  "rec_ok buf fs vs r \<longleftrightarrow>
     (\<exists>pos e flow_type direction. r = Data_Record pos e flow_type direction \<and> buf_at buf pos (enc_record fs vs) \<and>
        (\<forall>k < length fs. lf_ptr (te_list e k) = Some (fref fs k) \<and> field_value buf pos e (fref fs k) = Inr (snd (vs ! k))) \<and>
        NF_evaluate_flow_type buf pos e = Inr flow_type \<and> NF_evaluate_direction buf pos e = Inr direction)"

lemma value_at:
  assumes "buf_at buf pos (enc_record fs vs)" "k < length fs" "length vs = length fs"
  shows "buf_at buf (pos + value_pos fs vs k) (snd (vs ! k))"
  using assms(1) enc_record_split [OF assms(2,3)] by (simp add: value_pos_def add.assoc)

lemma placed_value:
  assumes "buf_at buf pos (enc_record fs vs)" "k < length fs" "length vs = length fs" "placed fs vs e k"
  shows "field_value buf pos e (fref fs k) = Inr (snd (vs ! k))"
  using value_at [OF assms(1-3)] assms(4) by (simp add: field_value_def placed_def buf_at_rd_mem)

lemma first_byte_total:
  assumes at: "buf_at buf pos (enc_record fs vs)" and lv: "length vs = length fs" and lay: "layout fs e"
    and pl: "\<forall>k < length fs. placed fs vs e k"
  shows "\<exists>b. first_byte buf pos e t P = Inr b"
proof (cases "of_len (te_tpl e t) = 0")
  case False
  then have "te_tpl e t \<noteq> otpl_zero" by (auto simp: otpl_zero_def)
  then obtain f where f: "f \<in> set fs" "\<not> tf_ext f" "unat (tf_type f) = t" using lay unfolding layout_def by blast
  then obtain k where k: "k < length fs" "fs ! k = f" by (auto simp: in_set_conv_nth)
  then have g: "fref fs k = In_Tpl t" using f by (simp add: fref_def)
  have p: "unat (of_off (te_tpl e t)) = value_pos fs vs k" "unat (of_len (te_tpl e t)) = length (snd (vs ! k))"
    using pl k(1) g by (auto simp: placed_def)
  have "length (snd (vs ! k)) \<noteq> 0" using False p(2) by (metis unat_eq_zero)
  moreover have "pos + value_pos fs vs k + length (snd (vs ! k)) \<le> length buf"
    using value_at [OF at k(1) lv] by (simp add: buf_at_def)
  ultimately have "pos + value_pos fs vs k < length buf" by linarith
  then show ?thesis using False by (simp add: first_byte_def p(1))
next
  case True
  then have "first_byte buf pos e t P = Inr False" by (simp add: first_byte_def)
  then show ?thesis by blast
qed

lemma evaluate_total:
  assumes "buf_at buf pos (enc_record fs vs)" "length vs = length fs" "layout fs e" "\<forall>k < length fs. placed fs vs e k"
  shows "\<exists>ft. NF_evaluate_flow_type buf pos e = Inr ft" "\<exists>d. NF_evaluate_direction buf pos e = Inr d"
proof -
  note fb = first_byte_total [OF assms]
  obtain a b where "first_byte buf pos e NF9_IN_VLAN (\<lambda>b. 0 < b) = Inr a" "first_byte buf pos e NF9_OUT_VLAN (\<lambda>b. 0 < b) = Inr b"
    using fb by blast
  then have v: "has_vlan buf pos e = Inr (a \<or> b)" by (simp add: has_vlan_def)
  obtain c d where "first_byte buf pos e NF9_IP_PROTOCOL_VERSION (\<lambda>b. b = 4) = Inr c"
      "first_byte buf pos e NF9_IP_PROTOCOL_VERSION (\<lambda>b. b = 6) = Inr d"
    using fb by blast
  then have i: "\<exists>v. ip_version buf pos e = Inr v" by (simp add: ip_version_def)
  then obtain ip where "ip_version buf pos e = Inr ip" ..
  then show "\<exists>ft. NF_evaluate_flow_type buf pos e = Inr ft"
    using v by (auto simp: NF_evaluate_flow_type_def Let_def simp del: rbind_eq_Inr)
  obtain o1 where "first_byte buf pos e NF9_DIRECTION (\<lambda>b. b = 1) = Inr o1" using fb by blast
  then show "\<exists>d. NF_evaluate_direction buf pos e = Inr d" by (simp add: NF_evaluate_direction_def)
qed

text \<open>A template in the cache that is ready for its next record.\<close>

definition tpl_ready :: "tfield list \<Rightarrow> template_cache_entry \<Rightarrow> bool" where
  "tpl_ready fs e \<longleftrightarrow> layout fs e \<and> te_num e = word_of_nat (length fs) \<and> te_template_type e = 0 \<and>
     (if has_var fs then unat (te_len e) \<le> 1 else te_len e = word_of_nat (fields_len fs))"

lemma layout_len [simp]: "layout fs (e\<lparr>te_len := n\<rparr>) = layout fs e"
proof -
  have "fld_tpl_len (e\<lparr>te_len := n\<rparr>) g = fld_tpl_len e g" "fld_len (e\<lparr>te_len := n\<rparr>) g = fld_len e g"
    "fld_off (e\<lparr>te_len := n\<rparr>) g = fld_off e g" for g by (cases g; simp)+
  then show ?thesis by (simp add: layout_def)
qed

lemma placed_len [simp]: "placed fs vs (e\<lparr>te_len := n\<rparr>) k = placed fs vs e k"
  by (cases "fref fs k") (simp_all add: placed_def)

lemma same_head_len [simp]: "same_head e (e1\<lparr>te_len := n\<rparr>) = same_head e e1"
  by (simp add: same_head_def)

lemma placed_fixed:
  assumes "layout fs e" "\<not> has_var fs" "list_all2 value_ok fs vs" "k < length fs" "length (enc_record fs vs) < 65536"
  shows "placed fs vs e k"
proof -
  have nv: "\<not> has_var (take j fs)" for j using assms(2) has_var_take by blast
  have "\<not> tf_var (fs ! k)" using assms(2,4) nth_mem [of k fs] by (auto simp: has_var_def)
  then have p: "prefix_of (fs ! k) (vs ! k) = []" "length (snd (vs ! k)) = unat (tf_len (fs ! k))"
      "fld_len e (fref fs k) = tf_len (fs ! k)"
    using assms(1,4) list_all2_nthD [OF assms(3,4)] by (simp_all add: prefix_of_def value_ok_def layout_def)
  have "fld_off e (fref fs k) = word_of_nat (fields_len (take k fs))" using assms(1,4) nv by (simp add: layout_def)
  moreover have "length (enc_record (take k fs) (take k vs)) = fields_len (take k fs)"
    using enc_record_fixed [OF value_ok_take [OF assms(3)] nv] .
  moreover have "length (enc_record (take k fs) (take k vs)) < 65536"
    using behind_le [OF _ list_all2_lengthD [OF assms(3), symmetric], of k] assms(4,5) by (simp add: behind_def)
  ultimately have "unat (fld_off e (fref fs k)) = length (enc_record (take k fs) (take k vs))" by (simp only: unat_u16_of_nat)
  then show ?thesis unfolding placed_def value_pos_def by (simp only: p list.size add_0_right simp_thms)
qed

lemma record_nonempty:
  assumes "list_all2 value_ok fs vs" "has_var fs"
  shows "1 \<le> length (enc_record fs vs)"
  using assms
proof (induction rule: list_all2_induct)
  case (Cons f fs v vs)
  then show ?case by (cases "tf_var f") (auto simp: enc_record_def prefix_of_def)
qed simp

text \<open>The body of the loop over the records.\<close>

lemma data_record_enc:
  assumes ready: "tpl_ready fs e" and ok: "fields_ok fs" and vs: "list_all2 value_ok fs vs"
    and at: "buf_at buf pkt (enc_record fs vs)" and room: "unat flowoff + length (enc_record fs vs) \<le> unat flowsetlen"
  shows "\<exists>r e2. data_record buf tp flowsetlen e pkt flowoff s =
      Inr (True, pkt + length (enc_record fs vs), flowoff + word_of_nat (length (enc_record fs vs)), put_tpl tp e2 (add_record r s)) \<and>
    rec_ok buf fs vs r \<and> tpl_ready fs e2 \<and> same_head e e2 \<and> (has_var fs \<longrightarrow> te_len e2 = 1)"
proof -
  let ?n = "length (enc_record fs vs)"
  have lv: "length vs = length fs" using vs by (simp add: list_all2_lengthD)
  have small: "?n < 65536" using room unat_u16_less [of flowsetlen] by simp
  have lay: "layout fs e" and vl: "te_vlen e = has_var fs" using ready by (simp_all add: tpl_ready_def layout_def)
  obtain e1 where e1: "(if te_vlen e then resolve_vlen_template buf pkt flowsetlen e else Inr e) = Inr e1"
    "layout fs e1" "same_head e e1" "\<forall>k < length fs. placed fs vs e1 k" "te_len e1 = word_of_nat ?n" "\<not> has_var fs \<longrightarrow> e1 = e"
  proof (cases "has_var fs")
    case True
    have n: "te_num e = word_of_nat (length fs)" using ready by (simp add: tpl_ready_def)
    have "?n \<le> unat flowsetlen" using room by simp
    from resolve_loop_enc [OF lay ok le0 vs at this] obtain e1 where
      "resolve_loop buf pkt flowsetlen (te_num e) 0 False 0 e = Inr (word_of_nat ?n, e1)" "layout fs e1" "same_head e e1"
      "\<forall>k < length fs. placed fs vs e1 k"
      by (auto simp: n behind_def enc_record_def)
    then show ?thesis using that [of "e1\<lparr>te_len := word_of_nat ?n\<rparr>"] True vl by (simp add: resolve_vlen_template_def)
  next
    case False
    then show ?thesis using that [of e] vl lay placed_fixed [OF lay False vs _ small] ready enc_record_fixed [OF vs False]
      by (simp add: tpl_ready_def)
  qed
  obtain ft d where fd: "NF_evaluate_flow_type buf pkt e1 = Inr ft" "NF_evaluate_direction buf pkt e1 = Inr d"
    using evaluate_total [OF at lv e1(2,4)] by blast
  let ?e2 = "if te_vlen e then e1\<lparr>te_len := 1\<rparr> else e1"
  have "\<not> unat flowsetlen < unat flowoff + unat (te_len e1)" using room small e1(5) by (simp add: unat_u16_of_nat)
  then have "data_record buf tp flowsetlen e pkt flowoff s = Inr (True, pkt + ?n, flowoff + word_of_nat ?n, put_tpl tp ?e2 (add_record (Data_Record pkt e1 ft d) s))"
    unfolding data_record_def e1(1) using fd small e1(5) by (simp add: unat_u16_of_nat)
  moreover have "rec_ok buf fs vs (Data_Record pkt e1 ft d)"
    using at fd e1(2,4) placed_value [OF at _ lv] by (simp add: rec_ok_def layout_def)
  moreover have "tpl_ready fs ?e2"
    using ready e1(2,3,6) vl by (simp add: tpl_ready_def same_head_def)
  moreover have "same_head e ?e2" using e1(3) by simp
  ultimately show ?thesis using vl by (intro exI [of _ "Data_Record pkt e1 ft d"] exI [of _ ?e2]) simp
qed


section \<open>The cache\<close>

lemma get_put: "get_tpl tp s = Inr e \<Longrightarrow> get_tpl q (put_tpl tp e1 s) = (if q = tp then Inr e1 else get_tpl q s)"
  by (cases q; cases tp) (auto simp: get_tpl_def put_tpl_def split: if_split_asm)

lemma state_put [simp]:
  "nf_records (put_tpl tp e s) = nf_records s" "nf_bad (put_tpl tp e s) = nf_bad s" "nf_seq_inc (put_tpl tp e s) = nf_seq_inc s"
  by (simp_all add: put_tpl_def)

lemma state_add [simp]:
  "nf_records (add_record r s) = nf_records s @ [r]" "nf_bad (add_record r s) = nf_bad s" "nf_seq_inc (add_record r s) = nf_seq_inc s + 1"
  "get_tpl q (add_record r s) = get_tpl q s" "find_template tid agent sid (add_record r s) = find_template tid agent sid s"
  "put_tpl tp e (add_record r s) = add_record r (put_tpl tp e s)"
  by (simp_all add: add_record_def get_tpl_def find_template_def put_tpl_def)

lemma find_chain_Some: "find_chain key es i = Some j \<Longrightarrow> i \<le> j \<and> j - i < length es \<and> key (es ! (j - i))"
proof (induction es arbitrary: i)
  case (Cons e es)
  show ?case
  proof (cases "key e")
    case False
    then have "Suc i \<le> j \<and> j - Suc i < length es \<and> key (es ! (j - Suc i))" using Cons.IH [of "Suc i"] Cons.prems by simp
    moreover from this have "j - i = Suc (j - Suc i)" by arith
    ultimately show ?thesis by simp
  qed (use Cons.prems in simp)
qed simp

lemma find_chain_update: "key e1 = key (es ! j) \<Longrightarrow> find_chain key (es[j := e1]) i = find_chain key es i"
proof (induction es arbitrary: i j)
  case (Cons e es)
  then show ?case by (cases j) simp_all
qed simp

lemma find_chain_append:
  "find_chain key (es @ [e]) i = (case find_chain key es i of Some j \<Rightarrow> Some j | None \<Rightarrow> if key e then Some (i + length es) else None)"
  by (induction es arbitrary: i) (simp_all split: option.split)

lemma same_head_key: "same_head e e1 \<Longrightarrow> tpl_key tid agent sid e1 = tpl_key tid agent sid e"
  by (simp add: same_head_def tpl_key_def)

lemma find_put:
  assumes "get_tpl tp s = Inr e" "tpl_key tid agent sid e1 = tpl_key tid agent sid e"
  shows "find_template tid agent sid (put_tpl tp e1 s) = find_template tid agent sid s"
proof -
  have "find_chain (tpl_key tid agent sid) ((nf_cache s (fst tp))[snd tp := e1]) 0 = find_chain (tpl_key tid agent sid) (nf_cache s (fst tp)) 0"
    using assms by (intro find_chain_update) (simp add: get_tpl_def split: if_split_asm)
  then show ?thesis by (simp add: find_template_def put_tpl_def Let_def)
qed

lemma find_get:
  assumes "find_template tid agent sid s = Some tp"
  shows "\<exists>e. get_tpl tp s = Inr e \<and> tpl_key tid agent sid e"
  using assms find_chain_Some [of "tpl_key tid agent sid" "nf_cache s (unat tid mod TEMPLATE_CACHE_ENTRIES)" 0]
  by (auto simp: find_template_def get_tpl_def Let_def)

text \<open>What the cache holds for an exporter: the template of an id.\<close>

definition cached :: "sockaddr \<Rightarrow> u32 \<Rightarrow> nf_state \<Rightarrow> u16 \<Rightarrow> template_cache_entry option" where
  "cached agent sid s tid =
     (case find_template tid agent sid s of None \<Rightarrow> None | Some tp \<Rightarrow> (case get_tpl tp s of Inl f \<Rightarrow> None | Inr e \<Rightarrow> Some e))"

lemma cached_find: "cached agent sid s tid = Some e \<longleftrightarrow> (\<exists>tp. find_template tid agent sid s = Some tp \<and> get_tpl tp s = Inr e)"
  by (auto simp: cached_def split: option.splits sum.splits)

lemma cached_add [simp]: "cached agent sid (add_record r s) = cached agent sid s"
  by (auto simp: cached_def fun_eq_iff split: option.split)

lemma key_id: "tpl_key tid agent sid e \<Longrightarrow> te_template_id e = tid"
  by (simp add: tpl_key_def)

text \<open>Writing to a cached template changes what the cache holds for its id.\<close>

lemma cached_put:
  assumes tp: "find_template tid agent sid s = Some tp" and e: "get_tpl tp s = Inr e" "same_head e e1"
  shows "cached agent sid (put_tpl tp e1 s) = (cached agent sid s)(tid := Some e1)"
proof
  fix tid1
  have find: "find_template tid1 agent sid (put_tpl tp e1 s) = find_template tid1 agent sid s"
    by (rule find_put [OF e(1) same_head_key [OF e(2)]])
  show "cached agent sid (put_tpl tp e1 s) tid1 = ((cached agent sid s)(tid := Some e1)) tid1"
  proof (cases "tid1 = tid")
    case True
    then show ?thesis using tp find get_put [OF e(1)] by (simp add: cached_def)
  next
    case False
    have "q \<noteq> tp" if "find_template tid1 agent sid s = Some q" for q
      using find_get [OF that] find_get [OF tp] False key_id by (metis sum.inject(2))
    then have "cached agent sid (put_tpl tp e1 s) tid1 = cached agent sid s tid1"
      using find get_put [OF e(1)] by (auto simp: cached_def split: option.split)
    then show ?thesis using False by simp
  qed
qed

section \<open>The records of a flowset\<close>

definition enc_records :: "tfield list \<Rightarrow> fvalue list list \<Rightarrow> byte list" where
  "enc_records fs rs = concat (map (enc_record fs) rs)"

lemma enc_records_simps [simp]: "enc_records fs [] = []" "enc_records fs (vs # rs) = enc_record fs vs @ enc_records fs rs"
  by (simp_all add: enc_records_def)

text \<open>Padding after the last record: less than a record, and none where a length in it would be read.\<close>

definition pad_ok :: "tfield list \<Rightarrow> nat \<Rightarrow> bool" where
  "pad_ok fs pad \<longleftrightarrow> (if has_var fs then pad = 0 else pad < fields_len fs \<and> fields_len fs < 65536)"

lemma data_loop_enc:
  assumes "find_template tid agent sid s = Some tp" "get_tpl tp s = Inr e" "tpl_ready fs e" "has_var fs \<longrightarrow> rs = [] \<longrightarrow> te_len e = 1"
    and ok: "fields_ok fs" "list_all (list_all2 value_ok fs) rs" and "buf_at buf pkt (enc_records fs rs)"
    and "unat flowoff + length (enc_records fs rs) + pad = unat flowsetlen" and pad: "pad_ok fs pad"
  shows "\<exists>recs s1 e1. data_loop buf tp flowsetlen pkt flowoff s =
      Some (Inr (pkt + length (enc_records fs rs), flowoff + word_of_nat (length (enc_records fs rs)), s1)) \<and>
    list_all2 (rec_ok buf fs) rs recs \<and> nf_records s1 = nf_records s @ recs \<and> nf_bad s1 = nf_bad s \<and>
    nf_seq_inc s1 = nf_seq_inc s + word_of_nat (length rs) \<and>
    cached agent sid s1 = (cached agent sid s)(tid := Some e1) \<and> tpl_ready fs e1"
  using assms(1-4) ok(2) assms(7,8)
proof (induction rs arbitrary: pkt flowoff s e)
  case Nil
  have "unat (te_len e) > pad"
    using pad Nil.prems(3,4) by (auto simp: pad_ok_def tpl_ready_def unat_u16_of_nat split: if_split_asm)
  then have "data_loop buf tp flowsetlen pkt flowoff s = Some (Inr (pkt, flowoff, s))"
    using Nil.prems(2,7) by (simp add: data_loop.simps [of buf tp flowsetlen])
  moreover have "cached agent sid s = (cached agent sid s)(tid := Some e)"
    using Nil.prems(1,2) by (simp add: cached_def fun_upd_idem)
  ultimately show ?case using Nil.prems(3) by (intro exI [of _ "[]"] exI [of _ s] exI [of _ e]) simp
next
  case (Cons vs rs)
  let ?n = "length (enc_record fs vs)"
  have vs: "list_all2 value_ok fs vs" and at: "buf_at buf pkt (enc_record fs vs)" "buf_at buf (pkt + ?n) (enc_records fs rs)"
    using Cons.prems(5,6) by simp_all
  have room: "unat flowoff + ?n \<le> unat flowsetlen" using Cons.prems(7) by simp
  obtain r e2 where r: "data_record buf tp flowsetlen e pkt flowoff s = Inr (True, pkt + ?n, flowoff + word_of_nat ?n, put_tpl tp e2 (add_record r s))"
    "rec_ok buf fs vs r" "tpl_ready fs e2" "same_head e e2" "has_var fs \<longrightarrow> te_len e2 = 1"
    using data_record_enc [OF Cons.prems(3) ok(1) vs at(1) room] by blast
  let ?s = "put_tpl tp e2 (add_record r s)"
  have n: "unat (word_of_nat ?n :: u16) = ?n" using room unat_u16_less [of flowsetlen] by (simp add: unat_u16_of_nat)
  then have off: "unat (flowoff + word_of_nat ?n) = unat flowoff + ?n"
    using room unat_u16_less [of flowsetlen] by (simp add: unat_u16_plus)
  have "unat (te_len e) \<le> ?n"
    using Cons.prems(3) record_nonempty [OF vs] enc_record_fixed [OF vs] n by (auto simp: tpl_ready_def split: if_split_asm)
  then have step: "data_loop buf tp flowsetlen pkt flowoff s = data_loop buf tp flowsetlen (pkt + ?n) (flowoff + word_of_nat ?n) ?s"
    using Cons.prems(2) r(1) room by (simp add: data_loop.simps [of buf tp flowsetlen pkt])
  have get: "get_tpl tp ?s = Inr e2" using get_put [OF Cons.prems(2)] by simp
  have find: "find_template tid agent sid ?s = Some tp"
    using find_put [OF Cons.prems(2) same_head_key [OF r(4)]] Cons.prems(1) by simp
  have c: "cached agent sid ?s = (cached agent sid s)(tid := Some e2)"
    using cached_put [OF Cons.prems(1,2) r(4)] by simp
  have rest: "has_var fs \<longrightarrow> rs = [] \<longrightarrow> te_len e2 = 1" "list_all (list_all2 value_ok fs) rs"
    "unat (flowoff + word_of_nat ?n) + length (enc_records fs rs) + pad = unat flowsetlen"
    using r(5) Cons.prems(5,7) off by simp_all
  obtain recs s1 e1 where IH: "data_loop buf tp flowsetlen (pkt + ?n) (flowoff + word_of_nat ?n) ?s =
      Some (Inr (pkt + ?n + length (enc_records fs rs), flowoff + word_of_nat ?n + word_of_nat (length (enc_records fs rs)), s1))"
    "list_all2 (rec_ok buf fs) rs recs" "nf_records s1 = nf_records ?s @ recs" "nf_bad s1 = nf_bad ?s"
    "nf_seq_inc s1 = nf_seq_inc ?s + word_of_nat (length rs)"
    "cached agent sid s1 = (cached agent sid ?s)(tid := Some e1)" "tpl_ready fs e1"
    using Cons.IH [OF find get r(3) rest(1,2) at(2) rest(3)] by blast
  have "data_loop buf tp flowsetlen pkt flowoff s =
      Some (Inr (pkt + length (enc_records fs (vs # rs)), flowoff + word_of_nat (length (enc_records fs (vs # rs))), s1))"
    unfolding step IH(1) by (simp add: add.assoc)
  moreover have "list_all2 (rec_ok buf fs) (vs # rs) (r # recs)" using r(2) IH(2) by simp
  ultimately show ?case using IH(3-7) c by (intro exI [of _ "r # recs"] exI [of _ s1] exI [of _ e1]) simp
qed


section \<open>Templates into the cache\<close>

text \<open>Exporters by their address, IPv4 as mapped IPv6.\<close>

definition canon :: "sockaddr \<Rightarrow> byte list" where
  "canon sa = (if so_family sa = ucast AF_INET then mapped6 (so_addr sa) else so_addr sa)"

definition ip_sockaddr :: "sockaddr \<Rightarrow> bool" where
  "ip_sockaddr sa \<longleftrightarrow> so_family sa = ucast AF_INET \<and> length (so_addr sa) = 4 \<or> so_family sa = ucast AF_INET6"

definition host_canon :: "host_addr \<Rightarrow> byte list" where
  "host_canon a = (if ha_family a = AF_INET then mapped6 (take 4 (ha_address a)) else ha_address a)"

lemma mapped6_inj [simp]: "mapped6 xs = mapped6 ys \<longleftrightarrow> xs = ys"
  by (simp add: mapped6_def)

lemma sa_addr_cmp_canon:
  "ip_sockaddr sa \<Longrightarrow> sa_addr_cmp sa a = 0 \<longleftrightarrow> (ha_family a = AF_INET \<or> ha_family a = AF_INET6) \<and> canon sa = host_canon a"
  by (auto simp: ip_sockaddr_def sa_addr_cmp_def canon_def host_canon_def AF_INET_def AF_INET6_def)

lemma sa_to_addr_canon:
  "ip_sockaddr sa \<Longrightarrow> host_canon (sa_to_addr sa host_addr_zero) = canon sa \<and>
    (ha_family (sa_to_addr sa host_addr_zero) = AF_INET \<or> ha_family (sa_to_addr sa host_addr_zero) = AF_INET6)"
  by (auto simp: ip_sockaddr_def sa_to_addr_def canon_def host_canon_def AF_INET_def AF_INET6_def)

lemma tpl_key_new:
  assumes "ip_sockaddr agent" "ip_sockaddr agent1" "te_agent e = sa_to_addr agent host_addr_zero" "te_source_id e = sid"
  shows "tpl_key tid1 agent1 sid1 e \<longleftrightarrow> tid1 = te_template_id e \<and> canon agent1 = canon agent \<and> sid1 = sid"
  using sa_addr_cmp_canon [OF assms(2), of "te_agent e"] sa_to_addr_canon [OF assms(1)] assms(3,4) by (auto simp: tpl_key_def)

lemma tpl_key_old:
  assumes "ip_sockaddr agent" "ip_sockaddr agent1" "tpl_key tid agent sid e"
  shows "tpl_key tid1 agent1 sid1 e \<longleftrightarrow> tid1 = tid \<and> canon agent1 = canon agent \<and> sid1 = sid"
  using sa_addr_cmp_canon [OF assms(1), of "te_agent e"] sa_addr_cmp_canon [OF assms(2), of "te_agent e"] assms(3) by (auto simp: tpl_key_def)

text \<open>The loops over the fields leave the head of the entry alone.\<close>

lemma put_list_head: "put_list i x e = Inr e1 \<Longrightarrow> same_head e0 e1 = same_head e0 e"
  by (auto simp: put_list_def same_head_def split: if_split_asm)

lemma tpl_field_head: "tpl_field k ty l pen e = Inr e1 \<Longrightarrow> same_head e e1"
  by (auto simp: tpl_field_def legacy_field_def ext_field_def Let_def put_list_def put_ie_def same_head_def
      split: if_split_asm prod.splits option.splits)

lemma opt_field_head: "opt_field k ty l pen e = Inr e1 \<Longrightarrow> same_head e e1"
  by (auto simp: opt_field_def Let_def put_list_def put_ie_def same_head_def split: if_split_asm prod.splits option.splits)

lemma tpl_fields_head: "tpl_fields buf version num len p count off pens e = Inr (Some e1, pens1) \<Longrightarrow> same_head e e1"
proof (induction buf version num len p count off pens e rule: tpl_fields.induct)
  case (1 buf version num len p count off pens e)
  show ?case
  proof (cases "\<not> count < num \<or> len \<le> off")
    case True
    then show ?thesis using "1.prems" by (subst (asm) tpl_fields.simps) (auto split: if_split_asm)
  next
    case False
    then obtain ty l pen e2 where f: "rd_field buf version p = Inr (ty, l, pen)" "tpl_field (unat count) ty l pen e = Inr e2"
      "tpl_fields buf version num len (p + field_size pen) (count + 1) (off + word_of_nat (field_size pen)) (if pen = None then pens else pens + 1) e2 = Inr (Some e1, pens1)"
      using "1.prems" by (subst (asm) tpl_fields.simps) auto
    then have "same_head e2 e1" using "1.IH" [OF _ _ f(1) refl refl f(2)] False by blast
    then show ?thesis using tpl_field_head [OF f(2)] same_head_trans by blast
  qed
qed

lemma opt_fields_head: "opt_fields buf version len p count off pens e = Inr (Some e1, pens1) \<Longrightarrow> same_head e e1"
proof (induction buf version len p count off pens e rule: opt_fields.induct)
  case (1 buf version len p count off pens e)
  show ?case
  proof (cases "count = 0 \<or> len \<le> off")
    case True
    then show ?thesis using "1.prems" by (subst (asm) opt_fields.simps) (auto split: if_split_asm)
  next
    case False
    then obtain ty l pen e2 where f: "rd_field buf version p = Inr (ty, l, pen)" "opt_field (unat count) ty l pen e = Inr e2"
      "opt_fields buf version len (p + field_size pen) (count - 1) (off + word_of_nat (field_size pen)) (if pen = None then pens else pens + 1) e2 = Inr (Some e1, pens1)"
      using "1.prems" by (subst (asm) opt_fields.simps) auto
    then have "same_head e2 e1" using "1.IH" [OF _ _ f(1) refl refl f(2)] False by blast
    then show ?thesis using opt_field_head [OF f(2)] same_head_trans by blast
  qed
qed

text \<open>An entry built for a template with id \<open>tid\<close>.\<close>

definition entry_for :: "u16 \<Rightarrow> sockaddr \<Rightarrow> u32 \<Rightarrow> template_cache_entry \<Rightarrow> bool" where
  "entry_for tid agent sid e \<longleftrightarrow> te_template_id e = tid \<and> te_agent e = sa_to_addr agent host_addr_zero \<and> te_source_id e = sid"

lemma data_template_entry:
  "data_template buf hdr agent sid version len = Inr (Some e, pens) \<Longrightarrow> rd_be16 buf hdr = Inr tid \<Longrightarrow> entry_for tid agent sid e"
  by (auto simp: data_template_def entry_for_def same_head_def template_init_def dest!: tpl_fields_head)

lemma options_template_entry:
  "options_template buf hdr agent tpl_type sid version len = Inr (Some e, pens) \<Longrightarrow> rd_be16 buf hdr = Inr tid \<Longrightarrow> entry_for tid agent sid e"
  by (auto simp: options_template_def entry_for_def same_head_def template_init_def dest!: opt_fields_head)

text \<open>What the cache holds for any exporter after an entry came in, by insertion or by replacement.\<close>

definition cache_update :: "sockaddr \<Rightarrow> u32 \<Rightarrow> template_cache_entry \<Rightarrow> nf_state \<Rightarrow> nf_state \<Rightarrow> bool" where
  "cache_update agent sid e s s1 \<longleftrightarrow>
     (\<forall>agent1 sid1. ip_sockaddr agent1 \<longrightarrow>
        cached agent1 sid1 s1 =
          (if canon agent1 = canon agent \<and> sid1 = sid then (cached agent1 sid1 s)(te_template_id e := Some e) else cached agent1 sid1 s))"

lemma find_canon:
  assumes "ip_sockaddr agent" "ip_sockaddr agent1" "canon agent1 = canon agent"
  shows "find_template tid agent1 sid s = find_template tid agent sid s"
proof -
  have "tpl_key tid agent1 sid e = tpl_key tid agent sid e" for e
    using sa_addr_cmp_canon [OF assms(1), of "te_agent e"] sa_addr_cmp_canon [OF assms(2), of "te_agent e"] assms(3) by (simp add: tpl_key_def)
  then have "tpl_key tid agent1 sid = tpl_key tid agent sid" by (simp add: fun_eq_iff)
  then show ?thesis by (simp add: find_template_def)
qed

lemma refresh_update:
  assumes ip: "ip_sockaddr agent" and tp: "find_template tid agent sid s = Some tp" and e1: "entry_for tid agent sid e1"
  shows "cache_update agent sid e1 s (put_tpl tp e1 s)" "get_tpl tp (put_tpl tp e1 s) = Inr e1"
proof -
  obtain e where e: "get_tpl tp s = Inr e" "tpl_key tid agent sid e" using find_get [OF tp] by blast
  show "get_tpl tp (put_tpl tp e1 s) = Inr e1" using get_put [OF e(1)] by simp
  have "cached agent1 sid1 (put_tpl tp e1 s) tid1 = (if tid1 = tid \<and> canon agent1 = canon agent \<and> sid1 = sid then Some e1 else cached agent1 sid1 s tid1)"
    if ip1: "ip_sockaddr agent1" for agent1 sid1 tid1
  proof -
    have "tpl_key tid1 agent1 sid1 e1 = tpl_key tid1 agent1 sid1 e"
      using tpl_key_new [OF ip ip1] tpl_key_old [OF ip ip1 e(2)] e1 by (auto simp: entry_for_def)
    from find_put [OF e(1) this] have find: "find_template tid1 agent1 sid1 (put_tpl tp e1 s) = find_template tid1 agent1 sid1 s" .
    show ?thesis
    proof (cases "tid1 = tid \<and> canon agent1 = canon agent \<and> sid1 = sid")
      case True
      then have "find_template tid1 agent1 sid1 s = Some tp" using find_canon [OF ip ip1] tp by simp
      then show ?thesis using True find get_put [OF e(1)] by (simp add: cached_def)
    next
      case False
      have "q \<noteq> tp" if "find_template tid1 agent1 sid1 s = Some q" for q
      proof
        assume "q = tp"
        then have "tpl_key tid1 agent1 sid1 e" using find_get [OF that] e(1) by auto
        then show False using tpl_key_old [OF ip ip1 e(2)] False by simp
      qed
      then show ?thesis using False find get_put [OF e(1)] by (auto simp: cached_def split: option.split)
    qed
  qed
  then show "cache_update agent sid e1 s (put_tpl tp e1 s)" using e1 by (auto simp: cache_update_def entry_for_def fun_eq_iff)
qed

lemma insert_update:
  assumes ip: "ip_sockaddr agent" and none: "find_template tid agent sid s = None" and e1: "entry_for tid agent sid e1"
    and ins: "insert_entry tid (Some e1) s = (Some tp, s1)"
  shows "cache_update agent sid e1 s s1" "get_tpl tp s1 = Inr e1"
proof -
  let ?b = "unat tid mod TEMPLATE_CACHE_ENTRIES"
  have s1: "s1 = s\<lparr>nf_cache := (nf_cache s)(?b := nf_cache s ?b @ [e1])\<rparr>" and tp: "tp = (?b, length (nf_cache s ?b))"
    using ins by (simp_all add: insert_entry_def Let_def)
  show new: "get_tpl tp s1 = Inr e1" by (simp add: s1 tp get_tpl_def)
  have old: "get_tpl q s1 = get_tpl q s" if "get_tpl q s = Inr e" for q e
    using that by (auto simp: s1 get_tpl_def nth_append split: if_split_asm)
  have "cached agent1 sid1 s1 tid1 = (if tid1 = tid \<and> canon agent1 = canon agent \<and> sid1 = sid then Some e1 else cached agent1 sid1 s tid1)"
    if ip1: "ip_sockaddr agent1" for agent1 sid1 tid1
  proof -
    have key: "tpl_key tid1 agent1 sid1 e1 \<longleftrightarrow> tid1 = tid \<and> canon agent1 = canon agent \<and> sid1 = sid"
      using tpl_key_new [OF ip ip1] e1 by (auto simp: entry_for_def)
    show ?thesis
    proof (cases "find_template tid1 agent1 sid1 s")
      case (Some q)
      have "\<not> (tid1 = tid \<and> canon agent1 = canon agent \<and> sid1 = sid)" using Some none find_canon [OF ip ip1] by auto
      moreover have "find_template tid1 agent1 sid1 s1 = Some q"
        using Some by (auto simp: s1 find_template_def Let_def find_chain_append)
      moreover obtain e where "get_tpl q s = Inr e" using find_get [OF Some] by blast
      ultimately show ?thesis using old [of q e] Some by (auto simp: cached_def)
    next
      case None
      have "find_template tid1 agent1 sid1 s1 = (if tpl_key tid1 agent1 sid1 e1 then Some tp else None)"
        using None key by (auto simp: s1 tp find_template_def Let_def find_chain_append)
      then show ?thesis using None key new by (simp add: cached_def)
    qed
  qed
  then show "cache_update agent sid e1 s s1" using e1 by (auto simp: cache_update_def entry_for_def fun_eq_iff)
qed


text \<open>\<^verbatim>\<open>handle_template\<close> as a function that builds the entry, and its place in the cache.\<close>

definition build_template :: "byte list \<Rightarrow> nat \<Rightarrow> sockaddr \<Rightarrow> u16 \<Rightarrow> u32 \<Rightarrow> u16 \<Rightarrow> (template_cache_entry option \<times> u16) res" where
  "build_template buf hdr agent tpl_type sid len =
     (if tpl_type = 0 \<or> tpl_type = 2 then data_template buf hdr agent sid (if tpl_type = 0 then 9 else 10) len
      else options_template buf hdr agent tpl_type sid (if tpl_type = 1 then 9 else 10) len)"

lemma handle_template_build:
  assumes "tpl_type \<in> {0, 1, 2, 3}"
  shows "handle_template buf hdr agent tpl_type sid len s =
    rbind (rd_be16 buf hdr) (\<lambda>tid. rbind (build_template buf hdr agent tpl_type sid len) (\<lambda>(oe, pens).
      let (tp, s1) = (case find_template tid agent sid s of Some tp \<Rightarrow> refresh_entry tp oe s | None \<Rightarrow> insert_entry tid oe s)
      in Inr (tp, pens, s1)))"
proof -
  have ty: "tpl_type = 0 \<or> tpl_type = 1 \<or> tpl_type = 2 \<or> tpl_type = 3" using assms by auto
  show ?thesis
  proof (cases "rd_be16 buf hdr")
    case (Inr tid)
    then show ?thesis using ty
      by (cases "find_template tid agent sid s")
        (auto simp: handle_template_def build_template_def refresh_template_def insert_template_def refresh_opt_template_def insert_opt_template_def Let_def)
  qed (use ty in \<open>auto simp: handle_template_def\<close>)
qed

lemma build_template_entry:
  "build_template buf hdr agent tpl_type sid len = Inr (Some e, pens) \<Longrightarrow> rd_be16 buf hdr = Inr tid \<Longrightarrow> entry_for tid agent sid e"
  by (auto simp: build_template_def dest: data_template_entry options_template_entry split: if_split_asm)

definition same_flows :: "nf_state \<Rightarrow> nf_state \<Rightarrow> bool" where
  "same_flows s s1 \<longleftrightarrow> nf_records s1 = nf_records s \<and> nf_seq_inc s1 = nf_seq_inc s"

lemma handle_template_run:
  assumes ip: "ip_sockaddr agent" and ty: "tpl_type \<in> {0, 1, 2, 3}" and tid: "rd_be16 buf hdr = Inr tid"
    and build: "build_template buf hdr agent tpl_type sid len = Inr (Some e, pens)"
  shows "\<exists>tp s1. handle_template buf hdr agent tpl_type sid len s = Inr (Some tp, pens, s1) \<and> get_tpl tp s1 = Inr e \<and>
    cache_update agent sid e s s1 \<and> same_flows s s1 \<and> nf_bad s1 = nf_bad s"
proof -
  have e: "entry_for tid agent sid e" using build_template_entry [OF build tid] .
  note run = handle_template_build [OF ty, of buf hdr agent sid len s] tid build
  show ?thesis
  proof (cases "find_template tid agent sid s")
    case None
    obtain tp s1 where i: "insert_entry tid (Some e) s = (Some tp, s1)" by (simp add: insert_entry_def Let_def)
    then have "same_flows s s1 \<and> nf_bad s1 = nf_bad s" by (auto simp: insert_entry_def Let_def same_flows_def)
    then show ?thesis using insert_update [OF ip None e i] run None i by simp
  next
    case (Some tp)
    then show ?thesis using refresh_update [OF ip Some e] run by (simp add: refresh_entry_def same_flows_def)
  qed
qed

text \<open>C22: The template cache is a map from exporter, observation domain and template id: a template that is accepted, new or
  sent again, data or options, NetFlow v9 or IPFIX, becomes what the cache holds for its key and changes nothing for any
  other, where exporters are the same when their addresses are, IPv4 or mapped to IPv6. A template
  that is refused leaves the cache as it was, the former template of its key included.\<close>

theorem handle_template_caches:
  assumes ip: "ip_sockaddr agent" and ty: "tpl_type \<in> {0, 1, 2, 3}"
    and run: "handle_template buf hdr agent tpl_type sid len s = Inr (tp, pens, s1)"
  shows "case tp of
      None \<Rightarrow> nf_cache s1 = nf_cache s \<and> nf_bad s1 = nf_bad s + 1
    | Some q \<Rightarrow> \<exists>e. get_tpl q s1 = Inr e \<and> rd_be16 buf hdr = Inr (te_template_id e) \<and>
        (\<forall>agent1 sid1 tid1. ip_sockaddr agent1 \<longrightarrow> cached agent1 sid1 s1 tid1 =
          (if canon agent1 = canon agent \<and> sid1 = sid \<and> tid1 = te_template_id e then Some e else cached agent1 sid1 s tid1))"
proof -
  note run1 = run [unfolded handle_template_build [OF ty]]
  obtain tid where tid: "rd_be16 buf hdr = Inr tid" using run1 by auto
  obtain oe p where b: "build_template buf hdr agent tpl_type sid len = Inr (oe, p)" using run1 tid by auto
  show ?thesis
  proof (cases oe)
    case None
    then have "tp = None \<and> s1 = bad_datagram s"
      using run1 tid b by (auto simp: refresh_entry_def insert_entry_def Let_def split: option.split_asm)
    then show ?thesis by (simp add: bad_datagram_def)
  next
    case (Some e)
    then obtain q s2 where h: "handle_template buf hdr agent tpl_type sid len s = Inr (Some q, p, s2)" "get_tpl q s2 = Inr e"
      "cache_update agent sid e s s2"
      using handle_template_run [OF ip ty tid] b by blast
    moreover have "te_template_id e = tid" using build_template_entry [of buf hdr agent tpl_type sid len e p tid] b Some tid by (simp add: entry_for_def)
    ultimately show ?thesis using run tid by (auto simp: cache_update_def)
  qed
qed

text \<open>A packet from 192.0.2.1 and a template with one field.\<close>

definition ex_agent :: sockaddr where
  "ex_agent = \<lparr>so_family = 2, so_addr = [192, 0, 2, 1]\<rparr>"

definition nf_start :: nf_state where
  "nf_start = \<lparr>nf_cache = (\<lambda>_. []), nf_bad = 0, nf_records = [], nf_seq_inc = 0\<rparr>"

lemma ex_agent_ip: "ip_sockaddr ex_agent"
  by (simp add: ip_sockaddr_def ex_agent_def AF_INET_def)

lemma handle_template_caches_witness:
  "\<exists>q s1 e. handle_template [1, 0, 0, 1, 0, 1, 0, 4] 0 ex_agent 0 7 8 nf_start = Inr (Some q, 0, s1) \<and> get_tpl q s1 = Inr e \<and>
    cached ex_agent 7 s1 256 = Some e \<and> cached ex_agent 8 s1 256 = None"
proof -
  let ?buf = "[1, 0, 0, 1, 0, 1, 0, 4] :: byte list" and ?fs = "[\<lparr>tf_pen = None, tf_type = 1, tf_len = 4\<rparr>]"
  have tid: "rd_be16 ?buf 0 = Inr 256" by (simp add: rd_be16_def rd8_def be16_def)
  have "buf_at ?buf 0 (enc_template 256 ?fs)" by (simp add: enc_template_def enc_field_def put_be16_def buf_at_def)
  then have "\<exists>e. data_template ?buf 0 ex_agent 7 9 8 = Inr (Some e, 0)"
    using data_template_enc [of ?buf 0 256 ?fs 9 8 ex_agent 7]
    by (auto simp: wire_field_def IPFIX_TPL_EBIT_def fields_ok_def TPL_LIST_ENTRIES_def tf_ext_def NF9_MAX_DEFINED_FIELD_def in_row_def
        enc_template_def length_enc_field field_size_def NfTplFieldV9Sz_def pens_of_def)
  then obtain e where "build_template ?buf 0 ex_agent 0 7 8 = Inr (Some e, 0)" by (auto simp: build_template_def)
  then obtain q s1 where h: "handle_template ?buf 0 ex_agent 0 7 8 nf_start = Inr (Some q, 0, s1)"
    using handle_template_run [OF ex_agent_ip _ tid] by (metis insertI1)
  have "cached ex_agent 8 nf_start 256 = None" by (simp add: cached_def find_template_def nf_start_def Let_def)
  then show ?thesis using handle_template_caches [OF ex_agent_ip _ h] tid h ex_agent_ip by auto
qed

end
