(* ===== verification/Nf9_Flowsets.thy ===== *)
theory Nf9_Flowsets
  imports Nf9_Records
begin

text \<open>
  \<^verbatim>\<open>process_v9_packet\<close> on whole packets: any sequence of template and data flowsets in the wire format
  gives the records of the data flowsets in order, and the packets on which the code fails.
\<close>

section \<open>Template flowsets\<close>

lemma length_enc_fields: "length (enc_fields fs) = 4 * length fs + 4 * pens_of fs"
  by (induction fs) (simp_all add: length_enc_field field_size_def NfTplFieldV9Sz_def pens_of_def)

lemma length_enc_template: "length (enc_template tid fs) = 4 + length fs * 4 + pens_of fs * 4"
  by (simp add: enc_template_def length_enc_fields)

definition enc_templates :: "(u16 \<times> tfield list) list \<Rightarrow> byte list" where
  "enc_templates ts = concat (map (\<lambda>(tid, fs). enc_template tid fs) ts)"

lemma enc_templates_simps [simp]:
  "enc_templates [] = []" "enc_templates ((tid, fs) # ts) = enc_template tid fs @ enc_templates ts"
  by (simp_all add: enc_templates_def)

text \<open>The field lists an exporter has announced, and a cache that has them ready for use.\<close>

type_synonym announced = "u16 \<Rightarrow> tfield list option"

definition announce :: "u16 \<times> tfield list \<Rightarrow> announced \<Rightarrow> announced" where
  "announce t M = M(fst t := Some (snd t))"

definition holds :: "sockaddr \<Rightarrow> u32 \<Rightarrow> announced \<Rightarrow> nf_state \<Rightarrow> bool" where
  "holds agent sid M s \<longleftrightarrow> (\<forall>tid fs. M tid = Some fs \<longrightarrow> (\<exists>e. cached agent sid s tid = Some e \<and> tpl_ready fs e))"

definition template_ok :: "byte \<Rightarrow> u16 \<times> tfield list \<Rightarrow> bool" where
  "template_ok version t \<longleftrightarrow> list_all (wire_field version) (snd t) \<and> fields_ok (snd t)"

lemma built_ready:
  assumes "built fs e" "same_head (template_init agent sid tid 0 (word_of_nat (length fs))) e"
  shows "tpl_ready fs e"
  using assms by (auto simp: built_def tpl_ready_def same_head_def template_init_def)

lemma holds_update:
  assumes "holds agent sid M s" "cached agent sid s1 = (cached agent sid s)(tid := Some e)" "tpl_ready fs e"
  shows "holds agent sid (M(tid := Some fs)) s1"
  using assms by (auto simp: holds_def)

lemma tpl_step_enc:
  assumes ip: "ip_sockaddr agent" and ok: "template_ok version (tid, fs)" and fid: "fid = (if version = 9 then 0 else 2)" "version \<in> {9, 10}"
    and at: "buf_at buf ptr (enc_template tid fs)" and room: "unat flowoff + length (enc_template tid fs) \<le> unat flowsetlen"
    and M: "holds agent sid M s"
  shows "\<exists>s1. tpl_step buf agent sid fid flowsetlen ptr flowoff s = Inr (Some (length (enc_template tid fs)), s1) \<and>
    holds agent sid (announce (tid, fs) M) s1 \<and> same_flows s s1 \<and> nf_bad s1 = nf_bad s"
proof -
  have h: "rd_be16 buf ptr = Inr tid" "rd_be16 buf (ptr + 2) = Inr (word_of_nat (length fs))"
    using at by (auto simp: enc_template_def numeral_eq_Suc intro: buf_at_put_be16)
  have "unat (flowsetlen - flowoff) = unat flowsetlen - unat flowoff" using room by (intro unat_sub) (simp add: word_le_nat_alt)
  then have len: "length (enc_template tid fs) \<le> unat (flowsetlen - flowoff)" using room by simp
  have wf: "list_all (wire_field version) fs" "fields_ok fs" using ok by (simp_all add: template_ok_def)
  obtain e where e: "data_template buf ptr agent sid version (flowsetlen - flowoff) = Inr (Some e, word_of_nat (pens_of fs))" "built fs e"
    "same_head (template_init agent sid tid 0 (word_of_nat (length fs))) e"
    using data_template_enc [OF at wf len] by blast
  have ty: "fid \<in> {0, 1, 2, 3}" "fid = 0 \<or> fid = 2" using fid by auto
  have "build_template buf ptr agent fid sid (flowsetlen - flowoff) = Inr (Some e, word_of_nat (pens_of fs))"
    using e(1) fid by (auto simp: build_template_def)
  then obtain tp s1 where s1: "handle_template buf ptr agent fid sid (flowsetlen - flowoff) s = Inr (Some tp, word_of_nat (pens_of fs), s1)"
    "cache_update agent sid e s s1" "same_flows s s1" "nf_bad s1 = nf_bad s"
    using handle_template_run [OF ip ty(1) h(1)] by blast
  have "te_template_id e = tid" using e(3) by (simp add: same_head_def template_init_def)
  then have "cached agent sid s1 = (cached agent sid s)(tid := Some e)" using s1(2) ip by (simp add: cache_update_def)
  then have "holds agent sid (announce (tid, fs) M) s1" using holds_update [OF M] built_ready [OF e(2,3)] by (simp add: announce_def)
  moreover have "tpl_size buf ptr fid (word_of_nat (pens_of fs)) = Inr (length (enc_template tid fs))"
  proof -
    have "length fs \<le> 256" using wf(2) by (simp add: fields_ok_def TPL_LIST_ENTRIES_def)
    moreover have "pens_of fs \<le> length fs" by (simp add: pens_of_def)
    ultimately show ?thesis using h(2) ty(2) by (simp add: tpl_size_def length_enc_template unat_u16_of_nat)
  qed
  ultimately show ?thesis using s1 by (simp add: tpl_step_def)
qed

lemma tpl_loop_enc:
  assumes ip: "ip_sockaddr agent" and "list_all (template_ok version) ts" and fid: "fid = (if version = 9 then 0 else 2)" "version \<in> {9, 10}"
    and "buf_at buf ptr (enc_templates ts)" and "unat flowoff + length (enc_templates ts) = unat flowsetlen"
    and len: "unat off + unat flowsetlen \<le> unat len" and "holds agent sid M s"
  shows "\<exists>s1. tpl_loop buf len agent sid fid off flowsetlen ptr flowoff s = Some (Inr (True, s1)) \<and>
    holds agent sid (fold announce ts M) s1 \<and> same_flows s s1 \<and> nf_bad s1 = nf_bad s"
  using assms(2,5,6,8)
proof (induction ts arbitrary: ptr flowoff s M)
  case Nil
  then have "\<not> flowoff < flowsetlen" by (simp add: word_less_nat_alt)
  then show ?case using Nil by (simp add: tpl_loop.simps [of buf len] same_flows_def)
next
  case (Cons t ts)
  obtain tid fs where t: "t = (tid, fs)" by (cases t)
  let ?n = "length (enc_template tid fs)"
  have at: "buf_at buf ptr (enc_template tid fs)" "buf_at buf (ptr + ?n) (enc_templates ts)" using Cons.prems(2) t by simp_all
  have ok: "template_ok version (tid, fs)" "list_all (template_ok version) ts" using Cons.prems(1) t by simp_all
  have room: "unat flowoff + ?n \<le> unat flowsetlen" using Cons.prems(3) t by simp
  obtain s1 where s1: "tpl_step buf agent sid fid flowsetlen ptr flowoff s = Inr (Some ?n, s1)" "holds agent sid (announce t M) s1"
    "same_flows s s1" "nf_bad s1 = nf_bad s"
    using tpl_step_enc [OF ip ok(1) fid at(1) room Cons.prems(4)] t by blast
  have n: "unat (word_of_nat ?n :: u16) = ?n" using room unat_u16_less [of flowsetlen] by (simp add: unat_u16_of_nat)
  then have off: "unat (flowoff + word_of_nat ?n) = unat flowoff + ?n"
    using room unat_u16_less [of flowsetlen] by (simp add: unat_u16_plus)
  have "flowoff < flowsetlen" using room by (simp add: word_less_nat_alt length_enc_template)
  then have step: "tpl_loop buf len agent sid fid off flowsetlen ptr flowoff s =
      tpl_loop buf len agent sid fid off flowsetlen (ptr + ?n) (flowoff + word_of_nat ?n) s1"
    using len s1(1) by (simp add: tpl_loop.simps [of buf len agent sid fid off flowsetlen ptr])
  have "unat (flowoff + word_of_nat ?n) + length (enc_templates ts) = unat flowsetlen" using off Cons.prems(3) t by simp
  then obtain s2 where "tpl_loop buf len agent sid fid off flowsetlen (ptr + ?n) (flowoff + word_of_nat ?n) s1 = Some (Inr (True, s2))"
    "holds agent sid (fold announce ts (announce t M)) s2" "same_flows s1 s2" "nf_bad s2 = nf_bad s1"
    using Cons.IH [OF ok(2) at(2) _ s1(2)] by blast
  then show ?case using step s1(3,4) by (auto simp: same_flows_def)
qed

section \<open>Packets\<close>

text \<open>A flowset: templates, or records with the field list they are laid out by and the padding.\<close>

datatype nflowset =
    Tpl_Set "(u16 \<times> tfield list) list"
  | Data_Set u16 "tfield list" "fvalue list list" "byte list"

definition set_body :: "nflowset \<Rightarrow> byte list" where
  "set_body fl = (case fl of Tpl_Set ts \<Rightarrow> enc_templates ts | Data_Set tid fs rs pad \<Rightarrow> enc_records fs rs @ pad)"

definition set_id :: "byte \<Rightarrow> nflowset \<Rightarrow> u16" where
  "set_id version fl = (case fl of Tpl_Set ts \<Rightarrow> (if version = 9 then 0 else 2) | Data_Set tid fs rs pad \<Rightarrow> tid)"

definition enc_set :: "byte \<Rightarrow> nflowset \<Rightarrow> byte list" where
  "enc_set version fl = put_be16 (set_id version fl) @ put_be16 (word_of_nat (4 + length (set_body fl))) @ set_body fl"

definition after_set :: "nflowset \<Rightarrow> announced \<Rightarrow> announced" where
  "after_set fl M = (case fl of Tpl_Set ts \<Rightarrow> fold announce ts M | Data_Set tid fs rs pad \<Rightarrow> M)"

definition set_records :: "nflowset \<Rightarrow> (tfield list \<times> fvalue list) list" where
  "set_records fl = (case fl of Tpl_Set ts \<Rightarrow> [] | Data_Set tid fs rs pad \<Rightarrow> map (Pair fs) rs)"

definition set_ok :: "byte \<Rightarrow> announced \<Rightarrow> nflowset \<Rightarrow> bool" where
  "set_ok version M fl =
     (case fl of
        Tpl_Set ts \<Rightarrow> ts \<noteq> [] \<and> list_all (template_ok version) ts
      | Data_Set tid fs rs pad \<Rightarrow> 256 \<le> tid \<and> M tid = Some fs \<and> fields_ok fs \<and> rs \<noteq> [] \<and> list_all (list_all2 value_ok fs) rs \<and> pad_ok fs (length pad))"

fun sets_ok :: "byte \<Rightarrow> announced \<Rightarrow> nflowset list \<Rightarrow> bool" where
  "sets_ok version M [] \<longleftrightarrow> True"
| "sets_ok version M (fl # fls) \<longleftrightarrow> set_ok version M fl \<and> sets_ok version (after_set fl M) fls"

definition good_record :: "byte list \<Rightarrow> tfield list \<times> fvalue list \<Rightarrow> flow_record \<Rightarrow> bool" where
  "good_record buf p r = rec_ok buf (fst p) (snd p) r"

text \<open>What a flowset does to the state: the records found and the cache.\<close>

definition set_done :: "byte list \<Rightarrow> sockaddr \<Rightarrow> u32 \<Rightarrow> announced \<Rightarrow> (tfield list \<times> fvalue list) list \<Rightarrow> nf_state \<Rightarrow> nf_state \<Rightarrow> bool" where
  "set_done buf agent sid M ps s s1 \<longleftrightarrow>
     (\<exists>recs. nf_records s1 = nf_records s @ recs \<and> list_all2 (good_record buf) ps recs \<and>
        nf_seq_inc s1 = nf_seq_inc s + word_of_nat (length recs)) \<and>
     nf_bad s1 = nf_bad s \<and> holds agent sid M s1"

lemma set_done_trans:
  assumes "set_done buf agent sid M ps s s1" "set_done buf agent sid M1 ps1 s1 s2"
  shows "set_done buf agent sid M1 (ps @ ps1) s s2"
proof -
  obtain r1 r2 where "nf_records s1 = nf_records s @ r1" "list_all2 (good_record buf) ps r1" "nf_seq_inc s1 = nf_seq_inc s + word_of_nat (length r1)"
    "nf_records s2 = nf_records s1 @ r2" "list_all2 (good_record buf) ps1 r2" "nf_seq_inc s2 = nf_seq_inc s1 + word_of_nat (length r2)"
    using assms unfolding set_done_def by blast
  then show ?thesis using assms unfolding set_done_def
    by (intro conjI exI [of _ "r1 @ r2"]) (simp_all add: list_all2_appendI add.assoc)
qed

lemma data_flowset_enc:
  assumes ip: "ip_sockaddr agent" and ok: "set_ok version M (Data_Set tid fs rs pad)" and M: "holds agent sid M s"
    and at: "buf_at buf (pkt + 4) (enc_records fs rs)"
    and l: "unat flowsetlen = 4 + length (enc_records fs rs) + length pad" and len: "unat off + unat flowsetlen \<le> unat len"
  shows "\<exists>s1. data_flowset buf len agent sid tid flowsetlen pkt off s = Some (Inr (Fs_Next (pkt + unat flowsetlen) (off + flowsetlen) s1)) \<and>
    set_done buf agent sid M (map (Pair fs) rs) s s1"
proof -
  have o: "M tid = Some fs" "fields_ok fs" "rs \<noteq> []" "list_all (list_all2 value_ok fs) rs" "pad_ok fs (length pad)"
    using ok by (simp_all add: set_ok_def)
  obtain e where "cached agent sid s tid = Some e" and ready: "tpl_ready fs e" using M o(1) by (auto simp: holds_def)
  then obtain tp where tp: "find_template tid agent sid s = Some tp" "get_tpl tp s = Inr e" by (auto simp: cached_find)
  have four: "unat (4 :: u16) + length (enc_records fs rs) + length pad = unat flowsetlen" using l by simp
  have "has_var fs \<longrightarrow> rs = [] \<longrightarrow> te_len e = 1" using o(3) by simp
  from data_loop_enc [OF tp ready this o(2,4) at four o(5)] obtain recs s1 e1 where
    run: "data_loop buf tp flowsetlen (pkt + 4) 4 s =
      Some (Inr (pkt + 4 + length (enc_records fs rs), 4 + word_of_nat (length (enc_records fs rs)), s1))"
    and recs: "list_all2 (rec_ok buf fs) rs recs" "nf_records s1 = nf_records s @ recs" "nf_bad s1 = nf_bad s"
      "nf_seq_inc s1 = nf_seq_inc s + word_of_nat (length rs)"
    and c: "cached agent sid s1 = (cached agent sid s)(tid := Some e1)" "tpl_ready fs e1" by blast
  have "4 + length (enc_records fs rs) < 65536" using l unat_u16_less [of flowsetlen] by simp
  then have fo: "unat (4 + word_of_nat (length (enc_records fs rs)) :: u16) = 4 + length (enc_records fs rs)"
    by (simp add: unat_u16_plus unat_u16_of_nat)
  then have "\<not> flowsetlen < (4 + word_of_nat (length (enc_records fs rs)))" "pkt + 4 + length (enc_records fs rs) +
      (unat flowsetlen - (4 + length (enc_records fs rs))) = pkt + unat flowsetlen"
    using l by (simp_all add: word_less_nat_alt)
  moreover have "te_template_type e = 0" using ready by (simp add: tpl_ready_def)
  ultimately have "data_flowset buf len agent sid tid flowsetlen pkt off s = Some (Inr (Fs_Next (pkt + unat flowsetlen) (off + flowsetlen) s1))"
    using tp len run fo by (simp add: data_flowset_def NfDataHdrV9Sz_def)
  moreover have "M(tid := Some fs) = M" using o(1) by auto
  then have "holds agent sid M s1" using holds_update [OF M c] by simp
  moreover have "list_all2 (good_record buf) (map (Pair fs) rs) recs"
    using recs(1) by (simp add: list_all2_map1 good_record_def)
  moreover have "length recs = length rs" using recs(1) by (simp add: list_all2_lengthD)
  ultimately show ?thesis using recs by (auto simp: set_done_def)
qed


lemma set_size:
  assumes "set_ok version M fl"
  shows "set_body fl \<noteq> []"
proof (cases fl)
  case (Tpl_Set ts)
  then obtain t ts1 where "ts = t # ts1" using assms by (cases ts) (auto simp: set_ok_def)
  then show ?thesis using Tpl_Set length_enc_template [of "fst t" "snd t"] by (cases t) (auto simp: set_body_def)
next
  case (Data_Set tid fs rs pad)
  then obtain vs rs1 where r: "rs = vs # rs1" "list_all2 value_ok fs vs" "pad_ok fs (length pad)"
    using assms by (cases rs) (auto simp: set_ok_def)
  have "0 < length (enc_record fs vs)"
  proof (cases "has_var fs")
    case True
    then show ?thesis using record_nonempty [OF r(2)] by linarith
  next
    case False
    then show ?thesis using enc_record_fixed [OF r(2) False] r(3) by (simp add: pad_ok_def)
  qed
  then show ?thesis using Data_Set r(1) by (simp add: set_body_def)
qed

lemma flowset_enc:
  assumes ip: "ip_sockaddr agent" and version: "version \<in> {9, 10}" and ok: "set_ok version M fl" and M: "holds agent sid M s"
    and at: "buf_at buf pkt (enc_set version fl)" and len: "unat off + length (enc_set version fl) \<le> unat len"
  shows "\<exists>s1. flowset buf len agent sid pkt off s =
      Some (Inr (Fs_Next (pkt + length (enc_set version fl)) (off + word_of_nat (length (enc_set version fl))) s1)) \<and>
    set_done buf agent sid (after_set fl M) (set_records fl) s s1"
proof -
  let ?n = "length (enc_set version fl)"
  have n: "?n = 4 + length (set_body fl)" by (simp add: enc_set_def)
  have small: "?n < 65536" using len unat_u16_less [of len] by simp
  define flen :: u16 where "flen = word_of_nat ?n"
  have l: "unat flen = ?n" using small by (simp add: flen_def unat_u16_of_nat)
  have h: "rd_be16 buf pkt = Inr (set_id version fl)" "rd_be16 buf (pkt + 2) = Inr flen" "buf_at buf (pkt + 4) (set_body fl)"
    using at by (auto simp: enc_set_def flen_def numeral_eq_Suc intro: buf_at_put_be16)
  have guards: "\<not> unat len \<le> unat off + 4" "\<not> ?n < 4" using len n set_size [OF ok] by (auto simp: neq_Nil_conv)
  show ?thesis
  proof (cases fl)
    case (Tpl_Set ts)
    let ?fid = "(if version = 9 then 0 else 2) :: u16"
    have ts: "list_all (template_ok version) ts" using ok Tpl_Set by (simp add: set_ok_def)
    have body: "set_body fl = enc_templates ts" using Tpl_Set by (simp add: set_body_def)
    have "unat (4 :: u16) + length (enc_templates ts) = unat flen" using l n body by simp
    then obtain s1 where s1: "tpl_loop buf len agent sid ?fid off flen (pkt + 4) 4 s = Some (Inr (True, s1))"
      "holds agent sid (fold announce ts M) s1" "same_flows s s1" "nf_bad s1 = nf_bad s"
      using tpl_loop_enc [OF ip ts refl version h(3) [unfolded body] _ _ M, of 4 flen off len] len l by auto
    have "template_flowset buf len agent sid ?fid flen pkt off s = Some (Inr (Fs_Next (pkt + ?n) (off + flen) s1))"
      using s1(1) by (simp add: template_flowset_def NfDataHdrV9Sz_def l)
    moreover have "?fid \<le> 3" by simp
    ultimately have "flowset buf len agent sid pkt off s = Some (Inr (Fs_Next (pkt + ?n) (off + flen) s1))"
      using h guards l Tpl_Set by (simp add: flowset_def NfDataHdrV9Sz_def set_id_def)
    moreover have "set_done buf agent sid (after_set fl M) (set_records fl) s s1"
      using s1 Tpl_Set by (auto simp: set_done_def after_set_def set_records_def same_flows_def)
    ultimately show ?thesis by (auto simp: flen_def)
  next
    case (Data_Set tid fs rs pad)
    have tid: "256 \<le> tid" using ok Data_Set by (simp add: set_ok_def)
    then have "\<not> tid \<le> 3" by (simp add: word_le_nat_alt)
    have body: "buf_at buf (pkt + 4) (enc_records fs rs)" "?n = 4 + length (enc_records fs rs) + length pad"
      using h(3) n Data_Set by (simp_all add: set_body_def)
    have "unat flen = 4 + length (enc_records fs rs) + length pad" "unat off + unat flen \<le> unat len" using len l body(2) by simp_all
    from data_flowset_enc [OF ip ok [unfolded Data_Set] M body(1) this] obtain s1 where s1: "data_flowset buf len agent sid tid flen pkt off s = Some (Inr (Fs_Next (pkt + unat flen) (off + flen) s1))"
      "set_done buf agent sid M (map (Pair fs) rs) s s1" by blast
    have "flowset buf len agent sid pkt off s = Some (Inr (Fs_Next (pkt + ?n) (off + flen) s1))"
      using h guards l Data_Set tid \<open>\<not> tid \<le> 3\<close> s1(1) by (simp add: flowset_def NfDataHdrV9Sz_def set_id_def)
    then show ?thesis using s1(2) Data_Set by (auto simp: flen_def after_set_def set_records_def)
  qed
qed

definition enc_sets :: "byte \<Rightarrow> nflowset list \<Rightarrow> byte list" where
  "enc_sets version fls = concat (map (enc_set version) fls)"

lemma enc_sets_simps [simp]: "enc_sets version [] = []" "enc_sets version (fl # fls) = enc_set version fl @ enc_sets version fls"
  by (simp_all add: enc_sets_def)

lemma flowset_loop_enc:
  assumes ip: "ip_sockaddr agent" and version: "version \<in> {9, 10}" and "fls \<noteq> []" "sets_ok version M fls" "holds agent sid M s"
    "buf_at buf pkt (enc_sets version fls)" "unat off + length (enc_sets version fls) = unat len"
    "version = 9 \<longrightarrow> unat cnt + length fls \<le> unat n"
  shows "\<exists>s1. flowset_loop buf len agent sid version n pkt off cnt s = Some (Inr s1) \<and>
    set_done buf agent sid (fold after_set fls M) (concat (map set_records fls)) s s1"
  using assms(3-8)
proof (induction fls arbitrary: pkt off cnt s M)
  case (Cons fl fls)
  let ?n = "length (enc_set version fl)"
  have ok: "set_ok version M fl" "sets_ok version (after_set fl M) fls" using Cons.prems(2) by simp_all
  have at: "buf_at buf pkt (enc_set version fl)" "buf_at buf (pkt + ?n) (enc_sets version fls)" using Cons.prems(4) by simp_all
  have room: "unat off + ?n \<le> unat len" using Cons.prems(5) by simp
  obtain s1 where s1: "flowset buf len agent sid pkt off s = Some (Inr (Fs_Next (pkt + ?n) (off + word_of_nat ?n) s1))"
    "set_done buf agent sid (after_set fl M) (set_records fl) s s1"
    using flowset_enc [OF ip version ok(1) Cons.prems(3) at(1) room] by blast
  have off: "unat (off + word_of_nat ?n) = unat off + ?n"
    using room unat_u16_less [of len] by (simp add: unat_u16_plus unat_u16_of_nat)
  let ?go = "version = 9 \<and> unat cnt + 1 < unat n \<and> off + word_of_nat ?n < len \<or> version = 10 \<and> off + word_of_nat ?n < len"
  have step: "flowset_loop buf len agent sid version n pkt off cnt s =
      (if ?go then flowset_loop buf len agent sid version n (pkt + ?n) (off + word_of_nat ?n) (cnt + 1) s1 else Some (Inr s1))"
    unfolding flowset_loop.simps [of buf len agent sid version n pkt] s1(1) by simp
  show ?case
  proof (cases "fls = []")
    case True
    then have "\<not> ?go" using off Cons.prems(5) by (simp add: word_less_nat_alt)
    note step [unfolded if_not_P [OF this]]
    then show ?thesis using s1(2) True by (intro exI [of _ s1]) simp
  next
    case False
    then obtain fl1 fls1 where "fls = fl1 # fls1" by (cases fls) auto
    then have "0 < length (enc_sets version fls)" by (simp add: enc_set_def)
    moreover have "unat off + (?n + length (enc_sets version fls)) = unat len" using Cons.prems(5) by simp
    ultimately have "unat off + ?n < unat len" by linarith
    then have "off + word_of_nat ?n < len" using off by (simp add: word_less_nat_alt)
    moreover have "version = 9 \<Longrightarrow> unat cnt + 1 < unat n" using Cons.prems(6) False by (cases fls) auto
    ultimately have "?go" using version by auto
    moreover have "version = 9 \<longrightarrow> unat (cnt + 1) + length fls \<le> unat n"
    proof
      assume v: "version = 9"
      then have "unat cnt + 1 < 65536" using Cons.prems(6) unat_u16_less [of n] by auto
      then have "unat (cnt + 1) = unat cnt + 1" by (simp add: unat_u16_plus)
      then show "unat (cnt + 1) + length fls \<le> unat n" using Cons.prems(6) v by simp
    qed
    moreover have "holds agent sid (after_set fl M) s1" using s1(2) by (simp add: set_done_def)
    moreover have "unat (off + word_of_nat ?n) + length (enc_sets version fls) = unat len" using off Cons.prems(5) by simp
    ultimately obtain s2 where s2: "flowset_loop buf len agent sid version n (pkt + ?n) (off + word_of_nat ?n) (cnt + 1) s1 = Some (Inr s2)"
      "set_done buf agent sid (fold after_set fls (after_set fl M)) (concat (map set_records fls)) s1 s2"
      using Cons.IH [OF False ok(2) _ at(2)] by blast
    note step [unfolded if_P [OF \<open>?go\<close>] s2(1)]
    then show ?thesis using set_done_trans [OF s1(2) s2(2)] by (intro exI [of _ s2]) simp
  qed
qed simp

text \<open>The header of a packet, as far as it is read.\<close>

definition header_ok :: "byte \<Rightarrow> byte list \<Rightarrow> u32 \<Rightarrow> nat \<Rightarrow> bool" where
  "header_ok version hdr sid k \<longleftrightarrow>
     (if version = 9 then length hdr = NfHdrV9Sz \<and> rd_be32 hdr 16 = Inr sid \<and> (\<exists>n. rd_be16 hdr 2 = Inr n \<and> k \<le> unat n)
      else version = 10 \<and> length hdr = IpFixHdrSz \<and> rd_be32 hdr 12 = Inr sid)"

lemma rd8_prefix: "rd8 xs i = Inr x \<Longrightarrow> rd8 (xs @ ys) i = Inr x"
  by (auto simp: rd8_eq_Inr nth_append)

lemma rd_be16_prefix: "rd_be16 xs i = Inr x \<Longrightarrow> rd_be16 (xs @ ys) i = Inr x"
  by (auto simp: rd_be16_def rd8_prefix)

lemma rd_be32_prefix: "rd_be32 xs i = Inr x \<Longrightarrow> rd_be32 (xs @ ys) i = Inr x"
  by (auto simp: rd_be32_def rd8_prefix)

text \<open>The packet from its header on.\<close>

lemma process_header:
  assumes "header_ok version hdr sid k" "length hdr \<le> unat len"
  shows "\<exists>n. process_v9_packet (hdr @ xs) len agent version s =
      flowset_loop (hdr @ xs) len agent sid version n (length hdr) (word_of_nat (length hdr)) 0 (s\<lparr>nf_seq_inc := 0\<rparr>) \<and> (version = 9 \<longrightarrow> k \<le> unat n)"
proof (cases "version = 9")
  case True
  then obtain n where h: "length hdr = 20" "rd_be32 hdr 16 = Inr sid" "rd_be16 hdr 2 = Inr n" "k \<le> unat n"
    using assms(1) by (auto simp: header_ok_def NfHdrV9Sz_def)
  then show ?thesis using True assms(2) by (auto simp: process_v9_packet_def NfHdrV9Sz_def rd_be32_prefix rd_be16_prefix intro!: exI [of _ n])
next
  case False
  then have h: "version = 10" "length hdr = 16" "rd_be32 hdr 12 = Inr sid" using assms(1) by (auto simp: header_ok_def IpFixHdrSz_def)
  then show ?thesis using assms(2) by (auto simp: process_v9_packet_def IpFixHdrSz_def rd_be32_prefix)
qed

text \<open>C2: From bytes to flow records, for NetFlow v9 and IPFIX. A packet holds template and data flowsets, in any
  order, in the wire format; options templates are not among them. A template has at most 256 fields, none
  of the registry twice, and of those outside the registry, whose ids are not 0, no more than a row of the
  table for them takes. A data flowset has an id from 256 on, at least one record, and a template that came before
  it, in the packet or in an earlier one. Behind records with a field of variable length there is no padding,
  as the code then skips later flowsets; behind others it is shorter than a record, and a record is
  shorter than 65536 bytes. The header of version 9 counts at least as many flowsets as there are. Such a packet
  is read completely: one record is handed on for each record of the packet, in order, and in each of them the
  table of offsets and lengths puts every field, of fixed or variable length, in or out of the registry, on
  exactly the bytes of its value. Nothing is counted as malformed, and the cache is ready for the templates known
  after the packet.\<close>

theorem process_v9_packet_records:
  assumes ip: "ip_sockaddr agent" and version: "version \<in> {9, 10}" and hdr: "header_ok version hdr sid (length fls)"
    and fls: "fls \<noteq> []" "sets_ok version M fls" and M: "holds agent sid M s"
    and len: "unat len = length hdr + length (enc_sets version fls)"
  shows "\<exists>s1 recs. process_v9_packet (hdr @ enc_sets version fls @ rest) len agent version s = Some (Inr s1) \<and>
    nf_records s1 = nf_records s @ recs \<and>
    list_all2 (\<lambda>(fs, vs) r. rec_ok (hdr @ enc_sets version fls @ rest) fs vs r) (concat (map set_records fls)) recs \<and>
    nf_seq_inc s1 = word_of_nat (length recs) \<and> nf_bad s1 = nf_bad s \<and> holds agent sid (fold after_set fls M) s1"
proof -
  let ?buf = "hdr @ enc_sets version fls @ rest" and ?s = "s\<lparr>nf_seq_inc := 0\<rparr>"
  obtain n where run: "process_v9_packet ?buf len agent version s =
      flowset_loop ?buf len agent sid version n (length hdr) (word_of_nat (length hdr)) 0 ?s" "version = 9 \<longrightarrow> length fls \<le> unat n"
    using process_header [OF hdr, of len "enc_sets version fls @ rest" agent s] len by auto
  have at: "buf_at ?buf (length hdr) (enc_sets version fls)" by (simp add: buf_at_def)
  have "length hdr < 65536" using len unat_u16_less [of len] by simp
  then have off: "unat (word_of_nat (length hdr) :: u16) + length (enc_sets version fls) = unat len" using len by (simp add: unat_u16_of_nat)
  have "cached agent sid ?s = cached agent sid s"
    by (auto simp: cached_def find_template_def get_tpl_def Let_def fun_eq_iff split: option.split)
  then have M1: "holds agent sid M ?s" using M by (simp add: holds_def)
  have cnt: "version = 9 \<longrightarrow> unat (0 :: u16) + length fls \<le> unat n" using run(2) by simp
  obtain s1 where s1: "flowset_loop ?buf len agent sid version n (length hdr) (word_of_nat (length hdr)) 0 ?s = Some (Inr s1)"
    "set_done ?buf agent sid (fold after_set fls M) (concat (map set_records fls)) ?s s1"
    using flowset_loop_enc [OF ip version fls M1 at off cnt] by blast
  have "(\<lambda>(fs, vs) r. rec_ok ?buf fs vs r) = good_record ?buf" by (simp add: fun_eq_iff good_record_def split: prod.split)
  then show ?thesis using run(1) s1 by (auto simp: set_done_def)
qed


text \<open>An IPFIX packet with a template of a counter and an enterprise field of variable length, and two
  records.\<close>

definition ex_fields :: "tfield list" where
  "ex_fields = [\<lparr>tf_pen = None, tf_type = 1, tf_len = 4\<rparr>, \<lparr>tf_pen = Some 43874, tf_type = 2, tf_len = 65535\<rparr>]"

definition ex_sets :: "nflowset list" where
  "ex_sets = [Tpl_Set [(256, ex_fields)],
     Data_Set 256 ex_fields [[(False, [0, 0, 5, 220]), (False, [104, 105])], [(False, [0, 0, 0, 64]), (True, [111])]] []]"

definition ex_header :: "byte list" where
  "ex_header = [10, 0, 0, 55, 0, 0, 0, 0, 0, 0, 0, 1, 0, 0, 0, 7]"

lemma ex_sets_ok: "sets_ok 10 (\<lambda>_. None) ex_sets"
  by (simp add: ex_sets_def set_ok_def template_ok_def ex_fields_def wire_field_def IPFIX_TPL_EBIT_def fields_ok_def TPL_LIST_ENTRIES_def
      tf_ext_def NF9_MAX_DEFINED_FIELD_def in_row_def IES_PER_TPL_EXT_DB_ENTRY_def after_set_def announce_def value_ok_def tf_var_def
      IPFIX_VARIABLE_LENGTH_def pad_ok_def)

lemma holds_nothing [simp]: "holds agent sid (\<lambda>_. None) s"
  by (simp add: holds_def)

lemma ex_header_ok: "header_ok 10 ex_header 7 k"
  by (simp add: header_ok_def ex_header_def IpFixHdrSz_def rd_be32_def rd8_def be32_def)

lemma ex_sets_length: "length ex_header + length (enc_sets 10 ex_sets) = 55"
  by (simp add: ex_header_def ex_sets_def ex_fields_def enc_set_def set_body_def length_enc_template pens_of_def enc_record_def
      prefix_of_def tf_var_def IPFIX_VARIABLE_LENGTH_def)

lemma process_v9_packet_records_witness:
  "\<exists>s1 r1 r2. process_v9_packet (ex_header @ enc_sets 10 ex_sets @ []) 55 ex_agent 10 nf_start = Some (Inr s1) \<and> nf_records s1 = [r1, r2] \<and>
    rec_ok (ex_header @ enc_sets 10 ex_sets @ []) ex_fields [(False, [0, 0, 5, 220]), (False, [104, 105])] r1 \<and>
    rec_ok (ex_header @ enc_sets 10 ex_sets @ []) ex_fields [(False, [0, 0, 0, 64]), (True, [111])] r2"
proof -
  have "unat (55 :: u16) = length ex_header + length (enc_sets 10 ex_sets)" using ex_sets_length by simp
  from process_v9_packet_records [OF ex_agent_ip _ ex_header_ok _ ex_sets_ok holds_nothing this, of "[]" nf_start] obtain s1 recs where
    r: "process_v9_packet (ex_header @ enc_sets 10 ex_sets @ []) 55 ex_agent 10 nf_start = Some (Inr s1)" "nf_records s1 = nf_records nf_start @ recs"
    "list_all2 (\<lambda>(fs, vs) r. rec_ok (ex_header @ enc_sets 10 ex_sets @ []) fs vs r) (concat (map set_records ex_sets)) recs"
    by (auto simp: ex_sets_def)
  have "concat (map set_records ex_sets) = [(ex_fields, [(False, [0, 0, 5, 220]), (False, [104, 105])]), (ex_fields, [(False, [0, 0, 0, 64]), (True, [111])])]"
    by (simp add: ex_sets_def set_records_def)
  then obtain r1 r2 where "recs = [r1, r2]" "rec_ok (ex_header @ enc_sets 10 ex_sets @ []) ex_fields [(False, [0, 0, 5, 220]), (False, [104, 105])] r1"
    "rec_ok (ex_header @ enc_sets 10 ex_sets @ []) ex_fields [(False, [0, 0, 0, 64]), (True, [111])] r2"
    using r(3) by (auto simp: list_all2_Cons1)
  then show ?thesis using r(1,2) by (auto simp: nf_start_def)
qed

section \<open>Packets that are not read right\<close>

text \<open>A template without fields describes records of no length, which the loop over the records steps
  over one after the other.\<close>

lemma data_record_empty:
  assumes "tpl_ready [] e"
  shows "\<exists>r. data_record buf tp flowsetlen e pkt flowoff s = Inr (True, pkt, flowoff, put_tpl tp e (add_record r s))"
proof -
  have e: "\<not> te_vlen e" "te_len e = 0" "\<And>t. te_tpl e t = otpl_zero" using assms by (auto simp: tpl_ready_def layout_def)
  then have "NF_evaluate_flow_type buf pkt e = Inr (if te_template_type e = 1 then NF9_FTYPE_OPTION else NF9_FTYPE_EVENT)"
    "NF_evaluate_direction buf pkt e = Inr DIRECTION_IN"
    by (simp_all add: NF_evaluate_flow_type_def NF_evaluate_direction_def first_byte_def otpl_zero_def)
  then show ?thesis using e(1,2) by (cases "te_template_type e = 1") (auto simp: data_record_def)
qed

lemma data_loop_stuck:
  assumes "get_tpl tp s = Inr e" "tpl_ready [] e" "unat flowoff \<le> unat flowsetlen"
  shows "data_loop buf tp flowsetlen pkt flowoff s = None"
proof (rule ccontr)
  assume "data_loop buf tp flowsetlen pkt flowoff s \<noteq> None"
  then obtain r where run: "data_loop buf tp flowsetlen pkt flowoff s = Some r" by auto
  let ?st = "\<lambda>tp flowsetlen flowoff s. \<exists>e. get_tpl tp s = Inr e \<and> tpl_ready [] e \<and> unat (flowoff :: u16) \<le> unat (flowsetlen :: u16)"
  let ?P = "\<lambda>(buf :: byte list) tp flowsetlen (pkt :: nat) flowoff s (r :: (nat \<times> u16 \<times> nf_state) res). \<not> ?st tp flowsetlen flowoff s"
  have "?P buf tp flowsetlen pkt flowoff s r"
  proof (rule data_loop.raw_induct [where P = ?P, OF _ run])
    fix loop :: "byte list \<Rightarrow> tpl_ptr \<Rightarrow> u16 \<Rightarrow> nat \<Rightarrow> u16 \<Rightarrow> nf_state \<Rightarrow> (nat \<times> u16 \<times> nf_state) res option"
      and buf tp flowsetlen pkt flowoff s r
    assume IH: "\<And>buf tp flowsetlen pkt flowoff s r. loop buf tp flowsetlen pkt flowoff s = Some r \<Longrightarrow> ?P buf tp flowsetlen pkt flowoff s r"
      and body: "(case get_tpl tp s of
          Inl f \<Rightarrow> Some (Inl f)
        | Inr e \<Rightarrow>
            if \<not> unat flowoff + unat (te_len e) \<le> unat flowsetlen then Some (Inr (pkt, flowoff, s))
            else case data_record buf tp flowsetlen e pkt flowoff s of
              Inl f \<Rightarrow> Some (Inl f)
            | Inr (go, pkt1, flowoff1, s1) \<Rightarrow>
                if go then loop buf tp flowsetlen pkt1 flowoff1 s1 else Some (Inr (pkt1, flowoff1, s1))) = Some r"
    show "?P buf tp flowsetlen pkt flowoff s r"
    proof
      assume "?st tp flowsetlen flowoff s"
      then obtain e where e: "get_tpl tp s = Inr e" "tpl_ready [] e" "unat flowoff \<le> unat flowsetlen" by blast
      obtain q where q: "data_record buf tp flowsetlen e pkt flowoff s = Inr (True, pkt, flowoff, put_tpl tp e (add_record q s))"
        using data_record_empty [OF e(2)] by blast
      have "te_len e = 0" using e(2) by (simp add: tpl_ready_def)
      then have "loop buf tp flowsetlen pkt flowoff (put_tpl tp e (add_record q s)) = Some r" using body e q by simp
      moreover have "get_tpl tp (put_tpl tp e (add_record q s)) = Inr e" using get_put [OF e(1)] by simp
      ultimately show False using IH e(2,3) by blast
    qed
  qed
  then show False using assms by blast
qed

text \<open>C23: A template without fields, and any data for it, make \<^verbatim>\<open>process_v9_packet\<close> run for ever: its records have no length, so
  the loop over them stays where it is. A packet of 29 bytes from any address stops the collector.\<close>

theorem nf9_empty_template_hangs:
  assumes ip: "ip_sockaddr agent" and version: "version \<in> {9, 10}" and hdr: "header_ok version hdr sid 2" and tid: "256 \<le> tid"
    and n: "unat n = 4 + length body" "body \<noteq> []" and len: "unat len = length hdr + 8 + unat n"
  shows "process_v9_packet (hdr @ enc_set version (Tpl_Set [(tid, [])]) @ put_be16 tid @ put_be16 n @ body @ rest) len agent version s = None"
proof -
  let ?fl = "Tpl_Set [(tid, [])]" and ?s = "s\<lparr>nf_seq_inc := 0\<rparr>"
  let ?buf = "hdr @ enc_set version ?fl @ put_be16 tid @ put_be16 n @ body @ rest"
  have fl: "length (enc_set version ?fl) = 8" by (simp add: enc_set_def set_body_def length_enc_template pens_of_def)
  obtain k where run: "process_v9_packet ?buf len agent version s =
      flowset_loop ?buf len agent sid version k (length hdr) (word_of_nat (length hdr)) 0 ?s" "version = 9 \<longrightarrow> 2 \<le> unat k"
    using process_header [OF hdr, of len "enc_set version ?fl @ put_be16 tid @ put_be16 n @ body @ rest" agent s] len by auto
  have small: "length hdr + 8 + unat n < 65536" using len unat_u16_less [of len] by simp
  have at: "buf_at ?buf (length hdr) (enc_set version ?fl)" "buf_at ?buf (length hdr + 8) (put_be16 tid @ put_be16 n @ body)"
    using fl by (simp_all add: buf_at_def)
  have ok: "set_ok version (\<lambda>_. None) ?fl"
    by (simp add: set_ok_def template_ok_def fields_ok_def in_row_def)
  have off: "unat (word_of_nat (length hdr) :: u16) = length hdr" "unat (word_of_nat (length hdr) + 8 :: u16) = length hdr + 8"
    using small by (simp_all add: unat_u16_of_nat unat_u16_plus)
  have "unat (word_of_nat (length hdr) :: u16) + length (enc_set version ?fl) \<le> unat len" using off(1) fl len by simp
  from flowset_enc [OF ip version ok holds_nothing at(1) this, of sid ?s] obtain s1 where
    s1: "flowset ?buf len agent sid (length hdr) (word_of_nat (length hdr)) ?s =
      Some (Inr (Fs_Next (length hdr + 8) (word_of_nat (length hdr) + 8) s1))"
    "holds agent sid [tid \<mapsto> []] s1"
    by (auto simp: fl set_done_def after_set_def announce_def)
  obtain e where "cached agent sid s1 tid = Some e" and ready: "tpl_ready [] e" using s1(2) unfolding holds_def by (metis fun_upd_same)
  then obtain tp where tp: "find_template tid agent sid s1 = Some tp" "get_tpl tp s1 = Inr e" by (auto simp: cached_find)
  have "te_template_type e = 0" using ready by (simp add: tpl_ready_def)
  moreover have "data_loop ?buf tp n (12 + length hdr) 4 s1 = None" using data_loop_stuck [OF tp(2) ready] n(1) by simp
  ultimately have "data_flowset ?buf len agent sid tid n (length hdr + 8) (word_of_nat (length hdr) + 8) s1 = None"
    using tp len off(2) by (simp add: data_flowset_def NfDataHdrV9Sz_def)
  moreover have "rd_be16 ?buf (length hdr + 8) = Inr tid" "rd_be16 ?buf (length hdr + 8 + 2) = Inr n"
    using at(2) by (auto simp: numeral_eq_Suc intro: buf_at_put_be16)
  moreover have "\<not> unat len \<le> unat (word_of_nat (length hdr) + 8 :: u16) + 4" "\<not> unat n < 4" using len off(2) n by (auto simp: neq_Nil_conv)
  moreover have "\<not> tid \<le> 3" using tid by (simp add: word_le_nat_alt)
  ultimately have stuck: "flowset ?buf len agent sid (length hdr + 8) (word_of_nat (length hdr) + 8) s1 = None"
    using tid by (simp add: flowset_def NfDataHdrV9Sz_def)
  have "(word_of_nat (length hdr) + 8 :: u16) < len" using off(2) len n by (simp add: word_less_nat_alt)
  then have go: "version = 9 \<and> unat (0 :: u16) + 1 < unat k \<and> word_of_nat (length hdr) + 8 < len \<or> version = 10 \<and> word_of_nat (length hdr) + 8 < len"
    using version run(2) by auto
  show ?thesis
    unfolding run(1) flowset_loop.simps [of ?buf len agent sid version k "length hdr"] s1(1) option.case sum.case flowset_out.case if_P [OF go]
    unfolding flowset_loop.simps [of ?buf len agent sid version k "length hdr + 8"] stuck by simp
qed

lemma nf9_empty_template_hangs_witness:
  "process_v9_packet (ex_header @ enc_set 10 (Tpl_Set [(256, [])]) @ put_be16 256 @ put_be16 5 @ [0] @ []) 29 ex_agent 10 nf_start = None"
  by (rule nf9_empty_template_hangs [OF ex_agent_ip _ ex_header_ok]) (simp_all add: ex_header_def)

text \<open>C24: The ordered list of a template has 256 entries, but the number of fields is that of the packet: a template with more
  fields, of any kind, in a flowset that holds them all, is written past the end of the list.\<close>

theorem nf9_template_overflow:
  assumes ty: "tpl_type = 0 \<and> version = 9 \<or> tpl_type = 2 \<and> version = 10" and at: "buf_at buf hdr (enc_template tid fs)"
    and ok: "list_all (wire_field version) fs" "256 < length fs" and len: "length (enc_template tid fs) \<le> unat len"
  shows "handle_template buf hdr agent tpl_type sid len s = Inl Out_Of_Bounds"
proof -
  have field: "\<exists>e1. tpl_field k ty l pen e = Inr e1" if "k < 256" for k ty l pen e
    using that by (auto simp: tpl_field_def legacy_field_def ext_field_def put_list_def TPL_LIST_ENTRIES_def Let_def split: prod.split option.split)
  have full: "tpl_field 256 ty l pen e = Inl Out_Of_Bounds" for ty l pen e
    by (auto simp: tpl_field_def legacy_field_def ext_field_def put_list_def TPL_LIST_ENTRIES_def Let_def split: prod.split option.split)
  have over: "add_fields k gs e = Inl Out_Of_Bounds" if "k \<le> 256" "256 < k + length gs" for k gs e
    using that
  proof (induction gs arbitrary: k e)
    case (Cons g gs)
    show ?case
    proof (cases "k = 256")
      case False
      then obtain e1 where "tpl_field k (tf_type g) (tf_len g) (tf_pen g) e = Inr e1" using field Cons.prems(1) by (metis le_neq_implies_less)
      then show ?thesis using Cons.IH [of "k + 1" e1] Cons.prems False by simp
    qed (simp add: full)
  qed simp
  have h: "rd_be16 buf hdr = Inr tid" "rd_be16 buf (hdr + 2) = Inr (word_of_nat (length fs))" and fld: "buf_at buf (hdr + 4) (enc_fields fs)"
    using at by (auto simp: enc_template_def numeral_eq_Suc intro: buf_at_put_be16)
  have "length (enc_template tid fs) < 65536" using len unat_u16_less [of len] by simp
  then have n: "0 + length fs < 65536" by (simp add: length_enc_template)
  have room: "unat (4 :: u16) + length (enc_fields fs) \<le> unat len" using len by (simp add: enc_template_def)
  have "data_template buf hdr agent sid version len = Inl Out_Of_Bounds"
    using tpl_fields_enc [OF fld ok(1) n room, of 0] h over [of 0 fs] ok(2) by (simp add: data_template_def NfTplHdrV9Sz_def)
  then have "build_template buf hdr agent tpl_type sid len = Inl Out_Of_Bounds" using ty by (auto simp: build_template_def)
  then show ?thesis using handle_template_build [of tpl_type buf hdr agent sid len s] ty h(1) by auto
qed

lemma nf9_template_overflow_witness:
  "handle_template (enc_template 256 (replicate 257 \<lparr>tf_pen = None, tf_type = 1, tf_len = 4\<rparr>)) 0 ex_agent 0 7 1032 nf_start = Inl Out_Of_Bounds"
  by (rule nf9_template_overflow [where version = 9 and tid = 256 and fs = "replicate 257 \<lparr>tf_pen = None, tf_type = 1, tf_len = 4\<rparr>"])
    (simp_all add: buf_at_def list_all_length wire_field_def IPFIX_TPL_EBIT_def length_enc_template pens_of_def)

text \<open>C25: Only the first byte of a VLAN field is tested for a VLAN, and the field has two bytes in network order: a
  record whose VLAN ids are below 256, the ingress and the egress one if the template has both, is
  classified as if it had none.\<close>

theorem nf9_small_vlan_missed:
  assumes "\<And>t. t = NF9_IN_VLAN \<or> t = NF9_OUT_VLAN \<Longrightarrow> of_len (te_tpl e t) = 0 \<or>
      (\<exists>v. unat v < 256 \<and> buf_at buf (pos + unat (of_off (te_tpl e t))) (put_be16 v))"
  shows "NF_evaluate_flow_type buf pos e =
    NF_evaluate_flow_type buf pos (e\<lparr>te_tpl := (te_tpl e)(NF9_IN_VLAN := otpl_zero, NF9_OUT_VLAN := otpl_zero)\<rparr>)"
proof -
  let ?e = "e\<lparr>te_tpl := (te_tpl e)(NF9_IN_VLAN := otpl_zero, NF9_OUT_VLAN := otpl_zero)\<rparr>"
  have "first_byte buf pos e t (\<lambda>b. 0 < b) = Inr False" if "t = NF9_IN_VLAN \<or> t = NF9_OUT_VLAN" for t
  proof (cases "of_len (te_tpl e t) = 0")
    case False
    then have "rd8 buf (pos + unat (of_off (te_tpl e t))) = Inr 0"
      using assms [OF that] buf_at_rd8 by (auto simp: put_be16_def)
    then show ?thesis by (simp add: first_byte_def)
  qed (simp add: first_byte_def)
  then have "has_vlan buf pos e = Inr False" by (simp add: has_vlan_def)
  moreover have "has_vlan buf pos ?e = Inr False" by (simp add: has_vlan_def first_byte_def otpl_zero_def NF9_IN_VLAN_def NF9_OUT_VLAN_def)
  moreover have "ip_version buf pos ?e = ip_version buf pos e"
    by (simp add: ip_version_def first_byte_def NF9_IN_VLAN_def NF9_OUT_VLAN_def NF9_IP_PROTOCOL_VERSION_def NF9_IPV4_SRC_ADDR_def NF9_IPV6_SRC_ADDR_def)
  ultimately show ?thesis
    by (simp add: NF_evaluate_flow_type_def NF9_IN_VLAN_def NF9_OUT_VLAN_def NF9_IN_BYTES_def NF9_OUT_BYTES_def NF9_FLOW_BYTES_def
        NF9_MPLS_LABEL_1_def NF9_NAT_EVENT_def)
qed

text \<open>The VLANs 100 and 200 of a record with a byte counter behind them.\<close>

definition ex_vlan_entry :: template_cache_entry where
  "ex_vlan_entry = (template_init ex_agent 7 256 0 3)
     \<lparr>te_tpl := (\<lambda>_. otpl_zero)(NF9_IN_VLAN := \<lparr>of_off = 0, of_len = 2, of_tpl_len = 2\<rparr>,
        NF9_OUT_VLAN := \<lparr>of_off = 2, of_len = 2, of_tpl_len = 2\<rparr>, NF9_IN_BYTES := \<lparr>of_off = 4, of_len = 4, of_tpl_len = 4\<rparr>)\<rparr>"

lemma nf9_small_vlan_missed_witness:
  "NF_evaluate_flow_type [0, 100, 0, 200, 0, 0, 0, 64] 0 ex_vlan_entry = Inr NF9_FTYPE_TRAFFIC"
proof -
  let ?buf = "[0, 100, 0, 200, 0, 0, 0, 64] :: byte list"
  have "buf_at ?buf (0 + unat (of_off (te_tpl ex_vlan_entry NF9_IN_VLAN))) (put_be16 100)"
    "buf_at ?buf (0 + unat (of_off (te_tpl ex_vlan_entry NF9_OUT_VLAN))) (put_be16 200)"
    by (simp_all add: ex_vlan_entry_def buf_at_def put_be16_def NF9_IN_VLAN_def NF9_OUT_VLAN_def NF9_IN_BYTES_def)
  moreover have "unat (100 :: u16) < 256" "unat (200 :: u16) < 256" by simp_all
  ultimately have "of_len (te_tpl ex_vlan_entry t) = 0 \<or>
      (\<exists>v. unat v < 256 \<and> buf_at ?buf (0 + unat (of_off (te_tpl ex_vlan_entry t))) (put_be16 v))"
    if "t = NF9_IN_VLAN \<or> t = NF9_OUT_VLAN" for t using that by blast
  then have "NF_evaluate_flow_type [0, 100, 0, 200, 0, 0, 0, 64] 0 ex_vlan_entry =
    NF_evaluate_flow_type [0, 100, 0, 200, 0, 0, 0, 64] 0
      (ex_vlan_entry\<lparr>te_tpl := (te_tpl ex_vlan_entry)(NF9_IN_VLAN := otpl_zero, NF9_OUT_VLAN := otpl_zero)\<rparr>)"
    by (rule nf9_small_vlan_missed)
  also have "\<dots> = Inr NF9_FTYPE_TRAFFIC"
    by (simp add: NF_evaluate_flow_type_def has_vlan_def ip_version_def first_byte_def ex_vlan_entry_def otpl_zero_def template_init_def
        NF9_IN_VLAN_def NF9_OUT_VLAN_def NF9_IN_BYTES_def NF9_OUT_BYTES_def NF9_FLOW_BYTES_def NF9_IP_PROTOCOL_VERSION_def
        NF9_IPV4_SRC_ADDR_def NF9_IPV6_SRC_ADDR_def NF9_MPLS_LABEL_1_def NF9_NAT_EVENT_def NF9_FTYPE_TRAFFIC_def)
  finally show ?thesis .
qed

end
