(* ===== verification/Spec2Isabelle.thy ===== *)
theory Spec2Isabelle
  imports Bgp_Walk Jhash Bgp_Aspath_Pool Bgp_Ecommunity Bgp_Lcommunity Net_Load Imt_Run Bgp_Rib_Ops Bgp_Nlri_Props Bgp_Update_Props Bgp_Ends Bmp_Props Nf9_Flowsets
begin

text \<open>
  Verification library of pmacct, a set of daemons that account network traffic. It follows four
  parts of the C sources under \<^verbatim>\<open>src/src\<close>: the BGP daemon from the bytes of a session to the routing
  tables, with BMP on top of it; the decoder of NetFlow v9 and IPFIX from packets to flow records; the
  networks table that maps addresses to the rows of a file; and the in-memory table that counts
  packets.

  \<^bold>\<open>Conventions.\<close> A C function is a HOL function that returns \<open>Inr\<close> its results and the changed
  state, or \<open>Inl\<close> the fault that stops it (\<open>fault\<close> in \<open>Prelude\<close>: a NULL or dangling pointer, an access
  outside a buffer, a failed \<^verbatim>\<open>assert\<close>, a division by zero, \<^verbatim>\<open>exit_all\<close>). Return codes of the code stay return
  codes. Integers keep their width as words and wrap; structures are records, heaps are maps from
  addresses to records, buffers are byte lists with checked accesses (\<open>rd8\<close>, \<open>rd_mem\<close>, \<open>wr_mem\<close>), a pointer into
  a buffer is an offset. The host is little endian, IPv6 is compiled in and \<^verbatim>\<open>malloc\<close> succeeds. Logging and the
  text it prints are left out.

  \<^bold>\<open>The BGP daemon\<close> (\<^verbatim>\<open>bgp/\<close>). A peer sends messages; \<^verbatim>\<open>bgp_parse_msg\<close> takes them out of the receive
  buffer and runs the session; an UPDATE is decoded into path attributes, whose AS path and communities are
  shared through hash tables, and into routes, which are chained at the nodes of a radix trie, one
  per address family.

    \<^item> \<open>Bgp_Prefix\<close> (\<^verbatim>\<open>bgp_prefix.c\<close>): prefixes, masks, comparison, text. \<open>pfx_bits\<close> is the bit string a prefix denotes;
      matching and masking are stated over it, and parsing inverts printing.
    \<^item> \<open>Bgp_Table\<close> (\<^verbatim>\<open>bgp_table.c\<close>, \<^verbatim>\<open>bgp_node_match\<close> of \<^verbatim>\<open>bgp_lookup.c\<close>): the trie as a heap of nodes with parent links
      and lock counters. \<open>Bgp_Trie\<close> is its specification, a binary tree and a representation relation (\<open>table_rep\<close>,
      \<open>table_inv\<close>); \<open>Bgp_Lookup\<close> shows that \<open>bgp_node_get\<close> inserts and \<open>bgp_node_match\<close> finds the longest prefix,
      \<open>Bgp_Walk\<close> that unlocking prunes exactly the dead nodes and that a traversal visits every node once.
    \<^item> \<open>Bgp_Hash\<close> (\<^verbatim>\<open>bgp_hash.c\<close>): the chained hash table. Its interface is the locale \<open>hash_keys\<close>; \<open>attr_pool\<close> extends it
      to reference-counted shared values, and \<open>Bgp_Attr_Refs\<close>, \<open>Bgp_Aspath_Pool\<close>, \<open>Bgp_Community\<close>, \<open>Bgp_Ecommunity\<close> and \<open>Bgp_Lcommunity\<close>
      interpret them for the objects of the code: interning adds one reference to one object per
      value, releasing takes one away and frees at zero. \<open>Jhash\<close> (\<^verbatim>\<open>jhash.h\<close>) is the hash function.
    \<^item> \<open>Bgp_Aspath\<close> (\<^verbatim>\<open>bgp_aspath.c\<close>): segments, their normal form, the wire format, the text with its growing buffer and
      the merge of AS_PATH with AS4_PATH; \<open>Bgp_Aspath_Props\<close> has the normal form, the round trip with the wire format
      for any bytes around it, and the bounds of the text buffer.
    \<^item> \<open>Bgp_Community\<close>, \<open>Bgp_Values\<close>, \<open>Bgp_Ecommunity\<close>, \<open>Bgp_Lcommunity\<close> (\<^verbatim>\<open>bgp_community.c\<close>, \<^verbatim>\<open>bgp_ecommunity.c\<close>, \<^verbatim>\<open>bgp_lcommunity.c\<close>): sorted arrays
      without repetition, and their text; what the last two share is the locale \<open>value_attr\<close>.
    \<^item> \<open>Bgp_Attr\<close> (\<^verbatim>\<open>bgp_util.c\<close>): path attributes and their hash; \<open>Bgp_Attr_Refs\<close> shows that every reference count is the
      number of references there are (\<open>rt_ok\<close>).
    \<^item> \<open>Bgp_Rib\<close> (\<^verbatim>\<open>bgp_process_update\<close>, \<^verbatim>\<open>bgp_process_withdraw\<close> of \<^verbatim>\<open>bgp_msg.c\<close>, helpers of \<^verbatim>\<open>bgp_util.c\<close>, the callbacks of \<^verbatim>\<open>bmp/bmp_util.c\<close>): routes in buckets
      per peer at the nodes. \<open>Bgp_Locks\<close> and \<open>Bgp_Rib_Props\<close> view the database as a map from family, prefix and bucket to lists of
      routes (\<open>db_bucket\<close>) with an invariant \<open>db_ok\<close>: locks, attribute and peer counts are exact. \<open>Bgp_Rib_Ops\<close> shows that the
      two functions change that map in one place, and that withdrawing what was announced restores it.
    \<^item> \<open>Bgp_Nlri\<close> and \<open>Bgp_Attr_Parse\<close> (\<^verbatim>\<open>bgp_nlri_parse\<close>, \<^verbatim>\<open>bgp_attr_parse\<close> and the parsers of the attributes): decoding. \<open>Wire\<close> and \<open>Bgp_Nlri_Props\<close>
      have the wire format of routes and show that an encoded list is read back, route by route, into the map.
    \<^item> \<open>Bgp_Msg\<close> (\<^verbatim>\<open>bgp_parse_msg\<close>, OPEN, UPDATE, notifications, keepalives): \<open>session\<close> is the peer, the database and the packets sent;
      \<open>msg_step\<close> is one turn of the loop and \<open>msg_loop\<close>, a partial function, the loop itself. \<open>Bgp_Msg_Props\<close> shows when the loop
      hangs, that keepalives are answered and that the database is protected until the session
      stands. \<open>Bgp_Update_Props\<close> composes all of the above: from the bytes of UPDATE messages to the map of routes. \<open>Bgp_Ends\<close> goes
      through every function a message reaches, on arbitrary bytes: what has no loop over pointers ends with a result or
      a fault (the rules \<open>ends_intro\<close>), what has one does so on tables that are tries (\<open>tries_ok\<close>, which \<open>db_ok\<close> gives), and the
      tables stay tries; so the session loop ends when no header has length 0.
    \<^item> \<open>Bmp_Msg\<close> (\<^verbatim>\<open>bmp/bmp_msg.c\<close>, \<^verbatim>\<open>bmp/bmp_util.c\<close>): the BGP Monitoring Protocol, in which a router passes on the messages of its BGP
      peers. \<open>bmp_state\<close> is the router with its peers by address (a map, for the tree of \<^verbatim>\<open>pmsearch.c\<close>), the database and
      the events logged; memory that the code reads without having written it is an argument (\<open>junk\<close>). \<open>Bmp_Props\<close> shows
      that the UPDATEs of reports change the database in order and what is left over is kept, and the inputs the code gets wrong.

  \<^bold>\<open>NetFlow v9 and IPFIX\<close> (\<^verbatim>\<open>nfv9_template.c\<close>, \<^verbatim>\<open>process_v9_packet\<close> of \<^verbatim>\<open>nfacctd.c\<close>). An exporter announces templates, lists of fields, and sends
  records laid out by them. \<open>Nf9_Template\<close> models the templates (\<open>template_cache_entry\<close>: a table for the registry, rows for all other
  fields, and the ordered list that points into both), the cache and the resolution of variable lengths; \<open>Nf9_Packet\<close> the
  packets, with the records as they reach the switch on the flow type (\<open>flow_record\<close>). \<open>Nf9_Props\<close> shows that a template in the wire
  format gets its \<open>layout\<close> and that resolving puts every field on its value; \<open>Nf9_Records\<close> that the cache is a map and that
  the loop over a flowset finds its records; \<open>Nf9_Flowsets\<close> puts whole packets together, and has the packets that hang the
  collector, overflow an entry, or are classified wrongly.

  \<^bold>\<open>The networks table\<close> (\<^verbatim>\<open>net_aggr.c\<close>, IPv4). \<open>Net_Aggr\<close> models the rows of the file, the merge sort, the hierarchy of
  networks and the binary search with its cache. \<open>Net_Sort\<close> shows the sort to be the stable one, \<open>Net_Build\<close> that the levels are
  those of the forest of containment, \<open>Net_Lookup\<close> that the search on a well-formed hierarchy finds the most specific
  network, and \<open>Net_Load\<close> puts them together.

  \<^bold>\<open>The in-memory table\<close> (\<^verbatim>\<open>acct.c\<close>, \<^verbatim>\<open>memory.c\<close>, \<^verbatim>\<open>imt_plugin.c\<close>). \<open>Imt_Acct\<close> models the memory pools, the chains and insertion, search, reset and
  erasure. \<open>Imt_Table\<close> and \<open>Imt_Refine\<close> relate the chains to the totals per key; \<open>Imt_Run\<close> runs the plugin as a step relation
  (\<open>imt_run\<close>) and shows that the totals are those of the packets since the last erasure.

  \<^bold>\<open>Loops.\<close> Loops over counters and buffers are structural or have a measure. Loops over pointers carry a fuel that
  the definitions fix and the proofs show to be enough on well-formed states: one more than the
  addresses ever allocated for the trie (\<open>fuel_bound\<close>), two more than the elements for the chains of the in-memory
  table (\<open>chain_fuel_enough\<close>); the theorems state that these functions return \<open>Inr\<close>, or, for
  arbitrary messages, that they do not run out of it. The session loop and the loops over
  flowsets and records may run for ever and are \<open>partial_function (option)\<close>: that they return is proved where they do. \<open>bgp_peer_info_delete\<close> is modelled and has no theorem.

  \<^bold>\<open>Hypotheses\<close> of the theorems are invariants with a proof that the start state has them and the
  operations keep them, room in the counters of 32 or 64 bits, fresh addresses from \<^verbatim>\<open>malloc\<close>, and bytes in the wire
  format. Where the code goes wrong on part of its inputs, the theorem about the rest excludes that part in its
  statement and its text, and another one, or the text of the model, has the fault. Every theorem with hypotheses
  has a witness next to it.

  \<^bold>\<open>Widths.\<close> Four integers are wider than in the code, where their values are shown or known to be small: the level of a network
  (\<open>nets_levels\<close>, below 33 when rows are distinct), the number of ASNs of a segment (\<open>assegments_parse_safe\<close> bounds
  it), the size of a memory pool (\<open>request_memory_pool\<close>; \<^verbatim>\<open>int\<close> in the code, so below 2 GB), and positions in buffers. \<open>build_nets\<close>
  clears its whole stack where the code clears 32 bytes of it; no entry is read before it is written.

  \<^bold>\<open>Not modelled.\<close> The sockets, select loops, timers, configuration and JSON output of the daemons (system calls and client
  libraries); the IS-IS daemon, the sFlow agent and nDPI glue (third-party code); the other decoders of
  NetFlow and sFlow and the handlers that copy the fields of a record; the file of templates and the tables
  options data fills; the plugin processes and their ring buffers;
  telemetry; closing a BMP router and finding the BMP peer of a flow; pre-tagging maps; the output plugins. Of the modelled files: the text parsers and
  pattern filters for communities, \<^verbatim>\<open>bgp_srcdst_lookup\<close> and \<^verbatim>\<open>bgp_follow_nexthop_lookup\<close> (they walk the configuration
  and the peers of the daemon), the IPv6 twin of the networks table and the query server of the in-memory table.
\<close>

end
